(* ===== verification/Prelude.thy ===== *)
theory Prelude
  imports Main "HOL-Library.Word" "HOL-Library.Multiset"
begin

text \<open>
  What every component shares: the machine integers of the x86-64 build, the outcome of
  trusted code that may abort the process, and the word lemmas that turn page and address
  arithmetic into arithmetic on natural numbers.
\<close>

unbundle bit_operations_syntax

section \<open>Machine integers\<close>

text \<open>
  The build modelled is Linux on x86-64: \<open>uintptr_t\<close>, \<open>size_t\<close> and \<open>nacl_off64_t\<close> have 64
  bits, \<open>int\<close> and \<open>uint32_t\<close> have 32. Flag words (\<open>prot\<close>, \<open>flags\<close>) are kept as
  32-bit words, since the code only uses them bitwise; results that are compared by sign
  (negative error numbers) are \<open>int\<close>.
\<close>

type_synonym u64 = "64 word"
type_synonym u32 = "32 word"
type_synonym u8 = "8 word"

section \<open>Trusted code that may not continue\<close>

text \<open>
  \<open>NaClLog(LOG_FATAL, ...)\<close> and a failed \<open>CHECK\<close> abort the whole process; a read through a
  null pointer or past the end of an array is undefined behaviour. \<open>Access_fault\<close> is a load or
  store of trusted code in memory of the sandbox that page protection stops
  (\<open>service_runtime/nacl_copy.h\<close>). None of them returns to
  the caller, so an operation that can meet one has the result type \<open>'a exec\<close>.
\<close>

datatype fault = Log_fatal | Check_failed | Null_deref | Out_of_bounds | Aborted | Access_fault

type_synonym 'a exec = "fault + 'a"

definition ebind :: "'a exec \<Rightarrow> ('a \<Rightarrow> 'b exec) \<Rightarrow> 'b exec" where
  "ebind m f = (case m of Inl e \<Rightarrow> Inl e | Inr x \<Rightarrow> f x)"

definition echeck :: "bool \<Rightarrow> fault \<Rightarrow> unit exec" where
  "echeck c e = (if c then Inr () else Inl e)"

lemma ebind_simps [simp]:
  "ebind (Inl e) f = Inl e"
  "ebind (Inr x) f = f x"
  by (simp_all add: ebind_def)

lemma ebind_eq_Inr [simp]:
  "ebind m f = Inr z \<longleftrightarrow> (\<exists>y. m = Inr y \<and> f y = Inr z)"
  by (cases m) simp_all

lemma ebind_eq_Inl:
  "ebind m f = Inl e \<longleftrightarrow> m = Inl e \<or> (\<exists>y. m = Inr y \<and> f y = Inl e)"
  by (cases m) simp_all

lemma echeck_simps [simp]:
  "echeck True e = Inr ()"
  "echeck False e = Inl e"
  "echeck c e = Inr u \<longleftrightarrow> c"
  by (simp_all add: echeck_def)

section \<open>Words as natural numbers\<close>

named_theorems word_nat "rewrites of word comparisons and operations to natural numbers"

lemma word_less_unat [word_nat]: "(a < b) = (unat a < unat b)"
  by (rule word_less_nat_alt)

lemma word_le_unat [word_nat]: "(a \<le> b) = (unat a \<le> unat b)"
  by (rule word_le_nat_alt)

lemma word_eq_unat: "(a = b) = (unat a = unat b)"
  by (rule word_unat_eq_iff)

lemma unat_add_nowrap:
  fixes a b :: "'a::len word"
  shows "unat a + unat b < 2 ^ LENGTH('a) \<Longrightarrow> unat (a + b) = unat a + unat b"
  using unat_add_lem by blast

lemma unat_sub_nowrap:
  fixes a b :: "'a::len word"
  shows "unat b \<le> unat a \<Longrightarrow> unat (a - b) = unat a - unat b"
  by (rule unat_sub) (simp add: word_le_nat_alt)

lemma unat_drop_bit_div: "unat (drop_bit n w) = unat w div 2 ^ n"
  by (subst unat_drop_bit_eq) (simp only: drop_bit_eq_div)

lemma unat_push_bit_nowrap:
  fixes w :: "'a::len word"
  assumes "unat w * 2 ^ n < 2 ^ LENGTH('a)"
  shows "unat (push_bit n w) = unat w * 2 ^ n"
proof -
  have "push_bit n w = word_of_nat (unat w * 2 ^ n)"
    by (simp add: push_bit_eq_mult)
  moreover have "unat (word_of_nat (unat w * 2 ^ n) :: 'a word) = unat w * 2 ^ n"
    using assms by (simp only: unat_of_nat mod_less)
  ultimately show ?thesis by (simp only:)
qed

lemma unat_power_lower_nat:
  "k < LENGTH('a) \<Longrightarrow> unat ((2 :: 'a::len word) ^ k) = 2 ^ k"
proof -
  assume k: "k < LENGTH('a)"
  have "(2 :: nat) ^ k < 2 ^ LENGTH('a)" using k by simp
  then have "unat (word_of_nat (2 ^ k) :: 'a word) = 2 ^ k"
    by (simp only: unat_of_nat mod_less)
  then show ?thesis by simp
qed

lemma unat_and_mask:
  fixes w :: "'a::len word"
  shows "unat (w AND mask n) = unat w mod 2 ^ n"
  by (metis take_bit_eq_mask take_bit_eq_mod unsigned_take_bit_eq)

lemma and_not_mask_push_drop: "w AND NOT (mask n) = push_bit n (drop_bit n (w :: 'a::len word))"
  by (rule bit_word_eqI) (auto simp: bit_simps)

lemma unat_and_not_mask:
  fixes w :: "'a::len word"
  shows "unat (w AND NOT (mask n)) = unat w div 2 ^ n * 2 ^ n"
proof -
  have "unat w div 2 ^ n * 2 ^ n \<le> unat w"
    by (simp add: div_times_less_eq_dividend)
  then have "unat (drop_bit n w) * 2 ^ n < 2 ^ LENGTH('a)"
    using unsigned_less [of w, where 'a = nat] by (simp only: unat_drop_bit_div)
  then show ?thesis
    by (simp add: and_not_mask_push_drop unat_push_bit_nowrap unat_drop_bit_div)
qed

text \<open>Rounding an address up to a power of two, on natural numbers.\<close>

definition nat_round_up :: "nat \<Rightarrow> nat \<Rightarrow> nat" where
  "nat_round_up k n = (n + (2 ^ k - 1)) div 2 ^ k * 2 ^ k"

definition nat_round_down :: "nat \<Rightarrow> nat \<Rightarrow> nat" where
  "nat_round_down k n = n div 2 ^ k * 2 ^ k"

lemma nat_round_down_le: "nat_round_down k n \<le> n"
  by (simp add: nat_round_down_def div_times_less_eq_dividend)

lemma nat_round_down_gt: "n < nat_round_down k n + 2 ^ k"
  unfolding nat_round_down_def
  by (metis add.commute dividend_less_div_times mult.commute zero_less_numeral zero_less_power)

lemma nat_round_down_dvd: "2 ^ k dvd nat_round_down k n"
  by (simp add: nat_round_down_def)

lemma nat_round_down_id: "2 ^ k dvd n \<Longrightarrow> nat_round_down k n = n"
  by (simp add: nat_round_down_def)

lemma nat_round_up_eq_down: "nat_round_up k n = nat_round_down k (n + (2 ^ k - 1))"
  by (simp add: nat_round_up_def nat_round_down_def)

lemma nat_round_up_dvd: "2 ^ k dvd nat_round_up k n"
  by (simp add: nat_round_up_def)

lemma nat_round_up_ge: "n \<le> nat_round_up k n"
  using nat_round_down_gt [of "n + (2 ^ k - 1)" k] by (simp add: nat_round_up_eq_down)

lemma nat_round_up_less: "nat_round_up k n < n + 2 ^ k"
proof -
  have "nat_round_up k n \<le> n + (2 ^ k - 1)"
    using nat_round_down_le by (simp add: nat_round_up_eq_down)
  also have "\<dots> < n + 2 ^ k" by simp
  finally show ?thesis .
qed

lemma nat_round_up_id: "2 ^ k dvd n \<Longrightarrow> nat_round_up k n = n"
  using nat_round_up_ge [of n k] nat_round_up_less [of k n] nat_round_up_dvd [of k n]
  by (metis dvd_diff_nat nat_dvd_not_less le_antisym less_diff_conv2 add.commute not_le_imp_less zero_less_diff)

lemma nat_round_up_le: "2 ^ k dvd m \<Longrightarrow> n \<le> m \<Longrightarrow> nat_round_up k n \<le> m"
proof (rule ccontr)
  assume d: "2 ^ k dvd m" and le: "n \<le> m" and "\<not> nat_round_up k n \<le> m"
  then have lt: "m < nat_round_up k n" by simp
  have "2 ^ k dvd nat_round_up k n - m"
    using d by (simp add: dvd_diff_nat nat_round_up_dvd)
  then have "2 ^ k \<le> nat_round_up k n - m"
    using lt by (simp add: dvd_imp_le)
  then show False
    using nat_round_up_less [of k n] le lt by linarith
qed

lemma nat_round_down_ge: "2 ^ k dvd m \<Longrightarrow> m \<le> n \<Longrightarrow> m \<le> nat_round_down k n"
  by (metis nat_round_down_def div_le_mono dvd_div_mult_self mult_le_mono1)

lemma unat_round_down:
  "unat (w AND NOT (mask k)) = nat_round_down k (unat (w :: 'a::len word))"
  by (simp add: nat_round_down_def unat_and_not_mask)

lemma unat_round_up:
  fixes w :: "'a::len word"
  assumes "unat w + (2 ^ k - 1) < 2 ^ LENGTH('a)" and "k < LENGTH('a)"
  shows "unat ((w + (2 ^ k - 1)) AND NOT (mask k)) = nat_round_up k (unat w)"
proof -
  have "unat ((2 :: 'a word) ^ k - 1) = 2 ^ k - 1"
    using assms(2) unat_minus_one [of "2 ^ k :: 'a word"]
    by (simp add: unat_power_lower_nat)
  then show ?thesis
    using assms(1)
    by (simp add: unat_round_down unat_add_nowrap nat_round_up_eq_down)
qed

lemma unat_ucast_64: "unat (ucast (w :: u32) :: u64) = unat w"
proof -
  have "unat w < 2 ^ 64" using unsigned_less [of w] by (rule less_le_trans) simp
  then show ?thesis by (simp add: unsigned_ucast_eq take_bit_nat_eq_self)
qed

end
