(* ===== verification/CStdlib.thy ===== *)
theory CStdlib
  imports Prelude
begin

text \<open>
  The two functions of the C library that the modelled code calls with a comparison
  callback: \<open>bsearch\<close>, as glibc writes its loop, and \<open>qsort\<close>, which glibc implements as a
  stable merge sort and which is modelled as a stable insertion sort with the same callback.
  A callback is a function to \<open>int\<close> that is read by sign only. The locales state what a
  callback has to promise; each is interpreted where the callback is defined.
\<close>

section \<open>Binary search\<close>

function bsearch_loop :: "('k \<Rightarrow> 'a \<Rightarrow> int) \<Rightarrow> 'k \<Rightarrow> 'a list \<Rightarrow> nat \<Rightarrow> nat \<Rightarrow> nat option" where
  "bsearch_loop cmp k xs l u =
     (if l < u then
        (let idx = (l + u) div 2; c = cmp k (xs ! idx)
         in if c < 0 then bsearch_loop cmp k xs l idx
            else if c > 0 then bsearch_loop cmp k xs (idx + 1) u
            else Some idx)
      else None)"
  by pat_completeness auto
termination
  by (relation "measure (\<lambda>(cmp, k, xs, l, u). u - l)") auto

declare bsearch_loop.simps [simp del]

definition c_bsearch :: "('k \<Rightarrow> 'a \<Rightarrow> int) \<Rightarrow> 'k \<Rightarrow> 'a list \<Rightarrow> nat option" where
  "c_bsearch cmp k xs = bsearch_loop cmp k xs 0 (length xs)"

lemma bsearch_loop_Some:
  "bsearch_loop cmp k xs l u = Some i \<Longrightarrow> l \<le> i \<and> i < u \<and> cmp k (xs ! i) = 0"
proof (induction cmp k xs l u rule: bsearch_loop.induct)
  case (1 cmp k xs l u)
  let ?m = "(l + u) div 2"
  from "1.prems" have lu: "l < u"
    by (subst (asm) bsearch_loop.simps) (auto split: if_splits)
  consider "cmp k (xs ! ?m) < 0" | "0 < cmp k (xs ! ?m)" | "cmp k (xs ! ?m) = 0" by linarith
  then show ?case
  proof cases
    case 1
    then show ?thesis
      using "1.IH"(1) [OF lu refl refl] "1.prems" lu
      by (subst (asm) (2) bsearch_loop.simps) (auto simp: Let_def)
  next
    case 2
    then show ?thesis
      using "1.IH"(2) [OF lu refl refl] "1.prems" lu
      by (subst (asm) (2) bsearch_loop.simps) (auto simp: Let_def)
  next
    case 3
    then show ?thesis
      using "1.prems" lu by (subst (asm) bsearch_loop.simps) (auto simp: Let_def)
  qed
qed

lemma c_bsearch_Some: "c_bsearch cmp k xs = Some i \<Longrightarrow> i < length xs \<and> cmp k (xs ! i) = 0"
  by (auto simp: c_bsearch_def dest: bsearch_loop_Some)

text \<open>
  A table is searchable by a callback when the entries below the key come before the entries
  that match it, and those before the entries above it.
\<close>

locale search_table =
  fixes cmp :: "'k \<Rightarrow> 'a \<Rightarrow> int"
    and ok :: "'a list \<Rightarrow> bool"
  assumes below: "ok xs \<Longrightarrow> i < j \<Longrightarrow> j < length xs \<Longrightarrow> cmp k (xs ! i) < 0 \<Longrightarrow> cmp k (xs ! j) < 0"
    and above: "ok xs \<Longrightarrow> i < j \<Longrightarrow> j < length xs \<Longrightarrow> 0 < cmp k (xs ! j) \<Longrightarrow> 0 < cmp k (xs ! i)"
begin

lemma loop_complete:
  "ok xs \<Longrightarrow> l \<le> i \<Longrightarrow> i < u \<Longrightarrow> u \<le> length xs \<Longrightarrow> cmp k (xs ! i) = 0
    \<Longrightarrow> \<exists>j. bsearch_loop cmp k xs l u = Some j"
proof (induction "u - l" arbitrary: l u rule: less_induct)
  case less
  let ?m = "(l + u) div 2"
  have m: "l \<le> ?m" "?m < u" using less.prems by auto
  have lo: "cmp k (xs ! ?m) < 0 \<Longrightarrow> i < ?m"
    using less.prems m below [of xs ?m i k] by (cases rule: linorder_cases [of i ?m]) auto
  have hi: "0 < cmp k (xs ! ?m) \<Longrightarrow> ?m < i"
    using less.prems m above [of xs i ?m k] by (cases rule: linorder_cases [of i ?m]) auto
  consider "cmp k (xs ! ?m) < 0" | "0 < cmp k (xs ! ?m)" | "cmp k (xs ! ?m) = 0" by linarith
  then show ?case
  proof cases
    case 1
    then have "\<exists>j. bsearch_loop cmp k xs l ?m = Some j"
      using less.prems m lo by (intro less.hyps) auto
    with 1 m show ?thesis by (simp add: bsearch_loop.simps [of cmp k xs l u] Let_def)
  next
    case 2
    then have "\<exists>j. bsearch_loop cmp k xs (?m + 1) u = Some j"
      using less.prems m hi by (intro less.hyps) auto
    with 2 m show ?thesis by (simp add: bsearch_loop.simps [of cmp k xs l u] Let_def)
  next
    case 3
    with m show ?thesis by (simp add: bsearch_loop.simps [of cmp k xs l u] Let_def)
  qed
qed

lemma found: "ok xs \<Longrightarrow> i < length xs \<Longrightarrow> cmp k (xs ! i) = 0 \<Longrightarrow> \<exists>j. c_bsearch cmp k xs = Some j"
  by (auto simp: c_bsearch_def intro: loop_complete)

lemma found_iff:
  assumes "ok xs"
  shows "(c_bsearch cmp k xs \<noteq> None) = (\<exists>x \<in> set xs. cmp k x = 0)"
proof
  assume "c_bsearch cmp k xs \<noteq> None"
  then show "\<exists>x \<in> set xs. cmp k x = 0" by (auto dest!: c_bsearch_Some intro: nth_mem)
next
  assume "\<exists>x \<in> set xs. cmp k x = 0"
  then show "c_bsearch cmp k xs \<noteq> None"
    using found [OF assms] by (auto simp: in_set_conv_nth)
qed

lemma none_iff:
  assumes "ok xs"
  shows "(c_bsearch cmp k xs = None) = (\<forall>x \<in> set xs. cmp k x \<noteq> 0)"
  using found_iff [OF assms, of k] by auto

end

section \<open>Sorting\<close>

fun c_insort :: "('a \<Rightarrow> 'a \<Rightarrow> int) \<Rightarrow> 'a \<Rightarrow> 'a list \<Rightarrow> 'a list" where
  "c_insort cmp x [] = [x]"
| "c_insort cmp x (y # ys) = (if cmp x y \<le> 0 then x # y # ys else y # c_insort cmp x ys)"

definition c_qsort :: "('a \<Rightarrow> 'a \<Rightarrow> int) \<Rightarrow> 'a list \<Rightarrow> 'a list" where
  "c_qsort cmp xs = foldr (c_insort cmp) xs []"

lemma mset_c_insort [simp]: "mset (c_insort cmp x xs) = add_mset x (mset xs)"
  by (induction xs) auto

lemma mset_c_qsort [simp]: "mset (c_qsort cmp xs) = mset xs"
  by (induction xs) (auto simp: c_qsort_def)

lemma set_c_qsort [simp]: "set (c_qsort cmp xs) = set xs"
  using mset_c_qsort [of cmp xs] by (metis set_mset_mset)

lemma length_c_qsort [simp]: "length (c_qsort cmp xs) = length xs"
  using mset_c_qsort [of cmp xs] by (metis size_mset)

lemma set_c_insort [simp]: "set (c_insort cmp x xs) = insert x (set xs)"
  by (induction xs) auto

text \<open>
  A callback sorts by a key when its sign is the order of the keys, on the elements for
  which it is used.
\<close>

locale sort_callback =
  fixes cmp :: "'a \<Rightarrow> 'a \<Rightarrow> int"
    and key :: "'a \<Rightarrow> nat"
    and valid :: "'a \<Rightarrow> bool"
  assumes cmp_le: "valid x \<Longrightarrow> valid y \<Longrightarrow> (cmp x y \<le> 0) = (key x \<le> key y)"
begin

lemma sorted_insort:
  "valid x \<Longrightarrow> list_all valid xs \<Longrightarrow> sorted (map key xs) \<Longrightarrow> sorted (map key (c_insort cmp x xs))"
  by (induction xs) (auto simp: cmp_le)

lemma sorted_qsort: "list_all valid xs \<Longrightarrow> sorted (map key (c_qsort cmp xs))"
proof (induction xs)
  case Nil
  then show ?case by (simp add: c_qsort_def)
next
  case (Cons x xs)
  have "list_all valid (c_qsort cmp xs)"
    using Cons.prems by (simp add: list_all_iff)
  then show ?case
    using Cons by (simp add: c_qsort_def sorted_insort)
qed

end

end
