(* ===== verification/AddrSpace.thy ===== *)
theory AddrSpace
  imports Prelude
begin

text \<open>
  Page rounding (\<open>sel_util-inl.h\<close>, \<open>nacl_config.h\<close>) and the translation between the
  addresses untrusted code uses and the addresses of the process (\<open>sel_ldr-inl.h\<close>), for the
  x86-64 build: the sandbox occupies \<open>2 ^ addr_bits\<close> bytes from \<open>mem_start\<close>. The lemmas give
  every rounding function its meaning on natural numbers, and show that a translated address
  range never leaves the sandbox.
\<close>

section \<open>Page arithmetic\<close>

definition NACL_PAGESHIFT :: nat where "NACL_PAGESHIFT = 12"
definition NACL_PAGESIZE :: u64 where "NACL_PAGESIZE = 0x1000"
definition NACL_MAP_PAGESHIFT :: nat where "NACL_MAP_PAGESHIFT = 16"
definition NACL_MAP_PAGESIZE :: u64 where "NACL_MAP_PAGESIZE = 0x10000"
definition NACL_PAGES_PER_MAP :: u64 where "NACL_PAGES_PER_MAP = 16"

lemmas page_consts = NACL_PAGESHIFT_def NACL_PAGESIZE_def NACL_MAP_PAGESHIFT_def
  NACL_MAP_PAGESIZE_def NACL_PAGES_PER_MAP_def

definition NaClRoundPage :: "u64 \<Rightarrow> u64" where
  "NaClRoundPage nbytes = (nbytes + NACL_PAGESIZE - 1) AND NOT (NACL_PAGESIZE - 1)"

definition NaClRoundAllocPage :: "u64 \<Rightarrow> u64" where
  "NaClRoundAllocPage nbytes = (nbytes + NACL_MAP_PAGESIZE - 1) AND NOT (NACL_MAP_PAGESIZE - 1)"

definition NaClTruncPage :: "u64 \<Rightarrow> u64" where
  "NaClTruncPage nbytes = nbytes AND NOT (NACL_PAGESIZE - 1)"

definition NaClTruncAllocPage :: "u64 \<Rightarrow> u64" where
  "NaClTruncAllocPage nbytes = nbytes AND NOT (NACL_MAP_PAGESIZE - 1)"

definition NaClBytesToPages :: "u64 \<Rightarrow> u64" where
  "NaClBytesToPages nbytes = drop_bit NACL_PAGESHIFT (nbytes + NACL_PAGESIZE - 1)"

definition NaClIsPageMultiple :: "u64 \<Rightarrow> bool" where
  "NaClIsPageMultiple a \<longleftrightarrow> 0 = ((NACL_PAGESIZE - 1) AND a)"

definition NaClIsAllocPageMultiple :: "u64 \<Rightarrow> bool" where
  "NaClIsAllocPageMultiple a \<longleftrightarrow> 0 = ((NACL_MAP_PAGESIZE - 1) AND a)"

definition NaClRoundHostAllocPage :: "u64 \<Rightarrow> u64" where
  "NaClRoundHostAllocPage nbytes = NaClRoundPage nbytes"

definition NaClRoundPageNumUpToMapMultiple :: "u64 \<Rightarrow> u64" where
  "NaClRoundPageNumUpToMapMultiple npages =
     (npages + NACL_PAGES_PER_MAP - 1) AND NOT (NACL_PAGES_PER_MAP - 1)"

definition NaClTruncPageNumDownToMapMultiple :: "u64 \<Rightarrow> u64" where
  "NaClTruncPageNumDownToMapMultiple npages = npages AND NOT (NACL_PAGES_PER_MAP - 1)"

lemma page_masks:
  "NACL_PAGESIZE - 1 = mask 12" "NACL_MAP_PAGESIZE - 1 = mask 16" "NACL_PAGES_PER_MAP - 1 = mask 4"
  by (simp_all add: page_consts mask_eq_decr_exp)

lemma round_shape:
  "w + NACL_PAGESIZE - 1 = w + (2 ^ 12 - 1)"
  "w + NACL_MAP_PAGESIZE - 1 = w + (2 ^ 16 - 1)"
  "w + NACL_PAGES_PER_MAP - 1 = w + (2 ^ 4 - 1)"
  by (simp_all add: page_consts algebra_simps)

lemma unat_NaClRoundPage:
  "unat n < 2 ^ 63 \<Longrightarrow> unat (NaClRoundPage n) = nat_round_up 12 (unat n)"
  unfolding NaClRoundPage_def page_masks round_shape by (rule unat_round_up) simp_all

lemma unat_NaClRoundAllocPage:
  "unat n < 2 ^ 63 \<Longrightarrow> unat (NaClRoundAllocPage n) = nat_round_up 16 (unat n)"
  unfolding NaClRoundAllocPage_def page_masks round_shape by (rule unat_round_up) simp_all

lemma unat_NaClTruncPage: "unat (NaClTruncPage n) = nat_round_down 12 (unat n)"
  unfolding NaClTruncPage_def page_masks by (rule unat_round_down)

lemma unat_NaClTruncAllocPage: "unat (NaClTruncAllocPage n) = nat_round_down 16 (unat n)"
  unfolding NaClTruncAllocPage_def page_masks by (rule unat_round_down)

lemma unat_RoundPageNumUp:
  "unat n < 2 ^ 63 \<Longrightarrow> unat (NaClRoundPageNumUpToMapMultiple n) = nat_round_up 4 (unat n)"
  unfolding NaClRoundPageNumUpToMapMultiple_def page_masks round_shape
  by (rule unat_round_up) simp_all

lemma unat_TruncPageNumDown:
  "unat (NaClTruncPageNumDownToMapMultiple n) = nat_round_down 4 (unat n)"
  unfolding NaClTruncPageNumDownToMapMultiple_def page_masks by (rule unat_round_down)

lemma unat_NaClBytesToPages:
  "unat n < 2 ^ 63 \<Longrightarrow> unat (NaClBytesToPages n) = (unat n + 4095) div 4096"
  unfolding NaClBytesToPages_def round_shape
  by (simp add: unat_drop_bit_div unat_add_nowrap NACL_PAGESHIFT_def)

lemma NaClIsAllocPageMultiple_iff: "NaClIsAllocPageMultiple a \<longleftrightarrow> 65536 dvd unat a"
  unfolding NaClIsAllocPageMultiple_def page_masks
  using and_mask_dvd_nat [of 16 a] by (auto simp: and.commute)

lemma NaClIsPageMultiple_iff: "NaClIsPageMultiple a \<longleftrightarrow> 4096 dvd unat a"
  unfolding NaClIsPageMultiple_def page_masks
  using and_mask_dvd_nat [of 12 a] by (auto simp: and.commute)

section \<open>The sandbox and its address translation\<close>

text \<open>
  The fields of \<open>struct NaClApp\<close> that describe the address space and its text regions. The
  components extend this record with the fields they use.
\<close>

record nacl_space =
  addr_bits :: u8
  mem_start :: u64
  bundle_size :: u32
  static_text_end :: u64
  dynamic_text_start :: u64
  dynamic_text_end :: u64

definition kNaClBadAddress :: u64 where
  "kNaClBadAddress = - 1"

definition addr_limit :: "'a nacl_space_scheme \<Rightarrow> u64" where
  "addr_limit nap = push_bit (unat (addr_bits nap)) 1"

definition NaClUserToSysAddrNullOkay :: "'a nacl_space_scheme \<Rightarrow> u64 \<Rightarrow> u64" where
  "NaClUserToSysAddrNullOkay nap uaddr =
     (if addr_limit nap \<le> uaddr then kNaClBadAddress else uaddr + mem_start nap)"

definition NaClUserToSysAddr :: "'a nacl_space_scheme \<Rightarrow> u64 \<Rightarrow> u64" where
  "NaClUserToSysAddr nap uaddr =
     (if 0 = uaddr \<or> addr_limit nap \<le> uaddr then kNaClBadAddress else uaddr + mem_start nap)"

definition NaClIsUserAddr :: "'a nacl_space_scheme \<Rightarrow> u64 \<Rightarrow> bool" where
  "NaClIsUserAddr nap sysaddr \<longleftrightarrow>
     mem_start nap \<le> sysaddr \<and> sysaddr < mem_start nap + addr_limit nap"

definition NaClUserToSysAddrRange :: "'a nacl_space_scheme \<Rightarrow> u64 \<Rightarrow> u64 \<Rightarrow> u64" where
  "NaClUserToSysAddrRange nap uaddr nbytes =
     (if 0 = uaddr then kNaClBadAddress
      else let end_addr = uaddr + nbytes
           in if end_addr < uaddr then kNaClBadAddress
              else if addr_limit nap < end_addr then kNaClBadAddress
              else uaddr + mem_start nap)"

definition NaClUserToSys :: "'a nacl_space_scheme \<Rightarrow> u64 \<Rightarrow> u64 exec" where
  "NaClUserToSys nap uaddr =
     (if 0 = uaddr \<or> addr_limit nap \<le> uaddr then Inl Log_fatal else Inr (uaddr + mem_start nap))"

definition NaClSysToUser :: "'a nacl_space_scheme \<Rightarrow> u64 \<Rightarrow> u64 exec" where
  "NaClSysToUser nap sysaddr =
     (if sysaddr < mem_start nap \<or> mem_start nap + addr_limit nap \<le> sysaddr then Inl Log_fatal
      else Inr (sysaddr - mem_start nap))"

definition NaClSandboxCodeAddr :: "'a nacl_space_scheme \<Rightarrow> u64 \<Rightarrow> u64" where
  "NaClSandboxCodeAddr nap addr =
     (let addr1 = addr + (scast (bundle_size nap) - 1);
          addr2 = addr1 AND NOT (scast (bundle_size nap) - 1)
      in mem_start nap + ucast (ucast addr2 :: u32))"

definition NaClIsValidJumpTarget :: "'a nacl_space_scheme \<Rightarrow> u64 \<Rightarrow> bool" where
  "NaClIsValidJumpTarget nap addr =
     (if 0 \<noteq> addr AND (scast (bundle_size nap) - 1) then False
      else addr < dynamic_text_end nap)"

text \<open>
  What the loader establishes on x86-64 Linux: at most 32 address bits, a sandbox base that
  is a multiple of 4GB, and a sandbox inside the 47-bit user half of the process.
\<close>

definition space_ok :: "'a nacl_space_scheme \<Rightarrow> bool" where
  "space_ok nap \<longleftrightarrow> unat (addr_bits nap) \<le> 32 \<and> 2 ^ 32 dvd unat (mem_start nap)
     \<and> 0 < mem_start nap \<and> unat (mem_start nap) + 2 ^ unat (addr_bits nap) \<le> 2 ^ 47"

lemma unat_addr_limit: "space_ok nap \<Longrightarrow> unat (addr_limit nap) = 2 ^ unat (addr_bits nap)"
  unfolding addr_limit_def push_bit_of_1 space_ok_def
  by (intro unat_power_lower_nat) simp

lemma addr_limit_le: "space_ok nap \<Longrightarrow> unat (addr_limit nap) \<le> 2 ^ 32"
  unfolding unat_addr_limit by (rule power_increasing) (simp_all add: space_ok_def)

lemma space_top: "space_ok nap \<Longrightarrow> unat (mem_start nap) + unat (addr_limit nap) \<le> 2 ^ 47"
  by (simp add: unat_addr_limit space_ok_def)

lemma unat_user_to_sys:
  assumes "space_ok nap" and "unat u \<le> unat (addr_limit nap)"
  shows "unat (u + mem_start nap) = unat u + unat (mem_start nap)"
  using space_top [OF assms(1)] assms(2) by (intro unat_add_nowrap) simp

lemma NaClIsUserAddr_iff:
  assumes "space_ok nap"
  shows "NaClIsUserAddr nap a \<longleftrightarrow>
    unat (mem_start nap) \<le> unat a \<and> unat a < unat (mem_start nap) + unat (addr_limit nap)"
proof -
  have "unat (mem_start nap + addr_limit nap) = unat (mem_start nap) + unat (addr_limit nap)"
    using space_top [OF assms] by (intro unat_add_nowrap) simp
  then show ?thesis by (simp add: NaClIsUserAddr_def word_nat)
qed

lemma NaClUserToSys_Inr:
  "NaClUserToSys nap u = Inr s \<longleftrightarrow> u \<noteq> 0 \<and> u < addr_limit nap \<and> s = u + mem_start nap"
  by (auto simp: NaClUserToSys_def)

lemma NaClSysToUser_Inr:
  assumes "space_ok nap"
  shows "NaClSysToUser nap s = Inr u \<longleftrightarrow> NaClIsUserAddr nap s \<and> u = s - mem_start nap"
  by (auto simp: NaClSysToUser_def NaClIsUserAddr_def)

lemma user_addr_of_sum:
  assumes "space_ok nap" "u < addr_limit nap"
  shows "NaClIsUserAddr nap (u + mem_start nap)"
  using assms unat_user_to_sys [of nap u]
  by (simp add: NaClIsUserAddr_iff word_nat)

lemma NaClUserToSys_user:
  "space_ok nap \<Longrightarrow> NaClUserToSys nap u = Inr s \<Longrightarrow> NaClIsUserAddr nap s"
  by (auto simp: NaClUserToSys_Inr intro: user_addr_of_sum)

lemma NaClSysToUser_of_sum:
  assumes "space_ok nap" "u < addr_limit nap"
  shows "NaClSysToUser nap (u + mem_start nap) = Inr u"
  using user_addr_of_sum [OF assms] by (simp add: NaClSysToUser_Inr [OF assms(1)])

lemma sys_to_user_limit:
  assumes "space_ok nap" "NaClIsUserAddr nap s"
  shows "s - mem_start nap < addr_limit nap"
proof -
  have "unat (s - mem_start nap) = unat s - unat (mem_start nap)"
    using assms by (intro unat_sub_nowrap) (simp add: NaClIsUserAddr_iff)
  then show ?thesis
    using assms by (simp add: NaClIsUserAddr_iff word_nat) linarith
qed

lemma range_ok:
  assumes "space_ok nap" "NaClUserToSysAddrRange nap u n = s" "s \<noteq> kNaClBadAddress"
  shows "u \<noteq> 0 \<and> unat u + unat n \<le> unat (addr_limit nap) \<and> s = u + mem_start nap"
proof -
  have "u \<noteq> 0" "\<not> u + n < u" "\<not> addr_limit nap < u + n" "s = u + mem_start nap"
    using assms(2,3) by (auto simp: NaClUserToSysAddrRange_def Let_def split: if_splits)
  moreover have "unat (u + n) = unat u + unat n"
    using \<open>\<not> u + n < u\<close> by (metis no_olen_add_nat not_less unat_add_lem)
  ultimately show ?thesis by (simp add: word_nat)
qed

end
