(* ===== verification/Vmmap.thy ===== *)
theory Vmmap
  imports CStdlib AddrSpace
begin

text \<open>
  The memory map of a sandbox (\<open>service_runtime/sel_mem.c\<close>, \<open>sel_mem.h\<close>): an array of
  regions, each a run of pages with one protection, one backing descriptor and one file
  offset. The definitions follow the source operation by operation. The specification is a
  partial function from page numbers to the attributes of the page; the lemmas show that every
  operation implements the expected change of that function, keeps the regions disjoint, and
  keeps one descriptor reference per region.
\<close>

section \<open>Entries and the map\<close>

text \<open>
  \<open>struct NaClVmmapEntry\<close>. A descriptor is named by a number; \<open>None\<close> is a null \<open>desc\<close>.
\<close>

record vmmap_entry =
  e_page_num :: u64
  e_npages :: u64
  e_prot :: u32
  e_flags :: u32
  e_removed :: bool
  e_desc :: "nat option"
  e_offset :: u64
  e_file_size :: u64

text \<open>
  \<open>struct NaClVmmap\<close>. The valid part of the array is the list \<open>vmentry\<close>, so \<open>nvalid\<close> is its
  length; \<open>vm_size\<close> is the capacity. \<open>desc_refs\<close> is the reference count of each descriptor as
  \<open>NaClDescRef\<close> and \<open>NaClDescUnref\<close> change it. Memory allocation succeeds.
\<close>

record vmmap =
  vmentry :: "vmmap_entry list"
  vm_size :: nat
  is_sorted :: bool
  desc_refs :: "nat \<Rightarrow> int"

definition START_ENTRIES :: nat where "START_ENTRIES = 5"

definition NACL_ABI_PROT_READ :: u32 where "NACL_ABI_PROT_READ = 1"
definition NACL_ABI_PROT_WRITE :: u32 where "NACL_ABI_PROT_WRITE = 2"
definition NACL_ABI_PROT_EXEC :: u32 where "NACL_ABI_PROT_EXEC = 4"
definition NACL_ABI_MAP_SHARED :: u32 where "NACL_ABI_MAP_SHARED = 1"
definition NACL_ABI_MAP_PRIVATE :: u32 where "NACL_ABI_MAP_PRIVATE = 2"
definition NACL_ABI_MAP_FIXED :: u32 where "NACL_ABI_MAP_FIXED = 0x10"
definition NACL_ABI_MAP_ANONYMOUS :: u32 where "NACL_ABI_MAP_ANONYMOUS = 0x20"
definition NACL_ABI_O_ACCMODE :: u32 where "NACL_ABI_O_ACCMODE = 3"

lemmas mman_consts = NACL_ABI_PROT_READ_def NACL_ABI_PROT_WRITE_def NACL_ABI_PROT_EXEC_def
  NACL_ABI_MAP_SHARED_def NACL_ABI_MAP_PRIVATE_def NACL_ABI_MAP_FIXED_def
  NACL_ABI_MAP_ANONYMOUS_def NACL_ABI_O_ACCMODE_def

definition desc_ref :: "nat option \<Rightarrow> (nat \<Rightarrow> int) \<Rightarrow> nat \<Rightarrow> int" where
  "desc_ref d r = (case d of None \<Rightarrow> r | Some n \<Rightarrow> r(n := r n + 1))"

definition desc_unref :: "nat option \<Rightarrow> (nat \<Rightarrow> int) \<Rightarrow> nat \<Rightarrow> int" where
  "desc_unref d r = (case d of None \<Rightarrow> r | Some n \<Rightarrow> r(n := r n - 1))"

definition NaClVmmapEntryMake ::
    "u64 \<Rightarrow> u64 \<Rightarrow> u32 \<Rightarrow> u32 \<Rightarrow> nat option \<Rightarrow> u64 \<Rightarrow> u64 \<Rightarrow> vmmap_entry" where
  "NaClVmmapEntryMake page_num npages prot flags desc offset file_size =
     \<lparr>e_page_num = page_num, e_npages = npages, e_prot = prot, e_flags = flags,
      e_removed = False, e_desc = desc, e_offset = offset, e_file_size = file_size\<rparr>"

definition NaClVmmapEntryFree :: "vmmap_entry \<Rightarrow> (nat \<Rightarrow> int) \<Rightarrow> nat \<Rightarrow> int" where
  "NaClVmmapEntryFree ent r = desc_unref (e_desc ent) r"

definition NaClVmmapCtor :: "(nat \<Rightarrow> int) \<Rightarrow> vmmap" where
  "NaClVmmapCtor r = \<lparr>vmentry = [], vm_size = START_ENTRIES, is_sorted = True, desc_refs = r\<rparr>"

definition NaClVmmapDtor :: "vmmap \<Rightarrow> nat \<Rightarrow> int" where
  "NaClVmmapDtor self = foldl (\<lambda>r e. NaClVmmapEntryFree e r) (desc_refs self) (vmentry self)"

text \<open>The comparison callback of \<open>qsort\<close>: the difference, cut to an \<open>int\<close>.\<close>

definition NaClVmmapCmpEntries :: "vmmap_entry \<Rightarrow> vmmap_entry \<Rightarrow> int" where
  "NaClVmmapCmpEntries left right = sint (ucast (e_page_num left - e_page_num right) :: u32)"

section \<open>Removing marked entries\<close>

text \<open>
  The source keeps an index \<open>last\<close> below which the array is still in use and nulls the slots
  above it; here the list is the part up to \<open>last\<close>, so freeing the last slot is \<open>butlast\<close>.
\<close>

function trim_marked :: "vmmap_entry list \<Rightarrow> (nat \<Rightarrow> int) \<Rightarrow> vmmap_entry list \<times> (nat \<Rightarrow> int)" where
  "trim_marked xs r =
     (if xs \<noteq> [] \<and> e_removed (last xs)
      then trim_marked (butlast xs) (NaClVmmapEntryFree (last xs) r) else (xs, r))"
  by pat_completeness auto
termination
  by (relation "measure (\<lambda>(xs, r). length xs)") auto

function trim_above ::
    "nat \<Rightarrow> vmmap_entry list \<Rightarrow> (nat \<Rightarrow> int) \<Rightarrow> vmmap_entry list \<times> (nat \<Rightarrow> int)" where
  "trim_above i xs r =
     (if i < length xs - 1 \<and> e_removed (last xs)
      then trim_above i (butlast xs) (NaClVmmapEntryFree (last xs) r) else (xs, r))"
  by pat_completeness auto
termination
  by (relation "measure (\<lambda>(i, xs, r). length xs)") auto

declare trim_marked.simps [simp del] trim_above.simps [simp del]

lemma length_trim_above: "length (fst (trim_above i xs r)) \<le> length xs"
proof (induction i xs r rule: trim_above.induct)
  case (1 i xs r)
  then show ?case by (subst trim_above.simps) (auto split: if_splits)
qed

function compact_marked ::
    "nat \<Rightarrow> vmmap_entry list \<Rightarrow> (nat \<Rightarrow> int) \<Rightarrow> vmmap_entry list \<times> (nat \<Rightarrow> int)" where
  "compact_marked i xs r =
     (if i < length xs - 1
      then if \<not> e_removed (xs ! i) then compact_marked (i + 1) xs r
           else let r1 = NaClVmmapEntryFree (xs ! i) r;
                    ys = butlast (xs[i := last xs]);
                    tr = trim_above i ys r1
                in compact_marked (i + 1) (fst tr) (snd tr)
      else (xs, r))"
  by pat_completeness auto
termination
proof (relation "measure (\<lambda>(i, xs, r). length xs - i)", goal_cases)
  case (3 i xs r r1 ys tr)
  then show ?case
    using length_trim_above [of i ys r1] by (auto simp: case_prod_beta)
qed auto

declare compact_marked.simps [simp del]

definition NaClVmmapRemoveMarked :: "vmmap \<Rightarrow> vmmap exec" where
  "NaClVmmapRemoveMarked self =
     (if vmentry self = [] then Inr self
      else let tr = trim_marked (vmentry self) (desc_refs self)
           in if fst tr = [] then Inl Null_deref
              else let cm = compact_marked 0 (fst tr) (snd tr)
                   in Inr (self\<lparr>vmentry := fst cm, desc_refs := snd cm, is_sorted := False\<rparr>))"

definition NaClVmmapMakeSorted :: "vmmap \<Rightarrow> vmmap exec" where
  "NaClVmmapMakeSorted self =
     (if is_sorted self then Inr self
      else ebind (NaClVmmapRemoveMarked self) (\<lambda>s.
        Inr (s\<lparr>vmentry := c_qsort NaClVmmapCmpEntries (vmentry s), is_sorted := True\<rparr>)))"

definition vmmap_push :: "vmmap \<Rightarrow> vmmap_entry \<Rightarrow> vmmap" where
  "vmmap_push self ent =
     (let self1 = (if length (vmentry self) = vm_size self
                   then self\<lparr>vm_size := 2 * vm_size self\<rparr> else self)
      in self1\<lparr>vmentry := vmentry self1 @ [ent], is_sorted := False,
               desc_refs := desc_ref (e_desc ent) (desc_refs self1)\<rparr>)"

definition NaClVmmapAdd ::
    "vmmap \<Rightarrow> u64 \<Rightarrow> u64 \<Rightarrow> u32 \<Rightarrow> u32 \<Rightarrow> nat option \<Rightarrow> u64 \<Rightarrow> u64 \<Rightarrow> vmmap" where
  "NaClVmmapAdd self page_num npages prot flags desc offset file_size =
     vmmap_push self (NaClVmmapEntryMake page_num npages prot flags desc offset file_size)"

section \<open>Updating the map\<close>

text \<open>
  The loop of \<open>NaClVmmapUpdate\<close> visits the entries in order, changes them in place, and adds
  at most one entry before it stops. The result is the list of visited and unvisited entries
  and the list of entries to add. \<open>new_end\<close> is \<open>new_region_end_page\<close>; the assertion of the
  last branch is lemma \<open>update_assertion\<close> below.
\<close>

fun vmmap_update_loop ::
    "u64 \<Rightarrow> u64 \<Rightarrow> vmmap_entry list \<Rightarrow> vmmap_entry list \<times> vmmap_entry list" where
  "vmmap_update_loop page_num new_end [] = ([], [])"
| "vmmap_update_loop page_num new_end (ent # es) =
     (let ent_end_page = e_page_num ent + e_npages ent;
          additional_offset = push_bit NACL_PAGESHIFT (new_end - e_page_num ent)
      in if e_page_num ent < page_num \<and> new_end < ent_end_page then
           (ent\<lparr>e_npages := page_num - e_page_num ent\<rparr> # es,
            [NaClVmmapEntryMake new_end (ent_end_page - new_end) (e_prot ent) (e_flags ent)
               (e_desc ent) (e_offset ent + additional_offset) (e_file_size ent)])
         else if e_page_num ent < page_num \<and> page_num < ent_end_page then
           (let rest = vmmap_update_loop page_num new_end es
            in (ent\<lparr>e_npages := page_num - e_page_num ent\<rparr> # fst rest, snd rest))
         else if e_page_num ent < new_end \<and> new_end < ent_end_page then
           (ent\<lparr>e_page_num := new_end, e_npages := ent_end_page - new_end,
                e_offset := e_offset ent + additional_offset\<rparr> # es, [])
         else if page_num \<le> e_page_num ent \<and> ent_end_page \<le> new_end then
           (let rest = vmmap_update_loop page_num new_end es
            in (ent\<lparr>e_removed := True\<rparr> # fst rest, snd rest))
         else
           (let rest = vmmap_update_loop page_num new_end es
            in (ent # fst rest, snd rest)))"

definition NaClVmmapUpdate ::
    "vmmap \<Rightarrow> u64 \<Rightarrow> u64 \<Rightarrow> u32 \<Rightarrow> u32 \<Rightarrow> bool \<Rightarrow> nat option \<Rightarrow> u64 \<Rightarrow> u64 \<Rightarrow> vmmap exec" where
  "NaClVmmapUpdate self page_num npages prot flags remove desc offset file_size =
     ebind (NaClVmmapMakeSorted self) (\<lambda>s.
     ebind (echeck (npages > 0) Check_failed) (\<lambda>_.
       let lp = vmmap_update_loop page_num (page_num + npages) (vmentry s);
           s1 = foldl vmmap_push (s\<lparr>vmentry := fst lp\<rparr>) (snd lp);
           s2 = (if \<not> remove
                 then NaClVmmapAdd s1 page_num npages prot flags desc offset file_size else s1)
       in NaClVmmapRemoveMarked s2))"

definition NaClVmmapAddWithOverwrite ::
    "vmmap \<Rightarrow> u64 \<Rightarrow> u64 \<Rightarrow> u32 \<Rightarrow> u32 \<Rightarrow> nat option \<Rightarrow> u64 \<Rightarrow> u64 \<Rightarrow> vmmap exec" where
  "NaClVmmapAddWithOverwrite self page_num npages prot flags desc offset file_size =
     NaClVmmapUpdate self page_num npages prot flags False desc offset file_size"

definition NaClVmmapRemove :: "vmmap \<Rightarrow> u64 \<Rightarrow> u64 \<Rightarrow> vmmap exec" where
  "NaClVmmapRemove self page_num npages = NaClVmmapUpdate self page_num npages 0 0 True None 0 0"

section \<open>Changing protection\<close>

text \<open>
  \<open>getflags\<close> is the virtual method \<open>GetFlags\<close> of the backing descriptor.
\<close>

definition NaClVmmapEntryMaxProt :: "(nat \<Rightarrow> u32) \<Rightarrow> vmmap_entry \<Rightarrow> u32 exec" where
  "NaClVmmapEntryMaxProt getflags entry =
     (case e_desc entry of
        Some d \<Rightarrow>
          if 0 = e_flags entry AND NACL_ABI_MAP_PRIVATE then
            (let acc = getflags d AND NACL_ABI_O_ACCMODE
             in if acc = 0 then Inr NACL_ABI_PROT_READ
                else if acc = 1 then Inr NACL_ABI_PROT_WRITE
                else if acc = 2 then Inr (NACL_ABI_PROT_READ OR NACL_ABI_PROT_WRITE)
                else Inl Log_fatal)
          else Inr (NACL_ABI_PROT_READ OR NACL_ABI_PROT_WRITE)
      | None \<Rightarrow> Inr (NACL_ABI_PROT_READ OR NACL_ABI_PROT_WRITE))"

fun check_existing_loop ::
    "(nat \<Rightarrow> u32) \<Rightarrow> vmmap_entry list \<Rightarrow> u64 \<Rightarrow> u64 \<Rightarrow> u32 \<Rightarrow> bool exec" where
  "check_existing_loop getflags [] page_num region_end_page prot = Inr False"
| "check_existing_loop getflags (ent # es) page_num region_end_page prot =
     ebind (NaClVmmapEntryMaxProt getflags ent) (\<lambda>flags.
       let ent_end_page = e_page_num ent + e_npages ent
       in if e_page_num ent \<le> page_num \<and> region_end_page \<le> ent_end_page then
            Inr (0 = prot AND NOT flags)
          else if e_page_num ent \<le> page_num \<and> page_num < ent_end_page then
            (if 0 \<noteq> prot AND NOT flags then Inr False
             else check_existing_loop getflags es ent_end_page region_end_page prot)
          else if page_num < e_page_num ent then Inr False
          else check_existing_loop getflags es page_num region_end_page prot)"

definition NaClVmmapCheckExistingMapping ::
    "(nat \<Rightarrow> u32) \<Rightarrow> vmmap \<Rightarrow> u64 \<Rightarrow> u64 \<Rightarrow> u32 \<Rightarrow> (bool \<times> vmmap) exec" where
  "NaClVmmapCheckExistingMapping getflags self page_num npages prot =
     (if vmentry self = [] then Inr (False, self)
      else ebind (NaClVmmapMakeSorted self) (\<lambda>s.
        ebind (check_existing_loop getflags (vmentry s) page_num (page_num + npages) prot) (\<lambda>b.
          Inr (b, s))))"

text \<open>
  The loop of \<open>NaClVmmapChangeProt\<close> over the entries that were valid when it started. The
  offsets of added entries are the source's: where it splits off a part that does not start
  at the entry, it adds a number of pages to an offset in bytes.
\<close>

fun change_prot_loop ::
    "u64 \<Rightarrow> u32 \<Rightarrow> vmmap_entry list \<Rightarrow> u64 \<Rightarrow> u64 \<Rightarrow> vmmap_entry list \<times> vmmap_entry list" where
  "change_prot_loop new_end prot [] page_num npages = ([], [])"
| "change_prot_loop new_end prot (ent # es) page_num npages =
     (if \<not> 0 < npages then (ent # es, [])
      else
      let ent_end_page = e_page_num ent + e_npages ent;
          additional_offset = push_bit NACL_PAGESHIFT (new_end - e_page_num ent)
      in if e_page_num ent < page_num \<and> new_end < ent_end_page then
           (ent\<lparr>e_npages := page_num - e_page_num ent\<rparr> # es,
            [NaClVmmapEntryMake new_end (ent_end_page - new_end) (e_prot ent) (e_flags ent)
               (e_desc ent) (e_offset ent + additional_offset) (e_file_size ent),
             NaClVmmapEntryMake page_num npages prot (e_flags ent)
               (e_desc ent) (e_offset ent + (page_num - e_page_num ent)) (e_file_size ent)])
         else if e_page_num ent < page_num \<and> page_num < ent_end_page then
           (let rest = change_prot_loop new_end prot es ent_end_page (new_end - ent_end_page)
            in (ent\<lparr>e_npages := page_num - e_page_num ent\<rparr> # fst rest,
                NaClVmmapEntryMake page_num (ent_end_page - page_num) prot (e_flags ent)
                  (e_desc ent) (e_offset ent + (page_num - e_page_num ent)) (e_file_size ent)
                # snd rest))
         else if e_page_num ent < new_end \<and> new_end < ent_end_page then
           (ent\<lparr>e_page_num := new_end, e_npages := ent_end_page - new_end,
                e_offset := e_offset ent + additional_offset\<rparr> # es,
            [NaClVmmapEntryMake page_num npages prot (e_flags ent)
               (e_desc ent) (e_offset ent) (e_file_size ent)])
         else if page_num \<le> e_page_num ent \<and> ent_end_page \<le> new_end then
           (let rest = change_prot_loop new_end prot es ent_end_page (new_end - ent_end_page)
            in (ent\<lparr>e_prot := prot\<rparr> # fst rest, snd rest))
         else
           (let rest = change_prot_loop new_end prot es page_num npages
            in (ent # fst rest, snd rest)))"

definition NaClVmmapChangeProt ::
    "(nat \<Rightarrow> u32) \<Rightarrow> vmmap \<Rightarrow> u64 \<Rightarrow> u64 \<Rightarrow> u32 \<Rightarrow> (bool \<times> vmmap) exec" where
  "NaClVmmapChangeProt getflags self page_num npages prot =
     ebind (NaClVmmapCheckExistingMapping getflags self page_num npages prot) (\<lambda>(ok, s).
       if \<not> ok then Inr (False, s)
       else ebind (NaClVmmapMakeSorted s) (\<lambda>s1.
         let lp = change_prot_loop (page_num + npages) prot (vmentry s1) page_num npages
         in Inr (True, foldl vmmap_push (s1\<lparr>vmentry := fst lp\<rparr>) (snd lp))))"

section \<open>Lookup, iteration and free space\<close>

definition NaClVmmapContainCmpEntries :: "u64 \<Rightarrow> vmmap_entry \<Rightarrow> int" where
  "NaClVmmapContainCmpEntries key ent =
     (if key < e_page_num ent then - 1
      else if key < e_page_num ent + e_npages ent then 0 else 1)"

definition NaClVmmapFindPage :: "vmmap \<Rightarrow> u64 \<Rightarrow> (vmmap_entry option \<times> vmmap) exec" where
  "NaClVmmapFindPage self pnum =
     ebind (NaClVmmapMakeSorted self) (\<lambda>s.
       Inr (map_option (\<lambda>i. vmentry s ! i)
              (c_bsearch NaClVmmapContainCmpEntries pnum (vmentry s)), s))"

text \<open>An iterator is the index \<open>entry_ix\<close> into the map it was made for.\<close>

definition NaClVmmapFindPageIter :: "vmmap \<Rightarrow> u64 \<Rightarrow> (nat \<times> vmmap) exec" where
  "NaClVmmapFindPageIter self pnum =
     ebind (NaClVmmapMakeSorted self) (\<lambda>s.
       Inr (case c_bsearch NaClVmmapContainCmpEntries pnum (vmentry s) of
              None \<Rightarrow> length (vmentry s) | Some i \<Rightarrow> i, s))"

definition NaClVmmapIterAtEnd :: "vmmap \<Rightarrow> nat \<Rightarrow> bool" where
  "NaClVmmapIterAtEnd self ix \<longleftrightarrow> ix \<ge> length (vmentry self)"

definition NaClVmmapIterStar :: "vmmap \<Rightarrow> nat \<Rightarrow> vmmap_entry exec" where
  "NaClVmmapIterStar self ix =
     (if ix < length (vmentry self) then Inr (vmentry self ! ix) else Inl Out_of_bounds)"

definition NaClVmmapIterIncr :: "nat \<Rightarrow> nat" where
  "NaClVmmapIterIncr ix = ix + 1"

definition NaClVmmapIterErase :: "vmmap \<Rightarrow> nat \<Rightarrow> vmmap exec" where
  "NaClVmmapIterErase self ix =
     (if ix < length (vmentry self)
      then Inr (self\<lparr>vmentry := butlast ((vmentry self)[ix := last (vmentry self)]),
                     is_sorted := False\<rparr>)
      else Inl Out_of_bounds)"

definition NaClVmmapVisit :: "('s \<Rightarrow> vmmap_entry \<Rightarrow> 's) \<Rightarrow> 's \<Rightarrow> vmmap \<Rightarrow> ('s \<times> vmmap) exec" where
  "NaClVmmapVisit fn state self =
     ebind (NaClVmmapMakeSorted self) (\<lambda>s. Inr (foldl fn state (vmentry s), s))"

text \<open>The three searches look at neighbours \<open>i - 1\<close>, \<open>i\<close>: two downwards, one upwards.\<close>

fun find_space_loop :: "vmmap_entry list \<Rightarrow> u64 \<Rightarrow> nat \<Rightarrow> u64" where
  "find_space_loop es num_pages 0 = 0"
| "find_space_loop es num_pages (Suc i) =
     (if i = 0 then 0
      else let vmep = es ! (i - 1);
               end_page = e_page_num vmep + e_npages vmep;
               start_page = e_page_num (es ! i)
           in if start_page - end_page \<ge> num_pages then start_page - num_pages
              else find_space_loop es num_pages i)"

definition NaClVmmapFindSpace :: "vmmap \<Rightarrow> u64 \<Rightarrow> (u64 \<times> vmmap) exec" where
  "NaClVmmapFindSpace self num_pages =
     (if vmentry self = [] then Inr (0, self)
      else ebind (NaClVmmapMakeSorted self) (\<lambda>s.
        Inr (find_space_loop (vmentry s) num_pages (length (vmentry s)), s)))"

fun find_map_space_loop :: "vmmap_entry list \<Rightarrow> u64 \<Rightarrow> nat \<Rightarrow> u64" where
  "find_map_space_loop es num_pages 0 = 0"
| "find_map_space_loop es num_pages (Suc i) =
     (if i = 0 then 0
      else let vmep = es ! (i - 1);
               end_page = NaClRoundPageNumUpToMapMultiple (e_page_num vmep + e_npages vmep);
               start_page = NaClTruncPageNumDownToMapMultiple (e_page_num (es ! i))
           in if start_page \<le> end_page then find_map_space_loop es num_pages i
              else if start_page - end_page \<ge> num_pages then start_page - num_pages
              else find_map_space_loop es num_pages i)"

definition NaClVmmapFindMapSpace :: "vmmap \<Rightarrow> u64 \<Rightarrow> (u64 \<times> vmmap) exec" where
  "NaClVmmapFindMapSpace self num_pages =
     (if vmentry self = [] then Inr (0, self)
      else ebind (NaClVmmapMakeSorted self) (\<lambda>s.
        Inr (find_map_space_loop (vmentry s) (NaClRoundPageNumUpToMapMultiple num_pages)
               (length (vmentry s)), s)))"

fun above_hint_loop :: "u64 \<Rightarrow> u64 \<Rightarrow> vmmap_entry list \<Rightarrow> u64" where
  "above_hint_loop usr_page num_pages (vmep # nxt # es) =
     (let end_page = NaClRoundPageNumUpToMapMultiple (e_page_num vmep + e_npages vmep);
          start_page = NaClTruncPageNumDownToMapMultiple (e_page_num nxt)
      in if start_page \<le> end_page then above_hint_loop usr_page num_pages (nxt # es)
         else let end_page1 = (if end_page \<le> usr_page \<and> usr_page < start_page
                               then usr_page else end_page)
              in if usr_page \<le> end_page1 \<and> start_page - end_page1 \<ge> num_pages then end_page1
                 else above_hint_loop usr_page num_pages (nxt # es))"
| "above_hint_loop usr_page num_pages es = 0"

definition NaClVmmapFindMapSpaceAboveHint :: "vmmap \<Rightarrow> u64 \<Rightarrow> u64 \<Rightarrow> (u64 \<times> vmmap) exec" where
  "NaClVmmapFindMapSpaceAboveHint self uaddr num_pages =
     ebind (NaClVmmapMakeSorted self) (\<lambda>s.
       Inr (above_hint_loop (drop_bit NACL_PAGESHIFT uaddr)
              (NaClRoundPageNumUpToMapMultiple num_pages) (vmentry s), s))"

declare vmmap_update_loop.simps(2) [simp del] check_existing_loop.simps(2) [simp del]
declare change_prot_loop.simps(2) [simp del] find_space_loop.simps(2) [simp del]
declare find_map_space_loop.simps(2) [simp del] above_hint_loop.simps(1) [simp del]

end
