(* ===== verification/VmmapSpec.thy ===== *)
theory VmmapSpec
  imports Vmmap
begin

text \<open>
  The specification of the memory map: which page has which attributes. \<open>infos es p\<close> is the
  multiset of attributes that the entries \<open>es\<close> give page \<open>p\<close>. It does not depend on the order
  of the entries and adds up over lists, so each loop of the map is related to it by one
  induction; a map is well formed when no page has two attributes.
\<close>

section \<open>Pages of an entry\<close>

definition e_lo :: "vmmap_entry \<Rightarrow> nat" where
  "e_lo e = unat (e_page_num e)"

definition e_hi :: "vmmap_entry \<Rightarrow> nat" where
  "e_hi e = unat (e_page_num e) + unat (e_npages e)"

definition covers :: "nat \<Rightarrow> vmmap_entry \<Rightarrow> bool" where
  "covers p e \<longleftrightarrow> \<not> e_removed e \<and> e_lo e \<le> p \<and> p < e_hi e"

text \<open>The attributes of a page: protection, flags, descriptor, file offset and file size.\<close>

record page_info =
  pg_prot :: u32
  pg_flags :: u32
  pg_desc :: "nat option"
  pg_offset :: u64
  pg_file_size :: u64

definition page_offset :: "vmmap_entry \<Rightarrow> nat \<Rightarrow> u64" where
  "page_offset e p = e_offset e + push_bit NACL_PAGESHIFT (word_of_nat p - e_page_num e)"

definition page_at :: "nat \<Rightarrow> vmmap_entry \<Rightarrow> page_info" where
  "page_at p e = \<lparr>pg_prot = e_prot e, pg_flags = e_flags e, pg_desc = e_desc e,
                  pg_offset = page_offset e p, pg_file_size = e_file_size e\<rparr>"

definition vm_lookup :: "vmmap_entry list \<Rightarrow> nat \<Rightarrow> page_info option" where
  "vm_lookup es p = map_option (page_at p) (find (covers p) es)"

definition infos :: "vmmap_entry list \<Rightarrow> nat \<Rightarrow> page_info multiset" where
  "infos es p = image_mset (page_at p) (filter_mset (covers p) (mset es))"

text \<open>
  The user address space of x86-64 has \<open>2 ^ 20\<close> pages, so no sum of page numbers wraps.
\<close>

definition vm_pages :: nat where "vm_pages = 2 ^ 20"

definition entry_ok :: "vmmap_entry \<Rightarrow> bool" where
  "entry_ok e \<longleftrightarrow> 0 < unat (e_npages e) \<and> e_hi e \<le> vm_pages"

definition entry_live :: "vmmap_entry \<Rightarrow> bool" where
  "entry_live e \<longleftrightarrow> entry_ok e \<and> \<not> e_removed e"

definition entries_wf :: "vmmap_entry list \<Rightarrow> bool" where
  "entries_wf es \<longleftrightarrow> list_all entry_live es \<and> (\<forall>p. size (infos es p) \<le> 1)"

definition before :: "vmmap_entry \<Rightarrow> vmmap_entry \<Rightarrow> bool" where
  "before a b \<longleftrightarrow> e_hi a \<le> e_lo b"

definition vm_wf :: "vmmap \<Rightarrow> bool" where
  "vm_wf s \<longleftrightarrow> entries_wf (vmentry s) \<and> length (vmentry s) \<le> vm_size s \<and> 0 < vm_size s
     \<and> (is_sorted s \<longrightarrow> sorted_wrt before (vmentry s))"

abbreviation vm_map :: "vmmap \<Rightarrow> nat \<Rightarrow> page_info option" where
  "vm_map s \<equiv> vm_lookup (vmentry s)"

lemma infos_Nil [simp]: "infos [] p = {#}"
  by (simp add: infos_def)

lemma infos_Cons: "infos (e # es) p = (if covers p e then {# page_at p e #} else {#}) + infos es p"
  by (simp add: infos_def)

lemma infos_append [simp]: "infos (xs @ ys) p = infos xs p + infos ys p"
  by (simp add: infos_def)

lemma infos_perm: "mset xs = mset ys \<Longrightarrow> infos xs p = infos ys p"
  by (simp add: infos_def)

lemma infos_filter_live:
  "mset ys = filter_mset (\<lambda>e. \<not> e_removed e) (mset xs) \<Longrightarrow> infos ys p = infos xs p"
proof -
  assume "mset ys = filter_mset (\<lambda>e. \<not> e_removed e) (mset xs)"
  then have "filter_mset (covers p) (mset ys)
      = filter_mset (\<lambda>e. covers p e \<and> \<not> e_removed e) (mset xs)"
    by (simp add: filter_filter_mset conj_commute)
  also have "\<dots> = filter_mset (covers p) (mset xs)"
    by (rule filter_mset_cong) (auto simp: covers_def)
  finally show ?thesis by (simp add: infos_def)
qed

lemma infos_empty_iff: "infos es p = {#} \<longleftrightarrow> (\<forall>e \<in> set es. \<not> covers p e)"
  by (induction es) (auto simp: infos_Cons)

lemma covers_in_infos: "e \<in> set es \<Longrightarrow> covers p e \<Longrightarrow> page_at p e \<in># infos es p"
  by (auto simp: infos_def)

lemma vm_lookup_None_iff: "vm_lookup es p = None \<longleftrightarrow> infos es p = {#}"
  by (auto simp: vm_lookup_def infos_empty_iff find_None_iff)

lemma vm_lookup_Cons:
  "vm_lookup (e # es) p = (if covers p e then Some (page_at p e) else vm_lookup es p)"
  by (simp add: vm_lookup_def)

lemma vm_lookup_infos:
  "size (infos es p) \<le> 1 \<Longrightarrow>
    infos es p = (case vm_lookup es p of None \<Rightarrow> {#} | Some x \<Rightarrow> {# x #})"
proof (induction es)
  case Nil
  then show ?case by (simp add: vm_lookup_def)
next
  case (Cons e es)
  then show ?case by (auto simp: vm_lookup_Cons infos_Cons)
qed

lemma vm_lookup_eq:
  assumes "size (infos xs p) \<le> 1" "infos ys p = infos xs p"
  shows "vm_lookup ys p = vm_lookup xs p"
  using vm_lookup_infos [OF assms(1)] vm_lookup_infos [of ys p] assms
  by (auto split: option.splits)

lemma vm_lookup_single: "infos es p = {# x #} \<Longrightarrow> vm_lookup es p = Some x"
  using vm_lookup_infos [of es p] by (auto split: option.splits)

lemma vm_lookup_covered:
  assumes "size (infos es p) \<le> 1" "e \<in> set es" "covers p e"
  shows "vm_lookup es p = Some (page_at p e)"
  using vm_lookup_infos [OF assms(1)] covers_in_infos [OF assms(2,3)]
  by (auto split: option.splits)

lemma vm_lookup_SomeD:
  "vm_lookup es p = Some x \<Longrightarrow> \<exists>e \<in> set es. covers p e \<and> x = page_at p e"
  by (auto simp: vm_lookup_def find_Some_iff)

lemma entries_wfD:
  "entries_wf es \<Longrightarrow> size (infos es p) \<le> 1"
  "entries_wf es \<Longrightarrow> e \<in> set es \<Longrightarrow> entry_live e"
  by (auto simp: entries_wf_def list_all_iff)

lemma entries_wf_perm: "mset xs = mset ys \<Longrightarrow> entries_wf xs = entries_wf ys"
  using infos_perm [of xs ys] mset_eq_setD [of xs ys] by (simp add: entries_wf_def list_all_iff)

lemma entries_wf_Cons: "entries_wf (e # es) \<Longrightarrow> entries_wf es"
proof -
  assume wf: "entries_wf (e # es)"
  have "size (infos es p) \<le> size (infos (e # es) p)" for p by (simp add: infos_Cons)
  then show ?thesis using wf by (auto simp: entries_wf_def intro: order_trans)
qed

section \<open>Order of the entries\<close>

lemma wf_sorted_before:
  "entries_wf es \<Longrightarrow> sorted (map e_lo es) \<Longrightarrow> sorted_wrt before es"
proof (induction es)
  case Nil
  then show ?case by simp
next
  case (Cons e es)
  have "before e x" if x: "x \<in> set es" for x
  proof (rule ccontr)
    assume "\<not> before e x"
    moreover have "e_lo e \<le> e_lo x" using Cons.prems(2) x by simp
    moreover have live: "entry_live e" "entry_live x"
      using Cons.prems(1) x by (auto dest: entries_wfD)
    ultimately have "covers (e_lo x) e" "covers (e_lo x) x"
      by (auto simp: covers_def before_def entry_live_def entry_ok_def e_hi_def e_lo_def)
    then have "2 \<le> size (infos (e # es) (e_lo x))"
      using covers_in_infos [OF x, of "e_lo x"]
      by (auto simp: infos_Cons Suc_le_eq simp flip: nonempty_has_size)
    then show False using entries_wfD(1) [OF Cons.prems(1), of "e_lo x"] by simp
  qed
  then show ?case
    using Cons entries_wf_Cons by auto
qed

lemma before_infos_empty:
  assumes "sorted_wrt before (e # es)" "p < e_hi e"
  shows "infos es p = {#}"
  using assms by (auto simp: infos_empty_iff covers_def before_def)

lemma sorted_disjoint:
  assumes "sorted_wrt before es"
  shows "size (infos es p) \<le> 1"
  using assms
proof (induction es)
  case Nil
  then show ?case by simp
next
  case (Cons e es)
  show ?case
  proof (cases "covers p e")
    case True
    then have "infos es p = {#}"
      using before_infos_empty [OF Cons.prems] by (simp add: covers_def)
    then show ?thesis by (simp add: infos_Cons)
  next
    case False
    then show ?thesis using Cons by (simp add: infos_Cons)
  qed
qed

end
