(* ===== verification/VmmapRefine.thy ===== *)
theory VmmapRefine
  imports VmmapSpec
begin

text \<open>
  The operations of the memory map against its specification: removal of marked entries,
  sorting, and the update, protection and search loops. Each loop is one induction on
  \<open>infos\<close>; the statements about whole operations follow in theory \<open>VmmapProps\<close>.
\<close>

section \<open>Descriptor references\<close>

text \<open>The references the entries hold on descriptor \<open>d\<close>.\<close>

definition held :: "nat \<Rightarrow> vmmap_entry list \<Rightarrow> int" where
  "held d es = int (size (filter_mset (\<lambda>e. e_desc e = Some d) (mset es)))"

definition refs_ok :: "(nat \<Rightarrow> int) \<Rightarrow> vmmap \<Rightarrow> bool" where
  "refs_ok base s \<longleftrightarrow> (\<forall>d. desc_refs s d = base d + held d (vmentry s))"

lemma held_simps [simp]:
  "held d [] = 0"
  "held d (xs @ ys) = held d xs + held d ys"
  by (simp_all add: held_def)

lemma held_Cons: "held d (e # es) = (if e_desc e = Some d then 1 else 0) + held d es"
  by (simp add: held_def)

lemma held_perm: "mset xs = mset ys \<Longrightarrow> held d xs = held d ys"
  by (simp add: held_def)

lemma desc_ref_apply: "desc_ref x r d = r d + (if x = Some d then 1 else 0)"
  by (auto simp: desc_ref_def split: option.splits)

lemma free_apply: "NaClVmmapEntryFree e r d = r d - (if e_desc e = Some d then 1 else 0)"
  by (auto simp: NaClVmmapEntryFree_def desc_unref_def split: option.splits)

section \<open>Removing marked entries\<close>

abbreviation kept :: "vmmap_entry \<Rightarrow> bool" where
  "kept e \<equiv> \<not> e_removed e"

lemma held_snoc: "xs \<noteq> [] \<Longrightarrow> held d xs = held d (butlast xs) + held d [last xs]"
  by (metis append_butlast_last_id held_simps(2))

lemma filter_snoc_removed:
  "xs \<noteq> [] \<Longrightarrow> e_removed (last xs) \<Longrightarrow> filter kept (butlast xs) = filter kept xs"
  by (metis append_butlast_last_id append_Nil2 filter.simps(1) filter.simps(2) filter_append)

lemma free_last:
  "xs \<noteq> [] \<Longrightarrow> NaClVmmapEntryFree (last xs) r d - held d (butlast xs) = r d - held d xs"
  using held_snoc [of xs d] by (simp add: free_apply held_Cons)

lemma trim_marked_spec:
  "filter kept (fst (trim_marked xs r)) = filter kept xs
    \<and> (fst (trim_marked xs r) \<noteq> [] \<longrightarrow> kept (last (fst (trim_marked xs r))))
    \<and> (\<forall>d. snd (trim_marked xs r) d - held d (fst (trim_marked xs r)) = r d - held d xs)"
proof (induction xs r rule: trim_marked.induct)
  case (1 xs r)
  show ?case
  proof (cases "xs \<noteq> [] \<and> e_removed (last xs)")
    case True
    then show ?thesis
      using "1.IH" free_last [of xs r]
      by (simp add: trim_marked.simps [of xs r] filter_snoc_removed)
  next
    case False
    then show ?thesis by (auto simp: trim_marked.simps [of xs r])
  qed
qed

lemma trim_above_spec:
  "i < length xs \<Longrightarrow> (\<exists>k. fst (trim_above i xs r) = take k xs \<and> i < k \<and> k \<le> length xs
      \<and> (k = i + 1 \<or> kept (last (take k xs))))
    \<and> filter kept (fst (trim_above i xs r)) = filter kept xs
    \<and> (\<forall>d. snd (trim_above i xs r) d - held d (fst (trim_above i xs r)) = r d - held d xs)"
proof (induction i xs r rule: trim_above.induct)
  case (1 i xs r)
  show ?case
  proof (cases "i < length xs - 1 \<and> e_removed (last xs)")
    case True
    then have ne: "xs \<noteq> []" "i < length (butlast xs)" by auto
    let ?t = "trim_above i (butlast xs) (NaClVmmapEntryFree (last xs) r)"
    have IH: "(\<exists>k. fst ?t = take k (butlast xs) \<and> i < k \<and> k \<le> length (butlast xs)
        \<and> (k = i + 1 \<or> kept (last (take k (butlast xs)))))
      \<and> filter kept (fst ?t) = filter kept (butlast xs)
      \<and> (\<forall>d. snd ?t d - held d (fst ?t) = NaClVmmapEntryFree (last xs) r d - held d (butlast xs))"
      using "1.IH" [OF True] ne by blast
    then obtain k where k: "fst ?t = take k (butlast xs)" "i < k" "k \<le> length (butlast xs)"
      "k = i + 1 \<or> kept (last (take k (butlast xs)))" by blast
    have "take k (butlast xs) = take k xs"
      using k(3) by (simp add: butlast_conv_take)
    then show ?thesis
      using IH True k ne free_last [of xs r]
      by (auto simp: trim_above.simps [of i xs r] filter_snoc_removed intro!: exI [of _ k])
  next
    case False
    then have "length xs = i + 1 \<or> kept (last xs)" using "1.prems" by auto
    then show ?thesis
      using False "1.prems" by (auto simp: trim_above.simps [of i xs r] intro!: exI [of _ "length xs"])
  qed
qed

lemma mset_move_last:
  assumes "i < length xs - 1"
  shows "mset xs = add_mset (xs ! i) (mset (butlast (xs[i := last xs])))"
proof -
  obtain bs l where xs: "xs = bs @ [l]"
    using assms by (metis length_0_conv less_nat_zero_code diff_0_eq_0 rev_exhaust)
  then have i: "i < length bs" using assms by simp
  have "mset (bs[i := l]) = add_mset l (mset bs - {# bs ! i #})"
    using i by (rule mset_update)
  moreover have "bs ! i \<in># mset bs" using i by simp
  ultimately show ?thesis
    using i by (simp add: xs list_update_append nth_append)
qed

lemma free_moved:
  assumes "i < length xs - 1"
  shows "NaClVmmapEntryFree (xs ! i) r d - held d (butlast (xs[i := last xs])) = r d - held d xs"
proof -
  have "held d xs = held d (xs ! i # butlast (xs[i := last xs]))"
    by (rule held_perm) (simp add: mset_move_last [OF assms])
  then show ?thesis by (simp add: free_apply held_Cons)
qed

lemma compact_marked_spec:
  "xs \<noteq> [] \<Longrightarrow> kept (last xs) \<Longrightarrow> \<forall>j < i. j < length xs \<longrightarrow> kept (xs ! j) \<Longrightarrow>
    filter_mset kept (mset (fst (compact_marked i xs r))) = filter_mset kept (mset xs)
    \<and> list_all kept (fst (compact_marked i xs r))
    \<and> (\<forall>d. snd (compact_marked i xs r) d - held d (fst (compact_marked i xs r)) = r d - held d xs)"
proof (induction i xs r rule: compact_marked.induct)
  case (1 i xs r)
  show ?case
  proof (cases "i < length xs - 1")
    case False
    have "kept x" if "x \<in> set xs" for x
    proof -
      obtain j where j: "j < length xs" "x = xs ! j" using \<open>x \<in> set xs\<close> by (auto simp: in_set_conv_nth)
      show ?thesis
      proof (cases "j < i")
        case True
        then show ?thesis using j "1.prems"(3) by simp
      next
        case False2: False
        then have "j = length xs - 1" using False j(1) by linarith
        then show ?thesis using j "1.prems"(1,2) by (simp add: last_conv_nth)
      qed
    qed
    then show ?thesis
      using False by (simp add: compact_marked.simps [of i xs r] list_all_iff)
  next
    case True
    show ?thesis
    proof (cases "e_removed (xs ! i)")
      case False
      then have "\<forall>j < i + 1. j < length xs \<longrightarrow> kept (xs ! j)"
        using "1.prems"(3) by (auto simp: less_Suc_eq)
      then show ?thesis
        using "1.IH"(1) [OF True False] "1.prems" True False
        by (simp add: compact_marked.simps [of i xs r])
    next
      case rem: True
      let ?ys = "butlast (xs[i := last xs])" and ?r = "NaClVmmapEntryFree (xs ! i) r"
      let ?t = "trim_above i ?ys ?r"
      have i: "i < length ?ys" using True by simp
      obtain k where k: "fst ?t = take k ?ys" "i < k" "k \<le> length ?ys"
        "k = i + 1 \<or> kept (last (take k ?ys))"
        and filt: "filter kept (fst ?t) = filter kept ?ys"
        and ref: "\<forall>d. snd ?t d - held d (fst ?t) = ?r d - held d ?ys"
        using trim_above_spec [OF i, of ?r] by blast
      have ysi: "?ys ! i = last xs" using True by (simp add: nth_butlast)
      have low: "kept (fst ?t ! j)" if "j < i + 1" for j
        using that k(1,2) i ysi "1.prems"(2,3) True
        by (cases "j = i") (auto simp: nth_butlast)
      have len: "length (fst ?t) = k" using k(1,3) by simp
      then have ne: "fst ?t \<noteq> []" using k(2) by (metis length_0_conv not_less0)
      from len have "last (fst ?t) = fst ?t ! i" if "k = i + 1"
        using that ne by (simp add: last_conv_nth)
      then have last: "kept (last (fst ?t))"
        using k(1,4) low [of i] by auto
      have IH: "filter_mset kept (mset (fst (compact_marked (i + 1) (fst ?t) (snd ?t))))
            = filter_mset kept (mset (fst ?t))
          \<and> list_all kept (fst (compact_marked (i + 1) (fst ?t) (snd ?t)))
          \<and> (\<forall>d. snd (compact_marked (i + 1) (fst ?t) (snd ?t)) d
                - held d (fst (compact_marked (i + 1) (fst ?t) (snd ?t)))
              = snd ?t d - held d (fst ?t))"
        using "1.IH"(2) [of ?r ?ys ?t] True rem ne last low by simp
      have "filter_mset kept (mset (fst ?t)) = filter_mset kept (mset ?ys)"
        by (metis filt mset_filter)
      moreover have "filter_mset kept (mset xs) = filter_mset kept (mset ?ys)"
        using mset_move_last [OF True] rem by simp
      ultimately show ?thesis
        using IH ref rem True free_moved [OF True, of r]
        by (simp add: compact_marked.simps [of i xs r] Let_def)
    qed
  qed
qed

text \<open>
  The source reads \<open>vmentry[0]->removed\<close> after the slot has been set to null when every entry
  was marked: with no entry left the operation does not report its fatal error but faults.
\<close>

lemma RemoveMarked_all_removed:
  assumes "vmentry s \<noteq> []" "\<forall>e \<in> set (vmentry s). e_removed e"
  shows "NaClVmmapRemoveMarked s = Inl Null_deref"
proof -
  have "filter kept (vmentry s) = []" using assms(2) by (simp add: filter_empty_conv)
  then have f: "filter kept (fst (trim_marked (vmentry s) (desc_refs s))) = []"
    using trim_marked_spec by simp
  have "fst (trim_marked (vmentry s) (desc_refs s)) = []"
  proof (rule ccontr)
    assume ne: "fst (trim_marked (vmentry s) (desc_refs s)) \<noteq> []"
    then have "kept (last (fst (trim_marked (vmentry s) (desc_refs s))))"
      using trim_marked_spec by blast
    then show False using f ne by (auto simp: filter_empty_conv)
  qed
  then show ?thesis using assms(1) by (simp add: NaClVmmapRemoveMarked_def Let_def)
qed

lemma RemoveMarked_ok:
  assumes "\<exists>e \<in> set (vmentry s). kept e"
  shows "\<exists>s'. NaClVmmapRemoveMarked s = Inr s'
    \<and> mset (vmentry s') = filter_mset kept (mset (vmentry s))
    \<and> vm_size s' = vm_size s \<and> \<not> is_sorted s'
    \<and> (\<forall>d. desc_refs s' d - held d (vmentry s') = desc_refs s d - held d (vmentry s))"
proof -
  let ?t = "trim_marked (vmentry s) (desc_refs s)"
  let ?c = "compact_marked 0 (fst ?t) (snd ?t)"
  note t = trim_marked_spec [of "vmentry s" "desc_refs s"]
  have "filter kept (vmentry s) \<noteq> []" using assms by (auto simp: filter_empty_conv)
  then have ne: "fst ?t \<noteq> []" using t by auto
  have c: "filter_mset kept (mset (fst ?c)) = filter_mset kept (mset (fst ?t))"
    "list_all kept (fst ?c)"
    "\<forall>d. snd ?c d - held d (fst ?c) = snd ?t d - held d (fst ?t)"
    using compact_marked_spec [of "fst ?t" 0 "snd ?t"] ne t by auto
  have "filter_mset kept (mset (fst ?c)) = mset (fst ?c)"
    using c(2) by (simp add: filter_mset_eq_conv list_all_iff)
  moreover have "filter_mset kept (mset (fst ?t)) = filter_mset kept (mset (vmentry s))"
    using t by (metis mset_filter)
  ultimately have "mset (fst ?c) = filter_mset kept (mset (vmentry s))" using c(1) by simp
  moreover have "vmentry s \<noteq> []" using assms by auto
  ultimately show ?thesis
    using ne c(3) t by (auto simp: NaClVmmapRemoveMarked_def Let_def)
qed

end
