(* ===== verification/VmmapLoops.thy ===== *)
theory VmmapLoops
  imports VmmapRefine
begin

text \<open>
  Sorting, the update loop, the protection check and the protection loop of the memory map,
  each related to the attributes it gives every page.
\<close>

section \<open>Sorting\<close>

interpretation vm_sort: sort_callback NaClVmmapCmpEntries e_lo "\<lambda>e. e_lo e \<le> vm_pages"
proof
  fix x y
  assume "e_lo x \<le> vm_pages" "e_lo y \<le> vm_pages"
  define k where "k = int (e_lo x) - int (e_lo y)"
  have k: "- (2 ^ 31) \<le> k" "k < 2 ^ 31"
    using \<open>e_lo x \<le> vm_pages\<close> \<open>e_lo y \<le> vm_pages\<close> by (auto simp: k_def vm_pages_def)
  have "e_page_num x - e_page_num y = word_of_int k"
    by (simp add: k_def e_lo_def)
  then have "NaClVmmapCmpEntries x y = sint (ucast (word_of_int k :: 64 word) :: 32 word)"
    by (simp add: NaClVmmapCmpEntries_def)
  also have "(ucast (word_of_int k :: 64 word) :: 32 word) = word_of_int k"
    by (rule ucast_down_wi) (simp add: is_down)
  also have "sint (word_of_int k :: 32 word) = signed_take_bit 31 k"
    by (simp add: sint_sbintrunc')
  also have "\<dots> = k"
    using k by (simp add: signed_take_bit_int_eq_self)
  finally show "(NaClVmmapCmpEntries x y \<le> 0) = (e_lo x \<le> e_lo y)"
    by (simp add: k_def)
qed

lemma live_lo: "entry_live e \<Longrightarrow> e_lo e \<le> vm_pages"
  by (simp add: entry_live_def entry_ok_def e_hi_def e_lo_def)

lemma MakeSorted_ok:
  assumes wf: "entries_wf (vmentry s)" and srt: "is_sorted s \<longrightarrow> sorted_wrt before (vmentry s)"
  shows "\<exists>s'. NaClVmmapMakeSorted s = Inr s' \<and> mset (vmentry s') = mset (vmentry s)
    \<and> sorted_wrt before (vmentry s') \<and> vm_size s' = vm_size s \<and> desc_refs s' = desc_refs s
    \<and> entries_wf (vmentry s')"
proof (cases "is_sorted s \<or> vmentry s = []")
  case True
  then show ?thesis
    using assms by (auto simp: NaClVmmapMakeSorted_def NaClVmmapRemoveMarked_def c_qsort_def)
next
  case False
  have live: "e \<in> set (vmentry s) \<Longrightarrow> entry_live e" for e using wf by (rule entries_wfD)
  then have "\<exists>e \<in> set (vmentry s). kept e"
    using False by (metis entry_live_def list.set_sel(1))
  then obtain s1 where s1: "NaClVmmapRemoveMarked s = Inr s1"
    "mset (vmentry s1) = filter_mset kept (mset (vmentry s))" "vm_size s1 = vm_size s"
    "\<forall>d. desc_refs s1 d - held d (vmentry s1) = desc_refs s d - held d (vmentry s)"
    using RemoveMarked_ok by blast
  have m: "mset (vmentry s1) = mset (vmentry s)"
    using s1(2) live by (simp add: filter_mset_eq_conv entry_live_def)
  let ?q = "c_qsort NaClVmmapCmpEntries (vmentry s1)"
  have mq: "mset ?q = mset (vmentry s)" using m by simp
  then have wfq: "entries_wf ?q" using wf entries_wf_perm by blast
  have "list_all (\<lambda>e. e_lo e \<le> vm_pages) (vmentry s1)"
    using live mset_eq_setD [OF m] by (auto simp: list_all_iff live_lo)
  then have "sorted_wrt before ?q"
    by (intro wf_sorted_before wfq vm_sort.sorted_qsort)
  moreover have "desc_refs s1 = desc_refs s"
    using s1(4) held_perm [OF m] by (simp add: fun_eq_iff)
  ultimately show ?thesis
    using False s1(1,3) mq wfq by (simp add: NaClVmmapMakeSorted_def)
qed

section \<open>Cutting an entry\<close>

lemma unat_end: "entry_ok e \<Longrightarrow> unat (e_page_num e + e_npages e) = e_hi e"
  unfolding e_hi_def by (rule unat_add_nowrap) (simp add: entry_ok_def e_hi_def vm_pages_def)

lemma push_bit_word_add: "push_bit n ((a :: 'a::len word) + b) = push_bit n a + push_bit n b"
  by (simp add: push_bit_eq_mult algebra_simps)

lemma push_bit_word_diff_add:
  "push_bit n ((a :: 'a::len word) - b) + push_bit n (c - a) = push_bit n (c - b)"
  using push_bit_word_add [of n "a - b" "c - a"] by (simp add: algebra_simps)

lemma cut_end:
  assumes "e_lo e < unat P"
  shows "e_lo (e\<lparr>e_npages := P - e_page_num e\<rparr>) = e_lo e"
    "e_hi (e\<lparr>e_npages := P - e_page_num e\<rparr>) = unat P"
    "page_at p (e\<lparr>e_npages := P - e_page_num e\<rparr>) = page_at p e"
    "e_removed (e\<lparr>e_npages := P - e_page_num e\<rparr>) = e_removed e"
    "0 < unat (P - e_page_num e)"
  using assms unat_sub_nowrap [of "e_page_num e" P]
  by (auto simp: e_lo_def e_hi_def page_at_def page_offset_def)

lemma cut_start_make:
  assumes "entry_ok e" "e_lo e < unat E" "unat E < e_hi e"
  defines "e' \<equiv> NaClVmmapEntryMake E (e_page_num e + e_npages e - E) (e_prot e) (e_flags e)
    (e_desc e) (e_offset e + push_bit NACL_PAGESHIFT (E - e_page_num e)) (e_file_size e)"
  shows "e_lo e' = unat E" "e_hi e' = e_hi e" "page_at p e' = page_at p e" "\<not> e_removed e'"
    "0 < unat (e_npages e')" "e_desc e' = e_desc e"
proof -
  have "unat (e_page_num e + e_npages e - E) = e_hi e - unat E"
    using assms(3) unat_end [OF assms(1)] by (simp add: unat_sub_nowrap)
  then show "e_lo e' = unat E" "e_hi e' = e_hi e" "\<not> e_removed e'" "0 < unat (e_npages e')"
    "e_desc e' = e_desc e"
    using assms(3) by (auto simp: e'_def NaClVmmapEntryMake_def e_lo_def e_hi_def)
  show "page_at p e' = page_at p e"
    by (simp add: e'_def NaClVmmapEntryMake_def page_at_def page_offset_def
        push_bit_word_diff_add add.assoc)
qed

lemma cut_start_update:
  assumes "entry_ok e" "\<not> e_removed e" "e_lo e < unat E" "unat E < e_hi e"
  shows "e\<lparr>e_page_num := E, e_npages := e_page_num e + e_npages e - E,
           e_offset := e_offset e + push_bit NACL_PAGESHIFT (E - e_page_num e)\<rparr>
       = NaClVmmapEntryMake E (e_page_num e + e_npages e - E) (e_prot e) (e_flags e)
           (e_desc e) (e_offset e + push_bit NACL_PAGESHIFT (E - e_page_num e)) (e_file_size e)"
  using assms(2) by (simp add: NaClVmmapEntryMake_def)

section \<open>The update loop\<close>

text \<open>The assertion of the update and protection loops holds whenever its branch is taken.\<close>

lemma update_assertion:
  fixes lo hi P E :: "64 word"
  assumes "\<not> (lo < P \<and> E < hi)" "\<not> (lo < P \<and> P < hi)" "\<not> (lo < E \<and> E < hi)"
    "\<not> (P \<le> lo \<and> hi \<le> E)"
  shows "E \<le> lo \<or> hi \<le> P"
  using assms by (meson leI)

definition in_range :: "u64 \<Rightarrow> u64 \<Rightarrow> nat \<Rightarrow> bool" where
  "in_range P E p \<longleftrightarrow> unat P \<le> p \<and> p < unat E"

text \<open>The five branches of the loop, by the position of the entry relative to the range.\<close>

lemma update_cases [consumes 1, case_names mid tail head all none]:
  assumes "P < (E :: u64)"
  obtains "e_lo e < unat P" "unat E < e_hi e"
    | "e_lo e < unat P" "unat P < e_hi e" "\<not> unat E < e_hi e"
    | "\<not> e_lo e < unat P" "e_lo e < unat E" "unat E < e_hi e"
    | "\<not> e_lo e < unat P" "unat P \<le> e_lo e" "e_hi e \<le> unat E"
    | "unat E \<le> e_lo e \<or> e_hi e \<le> unat P"
  by linarith

abbreviation tail_entry :: "u64 \<Rightarrow> vmmap_entry \<Rightarrow> vmmap_entry" where
  "tail_entry E e \<equiv> NaClVmmapEntryMake E (e_page_num e + e_npages e - E) (e_prot e) (e_flags e)
     (e_desc e) (e_offset e + push_bit NACL_PAGESHIFT (E - e_page_num e)) (e_file_size e)"

lemma update_loop_eqs:
  assumes "entry_live e" "P < E"
  shows update_mid: "e_lo e < unat P \<Longrightarrow> unat E < e_hi e \<Longrightarrow> vmmap_update_loop P E (e # es) =
      (e\<lparr>e_npages := P - e_page_num e\<rparr> # es, [tail_entry E e])"
    and update_tail: "e_lo e < unat P \<Longrightarrow> unat P < e_hi e \<Longrightarrow> \<not> unat E < e_hi e \<Longrightarrow>
      vmmap_update_loop P E (e # es) =
      (e\<lparr>e_npages := P - e_page_num e\<rparr> # fst (vmmap_update_loop P E es),
       snd (vmmap_update_loop P E es))"
    and update_head: "\<not> e_lo e < unat P \<Longrightarrow> e_lo e < unat E \<Longrightarrow> unat E < e_hi e \<Longrightarrow>
      vmmap_update_loop P E (e # es) = (tail_entry E e # es, [])"
    and update_all: "\<not> e_lo e < unat P \<Longrightarrow> unat P \<le> e_lo e \<Longrightarrow> e_hi e \<le> unat E \<Longrightarrow>
      vmmap_update_loop P E (e # es) =
      (e\<lparr>e_removed := True\<rparr> # fst (vmmap_update_loop P E es), snd (vmmap_update_loop P E es))"
    and update_none: "unat E \<le> e_lo e \<or> e_hi e \<le> unat P \<Longrightarrow> vmmap_update_loop P E (e # es) =
      (e # fst (vmmap_update_loop P E es), snd (vmmap_update_loop P E es))"
proof -
  have ok: "entry_ok e" "\<not> e_removed e" using assms(1) by (auto simp: entry_live_def)
  then have ne: "e_lo e < e_hi e" by (auto simp: entry_ok_def e_lo_def e_hi_def)
  have PE: "unat P < unat E" using assms(2) by (simp add: word_nat)
  note un = vmmap_update_loop.simps word_nat unat_end [OF ok(1)] e_lo_def Let_def
  show "e_lo e < unat P \<Longrightarrow> unat E < e_hi e \<Longrightarrow> vmmap_update_loop P E (e # es) =
      (e\<lparr>e_npages := P - e_page_num e\<rparr> # es, [tail_entry E e])"
    by (simp add: un)
  show "e_lo e < unat P \<Longrightarrow> unat P < e_hi e \<Longrightarrow> \<not> unat E < e_hi e \<Longrightarrow>
      vmmap_update_loop P E (e # es) =
      (e\<lparr>e_npages := P - e_page_num e\<rparr> # fst (vmmap_update_loop P E es),
       snd (vmmap_update_loop P E es))"
    by (simp add: un)
  show "\<not> e_lo e < unat P \<Longrightarrow> e_lo e < unat E \<Longrightarrow> unat E < e_hi e \<Longrightarrow>
      vmmap_update_loop P E (e # es) = (tail_entry E e # es, [])"
    using cut_start_update [OF ok, of E] by (simp add: un)
  show "\<not> e_lo e < unat P \<Longrightarrow> unat P \<le> e_lo e \<Longrightarrow> e_hi e \<le> unat E \<Longrightarrow>
      vmmap_update_loop P E (e # es) =
      (e\<lparr>e_removed := True\<rparr> # fst (vmmap_update_loop P E es), snd (vmmap_update_loop P E es))"
    by (simp add: un)
  show "unat E \<le> e_lo e \<or> e_hi e \<le> unat P \<Longrightarrow> vmmap_update_loop P E (e # es) =
      (e # fst (vmmap_update_loop P E es), snd (vmmap_update_loop P E es))"
    using PE ne by (auto simp: un)
qed

lemma tail_entry_live:
  assumes "entry_live e" "e_lo e < unat E" "unat E < e_hi e"
  shows "entry_live (tail_entry E e)" "e_desc (tail_entry E e) = e_desc e"
  using cut_start_make [OF _ assms(2,3)] assms(1) by (auto simp: entry_live_def entry_ok_def)

lemma cut_end_ok:
  assumes "entry_ok e" "e_lo e < unat P" "unat P \<le> e_hi e"
  shows "entry_ok (e\<lparr>e_npages := P - e_page_num e\<rparr>)"
  using assms cut_end [OF assms(2)] by (auto simp: entry_ok_def)

lemma update_loop_infos:
  assumes "sorted_wrt before es" "list_all entry_live es" "P < E"
  shows "infos (fst (vmmap_update_loop P E es)) p + infos (snd (vmmap_update_loop P E es)) p
    = (if in_range P E p then {#} else infos es p)"
  using assms
proof (induction es)
  case Nil
  then show ?case by simp
next
  case (Cons e es)
  have live: "entry_live e" and ok: "entry_ok e" "\<not> e_removed e"
    using Cons.prems(2) by (auto simp: entry_live_def)
  note eqs = update_loop_eqs [OF live Cons.prems(3)]
  have IH: "infos (fst (vmmap_update_loop P E es)) p + infos (snd (vmmap_update_loop P E es)) p
    = (if in_range P E p then {#} else infos es p)"
    using Cons by simp
  have late: "infos es p = {#}" if "in_range P E p" "unat E < e_hi e"
    using before_infos_empty [OF Cons.prems(1), of p] that by (simp add: in_range_def)
  have PE: "unat P < unat E" using Cons.prems(3) by (simp add: word_nat)
  note defs = infos_Cons covers_def in_range_def
  from Cons.prems(3) show ?case
  proof (cases rule: update_cases [of P E e])
    case mid
    then have "e_lo e < unat E" using PE by simp
    note cs = cut_start_make [OF ok(1) this mid(2)] and ce = cut_end [OF mid(1)]
    show ?thesis
      using late mid ok PE by (auto simp: eqs(1) [OF mid] cs ce defs)
  next
    case tail
    show ?thesis
      using IH tail ok PE by (auto simp: eqs(2) [OF tail] cut_end [OF tail(1)] defs)
  next
    case head
    show ?thesis
      using late head ok PE by (auto simp: eqs(3) [OF head] cut_start_make [OF ok(1) head(2,3)] defs)
  next
    case all
    show ?thesis using IH all ok PE by (auto simp: eqs(4) [OF all] defs)
  next
    case none
    show ?thesis using IH none ok PE by (auto simp: eqs(5) [OF none] defs)
  qed
qed

lemma update_loop_ok:
  assumes "list_all entry_live es" "P < E"
  shows "list_all (\<lambda>e. kept e \<longrightarrow> entry_ok e) (fst (vmmap_update_loop P E es))
    \<and> list_all entry_live (snd (vmmap_update_loop P E es))
    \<and> (\<forall>d. held d (fst (vmmap_update_loop P E es)) = held d es)
    \<and> length (fst (vmmap_update_loop P E es)) = length es"
  using assms
proof (induction es)
  case Nil
  then show ?case by simp
next
  case (Cons e es)
  have live: "entry_live e" and ok: "entry_ok e" using Cons.prems(1) by (auto simp: entry_live_def)
  note eqs = update_loop_eqs [OF live Cons.prems(2)]
  have PE: "unat P < unat E" using Cons.prems(2) by (simp add: word_nat)
  have rest: "list_all (\<lambda>e. kept e \<longrightarrow> entry_ok e) es"
    using Cons.prems(1) by (auto simp: list_all_iff entry_live_def)
  from Cons.prems(2) show ?case
  proof (cases rule: update_cases [of P E e])
    case mid
    then have lt: "e_lo e < unat E" using PE by simp
    show ?thesis
      using mid PE rest cut_end_ok [OF ok mid(1)] tail_entry_live [OF live lt mid(2)]
      by (simp add: eqs(1) [OF mid] held_Cons)
  next
    case tail
    then show ?thesis
      using Cons cut_end_ok [OF ok tail(1)] by (simp add: eqs(2) [OF tail] held_Cons)
  next
    case head
    then show ?thesis
      using rest tail_entry_live [OF live head(2,3)]
      by (simp add: eqs(3) [OF head] held_Cons entry_live_def)
  next
    case all
    then show ?thesis using Cons by (simp add: eqs(4) [OF all] held_Cons)
  next
    case none
    then show ?thesis using Cons ok by (simp add: eqs(5) [OF none] held_Cons)
  qed
qed

section \<open>Adding entries\<close>

lemma push_simps [simp]:
  "vmentry (vmmap_push s e) = vmentry s @ [e]"
  "is_sorted (vmmap_push s e) = False"
  "desc_refs (vmmap_push s e) d = desc_refs s d + held d [e]"
  by (simp_all add: vmmap_push_def Let_def desc_ref_apply held_Cons)

lemma push_size:
  "length (vmentry s) \<le> vm_size s \<Longrightarrow> 0 < vm_size s \<Longrightarrow>
    length (vmentry s) + 1 \<le> vm_size (vmmap_push s e) \<and> vm_size s \<le> vm_size (vmmap_push s e)"
  by (auto simp: vmmap_push_def Let_def)

lemma foldl_push:
  "vmentry (foldl vmmap_push s es) = vmentry s @ es"
  "is_sorted (foldl vmmap_push s es) = (is_sorted s \<and> es = [])"
  "desc_refs (foldl vmmap_push s es) d = desc_refs s d + held d es"
  by (induction es arbitrary: s) (simp_all add: held_Cons)

lemma foldl_push_size:
  "length (vmentry s) \<le> vm_size s \<Longrightarrow> 0 < vm_size s \<Longrightarrow>
    length (vmentry s) + length es \<le> vm_size (foldl vmmap_push s es) \<and> 0 < vm_size (foldl vmmap_push s es)"
proof (induction es arbitrary: s)
  case (Cons e es)
  then show ?case using push_size [of s e] Cons.IH [of "vmmap_push s e"] by simp
qed simp

end
