(* ===== verification/VmmapProps.thy ===== *)
theory VmmapProps
  imports VmmapLoops
begin

text \<open>
  The memory map's operations as changes of the page function: overwriting, removing,
  protecting and looking up pages, and the free-space searches.
\<close>

section \<open>Overwriting and removing\<close>

text \<open>A range of pages of the user address space.\<close>

definition range_in_space :: "u64 \<Rightarrow> u64 \<Rightarrow> bool" where
  "range_in_space P n \<longleftrightarrow> 0 < n \<and> unat P + unat n \<le> vm_pages"

definition new_page :: "u64 \<Rightarrow> u32 \<Rightarrow> u32 \<Rightarrow> nat option \<Rightarrow> u64 \<Rightarrow> u64 \<Rightarrow> nat \<Rightarrow> page_info" where
  "new_page P prot flags desc offset file_size p =
     \<lparr>pg_prot = prot, pg_flags = flags, pg_desc = desc,
      pg_offset = offset + push_bit NACL_PAGESHIFT (word_of_nat p - P), pg_file_size = file_size\<rparr>"

definition pages_of :: "u64 \<Rightarrow> u64 \<Rightarrow> nat set" where
  "pages_of P n = {unat P ..< unat P + unat n}"

lemma range_end:
  "range_in_space P n \<Longrightarrow> unat (P + n) = unat P + unat n \<and> P < P + n
    \<and> (\<forall>p. in_range P (P + n) p \<longleftrightarrow> p \<in> pages_of P n)"
proof -
  assume r: "range_in_space P n"
  then have "unat (P + n) = unat P + unat n"
    by (intro unat_add_nowrap) (simp add: range_in_space_def vm_pages_def)
  then show ?thesis
    using r by (auto simp: range_in_space_def in_range_def pages_of_def word_nat)
qed

lemma make_entry:
  assumes "range_in_space P n"
  shows "entry_live (NaClVmmapEntryMake P n prot flags desc offset file_size)"
    "covers p (NaClVmmapEntryMake P n prot flags desc offset file_size) \<longleftrightarrow> p \<in> pages_of P n"
    "page_at p (NaClVmmapEntryMake P n prot flags desc offset file_size)
      = new_page P prot flags desc offset file_size p"
  using assms
  by (auto simp: NaClVmmapEntryMake_def entry_live_def entry_ok_def range_in_space_def e_hi_def
      e_lo_def covers_def pages_of_def page_at_def page_offset_def new_page_def word_nat)

lemma vm_wfD:
  assumes "vm_wf s"
  shows "entries_wf (vmentry s)" "is_sorted s \<longrightarrow> sorted_wrt before (vmentry s)"
    "length (vmentry s) \<le> vm_size s" "0 < vm_size s" "size (infos (vmentry s) p) \<le> 1"
  using assms by (auto simp: vm_wf_def entries_wf_def)

lemma wf_sorted_state:
  assumes "vm_wf s"
  obtains s' where "NaClVmmapMakeSorted s = Inr s'" "mset (vmentry s') = mset (vmentry s)"
    "sorted_wrt before (vmentry s')" "vm_wf s'" "vm_map s' = vm_map s"
    "desc_refs s' = desc_refs s" "list_all entry_live (vmentry s')"
    "length (vmentry s') = length (vmentry s)"
proof -
  obtain s' where s': "NaClVmmapMakeSorted s = Inr s'" "mset (vmentry s') = mset (vmentry s)"
    "sorted_wrt before (vmentry s')" "vm_size s' = vm_size s" "desc_refs s' = desc_refs s"
    "entries_wf (vmentry s')"
    using MakeSorted_ok vm_wfD(1,2) [OF assms] by blast
  have len: "length (vmentry s') = length (vmentry s)" using s'(2) by (metis size_mset)
  have "vm_map s' p = vm_map s p" for p
    using vm_wfD(5) [OF assms] infos_perm [OF s'(2)] by (rule vm_lookup_eq)
  moreover have "vm_wf s'"
    using s' vm_wfD(3,4) [OF assms] len by (simp add: vm_wf_def)
  ultimately show thesis
    using s' len that by (auto simp: fun_eq_iff entries_wf_def)
qed

lemma Update_ok:
  assumes wf: "vm_wf s" and r: "range_in_space P n"
    and keep: "remove \<Longrightarrow> \<exists>p. p \<notin> pages_of P n \<and> vm_map s p \<noteq> None"
  shows "\<exists>s'. NaClVmmapUpdate s P n prot flags remove desc offset file_size = Inr s' \<and> vm_wf s'
    \<and> (\<forall>p. vm_map s' p = (if p \<in> pages_of P n
          then (if remove then None else Some (new_page P prot flags desc offset file_size p))
          else vm_map s p))
    \<and> (\<forall>d. desc_refs s' d - held d (vmentry s') = desc_refs s d - held d (vmentry s))"
proof -
  obtain s1 where s1: "NaClVmmapMakeSorted s = Inr s1" "mset (vmentry s1) = mset (vmentry s)"
    "sorted_wrt before (vmentry s1)" "vm_wf s1" "vm_map s1 = vm_map s"
    "desc_refs s1 = desc_refs s" "list_all entry_live (vmentry s1)"
    "length (vmentry s1) = length (vmentry s)"
    using wf_sorted_state [OF wf] .
  let ?new = "NaClVmmapEntryMake P n prot flags desc offset file_size"
  let ?lp = "vmmap_update_loop P (P + n) (vmentry s1)"
  let ?s2 = "foldl vmmap_push (s1\<lparr>vmentry := fst ?lp\<rparr>) (snd ?lp)"
  let ?s3 = "if \<not> remove then vmmap_push ?s2 ?new else ?s2"
  let ?all = "fst ?lp @ snd ?lp @ (if remove then [] else [?new])"
  note PE = range_end [OF r]
  have lt: "P < P + n" using PE by blast
  note li = update_loop_infos [OF s1(3,7) lt] and lo = update_loop_ok [OF s1(7) lt]
  have ents: "vmentry ?s3 = ?all" by (simp add: foldl_push(1))
  have inf: "infos ?all p = (if p \<in> pages_of P n
      then (if remove then {#} else {# new_page P prot flags desc offset file_size p #})
      else infos (vmentry s1) p)" for p
    using li [of p] PE make_entry [OF r] by (simp add: infos_Cons add.assoc [symmetric])
  have kept_all: "\<exists>e \<in> set (vmentry ?s3). kept e"
  proof (cases remove)
    case False
    then show ?thesis unfolding ents by (simp add: NaClVmmapEntryMake_def)
  next
    case True
    then obtain p where "p \<notin> pages_of P n" "vm_map s1 p \<noteq> None" using keep s1(5) by auto
    then have "infos ?all p \<noteq> {#}" using inf by (simp add: vm_lookup_None_iff)
    then show ?thesis unfolding ents infos_empty_iff by (auto simp: covers_def)
  qed
  then obtain s' where s': "NaClVmmapRemoveMarked ?s3 = Inr s'"
    "mset (vmentry s') = filter_mset kept (mset (vmentry ?s3))" "vm_size s' = vm_size ?s3"
    "\<not> is_sorted s'"
    "\<forall>d. desc_refs s' d - held d (vmentry s') = desc_refs ?s3 d - held d (vmentry ?s3)"
    using RemoveMarked_ok by blast
  have inf': "infos (vmentry s') p = infos ?all p" for p
    using infos_filter_live [OF s'(2)] ents by simp
  have le1: "size (infos (vmentry s') p) \<le> 1" for p
    using inf' inf vm_wfD(5) [OF s1(4)] by simp
  have look: "vm_map s' p = (if p \<in> pages_of P n
          then (if remove then None else Some (new_page P prot flags desc offset file_size p))
          else vm_map s p)" for p
    using inf inf' s1(5) vm_lookup_eq [OF vm_wfD(5) [OF s1(4), of p], of "vmentry s'"]
    by (auto simp: vm_lookup_None_iff intro: vm_lookup_single)
  have lives: "list_all (\<lambda>e. kept e \<longrightarrow> entry_ok e) ?all"
    using lo make_entry(1) [OF r] by (auto simp: list_all_iff entry_live_def)
  have "set (vmentry s') = {e \<in> set ?all. kept e}"
    using arg_cong [OF s'(2), of set_mset]
    by (simp only: set_mset_mset set_mset_filter ents)
  then have "list_all entry_live (vmentry s')"
    using lives by (auto simp: list_all_iff entry_live_def)
  moreover have "size (filter_mset kept (mset (vmentry ?s3))) \<le> size (mset (vmentry ?s3))"
    by (rule size_filter_mset_lesseq)
  then have "length (vmentry s') \<le> length (vmentry ?s3)"
    using s'(2) by (metis size_mset)
  moreover have "length (vmentry ?s3) \<le> vm_size ?s3 \<and> 0 < vm_size ?s3"
    using foldl_push_size [of "s1\<lparr>vmentry := fst ?lp\<rparr>" "snd ?lp"] lo vm_wfD(3,4) [OF s1(4)]
      push_size [of ?s2 ?new] by (simp add: foldl_push(1))
  ultimately have "vm_wf s'"
    using s'(3,4) le1 by (simp add: vm_wf_def entries_wf_def)
  moreover have "desc_refs ?s3 d - held d (vmentry ?s3) = desc_refs s d - held d (vmentry s)" for d
    using lo s1(6) held_perm [OF s1(2)] by (simp add: foldl_push)
  moreover have "NaClVmmapUpdate s P n prot flags remove desc offset file_size = Inr s'"
    using s1(1) s'(1) r
    by (cases remove) (simp_all add: NaClVmmapUpdate_def NaClVmmapAdd_def range_in_space_def Let_def)
  ultimately show ?thesis
    using look s'(5) by auto
qed

lemma Update_last_removed:
  assumes wf: "vm_wf s" and r: "range_in_space P n" and ne: "vmentry s \<noteq> []"
    and none: "\<forall>p. p \<notin> pages_of P n \<longrightarrow> vm_map s p = None"
  shows "NaClVmmapUpdate s P n prot flags True desc offset file_size = Inl Null_deref"
proof -
  obtain s1 where s1: "NaClVmmapMakeSorted s = Inr s1" "mset (vmentry s1) = mset (vmentry s)"
    "sorted_wrt before (vmentry s1)" "vm_wf s1" "vm_map s1 = vm_map s"
    "desc_refs s1 = desc_refs s" "list_all entry_live (vmentry s1)"
    "length (vmentry s1) = length (vmentry s)"
    using wf_sorted_state [OF wf] .
  let ?lp = "vmmap_update_loop P (P + n) (vmentry s1)"
  let ?s2 = "foldl vmmap_push (s1\<lparr>vmentry := fst ?lp\<rparr>) (snd ?lp)"
  note PE = range_end [OF r]
  have lt: "P < P + n" using PE by blast
  note li = update_loop_infos [OF s1(3,7) lt] and lo = update_loop_ok [OF s1(7) lt]
  have inf: "infos (vmentry ?s2) p = {#}" for p
    using li [of p] PE none s1(5) by (simp add: foldl_push(1) flip: vm_lookup_None_iff)
  have "e_removed e" if e: "e \<in> set (vmentry ?s2)" for e
  proof (rule ccontr)
    assume "kept e"
    then have "entry_ok e"
      using lo e by (auto simp: foldl_push(1) list_all_iff entry_live_def)
    then have "covers (e_lo e) e"
      using \<open>kept e\<close> by (auto simp: covers_def entry_ok_def e_hi_def e_lo_def)
    then show False using inf e by (auto simp: infos_empty_iff)
  qed
  moreover have "vmentry ?s2 \<noteq> []"
    using lo ne s1(8) by (auto simp: foldl_push(1))
  ultimately show ?thesis
    using s1(1) r RemoveMarked_all_removed [of ?s2]
    by (simp add: NaClVmmapUpdate_def range_in_space_def Let_def)
qed

end
