(* ===== verification/VmmapSearch.thy ===== *)
theory VmmapSearch
  imports VmmapProps
begin

text \<open>
  Page lookup by binary search and the searches for free space in the memory map.
\<close>

section \<open>Looking a page up\<close>

lemma sorted_nth_before:
  "sorted_wrt before es \<Longrightarrow> i < j \<Longrightarrow> j < length es \<Longrightarrow> e_hi (es ! i) \<le> e_lo (es ! j)"
  using sorted_wrt_nth_less [of before es i j] by (simp add: before_def)

lemma nth_live: "list_all entry_live es \<Longrightarrow> i < length es \<Longrightarrow> entry_live (es ! i) \<and> e_lo (es ! i) < e_hi (es ! i)"
  by (auto simp: list_all_length entry_live_def entry_ok_def e_lo_def e_hi_def)

lemma contain_cmp:
  assumes "entry_live e"
  shows "(NaClVmmapContainCmpEntries k e < 0) = (unat k < e_lo e)"
    "(0 < NaClVmmapContainCmpEntries k e) = (\<not> unat k < e_lo e \<and> e_hi e \<le> unat k)"
    "(NaClVmmapContainCmpEntries k e = 0) = covers (unat k) e"
  using assms unat_end [of e]
  by (auto simp: NaClVmmapContainCmpEntries_def word_nat e_lo_def entry_live_def covers_def)

interpretation vm_search: search_table NaClVmmapContainCmpEntries
  "\<lambda>es. sorted_wrt before es \<and> list_all entry_live es"
proof
  fix es i j and k :: u64
  assume es: "sorted_wrt before es \<and> list_all entry_live es" and ij: "i < j" "j < length es"
  note o = sorted_nth_before [of es i j] nth_live [of es i] nth_live [of es j]
  show "NaClVmmapContainCmpEntries k (es ! i) < 0 \<Longrightarrow> NaClVmmapContainCmpEntries k (es ! j) < 0"
    using es ij o by (auto simp: contain_cmp)
  show "0 < NaClVmmapContainCmpEntries k (es ! j) \<Longrightarrow> 0 < NaClVmmapContainCmpEntries k (es ! i)"
    using es ij o by (auto simp: contain_cmp)
qed

text \<open>A lookup may sort the map; it changes nothing the specification sees.\<close>

definition vm_same :: "vmmap \<Rightarrow> vmmap \<Rightarrow> bool" where
  "vm_same s s' \<longleftrightarrow> vm_wf s' \<and> vm_map s' = vm_map s \<and> mset (vmentry s') = mset (vmentry s)
     \<and> desc_refs s' = desc_refs s \<and> sorted_wrt before (vmentry s')
     \<and> list_all entry_live (vmentry s') \<and> length (vmentry s') = length (vmentry s)"

lemma MakeSorted_same:
  assumes "vm_wf s"
  shows "\<exists>s'. NaClVmmapMakeSorted s = Inr s' \<and> vm_same s s'"
proof -
  obtain s1 where s1: "NaClVmmapMakeSorted s = Inr s1" "mset (vmentry s1) = mset (vmentry s)"
    "sorted_wrt before (vmentry s1)" "vm_wf s1" "vm_map s1 = vm_map s"
    "desc_refs s1 = desc_refs s" "list_all entry_live (vmentry s1)"
    "length (vmentry s1) = length (vmentry s)"
    using wf_sorted_state [OF assms] .
  then have "vm_same s s1" unfolding vm_same_def by blast
  then show ?thesis using s1(1) by blast
qed

lemma FindPageIter_ok:
  assumes "vm_wf s"
  shows "\<exists>ix s'. NaClVmmapFindPageIter s pnum = Inr (ix, s') \<and> vm_same s s'
    \<and> (if vm_map s (unat pnum) = None then NaClVmmapIterAtEnd s' ix
       else ix < length (vmentry s') \<and> covers (unat pnum) (vmentry s' ! ix))"
proof -
  obtain s' where s': "NaClVmmapMakeSorted s = Inr s'" "vm_same s s'"
    using MakeSorted_same [OF assms] by blast
  then have ok: "sorted_wrt before (vmentry s') \<and> list_all entry_live (vmentry s')"
    and look: "vm_map s' = vm_map s" by (auto simp: vm_same_def)
  let ?b = "c_bsearch NaClVmmapContainCmpEntries pnum (vmentry s')"
  have "(NaClVmmapContainCmpEntries pnum e \<noteq> 0) = (\<not> covers (unat pnum) e)" if "e \<in> set (vmentry s')" for e
    using contain_cmp(3) [of e pnum] ok that by (simp add: list_all_iff)
  then have none: "(?b = None) = (vm_map s' (unat pnum) = None)"
    unfolding vm_search.none_iff [OF ok] vm_lookup_None_iff infos_empty_iff by (rule ball_cong [OF refl])
  show ?thesis
  proof (cases ?b)
    case None
    then have "vm_map s (unat pnum) = None" using none look by simp
    then show ?thesis
      using s' None by (simp add: NaClVmmapFindPageIter_def NaClVmmapIterAtEnd_def)
  next
    case (Some i)
    then have i: "i < length (vmentry s')" "covers (unat pnum) (vmentry s' ! i)"
      using c_bsearch_Some [OF Some] contain_cmp(3) nth_live ok by auto
    have "vm_map s (unat pnum) \<noteq> None" using none look Some by simp
    then show ?thesis
      using s' Some i by (auto simp: NaClVmmapFindPageIter_def)
  qed
qed

lemma FindPage_ok:
  assumes "vm_wf s"
  shows "\<exists>r s'. NaClVmmapFindPage s pnum = Inr (r, s') \<and> vm_same s s'
    \<and> map_option (page_at (unat pnum)) r = vm_map s (unat pnum)
    \<and> (\<forall>e. r = Some e \<longrightarrow> e \<in> set (vmentry s') \<and> covers (unat pnum) e)"
proof -
  obtain ix s' where ix: "NaClVmmapFindPageIter s pnum = Inr (ix, s')" "vm_same s s'"
    "if vm_map s (unat pnum) = None then NaClVmmapIterAtEnd s' ix
       else ix < length (vmentry s') \<and> covers (unat pnum) (vmentry s' ! ix)"
    using FindPageIter_ok [OF assms] by blast
  have "vm_map s (unat pnum) = Some (page_at (unat pnum) (vmentry s' ! ix))"
    if "ix < length (vmentry s')" "covers (unat pnum) (vmentry s' ! ix)"
    using vm_lookup_covered [OF vm_wfD(5) nth_mem, of s' ix "unat pnum"] that ix(2)
    by (simp add: vm_same_def)
  then show ?thesis
    using ix c_bsearch_Some [of NaClVmmapContainCmpEntries pnum "vmentry s'"]
    by (auto simp: NaClVmmapFindPage_def NaClVmmapFindPageIter_def NaClVmmapIterAtEnd_def
        split: option.splits if_splits)
qed

section \<open>Free space\<close>

lemma gap_free:
  assumes "sorted_wrt before es" "list_all entry_live es" "0 < i" "i < length es"
    and "e_hi (es ! (i - 1)) \<le> p" "p < e_lo (es ! i)"
  shows "infos es p = {#}"
proof -
  have "\<not> covers p (es ! j)" if j: "j < length es" for j
  proof (cases "j < i")
    case True
    have i1: "i - 1 < length es" using assms(4) by linarith
    have "j = i - 1 \<or> e_hi (es ! j) \<le> e_lo (es ! (i - 1))"
      using True sorted_nth_before [OF assms(1), of j "i - 1"] i1 by linarith
    then have "e_hi (es ! j) \<le> e_hi (es ! (i - 1))"
      using nth_live [OF assms(2) i1] by auto
    then show ?thesis using assms(5) by (simp add: covers_def)
  next
    case False
    have "j = i \<or> e_hi (es ! i) \<le> e_lo (es ! j)"
      using False sorted_nth_before [OF assms(1), of i j] j by linarith
    then have "e_lo (es ! i) \<le> e_lo (es ! j)"
      using nth_live [OF assms(2,4)] by auto
    then show ?thesis using assms(6) by (simp add: covers_def)
  qed
  then show ?thesis by (auto simp: infos_empty_iff in_set_conv_nth)
qed

text \<open>Room for \<open>n\<close> map pages between entry \<open>i - 1\<close> and entry \<open>i\<close>, at map page granularity.\<close>

definition map_gap :: "vmmap_entry list \<Rightarrow> nat \<Rightarrow> nat \<Rightarrow> bool" where
  "map_gap es n i \<longleftrightarrow>
     nat_round_up 4 (e_hi (es ! (i - 1))) + n \<le> nat_round_down 4 (e_lo (es ! i))"

lemma map_edges:
  assumes "list_all entry_live es" "i < length es"
  shows "unat (NaClRoundPageNumUpToMapMultiple (e_page_num (es ! i) + e_npages (es ! i)))
      = nat_round_up 4 (e_hi (es ! i))"
    "unat (NaClTruncPageNumDownToMapMultiple (e_page_num (es ! i))) = nat_round_down 4 (e_lo (es ! i))"
    "0 < nat_round_up 4 (e_hi (es ! i))"
proof -
  have ok: "entry_ok (es ! i)" "e_lo (es ! i) < e_hi (es ! i)"
    using nth_live [OF assms] by (auto simp: entry_live_def)
  then have "unat (e_page_num (es ! i) + e_npages (es ! i)) = e_hi (es ! i)" "e_hi (es ! i) \<le> 2 ^ 20"
    using unat_end by (auto simp: entry_ok_def vm_pages_def)
  then show "unat (NaClRoundPageNumUpToMapMultiple (e_page_num (es ! i) + e_npages (es ! i)))
      = nat_round_up 4 (e_hi (es ! i))"
    by (simp add: unat_RoundPageNumUp)
  show "0 < nat_round_up 4 (e_hi (es ! i))"
    using nat_round_up_ge [of "e_hi (es ! i)" 4] ok(2) by linarith
qed (simp add: unat_TruncPageNumDown e_lo_def)

lemma find_map_space_loop_spec:
  assumes "list_all entry_live es" "k \<le> length es"
  shows "(find_map_space_loop es num k = 0 \<longrightarrow> (\<forall>i. 0 < i \<and> i < k \<longrightarrow> \<not> map_gap es (unat num) i \<or> num = 0))
    \<and> (find_map_space_loop es num k \<noteq> 0 \<longrightarrow> (\<exists>i. 0 < i \<and> i < k \<and> map_gap es (unat num) i
        \<and> unat (find_map_space_loop es num k) = nat_round_down 4 (e_lo (es ! i)) - unat num))"
  using assms(2)
proof (induction k)
  case 0
  then show ?case by simp
next
  case (Suc i)
  show ?case
  proof (cases "i = 0")
    case True
    then show ?thesis by (simp add: find_map_space_loop.simps(2))
  next
    case False
    let ?e = "NaClRoundPageNumUpToMapMultiple (e_page_num (es ! (i - 1)) + e_npages (es ! (i - 1)))"
    let ?s = "NaClTruncPageNumDownToMapMultiple (e_page_num (es ! i))"
    have ue: "unat ?e = nat_round_up 4 (e_hi (es ! (i - 1)))" "0 < unat ?e"
      and us: "unat ?s = nat_round_down 4 (e_lo (es ! i))"
      using map_edges [OF assms(1), of "i - 1"] map_edges [OF assms(1), of i] Suc.prems by auto
    have sub: "unat ?e < unat ?s \<Longrightarrow> unat (?s - ?e) = unat ?s - unat ?e"
      by (simp add: unat_sub_nowrap)
    have eq: "find_map_space_loop es num (Suc i) =
      (if ?s \<le> ?e \<or> \<not> num \<le> ?s - ?e then find_map_space_loop es num i else ?s - num)"
      using False by (simp add: find_map_space_loop.simps(2) Let_def)
    show ?thesis
    proof (cases "?s \<le> ?e \<or> \<not> num \<le> ?s - ?e")
      case True
      have "\<not> unat ?e + unat num \<le> unat ?s \<or> unat num = 0"
      proof (cases "unat ?s \<le> unat ?e")
        case True
        then show ?thesis by linarith
      next
        case lt: False
        then have "\<not> unat num \<le> unat ?s - unat ?e"
          using True sub by (simp add: word_le_unat)
        then show ?thesis using lt by linarith
      qed
      then have "\<not> map_gap es (unat num) i \<or> num = 0"
        unfolding map_gap_def ue us by (simp add: unsigned_eq_0_iff)
      moreover have "find_map_space_loop es num (Suc i) = find_map_space_loop es num i"
        using True by (simp only: eq if_True)
      ultimately show ?thesis
        using Suc.IH [OF Suc_leD [OF Suc.prems]] by (metis less_Suc_eq)
    next
      case gap: False
      then have "unat ?e < unat ?s" "unat num \<le> unat (?s - ?e)"
        by (simp_all add: word_le_unat)
      then have le: "unat ?e + unat num \<le> unat ?s" using sub by linarith
      then have "unat (?s - num) = unat ?s - unat num" by (simp add: unat_sub_nowrap)
      moreover from this le have "?s - num \<noteq> 0" using ue(2) by auto
      moreover have "map_gap es (unat num) i" using le unfolding map_gap_def ue(1) us .
      ultimately show ?thesis
        using gap False us by (auto simp: eq)
    qed
  qed
qed

lemma map_gap_free:
  assumes "sorted_wrt before es" "list_all entry_live es" "0 < i" "i < length es" "map_gap es n i"
    and "nat_round_up 4 (e_hi (es ! (i - 1))) \<le> p" "p < nat_round_down 4 (e_lo (es ! i))"
  shows "vm_lookup es p = None"
  using gap_free [OF assms(1-4), of p] assms(6,7) nat_round_up_ge [of "e_hi (es ! (i - 1))" 4]
    nat_round_down_le [of 4 "e_lo (es ! i)"]
  by (simp add: vm_lookup_None_iff)

text \<open>A free, map-aligned run of pages inside the address space.\<close>

definition free_run :: "vmmap \<Rightarrow> nat \<Rightarrow> nat \<Rightarrow> bool" where
  "free_run s r n \<longleftrightarrow> 16 dvd r \<and> r + n \<le> vm_pages \<and> (\<forall>p \<in> {r ..< r + n}. vm_map s p = None)"

lemma FindMapSpace_ok:
  assumes wf: "vm_wf s" and n: "unat num_pages \<le> vm_pages"
  shows "\<exists>r s'. NaClVmmapFindMapSpace s num_pages = Inr (r, s') \<and> vm_same s s'
    \<and> (r \<noteq> 0 \<longrightarrow> free_run s (unat r) (nat_round_up 4 (unat num_pages)))"
proof (cases "vmentry s = []")
  case True
  then have "vm_same s s" using wf by (auto simp: vm_same_def vm_wf_def)
  then show ?thesis using True by (simp add: NaClVmmapFindMapSpace_def)
next
  case False
  obtain s' where s': "NaClVmmapMakeSorted s = Inr s'" "vm_same s s'"
    using MakeSorted_same [OF wf] by blast
  let ?num = "NaClRoundPageNumUpToMapMultiple num_pages"
  let ?r = "find_map_space_loop (vmentry s') ?num (length (vmentry s'))"
  have un: "unat ?num = nat_round_up 4 (unat num_pages)"
    using n by (simp add: unat_RoundPageNumUp vm_pages_def)
  have srt: "sorted_wrt before (vmentry s')" and live: "list_all entry_live (vmentry s')"
    and look: "vm_map s' = vm_map s" using s'(2) by (auto simp: vm_same_def)
  have "free_run s (unat ?r) (unat ?num)" if nz: "?r \<noteq> 0"
  proof -
    obtain i where i: "0 < i" "i < length (vmentry s')" "map_gap (vmentry s') (unat ?num) i"
      "unat ?r = nat_round_down 4 (e_lo (vmentry s' ! i)) - unat ?num"
      using mp [OF conjunct2 [OF find_map_space_loop_spec [OF live order_refl]] nz] by (elim exE conjE)
    let ?d = "nat_round_down 4 (e_lo (vmentry s' ! i))"
    have "2 ^ 4 dvd ?d" "2 ^ 4 dvd unat ?num"
      unfolding un by (rule nat_round_down_dvd, rule nat_round_up_dvd)
    moreover have "?d \<le> vm_pages"
      using nat_round_down_le [of 4 "e_lo (vmentry s' ! i)"] nth_live [OF live i(2)]
      by (simp add: entry_live_def entry_ok_def)
    moreover have room: "nat_round_up 4 (e_hi (vmentry s' ! (i - 1))) + unat ?num \<le> ?d"
      using i(3) by (simp add: map_gap_def)
    moreover have "vm_map s p = None" if "p \<in> {?d - unat ?num ..< ?d - unat ?num + unat ?num}" for p
    proof -
      have "nat_round_up 4 (e_hi (vmentry s' ! (i - 1))) \<le> p" "p < ?d"
        using that room unfolding atLeastLessThan_iff by linarith+
      then show ?thesis
        unfolding look [symmetric] by (rule map_gap_free [OF srt live i(1-3)])
    qed
    ultimately show ?thesis
      unfolding free_run_def i(4) by (simp add: dvd_diff_nat)
  qed
  then show ?thesis
    using s' False un by (simp add: NaClVmmapFindMapSpace_def)
qed

section \<open>The search above a hint\<close>

text \<open>What the loop returns: a run at or above the hint, past the first entry, that no entry covers.\<close>

definition hint_run :: "u64 \<Rightarrow> u64 \<Rightarrow> vmmap_entry list \<Rightarrow> nat \<Rightarrow> bool" where
  "hint_run u num es r \<longleftrightarrow> unat u \<le> r \<and> r + unat num \<le> vm_pages \<and> e_hi (hd es) \<le> r
     \<and> (16 dvd unat u \<longrightarrow> 16 dvd r) \<and> (\<forall>p. r \<le> p \<and> p < r + unat num \<longrightarrow> infos es p = {#})"

lemma hint_run_Cons:
  assumes "hint_run u num (b # es) r" "entry_live a" "entry_live b" "before a b"
  shows "hint_run u num (a # b # es) r"
proof -
  have "e_hi a \<le> r"
    using assms by (auto simp: hint_run_def before_def entry_live_def entry_ok_def e_lo_def e_hi_def)
  then show ?thesis
    using assms(1) by (auto simp: hint_run_def infos_Cons covers_def)
qed

lemma hint_run_here:
  assumes o: "sorted_wrt before (a # b # es)" and live: "list_all entry_live (a # b # es)"
    and r: "nat_round_up 4 (e_hi a) \<le> r" "r + unat num \<le> nat_round_down 4 (e_lo b)" "unat u \<le> r"
      "16 dvd unat u \<longrightarrow> 16 dvd r"
  shows "hint_run u num (a # b # es) r"
proof -
  have d: "nat_round_down 4 (e_lo b) \<le> e_lo b" "e_hi a \<le> nat_round_up 4 (e_hi a)"
    by (rule nat_round_down_le, rule nat_round_up_ge)
  have "e_lo b < e_hi b" "e_hi b \<le> vm_pages"
    using live by (auto simp: entry_live_def entry_ok_def e_lo_def e_hi_def)
  moreover have "infos (a # b # es) p = {#}" if "r \<le> p" "p < r + unat num" for p
  proof -
    have "\<not> covers p a" "\<not> covers p b" "p < e_hi b"
      using that r d \<open>e_lo b < e_hi b\<close> by (simp_all add: covers_def)
    then show ?thesis
      using before_infos_empty [of b es p] o by (simp add: infos_Cons)
  qed
  ultimately show ?thesis
    using r d unfolding hint_run_def list.sel by (simp add: order_trans)
qed

lemma above_hint_loop_spec:
  assumes "sorted_wrt before es" "list_all entry_live es" "above_hint_loop u num es \<noteq> 0"
  shows "hint_run u num es (unat (above_hint_loop u num es))"
  using assms
proof (induction u num es rule: above_hint_loop.induct)
  case (1 u num a b es)
  let ?e = "NaClRoundPageNumUpToMapMultiple (e_page_num a + e_npages a)"
  let ?s = "NaClTruncPageNumDownToMapMultiple (e_page_num b)"
  let ?f = "if ?e \<le> u \<and> u < ?s then u else ?e"
  have tl: "sorted_wrt before (b # es)" "list_all entry_live (b # es)"
    and ab: "entry_live a" "entry_live b" "before a b"
    using "1.prems" by auto
  have ue: "unat ?e = nat_round_up 4 (e_hi a)" and us: "unat ?s = nat_round_down 4 (e_lo b)"
    using map_edges [OF "1.prems"(2), of 0] map_edges [OF "1.prems"(2), of 1] by auto
  have eq: "above_hint_loop u num (a # b # es) =
    (if ?s \<le> ?e \<or> \<not> (u \<le> ?f \<and> num \<le> ?s - ?f) then above_hint_loop u num (b # es) else ?f)"
    by (simp add: above_hint_loop.simps(1) Let_def)
  show ?case
  proof (cases "?s \<le> ?e \<or> \<not> (u \<le> ?f \<and> num \<le> ?s - ?f)")
    case True
    then have e: "above_hint_loop u num (a # b # es) = above_hint_loop u num (b # es)"
      by (simp only: eq if_True)
    have nz: "above_hint_loop u num (b # es) \<noteq> 0" using "1.prems"(3) e by simp
    have "hint_run u num (b # es) (unat (above_hint_loop u num (b # es)))"
    proof (cases "?s \<le> ?e")
      case True
      show ?thesis by (rule "1.IH"(1) [OF refl refl True tl nz])
    next
      case False
      then show ?thesis using True by (intro "1.IH"(2) [OF refl refl False refl _ tl nz]) blast
    qed
    then show ?thesis unfolding e by (rule hint_run_Cons [OF _ ab])
  next
    case False
    then have lt: "unat ?e < unat ?s" and uf: "unat u \<le> unat ?f" and nf: "unat num \<le> unat (?s - ?f)"
      by (simp_all only: word_le_unat de_Morgan_disj not_not not_le)
    have f: "unat ?e \<le> unat ?f" "unat ?f < unat ?s"
      using lt by (auto simp: word_le_unat word_less_unat)
    then have "unat (?s - ?f) = unat ?s - unat ?f" by (intro unat_sub_nowrap) simp
    then have room: "unat ?f + unat num \<le> unat ?s" using nf f(2) by linarith
    have al: "16 dvd unat u \<longrightarrow> 16 dvd unat ?f"
      using nat_round_up_dvd [of 4 "e_hi a"] ue by auto
    have "hint_run u num (a # b # es) (unat ?f)"
      using f(1) room uf al unfolding ue us by (intro hint_run_here [OF "1.prems"(1,2)])
    then show ?thesis using False by (simp only: eq if_False)
  qed
qed simp_all

lemma FindMapSpaceAboveHint_ok:
  assumes wf: "vm_wf s" and n: "unat num_pages \<le> vm_pages"
  shows "\<exists>r s'. NaClVmmapFindMapSpaceAboveHint s uaddr num_pages = Inr (r, s') \<and> vm_same s s'
    \<and> (r \<noteq> 0 \<longrightarrow> unat uaddr div 4096 \<le> unat r
        \<and> unat r + nat_round_up 4 (unat num_pages) \<le> vm_pages
        \<and> (\<forall>p \<in> {unat r ..< unat r + nat_round_up 4 (unat num_pages)}. vm_map s p = None)
        \<and> (65536 dvd unat uaddr \<longrightarrow> 16 dvd unat r))"
proof -
  obtain s' where s': "NaClVmmapMakeSorted s = Inr s'" "vm_same s s'"
    using MakeSorted_same [OF wf] by blast
  let ?num = "NaClRoundPageNumUpToMapMultiple num_pages" and ?u = "drop_bit NACL_PAGESHIFT uaddr"
  let ?r = "above_hint_loop ?u ?num (vmentry s')"
  have un: "unat ?num = nat_round_up 4 (unat num_pages)"
    using n by (simp add: unat_RoundPageNumUp vm_pages_def)
  have uu: "unat ?u = unat uaddr div 4096" by (simp add: unat_drop_bit_div NACL_PAGESHIFT_def)
  have al: "65536 dvd unat uaddr \<Longrightarrow> 16 dvd unat ?u" unfolding uu by (elim dvdE) simp
  have "hint_run ?u ?num (vmentry s') (unat ?r)" if "?r \<noteq> 0"
    using above_hint_loop_spec [OF _ _ that] s'(2) by (simp add: vm_same_def)
  then have "?r \<noteq> 0 \<longrightarrow> unat uaddr div 4096 \<le> unat ?r
        \<and> unat ?r + nat_round_up 4 (unat num_pages) \<le> vm_pages
        \<and> (\<forall>p \<in> {unat ?r ..< unat ?r + nat_round_up 4 (unat num_pages)}. vm_map s' p = None)
        \<and> (65536 dvd unat uaddr \<longrightarrow> 16 dvd unat ?r)"
    using al by (simp add: hint_run_def un uu vm_lookup_None_iff)
  moreover have "vm_map s' = vm_map s" using s'(2) by (simp add: vm_same_def)
  ultimately show ?thesis
    using s' by (simp add: NaClVmmapFindMapSpaceAboveHint_def)
qed

section \<open>When the downward search finds nothing\<close>

lemma FindMapSpace_complete:
  assumes wf: "vm_wf s" and n: "0 < unat num_pages" "unat num_pages \<le> vm_pages"
    and ne: "NaClVmmapFindMapSpace s num_pages = Inr (0, s')"
  shows "\<forall>i. 0 < i \<and> i < length (vmentry s')
    \<longrightarrow> \<not> map_gap (vmentry s') (nat_round_up 4 (unat num_pages)) i"
proof (cases "vmentry s = []")
  case True
  then show ?thesis using ne by (auto simp: NaClVmmapFindMapSpace_def)
next
  case False
  obtain t where t: "NaClVmmapMakeSorted s = Inr t" "vm_same s t"
    using MakeSorted_same [OF wf] by blast
  let ?num = "NaClRoundPageNumUpToMapMultiple num_pages"
  have un: "unat ?num = nat_round_up 4 (unat num_pages)"
    using n by (simp add: unat_RoundPageNumUp vm_pages_def)
  then have "?num \<noteq> 0" using nat_round_up_ge [of "unat num_pages" 4] n(1) by auto
  have eq: "s' = t" "find_map_space_loop (vmentry t) ?num (length (vmentry t)) = 0"
    using ne t(1) False by (auto simp: NaClVmmapFindMapSpace_def)
  have "list_all entry_live (vmentry t)" using t(2) by (simp add: vm_same_def)
  from mp [OF conjunct1 [OF find_map_space_loop_spec [OF this order_refl]] eq(2)] \<open>?num \<noteq> 0\<close>
  show ?thesis by (simp add: eq(1) un)
qed

section \<open>Iterators\<close>

text \<open>
  \<open>NaClVmmapIterErase\<close> takes the entry out of the map and frees it, but unlike
  \<open>NaClVmmapEntryFree\<close> it does not drop the entry's reference to its descriptor.
\<close>

lemma IterErase_map:
  assumes wf: "vm_wf s" and ix: "ix < length (vmentry s)"
  shows "\<exists>s'. NaClVmmapIterErase s ix = Inr s'
    \<and> add_mset (vmentry s ! ix) (mset (vmentry s')) = mset (vmentry s)
    \<and> desc_refs s' = desc_refs s \<and> \<not> is_sorted s'"
proof -
  let ?es = "vmentry s"
  have "mset (?es[ix := last ?es]) = add_mset (last ?es) (mset ?es - {# ?es ! ix #})"
    using ix by (rule mset_update)
  moreover have ne: "?es[ix := last ?es] \<noteq> []" "?es \<noteq> []" using ix by auto
  moreover have "last (?es[ix := last ?es]) = last ?es"
    using ne ix by (simp add: last_list_update)
  ultimately have "mset (butlast (?es[ix := last ?es])) = mset ?es - {# ?es ! ix #}"
    using append_butlast_last_id [OF ne(1)] by (metis add_mset_remove_trivial mset_append
        add_mset_add_single mset_single_iff_right)
  then show ?thesis
    using ix by (simp add: NaClVmmapIterErase_def)
qed

end
