(* ===== verification/VmmapProt.thy ===== *)
theory VmmapProt
  imports VmmapProps
begin

text \<open>
  \<open>NaClVmmapCheckExistingMapping\<close> and \<open>NaClVmmapChangeProt\<close> against the page function: the
  check holds exactly when every page of the range is mapped and allows the protection, and
  the change then replaces the protection of those pages only.
\<close>

section \<open>The protection a page allows\<close>

definition page_max_prot :: "(nat \<Rightarrow> u32) \<Rightarrow> page_info \<Rightarrow> u32 exec" where
  "page_max_prot getflags x =
     NaClVmmapEntryMaxProt getflags (NaClVmmapEntryMake 0 0 0 (pg_flags x) (pg_desc x) 0 0)"

definition page_allows :: "(nat \<Rightarrow> u32) \<Rightarrow> u32 \<Rightarrow> page_info \<Rightarrow> bool" where
  "page_allows getflags prot x =
     (case page_max_prot getflags x of Inr m \<Rightarrow> 0 = prot AND NOT m | Inl _ \<Rightarrow> False)"

text \<open>A descriptor is open for reading, writing or both: access mode 3 does not occur.\<close>

definition accmode_ok :: "(nat \<Rightarrow> u32) \<Rightarrow> bool" where
  "accmode_ok getflags \<longleftrightarrow> (\<forall>d. getflags d AND NACL_ABI_O_ACCMODE \<noteq> 3)"

lemma page_max_prot_at: "page_max_prot getflags (page_at p e) = NaClVmmapEntryMaxProt getflags e"
  by (simp add: page_max_prot_def page_at_def NaClVmmapEntryMaxProt_def NaClVmmapEntryMake_def
      split: option.split)

lemma acc_cases:
  fixes w :: u32
  shows "w AND 3 = 0 \<or> w AND 3 = 1 \<or> w AND 3 = 2 \<or> w AND 3 = 3"
proof -
  have "unat (w AND 3) < 4"
    using unat_and_mask [of w 2] by (simp add: mask_eq_decr_exp)
  then consider "unat (w AND 3) = 0" | "unat (w AND 3) = 1" | "unat (w AND 3) = 2"
    | "unat (w AND 3) = 3" by linarith
  then show ?thesis by cases (simp_all add: word_eq_unat)
qed

lemma maxprot_ok:
  assumes "accmode_ok getflags"
  shows "\<exists>m. NaClVmmapEntryMaxProt getflags e = Inr m
    \<and> (\<forall>prot p. page_allows getflags prot (page_at p e) \<longleftrightarrow> 0 = prot AND NOT m)"
proof -
  obtain m where "NaClVmmapEntryMaxProt getflags e = Inr m"
  proof (cases "e_desc e")
    case (Some d)
    then show thesis
      using assms acc_cases [of "getflags d"] that
      by (fastforce simp: NaClVmmapEntryMaxProt_def accmode_ok_def NACL_ABI_O_ACCMODE_def Let_def
          split: if_splits)
  qed (use that in \<open>simp add: NaClVmmapEntryMaxProt_def\<close>)
  then show ?thesis
    by (auto simp: page_allows_def page_max_prot_at)
qed

lemma check_existing_loop_spec:
  assumes "sorted_wrt before es" "list_all entry_live es" "P < E" "accmode_ok getflags"
  shows "check_existing_loop getflags es P E prot
    = Inr (\<forall>p. in_range P E p \<longrightarrow> (\<exists>x. vm_lookup es p = Some x \<and> page_allows getflags prot x))"
  using assms(1-3)
proof (induction es arbitrary: P)
  case Nil
  then have "in_range P E (unat P)" by (simp add: in_range_def word_nat)
  then show ?case by (auto simp: vm_lookup_def)
next
  case (Cons e es)
  have ok: "entry_ok e" "\<not> e_removed e" using Cons.prems(2) by (auto simp: entry_live_def)
  note hi = unat_end [OF ok(1)]
  obtain m where m: "NaClVmmapEntryMaxProt getflags e = Inr m"
    "\<forall>prot p. page_allows getflags prot (page_at p e) \<longleftrightarrow> 0 = prot AND NOT m"
    using maxprot_ok [OF assms(4)] by blast
  have PE: "unat P < unat E" using Cons.prems(3) by (simp add: word_nat)
  have inP: "in_range P E (unat P)" using PE by (simp add: in_range_def)
  have cov: "covers p e \<longleftrightarrow> e_lo e \<le> p \<and> p < e_hi e" for p using ok by (simp add: covers_def)
  note un = check_existing_loop.simps m word_nat hi Let_def e_lo_def [symmetric]
  consider (in1) "e_lo e \<le> unat P" "unat E \<le> e_hi e"
    | (over) "e_lo e \<le> unat P" "\<not> unat E \<le> e_hi e" "unat P < e_hi e"
    | (gap) "unat P < e_lo e"
    | (skip) "e_lo e \<le> unat P" "\<not> unat E \<le> e_hi e" "\<not> unat P < e_hi e"
    by linarith
  then show ?case
  proof cases
    case in1
    then have "in_range P E p \<Longrightarrow> covers p e" for p by (auto simp: in_range_def cov)
    then show ?thesis
      using in1 inP m by (auto simp: un vm_lookup_Cons)
  next
    case over
    have lt: "e_page_num e + e_npages e < E" using over by (simp add: word_nat hi)
    have IH: "check_existing_loop getflags es (e_page_num e + e_npages e) E prot
      = Inr (\<forall>p. in_range (e_page_num e + e_npages e) E p \<longrightarrow>
          (\<exists>x. vm_lookup es p = Some x \<and> page_allows getflags prot x))"
      using Cons.IH [OF _ _ lt] Cons.prems by simp
    have split: "in_range P E p \<longleftrightarrow> (unat P \<le> p \<and> p < e_hi e)
        \<or> in_range (e_page_num e + e_npages e) E p" for p
      using over by (auto simp: in_range_def hi)
    have "covers (unat P) e" using over by (simp add: cov)
    moreover have "unat P \<le> p \<and> p < e_hi e \<Longrightarrow> covers p e" for p using over by (simp add: cov)
    moreover have "in_range (e_page_num e + e_npages e) E p \<Longrightarrow> \<not> covers p e" for p
      by (simp add: in_range_def hi cov)
    ultimately have "(\<forall>p. in_range P E p \<longrightarrow>
        (\<exists>x. vm_lookup (e # es) p = Some x \<and> page_allows getflags prot x))
      \<longleftrightarrow> 0 = prot AND NOT m \<and> (\<forall>p. in_range (e_page_num e + e_npages e) E p \<longrightarrow>
          (\<exists>x. vm_lookup es p = Some x \<and> page_allows getflags prot x))"
      using inP m(2) by (auto simp: split vm_lookup_Cons)
    then show ?thesis using over IH by (simp add: un)
  next
    case gap
    then have "infos (e # es) (unat P) = {#}"
      using before_infos_empty [OF Cons.prems(1), of "unat P"] ok
      by (simp add: infos_Cons cov entry_ok_def e_hi_def e_lo_def)
    then show ?thesis using gap inP by (auto simp: un simp flip: vm_lookup_None_iff)
  next
    case skip
    then have "in_range P E p \<Longrightarrow> \<not> covers p e" for p by (simp add: in_range_def cov)
    then show ?thesis
      using skip Cons by (simp add: un vm_lookup_Cons)
  qed
qed

lemma CheckExisting_ok:
  assumes wf: "vm_wf s" and r: "range_in_space P n" and acc: "accmode_ok getflags"
  shows "\<exists>s'. NaClVmmapCheckExistingMapping getflags s P n prot
      = Inr (\<forall>p \<in> pages_of P n. \<exists>x. vm_map s p = Some x \<and> page_allows getflags prot x, s')
    \<and> vm_wf s' \<and> vm_map s' = vm_map s \<and> sorted_wrt before (vmentry s')
    \<and> (\<forall>d. desc_refs s' d - held d (vmentry s') = desc_refs s d - held d (vmentry s))"
proof (cases "vmentry s = []")
  case True
  have "unat P \<in> pages_of P n" using r by (simp add: pages_of_def range_in_space_def word_nat)
  then show ?thesis
    using True wf by (auto simp: NaClVmmapCheckExistingMapping_def vm_lookup_def)
next
  case False
  obtain s1 where s1: "NaClVmmapMakeSorted s = Inr s1" "mset (vmentry s1) = mset (vmentry s)"
    "sorted_wrt before (vmentry s1)" "vm_wf s1" "vm_map s1 = vm_map s"
    "desc_refs s1 = desc_refs s" "list_all entry_live (vmentry s1)"
    "length (vmentry s1) = length (vmentry s)"
    using wf_sorted_state [OF wf] .
  note PE = range_end [OF r]
  show ?thesis
    using False s1 check_existing_loop_spec [OF s1(3,7) _ acc, of P "P + n" prot] PE
      held_perm [OF s1(2)]
    by (auto simp: NaClVmmapCheckExistingMapping_def)
qed

section \<open>The protection loop\<close>

abbreviation prot_entry :: "u32 \<Rightarrow> u64 \<Rightarrow> u64 \<Rightarrow> u64 \<Rightarrow> vmmap_entry \<Rightarrow> vmmap_entry" where
  "prot_entry prot P n off e \<equiv>
     NaClVmmapEntryMake P n prot (e_flags e) (e_desc e) off (e_file_size e)"

lemma change_prot_eqs:
  assumes "entry_live e" "P < E"
  shows change_mid: "e_lo e < unat P \<Longrightarrow> unat E < e_hi e \<Longrightarrow>
      change_prot_loop E prot (e # es) P (E - P) =
      (e\<lparr>e_npages := P - e_page_num e\<rparr> # es,
       [tail_entry E e, prot_entry prot P (E - P) (e_offset e + (P - e_page_num e)) e])"
    and change_tail: "e_lo e < unat P \<Longrightarrow> unat P < e_hi e \<Longrightarrow> \<not> unat E < e_hi e \<Longrightarrow>
      change_prot_loop E prot (e # es) P (E - P) =
      (let hi = e_page_num e + e_npages e; rest = change_prot_loop E prot es hi (E - hi)
       in (e\<lparr>e_npages := P - e_page_num e\<rparr> # fst rest,
           prot_entry prot P (hi - P) (e_offset e + (P - e_page_num e)) e # snd rest))"
    and change_head: "\<not> e_lo e < unat P \<Longrightarrow> e_lo e < unat E \<Longrightarrow> unat E < e_hi e \<Longrightarrow>
      change_prot_loop E prot (e # es) P (E - P) =
      (tail_entry E e # es, [prot_entry prot P (E - P) (e_offset e) e])"
    and change_all: "\<not> e_lo e < unat P \<Longrightarrow> unat P \<le> e_lo e \<Longrightarrow> e_hi e \<le> unat E \<Longrightarrow>
      change_prot_loop E prot (e # es) P (E - P) =
      (let hi = e_page_num e + e_npages e; rest = change_prot_loop E prot es hi (E - hi)
       in (e\<lparr>e_prot := prot\<rparr> # fst rest, snd rest))"
    and change_none: "unat E \<le> e_lo e \<or> e_hi e \<le> unat P \<Longrightarrow>
      change_prot_loop E prot (e # es) P (E - P) =
      (let rest = change_prot_loop E prot es P (E - P) in (e # fst rest, snd rest))"
proof -
  have ok: "entry_ok e" "\<not> e_removed e" using assms(1) by (auto simp: entry_live_def)
  then have ne: "e_lo e < e_hi e" by (auto simp: entry_ok_def e_lo_def e_hi_def)
  have PE: "unat P < unat E" using assms(2) by (simp add: word_nat)
  then have pos: "0 < unat (E - P)" by (simp add: unat_sub_nowrap)
  note un = change_prot_loop.simps word_nat unat_end [OF ok(1)] e_lo_def Let_def pos
  show "e_lo e < unat P \<Longrightarrow> unat E < e_hi e \<Longrightarrow>
      change_prot_loop E prot (e # es) P (E - P) =
      (e\<lparr>e_npages := P - e_page_num e\<rparr> # es,
       [tail_entry E e, prot_entry prot P (E - P) (e_offset e + (P - e_page_num e)) e])"
    using pos by (simp add: un)
  show "e_lo e < unat P \<Longrightarrow> unat P < e_hi e \<Longrightarrow> \<not> unat E < e_hi e \<Longrightarrow>
      change_prot_loop E prot (e # es) P (E - P) =
      (let hi = e_page_num e + e_npages e; rest = change_prot_loop E prot es hi (E - hi)
       in (e\<lparr>e_npages := P - e_page_num e\<rparr> # fst rest,
           prot_entry prot P (hi - P) (e_offset e + (P - e_page_num e)) e # snd rest))"
    using pos by (simp add: un)
  show "\<not> e_lo e < unat P \<Longrightarrow> e_lo e < unat E \<Longrightarrow> unat E < e_hi e \<Longrightarrow>
      change_prot_loop E prot (e # es) P (E - P) =
      (tail_entry E e # es, [prot_entry prot P (E - P) (e_offset e) e])"
    using cut_start_update [OF ok, of E] pos by (simp add: un)
  show "\<not> e_lo e < unat P \<Longrightarrow> unat P \<le> e_lo e \<Longrightarrow> e_hi e \<le> unat E \<Longrightarrow>
      change_prot_loop E prot (e # es) P (E - P) =
      (let hi = e_page_num e + e_npages e; rest = change_prot_loop E prot es hi (E - hi)
       in (e\<lparr>e_prot := prot\<rparr> # fst rest, snd rest))"
    using pos by (simp add: un)
  show "unat E \<le> e_lo e \<or> e_hi e \<le> unat P \<Longrightarrow>
      change_prot_loop E prot (e # es) P (E - P) =
      (let rest = change_prot_loop E prot es P (E - P) in (e # fst rest, snd rest))"
    using PE ne pos by (auto simp: un)
qed

lemma change_prot_stop: "change_prot_loop E prot es E (E - E) = (es, [])"
  by (cases es) (simp_all add: change_prot_loop.simps)

text \<open>
  The attributes without the file offset: the offsets of split-off parts are not right (see
  \<open>split_offset\<close>), everything else is.
\<close>

definition no_offset :: "page_info \<Rightarrow> page_info" where
  "no_offset x = x\<lparr>pg_offset := 0\<rparr>"

definition with_prot :: "u32 \<Rightarrow> page_info \<Rightarrow> page_info" where
  "with_prot prot x = x\<lparr>pg_prot := prot, pg_offset := 0\<rparr>"

lemma prot_entry_page:
  "e_lo (prot_entry prot P n off e) = unat P"
  "e_hi (prot_entry prot P n off e) = unat P + unat n"
  "\<not> e_removed (prot_entry prot P n off e)"
  "no_offset (page_at p (prot_entry prot P n off e)) = with_prot prot (page_at p e)"
  "e_desc (prot_entry prot P n off e) = e_desc e"
  by (simp_all add: NaClVmmapEntryMake_def e_lo_def e_hi_def page_at_def no_offset_def with_prot_def)

lemma set_prot_page:
  "e_lo (e\<lparr>e_prot := prot\<rparr>) = e_lo e" "e_hi (e\<lparr>e_prot := prot\<rparr>) = e_hi e"
  "e_removed (e\<lparr>e_prot := prot\<rparr>) = e_removed e"
  "no_offset (page_at p (e\<lparr>e_prot := prot\<rparr>)) = with_prot prot (page_at p e)"
  by (simp_all add: e_lo_def e_hi_def page_at_def page_offset_def no_offset_def with_prot_def)

definition covered :: "vmmap_entry list \<Rightarrow> u64 \<Rightarrow> u64 \<Rightarrow> bool" where
  "covered es P E \<longleftrightarrow> (\<forall>p. in_range P E p \<longrightarrow> infos es p \<noteq> {#})"

lemma covered_lo:
  assumes "sorted_wrt before (e # es)" "entry_live e" "covered (e # es) P E" "P < E"
  shows "e_lo e \<le> unat P"
proof (rule ccontr)
  assume "\<not> e_lo e \<le> unat P"
  then have "infos (e # es) (unat P) = {#}"
    using before_infos_empty [OF assms(1), of "unat P"] assms(2)
    by (simp add: infos_Cons covers_def e_hi_def e_lo_def entry_live_def entry_ok_def)
  moreover have "in_range P E (unat P)" using assms(4) by (simp add: in_range_def word_nat)
  ultimately show False using assms(3) by (auto simp: covered_def)
qed

lemma covered_rest:
  assumes "covered (e # es) P E" "e_hi e \<le> unat Q" "unat P \<le> unat Q"
  shows "covered es Q E"
  using assms by (auto simp: covered_def infos_Cons in_range_def covers_def split: if_splits)

definition prot_result ::
    "u64 \<Rightarrow> u32 \<Rightarrow> vmmap_entry list \<Rightarrow> u64 \<Rightarrow> vmmap_entry list \<times> vmmap_entry list \<Rightarrow> bool" where
  "prot_result E prot es P lp \<longleftrightarrow>
     (\<forall>p. if in_range P E p
          then image_mset no_offset (infos (fst lp @ snd lp) p)
             = image_mset (with_prot prot) (infos es p)
          else infos (fst lp @ snd lp) p = infos es p)
     \<and> list_all entry_live (fst lp) \<and> list_all entry_live (snd lp)
     \<and> length (fst lp) = length es \<and> (\<forall>d. held d (fst lp) = held d es)"

lemma prot_result_skip:
  assumes "prot_result E prot es Q lp" "entry_live e" "unat P \<le> unat Q"
    and "\<And>p. in_range P E p \<Longrightarrow> \<not> in_range Q E p \<Longrightarrow> infos es p = {#}"
    and "e_desc e' = e_desc e" "entry_live e'" "list_all entry_live xs"
    and "\<And>p. if in_range P E p
         then image_mset no_offset (infos (e' # xs) p) = image_mset (with_prot prot) (infos [e] p)
         else infos (e' # xs) p = infos [e] p"
  shows "prot_result E prot (e # es) P (e' # fst lp, xs @ snd lp)"
proof -
  have rest: "if in_range P E p
        then image_mset no_offset (infos (fst lp @ snd lp) p) = image_mset (with_prot prot) (infos es p)
        else infos (fst lp @ snd lp) p = infos es p" for p
  proof (cases "in_range P E p \<and> \<not> in_range Q E p")
    case True
    then have "infos es p = {#}" using assms(4) by blast
    moreover have "infos (fst lp @ snd lp) p = infos es p"
      using assms(1) True unfolding prot_result_def by meson
    ultimately show ?thesis by simp
  next
    case False
    moreover have "in_range Q E p \<Longrightarrow> in_range P E p" using assms(3) by (simp add: in_range_def)
    ultimately show ?thesis using assms(1) unfolding prot_result_def by meson
  qed
  have sums: "infos ((e' # fst lp) @ xs @ snd lp) p = infos (e' # xs) p + infos (fst lp @ snd lp) p"
    "infos (e # es) p = infos [e] p + infos es p" for p
    by (simp_all add: infos_Cons)
  have "if in_range P E p
        then image_mset no_offset (infos ((e' # fst lp) @ xs @ snd lp) p)
          = image_mset (with_prot prot) (infos (e # es) p)
        else infos ((e' # fst lp) @ xs @ snd lp) p = infos (e # es) p" for p
    unfolding sums using rest [of p] assms(8) [of p] by (simp split: if_splits)
  note main = allI [OF this]
  have "list_all entry_live (e' # fst lp)" "list_all entry_live (xs @ snd lp)"
    "length (e' # fst lp) = length (e # es)" "\<forall>d. held d (e' # fst lp) = held d (e # es)"
    using assms(1,5,6,7) by (simp_all add: prot_result_def held_Cons)
  then show ?thesis
    unfolding prot_result_def fst_conv snd_conv by (intro conjI main)
qed

lemma cut_end_live:
  assumes "entry_live e" "e_lo e < unat P" "unat P \<le> e_hi e"
  shows "entry_live (e\<lparr>e_npages := P - e_page_num e\<rparr>)"
  using assms cut_end_ok [OF _ assms(2,3)] by (simp add: entry_live_def)

lemma prot_entry_live:
  "unat P < unat P + unat n \<Longrightarrow> unat P + unat n \<le> vm_pages \<Longrightarrow> entry_live (prot_entry prot P n off e)"
  by (auto simp: entry_live_def entry_ok_def NaClVmmapEntryMake_def e_hi_def)

lemma change_prot_loop_spec:
  assumes "sorted_wrt before es" "list_all entry_live es" "P \<le> E" "unat E \<le> vm_pages" "covered es P E"
  shows "prot_result E prot es P (change_prot_loop E prot es P (E - P))"
  using assms
proof (induction es arbitrary: P)
  case Nil
  then show ?case by (auto simp: prot_result_def)
next
  case (Cons e es)
  show ?case
  proof (cases "P = E")
    case True
    then show ?thesis
      using Cons.prems(2) change_prot_stop [of E prot "e # es"]
      by (auto simp: prot_result_def in_range_def)
  next
    case False
    then have lt: "P < E" using Cons.prems(3) by simp
    then have PE: "unat P < unat E" by (simp add: word_nat)
    have live: "entry_live e" and es: "list_all entry_live es" and srt: "sorted_wrt before es"
      using Cons.prems(1,2) by simp_all
    have ok: "entry_ok e" "\<not> e_removed e" using live by (auto simp: entry_live_def)
    have lo: "e_lo e \<le> unat P" using covered_lo [OF Cons.prems(1) live Cons.prems(5) lt] .
    note eqs = change_prot_eqs [OF live lt, of prot es] and hi = unat_end [OF ok(1)]
    let ?hi = "e_page_num e + e_npages e"
    have late: "infos es p = {#}" if "p < e_hi e" for p
      using before_infos_empty [OF Cons.prems(1) that] .
    have len: "unat (E - P) = unat E - unat P" using PE by (simp add: unat_sub_nowrap)
    have tl: "unat (?hi - E) = e_hi e - unat E" if "unat E < e_hi e"
      using that hi by (simp add: unat_sub_nowrap)
    note defs = infos_Cons covers_def in_range_def set_prot_page prot_entry_page
    from lt show ?thesis
    proof (cases rule: update_cases [of P E e])
      case mid
      have lE: "e_lo e < unat E" using mid PE by simp
      note cs = cut_start_make [OF ok(1) lE mid(2)] and ce = cut_end [OF mid(1)]
      have "covers p e \<Longrightarrow> infos es p = {#}" for p by (rule late) (simp add: covers_def)
      then show ?thesis
        using mid PE es live late Cons.prems(4) len tl cut_end_live [OF live mid(1)]
          tail_entry_live [OF live lE mid(2)]
        by (auto simp: eqs(1) [OF mid] prot_result_def cs ce defs ok held_Cons prot_entry_live)
    next
      case tail
      have le: "?hi \<le> E" using tail by (simp add: word_nat hi)
      have IH: "prot_result E prot es ?hi (change_prot_loop E prot es ?hi (E - ?hi))"
        using Cons.IH [OF srt es le Cons.prems(4)] covered_rest [OF Cons.prems(5)] tail hi
        by simp
      have ln: "unat (?hi - P) = e_hi e - unat P" using tail hi by (simp add: unat_sub_nowrap)
      show ?thesis
        unfolding eqs(2) [OF tail] Let_def
        using IH late tail PE hi ln ok live cut_end_live [OF live tail(1)] Cons.prems(4)
        by (intro prot_result_skip [where Q = ?hi and xs = "[_]", simplified])
          (auto simp: cut_end [OF tail(1)] defs intro!: prot_entry_live)
    next
      case head
      then have eq: "unat P = e_lo e" using lo by simp
      show ?thesis
        using head PE es live late Cons.prems(4) len tl eq tail_entry_live [OF live head(2,3)]
        by (auto simp: eqs(3) [OF head] prot_result_def cut_start_make [OF ok(1) head(2,3)] defs ok
            held_Cons prot_entry_live)
    next
      case all
      have le: "?hi \<le> E" using all by (simp add: word_nat hi)
      have lohi: "e_lo e < e_hi e" using ok by (simp add: entry_ok_def e_hi_def e_lo_def)
      have IH: "prot_result E prot es ?hi (change_prot_loop E prot es ?hi (E - ?hi))"
        using Cons.IH [OF srt es le Cons.prems(4)] covered_rest [OF Cons.prems(5)] all hi lo lohi
        by simp
      have "entry_live (e\<lparr>e_prot := prot\<rparr>)"
        using live by (simp add: entry_live_def entry_ok_def set_prot_page)
      then show ?thesis
        unfolding eqs(4) [OF all] Let_def
        using IH late all PE hi ok live lo lohi
        by (intro prot_result_skip [where Q = ?hi and xs = "[]", simplified]) (auto simp: defs)
    next
      case none
      then have hiP: "e_hi e \<le> unat P" using lo PE by simp
      have IH: "prot_result E prot es P (change_prot_loop E prot es P (E - P))"
        using Cons.IH [OF srt es Cons.prems(3,4)] covered_rest [OF Cons.prems(5) hiP] by simp
      show ?thesis
        unfolding eqs(5) [OF none] Let_def
        using IH hiP ok live
        by (intro prot_result_skip [where Q = P and xs = "[]", simplified]) (auto simp: defs)
    qed
  qed
qed

section \<open>Changing the protection of a range\<close>

lemma prot_result_lookup:
  assumes "prot_result E prot es P lp" "size (infos es p) \<le> 1"
  shows "vm_lookup (fst lp @ snd lp) p = vm_lookup es p \<or> in_range P E p"
    "in_range P E p \<Longrightarrow> map_option no_offset (vm_lookup (fst lp @ snd lp) p)
      = map_option (with_prot prot) (vm_lookup es p)"
    "size (infos (fst lp @ snd lp) p) \<le> 1"
proof -
  have r: "if in_range P E p
      then image_mset no_offset (infos (fst lp @ snd lp) p) = image_mset (with_prot prot) (infos es p)
      else infos (fst lp @ snd lp) p = infos es p"
    using assms(1) unfolding prot_result_def by blast
  then show le: "size (infos (fst lp @ snd lp) p) \<le> 1"
    using assms(2) by (metis size_image_mset)
  show "vm_lookup (fst lp @ snd lp) p = vm_lookup es p \<or> in_range P E p"
  proof (cases "in_range P E p")
    case False
    with r have "infos (fst lp @ snd lp) p = infos es p" by simp
    then show ?thesis using vm_lookup_eq [OF assms(2)] by blast
  qed simp
  assume "in_range P E p"
  then have "image_mset no_offset (infos (fst lp @ snd lp) p) = image_mset (with_prot prot) (infos es p)"
    using r by simp
  then show "map_option no_offset (vm_lookup (fst lp @ snd lp) p)
      = map_option (with_prot prot) (vm_lookup es p)"
    using vm_lookup_infos [OF assms(2)] vm_lookup_infos [OF le]
    by (auto split: option.splits simp del: infos_append)
qed

lemma change_prot_before:
  "snd (change_prot_loop E prot es P n) = [] \<Longrightarrow>
    map e_hi (fst (change_prot_loop E prot es P n)) = map e_hi es
    \<and> map e_lo (fst (change_prot_loop E prot es P n)) = map e_lo es"
proof (induction es arbitrary: P n)
  case Nil
  then show ?case by simp
next
  case (Cons e es)
  let ?hi = "e_page_num e + e_npages e"
  consider (stop) "change_prot_loop E prot (e # es) P n = (e # es, [])"
    | (all) "change_prot_loop E prot (e # es) P n =
        (e\<lparr>e_prot := prot\<rparr> # fst (change_prot_loop E prot es ?hi (E - ?hi)),
         snd (change_prot_loop E prot es ?hi (E - ?hi)))"
    | (none) "change_prot_loop E prot (e # es) P n =
        (e # fst (change_prot_loop E prot es P n), snd (change_prot_loop E prot es P n))"
    using Cons.prems by (simp add: change_prot_loop.simps(2) Let_def split: if_splits)
  then show ?case
    using Cons by cases (simp_all add: set_prot_page)
qed

lemma sorted_before_zip:
  "sorted_wrt before xs = sorted_wrt (\<lambda>a b. snd a \<le> fst b) (zip (map e_lo xs) (map e_hi xs))"
  by (simp add: zip_map_map zip_same_conv_map sorted_wrt_map before_def [abs_def])

lemma sorted_before_maps:
  "map e_hi xs = map e_hi ys \<Longrightarrow> map e_lo xs = map e_lo ys \<Longrightarrow>
    sorted_wrt before xs = sorted_wrt before ys"
  by (simp add: sorted_before_zip)

lemma change_prot_sorted:
  "sorted_wrt before es \<Longrightarrow> snd (change_prot_loop E prot es P n) = [] \<Longrightarrow>
    sorted_wrt before (fst (change_prot_loop E prot es P n))"
  using change_prot_before [of E prot es P n] sorted_before_maps [of _ es] by blast

lemma ChangeProt_ok:
  fixes prot :: u32
  assumes wf: "vm_wf s" and r: "range_in_space P n" and acc: "accmode_ok getflags"
  defines "ok \<equiv> (\<forall>p \<in> pages_of P n. \<exists>x. vm_map s p = Some x \<and> page_allows getflags prot x)"
  shows "\<exists>s'. NaClVmmapChangeProt getflags s P n prot = Inr (ok, s') \<and> vm_wf s'
    \<and> (\<forall>p. if ok \<and> p \<in> pages_of P n
           then map_option no_offset (vm_map s' p) = map_option (with_prot prot) (vm_map s p)
           else vm_map s' p = vm_map s p)
    \<and> (\<forall>d. desc_refs s' d - held d (vmentry s') = desc_refs s d - held d (vmentry s))"
proof -
  obtain s0 where s0: "NaClVmmapCheckExistingMapping getflags s P n prot = Inr (ok, s0)"
    "vm_wf s0" "vm_map s0 = vm_map s" "sorted_wrt before (vmentry s0)"
    "\<forall>d. desc_refs s0 d - held d (vmentry s0) = desc_refs s d - held d (vmentry s)"
    using CheckExisting_ok [OF wf r acc] unfolding ok_def by blast
  show ?thesis
  proof (cases ok)
    case False
    then show ?thesis using s0 by (auto simp: NaClVmmapChangeProt_def)
  next
    case True
    obtain s1 where s1: "NaClVmmapMakeSorted s0 = Inr s1" "mset (vmentry s1) = mset (vmentry s0)"
      "sorted_wrt before (vmentry s1)" "vm_wf s1" "vm_map s1 = vm_map s0"
      "desc_refs s1 = desc_refs s0" "list_all entry_live (vmentry s1)"
      "length (vmentry s1) = length (vmentry s0)"
      using wf_sorted_state [OF s0(2)] .
    note PE = range_end [OF r]
    have P: "P \<le> P + n" "unat (P + n) \<le> vm_pages" "P + n - P = n"
      using PE r by (auto simp: range_in_space_def)
    have "covered (vmentry s1) P (P + n)"
      using True PE s1(5) s0(3) unfolding ok_def covered_def
      by (metis option.distinct(1) vm_lookup_None_iff)
    then have res: "prot_result (P + n) prot (vmentry s1) P
        (change_prot_loop (P + n) prot (vmentry s1) P n)"
      using change_prot_loop_spec [OF s1(3,7) P(1,2), of prot] P(3) by simp
    let ?lp = "change_prot_loop (P + n) prot (vmentry s1) P n"
    let ?s' = "foldl vmmap_push (s1\<lparr>vmentry := fst ?lp\<rparr>) (snd ?lp)"
    note look = prot_result_lookup [OF res vm_wfD(5) [OF s1(4)]]
    have "entries_wf (vmentry ?s')"
      using res look(3) by (simp add: foldl_push(1) entries_wf_def prot_result_def)
    moreover have "length (vmentry ?s') \<le> vm_size ?s' \<and> 0 < vm_size ?s'"
      using foldl_push_size [of "s1\<lparr>vmentry := fst ?lp\<rparr>" "snd ?lp"] res vm_wfD(3,4) [OF s1(4)]
      by (simp add: foldl_push(1) prot_result_def)
    moreover have "is_sorted ?s' \<longrightarrow> sorted_wrt before (vmentry ?s')"
    proof
      assume "is_sorted ?s'"
      then have nil: "snd ?lp = []" by (simp add: foldl_push(2))
      show "sorted_wrt before (vmentry ?s')"
        using nil s1(3) change_prot_sorted [of "vmentry s1" "P + n" prot P n]
        by (simp add: foldl_push(1))
    qed
    ultimately have "vm_wf ?s'" by (simp add: vm_wf_def)
    moreover have "desc_refs ?s' d - held d (vmentry ?s') = desc_refs s d - held d (vmentry s)" for d
      using res s0(5) s1(6) held_perm [OF s1(2)] by (simp add: foldl_push prot_result_def)
    moreover have "if p \<in> pages_of P n
        then map_option no_offset (vm_map ?s' p) = map_option (with_prot prot) (vm_map s p)
        else vm_map ?s' p = vm_map s p" for p
      using look(1,2) [of p] PE s1(5) s0(3) by (auto simp: foldl_push(1))
    ultimately show ?thesis
      using True s0(1) s1(1) by (simp add: NaClVmmapChangeProt_def Let_def)
  qed
qed

section \<open>The file offset of a changed range\<close>

text \<open>
  Entries that end before the range stay; the entry that contains the range is cut into the part
  before it and, at the end of the list, the part after it and the range itself.
\<close>

lemma change_prot_middle:
  "list_all entry_live xs \<Longrightarrow> entry_live e \<Longrightarrow> \<forall>x \<in> set xs. e_hi x \<le> unat P \<Longrightarrow> e_lo e < unat P \<Longrightarrow> unat E < e_hi e
    \<Longrightarrow> P < E \<Longrightarrow> change_prot_loop E prot (xs @ e # ys) P (E - P)
      = (xs @ e\<lparr>e_npages := P - e_page_num e\<rparr> # ys,
         [tail_entry E e, prot_entry prot P (E - P) (e_offset e + (P - e_page_num e)) e])"
proof (induction xs)
  case Nil
  then show ?case by (simp add: change_prot_eqs(1))
next
  case (Cons x xs)
  then have "change_prot_loop E prot (x # xs @ e # ys) P (E - P) =
      (let rest = change_prot_loop E prot (xs @ e # ys) P (E - P) in (x # fst rest, snd rest))"
    by (intro change_prot_eqs(5)) simp_all
  then show ?case using Cons by (simp add: Let_def)
qed

lemma checked_sorted:
  assumes "vm_wf s" "NaClVmmapCheckExistingMapping getflags s P n prot = Inr (True, s0)"
  shows "mset (vmentry s0) = mset (vmentry s)" "vm_wf s0"
proof -
  obtain s1 where s1: "NaClVmmapMakeSorted s = Inr s1" "mset (vmentry s1) = mset (vmentry s)" "vm_wf s1"
    using wf_sorted_state [OF assms(1)] .
  then have "s0 = s1" using assms(2) by (auto simp: NaClVmmapCheckExistingMapping_def split: if_splits)
  then show "mset (vmentry s0) = mset (vmentry s)" "vm_wf s0" using s1 by simp_all
qed

lemma range_start: "range_in_space P n \<Longrightarrow> unat P < vm_pages"
  using unat_gt_0 [of n] by (simp add: range_in_space_def word_gt_0)

lemma split_offset:
  assumes "e_lo e < unat P" "unat P < vm_pages"
  shows "page_offset (prot_entry prot P n (e_offset e + (P - e_page_num e)) e) p = page_offset e p - 4095 * (P - e_page_num e)" "page_offset (prot_entry prot P n (e_offset e + (P - e_page_num e)) e) p \<noteq> page_offset e p"
proof -
  have sh: "push_bit NACL_PAGESHIFT w = w * 4096" for w :: u64
    by (simp add: NACL_PAGESHIFT_def push_bit_eq_mult)
  show eq: "page_offset (prot_entry prot P n (e_offset e + (P - e_page_num e)) e) p = page_offset e p - 4095 * (P - e_page_num e)"
    unfolding page_offset_def sh by (simp add: NaClVmmapEntryMake_def algebra_simps)
  have "unat (P - e_page_num e) = unat P - e_lo e" using assms(1) by (simp add: e_lo_def unat_sub_nowrap)
  then have d: "0 < unat (P - e_page_num e)" "unat (P - e_page_num e) < 2 ^ 20"
    using assms(1,2) by (simp_all add: vm_pages_def)
  then have "unat (4095 * (P - e_page_num e)) = 4095 * unat (P - e_page_num e)"
    by (subst unat_mult_lem [THEN iffD1]) simp_all
  then have "4095 * (P - e_page_num e) \<noteq> 0" using d(1) by (auto simp flip: unat_gt_0)
  then show "page_offset (prot_entry prot P n (e_offset e + (P - e_page_num e)) e) p \<noteq> page_offset e p" unfolding eq by simp
qed

lemma ChangeProt_offset:
  assumes wf: "vm_wf s" and r: "range_in_space P n" and res: "NaClVmmapChangeProt getflags s P n prot = Inr (True, s')"
    and acc: "accmode_ok getflags" and e: "e \<in> set (vmentry s)" "e_lo e < unat P" "unat P + unat n < e_hi e"
    and p: "p \<in> pages_of P n"
  shows "vm_map s p = Some (page_at p e)"
    "vm_map s' p = Some ((page_at p e)\<lparr>pg_prot := prot, pg_offset := page_offset e p - 4095 * (P - e_page_num e)\<rparr>)"
proof -
  let ?E = "P + n" and ?m = "prot_entry prot P n (e_offset e + (P - e_page_num e)) e"
  note PE = range_end [OF r]
  have E: "unat ?E = unat P + unat n" "P < ?E" "?E - P = n" using PE by simp_all
  have E4: "unat P < vm_pages" by (rule range_start [OF r])
  obtain s0 where s0: "NaClVmmapCheckExistingMapping getflags s P n prot = Inr (True, s0)"
    using res by (auto simp: NaClVmmapChangeProt_def split: if_splits)
  note c = checked_sorted [OF wf s0]
  obtain s1 where s1: "NaClVmmapMakeSorted s0 = Inr s1" "mset (vmentry s1) = mset (vmentry s0)"
    "sorted_wrt before (vmentry s1)" "list_all entry_live (vmentry s1)"
    using wf_sorted_state [OF c(2)] .
  have "e \<in> set (vmentry s1)" using e(1) c(1) s1(2) by (metis set_mset_mset)
  then obtain xs ys where l: "vmentry s1 = xs @ e # ys" by (auto simp: in_set_conv_decomp)
  have lt: "e_hi x \<le> unat P" if "x \<in> set xs" for x
    using s1(3) l that e(2) by (fastforce simp: sorted_wrt_append before_def)
  have "change_prot_loop ?E prot (xs @ e # ys) P (?E - P)
      = (xs @ e\<lparr>e_npages := P - e_page_num e\<rparr> # ys, [tail_entry ?E e, prot_entry prot P (?E - P) (e_offset e + (P - e_page_num e)) e])"
    by (rule change_prot_middle) (use s1(4) l lt e(2,3) E in auto)
  then have s': "?m \<in> set (vmentry s')"
    using res s0 s1(1) l E(3) by (auto simp: NaClVmmapChangeProt_def Let_def foldl_push(1))
  obtain b s2 where "NaClVmmapChangeProt getflags s P n prot = Inr (b, s2)" "vm_wf s2"
    using ChangeProt_ok [OF wf r acc, of prot] by blast
  then have wf': "vm_wf s'" using res by simp
  have pn: "unat P \<le> p" "p < unat P + unat n" using p by (simp_all add: pages_of_def)
  have "covers p ?m" using pn by (simp add: covers_def prot_entry_page)
  from vm_lookup_covered [OF vm_wfD(5) [OF wf'] s' this]
  show "vm_map s' p = Some ((page_at p e)\<lparr>pg_prot := prot, pg_offset := page_offset e p - 4095 * (P - e_page_num e)\<rparr>)"
    using split_offset(1) [OF e(2) E4, of n prot p] by (simp add: page_at_def NaClVmmapEntryMake_def)
  have "\<not> e_removed e" using s1(4) l by (simp add: entry_live_def)
  then have "covers p e" using pn e(2,3) by (simp add: covers_def)
  from vm_lookup_covered [OF vm_wfD(5) [OF wf] e(1) this] show "vm_map s p = Some (page_at p e)" .
qed

end
