(* ===== verification/VmmapTop.thy ===== *)
theory VmmapTop
  imports VmmapSearch VmmapProt
begin

text \<open>
  The interface of the memory map as its clients use it: a map from pages to attributes that
  can be overwritten, erased and searched for room. \<open>page_map\<close> states the laws the system
  calls rely on; the interpretation proves them of \<open>sel_mem.c\<close>. The properties of the memory
  map follow.
\<close>

section \<open>The interface\<close>

locale page_map =
  fixes wf :: "'m \<Rightarrow> bool"
    and look :: "'m \<Rightarrow> nat \<Rightarrow> page_info option"
    and overwrite :: "'m \<Rightarrow> u64 \<Rightarrow> u64 \<Rightarrow> u32 \<Rightarrow> u32 \<Rightarrow> nat option \<Rightarrow> u64 \<Rightarrow> u64 \<Rightarrow> 'm exec"
    and erase :: "'m \<Rightarrow> u64 \<Rightarrow> u64 \<Rightarrow> 'm exec"
    and find_free :: "'m \<Rightarrow> u64 \<Rightarrow> (u64 \<times> 'm) exec"
  assumes overwrite_law: "wf s \<Longrightarrow> range_in_space P n \<Longrightarrow>
      \<exists>s'. overwrite s P n prot flags desc off fsz = Inr s' \<and> wf s'
        \<and> (\<forall>p. look s' p = (if p \<in> pages_of P n then Some (new_page P prot flags desc off fsz p)
                             else look s p))"
    and erase_law: "wf s \<Longrightarrow> range_in_space P n \<Longrightarrow> q \<notin> pages_of P n \<Longrightarrow> look s q \<noteq> None \<Longrightarrow>
      \<exists>s'. erase s P n = Inr s' \<and> wf s'
        \<and> (\<forall>p. look s' p = (if p \<in> pages_of P n then None else look s p))"
    and find_law: "wf s \<Longrightarrow> unat n \<le> vm_pages \<Longrightarrow>
      \<exists>r s'. find_free s n = Inr (r, s') \<and> wf s' \<and> look s' = look s
        \<and> (r \<noteq> 0 \<longrightarrow> 16 dvd unat r \<and> unat r + nat_round_up 4 (unat n) \<le> vm_pages
             \<and> (\<forall>p \<in> {unat r ..< unat r + nat_round_up 4 (unat n)}. look s p = None))"
begin

lemma allocate_preserves:
  assumes s: "wf s" and n: "0 < n" "unat n \<le> vm_pages"
    and f: "find_free s n = Inr (r, s1)" "r \<noteq> 0"
  shows "\<exists>s'. overwrite s1 r n prot flags desc off fsz = Inr s' \<and> wf s'
    \<and> (\<forall>p \<in> pages_of r n. look s p = None)
    \<and> (\<forall>p. look s' p = (if p \<in> pages_of r n then Some (new_page r prot flags desc off fsz p)
                         else look s p))"
proof -
  obtain r' t where t: "find_free s n = Inr (r', t)" "wf t" "look t = look s"
    "r' \<noteq> 0 \<longrightarrow> 16 dvd unat r' \<and> unat r' + nat_round_up 4 (unat n) \<le> vm_pages
      \<and> (\<forall>p \<in> {unat r' ..< unat r' + nat_round_up 4 (unat n)}. look s p = None)"
    using find_law [OF s n(2)] by blast
  have eq: "r' = r" "t = s1" using t(1) f(1) by simp_all
  note t = t [unfolded eq]
  have "unat n \<le> nat_round_up 4 (unat n)" by (rule nat_round_up_ge)
  then have "range_in_space r n" "\<forall>p \<in> pages_of r n. look s p = None"
    using t(4) f(2) n(1) by (auto simp: range_in_space_def pages_of_def)
  then show ?thesis using overwrite_law [OF t(2)] t(3) by metis
qed

lemma erase_after_overwrite:
  assumes "wf s" "range_in_space P n" "q \<notin> pages_of P n" "look s q \<noteq> None"
    "\<forall>p \<in> pages_of P n. look s p = None"
  shows "\<exists>s' s''. overwrite s P n prot flags desc off fsz = Inr s' \<and> erase s' P n = Inr s''
    \<and> wf s'' \<and> look s'' = look s"
proof -
  obtain s' where s': "overwrite s P n prot flags desc off fsz = Inr s'" "wf s'"
    "\<forall>p. look s' p = (if p \<in> pages_of P n then Some (new_page P prot flags desc off fsz p)
                       else look s p)"
    using overwrite_law [OF assms(1,2)] by blast
  obtain s'' where s'': "erase s' P n = Inr s''" "wf s''"
    "\<forall>p. look s'' p = (if p \<in> pages_of P n then None else look s' p)"
    using erase_law [OF s'(2) assms(2,3)] s'(3) assms(3,4) by auto
  have "look s'' = look s" using s''(3) s'(3) assms(5) by (auto simp: fun_eq_iff)
  then show ?thesis using s' s'' by blast
qed

end

lemma AddWithOverwrite_ok:
  assumes "vm_wf s" "range_in_space P n"
  shows "\<exists>s'. NaClVmmapAddWithOverwrite s P n prot flags desc off fsz = Inr s' \<and> vm_wf s'
    \<and> (\<forall>p. vm_map s' p = (if p \<in> pages_of P n then Some (new_page P prot flags desc off fsz p)
                         else vm_map s p))
    \<and> (\<forall>d. desc_refs s' d - held d (vmentry s') = desc_refs s d - held d (vmentry s))"
  using Update_ok [OF assms, of False prot flags desc off fsz]
  by (simp only: NaClVmmapAddWithOverwrite_def simp_thms if_False)

lemma Remove_ok:
  assumes "vm_wf s" "range_in_space P n" "q \<notin> pages_of P n" "vm_map s q \<noteq> None"
  shows "\<exists>s'. NaClVmmapRemove s P n = Inr s' \<and> vm_wf s'
    \<and> (\<forall>p. vm_map s' p = (if p \<in> pages_of P n then None else vm_map s p))
    \<and> (\<forall>d. desc_refs s' d - held d (vmentry s') = desc_refs s d - held d (vmentry s))"
proof -
  have keep: "\<exists>p. p \<notin> pages_of P n \<and> vm_map s p \<noteq> None" using assms(3,4) by blast
  from Update_ok [where remove = True, OF assms(1,2) keep, where prot = 0 and flags = 0 and desc = None and offset = 0 and file_size = 0]
  show ?thesis by (simp only: NaClVmmapRemove_def simp_thms if_True)
qed

interpretation vm: page_map vm_wf "\<lambda>s. vm_lookup (vmentry s)" NaClVmmapAddWithOverwrite
  NaClVmmapRemove NaClVmmapFindMapSpace
proof
  fix s :: vmmap and P n :: u64 and prot flags :: u32 and desc off fsz
  assume s: "vm_wf s"
  show "\<exists>s'. NaClVmmapAddWithOverwrite s P n prot flags desc off fsz = Inr s' \<and> vm_wf s'
        \<and> (\<forall>p. vm_map s' p = (if p \<in> pages_of P n then Some (new_page P prot flags desc off fsz p)
                             else vm_map s p))" if "range_in_space P n"
    using AddWithOverwrite_ok [OF s that] by blast
  show "\<exists>s'. NaClVmmapRemove s P n = Inr s' \<and> vm_wf s'
        \<and> (\<forall>p. vm_map s' p = (if p \<in> pages_of P n then None else vm_map s p))"
    if "range_in_space P n" "q \<notin> pages_of P n" "vm_map s q \<noteq> None" for q
    using Remove_ok [OF s that] by blast
  show "\<exists>r s'. NaClVmmapFindMapSpace s n = Inr (r, s') \<and> vm_wf s' \<and> vm_map s' = vm_map s
        \<and> (r \<noteq> 0 \<longrightarrow> 16 dvd unat r \<and> unat r + nat_round_up 4 (unat n) \<le> vm_pages
             \<and> (\<forall>p \<in> {unat r ..< unat r + nat_round_up 4 (unat n)}. vm_map s p = None))"
    if n: "unat n \<le> vm_pages"
  proof -
    obtain r s' where "NaClVmmapFindMapSpace s n = Inr (r, s')" "vm_same s s'"
      "r \<noteq> 0 \<longrightarrow> free_run s (unat r) (nat_round_up 4 (unat n))"
      using FindMapSpace_ok [OF s n] by blast
    then show ?thesis by (auto simp: vm_same_def free_run_def)
  qed
qed

section \<open>A concrete map\<close>

text \<open>
  A map as the loader leaves it: text at 64KB, a shared mapping of descriptor 7, and the
  stack in the last pages of the address space.
\<close>

definition demo_map :: vmmap where
  "demo_map = NaClVmmapAdd (NaClVmmapAdd (NaClVmmapAdd (NaClVmmapCtor (\<lambda>_. 1))
      16 16 5 2 None 0 0) 64 32 3 1 (Some 7) 0x10000 0x20000) 0xfff00 0x100 3 2 None 0 0"

lemma demo_entries:
  "vmentry demo_map = [NaClVmmapEntryMake 16 16 5 2 None 0 0,
     NaClVmmapEntryMake 64 32 3 1 (Some 7) 0x10000 0x20000,
     NaClVmmapEntryMake 0xfff00 0x100 3 2 None 0 0]"
  "vm_size demo_map = 5" "\<not> is_sorted demo_map"
  "desc_refs demo_map d = (if d = 7 then 2 else 1)"
  by (simp_all add: demo_map_def NaClVmmapAdd_def vmmap_push_def NaClVmmapCtor_def START_ENTRIES_def
      Let_def desc_ref_def NaClVmmapEntryMake_def)

lemmas demo_unfold = entry_live_def entry_ok_def before_def e_lo_def e_hi_def vm_pages_def
  NaClVmmapEntryMake_def

lemma demo_wf: "vm_wf demo_map"
proof -
  have "sorted_wrt before (vmentry demo_map)" "list_all entry_live (vmentry demo_map)"
    by (simp_all add: demo_entries demo_unfold)
  then show ?thesis
    using sorted_disjoint by (simp add: vm_wf_def entries_wf_def demo_entries(2,3))
       (simp add: demo_entries(1))
qed

lemma demo_lookup:
  "vm_map demo_map p =
    (if 16 \<le> p \<and> p < 32 then Some (new_page 16 5 2 None 0 0 p)
     else if 64 \<le> p \<and> p < 96 then Some (new_page 64 3 1 (Some 7) 0x10000 0x20000 p)
     else if 0xfff00 \<le> p \<and> p < 0x100000 then Some (new_page 0xfff00 3 2 None 0 0 p) else None)"
  by (simp add: demo_entries vm_lookup_Cons covers_def e_lo_def e_hi_def NaClVmmapEntryMake_def
      page_at_def page_offset_def new_page_def) (simp add: vm_lookup_def)

text \<open>
  After a protection change the regions of the map end where the range ends: none straddles the
  first page of the range or the page after it. The code that hands the range to the host
  relies on it.
\<close>

definition splits_at :: "vmmap_entry list \<Rightarrow> nat \<Rightarrow> bool" where
  "splits_at es p \<longleftrightarrow> (\<forall>e \<in> set es. \<not> (e_lo e < p \<and> p < e_hi e))"

lemma splits_at_simps [simp]:
  "splits_at [] p"
  "splits_at (e # es) p = (\<not> (e_lo e < p \<and> p < e_hi e) \<and> splits_at es p)"
  "splits_at (xs @ ys) p = (splits_at xs p \<and> splits_at ys p)"
  by (auto simp: splits_at_def)

definition all_from :: "nat \<Rightarrow> vmmap_entry list \<Rightarrow> bool" where
  "all_from b es \<longleftrightarrow> (\<forall>e \<in> set es. b \<le> e_lo e)"

lemma all_from_simps [simp]:
  "all_from b []" "all_from b (e # es) = (b \<le> e_lo e \<and> all_from b es)"
  "all_from b (xs @ ys) = (all_from b xs \<and> all_from b ys)"
  by (auto simp: all_from_def)

lemma all_from_splits: "all_from b es \<Longrightarrow> p \<le> b \<Longrightarrow> splits_at es p"
  by (fastforce simp: all_from_def splits_at_def)

lemma all_from_mono: "all_from b es \<Longrightarrow> a \<le> b \<Longrightarrow> all_from a es"
  by (fastforce simp: all_from_def)

lemma sorted_all_from: "sorted_wrt before (e # es) \<Longrightarrow> all_from (e_hi e) es"
  by (auto simp: all_from_def before_def)

lemma made_lo: "e_lo (NaClVmmapEntryMake P n a f d off sz) = unat P"
  by (simp add: NaClVmmapEntryMake_def e_lo_def)

definition split_result :: "u64 \<Rightarrow> u64 \<Rightarrow> vmmap_entry list \<Rightarrow> vmmap_entry list \<Rightarrow> bool" where
  "split_result P E es out \<longleftrightarrow> splits_at out (unat P) \<and> splits_at out (unat E)
     \<and> (\<forall>b. b \<le> unat P \<and> all_from b es \<longrightarrow> all_from b out)"

lemma change_prot_loop_splits:
  assumes "sorted_wrt before es" "list_all entry_live es" "P \<le> E" "unat E \<le> vm_pages" "covered es P E"
    and "P = E \<longrightarrow> all_from (unat E) es"
  shows "split_result P E es
    (fst (change_prot_loop E prot es P (E - P)) @ snd (change_prot_loop E prot es P (E - P)))"
  using assms
proof (induction es arbitrary: P)
  case Nil
  then show ?case by (simp add: split_result_def)
next
  case (Cons e es)
  show ?case
  proof (cases "P = E")
    case True
    then show ?thesis
      using Cons.prems(6) change_prot_stop [of E prot "e # es"] all_from_splits [of "unat E" "e # es" "unat E"]
      by (simp add: split_result_def)
  next
    case False
    then have lt: "P < E" using Cons.prems(3) by simp
    then have PE: "unat P < unat E" by (simp add: word_nat)
    have live: "entry_live e" and es: "list_all entry_live es" and srt: "sorted_wrt before es"
      using Cons.prems(1,2) by simp_all
    have ok: "entry_ok e" using live by (auto simp: entry_live_def)
    have lo: "e_lo e \<le> unat P" using covered_lo [OF Cons.prems(1) live Cons.prems(5) lt] .
    note eqs = change_prot_eqs [OF live lt, of prot es] and hi = unat_end [OF ok]
    note from_hi = sorted_all_from [OF Cons.prems(1)]
    let ?hi = "e_page_num e + e_npages e"
    have len: "unat (E - P) = unat E - unat P" using PE by (simp add: unat_sub_nowrap)
    have IH: "split_result Q E es (fst (change_prot_loop E prot es Q (E - Q)) @ snd (change_prot_loop E prot es Q (E - Q)))"
      if "unat Q \<le> unat E" "unat P \<le> unat Q" "e_hi e \<le> unat Q" "Q = E \<longrightarrow> all_from (unat E) es" for Q
      using Cons.IH [OF srt es _ Cons.prems(4) covered_rest [OF Cons.prems(5) that(3,2)] that(4)] that(1)
      by (simp add: word_nat)
    from lt show ?thesis
    proof (cases rule: update_cases [of P E e])
      case mid
      note ce = cut_end [OF mid(1)]
      have "splits_at es (unat P)" "splits_at es (unat E)" using all_from_splits [OF from_hi] mid PE by simp_all
      then show ?thesis
        using mid PE len by (auto simp: eqs(1) [OF mid] split_result_def ce prot_entry_page made_lo)
    next
      case tail
      have q: "unat ?hi \<le> unat E" "unat P \<le> unat ?hi" "e_hi e \<le> unat ?hi" using tail hi by simp_all
      have fin: "?hi = E \<longrightarrow> all_from (unat E) es" using from_hi hi by auto
      note r = IH [OF q fin, unfolded split_result_def hi]
      have ln: "unat (?hi - P) = e_hi e - unat P" using tail hi by (simp add: unat_sub_nowrap)
      have "all_from (e_hi e) (fst (change_prot_loop E prot es ?hi (E - ?hi)) @ snd (change_prot_loop E prot es ?hi (E - ?hi)))"
        using r from_hi by blast
      then show ?thesis
        unfolding eqs(2) [OF tail] Let_def split_result_def
        using r tail PE ln all_from_splits [of "e_hi e" _ "unat P"]
        by (auto simp: cut_end [OF tail(1)] prot_entry_page intro: all_from_mono)
    next
      case head
      have "splits_at es (unat P)" "splits_at es (unat E)" using all_from_splits [OF from_hi] head PE by simp_all
      then show ?thesis
        using head PE len by (auto simp: eqs(3) [OF head] split_result_def prot_entry_page made_lo)
    next
      case all
      have lohi: "e_lo e < e_hi e" using ok by (simp add: entry_ok_def e_hi_def e_lo_def)
      have q: "unat ?hi \<le> unat E" "unat P \<le> unat ?hi" "e_hi e \<le> unat ?hi" using all lo lohi hi by simp_all
      have fin: "?hi = E \<longrightarrow> all_from (unat E) es" using from_hi hi by auto
      note r = IH [OF q fin, unfolded split_result_def hi]
      have "all_from (e_hi e) (fst (change_prot_loop E prot es ?hi (E - ?hi)) @ snd (change_prot_loop E prot es ?hi (E - ?hi)))"
        using r from_hi by blast
      then show ?thesis
        unfolding eqs(4) [OF all] Let_def split_result_def
        using r all PE lo lohi all_from_splits [of "e_hi e" _ "unat P"]
        by (auto simp: set_prot_page intro: all_from_mono)
    next
      case none
      then have hiP: "e_hi e \<le> unat P" using lo PE by simp
      have q: "unat P \<le> unat E" "unat P \<le> unat P" using PE by simp_all
      have r: "split_result P E es (fst (change_prot_loop E prot es P (E - P)) @ snd (change_prot_loop E prot es P (E - P)))"
        by (rule IH [OF q hiP]) (use False in simp)
      show ?thesis
        unfolding eqs(5) [OF none] Let_def
        using r hiP PE by (auto simp: split_result_def)
    qed
  qed
qed

lemma ChangeProt_splits:
  assumes wf: "vm_wf s" and r: "range_in_space P n" and acc: "accmode_ok getflags"
    and res: "NaClVmmapChangeProt getflags s P n prot = Inr (True, s')"
  shows "splits_at (vmentry s') (unat P)" "splits_at (vmentry s') (unat P + unat n)"
proof -
  let ?ok = "\<forall>p \<in> pages_of P n. \<exists>x. vm_map s p = Some x \<and> page_allows getflags prot x"
  obtain s0 where s0: "NaClVmmapCheckExistingMapping getflags s P n prot = Inr (?ok, s0)" "vm_wf s0" "vm_map s0 = vm_map s"
    using CheckExisting_ok [OF wf r acc, of prot] by blast
  have ok: ?ok using res unfolding NaClVmmapChangeProt_def s0(1) by (cases ?ok) auto
  obtain s1 where s1: "NaClVmmapMakeSorted s0 = Inr s1" "mset (vmentry s1) = mset (vmentry s0)"
    "sorted_wrt before (vmentry s1)" "vm_wf s1" "vm_map s1 = vm_map s0"
    "desc_refs s1 = desc_refs s0" "list_all entry_live (vmentry s1)" "length (vmentry s1) = length (vmentry s0)"
    using wf_sorted_state [OF s0(2)] .
  let ?lp = "change_prot_loop (P + n) prot (vmentry s1) P n"
  have s': "vmentry s' = fst ?lp @ snd ?lp"
    using res s0(1) s1(1) ok by (auto simp: NaClVmmapChangeProt_def Let_def foldl_push(1))
  note PE = range_end [OF r]
  have P: "P \<le> P + n" "unat (P + n) \<le> vm_pages" "P + n - P = n" "\<not> P = P + n"
    using PE r by (auto simp: range_in_space_def)
  have "covered (vmentry s1) P (P + n)"
    using ok PE s1(5) s0(3) unfolding covered_def by (metis option.distinct(1) vm_lookup_None_iff)
  from change_prot_loop_splits [OF s1(3,7) P(1,2) this, of prot] P(3,4)
  have "split_result P (P + n) (vmentry s1) (fst ?lp @ snd ?lp)" by simp
  then show "splits_at (vmentry s') (unat P)" "splits_at (vmentry s') (unat P + unat n)"
    using PE unfolding split_result_def s' by simp_all
qed

text \<open>An empty range is looked up in the same way, and nothing changes.\<close>

lemma check_existing_total:
  "accmode_ok getflags \<Longrightarrow> \<exists>b. check_existing_loop getflags es P E prot = Inr b"
proof (induction es arbitrary: P)
  case (Cons e es)
  obtain m where "NaClVmmapEntryMaxProt getflags e = Inr m" using maxprot_ok [OF Cons.prems] by blast
  then show ?case using Cons by (auto simp: check_existing_loop.simps(2) Let_def)
next
  case Nil
  then show ?case by (intro exI [of _ False]) simp
qed

lemma vm_same_trans: "vm_same a b \<Longrightarrow> vm_same b c \<Longrightarrow> vm_same a c"
  by (simp add: vm_same_def)

lemma ChangeProt_empty:
  assumes wf: "vm_wf s" and acc: "accmode_ok getflags"
  shows "\<exists>ok s'. NaClVmmapChangeProt getflags s P 0 prot = Inr (ok, s') \<and> vm_same s s'"
proof (cases "vmentry s = []")
  case True
  then have "NaClVmmapChangeProt getflags s P 0 prot = Inr (False, s)"
    by (simp add: NaClVmmapChangeProt_def NaClVmmapCheckExistingMapping_def)
  moreover have "vm_same s s" using wf True by (auto simp: vm_same_def vm_wf_def)
  ultimately show ?thesis by blast
next
  case False
  obtain s0 where s0: "NaClVmmapMakeSorted s = Inr s0" "vm_same s s0" using MakeSorted_same [OF wf] by blast
  obtain s1 where s1: "NaClVmmapMakeSorted s0 = Inr s1" "vm_same s0 s1"
    using MakeSorted_same [of s0] s0(2) by (auto simp: vm_same_def)
  obtain b where b: "check_existing_loop getflags (vmentry s0) P (P + 0) prot = Inr b"
    using check_existing_total [OF acc] by blast
  have none: "change_prot_loop P prot es P 0 = (es, [])" for es
    using change_prot_stop [of P prot es] by simp
  have "NaClVmmapChangeProt getflags s P 0 prot = Inr (b, if b then s1 else s0)"
    using False s0(1) s1(1) b none by (simp add: NaClVmmapChangeProt_def NaClVmmapCheckExistingMapping_def Let_def)
  then show ?thesis using s0(2) vm_same_trans [OF s0(2) s1(2)] by (cases b) auto
qed

end
