(* ===== verification/VmmapClaims.thy ===== *)
theory VmmapClaims
  imports VmmapTop
begin

text \<open>
  The properties of the memory map (\<open>sel_mem.c\<close>), each with a concrete map at which it applies.
\<close>

text \<open>The concrete map, marked sorted.\<close>

definition demo_sorted :: vmmap where
  "demo_sorted = demo_map\<lparr>is_sorted := True\<rparr>"

lemma demo_sorted_wf: "vm_wf demo_sorted" "vmentry demo_sorted = vmentry demo_map"
  using demo_wf by (simp_all add: demo_sorted_def vm_wf_def) (simp add: demo_entries demo_unfold)

lemma demo_sorted_state:
  "is_sorted demo_sorted" "vmentry demo_sorted = [NaClVmmapEntryMake 16 16 5 2 None 0 0,
     NaClVmmapEntryMake 64 32 3 1 (Some 7) 0x10000 0x20000,
     NaClVmmapEntryMake 0xfff00 0x100 3 2 None 0 0]"
  "vmentry demo_sorted \<noteq> []"
  by (simp_all add: demo_sorted_def demo_entries)

lemma demo_split: "check_existing_loop (\<lambda>_. 2) (vmentry demo_sorted) 72 80 1 = Inr True"
  unfolding demo_sorted_state(2) by code_simp

lemmas demo_page_simps = vm_lookup_def covers_def e_lo_def e_hi_def NaClVmmapEntryMake_def
  page_at_def page_offset_def NACL_PAGESHIFT_def

section \<open>Overwriting and removing pages\<close>

text \<open>C15: Overwriting a range of pages maps exactly those pages to the new attributes and leaves
  every other page as it was, whatever regions the range splits, shortens or swallows; the
  regions stay disjoint, and the descriptor references of the regions stay balanced.\<close>

theorem vmmap_overwrite:
  assumes "vm_wf s" "range_in_space P n"
  shows "\<exists>s'. NaClVmmapAddWithOverwrite s P n prot flags desc off fsz = Inr s' \<and> vm_wf s'
    \<and> (\<forall>p. vm_map s' p = (if p \<in> pages_of P n then Some (new_page P prot flags desc off fsz p)
                         else vm_map s p))
    \<and> (\<forall>d. desc_refs s' d - held d (vmentry s') = desc_refs s d - held d (vmentry s))"
  by (rule AddWithOverwrite_ok [OF assms])

theorem vmmap_overwrite_witness:
  "\<exists>s'. NaClVmmapAddWithOverwrite demo_map 72 8 1 0x20 None 0 0 = Inr s' \<and> vm_wf s'
    \<and> vm_map s' 71 = vm_map demo_map 71 \<and> vm_map s' 79 = Some (new_page 72 1 0x20 None 0 0 79)"
proof -
  have "range_in_space 72 8" by (simp add: range_in_space_def vm_pages_def)
  from vmmap_overwrite [OF demo_wf this, where prot = 1 and flags = 32 and desc = None and off = 0 and fsz = 0]
  show ?thesis by (auto simp: pages_of_def)
qed

text \<open>C21: Removing a range of pages unmaps exactly those pages, provided some page outside the
  range stays mapped.\<close>

theorem vmmap_remove:
  assumes "vm_wf s" "range_in_space P n" "q \<notin> pages_of P n" "vm_map s q \<noteq> None"
  shows "\<exists>s'. NaClVmmapRemove s P n = Inr s' \<and> vm_wf s'
    \<and> (\<forall>p. vm_map s' p = (if p \<in> pages_of P n then None else vm_map s p))
    \<and> (\<forall>d. desc_refs s' d - held d (vmentry s') = desc_refs s d - held d (vmentry s))"
  by (rule Remove_ok [OF assms])

theorem vmmap_remove_witness:
  "\<exists>s'. NaClVmmapRemove demo_map 72 8 = Inr s' \<and> vm_map s' 72 = None
    \<and> vm_map s' 80 = vm_map demo_map 80 \<and> desc_refs s' 7 - held 7 (vmentry s') = 1"
proof -
  have "range_in_space 72 8" "16 \<notin> pages_of 72 8" "vm_map demo_map 16 \<noteq> None"
    by (simp_all add: range_in_space_def vm_pages_def pages_of_def demo_lookup)
  from vmmap_remove [OF demo_wf this]
  show ?thesis by (auto simp: pages_of_def demo_entries held_def NaClVmmapEntryMake_def)
qed

text \<open>C28: Removing the last mapped pages does not reach the fatal log message written for that
  case: every entry is freed first and the code then reads \<open>vmentry[0]\<close> through the null
  pointer it has just stored there.\<close>

theorem vmmap_remove_everything:
  assumes "vm_wf s" "range_in_space P n" "vmentry s \<noteq> []"
    "\<forall>p. p \<notin> pages_of P n \<longrightarrow> vm_map s p = None"
  shows "NaClVmmapRemove s P n = Inl Null_deref"
  unfolding NaClVmmapRemove_def by (rule Update_last_removed [OF assms])

theorem vmmap_remove_everything_witness:
  "NaClVmmapRemove (NaClVmmapAdd (NaClVmmapCtor (\<lambda>_. 0)) 16 4 3 2 None 0 0) 16 4 = Inl Null_deref"
proof -
  let ?s = "NaClVmmapAdd (NaClVmmapCtor (\<lambda>_. 0)) 16 4 3 2 None 0 0"
  have es: "vmentry ?s = [NaClVmmapEntryMake 16 4 3 2 None 0 0]" "vm_size ?s = 5" "\<not> is_sorted ?s"
    by (simp_all add: NaClVmmapAdd_def vmmap_push_def NaClVmmapCtor_def START_ENTRIES_def)
  have live: "sorted_wrt before (vmentry ?s)" "list_all entry_live (vmentry ?s)"
    by (simp_all add: es demo_unfold)
  have "vm_wf ?s" using sorted_disjoint [OF live(1)] live(2) es by (simp add: vm_wf_def entries_wf_def)
  moreover have "range_in_space 16 4" by (simp add: range_in_space_def vm_pages_def)
  moreover have "\<forall>p. p \<notin> pages_of 16 4 \<longrightarrow> vm_map ?s p = None"
    by (auto simp: es vm_lookup_def covers_def pages_of_def e_lo_def e_hi_def NaClVmmapEntryMake_def)
  ultimately show ?thesis using es(1) by (intro vmmap_remove_everything) simp_all
qed

text \<open>Mapping a free range and removing it again gives back the page map there was before.\<close>

lemma vmmap_map_unmap:
  assumes "vm_wf s" "range_in_space P n" "q \<notin> pages_of P n" "vm_map s q \<noteq> None"
    "\<forall>p \<in> pages_of P n. vm_map s p = None"
  shows "\<exists>s' s''. NaClVmmapAddWithOverwrite s P n prot flags desc off fsz = Inr s'
    \<and> NaClVmmapRemove s' P n = Inr s'' \<and> vm_wf s'' \<and> vm_map s'' = vm_map s"
  by (rule vm.erase_after_overwrite [OF assms])

lemma vmmap_map_unmap_witness:
  "\<exists>s' s''. NaClVmmapAddWithOverwrite demo_map 32 16 3 2 (Some 4) 0 0 = Inr s'
    \<and> NaClVmmapRemove s' 32 16 = Inr s'' \<and> vm_wf s'' \<and> vm_map s'' = vm_map demo_map"
  by (rule vmmap_map_unmap [OF demo_wf, where q = 16])
    (simp_all add: range_in_space_def vm_pages_def pages_of_def demo_lookup)

section \<open>Protection\<close>

text \<open>The check before a protection change answers yes exactly when every page of the range
  is mapped and its backing allows the requested protection, and it does not change the map.\<close>

lemma vmmap_check_existing:
  assumes "vm_wf s" "range_in_space P n" "accmode_ok getflags"
  shows "\<exists>s'. NaClVmmapCheckExistingMapping getflags s P n prot
      = Inr (\<forall>p \<in> pages_of P n. \<exists>x. vm_map s p = Some x \<and> page_allows getflags prot x, s')
    \<and> vm_wf s' \<and> vm_map s' = vm_map s \<and> sorted_wrt before (vmentry s')
    \<and> (\<forall>d. desc_refs s' d - held d (vmentry s') = desc_refs s d - held d (vmentry s))"
  by (rule CheckExisting_ok [OF assms])

lemma vmmap_check_existing_witness:
  "\<exists>s'. NaClVmmapCheckExistingMapping (\<lambda>_. 0) demo_map 60 8 1 = Inr (False, s')"
proof -
  have acc: "accmode_ok (\<lambda>_. 0)" and r: "range_in_space 60 8"
    and p: "60 \<in> pages_of 60 8" "vm_map demo_map 60 = None"
    by (simp_all add: accmode_ok_def range_in_space_def vm_pages_def pages_of_def demo_lookup)
  have no: "(\<forall>p \<in> pages_of 60 8. \<exists>x. vm_map demo_map p = Some x \<and> page_allows (\<lambda>_. 0) 1 x) = False"
    using p by (intro iffI notI) (drule bspec [of _ _ 60], simp_all)
  from vmmap_check_existing [OF demo_wf r acc, of 1] show ?thesis unfolding no by blast
qed

text \<open>C23: A protection change succeeds exactly when every page of the range is mapped and allows
  the protection; then the pages of the range keep their flags, descriptor and file size, get
  the new protection, and all other pages keep everything. When it fails nothing changes. (The
  file offset of the pages of the range is excepted; see the next property.)\<close>

theorem vmmap_change_prot:
  fixes prot :: u32
  assumes "vm_wf s" "range_in_space P n" "accmode_ok getflags"
  defines "ok \<equiv> (\<forall>p \<in> pages_of P n. \<exists>x. vm_map s p = Some x \<and> page_allows getflags prot x)"
  shows "\<exists>s'. NaClVmmapChangeProt getflags s P n prot = Inr (ok, s') \<and> vm_wf s'
    \<and> (\<forall>p. if ok \<and> p \<in> pages_of P n
           then map_option no_offset (vm_map s' p) = map_option (with_prot prot) (vm_map s p)
           else vm_map s' p = vm_map s p)
    \<and> (\<forall>d. desc_refs s' d - held d (vmentry s') = desc_refs s d - held d (vmentry s))"
  unfolding ok_def by (rule ChangeProt_ok [OF assms(1-3)])

theorem vmmap_change_prot_witness:
  "\<exists>s'. NaClVmmapChangeProt (\<lambda>_. 2) demo_map 20 4 1 = Inr (True, s') \<and> vm_wf s'
    \<and> vm_map s' 24 = vm_map demo_map 24"
proof -
  have "accmode_ok (\<lambda>_. 2)" "range_in_space 20 4" and p: "pages_of 20 4 = {20..<24}"
    by (simp_all add: accmode_ok_def mman_consts range_in_space_def vm_pages_def pages_of_def)
  moreover have "\<forall>p \<in> {20..<24}. \<exists>x. vm_map demo_map p = Some x \<and> page_allows (\<lambda>_. 2) 1 x"
    by (auto simp: demo_lookup page_allows_def page_max_prot_def NaClVmmapEntryMaxProt_def new_page_def
        NaClVmmapEntryMake_def mman_consts)
  ultimately show ?thesis
    using vmmap_change_prot [OF demo_wf, of 20 4 "\<lambda>_. 2" 1] by auto
qed

text \<open>C29: Changing the protection of a range inside a file mapping corrupts the recorded file offset.
  For every well-formed map and every range that lies strictly inside one entry, a successful
  \<open>NaClVmmapChangeProt\<close> sets the protection of the pages of the range and leaves their flags, descriptor and
  file size, but the offset recorded for each of them is too small by 4095 times the number of pages between the
  start of the entry and the range, because the code adds a number of pages to an offset in bytes. So it
  is never the right one.\<close>

theorem vmmap_change_prot_offset:
  assumes "vm_wf s" "range_in_space P n" "accmode_ok getflags"
    and "NaClVmmapChangeProt getflags s P n prot = Inr (True, s')"
    and "e \<in> set (vmentry s)" "e_lo e < unat P" "unat P + unat n < e_hi e" "p \<in> pages_of P n"
  shows "\<exists>x. vm_map s p = Some x
    \<and> vm_map s' p = Some (x\<lparr>pg_prot := prot, pg_offset := pg_offset x - 4095 * (P - e_page_num e)\<rparr>)
    \<and> pg_offset x - 4095 * (P - e_page_num e) \<noteq> pg_offset x"
proof -
  from split_offset [OF assms(6) range_start [OF assms(2)], of n prot p]
  have "page_offset e p - 4095 * (P - e_page_num e) \<noteq> page_offset e p" by simp
  then show ?thesis using ChangeProt_offset [OF assms(1,2,4,3,5-8)] by (simp add: page_at_def)
qed

lemma demo_change:
  "\<exists>s'. NaClVmmapChangeProt (\<lambda>_. 2) demo_sorted 72 8 1 = Inr (True, s')"
  using demo_split demo_sorted_state
  by (simp add: NaClVmmapChangeProt_def NaClVmmapCheckExistingMapping_def NaClVmmapMakeSorted_def Let_def)

theorem vmmap_change_prot_offset_witness:
  "\<exists>s'. NaClVmmapChangeProt (\<lambda>_. 2) demo_sorted 72 8 1 = Inr (True, s')
    \<and> map_option pg_offset (vm_map demo_sorted 72) = Some 0x18000 \<and> map_option pg_offset (vm_map s' 72) = Some 0x10008"
proof -
  obtain s' where c: "NaClVmmapChangeProt (\<lambda>_. 2) demo_sorted 72 8 1 = Inr (True, s')" using demo_change by blast
  let ?e = "vmentry demo_sorted ! 1"
  have pre: "range_in_space 72 8" "accmode_ok (\<lambda>_. 2)" "(72 :: nat) \<in> pages_of 72 8"
    by (simp_all add: range_in_space_def vm_pages_def accmode_ok_def mman_consts pages_of_def)
  have e: "?e \<in> set (vmentry demo_sorted)" "e_lo ?e < unat (72 :: u64)" "unat (72 :: u64) + unat (8 :: u64) < e_hi ?e"
    "e_page_num ?e = 64"
    unfolding demo_sorted_state(2) by (simp_all add: NaClVmmapEntryMake_def e_lo_def e_hi_def)
  have "map_option pg_offset (vm_map demo_sorted 72) = Some 0x18000"
    unfolding demo_sorted_state(2) by (simp add: demo_page_simps)
  then show ?thesis
    using vmmap_change_prot_offset [OF demo_sorted_wf(1) pre(1,2) c e(1-3) pre(3)] c e(4) by auto
qed

section \<open>Searching\<close>

text \<open>Looking up a page finds the entry that covers it, with the page's attributes, or none
  when the page is not mapped; the search sees every entry.\<close>

lemma vmmap_find_page:
  assumes "vm_wf s"
  shows "\<exists>r s'. NaClVmmapFindPage s pnum = Inr (r, s') \<and> vm_same s s'
    \<and> map_option (page_at (unat pnum)) r = vm_map s (unat pnum)
    \<and> (\<forall>e. r = Some e \<longrightarrow> e \<in> set (vmentry s') \<and> covers (unat pnum) e)"
  by (rule FindPage_ok [OF assms])

lemma vmmap_find_page_witness:
  "\<exists>r s'. NaClVmmapFindPage demo_map 70 = Inr (Some r, s') \<and> covers 70 r"
  using vmmap_find_page [OF demo_wf, of 70] by (auto simp: demo_lookup)

text \<open>Allocating pages without a hint never touches an existing mapping: when the search
  returns a page, all pages it was asked for are free there, and entering the new region
  leaves every page that was mapped as it was.\<close>

lemma vmmap_allocate_preserves:
  assumes "vm_wf s" "0 < n" "unat n \<le> vm_pages" "NaClVmmapFindMapSpace s n = Inr (r, s1)" "r \<noteq> 0"
  shows "\<exists>s'. NaClVmmapAddWithOverwrite s1 r n prot flags desc off fsz = Inr s' \<and> vm_wf s'
    \<and> (\<forall>p \<in> pages_of r n. vm_map s p = None)
    \<and> (\<forall>p. vm_map s' p = (if p \<in> pages_of r n then Some (new_page r prot flags desc off fsz p)
                         else vm_map s p))"
  by (rule vm.allocate_preserves [OF assms])

lemma demo_find: "NaClVmmapFindMapSpace demo_sorted 20 = Inr (0xffee0, demo_sorted)"
proof -
  have "find_map_space_loop (vmentry demo_map) (NaClRoundPageNumUpToMapMultiple 20)
      (length (vmentry demo_map)) = 0xffee0"
    unfolding demo_entries by code_simp
  moreover have "vmentry demo_map \<noteq> []" by (simp add: demo_entries)
  ultimately show ?thesis
    by (simp add: NaClVmmapFindMapSpace_def NaClVmmapMakeSorted_def demo_sorted_def)
qed

lemma vmmap_allocate_preserves_witness:
  "\<exists>s'. NaClVmmapAddWithOverwrite demo_sorted 0xffee0 20 3 2 None 0 0 = Inr s'
    \<and> vm_map s' 70 = vm_map demo_sorted 70 \<and> vm_map s' 0xffee0 \<noteq> None"
  using vmmap_allocate_preserves [OF demo_sorted_wf(1) _ _ demo_find, where prot = 3 and flags = 2 and desc = None and off = 0 and fsz = 0]
  by (auto simp: vm_pages_def pages_of_def)

text \<open>The downward search misses no room between two regions: when it returns 0 there is no
  pair of neighbouring regions with enough map-aligned space between them.\<close>

lemma vmmap_find_space_complete:
  assumes "vm_wf s" "0 < unat num_pages" "unat num_pages \<le> vm_pages"
    and "NaClVmmapFindMapSpace s num_pages = Inr (0, s')"
  shows "\<forall>i. 0 < i \<and> i < length (vmentry s')
    \<longrightarrow> \<not> map_gap (vmentry s') (nat_round_up 4 (unat num_pages)) i"
  by (rule FindMapSpace_complete [OF assms])

lemma demo_find_none: "NaClVmmapFindMapSpace demo_sorted 0x100000 = Inr (0, demo_sorted)"
proof -
  have "find_map_space_loop (vmentry demo_map) (NaClRoundPageNumUpToMapMultiple 0x100000)
      (length (vmentry demo_map)) = 0"
    unfolding demo_entries by code_simp
  moreover have "vmentry demo_map \<noteq> []" by (simp add: demo_entries)
  ultimately show ?thesis
    by (simp add: NaClVmmapFindMapSpace_def NaClVmmapMakeSorted_def demo_sorted_def)
qed

lemma vmmap_find_space_complete_witness:
  "\<not> map_gap (vmentry demo_sorted) (nat_round_up 4 0x100000) 1"
  using vmmap_find_space_complete [OF demo_sorted_wf(1) _ _ demo_find_none]
  by (simp add: vm_pages_def demo_sorted_wf(2) demo_entries(1))

text \<open>The search above a hint returns 0 or a page at or above the hint from which all
  requested pages are free and inside the address space, aligned when the hint is.\<close>

lemma vmmap_above_hint:
  assumes "vm_wf s" "unat num_pages \<le> vm_pages"
  shows "\<exists>r s'. NaClVmmapFindMapSpaceAboveHint s uaddr num_pages = Inr (r, s') \<and> vm_same s s'
    \<and> (r \<noteq> 0 \<longrightarrow> unat uaddr div 4096 \<le> unat r
        \<and> unat r + nat_round_up 4 (unat num_pages) \<le> vm_pages
        \<and> (\<forall>p \<in> {unat r ..< unat r + nat_round_up 4 (unat num_pages)}. vm_map s p = None)
        \<and> (65536 dvd unat uaddr \<longrightarrow> 16 dvd unat r))"
  by (rule FindMapSpaceAboveHint_ok [OF assms])

lemma vmmap_above_hint_witness:
  "\<exists>r s'. NaClVmmapFindMapSpaceAboveHint demo_map 0x100000 16 = Inr (r, s')
    \<and> (r \<noteq> 0 \<longrightarrow> 256 \<le> unat r \<and> 16 dvd unat r)"
  using vmmap_above_hint [OF demo_wf, of 16 "0x100000"] by (auto simp: vm_pages_def)

section \<open>Iterators\<close>

text \<open>Erasing through an iterator removes exactly the entry it points to, but the entry's
  descriptor keeps the reference the entry held: after the erase the descriptor has one
  reference more than there are entries for it.\<close>

lemma vmmap_iter_erase:
  assumes "vm_wf s" "ix < length (vmentry s)" "e_desc (vmentry s ! ix) = Some d"
  shows "\<exists>s'. NaClVmmapIterErase s ix = Inr s'
    \<and> add_mset (vmentry s ! ix) (mset (vmentry s')) = mset (vmentry s)
    \<and> desc_refs s' d - held d (vmentry s') = desc_refs s d - held d (vmentry s) + 1"
proof -
  obtain s' where s': "NaClVmmapIterErase s ix = Inr s'"
    "add_mset (vmentry s ! ix) (mset (vmentry s')) = mset (vmentry s)" "desc_refs s' = desc_refs s"
    using IterErase_map [OF assms(1,2)] by blast
  have "held d (vmentry s) = held d (vmentry s') + 1"
    using s'(2) [symmetric] assms(3) by (simp add: held_def)
  then show ?thesis using s' by simp
qed

lemma vmmap_iter_erase_witness:
  "\<exists>s'. NaClVmmapIterErase demo_map 1 = Inr s' \<and> desc_refs s' 7 - held 7 (vmentry s') = 2"
  using vmmap_iter_erase [OF demo_wf, of 1 7]
  by (auto simp: demo_entries held_def NaClVmmapEntryMake_def)

end
