(* ===== verification/DynMem.thy ===== *)
theory DynMem
  imports AddrSpace
begin

text \<open>
  Byte memory as the trusted library sees it: the sandbox is ordinary memory of the process.
  Values are stored little-endian, as on x86-64.
\<close>

type_synonym bytes = "u64 \<Rightarrow> u8"

definition le_bytes :: "nat \<Rightarrow> 'a::len word \<Rightarrow> u8 list" where
  "le_bytes n w = map (\<lambda>i. ucast (drop_bit (8 * i) w)) [0 ..< n]"

definition le_word :: "u8 list \<Rightarrow> 'a::len word" where
  "le_word bs = foldr (\<lambda>b acc. ucast b OR push_bit 8 acc) bs 0"

definition write_bytes :: "u64 \<Rightarrow> u8 list \<Rightarrow> bytes \<Rightarrow> bytes" where
  "write_bytes a bs m = (\<lambda>x. let i = unat (x - a) in if i < length bs then bs ! i else m x)"

definition read_bytes :: "u64 \<Rightarrow> nat \<Rightarrow> bytes \<Rightarrow> u8 list" where
  "read_bytes a n m = map (\<lambda>i. m (a + word_of_nat i)) [0 ..< n]"

definition store64 :: "u64 \<Rightarrow> u64 \<Rightarrow> bytes \<Rightarrow> bytes" where
  "store64 a v = write_bytes a (le_bytes 8 v)"

definition load64 :: "u64 \<Rightarrow> bytes \<Rightarrow> u64" where
  "load64 a m = le_word (read_bytes a 8 m)"

definition load32 :: "u64 \<Rightarrow> bytes \<Rightarrow> u32" where
  "load32 a m = le_word (read_bytes a 4 m)"

lemma length_le_bytes [simp]: "length (le_bytes n w) = n"
  by (simp add: le_bytes_def)

lemma le_bytes_Suc: "le_bytes (Suc n) w = ucast w # le_bytes n (drop_bit 8 w)"
proof -
  have "[0 ..< Suc n] = 0 # map Suc [0 ..< n]" by (simp add: upt_conv_Cons map_Suc_upt del: upt_Suc)
  then show ?thesis by (simp add: le_bytes_def drop_bit_drop_bit add.commute)
qed

lemma le_word_le_bytes: "le_word (le_bytes n (w :: 'a::len word)) = take_bit (8 * n) w"
proof (induction n arbitrary: w)
  case 0
  then show ?case by (simp add: le_word_def le_bytes_def)
next
  case (Suc n)
  have "le_word (le_bytes (Suc n) w) = ucast (ucast w :: u8) OR push_bit 8 (le_word (le_bytes n (drop_bit 8 w)))"
    by (simp add: le_bytes_Suc le_word_def)
  also have "\<dots> = take_bit 8 w OR push_bit 8 (take_bit (8 * n) (drop_bit 8 w))"
    by (simp add: Suc.IH) (rule bit_word_eqI, auto simp: bit_simps)
  also have "\<dots> = take_bit (8 * Suc n) w"
    by (rule bit_word_eqI) (auto simp: bit_simps)
  finally show ?case .
qed

lemma le_word_le_bytes_full: "le_word (le_bytes 8 (w :: u64)) = w" "le_word (le_bytes 4 (v :: u32)) = v"
  using le_word_le_bytes [of 8 w] le_word_le_bytes [of 4 v]
  by (simp_all add: take_bit_word_eq_self)

lemma read_write_same:
  assumes "length bs < 2 ^ 64"
  shows "read_bytes a (length bs) (write_bytes a bs m) = bs"
proof (rule nth_equalityI)
  fix i assume "i < length (read_bytes a (length bs) (write_bytes a bs m))"
  then have i: "i < length bs" by (simp add: read_bytes_def)
  then have "unat (word_of_nat i :: u64) = i" using assms by (simp add: unat_of_nat)
  then show "read_bytes a (length bs) (write_bytes a bs m) ! i = bs ! i"
    using i by (simp add: read_bytes_def write_bytes_def Let_def)
qed (simp add: read_bytes_def)

lemma load_store64: "load64 a (store64 a v m) = v"
  using read_write_same [of "le_bytes 8 v" a m]
  by (simp add: load64_def store64_def le_word_le_bytes_full)

text \<open>Addresses written by a store that does not run past the end of the address range.\<close>

lemma write_bytes_other:
  assumes "unat a + length bs \<le> 2 ^ 64" "unat x < unat a \<or> unat a + length bs \<le> unat x"
  shows "write_bytes a bs m x = m x"
proof (cases "unat x < unat a")
  case True
  then have "unat (x - a) = 2 ^ 64 + unat x - unat a"
    by (simp add: unat_sub_if' word_less_nat_alt)
  then have "\<not> unat (x - a) < length bs" using assms(1) by linarith
  then show ?thesis by (simp add: write_bytes_def)
next
  case False
  then have "unat (x - a) = unat x - unat a" by (simp add: unat_sub_nowrap)
  then have "\<not> unat (x - a) < length bs" using assms(2) False by linarith
  then show ?thesis by (simp add: write_bytes_def)
qed

lemma read_write_other:
  assumes "unat a + length bs \<le> 2 ^ 64" "unat x + n \<le> 2 ^ 64"
    and "unat x + n \<le> unat a \<or> unat a + length bs \<le> unat x"
  shows "read_bytes x n (write_bytes a bs m) = read_bytes x n m"
proof -
  have "write_bytes a bs m (x + word_of_nat i) = m (x + word_of_nat i)" if "i < n" for i
  proof (rule write_bytes_other [OF assms(1)])
    have "unat (word_of_nat i :: u64) = i" using that assms(2) by (simp add: unat_of_nat)
    then have "unat (x + word_of_nat i) = unat x + i"
      using that assms(2) unat_add_nowrap [of x "word_of_nat i"] by simp
    then show "unat (x + word_of_nat i) < unat a \<or> unat a + length bs \<le> unat (x + word_of_nat i)"
      using that assms(3) by linarith
  qed
  then show ?thesis by (simp add: read_bytes_def)
qed

end
