(* ===== verification/DynLdr.thy ===== *)
theory DynLdr
  imports DynMem
begin

text \<open>
  The library that lets an application call functions inside a sandbox and lets sandboxed
  code call back (\<open>dyn_ldr/dyn_ldr_lib.c\<close>, \<open>dyn_ldr_lib.h\<close>, \<open>datastructures/ds_map.h\<close>,
  \<open>ds_stack.h\<close>), for x86-64: data and the operations that run in trusted code. Entering and
  leaving the sandbox is in \<open>DynCall\<close>.
\<close>

section \<open>The thread map and the jump buffer stack\<close>

definition MAP_ARR_SIZE :: nat where "MAP_ARR_SIZE = 128"
definition STACK_ARR_SIZE :: nat where "STACK_ARR_SIZE = 128"

text \<open>
  Both arrays keep their whole extent, since \<open>Map_Get\<close> reads slots that were never written.
\<close>

record ds_map =
  map_keys :: "u32 list"
  map_values :: "u64 list"
  map_top :: nat

definition Map_Init :: "ds_map \<Rightarrow> ds_map" where
  "Map_Init m = m\<lparr>map_top := 0\<rparr>"

definition Map_Put :: "ds_map \<Rightarrow> u32 \<Rightarrow> u64 \<Rightarrow> ds_map exec" where
  "Map_Put m key val =
     (if map_top m = MAP_ARR_SIZE then Inl Log_fatal
      else Inr (m\<lparr>map_keys := (map_keys m)[map_top m := key],
                  map_values := (map_values m)[map_top m := val],
                  map_top := map_top m + 1\<rparr>))"

fun map_scan :: "u32 list \<Rightarrow> u64 list \<Rightarrow> u32 \<Rightarrow> u64" where
  "map_scan (k # ks) (v # vs) key = (if k = key then v else map_scan ks vs key)"
| "map_scan ks vs key = 0"

definition Map_Get :: "ds_map \<Rightarrow> u32 \<Rightarrow> u64" where
  "Map_Get m key = map_scan (map_keys m) (map_values m) key"

definition Map_GetSize :: "ds_map \<Rightarrow> nat" where
  "Map_GetSize m = map_top m"

text \<open>
  The stack of \<open>jmp_buf\<close>s: a push or pop returns the index of the buffer. What a buffer holds is
  the point in \<open>invokeFunctionCall\<close> to resume at, kept by the frames of \<open>DynCall\<close>.
\<close>

definition Stack_GetTopPtrForPush :: "nat \<Rightarrow> (nat \<times> nat) exec" where
  "Stack_GetTopPtrForPush currentTop =
     (if currentTop = STACK_ARR_SIZE then Inl Log_fatal else Inr (currentTop, currentTop + 1))"

definition Stack_GetTopPtrForPop :: "nat \<Rightarrow> (nat \<times> nat) exec" where
  "Stack_GetTopPtrForPop currentTop =
     (if currentTop = 0 then Inl Log_fatal else Inr (currentTop - 1, currentTop - 1))"

section \<open>State\<close>

text \<open>\<open>struct NaClThreadContext\<close>: the registers of the untrusted thread.\<close>

record user_regs =
  r_rbx :: u64
  r_rcx :: u64
  r_rdx :: u64
  r_rbp :: u64
  r_rsi :: u64
  r_rdi :: u64
  r_rsp :: u64
  r_r8 :: u64
  r_r9 :: u64
  r_r12 :: u64
  r_r13 :: u64
  r_r14 :: u64
  r_r15 :: u64
  r_prog_ctr :: u64
  r_new_prog_ctr :: u64
  r_sysret :: u64
  r_xmm :: "u64 list"

datatype suspend_state = NACL_APP_THREAD_TRUSTED | NACL_APP_THREAD_UNTRUSTED

text \<open>
  The part of \<open>struct NaClAppThread\<close> the library uses: \<open>jump_top\<close> is \<open>jumpBufferStack->currentTop\<close>.
\<close>

record app_thread =
  user :: user_regs
  suspend_state :: suspend_state
  jump_top :: nat
  register_eax :: u64
  register_xmm0 :: u64
  custom_app_state :: u64

text \<open>\<open>struct _NaClSandbox_Thread\<close>; \<open>td_thread\<close> is the index of its \<open>NaClAppThread\<close>.\<close>

record thread_data =
  td_thread :: nat
  stack_ptr_forParameters :: u64
  saved_stack_ptr_forFunctionCall :: u64
  stack_ptr_arrayLocation :: u64
  callbackParamsAlreadyRead :: u64
  registerParameterNumber :: u32
  callbackParameterNumber :: u32
  floatRegisterParameterNumber :: u32

text \<open>
  \<open>struct _NaClSandbox\<close> together with the fields of its \<open>NaClApp\<close> and the process memory.
  \<open>app_threads\<close> is the used part of \<open>nap->threads\<close>; \<open>thread_datas\<close> is the heap of thread
  structures, by address; \<open>current_thread\<close> is the thread-local \<open>nacl_current_thread\<close>.
\<close>

record dyn_sandbox = nacl_space +
  sb_mem :: bytes
  callbackSlot :: "u64 list"
  callbackSlotState :: "u64 list"
  data_start :: u64
  stack_size :: u64
  app_threads :: "app_thread list"
  symbolMap :: "(string \<times> u64) list"
  threadDataMap :: ds_map
  thread_datas :: "u64 \<Rightarrow> thread_data option"
  callbackParameterStartOffset :: u32
  threadMainPtr :: u64
  exitFunctionWrapperPtr :: u64
  callbackFunctionWrapper :: "u64 list"
  mallocPtr :: u64
  freePtr :: u64
  fopenPtr :: u64
  fclosePtr :: u64
  current_thread :: "nat option"

definition CALLBACK_SLOTS_AVAILABLE :: u32 where "CALLBACK_SLOTS_AVAILABLE = 8"
definition STACKALIGNMENT :: u64 where "STACKALIGNMENT = 16"
definition STACK_JUST_IN_CASE_BUFFER_SPACE :: u64 where "STACK_JUST_IN_CASE_BUFFER_SPACE = 128"

definition ROUND_UP_TO_POW2 :: "u64 \<Rightarrow> u64 \<Rightarrow> u64" where
  "ROUND_UP_TO_POW2 val alignment = (val + alignment - 1) AND NOT (alignment - 1)"

definition ROUND_DOWN_TO_POW2 :: "u64 \<Rightarrow> u64 \<Rightarrow> u64" where
  "ROUND_DOWN_TO_POW2 val alignment = val AND NOT (alignment - 1)"

section \<open>Addresses\<close>

definition getUnsandboxedAddress :: "'a nacl_space_scheme \<Rightarrow> u64 \<Rightarrow> u64 exec" where
  "getUnsandboxedAddress sb uaddr =
     (if uaddr = 0 then Inr 0 else NaClUserToSys sb (uaddr AND 0xFFFFFFFF))"

definition getSandboxedAddress :: "'a nacl_space_scheme \<Rightarrow> u64 \<Rightarrow> u64 exec" where
  "getSandboxedAddress sb uaddr = (if uaddr = 0 then Inr 0 else NaClSysToUser sb uaddr)"

definition isAddressInSandboxMemoryOrNull :: "'a nacl_space_scheme \<Rightarrow> u64 \<Rightarrow> bool" where
  "isAddressInSandboxMemoryOrNull sb uaddr \<longleftrightarrow> uaddr = 0 \<or> NaClIsUserAddr sb uaddr"

definition isAddressInNonSandboxMemoryOrNull :: "'a nacl_space_scheme \<Rightarrow> u64 \<Rightarrow> bool" where
  "isAddressInNonSandboxMemoryOrNull sb uaddr \<longleftrightarrow> uaddr = 0 \<or> \<not> NaClIsUserAddr sb uaddr"

definition getSandboxMemoryBase :: "'a nacl_space_scheme \<Rightarrow> u64" where
  "getSandboxMemoryBase sb = mem_start sb"

section \<open>Access to the structures\<close>

definition get_td :: "dyn_sandbox \<Rightarrow> u64 \<Rightarrow> thread_data exec" where
  "get_td sb td = (case thread_datas sb td of None \<Rightarrow> Inl Null_deref | Some d \<Rightarrow> Inr d)"

definition put_td :: "u64 \<Rightarrow> thread_data \<Rightarrow> dyn_sandbox \<Rightarrow> dyn_sandbox" where
  "put_td td d sb = sb\<lparr>thread_datas := (thread_datas sb)(td \<mapsto> d)\<rparr>"

definition get_thread :: "dyn_sandbox \<Rightarrow> nat \<Rightarrow> app_thread exec" where
  "get_thread sb i = (if i < length (app_threads sb) then Inr (app_threads sb ! i) else Inl Null_deref)"

definition put_thread :: "nat \<Rightarrow> app_thread \<Rightarrow> dyn_sandbox \<Rightarrow> dyn_sandbox" where
  "put_thread i t sb = sb\<lparr>app_threads := (app_threads sb)[i := t]\<rparr>"

definition GetSandboxedStackPointer :: "dyn_sandbox \<Rightarrow> app_thread \<Rightarrow> u64 exec" where
  "GetSandboxedStackPointer sb t = getSandboxedAddress sb (r_rsp (user t))"

definition SetStackPointerToSandboxedPointer :: "dyn_sandbox \<Rightarrow> app_thread \<Rightarrow> u64 \<Rightarrow> app_thread exec" where
  "SetStackPointerToSandboxedPointer sb t val =
     ebind (getUnsandboxedAddress sb val) (\<lambda>a. Inr (t\<lparr>user := (user t)\<lparr>r_rsp := a\<rparr>\<rparr>))"

section \<open>Construction\<close>

text \<open>
  \<open>addr\<close> is what \<open>malloc\<close> returned. \<open>DynArrayGet\<close> of the last entry of an empty table is NULL.
\<close>

definition constructNaClSandboxThread :: "u64 \<Rightarrow> dyn_sandbox \<Rightarrow> (u64 \<times> dyn_sandbox) exec" where
  "constructNaClSandboxThread addr sb =
     (if addr = 0 then Inr (0, sb)
      else if app_threads sb = [] then Inl Null_deref
      else
      let i = length (app_threads sb) - 1;
          t = (app_threads sb ! i)\<lparr>custom_app_state := addr\<rparr>
      in ebind (GetSandboxedStackPointer sb t) (\<lambda>sp.
         let alignedValue = ROUND_DOWN_TO_POW2 sp 16
         in ebind (if sp \<noteq> alignedValue then SetStackPointerToSandboxedPointer sb t alignedValue
                   else Inr t) (\<lambda>t1.
            Inr (addr, put_td addr
              \<lparr>td_thread = i, stack_ptr_forParameters = 0, saved_stack_ptr_forFunctionCall = 0,
               stack_ptr_arrayLocation = 0, callbackParamsAlreadyRead = 0,
               registerParameterNumber = 0, callbackParameterNumber = 0,
               floatRegisterParameterNumber = 0\<rparr> (put_thread i t1 sb)))))"

text \<open>
  The allocations are parameters: whether the sandbox structure, the mutex and the map were
  allocated, and the address of the thread structure. \<open>map0\<close> is the uninitialised map memory;
  \<open>None\<close> is the NULL result.
\<close>

definition constructNaClSandbox ::
    "bool \<Rightarrow> bool \<Rightarrow> bool \<Rightarrow> bool \<Rightarrow> ds_map \<Rightarrow> u64 \<Rightarrow> u32 \<Rightarrow> nat \<Rightarrow> dyn_sandbox \<Rightarrow> dyn_sandbox option exec" where
  "constructNaClSandbox sb_ok mutex_ok ctor_ok map_ok map0 td_addr threadId num_threads nap =
     (if \<not> sb_ok then Inr None
      else if \<not> mutex_ok then Inr None
      else if \<not> ctor_ok then Inr None
      else if \<not> map_ok then Inr None
      else let sb = nap\<lparr>threadDataMap := Map_Init map0\<rparr>
           in if num_threads \<noteq> 1 then Inr None
              else ebind (constructNaClSandboxThread td_addr sb) (\<lambda>(td, sb1).
                if td = 0 then Inr None
                else ebind (Map_Put (threadDataMap sb1) threadId td) (\<lambda>m.
                  Inr (Some (sb1\<lparr>threadDataMap := m\<rparr>)))))"

text \<open>
  \<open>NaClCreateAdditionalThreadOnCurrThread\<close> makes a thread with the given stack pointer, enters
  it in the thread table and runs \<open>threadMain\<close>, which leaves the sandbox at once through
  \<open>NaClSysExitSandbox\<close>. \<open>spawn\<close> is that call: \<open>None\<close> is the failure, otherwise the new state.
  \<open>mmap_stack\<close> is the result of \<open>NaClSysMmapIntern\<close> for the new stack.
\<close>

definition getThreadData ::
    "(u64 \<Rightarrow> u64 \<Rightarrow> dyn_sandbox \<Rightarrow> dyn_sandbox option) \<Rightarrow> u64 \<Rightarrow> u64 \<Rightarrow> u32 \<Rightarrow> dyn_sandbox
      \<Rightarrow> (u64 \<times> dyn_sandbox) exec" where
  "getThreadData spawn mmap_stack td_addr threadId sb =
     (let threadData = Map_Get (threadDataMap sb) threadId
      in if threadData \<noteq> 0 then Inr (threadData, sb)
         else ebind (get_td sb (map_values (threadDataMap sb) ! 0)) (\<lambda>existing.
           let newStackSandboxed = mmap_stack + stack_size sb
           in ebind (getUnsandboxedAddress sb newStackSandboxed) (\<lambda>stack_ptr.
             case spawn (threadMainPtr sb) stack_ptr sb of
               None \<Rightarrow> Inr (0, sb)
             | Some sb1 \<Rightarrow>
                 ebind (constructNaClSandboxThread td_addr sb1) (\<lambda>(td, sb2).
                   if td = 0 then Inr (0, sb2)
                   else ebind (Map_Put (threadDataMap sb2) threadId td) (\<lambda>m.
                     Inr (td, sb2\<lparr>threadDataMap := m\<rparr>))))))"

section \<open>Preparing a call\<close>

text \<open>
  \<open>preFunctionCall\<close> after \<open>getThreadData\<close> has returned \<open>td\<close>.
\<close>

definition preFunctionCall :: "u64 \<Rightarrow> u64 \<Rightarrow> u64 \<Rightarrow> dyn_sandbox \<Rightarrow> dyn_sandbox exec" where
  "preFunctionCall td paramsSize arraysSize sb =
     ebind (get_td sb td) (\<lambda>d.
     ebind (get_thread sb (td_thread d)) (\<lambda>t.
     ebind (GetSandboxedStackPointer sb t) (\<lambda>sp.
     ebind (getUnsandboxedAddress sb (ROUND_DOWN_TO_POW2 sp STACKALIGNMENT)) (\<lambda>stack_top.
       let arrayLocation = stack_top - ROUND_UP_TO_POW2 arraysSize 16;
           paramsSize1 = ROUND_UP_TO_POW2 (paramsSize + STACK_JUST_IN_CASE_BUFFER_SPACE) STACKALIGNMENT + 8;
           forParameters = arrayLocation - paramsSize1
       in ebind (getSandboxedAddress sb forParameters) (\<lambda>new_sp.
          ebind (SetStackPointerToSandboxedPointer sb t new_sp) (\<lambda>t1.
            Inr ((put_td td (d\<lparr>registerParameterNumber := 0, floatRegisterParameterNumber := 0,
                              saved_stack_ptr_forFunctionCall := sp,
                              stack_ptr_arrayLocation := arrayLocation,
                              stack_ptr_forParameters := forParameters + 8\<rparr>)
                   (put_thread (td_thread d) t1 sb))
                 \<lparr>sb_mem := store64 forParameters (exitFunctionWrapperPtr sb) (sb_mem sb)\<rparr>)))))))"

text \<open>A pointer into \<open>thread->user\<close> is named by the register it points to.\<close>

datatype reg = RDI | RSI | RDX | RCX | R8 | R9 | XMM nat

fun reg_get :: "reg \<Rightarrow> user_regs \<Rightarrow> u64" where
  "reg_get RDI u = r_rdi u"
| "reg_get RSI u = r_rsi u"
| "reg_get RDX u = r_rdx u"
| "reg_get RCX u = r_rcx u"
| "reg_get R8 u = r_r8 u"
| "reg_get R9 u = r_r9 u"
| "reg_get (XMM i) u = r_xmm u ! i"

fun reg_set :: "reg \<Rightarrow> u64 \<Rightarrow> user_regs \<Rightarrow> user_regs" where
  "reg_set RDI v u = u\<lparr>r_rdi := v\<rparr>"
| "reg_set RSI v u = u\<lparr>r_rsi := v\<rparr>"
| "reg_set RDX v u = u\<lparr>r_rdx := v\<rparr>"
| "reg_set RCX v u = u\<lparr>r_rcx := v\<rparr>"
| "reg_set R8 v u = u\<lparr>r_r8 := v\<rparr>"
| "reg_set R9 v u = u\<lparr>r_r9 := v\<rparr>"
| "reg_set (XMM i) v u = u\<lparr>r_xmm := (r_xmm u)[i := v]\<rparr>"

definition getParamRegister :: "u32 \<Rightarrow> reg option" where
  "getParamRegister parameterNumber =
     (if parameterNumber = 0 then Some RDI
      else if parameterNumber = 1 then Some RSI
      else if parameterNumber = 2 then Some RDX
      else if parameterNumber = 3 then Some RCX
      else if parameterNumber = 4 then Some R8
      else if parameterNumber = 5 then Some R9
      else None)"

definition getFloatParamRegister :: "u32 \<Rightarrow> reg option" where
  "getFloatParamRegister parameterNumber =
     (if parameterNumber = 0 then Some (XMM 0)
      else if parameterNumber = 1 then Some (XMM 1)
      else if parameterNumber = 2 then Some (XMM 2)
      else if parameterNumber = 3 then Some (XMM 3)
      else if parameterNumber = 4 then Some (XMM 4)
      else if parameterNumber = 5 then Some (XMM 5)
      else if parameterNumber = 6 then Some (XMM 6)
      else if parameterNumber = 7 then Some (XMM 7)
      else None)"

section \<open>Pushing parameters\<close>

text \<open>
  The macros of \<open>dyn_ldr_lib.h\<close>. \<open>sizeof(value)\<close> is the length of its object representation
  \<open>rep\<close>; \<open>value\<close> is its conversion to \<open>uint64_t\<close>.
\<close>

definition PUSH_64BIT_VAL_TO_REG :: "u64 \<Rightarrow> u64 \<Rightarrow> dyn_sandbox \<Rightarrow> dyn_sandbox exec" where
  "PUSH_64BIT_VAL_TO_REG td val sb =
     ebind (get_td sb td) (\<lambda>d.
     ebind (get_thread sb (td_thread d)) (\<lambda>t.
       case getParamRegister (registerParameterNumber d) of
         None \<Rightarrow> Inl Null_deref
       | Some r \<Rightarrow>
           Inr (put_td td (d\<lparr>registerParameterNumber := registerParameterNumber d + 1\<rparr>)
                 (put_thread (td_thread d) (t\<lparr>user := reg_set r val (user t)\<rparr>) sb))))"

definition PUSH_VAL_TO_STACK_SKIP_REGS :: "u64 \<Rightarrow> u8 list \<Rightarrow> dyn_sandbox \<Rightarrow> dyn_sandbox exec" where
  "PUSH_VAL_TO_STACK_SKIP_REGS td rep sb =
     ebind (get_td sb td) (\<lambda>d.
       Inr ((put_td td (d\<lparr>stack_ptr_forParameters :=
                            stack_ptr_forParameters d + word_of_nat (length rep)\<rparr>) sb)
            \<lparr>sb_mem := write_bytes (stack_ptr_forParameters d) rep (sb_mem sb)\<rparr>))"

definition PUSH_VAL_TO_STACK :: "u64 \<Rightarrow> u64 \<Rightarrow> u8 list \<Rightarrow> dyn_sandbox \<Rightarrow> dyn_sandbox exec" where
  "PUSH_VAL_TO_STACK td val rep sb =
     ebind (get_td sb td) (\<lambda>d.
       if registerParameterNumber d < 6 \<and> length rep \<le> 64 then PUSH_64BIT_VAL_TO_REG td val sb
       else if registerParameterNumber d < 5 \<and> length rep \<le> 128 then
         ebind (PUSH_64BIT_VAL_TO_REG td (le_word (take 8 rep)) sb) (\<lambda>sb1.
           PUSH_64BIT_VAL_TO_REG td (le_word (take 8 (drop 8 rep))) sb1)
       else PUSH_VAL_TO_STACK_SKIP_REGS td rep sb)"

definition PUSH_FLOAT_TO_STACK :: "u64 \<Rightarrow> u64 \<Rightarrow> u8 list \<Rightarrow> dyn_sandbox \<Rightarrow> dyn_sandbox exec" where
  "PUSH_FLOAT_TO_STACK td val rep sb =
     ebind (get_td sb td) (\<lambda>d.
     ebind (get_thread sb (td_thread d)) (\<lambda>t.
       if floatRegisterParameterNumber d < 8 then
         (case getFloatParamRegister (floatRegisterParameterNumber d) of
            None \<Rightarrow> Inl Null_deref
          | Some r \<Rightarrow>
              Inr (put_td td (d\<lparr>floatRegisterParameterNumber := floatRegisterParameterNumber d + 1\<rparr>)
                    (put_thread (td_thread d) (t\<lparr>user := reg_set r val (user t)\<rparr>) sb)))
       else PUSH_VAL_TO_STACK_SKIP_REGS td rep sb))"

definition PUSH_PTR_TO_STACK :: "u64 \<Rightarrow> u64 \<Rightarrow> dyn_sandbox \<Rightarrow> dyn_sandbox exec" where
  "PUSH_PTR_TO_STACK td val sb =
     ebind (getSandboxedAddress sb val) (\<lambda>a. PUSH_VAL_TO_STACK td a (le_bytes 8 a) sb)"

definition PUSH_GEN_ARRAY_TO_STACK :: "u64 \<Rightarrow> u8 list \<Rightarrow> dyn_sandbox \<Rightarrow> dyn_sandbox exec" where
  "PUSH_GEN_ARRAY_TO_STACK td rep sb =
     ebind (get_td sb td) (\<lambda>d.
       let paddedSize = ROUND_UP_TO_POW2 (word_of_nat (length rep)) STACKALIGNMENT;
           sb1 = sb\<lparr>sb_mem := write_bytes (stack_ptr_arrayLocation d) rep (sb_mem sb)\<rparr>
       in ebind (PUSH_PTR_TO_STACK td (stack_ptr_arrayLocation d) sb1) (\<lambda>sb2.
          ebind (get_td sb2 td) (\<lambda>d2.
            Inr (put_td td (d2\<lparr>stack_ptr_arrayLocation := stack_ptr_arrayLocation d2 + paddedSize\<rparr>) sb2))))"

section \<open>Callback slots\<close>

definition getTotalNumberOfCallbackSlots :: u32 where
  "getTotalNumberOfCallbackSlots = CALLBACK_SLOTS_AVAILABLE"

definition set_slot :: "u32 \<Rightarrow> u64 \<Rightarrow> u64 \<Rightarrow> dyn_sandbox \<Rightarrow> dyn_sandbox" where
  "set_slot slotNumber callback state sb =
     sb\<lparr>callbackSlot := (callbackSlot sb)[unat slotNumber := callback],
        callbackSlotState := (callbackSlotState sb)[unat slotNumber := state]\<rparr>"

definition registerSandboxCallbackWithState ::
    "u32 \<Rightarrow> u64 \<Rightarrow> u64 \<Rightarrow> dyn_sandbox \<Rightarrow> (u64 \<times> dyn_sandbox) exec" where
  "registerSandboxCallbackWithState slotNumber callback state sb =
     (if callback = 0 then Inr (0, sb)
      else if slotNumber = CALLBACK_SLOTS_AVAILABLE - 1 then Inl Aborted
      else if slotNumber \<ge> CALLBACK_SLOTS_AVAILABLE then Inr (0, sb)
      else Inr (callbackFunctionWrapper sb ! unat slotNumber, set_slot slotNumber callback state sb))"

definition registerSandboxFloatCallbackWithState ::
    "u32 \<Rightarrow> u64 \<Rightarrow> u64 \<Rightarrow> dyn_sandbox \<Rightarrow> (u64 \<times> dyn_sandbox) exec" where
  "registerSandboxFloatCallbackWithState slotNumber callback state sb =
     (if callback = 0 then Inr (0, sb)
      else if slotNumber \<noteq> CALLBACK_SLOTS_AVAILABLE - 1 then Inl Aborted
      else if slotNumber \<ge> CALLBACK_SLOTS_AVAILABLE then Inr (0, sb)
      else Inr (callbackFunctionWrapper sb ! unat slotNumber, set_slot slotNumber callback state sb))"

definition unregisterSandboxCallback :: "u32 \<Rightarrow> dyn_sandbox \<Rightarrow> bool \<times> dyn_sandbox" where
  "unregisterSandboxCallback slotNumber sb =
     (if slotNumber \<ge> CALLBACK_SLOTS_AVAILABLE then (False, sb)
      else (True, set_slot slotNumber 0 0 sb))"

fun free_slot_scan :: "u64 list \<Rightarrow> u32 \<Rightarrow> u32 option" where
  "free_slot_scan [] i = None"
| "free_slot_scan (c # cs) i = (if c = 0 then Some i else free_slot_scan cs (i + 1))"

definition getFreeSandboxCallbackSlot :: "dyn_sandbox \<Rightarrow> u32 option" where
  "getFreeSandboxCallbackSlot sb = free_slot_scan (callbackSlot sb) 0"

section \<open>Reading callback parameters\<close>

definition callbackParamsBegin :: "u64 \<Rightarrow> dyn_sandbox \<Rightarrow> dyn_sandbox exec" where
  "callbackParamsBegin td sb =
     ebind (get_td sb td) (\<lambda>d.
       Inr (put_td td (d\<lparr>callbackParamsAlreadyRead := 0, callbackParameterNumber := 0\<rparr>) sb))"

text \<open>
  The search of \<open>identifyCallbackParamOffset\<close> for the parameters 7, 8, 9 and 10, two 32-bit words
  apart; \<open>fuel\<close> is the number of offsets left, 65 of them from 0 to 256.
\<close>

fun offset_scan :: "nat \<Rightarrow> bytes \<Rightarrow> u64 \<Rightarrow> u32 \<Rightarrow> u32" where
  "offset_scan 0 m currPointer i = - 1"
| "offset_scan (Suc fuel) m currPointer i =
     (if load32 currPointer m = 7 \<and> load32 (currPointer + 8) m = 8
         \<and> load32 (currPointer + 16) m = 9 \<and> load32 (currPointer + 24) m = 10
      then i else offset_scan fuel m (currPointer + 4) (i + 4))"

definition identifyCallbackParamOffset :: "u64 \<Rightarrow> dyn_sandbox \<Rightarrow> dyn_sandbox exec" where
  "identifyCallbackParamOffset td sb =
     ebind (callbackParamsBegin td sb) (\<lambda>sb1.
     ebind (get_td sb1 td) (\<lambda>d.
     ebind (get_thread sb1 (td_thread d)) (\<lambda>t.
     ebind (GetSandboxedStackPointer sb1 t) (\<lambda>sp.
     ebind (getUnsandboxedAddress sb1 sp) (\<lambda>currPointer.
       Inr (sb1\<lparr>callbackParameterStartOffset := offset_scan 65 (sb_mem sb1) currPointer 0\<rparr>))))))"

text \<open>
  The result of \<open>getCallbackParam\<close>: a pointer to a register of the saved context, to a fresh
  buffer that holds two registers, or to sandbox memory.
\<close>

datatype param_ptr = Reg_ptr reg | Heap_ptr u64 u64 | Mem_ptr u64

definition getCallbackParam :: "u64 \<Rightarrow> u64 \<Rightarrow> dyn_sandbox \<Rightarrow> (param_ptr \<times> dyn_sandbox) exec" where
  "getCallbackParam td sz sb =
     ebind (get_td sb td) (\<lambda>d.
     ebind (get_thread sb (td_thread d)) (\<lambda>t.
       let n = callbackParameterNumber d
       in if n < 6 \<and> sz \<le> 64 then
            (case getParamRegister n of
               None \<Rightarrow> Inl Null_deref
             | Some r \<Rightarrow> Inr (Reg_ptr r, put_td td (d\<lparr>callbackParameterNumber := n + 1\<rparr>) sb))
          else if n < 5 \<and> sz \<le> 128 then
            (case (getParamRegister n, getParamRegister (n + 1)) of
               (Some r1, Some r2) \<Rightarrow>
                 Inr (Heap_ptr (reg_get r1 (user t)) (reg_get r2 (user t)),
                      put_td td (d\<lparr>callbackParameterNumber := n + 2\<rparr>) sb)
             | _ \<Rightarrow> Inl Null_deref)
          else
            ebind (GetSandboxedStackPointer sb t) (\<lambda>sp.
            ebind (getUnsandboxedAddress sb
                     (sp + scast (callbackParameterStartOffset sb) + callbackParamsAlreadyRead d)) (\<lambda>p.
              Inr (Mem_ptr p,
                   put_td td (d\<lparr>callbackParamsAlreadyRead := callbackParamsAlreadyRead d + sz\<rparr>) sb)))))"

section \<open>Return values and symbols\<close>

definition functionCallReturnRawPrimitiveInt :: "u64 \<Rightarrow> dyn_sandbox \<Rightarrow> u64 exec" where
  "functionCallReturnRawPrimitiveInt td sb =
     ebind (get_td sb td) (\<lambda>d. ebind (get_thread sb (td_thread d)) (\<lambda>t. Inr (register_eax t)))"

text \<open>The bits of the float and double results: the low 32 and all 64 bits of \<open>register_xmm0\<close>.\<close>

definition functionCallReturnFloat :: "u64 \<Rightarrow> dyn_sandbox \<Rightarrow> u32 exec" where
  "functionCallReturnFloat td sb =
     ebind (get_td sb td) (\<lambda>d. ebind (get_thread sb (td_thread d)) (\<lambda>t. Inr (ucast (register_xmm0 t))))"

definition functionCallReturnDouble :: "u64 \<Rightarrow> dyn_sandbox \<Rightarrow> u64 exec" where
  "functionCallReturnDouble td sb =
     ebind (get_td sb td) (\<lambda>d. ebind (get_thread sb (td_thread d)) (\<lambda>t. Inr (register_xmm0 t)))"

definition functionCallReturnPtr :: "u64 \<Rightarrow> dyn_sandbox \<Rightarrow> u64 exec" where
  "functionCallReturnPtr td sb =
     ebind (get_td sb td) (\<lambda>d.
     ebind (get_thread sb (td_thread d)) (\<lambda>t. getUnsandboxedAddress sb (register_eax t)))"

definition functionCallReturnSandboxPtr :: "u64 \<Rightarrow> dyn_sandbox \<Rightarrow> u64 exec" where
  "functionCallReturnSandboxPtr td sb = functionCallReturnRawPrimitiveInt td sb"

fun symbol_scan :: "dyn_sandbox \<Rightarrow> (string \<times> u64) list \<Rightarrow> string \<Rightarrow> u64 exec" where
  "symbol_scan sb [] symbol = Inr 0"
| "symbol_scan sb ((name, address) # es) symbol =
     (if name = symbol then getUnsandboxedAddress sb address else symbol_scan sb es symbol)"

definition symbolTableLookupInSandbox :: "dyn_sandbox \<Rightarrow> string \<Rightarrow> u64 exec" where
  "symbolTableLookupInSandbox sb symbol = symbol_scan sb (symbolMap sb) symbol"

end
