(* ===== verification/DynCall.thy ===== *)
theory DynCall
  imports DynLdr
begin

text \<open>
  Crossing the sandbox boundary: \<open>invokeFunctionCall\<close> (\<open>dyn_ldr_lib.c\<close>) and the system calls
  \<open>NaClSysExitSandbox\<close> and \<open>NaClSysCallback\<close> (\<open>nacl_syscall_common.c\<close>). First as functions,
  with the untrusted code as a parameter; then as a step relation in which untrusted code may do
  anything to its memory and registers, and calls and callbacks nest.
\<close>

section \<open>Entering and leaving\<close>

text \<open>
  No other thread asks this one to suspend, so a state other than the expected one is fatal.
\<close>

definition NaClAppThreadSetSuspendState ::
    "suspend_state \<Rightarrow> suspend_state \<Rightarrow> 'z app_thread_scheme \<Rightarrow> 'z app_thread_scheme exec" where
  "NaClAppThreadSetSuspendState old_state new_state t =
     (if suspend_state t = old_state then Inr (t\<lparr>suspend_state := new_state\<rparr>) else Inl Log_fatal)"

text \<open>
  \<open>invokeFunctionCall\<close> up to the jump into the sandbox. What it keeps in local variables across
  the jump is the first part of the result: the saved stack pointer, the previous current
  thread and the index of its jump buffer.
\<close>

definition invoke_enter :: "u64 \<Rightarrow> dyn_sandbox \<Rightarrow> ((u64 \<times> nat option \<times> nat) \<times> dyn_sandbox) exec" where
  "invoke_enter td sb =
     ebind (get_td sb td) (\<lambda>d.
     ebind (get_thread sb (td_thread d)) (\<lambda>t.
       let prevSandboxSavedInTls = current_thread sb
       in ebind (NaClAppThreadSetSuspendState NACL_APP_THREAD_TRUSTED NACL_APP_THREAD_UNTRUSTED t) (\<lambda>t1.
          ebind (Stack_GetTopPtrForPush (jump_top t1)) (\<lambda>(jmp_buf_loc, currentTop).
            Inr ((saved_stack_ptr_forFunctionCall d, prevSandboxSavedInTls, jmp_buf_loc),
                 (put_thread (td_thread d) (t1\<lparr>jump_top := currentTop\<rparr>) sb)
                 \<lparr>current_thread := Some (td_thread d)\<rparr>)))))"

text \<open>\<open>invokeFunctionCall\<close> after \<open>longjmp\<close> has come back to it.\<close>

definition invoke_resume :: "u64 \<Rightarrow> u64 \<Rightarrow> nat option \<Rightarrow> dyn_sandbox \<Rightarrow> dyn_sandbox exec" where
  "invoke_resume td saved_stack_ptr prevSandboxSavedInTls sb =
     ebind (get_td sb td) (\<lambda>d.
     ebind (get_thread sb (td_thread d)) (\<lambda>t.
     ebind (SetStackPointerToSandboxedPointer sb t saved_stack_ptr) (\<lambda>t1.
       Inr ((put_thread (td_thread d) t1 sb)\<lparr>current_thread := prevSandboxSavedInTls\<rparr>))))"

text \<open>
  \<open>run\<close> is the execution of untrusted code from the given entry point until the system call
  that leaves the sandbox, callbacks included.
\<close>

definition invokeFunctionCall ::
    "(u64 \<Rightarrow> u64 \<Rightarrow> dyn_sandbox \<Rightarrow> dyn_sandbox exec) \<Rightarrow> u64 \<Rightarrow> u64 \<Rightarrow> dyn_sandbox \<Rightarrow> dyn_sandbox exec" where
  "invokeFunctionCall run td functionPtr sb =
     ebind (invoke_enter td sb) (\<lambda>((saved, prev, _), sb1).
     ebind (run td functionPtr sb1) (\<lambda>sb2.
       invoke_resume td saved prev sb2))"

definition invokeFunctionCallWithSandboxPtr ::
    "(u64 \<Rightarrow> u64 \<Rightarrow> dyn_sandbox \<Rightarrow> dyn_sandbox exec) \<Rightarrow> u64 \<Rightarrow> u64 \<Rightarrow> dyn_sandbox \<Rightarrow> dyn_sandbox exec" where
  "invokeFunctionCallWithSandboxPtr run td functionPtr sb =
     ebind (getUnsandboxedAddress sb functionPtr) (\<lambda>functionPtrInSandbox.
       invokeFunctionCall run td functionPtrInSandbox sb)"

text \<open>
  The system call that ends a call into the sandbox, up to \<open>longjmp\<close>: the result is the index
  of the jump buffer it jumps to. The entry of a system call marks the thread trusted again.
\<close>

definition NaClSysExitSandbox ::
    "nat \<Rightarrow> u32 \<Rightarrow> u32 \<Rightarrow> u32 \<Rightarrow> u32 \<Rightarrow> dyn_sandbox \<Rightarrow> (nat \<times> dyn_sandbox) exec" where
  "NaClSysExitSandbox natp ret_bottom ret_top float_ret_bottom float_ret_top sb =
     ebind (get_thread sb natp) (\<lambda>t.
     ebind (NaClAppThreadSetSuspendState NACL_APP_THREAD_UNTRUSTED NACL_APP_THREAD_TRUSTED t) (\<lambda>t1.
       let t2 = t1\<lparr>register_eax := push_bit 32 (ucast ret_top) OR ucast ret_bottom,
                   register_xmm0 := push_bit 32 (ucast float_ret_top) OR ucast float_ret_bottom\<rparr>
       in ebind (Stack_GetTopPtrForPop (jump_top t2)) (\<lambda>(jump_buf_loc, currentTop).
            Inr (jump_buf_loc, put_thread natp (t2\<lparr>jump_top := currentTop\<rparr>) sb))))"

text \<open>
  \<open>NaClSysCallback\<close> up to the call of the registered function: the first part of the result is
  the function, its state argument and the registers saved in local variables.
  \<open>kNaClBadAddress\<close> is not a mapped address.
\<close>

definition NaClSysCallback_enter ::
    "nat \<Rightarrow> u32 \<Rightarrow> u64 \<Rightarrow> dyn_sandbox \<Rightarrow> ((u64 \<times> u64 \<times> user_regs) \<times> dyn_sandbox) exec" where
  "NaClSysCallback_enter natp callbackSlotNumber parameterRegisters sb =
     ebind (get_thread sb natp) (\<lambda>t.
     ebind (NaClAppThreadSetSuspendState NACL_APP_THREAD_UNTRUSTED NACL_APP_THREAD_TRUSTED t) (\<lambda>t1.
       if callbackSlotNumber < CALLBACK_SLOTS_AVAILABLE \<and> callbackSlot sb ! unat callbackSlotNumber \<noteq> 0
       then let saved = user t1;
                p = NaClUserToSysAddr sb parameterRegisters
            in if p = kNaClBadAddress then Inl Out_of_bounds
               else let u = saved\<lparr>r_rdi := load64 p (sb_mem sb),
                                  r_rsi := load64 (p + 8) (sb_mem sb),
                                  r_rdx := load64 (p + 16) (sb_mem sb),
                                  r_rcx := load64 (p + 24) (sb_mem sb),
                                  r_r8 := load64 (p + 32) (sb_mem sb),
                                  r_r9 := load64 (p + 40) (sb_mem sb)\<rparr>
                    in Inr ((callbackSlot sb ! unat callbackSlotNumber,
                             callbackSlotState sb ! unat callbackSlotNumber, saved),
                            put_thread natp (t1\<lparr>user := u\<rparr>) sb)
       else Inl Log_fatal))"

text \<open>
  \<open>NaClSysCallback\<close> after the registered function has returned: the saved registers come back,
  the float result address is not used, and leaving the system call marks the thread untrusted.
\<close>

definition restore_regs :: "user_regs \<Rightarrow> user_regs \<Rightarrow> user_regs" where
  "restore_regs saved u =
     u\<lparr>r_rbx := r_rbx saved, r_r12 := r_r12 saved, r_r13 := r_r13 saved, r_r14 := r_r14 saved,
       r_r15 := r_r15 saved, r_prog_ctr := r_prog_ctr saved, r_rbp := r_rbp saved,
       r_rsp := r_rsp saved, r_new_prog_ctr := r_new_prog_ctr saved, r_sysret := r_sysret saved\<rparr>"

definition NaClSysCallback_return ::
    "nat \<Rightarrow> user_regs \<Rightarrow> u64 \<Rightarrow> u64 \<Rightarrow> dyn_sandbox \<Rightarrow> (u64 \<times> dyn_sandbox) exec" where
  "NaClSysCallback_return natp saved floatRetAddr raxCopy sb =
     ebind (get_thread sb natp) (\<lambda>t.
     ebind (NaClAppThreadSetSuspendState NACL_APP_THREAD_TRUSTED NACL_APP_THREAD_UNTRUSTED
              (t\<lparr>user := restore_regs saved (user t)\<rparr>)) (\<lambda>t1.
       Inr (raxCopy, put_thread natp t1 sb)))"

section \<open>Calls of library functions in the sandbox\<close>

definition mallocInSandbox ::
    "(u64 \<Rightarrow> u64 \<Rightarrow> dyn_sandbox \<Rightarrow> dyn_sandbox exec) \<Rightarrow> u64 \<Rightarrow> u64 \<Rightarrow> dyn_sandbox \<Rightarrow> (u64 \<times> dyn_sandbox) exec" where
  "mallocInSandbox run td sz sb =
     ebind (preFunctionCall td 8 0 sb) (\<lambda>sb1.
     ebind (PUSH_VAL_TO_STACK td sz (le_bytes 8 sz) sb1) (\<lambda>sb2.
     ebind (invokeFunctionCallWithSandboxPtr run td (mallocPtr sb2) sb2) (\<lambda>sb3.
     ebind (functionCallReturnPtr td sb3) (\<lambda>ret.
       if \<not> isAddressInSandboxMemoryOrNull sb3 ret then Inr (0, sb3) else Inr (ret, sb3)))))"

definition freeInSandbox ::
    "(u64 \<Rightarrow> u64 \<Rightarrow> dyn_sandbox \<Rightarrow> dyn_sandbox exec) \<Rightarrow> u64 \<Rightarrow> u64 \<Rightarrow> dyn_sandbox \<Rightarrow> dyn_sandbox exec" where
  "freeInSandbox run td ptr sb =
     ebind (preFunctionCall td 8 0 sb) (\<lambda>sb1.
     ebind (PUSH_PTR_TO_STACK td ptr sb1) (\<lambda>sb2.
       invokeFunctionCallWithSandboxPtr run td (freePtr sb2) sb2))"

text \<open>A C string is its bytes and the terminating zero.\<close>

definition STRING_SIZE :: "u8 list \<Rightarrow> u64" where
  "STRING_SIZE str = ROUND_UP_TO_POW2 (word_of_nat (length str) + 1) STACKALIGNMENT"

definition PUSH_STRING_TO_STACK :: "u64 \<Rightarrow> u8 list \<Rightarrow> dyn_sandbox \<Rightarrow> dyn_sandbox exec" where
  "PUSH_STRING_TO_STACK td str sb = PUSH_GEN_ARRAY_TO_STACK td (str @ [0]) sb"

definition fopenInSandbox ::
    "(u64 \<Rightarrow> u64 \<Rightarrow> dyn_sandbox \<Rightarrow> dyn_sandbox exec) \<Rightarrow> u64 \<Rightarrow> u8 list \<Rightarrow> u8 list \<Rightarrow> dyn_sandbox
      \<Rightarrow> (u64 \<times> dyn_sandbox) exec" where
  "fopenInSandbox run td filename mode sb =
     ebind (preFunctionCall td 16 (STRING_SIZE filename + STRING_SIZE mode) sb) (\<lambda>sb1.
     ebind (PUSH_STRING_TO_STACK td filename sb1) (\<lambda>sb2.
     ebind (PUSH_STRING_TO_STACK td mode sb2) (\<lambda>sb3.
     ebind (invokeFunctionCallWithSandboxPtr run td (fopenPtr sb3) sb3) (\<lambda>sb4.
     ebind (functionCallReturnPtr td sb4) (\<lambda>ret. Inr (ret, sb4))))))"

definition fcloseInSandbox ::
    "(u64 \<Rightarrow> u64 \<Rightarrow> dyn_sandbox \<Rightarrow> dyn_sandbox exec) \<Rightarrow> u64 \<Rightarrow> u64 \<Rightarrow> dyn_sandbox \<Rightarrow> (u32 \<times> dyn_sandbox) exec" where
  "fcloseInSandbox run td stream sb =
     ebind (preFunctionCall td 8 0 sb) (\<lambda>sb1.
     ebind (PUSH_PTR_TO_STACK td stream sb1) (\<lambda>sb2.
     ebind (invokeFunctionCallWithSandboxPtr run td (fclosePtr sb2) sb2) (\<lambda>sb3.
     ebind (functionCallReturnRawPrimitiveInt td sb3) (\<lambda>ret. Inr (ucast ret, sb3)))))"

definition invokeLocalMathTest ::
    "(u64 \<Rightarrow> u64 \<Rightarrow> dyn_sandbox \<Rightarrow> dyn_sandbox exec) \<Rightarrow> u64 \<Rightarrow> u32 \<Rightarrow> u32 \<Rightarrow> u32 \<Rightarrow> dyn_sandbox
      \<Rightarrow> (u32 \<times> dyn_sandbox) exec" where
  "invokeLocalMathTest run td a b c sb =
     ebind (symbolTableLookupInSandbox sb ''test_localMath'') (\<lambda>f.
       if f = 0 then Inr (0, sb)
       else ebind (preFunctionCall td 12 0 sb) (\<lambda>sb1.
            ebind (PUSH_VAL_TO_STACK td (ucast a) (le_bytes 4 a) sb1) (\<lambda>sb2.
            ebind (PUSH_VAL_TO_STACK td (ucast b) (le_bytes 4 b) sb2) (\<lambda>sb3.
            ebind (PUSH_VAL_TO_STACK td (ucast c) (le_bytes 4 c) sb3) (\<lambda>sb4.
            ebind (invokeFunctionCall run td f sb4) (\<lambda>sb5.
            ebind (functionCallReturnRawPrimitiveInt td sb5) (\<lambda>ret. Inr (ucast ret, sb5))))))))"

definition invokeLocalStringTest ::
    "(u64 \<Rightarrow> u64 \<Rightarrow> dyn_sandbox \<Rightarrow> dyn_sandbox exec) \<Rightarrow> u64 \<Rightarrow> u8 list \<Rightarrow> dyn_sandbox
      \<Rightarrow> (u64 \<times> dyn_sandbox) exec" where
  "invokeLocalStringTest run td test sb =
     ebind (symbolTableLookupInSandbox sb ''test_localString'') (\<lambda>f.
       if f = 0 then Inr (0, sb)
       else ebind (preFunctionCall td 8 (STRING_SIZE test) sb) (\<lambda>sb1.
            ebind (PUSH_STRING_TO_STACK td test sb1) (\<lambda>sb2.
            ebind (invokeFunctionCall run td f sb2) (\<lambda>sb3.
            ebind (functionCallReturnRawPrimitiveInt td sb3) (\<lambda>ret. Inr (ret, sb3))))))"

text \<open>\<open>identify\<close> is the address of the trusted function \<open>identifyCallbackParamOffset\<close>.\<close>

definition invokeIdentifyCallbackOffsetHelper ::
    "(u64 \<Rightarrow> u64 \<Rightarrow> dyn_sandbox \<Rightarrow> dyn_sandbox exec) \<Rightarrow> u64 \<Rightarrow> u64 \<Rightarrow> dyn_sandbox \<Rightarrow> dyn_sandbox exec" where
  "invokeIdentifyCallbackOffsetHelper run identify td sb =
     ebind (symbolTableLookupInSandbox sb ''identifyCallbackOffsetHelper'') (\<lambda>f.
       if f = 0 then Inr (sb\<lparr>callbackParameterStartOffset := - 1\<rparr>)
       else ebind (registerSandboxCallbackWithState 0 identify 0 sb) (\<lambda>(callback, sb1).
            ebind (preFunctionCall td 8 0 sb1) (\<lambda>sb2.
            ebind (PUSH_VAL_TO_STACK td callback (le_bytes 8 callback) sb2) (\<lambda>sb3.
            ebind (invokeFunctionCall run td f sb3) (\<lambda>sb4.
              Inr (snd (unregisterSandboxCallback 0 sb4)))))))"

section \<open>Nested calls as a state machine\<close>

text \<open>
  The control stack of one host thread: a frame of \<open>invokeFunctionCall\<close> with the values it keeps
  in local variables, and a frame of \<open>NaClSysCallback\<close> with the registers it saved.
\<close>

datatype frame = Call_frame u64 "nat option" nat | Callback_frame user_regs u64

record machine =
  m_sb :: dyn_sandbox
  m_frames :: "frame list"
  m_in_sandbox :: bool

text \<open>What trusted code does to the state between boundary crossings.\<close>

datatype host_op =
    Pre_call u64 u64
  | Push_val u64 "u8 list"
  | Push_float u64 "u8 list"
  | Push_ptr u64
  | Push_array "u8 list"
  | Register u32 u64 u64
  | Register_float u32 u64 u64
  | Unregister u32
  | Params_begin
  | Get_param u64
  | Identify_offset

fun host_exec :: "u64 \<Rightarrow> host_op \<Rightarrow> dyn_sandbox \<Rightarrow> dyn_sandbox exec" where
  "host_exec td (Pre_call p a) sb = preFunctionCall td p a sb"
| "host_exec td (Push_val v rep) sb = PUSH_VAL_TO_STACK td v rep sb"
| "host_exec td (Push_float v rep) sb = PUSH_FLOAT_TO_STACK td v rep sb"
| "host_exec td (Push_ptr p) sb = PUSH_PTR_TO_STACK td p sb"
| "host_exec td (Push_array rep) sb = PUSH_GEN_ARRAY_TO_STACK td rep sb"
| "host_exec td (Register slot cb st) sb =
     ebind (registerSandboxCallbackWithState slot cb st sb) (\<lambda>r. Inr (snd r))"
| "host_exec td (Register_float slot cb st) sb =
     ebind (registerSandboxFloatCallbackWithState slot cb st sb) (\<lambda>r. Inr (snd r))"
| "host_exec td (Unregister slot) sb = Inr (snd (unregisterSandboxCallback slot sb))"
| "host_exec td Params_begin sb = callbackParamsBegin td sb"
| "host_exec td (Get_param sz) sb = ebind (getCallbackParam td sz sb) (\<lambda>r. Inr (snd r))"
| "host_exec td Identify_offset sb = identifyCallbackParamOffset td sb"

text \<open>
  \<open>longjmp\<close> to the buffer with index \<open>loc\<close> drops the frames above the call that set it.
\<close>

fun unwind :: "nat \<Rightarrow> frame list \<Rightarrow> (u64 \<times> nat option \<times> frame list) option" where
  "unwind loc [] = None"
| "unwind loc (Call_frame saved prev idx # fs) =
     (if idx = loc then Some (saved, prev, fs) else unwind loc fs)"
| "unwind loc (Callback_frame saved faddr # fs) = unwind loc fs"

definition untrusted_change :: "nat \<Rightarrow> dyn_sandbox \<Rightarrow> dyn_sandbox \<Rightarrow> bool" where
  "untrusted_change i sb sb' \<longleftrightarrow>
     (\<exists>m u. sb' = (put_thread i ((app_threads sb ! i)\<lparr>user := u\<rparr>) sb)\<lparr>sb_mem := m\<rparr>
        \<and> (\<forall>a. \<not> NaClIsUserAddr sb a \<longrightarrow> m a = sb_mem sb a) \<and> NaClIsUserAddr sb (r_rsp u))"

inductive machine_step :: "u64 \<Rightarrow> nat \<Rightarrow> machine \<Rightarrow> machine \<Rightarrow> bool" for td :: u64 and i :: nat where
  Host: "\<not> m_in_sandbox m \<Longrightarrow> host_exec td op (m_sb m) = Inr sb'
    \<Longrightarrow> machine_step td i m (m\<lparr>m_sb := sb'\<rparr>)"
| Invoke: "\<not> m_in_sandbox m \<Longrightarrow> invoke_enter td (m_sb m) = Inr ((saved, prev, idx), sb')
    \<Longrightarrow> machine_step td i m
          \<lparr>m_sb = sb', m_frames = Call_frame saved prev idx # m_frames m, m_in_sandbox = True\<rparr>"
| Untrusted: "m_in_sandbox m \<Longrightarrow> untrusted_change i (m_sb m) sb'
    \<Longrightarrow> machine_step td i m (m\<lparr>m_sb := sb'\<rparr>)"
| Exit: "m_in_sandbox m \<Longrightarrow> NaClSysExitSandbox i rb rt fb ft (m_sb m) = Inr (loc, sb1)
    \<Longrightarrow> unwind loc (m_frames m) = Some (saved, prev, fs)
    \<Longrightarrow> invoke_resume td saved prev sb1 = Inr sb'
    \<Longrightarrow> machine_step td i m \<lparr>m_sb = sb', m_frames = fs, m_in_sandbox = False\<rparr>"
| Callback: "m_in_sandbox m
    \<Longrightarrow> NaClSysCallback_enter i slot params (m_sb m) = Inr ((func, st, saved), sb')
    \<Longrightarrow> machine_step td i m
          \<lparr>m_sb = sb', m_frames = Callback_frame saved faddr # m_frames m, m_in_sandbox = False\<rparr>"
| Return: "\<not> m_in_sandbox m \<Longrightarrow> m_frames m = Callback_frame saved faddr # fs
    \<Longrightarrow> NaClSysCallback_return i saved faddr rax (m_sb m) = Inr (r, sb')
    \<Longrightarrow> machine_step td i m \<lparr>m_sb = sb', m_frames = fs, m_in_sandbox = True\<rparr>"

inductive_cases machine_stepE: "machine_step td i m m'"

definition machine_start :: "u64 \<Rightarrow> nat \<Rightarrow> machine \<Rightarrow> bool" where
  "machine_start td i m \<longleftrightarrow> \<not> m_in_sandbox m \<and> m_frames m = [] \<and> i < length (app_threads (m_sb m))
     \<and> map_option td_thread (thread_datas (m_sb m) td) = Some i
     \<and> jump_top (app_threads (m_sb m) ! i) = 0
     \<and> suspend_state (app_threads (m_sb m) ! i) = NACL_APP_THREAD_TRUSTED"

inductive machine_reach :: "u64 \<Rightarrow> nat \<Rightarrow> machine \<Rightarrow> bool" for td :: u64 and i :: nat where
  start: "machine_start td i m \<Longrightarrow> machine_reach td i m"
| step: "machine_reach td i m \<Longrightarrow> machine_step td i m m' \<Longrightarrow> machine_reach td i m'"

end
