(* ===== verification/DynProps.thy ===== *)
theory DynProps
  imports DynCall
begin

text \<open>
  Lemmas about the dynamic library loader: address translation, access to the structures, the
  stack layout of a call, and the invariant of nested calls.
\<close>

section \<open>Address translation\<close>

lemma unat_low32: "unat (a AND 0xFFFFFFFF :: u64) = unat a mod 2 ^ 32"
proof -
  have "(0xFFFFFFFF :: u64) = mask 32" by (simp add: mask_eq_decr_exp)
  then show ?thesis by (simp only: unat_and_mask)
qed

lemma getUnsandboxed_user:
  "space_ok sb \<Longrightarrow> getUnsandboxedAddress sb a = Inr s \<Longrightarrow> s = 0 \<or> NaClIsUserAddr sb s"
  by (auto simp: getUnsandboxedAddress_def split: if_splits dest: NaClUserToSys_user)

lemma getSandboxed_Inr:
  assumes "space_ok sb" "getSandboxedAddress sb s = Inr u"
  shows "(s = 0 \<and> u = 0) \<or> (NaClIsUserAddr sb s \<and> u = s - mem_start sb \<and> u < addr_limit sb)"
  using assms NaClSysToUser_Inr [OF assms(1), of s u] sys_to_user_limit [OF assms(1), of s]
  by (auto simp: getSandboxedAddress_def split: if_splits)

lemma getUnsandboxed_low:
  assumes "space_ok sb" "u \<noteq> 0" "u < addr_limit sb"
  shows "getUnsandboxedAddress sb u = Inr (u + mem_start sb)"
proof -
  have lt: "unat u < 2 ^ 32" using assms(3) addr_limit_le [OF assms(1)] by (simp add: word_less_unat)
  then have "u AND 0xFFFFFFFF = u" by (simp add: word_eq_unat unat_low32)
  then show ?thesis using assms by (simp add: getUnsandboxedAddress_def NaClUserToSys_Inr)
qed

lemma translate_back:
  assumes "space_ok sb" "getSandboxedAddress sb s = Inr u" "u \<noteq> 0"
  shows "getUnsandboxedAddress sb u = Inr s"
  using getSandboxed_Inr [OF assms(1,2)] assms(3) getUnsandboxed_low [OF assms(1,3)] by auto

lemma translate_forth:
  assumes "space_ok sb" "getUnsandboxedAddress sb u = Inr s"
  shows "getSandboxedAddress sb s = Inr (u AND 0xFFFFFFFF)"
proof (cases "u = 0")
  case True
  then show ?thesis using assms by (simp add: getUnsandboxedAddress_def getSandboxedAddress_def)
next
  case False
  let ?v = "u AND 0xFFFFFFFF"
  have v: "?v < addr_limit sb" "s = ?v + mem_start sb"
    using assms False by (auto simp: getUnsandboxedAddress_def NaClUserToSys_Inr)
  have "unat (mem_start sb) \<noteq> 0" using assms(1) by (auto simp: space_ok_def word_less_unat)
  then have "s \<noteq> 0"
    using unat_user_to_sys [OF assms(1), of ?v] v by (auto simp: word_less_unat)
  then show ?thesis
    using NaClSysToUser_of_sum [OF assms(1) v(1)] v(2) by (simp add: getSandboxedAddress_def)
qed

text \<open>The operations do not move the sandbox.\<close>

definition same_space :: "dyn_sandbox \<Rightarrow> dyn_sandbox \<Rightarrow> bool" where
  "same_space sb sb' \<longleftrightarrow> mem_start sb' = mem_start sb \<and> addr_bits sb' = addr_bits sb"

lemma same_space_addr:
  assumes "same_space sb sb'"
  shows "addr_limit sb' = addr_limit sb" "NaClIsUserAddr sb' a = NaClIsUserAddr sb a"
    "getUnsandboxedAddress sb' a = getUnsandboxedAddress sb a"
    "getSandboxedAddress sb' a = getSandboxedAddress sb a" "space_ok sb' = space_ok sb"
    "isAddressInSandboxMemoryOrNull sb' a = isAddressInSandboxMemoryOrNull sb a"
  using assms
  by (simp_all add: same_space_def addr_limit_def NaClIsUserAddr_def getUnsandboxedAddress_def
      NaClUserToSys_def getSandboxedAddress_def NaClSysToUser_def space_ok_def
      isAddressInSandboxMemoryOrNull_def)

section \<open>Access\<close>

lemma get_td_Inr [simp]: "get_td sb td = Inr d \<longleftrightarrow> thread_datas sb td = Some d"
  by (auto simp: get_td_def split: option.splits)

lemma get_thread_Inr [simp]:
  "get_thread sb i = Inr t \<longleftrightarrow> i < length (app_threads sb) \<and> t = app_threads sb ! i"
  by (auto simp: get_thread_def)

lemma put_td_simps [simp]:
  "thread_datas (put_td td d sb) = (thread_datas sb)(td \<mapsto> d)"
  "app_threads (put_td td d sb) = app_threads sb"
  "sb_mem (put_td td d sb) = sb_mem sb"
  "current_thread (put_td td d sb) = current_thread sb"
  "callbackSlot (put_td td d sb) = callbackSlot sb"
  "exitFunctionWrapperPtr (put_td td d sb) = exitFunctionWrapperPtr sb"
  "same_space (put_td td d sb) sb' = same_space sb sb'"
  "same_space sb' (put_td td d sb) = same_space sb' sb"
  by (simp_all add: put_td_def same_space_def)

lemma put_thread_simps [simp]:
  "thread_datas (put_thread i t sb) = thread_datas sb"
  "app_threads (put_thread i t sb) = (app_threads sb)[i := t]"
  "sb_mem (put_thread i t sb) = sb_mem sb"
  "current_thread (put_thread i t sb) = current_thread sb"
  "callbackSlot (put_thread i t sb) = callbackSlot sb"
  "exitFunctionWrapperPtr (put_thread i t sb) = exitFunctionWrapperPtr sb"
  "same_space (put_thread i t sb) sb' = same_space sb sb'"
  "same_space sb' (put_thread i t sb) = same_space sb' sb"
  by (simp_all add: put_thread_def same_space_def)

lemma same_space_refl [simp]: "same_space sb sb"
  and same_space_upd [simp]:
    "same_space (sb\<lparr>sb_mem := m\<rparr>) sb' = same_space sb sb'"
    "same_space sb' (sb\<lparr>sb_mem := m\<rparr>) = same_space sb' sb"
    "same_space sb' (sb\<lparr>current_thread := c\<rparr>) = same_space sb' sb"
    "same_space sb' (sb\<lparr>callbackParameterStartOffset := k\<rparr>) = same_space sb' sb"
    "same_space sb' (sb\<lparr>threadDataMap := tm\<rparr>) = same_space sb' sb"
    "same_space sb' (set_slot n f st sb) = same_space sb' sb"
  by (simp_all add: same_space_def set_slot_def)

lemma same_space_trans: "same_space a b \<Longrightarrow> same_space b c \<Longrightarrow> same_space a c"
  by (simp add: same_space_def)

lemma SetStackPointer_Inr [simp]:
  "SetStackPointerToSandboxedPointer sb t v = Inr t' \<longleftrightarrow>
    (\<exists>a. getUnsandboxedAddress sb v = Inr a \<and> t' = t\<lparr>user := (user t)\<lparr>r_rsp := a\<rparr>\<rparr>)"
  by (auto simp: SetStackPointerToSandboxedPointer_def)

lemma SuspendState_Inr [simp]:
  "NaClAppThreadSetSuspendState a b t = Inr t' \<longleftrightarrow>
    suspend_state t = a \<and> t' = t\<lparr>suspend_state := b\<rparr>"
  by (auto simp: NaClAppThreadSetSuspendState_def)

lemma Stack_push_Inr [simp]:
  "Stack_GetTopPtrForPush n = Inr p \<longleftrightarrow> n \<noteq> 128 \<and> p = (n, n + 1)"
  by (auto simp: Stack_GetTopPtrForPush_def STACK_ARR_SIZE_def)

lemma Stack_pop_Inr [simp]:
  "Stack_GetTopPtrForPop n = Inr p \<longleftrightarrow> n \<noteq> 0 \<and> p = (n - 1, n - 1)"
  by (auto simp: Stack_GetTopPtrForPop_def)

section \<open>What host operations keep\<close>

text \<open>
  The thread of \<open>td\<close> stays the same, and no host operation changes the jump buffer stack or the
  suspend state of a thread, or the number of threads.
\<close>

definition host_keeps :: "u64 \<Rightarrow> dyn_sandbox \<Rightarrow> dyn_sandbox \<Rightarrow> bool" where
  "host_keeps td sb sb' \<longleftrightarrow> same_space sb sb'
     \<and> map_option td_thread (thread_datas sb' td) = map_option td_thread (thread_datas sb td)
     \<and> map jump_top (app_threads sb') = map jump_top (app_threads sb)
     \<and> map suspend_state (app_threads sb') = map suspend_state (app_threads sb)
     \<and> current_thread sb' = current_thread sb"

lemma host_keeps_refl [simp]: "host_keeps td sb sb"
  by (simp add: host_keeps_def)

lemma host_keeps_trans: "host_keeps td a b \<Longrightarrow> host_keeps td b c \<Longrightarrow> host_keeps td a c"
  by (auto simp: host_keeps_def intro: same_space_trans)

lemma map_update_same: "f x = f (xs ! i) \<Longrightarrow> map f (xs[i := x]) = map f xs"
  by (metis list_update_beyond list_update_id map_update not_le nth_map)

lemma preFunctionCall_keeps: "preFunctionCall td p a sb = Inr sb' \<Longrightarrow> host_keeps td sb sb'"
  by (auto simp: preFunctionCall_def Let_def host_keeps_def map_update_same)

lemma PUSH_REG_keeps: "PUSH_64BIT_VAL_TO_REG td v sb = Inr sb' \<Longrightarrow> host_keeps td sb sb'"
  by (auto simp: PUSH_64BIT_VAL_TO_REG_def host_keeps_def map_update_same split: option.splits)

lemma PUSH_SKIP_keeps: "PUSH_VAL_TO_STACK_SKIP_REGS td rep sb = Inr sb' \<Longrightarrow> host_keeps td sb sb'"
  by (auto simp: PUSH_VAL_TO_STACK_SKIP_REGS_def host_keeps_def)

lemma PUSH_VAL_keeps: "PUSH_VAL_TO_STACK td v rep sb = Inr sb' \<Longrightarrow> host_keeps td sb sb'"
  using PUSH_REG_keeps PUSH_SKIP_keeps host_keeps_trans
  by (auto simp: PUSH_VAL_TO_STACK_def split: if_splits) blast+

lemma PUSH_FLOAT_keeps: "PUSH_FLOAT_TO_STACK td v rep sb = Inr sb' \<Longrightarrow> host_keeps td sb sb'"
  using PUSH_SKIP_keeps
  by (auto simp: PUSH_FLOAT_TO_STACK_def host_keeps_def map_update_same split: if_splits option.splits)

lemma PUSH_PTR_keeps: "PUSH_PTR_TO_STACK td p sb = Inr sb' \<Longrightarrow> host_keeps td sb sb'"
  by (auto simp: PUSH_PTR_TO_STACK_def dest: PUSH_VAL_keeps)

lemma PUSH_ARRAY_keeps:
  assumes "PUSH_GEN_ARRAY_TO_STACK td rep sb = Inr sb'"
  shows "host_keeps td sb sb'"
proof -
  obtain d sb2 d2 where s: "thread_datas sb td = Some d" "thread_datas sb2 td = Some d2"
    "PUSH_PTR_TO_STACK td (stack_ptr_arrayLocation d)
       (sb\<lparr>sb_mem := write_bytes (stack_ptr_arrayLocation d) rep (sb_mem sb)\<rparr>) = Inr sb2"
    "sb' = put_td td (d2\<lparr>stack_ptr_arrayLocation := stack_ptr_arrayLocation d2
              + ROUND_UP_TO_POW2 (word_of_nat (length rep)) STACKALIGNMENT\<rparr>) sb2"
    using assms by (auto simp: PUSH_GEN_ARRAY_TO_STACK_def Let_def)
  show ?thesis
    using PUSH_PTR_keeps [OF s(3)] s(2,4) by (auto simp: host_keeps_def)
qed

lemma set_slot_simps [simp]:
  "thread_datas (set_slot n f st sb) = thread_datas sb"
  "app_threads (set_slot n f st sb) = app_threads sb"
  "current_thread (set_slot n f st sb) = current_thread sb"
  by (simp_all add: set_slot_def)

lemma slot_keeps: "host_keeps td sb (set_slot n f st sb)"
  by (simp add: host_keeps_def)

lemma getParam_keeps: "getCallbackParam td sz sb = Inr (r, sb') \<Longrightarrow> host_keeps td sb sb'"
  by (auto simp: getCallbackParam_def Let_def host_keeps_def split: if_splits option.splits)

lemma host_exec_keeps: "host_exec td op sb = Inr sb' \<Longrightarrow> host_keeps td sb sb'"
proof (cases op)
  case (Register slot cb st)
  then show "host_exec td op sb = Inr sb' \<Longrightarrow> ?thesis"
    by (auto simp: registerSandboxCallbackWithState_def slot_keeps split: if_splits)
next
  case (Register_float slot cb st)
  then show "host_exec td op sb = Inr sb' \<Longrightarrow> ?thesis"
    by (auto simp: registerSandboxFloatCallbackWithState_def slot_keeps split: if_splits)
next
  case (Unregister slot)
  then show "host_exec td op sb = Inr sb' \<Longrightarrow> ?thesis"
    by (auto simp: unregisterSandboxCallback_def slot_keeps split: if_splits)
next
  case Params_begin
  then show "host_exec td op sb = Inr sb' \<Longrightarrow> ?thesis"
    by (auto simp: callbackParamsBegin_def host_keeps_def)
next
  case Identify_offset
  then show "host_exec td op sb = Inr sb' \<Longrightarrow> ?thesis"
    by (auto simp: identifyCallbackParamOffset_def callbackParamsBegin_def host_keeps_def)
qed (auto dest: preFunctionCall_keeps PUSH_VAL_keeps PUSH_FLOAT_keeps PUSH_PTR_keeps PUSH_ARRAY_keeps
      getParam_keeps)

end
