(* ===== verification/DynStack.thy ===== *)
theory DynStack
  imports DynProps
begin

text \<open>
  The stack layout that \<open>preFunctionCall\<close> prepares: where the return address, the stack
  parameters and the inline arrays go, relative to the stack pointer before the call.
\<close>

lemma unat_ROUND_UP_16:
  "unat n < 2 ^ 63 \<Longrightarrow> unat (ROUND_UP_TO_POW2 n 16) = nat_round_up 4 (unat n)"
proof -
  assume n: "unat n < 2 ^ 63"
  have "ROUND_UP_TO_POW2 n 16 = (n + (2 ^ 4 - 1)) AND NOT (mask 4)"
    by (simp add: ROUND_UP_TO_POW2_def mask_eq_decr_exp algebra_simps)
  then show ?thesis using n by (simp only:) (rule unat_round_up, simp_all)
qed

lemma unat_ROUND_DOWN_16: "unat (ROUND_DOWN_TO_POW2 n 16) = nat_round_down 4 (unat n)"
proof -
  have "ROUND_DOWN_TO_POW2 n 16 = n AND NOT (mask 4)"
    by (simp add: ROUND_DOWN_TO_POW2_def mask_eq_decr_exp)
  then show ?thesis by (simp only: unat_round_down)
qed

definition call_room :: "u64 \<Rightarrow> nat" where
  "call_room p = nat_round_up 4 (unat p + 128) + 8"

lemma unat_add_8: "unat a + 8 < 2 ^ 64 \<Longrightarrow> unat (a + 8 :: u64) = unat a + 8"
  using unat_add_nowrap [of a 8] by simp

text \<open>Addresses of the stack frame, on natural numbers, when the frame fits the sandbox.\<close>

lemma frame_arith:
  assumes ok: "space_ok sb" and p: "unat p \<le> 2 ^ 30" and a: "unat a \<le> 2 ^ 30"
    and S: "S = 0 \<or> unat (S :: u64) \<le> 2 ^ 47"
    and F: "F = S - ROUND_UP_TO_POW2 a 16 - (ROUND_UP_TO_POW2 (p + 128) 16 + 8)"
    and user: "F = 0 \<or> NaClIsUserAddr sb F" and big: "2 ^ 32 \<le> unat S \<or> S = 0"
  shows "unat F + call_room p + nat_round_up 4 (unat a) = unat S \<and> F \<noteq> 0 \<and> S \<noteq> 0
    \<and> unat (S - ROUND_UP_TO_POW2 a 16) = unat F + call_room p"
proof -
  let ?A = "ROUND_UP_TO_POW2 a 16" and ?P = "ROUND_UP_TO_POW2 (p + 128) 16 + 8"
  have "unat (p + 128) = unat p + 128" using p unat_add_nowrap [of p 128] by simp
  moreover have "unat (ROUND_UP_TO_POW2 (p + 128) 16) < 2 ^ 31 + 128"
    using unat_ROUND_UP_16 [of "p + 128"] nat_round_up_less [of 4 "unat (p + 128)"] calculation p by simp
  ultimately have uP: "unat ?P = call_room p"
    using unat_ROUND_UP_16 [of "p + 128"] p unat_add_nowrap [of "ROUND_UP_TO_POW2 (p + 128) 16" 8]
    by (simp add: call_room_def)
  have uA: "unat ?A = nat_round_up 4 (unat a)" using a by (intro unat_ROUND_UP_16) simp
  have bA: "nat_round_up 4 (unat a) < 2 ^ 30 + 16" using nat_round_up_less [of 4 "unat a"] a by simp
  have bP: "call_room p < 2 ^ 30 + 152" "8 \<le> call_room p"
    using nat_round_up_less [of 4 "unat p + 128"] p by (simp_all add: call_room_def)
  have bF: "unat F < 2 ^ 47 \<or> F = 0"
    using user NaClIsUserAddr_iff [OF ok, of F] space_top [OF ok] by auto
  have "unat (?A + ?P) = nat_round_up 4 (unat a) + call_room p"
    using uA uP bA bP unat_add_nowrap [of ?A ?P] by simp
  moreover have FS: "F = S - (?A + ?P)" using F by simp
  have "S \<noteq> 0"
  proof
    assume "S = 0"
    then have "F + (?A + ?P) = 0" using FS by simp
    moreover have "unat (F + (?A + ?P)) = unat F + unat (?A + ?P)"
      using bF bA bP \<open>unat (?A + ?P) = _\<close> by (intro unat_add_nowrap) auto
    ultimately show False using \<open>unat (?A + ?P) = _\<close> bP by simp
  qed
  then have le: "nat_round_up 4 (unat a) + call_room p \<le> unat S" using big bA bP by auto
  then have uF: "unat F = unat S - (nat_round_up 4 (unat a) + call_room p)"
    using FS \<open>unat (?A + ?P) = _\<close> unat_sub_nowrap [of "?A + ?P" S] by simp
  have "unat (S - ?A) = unat S - nat_round_up 4 (unat a)"
    using le uA unat_sub_nowrap [of ?A S] by simp
  moreover have "unat F \<noteq> 0" using uF big \<open>S \<noteq> 0\<close> bA bP by auto
  ultimately show ?thesis using uF le \<open>S \<noteq> 0\<close> by auto
qed

text \<open>What a prepared call looks like, from the old stack pointer \<open>sp0\<close>.\<close>

definition call_prepared :: "u64 \<Rightarrow> u64 \<Rightarrow> u64 \<Rightarrow> u64 \<Rightarrow> dyn_sandbox \<Rightarrow> dyn_sandbox \<Rightarrow> bool" where
  "call_prepared td p a sp0 sb sb' \<longleftrightarrow>
     (\<exists>d t. thread_datas sb' td = Some d \<and> td_thread d < length (app_threads sb')
        \<and> t = app_threads sb' ! td_thread d
        \<and> NaClIsUserAddr sb (r_rsp (user t)) \<and> (unat (r_rsp (user t)) + 8) mod 16 = 0
        \<and> load64 (r_rsp (user t)) (sb_mem sb') = exitFunctionWrapperPtr sb
        \<and> unat (stack_ptr_forParameters d) = unat (r_rsp (user t)) + 8
        \<and> unat (stack_ptr_forParameters d) + unat p + 128 \<le> unat (stack_ptr_arrayLocation d)
        \<and> unat (stack_ptr_arrayLocation d) + unat a \<le> unat sp0
        \<and> getUnsandboxedAddress sb (saved_stack_ptr_forFunctionCall d) = Inr sp0
        \<and> registerParameterNumber d = 0 \<and> floatRegisterParameterNumber d = 0
        \<and> (\<forall>x. unat x < unat (r_rsp (user t)) \<or> unat (r_rsp (user t)) + 8 \<le> unat x
              \<longrightarrow> sb_mem sb' x = sb_mem sb x))"

lemma round_top:
  assumes ok: "space_ok sb" and sp: "getSandboxedAddress sb sp0 = Inr sp" "NaClIsUserAddr sb sp0"
    and S: "getUnsandboxedAddress sb (ROUND_DOWN_TO_POW2 sp 16) = Inr S"
  shows "S = 0 \<or> (16 dvd unat S \<and> unat S \<le> unat sp0 \<and> unat S \<le> 2 ^ 47 \<and> 2 ^ 32 \<le> unat S)"
proof (cases "ROUND_DOWN_TO_POW2 sp 16 = 0")
  case True
  then show ?thesis using S by (simp add: getUnsandboxedAddress_def)
next
  case False
  let ?r = "ROUND_DOWN_TO_POW2 sp 16"
  have sp0: "sp0 \<noteq> 0" using sp(2) ok by (auto simp: NaClIsUserAddr_def space_ok_def)
  then have lim: "sp < addr_limit sb" "sp0 = sp + mem_start sb"
    using getSandboxed_Inr [OF ok sp(1)] by auto
  have r: "unat ?r = nat_round_down 4 (unat sp)" by (rule unat_ROUND_DOWN_16)
  then have "unat ?r \<le> unat sp" by (simp add: nat_round_down_le)
  then have rl: "?r < addr_limit sb" using lim(1) by (simp add: word_less_unat)
  have S': "S = ?r + mem_start sb" using S getUnsandboxed_low [OF ok False rl] by simp
  have uS: "unat S = unat ?r + unat (mem_start sb)" "unat sp0 = unat sp + unat (mem_start sb)"
    using unat_user_to_sys [OF ok] rl lim unfolding S' by (simp_all add: word_less_unat)
  have ms: "2 ^ 32 dvd unat (mem_start sb)" "0 < unat (mem_start sb)"
    using ok by (auto simp: space_ok_def word_less_unat)
  have d16: "(16 :: nat) dvd 2 ^ 32" by simp
  have "16 dvd unat (mem_start sb)" using d16 ms(1) by (rule dvd_trans)
  moreover have "2 ^ 32 \<le> unat (mem_start sb)" using ms by (auto dest: dvd_imp_le)
  moreover have "16 dvd unat ?r" using nat_round_down_dvd [of 4 "unat sp"] r by simp
  moreover have "unat S \<le> 2 ^ 47" using uS(1) rl space_top [OF ok] by (simp add: word_less_unat)
  ultimately show ?thesis using uS \<open>unat ?r \<le> unat sp\<close> by (auto simp: dvd_add)
qed

lemma preFunctionCall_ok:
  assumes ok: "space_ok sb" and pre: "preFunctionCall td p a sb = Inr sb'"
    and d: "thread_datas sb td = Some d" and user: "NaClIsUserAddr sb sp0"
    and sp0: "sp0 = r_rsp (user (app_threads sb ! td_thread d))"
    and nz: "mem_start sb \<noteq> sp0"
    and p: "unat p \<le> 2 ^ 30" and a: "unat a \<le> 2 ^ 30"
  shows "call_prepared td p a sp0 sb sb'"
proof -
  let ?i = "td_thread d"
  obtain sp S new_sp rsp where s:
    "?i < length (app_threads sb)" "getSandboxedAddress sb sp0 = Inr sp"
    "getUnsandboxedAddress sb (ROUND_DOWN_TO_POW2 sp 16) = Inr S"
    "getSandboxedAddress sb (S - ROUND_UP_TO_POW2 a 16 - (ROUND_UP_TO_POW2 (p + 128) 16 + 8)) = Inr new_sp"
    "getUnsandboxedAddress sb new_sp = Inr rsp"
    and sb': "sb' = (put_td td (d\<lparr>registerParameterNumber := 0, floatRegisterParameterNumber := 0,
            saved_stack_ptr_forFunctionCall := sp,
            stack_ptr_arrayLocation := S - ROUND_UP_TO_POW2 a 16,
            stack_ptr_forParameters :=
              S - ROUND_UP_TO_POW2 a 16 - ROUND_UP_TO_POW2 (p + 128) 16\<rparr>)
          (put_thread ?i ((app_threads sb ! ?i)\<lparr>user := (user (app_threads sb ! ?i))\<lparr>r_rsp := rsp\<rparr>\<rparr>) sb))
          \<lparr>sb_mem := store64 (S - ROUND_UP_TO_POW2 a 16 - (ROUND_UP_TO_POW2 (p + 128) 16 + 8))
             (exitFunctionWrapperPtr sb) (sb_mem sb)\<rparr>"
    using pre d unfolding sp0
    by (auto simp: preFunctionCall_def Let_def GetSandboxedStackPointer_def STACKALIGNMENT_def
        STACK_JUST_IN_CASE_BUFFER_SPACE_def)
  define F where "F = S - ROUND_UP_TO_POW2 a 16 - (ROUND_UP_TO_POW2 (p + 128) 16 + 8)"
  have fp: "S - ROUND_UP_TO_POW2 a 16 - ROUND_UP_TO_POW2 (p + 128) 16 = F + 8"
    by (simp add: F_def)
  note sF = s(4) [folded F_def]
  note sb' = sb' [folded F_def, unfolded fp]
  have S: "S = 0 \<or> (16 dvd unat S \<and> unat S \<le> unat sp0 \<and> unat S \<le> 2 ^ 47 \<and> 2 ^ 32 \<le> unat S)"
    by (rule round_top [OF ok s(2) user s(3)])
  have Fu: "F = 0 \<or> NaClIsUserAddr sb F" using getSandboxed_Inr [OF ok sF] by auto
  have fr: "unat F + call_room p + nat_round_up 4 (unat a) = unat S" "F \<noteq> 0" "S \<noteq> 0"
    "unat (S - ROUND_UP_TO_POW2 a 16) = unat F + call_room p"
    using frame_arith [OF ok p a _ F_def Fu] S by auto
  have Sd: "16 dvd unat S" "unat S \<le> unat sp0" "unat S \<le> 2 ^ 47" using S fr(3) by auto
  have "2 ^ 4 dvd nat_round_up 4 (unat a)" "2 ^ 4 dvd nat_round_up 4 (unat p + 128)"
    by (rule nat_round_up_dvd)+
  then have "16 dvd unat F + 8"
    using Sd(1) fr(1) by (simp add: call_room_def) presburger
  moreover have rsp: "rsp = F" "NaClIsUserAddr sb F"
  proof -
    show u: "NaClIsUserAddr sb F" using Fu fr(2) by auto
    have "new_sp \<noteq> 0"
    proof
      assume "new_sp = 0"
      then have "F = mem_start sb" using getSandboxed_Inr [OF ok sF] fr(2) by auto
      moreover have "2 ^ 32 dvd unat (mem_start sb)" using ok by (simp add: space_ok_def)
      then have "16 dvd unat (mem_start sb)" by (rule dvd_trans [rotated]) simp
      ultimately show False using \<open>16 dvd unat F + 8\<close> by simp presburger
    qed
    then show "rsp = F" using translate_back [OF ok sF] s(5) by simp
  qed
  moreover have uP: "unat (F + 8) = unat F + 8"
  proof -
    have "(2 :: nat) ^ 47 + 8 < 2 ^ 64" by simp
    then have "unat F + 8 < 2 ^ 64" using fr(1) Sd(3) by linarith
    then show ?thesis by (rule unat_add_8)
  qed
  moreover have "getUnsandboxedAddress sb sp = Inr sp0"
  proof (rule translate_back [OF ok s(2)])
    have "sp0 \<noteq> 0" using user ok by (auto simp: NaClIsUserAddr_def space_ok_def)
    then show "sp \<noteq> 0" using getSandboxed_Inr [OF ok s(2)] nz by auto
  qed
  moreover have "nat_round_up 4 (unat p + 128) \<ge> unat p + 128" "nat_round_up 4 (unat a) \<ge> unat a"
    by (rule nat_round_up_ge)+
  moreover have "store64 F v m x = m x" if "unat x < unat F \<or> unat F + 8 \<le> unat x" for v m x
    using that fr(1) Sd(3) unfolding store64_def by (intro write_bytes_other) simp_all
  ultimately show ?thesis
    using s(1) fr Sd(2) unfolding call_prepared_def sb'
    by (simp add: call_room_def load_store64)
qed

text \<open>
  The invariant of nested calls and callbacks: the control stack alternates between calls into
  the sandbox and callbacks out of it, the jump buffer stack has one buffer per call, and the
  suspend state says which side runs.
\<close>

section \<open>The control stack\<close>

fun ncalls :: "frame list \<Rightarrow> nat" where
  "ncalls [] = 0"
| "ncalls (Call_frame saved prev idx # fs) = Suc (ncalls fs)"
| "ncalls (Callback_frame saved faddr # fs) = ncalls fs"

fun in_call :: "frame list \<Rightarrow> bool" where
  "in_call (Call_frame saved prev idx # fs) = True"
| "in_call fs = False"

fun frames_ok :: "frame list \<Rightarrow> bool" where
  "frames_ok [] = True"
| "frames_ok (Call_frame saved prev idx # fs) = (idx = ncalls fs \<and> \<not> in_call fs \<and> frames_ok fs)"
| "frames_ok (Callback_frame saved faddr # fs) = (in_call fs \<and> frames_ok fs)"

definition machine_inv :: "u64 \<Rightarrow> nat \<Rightarrow> machine \<Rightarrow> bool" where
  "machine_inv td i m \<longleftrightarrow> i < length (app_threads (m_sb m))
     \<and> map_option td_thread (thread_datas (m_sb m) td) = Some i
     \<and> frames_ok (m_frames m) \<and> m_in_sandbox m = in_call (m_frames m)
     \<and> jump_top (app_threads (m_sb m) ! i) = ncalls (m_frames m) \<and> ncalls (m_frames m) \<le> 128
     \<and> suspend_state (app_threads (m_sb m) ! i)
        = (if m_in_sandbox m then NACL_APP_THREAD_UNTRUSTED else NACL_APP_THREAD_TRUSTED)"

lemma host_keeps_thread:
  assumes "host_keeps td sb sb'" "i < length (app_threads sb)"
  shows "i < length (app_threads sb')"
    "jump_top (app_threads sb' ! i) = jump_top (app_threads sb ! i)"
    "suspend_state (app_threads sb' ! i) = suspend_state (app_threads sb ! i)"
proof -
  have j: "map jump_top (app_threads sb') = map jump_top (app_threads sb)"
    and s: "map suspend_state (app_threads sb') = map suspend_state (app_threads sb)"
    using assms(1) by (simp_all add: host_keeps_def)
  have len: "length (app_threads sb') = length (app_threads sb)" using map_eq_imp_length_eq [OF j] .
  then show "i < length (app_threads sb')" using assms(2) by simp
  show "jump_top (app_threads sb' ! i) = jump_top (app_threads sb ! i)"
    using arg_cong [OF j, of "\<lambda>xs. xs ! i"] len assms(2) by simp
  show "suspend_state (app_threads sb' ! i) = suspend_state (app_threads sb ! i)"
    using arg_cong [OF s, of "\<lambda>xs. xs ! i"] len assms(2) by simp
qed

lemma invoke_enter_Inr:
  assumes "invoke_enter td sb = Inr ((saved, prev, idx), sb')"
    and "map_option td_thread (thread_datas sb td) = Some i"
  shows "\<exists>d. thread_datas sb td = Some d \<and> saved = saved_stack_ptr_forFunctionCall d
    \<and> prev = current_thread sb \<and> suspend_state (app_threads sb ! i) = NACL_APP_THREAD_TRUSTED
    \<and> idx = jump_top (app_threads sb ! i) \<and> idx \<noteq> 128
    \<and> sb' = (put_thread i ((app_threads sb ! i)\<lparr>suspend_state := NACL_APP_THREAD_UNTRUSTED,
                 jump_top := Suc idx\<rparr>) sb)\<lparr>current_thread := Some i\<rparr>"
  using assms by (auto simp: invoke_enter_def Let_def)

lemma Exit_Inr:
  assumes "NaClSysExitSandbox i rb rt fb ft sb = Inr (loc, sb')"
  shows "\<exists>t. i < length (app_threads sb) \<and> loc = jump_top (app_threads sb ! i) - 1
    \<and> jump_top (app_threads sb ! i) \<noteq> 0
    \<and> t = (app_threads sb ! i)\<lparr>suspend_state := NACL_APP_THREAD_TRUSTED,
         register_eax := push_bit 32 (ucast rt) OR ucast rb,
         register_xmm0 := push_bit 32 (ucast ft) OR ucast fb, jump_top := loc\<rparr>
    \<and> sb' = put_thread i t sb"
  using assms by (auto simp: NaClSysExitSandbox_def Let_def)

lemma resume_Inr:
  assumes "invoke_resume td saved prev sb = Inr sb'"
    and "map_option td_thread (thread_datas sb td) = Some i"
  shows "\<exists>a. getUnsandboxedAddress sb saved = Inr a \<and> i < length (app_threads sb)
    \<and> sb' = (put_thread i ((app_threads sb ! i)\<lparr>user := (user (app_threads sb ! i))\<lparr>r_rsp := a\<rparr>\<rparr>) sb)
              \<lparr>current_thread := prev\<rparr>"
  using assms by (auto simp: invoke_resume_def)

lemma unwind_top:
  assumes "frames_ok fs" "in_call fs" "unwind (ncalls fs - 1) fs = Some (saved, prev, rest)"
  shows "\<exists>idx. fs = Call_frame saved prev idx # rest"
  using assms by (cases fs rule: in_call.cases) auto

lemma unwind_exists:
  assumes "frames_ok fs" "in_call fs"
  shows "\<exists>saved prev rest. unwind (ncalls fs - 1) fs = Some (saved, prev, rest)"
  using assms by (cases fs rule: in_call.cases) auto

lemma callback_enter_Inr:
  assumes "NaClSysCallback_enter i slot params sb = Inr ((func, st, saved), sb')"
  shows "\<exists>u. i < length (app_threads sb) \<and> saved = user (app_threads sb ! i)
    \<and> slot < CALLBACK_SLOTS_AVAILABLE \<and> func = callbackSlot sb ! unat slot \<and> func \<noteq> 0
    \<and> suspend_state (app_threads sb ! i) = NACL_APP_THREAD_UNTRUSTED
    \<and> sb' = put_thread i ((app_threads sb ! i)\<lparr>suspend_state := NACL_APP_THREAD_TRUSTED, user := u\<rparr>) sb"
  using assms by (auto simp: NaClSysCallback_enter_def Let_def split: if_splits)

lemma callback_return_Inr:
  assumes "NaClSysCallback_return i saved faddr rax sb = Inr (r, sb')"
  shows "i < length (app_threads sb) \<and> r = rax
    \<and> suspend_state (app_threads sb ! i) = NACL_APP_THREAD_TRUSTED
    \<and> sb' = put_thread i ((app_threads sb ! i)\<lparr>user := restore_regs saved (user (app_threads sb ! i)),
           suspend_state := NACL_APP_THREAD_UNTRUSTED\<rparr>) sb"
  using assms by (auto simp: NaClSysCallback_return_def)

section \<open>Preservation\<close>

lemma machine_inv_step:
  assumes inv: "machine_inv td i m" and step: "machine_step td i m m'"
  shows "machine_inv td i m'"
  using step
proof (cases rule: machine_step.cases)
  case (Host op sb')
  then have k: "host_keeps td (m_sb m) sb'" using host_exec_keeps by blast
  then show ?thesis
    using inv host_keeps_thread [OF k, of i] Host(1)
    by (simp add: machine_inv_def host_keeps_def)
next
  case (Invoke saved prev idx sb')
  then show ?thesis
    using inv invoke_enter_Inr [OF Invoke(3), of i] by (auto simp: machine_inv_def)
next
  case (Untrusted sb')
  then show ?thesis
    using inv by (auto simp: machine_inv_def untrusted_change_def)
next
  case (Exit rb rt fb ft loc sb1 saved prev fs sb')
  obtain t where t: "loc = jump_top (app_threads (m_sb m) ! i) - 1"
    "sb1 = put_thread i t (m_sb m)" "suspend_state t = NACL_APP_THREAD_TRUSTED" "jump_top t = loc"
    using Exit_Inr [OF Exit(3)] by auto
  have loc: "loc = ncalls (m_frames m) - 1" using t(1) inv by (simp add: machine_inv_def)
  obtain idx where fs: "m_frames m = Call_frame saved prev idx # fs"
    using unwind_top [of "m_frames m" saved prev fs] inv Exit(2,4) unfolding loc
    by (auto simp: machine_inv_def)
  have "map_option td_thread (thread_datas sb1 td) = Some i"
    using inv t(2) by (simp add: machine_inv_def)
  then show ?thesis
    using resume_Inr [OF Exit(5)] inv t fs loc Exit(1) by (auto simp: machine_inv_def)
next
  case (Callback slot params func st saved sb' faddr)
  then show ?thesis
    using inv callback_enter_Inr [OF Callback(3)] by (auto simp: machine_inv_def)
next
  case (Return saved faddr fs rax r sb')
  then show ?thesis
    using inv callback_return_Inr [OF Return(4)] by (auto simp: machine_inv_def)
qed

lemma machine_inv_start: "machine_start td i m \<Longrightarrow> machine_inv td i m"
  by (simp add: machine_start_def machine_inv_def)

lemma machine_inv_reach: "machine_reach td i m \<Longrightarrow> machine_inv td i m"
  by (induction rule: machine_reach.induct) (auto intro: machine_inv_start machine_inv_step)

lemma exit_progress:
  assumes inv: "machine_inv td i m" and insb: "m_in_sandbox m"
  shows "\<exists>loc sb1 saved prev fs idx. NaClSysExitSandbox i rb rt fb ft (m_sb m) = Inr (loc, sb1)
    \<and> unwind loc (m_frames m) = Some (saved, prev, fs) \<and> m_frames m = Call_frame saved prev idx # fs"
proof -
  let ?t = "app_threads (m_sb m) ! i"
  have i: "i < length (app_threads (m_sb m))" "suspend_state ?t = NACL_APP_THREAD_UNTRUSTED"
    and jt: "jump_top ?t = ncalls (m_frames m)" and ok: "frames_ok (m_frames m)" "in_call (m_frames m)"
    using inv insb by (simp_all add: machine_inv_def)
  have "jump_top ?t \<noteq> 0" using ok jt by (cases "m_frames m" rule: in_call.cases) auto
  then have "\<exists>sb1. NaClSysExitSandbox i rb rt fb ft (m_sb m) = Inr (ncalls (m_frames m) - 1, sb1)"
    using i jt by (auto simp: NaClSysExitSandbox_def Let_def)
  moreover obtain saved prev fs where u: "unwind (ncalls (m_frames m) - 1) (m_frames m) = Some (saved, prev, fs)"
    using unwind_exists [OF ok] by blast
  moreover obtain idx where "m_frames m = Call_frame saved prev idx # fs"
    using unwind_top [OF ok u] by blast
  ultimately show ?thesis by blast
qed

end
