(* ===== verification/DynClaims.thy ===== *)
theory DynClaims
  imports DynStack
begin

text \<open>
  The properties of the dynamic library loader (\<open>dyn_ldr\<close>), each with a concrete sandbox at
  which it applies.
\<close>

section \<open>A concrete sandbox\<close>

definition demo_regs :: user_regs where
  "demo_regs = \<lparr>r_rbx = 0, r_rcx = 0, r_rdx = 0, r_rbp = 0, r_rsi = 0, r_rdi = 0, r_rsp = 0x100020000,
     r_r8 = 0, r_r9 = 0, r_r12 = 0, r_r13 = 0, r_r14 = 0, r_r15 = 0x100000000, r_prog_ctr = 0,
     r_new_prog_ctr = 0, r_sysret = 0, r_xmm = replicate 8 0\<rparr>"

definition demo_thread :: app_thread where
  "demo_thread = \<lparr>user = demo_regs, suspend_state = NACL_APP_THREAD_TRUSTED, jump_top = 0,
     register_eax = 0x30000, register_xmm0 = 0, custom_app_state = 0x5000\<rparr>"

definition demo_td :: thread_data where
  "demo_td = \<lparr>td_thread = 0, stack_ptr_forParameters = 0, saved_stack_ptr_forFunctionCall = 0,
     stack_ptr_arrayLocation = 0, callbackParamsAlreadyRead = 0, registerParameterNumber = 0,
     callbackParameterNumber = 0, floatRegisterParameterNumber = 0\<rparr>"

definition demo_sandbox :: dyn_sandbox where
  "demo_sandbox = \<lparr>addr_bits = 32, mem_start = 0x100000000, bundle_size = 32, static_text_end = 0x20000,
     dynamic_text_start = 0x20000, dynamic_text_end = 0x40000, sb_mem = (\<lambda>_. 0),
     callbackSlot = replicate 8 0, callbackSlotState = replicate 8 0, data_start = 0x50000,
     stack_size = 0x10000, app_threads = [demo_thread], symbolMap = [(''malloc'', 0x21000)],
     threadDataMap = \<lparr>map_keys = 77 # replicate 127 0, map_values = 0x5000 # replicate 127 0, map_top = 1\<rparr>,
     thread_datas = (\<lambda>_. None)(0x5000 \<mapsto> demo_td), callbackParameterStartOffset = 0,
     threadMainPtr = 0x20020, exitFunctionWrapperPtr = 0x20040,
     callbackFunctionWrapper = map (\<lambda>k. 0x20100 + 32 * word_of_nat k) [0 ..< 8],
     mallocPtr = 0x21000, freePtr = 0x21020, fopenPtr = 0x21040, fclosePtr = 0x21060,
     current_thread = None\<rparr>"

lemmas demo_defs = demo_sandbox_def demo_thread_def demo_td_def demo_regs_def

lemma demo_space: "space_ok demo_sandbox"
  by (simp add: space_ok_def demo_sandbox_def)

lemma demo_user: "NaClIsUserAddr demo_sandbox 0x100020000"
  by (simp add: NaClIsUserAddr_def addr_limit_def demo_sandbox_def)

section \<open>Addresses\<close>

text \<open>C26: Whatever 64-bit value untrusted code hands out as a pointer, its translation is NULL or an
  address inside the sandbox (or the process stops): the library never turns an untrusted
  pointer into a pointer to trusted memory.\<close>

theorem translated_pointer_inside:
  assumes "space_ok sb" "getUnsandboxedAddress sb uaddr = Inr s"
  shows "s = 0 \<or> (unat (mem_start sb) \<le> unat s \<and> unat s < unat (mem_start sb) + 2 ^ unat (addr_bits sb))"
  using getUnsandboxed_user [OF assms] NaClIsUserAddr_iff [OF assms(1)] unat_addr_limit [OF assms(1)]
  by auto

theorem translated_pointer_inside_witness:
  "getUnsandboxedAddress demo_sandbox 0xDEADBEEF00030000 = Inr 0x100030000
    \<and> unat (0x100030000 :: u64) < unat (mem_start demo_sandbox) + 2 ^ unat (addr_bits demo_sandbox)"
proof -
  have t: "getUnsandboxedAddress demo_sandbox 0xDEADBEEF00030000 = Inr 0x100030000"
    by (simp add: getUnsandboxedAddress_def NaClUserToSys_def addr_limit_def demo_sandbox_def)
  with translated_pointer_inside [OF demo_space t] show ?thesis by auto
qed

text \<open>C27: The two translations are inverse to each other: a pointer into the sandbox comes back
  unchanged from its sandboxed form, and a sandboxed pointer comes back as its low 32 bits. Only
  the first byte of the sandbox, whose sandboxed address is NULL, is excepted.\<close>

theorem translation_roundtrip:
  assumes "space_ok sb"
  shows "(\<forall>s u. getSandboxedAddress sb s = Inr u \<and> u \<noteq> 0 \<longrightarrow> getUnsandboxedAddress sb u = Inr s)
    \<and> (\<forall>u s. getUnsandboxedAddress sb u = Inr s \<longrightarrow> getSandboxedAddress sb s = Inr (u AND 0xFFFFFFFF))"
  using translate_back [OF assms] translate_forth [OF assms] by blast

theorem translation_roundtrip_witness:
  "getUnsandboxedAddress demo_sandbox 0x20000 = Inr 0x100020000"
proof -
  have "getSandboxedAddress demo_sandbox 0x100020000 = Inr 0x20000"
    by (simp add: getSandboxedAddress_def NaClSysToUser_def addr_limit_def demo_sandbox_def)
  then show ?thesis
    using spec [OF spec [OF conjunct1 [OF translation_roundtrip [OF demo_space]], of "0x100020000"],
        of "0x20000"] by simp
qed

section \<open>Preparing a call\<close>

text \<open>C14: Preparing a call into the sandbox leaves a valid stack: the new stack pointer is inside
  the sandbox and aligned as the ABI asks, the word it points to is the exit wrapper, which is
  the only memory written, there is room for all stack parameters plus 128 bytes below the
  inline arrays and for the arrays below the old stack pointer, and the old stack pointer is
  saved exactly.\<close>

theorem call_stack_layout:
  assumes "space_ok sb" "preFunctionCall td p a sb = Inr sb'" "thread_datas sb td = Some d"
    and "NaClIsUserAddr sb sp0" "sp0 = r_rsp (user (app_threads sb ! td_thread d))"
    and "mem_start sb \<noteq> sp0" "unat p \<le> 2 ^ 30" "unat a \<le> 2 ^ 30"
  shows "call_prepared td p a sp0 sb sb'"
  by (rule preFunctionCall_ok [OF assms])

lemma demo_rounds:
  "ROUND_DOWN_TO_POW2 0x20000 16 = 0x20000" "ROUND_UP_TO_POW2 40 16 = 48"
  "ROUND_UP_TO_POW2 152 16 = 160" "ROUND_UP_TO_POW2 136 16 = 144" "ROUND_UP_TO_POW2 0 16 = 0"
  by (simp_all add: ROUND_DOWN_TO_POW2_def ROUND_UP_TO_POW2_def)

lemma demo_addresses:
  "getSandboxedAddress demo_sandbox 0x100020000 = Inr 0x20000"
  "getUnsandboxedAddress demo_sandbox 0x20000 = Inr 0x100020000"
  "getSandboxedAddress demo_sandbox 0x10001FF28 = Inr 0x1FF28"
  "getUnsandboxedAddress demo_sandbox 0x1FF28 = Inr 0x10001FF28"
  "getSandboxedAddress demo_sandbox 0x10001FF68 = Inr 0x1FF68"
  "getUnsandboxedAddress demo_sandbox 0x1FF68 = Inr 0x10001FF68"
  by (simp_all add: getSandboxedAddress_def NaClSysToUser_def getUnsandboxedAddress_def NaClUserToSys_def
      addr_limit_def demo_sandbox_def)

lemma demo_access:
  "get_td demo_sandbox 0x5000 = Inr demo_td" "get_thread demo_sandbox 0 = Inr demo_thread"
  "td_thread demo_td = 0" "r_rsp (user demo_thread) = 0x100020000"
  by (simp_all add: demo_defs)

lemma demo_pre: "\<exists>sb'. preFunctionCall 0x5000 24 40 demo_sandbox = Inr sb'"
  by (simp add: preFunctionCall_def demo_access GetSandboxedStackPointer_def demo_addresses demo_rounds
      Let_def STACKALIGNMENT_def STACK_JUST_IN_CASE_BUFFER_SPACE_def)

theorem call_stack_layout_witness:
  "\<exists>sb'. preFunctionCall 0x5000 24 40 demo_sandbox = Inr sb'
    \<and> call_prepared 0x5000 24 40 0x100020000 demo_sandbox sb'"
proof -
  obtain sb' where pre: "preFunctionCall 0x5000 24 40 demo_sandbox = Inr sb'" using demo_pre by blast
  have "thread_datas demo_sandbox 0x5000 = Some demo_td" by (simp add: demo_sandbox_def)
  then have "call_prepared 0x5000 24 40 0x100020000 demo_sandbox sb'"
    by (rule call_stack_layout [OF demo_space pre _ demo_user]) (simp_all add: demo_defs)
  then show ?thesis using pre by blast
qed

text \<open>Two 4-byte integers passed as the seventh and eighth parameter are put 4 bytes apart; the
  8-byte argument slot in which compiled code looks for the eighth parameter is not written.\<close>

lemma narrow_stack_parameters:
  assumes "thread_datas sb td = Some d" "registerParameterNumber d = 6"
    and "stack_ptr_forParameters d = P" "unat P + 16 \<le> 2 ^ 64"
  shows "\<exists>sb1 sb2. PUSH_VAL_TO_STACK td (ucast v7) (le_bytes 4 (v7 :: u32)) sb = Inr sb1
    \<and> PUSH_VAL_TO_STACK td (ucast v8) (le_bytes 4 (v8 :: u32)) sb1 = Inr sb2
    \<and> load32 P (sb_mem sb2) = v7 \<and> load32 (P + 4) (sb_mem sb2) = v8
    \<and> load64 (P + 8) (sb_mem sb2) = load64 (P + 8) (sb_mem sb)"
proof -
  let ?m1 = "write_bytes P (le_bytes 4 v7) (sb_mem sb)"
  let ?m2 = "write_bytes (P + 4) (le_bytes 4 v8) ?m1"
  have u: "unat (P + 4) = unat P + 4" "unat (P + 8) = unat P + 8"
    using assms(4) unat_add_nowrap [of P 4] unat_add_nowrap [of P 8] by simp_all
  have "read_bytes P 4 ?m2 = read_bytes P 4 ?m1" "read_bytes (P + 8) 8 ?m2 = read_bytes (P + 8) 8 ?m1"
    "read_bytes (P + 8) 8 ?m1 = read_bytes (P + 8) 8 (sb_mem sb)"
    using u assms(4) by (simp_all add: read_write_other)
  moreover have "read_bytes P 4 ?m1 = le_bytes 4 v7" "read_bytes (P + 4) 4 ?m2 = le_bytes 4 v8"
    using read_write_same [of "le_bytes 4 v7" P] read_write_same [of "le_bytes 4 v8" "P + 4"] by simp_all
  ultimately have "load32 P ?m2 = v7" "load32 (P + 4) ?m2 = v8"
    "load64 (P + 8) ?m2 = load64 (P + 8) (sb_mem sb)"
    by (simp_all add: load32_def load64_def le_word_le_bytes_full)
  then show ?thesis
    using assms(1-3)
    by (simp add: PUSH_VAL_TO_STACK_def PUSH_VAL_TO_STACK_SKIP_REGS_def get_td_def word_less_unat)
qed

lemma narrow_stack_parameters_witness:
  "\<exists>sb1 sb2. PUSH_VAL_TO_STACK 0x6000 7 (le_bytes 4 (7 :: u32))
      (put_td 0x6000 (demo_td\<lparr>registerParameterNumber := 6, stack_ptr_forParameters := 0x10001FF00\<rparr>)
        demo_sandbox) = Inr sb1
    \<and> PUSH_VAL_TO_STACK 0x6000 8 (le_bytes 4 (8 :: u32)) sb1 = Inr sb2
    \<and> load32 0x10001FF04 (sb_mem sb2) = 8"
  using narrow_stack_parameters [of "put_td 0x6000 (demo_td\<lparr>registerParameterNumber := 6,
      stack_ptr_forParameters := 0x10001FF00\<rparr>) demo_sandbox" "0x6000" _ "0x10001FF00" 7 8]
  by auto

section \<open>Nested calls\<close>

text \<open>C12: However calls into the sandbox, callbacks and trusted operations nest, and whatever
  untrusted code does to its memory and registers in between, calls and callbacks alternate,
  there is exactly one jump buffer per pending call, never more than 128, and the suspend state
  of the thread says whether untrusted code runs.\<close>

theorem nested_calls_invariant:
  assumes "machine_reach td i m"
  shows "frames_ok (m_frames m) \<and> m_in_sandbox m = in_call (m_frames m)
    \<and> jump_top (app_threads (m_sb m) ! i) = ncalls (m_frames m) \<and> ncalls (m_frames m) \<le> 128
    \<and> suspend_state (app_threads (m_sb m) ! i)
        = (if m_in_sandbox m then NACL_APP_THREAD_UNTRUSTED else NACL_APP_THREAD_TRUSTED)"
  using machine_inv_reach [OF assms] by (simp add: machine_inv_def)

definition demo_machine :: machine where
  "demo_machine = \<lparr>m_sb = demo_sandbox, m_frames = [], m_in_sandbox = False\<rparr>"

lemma demo_start: "machine_start 0x5000 0 demo_machine"
  by (simp add: machine_start_def demo_machine_def demo_defs)

lemma demo_invoke:
  "\<exists>sb'. machine_step 0x5000 0 demo_machine
    \<lparr>m_sb = sb', m_frames = [Call_frame 0 None 0], m_in_sandbox = True\<rparr>"
proof -
  obtain sb' where "invoke_enter 0x5000 demo_sandbox = Inr ((0, None, 0), sb')"
    by (simp add: invoke_enter_def get_td_def get_thread_def demo_defs Let_def Stack_GetTopPtrForPush_def
        NaClAppThreadSetSuspendState_def STACK_ARR_SIZE_def)
  then show ?thesis
    using machine_step.Invoke [of demo_machine "0x5000" 0 None 0 sb' 0] by (auto simp: demo_machine_def)
qed

lemma demo_reach:
  "\<exists>m. machine_reach 0x5000 0 m \<and> m_in_sandbox m \<and> m_frames m = [Call_frame 0 None 0]"
proof -
  obtain sb' where s: "machine_step 0x5000 0 demo_machine
      \<lparr>m_sb = sb', m_frames = [Call_frame 0 None 0], m_in_sandbox = True\<rparr>" (is "machine_step _ _ _ ?m")
    using demo_invoke by blast
  have "machine_reach 0x5000 0 ?m" by (rule machine_reach.step [OF machine_reach.start [OF demo_start] s])
  then show ?thesis by (intro exI [of _ ?m]) simp
qed

theorem nested_calls_invariant_witness:
  "\<exists>m. machine_reach 0x5000 0 m \<and> m_in_sandbox m \<and> jump_top (app_threads (m_sb m) ! 0) = 1"
proof -
  obtain m where m: "machine_reach 0x5000 0 m" "m_in_sandbox m" "m_frames m = [Call_frame 0 None 0]"
    using demo_reach by blast
  then show ?thesis using nested_calls_invariant [OF m(1)] by auto
qed

text \<open>C13: Leaving the sandbox always returns to the innermost pending call: in every reachable state
  in which untrusted code runs, the exit system call finds a jump buffer, the buffer belongs to
  the call on top of the control stack, and no other frame is dropped.\<close>

theorem exit_returns_to_innermost_call:
  assumes "machine_reach td i m" "m_in_sandbox m"
  shows "\<exists>loc sb1 saved prev fs idx. NaClSysExitSandbox i rb rt fb ft (m_sb m) = Inr (loc, sb1)
    \<and> unwind loc (m_frames m) = Some (saved, prev, fs) \<and> m_frames m = Call_frame saved prev idx # fs"
  by (rule exit_progress [OF machine_inv_reach [OF assms(1)] assms(2)])

theorem exit_returns_to_innermost_call_witness:
  "\<exists>m sb1. machine_reach 0x5000 0 m \<and> NaClSysExitSandbox 0 1 2 3 4 (m_sb m) = Inr (0, sb1)"
proof -
  obtain m where m: "machine_reach 0x5000 0 m" "m_in_sandbox m" "m_frames m = [Call_frame 0 None 0]"
    using demo_reach by blast
  then show ?thesis
    using exit_returns_to_innermost_call [OF m(1,2), of 1 2 3 4] by (auto split: if_splits)
qed

section \<open>Callbacks\<close>

lemma free_slot_scan_spec:
  "free_slot_scan cs i = Some k \<Longrightarrow> unat i + length cs < 2 ^ 32 \<Longrightarrow>
    unat i \<le> unat k \<and> unat k < unat i + length cs \<and> cs ! (unat k - unat i) = 0
    \<and> (\<forall>j < unat k - unat i. cs ! j \<noteq> 0)"
proof (induction cs arbitrary: i)
  case Nil
  then show ?case by simp
next
  case (Cons c cs)
  have i1: "unat (i + 1) = unat i + 1" using Cons.prems(2) unat_add_nowrap [of i 1] by simp
  show ?case
  proof (cases "c = 0")
    case True
    then show ?thesis using Cons.prems(1) by auto
  next
    case False
    then have ih: "unat i + 1 \<le> unat k" "unat k < unat i + 1 + length cs"
      "cs ! (unat k - (unat i + 1)) = 0" "\<forall>j < unat k - (unat i + 1). cs ! j \<noteq> 0"
      using Cons.IH [of "i + 1"] Cons.prems unfolding i1 by auto
    have "(c # cs) ! j \<noteq> 0" if "j < unat k - unat i" for j
      using that ih(4) False by (cases j) auto
    moreover have "unat k - unat i = Suc (unat k - (unat i + 1))" using ih(1) by linarith
    ultimately show ?thesis using ih by auto
  qed
qed

text \<open>A slot that \<open>getFreeSandboxCallbackSlot\<close> finds is the lowest empty one. Registering a
  callback there makes it the target of the slot, except for slot 7: the search offers that slot
  too when the others are taken, and registering an ordinary callback in it aborts the process.\<close>

lemma free_callback_slot:
  assumes "length (callbackSlot sb) = 8" "getFreeSandboxCallbackSlot sb = Some k" "cb \<noteq> 0"
  shows "unat k < 8 \<and> callbackSlot sb ! unat k = 0 \<and> (\<forall>j < unat k. callbackSlot sb ! j \<noteq> 0)
    \<and> registerSandboxCallbackWithState k cb st sb =
        (if k = 7 then Inl Aborted else Inr (callbackFunctionWrapper sb ! unat k, set_slot k cb st sb))
    \<and> (\<forall>n. callbackSlot (set_slot k cb st sb) ! n = (if n = unat k then cb else callbackSlot sb ! n))"
proof -
  have k: "unat k < 8" "callbackSlot sb ! unat k = 0" "\<forall>j < unat k. callbackSlot sb ! j \<noteq> 0"
    using free_slot_scan_spec [of "callbackSlot sb" 0 k] assms by (auto simp: getFreeSandboxCallbackSlot_def)
  moreover have "callbackSlot (set_slot k cb st sb) ! n = (if n = unat k then cb else callbackSlot sb ! n)" for n
    using k(1) assms(1) by (simp add: set_slot_def nth_list_update)
  ultimately show ?thesis
    using assms(3) by (auto simp: registerSandboxCallbackWithState_def CALLBACK_SLOTS_AVAILABLE_def
        word_le_unat)
qed

definition demo_full :: dyn_sandbox where
  "demo_full = demo_sandbox\<lparr>callbackSlot := [1, 1, 1, 1, 1, 1, 1, 0]\<rparr>"

lemma free_callback_slot_witness:
  "getFreeSandboxCallbackSlot demo_full = Some 7
    \<and> registerSandboxCallbackWithState 7 0x400000 0 demo_full = Inl Aborted"
proof -
  have "getFreeSandboxCallbackSlot demo_full = Some 7" "length (callbackSlot demo_full) = 8"
    by (simp_all add: demo_full_def getFreeSandboxCallbackSlot_def)
  then show ?thesis using free_callback_slot [of demo_full 7 "0x400000" 0] by simp
qed

text \<open>A float callback's result never reaches the sandbox: returning from a callback writes no
  memory, whatever result address the wrapper of slot 7 passed, so the wrapper returns the zero
  it initialised.\<close>

lemma float_callback_result_lost:
  assumes "NaClSysCallback_return natp saved floatRetAddr raxCopy sb = Inr (r, sb')"
  shows "sb_mem sb' = sb_mem sb \<and> r_xmm (user (app_threads sb' ! natp)) = r_xmm (user (app_threads sb ! natp))"
  using callback_return_Inr [OF assms] by (auto simp: restore_regs_def)

lemma float_callback_result_lost_witness:
  "\<exists>sb'. NaClSysCallback_return 0 demo_regs 0x1FF00 0x40490FDB demo_sandbox = Inr (0x40490FDB, sb')
    \<and> load32 0x10001FF00 (sb_mem sb') = 0"
proof -
  obtain sb' where "NaClSysCallback_return 0 demo_regs 0x1FF00 0x40490FDB demo_sandbox = Inr (0x40490FDB, sb')"
    by (simp add: NaClSysCallback_return_def get_thread_def demo_defs NaClAppThreadSetSuspendState_def)
  moreover from float_callback_result_lost [OF this] have "sb_mem sb' = (\<lambda>_. 0)"
    by (simp add: demo_sandbox_def)
  ultimately show ?thesis by (simp add: load32_def read_bytes_def le_word_def upt_rec)
qed

end
