(* ===== verification/DynLibClaims.thy ===== *)
theory DynLibClaims
  imports DynClaims
begin

text \<open>
  Properties of the dynamic library loader's stubs: allocation in the sandbox, the thread map and
  the location of callback parameters.
\<close>

section \<open>Allocation in the sandbox\<close>

lemma invoke_enter_space: "invoke_enter td sb = Inr (r, sb') \<Longrightarrow> same_space sb sb'"
  by (auto simp: invoke_enter_def Let_def)

lemma invoke_resume_space: "invoke_resume td saved prev sb = Inr sb' \<Longrightarrow> same_space sb sb'"
  by (auto simp: invoke_resume_def)

text \<open>Untrusted code, and the callbacks it makes, do not move the sandbox.\<close>

definition run_keeps_space :: "(u64 \<Rightarrow> u64 \<Rightarrow> dyn_sandbox \<Rightarrow> dyn_sandbox exec) \<Rightarrow> bool" where
  "run_keeps_space run \<longleftrightarrow> (\<forall>td f sb sb'. run td f sb = Inr sb' \<longrightarrow> same_space sb sb')"

lemma invoke_space:
  assumes "run_keeps_space run" "invokeFunctionCallWithSandboxPtr run td f sb = Inr sb'"
  shows "same_space sb sb'"
proof -
  obtain g saved prev idx sb1 sb2 where "invoke_enter td sb = Inr ((saved, prev, idx), sb1)"
    "run td g sb1 = Inr sb2" "invoke_resume td saved prev sb2 = Inr sb'"
    using assms(2) by (auto simp: invokeFunctionCallWithSandboxPtr_def invokeFunctionCall_def split: prod.splits)
  then show ?thesis
    using assms(1) invoke_enter_space invoke_resume_space same_space_trans
    unfolding run_keeps_space_def by metis
qed

text \<open>Whatever the code in the sandbox does and returns, \<open>mallocInSandbox\<close> gives NULL or an
  address inside the sandbox; the result is exactly the translated return register, so the
  safety check after the translation never rejects anything.\<close>

lemma malloc_result_inside:
  assumes "space_ok sb" "run_keeps_space run" "mallocInSandbox run td sz sb = Inr (p, sb')"
  shows "(p = 0 \<or> NaClIsUserAddr sb p) \<and> functionCallReturnPtr td sb' = Inr p"
proof -
  obtain sb1 sb2 ret where c: "preFunctionCall td 8 0 sb = Inr sb1"
    "PUSH_VAL_TO_STACK td sz (le_bytes 8 sz) sb1 = Inr sb2"
    "invokeFunctionCallWithSandboxPtr run td (mallocPtr sb2) sb2 = Inr sb'"
    "functionCallReturnPtr td sb' = Inr ret"
    "(isAddressInSandboxMemoryOrNull sb' ret \<and> p = ret) \<or> (\<not> isAddressInSandboxMemoryOrNull sb' ret \<and> p = 0)"
    using assms(3) unfolding mallocInSandbox_def by (auto split: if_splits)
  have sp: "same_space sb sb'"
    using preFunctionCall_keeps [OF c(1)] PUSH_VAL_keeps [OF c(2)] invoke_space [OF assms(2) c(3)]
      same_space_trans unfolding host_keeps_def by blast
  have "\<exists>a. getUnsandboxedAddress sb' a = Inr ret"
    using c(4) by (auto simp: functionCallReturnPtr_def)
  then have "ret = 0 \<or> NaClIsUserAddr sb ret"
    using getUnsandboxed_user [OF assms(1)] same_space_addr(3) [OF sp] by auto
  then show ?thesis
    using c(4,5) same_space_addr(6) [OF sp] by (auto simp: isAddressInSandboxMemoryOrNull_def)
qed

definition demo_run :: "u64 \<Rightarrow> u64 \<Rightarrow> dyn_sandbox \<Rightarrow> dyn_sandbox exec" where
  "demo_run td f sb = Inr (put_thread 0 ((app_threads sb ! 0)\<lparr>register_eax := 0xFFFFFFFF00031000\<rparr>) sb)"

lemma demo_run_space: "run_keeps_space demo_run"
  by (auto simp: run_keeps_space_def demo_run_def)

lemma demo_malloc: "\<exists>sb'. mallocInSandbox demo_run 0x5000 100 demo_sandbox = Inr (0x100031000, sb')"
proof -
  have "(case mallocInSandbox demo_run 0x5000 100 demo_sandbox of Inr (p, _) \<Rightarrow> p | Inl _ \<Rightarrow> 1) = 0x100031000"
    by code_simp
  then show ?thesis by (auto split: sum.splits)
qed

lemma malloc_result_inside_witness:
  "\<exists>sb'. mallocInSandbox demo_run 0x5000 100 demo_sandbox = Inr (0x100031000, sb')
    \<and> NaClIsUserAddr demo_sandbox 0x100031000"
  using demo_malloc malloc_result_inside [OF demo_space demo_run_space] by force

section \<open>The thread map\<close>

lemma map_scan_first:
  "j < length ks \<Longrightarrow> length vs = length ks \<Longrightarrow> ks ! j = key \<Longrightarrow> \<forall>i < j. ks ! i \<noteq> key
    \<Longrightarrow> map_scan ks vs key = vs ! j"
proof (induction ks vs key arbitrary: j rule: map_scan.induct)
  case (1 k ks v vs key)
  show ?case
  proof (cases j)
    case 0
    then show ?thesis using "1.prems" by simp
  next
    case (Suc j')
    have "ks ! i \<noteq> key" if "i < j'" for i
      using "1.prems"(4) that Suc by (force dest: spec [of _ "Suc i"])
    moreover have "k \<noteq> key" using "1.prems"(4) Suc by force
    ultimately show ?thesis using "1.IH" [of j'] "1.prems"(1-3) Suc by simp
  qed
qed auto

text \<open>\<open>Map_Init\<close> only resets the count and \<open>Map_Get\<close> scans all 128 slots, so a thread that was
  never entered in the map can still be found: if a slot of the uninitialised array happens to
  hold its id next to a nonzero value, \<open>getThreadData\<close> returns that value as the address of
  its structure without creating one.\<close>

lemma thread_lookup_uninitialised:
  assumes "length (map_values m) = length (map_keys m)" "j < length (map_keys m)" "map_keys m ! j = threadId"
    and "\<forall>i < j. map_keys m ! i \<noteq> threadId" "map_values m ! j \<noteq> 0"
    and "threadDataMap sb = Map_Init m"
  shows "getThreadData spawn mmap_stack td_addr threadId sb = Inr (map_values m ! j, sb)"
  using map_scan_first [OF assms(2,1,3,4)] assms(5,6)
  by (simp add: getThreadData_def Map_Get_def Map_Init_def)

lemma thread_lookup_uninitialised_witness:
  "getThreadData (\<lambda>_ _ _. None) 0 0 42 (demo_sandbox\<lparr>threadDataMap := Map_Init
      \<lparr>map_keys = [1, 42], map_values = [2, 0xBAD0], map_top = 9\<rparr>\<rparr>)
    = Inr (0xBAD0, demo_sandbox\<lparr>threadDataMap := Map_Init
      \<lparr>map_keys = [1, 42], map_values = [2, 0xBAD0], map_top = 9\<rparr>\<rparr>)"
  using thread_lookup_uninitialised [of "\<lparr>map_keys = [1, 42], map_values = [2, 0xBAD0], map_top = 9\<rparr>" 1 42]
  by simp

section \<open>The offset of callback parameters\<close>

definition params_at :: "bytes \<Rightarrow> u64 \<Rightarrow> bool" where
  "params_at m a \<longleftrightarrow> load32 a m = 7 \<and> load32 (a + 8) m = 8 \<and> load32 (a + 16) m = 9 \<and> load32 (a + 24) m = 10"

lemma offset_scan_spec:
  "(\<exists>k < fuel. params_at m (c + 4 * word_of_nat k) \<and> (\<forall>j < k. \<not> params_at m (c + 4 * word_of_nat j))
      \<and> offset_scan fuel m c i = i + 4 * word_of_nat k)
    \<or> ((\<forall>k < fuel. \<not> params_at m (c + 4 * word_of_nat k)) \<and> offset_scan fuel m c i = - 1)"
proof (induction fuel arbitrary: c i)
  case 0
  then show ?case by simp
next
  case (Suc fuel)
  show ?case
  proof (cases "params_at m c")
    case True
    then have "offset_scan (Suc fuel) m c i = i" by (simp add: params_at_def)
    then show ?thesis using True by (intro disjI1 exI [of _ 0]) simp
  next
    case False
    then have eq: "offset_scan (Suc fuel) m c i = offset_scan fuel m (c + 4) (i + 4)"
      unfolding params_at_def by (simp only: offset_scan.simps if_False)
    have sh: "c + 4 + 4 * word_of_nat k = c + 4 * word_of_nat (Suc k)"
      "i + 4 + 4 * word_of_nat k = i + 4 * word_of_nat (Suc k)" for k
      by (simp_all add: algebra_simps)
    have below: "(\<forall>j < Suc k. \<not> params_at m (c + 4 * word_of_nat j))
        \<longleftrightarrow> (\<forall>j < k. \<not> params_at m (c + 4 * word_of_nat (Suc j)))" for k
      using False by (auto simp: less_Suc_eq_0_disj)
    note ih = Suc.IH [of "c + 4" "i + 4", unfolded sh]
    from ih show ?thesis
    proof (elim disjE exE conjE)
      fix k assume "k < fuel" "params_at m (c + 4 * word_of_nat (Suc k))"
        "\<forall>j < k. \<not> params_at m (c + 4 * word_of_nat (Suc j))"
        "offset_scan fuel m (c + 4) (i + 4) = i + 4 * word_of_nat (Suc k)"
      then show ?thesis
        using below [of k] unfolding eq by (intro disjI1 exI [of _ "Suc k"]) (simp del: of_nat_Suc)
    next
      assume "\<forall>k < fuel. \<not> params_at m (c + 4 * word_of_nat (Suc k))"
        "offset_scan fuel m (c + 4) (i + 4) = - 1"
      then show ?thesis using below [of fuel] unfolding eq by (intro disjI2) simp
    qed
  qed
qed

definition stack_base :: "dyn_sandbox \<Rightarrow> u64 \<Rightarrow> u64" where
  "stack_base sb sp = sp + mem_start sb"

text \<open>The offset that \<open>identifyCallbackParamOffset\<close> records points at the seventh parameter of
  the test callback: reading the first stack parameter through \<open>getCallbackParam\<close> then yields
  the value 7. The offset is the lowest of 0, 4, ..., 256 at which the four known values stand,
  and -1 exactly when there is none.\<close>

lemma callback_parameter_offset:
  assumes "space_ok sb" "thread_datas sb td = Some d" "td_thread d < length (app_threads sb)"
    and "getSandboxedAddress sb (r_rsp (user (app_threads sb ! td_thread d))) = Inr sp"
    and "sp \<noteq> 0" "unat sp + 256 < unat (addr_limit sb)"
    and "identifyCallbackParamOffset td sb = Inr sb'"
  shows "(callbackParameterStartOffset sb' = - 1 \<longleftrightarrow>
      (\<forall>k \<le> 64. \<not> params_at (sb_mem sb) (stack_base sb sp + 4 * word_of_nat k)))
    \<and> (callbackParameterStartOffset sb' \<noteq> - 1 \<longrightarrow>
      (\<exists>p sb''. getCallbackParam td 4 (put_td td (d\<lparr>callbackParameterNumber := 6, callbackParamsAlreadyRead := 0\<rparr>) sb')
          = Inr (Mem_ptr p, sb'') \<and> load32 p (sb_mem sb') = 7))"
proof -
  let ?t = "app_threads sb ! td_thread d" and ?base = "stack_base sb sp"
  let ?o = "offset_scan 65 (sb_mem sb) ?base 0"
  have spl: "sp < addr_limit sb" using assms(6) by (simp add: word_less_unat)
  have base: "getUnsandboxedAddress sb sp = Inr ?base"
    using getUnsandboxed_low [OF assms(1,5) spl] by (simp add: stack_base_def)
  let ?sb1 = "put_td td (d\<lparr>callbackParamsAlreadyRead := 0, callbackParameterNumber := 0\<rparr>) sb"
  have sp1: "getSandboxedAddress ?sb1 x = getSandboxedAddress sb x"
    "getUnsandboxedAddress ?sb1 x = getUnsandboxedAddress sb x" for x
    by (rule same_space_addr, simp)+
  have sb': "sb' = ?sb1\<lparr>callbackParameterStartOffset := ?o\<rparr>"
    using assms(2-4,7) base
    by (auto simp: identifyCallbackParamOffset_def callbackParamsBegin_def get_td_def get_thread_def
        GetSandboxedStackPointer_def sp1)
  have small: "unat (4 * word_of_nat k :: u32) = 4 * k" "unat (4 * word_of_nat k :: u64) = 4 * k"
    if "k < 65" for k
    using that by (simp_all add: unat_word_ariths unat_of_nat)
  have nm1: "(4 * word_of_nat k :: u32) \<noteq> - 1" if "k < 65" for k
  proof -
    have "list_all (\<lambda>k. (4 * word_of_nat k :: u32) \<noteq> - 1) [0 ..< 65]" by code_simp
    then show ?thesis using that by (simp add: list_all_iff)
  qed
  have sc: "scast (4 * word_of_nat k :: u32) = (4 * word_of_nat k :: u64)" if "k < 65" for k
  proof -
    have "list_all (\<lambda>k. scast (4 * word_of_nat k :: u32) = (4 * word_of_nat k :: u64)) [0 ..< 65]"
      by code_simp
    then show ?thesis using that by (simp add: list_all_iff)
  qed
  have param: "\<exists>p sb''. getCallbackParam td 4
        (put_td td (d\<lparr>callbackParameterNumber := 6, callbackParamsAlreadyRead := 0\<rparr>) sb')
          = Inr (Mem_ptr p, sb'') \<and> load32 p (sb_mem sb') = 7"
    if k: "k < 65" "params_at (sb_mem sb) (?base + 4 * word_of_nat k)" "?o = 4 * word_of_nat k" for k
  proof -
    let ?s = "put_td td (d\<lparr>callbackParameterNumber := 6, callbackParamsAlreadyRead := 0\<rparr>) sb'"
    have us: "unat (sp + 4 * word_of_nat k) = unat sp + 4 * k"
      using small(2) [OF k(1)] assms(6) addr_limit_le [OF assms(1)] k(1)
      by (subst unat_add_nowrap) simp_all
    then have "sp + 4 * word_of_nat k \<noteq> 0" "sp + 4 * word_of_nat k < addr_limit sb"
      using assms(5,6) k(1) by (auto simp: word_less_unat word_eq_unat)
    then have "getUnsandboxedAddress sb (sp + 4 * word_of_nat k) = Inr (?base + 4 * word_of_nat k)"
      using getUnsandboxed_low [OF assms(1)] by (simp add: stack_base_def algebra_simps)
    moreover have "same_space sb ?s" unfolding sb' by simp
    ultimately have tr: "getUnsandboxedAddress ?s (sp + 4 * word_of_nat k) = Inr (?base + 4 * word_of_nat k)"
      "getSandboxedAddress ?s x = getSandboxedAddress sb x" for x
      by (simp_all only: same_space_addr)
    have "thread_datas ?s td = Some (d\<lparr>callbackParameterNumber := 6, callbackParamsAlreadyRead := 0\<rparr>)"
      "app_threads ?s = app_threads sb" "callbackParameterStartOffset ?s = ?o"
      unfolding sb' by (simp_all add: put_td_def)
    then have "\<exists>sb''. getCallbackParam td 4 ?s = Inr (Mem_ptr (?base + 4 * word_of_nat k), sb'')"
      using tr assms(3,4) k(3) sc [OF k(1)]
      by (simp add: getCallbackParam_def get_td_def get_thread_def GetSandboxedStackPointer_def Let_def)
    then show ?thesis using k(2) unfolding sb' by (auto simp: params_at_def)
  qed
  from offset_scan_spec [of 65 "sb_mem sb" ?base 0]
  show ?thesis
  proof (elim disjE exE conjE)
    fix k assume k: "k < 65" "params_at (sb_mem sb) (?base + 4 * word_of_nat k)"
      "?o = 0 + 4 * word_of_nat k"
    then have "?o \<noteq> - 1" using nm1 by simp
    moreover have "\<exists>k \<le> 64. params_at (sb_mem sb) (?base + 4 * word_of_nat k)"
      using k(1,2) by (intro exI [of _ k]) simp
    ultimately show ?thesis using param [OF k(1,2)] k(3) unfolding sb' by auto
  next
    assume "\<forall>k < 65. \<not> params_at (sb_mem sb) (?base + 4 * word_of_nat k)" "?o = - 1"
    then show ?thesis unfolding sb' by simp
  qed
qed

definition demo_callback :: dyn_sandbox where
  "demo_callback = demo_sandbox\<lparr>sb_mem := (\<lambda>_. 0)(0x100020000 := 7, 0x100020008 := 8,
      0x100020010 := 9, 0x100020018 := 10)\<rparr>"

lemma demo_params: "params_at (sb_mem demo_callback) 0x100020000"
  by (simp add: params_at_def demo_callback_def load32_def read_bytes_def le_word_def upt_rec)

lemma demo_identify:
  "\<exists>sb'. identifyCallbackParamOffset 0x5000 demo_callback = Inr sb' \<and> callbackParameterStartOffset sb' = 0"
proof -
  have "offset_scan 65 (sb_mem demo_callback) 0x100020000 0 = 0"
    using demo_params offset_scan.simps(2) [of 64] by (simp add: params_at_def)
  moreover have "getSandboxedAddress (put_td x y demo_callback) 0x100020000 = Inr 0x20000"
    "getUnsandboxedAddress (put_td x y demo_callback) 0x20000 = Inr 0x100020000" for x y
    using demo_addresses(1,2) same_space_addr(3,4) [of demo_sandbox "put_td x y demo_callback"]
    by (simp_all add: demo_callback_def)
  ultimately show ?thesis
    by (simp add: identifyCallbackParamOffset_def callbackParamsBegin_def get_td_def get_thread_def
        GetSandboxedStackPointer_def demo_callback_def demo_defs)
qed

lemma callback_parameter_offset_witness:
  "\<exists>sb' p sb''. identifyCallbackParamOffset 0x5000 demo_callback = Inr sb'
    \<and> getCallbackParam 0x5000 4 (put_td 0x5000
        (demo_td\<lparr>callbackParameterNumber := 6, callbackParamsAlreadyRead := 0\<rparr>) sb') = Inr (Mem_ptr p, sb'')
    \<and> load32 p (sb_mem sb') = 7"
proof -
  obtain sb' where sb': "identifyCallbackParamOffset 0x5000 demo_callback = Inr sb'"
    "callbackParameterStartOffset sb' = 0" using demo_identify by blast
  have same: "same_space demo_sandbox demo_callback" by (simp add: demo_callback_def)
  have ok: "space_ok demo_callback" using demo_space same_space_addr(5) [OF same] by simp
  have td: "thread_datas demo_callback 0x5000 = Some demo_td"
    and th: "app_threads demo_callback = [demo_thread]"
    by (simp_all add: demo_callback_def demo_sandbox_def)
  have "getSandboxedAddress demo_callback 0x100020000 = Inr 0x20000"
    using demo_addresses(1) same_space_addr(4) [OF same] by simp
  then have sp: "td_thread demo_td < length (app_threads demo_callback)"
    "getSandboxedAddress demo_callback (r_rsp (user (app_threads demo_callback ! td_thread demo_td))) = Inr 0x20000"
    using demo_access(3,4) th by simp_all
  have lim: "unat (0x20000 :: u64) + 256 < unat (addr_limit demo_callback)"
    by (simp add: demo_callback_def demo_sandbox_def addr_limit_def)
  have "callbackParameterStartOffset sb' \<noteq> - 1" using sb'(2) by simp
  with conjunct2 [OF callback_parameter_offset [OF ok td sp _ lim sb'(1)]]
  show ?thesis using sb'(1) by (intro exI [of _ sb']) simp
qed

end
