(* ===== verification/DynArray.thy ===== *)
theory DynArray
  imports Prelude
begin

text \<open>
  The growable pointer table with a bitmap of used slots (\<open>service_runtime/dyn_array.c\<close>), which
  holds the descriptors and the threads of a sandbox. \<open>slot_table\<close> is the interface its clients
  rely on: setting one slot leaves the others alone, and the search finds the lowest free slot.
\<close>

section \<open>Data and operations\<close>

text \<open>
  \<open>struct DynArray\<close>. A null pointer is \<open>None\<close>. The lists have the lengths of the allocations:
  \<open>ptr_array_space\<close> pointers and one word per 32 of them. Sizes are natural numbers below
  \<open>2 ^ 64\<close>, with the wrap-around of doubling written out.
\<close>

record 'a dyn_array =
  num_entries :: nat
  ptr_array :: "'a option list"
  ptr_array_space :: nat
  available :: "u32 list"
  avail_ix :: nat

definition BitsToAllocWords :: "nat \<Rightarrow> nat" where
  "BitsToAllocWords nbits = ((nbits + 31) mod 2 ^ 64) div 32"

definition BitsToIndex :: "nat \<Rightarrow> nat" where
  "BitsToIndex nbits = nbits div 32"

definition BitsToOffset :: "nat \<Rightarrow> nat" where
  "BitsToOffset nbits = nbits mod 32"

text \<open>The booleans say whether the two allocations succeed.\<close>

definition DynArrayCtor :: "bool \<Rightarrow> bool \<Rightarrow> nat \<Rightarrow> 'a dyn_array option" where
  "DynArrayCtor alloc1 alloc2 initial_size0 =
     (let initial_size = (if initial_size0 = 0 then 32 else initial_size0)
      in if (2 ^ 64 - 1) div 8 < initial_size \<or> (2 ^ 64 - 1) div 4 < BitsToAllocWords initial_size then None
         else if \<not> alloc1 then None
         else if \<not> alloc2 then None
         else Some \<lparr>num_entries = 0, ptr_array = replicate initial_size None,
                    ptr_array_space = initial_size,
                    available = replicate (BitsToAllocWords initial_size) 0, avail_ix = 0\<rparr>)"

definition DynArrayDtor :: "'a dyn_array \<Rightarrow> 'a dyn_array" where
  "DynArrayDtor dap = dap\<lparr>num_entries := 0, ptr_array := [], ptr_array_space := 0, available := []\<rparr>"

definition DynArrayGet :: "'a dyn_array \<Rightarrow> nat \<Rightarrow> 'a option" where
  "DynArrayGet dap idx = (if idx < num_entries dap then ptr_array dap ! idx else None)"

text \<open>
  The doubling loop of \<open>DynArraySet\<close>, with a bound on its rounds. It leaves with a size, leaves by
  the return for a doubling that overflows, or is still running after the last round.
  \<open>grow_space_cases\<close> shows that 65 rounds end the loop from every size above 0.
\<close>

datatype growth =
    Grown nat
  | Size_overflow
  | Still_doubling

fun grow_space :: "nat \<Rightarrow> nat \<Rightarrow> nat \<Rightarrow> growth" where
  "grow_space 0 idx desired_space = Still_doubling"
| "grow_space (Suc fuel) idx desired_space =
     (if idx \<ge> desired_space then
        (let tmp = (2 * desired_space) mod 2 ^ 64
         in if tmp < desired_space then Size_overflow else grow_space fuel idx tmp)
      else Grown desired_space)"

definition set_entry :: "'a dyn_array \<Rightarrow> nat \<Rightarrow> 'a option \<Rightarrow> 'a dyn_array" where
  "set_entry dap idx ptr =
     (let ix = BitsToIndex idx;
          w = available dap ! ix;
          dap1 = dap\<lparr>ptr_array := (ptr_array dap)[idx := ptr]\<rparr>;
          dap2 = (case ptr of
                    Some _ \<Rightarrow> dap1\<lparr>available := (available dap1)[ix := w OR push_bit (BitsToOffset idx) 1]\<rparr>
                  | None \<Rightarrow> dap1\<lparr>available := (available dap1)[ix := w AND NOT (push_bit (BitsToOffset idx) 1)],
                                 avail_ix := (if ix < avail_ix dap1 then ix else avail_ix dap1)\<rparr>)
      in if num_entries dap2 \<le> idx then dap2\<lparr>num_entries := idx + 1\<rparr> else dap2)"

text \<open>
  \<open>realloc1\<close> and \<open>realloc2\<close> say whether the two reallocations succeed. When only the second
  fails the pointer array has already grown, but the recorded space has not. The loop is still
  running after 65 rounds only from space 0, which no constructed array has.
\<close>

definition DynArraySet :: "bool \<Rightarrow> bool \<Rightarrow> 'a dyn_array \<Rightarrow> nat \<Rightarrow> 'a option \<Rightarrow> bool \<times> 'a dyn_array" where
  "DynArraySet realloc1 realloc2 dap idx ptr =
     (case grow_space 65 idx (ptr_array_space dap) of
        Size_overflow \<Rightarrow> (False, dap)
      | Still_doubling \<Rightarrow> (False, dap)
      | Grown desired_space \<Rightarrow>
          if desired_space \<noteq> ptr_array_space dap then
            (if \<not> realloc1 then (False, dap)
             else let dap1 = dap\<lparr>ptr_array := take (ptr_array_space dap) (ptr_array dap)
                                  @ replicate (desired_space - ptr_array_space dap) None\<rparr>;
                      old_avail_nwords = BitsToAllocWords (ptr_array_space dap);
                      new_avail_nwords = BitsToAllocWords desired_space
                  in if \<not> realloc2 then (False, dap1)
                     else (True, set_entry
                            (dap1\<lparr>available := take old_avail_nwords (available dap)
                                    @ replicate (new_avail_nwords - old_avail_nwords) 0,
                                  ptr_array_space := desired_space\<rparr>) idx ptr))
          else (True, set_entry dap idx ptr))"

definition ffs :: "u32 \<Rightarrow> nat" where
  "ffs w = (case find (bit w) [0 ..< 32] of None \<Rightarrow> 0 | Some i \<Rightarrow> i + 1)"

fun avail_loop :: "u32 list \<Rightarrow> nat \<Rightarrow> nat \<Rightarrow> nat" where
  "avail_loop ws ix 0 = ix"
| "avail_loop ws ix (Suc k) = (if 0 \<noteq> NOT (ws ! ix) then ix else avail_loop ws (ix + 1) k)"

definition DynArrayFirstAvail :: "'a dyn_array \<Rightarrow> nat \<times> 'a dyn_array" where
  "DynArrayFirstAvail dap =
     (let last_ix = BitsToAllocWords (ptr_array_space dap);
          ix = avail_loop (available dap) (avail_ix dap) (last_ix - avail_ix dap)
      in if ix < last_ix
         then (ffs (NOT (available dap ! ix)) - 1 + ix * 32, dap\<lparr>avail_ix := ix\<rparr>)
         else (ptr_array_space dap, dap))"

section \<open>Invariant\<close>

text \<open>
  Bit \<open>i\<close> of the bitmap is set exactly when slot \<open>i\<close> holds a pointer, and all words below the
  hint are full. The bound on the space keeps the sizes in bytes below \<open>2 ^ 64\<close>.
\<close>

definition bit_at :: "u32 list \<Rightarrow> nat \<Rightarrow> bool" where
  "bit_at ws i = bit (ws ! (i div 32)) (i mod 32)"

definition da_words :: "'a dyn_array \<Rightarrow> nat" where
  "da_words dap = (ptr_array_space dap + 31) div 32"

definition da_used :: "'a dyn_array \<Rightarrow> nat \<Rightarrow> bool" where
  "da_used dap i \<longleftrightarrow> i < ptr_array_space dap \<and> ptr_array dap ! i \<noteq> None"

definition da_wf :: "'a dyn_array \<Rightarrow> bool" where
  "da_wf dap \<longleftrightarrow> 0 < ptr_array_space dap \<and> ptr_array_space dap < 2 ^ 61
     \<and> ptr_array_space dap \<le> length (ptr_array dap)
     \<and> length (available dap) = da_words dap
     \<and> num_entries dap \<le> ptr_array_space dap
     \<and> (\<forall>i. num_entries dap \<le> i \<longrightarrow> \<not> da_used dap i)
     \<and> (\<forall>i < 32 * da_words dap. bit_at (available dap) i = da_used dap i)
     \<and> avail_ix dap \<le> da_words dap
     \<and> (\<forall>i < 32 * avail_ix dap. da_used dap i)"

lemma words_alloc: "n < 2 ^ 61 \<Longrightarrow> BitsToAllocWords n = (n + 31) div 32"
  by (simp add: BitsToAllocWords_def)

lemma da_get: "da_wf dap \<Longrightarrow> DynArrayGet dap i = (if i < ptr_array_space dap then ptr_array dap ! i else None)"
  by (auto simp: DynArrayGet_def da_wf_def da_used_def not_less)

lemma get_used: "da_wf dap \<Longrightarrow> (DynArrayGet dap i \<noteq> None) = da_used dap i"
  by (auto simp: da_get da_used_def)

section \<open>Growing\<close>

lemma grow_space_mono: "grow_space fuel idx d = Grown s \<Longrightarrow> d \<le> s \<and> idx < s"
  by (induction fuel idx d rule: grow_space.induct) (auto simp: Let_def split: if_splits)

lemma grow_space_bound: "grow_space fuel idx d = Grown s \<Longrightarrow> s = d \<or> s \<le> 2 * idx"
proof (induction fuel idx d rule: grow_space.induct)
  case (2 fuel idx d)
  have "(2 * d) mod 2 ^ 64 \<le> 2 * d" by simp
  then show ?case using 2 by (fastforce simp: Let_def split: if_splits)
qed simp

text \<open>Below the overflow the loop returns: each round doubles the space.\<close>

lemma grow_space_total:
  "idx < 2 ^ 62 \<Longrightarrow> 0 < d \<Longrightarrow> d < 2 ^ 63 \<Longrightarrow> idx < d * 2 ^ fuel \<Longrightarrow> \<exists>s. grow_space (Suc fuel) idx d = Grown s"
proof (induction fuel arbitrary: d)
  case 0
  then show ?case by simp
next
  case (Suc fuel)
  show ?case
  proof (cases "idx < d")
    case True
    then show ?thesis by simp
  next
    case False
    then have "2 * d < 2 ^ 63" using Suc.prems(1) by simp
    then have m: "(2 * d) mod 2 ^ 64 = 2 * d" by simp
    have "\<exists>s. grow_space (Suc fuel) idx (2 * d) = Grown s"
      using Suc.prems \<open>2 * d < 2 ^ 63\<close> by (intro Suc.IH) simp_all
    then show ?thesis using False m by (simp add: grow_space.simps(2) [of "Suc fuel"] del: grow_space.simps)
  qed
qed

section \<open>Setting an entry\<close>

lemma bit_at_update:
  assumes "i < 32 * length ws" "idx < 32 * length ws"
  shows "bit_at (ws[idx div 32 := ws ! (idx div 32) OR push_bit (idx mod 32) 1]) i
      = (bit_at ws i \<or> i = idx)"
    "bit_at (ws[idx div 32 := ws ! (idx div 32) AND NOT (push_bit (idx mod 32) 1)]) i
      = (bit_at ws i \<and> i \<noteq> idx)"
proof -
  have l: "i div 32 < length ws" "idx div 32 < length ws" using assms by auto
  have eq: "i = idx \<longleftrightarrow> i div 32 = idx div 32 \<and> i mod 32 = idx mod 32"
    by (metis div_mult_mod_eq)
  show "bit_at (ws[idx div 32 := ws ! (idx div 32) OR push_bit (idx mod 32) 1]) i
      = (bit_at ws i \<or> i = idx)"
    using l eq by (auto simp: bit_at_def nth_list_update bit_simps)
  show "bit_at (ws[idx div 32 := ws ! (idx div 32) AND NOT (push_bit (idx mod 32) 1)]) i
      = (bit_at ws i \<and> i \<noteq> idx)"
    using l eq by (auto simp: bit_at_def nth_list_update bit_simps)
qed

lemma set_entry_fields:
  "ptr_array_space (set_entry dap idx ptr) = ptr_array_space dap"
  "ptr_array (set_entry dap idx ptr) = (ptr_array dap)[idx := ptr]"
  "num_entries (set_entry dap idx ptr) = max (num_entries dap) (idx + 1)"
  "available (set_entry dap idx ptr) = (available dap)[idx div 32 :=
     (if ptr = None then available dap ! (idx div 32) AND NOT (push_bit (idx mod 32) 1)
      else available dap ! (idx div 32) OR push_bit (idx mod 32) 1)]"
  "avail_ix (set_entry dap idx ptr) = (if ptr = None then min (avail_ix dap) (idx div 32) else avail_ix dap)"
  by (auto simp: set_entry_def Let_def BitsToIndex_def BitsToOffset_def split: option.split)

lemma set_entry_used:
  assumes "da_wf dap" "idx < ptr_array_space dap"
  shows "da_used (set_entry dap idx ptr) i = (if i = idx then ptr \<noteq> None else da_used dap i)"
  using assms by (auto simp: da_used_def set_entry_fields nth_list_update da_wf_def)

lemma set_entry_wf:
  assumes wf: "da_wf dap" and idx: "idx < ptr_array_space dap"
  shows "da_wf (set_entry dap idx ptr)"
proof -
  let ?d = "set_entry dap idx ptr"
  have w: "da_words ?d = da_words dap" by (simp add: da_words_def set_entry_fields)
  have len: "length (available dap) = da_words dap" using wf by (simp add: da_wf_def)
  have in32: "idx < 32 * da_words dap" using idx by (simp add: da_words_def)
  have "bit_at (available ?d) i = da_used ?d i" if "i < 32 * da_words dap" for i
  proof -
    have "bit_at (available dap) i = da_used dap i" using wf that by (simp add: da_wf_def)
    then show ?thesis
      using bit_at_update [of i "available dap" idx] that in32 len
      by (cases ptr) (auto simp: set_entry_used [OF wf idx] set_entry_fields)
  qed
  moreover have "da_used ?d i" if i: "i < 32 * avail_ix ?d" for i
  proof (cases ptr)
    case None
    then have "i < 32 * avail_ix dap" "i < 32 * (idx div 32)" using i by (auto simp: set_entry_fields)
    then have "da_used dap i" "i \<noteq> idx" using wf by (auto simp: da_wf_def)
    then show ?thesis by (simp add: set_entry_used [OF wf idx])
  next
    case (Some a)
    then have "da_used dap i" using i wf by (auto simp: set_entry_fields da_wf_def)
    then show ?thesis using Some by (simp add: set_entry_used [OF wf idx])
  qed
  moreover have "\<not> da_used ?d i" if "num_entries ?d \<le> i" for i
    using that wf by (auto simp: set_entry_fields set_entry_used [OF wf idx] da_wf_def)
  ultimately show ?thesis
    using wf idx w by (auto simp: da_wf_def set_entry_fields)
qed

lemma set_entry_get:
  assumes "da_wf dap" "idx < ptr_array_space dap"
  shows "DynArrayGet (set_entry dap idx ptr) i = (if i = idx then ptr else DynArrayGet dap i)"
  using assms da_get [OF set_entry_wf [OF assms]] da_get [OF assms(1)]
  by (auto simp: set_entry_fields nth_list_update da_wf_def)

text \<open>The table after growing, before the entry is stored.\<close>

definition grown :: "'a dyn_array \<Rightarrow> nat \<Rightarrow> 'a dyn_array" where
  "grown dap s = dap\<lparr>ptr_array := take (ptr_array_space dap) (ptr_array dap)
                        @ replicate (s - ptr_array_space dap) None,
      available := take (da_words dap) (available dap) @ replicate ((s + 31) div 32 - da_words dap) 0,
      ptr_array_space := s\<rparr>"

lemma grown_wf:
  assumes wf: "da_wf dap" and s: "ptr_array_space dap \<le> s" "s < 2 ^ 61"
  shows "da_wf (grown dap s)" "DynArrayGet (grown dap s) i = DynArrayGet dap i"
proof -
  let ?d = "grown dap s" and ?n = "ptr_array_space dap"
  have len: "?n \<le> length (ptr_array dap)" "length (available dap) = da_words dap"
    using wf by (simp_all add: da_wf_def)
  have words: "da_words dap \<le> (s + 31) div 32" "da_words ?d = (s + 31) div 32"
    using s by (auto simp: da_words_def grown_def intro: div_le_mono)
  have used: "da_used ?d i = da_used dap i" for i
    using len s by (auto simp: da_used_def grown_def nth_append)
  have bits: "bit_at (available ?d) i = da_used ?d i" if "i < 32 * da_words ?d" for i
  proof (cases "i < 32 * da_words dap")
    case True
    then have "bit_at (available ?d) i = bit_at (available dap) i"
      using len by (auto simp: bit_at_def grown_def nth_append)
    then show ?thesis using True wf used by (simp add: da_wf_def)
  next
    case False
    then have "da_words dap \<le> i div 32" "i div 32 < (s + 31) div 32" using that words by auto
    then have "\<not> bit_at (available ?d) i" using len by (auto simp: bit_at_def grown_def nth_append)
    moreover have "?n \<le> i" using False by (auto simp: da_words_def)
    then have "\<not> da_used dap i" by (simp add: da_used_def)
    ultimately show ?thesis using used by simp
  qed
  have l2: "length (available ?d) = da_words ?d" "s \<le> length (ptr_array ?d)"
    "avail_ix ?d = avail_ix dap" "num_entries ?d = num_entries dap" "ptr_array_space ?d = s"
    using words len s by (simp_all add: grown_def)
  show "da_wf ?d"
    using wf s bits used words l2 unfolding da_wf_def by auto
  then show "DynArrayGet ?d i = DynArrayGet dap i"
    using da_get [OF \<open>da_wf ?d\<close>] da_get [OF wf] len s by (auto simp: grown_def nth_append)
qed

lemma DynArraySet_ok:
  assumes wf: "da_wf dap" and idx: "idx < 2 ^ 60"
  shows "da_wf (snd (DynArraySet r1 r2 dap idx ptr))"
    and "fst (DynArraySet r1 r2 dap idx ptr) \<Longrightarrow>
      DynArrayGet (snd (DynArraySet r1 r2 dap idx ptr)) i = (if i = idx then ptr else DynArrayGet dap i)"
    and "\<not> fst (DynArraySet r1 r2 dap idx ptr) \<Longrightarrow>
      DynArrayGet (snd (DynArraySet r1 r2 dap idx ptr)) i = DynArrayGet dap i"
    and "r1 \<Longrightarrow> r2 \<Longrightarrow> fst (DynArraySet r1 r2 dap idx ptr)"
proof -
  let ?n = "ptr_array_space dap"
  have n: "0 < ?n" "?n < 2 ^ 61" "?n \<le> length (ptr_array dap)" using wf by (simp_all add: da_wf_def)
  have "idx < ?n * 2 ^ 64" using idx n(1) by (cases ?n) simp_all
  then obtain s where s: "grow_space 65 idx ?n = Grown s"
    using grow_space_total [of idx ?n 64] idx n(2) by auto
  have b: "?n \<le> s" "idx < s" "s < 2 ^ 61"
    using grow_space_mono [OF s] grow_space_bound [OF s] idx n(2) by auto
  have eq: "DynArraySet r1 r2 dap idx ptr =
     (if s = ?n then (True, set_entry dap idx ptr)
      else if \<not> r1 then (False, dap)
      else if \<not> r2 then (False, dap\<lparr>ptr_array := take ?n (ptr_array dap) @ replicate (s - ?n) None\<rparr>)
      else (True, set_entry (grown dap s) idx ptr))"
    using s b n by (simp add: DynArraySet_def Let_def grown_def words_alloc da_words_def)
  let ?h = "dap\<lparr>ptr_array := take ?n (ptr_array dap) @ replicate (s - ?n) None\<rparr>"
  have half: "da_wf ?h" "DynArrayGet ?h i = DynArrayGet dap i"
  proof -
    have "da_used ?h j = da_used dap j" for j using n(3) by (auto simp: da_used_def nth_append)
    then show "da_wf ?h" using wf n(3) by (auto simp: da_wf_def da_words_def)
    then show "DynArrayGet ?h i = DynArrayGet dap i"
      using da_get [OF \<open>da_wf ?h\<close>] da_get [OF wf] n(3) by (auto simp: nth_append)
  qed
  note gw = grown_wf [OF wf b(1,3)]
  have gs: "ptr_array_space (grown dap s) = s" by (simp add: grown_def)
  show "da_wf (snd (DynArraySet r1 r2 dap idx ptr))"
    using half(1) wf b gs set_entry_wf [OF gw(1)] set_entry_wf [OF wf] unfolding eq by auto
  show "DynArrayGet (snd (DynArraySet r1 r2 dap idx ptr)) i = (if i = idx then ptr else DynArrayGet dap i)"
    if "fst (DynArraySet r1 r2 dap idx ptr)"
    using that b gs gw set_entry_get [OF gw(1)] set_entry_get [OF wf] unfolding eq
    by (auto split: if_splits)
  show "DynArrayGet (snd (DynArraySet r1 r2 dap idx ptr)) i = DynArrayGet dap i"
    if "\<not> fst (DynArraySet r1 r2 dap idx ptr)"
    using that half(2) unfolding eq by (auto split: if_splits)
  show "fst (DynArraySet r1 r2 dap idx ptr)" if "r1" "r2" using that unfolding eq by simp
qed

section \<open>The search for a free slot\<close>

lemma ffs_spec:
  assumes "w \<noteq> 0"
  shows "0 < ffs w \<and> ffs w \<le> 32 \<and> bit w (ffs w - 1) \<and> (\<forall>j < ffs w - 1. \<not> bit w j)"
proof -
  obtain k where "bit w k" using assms by (auto simp: bit_eq_iff)
  then have "k < 32" using bit_imp_le_length [of w k] by simp
  then have "find (bit w) [0 ..< 32] \<noteq> None" using \<open>bit w k\<close> by (auto simp: find_None_iff)
  then obtain i where i: "find (bit w) [0 ..< 32] = Some i" by blast
  then have "i < 32" "bit w i" "\<forall>j < i. \<not> bit w j"
    by (auto simp: find_Some_iff)
  then show ?thesis using i by (simp add: ffs_def)
qed

lemma avail_loop_spec:
  "ix \<le> avail_loop ws ix k \<and> avail_loop ws ix k \<le> ix + k
    \<and> (\<forall>j. ix \<le> j \<and> j < avail_loop ws ix k \<longrightarrow> NOT (ws ! j) = 0)
    \<and> (avail_loop ws ix k < ix + k \<longrightarrow> NOT (ws ! avail_loop ws ix k) \<noteq> 0)"
proof (induction ws ix k rule: avail_loop.induct)
  case (2 ws ix k)
  show ?case
  proof (cases "NOT (ws ! ix) = 0")
    case True
    then have "avail_loop ws ix (Suc k) = avail_loop ws (ix + 1) k" by simp
    moreover have "NOT (ws ! j) = 0" if "ix \<le> j" "j < avail_loop ws (ix + 1) k" for j
      using 2 True that by (cases "j = ix") auto
    ultimately show ?thesis using 2 True by auto
  next
    case False
    then show ?thesis by auto
  qed
qed auto

lemma div_block:
  assumes "(j :: nat) < f + x * 32" "\<not> j < 32 * x" "f < 32"
  shows "j div 32 = x \<and> j mod 32 < f"
proof -
  obtain r where "j = r + x * 32" using assms(2) by (metis le_add_diff_inverse2 mult.commute not_less)
  then show ?thesis using assms by auto
qed

lemma full_word:
  assumes "NOT (w :: u32) = 0" "k < 32"
  shows "bit w k"
proof -
  have "\<not> bit (NOT w) k" using assms(1) by simp
  then show ?thesis using assms(2) by (simp add: bit_simps)
qed

text \<open>The search returns the lowest free slot, which may lie just behind the space.\<close>

lemma FirstAvail_ok:
  assumes wf: "da_wf dap"
  shows "DynArrayGet dap (fst (DynArrayFirstAvail dap)) = None"
    "j < fst (DynArrayFirstAvail dap) \<Longrightarrow> DynArrayGet dap j \<noteq> None"
    "da_wf (snd (DynArrayFirstAvail dap))"
    "DynArrayGet (snd (DynArrayFirstAvail dap)) = DynArrayGet dap"
    "fst (DynArrayFirstAvail dap) < ptr_array_space dap + 32"
proof -
  let ?n = "ptr_array_space dap" and ?w = "da_words dap" and ?ws = "available dap"
  let ?ix = "avail_loop ?ws (avail_ix dap) (?w - avail_ix dap)"
  have n: "?n < 2 ^ 61" "avail_ix dap \<le> ?w" using wf by (simp_all add: da_wf_def)
  have lp: "avail_ix dap \<le> ?ix" "?ix \<le> ?w" "\<forall>j. avail_ix dap \<le> j \<and> j < ?ix \<longrightarrow> NOT (?ws ! j) = 0"
    "?ix < ?w \<longrightarrow> NOT (?ws ! ?ix) \<noteq> 0"
    using avail_loop_spec [of "avail_ix dap" ?ws "?w - avail_ix dap"] n(2) by auto
  have bits: "bit_at ?ws i = da_used dap i" if "i < 32 * ?w" for i
    using wf that by (simp add: da_wf_def)
  have full: "da_used dap i" if i: "i < 32 * ?ix" for i
  proof (cases "i < 32 * avail_ix dap")
    case True
    then show ?thesis using wf by (simp add: da_wf_def)
  next
    case False
    then have "avail_ix dap \<le> i div 32" "i div 32 < ?ix" using i by auto
    then have "bit (?ws ! (i div 32)) (i mod 32)" using lp(3) by (intro full_word) auto
    then show ?thesis using bits [of i] i lp(2) by (simp add: bit_at_def)
  qed
  have wa: "BitsToAllocWords ?n = ?w" using words_alloc [OF n(1)] by (simp add: da_words_def)
  have core: "\<not> da_used dap (fst (DynArrayFirstAvail dap))
      \<and> (\<forall>j < fst (DynArrayFirstAvail dap). da_used dap j)
      \<and> fst (DynArrayFirstAvail dap) < ?n + 32
      \<and> (snd (DynArrayFirstAvail dap) = dap \<or> snd (DynArrayFirstAvail dap) = dap\<lparr>avail_ix := ?ix\<rparr>)"
  proof (cases "?ix < ?w")
    case True
    let ?f = "ffs (NOT (?ws ! ?ix)) - 1"
    let ?p = "?f + ?ix * 32"
    have f: "?f < 32" "bit (NOT (?ws ! ?ix)) ?f" "\<forall>k < ?f. \<not> bit (NOT (?ws ! ?ix)) k"
      using ffs_spec [of "NOT (?ws ! ?ix)"] lp(4) True by auto
    have pos: "?p div 32 = ?ix" "?p mod 32 = ?f" "?p < 32 * ?w" using f(1) True by auto
    have "\<not> bit_at ?ws ?p" using f(1,2) unfolding bit_at_def pos by (simp add: bit_simps)
    then have "\<not> da_used dap ?p" using bits [OF pos(3)] by simp
    moreover have "da_used dap j" if j: "j < ?p" for j
    proof (cases "j < 32 * ?ix")
      case False
      from div_block [OF j False f(1)] have d: "j div 32 = ?ix" "j mod 32 < ?f" by auto
      then have "bit_at ?ws j" using f(1,3) unfolding bit_at_def d by (auto simp: bit_simps)
      then show ?thesis using bits [of j] j pos(3) by simp
    qed (rule full)
    moreover have "32 * ?w \<le> ?n + 31" by (simp add: da_words_def)
    then have "?p < ?n + 32" using pos(3) by linarith
    moreover have "DynArrayFirstAvail dap = (?p, dap\<lparr>avail_ix := ?ix\<rparr>)"
      using True by (simp add: DynArrayFirstAvail_def Let_def wa)
    ultimately show ?thesis by simp
  next
    case False
    then have "?ix = ?w" using lp(2) by simp
    then have "da_used dap j" if "j < ?n" for j using full [of j] that by (auto simp: da_words_def)
    moreover have "DynArrayFirstAvail dap = (?n, dap)"
      using False by (simp add: DynArrayFirstAvail_def Let_def wa)
    ultimately show ?thesis by (simp add: da_used_def)
  qed
  have wf2: "da_wf (dap\<lparr>avail_ix := ?ix\<rparr>)"
  proof -
    have "da_used (dap\<lparr>avail_ix := ?ix\<rparr>) i = da_used dap i" for i by (simp add: da_used_def)
    then show ?thesis using wf lp(2) full by (simp add: da_wf_def da_words_def)
  qed
  show "DynArrayGet dap (fst (DynArrayFirstAvail dap)) = None"
    using core get_used [OF wf] by blast
  show "j < fst (DynArrayFirstAvail dap) \<Longrightarrow> DynArrayGet dap j \<noteq> None"
    using core get_used [OF wf] by blast
  show "da_wf (snd (DynArrayFirstAvail dap))" using core wf wf2 by auto
  have "DynArrayGet (dap\<lparr>avail_ix := ?ix\<rparr>) = DynArrayGet dap" by (simp add: fun_eq_iff DynArrayGet_def)
  then show "DynArrayGet (snd (DynArrayFirstAvail dap)) = DynArrayGet dap" using core by auto
  show "fst (DynArrayFirstAvail dap) < ?n + 32" using core by simp
qed

section \<open>The interface\<close>

text \<open>
  A table of slots: \<open>set\<close> may fail for lack of memory (\<open>env\<close> says so) and then changes nothing
  that \<open>get\<close> sees; \<open>first\<close> finds the lowest free slot. \<open>small\<close> is the range of indices in use.
\<close>

locale slot_table =
  fixes inv :: "'t \<Rightarrow> bool"
    and get :: "'t \<Rightarrow> nat \<Rightarrow> 'a option"
    and set_slot :: "'env \<Rightarrow> 't \<Rightarrow> nat \<Rightarrow> 'a option \<Rightarrow> bool \<times> 't"
    and first :: "'t \<Rightarrow> nat \<times> 't"
    and small :: "nat \<Rightarrow> bool"
  assumes set_inv: "inv t \<Longrightarrow> small i \<Longrightarrow> inv (snd (set_slot env t i x))"
    and set_get: "inv t \<Longrightarrow> small i \<Longrightarrow> fst (set_slot env t i x)
      \<Longrightarrow> get (snd (set_slot env t i x)) = (get t)(i := x)"
    and set_fail: "inv t \<Longrightarrow> small i \<Longrightarrow> \<not> fst (set_slot env t i x)
      \<Longrightarrow> get (snd (set_slot env t i x)) = get t"
    and first_inv: "inv t \<Longrightarrow> inv (snd (first t)) \<and> get (snd (first t)) = get t"
    and first_free: "inv t \<Longrightarrow> get t (fst (first t)) = None"
    and first_least: "inv t \<Longrightarrow> j < fst (first t) \<Longrightarrow> get t j \<noteq> None"
begin

text \<open>Entering a value in the lowest free slot keeps every other slot.\<close>

lemma allocate:
  assumes "inv t" "first t = (i, t1)" "small i" "set_slot env t1 i (Some x) = (ok, t')"
  shows "inv t' \<and> get t i = None \<and> (\<forall>j < i. get t j \<noteq> None)
    \<and> get t' = (if ok then (get t)(i \<mapsto> x) else get t)"
proof -
  have f: "inv t1" "get t1 = get t" "get t i = None" "\<forall>j < i. get t j \<noteq> None"
    using first_inv [OF assms(1)] first_free [OF assms(1)] first_least [OF assms(1)] assms(2) by auto
  then show ?thesis
    using set_inv [OF f(1) assms(3), of env "Some x"] set_get [OF f(1) assms(3), of env "Some x"]
      set_fail [OF f(1) assms(3), of env "Some x"] assms(4) by auto
qed

text \<open>Allocating and releasing the slot gives the table back.\<close>

lemma allocate_release:
  assumes "inv t" "first t = (i, t1)" "small i" "set_slot env t1 i (Some x) = (True, t2)"
    and "set_slot env' t2 i None = (True, t3)"
  shows "get t3 = get t"
proof -
  have a: "inv t2" "get t i = None" "get t2 = (get t)(i \<mapsto> x)"
    using allocate [OF assms(1-4)] by simp_all
  have "get t3 = (get t2)(i := None)" using set_get [OF a(1) assms(3), of env' None] assms(5) by simp
  then show ?thesis using a(2,3) by (auto simp: fun_eq_iff)
qed

end

text \<open>The pair is whether the two reallocations succeed.\<close>

interpretation da: slot_table da_wf DynArrayGet "\<lambda>(r1, r2). DynArraySet r1 r2" DynArrayFirstAvail
  "\<lambda>i. i < 2 ^ 60"
proof (unfold_locales, goal_cases)
  case (1 t i env x)
  then show ?case using DynArraySet_ok(1) by (cases env) simp
next
  case (2 t i env x)
  then show ?case by (cases env) (auto simp: fun_eq_iff DynArraySet_ok(2))
next
  case (3 t i env x)
  then show ?case by (cases env) (auto simp: fun_eq_iff DynArraySet_ok(3))
next
  case (4 t)
  then show ?case using FirstAvail_ok(3,4) by blast
next
  case (5 t)
  then show ?case by (rule FirstAvail_ok(1))
next
  case (6 t j)
  then show ?case by (rule FirstAvail_ok(2))
qed

lemma Ctor_wf:
  assumes "DynArrayCtor a1 a2 n = Some dap" "n < 2 ^ 60"
  shows "da_wf dap" "DynArrayGet dap = (\<lambda>_. None)"
proof -
  let ?n = "if n = 0 then 32 else n"
  have n: "0 < ?n" "?n < 2 ^ 61" using assms(2) by auto
  have d: "dap = \<lparr>num_entries = 0, ptr_array = replicate ?n None, ptr_array_space = ?n,
      available = replicate ((?n + 31) div 32) 0, avail_ix = 0\<rparr>"
    using assms(1) words_alloc [OF n(2)] by (auto simp: DynArrayCtor_def Let_def split: if_splits)
  have "\<not> da_used dap i" for i by (auto simp: d da_used_def)
  moreover have "\<not> bit_at (available dap) i" if "i < 32 * da_words dap" for i
    using that by (auto simp: d bit_at_def da_words_def)
  ultimately show "da_wf dap" using n by (auto simp: da_wf_def) (auto simp: d da_words_def)
  show "DynArrayGet dap = (\<lambda>_. None)" by (simp add: d DynArrayGet_def fun_eq_iff)
qed

end
