(* ===== verification/IntervalList.thy ===== *)
theory IntervalList
  imports Prelude
begin

text \<open>
  Interval multisets (\<open>interval_multiset/nacl_interval_multiset.h\<close>), which record the memory
  ranges that system calls are reading or writing: the interface, and the list implementation
  (\<open>nacl_interval_list.c\<close>). The range tree is in \<open>IntervalTree\<close>.
\<close>

section \<open>The interface\<close>

type_synonym interval = "u32 \<times> u32"

definition overlaps :: "interval \<Rightarrow> interval \<Rightarrow> bool" where
  "overlaps x y \<longleftrightarrow> fst x \<le> snd y \<and> fst y \<le> snd x"

text \<open>
  \<open>holds t M\<close> says that the object \<open>t\<close> represents the multiset \<open>M\<close> of closed intervals. Every
  interval is proper, and fewer than \<open>2 ^ 31\<close> are stored at a time, as the header asks and the
  counters of the tree need.
\<close>

definition proper :: "interval \<Rightarrow> bool" where
  "proper x \<longleftrightarrow> fst x \<le> snd x"

definition im_max :: nat where "im_max = 2 ^ 31"

locale interval_multiset =
  fixes holds :: "'t \<Rightarrow> interval multiset \<Rightarrow> bool"
    and empty :: 't
    and AddInterval :: "'t \<Rightarrow> u32 \<Rightarrow> u32 \<Rightarrow> 't exec"
    and RemoveInterval :: "'t \<Rightarrow> u32 \<Rightarrow> u32 \<Rightarrow> 't exec"
    and OverlapsWith :: "'t \<Rightarrow> u32 \<Rightarrow> u32 \<Rightarrow> bool"
  assumes empty_law: "holds empty {#}"
    and add_law: "holds t M \<Longrightarrow> a \<le> b \<Longrightarrow> size M + 1 < im_max
      \<Longrightarrow> \<exists>t'. AddInterval t a b = Inr t' \<and> holds t' (add_mset (a, b) M)"
    and remove_law: "holds t (add_mset (a, b) M) \<Longrightarrow> \<exists>t'. RemoveInterval t a b = Inr t' \<and> holds t' M"
    and overlaps_law: "holds t M \<Longrightarrow> a \<le> b \<Longrightarrow> OverlapsWith t a b = (\<exists>x \<in># M. overlaps x (a, b))"
begin

text \<open>Adding and removing an interval restores every answer.\<close>

lemma add_remove:
  assumes "holds t M" "a \<le> b" "size M + 1 < im_max"
  shows "\<exists>t' t''. AddInterval t a b = Inr t' \<and> RemoveInterval t' a b = Inr t'' \<and> holds t'' M"
  using add_law [OF assms] remove_law by blast

text \<open>While an interval is stored, every query that meets it says so.\<close>

lemma pending_detected:
  assumes "holds t M" "(a, b) \<in># M" "c \<le> d" "overlaps (a, b) (c, d)"
  shows "OverlapsWith t c d"
  using overlaps_law [OF assms(1,3)] assms(2,4) by blast

text \<open>Any two objects that hold the same multiset give the same answers.\<close>

lemma same_answers:
  assumes "holds t M" "holds u M" "c \<le> d"
  shows "OverlapsWith t c d = OverlapsWith u c d"
  using overlaps_law [OF assms(1,3)] overlaps_law [OF assms(2,3)] by simp

end

section \<open>The list implementation\<close>

definition NaClIntervalListMultisetAddInterval :: "interval list \<Rightarrow> u32 \<Rightarrow> u32 \<Rightarrow> interval list exec" where
  "NaClIntervalListMultisetAddInterval self first_val last_val = Inr ((first_val, last_val) # self)"

fun NaClIntervalListMultisetRemoveInterval :: "interval list \<Rightarrow> u32 \<Rightarrow> u32 \<Rightarrow> interval list exec" where
  "NaClIntervalListMultisetRemoveInterval [] first_val last_val = Inl Log_fatal"
| "NaClIntervalListMultisetRemoveInterval (p # ps) first_val last_val =
     (if fst p = first_val \<and> last_val = snd p then Inr ps
      else ebind (NaClIntervalListMultisetRemoveInterval ps first_val last_val) (\<lambda>qs. Inr (p # qs)))"

fun NaClIntervalListMultisetOverlapsWith :: "interval list \<Rightarrow> u32 \<Rightarrow> u32 \<Rightarrow> bool" where
  "NaClIntervalListMultisetOverlapsWith [] first_val last_val = False"
| "NaClIntervalListMultisetOverlapsWith (p # ps) first_val last_val =
     (if fst p \<le> last_val \<and> first_val \<le> snd p then True
      else NaClIntervalListMultisetOverlapsWith ps first_val last_val)"

definition list_holds :: "interval list \<Rightarrow> interval multiset \<Rightarrow> bool" where
  "list_holds self M \<longleftrightarrow> mset self = M \<and> (\<forall>x \<in># M. proper x) \<and> size M < im_max"

lemma list_remove:
  "(a, b) \<in> set self \<Longrightarrow>
    \<exists>t'. NaClIntervalListMultisetRemoveInterval self a b = Inr t' \<and> mset self = add_mset (a, b) (mset t')"
  by (induction self) auto

lemma list_overlaps:
  "NaClIntervalListMultisetOverlapsWith self a b = (\<exists>x \<in> set self. overlaps x (a, b))"
  by (induction self) (auto simp: overlaps_def)

interpretation ilist: interval_multiset list_holds "[]" NaClIntervalListMultisetAddInterval
  NaClIntervalListMultisetRemoveInterval NaClIntervalListMultisetOverlapsWith
proof
  show "list_holds [] {#}" by (simp add: list_holds_def im_max_def)
next
  fix t M and a b :: u32
  assume "list_holds t M" "a \<le> b" "size M + 1 < im_max"
  then show "\<exists>t'. NaClIntervalListMultisetAddInterval t a b = Inr t' \<and> list_holds t' (add_mset (a, b) M)"
    by (auto simp: NaClIntervalListMultisetAddInterval_def list_holds_def proper_def)
next
  fix t a b M
  assume h: "list_holds t (add_mset (a, b) M)"
  then have "(a, b) \<in> set t" by (metis list_holds_def set_mset_mset union_single_eq_member)
  then obtain t' where "NaClIntervalListMultisetRemoveInterval t a b = Inr t'"
    "mset t = add_mset (a, b) (mset t')" using list_remove by blast
  then show "\<exists>t'. NaClIntervalListMultisetRemoveInterval t a b = Inr t' \<and> list_holds t' M"
    using h by (auto simp: list_holds_def)
next
  fix t M and a b :: u32
  assume "list_holds t M" "a \<le> b"
  then show "NaClIntervalListMultisetOverlapsWith t a b = (\<exists>x \<in># M. overlaps x (a, b))"
    by (auto simp: list_overlaps list_holds_def)
qed

end
