(* ===== verification/IntervalTree.thy ===== *)
theory IntervalTree
  imports IntervalList
begin

text \<open>
  The range tree (\<open>interval_multiset/nacl_interval_range_tree.c\<close>): an AVL tree of interval end
  points, each with the number of intervals that start there minus those that end there, and the
  sum of these numbers over its subtree. The operations follow the source; a read through a null
  child is a fault, which the AVL invariant excludes.
\<close>

section \<open>Data and operations\<close>

text \<open>
  \<open>struct NaClIntervalRangeTreeNode\<close> without the child pointers. The deltas are kept as unsigned
  words; the signed \<open>subtree_containment_delta\<close> is only added and copied.
\<close>

record rnode =
  n_balance :: int
  n_value :: u32
  n_delta :: u32
  n_refcount :: u32
  n_range_left :: u32
  n_range_right :: u32
  n_subtree_delta :: u32

datatype rtree = RLeaf | RNode rtree rnode rtree

definition NaClIntervalRangeTreeNodeInit :: "u32 \<Rightarrow> u32 \<Rightarrow> rnode" where
  "NaClIntervalRangeTreeNodeInit val lr =
     \<lparr>n_balance = 0, n_value = val, n_delta = lr, n_refcount = 1, n_range_left = val,
      n_range_right = val, n_subtree_delta = lr\<rparr>"

fun subtree_delta :: "rtree \<Rightarrow> u32" where
  "subtree_delta RLeaf = 0"
| "subtree_delta (RNode l n r) = n_subtree_delta n"

definition NaClRangeStatsUpdate :: "rtree \<Rightarrow> rnode \<Rightarrow> rtree \<Rightarrow> rtree" where
  "NaClRangeStatsUpdate l n r =
     RNode l (n\<lparr>n_range_left := (case l of RLeaf \<Rightarrow> n_value n | RNode _ m _ \<Rightarrow> n_range_left m),
                n_range_right := (case r of RLeaf \<Rightarrow> n_value n | RNode _ m _ \<Rightarrow> n_range_right m),
                n_subtree_delta := n_delta n + subtree_delta l + subtree_delta r\<rparr>) r"

definition balanced_as :: "int \<Rightarrow> rnode \<Rightarrow> rnode" where
  "balanced_as b n = n\<lparr>n_balance := b\<rparr>"

text \<open>\<open>NaClAvlTreeInsert\<close> after the recursion into the left child \<open>l\<close> and the right child.\<close>

definition insert_left :: "rtree \<Rightarrow> rnode \<Rightarrow> rtree \<Rightarrow> bool \<Rightarrow> (rtree \<times> bool) exec" where
  "insert_left l tmp r higher =
     (if \<not> higher then Inr (NaClRangeStatsUpdate l tmp r, False)
      else let b = n_balance tmp - 1
      in if b = 0 then Inr (NaClRangeStatsUpdate l (balanced_as b tmp) r, False)
         else if b = - 1 then Inr (NaClRangeStatsUpdate l (balanced_as b tmp) r, True)
         else case l of
           RLeaf \<Rightarrow> Inl Null_deref
         | RNode a nb c \<Rightarrow>
             if n_balance nb = - 1 then
               Inr (NaClRangeStatsUpdate a (balanced_as 0 nb)
                      (NaClRangeStatsUpdate c (balanced_as 0 tmp) r), False)
             else (case c of
               RLeaf \<Rightarrow> Inl Null_deref
             | RNode ml nd mr \<Rightarrow>
                 Inr (NaClRangeStatsUpdate
                        (NaClRangeStatsUpdate a (balanced_as (if n_balance nd \<le> 0 then 0 else - 1) nb) ml)
                        (balanced_as 0 nd)
                        (NaClRangeStatsUpdate mr (balanced_as (if n_balance nd \<ge> 0 then 0 else 1) tmp) r),
                      False)))"

definition insert_right :: "rtree \<Rightarrow> rnode \<Rightarrow> rtree \<Rightarrow> bool \<Rightarrow> (rtree \<times> bool) exec" where
  "insert_right l tmp r higher =
     (if \<not> higher then Inr (NaClRangeStatsUpdate l tmp r, False)
      else let b = n_balance tmp + 1
      in if b = 0 then Inr (NaClRangeStatsUpdate l (balanced_as b tmp) r, False)
         else if b = 1 then Inr (NaClRangeStatsUpdate l (balanced_as b tmp) r, True)
         else case r of
           RLeaf \<Rightarrow> Inl Null_deref
         | RNode c nd e \<Rightarrow>
             if n_balance nd = 1 then
               Inr (NaClRangeStatsUpdate (NaClRangeStatsUpdate l (balanced_as 0 tmp) c)
                      (balanced_as 0 nd) e, False)
             else (case c of
               RLeaf \<Rightarrow> Inl Null_deref
             | RNode ml nt mr \<Rightarrow>
                 Inr (NaClRangeStatsUpdate
                        (NaClRangeStatsUpdate l (balanced_as (if n_balance nt \<le> 0 then 0 else - 1) tmp) ml)
                        (balanced_as 0 nt)
                        (NaClRangeStatsUpdate mr (balanced_as (if n_balance nt \<ge> 0 then 0 else 1) nd) e),
                      False)))"

fun NaClAvlTreeInsert :: "rtree \<Rightarrow> rnode \<Rightarrow> (rtree \<times> bool) exec" where
  "NaClAvlTreeInsert RLeaf node = Inr (RNode RLeaf node RLeaf, True)"
| "NaClAvlTreeInsert (RNode l tmp r) node =
     (if n_value node = n_value tmp then
        Inr (RNode l (tmp\<lparr>n_delta := n_delta tmp + n_delta node,
                          n_subtree_delta := n_subtree_delta tmp + n_delta node,
                          n_refcount := n_refcount tmp + 1\<rparr>) r, False)
      else if n_value node < n_value tmp then
        ebind (NaClAvlTreeInsert l node) (\<lambda>(l1, higher). insert_left l1 tmp r higher)
      else
        ebind (NaClAvlTreeInsert r node) (\<lambda>(r1, higher). insert_right l tmp r1 higher))"

text \<open>
  Rebalancing after the left or right subtree shrank. The result says whether the height of the
  whole tree changed; both are called with \<open>*height_changed\<close> set.
\<close>

definition NaClAvlTreeBalanceLeft :: "rtree \<Rightarrow> rnode \<Rightarrow> rtree \<Rightarrow> (rtree \<times> bool) exec" where
  "NaClAvlTreeBalanceLeft l n r =
     (let bal = n_balance n + 1
      in if bal = 0 then Inr (RNode l (balanced_as bal n) r, True)
         else if bal = 1 then Inr (RNode l (balanced_as bal n) r, False)
         else case r of
           RLeaf \<Rightarrow> Inl Null_deref
         | RNode c nd e \<Rightarrow>
             if n_balance nd \<ge> 0 then
               (if n_balance nd = 0 then
                  Inr (NaClRangeStatsUpdate (NaClRangeStatsUpdate l (balanced_as 1 n) c)
                         (balanced_as (- 1) nd) e, False)
                else
                  Inr (NaClRangeStatsUpdate (NaClRangeStatsUpdate l (balanced_as 0 n) c)
                         (balanced_as 0 nd) e, True))
             else (case c of
               RLeaf \<Rightarrow> Inl Null_deref
             | RNode ml nt mr \<Rightarrow>
                 Inr (NaClRangeStatsUpdate
                        (NaClRangeStatsUpdate l (balanced_as (if n_balance nt > 0 then - 1 else 0) n) ml)
                        (balanced_as 0 nt)
                        (NaClRangeStatsUpdate mr (balanced_as (if n_balance nt < 0 then 1 else 0) nd) e),
                      True)))"

definition NaClAvlTreeBalanceRight :: "rtree \<Rightarrow> rnode \<Rightarrow> rtree \<Rightarrow> (rtree \<times> bool) exec" where
  "NaClAvlTreeBalanceRight l n r =
     (let bal = n_balance n - 1
      in if bal = 0 then Inr (RNode l (balanced_as bal n) r, True)
         else if bal = - 1 then Inr (RNode l (balanced_as bal n) r, False)
         else case l of
           RLeaf \<Rightarrow> Inl Null_deref
         | RNode a nb c \<Rightarrow>
             if n_balance nb \<le> 0 then
               (if n_balance nb = 0 then
                  Inr (NaClRangeStatsUpdate a (balanced_as 1 nb)
                         (NaClRangeStatsUpdate c (balanced_as (- 1) n) r), False)
                else
                  Inr (NaClRangeStatsUpdate a (balanced_as 0 nb)
                         (NaClRangeStatsUpdate c (balanced_as 0 n) r), True))
             else (case c of
               RLeaf \<Rightarrow> Inl Null_deref
             | RNode ml nt mr \<Rightarrow>
                 Inr (NaClRangeStatsUpdate
                        (NaClRangeStatsUpdate a (balanced_as (if n_balance nt > 0 then - 1 else 0) nb) ml)
                        (balanced_as 0 nt)
                        (NaClRangeStatsUpdate mr (balanced_as (if n_balance nt < 0 then 1 else 0) n) r),
                      True)))"

text \<open>The update before the rebalancing, and the rebalancing if the height changed.\<close>

definition shrunk_left :: "rtree \<Rightarrow> rnode \<Rightarrow> rtree \<Rightarrow> bool \<Rightarrow> (rtree \<times> bool) exec" where
  "shrunk_left l n r height_changed =
     (case NaClRangeStatsUpdate l n r of
        RNode l1 n1 r1 \<Rightarrow> if height_changed then NaClAvlTreeBalanceLeft l1 n1 r1
                         else Inr (RNode l1 n1 r1, False)
      | RLeaf \<Rightarrow> Inl Null_deref)"

definition shrunk_right :: "rtree \<Rightarrow> rnode \<Rightarrow> rtree \<Rightarrow> bool \<Rightarrow> (rtree \<times> bool) exec" where
  "shrunk_right l n r height_changed =
     (case NaClRangeStatsUpdate l n r of
        RNode l1 n1 r1 \<Rightarrow> if height_changed then NaClAvlTreeBalanceRight l1 n1 r1
                         else Inr (RNode l1 n1 r1, False)
      | RLeaf \<Rightarrow> Inl Null_deref)"

fun NaClAvlFindRightMost :: "rtree \<Rightarrow> (rnode \<times> rtree \<times> bool) exec" where
  "NaClAvlFindRightMost RLeaf = Inl Null_deref"
| "NaClAvlFindRightMost (RNode l n r) =
     (if r = RLeaf then Inr (n, l, True)
      else ebind (NaClAvlFindRightMost r) (\<lambda>(tmp, r1, height_changed).
           ebind (shrunk_right l n r1 height_changed) (\<lambda>(t, h). Inr (tmp, t, h))))"

fun NaClAvlFindLeftMost :: "rtree \<Rightarrow> (rnode \<times> rtree \<times> bool) exec" where
  "NaClAvlFindLeftMost RLeaf = Inl Null_deref"
| "NaClAvlFindLeftMost (RNode l n r) =
     (if l = RLeaf then Inr (n, r, True)
      else ebind (NaClAvlFindLeftMost l) (\<lambda>(tmp, l1, height_changed).
           ebind (shrunk_left l1 n r height_changed) (\<lambda>(t, h). Inr (tmp, t, h))))"

text \<open>The node taken out is freed by the caller, so the result is the remaining tree.\<close>

fun NaClAvlTreeExtract :: "rtree \<Rightarrow> rnode \<Rightarrow> (rtree \<times> bool) exec" where
  "NaClAvlTreeExtract RLeaf key = Inl Log_fatal"
| "NaClAvlTreeExtract (RNode l p r) key =
     (if n_value key < n_value p then
        ebind (NaClAvlTreeExtract l key) (\<lambda>(l1, height_changed). shrunk_left l1 p r height_changed)
      else if n_value key > n_value p then
        ebind (NaClAvlTreeExtract r key) (\<lambda>(r1, height_changed). shrunk_right l p r1 height_changed)
      else if n_refcount p - 1 \<noteq> 0 then
        Inr (RNode l (p\<lparr>n_refcount := n_refcount p - 1, n_delta := n_delta p - n_delta key,
                        n_subtree_delta := n_subtree_delta p - n_delta key\<rparr>) r, False)
      else if r = RLeaf then Inr (l, True)
      else if l = RLeaf then Inr (r, True)
      else if n_balance p \<le> 0 then
        ebind (NaClAvlFindRightMost l) (\<lambda>(tmp, l1, height_changed).
          shrunk_left l1 (balanced_as (n_balance p) tmp) r height_changed)
      else
        ebind (NaClAvlFindLeftMost r) (\<lambda>(tmp, r1, height_changed).
          shrunk_right l (balanced_as (n_balance p) tmp) r1 height_changed))"

definition NaClIntervalRangeTreeRemoveVal :: "rtree \<Rightarrow> u32 \<Rightarrow> u32 \<Rightarrow> rtree exec" where
  "NaClIntervalRangeTreeRemoveVal root val lr =
     ebind (NaClAvlTreeExtract root (NaClIntervalRangeTreeNodeInit val lr)) (\<lambda>(t, _). Inr t)"

text \<open>The second part of the result is \<open>*gap_left\<close>, \<open>None\<close> when it is not written.\<close>

fun NaClAvlTreeFindValue :: "rtree \<Rightarrow> u32 \<Rightarrow> u32 \<Rightarrow> u32 \<Rightarrow> u32 \<times> u32 option" where
  "NaClAvlTreeFindValue RLeaf left_delta left_range val = (left_delta, Some left_range)"
| "NaClAvlTreeFindValue (RNode l n r) left_delta left_range val =
     (if val < n_value n then NaClAvlTreeFindValue l left_delta left_range val
      else if val = n_value n then
        (let delta = left_delta + subtree_delta l + n_delta n
         in (if 0 = delta then 1 else delta, None))
      else
        NaClAvlTreeFindValue r (left_delta + subtree_delta l + n_delta n) (n_value n + 1) val)"

definition NaClIntervalRangeTreeAddInterval :: "rtree \<Rightarrow> u32 \<Rightarrow> u32 \<Rightarrow> rtree exec" where
  "NaClIntervalRangeTreeAddInterval root first_val last_val =
     ebind (NaClAvlTreeInsert root (NaClIntervalRangeTreeNodeInit first_val 1)) (\<lambda>(t1, _).
     ebind (NaClAvlTreeInsert t1 (NaClIntervalRangeTreeNodeInit last_val (- 1))) (\<lambda>(t2, _). Inr t2))"

definition NaClIntervalRangeTreeRemoveInterval :: "rtree \<Rightarrow> u32 \<Rightarrow> u32 \<Rightarrow> rtree exec" where
  "NaClIntervalRangeTreeRemoveInterval root first_val last_val =
     ebind (NaClIntervalRangeTreeRemoveVal root last_val (- 1)) (\<lambda>t1.
       NaClIntervalRangeTreeRemoveVal t1 first_val 1)"

definition NaClIntervalRangeTreeOverlapsWith :: "rtree \<Rightarrow> u32 \<Rightarrow> u32 \<Rightarrow> bool" where
  "NaClIntervalRangeTreeOverlapsWith root first_val last_val =
     (let (c1, gap_left_first) = NaClAvlTreeFindValue root 0 0 first_val;
          (c2, gap_left_last) = NaClAvlTreeFindValue root 0 0 last_val
      in if 0 \<noteq> c1 then True
         else if 0 \<noteq> c2 then True
         else if gap_left_first = gap_left_last then False
         else True)"

section \<open>Shape: the AVL invariant\<close>

fun height :: "rtree \<Rightarrow> int" where
  "height RLeaf = 0"
| "height (RNode l n r) = 1 + max (height l) (height r)"

fun avl :: "rtree \<Rightarrow> bool" where
  "avl RLeaf = True"
| "avl (RNode l n r) = (avl l \<and> avl r \<and> n_balance n = height r - height l
     \<and> - 1 \<le> n_balance n \<and> n_balance n \<le> 1)"

fun stats_ok :: "rtree \<Rightarrow> bool" where
  "stats_ok RLeaf = True"
| "stats_ok (RNode l n r) = (stats_ok l \<and> stats_ok r
     \<and> n_subtree_delta n = n_delta n + subtree_delta l + subtree_delta r)"

text \<open>The end points in order, each with its reference count and delta.\<close>

fun entries :: "rtree \<Rightarrow> (u32 \<times> u32 \<times> u32) list" where
  "entries RLeaf = []"
| "entries (RNode l n r) = entries l @ (n_value n, n_refcount n, n_delta n) # entries r"

lemma height_nonneg [simp]: "0 \<le> height t"
  by (induction t) auto

lemma height_0 [simp]: "height t = 0 \<longleftrightarrow> t = RLeaf"
proof (cases t)
  case (RNode l n r)
  have "0 \<le> max (height l) (height r)" by (simp add: le_max_iff_disj)
  then show ?thesis using RNode by simp
qed simp

lemma height_pos: "t \<noteq> RLeaf \<longleftrightarrow> 0 < height t"
  using height_0 [of t] height_nonneg [of t] by linarith

lemma balanced_as_simps [simp]:
  "n_balance (balanced_as b n) = b" "n_value (balanced_as b n) = n_value n"
  "n_delta (balanced_as b n) = n_delta n" "n_refcount (balanced_as b n) = n_refcount n"
  "n_subtree_delta (balanced_as b n) = n_subtree_delta n"
  by (simp_all add: balanced_as_def)

lemma update_simps [simp]:
  "height (NaClRangeStatsUpdate l n r) = 1 + max (height l) (height r)"
  "avl (NaClRangeStatsUpdate l n r) = avl (RNode l n r)"
  "stats_ok (NaClRangeStatsUpdate l n r) = (stats_ok l \<and> stats_ok r)"
  "entries (NaClRangeStatsUpdate l n r) = entries (RNode l n r)"
  "NaClRangeStatsUpdate l n r \<noteq> RLeaf"
  by (simp_all add: NaClRangeStatsUpdate_def)

lemma updated_node:
  "b \<noteq> 0 \<Longrightarrow> \<exists>a m. (\<exists>c. NaClRangeStatsUpdate l (balanced_as b n) r = RNode a m c) \<and> n_balance m \<noteq> 0"
  by (simp add: NaClRangeStatsUpdate_def)

text \<open>
  The double rotation: the middle tree \<open>RNode cl nd cr\<close> is taken apart between two trees of
  its height minus one.
\<close>

lemma double_rotation:
  assumes "avl a" "avl cl" "avl cr" "avl r" "height a = H" "height r = H" "max (height cl) (height cr) = H"
    and b: "n_balance nd = height cr - height cl" "- 1 \<le> n_balance nd" "n_balance nd \<le> 1"
    and x: "x = (if n_balance nd \<le> 0 then 0 else - 1)" and y: "y = (if n_balance nd \<ge> 0 then 0 else 1)"
  shows "avl (NaClRangeStatsUpdate (NaClRangeStatsUpdate a (balanced_as x m) cl) (balanced_as 0 nd)
      (NaClRangeStatsUpdate cr (balanced_as y n) r))"
    "height (NaClRangeStatsUpdate (NaClRangeStatsUpdate a (balanced_as x m) cl) (balanced_as 0 nd)
      (NaClRangeStatsUpdate cr (balanced_as y n) r)) = H + 2"
proof -
  consider "height cl = H" "height cr = H" "n_balance nd = 0"
    | "height cl = H" "height cr = H - 1" "n_balance nd = - 1"
    | "height cl = H - 1" "height cr = H" "n_balance nd = 1"
    using assms(7) b by linarith
  note cs = this
  show "avl (NaClRangeStatsUpdate (NaClRangeStatsUpdate a (balanced_as x m) cl) (balanced_as 0 nd)
      (NaClRangeStatsUpdate cr (balanced_as y n) r))"
    using cs by cases (simp_all add: assms(1-6) x y)
  show "height (NaClRangeStatsUpdate (NaClRangeStatsUpdate a (balanced_as x m) cl) (balanced_as 0 nd)
      (NaClRangeStatsUpdate cr (balanced_as y n) r)) = H + 2"
    using cs by cases (simp_all add: assms(1-6) x y)
qed

lemma double_rotation_delete:
  "(if (b :: int) > 0 then - 1 else 0) = (if b \<le> 0 then 0 else (- 1 :: int))"
  "(if b < 0 then 1 else 0) = (if b \<ge> 0 then 0 else (1 :: int))"
  by auto

lemma grown:
  assumes "f = Inr (T, b)" "avl T" "stats_ok T" "entries T = es" "height T = H + (if b then 1 else 0)"
    "b \<Longrightarrow> \<exists>a m c. T = RNode a m c \<and> n_balance m \<noteq> 0"
  shows "\<exists>t h'. f = Inr (t, h') \<and> avl t \<and> stats_ok t \<and> entries t = es
    \<and> height t = H + (if h' then 1 else 0) \<and> (h' \<longrightarrow> (\<exists>a m c. t = RNode a m c \<and> n_balance m \<noteq> 0))"
  using assms by blast

lemma shrunk:
  assumes "f = Inr (T, b)" "avl T" "stats_ok T" "entries T = es" "height T = H - (if b then 1 else 0)"
  shows "\<exists>t h'. f = Inr (t, h') \<and> avl t \<and> stats_ok t \<and> entries t = es
    \<and> height t = H - (if h' then 1 else 0)"
  using assms by blast

text \<open>
  A rebalancing step: no fault, the same end points, and an AVL tree whose height is that before
  the step or one more (less) as the flag says.
\<close>

lemma insert_left_ok:
  assumes "avl l" "avl r" "stats_ok l" "stats_ok r"
    and "n_balance n = height r - (if h then height l - 1 else height l)" "- 1 \<le> n_balance n" "n_balance n \<le> 1"
    and "h \<Longrightarrow> \<exists>a m c. l = RNode a m c \<and> (n_balance m \<noteq> 0 \<or> (a = RLeaf \<and> c = RLeaf))"
  shows "\<exists>t h'. insert_left l n r h = Inr (t, h') \<and> avl t \<and> stats_ok t \<and> entries t = entries (RNode l n r)
    \<and> height t = 1 + max (if h then height l - 1 else height l) (height r) + (if h' then 1 else 0)
    \<and> (h' \<longrightarrow> (\<exists>a m c. t = RNode a m c \<and> n_balance m \<noteq> 0))"
proof (cases h)
  case False
  then show ?thesis using assms by (simp add: insert_left_def ex_bool_eq)
next
  case True
  then obtain a m c where l: "l = RNode a m c" "n_balance m \<noteq> 0 \<or> (a = RLeaf \<and> c = RLeaf)"
    using assms(8) by blast
  show ?thesis
  proof (cases "n_balance n = - 1")
    case False
    then consider "n_balance n = 1" | "n_balance n = 0" using assms(6,7) by linarith
    then show ?thesis
    proof cases
      case 1
      then have eq: "insert_left l n r h = Inr (NaClRangeStatsUpdate l (balanced_as 0 n) r, False)"
        using \<open>h\<close> by (simp add: insert_left_def)
      show ?thesis by (rule grown [OF eq]) (use assms(1-5) 1 \<open>h\<close> in simp_all)
    next
      case 2
      then have eq: "insert_left l n r h = Inr (NaClRangeStatsUpdate l (balanced_as (- 1) n) r, True)"
        using \<open>h\<close> by (simp add: insert_left_def)
      show ?thesis by (rule grown [OF eq]) (use assms(1-5) 2 \<open>h\<close> in \<open>simp_all add: updated_node\<close>)
    qed
  next
    case b: True
    show ?thesis
    proof (cases "n_balance m = - 1")
      case True
      then show ?thesis using assms b l \<open>h\<close> by (auto simp: insert_left_def)
    next
      case False
      have "height l = height r + 2" using assms(5) b \<open>h\<close> by simp
      then have "height l \<noteq> 1" using height_nonneg [of r] by linarith
      then have nz: "n_balance m \<noteq> 0" using l by auto
      have hc: "height c = height a + 1" and hr: "height r = height a"
        using assms(1,5) b l(1) nz \<open>h\<close> False by auto
      obtain cl nd cr where c: "c = RNode cl nd cr" using hc height_nonneg [of a] by (cases c) auto
      have mx: "max (height cl) (height cr) = height a" using hc c by simp
      have p: "avl a" "avl cl" "avl cr" "n_balance nd = height cr - height cl" "- 1 \<le> n_balance nd"
        "n_balance nd \<le> 1" using assms(1) l(1) c by simp_all
      note dr = double_rotation [OF p(1-3) assms(2) refl hr mx p(4-6) refl refl, of m n]
      have "height l - 1 = height a + 1" using l(1) hc by simp
      then have mh: "1 + max (if h then height l - 1 else height l) (height r) = height a + 2"
        using hr \<open>h\<close> by simp
      have eq: "insert_left l n r h = Inr (NaClRangeStatsUpdate
          (NaClRangeStatsUpdate a (balanced_as (if n_balance nd \<le> 0 then 0 else - 1) m) cl) (balanced_as 0 nd)
          (NaClRangeStatsUpdate cr (balanced_as (if n_balance nd \<ge> 0 then 0 else 1) n) r), False)"
        unfolding insert_left_def using b l(1) c \<open>h\<close> False by simp
      show ?thesis unfolding mh by (rule grown [OF eq dr(1)]) (use assms(3,4) l(1) c dr(2) in simp_all)
    qed
  qed
qed

lemma insert_right_ok:
  assumes "avl l" "avl r" "stats_ok l" "stats_ok r"
    and "n_balance n = (if h then height r - 1 else height r) - height l" "- 1 \<le> n_balance n" "n_balance n \<le> 1"
    and "h \<Longrightarrow> \<exists>a m c. r = RNode a m c \<and> (n_balance m \<noteq> 0 \<or> (a = RLeaf \<and> c = RLeaf))"
  shows "\<exists>t h'. insert_right l n r h = Inr (t, h') \<and> avl t \<and> stats_ok t \<and> entries t = entries (RNode l n r)
    \<and> height t = 1 + max (height l) (if h then height r - 1 else height r) + (if h' then 1 else 0)
    \<and> (h' \<longrightarrow> (\<exists>a m c. t = RNode a m c \<and> n_balance m \<noteq> 0))"
proof (cases h)
  case False
  then show ?thesis using assms by (simp add: insert_right_def ex_bool_eq)
next
  case True
  then obtain a m c where r: "r = RNode a m c" "n_balance m \<noteq> 0 \<or> (a = RLeaf \<and> c = RLeaf)"
    using assms(8) by blast
  show ?thesis
  proof (cases "n_balance n = 1")
    case False
    then consider "n_balance n = - 1" | "n_balance n = 0" using assms(6,7) by linarith
    then show ?thesis
    proof cases
      case 1
      then have eq: "insert_right l n r h = Inr (NaClRangeStatsUpdate l (balanced_as 0 n) r, False)"
        using \<open>h\<close> by (simp add: insert_right_def)
      show ?thesis by (rule grown [OF eq]) (use assms(1-5) 1 \<open>h\<close> in simp_all)
    next
      case 2
      then have eq: "insert_right l n r h = Inr (NaClRangeStatsUpdate l (balanced_as 1 n) r, True)"
        using \<open>h\<close> by (simp add: insert_right_def)
      show ?thesis by (rule grown [OF eq]) (use assms(1-5) 2 \<open>h\<close> in \<open>simp_all add: updated_node\<close>)
    qed
  next
    case b: True
    show ?thesis
    proof (cases "n_balance m = 1")
      case True
      then show ?thesis using assms b r \<open>h\<close> by (auto simp: insert_right_def)
    next
      case False
      have "height r = height l + 2" using assms(5) b \<open>h\<close> by simp
      then have "height r \<noteq> 1" using height_nonneg [of l] by linarith
      then have nz: "n_balance m \<noteq> 0" using r by auto
      have ha: "height a = height c + 1" and hl: "height l = height c"
        using assms(2,5) b r(1) nz \<open>h\<close> False by auto
      obtain al nd ar where a: "a = RNode al nd ar" using ha height_nonneg [of c] by (cases a) auto
      have mx: "max (height al) (height ar) = height c" using ha a by simp
      have p: "avl c" "avl al" "avl ar" "n_balance nd = height ar - height al" "- 1 \<le> n_balance nd"
        "n_balance nd \<le> 1" using assms(2) r(1) a by simp_all
      note dr = double_rotation [OF assms(1) p(2,3,1) hl refl mx p(4-6) refl refl, of n m]
      have "height r - 1 = height c + 1" using r(1) ha by simp
      then have mh: "1 + max (height l) (if h then height r - 1 else height r) = height c + 2"
        using hl \<open>h\<close> by simp
      have eq: "insert_right l n r h = Inr (NaClRangeStatsUpdate
          (NaClRangeStatsUpdate l (balanced_as (if n_balance nd \<le> 0 then 0 else - 1) n) al) (balanced_as 0 nd)
          (NaClRangeStatsUpdate ar (balanced_as (if n_balance nd \<ge> 0 then 0 else 1) m) c), False)"
        unfolding insert_right_def using b r(1) a \<open>h\<close> False by simp
      show ?thesis unfolding mh by (rule grown [OF eq dr(1)]) (use assms(3,4) r(1) a dr(2) in simp_all)
    qed
  qed
qed

lemma balance_left_ok:
  assumes "avl l" "avl r" "stats_ok (RNode l n r)" "n_balance n = height r - (height l + 1)"
    "- 1 \<le> n_balance n" "n_balance n \<le> 1"
  shows "\<exists>t h'. NaClAvlTreeBalanceLeft l n r = Inr (t, h') \<and> avl t \<and> stats_ok t
    \<and> entries t = entries (RNode l n r)
    \<and> height t = 1 + max (height l + 1) (height r) - (if h' then 1 else 0)"
proof (cases "n_balance n = 1")
  case False
  then consider "n_balance n = - 1" | "n_balance n = 0" using assms(5,6) by linarith
  then show ?thesis
  proof cases
    case 1
    then have eq: "NaClAvlTreeBalanceLeft l n r = Inr (RNode l (balanced_as 0 n) r, True)"
      by (simp add: NaClAvlTreeBalanceLeft_def)
    show ?thesis by (rule shrunk [OF eq]) (use assms(1-4) 1 in simp_all)
  next
    case 2
    then have eq: "NaClAvlTreeBalanceLeft l n r = Inr (RNode l (balanced_as 1 n) r, False)"
      by (simp add: NaClAvlTreeBalanceLeft_def)
    show ?thesis by (rule shrunk [OF eq]) (use assms(1-4) 2 in simp_all)
  qed
next
  case b: True
  then obtain c nd e where r: "r = RNode c nd e"
    using assms(4) height_nonneg [of l] by (cases r) auto
  show ?thesis
  proof (cases "n_balance nd \<ge> 0")
    case True
    then show ?thesis using assms b r by (auto simp: NaClAvlTreeBalanceLeft_def)
  next
    case False
    then have hc: "height c = height e + 1" and hl: "height l = height e" using assms b r by auto
    obtain cl nt cr where c: "c = RNode cl nt cr" using hc height_nonneg [of e] by (cases c) auto
    have mx: "max (height cl) (height cr) = height e" using hc c by simp
    have p: "avl e" "avl cl" "avl cr" "n_balance nt = height cr - height cl" "- 1 \<le> n_balance nt"
      "n_balance nt \<le> 1" using assms(2) r c by simp_all
    note dr = double_rotation [OF assms(1) p(2,3,1) hl refl mx p(4-6) refl refl, of n nd]
    have mh: "1 + max (height l + 1) (height r) = height e + 3" using r hc hl by simp
    have eq: "NaClAvlTreeBalanceLeft l n r = Inr (NaClRangeStatsUpdate
        (NaClRangeStatsUpdate l (balanced_as (if n_balance nt \<le> 0 then 0 else - 1) n) cl) (balanced_as 0 nt)
        (NaClRangeStatsUpdate cr (balanced_as (if n_balance nt \<ge> 0 then 0 else 1) nd) e), True)"
      unfolding NaClAvlTreeBalanceLeft_def double_rotation_delete using b r c False by simp
    show ?thesis unfolding mh
      by (rule shrunk [OF eq dr(1)]) (use assms(3) r c dr(2) in simp_all)
  qed
qed

lemma balance_right_ok:
  assumes "avl l" "avl r" "stats_ok (RNode l n r)" "n_balance n = (height r + 1) - height l"
    "- 1 \<le> n_balance n" "n_balance n \<le> 1"
  shows "\<exists>t h'. NaClAvlTreeBalanceRight l n r = Inr (t, h') \<and> avl t \<and> stats_ok t
    \<and> entries t = entries (RNode l n r)
    \<and> height t = 1 + max (height l) (height r + 1) - (if h' then 1 else 0)"
proof (cases "n_balance n = - 1")
  case False
  then consider "n_balance n = 1" | "n_balance n = 0" using assms(5,6) by linarith
  then show ?thesis
  proof cases
    case 1
    then have eq: "NaClAvlTreeBalanceRight l n r = Inr (RNode l (balanced_as 0 n) r, True)"
      by (simp add: NaClAvlTreeBalanceRight_def)
    show ?thesis by (rule shrunk [OF eq]) (use assms(1-4) 1 in simp_all)
  next
    case 2
    then have eq: "NaClAvlTreeBalanceRight l n r = Inr (RNode l (balanced_as (- 1) n) r, False)"
      by (simp add: NaClAvlTreeBalanceRight_def)
    show ?thesis by (rule shrunk [OF eq]) (use assms(1-4) 2 in simp_all)
  qed
next
  case b: True
  then obtain a nb c where l: "l = RNode a nb c"
    using assms(4) height_nonneg [of r] by (cases l) auto
  show ?thesis
  proof (cases "n_balance nb \<le> 0")
    case True
    then show ?thesis using assms b l by (auto simp: NaClAvlTreeBalanceRight_def)
  next
    case False
    then have hc: "height c = height a + 1" and hr: "height r = height a" using assms b l by auto
    obtain cl nt cr where c: "c = RNode cl nt cr" using hc height_nonneg [of a] by (cases c) auto
    have mx: "max (height cl) (height cr) = height a" using hc c by simp
    have p: "avl a" "avl cl" "avl cr" "n_balance nt = height cr - height cl" "- 1 \<le> n_balance nt"
      "n_balance nt \<le> 1" using assms(1) l c by simp_all
    note dr = double_rotation [OF p(1-3) assms(2) refl hr mx p(4-6) refl refl, of nb n]
    have mh: "1 + max (height l) (height r + 1) = height a + 3" using l hc hr by simp
    have eq: "NaClAvlTreeBalanceRight l n r = Inr (NaClRangeStatsUpdate
        (NaClRangeStatsUpdate a (balanced_as (if n_balance nt \<le> 0 then 0 else - 1) nb) cl) (balanced_as 0 nt)
        (NaClRangeStatsUpdate cr (balanced_as (if n_balance nt \<ge> 0 then 0 else 1) n) r), True)"
      unfolding NaClAvlTreeBalanceRight_def double_rotation_delete using b l c False by simp
    show ?thesis unfolding mh
      by (rule shrunk [OF eq dr(1)]) (use assms(3) l c dr(2) in simp_all)
  qed
qed

lemma shrunk_left_ok:
  assumes "avl l" "avl r" "stats_ok l" "stats_ok r"
    "n_balance n = height r - (height l + (if h then 1 else 0))" "- 1 \<le> n_balance n" "n_balance n \<le> 1"
  shows "\<exists>t h'. shrunk_left l n r h = Inr (t, h') \<and> avl t \<and> stats_ok t
    \<and> entries t = entries (RNode l n r)
    \<and> height t = 1 + max (height l + (if h then 1 else 0)) (height r) - (if h' then 1 else 0)"
proof (cases h)
  case False
  then show ?thesis using assms by (simp add: shrunk_left_def NaClRangeStatsUpdate_def ex_bool_eq)
next
  case True
  let ?n = "n\<lparr>n_range_left := (case l of RLeaf \<Rightarrow> n_value n | RNode _ m _ \<Rightarrow> n_range_left m),
      n_range_right := (case r of RLeaf \<Rightarrow> n_value n | RNode _ m _ \<Rightarrow> n_range_right m),
      n_subtree_delta := n_delta n + subtree_delta l + subtree_delta r\<rparr>"
  have "shrunk_left l n r h = NaClAvlTreeBalanceLeft l ?n r"
    using True by (simp add: shrunk_left_def NaClRangeStatsUpdate_def)
  then show ?thesis using balance_left_ok [of l r ?n] assms True by simp
qed

lemma shrunk_right_ok:
  assumes "avl l" "avl r" "stats_ok l" "stats_ok r"
    "n_balance n = (height r + (if h then 1 else 0)) - height l" "- 1 \<le> n_balance n" "n_balance n \<le> 1"
  shows "\<exists>t h'. shrunk_right l n r h = Inr (t, h') \<and> avl t \<and> stats_ok t
    \<and> entries t = entries (RNode l n r)
    \<and> height t = 1 + max (height l) (height r + (if h then 1 else 0)) - (if h' then 1 else 0)"
proof (cases h)
  case False
  then show ?thesis using assms by (simp add: shrunk_right_def NaClRangeStatsUpdate_def ex_bool_eq)
next
  case True
  let ?n = "n\<lparr>n_range_left := (case l of RLeaf \<Rightarrow> n_value n | RNode _ m _ \<Rightarrow> n_range_left m),
      n_range_right := (case r of RLeaf \<Rightarrow> n_value n | RNode _ m _ \<Rightarrow> n_range_right m),
      n_subtree_delta := n_delta n + subtree_delta l + subtree_delta r\<rparr>"
  have "shrunk_right l n r h = NaClAvlTreeBalanceRight l ?n r"
    using True by (simp add: shrunk_right_def NaClRangeStatsUpdate_def)
  then show ?thesis using balance_right_ok [of l r ?n] assms True by simp
qed

end
