(* ===== verification/IntervalTreeSpec.thy ===== *)
theory IntervalTreeSpec
  imports IntervalTree
begin

text \<open>
  Correctness of the range tree: insertion and extraction act on the sorted list of end points,
  the search computes the number of intervals open at a value, and the tree implements the
  interface \<open>interval_multiset\<close>.
\<close>

section \<open>Sorted lists of end points\<close>

definition keys :: "(u32 \<times> u32 \<times> u32) list \<Rightarrow> u32 set" where
  "keys xs = fst ` set xs"

definition sorted_keys :: "(u32 \<times> u32 \<times> u32) list \<Rightarrow> bool" where
  "sorted_keys xs \<longleftrightarrow> sorted_wrt (<) (map fst xs)"

fun ins_list :: "u32 \<Rightarrow> u32 \<Rightarrow> (u32 \<times> u32 \<times> u32) list \<Rightarrow> (u32 \<times> u32 \<times> u32) list" where
  "ins_list v d [] = [(v, 1, d)]"
| "ins_list v d ((w, c, e) # xs) =
     (if v = w then (w, c + 1, e + d) # xs
      else if v < w then (v, 1, d) # (w, c, e) # xs
      else (w, c, e) # ins_list v d xs)"

fun del_list :: "u32 \<Rightarrow> u32 \<Rightarrow> (u32 \<times> u32 \<times> u32) list \<Rightarrow> (u32 \<times> u32 \<times> u32) list" where
  "del_list v d [] = []"
| "del_list v d ((w, c, e) # xs) =
     (if v = w then (if c - 1 \<noteq> 0 then (w, c - 1, e - d) # xs else xs)
      else (w, c, e) # del_list v d xs)"

lemma keys_simps [simp]:
  "keys [] = {}" "keys (x # xs) = insert (fst x) (keys xs)" "keys (xs @ ys) = keys xs \<union> keys ys"
  by (auto simp: keys_def)

lemma sorted_keys_simps [simp]:
  "sorted_keys []"
  "sorted_keys (x # xs) = ((\<forall>k \<in> keys xs. fst x < k) \<and> sorted_keys xs)"
  "sorted_keys (xs @ ys) = (sorted_keys xs \<and> sorted_keys ys \<and> (\<forall>k \<in> keys xs. \<forall>j \<in> keys ys. k < j))"
  by (auto simp: sorted_keys_def keys_def sorted_wrt_append)

lemma ins_left: "v < w \<Longrightarrow> ins_list v d (xs @ (w, c, e) # ys) = ins_list v d xs @ (w, c, e) # ys"
  by (induction v d xs rule: ins_list.induct) auto

lemma ins_right: "w \<le> v \<Longrightarrow> \<forall>k \<in> keys xs. k < w
    \<Longrightarrow> ins_list v d (xs @ (w, c, e) # ys) = xs @ ins_list v d ((w, c, e) # ys)"
  by (induction v d xs rule: ins_list.induct) auto

lemma del_right: "v \<notin> keys xs \<Longrightarrow> del_list v d (xs @ ys) = xs @ del_list v d ys"
  by (induction v d xs rule: del_list.induct) auto

lemma del_left: "v \<in> keys xs \<Longrightarrow> del_list v d (xs @ ys) = del_list v d xs @ ys"
  by (induction v d xs rule: del_list.induct) auto

lemma keys_ins [simp]: "keys (ins_list v d xs) = insert v (keys xs)"
  by (induction v d xs rule: ins_list.induct) auto

lemma keys_del: "keys (del_list v d xs) \<subseteq> keys xs"
  by (induction v d xs rule: del_list.induct) auto

lemma sorted_ins: "sorted_keys xs \<Longrightarrow> sorted_keys (ins_list v d xs)"
  by (induction v d xs rule: ins_list.induct) (auto dest: order_less_trans)

lemma sorted_del: "sorted_keys xs \<Longrightarrow> sorted_keys (del_list v d xs)"
proof (induction v d xs rule: del_list.induct)
  case (2 v d w c e xs)
  then show ?case using keys_del [of v d xs] by auto
qed simp

lemma map_of_keys: "map_of xs v = None \<longleftrightarrow> v \<notin> keys xs"
  by (simp add: keys_def map_of_eq_None_iff)

lemma map_of_ins:
  "sorted_keys xs \<Longrightarrow> map_of (ins_list v d xs) =
     (map_of xs)(v \<mapsto> (case map_of xs v of None \<Rightarrow> (1, d) | Some (c, e) \<Rightarrow> (c + 1, e + d)))"
proof (induction v d xs rule: ins_list.induct)
  case (2 v d w c e xs)
  have "v < w \<Longrightarrow> map_of xs v = None" using 2(2) by (auto simp: map_of_keys)
  then show ?case using 2 by (auto simp: fun_eq_iff)
qed simp

lemma map_of_del:
  "sorted_keys xs \<Longrightarrow> map_of xs v = Some (c, e)
    \<Longrightarrow> map_of (del_list v d xs) = (map_of xs)(v := (if c - 1 \<noteq> 0 then Some (c - 1, e - d) else None))"
proof (induction v d xs rule: del_list.induct)
  case (2 v d w c' e' xs)
  have "v = w \<Longrightarrow> map_of xs v = None" using 2(2) by (auto simp: map_of_keys)
  then show ?case using 2 by (auto simp: fun_eq_iff)
qed simp

section \<open>Insertion\<close>

definition grown_root :: "rtree \<Rightarrow> bool" where
  "grown_root t \<longleftrightarrow> (\<exists>a m c. t = RNode a m c \<and> (n_balance m \<noteq> 0 \<or> (a = RLeaf \<and> c = RLeaf)))"

lemma grown_rootI: "\<exists>a m c. t = RNode a m c \<and> n_balance m \<noteq> 0 \<Longrightarrow> grown_root t"
  by (auto simp: grown_root_def)

lemma init_simps [simp]:
  "n_value (NaClIntervalRangeTreeNodeInit v d) = v" "n_delta (NaClIntervalRangeTreeNodeInit v d) = d"
  "n_refcount (NaClIntervalRangeTreeNodeInit v d) = 1" "n_balance (NaClIntervalRangeTreeNodeInit v d) = 0"
  "n_subtree_delta (NaClIntervalRangeTreeNodeInit v d) = d"
  by (simp_all add: NaClIntervalRangeTreeNodeInit_def)

lemma Insert_ok:
  "avl t \<Longrightarrow> stats_ok t \<Longrightarrow> sorted_keys (entries t) \<Longrightarrow>
    \<exists>t' h. NaClAvlTreeInsert t (NaClIntervalRangeTreeNodeInit v d) = Inr (t', h) \<and> avl t' \<and> stats_ok t'
      \<and> entries t' = ins_list v d (entries t) \<and> height t' = height t + (if h then 1 else 0)
      \<and> (h \<longrightarrow> grown_root t')"
proof (induction t)
  case RLeaf
  then show ?case by (simp add: grown_root_def ex_bool_eq)
next
  case (RNode l n r)
  have av: "avl l" "avl r" "stats_ok l" "stats_ok r" "n_balance n = height r - height l"
    "- 1 \<le> n_balance n" "n_balance n \<le> 1" using RNode.prems by simp_all
  have so: "sorted_keys (entries l)" "sorted_keys (entries r)" "\<forall>k \<in> keys (entries l). k < n_value n"
    using RNode.prems by simp_all
  consider "v = n_value n" | "v < n_value n" | "v > n_value n" by fastforce
  then show ?case
  proof cases
    case 1
    have "subtree_delta (RNode l n r) = n_delta n + subtree_delta l + subtree_delta r" using RNode.prems by simp
    then show ?thesis using 1 av so by (simp add: ins_right ex_bool_eq algebra_simps)
  next
    case 2
    obtain l1 h where i: "NaClAvlTreeInsert l (NaClIntervalRangeTreeNodeInit v d) = Inr (l1, h)" "avl l1" "stats_ok l1"
      "entries l1 = ins_list v d (entries l)" "height l1 = height l + (if h then 1 else 0)" "h \<longrightarrow> grown_root l1"
      using RNode.IH(1) av so by blast
    have hb: "n_balance n = height r - (if h then height l1 - 1 else height l1)"
      "(if h then height l1 - 1 else height l1) = height l" using i(5) av(5) by auto
    obtain t h' where t: "insert_left l1 n r h = Inr (t, h')" "avl t" "stats_ok t" "entries t = entries (RNode l1 n r)"
      "height t = 1 + max (height l) (height r) + (if h' then 1 else 0)"
      "h' \<longrightarrow> (\<exists>a m c. t = RNode a m c \<and> n_balance m \<noteq> 0)"
      using insert_left_ok [OF i(2) av(2) i(3) av(4) hb(1) av(6,7)] i(6) unfolding hb(2) grown_root_def by blast
    have eq: "NaClAvlTreeInsert (RNode l n r) (NaClIntervalRangeTreeNodeInit v d) = Inr (t, h')"
      using 2 i(1) t(1) by auto
    have en: "entries t = ins_list v d (entries (RNode l n r))" using t(4) i(4) 2 by (simp add: ins_left)
    have hh: "height t = height (RNode l n r) + (if h' then 1 else 0)" using t(5) by simp
    show ?thesis using eq t(2,3) en hh t(6) grown_rootI by blast
  next
    case 3
    then have v3: "\<not> v < n_value n" "v \<noteq> n_value n" "n_value n \<le> v" by auto
    obtain r1 h where i: "NaClAvlTreeInsert r (NaClIntervalRangeTreeNodeInit v d) = Inr (r1, h)" "avl r1" "stats_ok r1"
      "entries r1 = ins_list v d (entries r)" "height r1 = height r + (if h then 1 else 0)" "h \<longrightarrow> grown_root r1"
      using RNode.IH(2) av so by blast
    have hb: "n_balance n = (if h then height r1 - 1 else height r1) - height l"
      "(if h then height r1 - 1 else height r1) = height r" using i(5) av(5) by auto
    obtain t h' where t: "insert_right l n r1 h = Inr (t, h')" "avl t" "stats_ok t" "entries t = entries (RNode l n r1)"
      "height t = 1 + max (height l) (height r) + (if h' then 1 else 0)"
      "h' \<longrightarrow> (\<exists>a m c. t = RNode a m c \<and> n_balance m \<noteq> 0)"
      using insert_right_ok [OF av(1) i(2) av(3) i(3) hb(1) av(6,7)] i(6) unfolding hb(2) grown_root_def by blast
    have eq: "NaClAvlTreeInsert (RNode l n r) (NaClIntervalRangeTreeNodeInit v d) = Inr (t, h')"
      using 3 i(1) t(1) by auto
    have en: "entries t = ins_list v d (entries (RNode l n r))" using t(4) i(4) v3 so(3) by (simp add: ins_right)
    have hh: "height t = height (RNode l n r) + (if h' then 1 else 0)" using t(5) by simp
    show ?thesis using eq t(2,3) en hh t(6) grown_rootI by blast
  qed
qed

section \<open>Extraction\<close>

definition entry :: "rnode \<Rightarrow> u32 \<times> u32 \<times> u32" where
  "entry n = (n_value n, n_refcount n, n_delta n)"

lemma FindRightMost_ok:
  "avl t \<Longrightarrow> stats_ok t \<Longrightarrow> t \<noteq> RLeaf \<Longrightarrow>
    \<exists>n t' h. NaClAvlFindRightMost t = Inr (n, t', h) \<and> avl t' \<and> stats_ok t'
      \<and> entries t = entries t' @ [entry n] \<and> height t' = height t - (if h then 1 else 0)"
proof (induction t)
  case (RNode l n r)
  have av: "avl l" "avl r" "stats_ok l" "stats_ok r" "n_balance n = height r - height l"
    "- 1 \<le> n_balance n" "n_balance n \<le> 1" using RNode.prems by simp_all
  show ?case
  proof (cases "r = RLeaf")
    case True
    then show ?thesis using av by (simp add: entry_def ex_bool_eq)
  next
    case False
    obtain m r1 h where i: "NaClAvlFindRightMost r = Inr (m, r1, h)" "avl r1" "stats_ok r1"
      "entries r = entries r1 @ [entry m]" "height r1 = height r - (if h then 1 else 0)"
      using RNode.IH(2) [OF av(2,4) False] by blast
    have hb: "n_balance n = height r1 + (if h then 1 else 0) - height l"
      "height r1 + (if h then 1 else 0) = height r" using i(5) av(5) by auto
    obtain t h' where t: "shrunk_right l n r1 h = Inr (t, h')" "avl t" "stats_ok t" "entries t = entries (RNode l n r1)"
      "height t = 1 + max (height l) (height r) - (if h' then 1 else 0)"
      using shrunk_right_ok [OF av(1) i(2) av(3) i(3) hb(1) av(6,7)] unfolding hb(2) by blast
    have eq: "NaClAvlFindRightMost (RNode l n r) = Inr (m, t, h')" using False i(1) t(1) by simp
    show ?thesis using eq t(2-5) i(4) by simp
  qed
qed simp

lemma FindLeftMost_ok:
  "avl t \<Longrightarrow> stats_ok t \<Longrightarrow> t \<noteq> RLeaf \<Longrightarrow>
    \<exists>n t' h. NaClAvlFindLeftMost t = Inr (n, t', h) \<and> avl t' \<and> stats_ok t'
      \<and> entries t = entry n # entries t' \<and> height t' = height t - (if h then 1 else 0)"
proof (induction t)
  case (RNode l n r)
  have av: "avl l" "avl r" "stats_ok l" "stats_ok r" "n_balance n = height r - height l"
    "- 1 \<le> n_balance n" "n_balance n \<le> 1" using RNode.prems by simp_all
  show ?case
  proof (cases "l = RLeaf")
    case True
    then show ?thesis using av by (simp add: entry_def ex_bool_eq)
  next
    case False
    obtain m l1 h where i: "NaClAvlFindLeftMost l = Inr (m, l1, h)" "avl l1" "stats_ok l1"
      "entries l = entry m # entries l1" "height l1 = height l - (if h then 1 else 0)"
      using RNode.IH(1) [OF av(1,3) False] by blast
    have hb: "n_balance n = height r - (height l1 + (if h then 1 else 0))"
      "height l1 + (if h then 1 else 0) = height l" using i(5) av(5) by auto
    obtain t h' where t: "shrunk_left l1 n r h = Inr (t, h')" "avl t" "stats_ok t" "entries t = entries (RNode l1 n r)"
      "height t = 1 + max (height l) (height r) - (if h' then 1 else 0)"
      using shrunk_left_ok [OF i(2) av(2) i(3) av(4) hb(1) av(6,7)] unfolding hb(2) by blast
    have eq: "NaClAvlFindLeftMost (RNode l n r) = Inr (m, t, h')" using False i(1) t(1) by simp
    show ?thesis using eq t(2-5) i(4) by simp
  qed
qed simp

text \<open>The node is found and its last reference dropped: one subtree replaces it.\<close>

lemma Extract_root:
  assumes av: "avl l" "avl r" "stats_ok l" "stats_ok r" "n_balance n = height r - height l"
    "- 1 \<le> n_balance n" "n_balance n \<le> 1"
    and "n_value key = n_value n" "n_refcount n = 1"
  shows "\<exists>t' h. NaClAvlTreeExtract (RNode l n r) key = Inr (t', h) \<and> avl t' \<and> stats_ok t'
      \<and> entries t' = entries l @ entries r \<and> height t' = height (RNode l n r) - (if h then 1 else 0)"
proof -
  consider "r = RLeaf" | "r \<noteq> RLeaf" "l = RLeaf" | "r \<noteq> RLeaf" "l \<noteq> RLeaf" "n_balance n \<le> 0"
    | "r \<noteq> RLeaf" "l \<noteq> RLeaf" "\<not> n_balance n \<le> 0" by blast
  then show ?thesis
  proof cases
    case 1
    then show ?thesis using assms by (simp add: ex_bool_eq)
  next
    case 2
    then show ?thesis using assms by (simp add: ex_bool_eq)
  next
    case 3
    obtain m l1 h where i: "NaClAvlFindRightMost l = Inr (m, l1, h)" "avl l1" "stats_ok l1"
      "entries l = entries l1 @ [entry m]" "height l1 = height l - (if h then 1 else 0)"
      using FindRightMost_ok [OF av(1,3) 3(2)] by blast
    have hb: "n_balance (balanced_as (n_balance n) m) = height r - (height l1 + (if h then 1 else 0))"
      "height l1 + (if h then 1 else 0) = height l"
      "- 1 \<le> n_balance (balanced_as (n_balance n) m)" "n_balance (balanced_as (n_balance n) m) \<le> 1"
      using i(5) av(5-7) by auto
    obtain t h' where t: "shrunk_left l1 (balanced_as (n_balance n) m) r h = Inr (t, h')" "avl t" "stats_ok t"
      "entries t = entries (RNode l1 (balanced_as (n_balance n) m) r)"
      "height t = 1 + max (height l) (height r) - (if h' then 1 else 0)"
      using shrunk_left_ok [OF i(2) av(2) i(3) av(4) hb(1,3,4)] unfolding hb(2) by blast
    have eq: "NaClAvlTreeExtract (RNode l n r) key = Inr (t, h')" using 3 i(1) t(1) assms(8,9) by simp
    show ?thesis using eq t(2-5) i(4) by (simp add: entry_def)
  next
    case 4
    obtain m r1 h where i: "NaClAvlFindLeftMost r = Inr (m, r1, h)" "avl r1" "stats_ok r1"
      "entries r = entry m # entries r1" "height r1 = height r - (if h then 1 else 0)"
      using FindLeftMost_ok [OF av(2,4) 4(1)] by blast
    have hb: "n_balance (balanced_as (n_balance n) m) = height r1 + (if h then 1 else 0) - height l"
      "height r1 + (if h then 1 else 0) = height r"
      "- 1 \<le> n_balance (balanced_as (n_balance n) m)" "n_balance (balanced_as (n_balance n) m) \<le> 1"
      using i(5) av(5-7) by auto
    obtain t h' where t: "shrunk_right l (balanced_as (n_balance n) m) r1 h = Inr (t, h')" "avl t" "stats_ok t"
      "entries t = entries (RNode l (balanced_as (n_balance n) m) r1)"
      "height t = 1 + max (height l) (height r) - (if h' then 1 else 0)"
      using shrunk_right_ok [OF av(1) i(2) av(3) i(3) hb(1,3,4)] unfolding hb(2) by blast
    have eq: "NaClAvlTreeExtract (RNode l n r) key = Inr (t, h')" using 4 i(1) t(1) assms(8,9) by simp
    show ?thesis using eq t(2-5) i(4) by (simp add: entry_def)
  qed
qed

lemma Extract_ok:
  "avl t \<Longrightarrow> stats_ok t \<Longrightarrow> sorted_keys (entries t) \<Longrightarrow> v \<in> keys (entries t) \<Longrightarrow>
    \<exists>t' h. NaClAvlTreeExtract t (NaClIntervalRangeTreeNodeInit v d) = Inr (t', h) \<and> avl t' \<and> stats_ok t'
      \<and> entries t' = del_list v d (entries t) \<and> height t' = height t - (if h then 1 else 0)"
proof (induction t)
  case (RNode l n r)
  have av: "avl l" "avl r" "stats_ok l" "stats_ok r" "n_balance n = height r - height l"
    "- 1 \<le> n_balance n" "n_balance n \<le> 1" using RNode.prems by simp_all
  have so: "sorted_keys (entries l)" "sorted_keys (entries r)" "\<forall>k \<in> keys (entries l). k < n_value n"
    "\<forall>k \<in> keys (entries r). n_value n < k" using RNode.prems by simp_all
  have nv: "n_value n \<notin> keys (entries l)" using so(3) by auto
  consider "v = n_value n" "n_refcount n = 1" | "v = n_value n" "n_refcount n \<noteq> 1"
    | "v < n_value n" | "v > n_value n" by fastforce
  then show ?case
  proof cases
    case 1
    then have "del_list v d (entries (RNode l n r)) = entries l @ entries r" using nv by (simp add: del_right)
    then show ?thesis using Extract_root [OF av, of "NaClIntervalRangeTreeNodeInit v d"] 1 by simp
  next
    case 2
    have "subtree_delta (RNode l n r) = n_delta n + subtree_delta l + subtree_delta r" using RNode.prems by simp
    then show ?thesis using 2 av nv by (simp add: del_right ex_bool_eq)
  next
    case 3
    then have vl: "v \<in> keys (entries l)" using RNode.prems(4) so(4) by (auto dest: order_less_trans)
    obtain l1 h where i: "NaClAvlTreeExtract l (NaClIntervalRangeTreeNodeInit v d) = Inr (l1, h)" "avl l1" "stats_ok l1"
      "entries l1 = del_list v d (entries l)" "height l1 = height l - (if h then 1 else 0)"
      using RNode.IH(1) av so vl by blast
    have hb: "n_balance n = height r - (height l1 + (if h then 1 else 0))"
      "height l1 + (if h then 1 else 0) = height l" using i(5) av(5) by auto
    obtain t h' where t: "shrunk_left l1 n r h = Inr (t, h')" "avl t" "stats_ok t" "entries t = entries (RNode l1 n r)"
      "height t = 1 + max (height l) (height r) - (if h' then 1 else 0)"
      using shrunk_left_ok [OF i(2) av(2) i(3) av(4) hb(1) av(6,7)] unfolding hb(2) by blast
    have eq: "NaClAvlTreeExtract (RNode l n r) (NaClIntervalRangeTreeNodeInit v d) = Inr (t, h')"
      using 3 i(1) t(1) by simp
    show ?thesis using eq t(2-5) i(4) vl by (simp add: del_left)
  next
    case 4
    have v4: "v \<noteq> n_value n" using 4 by auto
    have vr: "v \<in> keys (entries r)" "v \<notin> keys (entries l)" using 4 RNode.prems(4) so(3) by (auto dest: order_less_trans)
    obtain r1 h where i: "NaClAvlTreeExtract r (NaClIntervalRangeTreeNodeInit v d) = Inr (r1, h)" "avl r1" "stats_ok r1"
      "entries r1 = del_list v d (entries r)" "height r1 = height r - (if h then 1 else 0)"
      using RNode.IH(2) av so vr(1) by blast
    have hb: "n_balance n = height r1 + (if h then 1 else 0) - height l"
      "height r1 + (if h then 1 else 0) = height r" using i(5) av(5) by auto
    obtain t h' where t: "shrunk_right l n r1 h = Inr (t, h')" "avl t" "stats_ok t" "entries t = entries (RNode l n r1)"
      "height t = 1 + max (height l) (height r) - (if h' then 1 else 0)"
      using shrunk_right_ok [OF av(1) i(2) av(3) i(3) hb(1) av(6,7)] unfolding hb(2) by blast
    have eq: "NaClAvlTreeExtract (RNode l n r) (NaClIntervalRangeTreeNodeInit v d) = Inr (t, h')"
      using 4 i(1) t(1) by (simp add: order_less_not_sym)
    show ?thesis using eq t(2-5) i(4) vr v4 by (simp add: del_right)
  qed
qed simp

section \<open>Search\<close>

definition delta_below :: "u32 \<Rightarrow> (u32 \<times> u32 \<times> u32) list \<Rightarrow> u32" where
  "delta_below v xs = sum_list (map (\<lambda>(k, c, d). d) (filter (\<lambda>x. fst x < v) xs))"

definition gap_below :: "u32 \<Rightarrow> u32 \<Rightarrow> (u32 \<times> u32 \<times> u32) list \<Rightarrow> u32" where
  "gap_below lr v xs = foldl (\<lambda>g x. if fst x < v then fst x + 1 else g) lr xs"

lemma delta_below_simps [simp]:
  "delta_below v [] = 0"
  "delta_below v ((k, c, d) # xs) = (if k < v then d else 0) + delta_below v xs"
  "delta_below v (xs @ ys) = delta_below v xs + delta_below v ys"
  by (simp_all add: delta_below_def)

lemma gap_below_simps [simp]:
  "gap_below lr v [] = lr"
  "gap_below lr v (x # xs) = gap_below (if fst x < v then fst x + 1 else lr) v xs"
  "gap_below lr v (xs @ ys) = gap_below (gap_below lr v xs) v ys"
  by (simp_all add: gap_below_def)

lemma subtree_delta_sum:
  "stats_ok t \<Longrightarrow> \<forall>k \<in> keys (entries t). k < v \<Longrightarrow> delta_below v (entries t) = subtree_delta t"
  by (induction t) simp_all

lemma delta_above: "\<forall>k \<in> keys xs. v \<le> k \<Longrightarrow> delta_below v xs = 0"
  by (induction xs) auto

lemma gap_above: "\<forall>k \<in> keys xs. v \<le> k \<Longrightarrow> gap_below lr v xs = lr"
  by (induction xs) auto

lemma FindValue_absent:
  "stats_ok t \<Longrightarrow> sorted_keys (entries t) \<Longrightarrow> v \<notin> keys (entries t) \<Longrightarrow>
    NaClAvlTreeFindValue t ld lr v = (ld + delta_below v (entries t), Some (gap_below lr v (entries t)))"
proof (induction t arbitrary: ld lr)
  case (RNode l n r)
  have so: "sorted_keys (entries l)" "sorted_keys (entries r)" "\<forall>k \<in> keys (entries l). k < n_value n"
    "\<forall>k \<in> keys (entries r). n_value n < k" "v \<noteq> n_value n" using RNode.prems by auto
  show ?case
  proof (cases "v < n_value n")
    case True
    then have "\<forall>k \<in> keys (entries r). v \<le> k" using so(4) by (meson order_less_imp_le order_less_trans)
    then show ?thesis using True RNode.IH(1) RNode.prems by (simp add: delta_above gap_above order_less_not_sym)
  next
    case False
    then have "\<forall>k \<in> keys (entries l). k < v" "n_value n < v" using so(3,5) by fastforce+
    then show ?thesis using False RNode.IH(2) RNode.prems by (simp add: subtree_delta_sum so(5) algebra_simps)
  qed
qed simp

lemma FindValue_present:
  "sorted_keys (entries t) \<Longrightarrow> v \<in> keys (entries t) \<Longrightarrow> fst (NaClAvlTreeFindValue t ld lr v) \<noteq> 0"
proof (induction t arbitrary: ld lr)
  case (RNode l n r)
  consider "v = n_value n" | "v < n_value n" "v \<in> keys (entries l)" | "v > n_value n" "v \<in> keys (entries r)"
    using RNode.prems by (auto dest: order_less_trans)
  then show ?case using RNode by cases (auto simp: Let_def order_less_not_sym)
qed simp

section \<open>The multiset a tree represents\<close>

text \<open>The node of an end point, from the multisets of starts and of ends.\<close>

definition node_of :: "nat \<Rightarrow> nat \<Rightarrow> (u32 \<times> u32) option" where
  "node_of s e = (if s + e = 0 then None else Some (of_nat (s + e), of_nat s - of_nat e))"

definition point :: "u32 multiset \<Rightarrow> u32 multiset \<Rightarrow> u32 \<Rightarrow> (u32 \<times> u32) option" where
  "point S E v = node_of (count S v) (count E v)"

definition tree_inv :: "rtree \<Rightarrow> u32 multiset \<Rightarrow> u32 multiset \<Rightarrow> bool" where
  "tree_inv t S E \<longleftrightarrow> avl t \<and> stats_ok t \<and> sorted_keys (entries t) \<and> map_of (entries t) = point S E
     \<and> size S + size E < 2 ^ 32"

definition tree_holds :: "rtree \<Rightarrow> interval multiset \<Rightarrow> bool" where
  "tree_holds t M \<longleftrightarrow> tree_inv t (image_mset fst M) (image_mset snd M)
     \<and> (\<forall>x \<in># M. proper x) \<and> size M < im_max"

lemma tree_keys: "tree_inv t S E \<Longrightarrow> v \<in> keys (entries t) \<longleftrightarrow> v \<in># S \<or> v \<in># E"
  using map_of_keys [of "entries t" v] by (auto simp: tree_inv_def point_def node_of_def count_eq_zero_iff split: if_splits)

lemma node_of_add:
  "(case node_of s e of None \<Rightarrow> (1, 1) | Some (c, d) \<Rightarrow> (c + 1, d + 1)) = the (node_of (Suc s) e)"
  "(case node_of s e of None \<Rightarrow> (1, - 1) | Some (c, d) \<Rightarrow> (c + 1, d + - 1)) = the (node_of s (Suc e))"
  "Some (the (node_of (Suc s) e)) = node_of (Suc s) e" "Some (the (node_of s (Suc e))) = node_of s (Suc e)"
  by (simp_all add: node_of_def)

lemma point_add:
  "(point S E)(v \<mapsto> (case point S E v of None \<Rightarrow> (1, 1) | Some (c, e) \<Rightarrow> (c + 1, e + 1))) = point (add_mset v S) E"
  "(point S E)(v \<mapsto> (case point S E v of None \<Rightarrow> (1, - 1) | Some (c, e) \<Rightarrow> (c + 1, e + - 1))) = point S (add_mset v E)"
  unfolding point_def node_of_add(1,2) by (simp_all add: fun_eq_iff node_of_add(3,4))

lemma Insert_inv:
  assumes "tree_inv t S E" "size S + size E + 1 < 2 ^ 32"
  shows "\<exists>t' h. NaClAvlTreeInsert t (NaClIntervalRangeTreeNodeInit v 1) = Inr (t', h) \<and> tree_inv t' (add_mset v S) E"
    "\<exists>t' h. NaClAvlTreeInsert t (NaClIntervalRangeTreeNodeInit v (- 1)) = Inr (t', h) \<and> tree_inv t' S (add_mset v E)"
proof -
  have so: "avl t" "stats_ok t" "sorted_keys (entries t)" "map_of (entries t) = point S E"
    using assms(1) by (simp_all add: tree_inv_def)
  have m: "map_of (ins_list v 1 (entries t)) = point (add_mset v S) E"
    "map_of (ins_list v (- 1) (entries t)) = point S (add_mset v E)"
    using map_of_ins [OF so(3), of v 1] map_of_ins [OF so(3), of v "- 1"]
    unfolding so(4) point_add by simp_all
  show "\<exists>t' h. NaClAvlTreeInsert t (NaClIntervalRangeTreeNodeInit v 1) = Inr (t', h) \<and> tree_inv t' (add_mset v S) E"
    using Insert_ok [OF so(1-3), of v 1] m(1) sorted_ins [OF so(3)] assms(2) by (auto simp: tree_inv_def)
  show "\<exists>t' h. NaClAvlTreeInsert t (NaClIntervalRangeTreeNodeInit v (- 1)) = Inr (t', h) \<and> tree_inv t' S (add_mset v E)"
    using Insert_ok [OF so(1-3), of v "- 1"] m(2) sorted_ins [OF so(3)] assms(2) by (auto simp: tree_inv_def)
qed

lemma of_nat_one_u32:
  assumes "n < 2 ^ 32"
  shows "(of_nat n :: u32) = 0 \<longleftrightarrow> n = 0"
proof -
  have "unat (of_nat n :: u32) = n" using assms by (simp add: unat_of_nat)
  then show ?thesis by (metis unat_eq_zero)
qed

lemma node_of_del:
  assumes "s + e < 2 ^ 32"
  shows "\<exists>c d. node_of (Suc s) e = Some (c, d) \<and> (if c - 1 \<noteq> 0 then Some (c - 1, d - 1) else None) = node_of s e"
    "\<exists>c d. node_of s (Suc e) = Some (c, d) \<and> (if c - 1 \<noteq> 0 then Some (c - 1, d - - 1) else None) = node_of s e"
proof -
  have z: "(of_nat s + of_nat e :: u32) = 0 \<longleftrightarrow> s + e = 0"
    using of_nat_one_u32 [OF assms] by (simp only: of_nat_add)
  show "\<exists>c d. node_of (Suc s) e = Some (c, d) \<and> (if c - 1 \<noteq> 0 then Some (c - 1, d - 1) else None) = node_of s e"
    using z by (simp add: node_of_def)
  show "\<exists>c d. node_of s (Suc e) = Some (c, d) \<and> (if c - 1 \<noteq> 0 then Some (c - 1, d - - 1) else None) = node_of s e"
    using z by (simp add: node_of_def)
qed

lemma point_del:
  assumes "size S + size E + 1 < 2 ^ 32"
  shows "\<exists>c e. point (add_mset v S) E v = Some (c, e) \<and>
      (point (add_mset v S) E)(v := (if c - 1 \<noteq> 0 then Some (c - 1, e - 1) else None)) = point S E"
    "\<exists>c e. point S (add_mset v E) v = Some (c, e) \<and>
      (point S (add_mset v E))(v := (if c - 1 \<noteq> 0 then Some (c - 1, e - - 1) else None)) = point S E"
proof -
  have b: "count S v + count E v < 2 ^ 32"
    using count_le_size [of S v] count_le_size [of E v] assms by linarith
  obtain c d where 1: "node_of (Suc (count S v)) (count E v) = Some (c, d)"
    "(if c - 1 \<noteq> 0 then Some (c - 1, d - 1) else None) = node_of (count S v) (count E v)"
    using node_of_del(1) [OF b] by blast
  have "(point (add_mset v S) E)(v := (if c - 1 \<noteq> 0 then Some (c - 1, d - 1) else None)) = point S E"
    unfolding 1(2) by (simp add: point_def fun_eq_iff)
  then show "\<exists>c e. point (add_mset v S) E v = Some (c, e) \<and>
      (point (add_mset v S) E)(v := (if c - 1 \<noteq> 0 then Some (c - 1, e - 1) else None)) = point S E"
    using 1(1) by (intro exI [of _ c] exI [of _ d] conjI) (simp_all add: point_def)
  obtain c' d' where 2: "node_of (count S v) (Suc (count E v)) = Some (c', d')"
    "(if c' - 1 \<noteq> 0 then Some (c' - 1, d' - - 1) else None) = node_of (count S v) (count E v)"
    using node_of_del(2) [OF b] by blast
  have "(point S (add_mset v E))(v := (if c' - 1 \<noteq> 0 then Some (c' - 1, d' - - 1) else None)) = point S E"
    unfolding 2(2) by (simp add: point_def fun_eq_iff)
  then show "\<exists>c e. point S (add_mset v E) v = Some (c, e) \<and>
      (point S (add_mset v E))(v := (if c - 1 \<noteq> 0 then Some (c - 1, e - - 1) else None)) = point S E"
    using 2(1) by (intro exI [of _ c'] exI [of _ d'] conjI) (simp_all add: point_def)
qed

lemma Remove_inv:
  "tree_inv t (add_mset v S) E \<Longrightarrow> \<exists>t'. NaClIntervalRangeTreeRemoveVal t v 1 = Inr t' \<and> tree_inv t' S E"
  "tree_inv t S (add_mset v E) \<Longrightarrow> \<exists>t'. NaClIntervalRangeTreeRemoveVal t v (- 1) = Inr t' \<and> tree_inv t' S E"
proof -
  assume h: "tree_inv t (add_mset v S) E"
  then have so: "avl t" "stats_ok t" "sorted_keys (entries t)" "map_of (entries t) = point (add_mset v S) E"
    "size S + size E + 1 < 2 ^ 32" by (simp_all add: tree_inv_def)
  have k: "v \<in> keys (entries t)" using tree_keys [OF h] by simp
  have "map_of (del_list v 1 (entries t)) = point S E"
    using point_del(1) [OF so(5), of v] map_of_del [OF so(3), of v] unfolding so(4) by metis
  then show "\<exists>t'. NaClIntervalRangeTreeRemoveVal t v 1 = Inr t' \<and> tree_inv t' S E"
    using Extract_ok [OF so(1-3) k, of 1] sorted_del [OF so(3)] so(5)
    by (auto simp: tree_inv_def NaClIntervalRangeTreeRemoveVal_def)
next
  assume h: "tree_inv t S (add_mset v E)"
  then have so: "avl t" "stats_ok t" "sorted_keys (entries t)" "map_of (entries t) = point S (add_mset v E)"
    "size S + size E + 1 < 2 ^ 32" by (simp_all add: tree_inv_def)
  have k: "v \<in> keys (entries t)" using tree_keys [OF h] by simp
  have "map_of (del_list v (- 1) (entries t)) = point S E"
    using point_del(2) [OF so(5), of v] map_of_del [OF so(3), of v] unfolding so(4) by metis
  then show "\<exists>t'. NaClIntervalRangeTreeRemoveVal t v (- 1) = Inr t' \<and> tree_inv t' S E"
    using Extract_ok [OF so(1-3) k, of "- 1"] sorted_del [OF so(3)] so(5)
    by (auto simp: tree_inv_def NaClIntervalRangeTreeRemoveVal_def)
qed

section \<open>The number of open intervals\<close>

definition delta_at :: "(u32 \<times> u32 \<times> u32) list \<Rightarrow> u32 \<Rightarrow> u32" where
  "delta_at xs w = (case map_of xs w of None \<Rightarrow> 0 | Some (c, d) \<Rightarrow> d)"

lemma sum_u32: "(\<Sum>w \<in> {w. w < v}. if w = x then d else 0) = (if (x :: u32) < v then d else (0 :: u32))"
  by (subst sum.delta) (simp_all only: finite mem_Collect_eq)

lemma delta_below_sum:
  "sorted_keys xs \<Longrightarrow> delta_below v xs = (\<Sum>w \<in> {w. w < v}. delta_at xs w)"
proof (induction xs)
  case (Cons x xs)
  obtain k c d where x: "x = (k, c, d)" by (cases x)
  have "map_of xs k = None" using Cons.prems x by (auto simp: map_of_keys)
  then have "delta_at (x # xs) = (\<lambda>w. (if w = k then d else 0) + delta_at xs w)"
    using x by (auto simp: delta_at_def fun_eq_iff)
  then show ?case using Cons x by (simp add: sum.distrib sum_u32)
qed (simp add: delta_at_def)

lemma count_below:
  "(\<Sum>w \<in> {w. w < v}. of_nat (count S (w :: u32))) = (of_nat (size (filter_mset (\<lambda>w. w < v) S)) :: u32)"
proof (induction S)
  case (add x S)
  have "(\<Sum>w \<in> {w. w < v}. of_nat (count (add_mset x S) w))
      = (\<Sum>w \<in> {w. w < v}. (if w = x then 1 else 0) + (of_nat (count S w) :: u32))"
    by (rule sum.cong) auto
  also have "\<dots> = (if x < v then 1 else 0) + (\<Sum>w \<in> {w. w < v}. of_nat (count S w))"
    by (simp add: sum.distrib sum_u32)
  finally show ?case using add by simp
qed simp

lemma tree_delta:
  assumes "tree_inv t S E"
  shows "delta_below v (entries t) = of_nat (size (filter_mset (\<lambda>w. w < v) S))
     - of_nat (size (filter_mset (\<lambda>w. w < v) E))"
proof -
  have "delta_at (entries t) = (\<lambda>w. of_nat (count S w) - of_nat (count E w))"
    using assms by (simp add: tree_inv_def delta_at_def point_def node_of_def fun_eq_iff)
  then show ?thesis using assms by (simp add: tree_inv_def delta_below_sum sum_subtractf count_below)
qed

lemma open_split:
  assumes "\<forall>x \<in># M. proper x"
  shows "size (filter_mset (\<lambda>w. w < v) (image_mset fst M)) = size (filter_mset (\<lambda>w. w < v) (image_mset snd M))
    + size (filter_mset (\<lambda>x. fst x < v \<and> v \<le> snd x) M)"
  using assms by (induction M) (auto simp: proper_def)

lemma size_filter_0: "size (filter_mset P M) = 0 \<longleftrightarrow> (\<forall>x \<in># M. \<not> P x)"
  by (induction M) auto

text \<open>Away from the end points the search counts the intervals around the value.\<close>

lemma tree_open:
  assumes "tree_holds t M" "v \<notin> keys (entries t)"
  shows "fst (NaClAvlTreeFindValue t 0 0 v) = 0 \<longleftrightarrow> (\<forall>x \<in># M. \<not> (fst x \<le> v \<and> v \<le> snd x))"
proof -
  let ?O = "filter_mset (\<lambda>x. fst x < v \<and> v \<le> snd x) M"
  have inv: "tree_inv t (image_mset fst M) (image_mset snd M)" and pr: "\<forall>x \<in># M. proper x"
    and sz: "size M < im_max" using assms(1) by (simp_all add: tree_holds_def)
  have "fst (NaClAvlTreeFindValue t 0 0 v) = delta_below v (entries t)"
    using FindValue_absent [of t v 0 0] inv assms(2) by (simp add: tree_inv_def)
  also have "\<dots> = of_nat (size ?O)" unfolding tree_delta [OF inv] open_split [OF pr] by simp
  finally have f: "fst (NaClAvlTreeFindValue t 0 0 v) = of_nat (size ?O)" .
  have "size ?O \<le> size M" by (rule size_filter_mset_lesseq)
  also have "\<dots> < 2 ^ 32" using sz by (simp add: im_max_def)
  finally have "size ?O < 2 ^ 32" .
  then have "fst (NaClAvlTreeFindValue t 0 0 v) = 0 \<longleftrightarrow> size ?O = 0" unfolding f by (rule of_nat_one_u32)
  also have "\<dots> \<longleftrightarrow> (\<forall>x \<in># M. \<not> (fst x < v \<and> v \<le> snd x))" by (rule size_filter_0)
  also have "\<dots> \<longleftrightarrow> (\<forall>x \<in># M. \<not> (fst x \<le> v \<and> v \<le> snd x))"
    using tree_keys [OF inv, of v] assms(2) by (metis image_eqI order_le_less set_image_mset)
  finally show ?thesis .
qed

lemma u32_suc: "(k :: u32) < b \<Longrightarrow> k < k + 1 \<and> k + 1 \<le> b"
  by unat_arith

lemma gap_cases: "gap_below lr b xs = lr \<or> (\<exists>k \<in> keys xs. k < b \<and> gap_below lr b xs = k + 1)"
  by (induction xs arbitrary: lr) fastforce+

lemma gap_bound: "lr \<le> b \<Longrightarrow> gap_below lr b xs \<le> b"
  using gap_cases [of lr b xs] u32_suc by auto

lemma gap_exceeds: "sorted_keys xs \<Longrightarrow> k \<in> keys xs \<Longrightarrow> k < b \<Longrightarrow> k < gap_below lr b xs"
proof (induction xs arbitrary: lr)
  case (Cons x xs)
  show ?case
  proof (cases "k = fst x")
    case True
    then have "gap_below lr b (x # xs) = gap_below (k + 1) b xs" using Cons.prems(3) by simp
    moreover have "k < k + 1" using u32_suc Cons.prems(3) by blast
    moreover have "k < j + 1" if j: "j \<in> keys xs" "j < b" for j
      using Cons.prems(1) j True u32_suc [OF j(2)] by (auto intro: order_less_trans)
    ultimately show ?thesis using gap_cases [of "k + 1" b xs] by auto
  next
    case False
    then show ?thesis using Cons by simp
  qed
qed simp

lemma gap_same: "a \<le> b \<Longrightarrow> \<forall>k \<in> keys xs. \<not> (a \<le> k \<and> k < b) \<Longrightarrow> gap_below lr a xs = gap_below lr b xs"
proof (induction xs arbitrary: lr)
  case (Cons x xs)
  have "fst x < a \<longleftrightarrow> fst x < b" using Cons.prems by auto
  then show ?case using Cons by simp
qed simp

lemma gap_eq:
  assumes "sorted_keys xs" "a \<le> b"
  shows "gap_below 0 a xs = gap_below 0 b xs \<longleftrightarrow> (\<forall>k \<in> keys xs. \<not> (a \<le> k \<and> k < b))"
proof
  assume e: "gap_below 0 a xs = gap_below 0 b xs"
  show "\<forall>k \<in> keys xs. \<not> (a \<le> k \<and> k < b)"
    using gap_exceeds [OF assms(1), of _ b 0] gap_bound [of 0 a xs] e by fastforce
qed (rule gap_same [OF assms(2)])

lemma tree_overlaps:
  assumes h: "tree_holds t M" and ab: "a \<le> b"
  shows "NaClIntervalRangeTreeOverlapsWith t a b = (\<exists>x \<in># M. overlaps x (a, b))"
proof -
  have inv: "tree_inv t (image_mset fst M) (image_mset snd M)" and pr: "\<And>x. x \<in># M \<Longrightarrow> fst x \<le> snd x"
    using h by (auto simp: tree_holds_def proper_def)
  have so: "stats_ok t" "sorted_keys (entries t)" using inv by (simp_all add: tree_inv_def)
  have ks: "v \<in> keys (entries t) \<longleftrightarrow> (\<exists>x \<in># M. fst x = v \<or> snd x = v)" for v
    using tree_keys [OF inv, of v] by auto
  have ends_overlap: "\<exists>x \<in># M. overlaps x (a, b)" if k: "k \<in> keys (entries t)" "a \<le> k" "k \<le> b" for k
  proof -
    obtain x where x: "x \<in># M" "fst x = k \<or> snd x = k" using k(1) ks by blast
    then have "overlaps x (a, b)" using pr [OF x(1)] k(2,3) by (auto simp: overlaps_def)
    then show ?thesis using x(1) by blast
  qed
  let ?f = "NaClAvlTreeFindValue t 0 0"
  have ov: "NaClIntervalRangeTreeOverlapsWith t a b \<longleftrightarrow>
      fst (?f a) \<noteq> 0 \<or> fst (?f b) \<noteq> 0 \<or> snd (?f a) \<noteq> snd (?f b)"
    by (simp add: NaClIntervalRangeTreeOverlapsWith_def Let_def split_beta)
  show ?thesis
  proof (cases "a \<in> keys (entries t) \<or> b \<in> keys (entries t)")
    case True
    then have "NaClIntervalRangeTreeOverlapsWith t a b" using FindValue_present [OF so(2)] ov by blast
    moreover have "\<exists>x \<in># M. overlaps x (a, b)" using True ends_overlap ab by blast
    ultimately show ?thesis by simp
  next
    case False
    then have na: "a \<notin> keys (entries t)" "b \<notin> keys (entries t)" by simp_all
    have g: "snd (?f a) = snd (?f b) \<longleftrightarrow> (\<forall>k \<in> keys (entries t). \<not> (a \<le> k \<and> k < b))"
      using FindValue_absent [OF so na(1)] FindValue_absent [OF so na(2)] gap_eq [OF so(2) ab] by simp
    have "NaClIntervalRangeTreeOverlapsWith t a b \<longleftrightarrow>
      (\<exists>x \<in># M. fst x \<le> a \<and> a \<le> snd x) \<or> (\<exists>x \<in># M. fst x \<le> b \<and> b \<le> snd x)
      \<or> (\<exists>k \<in> keys (entries t). a \<le> k \<and> k < b)"
      unfolding ov g using tree_open [OF h na(1)] tree_open [OF h na(2)] by blast
    also have "\<dots> \<longleftrightarrow> (\<exists>x \<in># M. overlaps x (a, b))"
    proof
      assume "(\<exists>x \<in># M. fst x \<le> a \<and> a \<le> snd x) \<or> (\<exists>x \<in># M. fst x \<le> b \<and> b \<le> snd x)
        \<or> (\<exists>k \<in> keys (entries t). a \<le> k \<and> k < b)"
      then show "\<exists>x \<in># M. overlaps x (a, b)"
      proof (elim disjE bexE)
        fix x assume "x \<in># M" "fst x \<le> a \<and> a \<le> snd x"
        then show ?thesis using ab by (intro bexI [of _ x]) (auto simp: overlaps_def)
      next
        fix x assume "x \<in># M" "fst x \<le> b \<and> b \<le> snd x"
        then show ?thesis using ab by (intro bexI [of _ x]) (auto simp: overlaps_def)
      next
        fix k assume "k \<in> keys (entries t)" "a \<le> k \<and> k < b"
        then show ?thesis using ends_overlap [of k] by auto
      qed
    next
      assume "\<exists>x \<in># M. overlaps x (a, b)"
      then obtain x where x: "x \<in># M" "fst x \<le> b" "a \<le> snd x" by (auto simp: overlaps_def)
      show "(\<exists>x \<in># M. fst x \<le> a \<and> a \<le> snd x) \<or> (\<exists>x \<in># M. fst x \<le> b \<and> b \<le> snd x)
        \<or> (\<exists>k \<in> keys (entries t). a \<le> k \<and> k < b)"
      proof (cases "b \<le> snd x")
        case True
        then show ?thesis using x by blast
      next
        case False
        then have "snd x \<in> keys (entries t)" "a \<le> snd x" "snd x < b" using x ks by auto
        then show ?thesis by blast
      qed
    qed
    finally show ?thesis .
  qed
qed

interpretation itree: interval_multiset tree_holds RLeaf NaClIntervalRangeTreeAddInterval
  NaClIntervalRangeTreeRemoveInterval NaClIntervalRangeTreeOverlapsWith
proof
  show "tree_holds RLeaf {#}"
    by (simp add: tree_holds_def tree_inv_def im_max_def point_def node_of_def fun_eq_iff)
next
  fix t M and a b :: u32
  assume h: "tree_holds t M" "a \<le> b" "size M + 1 < im_max"
  then have i: "tree_inv t (image_mset fst M) (image_mset snd M)" by (simp add: tree_holds_def)
  obtain t1 h1 where 1: "NaClAvlTreeInsert t (NaClIntervalRangeTreeNodeInit a 1) = Inr (t1, h1)"
    "tree_inv t1 (add_mset a (image_mset fst M)) (image_mset snd M)"
    using Insert_inv(1) [OF i, of a] h(3) by (auto simp: im_max_def)
  obtain t2 h2 where 2: "NaClAvlTreeInsert t1 (NaClIntervalRangeTreeNodeInit b (- 1)) = Inr (t2, h2)"
    "tree_inv t2 (add_mset a (image_mset fst M)) (add_mset b (image_mset snd M))"
    using Insert_inv(2) [OF 1(2), of b] h(3) by (auto simp: im_max_def)
  show "\<exists>t'. NaClIntervalRangeTreeAddInterval t a b = Inr t' \<and> tree_holds t' (add_mset (a, b) M)"
    using 1(1) 2 h by (auto simp: NaClIntervalRangeTreeAddInterval_def tree_holds_def proper_def)
next
  fix t a b M
  assume h: "tree_holds t (add_mset (a, b) M)"
  then have i: "tree_inv t (add_mset a (image_mset fst M)) (add_mset b (image_mset snd M))"
    by (simp add: tree_holds_def)
  obtain t1 where 1: "NaClIntervalRangeTreeRemoveVal t b (- 1) = Inr t1"
    "tree_inv t1 (add_mset a (image_mset fst M)) (image_mset snd M)" using Remove_inv(2) [OF i] by blast
  obtain t2 where 2: "NaClIntervalRangeTreeRemoveVal t1 a 1 = Inr t2"
    "tree_inv t2 (image_mset fst M) (image_mset snd M)" using Remove_inv(1) [OF 1(2)] by blast
  show "\<exists>t'. NaClIntervalRangeTreeRemoveInterval t a b = Inr t' \<and> tree_holds t' M"
    using 1(1) 2 h by (auto simp: NaClIntervalRangeTreeRemoveInterval_def tree_holds_def)
next
  fix t M and a b :: u32
  assume "tree_holds t M" "a \<le> b"
  then show "NaClIntervalRangeTreeOverlapsWith t a b = (\<exists>x \<in># M. overlaps x (a, b))"
    by (rule tree_overlaps)
qed

end
