(* ===== verification/IntervalClaims.thy ===== *)
theory IntervalClaims
  imports IntervalTreeSpec
begin

text \<open>The properties of the interval multisets, through the interpretations \<open>ilist\<close> and \<open>itree\<close>.\<close>

section \<open>Histories of calls\<close>

text \<open>A history of additions and removals, and the multiset it leaves.\<close>

datatype im_op = AddI u32 u32 | RemoveI u32 u32

fun im_effect :: "interval multiset \<Rightarrow> im_op list \<Rightarrow> interval multiset" where
  "im_effect M [] = M"
| "im_effect M (AddI a b # os) = im_effect (add_mset (a, b) M) os"
| "im_effect M (RemoveI a b # os) = im_effect (M - {#(a, b)#}) os"

text \<open>Additions are proper and within the bound, removals are of stored intervals.\<close>

fun im_legal :: "interval multiset \<Rightarrow> im_op list \<Rightarrow> bool" where
  "im_legal M [] = True"
| "im_legal M (AddI a b # os) = (a \<le> b \<and> size M + 1 < im_max \<and> im_legal (add_mset (a, b) M) os)"
| "im_legal M (RemoveI a b # os) = ((a, b) \<in># M \<and> im_legal (M - {#(a, b)#}) os)"

fun tree_run :: "rtree \<Rightarrow> im_op list \<Rightarrow> rtree exec" where
  "tree_run t [] = Inr t"
| "tree_run t (AddI a b # os) = ebind (NaClIntervalRangeTreeAddInterval t a b) (\<lambda>t'. tree_run t' os)"
| "tree_run t (RemoveI a b # os) = ebind (NaClIntervalRangeTreeRemoveInterval t a b) (\<lambda>t'. tree_run t' os)"

fun list_run :: "interval list \<Rightarrow> im_op list \<Rightarrow> interval list exec" where
  "list_run t [] = Inr t"
| "list_run t (AddI a b # os) = ebind (NaClIntervalListMultisetAddInterval t a b) (\<lambda>t'. list_run t' os)"
| "list_run t (RemoveI a b # os) = ebind (NaClIntervalListMultisetRemoveInterval t a b) (\<lambda>t'. list_run t' os)"

lemma tree_run_ok: "tree_holds t M \<Longrightarrow> im_legal M os \<Longrightarrow> \<exists>t'. tree_run t os = Inr t' \<and> tree_holds t' (im_effect M os)"
proof (induction M os arbitrary: t rule: im_effect.induct)
  case (2 M a b os)
  then show ?case using itree.add_law [of t M a b] by auto
next
  case (3 M a b os)
  then show ?case using itree.remove_law [of t a b "M - {#(a, b)#}"] by auto
qed simp

lemma list_run_ok: "list_holds t M \<Longrightarrow> im_legal M os \<Longrightarrow> \<exists>t'. list_run t os = Inr t' \<and> list_holds t' (im_effect M os)"
proof (induction M os arbitrary: t rule: im_effect.induct)
  case (2 M a b os)
  then show ?case using ilist.add_law [of t M a b] by auto
next
  case (3 M a b os)
  then show ?case using ilist.remove_law [of t a b "M - {#(a, b)#}"] by auto
qed simp

section \<open>Depth\<close>

lemma avl_depth: "avl t \<Longrightarrow> 2 ^ (nat (height t) div 2) \<le> length (entries t) + 1"
proof (induction t)
  case (RNode l n r)
  have half: "(2 :: nat) ^ (nat (height t) div 2) \<le> 2 * 2 ^ (nat (height s) div 2)"
    if "height t \<le> height s + 2" for s t
  proof -
    have "nat (height t) div 2 \<le> Suc (nat (height s) div 2)" using that height_nonneg [of s] by linarith
    then have "2 ^ (nat (height t) div 2) \<le> (2 :: nat) ^ Suc (nat (height s) div 2)"
      by (intro power_increasing) simp_all
    then show ?thesis by simp
  qed
  have "height (RNode l n r) \<le> height l + 2" "height (RNode l n r) \<le> height r + 2" using RNode.prems by auto
  then have "2 * 2 ^ (nat (height (RNode l n r)) div 2) \<le> 2 * (length (entries l) + 1) + 2 * (length (entries r) + 1)"
    using half [of "RNode l n r" l] half [of "RNode l n r" r] RNode.IH RNode.prems by simp
  then show ?case by simp
qed simp

lemma tree_size:
  assumes "tree_holds t M"
  shows "length (entries t) \<le> 2 * size M"
proof -
  have inv: "tree_inv t (image_mset fst M) (image_mset snd M)" using assms by (simp add: tree_holds_def)
  have d: "distinct (map fst (entries t))"
    using inv by (auto simp: tree_inv_def sorted_keys_def strict_sorted_iff)
  have k: "keys (entries t) = fst ` set_mset M \<union> snd ` set_mset M" using tree_keys [OF inv] by auto
  have c: "card (set_mset M) \<le> size M"
    by (induction M) (auto simp: card_insert_if)
  have "length (entries t) = card (keys (entries t))" using distinct_card [OF d] by (simp add: keys_def)
  also have "\<dots> \<le> card (fst ` set_mset M) + card (snd ` set_mset M)" unfolding k by (rule card_Un_le)
  also have "\<dots> \<le> 2 * size M" using c card_image_le [of "set_mset M" fst] card_image_le [of "set_mset M" snd] by simp
  finally show ?thesis .
qed

section \<open>Properties\<close>

text \<open>C22: after any legal history of additions and removals the range tree has not faulted, is a
  balanced AVL tree, and reports an overlap with a query interval exactly when one of the
  intervals still stored meets it.\<close>
theorem range_tree_correct:
  assumes "im_legal {#} os" "a \<le> b"
  shows "\<exists>t. tree_run RLeaf os = Inr t \<and> avl t \<and> sorted_keys (entries t)
    \<and> NaClIntervalRangeTreeOverlapsWith t a b = (\<exists>x \<in># im_effect {#} os. overlaps x (a, b))"
proof -
  obtain t where t: "tree_run RLeaf os = Inr t" "tree_holds t (im_effect {#} os)"
    using tree_run_ok [OF itree.empty_law assms(1)] by blast
  then show ?thesis using itree.overlaps_law [OF t(2) assms(2)] by (auto simp: tree_holds_def tree_inv_def)
qed

definition demo_ops :: "im_op list" where
  "demo_ops = [AddI 10 20, AddI 15 30, AddI 40 40, RemoveI 10 20]"

lemma demo_ops_legal: "im_legal {#} demo_ops"
  by (simp add: demo_ops_def im_max_def)

theorem range_tree_correct_witness:
  "\<exists>t. tree_run RLeaf demo_ops = Inr t \<and> avl t \<and> sorted_keys (entries t)
    \<and> NaClIntervalRangeTreeOverlapsWith t 12 16 = (\<exists>x \<in># im_effect {#} demo_ops. overlaps x (12, 16))"
  by (rule range_tree_correct [OF demo_ops_legal]) simp

text \<open>C24: the range tree is an optimisation of the list: after the same legal history both
  implementations return and answer every query alike.\<close>
theorem tree_list_equivalent:
  assumes "im_legal {#} os" "a \<le> b"
  shows "\<exists>t l. tree_run RLeaf os = Inr t \<and> list_run [] os = Inr l
    \<and> NaClIntervalRangeTreeOverlapsWith t a b = NaClIntervalListMultisetOverlapsWith l a b"
proof -
  obtain t where t: "tree_run RLeaf os = Inr t" "tree_holds t (im_effect {#} os)"
    using tree_run_ok [OF itree.empty_law assms(1)] by blast
  obtain l where l: "list_run [] os = Inr l" "list_holds l (im_effect {#} os)"
    using list_run_ok [OF ilist.empty_law assms(1)] by blast
  show ?thesis using t l itree.overlaps_law [OF t(2) assms(2)] ilist.overlaps_law [OF l(2) assms(2)] by blast
qed

theorem tree_list_equivalent_witness:
  "\<exists>t l. tree_run RLeaf demo_ops = Inr t \<and> list_run [] demo_ops = Inr l
    \<and> NaClIntervalRangeTreeOverlapsWith t 31 39 = NaClIntervalListMultisetOverlapsWith l 31 39"
  by (rule tree_list_equivalent [OF demo_ops_legal]) simp

text \<open>C25: the recursion of every tree operation is shallow: after a legal history that leaves \<open>n\<close>
  intervals, the height \<open>h\<close> of the tree satisfies \<open>2 ^ (h div 2) \<le> 2 * n + 1\<close>, so it is logarithmic
  in the number of pending system calls.\<close>
theorem range_tree_depth:
  assumes "im_legal {#} os"
  shows "\<exists>t. tree_run RLeaf os = Inr t \<and> 2 ^ (nat (height t) div 2) \<le> 2 * size (im_effect {#} os) + 1"
proof -
  obtain t where t: "tree_run RLeaf os = Inr t" "tree_holds t (im_effect {#} os)"
    using tree_run_ok [OF itree.empty_law assms] by blast
  have "avl t" using t(2) by (simp add: tree_holds_def tree_inv_def)
  then show ?thesis using t avl_depth [of t] tree_size [OF t(2)] by (intro exI [of _ t]) linarith
qed

theorem range_tree_depth_witness:
  "\<exists>t. tree_run RLeaf demo_ops = Inr t \<and> 2 ^ (nat (height t) div 2) \<le> 2 * size (im_effect {#} demo_ops) + 1"
  by (rule range_tree_depth [OF demo_ops_legal])

end
