(* ===== verification/FdTable.thy ===== *)
theory FdTable
  imports DynArray DynMem IntervalTreeSpec
begin

text \<open>
  The state that the descriptor system calls share: the descriptor and thread tables of a sandbox
  (\<open>sel_ldr.c\<close>), the reference counts of the descriptors (\<open>nacl_base/nacl_refcount.c\<close>), the
  ranges of memory under I/O (\<open>NaClVmIoWillStart\<close> and friends, \<open>sel_ldr.c\<close>) and the copying of
  arguments (\<open>nacl_copy.c\<close>). Calls are run one at a time, so the locks around them are left out.
\<close>

section \<open>State\<close>

text \<open>
  A descriptor is named by a number; \<open>nd_refs\<close> is its \<open>ref_count\<close>, \<open>None\<close> once it is freed.
  \<open>host\<close> is the state of the host and of the descriptors' own fields, which only the virtual
  methods see. The page protection is the host's: \<open>access_faults h w x\<close> says whether it stops a
  load (a store, when \<open>w\<close>) of trusted code at address \<open>x\<close> in the host state \<open>h\<close>. No call changes
  this function; what changes the protection of a page changes the host state.
\<close>

record 'h fd_app = nacl_space +
  desc_tbl :: "nat dyn_array"
  nd_refs :: "nat \<Rightarrow> u64 option"
  thread_tbl :: "nat dyn_array"
  n_threads :: nat
  mem_io_regions :: rtree
  fa_mem :: bytes
  access_faults :: "'h \<Rightarrow> bool \<Rightarrow> u64 \<Rightarrow> bool"
  host :: 'h

text \<open>
  The virtual methods of \<open>struct NaClDescVtbl\<close> that the calls use. Results of type \<open>ssize_t\<close> and
  \<open>int\<close> are integers, offsets are 64-bit words. A method that fills a buffer returns the bytes it
  writes from the start of the buffer: the host itself writes none to a page it protects, trusted
  code that does so faults. A method that is given data gets its bytes.
\<close>

record 'h desc_vtbl =
  vDtor :: "nat \<Rightarrow> 'h \<Rightarrow> 'h"
  vIsatty :: "nat \<Rightarrow> 'h \<Rightarrow> int \<times> 'h"
  vGetdents :: "nat \<Rightarrow> u64 \<Rightarrow> 'h \<Rightarrow> int \<times> u8 list \<times> 'h"
  vRead :: "nat \<Rightarrow> u64 \<Rightarrow> 'h \<Rightarrow> int \<times> u8 list \<times> 'h"
  vWrite :: "nat \<Rightarrow> u8 list \<Rightarrow> 'h \<Rightarrow> int \<times> 'h"
  vSeek :: "nat \<Rightarrow> u64 \<Rightarrow> int \<Rightarrow> 'h \<Rightarrow> u64 \<times> 'h"
  vPRead :: "nat \<Rightarrow> u64 \<Rightarrow> u64 \<Rightarrow> 'h \<Rightarrow> int \<times> u8 list \<times> 'h"
  vPWrite :: "nat \<Rightarrow> u8 list \<Rightarrow> u64 \<Rightarrow> 'h \<Rightarrow> int \<times> 'h"
  vFstat :: "nat \<Rightarrow> 'h \<Rightarrow> int \<times> u8 list \<times> 'h"
  vFchdir :: "nat \<Rightarrow> 'h \<Rightarrow> int \<times> 'h"
  vFchmod :: "nat \<Rightarrow> int \<Rightarrow> 'h \<Rightarrow> int \<times> 'h"
  vFsync :: "nat \<Rightarrow> 'h \<Rightarrow> int \<times> 'h"
  vFdatasync :: "nat \<Rightarrow> 'h \<Rightarrow> int \<times> 'h"
  vFtruncate :: "nat \<Rightarrow> u64 \<Rightarrow> 'h \<Rightarrow> int \<times> 'h"

section \<open>Reference counts\<close>

definition NaClRefCountRef :: "nat \<Rightarrow> ('h, 'z) fd_app_scheme \<Rightarrow> ('h, 'z) fd_app_scheme exec" where
  "NaClRefCountRef nrcp nap =
     (case nd_refs nap nrcp of
        None \<Rightarrow> Inl Out_of_bounds
      | Some c \<Rightarrow> if 0 = c + 1 then Inl Log_fatal
                  else Inr (nap\<lparr>nd_refs := (nd_refs nap)(nrcp \<mapsto> c + 1)\<rparr>))"

definition NaClRefCountUnref :: "'h desc_vtbl \<Rightarrow> nat \<Rightarrow> ('h, 'z) fd_app_scheme \<Rightarrow> ('h, 'z) fd_app_scheme exec" where
  "NaClRefCountUnref vt nrcp nap =
     (case nd_refs nap nrcp of
        None \<Rightarrow> Inl Out_of_bounds
      | Some c \<Rightarrow>
          if 0 = c then Inl Log_fatal
          else if 0 = c - 1
               then Inr (nap\<lparr>nd_refs := (nd_refs nap)(nrcp := None), host := vDtor vt nrcp (host nap)\<rparr>)
               else Inr (nap\<lparr>nd_refs := (nd_refs nap)(nrcp \<mapsto> c - 1)\<rparr>))"

definition NaClRefCountSafeUnref :: "'h desc_vtbl \<Rightarrow> nat option \<Rightarrow> ('h, 'z) fd_app_scheme \<Rightarrow> ('h, 'z) fd_app_scheme exec" where
  "NaClRefCountSafeUnref vt nrcp nap =
     (case nrcp of None \<Rightarrow> Inr nap | Some n \<Rightarrow> NaClRefCountUnref vt n nap)"

section \<open>The descriptor table\<close>

text \<open>
  Descriptor and thread numbers have type \<open>int\<close>, a signed 32-bit word; indexing a table converts
  them to \<open>size_t\<close>.
\<close>

definition fd_index :: "u32 \<Rightarrow> nat" where
  "fd_index d = unat (scast d :: u64)"

definition NaClAppGetDescMu :: "('h, 'z) fd_app_scheme \<Rightarrow> u32 \<Rightarrow> (nat option \<times> ('h, 'z) fd_app_scheme) exec" where
  "NaClAppGetDescMu nap d =
     (case DynArrayGet (desc_tbl nap) (fd_index d) of
        None \<Rightarrow> Inr (None, nap)
      | Some result \<Rightarrow> ebind (NaClRefCountRef result nap) (\<lambda>nap1. Inr (Some result, nap1)))"

text \<open>\<open>env\<close> says whether the two reallocations that a growing table asks for succeed.\<close>

definition NaClAppSetDescMu ::
    "'h desc_vtbl \<Rightarrow> bool \<times> bool \<Rightarrow> ('h, 'z) fd_app_scheme \<Rightarrow> u32 \<Rightarrow> nat option \<Rightarrow> ('h, 'z) fd_app_scheme exec" where
  "NaClAppSetDescMu vt env nap d ndp =
     ebind (NaClRefCountSafeUnref vt (DynArrayGet (desc_tbl nap) (fd_index d)) nap) (\<lambda>nap1.
       let (ok, t) = DynArraySet (fst env) (snd env) (desc_tbl nap1) (fd_index d) ndp
       in if \<not> ok then Inl Log_fatal else Inr (nap1\<lparr>desc_tbl := t\<rparr>))"

definition NaClAppSetDescAvailMu ::
    "'h desc_vtbl \<Rightarrow> bool \<times> bool \<Rightarrow> ('h, 'z) fd_app_scheme \<Rightarrow> nat option \<Rightarrow> (int \<times> ('h, 'z) fd_app_scheme) exec" where
  "NaClAppSetDescAvailMu vt env nap ndp =
     (let (pos, t) = DynArrayFirstAvail (desc_tbl nap);
          nap1 = nap\<lparr>desc_tbl := t\<rparr>
      in if pos > 2 ^ 31 - 1 then Inl Log_fatal
         else ebind (NaClAppSetDescMu vt env nap1 (of_nat pos) ndp) (\<lambda>nap2. Inr (int pos, nap2)))"

definition NaClAppGetDesc :: "('h, 'z) fd_app_scheme \<Rightarrow> u32 \<Rightarrow> (nat option \<times> ('h, 'z) fd_app_scheme) exec" where
  "NaClAppGetDesc nap d = NaClAppGetDescMu nap d"

definition NaClAppSetDesc ::
    "'h desc_vtbl \<Rightarrow> bool \<times> bool \<Rightarrow> ('h, 'z) fd_app_scheme \<Rightarrow> u32 \<Rightarrow> nat option \<Rightarrow> ('h, 'z) fd_app_scheme exec" where
  "NaClAppSetDesc vt env nap d ndp = NaClAppSetDescMu vt env nap d ndp"

definition NaClAppSetDescAvail ::
    "'h desc_vtbl \<Rightarrow> bool \<times> bool \<Rightarrow> ('h, 'z) fd_app_scheme \<Rightarrow> nat option \<Rightarrow> (int \<times> ('h, 'z) fd_app_scheme) exec" where
  "NaClAppSetDescAvail vt env nap ndp = NaClAppSetDescAvailMu vt env nap ndp"

section \<open>The thread table\<close>

text \<open>The position is returned as an \<open>int\<close>; the table never has \<open>2 ^ 31\<close> threads.\<close>

definition NaClAddThreadMu :: "bool \<times> bool \<Rightarrow> ('h, 'z) fd_app_scheme \<Rightarrow> nat \<Rightarrow> (int \<times> ('h, 'z) fd_app_scheme) exec" where
  "NaClAddThreadMu env nap natp =
     (let (pos, t) = DynArrayFirstAvail (thread_tbl nap);
          (ok, t1) = DynArraySet (fst env) (snd env) t pos (Some natp)
      in if \<not> ok then Inl Log_fatal
         else Inr (signed_take_bit 31 (int pos), nap\<lparr>thread_tbl := t1, n_threads := n_threads nap + 1\<rparr>))"

definition NaClAddThread :: "bool \<times> bool \<Rightarrow> ('h, 'z) fd_app_scheme \<Rightarrow> nat \<Rightarrow> (int \<times> ('h, 'z) fd_app_scheme) exec" where
  "NaClAddThread env nap natp = NaClAddThreadMu env nap natp"

definition NaClRemoveThreadMu :: "bool \<times> bool \<Rightarrow> ('h, 'z) fd_app_scheme \<Rightarrow> u32 \<Rightarrow> ('h, 'z) fd_app_scheme exec" where
  "NaClRemoveThreadMu env nap thread_num =
     (if DynArrayGet (thread_tbl nap) (fd_index thread_num) = None then Inl Log_fatal
      else if n_threads nap = 0 then Inl Log_fatal
      else let (ok, t) = DynArraySet (fst env) (snd env) (thread_tbl nap) (fd_index thread_num) None
           in if \<not> ok then Inl Log_fatal
              else Inr (nap\<lparr>thread_tbl := t, n_threads := n_threads nap - 1\<rparr>))"

definition NaClRemoveThread :: "bool \<times> bool \<Rightarrow> ('h, 'z) fd_app_scheme \<Rightarrow> u32 \<Rightarrow> ('h, 'z) fd_app_scheme exec" where
  "NaClRemoveThread env nap thread_num = NaClRemoveThreadMu env nap thread_num"

definition NaClGetThreadMu :: "('h, 'z) fd_app_scheme \<Rightarrow> u32 \<Rightarrow> nat option" where
  "NaClGetThreadMu nap thread_num = DynArrayGet (thread_tbl nap) (fd_index thread_num)"

section \<open>Memory under I/O\<close>

definition NaClVmIoWillStart :: "('h, 'z) fd_app_scheme \<Rightarrow> u32 \<Rightarrow> u32 \<Rightarrow> ('h, 'z) fd_app_scheme exec" where
  "NaClVmIoWillStart nap addr_first_usr addr_last_usr =
     ebind (NaClIntervalRangeTreeAddInterval (mem_io_regions nap) addr_first_usr addr_last_usr) (\<lambda>t.
       Inr (nap\<lparr>mem_io_regions := t\<rparr>))"

definition NaClVmIoHasEnded :: "('h, 'z) fd_app_scheme \<Rightarrow> u32 \<Rightarrow> u32 \<Rightarrow> ('h, 'z) fd_app_scheme exec" where
  "NaClVmIoHasEnded nap addr_first_usr addr_last_usr =
     ebind (NaClIntervalRangeTreeRemoveInterval (mem_io_regions nap) addr_first_usr addr_last_usr) (\<lambda>t.
       Inr (nap\<lparr>mem_io_regions := t\<rparr>))"

definition NaClVmIoPendingCheck_mu :: "('h, 'z) fd_app_scheme \<Rightarrow> u32 \<Rightarrow> u32 \<Rightarrow> unit exec" where
  "NaClVmIoPendingCheck_mu nap addr_first_usr addr_last_usr =
     (if NaClIntervalRangeTreeOverlapsWith (mem_io_regions nap) addr_first_usr addr_last_usr
      then Inl Log_fatal else Inr ())"

section \<open>Access to the memory of the sandbox\<close>

text \<open>
  A range inside the address space need not be mapped: untrusted code unmaps and protects its
  pages as it likes, and the copying of trusted code faults there (\<open>nacl_copy.h\<close>).
\<close>

definition user_fault :: "('h, 'z) fd_app_scheme \<Rightarrow> bool \<Rightarrow> u64 \<Rightarrow> nat \<Rightarrow> bool" where
  "user_fault nap w a n = list_ex (\<lambda>i. access_faults nap (host nap) w (a + of_nat i)) [0 ..< n]"

definition user_access :: "('h, 'z) fd_app_scheme \<Rightarrow> bool \<Rightarrow> u64 \<Rightarrow> nat \<Rightarrow> unit exec" where
  "user_access nap w a n = echeck (\<not> user_fault nap w a n) Access_fault"

text \<open>Whether the host protects anything at all, and the two ways a call may fail to return.\<close>

definition faulting :: "('h, 'z) fd_app_scheme \<Rightarrow> bool" where
  "faulting nap \<longleftrightarrow> (\<exists>h w x. access_faults nap h w x)"

definition stopped :: "('h, 'z) fd_app_scheme \<Rightarrow> fault \<Rightarrow> bool" where
  "stopped nap e \<longleftrightarrow> e = Log_fatal \<or> e = Access_fault \<and> faulting nap"

lemma user_access_Inr [simp]: "user_access nap w a n = Inr u \<longleftrightarrow> \<not> user_fault nap w a n"
  by (simp add: user_access_def)

lemma user_fault_faulting: "user_fault nap w a n \<Longrightarrow> faulting nap"
  by (auto simp: faulting_def user_fault_def list_ex_iff)

lemma user_access_Inl: "user_access nap w a n = Inl e \<Longrightarrow> e = Access_fault \<and> faulting nap"
  by (cases "user_fault nap w a n") (simp_all add: user_access_def user_fault_faulting)

lemma user_access_none: "\<not> faulting nap \<Longrightarrow> user_access nap w a n = Inr ()"
  using user_fault_faulting [of nap w a n] by auto

lemma user_access_upd [simp]:
  "user_access (nap\<lparr>mem_io_regions := t\<rparr>) = user_access nap"
  "user_access (nap\<lparr>fa_mem := m\<rparr>) = user_access nap"
  "user_access (nap\<lparr>nd_refs := R\<rparr>) = user_access nap"
  by (simp_all add: user_access_def user_fault_def fun_eq_iff)

lemma no_faults: "access_faults nap = (\<lambda>_ _ _. False) \<Longrightarrow> \<not> faulting nap"
  by (simp add: faulting_def)

lemma faulting_same: "access_faults b = access_faults a \<Longrightarrow> faulting b = faulting a"
  by (simp add: faulting_def)

lemma stopped_same: "access_faults b = access_faults a \<Longrightarrow> stopped b e = stopped a e"
  by (simp add: stopped_def faulting_def)

lemma stopped_simps [simp]:
  "stopped nap Log_fatal" "stopped nap Access_fault = faulting nap"
  by (simp_all add: stopped_def)

section \<open>Copying\<close>

definition NaClCopyInFromUser :: "('h, 'z) fd_app_scheme \<Rightarrow> u64 \<Rightarrow> nat \<Rightarrow> u8 list option exec" where
  "NaClCopyInFromUser nap src_usr_addr num_bytes =
     (let src_sys_addr = NaClUserToSysAddrRange nap src_usr_addr (of_nat num_bytes)
      in if kNaClBadAddress = src_sys_addr then Inr None
         else ebind (user_access nap False src_sys_addr num_bytes) (\<lambda>_.
                Inr (Some (read_bytes src_sys_addr num_bytes (fa_mem nap)))))"

definition NaClCopyInFromUserAndDropLock :: "('h, 'z) fd_app_scheme \<Rightarrow> u64 \<Rightarrow> nat \<Rightarrow> u8 list option exec" where
  "NaClCopyInFromUserAndDropLock nap src_usr_addr num_bytes =
     (let src_sys_addr = NaClUserToSysAddrRange nap src_usr_addr (of_nat num_bytes)
      in if kNaClBadAddress = src_sys_addr then Inr None
         else ebind (user_access nap False src_sys_addr num_bytes) (\<lambda>_.
                Inr (Some (read_bytes src_sys_addr num_bytes (fa_mem nap)))))"

text \<open>
  \<open>strncpy\<close>: the bytes up to the first NUL, then zeros to the full length; \<open>strncpy_reads\<close> is the
  number of bytes it reads.
\<close>

fun strncpy_reads :: "bytes \<Rightarrow> u64 \<Rightarrow> nat \<Rightarrow> nat" where
  "strncpy_reads m src 0 = 0"
| "strncpy_reads m src (Suc n) = (if m src = 0 then 1 else Suc (strncpy_reads m (src + 1) n))"

fun strncpy :: "bytes \<Rightarrow> u64 \<Rightarrow> nat \<Rightarrow> u8 list" where
  "strncpy m src 0 = []"
| "strncpy m src (Suc n) = (if m src = 0 then replicate (Suc n) 0 else m src # strncpy m (src + 1) n)"

text \<open>The result is the return value and the new contents of the buffer \<open>dst\<close>.\<close>

definition NaClCopyInFromUserZStr :: "('h, 'z) fd_app_scheme \<Rightarrow> u8 list \<Rightarrow> u64 \<Rightarrow> (bool \<times> u8 list) exec" where
  "NaClCopyInFromUserZStr nap dst src_usr_addr =
     ebind (echeck (length dst > 0) Check_failed) (\<lambda>_.
       let src_sys_addr = NaClUserToSysAddr nap src_usr_addr
       in if kNaClBadAddress = src_sys_addr then Inr (False, dst[0 := 0])
          else ebind (user_access nap False src_sys_addr (strncpy_reads (fa_mem nap) src_sys_addr (length dst))) (\<lambda>_.
                 let b = strncpy (fa_mem nap) src_sys_addr (length dst)
                 in if b ! (length dst - 1) \<noteq> 0 then Inr (False, b[length dst - 1 := 0])
                    else Inr (True, b)))"

definition NaClCopyOutToUser :: "('h, 'z) fd_app_scheme \<Rightarrow> u64 \<Rightarrow> u8 list \<Rightarrow> ('h, 'z) fd_app_scheme option exec" where
  "NaClCopyOutToUser nap dst_usr_addr src =
     (let dst_sys_addr = NaClUserToSysAddrRange nap dst_usr_addr (of_nat (length src))
      in if kNaClBadAddress = dst_sys_addr then Inr None
         else ebind (user_access nap True dst_sys_addr (length src)) (\<lambda>_.
                Inr (Some (nap\<lparr>fa_mem := write_bytes dst_sys_addr src (fa_mem nap)\<rparr>))))"

text \<open>Copying answers, or faults when the host protects something.\<close>

lemma copy_in_Inl: "NaClCopyInFromUser nap a n = Inl e \<Longrightarrow> e = Access_fault \<and> faulting nap"
  by (auto simp: NaClCopyInFromUser_def Let_def ebind_eq_Inl dest: user_access_Inl split: if_splits)

lemma copy_out_Inl: "NaClCopyOutToUser nap a bs = Inl e \<Longrightarrow> e = Access_fault \<and> faulting nap"
  by (auto simp: NaClCopyOutToUser_def Let_def ebind_eq_Inl dest: user_access_Inl split: if_splits)

lemma copy_out_Some:
  "NaClCopyOutToUser nap a bs = Inr (Some nap') \<Longrightarrow>
    nap' = nap\<lparr>fa_mem := write_bytes (NaClUserToSysAddrRange nap a (of_nat (length bs))) bs (fa_mem nap)\<rparr>
    \<and> NaClUserToSysAddrRange nap a (of_nat (length bs)) \<noteq> kNaClBadAddress"
  by (auto simp: NaClCopyOutToUser_def Let_def split: if_splits)

end
