(* ===== verification/FdCalls.thy ===== *)
theory FdCalls
  imports FdTable
begin

text \<open>
  The descriptor system calls: \<open>sys_fdio.c\<close>, \<open>sys_parallel_io.c\<close> and \<open>sys_random.c\<close>. Each takes
  the state and returns the result given to untrusted code with the new state; the virtual
  methods of the descriptors are the parameter \<open>vt\<close>.
\<close>

section \<open>Results\<close>

definition NACL_ABI_EBADF :: int where "NACL_ABI_EBADF = 9"
definition NACL_ABI_EACCES :: int where "NACL_ABI_EACCES = 13"
definition NACL_ABI_EFAULT :: int where "NACL_ABI_EFAULT = 14"
definition NACL_ABI_EINVAL :: int where "NACL_ABI_EINVAL = 22"

definition NACL_MAX_FD :: int where "NACL_MAX_FD = 4096"

definition NACL_FAKE_INODE_NUM :: u64 where "NACL_FAKE_INODE_NUM = 0x6c43614e"

text \<open>The conversion to \<open>int32_t\<close>.\<close>

definition to_int32 :: "int \<Rightarrow> int" where
  "to_int32 v = signed_take_bit 31 v"

text \<open>\<open>NaClSSizeIsNegErrno\<close> and \<open>NaClOff64IsNegErrno\<close> look at the 64-bit pattern.\<close>

definition NaClOff64IsNegErrno :: "u64 \<Rightarrow> bool" where
  "NaClOff64IsNegErrno v \<longleftrightarrow> v AND NOT 0xffff = NOT 0xffff"

definition NaClSSizeIsNegErrno :: "int \<Rightarrow> bool" where
  "NaClSSizeIsNegErrno v \<longleftrightarrow> (word_of_int v :: u64) AND NOT 0xffff = NOT 0xffff"

text \<open>\<open>NaClAclBypassChecks\<close> and whether a root directory is mounted are parameters.\<close>

definition NaClFileAccessEnabled :: "bool \<Rightarrow> bool \<Rightarrow> bool" where
  "NaClFileAccessEnabled bypass rootdir \<longleftrightarrow> bypass \<or> rootdir"

section \<open>Duplicating and closing\<close>

definition NaClSysDup :: "'h desc_vtbl \<Rightarrow> bool \<times> bool \<Rightarrow> ('h, 'z) fd_app_scheme \<Rightarrow> u32 \<Rightarrow> (int \<times> ('h, 'z) fd_app_scheme) exec" where
  "NaClSysDup vt env nap oldfd =
     ebind (NaClAppGetDesc nap oldfd) (\<lambda>(old_nd, nap1).
       case old_nd of
         None \<Rightarrow> Inr (- NACL_ABI_EBADF, nap1)
       | Some n \<Rightarrow> NaClAppSetDescAvail vt env nap1 (Some n))"

definition NaClSysDup2 ::
    "'h desc_vtbl \<Rightarrow> bool \<times> bool \<Rightarrow> ('h, 'z) fd_app_scheme \<Rightarrow> u32 \<Rightarrow> u32 \<Rightarrow> (int \<times> ('h, 'z) fd_app_scheme) exec" where
  "NaClSysDup2 vt env nap oldfd newfd =
     (if sint newfd < 0 then Inr (- NACL_ABI_EINVAL, nap)
      else if sint newfd \<ge> NACL_MAX_FD then Inr (- NACL_ABI_EINVAL, nap)
      else ebind (NaClAppGetDesc nap oldfd) (\<lambda>(old_nd, nap1).
        case old_nd of
          None \<Rightarrow> Inr (- NACL_ABI_EBADF, nap1)
        | Some n \<Rightarrow> ebind (NaClAppSetDesc vt env nap1 newfd (Some n)) (\<lambda>nap2. Inr (sint newfd, nap2))))"

definition NaClSysClose :: "'h desc_vtbl \<Rightarrow> bool \<times> bool \<Rightarrow> ('h, 'z) fd_app_scheme \<Rightarrow> u32 \<Rightarrow> (int \<times> ('h, 'z) fd_app_scheme) exec" where
  "NaClSysClose vt env nap d =
     ebind (NaClAppGetDescMu nap d) (\<lambda>(ndp, nap1).
       case ndp of
         None \<Rightarrow> Inr (- NACL_ABI_EBADF, nap1)
       | Some n \<Rightarrow>
           ebind (NaClAppSetDescMu vt env nap1 d None) (\<lambda>nap2.
           ebind (NaClRefCountUnref vt n nap2) (\<lambda>nap3. Inr (0, nap3))))"

section \<open>Calls that only invoke a method\<close>

text \<open>
  The common shape of \<open>NaClSysFchdir\<close>, \<open>NaClSysFchmod\<close>, \<open>NaClSysFsync\<close> and \<open>NaClSysFdatasync\<close>:
  look the descriptor up, invoke the method, drop the reference.
\<close>

definition with_desc ::
    "'h desc_vtbl \<Rightarrow> ('h, 'z) fd_app_scheme \<Rightarrow> u32 \<Rightarrow> (nat \<Rightarrow> ('h, 'z) fd_app_scheme \<Rightarrow> (int \<times> ('h, 'z) fd_app_scheme) exec)
      \<Rightarrow> (int \<times> ('h, 'z) fd_app_scheme) exec" where
  "with_desc vt nap d body =
     ebind (NaClAppGetDesc nap d) (\<lambda>(ndp, nap1).
       case ndp of
         None \<Rightarrow> Inr (- NACL_ABI_EBADF, nap1)
       | Some n \<Rightarrow>
           ebind (body n nap1) (\<lambda>(retval, nap2).
           ebind (NaClRefCountUnref vt n nap2) (\<lambda>nap3. Inr (retval, nap3))))"

definition host_call :: "('h \<Rightarrow> int \<times> 'h) \<Rightarrow> ('h, 'z) fd_app_scheme \<Rightarrow> (int \<times> ('h, 'z) fd_app_scheme) exec" where
  "host_call f nap = (let (r, h) = f (host nap) in Inr (r, nap\<lparr>host := h\<rparr>))"

definition NaClSysFchdir :: "'h desc_vtbl \<Rightarrow> ('h, 'z) fd_app_scheme \<Rightarrow> u32 \<Rightarrow> (int \<times> ('h, 'z) fd_app_scheme) exec" where
  "NaClSysFchdir vt nap d = with_desc vt nap d (\<lambda>ndp. host_call (vFchdir vt ndp))"

definition NaClSysFchmod :: "'h desc_vtbl \<Rightarrow> ('h, 'z) fd_app_scheme \<Rightarrow> u32 \<Rightarrow> int \<Rightarrow> (int \<times> ('h, 'z) fd_app_scheme) exec" where
  "NaClSysFchmod vt nap d mode = with_desc vt nap d (\<lambda>ndp. host_call (vFchmod vt ndp mode))"

definition NaClSysFsync :: "'h desc_vtbl \<Rightarrow> ('h, 'z) fd_app_scheme \<Rightarrow> u32 \<Rightarrow> (int \<times> ('h, 'z) fd_app_scheme) exec" where
  "NaClSysFsync vt nap d = with_desc vt nap d (\<lambda>ndp. host_call (vFsync vt ndp))"

definition NaClSysFdatasync :: "'h desc_vtbl \<Rightarrow> ('h, 'z) fd_app_scheme \<Rightarrow> u32 \<Rightarrow> (int \<times> ('h, 'z) fd_app_scheme) exec" where
  "NaClSysFdatasync vt nap d = with_desc vt nap d (\<lambda>ndp. host_call (vFdatasync vt ndp))"

definition NaClSysIsatty :: "bool \<Rightarrow> 'h desc_vtbl \<Rightarrow> ('h, 'z) fd_app_scheme \<Rightarrow> u32 \<Rightarrow> (int \<times> ('h, 'z) fd_app_scheme) exec" where
  "NaClSysIsatty bypass vt nap d =
     (if \<not> bypass then Inr (- NACL_ABI_EACCES, nap)
      else with_desc vt nap d (\<lambda>ndp. host_call (vIsatty vt ndp)))"

section \<open>Buffers\<close>

text \<open>
  Invoke a method that fills the buffer at \<open>sysaddr\<close>; it faults where page protection stops the
  writing of the bytes. From here on the part of a call between
  the lookup of the descriptor and the drop of the reference is a definition of its own.
\<close>

definition fill_call ::
    "u64 \<Rightarrow> ('h \<Rightarrow> int \<times> u8 list \<times> 'h) \<Rightarrow> ('h, 'z) fd_app_scheme \<Rightarrow> (int \<times> ('h, 'z) fd_app_scheme) exec" where
  "fill_call sysaddr f nap =
     (let (r, bs, h) = f (host nap)
      in ebind (user_access nap True sysaddr (length bs)) (\<lambda>_.
           Inr (r, nap\<lparr>fa_mem := write_bytes sysaddr bs (fa_mem nap), host := h\<rparr>)))"

definition getdents_work ::
    "'h desc_vtbl \<Rightarrow> u32 \<Rightarrow> u64 \<Rightarrow> nat \<Rightarrow> ('h, 'z) fd_app_scheme \<Rightarrow> (int \<times> ('h, 'z) fd_app_scheme) exec" where
  "getdents_work vt dirp buf_count ndp nap1 =
     (let sysaddr = NaClUserToSysAddrRange nap1 (ucast dirp) buf_count
        in if kNaClBadAddress = sysaddr then Inr (- NACL_ABI_EFAULT, nap1)
           else let cnt = (if buf_count > 0x7fffffff then 0x7fffffff else buf_count)
                in ebind (fill_call sysaddr (vGetdents vt ndp cnt) nap1) (\<lambda>(getdents_ret, nap2).
                     if (getdents_ret < - (2 ^ 31) \<and> \<not> NaClSSizeIsNegErrno getdents_ret)
                        \<or> 2 ^ 31 - 1 < getdents_ret
                     then Inl Log_fatal
                     else Inr (to_int32 getdents_ret, nap2)))"

definition NaClSysGetdents ::
    "bool \<Rightarrow> bool \<Rightarrow> 'h desc_vtbl \<Rightarrow> ('h, 'z) fd_app_scheme \<Rightarrow> u32 \<Rightarrow> u32 \<Rightarrow> u64 \<Rightarrow> (int \<times> ('h, 'z) fd_app_scheme) exec" where
  "NaClSysGetdents bypass rootdir vt nap d dirp buf_count =
     (if \<not> NaClFileAccessEnabled bypass rootdir then Inr (- NACL_ABI_EACCES, nap)
      else with_desc vt nap d (getdents_work vt dirp buf_count))"

definition read_work ::
    "'h desc_vtbl \<Rightarrow> u32 \<Rightarrow> u32 \<Rightarrow> nat \<Rightarrow> ('h, 'z) fd_app_scheme \<Rightarrow> (int \<times> ('h, 'z) fd_app_scheme) exec" where
  "read_work vt buf buf_count ndp nap1 =
     (let sysaddr = NaClUserToSysAddrRange nap1 (ucast buf) (ucast buf_count)
       in if kNaClBadAddress = sysaddr then Inr (- NACL_ABI_EFAULT, nap1)
          else let cnt = (if buf_count > 0x7fffffff then 0x7fffffff else buf_count)
               in ebind (NaClVmIoWillStart nap1 buf (buf + cnt - 1)) (\<lambda>nap2.
                  ebind (fill_call sysaddr (vRead vt ndp (ucast cnt)) nap2) (\<lambda>(read_result, nap3).
                  ebind (NaClVmIoHasEnded nap3 buf (buf + cnt - 1)) (\<lambda>nap4.
                    Inr (to_int32 read_result, nap4)))))"

definition NaClSysRead :: "'h desc_vtbl \<Rightarrow> ('h, 'z) fd_app_scheme \<Rightarrow> u32 \<Rightarrow> u32 \<Rightarrow> u32 \<Rightarrow> (int \<times> ('h, 'z) fd_app_scheme) exec" where
  "NaClSysRead vt nap d buf buf_count =
     with_desc vt nap d (read_work vt buf buf_count)"

definition write_work ::
    "'h desc_vtbl \<Rightarrow> u32 \<Rightarrow> u32 \<Rightarrow> nat \<Rightarrow> ('h, 'z) fd_app_scheme \<Rightarrow> (int \<times> ('h, 'z) fd_app_scheme) exec" where
  "write_work vt buf buf_count ndp nap1 =
     (let sysaddr = NaClUserToSysAddrRange nap1 (ucast buf) (ucast buf_count)
       in if kNaClBadAddress = sysaddr then Inr (- NACL_ABI_EFAULT, nap1)
          else let cnt = (if buf_count > 0x7fffffff then 0x7fffffff else buf_count)
               in ebind (NaClVmIoWillStart nap1 buf (buf + cnt - 1)) (\<lambda>nap2.
                  ebind (host_call (vWrite vt ndp (read_bytes sysaddr (unat cnt) (fa_mem nap2))) nap2)
                    (\<lambda>(write_result, nap3).
                  ebind (NaClVmIoHasEnded nap3 buf (buf + cnt - 1)) (\<lambda>nap4.
                    Inr (to_int32 write_result, nap4)))))"

definition NaClSysWrite :: "'h desc_vtbl \<Rightarrow> ('h, 'z) fd_app_scheme \<Rightarrow> u32 \<Rightarrow> u32 \<Rightarrow> u32 \<Rightarrow> (int \<times> ('h, 'z) fd_app_scheme) exec" where
  "NaClSysWrite vt nap d buf buf_count =
     with_desc vt nap d (write_work vt buf buf_count)"

definition pread_work ::
    "'h desc_vtbl \<Rightarrow> u32 \<Rightarrow> u32 \<Rightarrow> u32 \<Rightarrow> nat \<Rightarrow> ('h, 'z) fd_app_scheme \<Rightarrow> (int \<times> ('h, 'z) fd_app_scheme) exec" where
  "pread_work vt usr_addr buffer_bytes offset_addr ndp nap1 =
     ebind (NaClCopyInFromUser nap1 (ucast offset_addr) 8) (\<lambda>copied.
       case copied of
         None \<Rightarrow> Inr (- NACL_ABI_EFAULT, nap1)
       | Some bs \<Rightarrow>
           let sysaddr = NaClUserToSysAddrRange nap1 (ucast usr_addr) (ucast buffer_bytes)
           in if kNaClBadAddress = sysaddr then Inr (- NACL_ABI_EFAULT, nap1)
              else ebind (NaClVmIoWillStart nap1 usr_addr (usr_addr + buffer_bytes - 1)) (\<lambda>nap2.
                   ebind (fill_call sysaddr (vPRead vt ndp (ucast buffer_bytes) (le_word bs)) nap2)
                     (\<lambda>(pread_result, nap3).
                   ebind (NaClVmIoHasEnded nap3 usr_addr (usr_addr + buffer_bytes - 1)) (\<lambda>nap4.
                     Inr (to_int32 pread_result, nap4)))))"

definition NaClSysPRead ::
    "'h desc_vtbl \<Rightarrow> ('h, 'z) fd_app_scheme \<Rightarrow> u32 \<Rightarrow> u32 \<Rightarrow> u32 \<Rightarrow> u32 \<Rightarrow> (int \<times> ('h, 'z) fd_app_scheme) exec" where
  "NaClSysPRead vt nap desc usr_addr buffer_bytes offset_addr =
     with_desc vt nap desc (pread_work vt usr_addr buffer_bytes offset_addr)"

definition pwrite_work ::
    "'h desc_vtbl \<Rightarrow> u32 \<Rightarrow> u32 \<Rightarrow> u32 \<Rightarrow> nat \<Rightarrow> ('h, 'z) fd_app_scheme \<Rightarrow> (int \<times> ('h, 'z) fd_app_scheme) exec" where
  "pwrite_work vt usr_addr buffer_bytes offset_addr ndp nap1 =
     ebind (NaClCopyInFromUser nap1 (ucast offset_addr) 8) (\<lambda>copied.
       case copied of
         None \<Rightarrow> Inr (- NACL_ABI_EFAULT, nap1)
       | Some bs \<Rightarrow>
           let sysaddr = NaClUserToSysAddrRange nap1 (ucast usr_addr) (ucast buffer_bytes)
           in if kNaClBadAddress = sysaddr then Inr (- NACL_ABI_EFAULT, nap1)
              else ebind (NaClVmIoWillStart nap1 usr_addr (usr_addr + buffer_bytes - 1)) (\<lambda>nap2.
                   ebind (host_call (vPWrite vt ndp (read_bytes sysaddr (unat buffer_bytes) (fa_mem nap2))
                       (le_word bs)) nap2) (\<lambda>(pwrite_result, nap3).
                   ebind (NaClVmIoHasEnded nap3 usr_addr (usr_addr + buffer_bytes - 1)) (\<lambda>nap4.
                     Inr (to_int32 pwrite_result, nap4)))))"

definition NaClSysPWrite ::
    "'h desc_vtbl \<Rightarrow> ('h, 'z) fd_app_scheme \<Rightarrow> u32 \<Rightarrow> u32 \<Rightarrow> u32 \<Rightarrow> u32 \<Rightarrow> (int \<times> ('h, 'z) fd_app_scheme) exec" where
  "NaClSysPWrite vt nap desc usr_addr buffer_bytes offset_addr =
     with_desc vt nap desc (pwrite_work vt usr_addr buffer_bytes offset_addr)"

text \<open>\<open>rng\<close> is the output of the secure random number generator, byte by byte.\<close>

definition NaClSysGetRandomBytes ::
    "(nat \<Rightarrow> u8) \<Rightarrow> ('h, 'z) fd_app_scheme \<Rightarrow> u32 \<Rightarrow> u32 \<Rightarrow> (int \<times> ('h, 'z) fd_app_scheme) exec" where
  "NaClSysGetRandomBytes rng nap buf_addr buf_size =
     (let sysaddr = NaClUserToSysAddrRange nap (ucast buf_addr) (ucast buf_size)
      in if sysaddr = kNaClBadAddress then Inr (- NACL_ABI_EFAULT, nap)
         else ebind (NaClVmIoWillStart nap buf_addr (buf_addr + buf_size - 1)) (\<lambda>nap1.
           ebind (user_access nap1 True sysaddr (unat buf_size)) (\<lambda>_.
           let nap2 = nap1\<lparr>fa_mem := write_bytes sysaddr (map rng [0 ..< unat buf_size]) (fa_mem nap1)\<rparr>
           in ebind (NaClVmIoHasEnded nap2 buf_addr (buf_addr + buf_size - 1)) (\<lambda>nap3.
                Inr (0, nap3)))))"

section \<open>Arguments and results in memory\<close>

definition lseek_work ::
    "'h desc_vtbl \<Rightarrow> u32 \<Rightarrow> int \<Rightarrow> nat \<Rightarrow> ('h, 'z) fd_app_scheme \<Rightarrow> (int \<times> ('h, 'z) fd_app_scheme) exec" where
  "lseek_work vt offp whence ndp nap1 =
     ebind (NaClCopyInFromUser nap1 (ucast offp) 8) (\<lambda>copied.
       case copied of
         None \<Rightarrow> Inr (- NACL_ABI_EFAULT, nap1)
       | Some bs \<Rightarrow>
           let (retval64, h) = vSeek vt ndp (le_word bs) whence (host nap1);
               nap2 = nap1\<lparr>host := h\<rparr>
           in if NaClOff64IsNegErrno retval64 then Inr (to_int32 (sint retval64), nap2)
              else ebind (NaClCopyOutToUser nap2 (ucast offp) (le_bytes 8 retval64)) (\<lambda>copied.
                     case copied of
                       Some nap3 \<Rightarrow> Inr (0, nap3)
                     | None \<Rightarrow> Inl Log_fatal))"

definition NaClSysLseek :: "'h desc_vtbl \<Rightarrow> ('h, 'z) fd_app_scheme \<Rightarrow> u32 \<Rightarrow> u32 \<Rightarrow> int \<Rightarrow> (int \<times> ('h, 'z) fd_app_scheme) exec" where
  "NaClSysLseek vt nap d offp whence =
     with_desc vt nap d (lseek_work vt offp whence)"

text \<open>
  The result of \<open>Fstat\<close> is the \<open>struct nacl_abi_stat\<close> as bytes; \<open>st_ino\<close> are bytes 8 to 15.
\<close>

definition fstat_work ::
    "bool \<Rightarrow> bool \<Rightarrow> 'h desc_vtbl \<Rightarrow> u32 \<Rightarrow> nat \<Rightarrow> ('h, 'z) fd_app_scheme \<Rightarrow> (int \<times> ('h, 'z) fd_app_scheme) exec" where
  "fstat_work bypass rootdir vt nasp ndp nap1 =
     (let (retval, result, h) = vFstat vt ndp (host nap1);
           nap2 = nap1\<lparr>host := h\<rparr>
       in if retval = 0 then
            (let result1 = (if \<not> NaClFileAccessEnabled bypass rootdir
                            then take 8 result @ le_bytes 8 NACL_FAKE_INODE_NUM @ drop 16 result
                            else result)
             in ebind (NaClCopyOutToUser nap2 (ucast nasp) result1) (\<lambda>copied.
                  case copied of
                    Some nap3 \<Rightarrow> Inr (0, nap3)
                  | None \<Rightarrow> Inr (- NACL_ABI_EFAULT, nap2)))
          else Inr (retval, nap2))"

definition NaClSysFstat ::
    "bool \<Rightarrow> bool \<Rightarrow> 'h desc_vtbl \<Rightarrow> ('h, 'z) fd_app_scheme \<Rightarrow> u32 \<Rightarrow> u32 \<Rightarrow> (int \<times> ('h, 'z) fd_app_scheme) exec" where
  "NaClSysFstat bypass rootdir vt nap d nasp =
     with_desc vt nap d (fstat_work bypass rootdir vt nasp)"

definition ftruncate_work ::
    "'h desc_vtbl \<Rightarrow> u32 \<Rightarrow> nat \<Rightarrow> ('h, 'z) fd_app_scheme \<Rightarrow> (int \<times> ('h, 'z) fd_app_scheme) exec" where
  "ftruncate_work vt lengthp ndp nap1 =
     ebind (NaClCopyInFromUser nap1 (ucast lengthp) 8) (\<lambda>copied.
       case copied of
         None \<Rightarrow> Inr (- NACL_ABI_EFAULT, nap1)
       | Some bs \<Rightarrow> host_call (vFtruncate vt ndp (le_word bs)) nap1)"

definition NaClSysFtruncate :: "'h desc_vtbl \<Rightarrow> ('h, 'z) fd_app_scheme \<Rightarrow> u32 \<Rightarrow> u32 \<Rightarrow> (int \<times> ('h, 'z) fd_app_scheme) exec" where
  "NaClSysFtruncate vt nap d lengthp =
     with_desc vt nap d (ftruncate_work vt lengthp)"

end
