(* ===== verification/FdInv.thy ===== *)
theory FdInv
  imports FdCalls
begin

text \<open>
  The invariant of the descriptor state: the reference count of every live descriptor is the
  number of table slots that hold it plus the references held elsewhere, the table is well
  formed, and the tree of pending I/O holds the ranges of the calls in progress. \<open>desc_body\<close> is
  the contract between \<open>with_desc\<close> and the part of a system call that runs while it holds the
  descriptor; every call is an interpretation of it.
\<close>

section \<open>Counting references\<close>

definition holds_in :: "(nat \<Rightarrow> nat option) \<Rightarrow> nat \<Rightarrow> nat" where
  "holds_in f n = card {i. f i = Some n}"

definition refs_are :: "(nat \<Rightarrow> u64 option) \<Rightarrow> (nat \<Rightarrow> nat) \<Rightarrow> bool" where
  "refs_are R f \<longleftrightarrow> (\<forall>n. case R n of None \<Rightarrow> f n = 0 | Some c \<Rightarrow> 0 < unat c \<and> unat c = f n)"

lemma refs_are_pos: "refs_are R f \<Longrightarrow> 0 < f n \<Longrightarrow> \<exists>c. R n = Some c \<and> unat c = f n"
  unfolding refs_are_def by (drule spec [of _ n]) (auto split: option.splits)

lemma refs_update:
  assumes "refs_are R f" "case x of None \<Rightarrow> v = 0 | Some c \<Rightarrow> 0 < unat c \<and> unat c = v"
  shows "refs_are (R(n := x)) (f(n := v))"
  unfolding refs_are_def
proof
  fix k
  have "case R k of None \<Rightarrow> f k = 0 | Some c \<Rightarrow> 0 < unat c \<and> unat c = f k"
    using assms(1) by (simp add: refs_are_def)
  then show "case (R(n := x)) k of None \<Rightarrow> (f(n := v)) k = 0
      | Some c \<Rightarrow> 0 < unat c \<and> unat c = (f(n := v)) k"
    using assms(2) by (cases "k = n") (simp_all split: option.splits)
qed

lemma holds_in_update:
  assumes "finite (dom f)"
  shows "holds_in (f(i := x)) n + (if f i = Some n then 1 else 0) = holds_in f n + (if x = Some n then 1 else 0)"
proof -
  let ?A = "{j. j \<noteq> i \<and> f j = Some n}"
  have fin: "finite ?A" by (rule finite_subset [OF _ assms]) auto
  have "{j. (f(i := x)) j = Some n} = (if x = Some n then insert i ?A else ?A)" by auto
  then have 1: "holds_in (f(i := x)) n = card ?A + (if x = Some n then 1 else 0)"
    using fin by (simp add: holds_in_def)
  have "{j. f j = Some n} = (if f i = Some n then insert i ?A else ?A)" by auto
  then have "holds_in f n = card ?A + (if f i = Some n then 1 else 0)" using fin by (simp add: holds_in_def)
  with 1 show ?thesis by simp
qed

lemma holds_in_pos: "finite (dom f) \<Longrightarrow> f i = Some n \<Longrightarrow> 0 < holds_in f n"
  using holds_in_update [of f i None n] by simp

lemma table_finite: "da_wf t \<Longrightarrow> finite (dom (DynArrayGet t))"
  by (rule finite_subset [of _ "{..< ptr_array_space t}"]) (auto simp: da_get split: if_splits)

section \<open>The invariant\<close>

text \<open>
  \<open>E\<close> counts the references held outside the table; \<open>S\<close> and \<open>F\<close> are the first and last addresses
  of the pending ranges.
\<close>

definition fd_inv ::
    "(nat \<Rightarrow> nat) \<Rightarrow> u32 multiset \<Rightarrow> u32 multiset \<Rightarrow> ('h, 'z) fd_app_scheme \<Rightarrow> bool" where
  "fd_inv E S F nap \<longleftrightarrow> space_ok nap \<and> da_wf (desc_tbl nap)
     \<and> refs_are (nd_refs nap) (\<lambda>n. holds_in (DynArrayGet (desc_tbl nap)) n + E n)
     \<and> tree_inv (mem_io_regions nap) S F \<and> size S + size F + 2 < 2 ^ 32"

text \<open>
  What the virtual methods promise: they stay within the buffer they are given, and \<open>Fstat\<close> fills
  in the 104 bytes of \<open>struct nacl_abi_stat\<close>.
\<close>

definition vt_ok :: "'h desc_vtbl \<Rightarrow> bool" where
  "vt_ok vt \<longleftrightarrow> (\<forall>n c h. length (fst (snd (vRead vt n c h))) \<le> unat c)
     \<and> (\<forall>n c q h. length (fst (snd (vPRead vt n c q h))) \<le> unat c)
     \<and> (\<forall>n c h. length (fst (snd (vGetdents vt n c h))) \<le> unat c)
     \<and> (\<forall>n h. length (fst (snd (vFstat vt n h))) = 104)"

text \<open>
  The address space and what is not part of the descriptor state stay, and trusted code writes only
  inside the sandbox.
\<close>

definition confined :: "('h, 'z) fd_app_scheme \<Rightarrow> ('h, 'z) fd_app_scheme \<Rightarrow> bool" where
  "confined nap nap' \<longleftrightarrow> mem_start nap' = mem_start nap \<and> addr_bits nap' = addr_bits nap
     \<and> bundle_size nap' = bundle_size nap \<and> dynamic_text_start nap' = dynamic_text_start nap
     \<and> dynamic_text_end nap' = dynamic_text_end nap \<and> fd_app.more nap' = fd_app.more nap
     \<and> access_faults nap' = access_faults nap
     \<and> (\<forall>x. fa_mem nap' x \<noteq> fa_mem nap x \<longrightarrow> NaClIsUserAddr nap x)"

lemma user_addr_same:
  "mem_start nap' = mem_start nap \<Longrightarrow> addr_bits nap' = addr_bits nap
    \<Longrightarrow> NaClIsUserAddr nap' x = NaClIsUserAddr nap x"
  by (simp add: NaClIsUserAddr_def addr_limit_def)

lemma confined_faults: "confined nap nap' \<Longrightarrow> access_faults nap' = access_faults nap"
  by (simp add: confined_def)

lemma confined_refl [simp]: "confined nap nap"
  by (simp add: confined_def)

lemma confined_trans: "confined a b \<Longrightarrow> confined b c \<Longrightarrow> confined a c"
  unfolding confined_def using user_addr_same [of b a] by metis

text \<open>
  An outcome keeps the invariant. What does not return is a deliberate abort, or an access that the
  host's page protection stops. If the methods keep their promise, memory outside the sandbox is
  not written.
\<close>

definition outcome_ok ::
    "'h desc_vtbl \<Rightarrow> (nat \<Rightarrow> nat) \<Rightarrow> u32 multiset \<Rightarrow> u32 multiset \<Rightarrow> ('h, 'z) fd_app_scheme
      \<Rightarrow> (int \<times> ('h, 'z) fd_app_scheme) exec \<Rightarrow> bool" where
  "outcome_ok vt E S F nap res \<longleftrightarrow>
     (case res of
        Inl e \<Rightarrow> stopped nap e
      | Inr (r, nap') \<Rightarrow> fd_inv E S F nap' \<and> access_faults nap' = access_faults nap \<and> (vt_ok vt \<longrightarrow> confined nap nap'))"

lemma outcome_ok_simps [simp]:
  "outcome_ok vt E S F nap (Inl e) = stopped nap e"
  "outcome_ok vt E S F nap (Inr (r, nap'))
     = (fd_inv E S F nap' \<and> access_faults nap' = access_faults nap \<and> (vt_ok vt \<longrightarrow> confined nap nap'))"
  by (simp_all add: outcome_ok_def)

lemma fd_inv_host [simp]: "fd_inv E S F (nap\<lparr>host := h\<rparr>) = fd_inv E S F nap"
  by (simp add: fd_inv_def space_ok_def)

lemma fd_inv_mem [simp]: "fd_inv E S F (nap\<lparr>fa_mem := m\<rparr>) = fd_inv E S F nap"
  by (simp add: fd_inv_def space_ok_def)

lemma confined_host [simp]: "confined nap (nap'\<lparr>host := h\<rparr>) = confined nap nap'"
  by (simp add: confined_def)

section \<open>References\<close>

lemma Ref_ok:
  assumes "fd_inv E S F nap" "0 < holds_in (DynArrayGet (desc_tbl nap)) n + E n"
  shows "nd_refs nap n = Some (- 1) \<and> NaClRefCountRef n nap = Inl Log_fatal \<or>
    (\<exists>nap'. NaClRefCountRef n nap = Inr nap' \<and> fd_inv (E(n := E n + 1)) S F nap' \<and> confined nap nap'
      \<and> desc_tbl nap' = desc_tbl nap \<and> host nap' = host nap \<and> fa_mem nap' = fa_mem nap)"
proof -
  let ?f = "\<lambda>n. holds_in (DynArrayGet (desc_tbl nap)) n + E n"
  have R: "refs_are (nd_refs nap) ?f" using assms(1) by (simp add: fd_inv_def)
  obtain c where c: "nd_refs nap n = Some c" "unat c = ?f n" using refs_are_pos [OF R assms(2)] by blast
  show ?thesis
  proof (cases "c + 1 = 0")
    case True
    then have "c = - 1" by (simp add: eq_neg_iff_add_eq_0)
    then show ?thesis using c by (simp add: NaClRefCountRef_def)
  next
    case False
    then have "unat (c + 1) = Suc (unat c)" by (simp add: unatSuc add.commute)
    then have "refs_are ((nd_refs nap)(n \<mapsto> c + 1)) (?f(n := ?f n + 1))"
      using c by (intro refs_update [OF R]) simp
    moreover have "?f(n := ?f n + 1) = (\<lambda>k. holds_in (DynArrayGet (desc_tbl nap)) k + (E(n := E n + 1)) k)"
      by (auto simp: fun_eq_iff)
    ultimately show ?thesis using False c(1) assms(1)
      by (auto simp: NaClRefCountRef_def fd_inv_def confined_def space_ok_def eq_commute [of 0])
  qed
qed

lemma Unref_refs:
  assumes "refs_are (nd_refs nap) f" "0 < f n"
  shows "\<exists>R h. NaClRefCountUnref vt n nap = Inr (nap\<lparr>nd_refs := R, host := h\<rparr>) \<and> refs_are R (f(n := f n - 1))"
proof -
  obtain c where c: "nd_refs nap n = Some c" "unat c = f n" using refs_are_pos [OF assms] by blast
  have c0: "c \<noteq> 0" using c(2) assms(2) by auto
  then have m: "unat (c - 1) = f n - 1" using c(2) unat_minus_one [of c] by simp
  show ?thesis
  proof (cases "c - 1 = 0")
    case True
    then have "f n - 1 = 0" using m by simp
    then have "refs_are ((nd_refs nap)(n := None)) (f(n := f n - 1))" by (intro refs_update [OF assms(1)]) simp
    then show ?thesis using c c0 True by (auto simp: NaClRefCountUnref_def)
  next
    case False
    then have "unat (c - 1) \<noteq> 0" by (simp add: unat_eq_zero)
    then have "refs_are ((nd_refs nap)(n \<mapsto> c - 1)) (f(n := f n - 1))"
      using m by (intro refs_update [OF assms(1)]) simp
    moreover have "NaClRefCountUnref vt n nap
        = Inr (nap\<lparr>nd_refs := (nd_refs nap)(n \<mapsto> c - 1), host := host nap\<rparr>)"
      using c c0 False by (simp add: NaClRefCountUnref_def)
    ultimately show ?thesis by blast
  qed
qed

text \<open>The references that giving away \<open>x\<close> gives.\<close>

definition given :: "nat option \<Rightarrow> nat \<Rightarrow> nat" where
  "given x n = (if x = Some n then 1 else 0)"

lemma SafeUnref_refs:
  assumes "refs_are (nd_refs nap) f" "\<And>m. x = Some m \<Longrightarrow> 0 < f m"
  shows "\<exists>R h. NaClRefCountSafeUnref vt x nap = Inr (nap\<lparr>nd_refs := R, host := h\<rparr>)
    \<and> refs_are R (\<lambda>n. f n - given x n)"
proof (cases x)
  case None
  then have "NaClRefCountSafeUnref vt x nap = Inr (nap\<lparr>nd_refs := nd_refs nap, host := host nap\<rparr>)"
    by (simp add: NaClRefCountSafeUnref_def)
  moreover have "refs_are (nd_refs nap) (\<lambda>n. f n - given x n)" using assms(1) None by (simp add: given_def)
  ultimately show ?thesis by blast
next
  case (Some m)
  have "f(m := f m - 1) = (\<lambda>n. f n - given x n)" using Some by (auto simp: given_def fun_eq_iff)
  then show ?thesis using Unref_refs [OF assms(1) assms(2) [OF Some], of vt] Some
    by (simp add: NaClRefCountSafeUnref_def)
qed

lemma Unref_ok:
  assumes "fd_inv (E(n := E n + 1)) S F nap"
  shows "\<exists>nap'. NaClRefCountUnref vt n nap = Inr nap' \<and> fd_inv E S F nap' \<and> confined nap nap'
    \<and> desc_tbl nap' = desc_tbl nap \<and> fa_mem nap' = fa_mem nap"
proof -
  let ?f = "\<lambda>k. holds_in (DynArrayGet (desc_tbl nap)) k + (E(n := E n + 1)) k"
  have R: "refs_are (nd_refs nap) ?f" using assms by (simp add: fd_inv_def)
  obtain R' h where u: "NaClRefCountUnref vt n nap = Inr (nap\<lparr>nd_refs := R', host := h\<rparr>)"
    "refs_are R' (?f(n := ?f n - 1))" using Unref_refs [OF R, of n vt] by auto
  have "?f(n := ?f n - 1) = (\<lambda>k. holds_in (DynArrayGet (desc_tbl nap)) k + E k)" by (auto simp: fun_eq_iff)
  then show ?thesis using u assms by (auto simp: fd_inv_def confined_def space_ok_def)
qed

section \<open>The descriptor table\<close>

text \<open>No further reference to the descriptor can be counted.\<close>

definition refs_full :: "('h, 'z) fd_app_scheme \<Rightarrow> u32 \<Rightarrow> bool" where
  "refs_full nap d \<longleftrightarrow>
     (case DynArrayGet (desc_tbl nap) (fd_index d) of None \<Rightarrow> False | Some n \<Rightarrow> nd_refs nap n = Some (- 1))"

lemma GetDesc_ok:
  assumes "fd_inv E S F nap"
  shows "refs_full nap d \<and> NaClAppGetDesc nap d = Inl Log_fatal \<or> NaClAppGetDesc nap d = Inr (None, nap) \<or>
    (\<exists>n nap'. DynArrayGet (desc_tbl nap) (fd_index d) = Some n \<and> NaClAppGetDesc nap d = Inr (Some n, nap')
      \<and> fd_inv (E(n := E n + 1)) S F nap' \<and> confined nap nap' \<and> desc_tbl nap' = desc_tbl nap
      \<and> host nap' = host nap \<and> fa_mem nap' = fa_mem nap)"
proof (cases "DynArrayGet (desc_tbl nap) (fd_index d)")
  case None
  then show ?thesis by (simp add: NaClAppGetDesc_def NaClAppGetDescMu_def)
next
  case (Some n)
  have "finite (dom (DynArrayGet (desc_tbl nap)))" using assms by (simp add: fd_inv_def table_finite)
  then have p: "0 < holds_in (DynArrayGet (desc_tbl nap)) n + E n" using holds_in_pos Some by (simp add: trans_less_add1)
  show ?thesis using Ref_ok [OF assms p]
  proof (elim disjE exE conjE)
    fix nap'
    assume "NaClRefCountRef n nap = Inr nap'" "fd_inv (E(n := E n + 1)) S F nap'" "confined nap nap'"
      "desc_tbl nap' = desc_tbl nap" "host nap' = host nap" "fa_mem nap' = fa_mem nap"
    then show ?thesis using Some
      by (intro disjI2 exI [of _ n] exI [of _ nap']) (simp add: NaClAppGetDesc_def NaClAppGetDescMu_def)
  qed (simp add: NaClAppGetDesc_def NaClAppGetDescMu_def refs_full_def Some)
qed

text \<open>Storing a descriptor hands one reference to the table; the old one is dropped.\<close>

lemma SetDesc_ok:
  assumes inv: "fd_inv (\<lambda>n. E n + given x n) S F nap" and small: "fd_index d < 2 ^ 60"
  shows "env \<noteq> (True, True) \<and> NaClAppSetDescMu vt env nap d x = Inl Log_fatal \<or>
    (\<exists>nap'. NaClAppSetDescMu vt env nap d x = Inr nap' \<and> fd_inv E S F nap' \<and> confined nap nap'
      \<and> DynArrayGet (desc_tbl nap') = (DynArrayGet (desc_tbl nap))(fd_index d := x) \<and> fa_mem nap' = fa_mem nap)"
proof -
  let ?g = "DynArrayGet (desc_tbl nap)" and ?i = "fd_index d"
  let ?f = "\<lambda>n. holds_in ?g n + (E n + given x n)"
  have wf: "da_wf (desc_tbl nap)" and R: "refs_are (nd_refs nap) ?f" using inv by (simp_all add: fd_inv_def)
  have fin: "finite (dom ?g)" using wf by (rule table_finite)
  have pos: "0 < ?f m" if "?g ?i = Some m" for m using holds_in_pos [OF fin that] by simp
  obtain R1 h1 where u: "NaClRefCountSafeUnref vt (?g ?i) nap = Inr (nap\<lparr>nd_refs := R1, host := h1\<rparr>)"
    "refs_are R1 (\<lambda>n. ?f n - given (?g ?i) n)" using SafeUnref_refs [OF R pos, of "?g ?i" vt] by blast
  obtain ok t where s: "DynArraySet (fst env) (snd env) (desc_tbl nap) ?i x = (ok, t)" by fastforce
  show ?thesis
  proof (cases ok)
    case False
    then have "env \<noteq> (True, True)" using DynArraySet_ok(4) [OF wf small, of True True x] s by auto
    then show ?thesis using u s False by (simp add: NaClAppSetDescMu_def)
  next
    case True
    have g: "DynArrayGet t = ?g(?i := x)"
      using da.set_get [OF wf small, of env x] s True by (cases env) simp
    have t: "da_wf t" using da.set_inv [OF wf small, of env x] s by (cases env) simp
    have "?f n - given (?g ?i) n = holds_in (?g(?i := x)) n + E n" for n
      using holds_in_update [OF fin, of ?i x n] by (auto simp: given_def)
    then have "refs_are R1 (\<lambda>n. holds_in (DynArrayGet t) n + E n)" using u(2) g by simp
    then have "fd_inv E S F (nap\<lparr>nd_refs := R1, host := h1, desc_tbl := t\<rparr>)"
      using inv t by (simp add: fd_inv_def space_ok_def)
    moreover have "NaClAppSetDescMu vt env nap d x = Inr (nap\<lparr>nd_refs := R1, host := h1, desc_tbl := t\<rparr>)"
      using u(1) s True by (simp add: NaClAppSetDescMu_def)
    moreover have "confined nap (nap\<lparr>nd_refs := R1, host := h1, desc_tbl := t\<rparr>)" by (simp add: confined_def)
    ultimately show ?thesis using g by simp
  qed
qed

end
