(* ===== verification/FdContract.thy ===== *)
theory FdContract
  imports FdInv
begin

text \<open>
  Every descriptor system call keeps the invariant. The calls that hold a descriptor while they
  work are interpretations of the contract \<open>desc_body\<close>; \<open>fd_exec\<close> dispatches one call and
  \<open>fd_run\<close> runs a program of calls.
\<close>

section \<open>The contract of a call that holds a descriptor\<close>

locale desc_body =
  fixes vt :: "'h desc_vtbl"
    and body :: "nat \<Rightarrow> ('h, 'z) fd_app_scheme \<Rightarrow> (int \<times> ('h, 'z) fd_app_scheme) exec"
  assumes body_ok: "fd_inv E S F nap \<Longrightarrow> outcome_ok vt E S F nap (body n nap)"
begin

text \<open>The reference taken for the call is dropped again on every path.\<close>

lemma call_ok:
  assumes inv: "fd_inv E S F nap"
  shows "outcome_ok vt E S F nap (with_desc vt nap d body)"
  using GetDesc_ok [OF inv, of d]
proof (elim disjE exE conjE)
  fix n nap1
  assume g: "NaClAppGetDesc nap d = Inr (Some n, nap1)" "fd_inv (E(n := E n + 1)) S F nap1" "confined nap nap1"
  show ?thesis
  proof (cases "body n nap1")
    case (Inl e)
    then show ?thesis using body_ok [OF g(2), of n] g(1) stopped_same [OF confined_faults [OF g(3)]]
      by (simp add: with_desc_def)
  next
    case (Inr res)
    obtain r nap2 where res: "body n nap1 = Inr (r, nap2)" using Inr by (cases res) simp
    then have b: "fd_inv (E(n := E n + 1)) S F nap2" "vt_ok vt \<longrightarrow> confined nap1 nap2"
      "access_faults nap2 = access_faults nap1"
      using body_ok [OF g(2), of n] by simp_all
    obtain nap3 where u: "NaClRefCountUnref vt n nap2 = Inr nap3" "fd_inv E S F nap3" "confined nap2 nap3"
      using Unref_ok [OF b(1)] by blast
    have "with_desc vt nap d body = Inr (r, nap3)" using g(1) res u(1) by (simp add: with_desc_def)
    moreover have "access_faults nap3 = access_faults nap" using b(3) confined_faults [OF u(3)] confined_faults [OF g(3)] by simp
    ultimately show ?thesis using u(2,3) b(2) g(3) by (auto intro: confined_trans)
  qed
qed (simp_all add: with_desc_def inv)

lemma closed_fd:
  "DynArrayGet (desc_tbl nap) (fd_index d) = None \<Longrightarrow> with_desc vt nap d body = Inr (- NACL_ABI_EBADF, nap)"
  by (simp add: with_desc_def NaClAppGetDesc_def NaClAppGetDescMu_def)

end

section \<open>Writing to the sandbox\<close>

lemma write_inside:
  assumes "space_ok nap" "NaClUserToSysAddrRange nap u n = s" "s \<noteq> kNaClBadAddress" "length bs \<le> unat n"
    and "write_bytes s bs m x \<noteq> m x"
  shows "NaClIsUserAddr nap x \<and> unat s \<le> unat x \<and> unat x < unat s + length bs"
proof -
  have r: "unat u + unat n \<le> unat (addr_limit nap)" "s = u + mem_start nap" using range_ok [OF assms(1-3)] by simp_all
  have s: "unat s = unat u + unat (mem_start nap)"
    using r unat_user_to_sys [OF assms(1), of u] by simp
  have t: "unat (mem_start nap) + unat (addr_limit nap) \<le> 2 ^ 47" by (rule space_top [OF assms(1)])
  have "unat s + length bs \<le> unat (mem_start nap) + unat (addr_limit nap)" using s r(1) assms(4) by linarith
  moreover from this have "unat s + length bs \<le> 2 ^ 64" using t by simp
  then have "\<not> (unat x < unat s \<or> unat s + length bs \<le> unat x)"
    using write_bytes_other [of s bs x m] assms(5) by blast
  ultimately show ?thesis using s by (simp add: NaClIsUserAddr_iff [OF assms(1)])
qed

lemma write_confined:
  assumes "space_ok nap" "NaClUserToSysAddrRange nap u n = s" "s \<noteq> kNaClBadAddress" "length bs \<le> unat n"
    and "confined nap nap'" "fa_mem nap' = fa_mem nap"
  shows "confined nap (nap'\<lparr>fa_mem := write_bytes s bs (fa_mem nap')\<rparr>)"
  using write_inside [OF assms(1-4)] assms(5,6) by (auto simp: confined_def)

lemma CopyOut_ok:
  assumes "fd_inv E S F nap" "NaClCopyOutToUser nap a bs = Inr (Some nap')"
  shows "fd_inv E S F nap' \<and> access_faults nap' = access_faults nap \<and> (length bs < 2 ^ 32 \<longrightarrow> confined nap nap')"
proof -
  let ?s = "NaClUserToSysAddrRange nap a (of_nat (length bs))"
  have s: "?s \<noteq> kNaClBadAddress" "nap' = nap\<lparr>fa_mem := write_bytes ?s bs (fa_mem nap)\<rparr>"
    using copy_out_Some [OF assms(2)] by simp_all
  have "confined nap nap'" if "length bs < 2 ^ 32"
  proof -
    have "length bs \<le> unat (of_nat (length bs) :: u64)" using that by (simp add: unat_of_nat)
    then show ?thesis unfolding s(2)
      using assms(1) by (intro write_confined [OF _ refl s(1)]) (simp_all add: fd_inv_def)
  qed
  then show ?thesis using assms(1) s(2) by simp
qed

section \<open>Pending ranges\<close>

text \<open>The range of a call is entered before the method runs and taken out after it.\<close>

lemma io_start:
  assumes "fd_inv E S F nap"
  shows "\<exists>t. NaClVmIoWillStart nap a b = Inr (nap\<lparr>mem_io_regions := t\<rparr>)
    \<and> tree_inv t (add_mset a S) (add_mset b F)"
proof -
  have i: "tree_inv (mem_io_regions nap) S F" "size S + size F + 2 < 2 ^ 32"
    using assms by (simp_all add: fd_inv_def)
  obtain t1 h1 where 1: "NaClAvlTreeInsert (mem_io_regions nap) (NaClIntervalRangeTreeNodeInit a 1) = Inr (t1, h1)"
    "tree_inv t1 (add_mset a S) F" using Insert_inv(1) [OF i(1), of a] i(2) by auto
  obtain t2 h2 where 2: "NaClAvlTreeInsert t1 (NaClIntervalRangeTreeNodeInit b (- 1)) = Inr (t2, h2)"
    "tree_inv t2 (add_mset a S) (add_mset b F)" using Insert_inv(2) [OF 1(2), of b] i(2) by auto
  show ?thesis using 1(1) 2
    by (intro exI [of _ t2]) (simp add: NaClVmIoWillStart_def NaClIntervalRangeTreeAddInterval_def)
qed

lemma io_end:
  assumes "tree_inv (mem_io_regions nap) (add_mset a S) (add_mset b F)"
  shows "\<exists>t. NaClVmIoHasEnded nap a b = Inr (nap\<lparr>mem_io_regions := t\<rparr>) \<and> tree_inv t S F"
proof -
  obtain t1 where 1: "NaClIntervalRangeTreeRemoveVal (mem_io_regions nap) b (- 1) = Inr t1"
    "tree_inv t1 (add_mset a S) F" using Remove_inv(2) [OF assms] by blast
  obtain t2 where 2: "NaClIntervalRangeTreeRemoveVal t1 a 1 = Inr t2" "tree_inv t2 S F"
    using Remove_inv(1) [OF 1(2)] by blast
  show ?thesis using 1(1) 2
    by (intro exI [of _ t2]) (simp add: NaClVmIoHasEnded_def NaClIntervalRangeTreeRemoveInterval_def)
qed

lemma fd_inv_regions:
  "fd_inv E S F nap \<Longrightarrow> tree_inv t S F \<Longrightarrow> fd_inv E S F (nap\<lparr>mem_io_regions := t\<rparr>)"
  by (simp add: fd_inv_def space_ok_def)

lemma fd_inv_all:
  "fd_inv E S F (nap\<lparr>fa_mem := m, host := h, mem_io_regions := t\<rparr>) = fd_inv E S F (nap\<lparr>mem_io_regions := t\<rparr>)"
  by (simp add: fd_inv_def space_ok_def)

text \<open>
  Whatever happens to the memory and the host while the range from \<open>a\<close> to \<open>b\<close> is pending, the
  range can be taken out again and the invariant holds.
\<close>

lemma bracket_ok:
  assumes inv: "fd_inv E S F nap"
  shows "\<exists>t. NaClVmIoWillStart nap a b = Inr (nap\<lparr>mem_io_regions := t\<rparr>)
    \<and> (\<forall>m h. \<exists>t'. NaClVmIoHasEnded (nap\<lparr>mem_io_regions := t, fa_mem := m, host := h\<rparr>) a b
          = Inr (nap\<lparr>fa_mem := m, host := h, mem_io_regions := t'\<rparr>)
        \<and> fd_inv E S F (nap\<lparr>fa_mem := m, host := h, mem_io_regions := t'\<rparr>))"
proof -
  obtain t where t: "NaClVmIoWillStart nap a b = Inr (nap\<lparr>mem_io_regions := t\<rparr>)"
    "tree_inv t (add_mset a S) (add_mset b F)" using io_start [OF inv] by blast
  have "\<exists>t'. NaClVmIoHasEnded (nap\<lparr>mem_io_regions := t, fa_mem := m, host := h\<rparr>) a b
          = Inr (nap\<lparr>fa_mem := m, host := h, mem_io_regions := t'\<rparr>)
        \<and> fd_inv E S F (nap\<lparr>fa_mem := m, host := h, mem_io_regions := t'\<rparr>)" for m h
  proof -
    obtain t' where "NaClVmIoHasEnded (nap\<lparr>mem_io_regions := t, fa_mem := m, host := h\<rparr>) a b
        = Inr (nap\<lparr>fa_mem := m, host := h, mem_io_regions := t'\<rparr>)" "tree_inv t' S F"
      using io_end [of "nap\<lparr>mem_io_regions := t, fa_mem := m, host := h\<rparr>" a S b F] t(2) by auto
    then show ?thesis using fd_inv_regions [OF inv, of t'] by (intro exI [of _ t']) (simp add: fd_inv_all)
  qed
  then show ?thesis using t(1) by blast
qed

section \<open>The calls\<close>

lemma host_call_ok: "fd_inv E S F nap \<Longrightarrow> outcome_ok vt E S F nap (host_call f nap)"
  by (simp add: host_call_def split_beta)

interpretation fchdir_call: desc_body vt "\<lambda>ndp. host_call (vFchdir vt ndp)" for vt
  by unfold_locales (rule host_call_ok)

interpretation fchmod_call: desc_body vt "\<lambda>ndp. host_call (vFchmod vt ndp mode)" for vt mode
  by unfold_locales (rule host_call_ok)

interpretation fsync_call: desc_body vt "\<lambda>ndp. host_call (vFsync vt ndp)" for vt
  by unfold_locales (rule host_call_ok)

interpretation fdatasync_call: desc_body vt "\<lambda>ndp. host_call (vFdatasync vt ndp)" for vt
  by unfold_locales (rule host_call_ok)

interpretation isatty_call: desc_body vt "\<lambda>ndp. host_call (vIsatty vt ndp)" for vt
  by unfold_locales (rule host_call_ok)

text \<open>
  The shape of the calls with a buffer: \<open>k\<close> makes the access \<open>acc\<close> and leaves the memory \<open>m\<close> and
  the host state \<open>h\<close>.
\<close>

lemma buffer_ok:
  assumes inv: "fd_inv E S F nap"
    and mem: "vt_ok vt \<Longrightarrow> confined nap (nap\<lparr>fa_mem := m\<rparr>)"
    and acc: "\<And>e. acc = Inl e \<Longrightarrow> stopped nap e"
    and cont: "\<And>t. k (nap\<lparr>mem_io_regions := t\<rparr>) = ebind acc (\<lambda>_ :: unit.
      ebind (NaClVmIoHasEnded (nap\<lparr>mem_io_regions := t, fa_mem := m, host := h\<rparr>) a b) (\<lambda>nap4. Inr (r, nap4)))"
  shows "outcome_ok vt E S F nap (ebind (NaClVmIoWillStart nap a b) k)"
proof -
  obtain t where t: "NaClVmIoWillStart nap a b = Inr (nap\<lparr>mem_io_regions := t\<rparr>)"
    "\<exists>t'. NaClVmIoHasEnded (nap\<lparr>mem_io_regions := t, fa_mem := m, host := h\<rparr>) a b
        = Inr (nap\<lparr>fa_mem := m, host := h, mem_io_regions := t'\<rparr>)
      \<and> fd_inv E S F (nap\<lparr>fa_mem := m, host := h, mem_io_regions := t'\<rparr>)"
    using bracket_ok [OF inv] by blast
  have "confined nap (nap\<lparr>fa_mem := m, host := h, mem_io_regions := t'\<rparr>)" if "vt_ok vt" for t'
    using mem [OF that] by (simp add: confined_def)
  then show ?thesis using t acc by (cases acc) (auto simp: cont)
qed

lemma copy_stopped:
  "NaClCopyInFromUser nap a k = Inl e \<Longrightarrow> stopped nap e"
  "NaClCopyOutToUser nap a bs = Inl e \<Longrightarrow> stopped nap e"
  by (drule copy_in_Inl, simp) (drule copy_out_Inl, simp)

lemma ebind_assoc: "ebind (ebind m f) g = ebind m (\<lambda>x. ebind (f x) g)"
  by (cases m) simp_all

lemma access_stopped: "user_access nap w a n = Inl e \<Longrightarrow> stopped nap e"
  by (drule user_access_Inl) simp

lemma read_confined:
  assumes "fd_inv E S F nap" "NaClUserToSysAddrRange nap u n \<noteq> kNaClBadAddress" "length bs \<le> unat n"
  shows "confined nap (nap\<lparr>fa_mem := write_bytes (NaClUserToSysAddrRange nap u n) bs (fa_mem nap)\<rparr>)"
  using write_confined [OF _ refl assms(2,3) confined_refl refl] assms(1) by (simp add: fd_inv_def)

lemma clamp_le: "unat (if c > 0x7fffffff then 0x7fffffff else c) \<le> unat (c :: u32)"
  "unat (if c' > 0x7fffffff then 0x7fffffff else c') \<le> unat (c' :: u64)"
  by (auto simp: word_less_nat_alt word_le_nat_alt)

lemma buffer_cases:
  assumes "fd_inv E S F nap"
    and "s \<noteq> kNaClBadAddress \<Longrightarrow> outcome_ok vt E S F nap res"
  shows "outcome_ok vt E S F nap (if kNaClBadAddress = s then Inr (- NACL_ABI_EFAULT, nap) else res)"
  using assms by (cases "s = kNaClBadAddress") simp_all

interpretation read_call: desc_body vt "read_work vt buf buf_count" for vt buf buf_count
proof
  fix E S F and nap :: "('a, 'z) fd_app_scheme" and n
  assume inv: "fd_inv E S F nap"
  let ?s = "NaClUserToSysAddrRange nap (ucast buf) (ucast buf_count)"
  let ?c = "if buf_count > 0x7fffffff then 0x7fffffff else buf_count"
  obtain r bs h where f: "vRead vt n (ucast ?c) (host nap) = (r, bs, h)" by (metis prod_cases3)
  have len: "length bs \<le> unat (ucast buf_count :: u64)" if "vt_ok vt"
  proof -
    have "length bs \<le> unat (ucast ?c :: u64)"
      using that f unfolding vt_ok_def by (metis fst_conv snd_conv)
    then show ?thesis using clamp_le(1) [of buf_count] unfolding unat_ucast_64 by linarith
  qed
  have "outcome_ok vt E S F nap (ebind (NaClVmIoWillStart nap buf (buf + ?c - 1)) (\<lambda>nap2.
      ebind (fill_call ?s (vRead vt n (ucast ?c)) nap2) (\<lambda>(read_result, nap3).
      ebind (NaClVmIoHasEnded nap3 buf (buf + ?c - 1)) (\<lambda>nap4. Inr (to_int32 read_result, nap4)))))"
    if "?s \<noteq> kNaClBadAddress"
    by (rule buffer_ok [OF inv read_confined [OF inv that len], where acc = "user_access nap True ?s (length bs)" and h = h])
      (use f in \<open>simp_all add: fill_call_def access_stopped ebind_assoc\<close>)
  then show "outcome_ok vt E S F nap (read_work vt buf buf_count n nap)"
    unfolding read_work_def Let_def by (rule buffer_cases [OF inv])
qed

interpretation write_call: desc_body vt "write_work vt buf buf_count" for vt buf buf_count
proof
  fix E S F and nap :: "('a, 'z) fd_app_scheme" and n
  assume inv: "fd_inv E S F nap"
  let ?s = "NaClUserToSysAddrRange nap (ucast buf) (ucast buf_count)"
  let ?c = "if buf_count > 0x7fffffff then 0x7fffffff else buf_count"
  obtain r h where f: "vWrite vt n (read_bytes ?s (unat ?c) (fa_mem nap)) (host nap) = (r, h)" by fastforce
  have "outcome_ok vt E S F nap (ebind (NaClVmIoWillStart nap buf (buf + ?c - 1)) (\<lambda>nap2.
      ebind (host_call (vWrite vt n (read_bytes ?s (unat ?c) (fa_mem nap2))) nap2) (\<lambda>(write_result, nap3).
      ebind (NaClVmIoHasEnded nap3 buf (buf + ?c - 1)) (\<lambda>nap4. Inr (to_int32 write_result, nap4)))))"
    by (rule buffer_ok [OF inv, where m = "fa_mem nap" and acc = "Inr ()" and h = h]) (use f in \<open>simp_all add: host_call_def\<close>)
  then show "outcome_ok vt E S F nap (write_work vt buf buf_count n nap)"
    unfolding write_work_def Let_def by (rule buffer_cases [OF inv])
qed

interpretation pread_call: desc_body vt "pread_work vt usr_addr buffer_bytes offset_addr"
  for vt usr_addr buffer_bytes offset_addr
proof
  fix E S F and nap :: "('a, 'z) fd_app_scheme" and n
  assume inv: "fd_inv E S F nap"
  let ?s = "NaClUserToSysAddrRange nap (ucast usr_addr) (ucast buffer_bytes)"
  have "outcome_ok vt E S F nap (ebind (NaClVmIoWillStart nap usr_addr (usr_addr + buffer_bytes - 1)) (\<lambda>nap2.
      ebind (fill_call ?s (vPRead vt n (ucast buffer_bytes) (le_word q)) nap2) (\<lambda>(pread_result, nap3).
      ebind (NaClVmIoHasEnded nap3 usr_addr (usr_addr + buffer_bytes - 1)) (\<lambda>nap4.
        Inr (to_int32 pread_result, nap4)))))" if nb: "?s \<noteq> kNaClBadAddress" for q
  proof -
    obtain r bs h where f: "vPRead vt n (ucast buffer_bytes) (le_word q) (host nap) = (r, bs, h)"
      by (metis prod_cases3)
    have len: "length bs \<le> unat (ucast buffer_bytes :: u64)" if "vt_ok vt"
      using that f unfolding vt_ok_def by (metis fst_conv snd_conv)
    show ?thesis
      by (rule buffer_ok [OF inv read_confined [OF inv nb len], where acc = "user_access nap True ?s (length bs)" and h = h])
        (use f in \<open>simp_all add: fill_call_def access_stopped ebind_assoc\<close>)
  qed
  then show "outcome_ok vt E S F nap (pread_work vt usr_addr buffer_bytes offset_addr n nap)"
    unfolding pread_work_def Let_def
    by (cases "NaClCopyInFromUser nap (ucast offset_addr) 8") (auto simp: inv copy_stopped split: option.splits)
qed

interpretation pwrite_call: desc_body vt "pwrite_work vt usr_addr buffer_bytes offset_addr"
  for vt usr_addr buffer_bytes offset_addr
proof
  fix E S F and nap :: "('a, 'z) fd_app_scheme" and n
  assume inv: "fd_inv E S F nap"
  let ?s = "NaClUserToSysAddrRange nap (ucast usr_addr) (ucast buffer_bytes)"
  have "outcome_ok vt E S F nap (ebind (NaClVmIoWillStart nap usr_addr (usr_addr + buffer_bytes - 1)) (\<lambda>nap2.
      ebind (host_call (vPWrite vt n (read_bytes ?s (unat buffer_bytes) (fa_mem nap2)) (le_word q)) nap2)
        (\<lambda>(pwrite_result, nap3).
      ebind (NaClVmIoHasEnded nap3 usr_addr (usr_addr + buffer_bytes - 1)) (\<lambda>nap4.
        Inr (to_int32 pwrite_result, nap4)))))" for q
  proof -
    obtain r h where f: "vPWrite vt n (read_bytes ?s (unat buffer_bytes) (fa_mem nap)) (le_word q) (host nap) = (r, h)"
      by fastforce
    show ?thesis
      by (rule buffer_ok [OF inv, where m = "fa_mem nap" and acc = "Inr ()" and h = h]) (use f in \<open>simp_all add: host_call_def\<close>)
  qed
  then show "outcome_ok vt E S F nap (pwrite_work vt usr_addr buffer_bytes offset_addr n nap)"
    unfolding pwrite_work_def Let_def
    by (cases "NaClCopyInFromUser nap (ucast offset_addr) 8") (auto simp: inv copy_stopped split: option.splits)
qed

interpretation getdents_call: desc_body vt "getdents_work vt dirp buf_count" for vt dirp buf_count
proof
  fix E S F and nap :: "('a, 'z) fd_app_scheme" and n
  assume inv: "fd_inv E S F nap"
  let ?s = "NaClUserToSysAddrRange nap (ucast dirp) buf_count"
  let ?c = "if buf_count > 0x7fffffff then 0x7fffffff else buf_count"
  obtain r bs h where f: "vGetdents vt n ?c (host nap) = (r, bs, h)" by (metis prod_cases3)
  have len: "length bs \<le> unat buf_count" if "vt_ok vt"
  proof -
    have "length bs \<le> unat ?c" using that f unfolding vt_ok_def by (metis fst_conv snd_conv)
    then show ?thesis using clamp_le(2) [of buf_count] by linarith
  qed
  show "outcome_ok vt E S F nap (getdents_work vt dirp buf_count n nap)"
  proof (cases "?s = kNaClBadAddress")
    case True
    then show ?thesis using inv by (simp add: getdents_work_def)
  next
    case False
    then show ?thesis using read_confined [OF inv False len] f inv
      by (cases "user_access nap True ?s (length bs)")
        (simp_all add: getdents_work_def fill_call_def access_stopped ebind_assoc eq_commute [of kNaClBadAddress] Let_def
          del: user_access_Inr)
  qed
qed

lemma CopyIn_Out:
  assumes "NaClCopyInFromUser nap a (length bs) = Inr (Some q)"
  shows "NaClCopyOutToUser (nap\<lparr>host := h\<rparr>) a bs \<noteq> Inr None"
  using assms by (auto simp: NaClCopyInFromUser_def NaClCopyOutToUser_def NaClUserToSysAddrRange_def
    addr_limit_def Let_def split: if_splits)

interpretation lseek_call: desc_body vt "lseek_work vt offp whence" for vt offp whence
proof
  fix E S F and nap :: "('a, 'z) fd_app_scheme" and n
  assume inv: "fd_inv E S F nap"
  show "outcome_ok vt E S F nap (lseek_work vt offp whence n nap)"
  proof (cases "NaClCopyInFromUser nap (ucast offp) 8")
    case (Inl e)
    then show ?thesis using copy_stopped(1) [OF Inl] by (simp add: lseek_work_def)
  next
    case in_ok: (Inr copied)
    show ?thesis
    proof (cases copied)
      case None
      then show ?thesis using inv in_ok by (simp add: lseek_work_def)
    next
      case (Some q)
      obtain r h where f: "vSeek vt n (le_word q) whence (host nap) = (r, h)" by fastforce
      have inv1: "fd_inv E S F (nap\<lparr>host := h\<rparr>)" using inv by simp
      have no: "NaClCopyOutToUser (nap\<lparr>host := h\<rparr>) (ucast offp) (le_bytes 8 r) \<noteq> Inr None"
        using CopyIn_Out [of nap "ucast offp" "le_bytes 8 r" q h] in_ok Some by auto
      show ?thesis
      proof (cases "NaClCopyOutToUser (nap\<lparr>host := h\<rparr>) (ucast offp) (le_bytes 8 r)")
        case (Inl e)
        then show ?thesis using copy_stopped(2) [OF Inl] stopped_same [of "nap\<lparr>host := h\<rparr>" nap] in_ok Some f inv
          by (simp add: lseek_work_def Let_def)
      next
        case (Inr out)
        then obtain nap' where o: "NaClCopyOutToUser (nap\<lparr>host := h\<rparr>) (ucast offp) (le_bytes 8 r) = Inr (Some nap')"
          using no by (cases out) auto
        then show ?thesis using CopyOut_ok [OF inv1 o] in_ok Some f inv confined_trans [of nap "nap\<lparr>host := h\<rparr>" nap']
          by (simp add: lseek_work_def Let_def)
      qed
    qed
  qed
qed

interpretation fstat_call: desc_body vt "fstat_work bypass rootdir vt nasp" for vt bypass rootdir nasp
proof
  fix E S F and nap :: "('a, 'z) fd_app_scheme" and n
  assume inv: "fd_inv E S F nap"
  obtain r bs h where f: "vFstat vt n (host nap) = (r, bs, h)" by (metis prod_cases3)
  let ?b = "if \<not> NaClFileAccessEnabled bypass rootdir
    then take 8 bs @ le_bytes 8 NACL_FAKE_INODE_NUM @ drop 16 bs else bs"
  have inv1: "fd_inv E S F (nap\<lparr>host := h\<rparr>)" using inv by simp
  show "outcome_ok vt E S F nap (fstat_work bypass rootdir vt nasp n nap)"
  proof (cases "NaClCopyOutToUser (nap\<lparr>host := h\<rparr>) (ucast nasp) ?b")
    case (Inl e)
    then show ?thesis using copy_stopped(2) [OF Inl] stopped_same [of "nap\<lparr>host := h\<rparr>" nap] inv f
      by (simp add: fstat_work_def Let_def)
  next
    case out: (Inr copied)
    show ?thesis
    proof (cases copied)
      case None
      then show ?thesis using inv f out by (simp add: fstat_work_def Let_def)
    next
      case (Some nap')
      note o = CopyOut_ok [OF inv1 out [unfolded Some]]
      have "length ?b < 2 ^ 32" if "vt_ok vt"
      proof -
        have "length bs = 104" using that f unfolding vt_ok_def by (metis fst_conv snd_conv)
        then show ?thesis by simp
      qed
      then have "vt_ok vt \<longrightarrow> confined nap nap'"
        using o confined_trans [of nap "nap\<lparr>host := h\<rparr>" nap'] by simp
      then show ?thesis using Some f inv o out by (simp add: fstat_work_def Let_def)
    qed
  qed
qed

interpretation ftruncate_call: desc_body vt "ftruncate_work vt lengthp" for vt lengthp
proof
  fix E S F and nap :: "('a, 'z) fd_app_scheme" and n
  assume "fd_inv E S F nap"
  then show "outcome_ok vt E S F nap (ftruncate_work vt lengthp n nap)"
    by (cases "NaClCopyInFromUser nap (ucast lengthp) 8")
      (simp_all add: ftruncate_work_def host_call_ok copy_stopped split: option.split)
qed

lemma random_ok:
  assumes inv: "fd_inv E S F nap"
  shows "outcome_ok vt E S F nap (NaClSysGetRandomBytes rng nap buf_addr buf_size)"
proof -
  let ?s = "NaClUserToSysAddrRange nap (ucast buf_addr) (ucast buf_size)"
  have len: "length (map rng [0 ..< unat buf_size]) \<le> unat (ucast buf_size :: u64)" by (simp add: unat_ucast_64)
  have "outcome_ok vt E S F nap (ebind (NaClVmIoWillStart nap buf_addr (buf_addr + buf_size - 1)) (\<lambda>nap1.
      ebind (user_access nap1 True ?s (unat buf_size)) (\<lambda>_.
      let nap2 = nap1\<lparr>fa_mem := write_bytes ?s (map rng [0 ..< unat buf_size]) (fa_mem nap1)\<rparr>
      in ebind (NaClVmIoHasEnded nap2 buf_addr (buf_addr + buf_size - 1)) (\<lambda>nap3. Inr (0, nap3)))))"
    if "?s \<noteq> kNaClBadAddress"
    by (rule buffer_ok [OF inv read_confined [OF inv that len], where acc = "user_access nap True ?s (unat buf_size)" and h = "host nap"])
      (simp_all add: access_stopped)
  then show ?thesis using inv by (cases "?s = kNaClBadAddress") (simp_all add: NaClSysGetRandomBytes_def Let_def)
qed

section \<open>Duplicating and closing\<close>

lemma fd_index_split: "fd_index d < 2 ^ 60 \<or> 2 ^ 61 \<le> fd_index d"
proof -
  have "int (fd_index d) = sint d mod 2 ^ 64"
    unfolding fd_index_def scast_eq by (simp add: uint_word_of_int del: of_int_sint)
  moreover have "- (2 ^ 31) \<le> sint d" "sint d < 2 ^ 31" using sint_ge [of d] sint_lt [of d] by simp_all
  moreover have "sint d mod 2 ^ 64 = (if 0 \<le> sint d then sint d else sint d + 2 ^ 64)"
    using calculation(2,3) mod_add_self2 [of "sint d" "2 ^ 64"] mod_pos_pos_trivial [of "sint d + 2 ^ 64" "2 ^ 64"]
    by simp
  ultimately show ?thesis by (cases "0 \<le> sint d") simp_all
qed

lemma fd_index_used:
  "da_wf t \<Longrightarrow> DynArrayGet t (fd_index d) \<noteq> None \<Longrightarrow> fd_index d < 2 ^ 60"
  using fd_index_split [of d] by (auto simp: da_get da_wf_def split: if_splits)

lemma fd_index_of_nat:
  assumes "pos \<le> 2 ^ 31 - 1"
  shows "fd_index (of_nat pos) = pos"
proof -
  have "sint (of_nat pos :: u32) = int pos"
    using assms by (simp add: signed_of_nat signed_take_bit_int_eq_self)
  then have "(scast (of_nat pos :: u32) :: u64) = of_nat pos" by (simp add: scast_eq)
  then show ?thesis using assms by (simp add: fd_index_def unat_of_nat)
qed

text \<open>A reference in hand goes to the lowest free slot.\<close>

lemma SetDescAvail_ok:
  assumes inv: "fd_inv (E(n := E n + 1)) S F nap"
  shows "(env \<noteq> (True, True) \<or> 2 ^ 31 - 32 < ptr_array_space (desc_tbl nap))
      \<and> NaClAppSetDescAvail vt env nap (Some n) = Inl Log_fatal \<or>
    (\<exists>pos nap'. NaClAppSetDescAvail vt env nap (Some n) = Inr (int pos, nap') \<and> pos < 2 ^ 31
      \<and> fd_inv E S F nap' \<and> confined nap nap'
      \<and> DynArrayGet (desc_tbl nap) pos = None \<and> (\<forall>j < pos. DynArrayGet (desc_tbl nap) j \<noteq> None)
      \<and> DynArrayGet (desc_tbl nap') = (DynArrayGet (desc_tbl nap))(pos \<mapsto> n) \<and> fa_mem nap' = fa_mem nap)"
proof -
  obtain pos t where f: "DynArrayFirstAvail (desc_tbl nap) = (pos, t)" by fastforce
  have wf: "da_wf (desc_tbl nap)" using inv by (simp add: fd_inv_def)
  have t: "da_wf t" "DynArrayGet t = DynArrayGet (desc_tbl nap)" using da.first_inv [OF wf] f by simp_all
  have p: "DynArrayGet (desc_tbl nap) pos = None" "\<forall>j < pos. DynArrayGet (desc_tbl nap) j \<noteq> None"
    using da.first_free [OF wf] da.first_least [OF wf] f by simp_all
  show ?thesis
  proof (cases "pos > 2 ^ 31 - 1")
    case True
    then have "2 ^ 31 - 32 < ptr_array_space (desc_tbl nap)" using FirstAvail_ok(5) [OF wf] f by simp
    then show ?thesis using f True by (simp add: NaClAppSetDescAvail_def NaClAppSetDescAvailMu_def)
  next
    case False
    let ?nap = "nap\<lparr>desc_tbl := t\<rparr>"
    have ix: "fd_index (of_nat pos) = pos" by (rule fd_index_of_nat) (use False in simp)
    have e: "(\<lambda>k. E k + given (Some n) k) = E(n := E n + 1)" by (auto simp: given_def fun_eq_iff)
    have i: "fd_inv (\<lambda>k. E k + given (Some n) k) S F ?nap"
      using inv t unfolding e by (simp add: fd_inv_def space_ok_def)
    have small: "fd_index (of_nat pos :: u32) < 2 ^ 60" using ix False by simp
    show ?thesis using SetDesc_ok [OF i small, of env vt]
    proof (elim disjE exE conjE)
      assume "env \<noteq> (True, True)" "NaClAppSetDescMu vt env ?nap (of_nat pos) (Some n) = Inl Log_fatal"
      then show ?thesis using f False by (simp add: NaClAppSetDescAvail_def NaClAppSetDescAvailMu_def)
    next
      fix nap'
      assume s: "NaClAppSetDescMu vt env ?nap (of_nat pos) (Some n) = Inr nap'" "fd_inv E S F nap'"
        "confined ?nap nap'" "DynArrayGet (desc_tbl nap') = (DynArrayGet (desc_tbl ?nap))(fd_index (of_nat pos) := Some n)"
        "fa_mem nap' = fa_mem ?nap"
      have "NaClAppSetDescAvail vt env nap (Some n) = Inr (int pos, nap')"
        using f False s(1) by (simp add: NaClAppSetDescAvail_def NaClAppSetDescAvailMu_def)
      moreover have "confined nap nap'" using s(3) by (simp add: confined_def NaClIsUserAddr_def addr_limit_def)
      ultimately show ?thesis using s(2,4,5) False p t(2) ix by (intro disjI2 exI [of _ pos] exI [of _ nap']) simp
    qed
  qed
qed

end
