(* ===== verification/FdRun.thy ===== *)
theory FdRun
  imports FdContract
begin

text \<open>
  Duplicating and closing descriptors, and programs of system calls: each call, and so each
  program of calls, keeps the invariant of \<open>FdInv\<close>.
\<close>

section \<open>Duplicating and closing\<close>

lemma Dup_open:
  assumes inv: "fd_inv E S F nap" and n: "DynArrayGet (desc_tbl nap) (fd_index d) = Some n"
  shows "(refs_full nap d \<or> env \<noteq> (True, True) \<or> 2 ^ 31 - 32 < ptr_array_space (desc_tbl nap))
      \<and> NaClSysDup vt env nap d = Inl Log_fatal \<or>
    (\<exists>pos nap'. NaClSysDup vt env nap d = Inr (int pos, nap') \<and> pos < 2 ^ 31
      \<and> fd_inv E S F nap' \<and> confined nap nap'
      \<and> DynArrayGet (desc_tbl nap) pos = None \<and> (\<forall>j < pos. DynArrayGet (desc_tbl nap) j \<noteq> None)
      \<and> DynArrayGet (desc_tbl nap') = (DynArrayGet (desc_tbl nap))(pos \<mapsto> n) \<and> fa_mem nap' = fa_mem nap)"
  using GetDesc_ok [OF inv, of d]
proof (elim disjE exE conjE)
  assume "NaClAppGetDesc nap d = Inr (None, nap)"
  then show ?thesis using n by (auto simp: NaClAppGetDesc_def NaClAppGetDescMu_def)
next
  fix m nap1
  assume g: "DynArrayGet (desc_tbl nap) (fd_index d) = Some m" "NaClAppGetDesc nap d = Inr (Some m, nap1)"
    "fd_inv (E(m := E m + 1)) S F nap1" "confined nap nap1" "desc_tbl nap1 = desc_tbl nap" "fa_mem nap1 = fa_mem nap"
  have [simp]: "m = n" using g(1) n by simp
  have eq: "NaClSysDup vt env nap d = NaClAppSetDescAvail vt env nap1 (Some n)" using g(2) by (simp add: NaClSysDup_def)
  show ?thesis using SetDescAvail_ok [OF g(3), of env vt]
  proof (elim disjE exE conjE)
    fix pos nap'
    assume s: "NaClAppSetDescAvail vt env nap1 (Some m) = Inr (int pos, nap')" "pos < 2 ^ 31" "fd_inv E S F nap'"
      "confined nap1 nap'" "DynArrayGet (desc_tbl nap1) pos = None"
      "\<forall>j < pos. DynArrayGet (desc_tbl nap1) j \<noteq> None"
      "DynArrayGet (desc_tbl nap') = (DynArrayGet (desc_tbl nap1))(pos \<mapsto> m)" "fa_mem nap' = fa_mem nap1"
    then show ?thesis using eq g(5,6) confined_trans [OF g(4) s(4)]
      by (intro disjI2 exI [of _ pos] exI [of _ nap']) simp
  qed (simp_all add: eq g(5))
qed (simp add: NaClSysDup_def)

lemma Dup_ok:
  assumes inv: "fd_inv E S F nap"
  shows "outcome_ok vt E S F nap (NaClSysDup vt env nap d)"
proof (cases "DynArrayGet (desc_tbl nap) (fd_index d)")
  case None
  then show ?thesis using inv by (simp add: NaClSysDup_def NaClAppGetDesc_def NaClAppGetDescMu_def)
next
  case (Some n)
  then show ?thesis using Dup_open [OF inv Some, of env vt] by (auto dest: confined_faults)
qed

lemma Dup2_open:
  assumes inv: "fd_inv E S F nap" and n: "DynArrayGet (desc_tbl nap) (fd_index oldfd) = Some n"
    and new: "0 \<le> sint newfd" "sint newfd < NACL_MAX_FD"
  shows "(refs_full nap oldfd \<or> env \<noteq> (True, True)) \<and> NaClSysDup2 vt env nap oldfd newfd = Inl Log_fatal \<or>
    (\<exists>nap'. NaClSysDup2 vt env nap oldfd newfd = Inr (sint newfd, nap') \<and> fd_inv E S F nap' \<and> confined nap nap'
      \<and> DynArrayGet (desc_tbl nap') = (DynArrayGet (desc_tbl nap))(fd_index newfd \<mapsto> n) \<and> fa_mem nap' = fa_mem nap)"
  using GetDesc_ok [OF inv, of oldfd]
proof (elim disjE exE conjE)
  assume "refs_full nap oldfd" "NaClAppGetDesc nap oldfd = Inl Log_fatal"
  then show ?thesis using new by (simp add: NaClSysDup2_def)
next
  assume "NaClAppGetDesc nap oldfd = Inr (None, nap)"
  then show ?thesis using n by (auto simp: NaClAppGetDesc_def NaClAppGetDescMu_def)
next
  fix m nap1
  assume g: "DynArrayGet (desc_tbl nap) (fd_index oldfd) = Some m" "NaClAppGetDesc nap oldfd = Inr (Some m, nap1)"
    "fd_inv (E(m := E m + 1)) S F nap1" "confined nap nap1" "desc_tbl nap1 = desc_tbl nap" "fa_mem nap1 = fa_mem nap"
  have [simp]: "m = n" using g(1) n by simp
  have eq: "NaClSysDup2 vt env nap oldfd newfd
      = ebind (NaClAppSetDescMu vt env nap1 newfd (Some n)) (\<lambda>nap2. Inr (sint newfd, nap2))"
    using g(2) new by (simp add: NaClSysDup2_def NaClAppSetDesc_def)
  have e: "E(m := E m + 1) = (\<lambda>k. E k + given (Some n) k)" by (auto simp: given_def fun_eq_iff)
  have "\<not> 2 ^ 61 \<le> fd_index newfd"
  proof -
    have "sint newfd mod 2 ^ 64 = sint newfd" using new by (simp add: NACL_MAX_FD_def)
    then have "int (fd_index newfd) = sint newfd"
      unfolding fd_index_def scast_eq by (simp add: uint_word_of_int del: of_int_sint)
    then show ?thesis using new by (simp add: NACL_MAX_FD_def)
  qed
  then have small: "fd_index newfd < 2 ^ 60" using fd_index_split [of newfd] by blast
  show ?thesis using SetDesc_ok [OF g(3) [unfolded e] small, of env vt]
  proof (elim disjE exE conjE)
    fix nap'
    assume s: "NaClAppSetDescMu vt env nap1 newfd (Some n) = Inr nap'" "fd_inv E S F nap'" "confined nap1 nap'"
      "DynArrayGet (desc_tbl nap') = (DynArrayGet (desc_tbl nap1))(fd_index newfd := Some n)" "fa_mem nap' = fa_mem nap1"
    then show ?thesis using eq g(5,6) confined_trans [OF g(4) s(3)] by simp
  qed (simp add: eq)
qed

lemma Dup2_ok:
  assumes inv: "fd_inv E S F nap"
  shows "outcome_ok vt E S F nap (NaClSysDup2 vt env nap oldfd newfd)"
proof (cases "0 \<le> sint newfd \<and> sint newfd < NACL_MAX_FD")
  case False
  then show ?thesis using inv by (auto simp: NaClSysDup2_def)
next
  case new: True
  show ?thesis
  proof (cases "DynArrayGet (desc_tbl nap) (fd_index oldfd)")
    case None
    then show ?thesis using inv by (simp add: NaClSysDup2_def NaClAppGetDesc_def NaClAppGetDescMu_def)
  next
    case (Some n)
    then show ?thesis using Dup2_open [OF inv Some, of newfd env vt] new by (auto dest: confined_faults)
  qed
qed

lemma Close_open:
  assumes inv: "fd_inv E S F nap" and n: "DynArrayGet (desc_tbl nap) (fd_index d) = Some n"
  shows "(refs_full nap d \<or> env \<noteq> (True, True)) \<and> NaClSysClose vt env nap d = Inl Log_fatal \<or>
    (\<exists>nap'. NaClSysClose vt env nap d = Inr (0, nap') \<and> fd_inv E S F nap' \<and> confined nap nap'
      \<and> DynArrayGet (desc_tbl nap') = (DynArrayGet (desc_tbl nap))(fd_index d := None) \<and> fa_mem nap' = fa_mem nap)"
  using GetDesc_ok [OF inv, of d]
proof (elim disjE exE conjE)
  assume "NaClAppGetDesc nap d = Inr (None, nap)"
  then show ?thesis using n by (auto simp: NaClAppGetDesc_def NaClAppGetDescMu_def)
next
  fix m nap1
  assume g: "DynArrayGet (desc_tbl nap) (fd_index d) = Some m" "NaClAppGetDesc nap d = Inr (Some m, nap1)"
    "fd_inv (E(m := E m + 1)) S F nap1" "confined nap nap1" "desc_tbl nap1 = desc_tbl nap" "fa_mem nap1 = fa_mem nap"
  have g3: "fd_inv (\<lambda>k. (E(m := E m + 1)) k + given None k) S F nap1"
    using g(3) by (simp add: given_def fun_upd_def)
  have small: "fd_index d < 2 ^ 60"
    using fd_index_used [of "desc_tbl nap" d] inv n by (simp add: fd_inv_def)
  show ?thesis using SetDesc_ok [OF g3 small, of env vt]
  proof (elim disjE exE conjE)
    assume "env \<noteq> (True, True)" "NaClAppSetDescMu vt env nap1 d None = Inl Log_fatal"
    then show ?thesis using g(2) by (simp add: NaClSysClose_def NaClAppGetDesc_def)
  next
    fix nap2
    assume s: "NaClAppSetDescMu vt env nap1 d None = Inr nap2" "fd_inv (E(m := E m + 1)) S F nap2" "confined nap1 nap2"
      "DynArrayGet (desc_tbl nap2) = (DynArrayGet (desc_tbl nap1))(fd_index d := None)" "fa_mem nap2 = fa_mem nap1"
    obtain nap3 where u: "NaClRefCountUnref vt m nap2 = Inr nap3" "fd_inv E S F nap3" "confined nap2 nap3"
      "desc_tbl nap3 = desc_tbl nap2" "fa_mem nap3 = fa_mem nap2" using Unref_ok [OF s(2), of vt] by blast
    have "NaClSysClose vt env nap d = Inr (0, nap3)"
      using g(2) s(1) u(1) by (simp add: NaClSysClose_def NaClAppGetDesc_def)
    then show ?thesis using u s(4,5) g(5,6) confined_trans [OF g(4) confined_trans [OF s(3) u(3)]] by simp
  qed
qed (simp add: NaClSysClose_def NaClAppGetDesc_def)

lemma Close_ok:
  assumes inv: "fd_inv E S F nap"
  shows "outcome_ok vt E S F nap (NaClSysClose vt env nap d)"
proof (cases "DynArrayGet (desc_tbl nap) (fd_index d)")
  case None
  then show ?thesis using inv by (simp add: NaClSysClose_def NaClAppGetDescMu_def)
next
  case (Some n)
  then show ?thesis using Close_open [OF inv Some, of env vt] by (auto dest: confined_faults)
qed

section \<open>Programs of system calls\<close>

text \<open>A system call of untrusted code with its arguments.\<close>

datatype fd_call =
    Sys_dup u32 | Sys_dup2 u32 u32 | Sys_close u32 | Sys_isatty u32
  | Sys_getdents u32 u32 u64 | Sys_read u32 u32 u32 | Sys_write u32 u32 u32
  | Sys_pread u32 u32 u32 u32 | Sys_pwrite u32 u32 u32 u32 | Sys_random u32 u32
  | Sys_lseek u32 u32 int | Sys_fstat u32 u32 | Sys_fchdir u32 | Sys_fchmod u32 int
  | Sys_fsync u32 | Sys_fdatasync u32 | Sys_ftruncate u32 u32

text \<open>
  \<open>bypass\<close> and \<open>rootdir\<close> are the access settings of the process; \<open>env\<close> and \<open>rng\<close> are the outcome
  of the reallocations and the random bytes of this call.
\<close>

fun fd_exec ::
    "bool \<Rightarrow> bool \<Rightarrow> 'h desc_vtbl \<Rightarrow> bool \<times> bool \<Rightarrow> (nat \<Rightarrow> u8) \<Rightarrow> fd_call \<Rightarrow> ('h, 'z) fd_app_scheme
      \<Rightarrow> (int \<times> ('h, 'z) fd_app_scheme) exec" where
  "fd_exec bypass rootdir vt env rng (Sys_dup d) nap = NaClSysDup vt env nap d"
| "fd_exec bypass rootdir vt env rng (Sys_dup2 d e) nap = NaClSysDup2 vt env nap d e"
| "fd_exec bypass rootdir vt env rng (Sys_close d) nap = NaClSysClose vt env nap d"
| "fd_exec bypass rootdir vt env rng (Sys_isatty d) nap = NaClSysIsatty bypass vt nap d"
| "fd_exec bypass rootdir vt env rng (Sys_getdents d p c) nap = NaClSysGetdents bypass rootdir vt nap d p c"
| "fd_exec bypass rootdir vt env rng (Sys_read d b c) nap = NaClSysRead vt nap d b c"
| "fd_exec bypass rootdir vt env rng (Sys_write d b c) nap = NaClSysWrite vt nap d b c"
| "fd_exec bypass rootdir vt env rng (Sys_pread d b c off) nap = NaClSysPRead vt nap d b c off"
| "fd_exec bypass rootdir vt env rng (Sys_pwrite d b c off) nap = NaClSysPWrite vt nap d b c off"
| "fd_exec bypass rootdir vt env rng (Sys_random b c) nap = NaClSysGetRandomBytes rng nap b c"
| "fd_exec bypass rootdir vt env rng (Sys_lseek d p w) nap = NaClSysLseek vt nap d p w"
| "fd_exec bypass rootdir vt env rng (Sys_fstat d p) nap = NaClSysFstat bypass rootdir vt nap d p"
| "fd_exec bypass rootdir vt env rng (Sys_fchdir d) nap = NaClSysFchdir vt nap d"
| "fd_exec bypass rootdir vt env rng (Sys_fchmod d m) nap = NaClSysFchmod vt nap d m"
| "fd_exec bypass rootdir vt env rng (Sys_fsync d) nap = NaClSysFsync vt nap d"
| "fd_exec bypass rootdir vt env rng (Sys_fdatasync d) nap = NaClSysFdatasync vt nap d"
| "fd_exec bypass rootdir vt env rng (Sys_ftruncate d p) nap = NaClSysFtruncate vt nap d p"

lemmas call_contracts =
  fchdir_call.call_ok fchmod_call.call_ok fsync_call.call_ok fdatasync_call.call_ok isatty_call.call_ok
  read_call.call_ok write_call.call_ok pread_call.call_ok pwrite_call.call_ok getdents_call.call_ok
  lseek_call.call_ok fstat_call.call_ok ftruncate_call.call_ok random_ok Dup_ok Dup2_ok Close_ok

lemmas with_desc_calls =
  NaClSysFchdir_def NaClSysFchmod_def NaClSysFsync_def NaClSysFdatasync_def NaClSysIsatty_def NaClSysRead_def
  NaClSysWrite_def NaClSysPRead_def NaClSysPWrite_def NaClSysGetdents_def NaClSysLseek_def NaClSysFstat_def
  NaClSysFtruncate_def

lemma fd_exec_ok:
  assumes inv: "fd_inv E S F nap"
  shows "outcome_ok vt E S F nap (fd_exec bypass rootdir vt env rng c nap)"
  by (cases c) (simp_all add: with_desc_calls call_contracts [OF inv] inv)

fun fd_run ::
    "bool \<Rightarrow> bool \<Rightarrow> 'h desc_vtbl \<Rightarrow> ((bool \<times> bool) \<times> (nat \<Rightarrow> u8) \<times> fd_call) list \<Rightarrow> ('h, 'z) fd_app_scheme
      \<Rightarrow> (int list \<times> ('h, 'z) fd_app_scheme) exec" where
  "fd_run bypass rootdir vt [] nap = Inr ([], nap)"
| "fd_run bypass rootdir vt ((env, rng, c) # cs) nap =
     ebind (fd_exec bypass rootdir vt env rng c nap) (\<lambda>(r, nap1).
     ebind (fd_run bypass rootdir vt cs nap1) (\<lambda>(rs, nap2). Inr (r # rs, nap2)))"

lemma fd_run_ok:
  "fd_inv E S F nap \<Longrightarrow>
    (case fd_run bypass rootdir vt cs nap of
       Inl e \<Rightarrow> stopped nap e
     | Inr (rs, nap') \<Rightarrow> fd_inv E S F nap' \<and> access_faults nap' = access_faults nap \<and> (vt_ok vt \<longrightarrow> confined nap nap'))"
proof (induction bypass rootdir vt cs nap rule: fd_run.induct)
  case (2 bypass rootdir vt env rng c cs nap)
  show ?case
  proof (cases "fd_exec bypass rootdir vt env rng c nap")
    case (Inl e)
    then show ?thesis using fd_exec_ok [OF 2(2), of vt bypass rootdir env rng c] by simp
  next
    case (Inr res)
    obtain r nap1 where res: "fd_exec bypass rootdir vt env rng c nap = Inr (r, nap1)" using Inr by (cases res) simp
    then have s: "fd_inv E S F nap1" "vt_ok vt \<longrightarrow> confined nap nap1" "access_faults nap1 = access_faults nap"
      using fd_exec_ok [OF 2(2), of vt bypass rootdir env rng c] by simp_all
    show ?thesis using 2(1) [OF s(1)] s(2,3) res confined_trans [of nap nap1] stopped_same [OF s(3)]
      by (auto split: sum.splits)
  qed
qed simp

end
