(* ===== verification/FdClaims.thy ===== *)
theory FdClaims
  imports FdRun
begin

text \<open>The properties of the descriptor system calls.\<close>

section \<open>An example state\<close>

text \<open>Two open files, 7 and 8, in the first slots of a table with four.\<close>

definition demo_fd :: "unit fd_app" where
  "demo_fd = \<lparr>addr_bits = 32, mem_start = 0x100000000, bundle_size = 32, static_text_end = 0x20000,
     dynamic_text_start = 0x20000, dynamic_text_end = 0x30000,
     desc_tbl = \<lparr>num_entries = 2, ptr_array = [Some 7, Some 8, None, None], ptr_array_space = 4,
                 available = [3], avail_ix = 0\<rparr>,
     nd_refs = [7 \<mapsto> 1, 8 \<mapsto> 1],
     thread_tbl = \<lparr>num_entries = 0, ptr_array = [None], ptr_array_space = 1, available = [0], avail_ix = 0\<rparr>,
     n_threads = 0, mem_io_regions = RLeaf, fa_mem = (\<lambda>_. 0), access_faults = (\<lambda>_ _ _. False), host = ()\<rparr>"

text \<open>Reading yields the bytes 1, 2, 3 as far as there is room; the rest succeeds without effect.\<close>

definition demo_vt :: "unit desc_vtbl" where
  "demo_vt = \<lparr>vDtor = (\<lambda>_ h. h), vIsatty = (\<lambda>_ h. (0, h)), vGetdents = (\<lambda>_ _ h. (0, [], h)),
     vRead = (\<lambda>_ c h. (int (length (take (unat c) [1, 2, 3 :: u8])), take (unat c) [1, 2, 3], h)),
     vWrite = (\<lambda>_ bs h. (int (length bs), h)), vSeek = (\<lambda>_ q _ h. (q, h)),
     vPRead = (\<lambda>_ _ _ h. (0, [], h)), vPWrite = (\<lambda>_ bs _ h. (int (length bs), h)),
     vFstat = (\<lambda>_ h. (0, replicate 104 0, h)), vFchdir = (\<lambda>_ h. (0, h)), vFchmod = (\<lambda>_ _ h. (0, h)),
     vFsync = (\<lambda>_ h. (0, h)), vFdatasync = (\<lambda>_ h. (0, h)), vFtruncate = (\<lambda>_ _ h. (0, h))\<rparr>"

lemma demo_vt_ok: "vt_ok demo_vt"
  by (simp add: vt_ok_def demo_vt_def)

lemma demo_get: "DynArrayGet (desc_tbl demo_fd) = [0 \<mapsto> 7, 1 \<mapsto> 8]"
  by (auto simp: DynArrayGet_def demo_fd_def fun_eq_iff less_Suc_eq numeral_2_eq_2)

lemma demo_table: "da_wf (desc_tbl demo_fd)"
proof -
  have b: "bit (3 :: u32) i \<longleftrightarrow> i < 2" for i
    using bit_mask_iff [of 2 i, where ?'a = "32 word"] by (auto simp: mask_eq_exp_minus_1)
  have bt: "bit_at [3] i \<longleftrightarrow> i < 2" if "i < 32" for i using that b [of i] by (simp add: bit_at_def)
  have us: "da_used (desc_tbl demo_fd) i \<longleftrightarrow> i < 2" for i
    by (auto simp: da_used_def demo_fd_def less_Suc_eq numeral_eq_Suc)
  have "da_words (desc_tbl demo_fd) = 1" by (simp add: da_words_def demo_fd_def)
  then show ?thesis unfolding da_wf_def us by (simp add: demo_fd_def bt)
qed

lemma demo_fd_inv: "fd_inv (\<lambda>_. 0) {#} {#} demo_fd"
proof -
  have "holds_in [0 \<mapsto> 7, 1 \<mapsto> 8] n = (if n = 7 \<or> n = 8 then 1 else 0)" for n
  proof -
    have "{i :: nat. [0 \<mapsto> 7, 1 \<mapsto> (8 :: nat)] i = Some n} = (if n = 7 then {0} else if n = 8 then {1} else {})"
      by auto
    then show ?thesis by (simp add: holds_in_def)
  qed
  then have "refs_are (nd_refs demo_fd) (\<lambda>n. holds_in (DynArrayGet (desc_tbl demo_fd)) n + 0)"
    unfolding demo_get by (auto simp: refs_are_def demo_fd_def)
  moreover have "tree_inv (mem_io_regions demo_fd) {#} {#}"
    by (simp add: demo_fd_def tree_inv_def point_def node_of_def fun_eq_iff)
  moreover have "space_ok demo_fd" by (simp add: space_ok_def demo_fd_def)
  ultimately show ?thesis using demo_table by (simp add: fd_inv_def)
qed

lemma demo_user_access: "user_access demo_fd w a n = Inr ()"
  by (rule user_access_none, rule no_faults) (simp add: demo_fd_def)

lemma demo_read: "\<exists>nap'. NaClSysRead demo_vt demo_fd 0 0x10000 2 = Inr (2, nap')"
proof -
  let ?nap1 = "demo_fd\<lparr>nd_refs := [8 \<mapsto> 1, 7 \<mapsto> 2]\<rparr>"
  have a: "NaClUserToSysAddrRange ?nap1 0x10000 2 = 0x100010000" "kNaClBadAddress \<noteq> 0x100010000"
    by (simp_all add: NaClUserToSysAddrRange_def addr_limit_def demo_fd_def kNaClBadAddress_def)
  have g: "NaClAppGetDesc demo_fd 0 = Inr (Some 7, ?nap1)"
    by (simp add: NaClAppGetDesc_def NaClAppGetDescMu_def demo_get fd_index_def NaClRefCountRef_def) (simp add: demo_fd_def)
  have "fd_inv ((\<lambda>_. 0)(7 := 1)) {#} {#} ?nap1"
    using GetDesc_ok [OF demo_fd_inv, of 0] unfolding g by auto
  from bracket_ok [OF this, of "0x10000" "0x10001"]
  obtain t where t: "NaClVmIoWillStart ?nap1 0x10000 0x10001 = Inr (?nap1\<lparr>mem_io_regions := t\<rparr>)"
    "\<forall>m h. \<exists>t'. NaClVmIoHasEnded (?nap1\<lparr>mem_io_regions := t, fa_mem := m, host := h\<rparr>) 0x10000 0x10001
        = Inr (?nap1\<lparr>fa_mem := m, host := h, mem_io_regions := t'\<rparr>)"
    by blast
  obtain t' where "NaClVmIoHasEnded (?nap1\<lparr>mem_io_regions := t, fa_mem := write_bytes 0x100010000 [1, 2] (fa_mem demo_fd),
      host := ()\<rparr>) 0x10000 0x10001 = Inr (?nap1\<lparr>fa_mem := write_bytes 0x100010000 [1, 2] (fa_mem demo_fd),
        host := (), mem_io_regions := t'\<rparr>)"
    using t(2) by blast
  then show ?thesis
    by (simp add: NaClSysRead_def with_desc_def g read_work_def a t(1) fill_call_def demo_vt_def to_int32_def
        NaClRefCountUnref_def demo_user_access)
qed

section \<open>Where a call writes\<close>

text \<open>From \<open>nap\<close> to \<open>nap'\<close> memory is as it was, or bytes have been stored from user address \<open>u\<close> on, at most \<open>k\<close>.\<close>

definition writes_buffer :: "u64 \<Rightarrow> u64 \<Rightarrow> ('h, 'z) fd_app_scheme \<Rightarrow> ('h, 'z) fd_app_scheme \<Rightarrow> bool" where
  "writes_buffer u k nap nap' \<longleftrightarrow> fa_mem nap' = fa_mem nap \<or>
     (\<exists>bs. NaClUserToSysAddrRange nap u k \<noteq> kNaClBadAddress \<and> length bs \<le> unat k
        \<and> fa_mem nap' = write_bytes (NaClUserToSysAddrRange nap u k) bs (fa_mem nap))"

lemma range_upd [simp]:
  "NaClUserToSysAddrRange (nap\<lparr>nd_refs := R\<rparr>) = NaClUserToSysAddrRange nap"
  "NaClUserToSysAddrRange (nap\<lparr>host := h\<rparr>) = NaClUserToSysAddrRange nap"
  by (simp_all add: fun_eq_iff NaClUserToSysAddrRange_def addr_limit_def Let_def)

lemma writes_buffer_inside:
  assumes "space_ok nap" "writes_buffer u k nap nap'" "fa_mem nap' x \<noteq> fa_mem nap x"
  shows "NaClIsUserAddr nap x \<and> unat (mem_start nap) + unat u \<le> unat x
    \<and> unat x < unat (mem_start nap) + unat u + unat k"
proof -
  obtain bs where b: "NaClUserToSysAddrRange nap u k \<noteq> kNaClBadAddress" "length bs \<le> unat k"
    "fa_mem nap' = write_bytes (NaClUserToSysAddrRange nap u k) bs (fa_mem nap)"
    using assms(2,3) by (auto simp: writes_buffer_def)
  have "unat (NaClUserToSysAddrRange nap u k) = unat (mem_start nap) + unat u"
    using range_ok [OF assms(1) refl b(1)] unat_user_to_sys [OF assms(1), of u] by simp
  then show ?thesis using write_inside [OF assms(1) refl b(1,2), of "fa_mem nap" x] assms(3) b(2,3) by simp
qed

lemma GetDesc_mem: "NaClAppGetDesc nap d = Inr (x, nap1) \<Longrightarrow> \<exists>R. nap1 = nap\<lparr>nd_refs := R\<rparr>"
  by (auto simp: NaClAppGetDesc_def NaClAppGetDescMu_def NaClRefCountRef_def split: option.splits if_splits
      intro: exI [of _ "nd_refs nap"])

lemma Unref_mem: "NaClRefCountUnref vt n nap = Inr nap1 \<Longrightarrow> fa_mem nap1 = fa_mem nap"
  by (auto simp: NaClRefCountUnref_def split: option.splits if_splits)

lemma WillStart_mem: "NaClVmIoWillStart nap a b = Inr nap1 \<Longrightarrow> fa_mem nap1 = fa_mem nap \<and> host nap1 = host nap"
  by (auto simp: NaClVmIoWillStart_def ebind_def split: sum.splits)

lemma HasEnded_mem: "NaClVmIoHasEnded nap a b = Inr nap1 \<Longrightarrow> fa_mem nap1 = fa_mem nap"
  by (auto simp: NaClVmIoHasEnded_def ebind_def split: sum.splits)

lemma fill_call_mem:
  "fill_call s f nap = Inr (r, nap') \<Longrightarrow> fa_mem nap' = write_bytes s (fst (snd (f (host nap)))) (fa_mem nap)"
  by (auto simp: fill_call_def split: prod.splits)

lemma with_desc_writes:
  assumes "with_desc vt nap d body = Inr (r, nap')"
    and "\<And>n nap1 r1 nap2. body n nap1 = Inr (r1, nap2) \<Longrightarrow> writes_buffer u k nap1 nap2"
  shows "writes_buffer u k nap nap'"
proof -
  obtain y nap1 where g: "NaClAppGetDesc nap d = Inr (y, nap1)"
    using assms(1) by (auto simp: with_desc_def)
  then obtain R where R: "nap1 = nap\<lparr>nd_refs := R\<rparr>" using GetDesc_mem by blast
  show ?thesis
  proof (cases y)
    case None
    then show ?thesis using assms(1) g R by (auto simp: with_desc_def writes_buffer_def)
  next
    case (Some n)
    obtain r2 nap2 where w: "body n nap1 = Inr (r2, nap2)" "fa_mem nap' = fa_mem nap2"
      using assms(1) g Some by (auto simp: with_desc_def dest!: Unref_mem)
    then show ?thesis using assms(2) [OF w(1)] R by (simp add: writes_buffer_def)
  qed
qed

lemma host_call_mem: "host_call f nap = Inr (r, nap') \<Longrightarrow> fa_mem nap' = fa_mem nap"
  by (auto simp: host_call_def split: prod.splits)

lemma vt_lengths:
  assumes "vt_ok vt"
  shows "length (fst (snd (vRead vt n (ucast (if cnt > 0x7fffffff then 0x7fffffff else cnt)) h))) \<le> unat (ucast (cnt :: u32) :: u64)"
    "length (fst (snd (vPRead vt n (ucast cnt) q h))) \<le> unat (ucast cnt :: u64)"
    "length (fst (snd (vGetdents vt n (if c > 0x7fffffff then 0x7fffffff else c) h))) \<le> unat c"
    "length (fst (snd (vFstat vt n h))) = 104"
proof -
  let ?c = "if cnt > 0x7fffffff then 0x7fffffff else cnt"
  have "length (fst (snd (vRead vt n (ucast ?c) h))) \<le> unat (ucast ?c :: u64)" using assms unfolding vt_ok_def by blast
  then show "length (fst (snd (vRead vt n (ucast ?c) h))) \<le> unat (ucast cnt :: u64)"
    using clamp_le(1) [of cnt] unfolding unat_ucast_64 by linarith
  let ?d = "if c > 0x7fffffff then 0x7fffffff else c"
  have "length (fst (snd (vGetdents vt n ?d h))) \<le> unat ?d" using assms unfolding vt_ok_def by blast
  then show "length (fst (snd (vGetdents vt n ?d h))) \<le> unat c" using clamp_le(2) [of c] by linarith
qed (use assms in \<open>simp_all add: vt_ok_def\<close>)

lemma fill_writes:
  assumes "fill_call (NaClUserToSysAddrRange nap u k) f nap1 = Inr (r, nap2)" "fa_mem nap1 = fa_mem nap"
    and "NaClUserToSysAddrRange nap u k \<noteq> kNaClBadAddress" "length (fst (snd (f (host nap1)))) \<le> unat k" "fa_mem nap' = fa_mem nap2"
  shows "writes_buffer u k nap nap'"
  using fill_call_mem [OF assms(1)] assms(2-) unfolding writes_buffer_def by auto

lemma read_work_writes:
  assumes "vt_ok vt" "read_work vt buf cnt n nap = Inr (r, nap')"
  shows "writes_buffer (ucast buf) (ucast cnt) nap nap'"
proof (cases "kNaClBadAddress = NaClUserToSysAddrRange nap (ucast buf) (ucast cnt)")
  case True
  then show ?thesis using assms(2) by (simp add: read_work_def writes_buffer_def)
next
  case False
  let ?c = "if cnt > 0x7fffffff then 0x7fffffff else cnt"
  obtain nap2 r3 nap3 where s: "NaClVmIoWillStart nap buf (buf + ?c - 1) = Inr nap2"
    "fill_call (NaClUserToSysAddrRange nap (ucast buf) (ucast cnt)) (vRead vt n (ucast ?c)) nap2 = Inr (r3, nap3)"
    "NaClVmIoHasEnded nap3 buf (buf + ?c - 1) = Inr nap'"
    using assms(2) False unfolding read_work_def Let_def by auto
  show ?thesis
    by (rule fill_writes [OF s(2)]) (use False WillStart_mem [OF s(1)] HasEnded_mem [OF s(3)] vt_lengths(1) [OF assms(1)] in auto)
qed

lemma pread_work_writes:
  assumes "vt_ok vt" "pread_work vt buf cnt offp n nap = Inr (r, nap')"
  shows "writes_buffer (ucast buf) (ucast cnt) nap nap'"
proof (cases "fa_mem nap' = fa_mem nap")
  case True
  then show ?thesis by (simp add: writes_buffer_def)
next
  case ch: False
  obtain bs where i: "NaClCopyInFromUser nap (ucast offp) 8 = Inr (Some bs)"
    using assms(2) ch unfolding pread_work_def by (auto split: option.splits)
  have b: "kNaClBadAddress \<noteq> NaClUserToSysAddrRange nap (ucast buf) (ucast cnt)"
    using assms(2) ch i unfolding pread_work_def Let_def by auto
  obtain nap2 r3 nap3 where s: "NaClVmIoWillStart nap buf (buf + cnt - 1) = Inr nap2"
    "fill_call (NaClUserToSysAddrRange nap (ucast buf) (ucast cnt)) (vPRead vt n (ucast cnt) (le_word bs)) nap2 = Inr (r3, nap3)"
    "NaClVmIoHasEnded nap3 buf (buf + cnt - 1) = Inr nap'"
    using assms(2) i b unfolding pread_work_def Let_def by auto
  show ?thesis
    by (rule fill_writes [OF s(2)]) (use b WillStart_mem [OF s(1)] HasEnded_mem [OF s(3)] vt_lengths(2) [OF assms(1)] in auto)
qed

lemma getdents_work_writes:
  assumes "vt_ok vt" "getdents_work vt dirp cnt n nap = Inr (r, nap')"
  shows "writes_buffer (ucast dirp) cnt nap nap'"
proof (cases "kNaClBadAddress = NaClUserToSysAddrRange nap (ucast dirp) cnt")
  case True
  then show ?thesis using assms(2) by (simp add: getdents_work_def writes_buffer_def)
next
  case False
  let ?c = "if cnt > 0x7fffffff then 0x7fffffff else cnt"
  obtain r3 where s: "fill_call (NaClUserToSysAddrRange nap (ucast dirp) cnt) (vGetdents vt n ?c) nap = Inr (r3, nap')"
    using assms(2) False unfolding getdents_work_def Let_def by (auto split: if_splits)
  show ?thesis
    by (rule fill_writes [OF s]) (use False vt_lengths(3) [OF assms(1)] in auto)
qed

lemma copy_out_writes:
  assumes "NaClCopyOutToUser nap u bs = Inr (Some nap')" "length bs = unat k"
  shows "writes_buffer u k nap nap'"
proof -
  have "of_nat (length bs) = k" using assms(2) by simp
  then show ?thesis using copy_out_Some [OF assms(1)] assms(2)
    unfolding writes_buffer_def by (intro disjI2 exI [of _ bs]) simp
qed

lemma writes_buffer_host [simp]:
  "writes_buffer u k (nap\<lparr>host := h\<rparr>) nap' = writes_buffer u k nap nap'"
  by (simp add: writes_buffer_def)

lemma writes_buffer_same [simp]: "fa_mem nap' = fa_mem nap \<Longrightarrow> writes_buffer u k nap nap'"
  by (simp add: writes_buffer_def)

lemma fstat_work_writes:
  assumes "vt_ok vt" "fstat_work bypass rootdir vt nasp n nap = Inr (r, nap')"
  shows "writes_buffer (ucast nasp) 104 nap nap'"
proof -
  obtain rv bs h where f: "vFstat vt n (host nap) = (rv, bs, h)" by (metis prod_cases3)
  have l: "length bs = 104" using vt_lengths(4) [OF assms(1), of n "host nap"] f by simp
  show ?thesis using assms(2) f l copy_out_writes [of "nap\<lparr>host := h\<rparr>" "ucast nasp" _ nap' 104]
    by (auto simp: fstat_work_def Let_def split: if_splits option.splits)
qed

lemma lseek_work_writes:
  assumes "lseek_work vt offp whence n nap = Inr (r, nap')"
  shows "writes_buffer (ucast offp) 8 nap nap'"
proof (cases "fa_mem nap' = fa_mem nap")
  case True
  then show ?thesis by (simp add: writes_buffer_def)
next
  case ch: False
  obtain bs where i: "NaClCopyInFromUser nap (ucast offp) 8 = Inr (Some bs)"
    using assms ch unfolding lseek_work_def by (auto split: option.splits)
  obtain q h where f: "vSeek vt n (le_word bs) whence (host nap) = (q, h)" by fastforce
  have "NaClCopyOutToUser (nap\<lparr>host := h\<rparr>) (ucast offp) (le_bytes 8 q) = Inr (Some nap')"
    using assms ch i f unfolding lseek_work_def Let_def by (auto split: option.splits if_splits)
  then show ?thesis using copy_out_writes [of "nap\<lparr>host := h\<rparr>" "ucast offp" "le_bytes 8 q" nap' 8] by simp
qed

lemma random_writes:
  "NaClSysGetRandomBytes rng nap buf cnt = Inr (r, nap') \<Longrightarrow> writes_buffer (ucast buf) (ucast cnt) nap nap'"
  unfolding writes_buffer_def
  by (auto simp: NaClSysGetRandomBytes_def Let_def unat_ucast_64 dest!: HasEnded_mem WillStart_mem split: if_splits
      intro!: exI [of _ "map rng [0 ..< unat cnt]"])

lemma write_mem:
  "write_work vt buf cnt n nap = Inr (r, nap') \<Longrightarrow> fa_mem nap' = fa_mem nap"
  "pwrite_work vt buf cnt off n nap = Inr (r, nap') \<Longrightarrow> fa_mem nap' = fa_mem nap"
  "ftruncate_work vt p n nap = Inr (r, nap') \<Longrightarrow> fa_mem nap' = fa_mem nap"
  by (auto simp: write_work_def pwrite_work_def ftruncate_work_def Let_def dest!: HasEnded_mem WillStart_mem host_call_mem
      split: if_splits option.splits)

lemma dup_close_mem:
  assumes "fd_inv E S F nap"
  shows "NaClSysDup vt env nap d = Inr (r, nap') \<Longrightarrow> fa_mem nap' = fa_mem nap"
    "NaClSysDup2 vt env nap d e = Inr (r, nap') \<Longrightarrow> fa_mem nap' = fa_mem nap"
    "NaClSysClose vt env nap d = Inr (r, nap') \<Longrightarrow> fa_mem nap' = fa_mem nap"
proof -
  show "NaClSysDup vt env nap d = Inr (r, nap') \<Longrightarrow> fa_mem nap' = fa_mem nap"
    using Dup_open [OF assms, of d _ env vt]
    by (cases "DynArrayGet (desc_tbl nap) (fd_index d)") (auto simp: NaClSysDup_def NaClAppGetDesc_def NaClAppGetDescMu_def)
  show "NaClSysDup2 vt env nap d e = Inr (r, nap') \<Longrightarrow> fa_mem nap' = fa_mem nap"
    using Dup2_open [OF assms, of d _ e env vt]
    by (cases "DynArrayGet (desc_tbl nap) (fd_index d)"; cases "0 \<le> sint e \<and> sint e < NACL_MAX_FD")
      (auto simp: NaClSysDup2_def NaClAppGetDesc_def NaClAppGetDescMu_def split: if_splits)
  show "NaClSysClose vt env nap d = Inr (r, nap') \<Longrightarrow> fa_mem nap' = fa_mem nap"
    using Close_open [OF assms, of d _ env vt]
    by (cases "DynArrayGet (desc_tbl nap) (fd_index d)") (auto simp: NaClSysClose_def NaClAppGetDescMu_def)
qed

text \<open>The buffer in which a call stores its result: its address and its size in bytes.\<close>

fun call_buffer :: "fd_call \<Rightarrow> (u32 \<times> u64) option" where
  "call_buffer (Sys_getdents d dirp cnt) = Some (dirp, cnt)"
| "call_buffer (Sys_read d buf cnt) = Some (buf, ucast cnt)"
| "call_buffer (Sys_pread d buf cnt offp) = Some (buf, ucast cnt)"
| "call_buffer (Sys_random buf cnt) = Some (buf, ucast cnt)"
| "call_buffer (Sys_lseek d offp whence) = Some (offp, 8)"
| "call_buffer (Sys_fstat d nasp) = Some (nasp, 104)"
| "call_buffer _ = None"

lemma fd_exec_writes:
  assumes "fd_inv E S F nap" "vt_ok vt" "fd_exec bypass rootdir vt env rng c nap = Inr (r, nap')"
  shows "case call_buffer c of
      None \<Rightarrow> fa_mem nap' = fa_mem nap
    | Some (u, k) \<Rightarrow> writes_buffer (ucast u) k nap nap'"
proof -
  have none: "fa_mem nap' = fa_mem nap"
    if "with_desc vt nap d body = Inr (r, nap')" "\<And>n nap1 r1 nap2. body n nap1 = Inr (r1, nap2) \<Longrightarrow> fa_mem nap2 = fa_mem nap1" for d body
    using with_desc_writes [OF that(1), of 0 0] that(2) by (auto simp: writes_buffer_def write_bytes_def)
  show ?thesis
    using assms(3) dup_close_mem [OF assms(1)]
    by (cases c) (auto simp: with_desc_calls host_call_mem split: if_splits
        intro: none with_desc_writes read_work_writes [OF assms(2)] pread_work_writes [OF assms(2)] getdents_work_writes [OF assms(2)]
          fstat_work_writes [OF assms(2)] lseek_work_writes random_writes write_mem)
qed

section \<open>Reference counts\<close>

text \<open>C30: Over any program of descriptor system calls, with any arguments and any behaviour of the
  descriptors, the reference count of every descriptor stays the number of table slots that hold
  it plus the references held elsewhere, the tables stay well formed and no range is left pending.
  No call touches a freed descriptor: a program that does not run to its end was stopped by a deliberate
  abort (\<open>LOG_FATAL\<close>), or by a fault of trusted code on memory whose pages the host protects; the
  second cannot happen when the host protects none.\<close>
theorem fd_calls_keep_references:
  assumes "fd_inv E S F nap"
  shows "case fd_run bypass rootdir vt cs nap of
      Inl e \<Rightarrow> e = Log_fatal \<or> e = Access_fault \<and> faulting nap
    | Inr (rs, nap') \<Rightarrow> fd_inv E S F nap'"
  using fd_run_ok [OF assms, of vt bypass rootdir cs] by (auto simp: stopped_def split: sum.splits)

definition demo_calls :: "((bool \<times> bool) \<times> (nat \<Rightarrow> u8) \<times> fd_call) list" where
  "demo_calls = [((True, True), (\<lambda>_. 0), Sys_dup 0), ((True, True), (\<lambda>_. 0), Sys_close 0),
     ((True, True), (\<lambda>_. 0), Sys_read 2 0x10000 2), ((True, True), (\<lambda>_. 0), Sys_dup2 1 2)]"

theorem fd_calls_keep_references_witness:
  "case fd_run True True demo_vt demo_calls demo_fd of
      Inl e \<Rightarrow> e = Log_fatal
    | Inr (rs, nap') \<Rightarrow> fd_inv (\<lambda>_. 0) {#} {#} nap'"
proof -
  have "\<not> faulting demo_fd" by (rule no_faults) (simp add: demo_fd_def)
  then show ?thesis using fd_calls_keep_references [OF demo_fd_inv, of True True demo_vt demo_calls] by (auto split: sum.splits)
qed

text \<open>C31: If the methods of the descriptors stay within the buffers they are given, no program of
  descriptor system calls makes trusted code write a byte outside the sandbox.\<close>
theorem fd_calls_confined:
  assumes "fd_inv E S F nap" "vt_ok vt" "fd_run bypass rootdir vt cs nap = Inr (rs, nap')"
    and "\<not> NaClIsUserAddr nap x"
  shows "fa_mem nap' x = fa_mem nap x"
  using fd_run_ok [OF assms(1), of vt bypass rootdir cs] assms(2-4) by (auto simp: confined_def)

theorem fd_calls_confined_witness:
  "\<exists>rs nap'. fd_run True True demo_vt [((True, True), (\<lambda>_. 0), Sys_read 0 0x10000 2)] demo_fd = Inr (rs, nap')
    \<and> fa_mem nap' 0x200000000 = fa_mem demo_fd 0x200000000"
proof -
  obtain nap' where r: "fd_run True True demo_vt [((True, True), (\<lambda>_. 0), Sys_read 0 0x10000 2)] demo_fd = Inr ([2], nap')"
    using demo_read by auto
  have "\<not> NaClIsUserAddr demo_fd 0x200000000" by (simp add: NaClIsUserAddr_def addr_limit_def demo_fd_def)
  from fd_calls_confined [OF demo_fd_inv demo_vt_ok r this] r show ?thesis by blast
qed

section \<open>Single calls\<close>

text \<open>C32: Each descriptor system call writes nowhere but into the buffer that untrusted code named for
  its result: the data of \<open>read\<close>, \<open>pread\<close>, \<open>getdents\<close> and the random bytes stay within the buffer and its
  size, \<open>fstat\<close> writes the 104 bytes of its structure and \<open>lseek\<close> the 8 bytes of the offset, each byte at an
  address inside the sandbox. All other calls write no memory at all.\<close>
theorem read_stays_in_buffer:
  assumes "fd_inv E S F nap" "vt_ok vt" "fd_exec bypass rootdir vt env rng c nap = Inr (r, nap')"
    and "fa_mem nap' x \<noteq> fa_mem nap x"
  shows "\<exists>buf size. call_buffer c = Some (buf, size) \<and> NaClIsUserAddr nap x
    \<and> unat (mem_start nap) + unat buf \<le> unat x \<and> unat x < unat (mem_start nap) + unat buf + unat size"
proof -
  have "space_ok nap" using assms(1) by (simp add: fd_inv_def)
  then show ?thesis using fd_exec_writes [OF assms(1-3)] writes_buffer_inside [OF _ _ assms(4)] assms(4)
    by (cases "call_buffer c") (fastforce simp: unat_ucast_64)+
qed

theorem read_stays_in_buffer_witness:
  "\<exists>nap'. fd_exec True True demo_vt (True, True) (\<lambda>_. 0) (Sys_read 0 0x10000 2) demo_fd = Inr (2, nap')
    \<and> (\<forall>x. fa_mem nap' x \<noteq> 0 \<longrightarrow> NaClIsUserAddr demo_fd x
     \<and> unat (mem_start demo_fd) + 0x10000 \<le> unat x \<and> unat x < unat (mem_start demo_fd) + 0x10000 + 2)"
proof -
  obtain nap' where r: "fd_exec True True demo_vt (True, True) (\<lambda>_. 0) (Sys_read 0 0x10000 2) demo_fd = Inr (2, nap')"
    using demo_read by auto
  have "fa_mem demo_fd x = 0" for x by (simp add: demo_fd_def)
  then show ?thesis using r read_stays_in_buffer [OF demo_fd_inv demo_vt_ok r] by fastforce
qed

text \<open>\<open>NaClSysDup\<close> of an open descriptor returns the lowest free number, which then names the
  same open file; every other number keeps its meaning and no memory is written. It needs a
  reference count that is not exhausted, memory for a larger table and a number that fits an \<open>int\<close>.\<close>
lemma dup_lowest_free:
  assumes "fd_inv E S F nap" "DynArrayGet (desc_tbl nap) (fd_index d) = Some n"
    and "nd_refs nap n \<noteq> Some (- 1)" "ptr_array_space (desc_tbl nap) \<le> 2 ^ 31 - 32"
  shows "\<exists>pos nap'. NaClSysDup vt (True, True) nap d = Inr (int pos, nap') \<and> pos < 2 ^ 31
      \<and> DynArrayGet (desc_tbl nap) pos = None \<and> (\<forall>j < pos. DynArrayGet (desc_tbl nap) j \<noteq> None)
      \<and> DynArrayGet (desc_tbl nap') = (DynArrayGet (desc_tbl nap))(pos \<mapsto> n) \<and> fa_mem nap' = fa_mem nap"
  using Dup_open [OF assms(1,2), of "(True, True)" vt] assms(2-4) by (auto simp: refs_full_def)

lemma dup_lowest_free_witness:
  "\<exists>pos nap'. NaClSysDup demo_vt (True, True) demo_fd 1 = Inr (int pos, nap') \<and> pos < 2 ^ 31
      \<and> DynArrayGet (desc_tbl demo_fd) pos = None \<and> (\<forall>j < pos. DynArrayGet (desc_tbl demo_fd) j \<noteq> None)
      \<and> DynArrayGet (desc_tbl nap') = (DynArrayGet (desc_tbl demo_fd))(pos \<mapsto> 8) \<and> fa_mem nap' = fa_mem demo_fd"
  by (rule dup_lowest_free [OF demo_fd_inv], simp add: demo_get fd_index_def) (simp_all add: demo_fd_def)

text \<open>\<open>NaClSysDup2\<close> of an open descriptor to a number in range returns that number, which then
  names the same open file; every other number keeps its meaning and no memory is written. It
  needs a reference count that is not exhausted and memory for a larger table.\<close>
lemma dup2_replaces:
  assumes "fd_inv E S F nap" "DynArrayGet (desc_tbl nap) (fd_index oldfd) = Some n"
    and "nd_refs nap n \<noteq> Some (- 1)" "0 \<le> sint newfd" "sint newfd < NACL_MAX_FD"
  shows "\<exists>nap'. NaClSysDup2 vt (True, True) nap oldfd newfd = Inr (sint newfd, nap')
      \<and> DynArrayGet (desc_tbl nap') = (DynArrayGet (desc_tbl nap))(fd_index newfd \<mapsto> n) \<and> fa_mem nap' = fa_mem nap"
  using Dup2_open [OF assms(1,2,4,5), of "(True, True)" vt] assms(2,3) by (auto simp: refs_full_def)

lemma dup2_replaces_witness:
  "\<exists>nap'. NaClSysDup2 demo_vt (True, True) demo_fd 0 1 = Inr (sint (1 :: u32), nap')
      \<and> DynArrayGet (desc_tbl nap') = (DynArrayGet (desc_tbl demo_fd))(fd_index 1 \<mapsto> 7) \<and> fa_mem nap' = fa_mem demo_fd"
  by (rule dup2_replaces [OF demo_fd_inv], simp add: demo_get fd_index_def)
    (simp_all add: demo_fd_def NACL_MAX_FD_def)

text \<open>\<open>NaClSysClose\<close> of an open descriptor returns zero and frees the number: every other number
  keeps its meaning, and closing the same number again is refused with \<open>EBADF\<close> and changes
  nothing. It needs a reference count that is not exhausted.\<close>
lemma close_releases:
  assumes "fd_inv E S F nap" "DynArrayGet (desc_tbl nap) (fd_index d) = Some n" "nd_refs nap n \<noteq> Some (- 1)"
  shows "\<exists>nap'. NaClSysClose vt (True, True) nap d = Inr (0, nap')
      \<and> DynArrayGet (desc_tbl nap') = (DynArrayGet (desc_tbl nap))(fd_index d := None)
      \<and> NaClSysClose vt env' nap' d = Inr (- NACL_ABI_EBADF, nap')"
  using Close_open [OF assms(1,2), of "(True, True)" vt] assms(2,3)
  by (auto simp: NaClSysClose_def NaClAppGetDescMu_def refs_full_def)

lemma close_releases_witness:
  "\<exists>nap'. NaClSysClose demo_vt (True, True) demo_fd 1 = Inr (0, nap')
      \<and> DynArrayGet (desc_tbl nap') = (DynArrayGet (desc_tbl demo_fd))(fd_index 1 := None)
      \<and> NaClSysClose demo_vt (True, True) nap' 1 = Inr (- NACL_ABI_EBADF, nap')"
  by (rule close_releases [OF demo_fd_inv], simp add: demo_get fd_index_def) (simp add: demo_fd_def)

section \<open>Memory under I/O\<close>

text \<open>While a system call has announced I/O on a range, \<open>NaClVmIoPendingCheck_mu\<close> aborts exactly
  on the ranges that meet it or another pending range; ending the I/O restores every answer.\<close>
lemma io_pending_exact:
  assumes "tree_holds (mem_io_regions nap) M" "a \<le> b" "size M + 1 < im_max"
  shows "\<exists>nap1 nap2. NaClVmIoWillStart nap a b = Inr nap1
    \<and> (\<forall>c d. c \<le> d \<longrightarrow> (NaClVmIoPendingCheck_mu nap1 c d = Inl Log_fatal)
          = (\<exists>x \<in># add_mset (a, b) M. overlaps x (c, d)))
    \<and> NaClVmIoHasEnded nap1 a b = Inr nap2
    \<and> (\<forall>c d. c \<le> d \<longrightarrow> NaClVmIoPendingCheck_mu nap2 c d = NaClVmIoPendingCheck_mu nap c d)"
proof -
  obtain t where t: "NaClIntervalRangeTreeAddInterval (mem_io_regions nap) a b = Inr t" "tree_holds t (add_mset (a, b) M)"
    using itree.add_law [OF assms] by blast
  obtain u where u: "NaClIntervalRangeTreeRemoveInterval t a b = Inr u" "tree_holds u M"
    using itree.remove_law [OF t(2)] by blast
  show ?thesis using t(1) u(1) itree.overlaps_law [OF t(2)] itree.overlaps_law [OF u(2)] itree.overlaps_law [OF assms(1)]
    by (intro exI [of _ "nap\<lparr>mem_io_regions := t\<rparr>"] exI [of _ "nap\<lparr>mem_io_regions := u\<rparr>"])
      (simp add: NaClVmIoWillStart_def NaClVmIoHasEnded_def NaClVmIoPendingCheck_mu_def)
qed

lemma io_pending_exact_witness:
  "\<exists>nap1 nap2. NaClVmIoWillStart demo_fd 0x20000 0x2ffff = Inr nap1
    \<and> (\<forall>c d. c \<le> d \<longrightarrow> (NaClVmIoPendingCheck_mu nap1 c d = Inl Log_fatal)
          = (\<exists>x \<in># add_mset (0x20000, 0x2ffff) {#}. overlaps x (c, d)))
    \<and> NaClVmIoHasEnded nap1 0x20000 0x2ffff = Inr nap2
    \<and> (\<forall>c d. c \<le> d \<longrightarrow> NaClVmIoPendingCheck_mu nap2 c d = NaClVmIoPendingCheck_mu demo_fd c d)"
  by (rule io_pending_exact) (simp_all add: demo_fd_def itree.empty_law im_max_def)

section \<open>Growing the tables\<close>

lemma doubling_overflows: "d < 2 ^ 64 \<Longrightarrow> 2 ^ 64 \<le> 2 * d \<Longrightarrow> (2 * d) mod 2 ^ 64 < (d :: nat)"
  by (simp add: mod_if [of "2 * d"])

lemma grow_space_fuel:
  "0 < d \<Longrightarrow> d < 2 ^ 64 \<Longrightarrow> 2 ^ 64 \<le> d * 2 ^ n \<Longrightarrow> grow_space (Suc n + k) idx d = grow_space (Suc n) idx d"
proof (induction n arbitrary: d)
  case (Suc n)
  show ?case
  proof (cases "2 * d < 2 ^ 64")
    case True
    then show ?thesis using Suc.IH [of "2 * d"] Suc.prems by (simp add: mult.commute mult.left_commute)
  next
    case False
    then show ?thesis using doubling_overflows [OF Suc.prems(2)] by simp
  qed
qed simp

text \<open>What the loop answers: the first doubling above the index that 64 bits hold, or none.\<close>

definition next_size :: "nat \<Rightarrow> nat \<Rightarrow> nat \<Rightarrow> bool" where
  "next_size idx d s \<longleftrightarrow> idx < s \<and> s < 2 ^ 64 \<and> (\<exists>j. s = d * 2 ^ j \<and> (\<forall>i < j. d * 2 ^ i \<le> idx))"

lemma next_size_self: "d < 2 ^ 64 \<Longrightarrow> idx < d \<Longrightarrow> next_size idx d s = (s = d)"
  by (auto simp: next_size_def intro: exI [of _ 0] elim!: allE [of _ 0])

lemma next_size_double: "d \<le> idx \<Longrightarrow> next_size idx d s = next_size idx (2 * d) s"
proof -
  assume le: "d \<le> idx"
  have "next_size idx d s" if "idx < s" "s < 2 ^ 64" "s = 2 * d * 2 ^ j" "\<forall>i < j. 2 * d * 2 ^ i \<le> idx" for j
  proof -
    have "d * 2 ^ i \<le> idx" if "i < Suc j" for i
    proof (cases i)
      case (Suc m)
      then show ?thesis using spec [OF \<open>\<forall>i < j. 2 * d * 2 ^ i \<le> idx\<close>, of m] \<open>i < Suc j\<close>
        by (simp add: mult.commute mult.left_commute)
    qed (simp add: le)
    then show ?thesis unfolding next_size_def using that(1-3) by (auto intro!: exI [of _ "Suc j"])
  qed
  moreover have "next_size idx (2 * d) s" if "idx < s" "s < 2 ^ 64" "s = d * 2 ^ j" "\<forall>i < j. d * 2 ^ i \<le> idx" for j
  proof (cases j)
    case 0
    then show ?thesis using that le by simp
  next
    case (Suc m)
    have "2 * d * 2 ^ i \<le> idx" if "i < m" for i
      using spec [OF \<open>\<forall>i < j. d * 2 ^ i \<le> idx\<close>, of "Suc i"] that Suc by (simp add: mult.commute mult.left_commute)
    then show ?thesis unfolding next_size_def using that(1-3) Suc by (auto intro!: exI [of _ m])
  qed
  ultimately show "next_size idx d s = next_size idx (2 * d) s" unfolding next_size_def by blast
qed

lemma next_size_overflow: "d \<le> idx \<Longrightarrow> 2 ^ 64 \<le> 2 * d \<Longrightarrow> \<not> next_size idx d s"
proof
  assume "d \<le> idx" "2 ^ 64 \<le> 2 * d" "next_size idx d s"
  then obtain j where j: "idx < s" "s < 2 ^ 64" "s = d * 2 ^ j" by (auto simp: next_size_def)
  show False
  proof (cases j)
    case 0
    then show ?thesis using j \<open>d \<le> idx\<close> by simp
  next
    case (Suc m)
    have "2 * d * 1 \<le> 2 * d * 2 ^ m" by (rule mult_le_mono2) simp
    then have "2 * d \<le> s" using Suc j(3) by (simp add: mult.commute mult.left_commute)
    then show ?thesis using j(2) \<open>2 ^ 64 \<le> 2 * d\<close> by simp
  qed
qed

lemma grow_space_cases:
  "0 < d \<Longrightarrow> d < 2 ^ 64 \<Longrightarrow> 2 ^ 64 \<le> d * 2 ^ n \<Longrightarrow>
    (case grow_space (Suc n) idx d of Grown s \<Rightarrow> next_size idx d s
     | Size_overflow \<Rightarrow> (\<forall>s. \<not> next_size idx d s) | Still_doubling \<Rightarrow> False)"
proof (induction n arbitrary: d)
  case (Suc n)
  show ?case
  proof (cases "idx < d")
    case True
    then show ?thesis using Suc.prems(2) by (simp add: next_size_self)
  next
    case lt: False
    show ?thesis
    proof (cases "2 * d < 2 ^ 64")
      case True
      then have "grow_space (Suc (Suc n)) idx d = grow_space (Suc n) idx (2 * d)" using lt by simp
      then show ?thesis using Suc.IH [of "2 * d"] True Suc.prems next_size_double [of d idx] lt
        by (cases "grow_space (Suc n) idx (2 * d)") (simp_all add: mult.commute mult.left_commute)
    next
      case False
      then show ?thesis
        using lt doubling_overflows [OF Suc.prems(2)] next_size_overflow [of d idx] by simp
    qed
  qed
qed simp

text \<open>C39: The loop with which \<open>DynArraySet\<close> finds a larger size ends from every size above 0, and the
  bound on its rounds in the model is never reached: after at most 65 rounds it has either found a size
  or returned the failure, and more rounds would answer the same. It finds the first of the size's
  doublings that is above the index, whenever 64 bits hold one, and fails exactly when they hold none.
  Only from size 0 would it run for ever, whatever the number of rounds; \<open>DynArrayCtor\<close> never
  constructs an array of that size, also when it is asked for one.\<close>
theorem table_growth_ends:
  assumes "0 < d" "d < 2 ^ 64"
  shows "grow_space 65 idx d \<noteq> Still_doubling
    \<and> grow_space (65 + k) idx d = grow_space 65 idx d
    \<and> (\<forall>s. grow_space 65 idx d = Grown s \<longrightarrow> next_size idx d s)
    \<and> (grow_space 65 idx d = Size_overflow) = (\<forall>s. \<not> next_size idx d s)
    \<and> grow_space k idx 0 = Still_doubling
    \<and> (\<forall>dap. DynArrayCtor a1 a2 n = Some dap \<longrightarrow> 0 < ptr_array_space dap)"
proof -
  have "2 ^ 64 \<le> d * 2 ^ 64" using assms(1) by simp
  moreover have "grow_space k idx 0 = Still_doubling" by (induction k) simp_all
  moreover have "\<forall>dap. DynArrayCtor a1 a2 n = Some dap \<longrightarrow> 0 < ptr_array_space dap"
    by (auto simp: DynArrayCtor_def Let_def split: if_splits)
  ultimately show ?thesis
    using grow_space_fuel [OF assms, of 64 k idx] grow_space_cases [OF assms, of 64 idx]
    by (auto split: growth.splits)
qed

theorem table_growth_ends_witness: "\<exists>s. grow_space 65 1000 2 = Grown s \<and> next_size 1000 2 s"
proof -
  have "next_size 1000 2 1024" unfolding next_size_def
  proof (intro conjI exI [of _ "9 :: nat"] allI impI)
    fix i :: nat
    assume "i < 9"
    then have "(2 :: nat) ^ i \<le> 2 ^ 8" by (intro power_increasing) simp_all
    then show "2 * 2 ^ i \<le> (1000 :: nat)" by simp
  qed simp_all
  then show ?thesis using table_growth_ends [of 2 1000 0] by (cases "grow_space 65 1000 2") auto
qed

end
