(* ===== verification/CodeRegions.thy ===== *)
theory CodeRegions
  imports Prelude
begin

text \<open>
  The sorted array of dynamic code regions (\<open>NaClDynamicRegion*\<close> in
  \<open>service_runtime/nacl_text.c\<close>): each region is a range of system addresses that holds code
  loaded at run time. \<open>region_table\<close> is the contract the code loading and mapping calls rely on.
\<close>

section \<open>The array\<close>

text \<open>\<open>struct NaClDynamicRegion\<close>. The generation is \<open>- 1\<close> until a deletion is requested.\<close>

record dyn_region =
  dr_start :: u64
  dr_size :: u64
  dr_delete_generation :: int
  dr_is_mmap :: bool

text \<open>
  The fields \<open>dynamic_regions\<close> and \<open>dynamic_regions_allocated\<close> of \<open>struct NaClApp\<close>; the valid
  part of the array is the list, so \<open>num_dynamic_regions\<close> is its length.
\<close>

record dyn_table =
  regions :: "dyn_region list"
  regions_allocated :: nat

definition kMinDynamicRegionsAllocated :: nat where "kMinDynamicRegionsAllocated = 32"

function leq_search :: "dyn_region list \<Rightarrow> u64 \<Rightarrow> nat \<Rightarrow> nat \<Rightarrow> nat \<times> nat" where
  "leq_search rs ptr first end_ix =
     (if first + 16 + 1 < end_ix then
        (let mid = first + (end_ix - first) div 2
         in if dr_start (rs ! mid) \<le> ptr then leq_search rs ptr mid end_ix
            else leq_search rs ptr first mid)
      else (first, end_ix))"
  by pat_completeness auto
termination
  by (relation "measure (\<lambda>(rs, ptr, first, end_ix). end_ix - first)") auto

function leq_scan :: "dyn_region list \<Rightarrow> u64 \<Rightarrow> nat \<Rightarrow> nat \<Rightarrow> nat" where
  "leq_scan rs ptr first end_ix =
     (if first + 1 < end_ix \<and> dr_start (rs ! (first + 1)) \<le> ptr then leq_scan rs ptr (first + 1) end_ix
      else first)"
  by pat_completeness auto
termination
  by (relation "measure (\<lambda>(rs, ptr, first, end_ix). end_ix - first)") auto

declare leq_search.simps [simp del] leq_scan.simps [simp del]

text \<open>A pointer to a region is its index in the array, \<open>None\<close> is the null pointer.\<close>

definition NaClDynamicRegionFindClosestLEQ :: "dyn_table \<Rightarrow> u64 \<Rightarrow> nat option" where
  "NaClDynamicRegionFindClosestLEQ nap ptr =
     (let rs = regions nap
      in if 0 = length rs then None
         else if dr_start (rs ! (length rs - 1)) \<le> ptr then Some (length rs - 1)
         else if ptr < dr_start (rs ! 0) then None
         else let (first, end_ix) = leq_search rs ptr 0 (length rs)
              in Some (leq_scan rs ptr first end_ix))"

definition NaClDynamicRegionFind :: "dyn_table \<Rightarrow> u64 \<Rightarrow> u64 \<Rightarrow> nat option" where
  "NaClDynamicRegionFind nap ptr sz =
     (case NaClDynamicRegionFindClosestLEQ nap (ptr + sz - 1) of
        None \<Rightarrow> None
      | Some p \<Rightarrow> if ptr < dr_start (regions nap ! p) + dr_size (regions nap ! p) then Some p else None)"

text \<open>The two loops that put the new region in: scroll to its place, then shift the rest up.\<close>

function scroll :: "dyn_region list \<Rightarrow> u64 \<Rightarrow> nat \<Rightarrow> nat" where
  "scroll rs start i =
     (if i < length rs \<and> dr_start (rs ! i) < start then scroll rs start (i + 1) else i)"
  by pat_completeness auto
termination
  by (relation "measure (\<lambda>(rs, start, i). length rs - i)") auto

declare scroll.simps [simp del]

fun shift_up :: "dyn_region \<Rightarrow> dyn_region list \<Rightarrow> dyn_region list" where
  "shift_up item [] = [item]"
| "shift_up item (t # rs) = item # shift_up t rs"

text \<open>\<open>mem\<close> says whether the reallocation of a full array succeeds.\<close>

definition NaClDynamicRegionCreate ::
    "bool \<Rightarrow> dyn_table \<Rightarrow> u64 \<Rightarrow> u64 \<Rightarrow> bool \<Rightarrow> (bool \<times> dyn_table) exec" where
  "NaClDynamicRegionCreate mem nap start sz is_mmap =
     (let item = \<lparr>dr_start = start, dr_size = sz, dr_delete_generation = - 1, dr_is_mmap = is_mmap\<rparr>;
          full = (regions_allocated nap = length (regions nap));
          nap1 = (if full
                  then nap\<lparr>regions_allocated := max (2 * regions_allocated nap) kMinDynamicRegionsAllocated\<rparr>
                  else nap);
          rs = regions nap1
      in if full \<and> \<not> mem then Inl Log_fatal
         else (case NaClDynamicRegionFindClosestLEQ nap1 (start + sz - 1) of
                 None \<Rightarrow>
                   (let i = scroll rs start 0
                    in Inr (True, nap1\<lparr>regions := take i rs @ shift_up item (drop i rs)\<rparr>))
               | Some p \<Rightarrow>
                   if start < dr_start (rs ! p) + dr_size (rs ! p) then Inr (False, nap1)
                   else (let i = scroll rs start p
                         in Inr (True, nap1\<lparr>regions := take i rs @ shift_up item (drop i rs)\<rparr>))))"

definition NaClDynamicRegionDelete :: "bool \<Rightarrow> dyn_table \<Rightarrow> nat \<Rightarrow> dyn_table exec" where
  "NaClDynamicRegionDelete mem nap r =
     (if \<not> r < length (regions nap) then Inl Out_of_bounds
      else let nap1 = nap\<lparr>regions := take r (regions nap) @ drop (r + 1) (regions nap)\<rparr>
           in if regions_allocated nap1 > kMinDynamicRegionsAllocated
                 \<and> regions_allocated nap1 div 4 > length (regions nap1)
              then (if \<not> mem then Inl Log_fatal
                    else Inr (nap1\<lparr>regions_allocated := regions_allocated nap1 div 2\<rparr>))
              else Inr nap1)"

section \<open>Invariant\<close>

definition dr_lo :: "dyn_region \<Rightarrow> nat" where "dr_lo r = unat (dr_start r)"
definition dr_hi :: "dyn_region \<Rightarrow> nat" where "dr_hi r = unat (dr_start r) + unat (dr_size r)"

definition region_ok :: "dyn_region \<Rightarrow> bool" where
  "region_ok r \<longleftrightarrow> 0 < unat (dr_size r) \<and> dr_hi r < 2 ^ 64"

definition regions_ok :: "dyn_table \<Rightarrow> bool" where
  "regions_ok nap \<longleftrightarrow> list_all region_ok (regions nap)
     \<and> sorted_wrt (\<lambda>a b. dr_hi a \<le> dr_lo b) (regions nap)
     \<and> length (regions nap) \<le> regions_allocated nap"

definition meets :: "nat \<Rightarrow> nat \<Rightarrow> dyn_region \<Rightarrow> bool" where
  "meets lo hi r \<longleftrightarrow> dr_lo r < hi \<and> lo < dr_hi r"

lemma region_okD: "region_ok r \<Longrightarrow> dr_lo r < dr_hi r"
  "region_ok r \<Longrightarrow> unat (dr_start r + dr_size r) = dr_hi r"
  by (simp_all add: region_ok_def dr_lo_def dr_hi_def unat_add_nowrap)

lemma shift_up [simp]: "shift_up item rs = item # rs"
  by (induction item rs rule: shift_up.induct) auto

lemma regions_order:
  assumes "regions_ok nap" "i < j" "j < length (regions nap)"
  shows "dr_hi (regions nap ! i) \<le> dr_lo (regions nap ! j)" "dr_lo (regions nap ! i) < dr_lo (regions nap ! j)"
proof -
  show 1: "dr_hi (regions nap ! i) \<le> dr_lo (regions nap ! j)"
    using assms sorted_wrt_nth_less [of "\<lambda>a b. dr_hi a \<le> dr_lo b" "regions nap" i j] by (simp add: regions_ok_def)
  have "region_ok (regions nap ! i)" using assms by (auto simp: regions_ok_def list_all_length)
  then show "dr_lo (regions nap ! i) < dr_lo (regions nap ! j)" using 1 region_okD(1) by fastforce
qed

section \<open>Searching\<close>

lemma leq_search_ok:
  "first < end_ix \<Longrightarrow> dr_start (rs ! first) \<le> ptr \<Longrightarrow> \<not> dr_start (rs ! end_ix) \<le> ptr \<or> end_ix = length rs
    \<Longrightarrow> end_ix \<le> length rs \<Longrightarrow>
    (case leq_search rs ptr first end_ix of (f, e) \<Rightarrow>
      f < e \<and> e \<le> length rs \<and> dr_start (rs ! f) \<le> ptr \<and> (\<not> dr_start (rs ! e) \<le> ptr \<or> e = length rs))"
proof (induction rs ptr first end_ix rule: leq_search.induct)
  case (1 rs ptr first end_ix)
  let ?mid = "first + (end_ix - first) div 2"
  show ?case
  proof (cases "first + 16 + 1 < end_ix")
    case True
    then have m: "?mid < end_ix" "first < ?mid" by auto
    show ?thesis
    proof (cases "dr_start (rs ! ?mid) \<le> ptr")
      case t: True
      have "leq_search rs ptr first end_ix = leq_search rs ptr ?mid end_ix"
        using True t by (simp add: leq_search.simps [of rs ptr first] Let_def)
      then show ?thesis using 1(1) [OF True refl t] 1(3-6) m t by simp
    next
      case t: False
      have "leq_search rs ptr first end_ix = leq_search rs ptr first ?mid"
        using True t by (simp add: leq_search.simps [of rs ptr first] Let_def)
      then show ?thesis using 1(2) [OF True refl t] 1(3-6) m t by simp
    qed
  next
    case False
    then have "leq_search rs ptr first end_ix = (first, end_ix)"
      by (simp add: leq_search.simps [of rs ptr first])
    then show ?thesis using 1 by simp
  qed
qed

lemma leq_scan_ok:
  "first < end_ix \<Longrightarrow> dr_start (rs ! first) \<le> ptr \<Longrightarrow>
    leq_scan rs ptr first end_ix < end_ix \<and> dr_start (rs ! leq_scan rs ptr first end_ix) \<le> ptr
    \<and> (leq_scan rs ptr first end_ix + 1 < end_ix \<longrightarrow> ptr < dr_start (rs ! (leq_scan rs ptr first end_ix + 1)))"
proof (induction rs ptr first end_ix rule: leq_scan.induct)
  case (1 rs ptr first end_ix)
  show ?case
  proof (cases "first + 1 < end_ix \<and> dr_start (rs ! (first + 1)) \<le> ptr")
    case True
    then have "leq_scan rs ptr first end_ix = leq_scan rs ptr (first + 1) end_ix"
      by (simp add: leq_scan.simps [of rs ptr first])
    then show ?thesis using 1(1) [OF True] True by simp
  next
    case False
    then have "leq_scan rs ptr first end_ix = first" by (subst leq_scan.simps) (rule if_not_P)
    then show ?thesis using 1(2,3) False by (auto simp: not_le)
  qed
qed

text \<open>The result is the last region that starts at or below the pointer.\<close>

lemma FindClosestLEQ_ok:
  assumes ok: "regions_ok nap"
  shows "NaClDynamicRegionFindClosestLEQ nap ptr = None \<Longrightarrow> \<forall>r \<in> set (regions nap). ptr < dr_start r"
    and "NaClDynamicRegionFindClosestLEQ nap ptr = Some p \<Longrightarrow> p < length (regions nap)
      \<and> dr_start (regions nap ! p) \<le> ptr \<and> (\<forall>j. p < j \<and> j < length (regions nap) \<longrightarrow> ptr < dr_start (regions nap ! j))"
proof -
  let ?rs = "regions nap"
  have mono: "i \<le> j \<Longrightarrow> j < length ?rs \<Longrightarrow> dr_start (?rs ! i) \<le> dr_start (?rs ! j)" for i j
    using regions_order(2) [OF ok, of i j] by (cases "i = j") (auto simp: dr_lo_def word_nat)
  show "\<forall>r \<in> set ?rs. ptr < dr_start r" if "NaClDynamicRegionFindClosestLEQ nap ptr = None"
  proof (cases "?rs = []")
    case False
    then have p: "ptr < dr_start (?rs ! 0)"
      using that by (auto simp: NaClDynamicRegionFindClosestLEQ_def Let_def split: if_splits prod.splits)
    then have "ptr < dr_start (?rs ! j)" if "j < length ?rs" for j
      using mono [of 0 j] that by (auto intro: less_le_trans)
    then show ?thesis by (auto simp: in_set_conv_nth)
  qed simp
  assume s: "NaClDynamicRegionFindClosestLEQ nap ptr = Some p"
  then have ne: "?rs \<noteq> []" by (auto simp: NaClDynamicRegionFindClosestLEQ_def)
  show "p < length ?rs \<and> dr_start (?rs ! p) \<le> ptr \<and> (\<forall>j. p < j \<and> j < length ?rs \<longrightarrow> ptr < dr_start (?rs ! j))"
  proof (cases "dr_start (?rs ! (length ?rs - 1)) \<le> ptr")
    case True
    then have "p = length ?rs - 1" using s ne by (simp add: NaClDynamicRegionFindClosestLEQ_def Let_def)
    then show ?thesis using True ne by auto
  next
    case False
    obtain f e where fe: "leq_search ?rs ptr 0 (length ?rs) = (f, e)" by fastforce
    have z: "dr_start (?rs ! 0) \<le> ptr" and p: "p = leq_scan ?rs ptr f e"
      using s ne False fe by (auto simp: NaClDynamicRegionFindClosestLEQ_def Let_def not_less split: if_splits)
    have "f < e \<and> e \<le> length ?rs \<and> dr_start (?rs ! f) \<le> ptr \<and> (\<not> dr_start (?rs ! e) \<le> ptr \<or> e = length ?rs)"
      using leq_search_ok [of 0 "length ?rs" ?rs ptr] z ne fe by simp
    moreover from this have sc: "p < e" "dr_start (?rs ! p) \<le> ptr"
      "p + 1 < e \<longrightarrow> ptr < dr_start (?rs ! (p + 1))"
      using leq_scan_ok [of f e ?rs ptr] by (simp_all add: p)
    moreover have "ptr < dr_start (?rs ! j)" if j: "p < j" "j < length ?rs" for j
    proof (cases "p + 1 < e")
      case True
      then show ?thesis using sc(3) mono [of "p + 1" j] j by (auto intro: less_le_trans)
    next
      case ge: False
      then have "e \<le> j" using j sc(1) by simp
      then show ?thesis using calculation(1) mono [of e j] j by (auto intro: less_le_trans simp: not_le)
    qed
    ultimately show ?thesis by auto
  qed
qed

lemma range_last: "0 < unat sz \<Longrightarrow> unat start + unat sz < 2 ^ 64 \<Longrightarrow>
    unat (start + sz - 1 :: u64) = unat start + unat sz - 1"
proof -
  assume a: "0 < unat sz" "unat start + unat sz < 2 ^ 64"
  then have s: "unat (start + sz) = unat start + unat sz" by (simp add: unat_add_nowrap)
  then show ?thesis using a unat_sub_nowrap [of 1 "start + sz"] by simp
qed

text \<open>A lookup finds a region exactly when one meets the range.\<close>

lemma Find_ok:
  assumes ok: "regions_ok nap" and r: "0 < unat sz" "unat start + unat sz < 2 ^ 64"
  shows "NaClDynamicRegionFind nap start sz = None \<Longrightarrow>
      \<forall>r \<in> set (regions nap). \<not> meets (unat start) (unat start + unat sz) r"
    and "NaClDynamicRegionFind nap start sz = Some p \<Longrightarrow>
      p < length (regions nap) \<and> meets (unat start) (unat start + unat sz) (regions nap ! p)
      \<and> (\<forall>j. p < j \<and> j < length (regions nap) \<longrightarrow> \<not> meets (unat start) (unat start + unat sz) (regions nap ! j))"
proof -
  let ?rs = "regions nap" and ?l = "start + sz - 1"
  have l: "ptr \<le> ?l \<longleftrightarrow> unat ptr < unat start + unat sz" for ptr
    using range_last [OF r] r(1) by (auto simp: word_nat)
  have rok: "region_ok (?rs ! i)" if "i < length ?rs" for i using ok that by (simp add: regions_ok_def list_all_length)
  have hi: "start < dr_start (?rs ! i) + dr_size (?rs ! i) \<longleftrightarrow> unat start < dr_hi (?rs ! i)" if "i < length ?rs" for i
    using region_okD(2) [OF rok [OF that]] by (simp add: word_nat)
  show "\<forall>r \<in> set ?rs. \<not> meets (unat start) (unat start + unat sz) r"
    if n: "NaClDynamicRegionFind nap start sz = None"
  proof (cases "NaClDynamicRegionFindClosestLEQ nap ?l")
    case None
    then have "\<forall>r \<in> set ?rs. \<not> dr_start r \<le> ?l" using FindClosestLEQ_ok(1) [OF ok] by (auto simp: not_le)
    then show ?thesis unfolding l by (auto simp: meets_def dr_lo_def)
  next
    case (Some q)
    then have q: "q < length ?rs" "\<forall>j. q < j \<and> j < length ?rs \<longrightarrow> ?l < dr_start (?rs ! j)"
      using FindClosestLEQ_ok(2) [OF ok] by blast+
    have nq: "dr_hi (?rs ! q) \<le> unat start"
      using n Some hi [OF q(1)] by (simp add: NaClDynamicRegionFind_def split: if_splits)
    have "\<not> meets (unat start) (unat start + unat sz) (?rs ! j)" if j: "j < length ?rs" for j
    proof (cases "q < j")
      case True
      then show ?thesis using q(2) j l [of "dr_start (?rs ! j)"] by (auto simp: meets_def dr_lo_def not_le [symmetric])
    next
      case False
      then have "dr_hi (?rs ! j) \<le> dr_hi (?rs ! q)"
        using regions_order(1) [OF ok, of j q] q(1) region_okD(1) [OF rok [OF q(1)]] by (cases "j = q") auto
      then show ?thesis using nq by (simp add: meets_def)
    qed
    then show ?thesis by (auto simp: in_set_conv_nth)
  qed
  assume "NaClDynamicRegionFind nap start sz = Some p"
  then have f: "NaClDynamicRegionFindClosestLEQ nap ?l = Some p"
    "start < dr_start (?rs ! p) + dr_size (?rs ! p)"
    by (auto simp: NaClDynamicRegionFind_def split: option.splits if_splits)
  have p: "p < length ?rs" "dr_start (?rs ! p) \<le> ?l" "\<forall>j. p < j \<and> j < length ?rs \<longrightarrow> ?l < dr_start (?rs ! j)"
    using FindClosestLEQ_ok(2) [OF ok f(1)] by blast+
  then show "p < length ?rs \<and> meets (unat start) (unat start + unat sz) (?rs ! p)
      \<and> (\<forall>j. p < j \<and> j < length ?rs \<longrightarrow> \<not> meets (unat start) (unat start + unat sz) (?rs ! j))"
    using f(2) hi [OF p(1)] l by (fastforce simp: meets_def dr_lo_def not_le [symmetric])
qed

section \<open>Creating and deleting\<close>

lemma scroll_ok:
  "i \<le> length rs \<Longrightarrow> i \<le> scroll rs start i \<and> scroll rs start i \<le> length rs
    \<and> (\<forall>j. i \<le> j \<and> j < scroll rs start i \<longrightarrow> dr_start (rs ! j) < start)
    \<and> (scroll rs start i < length rs \<longrightarrow> start \<le> dr_start (rs ! scroll rs start i))"
proof (induction rs start i rule: scroll.induct)
  case (1 rs start i)
  show ?case
  proof (cases "i < length rs \<and> dr_start (rs ! i) < start")
    case True
    then have "scroll rs start i = scroll rs start (i + 1)" by (simp add: scroll.simps [of rs start i])
    moreover have "dr_start (rs ! j) < start" if "i \<le> j" "j < scroll rs start (i + 1)" for j
      using 1(1) [OF True] True that by (cases "j = i") auto
    ultimately show ?thesis using 1(1) [OF True] True by auto
  next
    case False
    then have "scroll rs start i = i" by (subst scroll.simps) (rule if_not_P)
    then show ?thesis using 1(2) False by (auto simp: not_less)
  qed
qed

lemma insert_ok:
  assumes ok: "list_all region_ok rs" "sorted_wrt (\<lambda>a b. dr_hi a \<le> dr_lo b) rs" and item: "region_ok item"
    and free: "\<forall>r \<in> set rs. \<not> meets (dr_lo item) (dr_hi item) r"
    and i: "\<forall>r \<in> set (take i rs). dr_lo r < dr_lo item" "\<forall>r \<in> set (drop i rs). dr_lo item \<le> dr_lo r"
  shows "list_all region_ok (take i rs @ item # drop i rs)
    \<and> sorted_wrt (\<lambda>a b. dr_hi a \<le> dr_lo b) (take i rs @ item # drop i rs)"
proof -
  have all: "region_ok r \<and> \<not> meets (dr_lo item) (dr_hi item) r" if "r \<in> set rs" for r
    using ok(1) free that by (simp add: list_all_iff)
  have "dr_hi r \<le> dr_lo item" if "r \<in> set (take i rs)" for r
    using all [OF in_set_takeD [OF that]] i(1) that region_okD(1) [OF item] by (fastforce simp: meets_def)
  moreover have "dr_hi item \<le> dr_lo r" if "r \<in> set (drop i rs)" for r
    using all [OF in_set_dropD [OF that]] i(2) that region_okD(1) [of r] by (fastforce simp: meets_def)
  moreover have "sorted_wrt (\<lambda>a b. dr_hi a \<le> dr_lo b) (take i rs @ drop i rs)" using ok(2) by simp
  ultimately show ?thesis using ok(1) item
    unfolding sorted_wrt_append by (auto simp: list_all_iff dest: in_set_takeD in_set_dropD)
qed

lemma Create_ok:
  fixes is_mmap :: bool
  assumes ok: "regions_ok nap" and r: "0 < unat sz" "unat start + unat sz < 2 ^ 64"
  defines "item \<equiv> \<lparr>dr_start = start, dr_size = sz, dr_delete_generation = - 1, dr_is_mmap = is_mmap\<rparr>"
    and "free \<equiv> \<forall>r \<in> set (regions nap). \<not> meets (unat start) (unat start + unat sz) r"
  shows "\<exists>nap'. NaClDynamicRegionCreate True nap start sz is_mmap = Inr (free, nap') \<and> regions_ok nap'
    \<and> set (regions nap') = (if free then insert item (set (regions nap)) else set (regions nap))"
proof -
  let ?full = "regions_allocated nap = length (regions nap)"
  let ?nap = "if ?full
    then nap\<lparr>regions_allocated := max (2 * regions_allocated nap) kMinDynamicRegionsAllocated\<rparr> else nap"
  let ?rs = "regions nap"
  have rs: "regions ?nap = ?rs" by simp
  have room: "length ?rs < regions_allocated ?nap"
    using ok by (auto simp: regions_ok_def kMinDynamicRegionsAllocated_def)
  have ok1: "regions_ok ?nap" using ok room by (cases ?full) (simp_all add: regions_ok_def)
  have it: "region_ok item" "dr_lo item = unat start" "dr_hi item = unat start + unat sz"
    using r by (simp_all add: item_def region_ok_def dr_lo_def dr_hi_def)
  let ?l = "start + sz - 1"
  have l: "ptr \<le> ?l \<longleftrightarrow> unat ptr < unat start + unat sz" for ptr
    using range_last [OF r] r(1) by (auto simp: word_nat)
  have ins: "regions_ok (?nap\<lparr>regions := take i ?rs @ item # drop i ?rs\<rparr>)
      \<and> set (take i ?rs @ item # drop i ?rs) = insert item (set ?rs)"
    if i: "i = scroll ?rs start p" "p \<le> length ?rs" "\<forall>j < p. dr_lo (?rs ! j) < unat start" and f: free for i p
  proof -
    have s: "i \<le> length ?rs" "\<forall>j. p \<le> j \<and> j < i \<longrightarrow> dr_start (?rs ! j) < start"
      "i < length ?rs \<longrightarrow> start \<le> dr_start (?rs ! i)"
      using scroll_ok [OF i(2), of start] i(1) by auto
    have "dr_lo (?rs ! j) < unat start" if "j < i" for j
      using s(2) i(3) that by (cases "j < p") (auto simp: dr_lo_def word_nat)
    then have t: "\<forall>r \<in> set (take i ?rs). dr_lo r < dr_lo item" using s(1) by (auto simp: in_set_conv_nth it)
    have "unat start \<le> dr_lo (?rs ! j)" if "i \<le> j" "j < length ?rs" for j
      using s(3) regions_order(2) [OF ok, of i j] that by (cases "i = j") (auto simp: dr_lo_def word_nat)
    then have d: "\<forall>r \<in> set (drop i ?rs). dr_lo item \<le> dr_lo r" by (auto simp: in_set_conv_nth it)
    have "list_all region_ok (take i ?rs @ item # drop i ?rs)
        \<and> sorted_wrt (\<lambda>a b. dr_hi a \<le> dr_lo b) (take i ?rs @ item # drop i ?rs)"
      by (rule insert_ok [OF _ _ it(1) _ t d]) (use ok f in \<open>simp_all add: regions_ok_def free_def it\<close>)
    moreover have "set ?rs = set (take i ?rs) \<union> set (drop i ?rs)" by (metis append_take_drop_id set_append)
    ultimately show ?thesis using room s(1) by (simp add: regions_ok_def)
  qed
  show ?thesis
  proof (cases "NaClDynamicRegionFindClosestLEQ ?nap ?l")
    case None
    then have n: "\<forall>r \<in> set ?rs. ?l < dr_start r" using FindClosestLEQ_ok(1) [OF ok1, of ?l] rs by metis
    then have free
      using l by (auto simp: free_def meets_def dr_lo_def not_le [symmetric])
    let ?i = "scroll ?rs start 0"
    have "NaClDynamicRegionCreate True nap start sz is_mmap = Inr (True, ?nap\<lparr>regions := take ?i ?rs @ item # drop ?i ?rs\<rparr>)"
      using None unfolding NaClDynamicRegionCreate_def Let_def item_def by simp
    then show ?thesis using ins [OF refl _ _ \<open>free\<close>, of 0] \<open>free\<close> by simp
  next
    case (Some p)
    then have p: "p < length ?rs" "dr_start (?rs ! p) \<le> ?l" "\<forall>j. p < j \<and> j < length ?rs \<longrightarrow> ?l < dr_start (?rs ! j)"
      using FindClosestLEQ_ok(2) [OF ok1 Some] rs by simp_all
    have pok: "region_ok (?rs ! p)" using ok p(1) by (simp add: regions_ok_def list_all_length)
    have hi: "start < dr_start (?rs ! p) + dr_size (?rs ! p) \<longleftrightarrow> unat start < dr_hi (?rs ! p)"
      using region_okD(2) [OF pok] by (simp add: word_nat)
    show ?thesis
    proof (cases "unat start < dr_hi (?rs ! p)")
      case True
      then have "meets (unat start) (unat start + unat sz) (?rs ! p)"
        using p(2) l by (simp add: meets_def dr_lo_def)
      then have nf: "\<not> free" using p(1) by (auto simp: free_def)
      have "NaClDynamicRegionCreate True nap start sz is_mmap = Inr (False, ?nap)"
        using Some True hi unfolding NaClDynamicRegionCreate_def Let_def by simp
      then show ?thesis using nf ok1 rs by (intro exI [of _ ?nap]) simp
    next
      case False
      have lo: "dr_lo (?rs ! j) < unat start" if "j < p" for j
        using regions_order(2) [OF ok that p(1)] region_okD(1) [OF pok] False by simp
      have f: free unfolding free_def
      proof
        fix r assume "r \<in> set ?rs"
        then obtain j where j: "r = ?rs ! j" "j < length ?rs" by (auto simp: in_set_conv_nth)
        show "\<not> meets (unat start) (unat start + unat sz) r"
        proof (cases "p < j")
          case True
          then show ?thesis using p(3) j l [of "dr_start r"] by (auto simp: meets_def dr_lo_def not_le [symmetric])
        next
          case le: False
          then have "dr_hi r \<le> dr_hi (?rs ! p)"
            using regions_order(1) [OF ok, of j p] p(1) j region_okD(1) [OF pok] by (cases "j = p") auto
          then show ?thesis using False by (simp add: meets_def)
        qed
      qed
      let ?i = "scroll ?rs start p"
      have "NaClDynamicRegionCreate True nap start sz is_mmap = Inr (True, ?nap\<lparr>regions := take ?i ?rs @ item # drop ?i ?rs\<rparr>)"
        using Some False hi unfolding NaClDynamicRegionCreate_def Let_def item_def by simp
      then show ?thesis using ins [OF refl _ _ f, of p] lo p(1) f by simp
    qed
  qed
qed

lemma Delete_ok:
  assumes ok: "regions_ok nap" and r: "r < length (regions nap)"
  shows "\<exists>nap'. NaClDynamicRegionDelete True nap r = Inr nap' \<and> regions_ok nap'
    \<and> set (regions nap') = set (regions nap) - {regions nap ! r}"
proof -
  let ?rs = "regions nap" and ?ts = "take r (regions nap) @ drop (r + 1) (regions nap)"
  have split: "?rs = take r ?rs @ ?rs ! r # drop (r + 1) ?rs" using r by (simp add: id_take_nth_drop)
  have so: "list_all region_ok ?rs" "sorted_wrt (\<lambda>a b. dr_hi a \<le> dr_lo b) ?rs" "length ?rs \<le> regions_allocated nap"
    using ok by (simp_all add: regions_ok_def)
  have "sorted_wrt (\<lambda>a b. dr_hi a \<le> dr_lo b) (take r ?rs @ ?rs ! r # drop (r + 1) ?rs)"
    using so(2) by (simp only: split [symmetric])
  then have 1: "list_all region_ok ?ts" "sorted_wrt (\<lambda>a b. dr_hi a \<le> dr_lo b) ?ts"
    using so(1) by (auto simp: sorted_wrt_append list_all_iff dest: in_set_takeD in_set_dropD)
  have ne: "x \<noteq> ?rs ! r" if "x \<in> set ?ts" for x
  proof -
    consider (l) "x \<in> set (take r ?rs)" | (d) "x \<in> set (drop (r + 1) ?rs)" using \<open>x \<in> set ?ts\<close> by auto
    then obtain j where "j < length ?rs" "j \<noteq> r" "x = ?rs ! j"
    proof cases
      case l
      then obtain i where "i < r" "x = ?rs ! i" by (auto simp: in_set_conv_nth)
      then show ?thesis using r by (intro that [of i]) simp_all
    next
      case d
      then obtain i where "i < length ?rs - (r + 1)" "x = ?rs ! (r + 1 + i)" by (auto simp: in_set_conv_nth)
      then show ?thesis by (intro that [of "r + 1 + i"]) simp_all
    qed
    then show ?thesis using regions_order(2) [OF ok, of j r] regions_order(2) [OF ok, of r j] r
      by (cases "j < r") auto
  qed
  have st: "set ?rs = insert (?rs ! r) (set ?ts)" by (subst split) auto
  have 2: "set ?ts = set ?rs - {?rs ! r}" unfolding st using ne by blast
  have len: "length ?ts + 1 = length ?rs" using r by simp
  let ?shrink = "regions_allocated nap > kMinDynamicRegionsAllocated \<and> regions_allocated nap div 4 > length ?ts"
  let ?nap' = "if ?shrink then nap\<lparr>regions := ?ts, regions_allocated := regions_allocated nap div 2\<rparr>
    else nap\<lparr>regions := ?ts\<rparr>"
  have "NaClDynamicRegionDelete True nap r = Inr ?nap'"
    using r by (simp add: NaClDynamicRegionDelete_def Let_def)
  moreover have "regions_ok ?nap'" using 1 len so(3) by (auto simp: regions_ok_def)
  ultimately show ?thesis using 2 by (intro exI [of _ ?nap']) simp
qed

section \<open>The contract\<close>

text \<open>
  What the clients rely on, on 64-bit addresses: a table holds a set of regions, no two of them
  meet, a range is entered exactly when it is free, and a lookup finds what meets a range.
\<close>

locale region_table =
  fixes ok :: "'t \<Rightarrow> bool"
    and regs :: "'t \<Rightarrow> dyn_region set"
    and at :: "'t \<Rightarrow> nat \<Rightarrow> dyn_region"
    and find :: "'t \<Rightarrow> u64 \<Rightarrow> u64 \<Rightarrow> nat option"
    and create :: "'t \<Rightarrow> u64 \<Rightarrow> u64 \<Rightarrow> bool \<Rightarrow> (bool \<times> 't) exec"
    and delete :: "'t \<Rightarrow> nat \<Rightarrow> 't exec"
  assumes apart: "ok t \<Longrightarrow> r \<in> regs t \<Longrightarrow> s \<in> regs t \<Longrightarrow> r \<noteq> s \<Longrightarrow> \<not> meets (dr_lo r) (dr_hi r) s"
    and find_none: "ok t \<Longrightarrow> 0 < unat n \<Longrightarrow> unat a + unat n < 2 ^ 64 \<Longrightarrow> find t a n = None
      \<Longrightarrow> r \<in> regs t \<Longrightarrow> \<not> meets (unat a) (unat a + unat n) r"
    and find_some: "ok t \<Longrightarrow> 0 < unat n \<Longrightarrow> unat a + unat n < 2 ^ 64 \<Longrightarrow> find t a n = Some p
      \<Longrightarrow> at t p \<in> regs t \<and> meets (unat a) (unat a + unat n) (at t p)"
    and create_law: "ok t \<Longrightarrow> 0 < unat n \<Longrightarrow> unat a + unat n < 2 ^ 64 \<Longrightarrow>
      \<exists>t' b. create t a n m = Inr (b, t') \<and> ok t' \<and> b = (\<forall>r \<in> regs t. \<not> meets (unat a) (unat a + unat n) r)
        \<and> regs t' = (if b then insert \<lparr>dr_start = a, dr_size = n, dr_delete_generation = - 1, dr_is_mmap = m\<rparr>
                              (regs t) else regs t)"
    and delete_law: "ok t \<Longrightarrow> 0 < unat n \<Longrightarrow> unat a + unat n < 2 ^ 64 \<Longrightarrow> find t a n = Some p \<Longrightarrow>
      \<exists>t'. delete t p = Inr t' \<and> ok t' \<and> regs t' = regs t - {at t p}"
begin

text \<open>A region is found where it was created, and while it is there no other one can be.\<close>

lemma create_find:
  assumes "ok t" "0 < unat n" "unat a + unat n < 2 ^ 64" "create t a n m = Inr (True, t')"
  shows "\<exists>p. find t' a n = Some p
    \<and> at t' p = \<lparr>dr_start = a, dr_size = n, dr_delete_generation = - 1, dr_is_mmap = m\<rparr>"
proof -
  let ?i = "\<lparr>dr_start = a, dr_size = n, dr_delete_generation = - 1, dr_is_mmap = m\<rparr>"
  have t': "ok t'" "regs t' = insert ?i (regs t)" using create_law [OF assms(1-3), of m] assms(4) by auto
  have i: "meets (unat a) (unat a + unat n) ?i" using assms(2) by (simp add: meets_def dr_lo_def dr_hi_def)
  obtain p where p: "find t' a n = Some p"
    using find_none [OF t'(1) assms(2,3), of ?i] i t'(2) by (cases "find t' a n") auto
  moreover have "at t' p = ?i"
    using find_some [OF t'(1) assms(2,3) p] apart [OF t'(1), of ?i "at t' p"] t'(2)
    by (cases "at t' p = ?i") (auto simp: dr_lo_def dr_hi_def)
  ultimately show ?thesis by blast
qed

lemma create_twice:
  assumes "ok t" "0 < unat n" "unat a + unat n < 2 ^ 64" "create t a n m = Inr (True, t')"
    and "0 < unat n'" "unat a' + unat n' < 2 ^ 64" "unat a < unat a' + unat n'" "unat a' < unat a + unat n"
  shows "\<exists>t''. create t' a' n' m' = Inr (False, t'') \<and> regs t'' = regs t'"
proof -
  let ?i = "\<lparr>dr_start = a, dr_size = n, dr_delete_generation = - 1, dr_is_mmap = m\<rparr>"
  have t': "ok t'" "?i \<in> regs t'" using create_law [OF assms(1-3), of m] assms(4) by auto
  moreover have "meets (unat a') (unat a' + unat n') ?i" using assms(7,8) by (simp add: meets_def dr_lo_def dr_hi_def)
  ultimately show ?thesis using create_law [OF t'(1) assms(5,6), of m'] by fastforce
qed

lemma create_delete:
  assumes "ok t" "0 < unat n" "unat a + unat n < 2 ^ 64" "create t a n m = Inr (True, t')"
  shows "\<exists>p t''. find t' a n = Some p \<and> delete t' p = Inr t'' \<and> ok t'' \<and> regs t'' = regs t"
proof -
  let ?i = "\<lparr>dr_start = a, dr_size = n, dr_delete_generation = - 1, dr_is_mmap = m\<rparr>"
  obtain p where p: "find t' a n = Some p" "at t' p = ?i" using create_find [OF assms] by blast
  have t': "ok t'" "regs t' = insert ?i (regs t)" "\<forall>r \<in> regs t. \<not> meets (unat a) (unat a + unat n) r"
    using create_law [OF assms(1-3), of m] assms(4) by auto
  have "?i \<notin> regs t" using t'(3) assms(2) by (auto simp: meets_def dr_lo_def dr_hi_def)
  then show ?thesis using delete_law [OF t'(1) assms(2,3) p(1)] p t'(2) by auto
qed

end

interpretation code: region_table regions_ok "\<lambda>t. set (regions t)" "\<lambda>t p. regions t ! p" NaClDynamicRegionFind
  "NaClDynamicRegionCreate True" "NaClDynamicRegionDelete True"
proof
  fix t r s
  assume ok: "regions_ok t" and rs: "r \<in> set (regions t)" "s \<in> set (regions t)" "r \<noteq> s"
  then obtain i j where "i < length (regions t)" "j < length (regions t)" "r = regions t ! i" "s = regions t ! j" "i \<noteq> j"
    by (metis in_set_conv_nth)
  then show "\<not> meets (dr_lo r) (dr_hi r) s"
    using regions_order(1) [OF ok, of i j] regions_order(1) [OF ok, of j i] by (cases "i < j") (auto simp: meets_def)
next
  fix t n a r
  assume "regions_ok t" "0 < unat n" "unat a + unat n < 2 ^ 64" "NaClDynamicRegionFind t a n = None" "r \<in> set (regions t)"
  then show "\<not> meets (unat a) (unat a + unat n) r" using Find_ok(1) by blast
next
  fix t n a p
  assume "regions_ok t" "0 < unat n" "unat a + unat n < 2 ^ 64" "NaClDynamicRegionFind t a n = Some p"
  then show "regions t ! p \<in> set (regions t) \<and> meets (unat a) (unat a + unat n) (regions t ! p)"
    using Find_ok(2) nth_mem by blast
next
  fix t and n a :: u64 and m
  assume "regions_ok t" "0 < unat n" "unat a + unat n < 2 ^ 64"
  from Create_ok [OF this, of m] show "\<exists>t' b. NaClDynamicRegionCreate True t a n m = Inr (b, t') \<and> regions_ok t'
      \<and> b = (\<forall>r \<in> set (regions t). \<not> meets (unat a) (unat a + unat n) r)
      \<and> set (regions t') = (if b then insert \<lparr>dr_start = a, dr_size = n, dr_delete_generation = - 1, dr_is_mmap = m\<rparr>
                              (set (regions t)) else set (regions t))"
    by blast
next
  fix t n a p
  assume h: "regions_ok t" "0 < unat n" "unat a + unat n < 2 ^ 64" "NaClDynamicRegionFind t a n = Some p"
  then have "p < length (regions t)" using Find_ok(2) by blast
  then show "\<exists>t'. NaClDynamicRegionDelete True t p = Inr t' \<and> regions_ok t'
      \<and> set (regions t') = set (regions t) - {regions t ! p}"
    by (rule Delete_ok [OF h(1)])
qed

end
