(* ===== verification/DynCode.thy ===== *)
theory DynCode
  imports CodeRegions FdCalls
begin

text \<open>
  Loading, changing and deleting code at run time (\<open>service_runtime/nacl_text.c\<close>) and the calls
  of the validator (\<open>service_runtime/sel_validate_image.c\<close>). The text area is backed by shared
  memory, mapped executable in the sandbox and, while it is changed, writable elsewhere. Both
  views are the same bytes, so a byte of the writable view is named by its address in the
  sandbox; both views start on an allocation page, so the low bits of the addresses agree.
\<close>

section \<open>State\<close>

text \<open>
  A request the service runtime makes for memory: a call of \<open>mmap\<close>, \<open>mprotect\<close> or \<open>munmap\<close>, the
  method \<open>Map\<close> of the shared memory of the text (address, size, protection, flags, offset), or the
  method \<open>Map\<close> of a descriptor.
\<close>

datatype mem_request =
    Host_mmap u64 u64 u32 u32
  | Host_mprotect u64 u64 u32
  | Host_munmap u64 u64
  | Text_Map u64 u64 u32 u32 u64
  | Desc_Map nat u64 u64 u32 u32 u64

text \<open>
  \<open>natp_generation\<close> is the field \<open>dynamic_delete_generation\<close> of each thread, by the number the
  thread table holds. \<open>requests\<close> lists the requests made so far, the last first.
\<close>

record 'h code_app = "'h fd_app" +
  dyn_regs :: dyn_table
  dynamic_page_bitmap :: "u8 list"
  mapcache_offset :: u32
  mapcache_size :: u32
  mapcache_ret :: u64
  text_shm :: bool
  delete_generation :: int
  natp_generation :: "nat \<Rightarrow> int"
  enable_dyncode_syscalls :: bool
  skip_validator :: bool
  ignore_validator_result :: bool
  validator_stub_out_mode :: bool
  pnacl_mode :: bool
  requests :: "mem_request list"

datatype validation_status =
    NaClValidationSucceeded | NaClValidationFailed | NaClValidationFailedOutOfMemory
  | NaClValidationFailedNotImplemented | NaClValidationFailedCpuNotSupported
  | NaClValidationFailedSegmentationIssue

text \<open>
  The host and the validator in one call: the functions of \<open>struct NaClValidatorInterface\<close>,
  which return the bytes as they leave them; the mapping of the shared memory and \<open>NaClMprotect\<close>;
  and whether memory can be allocated. The view of the text that was mapped whole is unmapped
  whole, which the host does not refuse. Metadata of validated files is named by a number.
\<close>

record text_env =
  e_code_replacement :: bool
  e_Validate :: "u64 \<Rightarrow> u8 list \<Rightarrow> bool \<Rightarrow> u32 \<Rightarrow> bool \<Rightarrow> nat option \<Rightarrow> bool \<Rightarrow> validation_status \<times> u8 list"
  e_CopyCode :: "u64 \<Rightarrow> u8 list \<Rightarrow> u8 list \<Rightarrow> validation_status \<times> u8 list"
  e_ValidateCodeReplacement :: "u64 \<Rightarrow> u8 list \<Rightarrow> u8 list \<Rightarrow> validation_status"
  e_shm_map :: "u32 \<Rightarrow> u32 \<Rightarrow> u64"
  e_mprotect :: "u64 \<Rightarrow> u64 \<Rightarrow> bool"
  e_mem :: bool

definition NACL_ABI_ENOMEM :: int where "NACL_ABI_ENOMEM = 12"
definition NACL_ABI_EAGAIN :: int where "NACL_ABI_EAGAIN = 11"
definition NACL_ABI_ENOSYS :: int where "NACL_ABI_ENOSYS = 38"

definition LOAD_OK :: int where "LOAD_OK = 0"
definition LOAD_BAD_FILE :: int where "LOAD_BAD_FILE = 49"
definition LOAD_VALIDATION_FAILED :: int where "LOAD_VALIDATION_FAILED = 57"

definition NACL_HALT_OPCODE :: u8 where "NACL_HALT_OPCODE = 0xf4"
definition NACL_HALT_WORD :: u32 where "NACL_HALT_WORD = 0xf4f4f4f4"
definition NACL_HALT_SLED_SIZE :: u64 where "NACL_HALT_SLED_SIZE = 32"
definition NACL_INSTR_BLOCK_SIZE :: u64 where "NACL_INSTR_BLOCK_SIZE = 32"

definition NaClPtrIsNegErrno :: "u64 \<Rightarrow> bool" where
  "NaClPtrIsNegErrno v \<longleftrightarrow> v AND NOT 0xffff = NOT 0xffff"

section \<open>Calling the validator\<close>

definition kMinimumCachedCodeSize :: nat where "kMinimumCachedCodeSize = 40000"

definition NaClValidateStatus :: "validation_status \<Rightarrow> int" where
  "NaClValidateStatus status =
     (case status of
        NaClValidationSucceeded \<Rightarrow> LOAD_OK
      | NaClValidationFailedOutOfMemory \<Rightarrow> LOAD_BAD_FILE
      | _ \<Rightarrow> LOAD_VALIDATION_FAILED)"

definition NaClValidateCode ::
    "text_env \<Rightarrow> ('h, 'z) code_app_scheme \<Rightarrow> u64 \<Rightarrow> u8 list \<Rightarrow> nat option \<Rightarrow> int \<times> u8 list" where
  "NaClValidateCode env nap guest_addr data metadata =
     (let flags = (if pnacl_mode nap then 1 else 0);
          small = length data < kMinimumCachedCodeSize;
          stub = validator_stub_out_mode nap;
          meta = (if small \<or> stub then None else metadata);
          cache = (\<not> small \<and> \<not> stub);
          (status, data1) = (if stub then e_Validate env guest_addr data True flags False meta cache
                             else (NaClValidationSucceeded, data))
      in if status = NaClValidationSucceeded
         then let (status2, data2) = e_Validate env guest_addr data1 False flags False meta cache
              in (NaClValidateStatus status2, data2)
         else (NaClValidateStatus status, data1))"

definition NaClValidateCodeReplacement ::
    "text_env \<Rightarrow> ('h, 'z) code_app_scheme \<Rightarrow> u64 \<Rightarrow> u8 list \<Rightarrow> u8 list \<Rightarrow> int" where
  "NaClValidateCodeReplacement env nap guest_addr data_old data_new =
     (if validator_stub_out_mode nap then LOAD_BAD_FILE
      else if guest_addr mod scast (bundle_size nap) \<noteq> 0
              \<or> (of_nat (length data_new) :: u64) mod scast (bundle_size nap) \<noteq> 0 then LOAD_BAD_FILE
      else NaClValidateStatus (e_ValidateCodeReplacement env guest_addr data_old data_new))"

definition NaClCopyCode :: "text_env \<Rightarrow> u64 \<Rightarrow> u8 list \<Rightarrow> u8 list \<Rightarrow> int \<times> u8 list" where
  "NaClCopyCode env guest_addr data_old data_new =
     (let (status, data) = e_CopyCode env guest_addr data_old data_new in (NaClValidateStatus status, data))"

section \<open>Pages of the text area\<close>

definition BitmapIsBitSet :: "u8 list \<Rightarrow> nat \<Rightarrow> bool" where
  "BitmapIsBitSet bitmap index = bit (bitmap ! (index div 8)) (index mod 8)"

definition BitmapSetBit :: "u8 list \<Rightarrow> nat \<Rightarrow> u8 list" where
  "BitmapSetBit bitmap index =
     bitmap[index div 8 := bitmap ! (index div 8) OR push_bit (index mod 8) 1]"

text \<open>The loop that marks the pages; an index past the bitmap is out of bounds.\<close>

fun mark_pages :: "u8 list \<Rightarrow> nat \<Rightarrow> nat \<Rightarrow> u8 list exec" where
  "mark_pages bitmap index 0 = Inr bitmap"
| "mark_pages bitmap index (Suc n) =
     (if \<not> index div 8 < length bitmap then Inl Out_of_bounds
      else if BitmapIsBitSet bitmap index then Inl Check_failed
      else mark_pages (BitmapSetBit bitmap index) (index + 1) n)"

definition NaClFillMemoryRegionWithHalt :: "u64 \<Rightarrow> nat \<Rightarrow> bytes \<Rightarrow> bytes" where
  "NaClFillMemoryRegionWithHalt start sz m = write_bytes start (replicate sz NACL_HALT_OPCODE) m"

definition text_page_addr :: "('h, 'z) code_app_scheme \<Rightarrow> nat \<Rightarrow> u64" where
  "text_page_addr nap index = dynamic_text_start nap + of_nat index * NACL_MAP_PAGESIZE"

text \<open>\<open>PROT_READ | PROT_EXEC\<close>, and \<open>NACL_ABI_PROT_READ | NACL_ABI_PROT_WRITE\<close>.\<close>

definition prot_read_exec :: u32 where "prot_read_exec = 1 OR 4"
definition prot_read_write :: u32 where "prot_read_write = 1 OR 2"

definition MakeDynamicCodePagesVisible ::
    "text_env \<Rightarrow> ('h, 'z) code_app_scheme \<Rightarrow> nat \<Rightarrow> nat \<Rightarrow> ('h, 'z) code_app_scheme exec" where
  "MakeDynamicCodePagesVisible env nap page_index_min page_index_max =
     (let sz = (page_index_max - page_index_min) * unat NACL_MAP_PAGESIZE
      in ebind (mark_pages (dynamic_page_bitmap nap) page_index_min (page_index_max - page_index_min)) (\<lambda>bm.
         ebind (NaClUserToSys nap (text_page_addr nap page_index_min)) (\<lambda>user_addr.
         ebind (echeck (fa_mem nap user_addr = 0) Check_failed) (\<lambda>_.
           let nap1 = nap\<lparr>dynamic_page_bitmap := bm,
                          fa_mem := NaClFillMemoryRegionWithHalt user_addr sz (fa_mem nap),
                          requests := Host_mprotect user_addr (of_nat sz) prot_read_exec # requests nap\<rparr>
           in if \<not> e_mprotect env user_addr (of_nat sz) then Inl Log_fatal else Inr nap1))))"

function run_end :: "u8 list \<Rightarrow> nat \<Rightarrow> nat \<Rightarrow> nat" where
  "run_end bitmap cur end_index =
     (if cur < end_index \<and> \<not> BitmapIsBitSet bitmap cur then run_end bitmap (cur + 1) end_index else cur)"
  by pat_completeness auto
termination
  by (relation "measure (\<lambda>(bitmap, cur, e). e - cur)") auto

declare run_end.simps [simp del]

lemma run_end_ge: "cur \<le> run_end bitmap cur e"
proof (induction bitmap cur e rule: run_end.induct)
  case (1 bitmap cur e)
  then show ?case by (subst run_end.simps) (simp, linarith)
qed

text \<open>The loop over the pages of a mapping, one call for each run of pages not yet visible.\<close>

function show_pages ::
    "text_env \<Rightarrow> ('h, 'z) code_app_scheme \<Rightarrow> nat \<Rightarrow> nat \<Rightarrow> ('h, 'z) code_app_scheme exec" where
  "show_pages env nap cur end_index =
     (if cur < end_index then
        (let stop = run_end (dynamic_page_bitmap nap) cur end_index
         in ebind (if stop > cur then MakeDynamicCodePagesVisible env nap cur stop else Inr nap) (\<lambda>nap1.
              show_pages env nap1 (stop + 1) end_index))
      else Inr nap)"
  by pat_completeness auto
termination
  by (relation "measure (\<lambda>(env, nap, cur, e). e - cur)")
    (use run_end_ge in \<open>auto simp: less_Suc_eq_le intro!: diff_less_mono2 le_imp_less_Suc\<close>)

declare show_pages.simps [simp del]

text \<open>A cached view of another range is unmapped first; the flag of the new one is \<open>NACL_ABI_MAP_SHARED\<close>.\<close>

definition drop_mapcache :: "('h, 'z) code_app_scheme \<Rightarrow> ('h, 'z) code_app_scheme" where
  "drop_mapcache nap =
     (if mapcache_size nap > 0
      then nap\<lparr>mapcache_offset := 0, mapcache_size := 0, mapcache_ret := 0,
               requests := Host_munmap (mapcache_ret nap) (ucast (mapcache_size nap)) # requests nap\<rparr>
      else nap)"

definition CachedMapWritableText ::
    "text_env \<Rightarrow> ('h, 'z) code_app_scheme \<Rightarrow> u32 \<Rightarrow> u32 \<Rightarrow> (u64 \<times> ('h, 'z) code_app_scheme) exec" where
  "CachedMapWritableText env nap offset sz =
     (if offset \<noteq> mapcache_offset nap \<or> sz \<noteq> mapcache_size nap then
        (let nap1 = drop_mapcache nap
         in if sz > 0 then
              (let mapping = e_shm_map env sz offset;
                   nap2 = nap1\<lparr>requests := Text_Map 0 (ucast sz) prot_read_write 1 (ucast offset) # requests nap1\<rparr>
               in if NaClPtrIsNegErrno mapping then Inr (0, nap2)
                  else ebind (show_pages env nap2 (unat (offset div 0x10000)) (unat ((offset + sz) div 0x10000))) (\<lambda>nap3.
                         Inr (mapping, nap3\<lparr>mapcache_offset := offset, mapcache_size := sz, mapcache_ret := mapping\<rparr>)))
            else Inr (mapcache_ret nap1, nap1))
      else Inr (mapcache_ret nap, nap))"

text \<open>The address of the writable view is returned as the address of the same byte in the sandbox.\<close>

definition NaClTextMapWrapper ::
    "text_env \<Rightarrow> ('h, 'z) code_app_scheme \<Rightarrow> u32 \<Rightarrow> u32 \<Rightarrow> (u64 option \<times> ('h, 'z) code_app_scheme) exec" where
  "NaClTextMapWrapper env nap dest sz =
     (let shm_offset = dest - ucast (dynamic_text_start nap);
          shm_map_offset = shm_offset AND NOT 0xffff;
          within_page_offset = shm_offset AND 0xffff;
          shm_map_offset_end = (shm_offset + sz + 0x10000 - 1) AND NOT 0xffff;
          shm_map_size = shm_map_offset_end - shm_map_offset
      in ebind (CachedMapWritableText env nap shm_map_offset shm_map_size) (\<lambda>(mmap_ret, nap1).
           if 0 = mmap_ret then Inr (None, nap1)
           else Inr (Some (mem_start nap + dynamic_text_start nap + ucast shm_map_offset + ucast within_page_offset),
                     nap1)))"

definition NaClTextMapClearCacheIfNeeded ::
    "text_env \<Rightarrow> ('h, 'z) code_app_scheme \<Rightarrow> u32 \<Rightarrow> u32 \<Rightarrow> ('h, 'z) code_app_scheme exec" where
  "NaClTextMapClearCacheIfNeeded env nap dest sz =
     (let shm_offset = dest - ucast (dynamic_text_start nap);
          shm_map_offset = shm_offset AND NOT 0xffff;
          shm_map_offset_end = (shm_offset + sz + 0x10000 - 1) AND NOT 0xffff;
          shm_map_size = shm_map_offset_end - shm_map_offset
      in if shm_map_size > 0x10000
         then ebind (CachedMapWritableText env nap 0 0) (\<lambda>(r, nap1). Inr nap1)
         else Inr nap)"

section \<open>Copying code\<close>

text \<open>The words that are not at the start of a bundle, then the words that are.\<close>

definition copy_word :: "u64 \<Rightarrow> u8 list \<Rightarrow> nat \<Rightarrow> bytes \<Rightarrow> bytes" where
  "copy_word dest src off m = write_bytes (dest + of_nat off) (take 4 (drop off src)) m"

definition CopyBundleTails :: "u64 \<Rightarrow> u8 list \<Rightarrow> nat \<Rightarrow> u64 \<Rightarrow> bytes \<Rightarrow> bytes exec" where
  "CopyBundleTails dest src sz bundle_sz m =
     (if dest AND 3 \<noteq> 0 then Inl Check_failed
      else Inr (foldl (\<lambda>m i. if (dest + of_nat (4 * i)) AND (bundle_sz - 1) \<noteq> 0 then copy_word dest src (4 * i) m
                             else m) m [0 ..< (sz + 3) div 4]))"

definition CopyBundleHeads :: "u64 \<Rightarrow> u8 list \<Rightarrow> nat \<Rightarrow> u64 \<Rightarrow> bytes \<Rightarrow> bytes exec" where
  "CopyBundleHeads dest src sz bundle_sz m =
     (if dest AND 3 \<noteq> 0 then Inl Check_failed
      else let b = unat bundle_sz
           in Inr (foldl (\<lambda>m i. copy_word dest src (b * i) m) m [0 ..< (sz + b - 1) div b]))"

definition ReplaceBundleHeadsWithHalts :: "u64 \<Rightarrow> nat \<Rightarrow> u64 \<Rightarrow> bytes \<Rightarrow> bytes" where
  "ReplaceBundleHeadsWithHalts dest sz bundle_sz m =
     (let b = unat bundle_sz
      in foldl (\<lambda>m i. write_bytes (dest + of_nat (b * i)) (le_bytes 4 NACL_HALT_WORD) m) m [0 ..< (sz + b - 1) div b])"

definition CopyCodeSafelyInitial :: "u64 \<Rightarrow> u8 list \<Rightarrow> nat \<Rightarrow> u64 \<Rightarrow> bytes \<Rightarrow> bytes exec" where
  "CopyCodeSafelyInitial dest src sz bundle_sz m =
     ebind (CopyBundleTails dest src sz bundle_sz m) (CopyBundleHeads dest src sz bundle_sz)"

section \<open>Creating code\<close>

definition NaClTextDyncodeCreate ::
    "text_env \<Rightarrow> ('h, 'z) code_app_scheme \<Rightarrow> u32 \<Rightarrow> u8 list \<Rightarrow> u32 \<Rightarrow> nat option \<Rightarrow> (int \<times> ('h, 'z) code_app_scheme) exec" where
  "NaClTextDyncodeCreate env nap dest code_copy sz metadata =
     (let dest_addr = NaClUserToSysAddrRange nap (ucast dest) (ucast sz)
      in if \<not> text_shm nap then Inr (- NACL_ABI_EINVAL, nap)
         else if 0 \<noteq> dest AND (bundle_size nap - 1) \<or> 0 \<noteq> sz AND (bundle_size nap - 1)
         then Inr (- NACL_ABI_EINVAL, nap)
         else if kNaClBadAddress = dest_addr then Inr (- NACL_ABI_EFAULT, nap)
         else if ucast dest < dynamic_text_start nap then Inr (- NACL_ABI_EFAULT, nap)
         else if ucast (dest + sz) > dynamic_text_end nap - NACL_HALT_SLED_SIZE then Inr (- NACL_ABI_EFAULT, nap)
         else if 0 = sz then Inr (0, nap)
         else let (validator_result, code1) =
                    (if \<not> skip_validator nap then NaClValidateCode env nap (ucast dest) code_copy metadata
                     else (LOAD_OK, code_copy));
                  validator_result1 = (if validator_result \<noteq> LOAD_OK \<and> ignore_validator_result nap
                                       then LOAD_OK else validator_result)
              in if validator_result1 \<noteq> LOAD_OK then Inr (- NACL_ABI_EINVAL, nap)
                 else ebind (NaClDynamicRegionCreate (e_mem env) (dyn_regs nap) dest_addr (ucast sz) False) (\<lambda>(made, rs).
                   let nap1 = nap\<lparr>dyn_regs := rs\<rparr>
                   in if \<not> made then Inr (- NACL_ABI_EINVAL, nap1)
                      else ebind (NaClTextMapWrapper env nap1 dest sz) (\<lambda>(mapped, nap2).
                        case mapped of
                          None \<Rightarrow> Inr (- NACL_ABI_ENOMEM, nap2)
                        | Some mapped_addr \<Rightarrow>
                            ebind (CopyCodeSafelyInitial mapped_addr code1 (unat sz) (scast (bundle_size nap)) (fa_mem nap2)) (\<lambda>m.
                            ebind (NaClTextMapClearCacheIfNeeded env (nap2\<lparr>fa_mem := m\<rparr>) dest sz) (\<lambda>nap3.
                              Inr (0, nap3))))))"

definition NaClSysDyncodeCreate ::
    "text_env \<Rightarrow> ('h, 'z) code_app_scheme \<Rightarrow> u32 \<Rightarrow> u32 \<Rightarrow> u32 \<Rightarrow> (int \<times> ('h, 'z) code_app_scheme) exec" where
  "NaClSysDyncodeCreate env nap dest src sz =
     (let src_addr = NaClUserToSysAddrRange nap (ucast src) (ucast sz)
      in if \<not> enable_dyncode_syscalls nap then Inr (- NACL_ABI_ENOSYS, nap)
         else if kNaClBadAddress = src_addr then Inr (- NACL_ABI_EFAULT, nap)
         else if \<not> e_mem env then Inr (- NACL_ABI_ENOMEM, nap)
         else ebind (user_access nap False src_addr (unat sz)) (\<lambda>_.
                NaClTextDyncodeCreate env nap dest (read_bytes src_addr (unat sz) (fa_mem nap)) sz None))"

section \<open>Changing code\<close>

definition modify_region_ok :: "dyn_table \<Rightarrow> nat option \<Rightarrow> u64 \<Rightarrow> u64 \<Rightarrow> bool" where
  "modify_region_ok t region dest_addr sz =
     (case region of
        None \<Rightarrow> False
      | Some p \<Rightarrow> let r = regions t ! p
                  in \<not> (dr_start r > dest_addr \<or> dr_start r + dr_size r < dest_addr + sz \<or> dr_is_mmap r))"

definition NaClSysDyncodeModify ::
    "text_env \<Rightarrow> ('h, 'z) code_app_scheme \<Rightarrow> u32 \<Rightarrow> u32 \<Rightarrow> u32 \<Rightarrow> (int \<times> ('h, 'z) code_app_scheme) exec" where
  "NaClSysDyncodeModify env nap dest src sz =
     (if \<not> e_code_replacement env then Inr (- NACL_ABI_ENOSYS, nap)
      else if \<not> enable_dyncode_syscalls nap then Inr (- NACL_ABI_ENOSYS, nap)
      else if \<not> text_shm nap then Inr (- NACL_ABI_EINVAL, nap)
      else if 0 = sz then Inr (0, nap)
      else let dest_addr = NaClUserToSysAddrRange nap (ucast dest) (ucast sz);
               src_addr = NaClUserToSysAddrRange nap (ucast src) (ucast sz)
           in if kNaClBadAddress = src_addr \<or> kNaClBadAddress = dest_addr then Inr (- NACL_ABI_EFAULT, nap)
              else let region = NaClDynamicRegionFind (dyn_regs nap) dest_addr (ucast sz)
                   in if \<not> modify_region_ok (dyn_regs nap) region dest_addr (ucast sz) then Inr (- NACL_ABI_EFAULT, nap)
                      else let low = scast (bundle_size nap - 1) :: u64;
                               beginbundle = dest_addr AND NOT low;
                               endbundle = (dest_addr + ucast sz - 1 + scast (bundle_size nap)) AND NOT low;
                               offset = dest_addr AND low
                           in if endbundle - beginbundle > NACL_INSTR_BLOCK_SIZE \<and> \<not> e_mem env then Inr (- NACL_ABI_ENOMEM, nap)
                              else ebind (user_access nap False src_addr (unat sz)) (\<lambda>_.
                                   let code_copy = read_bytes beginbundle (unat (endbundle - beginbundle)) (fa_mem nap);
                                       src_copy = read_bytes src_addr (unat sz) (fa_mem nap);
                                       code1 = take (unat offset) code_copy @ src_copy @ drop (unat offset + unat sz) code_copy;
                                       dest1 = dest AND NOT (bundle_size nap - 1);
                                       dest_addr1 = dest_addr AND NOT low
                                   in ebind (echeck (endbundle - beginbundle < 0xffffffff) Check_failed) (\<lambda>_.
                                        let sz1 = ucast (endbundle - beginbundle) :: u32;
                                            old = read_bytes dest_addr1 (unat sz1) (fa_mem nap);
                                            validator_result = NaClValidateCodeReplacement env nap (ucast dest1) old code1;
                                            validator_result1 = (if validator_result \<noteq> LOAD_OK \<and> ignore_validator_result nap
                                                                 then LOAD_OK else validator_result)
                                        in if validator_result1 \<noteq> LOAD_OK then Inr (- NACL_ABI_EINVAL, nap)
                                           else ebind (NaClTextMapWrapper env nap dest1 sz1) (\<lambda>(mapped, nap1).
                                             case mapped of
                                               None \<Rightarrow> Inr (- NACL_ABI_ENOMEM, nap1)
                                             | Some mapped_addr \<Rightarrow>
                                                 let (status, data) = NaClCopyCode env (ucast dest1)
                                                       (read_bytes mapped_addr (unat sz1) (fa_mem nap1)) code1;
                                                     nap2 = nap1\<lparr>fa_mem := write_bytes mapped_addr data (fa_mem nap1)\<rparr>
                                                 in if LOAD_OK \<noteq> status then Inr (- NACL_ABI_EINVAL, nap2)
                                                    else ebind (NaClTextMapClearCacheIfNeeded env nap2 dest1 sz1) (\<lambda>nap3.
                                                      Inr (0, nap3))))))"

section \<open>Deleting code\<close>

definition NaClSetThreadGeneration ::
    "('h, 'z) code_app_scheme \<Rightarrow> nat \<Rightarrow> int \<Rightarrow> ('h, 'z) code_app_scheme exec" where
  "NaClSetThreadGeneration nap natp generation =
     (if natp_generation nap natp \<noteq> generation
      then ebind (echeck (natp_generation nap natp \<le> generation) Check_failed) (\<lambda>_.
             Inr (nap\<lparr>natp_generation := (natp_generation nap)(natp := generation)\<rparr>))
      else Inr nap)"

definition NaClMinimumThreadGeneration :: "('h, 'z) code_app_scheme \<Rightarrow> int" where
  "NaClMinimumThreadGeneration nap =
     foldl (\<lambda>rv index. case NaClGetThreadMu nap (of_nat index) of
                          None \<Rightarrow> rv
                        | Some thread \<Rightarrow> if rv > natp_generation nap thread then natp_generation nap thread else rv)
       (2 ^ 31 - 1) [0 ..< num_entries (thread_tbl nap)]"

text \<open>The first request halts the entry points of the region and gives it a generation.\<close>

definition first_deletion ::
    "text_env \<Rightarrow> ('h, 'z) code_app_scheme \<Rightarrow> u32 \<Rightarrow> u32 \<Rightarrow> nat \<Rightarrow> (int \<times> ('h, 'z) code_app_scheme) exec" where
  "first_deletion env nap dest sz p =
     (if delete_generation nap = 2 ^ 31 - 1 then Inr (- NACL_ABI_EFAULT, nap)
      else ebind (NaClTextMapWrapper env nap dest sz) (\<lambda>(mapped, nap1).
        case mapped of
          None \<Rightarrow> Inr (- NACL_ABI_ENOMEM, nap1)
        | Some mapped_addr \<Rightarrow>
            let m = ReplaceBundleHeadsWithHalts mapped_addr (unat sz) (scast (bundle_size nap1)) (fa_mem nap1)
            in ebind (NaClTextMapClearCacheIfNeeded env (nap1\<lparr>fa_mem := m\<rparr>) dest sz) (\<lambda>nap2.
                 let g = delete_generation nap2 + 1;
                     rs = regions (dyn_regs nap2)
                 in Inr (0, nap2\<lparr>delete_generation := g,
                      dyn_regs := (dyn_regs nap2)\<lparr>regions := rs[p := (rs ! p)\<lparr>dr_delete_generation := g\<rparr>]\<rparr>\<rparr>))))"

definition NaClSysDyncodeDelete ::
    "text_env \<Rightarrow> ('h, 'z) code_app_scheme \<Rightarrow> nat \<Rightarrow> u32 \<Rightarrow> u32 \<Rightarrow> (int \<times> ('h, 'z) code_app_scheme) exec" where
  "NaClSysDyncodeDelete env nap natp dest sz =
     (if \<not> enable_dyncode_syscalls nap then Inr (- NACL_ABI_ENOSYS, nap)
      else if \<not> text_shm nap then Inr (- NACL_ABI_EINVAL, nap)
      else if 0 = sz then
        ebind (NaClSetThreadGeneration nap natp (delete_generation nap)) (\<lambda>nap1. Inr (0, nap1))
      else let dest_addr = NaClUserToSysAddrRange nap (ucast dest) (ucast sz)
           in if kNaClBadAddress = dest_addr then Inr (- NACL_ABI_EFAULT, nap)
              else (case NaClDynamicRegionFind (dyn_regs nap) dest_addr (ucast sz) of
                      None \<Rightarrow> Inr (- NACL_ABI_EFAULT, nap)
                    | Some p \<Rightarrow>
                        let region = regions (dyn_regs nap) ! p
                        in if dr_start region \<noteq> dest_addr \<or> dr_size region \<noteq> ucast sz \<or> dr_is_mmap region
                           then Inr (- NACL_ABI_EFAULT, nap)
                           else ebind (if dr_delete_generation region < 0 then first_deletion env nap dest sz p
                                       else Inr (0, nap)) (\<lambda>(rc, nap1).
                             if rc \<noteq> 0 then Inr (rc, nap1)
                             else ebind (NaClSetThreadGeneration nap1 natp (delete_generation nap1)) (\<lambda>nap2.
                               if dr_delete_generation (regions (dyn_regs nap2) ! p) \<le> NaClMinimumThreadGeneration nap2
                               then ebind (NaClDynamicRegionDelete (e_mem env) (dyn_regs nap2) p) (\<lambda>rs.
                                      Inr (0, nap2\<lparr>dyn_regs := rs\<rparr>))
                               else Inr (- NACL_ABI_EAGAIN, nap2)))))"

definition NaClDyncodeVisit :: "('s \<Rightarrow> dyn_region \<Rightarrow> 's) \<Rightarrow> 's \<Rightarrow> ('h, 'z) code_app_scheme \<Rightarrow> 's" where
  "NaClDyncodeVisit fn state nap = foldl fn state (regions (dyn_regs nap))"

end
