(* ===== verification/DynCodeDelete.thy ===== *)
theory DynCodeDelete
  imports DynCode
begin

text \<open>
  What mapping the text area leaves alone, and the deletion of code: a region is taken out of the
  table only when every thread has checked in since its deletion was requested.
\<close>

section \<open>Mapping the text area\<close>

text \<open>The fields that mapping and filling text pages does not touch.\<close>

definition text_frame :: "('h, 'z) code_app_scheme \<Rightarrow> ('h, 'z) code_app_scheme \<Rightarrow> bool" where
  "text_frame a b \<longleftrightarrow> dyn_regs b = dyn_regs a \<and> text_shm b = text_shm a
     \<and> delete_generation b = delete_generation a \<and> natp_generation b = natp_generation a
     \<and> skip_validator b = skip_validator a \<and> ignore_validator_result b = ignore_validator_result a
     \<and> validator_stub_out_mode b = validator_stub_out_mode a \<and> pnacl_mode b = pnacl_mode a
     \<and> addr_bits b = addr_bits a \<and> mem_start b = mem_start a \<and> bundle_size b = bundle_size a
     \<and> dynamic_text_start b = dynamic_text_start a \<and> dynamic_text_end b = dynamic_text_end a
     \<and> thread_tbl b = thread_tbl a \<and> desc_tbl b = desc_tbl a \<and> nd_refs b = nd_refs a
     \<and> mem_io_regions b = mem_io_regions a \<and> access_faults b = access_faults a \<and> host b = host a \<and> code_app.more b = code_app.more a"

lemma text_frame_refl [simp]: "text_frame a a"
  by (simp add: text_frame_def)

lemma text_frame_trans: "text_frame a b \<Longrightarrow> text_frame b c \<Longrightarrow> text_frame a c"
  by (simp add: text_frame_def)

lemma visible_frame: "MakeDynamicCodePagesVisible env nap p q = Inr nap' \<Longrightarrow> text_frame nap nap'"
  by (auto simp: MakeDynamicCodePagesVisible_def Let_def text_frame_def split: if_splits)

lemma show_pages_frame: "show_pages env nap cur e = Inr nap' \<Longrightarrow> text_frame nap nap'"
proof (induction env nap cur e arbitrary: nap' rule: show_pages.induct)
  case (1 env nap cur e)
  show ?case
  proof (cases "cur < e")
    case True
    let ?stop = "run_end (dynamic_page_bitmap nap) cur e"
    obtain nap1 where s: "(if ?stop > cur then MakeDynamicCodePagesVisible env nap cur ?stop else Inr nap) = Inr nap1"
      "show_pages env nap1 (?stop + 1) e = Inr nap'"
      using 1(2) True by (auto simp: show_pages.simps [of env nap cur] Let_def)
    have "text_frame nap nap1" using s(1) visible_frame by (auto split: if_splits)
    then show ?thesis using 1(1) [OF True refl s(2)] text_frame_trans by blast
  next
    case False
    then show ?thesis using 1(2) by (simp add: show_pages.simps [of env nap cur])
  qed
qed

lemma text_frame_cache [simp]:
  "text_frame a (b\<lparr>mapcache_offset := x, mapcache_size := y, mapcache_ret := z\<rparr>) = text_frame a b"
  "text_frame (b\<lparr>mapcache_offset := x, mapcache_size := y, mapcache_ret := z\<rparr>) a = text_frame b a"
  "text_frame a (b\<lparr>requests := rs\<rparr>) = text_frame a b" "text_frame (b\<lparr>requests := rs\<rparr>) a = text_frame b a"
  by (simp_all add: text_frame_def)

lemma drop_mapcache_upd [simp]:
  "text_frame a (drop_mapcache b) = text_frame a b" "text_frame (drop_mapcache b) a = text_frame b a"
  "fa_mem (drop_mapcache b) = fa_mem b" "dynamic_page_bitmap (drop_mapcache b) = dynamic_page_bitmap b"
  by (simp_all add: drop_mapcache_def text_frame_def)

lemma cached_frame: "CachedMapWritableText env nap off sz = Inr (r, nap') \<Longrightarrow> text_frame nap nap'"
  by (auto simp: CachedMapWritableText_def Let_def split: if_splits dest!: show_pages_frame)

lemma wrapper_frame: "NaClTextMapWrapper env nap dest sz = Inr (r, nap') \<Longrightarrow> text_frame nap nap'"
  by (auto simp: NaClTextMapWrapper_def Let_def dest!: cached_frame split: if_splits)

lemma clear_cache_frame: "NaClTextMapClearCacheIfNeeded env nap dest sz = Inr nap' \<Longrightarrow> text_frame nap nap'"
  by (auto simp: NaClTextMapClearCacheIfNeeded_def Let_def dest!: cached_frame split: if_splits)

lemma clear_cache_mem: "NaClTextMapClearCacheIfNeeded env nap dest sz = Inr nap' \<Longrightarrow> fa_mem nap' = fa_mem nap"
  by (auto simp: NaClTextMapClearCacheIfNeeded_def CachedMapWritableText_def Let_def split: if_splits)

section \<open>Generations\<close>

lemma min_generation_le:
  assumes "i < num_entries (thread_tbl nap)" "NaClGetThreadMu nap (of_nat i) = Some t"
  shows "NaClMinimumThreadGeneration nap \<le> natp_generation nap t"
proof -
  define step where "step = (\<lambda>rv index. case NaClGetThreadMu nap (of_nat index) of None \<Rightarrow> rv
    | Some thread \<Rightarrow> if rv > natp_generation nap thread then natp_generation nap thread else rv)"
  have dec: "step v k \<le> v" for v k by (simp add: step_def split: option.splits)
  have "i < n \<Longrightarrow> foldl step (2 ^ 31 - 1) [0 ..< n] \<le> natp_generation nap t" for n
  proof (induction n)
    case (Suc n)
    show ?case
    proof (cases "i = n")
      case True
      then show ?thesis using assms(2) by (simp add: step_def)
    next
      case False
      then show ?thesis using Suc dec [of "foldl step (2 ^ 31 - 1) [0 ..< n]" n] by simp
    qed
  qed simp
  then show ?thesis using assms(1) by (simp add: NaClMinimumThreadGeneration_def step_def)
qed

lemma min_generation_attained:
  "NaClMinimumThreadGeneration nap = 2 ^ 31 - 1 \<or>
    (\<exists>i t. i < num_entries (thread_tbl nap) \<and> NaClGetThreadMu nap (of_nat i) = Some t
      \<and> NaClMinimumThreadGeneration nap = natp_generation nap t)"
proof -
  define step where "step = (\<lambda>rv index. case NaClGetThreadMu nap (of_nat index) of None \<Rightarrow> rv
    | Some thread \<Rightarrow> if rv > natp_generation nap thread then natp_generation nap thread else rv)"
  have "foldl step (2 ^ 31 - 1) [0 ..< n] = 2 ^ 31 - 1 \<or>
    (\<exists>i t. i < n \<and> NaClGetThreadMu nap (of_nat i) = Some t \<and> foldl step (2 ^ 31 - 1) [0 ..< n] = natp_generation nap t)" for n
  proof (induction n)
    case (Suc n)
    have "step v n = v \<or> (\<exists>t. NaClGetThreadMu nap (of_nat n) = Some t \<and> step v n = natp_generation nap t)" for v
      by (auto simp: step_def split: option.splits)
    then show ?case using Suc by simp (metis less_Suc_eq)
  qed simp
  then show ?thesis by (simp add: NaClMinimumThreadGeneration_def step_def)
qed

text \<open>A thread is listed when some slot of the table holds it.\<close>

definition listed :: "('h, 'z) code_app_scheme \<Rightarrow> nat \<Rightarrow> bool" where
  "listed nap t \<longleftrightarrow> (\<exists>i < num_entries (thread_tbl nap). DynArrayGet (thread_tbl nap) i = Some t)"

lemma fd_index_small: "i < 2 ^ 31 \<Longrightarrow> fd_index (of_nat i) = i"
proof -
  assume i: "i < 2 ^ 31"
  then have "sint (of_nat i :: u32) = int i" by (simp add: signed_of_nat signed_take_bit_int_eq_self)
  then have "(scast (of_nat i :: u32) :: u64) = of_nat i" by (simp add: scast_eq)
  then show ?thesis using i by (simp add: fd_index_def unat_of_nat)
qed

lemma listed_iff:
  assumes "num_entries (thread_tbl nap) \<le> 2 ^ 31"
  shows "listed nap t \<longleftrightarrow> (\<exists>i < num_entries (thread_tbl nap). NaClGetThreadMu nap (of_nat i) = Some t)"
  using assms fd_index_small by (fastforce simp: listed_def NaClGetThreadMu_def)

lemma min_generation:
  assumes "num_entries (thread_tbl nap) \<le> 2 ^ 31" "g \<le> 2 ^ 31 - 1"
  shows "g \<le> NaClMinimumThreadGeneration nap \<longleftrightarrow> (\<forall>t. listed nap t \<longrightarrow> g \<le> natp_generation nap t)"
  using min_generation_le [of _ nap] min_generation_attained [of nap] listed_iff [OF assms(1)] assms(2)
  by (smt (verit))

section \<open>Deleting a region\<close>

lemma set_generation:
  assumes "NaClSetThreadGeneration nap natp g = Inr nap'"
  shows "nap' = nap\<lparr>natp_generation := (natp_generation nap)(natp := g)\<rparr>"
  using assms by (auto simp: NaClSetThreadGeneration_def fun_upd_idem split: if_splits)

lemma first_deletion_ok:
  assumes "first_deletion env nap dest sz p = Inr (rc, nap')"
  shows "natp_generation nap' = natp_generation nap \<and> thread_tbl nap' = thread_tbl nap
    \<and> (if rc = 0
       then delete_generation nap' = delete_generation nap + 1 \<and> delete_generation nap \<noteq> 2 ^ 31 - 1
         \<and> dyn_regs nap' = (dyn_regs nap)\<lparr>regions := (regions (dyn_regs nap))
             [p := (regions (dyn_regs nap) ! p)\<lparr>dr_delete_generation := delete_generation nap + 1\<rparr>]\<rparr>
       else dyn_regs nap' = dyn_regs nap \<and> delete_generation nap' = delete_generation nap)"
proof (cases "delete_generation nap = 2 ^ 31 - 1")
  case True
  then show ?thesis using assms by (auto simp: first_deletion_def NACL_ABI_EFAULT_def)
next
  case False
  obtain mapped nap1 where w: "NaClTextMapWrapper env nap dest sz = Inr (mapped, nap1)"
    using assms False by (auto simp: first_deletion_def)
  note f = wrapper_frame [OF w, unfolded text_frame_def]
  show ?thesis
  proof (cases mapped)
    case None
    then show ?thesis using assms False w f by (auto simp: first_deletion_def NACL_ABI_ENOMEM_def)
  next
    case (Some a)
    let ?m = "ReplaceBundleHeadsWithHalts a (unat sz) (scast (bundle_size nap1)) (fa_mem nap1)"
    obtain nap2 where c: "NaClTextMapClearCacheIfNeeded env (nap1\<lparr>fa_mem := ?m\<rparr>) dest sz = Inr nap2"
      using assms False w Some by (auto simp: first_deletion_def Let_def)
    note f2 = clear_cache_frame [OF c, unfolded text_frame_def]
    have "first_deletion env nap dest sz p = Inr (0, nap2\<lparr>delete_generation := delete_generation nap2 + 1,
        dyn_regs := (dyn_regs nap2)\<lparr>regions := (regions (dyn_regs nap2))
          [p := (regions (dyn_regs nap2) ! p)\<lparr>dr_delete_generation := delete_generation nap2 + 1\<rparr>]\<rparr>\<rparr>)"
      using False w Some c by (simp add: first_deletion_def Let_def)
    then show ?thesis using assms False f f2 by simp
  qed
qed

definition region_key :: "dyn_region \<Rightarrow> u64 \<times> u64 \<times> bool" where
  "region_key r = (dr_start r, dr_size r, dr_is_mmap r)"


lemma regions_ok_key:
  assumes "map region_key (regions a) = map region_key (regions b)" "regions_allocated a = regions_allocated b"
  shows "regions_ok a = regions_ok b"
proof -
  have "list_all region_ok rs = list_all (\<lambda>(s, z, m). 0 < unat z \<and> unat s + unat z < 2 ^ 64) (map region_key rs)" for rs
    by (auto simp: list_all_iff region_ok_def region_key_def dr_hi_def)
  moreover have "sorted_wrt (\<lambda>a b. dr_hi a \<le> dr_lo b) rs
      = sorted_wrt (\<lambda>(s, z, m) (s', z', m'). unat s + unat z \<le> unat s') (map region_key rs)" for rs
    by (simp add: sorted_wrt_map region_key_def dr_hi_def dr_lo_def)
  ultimately show ?thesis using assms map_eq_imp_length_eq [OF assms(1)] by (simp add: regions_ok_def)
qed

lemma map_key_update [simp]:
  "map region_key (rs[p := (rs ! p)\<lparr>dr_delete_generation := g\<rparr>]) = map region_key rs"
  by (cases "p < length rs") (simp_all add: map_update region_key_def list_update_same_conv list_update_beyond)

lemma key_inj: "regions_ok t \<Longrightarrow> inj_on region_key (set (regions t))"
proof (rule inj_onI)
  fix x y
  assume "regions_ok t" "x \<in> set (regions t)" "y \<in> set (regions t)" "region_key x = region_key y"
  then show "x = y"
    using code.apart [of t x y] region_okD(1) [of x]
    by (auto simp: regions_ok_def list_all_iff meets_def region_key_def dr_lo_def dr_hi_def)
qed

lemma delete_mem: "NaClDynamicRegionDelete mem t p = Inr t' \<Longrightarrow> NaClDynamicRegionDelete True t p = Inr t'"
  by (auto simp: NaClDynamicRegionDelete_def Let_def split: if_splits)

lemma delete_keys:
  assumes "regions_ok t" "p < length (regions t)" "NaClDynamicRegionDelete mem t p = Inr t'"
  shows "regions_ok t' \<and> region_key ` set (regions t') = region_key ` set (regions t) - {region_key (regions t ! p)}"
proof -
  have "regions_ok t'" "set (regions t') = set (regions t) - {regions t ! p}"
    using Delete_ok [OF assms(1,2)] delete_mem [OF assms(3)] by auto
  then show ?thesis using inj_on_image_set_diff [OF key_inj [OF assms(1)], of "set (regions t)" "{regions t ! p}"] assms(2)
    by simp
qed

text \<open>The generation by which the threads must have checked in.\<close>

definition due_generation :: "('h, 'z) code_app_scheme \<Rightarrow> dyn_region \<Rightarrow> int" where
  "due_generation nap r =
     (if dr_delete_generation r < 0 then delete_generation nap + 1 else dr_delete_generation r)"

lemma user_range:
  assumes "space_ok nap" "NaClUserToSysAddrRange nap (ucast dest) (ucast (sz :: u32)) = a" "a \<noteq> kNaClBadAddress"
  shows "unat a + unat (ucast sz :: u64) < 2 ^ 64"
proof -
  have r: "unat (ucast dest :: u64) + unat (ucast sz :: u64) \<le> unat (addr_limit nap)" "a = ucast dest + mem_start nap"
    using range_ok [OF assms] by simp_all
  have "unat a = unat (ucast dest :: u64) + unat (mem_start nap)"
    using r unat_user_to_sys [OF assms(1), of "ucast dest"] by simp
  then show ?thesis using r(1) space_top [OF assms(1)] by simp
qed

lemma Delete_steps:
  assumes ok: "space_ok nap" "regions_ok (dyn_regs nap)" and sz: "sz \<noteq> 0"
    and gens: "num_entries (thread_tbl nap) \<le> 2 ^ 31" "delete_generation nap < 2 ^ 31"
      "\<forall>r \<in> set (regions (dyn_regs nap)). dr_delete_generation r \<le> delete_generation nap"
    and res: "NaClSysDyncodeDelete env nap natp dest sz = Inr (rc, nap')"
  shows "if rc = 0
    then \<exists>r \<in> set (regions (dyn_regs nap)). region_key r = (NaClUserToSysAddrRange nap (ucast dest) (ucast sz), ucast sz, False)
      \<and> region_key ` set (regions (dyn_regs nap')) = region_key ` set (regions (dyn_regs nap)) - {region_key r}
      \<and> (\<forall>t. listed nap' t \<longrightarrow> due_generation nap r \<le> natp_generation nap' t)
    else map region_key (regions (dyn_regs nap')) = map region_key (regions (dyn_regs nap))"
proof -
  let ?a = "NaClUserToSysAddrRange nap (ucast dest) (ucast sz)"
  let ?rs = "regions (dyn_regs nap)"
  show ?thesis
  proof (cases "\<not> enable_dyncode_syscalls nap \<or> \<not> text_shm nap \<or> ?a = kNaClBadAddress
      \<or> NaClDynamicRegionFind (dyn_regs nap) ?a (ucast sz) = None")
    case True
    then show ?thesis using res sz
      by (auto simp: NaClSysDyncodeDelete_def Let_def NACL_ABI_ENOSYS_def NACL_ABI_EINVAL_def NACL_ABI_EFAULT_def
          split: option.splits if_splits)
  next
    case False
    then obtain p where f: "enable_dyncode_syscalls nap" "text_shm nap" "?a \<noteq> kNaClBadAddress"
      "NaClDynamicRegionFind (dyn_regs nap) ?a (ucast sz) = Some p" by auto
    have szn: "0 < unat (ucast sz :: u64)" using sz by (simp add: unat_ucast_64 unat_gt_0)
    have p: "p < length ?rs" using Find_ok(2) [OF ok(2) szn user_range [OF ok(1) refl f(3)] f(4)] by simp
    let ?r = "?rs ! p"
    show ?thesis
    proof (cases "region_key ?r = (?a, ucast sz, False)")
      case False
      then show ?thesis using res sz f
        by (auto simp: NaClSysDyncodeDelete_def Let_def region_key_def NACL_ABI_EFAULT_def)
    next
      case key: True
      obtain rc1 nap1 where s1: "(if dr_delete_generation ?r < 0 then first_deletion env nap dest sz p else Inr (0, nap))
          = Inr (rc1, nap1)"
        using res sz f key by (auto simp: NaClSysDyncodeDelete_def Let_def region_key_def)
      have rest: "(if rc1 \<noteq> 0 then Inr (rc1, nap1)
          else ebind (NaClSetThreadGeneration nap1 natp (delete_generation nap1)) (\<lambda>nap2.
            if dr_delete_generation (regions (dyn_regs nap2) ! p) \<le> NaClMinimumThreadGeneration nap2
            then ebind (NaClDynamicRegionDelete (e_mem env) (dyn_regs nap2) p) (\<lambda>rs. Inr (0, nap2\<lparr>dyn_regs := rs\<rparr>))
            else Inr (- NACL_ABI_EAGAIN, nap2))) = Inr (rc, nap')"
        using res sz f key s1 by (simp add: NaClSysDyncodeDelete_def Let_def region_key_def)
      have dp: "dr_delete_generation ?r \<le> 2 ^ 31 - 1" using gens(2,3) bspec [OF gens(3) nth_mem [OF p]] by simp
      have n1: "natp_generation nap1 = natp_generation nap" "thread_tbl nap1 = thread_tbl nap"
        "map region_key (regions (dyn_regs nap1)) = map region_key ?rs"
        "regions_allocated (dyn_regs nap1) = regions_allocated (dyn_regs nap)"
        "rc1 = 0 \<Longrightarrow> dr_delete_generation (regions (dyn_regs nap1) ! p) = due_generation nap ?r
          \<and> due_generation nap ?r \<le> 2 ^ 31 - 1"
        using s1 p gens(2) dp
        by (auto simp: due_generation_def split: if_splits dest!: first_deletion_ok)
      show ?thesis
      proof (cases "rc1 = 0")
        case False
        then show ?thesis using rest n1(3) by (simp split: if_splits)
      next
        case True
        then obtain nap2 where s2: "NaClSetThreadGeneration nap1 natp (delete_generation nap1) = Inr nap2"
          using rest by auto
        note g = set_generation [OF s2]
        let ?ok = "dr_delete_generation (regions (dyn_regs nap2) ! p) \<le> NaClMinimumThreadGeneration nap2"
        show ?thesis
        proof (cases ?ok)
          case no: False
          then show ?thesis using rest True s2 n1(3) g by (auto simp: NACL_ABI_EAGAIN_def)
        next
          case yes: True
          then obtain rs where d: "NaClDynamicRegionDelete (e_mem env) (dyn_regs nap2) p = Inr rs"
            "nap' = nap2\<lparr>dyn_regs := rs\<rparr>" "rc = 0" using rest True s2 by auto
          have k: "map region_key (regions (dyn_regs nap2)) = map region_key ?rs" using n1(3) g by simp
          then have ok2: "regions_ok (dyn_regs nap2)"
            using regions_ok_key [of "dyn_regs nap2" "dyn_regs nap"] n1(4) g ok(2) by simp
          have p2: "p < length (regions (dyn_regs nap2))" using p map_eq_imp_length_eq [OF k] by simp
          have "region_key (regions (dyn_regs nap2) ! p) = region_key ?r"
            using arg_cong [OF k, of "\<lambda>l. l ! p"] p p2 by simp
          moreover have "region_key ` set (regions (dyn_regs nap2)) = region_key ` set ?rs"
            using arg_cong [OF k, of set] by simp
          ultimately have "region_key ` set (regions rs) = region_key ` set ?rs - {region_key ?r}"
            using delete_keys [OF ok2 p2 d(1)] by simp
          moreover have "due_generation nap ?r \<le> natp_generation nap' t" if "listed nap' t" for t
          proof -
            have "num_entries (thread_tbl nap2) \<le> 2 ^ 31" using gens(1) n1(2) g by simp
            moreover have "due_generation nap ?r \<le> NaClMinimumThreadGeneration nap2" using yes n1(5) [OF True] g by simp
            ultimately have "\<forall>t. listed nap2 t \<longrightarrow> due_generation nap ?r \<le> natp_generation nap2 t"
              using min_generation [of nap2 "due_generation nap ?r"] n1(5) [OF True] by simp
            then show ?thesis using that d(2) by (simp add: listed_def)
          qed
          ultimately show ?thesis using d(2,3) key nth_mem [OF p] by (simp, intro bexI [of _ ?r]) auto
        qed
      qed
    qed
  qed
qed

text \<open>Conversely, once the other threads have checked in, the deletion goes through.\<close>

lemma Delete_completes:
  assumes ok: "space_ok nap" "regions_ok (dyn_regs nap)" and sz: "sz \<noteq> 0"
    and en: "enable_dyncode_syscalls nap" "text_shm nap" "e_mem env"
    and r: "r \<in> set (regions (dyn_regs nap))"
      "region_key r = (NaClUserToSysAddrRange nap (ucast dest) (ucast sz), ucast sz, False)"
      "NaClUserToSysAddrRange nap (ucast dest) (ucast sz) \<noteq> kNaClBadAddress"
    and gens: "num_entries (thread_tbl nap) \<le> 2 ^ 31" "natp_generation nap natp \<le> delete_generation nap"
      "0 \<le> dr_delete_generation r" "dr_delete_generation r \<le> delete_generation nap" "delete_generation nap < 2 ^ 31"
    and in_time: "\<forall>t. listed nap t \<and> t \<noteq> natp \<longrightarrow> dr_delete_generation r \<le> natp_generation nap t"
  shows "\<exists>nap'. NaClSysDyncodeDelete env nap natp dest sz = Inr (0, nap')
    \<and> region_key ` set (regions (dyn_regs nap')) = region_key ` set (regions (dyn_regs nap)) - {region_key r}"
proof -
  let ?a = "NaClUserToSysAddrRange nap (ucast dest) (ucast sz)"
  let ?rs = "regions (dyn_regs nap)"
  have szn: "0 < unat (ucast sz :: u64)" using sz by (simp add: unat_ucast_64 unat_gt_0)
  have nw: "unat ?a + unat (ucast sz :: u64) < 2 ^ 64" by (rule user_range [OF ok(1) refl r(3)])
  have rr: "meets (unat ?a) (unat ?a + unat (ucast sz :: u64)) r" "dr_lo r = unat ?a" "dr_hi r = unat ?a + unat (ucast sz :: u64)"
    using r(2) szn by (auto simp: meets_def region_key_def dr_lo_def dr_hi_def)
  then obtain p where f: "NaClDynamicRegionFind (dyn_regs nap) ?a (ucast sz) = Some p"
    using code.find_none [OF ok(2) szn nw _ r(1)] by (cases "NaClDynamicRegionFind (dyn_regs nap) ?a (ucast sz)") auto
  have p: "p < length ?rs" using Find_ok(2) [OF ok(2) szn nw f] by simp
  have fs: "?rs ! p \<in> set ?rs" "meets (dr_lo r) (dr_hi r) (?rs ! p)"
    using code.find_some [OF ok(2) szn nw f] unfolding rr(2,3) by simp_all
  have rp: "?rs ! p = r"
  proof (rule ccontr)
    assume "?rs ! p \<noteq> r"
    then have "\<not> meets (dr_lo r) (dr_hi r) (?rs ! p)" using code.apart [OF ok(2) r(1) fs(1)] by metis
    then show False using fs(2) by (rule notE)
  qed
  let ?nap2 = "nap\<lparr>natp_generation := (natp_generation nap)(natp := delete_generation nap)\<rparr>"
  have s2: "NaClSetThreadGeneration nap natp (delete_generation nap) = Inr ?nap2"
  proof (cases "natp_generation nap natp = delete_generation nap")
    case True
    then have "(natp_generation nap)(natp := delete_generation nap) = natp_generation nap" by (metis fun_upd_triv)
    then show ?thesis unfolding NaClSetThreadGeneration_def using True by simp
  next
    case False
    then show ?thesis unfolding NaClSetThreadGeneration_def using gens(2) by simp
  qed
  have "\<forall>t. listed ?nap2 t \<longrightarrow> dr_delete_generation r \<le> natp_generation ?nap2 t"
    using in_time gens(4) by (auto simp: listed_def)
  then have m: "dr_delete_generation r \<le> NaClMinimumThreadGeneration ?nap2"
    using min_generation [of ?nap2 "dr_delete_generation r"] gens(1,4,5) by simp
  obtain rs where d: "NaClDynamicRegionDelete (e_mem env) (dyn_regs nap) p = Inr rs" using Delete_ok [OF ok(2) p] en(3) by auto
  have "NaClSysDyncodeDelete env nap natp dest sz = Inr (0, ?nap2\<lparr>dyn_regs := rs\<rparr>)"
    using en sz r f rp s2 m d gens(3) by (simp add: NaClSysDyncodeDelete_def Let_def region_key_def)
  then show ?thesis using delete_keys [OF ok(2) p d] rp by auto
qed

end
