(* ===== verification/DynCodePages.thy ===== *)
theory DynCodePages
  imports DynCodeDelete
begin

text \<open>
  Mapping the text area: which pages become visible, and which bytes that changes. A page that
  was visible before is never filled again, so code already loaded stays.
\<close>

section \<open>The bitmap\<close>

lemma BitmapSetBit_ok:
  assumes "i div 8 < length bm"
  shows "BitmapIsBitSet (BitmapSetBit bm i) k \<longleftrightarrow> BitmapIsBitSet bm k \<or> k = i"
    "length (BitmapSetBit bm i) = length bm"
proof -
  have eq: "k = i \<longleftrightarrow> k div 8 = i div 8 \<and> k mod 8 = i mod 8" by (metis div_mult_mod_eq)
  have 8: "k mod 8 < 8" "i mod 8 < 8" by simp_all
  show "BitmapIsBitSet (BitmapSetBit bm i) k \<longleftrightarrow> BitmapIsBitSet bm k \<or> k = i"
  proof (cases "k div 8 = i div 8")
    case True
    then show ?thesis using assms 8 by (auto simp: BitmapIsBitSet_def BitmapSetBit_def bit_simps eq)
  next
    case False
    then show ?thesis by (auto simp: BitmapIsBitSet_def BitmapSetBit_def eq)
  qed
qed (simp add: BitmapSetBit_def)

lemma mark_pages_ok:
  "mark_pages bm i n = Inr bm' \<Longrightarrow>
    length bm' = length bm \<and> (\<forall>k. BitmapIsBitSet bm' k \<longleftrightarrow> BitmapIsBitSet bm k \<or> i \<le> k \<and> k < i + n)"
proof (induction bm i n rule: mark_pages.induct)
  case (2 bm i n)
  then have b: "i div 8 < length bm" "\<not> BitmapIsBitSet bm i" by (auto split: if_splits)
  then show ?case using 2 BitmapSetBit_ok [OF b(1)] by (auto simp: less_Suc_eq_le)
qed auto

lemma run_end_ok:
  "cur \<le> e \<Longrightarrow> run_end bm cur e \<le> e \<and> (\<forall>k. cur \<le> k \<and> k < run_end bm cur e \<longrightarrow> \<not> BitmapIsBitSet bm k)
    \<and> (run_end bm cur e < e \<longrightarrow> BitmapIsBitSet bm (run_end bm cur e))"
proof (induction bm cur e rule: run_end.induct)
  case (1 bm cur e)
  show ?case
  proof (cases "cur < e \<and> \<not> BitmapIsBitSet bm cur")
    case True
    then have "run_end bm cur e = run_end bm (cur + 1) e" by (simp add: run_end.simps [of bm cur e])
    moreover have "\<not> BitmapIsBitSet bm k" if "cur \<le> k" "k < run_end bm (cur + 1) e" for k
      using 1(1) [OF True] True that by (cases "k = cur") auto
    ultimately show ?thesis using 1(1) [OF True] True by auto
  next
    case False
    then have "run_end bm cur e = cur" by (subst run_end.simps) (rule if_not_P)
    then show ?thesis using 1(2) False by auto
  qed
qed

section \<open>Pages made visible\<close>

text \<open>The page of the text area in which a system address lies.\<close>

definition text_page :: "('h, 'z) code_app_scheme \<Rightarrow> u64 \<Rightarrow> nat" where
  "text_page nap x = unat (x - (mem_start nap + dynamic_text_start nap)) div 65536"

definition shown :: "('h, 'z) code_app_scheme \<Rightarrow> nat \<Rightarrow> bool" where
  "shown nap k = BitmapIsBitSet (dynamic_page_bitmap nap) k"

lemma text_page_same: "text_frame a b \<Longrightarrow> text_page b x = text_page a x"
  by (simp add: text_page_def text_frame_def)

lemma offset_within:
  assumes "p * 65536 + n * 65536 < 2 ^ 64" "unat (x - (b + of_nat p * 65536 :: u64)) < n * 65536"
  shows "p \<le> unat (x - b) div 65536" "unat (x - b) div 65536 < p + n"
proof -
  let ?y = "x - (b + of_nat p * 65536 :: u64)"
  have pw: "unat (of_nat p * 65536 :: u64) = p * 65536"
    using assms(1) unat_of_nat [of "p * 65536", where ?'a = 64] by simp
  have "x - b = ?y + of_nat p * 65536" by simp
  moreover have "unat (?y + of_nat p * 65536) = unat ?y + p * 65536"
    using assms pw unat_add_nowrap [of ?y "of_nat p * 65536"] by simp
  ultimately have e: "unat (x - b) = unat ?y + p * 65536" by simp
  show "p \<le> unat (x - b) div 65536" unfolding e by simp
  show "unat (x - b) div 65536 < p + n" unfolding e using assms(2) by (simp add: div_less_iff_less_mult algebra_simps)
qed

lemma visible_ok:
  assumes "MakeDynamicCodePagesVisible env nap p q = Inr nap'" "p \<le> q" "q * 65536 < 2 ^ 64"
  shows "(\<forall>k. shown nap' k \<longleftrightarrow> shown nap k \<or> p \<le> k \<and> k < q)
    \<and> (\<forall>x. fa_mem nap' x \<noteq> fa_mem nap x \<longrightarrow> p \<le> text_page nap x \<and> text_page nap x < q)"
proof -
  obtain bm ua where s: "mark_pages (dynamic_page_bitmap nap) p (q - p) = Inr bm"
    "NaClUserToSys nap (text_page_addr nap p) = Inr ua"
    "dynamic_page_bitmap nap' = bm"
    "fa_mem nap' = write_bytes ua (replicate ((q - p) * 65536) NACL_HALT_OPCODE) (fa_mem nap)"
    using assms(1) by (auto simp: MakeDynamicCodePagesVisible_def Let_def NaClFillMemoryRegionWithHalt_def
        NACL_MAP_PAGESIZE_def split: if_splits)
  have ua: "ua = mem_start nap + dynamic_text_start nap + of_nat p * 65536"
    using s(2) by (simp add: NaClUserToSys_def text_page_addr_def NACL_MAP_PAGESIZE_def algebra_simps split: if_splits)
  have "p \<le> text_page nap x \<and> text_page nap x < q" if "fa_mem nap' x \<noteq> fa_mem nap x" for x
  proof -
    have "unat (x - ua) < (q - p) * 65536"
      using that s(4) by (auto simp: write_bytes_def Let_def split: if_splits)
    moreover have "p * 65536 + (q - p) * 65536 < 2 ^ 64" using assms(2,3) by (simp add: add_mult_distrib [symmetric])
    ultimately show ?thesis
      using offset_within [of p "q - p" x "mem_start nap + dynamic_text_start nap"] assms(2) unfolding ua text_page_def by simp
  qed
  then show ?thesis using mark_pages_ok [OF s(1)] s(3) assms(2) by (simp add: shown_def)
qed

text \<open>
  From \<open>a\<close> to \<open>b\<close>, exactly the pages of \<open>ks\<close> have become visible, and only bytes in pages of \<open>ks\<close>
  that were not visible before have changed.
\<close>

definition shows_pages :: "nat set \<Rightarrow> ('h, 'z) code_app_scheme \<Rightarrow> ('h, 'z) code_app_scheme \<Rightarrow> bool" where
  "shows_pages ks a b \<longleftrightarrow> text_frame a b \<and> (\<forall>k. shown b k \<longleftrightarrow> shown a k \<or> k \<in> ks)
     \<and> (\<forall>x. fa_mem b x \<noteq> fa_mem a x \<longrightarrow> text_page a x \<in> ks \<and> \<not> shown a (text_page a x))"

lemma shows_pages_empty: "shows_pages {} a a"
  by (simp add: shows_pages_def)

lemma shows_pages_trans:
  assumes "shows_pages ks a b" "shows_pages ls b c"
  shows "shows_pages (ks \<union> ls) a c"
proof -
  have f: "text_frame a b" "text_frame b c" using assms by (simp_all add: shows_pages_def)
  have "text_page a x \<in> ks \<union> ls \<and> \<not> shown a (text_page a x)" if "fa_mem c x \<noteq> fa_mem a x" for x
  proof (cases "fa_mem b x = fa_mem a x")
    case True
    then have "fa_mem c x \<noteq> fa_mem b x" using that by simp
    then show ?thesis using assms text_page_same [OF f(1), of x] by (auto simp: shows_pages_def)
  next
    case False
    then show ?thesis using assms(1) by (auto simp: shows_pages_def)
  qed
  then show ?thesis using assms text_frame_trans [OF f] by (auto simp: shows_pages_def)
qed

lemma show_pages_ok:
  "show_pages env nap cur e = Inr nap' \<Longrightarrow> e * 65536 < 2 ^ 64 \<Longrightarrow> shows_pages {cur ..< e} nap nap'"
proof (induction env nap cur e arbitrary: nap' rule: show_pages.induct)
  case (1 env nap cur e)
  show ?case
  proof (cases "cur < e")
    case True
    let ?stop = "run_end (dynamic_page_bitmap nap) cur e"
    have st: "cur \<le> ?stop" "?stop \<le> e" "\<forall>k. cur \<le> k \<and> k < ?stop \<longrightarrow> \<not> shown nap k" "?stop < e \<longrightarrow> shown nap ?stop"
      using run_end_ge run_end_ok [of cur e "dynamic_page_bitmap nap"] True by (simp_all add: shown_def)
    obtain nap1 where s: "(if ?stop > cur then MakeDynamicCodePagesVisible env nap cur ?stop else Inr nap) = Inr nap1"
      "show_pages env nap1 (?stop + 1) e = Inr nap'"
      using 1(2) True by (auto simp: show_pages.simps [of env nap cur] Let_def)
    have a: "shows_pages {cur ..< ?stop} nap nap1"
    proof (cases "?stop > cur")
      case gt: True
      then have m: "MakeDynamicCodePagesVisible env nap cur ?stop = Inr nap1" using s(1) by simp
      have "?stop * 65536 < 2 ^ 64" using st(2) 1(3) by simp
      from visible_ok [OF m _ this] visible_frame [OF m] st show ?thesis by (auto simp: shows_pages_def)
    next
      case False
      then show ?thesis using s(1) st(1) shows_pages_empty by simp
    qed
    have b: "shows_pages {?stop + 1 ..< e} nap1 nap'" using 1(1) [OF True refl s(2) 1(3)] .
    have "shows_pages ({cur ..< ?stop} \<union> {?stop + 1 ..< e}) nap nap'" by (rule shows_pages_trans [OF a b])
    moreover have "{cur ..< e} = {cur ..< ?stop} \<union> {?stop + 1 ..< e} \<union> (if ?stop < e then {?stop} else {})"
      using st(1,2) by auto
    ultimately show ?thesis using st(4) by (auto simp: shows_pages_def)
  next
    case False
    then show ?thesis using 1(2) shows_pages_empty by (simp add: show_pages.simps [of env nap cur])
  qed
qed

section \<open>The cached mapping\<close>

definition map_pages :: "u32 \<Rightarrow> u32 \<Rightarrow> nat set" where
  "map_pages off sz = {unat (off div 0x10000) ..< unat ((off + sz) div 0x10000)}"

text \<open>The pages of a cached mapping are visible, and the mapping ends below \<open>2 ^ 31\<close>.\<close>

definition cache_ok :: "('h, 'z) code_app_scheme \<Rightarrow> bool" where
  "cache_ok nap \<longleftrightarrow> (mapcache_size nap \<noteq> 0 \<longrightarrow>
     (\<forall>k \<in> map_pages (mapcache_offset nap) (mapcache_size nap). shown nap k)
     \<and> unat (mapcache_offset nap) + unat (mapcache_size nap) < 2 ^ 31)"

text \<open>
  What \<open>NaClDescImcShmMap\<close> promises: a mapping that ends at or beyond \<open>2 ^ 31\<close> is refused.
\<close>

definition shm_limit :: "text_env \<Rightarrow> bool" where
  "shm_limit env \<longleftrightarrow> (\<forall>sz off. 2 ^ 31 \<le> unat off + unat sz \<longrightarrow> NaClPtrIsNegErrno (e_shm_map env sz off))"

lemma shows_pages_cache [simp]:
  "shows_pages ks a (b\<lparr>mapcache_offset := x, mapcache_size := y, mapcache_ret := z\<rparr>) = shows_pages ks a b"
  "shows_pages ks (b\<lparr>mapcache_offset := x, mapcache_size := y, mapcache_ret := z\<rparr>) a = shows_pages ks b a"
  "shows_pages ks a (b\<lparr>requests := rs\<rparr>) = shows_pages ks a b"
  "shows_pages ks (b\<lparr>requests := rs\<rparr>) a = shows_pages ks b a"
  by (simp_all add: shows_pages_def shown_def text_page_def)

lemma shows_pages_drop [simp]:
  "shows_pages ks a (drop_mapcache b) = shows_pages ks a b" "shows_pages ks (drop_mapcache b) a = shows_pages ks b a"
  by (auto simp: drop_mapcache_def)

lemma cache_ok_drop [simp]: "cache_ok (drop_mapcache nap)" "cache_ok (nap\<lparr>requests := rs\<rparr>) = cache_ok nap"
  by (auto simp: cache_ok_def drop_mapcache_def word_neq_0_conv shown_def)

lemma cached_ok:
  assumes ok: "cache_ok nap" "shm_limit env" and sz: "sz \<noteq> 0"
    and res: "CachedMapWritableText env nap off sz = Inr (r, nap')"
  shows "cache_ok nap' \<and> (if r = 0 then \<exists>ks. shows_pages ks nap nap' \<and> ks \<subseteq> map_pages off sz
      else shows_pages (map_pages off sz) nap nap' \<and> unat off + unat sz < 2 ^ 31)"
proof (cases "off \<noteq> mapcache_offset nap \<or> sz \<noteq> mapcache_size nap")
  case hit: False
  then have "r = mapcache_ret nap" "nap' = nap" using res by (auto simp: CachedMapWritableText_def)
  moreover have "shows_pages (map_pages off sz) nap nap"
    using ok(1) hit sz by (auto simp: shows_pages_def cache_ok_def)
  ultimately show ?thesis using ok(1) hit sz by (auto simp: cache_ok_def)
next
  case miss: True
  let ?nap1 = "(drop_mapcache nap)
    \<lparr>requests := Text_Map 0 (ucast sz) prot_read_write 1 (ucast off) # requests (drop_mapcache nap)\<rparr>"
  have c1: "cache_ok ?nap1" by simp
  have sp1: "shows_pages ks ?nap1 b = shows_pages ks nap b" for ks and b :: "('a, 'b) code_app_scheme" by simp
  let ?mp = "e_shm_map env sz off"
  have unf: "CachedMapWritableText env nap off sz = (if NaClPtrIsNegErrno ?mp then Inr (0, ?nap1)
      else ebind (show_pages env ?nap1 (unat (off div 0x10000)) (unat ((off + sz) div 0x10000))) (\<lambda>nap2.
        Inr (?mp, nap2\<lparr>mapcache_offset := off, mapcache_size := sz, mapcache_ret := ?mp\<rparr>)))"
    using miss sz by (simp add: CachedMapWritableText_def Let_def word_neq_0_conv)
  show ?thesis
  proof (cases "NaClPtrIsNegErrno ?mp")
    case True
    then have "r = 0" "nap' = ?nap1" using res unf by simp_all
    moreover have "shows_pages {} nap ?nap1" using shows_pages_empty [of ?nap1] sp1 by metis
    ultimately show ?thesis using c1 by (simp only: if_True simp_thms) blast
  next
    case False
    then have lim: "unat off + unat sz < 2 ^ 31" using ok(2) by (meson not_le shm_limit_def)
    obtain nap2 where n: "show_pages env ?nap1 (unat (off div 0x10000)) (unat ((off + sz) div 0x10000)) = Inr nap2"
      "r = ?mp" "nap' = nap2\<lparr>mapcache_offset := off, mapcache_size := sz, mapcache_ret := ?mp\<rparr>"
      using res unf False by auto
    have "unat ((off + sz) div 0x10000) \<le> unat (off + sz)" by (simp add: unat_div)
    moreover have "unat (off + sz) < 2 ^ 31" using lim by (simp add: unat_add_nowrap)
    ultimately have "unat ((off + sz) div 0x10000) * 65536 < 2 ^ 64" by simp
    from show_pages_ok [OF n(1) this] have sp: "shows_pages (map_pages off sz) nap nap2"
      unfolding sp1 map_pages_def .
    then have "cache_ok nap'" using n(3) lim by (simp add: cache_ok_def shows_pages_def shown_def)
    moreover have "shows_pages (map_pages off sz) nap nap'" using sp n(3) by simp
    ultimately show ?thesis using lim by auto
  qed
qed

lemma clear_cache_ok:
  assumes "cache_ok nap" "NaClTextMapClearCacheIfNeeded env nap dest sz = Inr nap'"
  shows "cache_ok nap' \<and> shows_pages {} nap nap'"
proof -
  have "nap' = nap \<or> nap' = drop_mapcache nap"
    using assms(2) by (auto simp: NaClTextMapClearCacheIfNeeded_def CachedMapWritableText_def Let_def split: if_splits)
  then show ?thesis using assms(1) shows_pages_empty [of nap] by auto
qed

end
