(* ===== verification/DynCodeCreate.thy ===== *)
theory DynCodeCreate
  imports DynCodePages
begin

text \<open>
  Creating code: what \<open>NaClTextDyncodeCreate\<close> has done when it returns zero.
\<close>

section \<open>Copying whole bundles\<close>

lemma copy_words:
  assumes "\<forall>o' \<in> set os. o' + 4 \<le> length src" "length src \<le> 2 ^ 64"
  shows "foldl (\<lambda>m o'. copy_word d src o' m) m os x =
    (if \<exists>o' \<in> set os. o' \<le> unat (x - d) \<and> unat (x - d) < o' + 4 then src ! unat (x - d) else m x)"
  using assms(1)
proof (induction os rule: rev_induct)
  case (snoc w os)
  let ?k = "unat (x - d)"
  let ?m = "foldl (\<lambda>m o'. copy_word d src o' m) m os"
  have w: "w + 4 \<le> length src" using snoc(2) by simp
  have wu: "unat (of_nat w :: u64) = w" using w assms(2) by (simp add: unat_of_nat)
  have len: "length (take 4 (drop w src)) = 4" using w by simp
  have eq: "x - (d + of_nat w) = (x - d) - of_nat w" by simp
  have off: "unat (x - (d + of_nat w)) < 4 \<longleftrightarrow> w \<le> ?k \<and> ?k < w + 4"
  proof (cases "w \<le> ?k")
    case True
    then have "unat (x - (d + of_nat w)) = ?k - w" unfolding eq using wu by (simp add: unat_sub_nowrap)
    then show ?thesis using True by auto
  next
    case False
    then have "x - d < of_nat w" using wu by (simp add: word_nat)
    then have "unat (x - (d + of_nat w)) = 2 ^ 64 + ?k - w"
      unfolding eq using wu by (simp add: unat_sub_if' word_less_nat_alt)
    then show ?thesis using False w assms(2) by auto
  qed
  have val: "take 4 (drop w src) ! unat (x - (d + of_nat w)) = src ! ?k" if "w \<le> ?k" "?k < w + 4"
  proof -
    have "unat (x - (d + of_nat w)) = ?k - w" unfolding eq using wu that by (simp add: unat_sub_nowrap)
    then show ?thesis using that w by simp
  qed
  have "copy_word d src w ?m x = (if w \<le> ?k \<and> ?k < w + 4 then src ! ?k else ?m x)"
    unfolding copy_word_def write_bytes_def Let_def len off using val by auto
  then show ?case using snoc by auto
qed simp

lemma foldl_filter: "foldl (\<lambda>m i. if P i then f i m else m) m xs = foldl (\<lambda>m i. f i m) m (filter P xs)"
  by (induction xs arbitrary: m) auto

lemma and_31_zero: "(x :: u64) AND 31 = 0 \<longleftrightarrow> 32 dvd unat x"
proof -
  have "(31 :: u64) = mask 5" by (simp add: mask_eq_exp_minus_1)
  then have "unat (x AND 31) = unat x mod 32" using unat_and_mask [of x 5] by simp
  then show ?thesis by (metis dvd_eq_mod_eq_0 unat_0 unat_eq_0)
qed

text \<open>For whole bundles the tails and the heads together are all the bytes.\<close>

lemma copy_code:
  assumes d: "32 dvd unat d" and len: "length src = n" "32 dvd n" "unat d + n < 2 ^ 64"
  shows "CopyCodeSafelyInitial d src n 32 m = Inr (write_bytes d src m)"
proof -
  have "d AND 3 = 0"
  proof -
    have "unat (d AND mask 2) = unat d mod 4" using unat_and_mask [of d 2] by simp
    moreover have "4 dvd unat d" using d by (rule dvd_trans [rotated]) simp
    ultimately show ?thesis by (simp add: mask_eq_exp_minus_1 unat_eq_zero)
  qed
  then have d3: "d AND 3 = 0" .
  obtain q where q: "n = 32 * q" using len(2) by blast
  have n4: "(n + 3) div 4 = 8 * q" "(n + 32 - 1) div 32 = q" using q by simp_all
  have is_head: "(d + of_nat (4 * i)) AND (32 - 1) = 0 \<longleftrightarrow> 8 dvd i" if "i < 8 * q" for i
  proof -
    have "4 * i < n" using that q by simp
    then have "unat (d + of_nat (4 * i)) = unat d + 4 * i"
      using len(3) unat_add_nowrap [of d "of_nat (4 * i)"] unat_of_nat [of "4 * i", where ?'a = 64] by simp
    then have "(d + of_nat (4 * i)) AND 31 = 0 \<longleftrightarrow> 32 dvd unat d + 4 * i" by (simp only: and_31_zero)
    also have "\<dots> \<longleftrightarrow> 32 dvd 4 * i" using d by (simp add: dvd_add_right_iff)
    also have "\<dots> \<longleftrightarrow> 8 dvd i" using dvd_times_left_cancel_iff [of 4 8 i] by simp
    finally show ?thesis by simp
  qed
  let ?ts = "map (\<lambda>i. 4 * i) (filter (\<lambda>i. (d + of_nat (4 * i)) AND (32 - 1) \<noteq> 0) [0 ..< 8 * q])"
  let ?hs = "map (\<lambda>i. 32 * i) [0 ..< q]"
  have tails: "CopyBundleTails d src n 32 m = Inr (foldl (\<lambda>m o'. copy_word d src o' m) m ?ts)" for m
    unfolding CopyBundleTails_def n4 foldl_filter using d3 by (simp add: foldl_map)
  have heads: "CopyBundleHeads d src n 32 m = Inr (foldl (\<lambda>m o'. copy_word d src o' m) m ?hs)" for m
    unfolding CopyBundleHeads_def Let_def using d3 n4 by (simp add: foldl_map)
  have bound: "\<forall>o' \<in> set (?ts @ ?hs). o' + 4 \<le> length src" using q len(1) by auto
  have all: "(\<exists>o' \<in> set (?ts @ ?hs). o' \<le> k \<and> k < o' + 4) \<longleftrightarrow> k < n" for k
  proof
    assume "k < n"
    then have w: "k div 4 < 8 * q" using q by auto
    have k: "4 * (k div 4) \<le> k" "k < 4 * (k div 4) + 4" by simp_all
    show "\<exists>o' \<in> set (?ts @ ?hs). o' \<le> k \<and> k < o' + 4"
    proof (cases "8 dvd k div 4")
      case True
      then obtain j where j: "k div 4 = 8 * j" by blast
      then have "j < q" using w by simp
      then have "32 * j \<in> set (?ts @ ?hs)" by auto
      then show ?thesis using k j by (intro bexI [of _ "32 * j"]) auto
    next
      case False
      then have "4 * (k div 4) \<in> set ?ts" using w is_head [OF w] by auto
      then show ?thesis using k by (intro bexI [of _ "4 * (k div 4)"]) auto
    qed
  next
    assume "\<exists>o' \<in> set (?ts @ ?hs). o' \<le> k \<and> k < o' + 4"
    then show "k < n" using bound len(1) by fastforce
  qed
  have "foldl (\<lambda>m o'. copy_word d src o' m) (foldl (\<lambda>m o'. copy_word d src o' m) m ?ts) ?hs
      = foldl (\<lambda>m o'. copy_word d src o' m) m (?ts @ ?hs)" by simp
  also have "\<dots> = write_bytes d src m"
  proof
    fix x
    have "length src \<le> 2 ^ 64" using len by simp
    from copy_words [OF bound this, of d m x]
    show "foldl (\<lambda>m o'. copy_word d src o' m) m (?ts @ ?hs) x = write_bytes d src m x"
      unfolding all write_bytes_def Let_def len(1) .
  qed
  finally show ?thesis unfolding CopyCodeSafelyInitial_def tails by (simp add: heads)
qed

section \<open>The mapping of a range\<close>

text \<open>
  What the loader establishes (\<open>NaClMakeDynamicTextShared\<close>): the text area starts and ends on an
  allocation page and lies in the lower half of the address space.
\<close>

definition text_area_ok :: "('h, 'z) code_app_scheme \<Rightarrow> bool" where
  "text_area_ok nap \<longleftrightarrow> space_ok nap \<and> bundle_size nap = 32
     \<and> 65536 dvd unat (dynamic_text_start nap) \<and> 65536 dvd unat (dynamic_text_end nap)
     \<and> 0 < unat (dynamic_text_start nap) \<and> unat (dynamic_text_start nap) < unat (dynamic_text_end nap)
     \<and> unat (dynamic_text_end nap) \<le> unat (addr_limit nap) \<and> unat (dynamic_text_end nap) \<le> 2 ^ 31"

definition range_pages :: "('h, 'z) code_app_scheme \<Rightarrow> u32 \<Rightarrow> u32 \<Rightarrow> nat set" where
  "range_pages nap dest sz =
     {(unat dest - unat (dynamic_text_start nap)) div 65536
      ..< nat_round_up 16 (unat dest - unat (dynamic_text_start nap) + unat sz) div 65536}"

lemma text_area_frame: "text_frame a b \<Longrightarrow> text_area_ok b = text_area_ok a"
  by (simp add: text_frame_def text_area_ok_def space_ok_def addr_limit_def)

lemma wrapper_offsets:
  assumes area: "text_area_ok nap" and dest: "unat (dynamic_text_start nap) \<le> unat dest" "unat dest + unat sz \<le> 2 ^ 32"
    and sz: "sz \<noteq> 0"
  defines "o' \<equiv> dest - ucast (dynamic_text_start nap)"
  shows "unat o' = unat dest - unat (dynamic_text_start nap)"
    "unat (o' AND NOT 0xffff) = nat_round_down 16 (unat o')" "unat (o' AND 0xffff) = unat o' mod 65536"
    "unat (((o' + sz + 0x10000 - 1) AND NOT 0xffff) - (o' AND NOT 0xffff))
      = nat_round_up 16 (unat o' + unat sz) - nat_round_down 16 (unat o')"
    "unat (o' AND NOT 0xffff) + unat (((o' + sz + 0x10000 - 1) AND NOT 0xffff) - (o' AND NOT 0xffff))
      = nat_round_up 16 (unat o' + unat sz)"
    "((o' + sz + 0x10000 - 1) AND NOT 0xffff) - (o' AND NOT 0xffff) \<noteq> 0"
    "map_pages (o' AND NOT 0xffff) (((o' + sz + 0x10000 - 1) AND NOT 0xffff) - (o' AND NOT 0xffff)) = range_pages nap dest sz"
proof -
  let ?ts = "unat (dynamic_text_start nap)"
  have ts: "65536 dvd ?ts" "0 < ?ts" "?ts < 2 ^ 31" using area by (simp_all add: text_area_ok_def)
  then have ts1: "65536 \<le> ?ts" by (simp add: dvd_imp_le)
  have uts: "unat (ucast (dynamic_text_start nap) :: u32) = ?ts"
    using ts(3) by (simp add: unsigned_ucast_eq take_bit_nat_eq_self)
  show o1: "unat o' = unat dest - ?ts" unfolding o'_def using dest(1) uts by (simp add: unat_sub_nowrap)
  have m: "(0xffff :: u32) = mask 16" by (simp add: mask_eq_exp_minus_1)
  show dn: "unat (o' AND NOT 0xffff) = nat_round_down 16 (unat o')" unfolding m by (rule unat_round_down)
  show "unat (o' AND 0xffff) = unat o' mod 65536" unfolding m unat_and_mask by simp
  have sum: "unat (o' + sz) = unat o' + unat sz" "unat o' + unat sz + 65535 < 2 ^ 32"
    using dest o1 ts1 unat_add_nowrap [of o' sz] by auto
  have up: "unat ((o' + sz + 0x10000 - 1) AND NOT 0xffff) = nat_round_up 16 (unat o' + unat sz)"
  proof -
    have "o' + sz + 0x10000 - 1 = o' + sz + (2 ^ 16 - 1)" by simp
    moreover have "unat ((o' + sz + (2 ^ 16 - 1)) AND NOT (mask 16)) = nat_round_up 16 (unat (o' + sz))"
      by (rule unat_round_up) (use sum in simp_all)
    ultimately show ?thesis unfolding m using sum(1) by (simp only:)
  qed
  have le: "nat_round_down 16 (unat o') \<le> nat_round_up 16 (unat o' + unat sz)"
    using nat_round_down_le [of 16 "unat o'"] nat_round_up_ge [of "unat o' + unat sz" 16] by linarith
  show df: "unat (((o' + sz + 0x10000 - 1) AND NOT 0xffff) - (o' AND NOT 0xffff))
      = nat_round_up 16 (unat o' + unat sz) - nat_round_down 16 (unat o')"
    using le up dn by (simp add: unat_sub_nowrap)
  show tot: "unat (o' AND NOT 0xffff) + unat (((o' + sz + 0x10000 - 1) AND NOT 0xffff) - (o' AND NOT 0xffff))
      = nat_round_up 16 (unat o' + unat sz)" using df dn le by simp
  have "0 < unat sz" using sz by (simp add: unat_gt_0)
  then have "nat_round_down 16 (unat o') < nat_round_up 16 (unat o' + unat sz)"
    using nat_round_down_le [of 16 "unat o'"] nat_round_up_ge [of "unat o' + unat sz" 16] by linarith
  then show "((o' + sz + 0x10000 - 1) AND NOT 0xffff) - (o' AND NOT 0xffff) \<noteq> 0" using df by auto
  have "unat (o' AND NOT 0xffff) div 65536 = unat o' div 65536" unfolding dn by (simp add: nat_round_down_def)
  then show "map_pages (o' AND NOT 0xffff) (((o' + sz + 0x10000 - 1) AND NOT 0xffff) - (o' AND NOT 0xffff))
      = range_pages nap dest sz"
    using up o1 by (simp add: map_pages_def range_pages_def unat_div)
qed

lemma wrapper_ok:
  assumes area: "text_area_ok nap" and dest: "unat (dynamic_text_start nap) \<le> unat dest" "unat dest + unat sz \<le> 2 ^ 32"
    and sz: "sz \<noteq> 0" and c: "cache_ok nap" "shm_limit env"
    and res: "NaClTextMapWrapper env nap dest sz = Inr (mapped, nap')"
  shows "cache_ok nap' \<and> (case mapped of
      None \<Rightarrow> \<exists>ks. shows_pages ks nap nap' \<and> ks \<subseteq> range_pages nap dest sz
    | Some a \<Rightarrow> a = ucast dest + mem_start nap \<and> shows_pages (range_pages nap dest sz) nap nap'
        \<and> unat dest - unat (dynamic_text_start nap) + unat sz < 2 ^ 31)"
proof -
  let ?o = "dest - ucast (dynamic_text_start nap)"
  let ?off = "?o AND NOT 0xffff" and ?ms = "((?o + sz + 0x10000 - 1) AND NOT 0xffff) - (?o AND NOT 0xffff)"
  note w = wrapper_offsets [OF area dest sz]
  let ?a = "mem_start nap + dynamic_text_start nap + ucast ?off + ucast (?o AND 0xffff)"
  have "ebind (CachedMapWritableText env nap ?off ?ms) (\<lambda>(mmap_ret, nap1).
      if 0 = mmap_ret then Inr (None, nap1) else Inr (Some ?a, nap1)) = Inr (mapped, nap')"
    using res unfolding NaClTextMapWrapper_def Let_def .
  then obtain y where y: "CachedMapWritableText env nap ?off ?ms = Inr y"
    "(case y of (mmap_ret, nap1) \<Rightarrow> if 0 = mmap_ret then Inr (None, nap1) else Inr (Some ?a, nap1)) = (Inr (mapped, nap') :: _ exec)"
    by (simp only: ebind_eq_Inr) blast
  obtain r nap1 where r: "CachedMapWritableText env nap ?off ?ms = Inr (r, nap1)"
    "(if 0 = r then (None, nap1) else (Some ?a, nap1)) = (mapped, nap')"
    using y by (cases y) (simp only: prod.case, auto split: if_splits)
  note k = cached_ok [OF c w(6) r(1), unfolded w(5,7)]
  show ?thesis
  proof (cases "r = 0")
    case True
    then show ?thesis using r(2) k by auto
  next
    case False
    have "unat (ucast ?off + ucast (?o AND 0xffff) :: u64) = unat ?o"
    proof -
      have "nat_round_down 16 (unat ?o) + unat ?o mod 65536 = unat ?o" by (simp add: nat_round_down_def)
      moreover have "unat ?o < 2 ^ 64" by (rule less_le_trans [OF unsigned_less]) simp
      ultimately show ?thesis
        using unat_add_nowrap [of "ucast ?off :: u64" "ucast (?o AND 0xffff)"] w(2,3) by (simp add: unat_ucast_64)
    qed
    moreover have "unat dest < 2 ^ 64" by (rule less_le_trans [OF unsigned_less]) simp
    ultimately have "unat (dynamic_text_start nap + (ucast ?off + ucast (?o AND 0xffff)) :: u64) = unat dest"
      using unat_add_nowrap [of "dynamic_text_start nap" "ucast ?off + ucast (?o AND 0xffff)"] w(1) dest(1) by simp
    then have "dynamic_text_start nap + (ucast ?off + ucast (?o AND 0xffff)) = (ucast dest :: u64)"
      by (simp add: word_eq_unat unat_ucast_64)
    moreover have "?a = (dynamic_text_start nap + (ucast ?off + ucast (?o AND 0xffff))) + mem_start nap"
      by (simp only: add.assoc add.commute add.left_commute)
    ultimately have "?a = ucast dest + mem_start nap" by (simp only:)
    moreover have "unat ?o + unat sz \<le> nat_round_up 16 (unat ?o + unat sz)" by (rule nat_round_up_ge)
    ultimately show ?thesis using r(2) k False w(1) by auto
  qed
qed

section \<open>Creating code\<close>

text \<open>The validator works in place.\<close>

definition keeps_length :: "text_env \<Rightarrow> bool" where
  "keeps_length env \<longleftrightarrow>
     (\<forall>g data stub flags ro meta cache. length (snd (e_Validate env g data stub flags ro meta cache)) = length data)"

lemma validated_length:
  assumes "keeps_length env" "NaClValidateCode env nap g data meta = (status, data1)"
  shows "length data1 = length data"
proof -
  have k: "e_Validate env g' d' s' f' r' m' c' = (st, out) \<Longrightarrow> length out = length d'" for g' d' s' f' r' m' c' st out
    using assms(1) unfolding keeps_length_def by (metis snd_conv)
  show ?thesis using assms(2) unfolding NaClValidateCode_def Let_def
    by (auto dest!: k split: prod.splits if_splits)
qed

lemma create_mem: "NaClDynamicRegionCreate mem t a n m = Inr x \<Longrightarrow> NaClDynamicRegionCreate True t a n m = Inr x"
  unfolding NaClDynamicRegionCreate_def Let_def by (auto split: if_splits)

lemma text_page_in_area:
  assumes area: "text_area_ok nap" and p: "text_page nap x < k" "unat (dynamic_text_start nap) + k * 65536 \<le> 2 ^ 32"
  shows "unat (mem_start nap) + unat (dynamic_text_start nap) \<le> unat x
    \<and> unat x < unat (mem_start nap) + unat (dynamic_text_start nap) + k * 65536"
proof -
  let ?b = "mem_start nap + dynamic_text_start nap"
  have sp: "space_ok nap" and ts: "unat (dynamic_text_start nap) \<le> unat (addr_limit nap)"
    using area by (auto simp: text_area_ok_def)
  have b: "unat ?b = unat (mem_start nap) + unat (dynamic_text_start nap)"
    using unat_user_to_sys [OF sp ts] by (simp add: add.commute)
  have y: "unat (x - ?b) < k * 65536" using p(1) by (simp add: text_page_def div_less_iff_less_mult)
  have "unat (mem_start nap) \<le> 2 ^ 47" using space_top [OF sp] by simp
  then have "unat ((x - ?b) + ?b) = unat (x - ?b) + unat ?b"
    using y b p(2) by (intro unat_add_nowrap) simp
  then show ?thesis using y b by simp
qed

lemma create_bound:
  fixes dest sz :: u32
  assumes area: "text_area_ok nap" and nw: "unat dest + unat sz < 2 ^ 32"
    and b: "\<not> ucast (dest + sz) > dynamic_text_end nap - NACL_HALT_SLED_SIZE"
  shows "unat dest + unat sz + 32 \<le> unat (dynamic_text_end nap)"
proof -
  have "65536 \<le> unat (dynamic_text_end nap)" using area by (auto simp: text_area_ok_def dvd_imp_le)
  then have "unat (dynamic_text_end nap - 32) = unat (dynamic_text_end nap) - 32"
    by (intro trans [OF unat_sub_nowrap]) simp_all
  moreover have "unat (ucast (dest + sz) :: u64) = unat dest + unat sz"
    using nw by (simp add: unat_ucast_64 unat_add_nowrap)
  ultimately show ?thesis using b \<open>65536 \<le> _\<close> by (simp add: NACL_HALT_SLED_SIZE_def word_nat not_less)
qed

definition new_region :: "u64 \<Rightarrow> u32 \<Rightarrow> dyn_region" where
  "new_region a sz = \<lparr>dr_start = a, dr_size = ucast sz, dr_delete_generation = - 1, dr_is_mmap = False\<rparr>"

lemma TextDyncodeCreate_ok:
  assumes area: "text_area_ok nap" and ok: "regions_ok (dyn_regs nap)" "cache_ok nap"
    and env: "shm_limit env" "keeps_length env"
    and sz: "sz \<noteq> 0" "length code = unat sz" "unat dest + unat sz < 2 ^ 32"
    and strict: "\<not> skip_validator nap" "\<not> ignore_validator_result nap"
    and res: "NaClTextDyncodeCreate env nap dest code sz meta = Inr (0, nap')"
  defines "a \<equiv> ucast dest + mem_start nap"
  shows "\<exists>code1. NaClValidateCode env nap (ucast dest) code meta = (LOAD_OK, code1)
    \<and> unat (dynamic_text_start nap) \<le> unat dest \<and> unat dest + unat sz + 32 \<le> unat (dynamic_text_end nap)
    \<and> read_bytes a (unat sz) (fa_mem nap') = code1
    \<and> (\<forall>r \<in> set (regions (dyn_regs nap)). \<not> meets (unat a) (unat a + unat sz) r)
    \<and> set (regions (dyn_regs nap')) = insert (new_region a sz) (set (regions (dyn_regs nap)))
    \<and> (\<forall>x. fa_mem nap' x \<noteq> fa_mem nap x \<longrightarrow>
         unat a \<le> unat x \<and> unat x < unat a + unat sz
         \<or> text_page nap x \<in> range_pages nap dest sz \<and> \<not> shown nap (text_page nap x))
    \<and> (\<forall>k \<in> range_pages nap dest sz. shown nap' k)
    \<and> regions_ok (dyn_regs nap') \<and> cache_ok nap'"
proof -
  let ?d = "NaClUserToSysAddrRange nap (ucast dest) (ucast sz)"
  have sp: "space_ok nap" and bs: "bundle_size nap = 32" using area by (simp_all add: text_area_ok_def)
  have pre: "text_shm nap" "dest AND 31 = 0" "sz AND 31 = 0" "?d \<noteq> kNaClBadAddress"
    "\<not> ucast dest < dynamic_text_start nap" "\<not> ucast (dest + sz) > dynamic_text_end nap - NACL_HALT_SLED_SIZE"
    using res sz(1) bs unfolding NaClTextDyncodeCreate_def Let_def
    by (auto simp: NACL_ABI_EINVAL_def NACL_ABI_EFAULT_def split: if_splits)
  have s32: "scast (32 :: u32) = (32 :: u64)" by simp
  obtain st code1 where v: "NaClValidateCode env nap (ucast dest) code meta = (st, code1)" by fastforce
  have rest: "(if st \<noteq> LOAD_OK then Inr (- NACL_ABI_EINVAL, nap)
      else ebind (NaClDynamicRegionCreate (e_mem env) (dyn_regs nap) ?d (ucast sz) False) (\<lambda>(made, rs).
        let nap1 = nap\<lparr>dyn_regs := rs\<rparr>
        in if \<not> made then Inr (- NACL_ABI_EINVAL, nap1)
           else ebind (NaClTextMapWrapper env nap1 dest sz) (\<lambda>(mapped, nap2).
             case mapped of
               None \<Rightarrow> Inr (- NACL_ABI_ENOMEM, nap2)
             | Some mapped_addr \<Rightarrow>
                 ebind (CopyCodeSafelyInitial mapped_addr code1 (unat sz) 32 (fa_mem nap2)) (\<lambda>m.
                 ebind (NaClTextMapClearCacheIfNeeded env (nap2\<lparr>fa_mem := m\<rparr>) dest sz) (\<lambda>nap3.
                   Inr (0, nap3)))))) = Inr (0, nap')"
    using res pre sz(1) strict v unfolding NaClTextDyncodeCreate_def Let_def bs s32 by (simp del: ebind_eq_Inr)
  have st: "st = LOAD_OK" using rest by (auto simp: NACL_ABI_EINVAL_def split: if_splits)
  have da: "?d = a" using range_ok [OF sp refl pre(4)] by (simp add: a_def)
  have ts: "unat (dynamic_text_start nap) \<le> unat dest"
    using pre(5) by (simp add: word_nat unat_ucast_64 not_less)
  have te: "unat dest + unat sz + 32 \<le> unat (dynamic_text_end nap)" by (rule create_bound [OF area sz(3) pre(6)])
  have au: "unat a = unat dest + unat (mem_start nap)"
    using range_ok [OF sp refl pre(4)] unat_user_to_sys [OF sp, of "ucast dest"] by (simp add: a_def unat_ucast_64)
  have uz: "unat (ucast sz :: u64) = unat sz" by (rule unat_ucast_64)
  have top: "unat a + unat sz < 2 ^ 64" using user_range [OF sp refl pre(4)] da uz by simp
  obtain made rs where c: "NaClDynamicRegionCreate (e_mem env) (dyn_regs nap) ?d (ucast sz) False = Inr (made, rs)" and made
    using rest st by (auto simp: NACL_ABI_EINVAL_def Let_def split: if_splits)
  have pos: "0 < unat (ucast sz :: u64)" using sz(1) uz by (simp add: unat_gt_0)
  from Create_ok [OF ok(1) pos, of a False] create_mem [OF c] da uz top \<open>made\<close>
  have cr: "regions_ok rs" "\<forall>r \<in> set (regions (dyn_regs nap)). \<not> meets (unat a) (unat a + unat sz) r"
    "set (regions rs) = insert (new_region a sz) (set (regions (dyn_regs nap)))"
    by (auto simp: new_region_def)
  let ?nap1 = "nap\<lparr>dyn_regs := rs\<rparr>"
  have area1: "text_area_ok ?nap1" "cache_ok ?nap1" "range_pages ?nap1 dest sz = range_pages nap dest sz"
    "shown ?nap1 = shown nap" "text_page ?nap1 = text_page nap"
    using area ok(2) by (simp_all add: text_area_ok_def space_ok_def addr_limit_def cache_ok_def shown_def range_pages_def
        text_page_def fun_eq_iff)
  obtain mapped nap2 where w: "NaClTextMapWrapper env ?nap1 dest sz = Inr (mapped, nap2)"
    using rest st c \<open>made\<close> by (auto simp: Let_def)
  obtain b where b: "mapped = Some b" using rest st c \<open>made\<close> w
    by (cases mapped) (auto simp: Let_def NACL_ABI_ENOMEM_def)
  have wo: "cache_ok nap2" "mapped = Some a" "shows_pages (range_pages nap dest sz) ?nap1 nap2"
    using wrapper_ok [OF area1(1) _ _ sz(1) area1(2) env(1) w [unfolded b]] ts sz(3) area1(3) b by (simp_all add: a_def)
  have len: "length code1 = unat sz" using validated_length [OF env(2) v] sz(2) by simp
  have d32: "32 dvd unat dest" "32 dvd unat sz"
    using pre(2,3) unat_and_mask [of dest 5] unat_and_mask [of sz 5]
    by (simp_all add: mask_eq_exp_minus_1 dvd_eq_mod_eq_0)
  have "32 dvd unat (mem_start nap)" using sp by (auto simp: space_ok_def intro: dvd_trans [of 32 "2 ^ 32"])
  then have "32 dvd unat a" unfolding au using d32(1) by (rule dvd_add [rotated])
  then have cp: "CopyCodeSafelyInitial a code1 (unat sz) 32 (fa_mem nap2) = Inr (write_bytes a code1 (fa_mem nap2))"
    by (rule copy_code [OF _ len d32(2)]) (use top in simp)
  let ?nap2 = "nap2\<lparr>fa_mem := write_bytes a code1 (fa_mem nap2)\<rparr>"
  have cl: "NaClTextMapClearCacheIfNeeded env ?nap2 dest sz = Inr nap'"
    using rest st c \<open>made\<close> w wo(2) cp by (auto simp: Let_def)
  have c2: "cache_ok ?nap2" using wo(1) by (simp add: cache_ok_def shown_def)
  have fin: "cache_ok nap'" "fa_mem nap' = write_bytes a code1 (fa_mem nap2)" "dyn_regs nap' = rs" "shown nap' = shown nap2"
    using clear_cache_ok [OF c2 cl] clear_cache_mem [OF cl] clear_cache_frame [OF cl] wo(3)
    by (auto simp: shows_pages_def text_frame_def shown_def fun_eq_iff)
  have "read_bytes a (unat sz) (fa_mem nap') = code1" unfolding fin(2)
    using read_write_same [of code1 a "fa_mem nap2"] len top by simp
  moreover have "unat a \<le> unat x \<and> unat x < unat a + unat sz
      \<or> text_page nap x \<in> range_pages nap dest sz \<and> \<not> shown nap (text_page nap x)" if "fa_mem nap' x \<noteq> fa_mem nap x" for x
  proof (cases "fa_mem nap2 x = fa_mem nap x")
    case True
    then have "fa_mem nap' x \<noteq> fa_mem nap2 x" using that by simp
    then have "\<not> (unat x < unat a \<or> unat a + length code1 \<le> unat x)"
      using write_bytes_other [of a code1 x "fa_mem nap2"] top len unfolding fin(2) by auto
    then show ?thesis using len by auto
  next
    case False
    then show ?thesis using wo(3) area1(4,5) by (auto simp: shows_pages_def)
  qed
  moreover have "\<forall>k \<in> range_pages nap dest sz. shown nap' k" using wo(3) fin(4) by (auto simp: shows_pages_def)
  ultimately show ?thesis using v st ts te cr fin(1,3) by auto
qed

section \<open>A target that ends with the address space\<close>

lemma cached_refused:
  assumes "cache_ok nap" "shm_limit env" "sz \<noteq> 0" "2 ^ 31 \<le> unat off + unat sz"
  shows "\<exists>nap1. CachedMapWritableText env nap off sz = Inr (0, nap1) \<and> text_frame nap nap1"
proof -
  have "\<not> (off = mapcache_offset nap \<and> sz = mapcache_size nap)" using assms by (auto simp: cache_ok_def)
  moreover have "NaClPtrIsNegErrno (e_shm_map env sz off)" using assms(2,4) by (simp add: shm_limit_def)
  ultimately show ?thesis using assms(3)
    by (simp add: CachedMapWritableText_def word_neq_0_conv Let_def)
qed

lemma create_wraps:
  assumes area: "text_area_ok nap" and bits: "addr_bits nap = 32" and ok: "regions_ok (dyn_regs nap)" "cache_ok nap"
    and env: "shm_limit env" "e_mem env" and shm: "text_shm nap"
    and d: "unat dest + unat sz = 2 ^ 32" "dest AND 31 = 0" "sz AND 31 = 0" "sz \<noteq> 0"
      "unat (dynamic_text_end nap) \<le> unat dest"
    and v: "NaClValidateCode env nap (ucast dest) code meta = (LOAD_OK, code1)"
    and below: "\<forall>r \<in> set (regions (dyn_regs nap)). dr_hi r \<le> unat (mem_start nap) + unat (dynamic_text_end nap)"
  shows "\<exists>nap'. NaClTextDyncodeCreate env nap dest code sz meta = Inr (- NACL_ABI_ENOMEM, nap')
    \<and> set (regions (dyn_regs nap')) = insert (new_region (ucast dest + mem_start nap) sz) (set (regions (dyn_regs nap)))"
proof -
  let ?a = "ucast dest + mem_start nap"
  have sp: "space_ok nap" and bs: "bundle_size nap = 32"
    and ts: "0 < unat (dynamic_text_start nap)" "unat (dynamic_text_start nap) < unat (dynamic_text_end nap)"
      "unat (dynamic_text_end nap) \<le> 2 ^ 31"
    using area by (simp_all add: text_area_ok_def)
  have lim: "unat (addr_limit nap) = 2 ^ 32" using unat_addr_limit [OF sp] bits by simp
  have s: "unat (ucast dest + ucast sz :: u64) = 2 ^ 32"
    using d(1) unat_add_nowrap [of "ucast dest :: u64" "ucast sz"] by (simp add: unat_ucast_64)
  have d0: "dest \<noteq> 0" using d(5) ts(2) by auto
  have u: "NaClUserToSysAddrRange nap (ucast dest) (ucast sz) = ?a"
  proof -
    have "(ucast dest :: u64) \<noteq> 0" using d0 unat_ucast_64 [of dest] by (auto simp: unat_eq_0 [symmetric] simp del: unat_eq_0)
    moreover have "unat dest \<le> 2 ^ 32" using d(1) by simp
    ultimately show ?thesis using s lim unfolding NaClUserToSysAddrRange_def Let_def
      by (simp add: word_nat unat_ucast_64)
  qed
  have au: "unat ?a = unat dest + unat (mem_start nap)"
    using unat_user_to_sys [OF sp, of "ucast dest"] lim d(1) by (simp add: unat_ucast_64)
  have ms: "unat (mem_start nap) + 2 ^ 32 \<le> 2 ^ 47" using space_top [OF sp] lim by simp
  have "unat (- 1 :: u64) = 2 ^ 64 - 1" by (simp add: unsigned_minus_1_eq_mask mask_eq_exp_minus_1)
  then have "unat ?a \<noteq> unat kNaClBadAddress" using au ms d(1) by (simp add: kNaClBadAddress_def)
  then have nb: "kNaClBadAddress \<noteq> ?a" by auto
  have "dest + sz = 0"
  proof -
    have "of_nat (unat dest + unat sz) = dest + sz" by simp
    then show ?thesis using d(1) by simp
  qed
  then have wrap: "dest + sz = 0" .
  have ge: "\<not> ucast dest < dynamic_text_start nap" using d(5) ts(2) by (simp add: word_nat unat_ucast_64)
  have free: "\<forall>r \<in> set (regions (dyn_regs nap)). \<not> meets (unat ?a) (unat ?a + unat (ucast sz :: u64)) r"
    using below d(5) au by (auto simp: meets_def)
  have pos: "0 < unat (ucast sz :: u64)" "unat ?a + unat (ucast sz :: u64) < 2 ^ 64"
    using d(1,4) au ms by (auto simp: unat_ucast_64 unat_gt_0)
  obtain rs where c: "NaClDynamicRegionCreate True (dyn_regs nap) ?a (ucast sz) False = Inr (True, rs)"
    "set (regions rs) = insert (new_region ?a sz) (set (regions (dyn_regs nap)))"
    using Create_ok [OF ok(1) pos, of False] free by (auto simp: new_region_def)
  let ?nap1 = "nap\<lparr>dyn_regs := rs\<rparr>"
  have area1: "text_area_ok ?nap1" "cache_ok ?nap1"
    using area ok(2) by (simp_all add: text_area_ok_def space_ok_def addr_limit_def cache_ok_def shown_def)
  have dts: "unat (dynamic_text_start ?nap1) \<le> unat dest" using d(5) ts(2) by simp
  note w = wrapper_offsets [OF area1(1) dts _ d(4)]
  let ?o = "dest - ucast (dynamic_text_start ?nap1)"
  have "unat ?o + unat sz \<le> nat_round_up 16 (unat ?o + unat sz)" by (rule nat_round_up_ge)
  then have big: "2 ^ 31 \<le> unat (?o AND NOT 0xffff) + unat (((?o + sz + 0x10000 - 1) AND NOT 0xffff) - (?o AND NOT 0xffff))"
    using w(1,5) d(1) ts dts by simp
  obtain nap2 where "CachedMapWritableText env ?nap1 (?o AND NOT 0xffff)
      (((?o + sz + 0x10000 - 1) AND NOT 0xffff) - (?o AND NOT 0xffff)) = Inr (0, nap2)" "text_frame ?nap1 nap2"
    using cached_refused [OF area1(2) env(1) w(6) big] d(1) by auto
  then have m: "NaClTextMapWrapper env ?nap1 dest sz = Inr (None, nap2)" "dyn_regs nap2 = rs"
    unfolding NaClTextMapWrapper_def Let_def by (simp_all add: text_frame_def)
  have "NaClTextDyncodeCreate env nap dest code sz meta = Inr (- NACL_ABI_ENOMEM, nap2)"
    unfolding NaClTextDyncodeCreate_def Let_def u
    using shm d(2-4) bs nb ge wrap v c(1) env(2) m(1) by (simp add: LOAD_OK_def)
  then show ?thesis using c(2) m(2) by simp
qed

end
