(* ===== verification/DynCodeClaims.thy ===== *)
theory DynCodeClaims
  imports DynCodeCreate
begin

text \<open>The properties of code loaded at run time.\<close>

section \<open>An example state\<close>

text \<open>
  Threads 5 and 6 run; the text area takes two allocation pages, none of them visible. The
  validator accepts everything, mapping and allocation succeed below \<open>2 ^ 31\<close>.
\<close>

definition demo_env :: text_env where
  "demo_env = \<lparr>e_code_replacement = True, e_Validate = (\<lambda>g d s f r m c. (NaClValidationSucceeded, d)),
     e_CopyCode = (\<lambda>g old new. (NaClValidationSucceeded, new)),
     e_ValidateCodeReplacement = (\<lambda>g old new. NaClValidationSucceeded),
     e_shm_map = (\<lambda>sz off. if 2 ^ 31 \<le> unat off + unat sz then - 12 else 0x700000000000),
     e_mprotect = (\<lambda>a n. True), e_mem = True\<rparr>"

definition demo_code :: "unit code_app" where
  "demo_code = \<lparr>addr_bits = 32, mem_start = 0x100000000, bundle_size = 32, static_text_end = 0x20000,
     dynamic_text_start = 0x20000, dynamic_text_end = 0x40000,
     desc_tbl = \<lparr>num_entries = 0, ptr_array = [None], ptr_array_space = 1, available = [0], avail_ix = 0\<rparr>,
     nd_refs = (\<lambda>_. None),
     thread_tbl = \<lparr>num_entries = 2, ptr_array = [Some 5, Some 6], ptr_array_space = 2, available = [3], avail_ix = 0\<rparr>,
     n_threads = 2, mem_io_regions = RLeaf, fa_mem = (\<lambda>_. 0), access_faults = (\<lambda>_ _ _. False), host = (),
     dyn_regs = \<lparr>regions = [], regions_allocated = 0\<rparr>, dynamic_page_bitmap = [0],
     mapcache_offset = 0, mapcache_size = 0, mapcache_ret = 0, text_shm = True,
     delete_generation = 0, natp_generation = (\<lambda>_. 0), enable_dyncode_syscalls = True,
     skip_validator = False, ignore_validator_result = False, validator_stub_out_mode = False,
     pnacl_mode = False, requests = []\<rparr>"

text \<open>The same with a region whose deletion has been requested as the first; thread 6 has checked in.\<close>

definition demo_region :: dyn_region where
  "demo_region = \<lparr>dr_start = 0x100020000, dr_size = 32, dr_delete_generation = 1, dr_is_mmap = False\<rparr>"

definition demo_deleting :: "unit code_app" where
  "demo_deleting = demo_code\<lparr>dyn_regs := \<lparr>regions = [demo_region], regions_allocated = 32\<rparr>,
     delete_generation := 1, natp_generation := (\<lambda>_. 0)(6 := 1)\<rparr>"

lemma demo_env_ok: "shm_limit demo_env" "keeps_length demo_env" "e_mem demo_env"
  by (simp_all add: demo_env_def shm_limit_def keeps_length_def NaClPtrIsNegErrno_def)

lemma demo_area: "text_area_ok demo_code" "space_ok demo_code" "space_ok demo_deleting"
  by (simp_all add: text_area_ok_def space_ok_def addr_limit_def demo_code_def demo_deleting_def)

lemma demo_regs: "regions_ok (dyn_regs demo_code)" "regions_ok (dyn_regs demo_deleting)" "cache_ok demo_code"
  by (simp_all add: regions_ok_def cache_ok_def demo_code_def demo_deleting_def demo_region_def region_ok_def dr_hi_def)

section \<open>Creating code\<close>

text \<open>C33: When \<open>NaClTextDyncodeCreate\<close> returns zero for a nonempty range that does not wrap, the
  validator has accepted exactly the bytes that are now at the target; the target lies in the text area, before
  the final halts, and was free; the region is entered beside the ones there were. No byte of a
  page that was visible before has changed outside the target, so code loaded earlier is intact, and
  every page of the target is now visible.\<close>
theorem dyncode_create_installs:
  assumes "text_area_ok nap" "regions_ok (dyn_regs nap)" "cache_ok nap" "shm_limit env" "keeps_length env"
    and "sz \<noteq> 0" "length code = unat sz" "unat dest + unat sz < 2 ^ 32"
    and "\<not> skip_validator nap" "\<not> ignore_validator_result nap"
    and "NaClTextDyncodeCreate env nap dest code sz meta = Inr (0, nap')"
    and "a = ucast dest + mem_start nap"
  shows "NaClValidateCode env nap (ucast dest) code meta = (LOAD_OK, read_bytes a (unat sz) (fa_mem nap'))
    \<and> unat (dynamic_text_start nap) \<le> unat dest \<and> unat dest + unat sz + 32 \<le> unat (dynamic_text_end nap)
    \<and> (\<forall>r \<in> set (regions (dyn_regs nap)). \<not> meets (unat a) (unat a + unat sz) r)
    \<and> set (regions (dyn_regs nap')) = insert (new_region a sz) (set (regions (dyn_regs nap)))
    \<and> (\<forall>x. shown nap (text_page nap x) \<and> \<not> (unat a \<le> unat x \<and> unat x < unat a + unat sz)
          \<longrightarrow> fa_mem nap' x = fa_mem nap x)
    \<and> (\<forall>k \<in> range_pages nap dest sz. shown nap' k)"
  using TextDyncodeCreate_ok [OF assms(1-11)] unfolding assms(12) by blast

lemma demo_wrapper:
  "\<exists>nap2. NaClTextMapWrapper demo_env (demo_code\<lparr>dyn_regs := rs\<rparr>) 0x20000 32 = Inr (Some 0x100020000, nap2)"
proof -
  let ?nap = "demo_code\<lparr>dyn_regs := rs, requests := [Text_Map 0 0x10000 prot_read_write 1 0]\<rparr>"
  have e: "run_end [0] 0 1 = 1"
    by (subst run_end.simps, subst run_end.simps) (simp add: BitmapIsBitSet_def)
  have "\<exists>nap1. MakeDynamicCodePagesVisible demo_env ?nap 0 1 = Inr nap1"
    by (simp add: MakeDynamicCodePagesVisible_def BitmapIsBitSet_def demo_code_def demo_env_def NaClUserToSys_def
        addr_limit_def text_page_addr_def Let_def NACL_MAP_PAGESIZE_def)
  then obtain nap1 where "MakeDynamicCodePagesVisible demo_env ?nap 0 1 = Inr nap1" by blast
  moreover have "dynamic_page_bitmap ?nap = [0]" by (simp add: demo_code_def)
  ultimately have sp: "show_pages demo_env ?nap 0 1 = Inr nap1"
    by (subst show_pages.simps, simp add: e [unfolded One_nat_def] Let_def, subst show_pages.simps, simp)
  have d: "drop_mapcache (demo_code\<lparr>dyn_regs := rs\<rparr>) = demo_code\<lparr>dyn_regs := rs\<rparr>" "requests demo_code = []"
    "mapcache_size demo_code = 0" by (simp_all add: drop_mapcache_def demo_code_def)
  have m: "e_shm_map demo_env 0x10000 0 = 0x700000000000" "\<not> NaClPtrIsNegErrno 0x700000000000"
    by (simp_all add: demo_env_def NaClPtrIsNegErrno_def)
  have "CachedMapWritableText demo_env (demo_code\<lparr>dyn_regs := rs\<rparr>) 0 0x10000 = Inr (0x700000000000, nap1\<lparr>mapcache_offset := 0,
      mapcache_size := 0x10000, mapcache_ret := 0x700000000000\<rparr>)"
    using sp by (simp add: CachedMapWritableText_def d m Let_def)
  then show ?thesis by (simp add: NaClTextMapWrapper_def demo_code_def)
qed

lemma demo_create:
  "\<exists>nap'. NaClTextDyncodeCreate demo_env demo_code 0x20000 (replicate 32 0x90) 32 None = Inr (0, nap')"
proof -
  have r: "\<exists>rs. NaClDynamicRegionCreate True (dyn_regs demo_code) 0x100020000 32 False = Inr (True, rs)"
    by (simp add: NaClDynamicRegionCreate_def demo_code_def NaClDynamicRegionFindClosestLEQ_def Let_def)
  then obtain rs where r: "NaClDynamicRegionCreate True (dyn_regs demo_code) 0x100020000 32 False = Inr (True, rs)" ..
  obtain nap2 where w: "NaClTextMapWrapper demo_env (demo_code\<lparr>dyn_regs := rs\<rparr>) 0x20000 32 = Inr (Some 0x100020000, nap2)"
    using demo_wrapper by blast
  have v: "NaClValidateCode demo_env demo_code 0x20000 (replicate 32 0x90) None = (LOAD_OK, replicate 32 0x90)"
    by (simp add: NaClValidateCode_def demo_env_def demo_code_def NaClValidateStatus_def)
  have c: "CopyCodeSafelyInitial 0x100020000 (replicate 32 0x90) 32 32 m = Inr (write_bytes 0x100020000 (replicate 32 0x90) m)" for m
    by (rule copy_code) simp_all
  have u: "NaClUserToSysAddrRange demo_code 0x20000 32 = 0x100020000" "kNaClBadAddress \<noteq> 0x100020000"
    by (simp_all add: NaClUserToSysAddrRange_def addr_limit_def demo_code_def kNaClBadAddress_def)
  have f: "text_shm demo_code" "bundle_size demo_code = 32" "dynamic_text_start demo_code = 0x20000"
    "dynamic_text_end demo_code = 0x40000" "\<not> skip_validator demo_code" "e_mem demo_env"
    by (simp_all add: demo_code_def demo_env_def)
  have cl: "\<exists>nap3. NaClTextMapClearCacheIfNeeded demo_env (nap2\<lparr>fa_mem := m\<rparr>) 0x20000 32 = Inr nap3" for m
    using wrapper_frame [OF w] f(3) by (simp add: NaClTextMapClearCacheIfNeeded_def text_frame_def)
  then show ?thesis
    by (simp add: NaClTextDyncodeCreate_def u f v r w c NACL_HALT_SLED_SIZE_def LOAD_OK_def Let_def)
qed

theorem dyncode_create_installs_witness:
  "\<exists>nap'. NaClTextDyncodeCreate demo_env demo_code 0x20000 (replicate 32 0x90) 32 None = Inr (0, nap')
    \<and> NaClValidateCode demo_env demo_code 0x20000 (replicate 32 0x90) None
        = (LOAD_OK, read_bytes 0x100020000 32 (fa_mem nap'))
    \<and> set (regions (dyn_regs nap')) = {new_region 0x100020000 32}"
proof -
  obtain nap' where n: "NaClTextDyncodeCreate demo_env demo_code 0x20000 (replicate 32 0x90) 32 None = Inr (0, nap')"
    using demo_create by blast
  have "(0x100020000 :: u64) = ucast (0x20000 :: u32) + mem_start demo_code" by (simp add: demo_code_def)
  from dyncode_create_installs [OF demo_area(1) demo_regs(1,3) demo_env_ok(1,2) _ _ _ _ _ n this] n
  show ?thesis by (simp add: demo_code_def)
qed

section \<open>Deleting code\<close>

text \<open>C34: Memory of a region is given up only when no thread can still be in it: when
  \<open>NaClSysDyncodeDelete\<close> returns zero, every thread in the table has checked in at or after the generation in
  which the deletion was requested, and exactly the region named by the arguments leaves the
  table. With any other result the table keeps every region, so its memory is not reused.\<close>
theorem dyncode_delete_quiescent:
  assumes "space_ok nap" "regions_ok (dyn_regs nap)" "sz \<noteq> 0"
    and "num_entries (thread_tbl nap) \<le> 2 ^ 31" "delete_generation nap < 2 ^ 31"
    and "\<forall>r \<in> set (regions (dyn_regs nap)). dr_delete_generation r \<le> delete_generation nap"
    and "NaClSysDyncodeDelete env nap natp dest sz = Inr (rc, nap')"
  shows "if rc = 0
    then \<exists>r \<in> set (regions (dyn_regs nap)). region_key r = (NaClUserToSysAddrRange nap (ucast dest) (ucast sz), ucast sz, False)
      \<and> region_key ` set (regions (dyn_regs nap')) = region_key ` set (regions (dyn_regs nap)) - {region_key r}
      \<and> (\<forall>t. listed nap' t \<longrightarrow> due_generation nap r \<le> natp_generation nap' t)
    else map region_key (regions (dyn_regs nap')) = map region_key (regions (dyn_regs nap))"
  by (rule Delete_steps [OF assms])

lemma demo_listed: "\<forall>t. listed demo_deleting t \<and> t \<noteq> 5 \<longrightarrow> dr_delete_generation demo_region \<le> natp_generation demo_deleting t"
  by (auto simp: listed_def demo_deleting_def demo_code_def DynArrayGet_def demo_region_def less_Suc_eq numeral_2_eq_2)

lemma demo_deleting_facts:
  "enable_dyncode_syscalls demo_deleting" "text_shm demo_deleting" "demo_region \<in> set (regions (dyn_regs demo_deleting))"
  "region_key demo_region = (NaClUserToSysAddrRange demo_deleting (ucast (0x20000 :: u32)) (ucast (32 :: u32)), ucast (32 :: u32), False)"
  "NaClUserToSysAddrRange demo_deleting (ucast (0x20000 :: u32)) (ucast (32 :: u32)) \<noteq> kNaClBadAddress"
  "num_entries (thread_tbl demo_deleting) \<le> 2 ^ 31" "natp_generation demo_deleting 5 \<le> delete_generation demo_deleting"
  "0 \<le> dr_delete_generation demo_region" "dr_delete_generation demo_region \<le> delete_generation demo_deleting"
  "delete_generation demo_deleting < 2 ^ 31"
  by (simp_all add: demo_deleting_def demo_code_def demo_region_def region_key_def NaClUserToSysAddrRange_def addr_limit_def
      kNaClBadAddress_def)

lemma demo_delete: "\<exists>nap'. NaClSysDyncodeDelete demo_env demo_deleting 5 0x20000 32 = Inr (0, nap')"
  using Delete_completes [OF demo_area(3) demo_regs(2) _ demo_deleting_facts(1,2) demo_env_ok(3)
      demo_deleting_facts(3-10) demo_listed] by auto

theorem dyncode_delete_quiescent_witness:
  "\<exists>nap'. NaClSysDyncodeDelete demo_env demo_deleting 5 0x20000 32 = Inr (0, nap')
    \<and> (\<forall>t. listed nap' t \<longrightarrow> 1 \<le> natp_generation nap' t)"
proof -
  obtain nap' where n: "NaClSysDyncodeDelete demo_env demo_deleting 5 0x20000 32 = Inr (0, nap')" using demo_delete by blast
  have "num_entries (thread_tbl demo_deleting) \<le> 2 ^ 31" "delete_generation demo_deleting < 2 ^ 31"
    "\<forall>r \<in> set (regions (dyn_regs demo_deleting)). dr_delete_generation r \<le> delete_generation demo_deleting"
    by (simp_all add: demo_deleting_def demo_code_def demo_region_def)
  from dyncode_delete_quiescent [OF demo_area(3) demo_regs(2) _ this n] n show ?thesis
    by (auto simp: due_generation_def demo_deleting_def demo_region_def)
qed

text \<open>C35: A requested deletion does not hang: once every other thread has checked in, the next call of
  \<open>NaClSysDyncodeDelete\<close> for the region returns zero and the region is gone.\<close>
theorem dyncode_delete_completes:
  assumes "space_ok nap" "regions_ok (dyn_regs nap)" "sz \<noteq> 0"
    and "enable_dyncode_syscalls nap" "text_shm nap" "e_mem env"
    and "r \<in> set (regions (dyn_regs nap))"
      "region_key r = (NaClUserToSysAddrRange nap (ucast dest) (ucast sz), ucast sz, False)"
      "NaClUserToSysAddrRange nap (ucast dest) (ucast sz) \<noteq> kNaClBadAddress"
    and "num_entries (thread_tbl nap) \<le> 2 ^ 31" "natp_generation nap natp \<le> delete_generation nap"
      "0 \<le> dr_delete_generation r" "dr_delete_generation r \<le> delete_generation nap" "delete_generation nap < 2 ^ 31"
    and "\<forall>t. listed nap t \<and> t \<noteq> natp \<longrightarrow> dr_delete_generation r \<le> natp_generation nap t"
  shows "\<exists>nap'. NaClSysDyncodeDelete env nap natp dest sz = Inr (0, nap')
    \<and> region_key ` set (regions (dyn_regs nap')) = region_key ` set (regions (dyn_regs nap)) - {region_key r}"
  by (rule Delete_completes [OF assms])

theorem dyncode_delete_completes_witness:
  "\<exists>nap'. NaClSysDyncodeDelete demo_env demo_deleting 5 0x20000 32 = Inr (0, nap')
    \<and> region_key ` set (regions (dyn_regs nap')) = {}"
proof -
  have "set (regions (dyn_regs demo_deleting)) = {demo_region}" by (simp add: demo_deleting_def)
  then show ?thesis
    using dyncode_delete_completes [OF demo_area(3) demo_regs(2) _ demo_deleting_facts(1,2) demo_env_ok(3)
        demo_deleting_facts(3-10) demo_listed] by auto
qed

section \<open>The end of the address space\<close>

text \<open>C36: The bound on the target is checked on a 32-bit sum, which wraps for a target that ends with
  the address space: such a target passes although it lies outside the text area. The region is
  entered, the mapping of the text then fails, and the region stays in the table although the
  call reports \<open>ENOMEM\<close>.\<close>
theorem dyncode_create_wraps:
  assumes "text_area_ok nap" "addr_bits nap = 32" "regions_ok (dyn_regs nap)" "cache_ok nap" "shm_limit env" "e_mem env"
    and "text_shm nap" "unat dest + unat sz = 2 ^ 32" "dest AND 31 = 0" "sz AND 31 = 0" "sz \<noteq> 0"
    and "unat (dynamic_text_end nap) \<le> unat dest"
    and "NaClValidateCode env nap (ucast dest) code meta = (LOAD_OK, code1)"
    and "\<forall>r \<in> set (regions (dyn_regs nap)). dr_hi r \<le> unat (mem_start nap) + unat (dynamic_text_end nap)"
  shows "\<exists>nap'. NaClTextDyncodeCreate env nap dest code sz meta = Inr (- NACL_ABI_ENOMEM, nap')
    \<and> set (regions (dyn_regs nap')) = insert (new_region (ucast dest + mem_start nap) sz) (set (regions (dyn_regs nap)))"
  by (rule create_wraps [OF assms])

theorem dyncode_create_wraps_witness:
  "\<exists>nap'. NaClTextDyncodeCreate demo_env demo_code 0xffffffe0 (replicate 32 0x90) 32 None = Inr (- NACL_ABI_ENOMEM, nap')
    \<and> set (regions (dyn_regs nap')) = {new_region 0x1ffffffe0 32}"
proof -
  have f: "addr_bits demo_code = 32" "text_shm demo_code" "unat (0xffffffe0 :: u32) + unat (32 :: u32) = 2 ^ 32"
    "(0xffffffe0 :: u32) AND 31 = 0" "(32 :: u32) AND 31 = 0" "(32 :: u32) \<noteq> 0"
    "unat (dynamic_text_end demo_code) \<le> unat (0xffffffe0 :: u32)"
    "\<forall>r \<in> set (regions (dyn_regs demo_code)). dr_hi r \<le> unat (mem_start demo_code) + unat (dynamic_text_end demo_code)"
    by (simp_all add: demo_code_def)
  have v: "NaClValidateCode demo_env demo_code (ucast (0xffffffe0 :: u32)) (replicate 32 0x90) None = (LOAD_OK, replicate 32 0x90)"
    by (simp add: NaClValidateCode_def demo_env_def demo_code_def NaClValidateStatus_def)
  show ?thesis
    using dyncode_create_wraps [OF demo_area(1) f(1) demo_regs(1,3) demo_env_ok(1,3) f(2-7) v f(8)]
    by (simp add: demo_code_def)
qed

end
