(* ===== verification/HostMap.thy ===== *)
theory HostMap
  imports DynCodeCreate VmmapTop
begin

text \<open>
  Mapping memory of the host: \<open>NaClHostDescMap\<close> and what it needs
  (\<open>shared/platform/posix/nacl_host_desc.c\<close>, \<open>shared/platform/nacl_host_desc_common.c\<close>),
  \<open>NaClDescIoDescMap\<close> (\<open>desc/nacl_desc_io.c\<close>) and \<open>NaClMprotect\<close> (\<open>posix/sel_memory.c\<close>). The
  system calls \<open>mmap\<close>, \<open>mprotect\<close> and \<open>munmap\<close> are parameters; every use of them is recorded in
  \<open>requests\<close>, where \<open>DynCode\<close> records those for the dynamic text.
\<close>

section \<open>State\<close>

text \<open>The fields of \<open>struct NaClApp\<close> that the memory calls use beside those of the text.\<close>

record 'h mem_app = "'h code_app" +
  mem_map :: vmmap
  break_addr :: u64
  data_end :: u64

text \<open>
  The host and the descriptors as the memory calls see them. \<open>me_mmap\<close> and \<open>me_mprotect\<close> give
  \<open>errno\<close>, 0 for success; \<open>me_mmap\<close> gives the address, and both it and the method \<open>Map\<close> give the
  bytes of the mapping by their offset.
\<close>

record 'h mem_env =
  me_text :: text_env
  me_vt :: "'h desc_vtbl"
  me_mmap :: "u64 \<Rightarrow> u64 \<Rightarrow> u32 \<Rightarrow> u32 \<Rightarrow> int \<Rightarrow> u64 \<Rightarrow> 'h \<Rightarrow> int \<times> u64 \<times> (u64 \<Rightarrow> u8) \<times> 'h"
  me_mprotect :: "u64 \<Rightarrow> u64 \<Rightarrow> u32 \<Rightarrow> 'h \<Rightarrow> int \<times> 'h"
  me_munmap :: "u64 \<Rightarrow> u64 \<Rightarrow> 'h \<Rightarrow> int \<times> 'h"
  me_find_space :: "u64 \<Rightarrow> 'h \<Rightarrow> u64 option"
  me_Map :: "nat \<Rightarrow> u64 \<Rightarrow> u64 \<Rightarrow> u32 \<Rightarrow> u32 \<Rightarrow> u64 \<Rightarrow> 'h \<Rightarrow> u64 \<times> (u64 \<Rightarrow> u8) \<times> 'h"
  me_GetFlags :: "nat \<Rightarrow> u32"
  me_typeTag :: "nat \<Rightarrow> nat"
  me_metadata :: "nat \<Rightarrow> nat"

definition NACL_ABI_PROT_MASK :: u32 where "NACL_ABI_PROT_MASK = 7"
definition NACL_DESC_HOST_IO :: nat where "NACL_DESC_HOST_IO = 2"

text \<open>The memory of a mapping: \<open>n\<close> bytes from \<open>a\<close>, given by their offset.\<close>

definition put_region :: "u64 \<Rightarrow> u64 \<Rightarrow> (u64 \<Rightarrow> u8) \<Rightarrow> bytes \<Rightarrow> bytes" where
  "put_region a n f m = (\<lambda>x. if x - a < n then f (x - a) else m x)"

section \<open>Error numbers and flags\<close>

text \<open>
  On Linux the host's error numbers are the ones of the ABI. The list has the names of the
  switch that Linux defines, in its order: \<open>ELNRNG\<close> is guarded by a name that no host has.
\<close>

definition known_errnos :: "int list" where
  "known_errnos =
     [1, 2, 3, 4, 5, 6, 7, 8, 9, 10, 11, 12, 13, 14, 16, 17, 18, 19, 20, 21, 22, 23, 24, 25, 27,
      28, 29, 30, 31, 32, 36, 38, 122, 33, 34, 42, 44, 46, 47, 49, 50, 51, 35, 37, 52, 53, 54, 55,
      56, 57, 59, 60, 61, 62, 63, 64, 65, 66, 67, 68, 69, 70, 71, 72, 73, 74, 76, 77, 78, 79, 80,
      81, 82, 83, 39, 40, 95, 96, 104, 105, 97, 91, 88, 92, 108, 111, 98, 103, 101, 100, 110, 112,
      113, 115, 114, 89, 93, 94, 99, 102, 106, 107, 109, 87, 116, 123, 84, 75, 125, 45, 43, 90,
      130, 131]"

definition NaClXlateErrno :: "int \<Rightarrow> int" where
  "NaClXlateErrno errnum =
     (if errnum = 0 then 0 else if errnum \<in> set known_errnos then errnum else NACL_ABI_EINVAL)"

definition NaClProtMap :: "u32 \<Rightarrow> u32" where
  "NaClProtMap abi_prot =
     (if 0 \<noteq> abi_prot AND NACL_ABI_PROT_READ then 1 else 0)
     OR (if 0 \<noteq> abi_prot AND NACL_ABI_PROT_WRITE then 2 else 0)
     OR (if 0 \<noteq> abi_prot AND NACL_ABI_PROT_EXEC then 4 else 0)"

definition NaClMapFlagMap :: "u32 \<Rightarrow> u32" where
  "NaClMapFlagMap nacl_map_flags =
     (if 0 \<noteq> nacl_map_flags AND NACL_ABI_MAP_SHARED then 1 else 0)
     OR (if 0 \<noteq> nacl_map_flags AND NACL_ABI_MAP_PRIVATE then 2 else 0)
     OR (if 0 \<noteq> nacl_map_flags AND NACL_ABI_MAP_FIXED then 0x10 else 0)
     OR (if 0 \<noteq> nacl_map_flags AND NACL_ABI_MAP_ANONYMOUS then 0x20 else 0)"

section \<open>Calls of the host\<close>

text \<open>\<open>mmap\<close> takes effect on whole pages.\<close>

definition host_mmap ::
    "'h mem_env \<Rightarrow> u64 \<Rightarrow> u64 \<Rightarrow> u32 \<Rightarrow> u32 \<Rightarrow> int \<Rightarrow> u64 \<Rightarrow> 'h mem_app \<Rightarrow> int \<times> u64 \<times> 'h mem_app" where
  "host_mmap env start len prot flags fd offset nap =
     (let (e, addr, f, h) = me_mmap env start len prot flags fd offset (host nap);
          nap1 = nap\<lparr>host := h, requests := Host_mmap start len prot flags # requests nap\<rparr>
      in if e \<noteq> 0 then (e, addr, nap1)
         else (0, addr, nap1\<lparr>fa_mem := put_region addr (NaClRoundPage len) f (fa_mem nap1)\<rparr>))"

definition host_mprotect :: "'h mem_env \<Rightarrow> u64 \<Rightarrow> u64 \<Rightarrow> u32 \<Rightarrow> 'h mem_app \<Rightarrow> int \<times> 'h mem_app" where
  "host_mprotect env addr len prot nap =
     (let (e, h) = me_mprotect env addr len prot (host nap)
      in (e, nap\<lparr>host := h, requests := Host_mprotect addr len prot # requests nap\<rparr>))"

definition host_munmap :: "'h mem_env \<Rightarrow> u64 \<Rightarrow> u64 \<Rightarrow> 'h mem_app \<Rightarrow> int \<times> 'h mem_app" where
  "host_munmap env addr len nap =
     (let (e, h) = me_munmap env addr len (host nap)
      in (e, nap\<lparr>host := h, requests := Host_munmap addr len # requests nap\<rparr>))"

definition NaClMprotect :: "'h mem_env \<Rightarrow> u64 \<Rightarrow> u64 \<Rightarrow> u32 \<Rightarrow> 'h mem_app \<Rightarrow> int \<times> 'h mem_app" where
  "NaClMprotect env addr len prot nap =
     (let (e, nap1) = host_mprotect env addr len prot nap in (if e \<noteq> 0 then - e else 0, nap1))"

text \<open>
  \<open>d\<close> is the host's descriptor number; \<open>None\<close> is a null \<open>struct NaClHostDesc\<close>, \<open>- 1\<close> a closed one.
\<close>

definition NaClHostDescMap ::
    "'h mem_env \<Rightarrow> int option \<Rightarrow> u64 \<Rightarrow> u64 \<Rightarrow> u32 \<Rightarrow> u32 \<Rightarrow> u64 \<Rightarrow> 'h mem_app \<Rightarrow> (u64 \<times> 'h mem_app) exec" where
  "NaClHostDescMap env d start_addr len prot flags offset nap =
     (if d = None \<and> 0 = flags AND NACL_ABI_MAP_ANONYMOUS then Inl Log_fatal
      else if d = Some (- 1) then Inl Log_fatal
      else if (0 = flags AND NACL_ABI_MAP_SHARED) = (0 = flags AND NACL_ABI_MAP_PRIVATE) then Inl Log_fatal
      else let prot1 = prot AND NACL_ABI_PROT_MASK;
               desc = (if 0 \<noteq> flags AND NACL_ABI_MAP_ANONYMOUS then - 1 else the d);
               host_prot = NaClProtMap prot1;
               host_flags = NaClMapFlagMap flags;
               tmp_prot = host_prot AND NOT 4;
               need_exec = (0 \<noteq> 4 AND host_prot);
               (e, map_addr, nap1) = host_mmap env start_addr len tmp_prot host_flags desc offset nap;
               (e2, nap2) = (if need_exec \<and> e = 0 then host_mprotect env map_addr len host_prot nap1 else (0, nap1))
           in if e2 \<noteq> 0 then Inl Log_fatal
              else if e \<noteq> 0 then Inr (word_of_int (- NaClXlateErrno e), nap2)
              else if 0 \<noteq> flags AND NACL_ABI_MAP_FIXED \<and> map_addr \<noteq> start_addr then Inl Log_fatal
              else Inr (map_addr, nap2))"

definition NaClHostDescUnmapUnsafe :: "'h mem_env \<Rightarrow> u64 \<Rightarrow> u64 \<Rightarrow> 'h mem_app \<Rightarrow> 'h mem_app exec" where
  "NaClHostDescUnmapUnsafe env addr len nap =
     (let (e, nap1) = host_munmap env addr len nap in if e \<noteq> 0 then Inl Log_fatal else Inr nap1)"

definition NaClDescIoDescMap ::
    "'h mem_env \<Rightarrow> int option \<Rightarrow> u64 \<Rightarrow> u64 \<Rightarrow> u32 \<Rightarrow> u32 \<Rightarrow> u64 \<Rightarrow> 'h mem_app \<Rightarrow> (u64 \<times> 'h mem_app) exec" where
  "NaClDescIoDescMap env self start_addr len prot flags offset nap =
     (if 0 \<noteq> NOT NACL_ABI_PROT_MASK AND prot then Inr (word_of_int (- NACL_ABI_EINVAL), nap)
      else (case (if 0 = NACL_ABI_MAP_FIXED AND flags then me_find_space env len (host nap) else Some start_addr) of
              None \<Rightarrow> Inr (word_of_int (- NACL_ABI_ENOMEM), nap)
            | Some start \<Rightarrow> NaClHostDescMap env self start len prot (flags OR NACL_ABI_MAP_FIXED) offset nap))"

definition NaClDescIoDescMapAnon ::
    "'h mem_env \<Rightarrow> u64 \<Rightarrow> u64 \<Rightarrow> u32 \<Rightarrow> u32 \<Rightarrow> u64 \<Rightarrow> 'h mem_app \<Rightarrow> (u64 \<times> 'h mem_app) exec" where
  "NaClDescIoDescMapAnon env start_addr len prot flags offset nap =
     NaClDescIoDescMap env None start_addr len prot flags offset nap"

text \<open>The method \<open>Map\<close> of a descriptor. A result that is no error is the start of the mapping.\<close>

definition desc_map ::
    "'h mem_env \<Rightarrow> nat \<Rightarrow> u64 \<Rightarrow> u64 \<Rightarrow> u32 \<Rightarrow> u32 \<Rightarrow> u64 \<Rightarrow> 'h mem_app \<Rightarrow> u64 \<times> (u64 \<Rightarrow> u8) \<times> 'h mem_app" where
  "desc_map env ndp start len prot flags offset nap =
     (let (r, f, h) = me_Map env ndp start len prot flags offset (host nap)
      in (r, f, nap\<lparr>host := h, requests := Desc_Map ndp start len prot flags offset # requests nap\<rparr>))"

definition NaClDescIsSafeForMmap :: "'h mem_env \<Rightarrow> nat \<Rightarrow> bool" where
  "NaClDescIsSafeForMmap env ndp \<longleftrightarrow> 0 \<noteq> me_GetFlags env ndp AND 0x1000"

end
