(* ===== verification/SysMemory.thy ===== *)
theory SysMemory
  imports HostMap
begin

text \<open>
  The memory system calls (\<open>service_runtime/sys_memory.c\<close>), for Linux: \<open>NaClSysBrk\<close>,
  \<open>NaClSysMmap\<close>, \<open>NaClSysMunmap\<close> and \<open>NaClSysMprotect\<close>. A \<open>goto cleanup\<close> with a value in
  \<open>map_result\<close> is \<open>Inl\<close> of that value. Fault injection is off. Untrusted code runs one call at a
  time, so the locks and the stopping of threads are left out.
\<close>

section \<open>The map inside the sandbox\<close>

text \<open>
  The entries of the memory map hold references to descriptors, counted in the descriptor's own
  \<open>ref_count\<close>. An operation of the map is given the counts, and what it leaves of them is stored:
  a count that reaches 0 frees the descriptor, one that would wrap is fatal.
\<close>

definition ref_counts :: "('h, 'z) fd_app_scheme \<Rightarrow> nat \<Rightarrow> int" where
  "ref_counts nap n = (case nd_refs nap n of None \<Rightarrow> 0 | Some c \<Rightarrow> int (unat c))"

definition entry_descs :: "vmmap \<Rightarrow> nat list" where
  "entry_descs m = remdups (List.map_filter e_desc (vmentry m))"

definition store_counts :: "'h mem_env \<Rightarrow> vmmap \<Rightarrow> 'h mem_app \<Rightarrow> 'h mem_app" where
  "store_counts env m nap =
     nap\<lparr>mem_map := m,
         nd_refs := (\<lambda>n. if desc_refs m n = ref_counts nap n then nd_refs nap n
                         else if desc_refs m n \<le> 0 then None else Some (word_of_int (desc_refs m n))),
         host := fold (vDtor (me_vt env))
                   (filter (\<lambda>n. 0 < ref_counts nap n \<and> desc_refs m n \<le> 0) (entry_descs (mem_map nap))) (host nap)\<rparr>"

definition with_map ::
    "'h mem_env \<Rightarrow> (vmmap \<Rightarrow> ('a \<times> vmmap) exec) \<Rightarrow> 'h mem_app \<Rightarrow> ('a \<times> 'h mem_app) exec" where
  "with_map env f nap =
     ebind (f ((mem_map nap)\<lparr>desc_refs := ref_counts nap\<rparr>)) (\<lambda>(r, m).
       if list_ex (\<lambda>n. 2 ^ 64 \<le> desc_refs m n) (entry_descs m) then Inl Log_fatal
       else Inr (r, store_counts env m nap))"

definition no_result :: "vmmap exec \<Rightarrow> (unit \<times> vmmap) exec" where
  "no_result e = ebind e (\<lambda>m. Inr ((), m))"

section \<open>Break\<close>

text \<open>The part of \<open>NaClSysBrk\<close> for a break above the current one.\<close>

definition brk_extend ::
    "'h mem_env \<Rightarrow> u64 \<Rightarrow> u64 \<Rightarrow> vmmap_entry \<Rightarrow> nat \<Rightarrow> 'h mem_app \<Rightarrow> 'h mem_app exec" where
  "brk_extend env new_break last_internal_page ent iter nap =
     (let start_new_region = push_bit NACL_PAGESHIFT (e_page_num ent + e_npages ent);
          nap1 = nap\<lparr>mem_map := (mem_map nap)\<lparr>vmentry := (vmentry (mem_map nap))
                   [iter := ent\<lparr>e_npages := last_internal_page - e_page_num ent + 1\<rparr>]\<rparr>\<rparr>;
          region_size = push_bit NACL_PAGESHIFT (last_internal_page + 1) - start_new_region
      in ebind (NaClUserToSys nap1 start_new_region) (\<lambda>a.
           let (r, nap2) = NaClMprotect env a region_size (1 OR 2) nap1
           in if 0 \<noteq> r then Inl Log_fatal else Inr (nap2\<lparr>break_addr := new_break\<rparr>)))"

definition brk_grow :: "'h mem_env \<Rightarrow> u64 \<Rightarrow> u64 \<Rightarrow> 'h mem_app \<Rightarrow> 'h mem_app exec" where
  "brk_grow env new_break sys_new_break nap =
     ebind (NaClUserToSys nap (break_addr nap)) (\<lambda>sys_break.
       let usr_last_data_page = drop_bit NACL_PAGESHIFT (break_addr nap - 1);
           usr_new_last_data_page = drop_bit NACL_PAGESHIFT (new_break - 1);
           last_internal_data_addr = NaClRoundAllocPage new_break - 1;
           last_internal_page = drop_bit NACL_PAGESHIFT last_internal_data_addr
       in ebind (with_map env (\<lambda>m. NaClVmmapFindPageIter m usr_last_data_page) nap) (\<lambda>(iter, nap1).
          if NaClVmmapIterAtEnd (mem_map nap1) iter then Inl Log_fatal
          else ebind (NaClVmmapIterStar (mem_map nap1) iter) (\<lambda>ent.
            let zeroed = (\<lambda>nap2. ebind (echeck (sys_new_break > sys_break) Check_failed) (\<lambda>_.
                  ebind (user_access nap2 True sys_break (unat (sys_new_break - sys_break))) (\<lambda>_.
                  Inr (nap2\<lparr>fa_mem := put_region sys_break (sys_new_break - sys_break) (\<lambda>_. 0) (fa_mem nap2)\<rparr>))));
                nxt = NaClVmmapIterIncr iter
            in if usr_new_last_data_page < e_page_num ent + e_npages ent
               then zeroed (nap1\<lparr>break_addr := new_break\<rparr>)
               else if \<not> NaClVmmapIterAtEnd (mem_map nap1) nxt
                       \<and> e_page_num (vmentry (mem_map nap1) ! nxt) \<le> last_internal_page
               then Inr nap1
               else ebind (brk_extend env new_break last_internal_page ent iter nap1) zeroed)))"

definition NaClSysBrk :: "'h mem_env \<Rightarrow> 'h mem_app \<Rightarrow> u64 \<Rightarrow> (int \<times> 'h mem_app) exec" where
  "NaClSysBrk env nap new_break =
     (if pnacl_mode nap then Inr (- NACL_ABI_ENOSYS, nap)
      else let sys_new_break = NaClUserToSysAddr nap new_break
           in ebind (if kNaClBadAddress = sys_new_break then Inr nap
                     else if new_break < data_end nap then Inr nap
                     else if new_break \<le> break_addr nap then Inr (nap\<lparr>break_addr := new_break\<rparr>)
                     else brk_grow env new_break sys_new_break nap) (\<lambda>nap1.
                Inr (to_int32 (uint (break_addr nap1)), nap1)))"

section \<open>Checks\<close>

definition NaClSysCommonAddrRangeContainsExecutablePages ::
    "'a nacl_space_scheme \<Rightarrow> u64 \<Rightarrow> u64 \<Rightarrow> bool" where
  "NaClSysCommonAddrRangeContainsExecutablePages nap usraddr len \<longleftrightarrow>
     NaClTruncAllocPage usraddr < dynamic_text_end nap"

definition NaClSysCommonAddrRangeInAllowedDynamicCodeSpace ::
    "'a nacl_space_scheme \<Rightarrow> u64 \<Rightarrow> u64 \<Rightarrow> bool" where
  "NaClSysCommonAddrRangeInAllowedDynamicCodeSpace nap usraddr len =
     (let usr_region_end = usraddr + len
      in if usr_region_end < usraddr then False
         else let usr_region_end1 = NaClRoundAllocPage usr_region_end
              in if usr_region_end1 < usraddr then False
                 else dynamic_text_start nap \<le> usraddr \<and> usr_region_end1 \<le> dynamic_text_end nap)"

section \<open>Unmapping\<close>

definition MunmapInternal :: "'h mem_env \<Rightarrow> u64 \<Rightarrow> u64 \<Rightarrow> 'h mem_app \<Rightarrow> (int \<times> 'h mem_app) exec" where
  "MunmapInternal env sysaddr len nap =
     (let (e, r, nap1) = host_mmap env sysaddr len 0 (2 OR 0x20 OR 0x10) (- 1) 0 nap
      in if e \<noteq> 0 then Inr (- NaClXlateErrno e, nap1)
         else ebind (NaClSysToUser nap1 sysaddr) (\<lambda>u.
              ebind (with_map env (\<lambda>m. no_result (NaClVmmapRemove m (drop_bit NACL_PAGESHIFT u) (drop_bit NACL_PAGESHIFT len))) nap1)
                (\<lambda>(x, nap2). Inr (0, nap2))))"

definition NaClSysMunmap :: "'h mem_env \<Rightarrow> 'h mem_app \<Rightarrow> u32 \<Rightarrow> u32 \<Rightarrow> (int \<times> 'h mem_app) exec" where
  "NaClSysMunmap env nap start len =
     (if \<not> NaClIsAllocPageMultiple (ucast start) then Inr (- NACL_ABI_EINVAL, nap)
      else let len1 = ucast (NaClRoundAllocPage (ucast len)) :: u32
           in if 0 = len1 then Inr (- NACL_ABI_EINVAL, nap)
              else let sysaddr = NaClUserToSysAddrRange nap (ucast start) (ucast len1)
                   in if kNaClBadAddress = sysaddr then Inr (- NACL_ABI_EFAULT, nap)
                      else if NaClSysCommonAddrRangeContainsExecutablePages nap (ucast start) (ucast len1)
                      then Inr (- NACL_ABI_EINVAL, nap)
                      else ebind (NaClVmIoPendingCheck_mu nap start (start + len1 - 1)) (\<lambda>_.
                             MunmapInternal env sysaddr (ucast len1) nap))"

section \<open>Protection\<close>

text \<open>
  The loop of \<open>MprotectInternal\<close> over the entries from the iterator on; \<open>prev\<close> is the last one
  it has looked at (the variable \<open>entry\<close>). Offsets and file sizes are signed.
\<close>

fun mprotect_loop ::
    "'h mem_env \<Rightarrow> u32 \<Rightarrow> u64 \<Rightarrow> vmmap_entry list \<Rightarrow> vmmap_entry \<Rightarrow> 'h mem_app \<Rightarrow> (vmmap_entry \<times> 'h mem_app) exec" where
  "mprotect_loop env host_prot last_page_num [] prev nap = Inr (prev, nap)"
| "mprotect_loop env host_prot last_page_num (e # es) prev nap =
     (if \<not> e_page_num e < last_page_num then Inr (prev, nap)
      else ebind (NaClUserToSys nap (push_bit NACL_PAGESHIFT (e_page_num e))) (\<lambda>addr.
        let entry_len = push_bit NACL_PAGESHIFT (e_npages e);
            file_bytes = e_file_size e - e_offset e;
            (r, nap1) = (if e_desc e = None then host_mprotect env addr entry_len host_prot nap
                         else if sint (e_offset e) < sint (e_file_size e)
                         then host_mprotect env addr (min (NaClRoundPage file_bytes) entry_len) host_prot nap
                         else (0, nap))
        in if r \<noteq> 0 then Inl Log_fatal
           else mprotect_loop env host_prot last_page_num es e nap1))"

definition MprotectInternal :: "'h mem_env \<Rightarrow> u64 \<Rightarrow> u64 \<Rightarrow> u32 \<Rightarrow> 'h mem_app \<Rightarrow> (int \<times> 'h mem_app) exec" where
  "MprotectInternal env sysaddr len prot nap =
     (let host_prot = NaClProtMap prot
      in ebind (NaClSysToUser nap sysaddr) (\<lambda>usraddr.
         let last_page_num = drop_bit NACL_PAGESHIFT (usraddr + len)
         in ebind (with_map env (\<lambda>m. NaClVmmapFindPageIter m (drop_bit NACL_PAGESHIFT usraddr)) nap) (\<lambda>(iter, nap1).
            ebind (NaClVmmapIterStar (mem_map nap1) iter) (\<lambda>entry.
            ebind (echeck (usraddr = push_bit NACL_PAGESHIFT (e_page_num entry)) Check_failed) (\<lambda>_.
            ebind (mprotect_loop env host_prot last_page_num (drop iter (vmentry (mem_map nap1))) entry nap1) (\<lambda>(last_entry, nap2).
            ebind (echeck (e_page_num last_entry + e_npages last_entry = last_page_num) Check_failed) (\<lambda>_.
              Inr (0, nap2))))))))"

definition NaClSysMprotectInternal ::
    "'h mem_env \<Rightarrow> 'h mem_app \<Rightarrow> u32 \<Rightarrow> u64 \<Rightarrow> u32 \<Rightarrow> (int \<times> 'h mem_app) exec" where
  "NaClSysMprotectInternal env nap start len prot =
     (if \<not> NaClIsAllocPageMultiple (ucast start) then Inr (- NACL_ABI_EINVAL, nap)
      else let len1 = NaClRoundAllocPage len;
               sysaddr = NaClUserToSysAddrRange nap (ucast start) len1
           in if kNaClBadAddress = sysaddr then Inr (- NACL_ABI_EFAULT, nap)
              else if 0 \<noteq> NOT (NACL_ABI_PROT_READ OR NACL_ABI_PROT_WRITE) AND prot then Inr (- NACL_ABI_EACCES, nap)
              else if NaClSysCommonAddrRangeContainsExecutablePages nap (ucast start) len1
              then Inr (- NACL_ABI_EACCES, nap)
              else ebind (NaClSysToUser nap sysaddr) (\<lambda>u.
                   ebind (with_map env (\<lambda>m. NaClVmmapChangeProt (me_GetFlags env) m
                            (drop_bit NACL_PAGESHIFT u) (drop_bit NACL_PAGESHIFT len1) prot) nap) (\<lambda>(ok, nap1).
                     if \<not> ok then Inr (- NACL_ABI_EACCES, nap1)
                     else ebind (NaClVmIoPendingCheck_mu nap1 start (ucast (ucast start + len1 - 1))) (\<lambda>_.
                            MprotectInternal env sysaddr len1 prot nap1))))"

definition NaClSysMprotect ::
    "'h mem_env \<Rightarrow> 'h mem_app \<Rightarrow> u32 \<Rightarrow> u64 \<Rightarrow> u32 \<Rightarrow> (int \<times> 'h mem_app) exec" where
  "NaClSysMprotect env nap start len prot = NaClSysMprotectInternal env nap start len prot"

end
