(* ===== verification/SysMmap.thy ===== *)
theory SysMmap
  imports SysMemory
begin

text \<open>
  \<open>NaClSysMmapIntern\<close> and \<open>NaClSysMmap\<close> (\<open>service_runtime/sys_memory.c\<close>), in the order of the
  source: what is asked for, how much of the file there is, where to put it, whether that place is
  allowed, the mapping itself (of code or of data), and the entry in the memory map. Each part
  gives \<open>Inl\<close> of \<open>map_result\<close> where the source jumps to the clean-up.
\<close>

definition NACL_ABI_ENODEV :: int where "NACL_ABI_ENODEV = 19"
definition NACL_ABI_E_MOVE_ADDRESS_SPACE :: int where "NACL_ABI_E_MOVE_ADDRESS_SPACE = 0x40000000"
definition kMaxUsableFileSize :: u64 where "kMaxUsableFileSize = 0x7fffffffffffffff"

definition neg_errno :: "int \<Rightarrow> u64" where "neg_errno e = word_of_int (- e)"

definition NACL_ABI_S_ISREG :: "u32 \<Rightarrow> bool" where
  "NACL_ABI_S_ISREG m \<longleftrightarrow> m AND 0x1f000 = 0x8000"

definition NACL_ABI_S_ISSHM :: "u32 \<Rightarrow> bool" where
  "NACL_ABI_S_ISSHM m \<longleftrightarrow> m AND 0x1f000 = 0x14000"

section \<open>The request\<close>

definition mmap_is_code :: "'h mem_app \<Rightarrow> nat option \<Rightarrow> u64 \<Rightarrow> u64 \<Rightarrow> u32 \<Rightarrow> u32 \<Rightarrow> u64 + bool" where
  "mmap_is_code nap ndp usraddr len prot flags =
     (if 0 \<noteq> NACL_ABI_PROT_EXEC AND prot \<and> 0 \<noteq> NACL_ABI_MAP_FIXED AND flags \<and> ndp \<noteq> None
         \<and> NaClSysCommonAddrRangeInAllowedDynamicCodeSpace nap usraddr len
      then (if \<not> enable_dyncode_syscalls nap then Inl (neg_errno NACL_ABI_EINVAL)
            else if 0 \<noteq> NACL_ABI_PROT_WRITE AND prot then Inl (neg_errno NACL_ABI_EINVAL)
            else Inr True)
      else if 0 \<noteq> prot AND NACL_ABI_PROT_EXEC then Inl (neg_errno NACL_ABI_EINVAL)
      else Inr False)"

text \<open>The start address, cut to an allocation page, and the rounded length.\<close>

definition mmap_align :: "u64 \<Rightarrow> u64 \<Rightarrow> u32 \<Rightarrow> u64 \<Rightarrow> bool \<Rightarrow> (u64 + u64 \<times> u64) exec" where
  "mmap_align usraddr len flags offset mapping_code =
     (if \<not> NaClIsAllocPageMultiple usraddr \<and> NACL_ABI_MAP_FIXED AND flags \<noteq> 0
      then Inr (Inl (neg_errno NACL_ABI_EINVAL))
      else let usraddr1 = (if \<not> NaClIsAllocPageMultiple usraddr then NaClTruncAllocPage usraddr else usraddr)
           in if sint offset < 0 then Inr (Inl (neg_errno NACL_ABI_EINVAL))
              else if \<not> NaClIsAllocPageMultiple offset then Inr (Inl (neg_errno NACL_ABI_EINVAL))
              else let alloc_rounded_length = NaClRoundAllocPage len
                   in if alloc_rounded_length \<noteq> len \<and> mapping_code then Inr (Inl (neg_errno NACL_ABI_EINVAL))
                      else if 0 = (ucast alloc_rounded_length :: u32) then Inr (Inl (neg_errno NACL_ABI_EINVAL))
                      else ebind (echeck (alloc_rounded_length = ucast (ucast alloc_rounded_length :: u32)) Check_failed) (\<lambda>_.
                             Inr (Inr (usraddr1, alloc_rounded_length))))"

text \<open>
  The file's size, the bytes it has from the offset on, and these rounded to the host's pages.
  \<open>st_mode\<close> is at byte 16 of \<open>struct nacl_abi_stat\<close>, \<open>st_size\<close> at byte 40.
\<close>

definition mmap_extent ::
    "'h mem_env \<Rightarrow> nat option \<Rightarrow> u64 \<Rightarrow> 'h mem_app \<Rightarrow> ((u64 + u64 \<times> u64 \<times> u64) \<times> 'h mem_app) exec" where
  "mmap_extent env ndp offset nap =
     (case ndp of
        None \<Rightarrow> Inr (Inr (kMaxUsableFileSize, kMaxUsableFileSize, kMaxUsableFileSize), nap)
      | Some n \<Rightarrow>
          let (r, stbuf, h) = vFstat (me_vt env) n (host nap);
              nap1 = nap\<lparr>host := h\<rparr>;
              st_mode = le_word (take 4 (drop 16 stbuf));
              file_size = le_word (take 8 (drop 40 stbuf))
          in if 0 \<noteq> r then Inr (Inl (word_of_int r), nap1)
             else if \<not> NACL_ABI_S_ISREG st_mode \<and> \<not> NACL_ABI_S_ISSHM st_mode
             then Inr (Inl (neg_errno NACL_ABI_ENODEV), nap1)
             else if sint file_size < sint offset then Inr (Inl (neg_errno NACL_ABI_EINVAL), nap1)
             else let file_bytes = file_size - offset;
                      host_rounded_file_bytes = (if sint kMaxUsableFileSize < sint file_bytes then kMaxUsableFileSize
                                                 else NaClRoundHostAllocPage file_bytes)
                  in ebind (echeck (sint host_rounded_file_bytes \<le> sint kMaxUsableFileSize) Check_failed) (\<lambda>_.
                       let alloc_rounded_file_bytes = NaClRoundAllocPage host_rounded_file_bytes
                       in if 0 = alloc_rounded_file_bytes \<and> 0 \<noteq> host_rounded_file_bytes
                          then Inr (Inl (neg_errno NACL_ABI_ENOMEM), nap1)
                          else Inr (Inr (file_size, file_bytes, host_rounded_file_bytes), nap1)))"

section \<open>The place\<close>

definition mmap_place ::
    "'h mem_env \<Rightarrow> u64 \<Rightarrow> u64 \<Rightarrow> u32 \<Rightarrow> 'h mem_app \<Rightarrow> ((u64 + u64) \<times> 'h mem_app) exec" where
  "mmap_place env usraddr alloc_rounded_length flags nap =
     (if 0 \<noteq> flags AND NACL_ABI_MAP_FIXED then Inr (Inr usraddr, nap)
      else let pages = drop_bit NACL_PAGESHIFT alloc_rounded_length;
               anywhere = with_map env (\<lambda>m. NaClVmmapFindMapSpace m pages)
           in ebind (if 0 = usraddr then anywhere nap
                     else ebind (with_map env (\<lambda>m. NaClVmmapFindMapSpaceAboveHint m usraddr pages) nap) (\<lambda>(usrpage, nap1).
                            if 0 = usrpage then anywhere nap1 else Inr (usrpage, nap1))) (\<lambda>(usrpage, nap2).
                if 0 = usrpage then Inr (Inl (neg_errno NACL_ABI_ENOMEM), nap2)
                else Inr (Inr (push_bit NACL_PAGESHIFT usrpage), nap2)))"

text \<open>The checks of the place; \<open>None\<close> is a place that is allowed.\<close>

definition mmap_refused ::
    "'h mem_env \<Rightarrow> 'h mem_app \<Rightarrow> bool \<Rightarrow> nat option \<Rightarrow> u64 \<Rightarrow> u64 \<Rightarrow> u64 \<Rightarrow> u64 option" where
  "mmap_refused env nap mapping_code ndp usraddr alloc_rounded_length len =
     (let endaddr = usraddr + alloc_rounded_length
      in if usraddr \<ge> addr_limit nap then Some (neg_errno NACL_ABI_EINVAL)
         else if endaddr < usraddr then Some (neg_errno NACL_ABI_EINVAL)
         else if endaddr > addr_limit nap then Some (neg_errno NACL_ABI_EINVAL)
         else if mapping_code then
           (if \<not> NaClDescIsSafeForMmap env (the ndp) then Some (neg_errno NACL_ABI_EINVAL) else None)
         else if NaClSysCommonAddrRangeContainsExecutablePages nap usraddr len
         then Some (neg_errno NACL_ABI_EINVAL)
         else None)"

section \<open>Mapping code\<close>

text \<open>
  The file is first mapped elsewhere for the validator. If it validates without changes it is
  mapped into the text area, otherwise its bytes are loaded like any dynamic code.
\<close>

definition mmap_code ::
    "'h mem_env \<Rightarrow> nat \<Rightarrow> u64 \<Rightarrow> u64 \<Rightarrow> u64 \<Rightarrow> u64 \<Rightarrow> 'h mem_app \<Rightarrow> (u64 \<times> 'h mem_app) exec" where
  "mmap_code env ndp usraddr sysaddr len offset nap =
     (if me_typeTag env ndp \<noteq> NACL_DESC_HOST_IO then Inr (neg_errno NACL_ABI_EINVAL, nap)
      else let (image_sys_addr, f, nap1) =
                 desc_map env ndp 0 len (NACL_ABI_PROT_READ OR NACL_ABI_PROT_WRITE) NACL_ABI_MAP_PRIVATE offset nap
           in if NaClPtrIsNegErrno image_sys_addr then Inr (image_sys_addr, nap1)
              else let val_flags = (if pnacl_mode nap1 then 1 else 0);
                       image = map (\<lambda>i. f (of_nat i)) [0 ..< unat len];
                       (validator_status, image1) =
                         e_Validate (me_text env) usraddr image False val_flags True (Some (me_metadata env ndp)) True
                   in if validator_status = NaClValidationSucceeded then
                        ebind (NaClUserToSys nap1 usraddr) (\<lambda>a.
                        ebind (NaClDynamicRegionCreate (e_mem (me_text env)) (dyn_regs nap1) a len True) (\<lambda>(ret, rs).
                          let nap2 = nap1\<lparr>dyn_regs := rs\<rparr>
                          in if \<not> ret then Inr (neg_errno NACL_ABI_EINVAL, nap2)
                             else ebind (NaClHostDescUnmapUnsafe env image_sys_addr len nap2) (\<lambda>nap3.
                               let (image_sys_addr2, f2, nap4) =
                                     desc_map env ndp sysaddr len (NACL_ABI_PROT_READ OR NACL_ABI_PROT_EXEC)
                                       (NACL_ABI_MAP_PRIVATE OR NACL_ABI_MAP_FIXED) offset nap3
                               in if image_sys_addr2 \<noteq> sysaddr then Inl Log_fatal
                                  else Inr (scast (ucast usraddr :: u32),
                                            nap4\<lparr>fa_mem := put_region sysaddr (NaClRoundPage len) f2 (fa_mem nap4)\<rparr>))))
                      else
                        ebind (NaClTextDyncodeCreate (me_text env) nap1 (ucast usraddr) image1 (ucast len) None) (\<lambda>(sys_ret, nap2).
                        ebind (NaClHostDescUnmapUnsafe env image_sys_addr len nap2) (\<lambda>nap3.
                          Inr (if sys_ret < 0 then word_of_int sys_ret else scast (ucast usraddr :: u32), nap3))))"

section \<open>Mapping data\<close>

definition mmap_data ::
    "'h mem_env \<Rightarrow> nat option \<Rightarrow> u64 \<Rightarrow> u64 \<Rightarrow> u32 \<Rightarrow> u32 \<Rightarrow> u64 \<Rightarrow> u64 \<Rightarrow> 'h mem_app \<Rightarrow> (u64 option \<times> 'h mem_app) exec" where
  "mmap_data env ndp sysaddr len prot flags offset file_bytes nap =
     ebind (case ndp of
              None \<Rightarrow> NaClDescIoDescMapAnon env sysaddr len prot flags offset nap
            | Some n \<Rightarrow>
                let length_to_map = min len file_bytes;
                    (r, f, nap1) = desc_map env n sysaddr length_to_map prot flags offset nap
                in Inr (r, if NaClPtrIsNegErrno r then nap1
                           else nap1\<lparr>fa_mem := put_region r (NaClRoundPage length_to_map) f (fa_mem nap1)\<rparr>)) (\<lambda>(map_result, nap2).
       if NaClPtrIsNegErrno map_result then
         (if neg_errno NACL_ABI_E_MOVE_ADDRESS_SPACE = map_result then Inl Log_fatal
          else Inr (Some map_result, nap2))
       else if map_result \<noteq> sysaddr then Inl Log_fatal
       else Inr (None, nap2))"

text \<open>The pages past the end of the file, and the entry in the map.\<close>

definition mmap_commit ::
    "'h mem_env \<Rightarrow> nat option \<Rightarrow> u64 \<Rightarrow> u64 \<Rightarrow> u64 \<Rightarrow> u64 \<Rightarrow> u32 \<Rightarrow> u32 \<Rightarrow> u64 \<Rightarrow> u64 \<Rightarrow> 'h mem_app \<Rightarrow> (u64 \<times> 'h mem_app) exec" where
  "mmap_commit env ndp usraddr sysaddr len alloc_rounded_length prot flags offset file_size nap =
     ebind (if len < alloc_rounded_length then MunmapInternal env (sysaddr + len) (alloc_rounded_length - len) nap
            else Inr (0, nap)) (\<lambda>(r, nap1).
       if r \<noteq> 0 then Inr (word_of_int r, nap1)
       else ebind (if alloc_rounded_length > 0
                   then ebind (NaClSysToUser nap1 sysaddr) (\<lambda>u.
                        with_map env (\<lambda>m. no_result (NaClVmmapAddWithOverwrite m (drop_bit NACL_PAGESHIFT u)
                          (drop_bit NACL_PAGESHIFT alloc_rounded_length) prot flags ndp offset file_size)) nap1)
                   else Inr ((), nap1)) (\<lambda>(x, nap2). Inr (usraddr, nap2)))"

section \<open>The call\<close>

text \<open>What follows the choice of the place; the address is known and the locks are held.\<close>

definition mmap_at ::
    "'h mem_env \<Rightarrow> nat option \<Rightarrow> bool \<Rightarrow> u64 \<Rightarrow> u64 \<Rightarrow> u64 \<Rightarrow> u32 \<Rightarrow> u32 \<Rightarrow> u64 \<Rightarrow> u64 \<Rightarrow> u64 \<Rightarrow> 'h mem_app
      \<Rightarrow> (u64 \<times> 'h mem_app) exec" where
  "mmap_at env ndp mapping_code usraddr alloc_rounded_length len prot flags offset file_size file_bytes nap =
     (case mmap_refused env nap mapping_code ndp usraddr alloc_rounded_length len of
        Some r \<Rightarrow> Inr (r, nap)
      | None \<Rightarrow>
          ebind (NaClVmIoPendingCheck_mu nap (ucast usraddr) (ucast (usraddr + len - 1))) (\<lambda>_.
            let flags1 = flags OR NACL_ABI_MAP_FIXED;
                prot1 = prot AND NOT NACL_ABI_PROT_EXEC
            in if (0 = flags1 AND NACL_ABI_MAP_SHARED) = (0 = flags1 AND NACL_ABI_MAP_PRIVATE)
               then Inr (neg_errno NACL_ABI_EINVAL, nap)
               else ebind (NaClUserToSys nap usraddr) (\<lambda>sysaddr.
                 if len > 0 \<and> mapping_code then mmap_code env (the ndp) usraddr sysaddr len offset nap
                 else ebind (if len > 0 then mmap_data env ndp sysaddr len prot1 flags1 offset file_bytes nap
                             else Inr (None, nap)) (\<lambda>(failed, nap1).
                   case failed of
                     Some r \<Rightarrow> Inr (r, nap1)
                   | None \<Rightarrow> mmap_commit env ndp usraddr sysaddr len alloc_rounded_length prot1 flags1 offset file_size nap1))))"

definition mmap_body ::
    "'h mem_env \<Rightarrow> nat option \<Rightarrow> u64 \<Rightarrow> u64 \<Rightarrow> u32 \<Rightarrow> u32 \<Rightarrow> u64 \<Rightarrow> 'h mem_app \<Rightarrow> (u64 \<times> 'h mem_app) exec" where
  "mmap_body env ndp start len prot flags offset nap =
     (case mmap_is_code nap ndp start len prot flags of
        Inl r \<Rightarrow> Inr (r, nap)
      | Inr mapping_code \<Rightarrow>
          ebind (mmap_align start len flags offset mapping_code) (\<lambda>aligned.
            case aligned of
              Inl r \<Rightarrow> Inr (r, nap)
            | Inr (usraddr, alloc_rounded_length) \<Rightarrow>
                ebind (mmap_extent env ndp offset nap) (\<lambda>(extent, nap1).
                  case extent of
                    Inl r \<Rightarrow> Inr (r, nap1)
                  | Inr (file_size, file_bytes, host_rounded_file_bytes) \<Rightarrow>
                      if mapping_code \<and> file_bytes < alloc_rounded_length then Inr (neg_errno NACL_ABI_EINVAL, nap1)
                      else let len1 = min alloc_rounded_length host_rounded_file_bytes
                           in ebind (mmap_place env usraddr alloc_rounded_length flags nap1) (\<lambda>(place, nap2).
                                case place of
                                  Inl r \<Rightarrow> Inr (r, nap2)
                                | Inr usraddr1 \<Rightarrow>
                                    mmap_at env ndp mapping_code usraddr1 alloc_rounded_length len1 prot flags
                                      offset file_size file_bytes nap2))))"

text \<open>The clean-up: the reference taken at the start is given back.\<close>

definition mmap_cleanup ::
    "'h mem_env \<Rightarrow> nat option \<Rightarrow> u64 \<times> 'h mem_app \<Rightarrow> (int \<times> 'h mem_app) exec" where
  "mmap_cleanup env ndp res =
     (let (map_result, nap) = res
      in ebind (NaClRefCountSafeUnref (me_vt env) ndp nap) (\<lambda>nap1.
           if map_result > 0xffffffff \<and> \<not> NaClPtrIsNegErrno map_result then Inl Log_fatal
           else Inr (sint (ucast map_result :: u32), nap1)))"

definition NaClSysMmapIntern ::
    "'h mem_env \<Rightarrow> 'h mem_app \<Rightarrow> u64 \<Rightarrow> u64 \<Rightarrow> u32 \<Rightarrow> u32 \<Rightarrow> u32 \<Rightarrow> u64 \<Rightarrow> (int \<times> 'h mem_app) exec" where
  "NaClSysMmapIntern env nap start len prot flags d offset =
     (let allowed_flags = NACL_ABI_MAP_FIXED OR NACL_ABI_MAP_SHARED OR NACL_ABI_MAP_PRIVATE OR NACL_ABI_MAP_ANONYMOUS;
          flags1 = flags AND allowed_flags
      in ebind (if 0 \<noteq> flags1 AND NACL_ABI_MAP_ANONYMOUS then Inr (None, nap)
                else NaClAppGetDesc nap d) (\<lambda>(ndp, nap1).
           if 0 = flags1 AND NACL_ABI_MAP_ANONYMOUS \<and> ndp = None
           then mmap_cleanup env None (neg_errno NACL_ABI_EBADF, nap1)
           else ebind (mmap_body env ndp start len prot flags1 offset nap1) (mmap_cleanup env ndp)))"

definition NaClSysMmap ::
    "'h mem_env \<Rightarrow> 'h mem_app \<Rightarrow> u32 \<Rightarrow> u64 \<Rightarrow> u32 \<Rightarrow> u32 \<Rightarrow> u32 \<Rightarrow> u32 \<Rightarrow> (int \<times> 'h mem_app) exec" where
  "NaClSysMmap env nap start len prot flags d offp =
     ebind (NaClCopyInFromUser nap (ucast offp) 8) (\<lambda>copied.
      case copied of
        None \<Rightarrow> Inr (- NACL_ABI_EFAULT, nap)
      | Some bs \<Rightarrow> NaClSysMmapIntern env nap (ucast start) len prot flags d (le_word bs))"

end
