(* ===== verification/MemInv.thy ===== *)
theory MemInv
  imports SysMmap FdInv VmmapTop
begin

text \<open>
  The invariant of the memory calls: the map is well formed, its entries' references are part of
  the descriptors' reference counts, and some page of the text is mapped, so the map never becomes
  empty. \<open>with_map\<close> keeps the counts right for every operation of the map that balances them.
\<close>

section \<open>The invariant\<close>

definition map_refs :: "vmmap \<Rightarrow> nat \<Rightarrow> nat" where
  "map_refs m n = length (filter (\<lambda>e. e_desc e = Some n) (vmentry m))"

definition text_mapped :: "'a nacl_space_scheme \<Rightarrow> vmmap \<Rightarrow> bool" where
  "text_mapped nap m \<longleftrightarrow> (\<exists>p. p * 4096 < unat (dynamic_text_end nap) \<and> vm_map m p \<noteq> None)"

definition mem_inv :: "(nat \<Rightarrow> nat) \<Rightarrow> u32 multiset \<Rightarrow> u32 multiset \<Rightarrow> 'h mem_app \<Rightarrow> bool" where
  "mem_inv E S F nap \<longleftrightarrow> fd_inv (\<lambda>n. map_refs (mem_map nap) n + E n) S F nap \<and> vm_wf (mem_map nap)
     \<and> text_mapped nap (mem_map nap) \<and> dynamic_text_end nap \<le> data_end nap \<and> data_end nap \<le> break_addr nap
     \<and> 16 \<le> unat (addr_bits nap)"

lemma held_map_refs: "held n (vmentry m) = int (map_refs m n)"
  by (simp add: held_def map_refs_def flip: mset_filter)

lemma map_refs_upd [simp]:
  "map_refs (m\<lparr>desc_refs := r\<rparr>) = map_refs m"
  by (simp add: map_refs_def fun_eq_iff)

lemma vm_wf_desc_refs [simp]: "vm_wf (m\<lparr>desc_refs := r\<rparr>) = vm_wf m"
  by (simp add: vm_wf_def)

lemma entry_descs_iff: "n \<in> set (entry_descs m) \<longleftrightarrow> 0 < map_refs m n"
  by (force simp: entry_descs_def map_refs_def List.map_filter_def filter_empty_conv)

section \<open>Operations of the map\<close>

lemma store_counts_fields [simp]:
  "mem_map (store_counts env m nap) = m"
  "desc_tbl (store_counts env m nap) = desc_tbl nap" "fa_mem (store_counts env m nap) = fa_mem nap"
  "mem_io_regions (store_counts env m nap) = mem_io_regions nap"
  "addr_bits (store_counts env m nap) = addr_bits nap" "mem_start (store_counts env m nap) = mem_start nap"
  "dynamic_text_start (store_counts env m nap) = dynamic_text_start nap"
  "dynamic_text_end (store_counts env m nap) = dynamic_text_end nap"
  "data_end (store_counts env m nap) = data_end nap" "break_addr (store_counts env m nap) = break_addr nap"
  "requests (store_counts env m nap) = requests nap" "bundle_size (store_counts env m nap) = bundle_size nap"
  "access_faults (store_counts env m nap) = access_faults nap"
  "mapcache_size (store_counts env m nap) = mapcache_size nap" "mapcache_ret (store_counts env m nap) = mapcache_ret nap"
  by (simp_all add: store_counts_def)

text \<open>An operation is balanced when it changes the counts by the references of the entries.\<close>

definition balanced :: "vmmap \<Rightarrow> vmmap \<Rightarrow> bool" where
  "balanced s s' \<longleftrightarrow> (\<forall>d. desc_refs s' d - held d (vmentry s') = desc_refs s d - held d (vmentry s))"

lemma store_refs_are:
  assumes R: "refs_are (nd_refs nap) (\<lambda>n. H n + (map_refs (mem_map nap) n + E n))"
    and b: "balanced ((mem_map nap)\<lparr>desc_refs := ref_counts nap\<rparr>) m"
    and small: "\<not> list_ex (\<lambda>n. 2 ^ 64 \<le> desc_refs m n) (entry_descs m)"
  shows "refs_are (nd_refs (store_counts env m nap)) (\<lambda>n. H n + (map_refs m n + E n))"
  unfolding refs_are_def
proof
  fix n
  let ?c = "ref_counts nap n" and ?new = "H n + (map_refs m n + E n)"
  have c: "case nd_refs nap n of None \<Rightarrow> H n + (map_refs (mem_map nap) n + E n) = 0
      | Some c \<Rightarrow> 0 < unat c \<and> unat c = H n + (map_refs (mem_map nap) n + E n)"
    using R unfolding refs_are_def by blast
  then have "(case nd_refs nap n of None \<Rightarrow> 0 | Some c \<Rightarrow> unat c) = H n + (map_refs (mem_map nap) n + E n)"
    by (cases "nd_refs nap n") simp_all
  moreover have "?c = int (case nd_refs nap n of None \<Rightarrow> 0 | Some c \<Rightarrow> unat c)"
    by (simp add: ref_counts_def split: option.split)
  ultimately have c1: "?c = int (H n + (map_refs (mem_map nap) n + E n))" by (simp only:)
  have c2: "?c < 2 ^ 64"
    using unsigned_less [where 'b = 64 and 'a = int] by (cases "nd_refs nap n") (simp_all add: ref_counts_def)
  have "desc_refs m n - int (map_refs m n) = ?c - int (map_refs (mem_map nap) n)"
    using b unfolding balanced_def held_map_refs by simp
  then have new: "desc_refs m n = int ?new" using c1(1) by simp
  have "desc_refs m n < 2 ^ 64"
  proof (cases "n \<in> set (entry_descs m)")
    case True
    then show ?thesis using small by (auto simp: list_ex_iff not_le)
  next
    case False
    then show ?thesis using c1 c2 new by (simp add: entry_descs_iff)
  qed
  moreover have "0 \<le> desc_refs m n" using new by simp
  ultimately have w: "int (unat (word_of_int (desc_refs m n) :: u64)) = desc_refs m n"
    by (simp add: unsigned_of_int take_bit_int_eq_self)
  show "case nd_refs (store_counts env m nap) n of None \<Rightarrow> ?new = 0 | Some c \<Rightarrow> 0 < unat c \<and> unat c = ?new"
  proof (cases "desc_refs m n = ?c")
    case True
    then have "map_refs m n = map_refs (mem_map nap) n" using new c1 by simp
    then show ?thesis using c True by (cases "nd_refs nap n") (simp_all add: store_counts_def, linarith)
  next
    case False
    moreover have "unat (word_of_int (desc_refs m n) :: u64) = ?new" using w [unfolded new] by (simp only: of_nat_eq_iff new)
    ultimately have "nd_refs (store_counts env m nap) n = (if ?new = 0 then None else Some (word_of_int (desc_refs m n)))"
      using new by (simp add: store_counts_def)
    then show ?thesis using \<open>unat _ = ?new\<close> by simp
  qed
qed

lemma with_map_ok:
  assumes inv: "fd_inv (\<lambda>n. map_refs (mem_map nap) n + E n) S F nap"
    and f: "f ((mem_map nap)\<lparr>desc_refs := ref_counts nap\<rparr>) = Inr (r, m)"
    and b: "balanced ((mem_map nap)\<lparr>desc_refs := ref_counts nap\<rparr>) m"
  shows "with_map env f nap = Inl Log_fatal
    \<or> with_map env f nap = Inr (r, store_counts env m nap)
      \<and> fd_inv (\<lambda>n. map_refs m n + E n) S F (store_counts env m nap)"
proof (cases "list_ex (\<lambda>n. 2 ^ 64 \<le> desc_refs m n) (entry_descs m)")
  case True
  then show ?thesis using f by (simp add: with_map_def)
next
  case False
  have R: "refs_are (nd_refs nap) (\<lambda>n. holds_in (DynArrayGet (desc_tbl nap)) n + (map_refs (mem_map nap) n + E n))"
    using inv by (simp add: fd_inv_def)
  then show ?thesis using f inv False store_refs_are [OF R b False]
    by (simp add: with_map_def fd_inv_def space_ok_def)
qed

section \<open>The operations the calls use\<close>

text \<open>
  The contract between the calls and the map: on a well-formed map that meets \<open>pre\<close> the operation
  returns, keeps the map well formed and balanced, and establishes \<open>post\<close>. Every operation of the
  map that the calls use is an interpretation.
\<close>

locale map_op =
  fixes f :: "vmmap \<Rightarrow> ('a \<times> vmmap) exec"
    and pre :: "vmmap \<Rightarrow> bool"
    and post :: "vmmap \<Rightarrow> 'a \<Rightarrow> vmmap \<Rightarrow> bool"
  assumes returns: "vm_wf s \<Longrightarrow> pre s \<Longrightarrow> \<exists>r m. f s = Inr (r, m) \<and> vm_wf m \<and> balanced s m \<and> post s r m"
    and pre_counts: "pre (s\<lparr>desc_refs := R\<rparr>) = pre s"
    and post_counts: "post (s\<lparr>desc_refs := R\<rparr>) r m = post s r m"
begin

lemma run:
  assumes "fd_inv (\<lambda>n. map_refs (mem_map nap) n + E n) S F nap" "vm_wf (mem_map nap)" "pre (mem_map nap)"
  shows "with_map env f nap = Inl Log_fatal
    \<or> (\<exists>r m. with_map env f nap = Inr (r, store_counts env m nap)
        \<and> fd_inv (\<lambda>n. map_refs m n + E n) S F (store_counts env m nap)
        \<and> vm_wf m \<and> post (mem_map nap) r m)"
proof -
  let ?s = "(mem_map nap)\<lparr>desc_refs := ref_counts nap\<rparr>"
  have "vm_wf ?s" "pre ?s" using assms by (simp_all add: pre_counts)
  then obtain r m where m: "f ?s = Inr (r, m)" "vm_wf m" "balanced ?s m" "post ?s r m"
    using returns [of ?s] by blast
  then show ?thesis using with_map_ok [where f = f and env = env, OF assms(1) m(1) m(3)] by (auto simp: post_counts)
qed

end

definition maps_same :: "vmmap \<Rightarrow> vmmap \<Rightarrow> bool" where
  "maps_same s m \<longleftrightarrow> vm_map m = vm_map s \<and> mset (vmentry m) = mset (vmentry s) \<and> sorted_wrt before (vmentry m) \<and> list_all entry_live (vmentry m)"

lemma vm_same_balanced: "vm_same s m \<Longrightarrow> vm_wf m \<and> balanced s m \<and> maps_same s m"
  by (auto simp: vm_same_def balanced_def held_def maps_same_def)

interpretation find_page: map_op "\<lambda>m. NaClVmmapFindPageIter m pnum" "\<lambda>s. True"
  "\<lambda>s ix m. maps_same s m \<and> (if vm_map s (unat pnum) = None then NaClVmmapIterAtEnd m ix
     else ix < length (vmentry m) \<and> covers (unat pnum) (vmentry m ! ix))" for pnum
  by unfold_locales (use FindPageIter_ok vm_same_balanced in \<open>blast, simp_all add: maps_same_def\<close>)

interpretation find_space: map_op "\<lambda>m. NaClVmmapFindMapSpace m num_pages" "\<lambda>s. unat num_pages \<le> vm_pages"
  "\<lambda>s r m. maps_same s m \<and> (r \<noteq> 0 \<longrightarrow> 16 dvd unat r \<and> unat r + nat_round_up 4 (unat num_pages) \<le> vm_pages
     \<and> (\<forall>p \<in> {unat r ..< unat r + nat_round_up 4 (unat num_pages)}. vm_map s p = None))" for num_pages
  by unfold_locales (use FindMapSpace_ok [unfolded free_run_def] vm_same_balanced in \<open>blast, simp_all add: maps_same_def\<close>)

interpretation find_above: map_op "\<lambda>m. NaClVmmapFindMapSpaceAboveHint m uaddr num_pages" "\<lambda>s. unat num_pages \<le> vm_pages"
  "\<lambda>s r m. maps_same s m \<and> (r \<noteq> 0 \<longrightarrow> unat uaddr div 4096 \<le> unat r
     \<and> unat r + nat_round_up 4 (unat num_pages) \<le> vm_pages
     \<and> (\<forall>p \<in> {unat r ..< unat r + nat_round_up 4 (unat num_pages)}. vm_map s p = None)
     \<and> (65536 dvd unat uaddr \<longrightarrow> 16 dvd unat r))" for uaddr num_pages
  by unfold_locales (use FindMapSpaceAboveHint_ok vm_same_balanced in \<open>blast, simp_all add: maps_same_def\<close>)

interpretation remove_pages: map_op "\<lambda>m. no_result (NaClVmmapRemove m P n)"
  "\<lambda>s. range_in_space P n \<and> (\<exists>q. q \<notin> pages_of P n \<and> vm_map s q \<noteq> None)"
  "\<lambda>s r m. \<forall>p. vm_map m p = (if p \<in> pages_of P n then None else vm_map s p)" for P n
proof
  fix s assume "vm_wf s" "range_in_space P n \<and> (\<exists>q. q \<notin> pages_of P n \<and> vm_map s q \<noteq> None)"
  then show "\<exists>r m. no_result (NaClVmmapRemove s P n) = Inr (r, m) \<and> vm_wf m \<and> balanced s m
      \<and> (\<forall>p. vm_map m p = (if p \<in> pages_of P n then None else vm_map s p))"
    using Remove_ok unfolding no_result_def balanced_def by fastforce
qed simp_all

interpretation overwrite_pages: map_op "\<lambda>m. no_result (NaClVmmapAddWithOverwrite m P n prot flags desc off fsz)"
  "\<lambda>s. range_in_space P n"
  "\<lambda>s r m. \<forall>p. vm_map m p = (if p \<in> pages_of P n then Some (new_page P prot flags desc off fsz p) else vm_map s p)"
  for P n prot flags desc off fsz
proof
  fix s assume "vm_wf s" "range_in_space P n"
  from AddWithOverwrite_ok [OF this, of prot flags desc off fsz]
  show "\<exists>r m. no_result (NaClVmmapAddWithOverwrite s P n prot flags desc off fsz) = Inr (r, m) \<and> vm_wf m \<and> balanced s m
      \<and> (\<forall>p. vm_map m p = (if p \<in> pages_of P n then Some (new_page P prot flags desc off fsz p) else vm_map s p))"
    unfolding no_result_def balanced_def by auto
qed simp_all

interpretation change_prot: map_op "\<lambda>m. NaClVmmapChangeProt getflags m P n prot"
  "\<lambda>s. range_in_space P n \<and> accmode_ok getflags"
  "\<lambda>s ok m. ok = (\<forall>p \<in> pages_of P n. \<exists>x. vm_map s p = Some x \<and> page_allows getflags prot x)
     \<and> (\<forall>p. if ok \<and> p \<in> pages_of P n
           then map_option no_offset (vm_map m p) = map_option (with_prot prot) (vm_map s p)
           else vm_map m p = vm_map s p)
     \<and> (ok \<longrightarrow> splits_at (vmentry m) (unat P) \<and> splits_at (vmentry m) (unat P + unat n))" for getflags P n prot
proof
  fix s assume a: "vm_wf s" "range_in_space P n \<and> accmode_ok getflags"
  then obtain ok m where m: "NaClVmmapChangeProt getflags s P n prot = Inr (ok, m)" "vm_wf m" "balanced s m"
    "ok = (\<forall>p \<in> pages_of P n. \<exists>x. vm_map s p = Some x \<and> page_allows getflags prot x)"
    "\<forall>p. if ok \<and> p \<in> pages_of P n
           then map_option no_offset (vm_map m p) = map_option (with_prot prot) (vm_map s p)
           else vm_map m p = vm_map s p"
    using ChangeProt_ok [of s P n getflags prot] unfolding balanced_def by blast
  moreover have "ok \<longrightarrow> splits_at (vmentry m) (unat P) \<and> splits_at (vmentry m) (unat P + unat n)"
    using ChangeProt_splits [of s P n getflags prot m] a m(1) by auto
  ultimately show "\<exists>ok m. NaClVmmapChangeProt getflags s P n prot = Inr (ok, m) \<and> vm_wf m \<and> balanced s m
      \<and> (ok = (\<forall>p \<in> pages_of P n. \<exists>x. vm_map s p = Some x \<and> page_allows getflags prot x)
         \<and> (\<forall>p. if ok \<and> p \<in> pages_of P n
               then map_option no_offset (vm_map m p) = map_option (with_prot prot) (vm_map s p)
               else vm_map m p = vm_map s p)
         \<and> (ok \<longrightarrow> splits_at (vmentry m) (unat P) \<and> splits_at (vmentry m) (unat P + unat n)))" by blast
qed simp_all

text \<open>A change of the protection of no page.\<close>

interpretation change_nothing: map_op "\<lambda>m. NaClVmmapChangeProt getflags m P 0 prot"
  "\<lambda>s. accmode_ok getflags" "\<lambda>s ok m. maps_same s m" for getflags P prot
  by unfold_locales (use ChangeProt_empty vm_same_balanced in \<open>blast, simp_all add: maps_same_def\<close>)

end
