(* ===== verification/MemCode.thy ===== *)
theory MemCode
  imports DynCodeCreate
begin

text \<open>
  What loading code leaves alone when it is called for a mapping: whatever its result, it writes
  only in the text area and touches neither the descriptors nor the memory map.
\<close>

section \<open>Regions in the text area\<close>

lemma cache_ok_upd [simp]:
  "cache_ok (nap\<lparr>host := h\<rparr>) = cache_ok nap" "cache_ok (nap\<lparr>fa_mem := m\<rparr>) = cache_ok nap"
  "cache_ok (nap\<lparr>nd_refs := R\<rparr>) = cache_ok nap" "cache_ok (nap\<lparr>dyn_regs := regs\<rparr>) = cache_ok nap"
  by (simp_all add: cache_ok_def shown_def)

text \<open>Every region of the table is a run of whole bundles in the dynamic text area.\<close>

definition regions_safe :: "('h, 'z) code_app_scheme \<Rightarrow> bool" where
  "regions_safe nap \<longleftrightarrow> regions_ok (dyn_regs nap)
     \<and> (\<forall>r \<in> set (regions (dyn_regs nap)). unat (mem_start nap) + unat (dynamic_text_start nap) \<le> dr_lo r
          \<and> dr_hi r \<le> unat (mem_start nap) + unat (dynamic_text_end nap) \<and> 32 dvd dr_lo r \<and> 32 dvd dr_hi r)"

lemma regions_safe_upd [simp]:
  "regions_safe (nap\<lparr>host := h\<rparr>) = regions_safe nap" "regions_safe (nap\<lparr>fa_mem := m\<rparr>) = regions_safe nap"
  "regions_safe (nap\<lparr>nd_refs := R\<rparr>) = regions_safe nap" "regions_safe (nap\<lparr>requests := rs\<rparr>) = regions_safe nap"
  by (simp_all add: regions_safe_def)

lemma regions_safe_frame:
  "text_frame a b \<Longrightarrow> regions_safe b = regions_safe a"
  by (simp add: text_frame_def regions_safe_def)

lemma regions_safe_create:
  assumes s: "regions_safe nap" and c: "NaClDynamicRegionCreate mem (dyn_regs nap) a n m = Inr (made, rs)"
    and r: "0 < unat n" "unat a + unat n < 2 ^ 64" "unat (mem_start nap) + unat (dynamic_text_start nap) \<le> unat a"
      "unat a + unat n \<le> unat (mem_start nap) + unat (dynamic_text_end nap)"
      "32 dvd unat a" "32 dvd unat n"
  shows "regions_safe (nap\<lparr>dyn_regs := rs\<rparr>)"
proof -
  have ok: "regions_ok (dyn_regs nap)" using s by (simp add: regions_safe_def)
  let ?i = "\<lparr>dr_start = a, dr_size = n, dr_delete_generation = - 1, dr_is_mmap = m\<rparr>"
  have "regions_ok rs" "set (regions rs) \<subseteq> insert ?i (set (regions (dyn_regs nap)))"
    using Create_ok [OF ok r(1,2), of m] create_mem [OF c] by (auto split: if_splits)
  then show ?thesis using s r(3-) by (auto simp: regions_safe_def dr_lo_def dr_hi_def)
qed

section \<open>Requests for text pages\<close>

text \<open>
  A writable view of the text: the place the host gave for some mapping of the shared memory, or the
  view cached in the state.
\<close>

definition text_view :: "text_env \<Rightarrow> ('h, 'z) code_app_scheme \<Rightarrow> u64 \<Rightarrow> u64 \<Rightarrow> bool" where
  "text_view env nap a n \<longleftrightarrow> (\<exists>sz off. a = e_shm_map env sz off \<and> n = ucast sz)
     \<or> mapcache_size nap \<noteq> 0 \<and> a = mapcache_ret nap \<and> n = ucast (mapcache_size nap)"

text \<open>
  What mapping the text area may ask for: pages of the dynamic text become readable and executable,
  the shared memory behind them is mapped elsewhere for reading and writing, and only such a view is
  unmapped.
\<close>

definition text_request :: "text_env \<Rightarrow> ('h, 'z) code_app_scheme \<Rightarrow> mem_request \<Rightarrow> bool" where
  "text_request env nap q =
     (case q of
        Host_mprotect a n p \<Rightarrow> p = prot_read_exec \<and> unat (mem_start nap) + unat (dynamic_text_start nap) \<le> unat a
          \<and> unat a + unat n \<le> unat (mem_start nap) + unat (dynamic_text_end nap)
      | Text_Map a n p f off \<Rightarrow> a = 0 \<and> p = prot_read_write \<and> f = 1
          \<and> unat off + unat n \<le> unat (dynamic_text_end nap) - unat (dynamic_text_start nap)
      | Host_munmap a n \<Rightarrow> text_view env nap a n
      | _ \<Rightarrow> False)"

definition text_asks :: "text_env \<Rightarrow> ('h, 'z) code_app_scheme \<Rightarrow> ('h, 'z) code_app_scheme \<Rightarrow> bool" where
  "text_asks env a b \<longleftrightarrow> mem_start b = mem_start a \<and> dynamic_text_start b = dynamic_text_start a
     \<and> dynamic_text_end b = dynamic_text_end a
     \<and> (\<exists>rs. requests b = rs @ requests a \<and> list_all (text_request env a) rs)
     \<and> (mapcache_size b \<noteq> 0 \<longrightarrow> text_view env a (mapcache_ret b) (ucast (mapcache_size b)))"

lemma text_asks_refl [simp]: "text_asks env a a"
  by (simp add: text_asks_def text_view_def)

lemma text_asks_view: "text_asks env a b \<Longrightarrow> text_view env b x n \<Longrightarrow> text_view env a x n"
proof -
  assume a: "text_asks env a b" and v: "text_view env b x n"
  show ?thesis
  proof (cases "\<exists>sz off. x = e_shm_map env sz off \<and> n = ucast sz")
    case True
    then show ?thesis by (simp add: text_view_def)
  next
    case False
    then show ?thesis using a v by (auto simp: text_view_def [of env b] text_asks_def)
  qed
qed

lemma text_asks_request: "text_asks env a b \<Longrightarrow> text_request env b q \<Longrightarrow> text_request env a q"
  using text_asks_view [of env a b] by (cases q) (simp_all add: text_request_def text_asks_def)

lemma text_asks_trans:
  assumes "text_asks env a b" "text_asks env b c"
  shows "text_asks env a c"
proof -
  obtain rs where rs: "requests b = rs @ requests a" "list_all (text_request env a) rs"
    using assms(1) unfolding text_asks_def by blast
  obtain qs where qs: "requests c = qs @ requests b" "list_all (text_request env b) qs"
    using assms(2) unfolding text_asks_def by blast
  have "list_all (text_request env a) qs" using qs(2) text_asks_request [OF assms(1)] by (auto simp: list_all_iff)
  then have "\<exists>rs. requests c = rs @ requests a \<and> list_all (text_request env a) rs"
    using rs qs(1) by (intro exI [of _ "qs @ rs"]) simp
  then show ?thesis using assms text_asks_view [OF assms(1)] by (simp add: text_asks_def)
qed

lemma text_request_upd [simp]:
  "text_request env (a\<lparr>fa_mem := m\<rparr>) = text_request env a" "text_request env (a\<lparr>dyn_regs := t\<rparr>) = text_request env a"
  by (simp_all add: fun_eq_iff text_request_def text_view_def split: mem_request.split)

lemma text_asks_upd [simp]:
  "text_asks env a (b\<lparr>fa_mem := m\<rparr>) = text_asks env a b" "text_asks env (a\<lparr>fa_mem := m\<rparr>) b = text_asks env a b"
  "text_asks env a (b\<lparr>dyn_regs := t\<rparr>) = text_asks env a b" "text_asks env (a\<lparr>dyn_regs := t\<rparr>) b = text_asks env a b"
  "text_asks env a (b\<lparr>delete_generation := g\<rparr>) = text_asks env a b"
  "text_asks env a (b\<lparr>natp_generation := ng\<rparr>) = text_asks env a b"
  by (simp_all add: text_asks_def text_view_def)

lemma text_asks_one:
  "mem_start b = mem_start a \<Longrightarrow> dynamic_text_start b = dynamic_text_start a \<Longrightarrow> dynamic_text_end b = dynamic_text_end a
    \<Longrightarrow> requests b = q # requests a \<Longrightarrow> text_request env a q \<Longrightarrow> mapcache_size b = mapcache_size a \<Longrightarrow> mapcache_ret b = mapcache_ret a
    \<Longrightarrow> text_asks env a b"
  by (auto simp: text_asks_def text_view_def intro!: exI [of _ "[q]"])

lemma visible_asks:
  assumes area: "text_area_ok nap" and r: "p \<le> q" "q * 65536 \<le> unat (dynamic_text_end nap) - unat (dynamic_text_start nap)"
    and m: "MakeDynamicCodePagesVisible env nap p q = Inr nap'"
  shows "text_asks env nap nap'"
proof -
  let ?a = "mem_start nap + dynamic_text_start nap + of_nat p * 65536"
  have sp: "space_ok nap" and te: "unat (dynamic_text_start nap) < unat (dynamic_text_end nap)"
    "unat (dynamic_text_end nap) \<le> unat (addr_limit nap)" using area by (simp_all add: text_area_ok_def)
  have top: "unat (mem_start nap) + unat (dynamic_text_end nap) \<le> 2 ^ 47" using space_top [OF sp] te by simp
  have P: "unat NACL_MAP_PAGESIZE = 65536" "NACL_MAP_PAGESIZE = 65536" by (simp_all add: NACL_MAP_PAGESIZE_def)
  have "requests nap' = Host_mprotect (text_page_addr nap p + mem_start nap) (of_nat ((q - p) * unat NACL_MAP_PAGESIZE)) prot_read_exec
      # requests nap"
    using m by (auto simp: MakeDynamicCodePagesVisible_def Let_def NaClUserToSys_def split: if_splits)
  moreover have "text_page_addr nap p + mem_start nap = ?a" unfolding text_page_addr_def P(2) by (simp add: add.commute add.left_commute)
  ultimately have n: "requests nap' = Host_mprotect ?a (of_nat ((q - p) * 65536)) prot_read_exec # requests nap" unfolding P by simp
  have n2: "mapcache_size nap' = mapcache_size nap" "mapcache_ret nap' = mapcache_ret nap"
    "mem_start nap' = mem_start nap" "dynamic_text_start nap' = dynamic_text_start nap" "dynamic_text_end nap' = dynamic_text_end nap"
    using m by (auto simp: MakeDynamicCodePagesVisible_def Let_def split: if_splits)
  have pq: "p * 65536 \<le> q * 65536" using r(1) by simp
  have b: "unat (mem_start nap + dynamic_text_start nap) = unat (mem_start nap) + unat (dynamic_text_start nap)"
    using top te by (intro unat_add_nowrap) simp
  have pw: "unat (of_nat p * 65536 :: u64) = p * 65536"
    using pq r(2) top unat_of_nat [of "p * 65536", where ?'a = 64] by simp
  have "unat ?a = unat (mem_start nap) + unat (dynamic_text_start nap) + p * 65536"
    using pq r(2) top te b pw unat_add_nowrap [of "mem_start nap + dynamic_text_start nap" "of_nat p * 65536"] by simp
  moreover have "unat (of_nat ((q - p) * 65536) :: u64) = (q - p) * 65536"
    using r(2) top by (simp add: unat_of_nat diff_mult_distrib)
  ultimately have "text_request env nap (Host_mprotect ?a (of_nat ((q - p) * 65536)) prot_read_exec)"
    using pq r(2) te(1) by (simp add: text_request_def diff_mult_distrib)
  then show ?thesis using n n2 by (intro text_asks_one) simp_all
qed

lemma show_pages_asks:
  "show_pages env nap cur e = Inr nap' \<Longrightarrow> text_area_ok nap
    \<Longrightarrow> e * 65536 \<le> unat (dynamic_text_end nap) - unat (dynamic_text_start nap) \<Longrightarrow> text_asks env nap nap'"
proof (induction env nap cur e arbitrary: nap' rule: show_pages.induct)
  case (1 env nap cur e)
  show ?case
  proof (cases "cur < e")
    case True
    let ?stop = "run_end (dynamic_page_bitmap nap) cur e"
    have st: "?stop \<le> e" using run_end_ok [of cur e "dynamic_page_bitmap nap"] True by simp
    obtain nap1 where s: "(if ?stop > cur then MakeDynamicCodePagesVisible env nap cur ?stop else Inr nap) = Inr nap1"
      "show_pages env nap1 (?stop + 1) e = Inr nap'"
      using 1(2) True by (auto simp: show_pages.simps [of env nap cur] Let_def)
    have f: "text_frame nap nap1" using s(1) visible_frame by (auto split: if_splits)
    have a: "text_asks env nap nap1"
      using s(1) visible_asks [OF 1(3), of cur ?stop env nap1] st 1(4) by (auto split: if_splits)
    have "text_asks env nap1 nap'"
      by (rule 1(1) [OF True refl s(2)]) (use f 1(3,4) text_area_frame [OF f] in \<open>simp_all add: text_frame_def\<close>)
    then show ?thesis using a text_asks_trans by blast
  next
    case False
    then show ?thesis using 1(2) by (simp add: show_pages.simps [of env nap cur])
  qed
qed

lemma drop_mapcache_asks: "text_asks env nap (drop_mapcache nap)" "mapcache_size (drop_mapcache nap) = 0"
proof -
  show "text_asks env nap (drop_mapcache nap)"
  proof (cases "mapcache_size nap = 0")
    case True
    then show ?thesis by (simp add: drop_mapcache_def)
  next
    case False
    then have "text_request env nap (Host_munmap (mapcache_ret nap) (ucast (mapcache_size nap)))"
      by (simp add: text_request_def text_view_def)
    then show ?thesis using False by (auto simp: drop_mapcache_def text_asks_def word_neq_0_conv intro!: exI [of _ "[_]"])
  qed
qed (simp add: drop_mapcache_def word_gt_0)

lemma cached_asks:
  assumes area: "text_area_ok nap" and r: "unat off + unat sz \<le> unat (dynamic_text_end nap) - unat (dynamic_text_start nap)"
    and c: "CachedMapWritableText env nap off sz = Inr (r, nap')"
  shows "text_asks env nap nap'"
proof (cases "off \<noteq> mapcache_offset nap \<or> sz \<noteq> mapcache_size nap")
  case False
  then show ?thesis using c by (auto simp: CachedMapWritableText_def)
next
  case miss: True
  let ?d = "drop_mapcache nap"
  let ?q = "Text_Map 0 (ucast sz) prot_read_write 1 (ucast off)"
  let ?n = "?d\<lparr>requests := ?q # requests ?d\<rparr>"
  note d = drop_mapcache_asks(1) [of env nap]
  have q: "text_request env nap ?q" using r by (simp add: text_request_def unat_ucast_64)
  have dl: "mem_start ?d = mem_start nap" "dynamic_text_start ?d = dynamic_text_start nap" "dynamic_text_end ?d = dynamic_text_end nap"
    using d by (simp_all add: text_asks_def)
  have "text_request env ?d ?q" using q dl by (simp add: text_request_def)
  then have "text_asks env ?d ?n" by (intro text_asks_one) simp_all
  then have n: "text_asks env nap ?n" using d text_asks_trans by blast
  show ?thesis
  proof (cases "sz = 0")
    case True
    then show ?thesis using c miss d by (simp add: CachedMapWritableText_def Let_def)
  next
    case sz: False
    show ?thesis
    proof (cases "NaClPtrIsNegErrno (e_shm_map env sz off)")
      case True
      then show ?thesis using c miss sz n by (simp add: CachedMapWritableText_def Let_def word_neq_0_conv)
    next
      case False
      obtain nap3 where s: "show_pages env ?n (unat (off div 0x10000)) (unat ((off + sz) div 0x10000)) = Inr nap3"
        "nap' = nap3\<lparr>mapcache_offset := off, mapcache_size := sz, mapcache_ret := e_shm_map env sz off\<rparr>"
        using c miss sz False by (auto simp: CachedMapWritableText_def Let_def word_neq_0_conv)
      have "unat (dynamic_text_end nap) \<le> 2 ^ 31" using area by (simp add: text_area_ok_def)
      then have "unat (off + sz) = unat off + unat sz" using r by (intro unat_add_nowrap) simp
      then have "unat ((off + sz) div 0x10000) * 65536 \<le> unat (dynamic_text_end nap) - unat (dynamic_text_start nap)"
        using r by (simp add: unat_div)
      moreover have "text_area_ok ?n" using area text_area_frame [of nap ?n] by simp
      ultimately have "text_asks env ?n nap3" using show_pages_asks [OF s(1)] dl by simp
      then have "text_asks env nap nap3" using n text_asks_trans by blast
      then show ?thesis unfolding s(2) by (auto simp: text_asks_def text_view_def)
    qed
  qed
qed

lemma wrapper_asks:
  assumes area: "text_area_ok nap" and d: "unat (dynamic_text_start nap) \<le> unat dest"
    "unat dest + unat sz \<le> unat (dynamic_text_end nap)" "sz \<noteq> 0"
    and w: "NaClTextMapWrapper env nap dest sz = Inr (mapped, nap')"
  shows "text_asks env nap nap'"
proof -
  let ?ts = "unat (dynamic_text_start nap)" and ?te = "unat (dynamic_text_end nap)"
  let ?o = "dest - ucast (dynamic_text_start nap)"
  let ?off = "?o AND NOT 0xffff" and ?ms = "((?o + sz + 0x10000 - 1) AND NOT 0xffff) - (?o AND NOT 0xffff)"
  have m: "65536 dvd ?ts" "65536 dvd ?te" "?te \<le> 2 ^ 31" using area by (simp_all add: text_area_ok_def)
  then have "unat dest + unat sz \<le> 2 ^ 32" using d by simp
  note o = wrapper_offsets [OF area d(1) this d(3)]
  have "65536 dvd ?te - ?ts" using m by (simp add: dvd_diff_nat)
  then have "unat ?off + unat ?ms \<le> ?te - ?ts" unfolding o(5) using d o(1) by (intro nat_round_up_le) simp_all
  moreover obtain r nap1 where "CachedMapWritableText env nap ?off ?ms = Inr (r, nap1)" "nap' = nap1"
    using w unfolding NaClTextMapWrapper_def Let_def by (auto split: if_splits)
  ultimately show ?thesis using cached_asks [OF area] by blast
qed

lemma clear_asks:
  assumes "text_area_ok nap" "NaClTextMapClearCacheIfNeeded env nap dest sz = Inr nap'"
  shows "text_asks env nap nap'"
proof (cases "nap' = nap")
  case False
  then obtain r where "CachedMapWritableText env nap 0 0 = Inr (r, nap')"
    using assms(2) by (auto simp: NaClTextMapClearCacheIfNeeded_def Let_def split: if_splits)
  then show ?thesis using cached_asks [OF assms(1), of 0 0] by simp
qed simp

section \<open>Creating code\<close>

lemma range_page_area:
  assumes area: "text_area_ok nap" and k: "text_page nap x \<in> range_pages nap dest sz"
    and d: "unat (dynamic_text_start nap) \<le> unat dest" "unat dest + unat sz \<le> unat (dynamic_text_end nap)"
  shows "unat (mem_start nap) + unat (dynamic_text_start nap) \<le> unat x
    \<and> unat x < unat (mem_start nap) + unat (dynamic_text_end nap)"
proof -
  let ?ts = "unat (dynamic_text_start nap)" and ?te = "unat (dynamic_text_end nap)"
  let ?R = "nat_round_up 16 (unat dest - ?ts + unat sz)"
  have m: "65536 dvd ?ts" "65536 dvd ?te" "?ts < ?te" "?te \<le> 2 ^ 31" using area by (simp_all add: text_area_ok_def)
  then have "65536 dvd ?te - ?ts" by (simp add: dvd_diff_nat)
  then have R: "?R \<le> ?te - ?ts" using d m(3) by (intro nat_round_up_le) simp_all
  have Rd: "65536 dvd ?R" using nat_round_up_dvd [of 16] by simp
  then have dv: "?R div 65536 * 65536 = ?R" by simp
  have lt: "text_page nap x < ?R div 65536" using k by (simp add: range_pages_def)
  have tot: "?ts + ?R div 65536 * 65536 \<le> 2 ^ 32" unfolding dv using R m(3,4) by simp
  show ?thesis using text_page_in_area [OF area lt tot, unfolded dv] R m(3) by auto
qed

lemma dyncode_frame:
  assumes area: "text_area_ok nap" and env: "cache_ok nap" "shm_limit env" "keeps_length env"
    and code: "length code = unat sz" "unat dest + unat sz < 2 ^ 32"
    and res: "NaClTextDyncodeCreate env nap dest code sz meta = Inr (r, nap')"
  shows "(\<exists>rs. text_frame (nap\<lparr>dyn_regs := rs\<rparr>) nap') \<and> cache_ok nap' \<and> text_asks env nap nap' \<and> (regions_safe nap \<longrightarrow> regions_safe nap')
    \<and> (\<forall>x. fa_mem nap' x \<noteq> fa_mem nap x \<longrightarrow> unat (mem_start nap) + unat (dynamic_text_start nap) \<le> unat x
         \<and> unat x < unat (mem_start nap) + unat (dynamic_text_end nap))"
proof -
  let ?d = "NaClUserToSysAddrRange nap (ucast dest) (ucast sz)" and ?a = "ucast dest + mem_start nap"
  have sp: "space_ok nap" and bs: "bundle_size nap = 32" using area by (simp_all add: text_area_ok_def)
  have s32: "scast (32 :: u32) = (32 :: u64)" by simp
  have stop: "\<exists>rs. text_frame (nap\<lparr>dyn_regs := rs\<rparr>) nap" by (rule exI [of _ "dyn_regs nap"]) simp
  obtain st code1 where v: "NaClValidateCode env nap (ucast dest) code meta = (st, code1)" by fastforce
  have len: "length code1 = unat sz" using validated_length [OF env(3) v] code(1) by simp
  define code2 where "code2 = (if \<not> skip_validator nap then code1 else code)"
  have len2: "length code2 = unat sz" using len code(1) by (simp add: code2_def)
  consider (stop) "nap' = nap"
    | (go) "?d \<noteq> kNaClBadAddress" "dest AND 31 = 0" "sz AND 31 = 0" "\<not> ucast dest < dynamic_text_start nap"
        "\<not> ucast (dest + sz) > dynamic_text_end nap - NACL_HALT_SLED_SIZE" "sz \<noteq> 0"
        "ebind (NaClDynamicRegionCreate (e_mem env) (dyn_regs nap) ?d (ucast sz) False) (\<lambda>(made, rs).
          let nap1 = nap\<lparr>dyn_regs := rs\<rparr>
          in if \<not> made then Inr (- NACL_ABI_EINVAL, nap1)
             else ebind (NaClTextMapWrapper env nap1 dest sz) (\<lambda>(mapped, nap2).
               case mapped of
                 None \<Rightarrow> Inr (- NACL_ABI_ENOMEM, nap2)
               | Some mapped_addr \<Rightarrow>
                   ebind (CopyCodeSafelyInitial mapped_addr code2 (unat sz) 32 (fa_mem nap2)) (\<lambda>m.
                   ebind (NaClTextMapClearCacheIfNeeded env (nap2\<lparr>fa_mem := m\<rparr>) dest sz) (\<lambda>nap3.
                     Inr (0, nap3))))) = Inr (r, nap')"
    using res v unfolding NaClTextDyncodeCreate_def Let_def bs s32 code2_def
    by (simp del: ebind_eq_Inr split: if_splits)
  then show ?thesis
  proof cases
    case stop
    then show ?thesis using \<open>\<exists>rs. text_frame (nap\<lparr>dyn_regs := rs\<rparr>) nap\<close> env(1) by simp
  next
    case go
    have da: "?d = ?a" using range_ok [OF sp refl go(1)] by simp
    have ts: "unat (dynamic_text_start nap) \<le> unat dest" using go(4) by (simp add: word_nat unat_ucast_64 not_less)
    have te: "unat dest + unat sz + 32 \<le> unat (dynamic_text_end nap)" by (rule create_bound [OF area code(2) go(5)])
    have au: "unat ?a = unat dest + unat (mem_start nap)"
      using range_ok [OF sp refl go(1)] unat_user_to_sys [OF sp, of "ucast dest"] by (simp add: unat_ucast_64)
    have top: "unat ?a + unat sz < 2 ^ 64" using user_range [OF sp refl go(1)] da by (simp add: unat_ucast_64)
    obtain made rs where c: "NaClDynamicRegionCreate (e_mem env) (dyn_regs nap) ?d (ucast sz) False = Inr (made, rs)"
      using go(7) by auto
    let ?nap1 = "nap\<lparr>dyn_regs := rs\<rparr>"
    have area1: "text_area_ok ?nap1" "cache_ok ?nap1" "range_pages ?nap1 dest sz = range_pages nap dest sz" "text_page ?nap1 = text_page nap"
      using area env(1) by (simp_all add: text_area_ok_def space_ok_def addr_limit_def cache_ok_def shown_def range_pages_def
          text_page_def fun_eq_iff)
    have d32: "32 dvd unat dest" "32 dvd unat sz"
      using go(2,3) unat_and_mask [of dest 5] unat_and_mask [of sz 5] by (simp_all add: mask_eq_exp_minus_1 dvd_eq_mod_eq_0)
    have "32 dvd unat (mem_start nap)" using sp by (auto simp: space_ok_def intro: dvd_trans [of 32 "2 ^ 32"])
    then have a32: "32 dvd unat ?a" unfolding au using d32(1) by (rule dvd_add [rotated])
    have "0 < unat (ucast sz :: u64)" using go(6) by (simp add: unat_ucast_64 unat_gt_0)
    from regions_safe_create [OF _ c this]
    have rsafe: "regions_safe nap \<longrightarrow> regions_safe ?nap1" using da au ts te top a32 d32(2) by (simp add: unat_ucast_64)
    have in_text: "unat (mem_start nap) + unat (dynamic_text_start nap) \<le> unat x
         \<and> unat x < unat (mem_start nap) + unat (dynamic_text_end nap)"
      if "text_page nap x \<in> range_pages nap dest sz" for x
      by (rule range_page_area [OF area that ts]) (use te in simp)
    have asks1: "text_asks env nap b = text_asks env ?nap1 b" for b by simp
    show ?thesis
    proof (cases made)
      case False
      then have "nap' = ?nap1" using go(7) c by (simp add: Let_def)
      then show ?thesis using area1(2) rsafe by (intro conjI exI [of _ rs]) simp_all
    next
      case True
      obtain mapped nap2 where w: "NaClTextMapWrapper env ?nap1 dest sz = Inr (mapped, nap2)" using go(7) c True by (auto simp: Let_def)
      have wok: "case mapped of
          None \<Rightarrow> \<exists>ks. shows_pages ks ?nap1 nap2 \<and> ks \<subseteq> range_pages ?nap1 dest sz
        | Some a \<Rightarrow> a = ?a \<and> shows_pages (range_pages ?nap1 dest sz) ?nap1 nap2" "cache_ok nap2"
        using wrapper_ok [OF area1(1) _ _ go(6) area1(2) env(2) w] ts code(2) by (auto split: option.splits)
      have wasks: "text_asks env nap nap2" unfolding asks1 by (rule wrapper_asks [OF area1(1) _ _ go(6) w]) (use ts te in simp_all)
      show ?thesis
      proof (cases mapped)
        case None
        then have n: "nap' = nap2" using go(7) c True w by (simp add: Let_def)
        then have "regions_safe nap \<longrightarrow> regions_safe nap'" using rsafe wok None regions_safe_frame [of ?nap1 nap2] by (auto simp: shows_pages_def)
        then show ?thesis using n wok wasks None area1(3,4) in_text by (fastforce simp: shows_pages_def)
      next
        case (Some b)
        then have b: "b = ?a" and sh: "shows_pages (range_pages nap dest sz) ?nap1 nap2" using wok area1(3) by simp_all
        have cp: "CopyCodeSafelyInitial ?a code2 (unat sz) 32 (fa_mem nap2) = Inr (write_bytes ?a code2 (fa_mem nap2))"
          by (rule copy_code [OF a32 len2 d32(2)]) (use top in simp)
        let ?nap2 = "nap2\<lparr>fa_mem := write_bytes ?a code2 (fa_mem nap2)\<rparr>"
        have cl: "NaClTextMapClearCacheIfNeeded env ?nap2 dest sz = Inr nap'"
          using go(7) c True w Some b cp by (auto simp: Let_def)
        have m: "fa_mem nap' = write_bytes ?a code2 (fa_mem nap2)" using clear_cache_mem [OF cl] by simp
        have "text_frame ?nap1 nap2" using sh by (simp add: shows_pages_def)
        then have "text_frame ?nap1 ?nap2" by (simp add: text_frame_def)
        then have "text_frame ?nap1 nap'" using clear_cache_frame [OF cl] by (rule text_frame_trans)
        then have "regions_safe nap \<longrightarrow> regions_safe nap'" "text_frame ?nap1 nap'" using rsafe regions_safe_frame by blast+
        moreover have "unat (mem_start nap) + unat (dynamic_text_start nap) \<le> unat x
            \<and> unat x < unat (mem_start nap) + unat (dynamic_text_end nap)" if ch: "fa_mem nap' x \<noteq> fa_mem nap x" for x
        proof (cases "fa_mem nap2 x = fa_mem nap x")
          case True
          then have "\<not> (unat x < unat ?a \<or> unat ?a + length code2 \<le> unat x)"
            using write_bytes_other [of ?a code2 x "fa_mem nap2"] top len2 ch unfolding m by auto
          then show ?thesis using len2 au ts te by linarith
        next
          case False
          then show ?thesis using sh area1(4) in_text by (auto simp: shows_pages_def)
        qed
        moreover have "cache_ok nap'" using clear_cache_ok [OF _ cl] wok(2) by simp
        moreover have "text_asks env nap nap'"
        proof -
          have "text_area_ok ?nap2" using area1(1) text_area_frame [OF \<open>text_frame ?nap1 ?nap2\<close>] by simp
          from clear_asks [OF this cl] show ?thesis using wasks text_asks_trans by fastforce
        qed
        ultimately show ?thesis by blast
      qed
    qed
  qed
qed

end
