(* ===== verification/MemUnmap.thy ===== *)
theory MemUnmap
  imports MemInv MemCode
begin

text \<open>
  What each memory call keeps, and \<open>NaClSysMunmap\<close>: it never touches the map or the memory outside
  the pages it is given, and when it returns 0 exactly these are unmapped.
\<close>

section \<open>Frames\<close>

text \<open>
  \<open>mmap\<close> with \<open>MAP_FIXED\<close> that succeeds returns the address it was given; \<open>GetFlags\<close> gives one of
  the three access modes.
\<close>

definition host_ok :: "'h mem_env \<Rightarrow> bool" where
  "host_ok env \<longleftrightarrow> accmode_ok (me_GetFlags env)
     \<and> (\<forall>start len prot flags fd off h. flags AND 0x10 \<noteq> 0 \<and> fst (me_mmap env start len prot flags fd off h) = 0
          \<longrightarrow> fst (snd (me_mmap env start len prot flags fd off h)) = start)"

lemma cache_ok_mem_upd [simp]:
  "cache_ok (nap\<lparr>mem_map := vm\<rparr>) = cache_ok nap" "cache_ok (nap\<lparr>requests := rs\<rparr>) = cache_ok nap"
  "cache_ok (nap\<lparr>break_addr := b\<rparr>) = cache_ok nap"
  "regions_safe (nap\<lparr>mem_map := vm\<rparr>) = regions_safe nap" "regions_safe (nap\<lparr>requests := rs\<rparr>) = regions_safe nap"
  "regions_safe (nap\<lparr>break_addr := b\<rparr>) = regions_safe nap"
  by (simp_all add: cache_ok_def shown_def regions_safe_def)

lemma cache_ok_store [simp]:
  "cache_ok (store_counts env m nap) = cache_ok nap" "regions_safe (store_counts env m nap) = regions_safe nap"
  by (simp_all add: store_counts_def)

text \<open>The layout of the address space stays, and the cache of the writable text stays valid.\<close>

definition same_layout :: "'h mem_app \<Rightarrow> 'h mem_app \<Rightarrow> bool" where
  "same_layout a b \<longleftrightarrow> addr_bits b = addr_bits a \<and> mem_start b = mem_start a
     \<and> dynamic_text_start b = dynamic_text_start a \<and> dynamic_text_end b = dynamic_text_end a
     \<and> data_end b = data_end a \<and> bundle_size b = bundle_size a \<and> access_faults b = access_faults a
     \<and> (cache_ok a \<longrightarrow> cache_ok b)
     \<and> (regions_safe a \<longrightarrow> regions_safe b)"

lemma same_layout_refl [simp]: "same_layout a a"
  by (simp add: same_layout_def)

lemma same_layout_trans: "same_layout a b \<Longrightarrow> same_layout b c \<Longrightarrow> same_layout a c"
  by (simp add: same_layout_def)

text \<open>In addition the cache itself stays: a step that does not touch the text.\<close>

definition same_view :: "'h mem_app \<Rightarrow> 'h mem_app \<Rightarrow> bool" where
  "same_view a b \<longleftrightarrow> same_layout a b \<and> mapcache_size b = mapcache_size a \<and> mapcache_ret b = mapcache_ret a"

lemma same_view_refl [simp]: "same_view a a"
  by (simp add: same_view_def)

text \<open>Memory changes only in \<open>n\<close> bytes from \<open>a\<close>.\<close>

definition writes_in :: "nat \<Rightarrow> nat \<Rightarrow> bytes \<Rightarrow> bytes \<Rightarrow> bool" where
  "writes_in a n m m' \<longleftrightarrow> (\<forall>x. m' x \<noteq> m x \<longrightarrow> a \<le> unat x \<and> unat x < a + n)"

lemma writes_in_refl [simp]: "writes_in a n m m"
  by (simp add: writes_in_def)

lemma writes_in_mono: "writes_in a n m m' \<Longrightarrow> b \<le> a \<Longrightarrow> a + n \<le> b + k \<Longrightarrow> writes_in b k m m'"
  unfolding writes_in_def by fastforce

lemma writes_in_trans: "writes_in a n m m' \<Longrightarrow> writes_in a n m' m'' \<Longrightarrow> writes_in a n m m''"
  unfolding writes_in_def by metis

lemma put_region_writes:
  assumes "unat a + unat n \<le> 2 ^ 64"
  shows "writes_in (unat a) (unat n) m (put_region a n f m)"
  unfolding writes_in_def
proof (intro allI impI)
  fix x assume "put_region a n f m x \<noteq> m x"
  then have lt: "x - a < n" by (auto simp: put_region_def split: if_splits)
  then have "unat (x - a) + unat a < 2 ^ 64" using assms by (simp add: word_nat)
  then have "unat x = unat (x - a) + unat a" using unat_add_nowrap [of "x - a" a] by simp
  then show "unat a \<le> unat x \<and> unat x < unat a + unat n" using lt by (simp add: word_nat)
qed

lemma mem_inv_upd [simp]:
  "mem_inv E S F (nap\<lparr>host := h\<rparr>) = mem_inv E S F nap"
  "mem_inv E S F (nap\<lparr>fa_mem := m\<rparr>) = mem_inv E S F nap"
  "mem_inv E S F (nap\<lparr>requests := rs\<rparr>) = mem_inv E S F nap"
  by (simp_all add: mem_inv_def fd_inv_def space_ok_def text_mapped_def)

lemma mem_invD:
  assumes "mem_inv E S F nap"
  shows "fd_inv (\<lambda>n. map_refs (mem_map nap) n + E n) S F nap" "vm_wf (mem_map nap)" "space_ok nap"
    "text_mapped nap (mem_map nap)" "dynamic_text_end nap \<le> data_end nap" "data_end nap \<le> break_addr nap"
    "16 \<le> unat (addr_bits nap)"
  using assms by (simp_all add: mem_inv_def fd_inv_def)

lemma text_mapped_space: "dynamic_text_end b = dynamic_text_end a \<Longrightarrow> text_mapped b m = text_mapped a m"
  by (simp add: text_mapped_def)

lemma mem_inv_store:
  assumes "mem_inv E S F nap" "fd_inv (\<lambda>n. map_refs m n + E n) S F (store_counts env m nap)" "vm_wf m"
    "text_mapped nap m"
  shows "mem_inv E S F (store_counts env m nap)"
  using assms by (simp add: mem_inv_def text_mapped_def)

text \<open>An operation that changes no page below the end of the text keeps some text mapped.\<close>

lemma text_mapped_keep:
  assumes "text_mapped nap s" "\<And>p. p * 4096 < unat (dynamic_text_end nap) \<Longrightarrow> vm_map m p = vm_map s p"
  shows "text_mapped nap m"
  using assms unfolding text_mapped_def by metis

section \<open>Pages of an address range\<close>

text \<open>A range of user data: whole pages above the text and inside the sandbox.\<close>

definition data_pages :: "'a nacl_space_scheme \<Rightarrow> u64 \<Rightarrow> u64 \<Rightarrow> bool" where
  "data_pages nap u n \<longleftrightarrow> 4096 dvd unat u \<and> 4096 dvd unat n \<and> 0 < unat n
     \<and> unat (dynamic_text_end nap) \<le> unat u \<and> unat u + unat n \<le> unat (addr_limit nap)"

lemma data_pages_range:
  assumes "space_ok nap" "data_pages nap u n"
  defines "P \<equiv> drop_bit NACL_PAGESHIFT u" and "k \<equiv> drop_bit NACL_PAGESHIFT n"
  shows "range_in_space P k" "pages_of P k = {unat u div 4096 ..< (unat u + unat n) div 4096}"
    "\<forall>p \<in> pages_of P k. unat (dynamic_text_end nap) \<le> p * 4096"
    "unat (NaClRoundPage n) = unat n"
proof -
  have u: "unat P = unat u div 4096" "unat k = unat n div 4096"
    by (simp_all add: P_def k_def NACL_PAGESHIFT_def unat_drop_bit_div)
  have d: "4096 dvd unat u" "4096 dvd unat n" "0 < unat n" "unat u + unat n \<le> 2 ^ 32"
    "unat (dynamic_text_end nap) \<le> unat u"
    using assms(2) addr_limit_le [OF assms(1)] by (auto simp: data_pages_def)
  then obtain i j where ij: "unat u = 4096 * i" "unat n = 4096 * j" by (auto elim!: dvdE)
  have "0 < unat k" "unat P + unat k \<le> 2 ^ 20" using d ij u by auto
  then show "range_in_space P k" by (simp add: range_in_space_def vm_pages_def word_nat)
  show "pages_of P k = {unat u div 4096 ..< (unat u + unat n) div 4096}"
    using ij u by (simp add: pages_of_def)
  show "\<forall>p \<in> pages_of P k. unat (dynamic_text_end nap) \<le> p * 4096"
    using d(5) ij u by (auto simp: pages_of_def)
  have "unat n < 2 ^ 63" using d(4) by simp
  then show "unat (NaClRoundPage n) = unat n"
    using unat_NaClRoundPage [of n] nat_round_up_id [of 12 "unat n"] d(2) by simp
qed

section \<open>Unmapping\<close>

lemma xlate_nonzero: "e \<noteq> 0 \<Longrightarrow> NaClXlateErrno e \<noteq> 0"
  by (auto simp: NaClXlateErrno_def NACL_ABI_EINVAL_def)

text \<open>The effect of a successful \<open>MunmapInternal\<close> on the pages of a range.\<close>

definition unmapped :: "u64 \<Rightarrow> u64 \<Rightarrow> vmmap \<Rightarrow> vmmap \<Rightarrow> bool" where
  "unmapped u n s m \<longleftrightarrow>
     (\<forall>p. vm_map m p = (if unat u div 4096 \<le> p \<and> p < (unat u + unat n) div 4096 then None else vm_map s p))"

lemma MunmapInternal_ok:
  assumes inv: "mem_inv E S F nap" and host: "host_ok env" and d: "data_pages nap u n"
    and a: "sysaddr = u + mem_start nap"
  shows "MunmapInternal env sysaddr n nap = Inl Log_fatal
    \<or> (\<exists>r nap'. MunmapInternal env sysaddr n nap = Inr (r, nap') \<and> mem_inv E S F nap' \<and> same_view nap nap'
        \<and> requests nap' = Host_mmap sysaddr n 0 0x32 # requests nap \<and> break_addr nap' = break_addr nap
        \<and> writes_in (unat sysaddr) (unat n) (fa_mem nap) (fa_mem nap')
        \<and> (if r = 0 then unmapped u n (mem_map nap) (mem_map nap') else mem_map nap' = mem_map nap))"
proof -
  have sp: "space_ok nap" using inv by (rule mem_invD)
  note r = data_pages_range [OF sp d]
  have u: "unat sysaddr = unat u + unat (mem_start nap)" "unat u + unat n \<le> unat (addr_limit nap)" "u < addr_limit nap"
    using d unat_user_to_sys [OF sp, of u] by (auto simp: data_pages_def a word_nat)
  obtain e b f h where m: "me_mmap env sysaddr n 0 0x32 (- 1) 0 (host nap) = (e, b, f, h)"
    by (cases "me_mmap env sysaddr n 0 0x32 (- 1) 0 (host nap)") auto
  let ?nap0 = "nap\<lparr>host := h, requests := Host_mmap sysaddr n 0 0x32 # requests nap\<rparr>"
  show ?thesis
  proof (cases "e = 0")
    case False
    then have "MunmapInternal env sysaddr n nap = Inr (- NaClXlateErrno e, ?nap0)"
      using m by (simp add: MunmapInternal_def host_mmap_def)
    moreover have "mem_inv E S F ?nap0" using inv by simp
    ultimately show ?thesis using xlate_nonzero [OF False] by (simp add: same_view_def same_layout_def)
  next
    case True
    have "b = sysaddr" using host m True unfolding host_ok_def
      by (elim conjE allE [of _ sysaddr] allE [of _ n] allE [of _ 0] allE [of _ "0x32"] allE [of _ "- 1"] allE [of _ "host nap"]) simp
    let ?nap1 = "?nap0\<lparr>fa_mem := put_region sysaddr (NaClRoundPage n) f (fa_mem nap)\<rparr>"
    have run: "MunmapInternal env sysaddr n nap
        = ebind (with_map env (\<lambda>m. no_result (NaClVmmapRemove m (drop_bit NACL_PAGESHIFT u) (drop_bit NACL_PAGESHIFT n))) ?nap1)
                (\<lambda>(x, nap2). Inr (0, nap2))"
      using m True \<open>b = sysaddr\<close> NaClSysToUser_of_sum [of ?nap1 u] sp u(3)
      by (simp add: MunmapInternal_def host_mmap_def a space_ok_def addr_limit_def)
    have inv1: "mem_inv E S F ?nap1" using inv by simp
    obtain q where q: "q * 4096 < unat (dynamic_text_end nap)" "vm_map (mem_map nap) q \<noteq> None"
      using mem_invD(4) [OF inv] by (auto simp: text_mapped_def)
    have pre: "range_in_space (drop_bit NACL_PAGESHIFT u) (drop_bit NACL_PAGESHIFT n)
        \<and> (\<exists>q. q \<notin> pages_of (drop_bit NACL_PAGESHIFT u) (drop_bit NACL_PAGESHIFT n) \<and> vm_map (mem_map ?nap1) q \<noteq> None)"
      using r(1,3) q by (auto intro!: exI [of _ q])
    from remove_pages.run [OF mem_invD(1,2) [OF inv1] pre, of env] show ?thesis
    proof
      assume "with_map env (\<lambda>m. no_result (NaClVmmapRemove m (drop_bit NACL_PAGESHIFT u) (drop_bit NACL_PAGESHIFT n))) ?nap1 = Inl Log_fatal"
      then show ?thesis unfolding run by simp
    next
      assume "\<exists>r m. with_map env (\<lambda>m. no_result (NaClVmmapRemove m (drop_bit NACL_PAGESHIFT u) (drop_bit NACL_PAGESHIFT n))) ?nap1
            = Inr (r, store_counts env m ?nap1)
        \<and> fd_inv (\<lambda>n. map_refs m n + E n) S F (store_counts env m ?nap1) \<and> vm_wf m
        \<and> (\<forall>p. vm_map m p = (if p \<in> pages_of (drop_bit NACL_PAGESHIFT u) (drop_bit NACL_PAGESHIFT n) then None
                               else vm_map (mem_map ?nap1) p))"
      then obtain x m where w: "with_map env (\<lambda>m. no_result (NaClVmmapRemove m (drop_bit NACL_PAGESHIFT u) (drop_bit NACL_PAGESHIFT n))) ?nap1
            = Inr (x, store_counts env m ?nap1)"
        "fd_inv (\<lambda>n. map_refs m n + E n) S F (store_counts env m ?nap1)" "vm_wf m"
        "\<forall>p. vm_map m p = (if p \<in> pages_of (drop_bit NACL_PAGESHIFT u) (drop_bit NACL_PAGESHIFT n) then None else vm_map (mem_map nap) p)"
        by auto
      have "text_mapped ?nap1 m"
        by (rule text_mapped_keep [OF mem_invD(4) [OF inv1]]) (use w(4) r(3) in fastforce)
      then have "mem_inv E S F (store_counts env m ?nap1)" using mem_inv_store [OF inv1 w(2,3)] by simp
      moreover have "unat sysaddr + unat n \<le> 2 ^ 64" using u(1,2) space_top [OF sp] by simp
      then have "writes_in (unat sysaddr) (unat n) (fa_mem nap) (fa_mem ?nap1)"
        using put_region_writes [of sysaddr "NaClRoundPage n"] r(4) by simp
      moreover have "unmapped u n (mem_map nap) m" using w(4) unfolding r(2) by (simp add: unmapped_def)
      ultimately show ?thesis unfolding run w(1) by (simp add: same_view_def same_layout_def)
    qed
  qed
qed

lemma range_page_multiple:
  assumes sp: "space_ok nap" and al: "NaClIsAllocPageMultiple u" and z: "0 < unat n" "65536 dvd unat n"
    and r: "NaClUserToSysAddrRange nap u n \<noteq> kNaClBadAddress"
    and x: "\<not> NaClSysCommonAddrRangeContainsExecutablePages nap u k"
  shows "data_pages nap u n" "NaClUserToSysAddrRange nap u n = u + mem_start nap"
proof -
  have d: "65536 dvd unat u" using al by (simp add: NaClIsAllocPageMultiple_iff)
  then have "unat (NaClTruncAllocPage u) = unat u"
    using nat_round_down_id [of 16 "unat u"] by (simp add: unat_NaClTruncAllocPage)
  then have "unat (dynamic_text_end nap) \<le> unat u"
    using x by (simp add: NaClSysCommonAddrRangeContainsExecutablePages_def word_nat not_less)
  moreover have "4096 dvd unat u" "4096 dvd unat n" using d z(2) by (auto intro: dvd_trans [of 4096 65536])
  ultimately show "data_pages nap u n" "NaClUserToSysAddrRange nap u n = u + mem_start nap"
    using range_ok [OF sp refl r] z(1) by (simp_all add: data_pages_def)
qed

lemma alloc_round_u32:
  fixes len :: u32
  defines "n \<equiv> NaClRoundAllocPage (ucast len)"
  assumes "(ucast n :: u32) \<noteq> 0"
  shows "ucast (ucast n :: u32) = n" "0 < unat n" "65536 dvd unat n" "unat len \<le> unat n" "unat n < unat len + 65536"
proof -
  have l: "unat (ucast len :: u64) = unat len" "unat len < 2 ^ 32" using unsigned_less [of len] by (simp_all add: unat_ucast_64)
  then have n: "unat n = nat_round_up 16 (unat len)" unfolding n_def using unat_NaClRoundAllocPage [of "ucast len"] by simp
  then show "65536 dvd unat n" "unat len \<le> unat n" "unat n < unat len + 65536"
    using nat_round_up_dvd [of 16] nat_round_up_ge [of "unat len" 16] nat_round_up_less [of 16 "unat len"] by simp_all
  have "unat n \<le> 2 ^ 32" unfolding n using l(2) by (intro nat_round_up_le) simp_all
  moreover have low: "unat (ucast n :: u32) = unat n mod 2 ^ 32"
    by (simp add: unsigned_ucast_eq take_bit_eq_mod)
  ultimately have lt: "unat n < 2 ^ 32" using assms(2) by (cases "unat n = 2 ^ 32") (auto simp: word_eq_unat)
  then have "unat (ucast n :: u32) = unat n" using low by simp
  then show "ucast (ucast n :: u32) = n" by (simp add: word_eq_unat [of _ n] unat_ucast_64)
  show "0 < unat n" using \<open>unat (ucast n :: u32) = unat n\<close> assms(2) by (metis unat_eq_zero gr0I)
qed

lemma pending_cases:
  "NaClVmIoPendingCheck_mu nap a b = Inl Log_fatal \<or> NaClVmIoPendingCheck_mu nap a b = Inr ()"
  by (simp add: NaClVmIoPendingCheck_mu_def)

lemma SysMunmap_ok:
  fixes start len :: u32
  assumes inv: "mem_inv E S F nap" and host: "host_ok env"
  defines "n \<equiv> NaClRoundAllocPage (ucast len)" and "u \<equiv> ucast start"
  shows "NaClSysMunmap env nap start len = Inl Log_fatal
    \<or> (\<exists>r nap'. NaClSysMunmap env nap start len = Inr (r, nap') \<and> mem_inv E S F nap' \<and> same_view nap nap'
        \<and> break_addr nap' = break_addr nap
        \<and> (if r = 0 then data_pages nap u n \<and> unmapped u n (mem_map nap) (mem_map nap')
           else mem_map nap' = mem_map nap)
        \<and> (nap' = nap \<or> data_pages nap u n \<and> requests nap' = Host_mmap (u + mem_start nap) n 0 0x32 # requests nap
             \<and> writes_in (unat (u + mem_start nap)) (unat n) (fa_mem nap) (fa_mem nap')))"
proof -
  have sp: "space_ok nap" using inv by (rule mem_invD)
  let ?r = "NaClUserToSysAddrRange nap u n"
  consider "\<not> NaClIsAllocPageMultiple u \<or> (ucast n :: u32) = 0 \<or> ?r = kNaClBadAddress
      \<or> NaClSysCommonAddrRangeContainsExecutablePages nap u n"
    | "NaClIsAllocPageMultiple u" "(ucast n :: u32) \<noteq> 0" "?r \<noteq> kNaClBadAddress"
      "\<not> NaClSysCommonAddrRangeContainsExecutablePages nap u n" by blast
  then show ?thesis
  proof cases
    case 1
    then have "(ucast n :: u32) \<noteq> 0 \<Longrightarrow> ucast (ucast n :: u32) = n" using alloc_round_u32(1) [of len] by (simp add: n_def)
    then have "\<exists>r. r \<noteq> 0 \<and> NaClSysMunmap env nap start len = Inr (r, nap)"
      using 1 by (auto simp: NaClSysMunmap_def Let_def n_def [symmetric] u_def [symmetric] NACL_ABI_EINVAL_def NACL_ABI_EFAULT_def)
    then show ?thesis using inv by auto
  next
    case 2
    have n: "ucast (ucast n :: u32) = n" "0 < unat n" "65536 dvd unat n" using alloc_round_u32 [of len] 2(2) by (simp_all add: n_def)
    note d = range_page_multiple [OF sp 2(1) n(2,3) 2(3,4)]
    have run: "NaClSysMunmap env nap start len = ebind (NaClVmIoPendingCheck_mu nap start (start + ucast n - 1)) (\<lambda>_.
        MunmapInternal env (u + mem_start nap) n nap)"
      using 2 n(1) d(2) by (simp add: NaClSysMunmap_def Let_def n_def [symmetric] u_def [symmetric] eq_commute [of kNaClBadAddress]
          eq_commute [of 0] del: ebind_eq_Inr)
    show ?thesis
      using pending_cases [of nap start "start + ucast n - 1"] MunmapInternal_ok [OF inv host d(1) refl] d(1)
      unfolding run by fastforce
  qed
qed

end
