(* ===== verification/MemProtect.thy ===== *)
theory MemProtect
  imports MemUnmap
begin

text \<open>
  \<open>NaClSysMprotect\<close>: the loop over the regions hands exactly the regions of the range to the host,
  and because the regions were split at the ends of the range, its consistency checks hold.
\<close>

section \<open>The loop\<close>

definition entry_request :: "'a nacl_space_scheme \<Rightarrow> u32 \<Rightarrow> vmmap_entry \<Rightarrow> mem_request option" where
  "entry_request nap hp e =
     (let addr = push_bit NACL_PAGESHIFT (e_page_num e) + mem_start nap;
          entry_len = push_bit NACL_PAGESHIFT (e_npages e)
      in if e_desc e = None then Some (Host_mprotect addr entry_len hp)
         else if sint (e_offset e) < sint (e_file_size e)
         then Some (Host_mprotect addr (min (NaClRoundPage (e_file_size e - e_offset e)) entry_len) hp)
         else None)"

lemma mprotect_loop_ok:
  fixes nap :: "'h mem_app" and L :: u64
  defines "tk \<equiv> \<lambda>es. takeWhile (\<lambda>e. e_page_num e < L) es"
  shows "mprotect_loop env hp L es prev nap = Inl Log_fatal
    \<or> (\<exists>h. mprotect_loop env hp L es prev nap = Inr (last (prev # tk es),
         nap\<lparr>host := h, requests := rev (List.map_filter (entry_request nap hp) (tk es)) @ requests nap\<rparr>))"
proof (induction es arbitrary: prev nap)
  case Nil
  then show ?case by (auto simp: tk_def map_filter_simps intro!: exI [of _ "host nap"])
next
  case (Cons e es)
  show ?case
  proof (cases "e_page_num e < L")
    case False
    then show ?thesis by (auto simp: tk_def map_filter_simps intro!: exI [of _ "host nap"])
  next
    case True
    let ?u = "push_bit NACL_PAGESHIFT (e_page_num e)"
    show ?thesis
    proof (cases "NaClUserToSys nap ?u")
      case (Inl x)
      then show ?thesis using True by (auto simp: NaClUserToSys_def split: if_splits)
    next
      case (Inr a)
      then have a: "a = ?u + mem_start nap" by (simp add: NaClUserToSys_Inr)
      let ?r = "entry_request nap hp e"
      obtain x :: int and h where xh: "mprotect_loop env hp L (e # es) prev nap = (if x \<noteq> 0 then Inl Log_fatal
          else mprotect_loop env hp L es e (nap\<lparr>host := h,
            requests := (case ?r of None \<Rightarrow> requests nap | Some q \<Rightarrow> q # requests nap)\<rparr>))"
      proof (cases "e_desc e = None \<or> sint (e_offset e) < sint (e_file_size e)")
        case False
        then have no: "e_desc e \<noteq> None" "\<not> sint (e_offset e) < sint (e_file_size e)" by simp_all
        then have "?r = None" by (simp only: entry_request_def Let_def if_False)
        then show thesis using that [of 0 "host nap"] True Inr no by (simp add: Let_def)
      next
        case yes: True
        obtain len where len: "?r = Some (Host_mprotect a len hp)"
          "(if e_desc e = None then host_mprotect env a (push_bit NACL_PAGESHIFT (e_npages e)) hp nap
            else if sint (e_offset e) < sint (e_file_size e)
            then host_mprotect env a (min (NaClRoundPage (e_file_size e - e_offset e)) (push_bit NACL_PAGESHIFT (e_npages e))) hp nap
            else (0, nap)) = host_mprotect env a len hp nap"
          using yes a by (cases "e_desc e = None") (auto simp: entry_request_def Let_def)
        obtain x h where "me_mprotect env a len hp (host nap) = (x, h)" by fastforce
        then show thesis using that [of x h] True Inr len by (simp add: Let_def host_mprotect_def)
      qed
      let ?nap = "nap\<lparr>host := h, requests := (case ?r of None \<Rightarrow> requests nap | Some q \<Rightarrow> q # requests nap)\<rparr>"
      have same: "entry_request ?nap hp = entry_request nap hp" by (simp add: entry_request_def fun_eq_iff)
      have "rev (List.map_filter (entry_request nap hp) (tk es)) @ requests ?nap
          = rev (List.map_filter (entry_request nap hp) (tk (e # es))) @ requests nap"
        using True by (simp add: tk_def map_filter_simps split: option.split)
      then show ?thesis using Cons.IH [of e ?nap] True unfolding xh same by (auto simp: tk_def)
    qed
  qed
qed

section \<open>Regions of a range\<close>

lemma sorted_ends:
  assumes "sorted_wrt before xs" "list_all entry_live xs" "e \<in> set xs"
  shows "e_lo (hd xs) \<le> e_lo e \<and> e_hi e \<le> e_hi (last xs)"
  using assms
proof (induction xs)
  case (Cons x xs)
  have "e_lo x < e_hi x" using Cons.prems(2) by (auto simp: entry_live_def entry_ok_def e_lo_def e_hi_def)
  moreover have "xs \<noteq> [] \<Longrightarrow> e_hi x \<le> e_lo (last xs)"
    using Cons.prems(1) last_in_set [of xs] by (auto simp: before_def)
  moreover have "xs \<noteq> [] \<Longrightarrow> e_lo (last xs) \<le> e_hi (last xs)" by (simp add: e_lo_def e_hi_def)
  ultimately have "xs \<noteq> [] \<Longrightarrow> e_hi x \<le> e_hi (last xs)" by linarith
  with \<open>e_lo x < e_hi x\<close> show ?case using Cons by (cases "xs = []") (auto simp: before_def)
qed simp

lemma take_while_low:
  assumes "sorted_wrt before xs" "list_all entry_live xs" "e \<in> set xs" "e_lo e < unat L"
  shows "e \<in> set (takeWhile (\<lambda>e. e_page_num e < L) xs)"
  using assms
proof (induction xs)
  case (Cons x xs)
  have "e_lo x < e_hi x" using Cons.prems(2) by (auto simp: entry_live_def entry_ok_def e_lo_def e_hi_def)
  then have "e_lo x \<le> e_lo e" using Cons.prems(1,3) by (auto simp: before_def)
  then have "e_page_num x < L" using Cons.prems(4) by (simp add: word_nat e_lo_def)
  then show ?case using Cons by auto
qed simp

lemma sorted_drop: "sorted_wrt R es \<Longrightarrow> sorted_wrt R (drop n es)"
  by (metis append_take_drop_id sorted_wrt_append)

lemma take_while_prefix: "sorted_wrt R xs \<Longrightarrow> sorted_wrt R (takeWhile Q xs)"
  by (metis takeWhile_dropWhile_id sorted_wrt_append)

lemma live_sub: "list_all entry_live es \<Longrightarrow> set xs \<subseteq> set es \<Longrightarrow> list_all entry_live xs"
  by (auto simp: list_all_iff)

text \<open>
  The regions the loop visits when it starts at the region \<open>ix\<close> that covers page \<open>P\<close>.
\<close>

lemma visited_regions:
  fixes L :: u64
  assumes es: "sorted_wrt before es" "list_all entry_live es" and ix: "ix < length es" "covers P (es ! ix)"
  defines "tk \<equiv> takeWhile (\<lambda>e. e_page_num e < L) (drop ix es)"
  shows "set tk \<subseteq> set es"
    and "\<And>e. e \<in> set tk \<Longrightarrow> e_lo (es ! ix) \<le> e_lo e \<and> e_hi e \<le> e_hi (last tk) \<and> e_lo e < unat L"
    and "\<And>p e. P \<le> p \<Longrightarrow> p < unat L \<Longrightarrow> e \<in> set es \<Longrightarrow> covers p e \<Longrightarrow> e \<in> set tk"
proof -
  have sub: "set tk \<subseteq> set (drop ix es)" "set (drop ix es) \<subseteq> set es"
    unfolding tk_def by (auto dest: set_takeWhileD in_set_dropD)
  then show "set tk \<subseteq> set es" by blast
  have d: "sorted_wrt before (drop ix es)" "list_all entry_live (drop ix es)" "hd (drop ix es) = es ! ix"
    using es sub(2) ix(1) sorted_drop [OF es(1)] live_sub [OF es(2)] by (simp_all add: hd_drop_conv_nth)
  have t: "sorted_wrt before tk" "list_all entry_live tk"
    unfolding tk_def by (rule take_while_prefix [OF d(1)], rule live_sub [OF d(2)]) (auto dest: set_takeWhileD)
  fix e assume "e \<in> set tk"
  then show "e_lo (es ! ix) \<le> e_lo e \<and> e_hi e \<le> e_hi (last tk) \<and> e_lo e < unat L"
    using sorted_ends [OF t, of e] sorted_ends [OF d(1,2), of e] d(3) sub(1)
    by (auto simp: tk_def word_nat e_lo_def dest: set_takeWhileD)
next
  fix p e assume p: "P \<le> p" "p < unat L" "e \<in> set es" "covers p e"
  have "e \<in> set (take ix es) \<Longrightarrow> before e (es ! ix)"
    using es(1) ix(1) by (subst (asm) id_take_nth_drop [OF ix(1)]) (simp add: sorted_wrt_append)
  then have "e \<notin> set (take ix es)" using p(1,4) ix(2) by (auto simp: before_def covers_def)
  then have "e \<in> set (drop ix es)" using p(3) by (metis UnE append_take_drop_id set_append)
  then show "e \<in> set tk"
    unfolding tk_def using take_while_low [OF sorted_drop [OF es(1)] live_sub [OF es(2)]] p(2,4)
    by (meson covers_def le_less_trans set_drop_subset)
qed

section \<open>Handing the range to the host\<close>

lemma MprotectInternal_run:
  fixes u n :: u64
  assumes inv: "mem_inv E S F nap" and u: "u < addr_limit nap"
  defines "L \<equiv> drop_bit NACL_PAGESHIFT (u + n)" and "P \<equiv> unat u div 4096"
  shows "MprotectInternal env (u + mem_start nap) n prot nap = Inl Log_fatal
    \<or> (\<exists>ix m h. mem_inv E S F (store_counts env m nap) \<and> maps_same (mem_map nap) m
        \<and> (if vm_map (mem_map nap) P = None then NaClVmmapIterAtEnd m ix
           else ix < length (vmentry m) \<and> covers P (vmentry m ! ix))
        \<and> (let tk = takeWhile (\<lambda>e. e_page_num e < L) (drop ix (vmentry m)); lst = last (vmentry m ! ix # tk)
           in MprotectInternal env (u + mem_start nap) n prot nap =
             (if \<not> ix < length (vmentry m) then Inl Out_of_bounds
              else if u \<noteq> push_bit NACL_PAGESHIFT (e_page_num (vmentry m ! ix)) then Inl Check_failed
              else if e_page_num lst + e_npages lst \<noteq> L then Inl Check_failed
              else Inr (0, (store_counts env m nap)\<lparr>host := h, requests :=
                rev (List.map_filter (entry_request nap (NaClProtMap prot)) tk) @ requests nap\<rparr>)))
        \<or> MprotectInternal env (u + mem_start nap) n prot nap = Inl Log_fatal)"
proof -
  have sp: "space_ok nap" using inv by (rule mem_invD)
  let ?P = "drop_bit NACL_PAGESHIFT u" and ?hp = "NaClProtMap prot"
  have P: "unat ?P = P" by (simp add: P_def NACL_PAGESHIFT_def unat_drop_bit_div)
  have run: "MprotectInternal env (u + mem_start nap) n prot nap =
      ebind (with_map env (\<lambda>m. NaClVmmapFindPageIter m ?P) nap) (\<lambda>(iter, nap1).
        ebind (NaClVmmapIterStar (mem_map nap1) iter) (\<lambda>entry.
        ebind (echeck (u = push_bit NACL_PAGESHIFT (e_page_num entry)) Check_failed) (\<lambda>_.
        ebind (mprotect_loop env ?hp L (drop iter (vmentry (mem_map nap1))) entry nap1) (\<lambda>(last_entry, nap2).
        ebind (echeck (e_page_num last_entry + e_npages last_entry = L) Check_failed) (\<lambda>_. Inr (0, nap2))))))"
    using NaClSysToUser_of_sum [OF sp u] by (simp add: MprotectInternal_def L_def Let_def del: ebind_eq_Inr)
  from find_page.run [OF mem_invD(1,2) [OF inv] TrueI, of env ?P] show ?thesis
  proof
    assume "with_map env (\<lambda>m. NaClVmmapFindPageIter m ?P) nap = Inl Log_fatal"
    then show ?thesis unfolding run by simp
  next
    assume "\<exists>ix m. with_map env (\<lambda>m. NaClVmmapFindPageIter m ?P) nap = Inr (ix, store_counts env m nap)
      \<and> fd_inv (\<lambda>n. map_refs m n + E n) S F (store_counts env m nap) \<and> vm_wf m
      \<and> maps_same (mem_map nap) m \<and> (if vm_map (mem_map nap) (unat ?P) = None then NaClVmmapIterAtEnd m ix
           else ix < length (vmentry m) \<and> covers (unat ?P) (vmentry m ! ix))"
    then obtain ix m where m: "with_map env (\<lambda>m. NaClVmmapFindPageIter m ?P) nap = Inr (ix, store_counts env m nap)"
      "fd_inv (\<lambda>n. map_refs m n + E n) S F (store_counts env m nap)" "vm_wf m" "maps_same (mem_map nap) m"
      "if vm_map (mem_map nap) P = None then NaClVmmapIterAtEnd m ix
       else ix < length (vmentry m) \<and> covers P (vmentry m ! ix)" unfolding P by blast
    let ?nap1 = "store_counts env m nap"
    let ?e = "vmentry m ! ix" and ?tk = "takeWhile (\<lambda>e. e_page_num e < L) (drop ix (vmentry m))"
    have "text_mapped nap m" using mem_invD(4) [OF inv] m(4) by (simp add: text_mapped_def maps_same_def)
    then have inv1: "mem_inv E S F ?nap1" using mem_inv_store [OF inv m(2,3)] by simp
    have same: "entry_request ?nap1 ?hp = entry_request nap ?hp" by (simp add: entry_request_def fun_eq_iff)
    consider "mprotect_loop env ?hp L (drop ix (vmentry m)) ?e ?nap1 = Inl Log_fatal"
      | h where "mprotect_loop env ?hp L (drop ix (vmentry m)) ?e ?nap1 = Inr (last (?e # ?tk),
          ?nap1\<lparr>host := h, requests := rev (List.map_filter (entry_request nap ?hp) ?tk) @ requests nap\<rparr>)"
      using mprotect_loop_ok [of env ?hp L "drop ix (vmentry m)" ?e ?nap1] unfolding same store_counts_fields by blast
    then show ?thesis
    proof cases
      case 1
      then have "MprotectInternal env (u + mem_start nap) n prot nap = (if \<not> ix < length (vmentry m) then Inl Out_of_bounds
          else if u \<noteq> push_bit NACL_PAGESHIFT (e_page_num ?e) then Inl Check_failed else Inl Log_fatal)"
        unfolding run m(1) by (auto simp: NaClVmmapIterStar_def)
      then show ?thesis using m(4,5) inv1
        by (intro disjI2 exI [of _ ix] exI [of _ m]) (auto simp: Let_def)
    next
      case 2
      then have "MprotectInternal env (u + mem_start nap) n prot nap = (if \<not> ix < length (vmentry m) then Inl Out_of_bounds
          else if u \<noteq> push_bit NACL_PAGESHIFT (e_page_num ?e) then Inl Check_failed
          else if e_page_num (last (?e # ?tk)) + e_npages (last (?e # ?tk)) \<noteq> L then Inl Check_failed
          else Inr (0, ?nap1\<lparr>host := h, requests := rev (List.map_filter (entry_request nap ?hp) ?tk) @ requests nap\<rparr>))"
        unfolding run m(1) by (simp add: NaClVmmapIterStar_def del: last.simps)
      then show ?thesis using m(4,5) inv1 unfolding Let_def by blast
    qed
  qed
qed

text \<open>
  The requests \<open>rs\<close> are those of regions inside the pages from \<open>P\<close> to \<open>Q\<close>, and every region that
  has such a page is among them.
\<close>

definition protects :: "'a nacl_space_scheme \<Rightarrow> u32 \<Rightarrow> nat \<Rightarrow> nat \<Rightarrow> vmmap \<Rightarrow> mem_request list \<Rightarrow> bool" where
  "protects nap hp P Q m rs \<longleftrightarrow> (\<exists>es. rs = rev (List.map_filter (entry_request nap hp) es)
     \<and> set es \<subseteq> set (vmentry m) \<and> (\<forall>e \<in> set es. P \<le> e_lo e \<and> e_hi e \<le> Q)
     \<and> (\<forall>p e. P \<le> p \<and> p < Q \<and> e \<in> set (vmentry m) \<and> covers p e \<longrightarrow> e \<in> set es))"

lemma protects_space:
  assumes "mem_start b = mem_start a"
  shows "protects b hp P Q m rs = protects a hp P Q m rs"
proof -
  have "entry_request b hp = entry_request a hp" using assms by (simp add: entry_request_def fun_eq_iff)
  then show ?thesis by (simp add: protects_def)
qed

lemma region_start:
  assumes "entry_live e"
  shows "unat (push_bit NACL_PAGESHIFT (e_page_num e)) = e_lo e * 4096"
proof -
  have "e_lo e \<le> 2 ^ 20" using assms by (auto simp: entry_live_def entry_ok_def e_lo_def e_hi_def vm_pages_def)
  then have "unat (e_page_num e) * 2 ^ NACL_PAGESHIFT < 2 ^ LENGTH(64)" by (simp add: e_lo_def NACL_PAGESHIFT_def)
  from unat_push_bit_nowrap [OF this] show ?thesis by (simp add: e_lo_def NACL_PAGESHIFT_def)
qed

lemma range_end_page:
  fixes u n :: u64
  assumes "space_ok nap" "unat u + unat n \<le> unat (addr_limit nap)"
  shows "unat (drop_bit NACL_PAGESHIFT (u + n)) = (unat u + unat n) div 4096"
proof -
  have "unat u + unat n < 2 ^ 64" using assms addr_limit_le [OF assms(1)] by simp
  then have "unat (u + n) = unat u + unat n" by (intro unat_add_nowrap) simp
  then show ?thesis by (simp add: NACL_PAGESHIFT_def unat_drop_bit_div)
qed

lemma MprotectInternal_result:
  assumes inv: "mem_inv E S F nap" and u: "u < addr_limit nap" "unat u + unat n \<le> unat (addr_limit nap)" "4096 dvd unat u"
    and res: "MprotectInternal env (u + mem_start nap) n prot nap = Inr (r, nap')"
  shows "r = 0 \<and> unat u div 4096 < (unat u + unat n) div 4096
    \<and> mem_inv E S F nap' \<and> same_view nap nap' \<and> break_addr nap' = break_addr nap
    \<and> fa_mem nap' = fa_mem nap \<and> maps_same (mem_map nap) (mem_map nap')
    \<and> (\<exists>rs. requests nap' = rs @ requests nap
        \<and> protects nap (NaClProtMap prot) (unat u div 4096) ((unat u + unat n) div 4096) (mem_map nap') rs)"
proof -
  let ?L = "drop_bit NACL_PAGESHIFT (u + n)" and ?P = "unat u div 4096"
  have sp: "space_ok nap" using inv by (rule mem_invD)
  have L: "unat ?L = (unat u + unat n) div 4096" by (rule range_end_page [OF sp u(2)])
  obtain ix m h where m: "mem_inv E S F (store_counts env m nap)" "maps_same (mem_map nap) m"
    and fnd: "if vm_map (mem_map nap) ?P = None then NaClVmmapIterAtEnd m ix
           else ix < length (vmentry m) \<and> covers ?P (vmentry m ! ix)"
    and run: "let tk = takeWhile (\<lambda>e. e_page_num e < ?L) (drop ix (vmentry m)); lst = last (vmentry m ! ix # tk)
           in (Inr (r, nap') :: _ exec) =
             (if \<not> ix < length (vmentry m) then Inl Out_of_bounds
              else if u \<noteq> push_bit NACL_PAGESHIFT (e_page_num (vmentry m ! ix)) then Inl Check_failed
              else if e_page_num lst + e_npages lst \<noteq> ?L then Inl Check_failed
              else Inr (0, (store_counts env m nap)\<lparr>host := h, requests :=
                rev (List.map_filter (entry_request nap (NaClProtMap prot)) tk) @ requests nap\<rparr>))"
    using MprotectInternal_run [OF inv u(1), of env n prot] unfolding res by auto
  let ?e = "vmentry m ! ix" and ?tk = "takeWhile (\<lambda>e. e_page_num e < ?L) (drop ix (vmentry m))"
  have ix: "ix < length (vmentry m)" "u = push_bit NACL_PAGESHIFT (e_page_num ?e)"
    "e_page_num (last (?e # ?tk)) + e_npages (last (?e # ?tk)) = ?L" and r: "r = 0"
    and nap': "nap' = (store_counts env m nap)\<lparr>host := h, requests :=
                rev (List.map_filter (entry_request nap (NaClProtMap prot)) ?tk) @ requests nap\<rparr>"
    using run unfolding Let_def by (auto split: if_splits)
  have es: "sorted_wrt before (vmentry m)" "list_all entry_live (vmentry m)" using m(2) by (simp_all add: maps_same_def)
  have cov: "covers ?P ?e" using fnd ix(1) by (auto simp: NaClVmmapIterAtEnd_def split: if_splits)
  note vis = visited_regions [where L = ?L, OF es ix(1) cov]
  have live: "entry_live ?e" using nth_live [OF es(2) ix(1)] by blast
  have lo: "e_lo ?e = ?P" using region_start [OF live] ix(2) by simp
  have "?tk \<noteq> []"
  proof
    assume nil: "?tk = []"
    then have "e_hi ?e = unat ?L" using ix(3) unat_end [of ?e] live by (simp add: entry_live_def)
    moreover have "\<not> e_page_num ?e < ?L"
      using nil by (subst (asm) Cons_nth_drop_Suc [OF ix(1), symmetric]) (simp split: if_splits)
    then have "unat ?L \<le> e_lo ?e" by (simp add: word_nat e_lo_def not_less)
    ultimately show False using cov by (simp add: covers_def)
  qed
  then have lst: "last (?e # ?tk) = last ?tk" "last ?tk \<in> set ?tk" by simp_all
  then have "entry_live (last ?tk)" using vis(1) es(2) by (auto simp: list_all_iff)
  then have top: "e_hi (last ?tk) = unat ?L" using ix(3) lst(1) unat_end [of "last ?tk"] by (simp add: entry_live_def)
  have "?P < unat ?L" using vis(2) [OF lst(2)] lo by simp
  moreover from top have "protects nap (NaClProtMap prot) ?P ((unat u + unat n) div 4096) m
      (rev (List.map_filter (entry_request nap (NaClProtMap prot)) ?tk))"
    unfolding protects_def using vis lo L by (intro exI [of _ ?tk]) auto
  ultimately show ?thesis using m r L unfolding nap' by (auto simp: same_view_def same_layout_def)
qed

text \<open>When no region straddles the ends of the range and all its pages are mapped, the checks hold.\<close>

lemma MprotectInternal_checks:
  assumes inv: "mem_inv E S F nap" and u: "unat u + unat n \<le> unat (addr_limit nap)" "4096 dvd unat u" "4096 dvd unat n"
    "0 < unat n"
    and sp: "splits_at (vmentry (mem_map nap)) (unat u div 4096)" "splits_at (vmentry (mem_map nap)) ((unat u + unat n) div 4096)"
    and all: "\<forall>p. unat u div 4096 \<le> p \<and> p < (unat u + unat n) div 4096 \<longrightarrow> vm_map (mem_map nap) p \<noteq> None"
  shows "MprotectInternal env (u + mem_start nap) n prot nap = Inl Log_fatal
    \<or> (\<exists>r nap'. MprotectInternal env (u + mem_start nap) n prot nap = Inr (r, nap'))"
proof -
  let ?L = "drop_bit NACL_PAGESHIFT (u + n)" and ?P = "unat u div 4096"
  have L: "unat ?L = (unat u + unat n) div 4096" by (rule range_end_page [OF mem_invD(3) [OF inv] u(1)])
  obtain i j where ij: "unat u = 4096 * i" "unat n = 4096 * j" "0 < j" using u(2-4) by (auto elim!: dvdE)
  have PL: "?P = i" "unat ?L = i + j" using ij L by simp_all
  have lt: "u < addr_limit nap" using u(1,4) by (simp add: word_nat)
  have "vm_map (mem_map nap) ?P \<noteq> None" using all PL L ij(3) by simp
  with MprotectInternal_run [OF inv lt, of env n prot] consider
      "MprotectInternal env (u + mem_start nap) n prot nap = Inl Log_fatal"
    | ix m h where "maps_same (mem_map nap) m" "ix < length (vmentry m)" "covers ?P (vmentry m ! ix)"
      "let tk = takeWhile (\<lambda>e. e_page_num e < ?L) (drop ix (vmentry m)); lst = last (vmentry m ! ix # tk)
           in MprotectInternal env (u + mem_start nap) n prot nap =
             (if \<not> ix < length (vmentry m) then Inl Out_of_bounds
              else if u \<noteq> push_bit NACL_PAGESHIFT (e_page_num (vmentry m ! ix)) then Inl Check_failed
              else if e_page_num lst + e_npages lst \<noteq> ?L then Inl Check_failed
              else Inr (0, (store_counts env m nap)\<lparr>host := h, requests :=
                rev (List.map_filter (entry_request nap (NaClProtMap prot)) tk) @ requests nap\<rparr>))"
    by auto
  then show ?thesis
  proof cases
    case 2
    let ?e = "vmentry m ! ix" and ?tk = "takeWhile (\<lambda>e. e_page_num e < ?L) (drop ix (vmentry m))"
    have es: "sorted_wrt before (vmentry m)" "list_all entry_live (vmentry m)"
      and st: "set (vmentry m) = set (vmentry (mem_map nap))" and mp: "vm_map m = vm_map (mem_map nap)"
      using 2(1) mset_eq_setD by (auto simp: maps_same_def)
    note vis = visited_regions [where L = ?L, OF es 2(2,3)]
    have live: "e \<in> set (vmentry m) \<Longrightarrow> entry_live e" for e using es(2) by (auto simp: list_all_iff)
    have e: "?e \<in> set (vmentry m)" using 2(2) by simp
    have "e_lo ?e = ?P" using sp(1) e 2(3) unfolding splits_at_def st by (auto simp: covers_def)
    then have first: "u = push_bit NACL_PAGESHIFT (e_page_num ?e)"
      using region_start [OF live [OF e]] u(2) by (simp add: word_eq_unat)
    have "vm_map m (unat ?L - 1) \<noteq> None" using all mp PL L ij(3) by simp
    then obtain e1 where e1: "e1 \<in> set (vmentry m)" "covers (unat ?L - 1) e1"
      by (auto dest!: vm_lookup_SomeD)
    then have t1: "e1 \<in> set ?tk" using vis(3) [of "unat ?L - 1" e1] PL ij(3) by simp
    then have "e_hi e1 \<le> e_hi (last ?tk)" "?tk \<noteq> []" using vis(2) by (blast, auto)
    moreover have "last ?tk \<in> set ?tk" using \<open>?tk \<noteq> []\<close> by (rule last_in_set)
    then have "last ?tk \<in> set (vmentry m)" "e_lo (last ?tk) < unat ?L" using vis(1,2) by blast+
    then have "e_hi (last ?tk) \<le> unat ?L" using sp(2) L unfolding splits_at_def st by (metis not_le)
    moreover have "unat ?L \<le> e_hi e1" using e1(2) PL ij(3) by (simp add: covers_def, linarith)
    ultimately have "e_hi (last ?tk) = unat ?L" by linarith
    then have "e_page_num (last (?e # ?tk)) + e_npages (last (?e # ?tk)) = ?L"
      using unat_end [of "last ?tk"] live [OF \<open>last ?tk \<in> set (vmentry m)\<close>] \<open>?tk \<noteq> []\<close>
      by (simp add: word_eq_unat entry_live_def)
    then show ?thesis using 2(2,4) first unfolding Let_def by (simp del: last.simps)
  qed simp
qed

section \<open>The call\<close>

text \<open>The pages of a range have a new protection, all others are as before.\<close>

definition reprotected :: "u64 \<Rightarrow> u64 \<Rightarrow> u32 \<Rightarrow> vmmap \<Rightarrow> vmmap \<Rightarrow> bool" where
  "reprotected u n prot s m \<longleftrightarrow>
     (\<forall>p. if unat u div 4096 \<le> p \<and> p < (unat u + unat n) div 4096
          then vm_map s p \<noteq> None \<and> map_option no_offset (vm_map m p) = map_option (with_prot prot) (vm_map s p)
          else vm_map m p = vm_map s p)"

lemma SysMprotect_ok:
  fixes start :: u32 and len :: u64
  assumes inv: "mem_inv E S F nap" and host: "host_ok env" and len: "unat len \<le> 2 ^ 32"
  defines "n \<equiv> NaClRoundAllocPage len" and "u \<equiv> ucast start"
  shows "(case NaClSysMprotect env nap start len prot of
      Inl e \<Rightarrow> len \<noteq> 0 \<longrightarrow> e = Log_fatal
    | Inr (r, nap') \<Rightarrow> mem_inv E S F nap' \<and> same_view nap nap' \<and> break_addr nap' = break_addr nap
        \<and> fa_mem nap' = fa_mem nap
        \<and> (if r = 0 then data_pages nap u n \<and> prot AND NOT 3 = 0 \<and> reprotected u n prot (mem_map nap) (mem_map nap')
             \<and> (\<exists>rs. requests nap' = rs @ requests nap
                 \<and> protects nap (NaClProtMap prot) (unat u div 4096) ((unat u + unat n) div 4096) (mem_map nap') rs)
           else vm_map (mem_map nap') = vm_map (mem_map nap) \<and> requests nap' = requests nap))"
proof -
  have sp: "space_ok nap" using inv by (rule mem_invD)
  have n: "unat n = nat_round_up 16 (unat len)" unfolding n_def using len by (intro unat_NaClRoundAllocPage) simp
  have nd: "65536 dvd unat n" unfolding n using nat_round_up_dvd [of 16] by simp
  have n0: "unat n = 0 \<longleftrightarrow> len = 0"
    unfolding n using nat_round_up_ge [of "unat len" 16] by (auto simp: nat_round_up_def unat_eq_zero)
  let ?r = "NaClUserToSysAddrRange nap u n" and ?P = "drop_bit NACL_PAGESHIFT u" and ?k = "drop_bit NACL_PAGESHIFT n"
  consider "\<not> NaClIsAllocPageMultiple u \<or> ?r = kNaClBadAddress \<or> 0 \<noteq> NOT (NACL_ABI_PROT_READ OR NACL_ABI_PROT_WRITE) AND prot
      \<or> NaClSysCommonAddrRangeContainsExecutablePages nap u n"
    | (go) "NaClIsAllocPageMultiple u" "?r \<noteq> kNaClBadAddress" "NOT (NACL_ABI_PROT_READ OR NACL_ABI_PROT_WRITE) AND prot = 0"
      "\<not> NaClSysCommonAddrRangeContainsExecutablePages nap u n" by auto
  then show ?thesis
  proof cases
    case 1
    then have "\<exists>r. r \<noteq> 0 \<and> NaClSysMprotect env nap start len prot = Inr (r, nap)"
      by (auto simp: NaClSysMprotect_def NaClSysMprotectInternal_def Let_def n_def [symmetric] u_def [symmetric]
          NACL_ABI_EINVAL_def NACL_ABI_EFAULT_def NACL_ABI_EACCES_def)
    then show ?thesis using inv by auto
  next
    case go
    have rk: "u \<noteq> 0" "unat u + unat n \<le> unat (addr_limit nap)" "?r = u + mem_start nap"
      using range_ok [OF sp refl go(2)] by simp_all
    have al: "65536 dvd unat u" using go(1) by (simp add: NaClIsAllocPageMultiple_iff)
    have u4: "4096 dvd unat u" "4096 dvd unat n" using al nd by (auto intro: dvd_trans [of 4096 65536])
    have p3: "prot AND NOT 3 = 0" using go(3) by (simp add: mman_consts and.commute)
    have nz: "0 = NOT (NACL_ABI_PROT_READ OR NACL_ABI_PROT_WRITE) AND prot" using go(3) by simp
    have run: "NaClSysMprotect env nap start len prot = ebind (NaClSysToUser nap (u + mem_start nap)) (\<lambda>v.
        ebind (with_map env (\<lambda>m. NaClVmmapChangeProt (me_GetFlags env) m (drop_bit NACL_PAGESHIFT v) ?k prot) nap) (\<lambda>(ok, nap1).
          if \<not> ok then Inr (- NACL_ABI_EACCES, nap1)
          else ebind (NaClVmIoPendingCheck_mu nap1 start (ucast (u + n - 1))) (\<lambda>_.
                 MprotectInternal env (u + mem_start nap) n prot nap1)))"
      using go nz unfolding NaClSysMprotect_def NaClSysMprotectInternal_def Let_def n_def [symmetric] u_def [symmetric] rk(3)
      by (simp del: ebind_eq_Inr)
    show ?thesis
    proof (cases "u < addr_limit nap")
      case False
      then have "NaClSysToUser nap (u + mem_start nap) = Inl Log_fatal"
        using rk(2) unat_user_to_sys [OF sp, of u] unat_user_to_sys [OF sp, of "addr_limit nap"]
        by (simp add: NaClSysToUser_def word_nat add.commute)
      then show ?thesis unfolding run by simp
    next
      case True
      let ?w = "with_map env (\<lambda>m. NaClVmmapChangeProt (me_GetFlags env) m ?P ?k prot) nap"
      have run1: "NaClSysMprotect env nap start len prot = ebind ?w (\<lambda>(ok, nap1).
          if \<not> ok then Inr (- NACL_ABI_EACCES, nap1)
          else ebind (NaClVmIoPendingCheck_mu nap1 start (ucast (u + n - 1))) (\<lambda>_.
                 MprotectInternal env (u + mem_start nap) n prot nap1))"
        unfolding run NaClSysToUser_of_sum [OF sp True] by simp
      have acc: "accmode_ok (me_GetFlags env)" using host by (simp add: host_ok_def)
      let ?post = "\<lambda>ok m. (\<not> ok \<longrightarrow> vm_map m = vm_map (mem_map nap)) \<and> (len = 0 \<longrightarrow> vm_map m = vm_map (mem_map nap))
        \<and> (ok \<and> len \<noteq> 0 \<longrightarrow> reprotected u n prot (mem_map nap) m
             \<and> splits_at (vmentry m) (unat u div 4096) \<and> splits_at (vmentry m) ((unat u + unat n) div 4096))"
      have w: "?w = Inl Log_fatal \<or> (\<exists>ok m. ?w = Inr (ok, store_counts env m nap)
          \<and> fd_inv (\<lambda>n. map_refs m n + E n) S F (store_counts env m nap) \<and> vm_wf m \<and> ?post ok m)"
      proof (cases "len = 0")
        case l0: True
        then have "?k = 0" using n0 by (simp add: word_eq_unat NACL_PAGESHIFT_def unat_drop_bit_div)
        then show ?thesis
          using change_nothing.run [OF mem_invD(1,2) [OF inv] acc, of env ?P prot] l0 by (auto simp: maps_same_def)
      next
        case False
        then have d: "data_pages nap u n"
          using range_page_multiple [OF sp go(1) _ nd go(2,4)] n0 by simp
        note pg = data_pages_range [OF sp d]
        have k: "unat ?P = unat u div 4096" "unat u div 4096 + unat ?k = (unat u + unat n) div 4096"
          using u4 by (auto simp: NACL_PAGESHIFT_def unat_drop_bit_div elim!: dvdE)
        have rep: "reprotected u n prot (mem_map nap) m"
          if "ok" "ok = (\<forall>p \<in> pages_of ?P ?k. \<exists>x. vm_map (mem_map nap) p = Some x \<and> page_allows (me_GetFlags env) prot x)"
            "\<forall>p. if ok \<and> p \<in> pages_of ?P ?k
              then map_option no_offset (vm_map m p) = map_option (with_prot prot) (vm_map (mem_map nap) p)
              else vm_map m p = vm_map (mem_map nap) p" for ok m
          using that unfolding reprotected_def pg(2) by fastforce
        from change_prot.run [OF mem_invD(1,2) [OF inv] conjI [OF pg(1) acc], of env prot, unfolded k] show ?thesis
        proof
          assume "\<exists>ok m. ?w = Inr (ok, store_counts env m nap)
            \<and> fd_inv (\<lambda>n. map_refs m n + E n) S F (store_counts env m nap) \<and> vm_wf m
            \<and> ok = (\<forall>p \<in> pages_of ?P ?k. \<exists>x. vm_map (mem_map nap) p = Some x \<and> page_allows (me_GetFlags env) prot x)
            \<and> (\<forall>p. if ok \<and> p \<in> pages_of ?P ?k
              then map_option no_offset (vm_map m p) = map_option (with_prot prot) (vm_map (mem_map nap) p)
              else vm_map m p = vm_map (mem_map nap) p)
            \<and> (ok \<longrightarrow> splits_at (vmentry m) (unat u div 4096) \<and> splits_at (vmentry m) ((unat u + unat n) div 4096))"
          then obtain ok m where m: "?w = Inr (ok, store_counts env m nap)"
            "fd_inv (\<lambda>n. map_refs m n + E n) S F (store_counts env m nap)" "vm_wf m"
            "ok = (\<forall>p \<in> pages_of ?P ?k. \<exists>x. vm_map (mem_map nap) p = Some x \<and> page_allows (me_GetFlags env) prot x)"
            "\<forall>p. if ok \<and> p \<in> pages_of ?P ?k
              then map_option no_offset (vm_map m p) = map_option (with_prot prot) (vm_map (mem_map nap) p)
              else vm_map m p = vm_map (mem_map nap) p"
            "ok \<longrightarrow> splits_at (vmentry m) (unat u div 4096) \<and> splits_at (vmentry m) ((unat u + unat n) div 4096)"
            by blast
          have "\<not> ok \<longrightarrow> vm_map m = vm_map (mem_map nap)" using m(5) by (auto simp: fun_eq_iff)
          moreover have "ok \<longrightarrow> reprotected u n prot (mem_map nap) m" using rep [OF _ m(4,5)] by blast
          ultimately have "?post ok m" using m(6) False by blast
          then show ?thesis using m(1-3) by blast
        qed blast
      qed
      show ?thesis
      proof (cases "?w = Inl Log_fatal")
        case False
        then obtain ok m where m: "?w = Inr (ok, store_counts env m nap)"
          "fd_inv (\<lambda>n. map_refs m n + E n) S F (store_counts env m nap)" "vm_wf m" "?post ok m" using w by blast
        let ?nap1 = "store_counts env m nap"
        have run2: "NaClSysMprotect env nap start len prot = (if \<not> ok then Inr (- NACL_ABI_EACCES, ?nap1)
            else ebind (NaClVmIoPendingCheck_mu ?nap1 start (ucast (u + n - 1))) (\<lambda>_.
                 MprotectInternal env (u + mem_start ?nap1) n prot ?nap1))"
          unfolding run1 m(1) by simp
        have low: "vm_map m p = vm_map (mem_map nap) p" if "p * 4096 < unat (dynamic_text_end nap)" for p
        proof (cases "ok \<and> len \<noteq> 0")
          case True
          then have "data_pages nap u n" using range_page_multiple [OF sp go(1) _ nd go(2,4)] n0 by simp
          then have "\<not> unat u div 4096 \<le> p" using that u4(1) by (auto simp: data_pages_def elim!: dvdE)
          then show ?thesis using m(4) True by (auto simp: reprotected_def)
        qed (use m(4) in auto)
        have "text_mapped nap m" by (rule text_mapped_keep [OF mem_invD(4) [OF inv] low])
        then have inv1: "mem_inv E S F ?nap1" using mem_inv_store [OF inv m(2,3)] by simp
        have lim: "addr_limit ?nap1 = addr_limit nap" by (simp add: addr_limit_def)
        show ?thesis
        proof (cases "\<not> ok \<or> NaClVmIoPendingCheck_mu ?nap1 start (ucast (u + n - 1)) = Inl Log_fatal")
          case True
          then show ?thesis unfolding run2 using m(4) inv1 by (auto simp: NACL_ABI_EACCES_def same_view_def same_layout_def)
        next
          case no: False
          then have run3: "NaClSysMprotect env nap start len prot = MprotectInternal env (u + mem_start ?nap1) n prot ?nap1"
            unfolding run2 using pending_cases [of ?nap1 start "ucast (u + n - 1)"] by auto
          show ?thesis
          proof (cases "MprotectInternal env (u + mem_start ?nap1) n prot ?nap1")
            case (Inl e)
            have "e = Log_fatal" if nz: "len \<noteq> 0"
            proof -
              have "reprotected u n prot (mem_map nap) m" using m(4) nz no by blast
              then have "\<forall>p. unat u div 4096 \<le> p \<and> p < (unat u + unat n) div 4096 \<longrightarrow> vm_map m p \<noteq> None"
                unfolding reprotected_def by (metis map_option_is_None)
              then show ?thesis
                using MprotectInternal_checks [OF inv1, of u n env prot] Inl m(4) nz no rk(2) u4 n0 lim by simp
            qed
            then show ?thesis unfolding run3 Inl by simp
          next
            case (Inr x)
            obtain r nap' where x: "x = (r, nap')" by (cases x)
            have q: "u < addr_limit ?nap1" "unat u + unat n \<le> unat (addr_limit ?nap1)" using True rk(2) lim by simp_all
            note R = MprotectInternal_result [OF inv1 q u4(1) Inr [unfolded x]]
            then have nz: "len \<noteq> 0" using n0 by auto
            then have d: "data_pages nap u n" using range_page_multiple [OF sp go(1) _ nd go(2,4)] n0 by simp
            have "reprotected u n prot (mem_map nap) m" using m(4) nz no by blast
            then have "reprotected u n prot (mem_map nap) (mem_map nap')"
              using R by (simp add: reprotected_def maps_same_def)
            moreover have "protects ?nap1 hp P Q m' rs = protects nap hp P Q m' rs" for hp P Q m' rs
              by (rule protects_space) simp
            ultimately show ?thesis unfolding run3 Inr x using R d p3 by (auto simp: same_view_def same_layout_def)
          qed
        qed
      qed (simp add: run1)
    qed
  qed
qed

end
