(* ===== verification/MemMmap.thy ===== *)
theory MemMmap
  imports MemProtect
begin

text \<open>
  What \<open>NaClSysMmap\<close> asks of the host, and what it keeps: each part of the call is shown to make
  only requests that are allowed, to write only in the text area and above it, and to keep the
  invariant. The parts are composed in the order of the source.
\<close>

section \<open>Allowed requests\<close>

text \<open>A request for data lies above the text and inside the sandbox; the host works on whole pages.\<close>

definition data_request :: "'a nacl_space_scheme \<Rightarrow> u64 \<Rightarrow> u64 \<Rightarrow> bool" where
  "data_request nap a n \<longleftrightarrow> unat (mem_start nap) + unat (dynamic_text_end nap) \<le> unat a
     \<and> unat a + nat_round_up 12 (unat n) \<le> unat (mem_start nap) + unat (addr_limit nap)"

text \<open>
  The bytes of the file as the method \<open>Map\<close> shows them to the validator, and a request for code: it
  lies in the dynamic text area and the validator has accepted these bytes for this address.
\<close>

definition file_image :: "'h mem_env \<Rightarrow> nat \<Rightarrow> u64 \<Rightarrow> u64 \<Rightarrow> 'h \<Rightarrow> u8 list" where
  "file_image env d n off h = map (\<lambda>i. fst (snd (me_Map env d 0 n 3 2 off h)) (of_nat i)) [0 ..< unat n]"

definition code_request :: "'h mem_env \<Rightarrow> 'a nacl_space_scheme \<Rightarrow> nat \<Rightarrow> u64 \<Rightarrow> u64 \<Rightarrow> u64 \<Rightarrow> bool" where
  "code_request env nap d a n off \<longleftrightarrow> unat (mem_start nap) + unat (dynamic_text_start nap) \<le> unat a
     \<and> unat a + unat n \<le> unat (mem_start nap) + unat (dynamic_text_end nap)
     \<and> (\<exists>h flags. fst (e_Validate (me_text env) (a - mem_start nap) (file_image env d n off h) False flags True
           (Some (me_metadata env d)) True) = NaClValidationSucceeded)"

text \<open>
  Memory is never both writable and executable. Pages become executable in two ways: a file that the
  validator has accepted is mapped into the dynamic text, or pages of the dynamic text are shown, filled
  by the runtime (\<open>text_request\<close>). Outside the sandbox lie the validator's view of a file (no
  \<open>MAP_FIXED\<close>) and the writable views of the text's shared memory, and only these are unmapped.
\<close>

definition request_ok :: "'h mem_env \<Rightarrow> 'h mem_app \<Rightarrow> mem_request \<Rightarrow> bool" where
  "request_ok env nap q \<longleftrightarrow>
     (case q of
        Host_mmap a n p f \<Rightarrow> p AND 4 = 0 \<and> data_request nap a n
      | Host_mprotect a n p \<Rightarrow> p AND 4 = 0 \<and> data_request nap a n
      | Host_munmap a n \<Rightarrow> \<exists>d off h. a = fst (me_Map env d 0 n 3 2 off h)
      | Text_Map a n p f off \<Rightarrow> False
      | Desc_Map d a n p f off \<Rightarrow>
          if f AND 0x10 = 0 then a = 0 \<and> p AND 4 = 0
          else if p AND 4 = 0 then data_request nap a n
          else p AND 2 = 0 \<and> code_request env nap d a n off)
     \<or> text_request (me_text env) nap q"

text \<open>
  What a call asks for. The view that is cached afterwards was there before or was mapped by the call.
\<close>

definition asks :: "'h mem_env \<Rightarrow> 'h mem_app \<Rightarrow> 'h mem_app \<Rightarrow> bool" where
  "asks env a b \<longleftrightarrow> (\<exists>rs. requests b = rs @ requests a \<and> list_all (request_ok env a) rs)
     \<and> (mapcache_size b \<noteq> 0 \<longrightarrow> text_view (me_text env) a (mapcache_ret b) (ucast (mapcache_size b)))"

lemma cached_view: "mapcache_size a \<noteq> 0 \<longrightarrow> text_view t a (mapcache_ret a) (ucast (mapcache_size a))"
  by (simp add: text_view_def)

lemma asks_same [simp]:
  "requests b = requests a \<Longrightarrow> mapcache_size b = mapcache_size a \<Longrightarrow> mapcache_ret b = mapcache_ret a \<Longrightarrow> asks env a b"
  using cached_view [of a] by (simp add: asks_def)

lemma asks_some:
  "requests b = rs @ requests a \<Longrightarrow> list_all (request_ok env a) rs \<Longrightarrow> mapcache_size b = mapcache_size a
    \<Longrightarrow> mapcache_ret b = mapcache_ret a \<Longrightarrow> asks env a b"
  using cached_view [of a] by (simp add: asks_def)

lemma asks_one:
  "requests b = q # requests a \<Longrightarrow> request_ok env a q \<Longrightarrow> mapcache_size b = mapcache_size a
    \<Longrightarrow> mapcache_ret b = mapcache_ret a \<Longrightarrow> asks env a b"
  by (rule asks_some [of b "[q]"]) simp_all

lemma asks_text:
  assumes "text_asks (me_text env) a b"
  shows "asks env a b"
proof -
  obtain rs where "requests b = rs @ requests a" "list_all (text_request (me_text env) a) rs"
    using assms unfolding text_asks_def by blast
  moreover have "list_all (request_ok env a) rs"
    by (rule list.pred_mono_strong [OF calculation(2)]) (simp add: request_ok_def)
  ultimately show ?thesis using assms by (auto simp: asks_def text_asks_def)
qed

lemma asks_view:
  assumes "asks env a b" "text_view (me_text env) b x n"
  shows "text_view (me_text env) a x n"
proof (cases "\<exists>sz off. x = e_shm_map (me_text env) sz off \<and> n = ucast sz")
  case True
  then show ?thesis by (simp add: text_view_def)
next
  case False
  then show ?thesis using assms by (auto simp: text_view_def [of _ b] asks_def)
qed

lemma request_ok_back:
  assumes l: "same_layout a b" and a: "asks env a b" and q: "request_ok env b q"
  shows "request_ok env a q"
proof -
  have "data_request b = data_request a" "code_request env b = code_request env a"
    using l by (simp_all add: fun_eq_iff data_request_def code_request_def same_layout_def addr_limit_def)
  moreover have "text_request (me_text env) b q \<Longrightarrow> text_request (me_text env) a q"
    using l asks_view [OF a] by (cases q) (auto simp: text_request_def same_layout_def)
  ultimately show ?thesis using q unfolding request_ok_def by metis
qed

lemma asks_trans:
  assumes l: "same_layout a b" and ab: "asks env a b" and bc: "asks env b c"
  shows "asks env a c"
proof -
  obtain rs where rs: "requests b = rs @ requests a" "list_all (request_ok env a) rs" using ab by (auto simp: asks_def)
  obtain qs where qs: "requests c = qs @ requests b" "list_all (request_ok env b) qs" using bc by (auto simp: asks_def)
  have "list_all (request_ok env a) qs"
    by (rule list.pred_mono_strong [OF qs(2)]) (rule request_ok_back [OF l ab])
  then have "\<exists>rs. requests c = rs @ requests a \<and> list_all (request_ok env a) rs"
    using rs qs(1) by (intro exI [of _ "qs @ rs"]) simp
  then show ?thesis using bc asks_view [OF ab] by (simp add: asks_def)
qed

text \<open>
  What a call may do: the layout stays, every request is allowed, and memory changes only between
  the start of the dynamic text and the end of the sandbox. All calls but \<open>brk\<close> keep the break.
\<close>

definition allowed :: "'h mem_env \<Rightarrow> 'h mem_app \<Rightarrow> 'h mem_app \<Rightarrow> bool" where
  "allowed env a b \<longleftrightarrow> same_layout a b \<and> asks env a b
     \<and> (\<forall>x. fa_mem b x \<noteq> fa_mem a x \<longrightarrow> unat (mem_start a) + unat (dynamic_text_start a) \<le> unat x
           \<and> unat x < unat (mem_start a) + unat (addr_limit a))"

definition kept :: "'h mem_env \<Rightarrow> 'h mem_app \<Rightarrow> 'h mem_app \<Rightarrow> bool" where
  "kept env a b \<longleftrightarrow> allowed env a b \<and> break_addr b = break_addr a"

lemma allowed_refl [simp]: "allowed env a a"
  by (simp add: allowed_def)

lemma kept_refl [simp]: "kept env a a"
  by (simp add: kept_def)

lemma allowed_trans:
  assumes "allowed env a b" "allowed env b c"
  shows "allowed env a c"
proof -
  have s: "same_layout a b" "same_layout b c" using assms by (simp_all add: allowed_def)
  moreover have "asks env a c" using asks_trans [OF s(1)] assms by (simp add: allowed_def)
  moreover have "unat (mem_start a) + unat (dynamic_text_start a) \<le> unat x
      \<and> unat x < unat (mem_start a) + unat (addr_limit a)" if "fa_mem c x \<noteq> fa_mem a x" for x
  proof (cases "fa_mem b x = fa_mem a x")
    case True
    then show ?thesis using that assms(2) s(1) by (auto simp: allowed_def same_layout_def addr_limit_def)
  qed (use assms(1) in \<open>auto simp: allowed_def\<close>)
  ultimately show ?thesis using same_layout_trans [OF s] by (auto simp: allowed_def)
qed

lemma kept_trans: "kept env a b \<Longrightarrow> kept env b c \<Longrightarrow> kept env a c"
  using allowed_trans by (fastforce simp: kept_def)

lemma kept_one:
  assumes "same_view a b" "break_addr b = break_addr a" "requests b = q # requests a" "request_ok env a q"
    "writes_in (unat (mem_start a) + w) k (fa_mem a) (fa_mem b)" "unat (dynamic_text_start a) \<le> w" "w + k \<le> unat (addr_limit a)"
  shows "kept env a b"
  using assms asks_one [of b q a] unfolding kept_def allowed_def writes_in_def same_view_def by fastforce

lemma data_pages_request:
  assumes "space_ok nap" "data_pages nap u n"
  shows "data_request nap (u + mem_start nap) n" "unat (u + mem_start nap) = unat (mem_start nap) + unat u"
    "unat u + unat n \<le> unat (addr_limit nap)" "unat (dynamic_text_end nap) \<le> unat u"
proof -
  show u: "unat (u + mem_start nap) = unat (mem_start nap) + unat u"
    "unat u + unat n \<le> unat (addr_limit nap)" "unat (dynamic_text_end nap) \<le> unat u"
    using assms unat_user_to_sys [OF assms(1), of u] by (simp_all add: data_pages_def)
  have "4096 dvd unat n" using assms(2) by (simp add: data_pages_def)
  then have "nat_round_up 12 (unat n) = unat n" using nat_round_up_id [of 12 "unat n"] by simp
  then show "data_request nap (u + mem_start nap) n" using u by (simp add: data_request_def)
qed

section \<open>References\<close>

lemma get_desc_shape:
  "NaClAppGetDesc nap d = Inr (x, nap') \<Longrightarrow> \<exists>R. nap' = nap\<lparr>nd_refs := R\<rparr>"
  by (auto simp: NaClAppGetDesc_def NaClAppGetDescMu_def NaClRefCountRef_def split: option.splits if_splits
      intro: exI [of _ "nd_refs nap"])

lemma unref_shape:
  assumes "NaClRefCountSafeUnref vt x nap = Inr nap'"
  shows "\<exists>R h. nap' = nap\<lparr>nd_refs := R, host := h\<rparr>"
proof -
  have "nap' = nap\<lparr>nd_refs := nd_refs nap', host := host nap'\<rparr>"
    using assms by (auto simp: NaClRefCountSafeUnref_def NaClRefCountUnref_def split: option.splits if_splits)
  then show ?thesis by blast
qed

text \<open>The references while a call holds the descriptor \<open>ndp\<close>.\<close>

definition holding :: "(nat \<Rightarrow> nat) \<Rightarrow> nat option \<Rightarrow> nat \<Rightarrow> nat" where
  "holding E ndp = (case ndp of None \<Rightarrow> E | Some n \<Rightarrow> E(n := E n + 1))"

lemma holding_refs:
  "(\<lambda>k. m k + holding E None k) = (\<lambda>k. m k + E k)"
  "(\<lambda>k. m k + holding E (Some n) k) = (\<lambda>k. m k + E k)(n := m n + E n + 1)"
  by (auto simp: holding_def fun_eq_iff)

lemma mem_inv_refs:
  "mem_inv E S F nap \<Longrightarrow> fd_inv (\<lambda>k. map_refs (mem_map nap) k + E' k) S F (nap\<lparr>nd_refs := R, host := h\<rparr>)
    \<Longrightarrow> mem_inv E' S F (nap\<lparr>nd_refs := R, host := h\<rparr>)"
  by (simp add: mem_inv_def text_mapped_def)

lemma get_desc_kept:
  assumes inv: "mem_inv E S F nap" and g: "NaClAppGetDesc nap d = Inr (x, nap')"
  shows "mem_inv (holding E x) S F nap' \<and> kept env nap nap' \<and> (\<exists>R. nap' = nap\<lparr>nd_refs := R\<rparr>)"
proof -
  obtain R where R: "nap' = nap\<lparr>nd_refs := R\<rparr>" using get_desc_shape [OF g] by blast
  have "fd_inv (\<lambda>k. map_refs (mem_map nap) k + holding E x k) S F nap'"
    using GetDesc_ok [OF mem_invD(1) [OF inv], of d] g mem_invD(1) [OF inv]
    by (cases x) (auto simp: holding_refs)
  then have "mem_inv (holding E x) S F nap'" using mem_inv_refs [OF inv, where E' = "holding E x" and R = R and h = "host nap"] R by simp
  then show ?thesis using R by (auto simp: kept_def allowed_def same_layout_def)
qed

lemma unref_kept:
  assumes inv: "mem_inv (holding E ndp) S F nap" and u: "NaClRefCountSafeUnref vt ndp nap = Inr nap'"
  shows "mem_inv E S F nap' \<and> kept env nap nap' \<and> mem_map nap' = mem_map nap"
proof -
  obtain R h where R: "nap' = nap\<lparr>nd_refs := R, host := h\<rparr>" using unref_shape [OF u] by blast
  have "fd_inv (\<lambda>k. map_refs (mem_map nap) k + E k) S F nap'"
  proof (cases ndp)
    case None
    then show ?thesis using mem_invD(1) [OF inv] u by (simp add: holding_refs NaClRefCountSafeUnref_def)
  next
    case (Some n)
    then have "fd_inv ((\<lambda>k. map_refs (mem_map nap) k + E k)(n := map_refs (mem_map nap) n + E n + 1)) S F nap"
      using mem_invD(1) [OF inv] by (simp add: holding_refs)
    from Unref_ok [OF this, of vt] show ?thesis using u Some by (auto simp: NaClRefCountSafeUnref_def)
  qed
  then show ?thesis using mem_inv_refs [OF inv] R by (auto simp: kept_def allowed_def same_layout_def)
qed

section \<open>The length and the place\<close>

lemma host_round_dvd: "4096 dvd unat (NaClRoundHostAllocPage n)"
proof -
  have "unat (NaClRoundHostAllocPage n) = nat_round_down 12 (unat (n + 0xfff))"
    unfolding NaClRoundHostAllocPage_def NaClRoundPage_def page_masks round_shape
    using unat_round_down [of "n + (2 ^ 12 - 1)" 12] by simp
  then show ?thesis by (simp add: nat_round_down_def)
qed

lemma extent_ok:
  assumes "mmap_extent env ndp off nap = Inr (x, nap1)"
  shows "\<exists>h. nap1 = nap\<lparr>host := h\<rparr>"
    and "x = Inr (fs, fb, hr) \<Longrightarrow> hr = kMaxUsableFileSize \<or> 4096 dvd unat hr"
proof -
  show "\<exists>h. nap1 = nap\<lparr>host := h\<rparr>"
    using assms by (auto simp: mmap_extent_def Let_def split: option.splits prod.splits if_splits intro: exI [of _ "host nap"])
  assume "x = Inr (fs, fb, hr)"
  then show "hr = kMaxUsableFileSize \<or> 4096 dvd unat hr"
    using assms host_round_dvd by (auto simp: mmap_extent_def Let_def split: option.splits prod.splits if_splits)
qed

lemma find_kept:
  assumes "mem_inv E S F nap" "fd_inv (\<lambda>n. map_refs m n + E n) S F (store_counts env m nap)" "vm_wf m"
    "maps_same (mem_map nap) m"
  shows "mem_inv E S F (store_counts env m nap) \<and> kept env nap (store_counts env m nap)"
proof -
  have "text_mapped nap m" using mem_invD(4) [OF assms(1)] assms(4) by (simp add: text_mapped_def maps_same_def)
  then show ?thesis using mem_inv_store [OF assms(1-3)] by (simp add: kept_def allowed_def same_layout_def)
qed

text \<open>The pages of a range are free.\<close>

definition range_free :: "u64 \<Rightarrow> u64 \<Rightarrow> vmmap \<Rightarrow> bool" where
  "range_free u n m \<longleftrightarrow> (\<forall>p \<in> {unat u div 4096 ..< (unat u + unat n) div 4096}. vm_map m p = None)"

lemma found_place:
  fixes r n :: u64
  assumes n: "65536 dvd unat n" "unat n < 2 ^ 32" and r: "16 dvd unat r"
    "unat r + nat_round_up 4 (unat (drop_bit NACL_PAGESHIFT n)) \<le> vm_pages"
    "\<forall>p \<in> {unat r ..< unat r + nat_round_up 4 (unat (drop_bit NACL_PAGESHIFT n))}. vm_map m p = None"
  shows "65536 dvd unat (push_bit NACL_PAGESHIFT r)" "range_free (push_bit NACL_PAGESHIFT r) n m"
proof -
  obtain j i where j: "unat n = 65536 * j" and i: "unat r = 16 * i" using n(1) r(1) by (auto elim!: dvdE)
  have k: "unat (drop_bit NACL_PAGESHIFT n) = 16 * j" using j by (simp add: NACL_PAGESHIFT_def unat_drop_bit_div)
  have up: "nat_round_up 4 (16 * j) = 16 * j" using nat_round_up_id [of 4 "16 * j"] by simp
  have "unat r * 2 ^ NACL_PAGESHIFT < 2 ^ LENGTH(64)"
    using r(2) by (simp add: NACL_PAGESHIFT_def vm_pages_def)
  from unat_push_bit_nowrap [OF this] have u: "unat (push_bit NACL_PAGESHIFT r) = 65536 * i"
    using i by (simp add: NACL_PAGESHIFT_def)
  show "65536 dvd unat (push_bit NACL_PAGESHIFT r)" unfolding u by simp
  show "range_free (push_bit NACL_PAGESHIFT r) n m"
    using r(3) unfolding range_free_def u j k up i by simp
qed

lemma place_ok:
  assumes inv: "mem_inv E S F nap" and n: "65536 dvd unat n" "unat n < 2 ^ 32" and u: "65536 dvd unat u"
    and res: "mmap_place env u n flags nap = Inr (x, nap')"
  shows "mem_inv E S F nap'" "kept env nap nap'" "vm_map (mem_map nap') = vm_map (mem_map nap)"
    "x = Inr v \<Longrightarrow> 65536 dvd unat v \<and> (if flags AND NACL_ABI_MAP_FIXED \<noteq> 0 then v = u else range_free v n (mem_map nap))"
proof -
  let ?k = "drop_bit NACL_PAGESHIFT n"
  have k: "unat ?k \<le> vm_pages" using n(2) by (simp add: NACL_PAGESHIFT_def unat_drop_bit_div vm_pages_def)
  have anywhere: "mem_inv E S F b \<and> kept env a b \<and> maps_same (mem_map a) (mem_map b)
      \<and> (r \<noteq> 0 \<longrightarrow> 65536 dvd unat (push_bit NACL_PAGESHIFT r) \<and> range_free (push_bit NACL_PAGESHIFT r) n (mem_map a))"
    if "mem_inv E S F a" "with_map env (\<lambda>m. NaClVmmapFindMapSpace m ?k) a = Inr (r, b)" for a b r
    using find_space.run [OF mem_invD(1,2) [OF that(1)] k, of env] that(2) find_kept [OF that(1)] found_place [OF n]
    by auto
  have above: "mem_inv E S F b \<and> kept env a b \<and> maps_same (mem_map a) (mem_map b)
      \<and> (r \<noteq> 0 \<longrightarrow> 65536 dvd unat (push_bit NACL_PAGESHIFT r) \<and> range_free (push_bit NACL_PAGESHIFT r) n (mem_map a))"
    if "mem_inv E S F a" "with_map env (\<lambda>m. NaClVmmapFindMapSpaceAboveHint m u ?k) a = Inr (r, b)" for a b r
    using find_above.run [OF mem_invD(1,2) [OF that(1)] k, of env u] that(2) find_kept [OF that(1)] found_place [OF n] u
    by auto
  have "mem_inv E S F nap' \<and> kept env nap nap' \<and> vm_map (mem_map nap') = vm_map (mem_map nap)
    \<and> (x = Inr v \<longrightarrow> 65536 dvd unat v \<and> (if flags AND NACL_ABI_MAP_FIXED \<noteq> 0 then v = u else range_free v n (mem_map nap)))"
  proof (cases "flags AND NACL_ABI_MAP_FIXED = 0")
    case False
    then show ?thesis using res inv u by (auto simp: mmap_place_def)
  next
    case fixed: True
    define pick where "pick = (if 0 = u then with_map env (\<lambda>m. NaClVmmapFindMapSpace m ?k) nap
      else ebind (with_map env (\<lambda>m. NaClVmmapFindMapSpaceAboveHint m u ?k) nap) (\<lambda>(usrpage, nap1).
        if 0 = usrpage then with_map env (\<lambda>m. NaClVmmapFindMapSpace m ?k) nap1 else Inr (usrpage, nap1)))"
    obtain r b where pick: "pick = Inr (r, b)"
      and x: "x = (if 0 = r then Inl (neg_errno NACL_ABI_ENOMEM) else Inr (push_bit NACL_PAGESHIFT r))" "nap' = b"
      using res fixed unfolding mmap_place_def Let_def pick_def [symmetric]
      by (auto simp del: ebind_eq_Inr simp: ebind_eq_Inr [of pick] split: if_splits)
    have "mem_inv E S F b \<and> kept env nap b \<and> maps_same (mem_map nap) (mem_map b)
      \<and> (r \<noteq> 0 \<longrightarrow> 65536 dvd unat (push_bit NACL_PAGESHIFT r) \<and> range_free (push_bit NACL_PAGESHIFT r) n (mem_map nap))"
    proof (cases "0 = u")
      case True
      then show ?thesis using anywhere [OF inv] pick by (simp add: pick_def)
    next
      case False
      obtain r1 b1 where b1: "with_map env (\<lambda>m. NaClVmmapFindMapSpaceAboveHint m u ?k) nap = Inr (r1, b1)"
        "(if 0 = r1 then with_map env (\<lambda>m. NaClVmmapFindMapSpace m ?k) b1 else Inr (r1, b1)) = Inr (r, b)"
        using pick False by (auto simp: pick_def)
      note a1 = above [OF inv b1(1)]
      show ?thesis
      proof (cases "0 = r1")
        case True
        then have "with_map env (\<lambda>m. NaClVmmapFindMapSpace m ?k) b1 = Inr (r, b)" using b1(2) by simp
        from anywhere [OF _ this] show ?thesis using a1 kept_trans [of env nap b1 b]
          by (auto simp: maps_same_def range_free_def)
      qed (use a1 b1(2) in auto)
    qed
    then show ?thesis using x fixed by (auto simp: maps_same_def)
  qed
  then show "mem_inv E S F nap'" "kept env nap nap'" "vm_map (mem_map nap') = vm_map (mem_map nap)"
    "x = Inr v \<Longrightarrow> 65536 dvd unat v \<and> (if flags AND NACL_ABI_MAP_FIXED \<noteq> 0 then v = u else range_free v n (mem_map nap))"
    by blast+
qed

lemma refused_ok:
  assumes "mmap_refused env nap code ndp u n len = None"
  shows "unat u + unat n \<le> unat (addr_limit nap)" "u < addr_limit nap"
    "\<not> code \<Longrightarrow> 65536 dvd unat u \<Longrightarrow> dynamic_text_end nap \<le> u"
proof -
  have a: "u < addr_limit nap" "\<not> u + n < u" "u + n \<le> addr_limit nap"
    "\<not> code \<Longrightarrow> \<not> NaClTruncAllocPage u < dynamic_text_end nap"
    using assms by (auto simp: mmap_refused_def Let_def not_less NaClSysCommonAddrRangeContainsExecutablePages_def split: if_splits)
  have "unat (u + n) = unat u + unat n" using a(2) by (simp add: not_less unat_plus_simple [of u n, THEN iffD1])
  then show "unat u + unat n \<le> unat (addr_limit nap)" "u < addr_limit nap" using a(1,3) by (simp_all add: word_nat)
  assume "\<not> code" "65536 dvd unat u"
  then show "dynamic_text_end nap \<le> u"
    using a(4) nat_round_down_id [of 16 "unat u"] by (simp add: word_nat unat_NaClTruncAllocPage not_less)
qed

section \<open>Mapping data\<close>

lemma data_place:
  assumes sp: "space_ok nap" and d: "data_pages nap u n" and k: "unat k \<le> unat n"
  shows "data_request nap (u + mem_start nap) k"
    "writes_in (unat (mem_start nap) + unat u) (unat n) m (put_region (u + mem_start nap) (NaClRoundPage k) f m)"
proof -
  note q = data_pages_request [OF sp d]
  have "4096 dvd unat n" using d by (simp add: data_pages_def)
  then have up: "nat_round_up 12 (unat k) \<le> unat n" using k by (intro nat_round_up_le) simp_all
  then show "data_request nap (u + mem_start nap) k" using q(2-4) by (simp add: data_request_def)
  have "unat k < 2 ^ 63" using k q(3) addr_limit_le [OF sp] by simp
  then have r: "unat (NaClRoundPage k) = nat_round_up 12 (unat k)" by (rule unat_NaClRoundPage)
  have "unat (u + mem_start nap) + unat (NaClRoundPage k) \<le> 2 ^ 64" using up q(2,3) space_top [OF sp] unfolding r by simp
  from put_region_writes [OF this, of m f] show
    "writes_in (unat (mem_start nap) + unat u) (unat n) m (put_region (u + mem_start nap) (NaClRoundPage k) f m)"
    by (rule writes_in_mono) (use up q(2) in \<open>simp_all add: r\<close>)
qed

lemma prot_map_no_exec:
  fixes prot :: u32
  shows "(NaClProtMap prot AND - 5) AND 4 = 0" "prot AND 4 = 0 \<Longrightarrow> NaClProtMap (prot AND NACL_ABI_PROT_MASK) AND 4 = 0"
proof -
  show "(NaClProtMap prot AND - 5) AND 4 = 0" by (simp add: and.assoc)
  assume "prot AND 4 = 0"
  then have "(prot AND 7) AND 4 = 0" by (metis and.assoc and.commute and_zero_eq)
  then show "NaClProtMap (prot AND NACL_ABI_PROT_MASK) AND 4 = 0"
    by (simp add: NaClProtMap_def NACL_ABI_PROT_MASK_def NACL_ABI_PROT_EXEC_def and.commute [of 4] bit.conj_disj_distrib2)
qed

lemma anon_ok:
  assumes inv: "mem_inv E S F nap" and host: "host_ok env" and d: "data_pages nap u n" and k: "unat len \<le> unat n"
    and ts: "dynamic_text_start nap \<le> dynamic_text_end nap"
    and fl: "flags AND NACL_ABI_MAP_FIXED \<noteq> 0" and pr: "prot AND NACL_ABI_PROT_EXEC = 0"
    and res: "NaClDescIoDescMapAnon env (u + mem_start nap) len prot flags off nap = Inr (r, nap')"
  shows "mem_inv E S F nap' \<and> kept env nap nap' \<and> mem_map nap' = mem_map nap"
proof -
  let ?a = "u + mem_start nap" and ?hp = "NaClProtMap (prot AND NACL_ABI_PROT_MASK)" and ?fl = "NaClMapFlagMap (flags OR NACL_ABI_MAP_FIXED)"
  have p: "?hp AND 4 = 0" using prot_map_no_exec(2) pr by (simp add: NACL_ABI_PROT_EXEC_def)
  have fl2: "(flags OR NACL_ABI_MAP_FIXED) AND NACL_ABI_MAP_FIXED \<noteq> 0" by (simp add: NACL_ABI_MAP_FIXED_def)
  obtain e b f h where m: "me_mmap env ?a len (?hp AND NOT 4) ?fl (- 1) off (host nap) = (e, b, f, h)"
    by (metis prod_cases4)
  let ?q = "Host_mmap ?a len (?hp AND NOT 4) ?fl"
  let ?nap0 = "nap\<lparr>host := h, requests := ?q # requests nap\<rparr>"
  have run: "nap' = nap \<or> nap' = (if e = 0 then ?nap0\<lparr>fa_mem := put_region ?a (NaClRoundPage len) f (fa_mem nap)\<rparr> else ?nap0)"
    using res m p fl2 fl
    by (cases "e = 0") (auto simp: NaClDescIoDescMapAnon_def NaClDescIoDescMap_def NaClHostDescMap_def host_mmap_def Let_def
        and.commute [of 4] and.commute [of NACL_ABI_MAP_FIXED] simp del: ebind_eq_Inr split: if_splits)
  note dp = data_place [OF mem_invD(3) [OF inv] d k]
  have q: "request_ok env nap ?q" using dp(1) prot_map_no_exec(1) by (simp add: request_ok_def)
  from run show ?thesis
  proof
    assume n: "nap' = (if e = 0 then ?nap0\<lparr>fa_mem := put_region ?a (NaClRoundPage len) f (fa_mem nap)\<rparr> else ?nap0)"
    have "kept env nap nap'"
      by (rule kept_one [OF _ _ _ q, where w = "unat u" and k = "unat n"])
        (use n dp(2) data_pages_request(3,4) [OF mem_invD(3) [OF inv] d] ts in \<open>auto simp: same_view_def same_layout_def word_nat\<close>)
    then show ?thesis using inv n by simp
  qed (use inv in simp)
qed

lemma data_ok:
  assumes inv: "mem_inv E S F nap" and host: "host_ok env" and d: "data_pages nap u n" and k: "unat len \<le> unat n"
    and ts: "dynamic_text_start nap \<le> dynamic_text_end nap"
    and fl: "flags AND NACL_ABI_MAP_FIXED \<noteq> 0" and pr: "prot AND NACL_ABI_PROT_EXEC = 0"
    and res: "mmap_data env ndp (u + mem_start nap) len prot flags off fb nap = Inr (x, nap')"
  shows "mem_inv E S F nap' \<and> kept env nap nap' \<and> mem_map nap' = mem_map nap"
proof (cases ndp)
  case None
  then obtain r where "NaClDescIoDescMapAnon env (u + mem_start nap) len prot flags off nap = Inr (r, nap')"
    using res by (auto simp: mmap_data_def split: if_splits)
  then show ?thesis by (rule anon_ok [OF inv host d k ts fl pr])
next
  case (Some m)
  let ?a = "u + mem_start nap" and ?k = "min len fb"
  let ?q = "Desc_Map m ?a ?k prot flags off"
  obtain r f h where v: "me_Map env m ?a ?k prot flags off (host nap) = (r, f, h)" by (metis prod_cases3)
  let ?nap0 = "nap\<lparr>host := h, requests := ?q # requests nap\<rparr>"
  have run: "nap' = ?nap0 \<or> nap' = ?nap0\<lparr>fa_mem := put_region ?a (NaClRoundPage ?k) f (fa_mem nap)\<rparr>"
    using res Some v by (auto simp: mmap_data_def desc_map_def Let_def split: if_splits)
  have "unat ?k \<le> unat n" using k by (simp add: min_def word_nat)
  note dp = data_place [OF mem_invD(3) [OF inv] d this]
  have q: "request_ok env nap ?q"
    using dp(1) fl pr by (simp add: request_ok_def NACL_ABI_MAP_FIXED_def NACL_ABI_PROT_EXEC_def)
  have w: "unat (dynamic_text_start nap) \<le> unat u" "unat u + unat n \<le> unat (addr_limit nap)"
    using data_pages_request(3,4) [OF mem_invD(3) [OF inv] d] ts by (simp_all add: word_nat)
  have "same_view nap nap' \<and> break_addr nap' = break_addr nap \<and> requests nap' = ?q # requests nap
      \<and> writes_in (unat (mem_start nap) + unat u) (unat n) (fa_mem nap) (fa_mem nap')
      \<and> mem_inv E S F nap' \<and> mem_map nap' = mem_map nap"
    using run by (rule disjE) (simp_all add: same_view_def same_layout_def dp(2) inv)
  then show ?thesis using kept_one [OF _ _ _ q _ w] by blast
qed

text \<open>The effect on the map: the pages of the range are new, the others stay.\<close>

definition mapped :: "u64 \<Rightarrow> u64 \<Rightarrow> u32 \<Rightarrow> u32 \<Rightarrow> nat option \<Rightarrow> u64 \<Rightarrow> u64 \<Rightarrow> vmmap \<Rightarrow> vmmap \<Rightarrow> bool" where
  "mapped u n prot flags ndp off fsz s m \<longleftrightarrow>
     (\<forall>p. vm_map m p = (if unat u div 4096 \<le> p \<and> p < (unat u + unat n) div 4096
        then Some (new_page (drop_bit NACL_PAGESHIFT u) prot flags ndp off fsz p) else vm_map s p))"

lemma mapped_over:
  "mapped u n prot flags ndp off fsz s1 m
    \<Longrightarrow> \<forall>p. \<not> (unat u div 4096 \<le> p \<and> p < (unat u + unat n) div 4096) \<longrightarrow> vm_map s1 p = vm_map s p
    \<Longrightarrow> mapped u n prot flags ndp off fsz s m"
  unfolding mapped_def by simp

lemma overwrite_ok:
  assumes inv: "mem_inv E S F nap" and d: "data_pages nap u n"
    and res: "with_map env (\<lambda>m. no_result (NaClVmmapAddWithOverwrite m (drop_bit NACL_PAGESHIFT u)
      (drop_bit NACL_PAGESHIFT n) prot flags ndp off fsz)) nap = Inr (x, nap')"
  shows "mem_inv E S F nap' \<and> kept env nap nap' \<and> mapped u n prot flags ndp off fsz (mem_map nap) (mem_map nap')"
proof -
  note r = data_pages_range [OF mem_invD(3) [OF inv] d]
  obtain m where w: "nap' = store_counts env m nap" "fd_inv (\<lambda>n. map_refs m n + E n) S F (store_counts env m nap)" "vm_wf m"
    "mapped u n prot flags ndp off fsz (mem_map nap) m"
    using overwrite_pages.run [OF mem_invD(1,2) [OF inv] r(1), of env prot flags ndp off fsz] res
    unfolding r(2) mapped_def by auto
  have "text_mapped nap m"
  proof (rule text_mapped_keep [OF mem_invD(4) [OF inv]])
    fix p assume "p * 4096 < unat (dynamic_text_end nap)"
    then have "\<not> (unat u div 4096 \<le> p \<and> p < (unat u + unat n) div 4096)" using r(3) unfolding r(2) by force
    then show "vm_map m p = vm_map (mem_map nap) p" using w(4) by (auto simp: mapped_def)
  qed
  then have "mem_inv E S F nap'" using mem_inv_store [OF inv w(2,3)] w(1) by simp
  then show ?thesis using w(1,4) by (simp add: kept_def allowed_def same_layout_def)
qed

lemma commit_ok:
  assumes inv: "mem_inv E S F nap" and host: "host_ok env" and d: "data_pages nap u n"
    and ts: "dynamic_text_start nap \<le> dynamic_text_end nap"
    and k: "unat len \<le> unat n" "4096 dvd unat len"
    and res: "mmap_commit env ndp u (u + mem_start nap) len n prot flags off fsz nap = Inr (r, nap')"
  shows "mem_inv E S F nap' \<and> kept env nap nap'
    \<and> (mem_map nap' = mem_map nap \<or> r = u \<and> mapped u n prot flags ndp off fsz (mem_map nap) (mem_map nap'))"
proof -
  have sp: "space_ok nap" by (rule mem_invD [OF inv])
  have ul: "u < addr_limit nap" and n0: "n > 0" using d by (simp_all add: data_pages_def word_nat)
  define cut where "cut = (if len < n then MunmapInternal env (u + mem_start nap + len) (n - len) nap else Inr (0, nap))"
  obtain e nap1 where cut1: "cut = Inr (e, nap1)"
    and rest: "(if e \<noteq> 0 then Inr (word_of_int e, nap1)
       else ebind (NaClSysToUser nap1 (u + mem_start nap)) (\<lambda>v. ebind (with_map env (\<lambda>m. no_result
            (NaClVmmapAddWithOverwrite m (drop_bit NACL_PAGESHIFT v) (drop_bit NACL_PAGESHIFT n) prot flags ndp off fsz)) nap1)
              (\<lambda>(x, nap2). Inr (u, nap2)))) = Inr (r, nap')"
    using res n0 unfolding mmap_commit_def cut_def [symmetric] by (cases cut) (auto simp: ebind_def split: sum.splits prod.splits if_splits)
  have c: "mem_inv E S F nap1 \<and> kept env nap nap1
      \<and> (if e = 0 then \<forall>p. \<not> (unat u div 4096 \<le> p \<and> p < (unat u + unat n) div 4096) \<longrightarrow> vm_map (mem_map nap1) p = vm_map (mem_map nap) p
         else mem_map nap1 = mem_map nap)"
  proof (cases "len < n")
    case False
    then show ?thesis using cut1 inv by (simp add: cut_def)
  next
    case True
    let ?v = "u + len" and ?k = "n - len"
    have q: "unat u + unat n \<le> 2 ^ 32" using d addr_limit_le [OF sp] by (simp add: data_pages_def)
    have v: "unat ?v = unat u + unat len" using q k(1) by (intro unat_add_nowrap) simp
    have l: "unat ?k = unat n - unat len" using k(1) by (intro unat_sub_nowrap) (simp add: word_nat)
    have dv: "data_pages nap ?v ?k" using d k(2) True unfolding data_pages_def v l by (auto simp: word_nat dvd_diff_nat)
    have run: "MunmapInternal env (u + mem_start nap + len) ?k nap = Inr (e, nap1)" using cut1 True by (simp add: cut_def)
    have a: "u + mem_start nap + len = ?v + mem_start nap" by simp
    have m: "mem_inv E S F nap1" "same_view nap nap1" "break_addr nap1 = break_addr nap"
      "requests nap1 = Host_mmap (?v + mem_start nap) ?k 0 0x32 # requests nap"
      "writes_in (unat (?v + mem_start nap)) (unat ?k) (fa_mem nap) (fa_mem nap1)"
      "if e = 0 then unmapped ?v ?k (mem_map nap) (mem_map nap1) else mem_map nap1 = mem_map nap"
      using MunmapInternal_ok [OF inv host dv refl] run [unfolded a] by auto
    note dr = data_pages_request [OF sp dv]
    have "request_ok env nap (Host_mmap (?v + mem_start nap) ?k 0 0x32)" using dr(1) by (simp add: request_ok_def)
    then have "kept env nap nap1"
      by (rule kept_one [OF m(2-4) _ m(5) [unfolded dr(2)]]) (use dr(3,4) ts in \<open>simp_all add: word_nat\<close>)
    moreover have "vm_map (mem_map nap1) p = vm_map (mem_map nap) p"
      if "e = 0" "\<not> (unat u div 4096 \<le> p \<and> p < (unat u + unat n) div 4096)" for p
    proof -
      have "unat ?v + unat ?k = unat u + unat n" "unat u div 4096 \<le> unat ?v div 4096"
        using v l k(1) div_le_mono [of "unat u" "unat u + unat len" 4096] by simp_all
      then have "\<not> (unat ?v div 4096 \<le> p \<and> p < (unat ?v + unat ?k) div 4096)" using that(2) by linarith
      then show ?thesis using m(6) that(1) by (auto simp: unmapped_def)
    qed
    ultimately show ?thesis using m(1,6) by auto
  qed
  show ?thesis
  proof (cases "e = 0")
    case False
    then show ?thesis using c rest by auto
  next
    case True
    let ?add = "with_map env (\<lambda>m. no_result (NaClVmmapAddWithOverwrite m (drop_bit NACL_PAGESHIFT u)
      (drop_bit NACL_PAGESHIFT n) prot flags ndp off fsz)) nap1"
    have l: "same_layout nap nap1" using c by (simp add: kept_def allowed_def)
    have "NaClSysToUser nap1 (u + mem_start nap) = Inr u"
      using NaClSysToUser_of_sum [OF mem_invD(3), of E S F nap1 u] c l ul by (simp add: same_layout_def addr_limit_def)
    then have "ebind ?add (\<lambda>(x, nap2). Inr (u, nap2)) = Inr (r, nap')" using rest True by (simp del: ebind_eq_Inr)
    then obtain x where x: "?add = Inr (x, nap')" and r: "r = u" by (cases ?add) auto
    have "data_pages nap1 u n" using d l by (simp add: data_pages_def same_layout_def addr_limit_def)
    note o = overwrite_ok [OF conjunct1 [OF c] this x]
    have "mapped u n prot flags ndp off fsz (mem_map nap) (mem_map nap')"
      by (rule mapped_over [of _ _ _ _ _ _ _ "mem_map nap1"]) (use o c True in simp_all)
    then show ?thesis using o r kept_trans [OF conjunct1 [OF conjunct2 [OF c]] conjunct1 [OF conjunct2 [OF o]]] by blast
  qed
qed

end
