(* ===== verification/MemMmapRun.thy ===== *)
theory MemMmapRun
  imports MemMmap
begin

text \<open>
  \<open>NaClSysMmap\<close> as a whole: mapping code, and the parts of \<open>MemMmap\<close> put together in the order of
  the source.
\<close>

section \<open>Mapping code\<close>

text \<open>A part of the call that leaves the memory map alone.\<close>

definition steady :: "'h mem_env \<Rightarrow> (nat \<Rightarrow> nat) \<Rightarrow> u32 multiset \<Rightarrow> u32 multiset \<Rightarrow> 'h mem_app \<Rightarrow> 'h mem_app \<Rightarrow> bool" where
  "steady env E S F a b \<longleftrightarrow> mem_inv E S F b \<and> kept env a b \<and> mem_map b = mem_map a"

lemma steady_refl: "mem_inv E S F a \<Longrightarrow> steady env E S F a a"
  by (simp add: steady_def)

lemma steady_trans: "steady env E S F a b \<Longrightarrow> steady env E S F b c \<Longrightarrow> steady env E S F a c"
  using kept_trans unfolding steady_def by fastforce

lemma mem_inv_regs [simp]: "mem_inv E S F (nap\<lparr>dyn_regs := rs\<rparr>) = mem_inv E S F nap"
  by (simp add: mem_inv_def fd_inv_def space_ok_def text_mapped_def)

lemma steady_request:
  "mem_inv E S F a \<Longrightarrow> request_ok env a q \<Longrightarrow> steady env E S F a (a\<lparr>host := h, requests := q # requests a\<rparr>)"
  using asks_one [of "a\<lparr>host := h, requests := q # requests a\<rparr>" q a env]
  by (simp add: steady_def kept_def allowed_def same_layout_def)

lemma steady_regs: "mem_inv E S F a \<Longrightarrow> (regions_safe a \<Longrightarrow> regions_safe (a\<lparr>dyn_regs := rs\<rparr>)) \<Longrightarrow> steady env E S F a (a\<lparr>dyn_regs := rs\<rparr>)"
  by (auto simp: steady_def kept_def allowed_def same_layout_def)

lemma steady_create:
  assumes inv: "mem_inv E S F nap" and area: "text_area_ok nap" and fr: "text_frame (nap\<lparr>dyn_regs := rs\<rparr>) nap'" "cache_ok nap'"
      "text_asks (me_text env) nap nap'" "regions_safe nap \<longrightarrow> regions_safe nap'"
    and wr: "\<forall>x. fa_mem nap' x \<noteq> fa_mem nap x \<longrightarrow> unat (mem_start nap) + unat (dynamic_text_start nap) \<le> unat x
         \<and> unat x < unat (mem_start nap) + unat (dynamic_text_end nap)"
  shows "steady env E S F nap nap'"
proof -
  have more: "code_app.more nap' = code_app.more nap" using fr(1) by (simp add: text_frame_def)
  have m: "mem_map nap' = mem_map nap" "break_addr nap' = break_addr nap" "data_end nap' = data_end nap"
    using more by (cases nap, cases nap', simp)+
  have fd: "fd_inv G S F nap' = fd_inv G S F nap" for G
    using fr(1) by (simp add: fd_inv_def text_frame_def space_ok_def)
  have "mem_inv E S F nap'" using inv m fr(1) fd by (simp add: mem_inv_def text_mapped_def text_frame_def)
  moreover have "unat (dynamic_text_end nap) \<le> unat (addr_limit nap)" using area by (simp add: text_area_ok_def)
  then have "kept env nap nap'"
    using wr fr m asks_text [OF fr(3)] by (fastforce simp: kept_def allowed_def same_layout_def text_frame_def)
  ultimately show ?thesis using m(1) by (simp add: steady_def)
qed

lemma code_ok:
  assumes inv: "mem_inv E S F nap" and area: "text_area_ok nap" "cache_ok nap"
    and env: "shm_limit (me_text env)" "keeps_length (me_text env)"
    and u: "dynamic_text_start nap \<le> u" "unat u + unat n \<le> unat (dynamic_text_end nap)"
    and k: "unat len \<le> unat n" "4096 dvd unat n" "0 < len" "32 dvd unat len" "32 dvd unat u"
    and res: "mmap_code env d u (u + mem_start nap) len off nap = Inr (r, nap')"
  shows "steady env E S F nap nap'"
proof -
  let ?a = "u + mem_start nap"
  obtain img f h where img: "me_Map env d 0 len 3 2 off (host nap) = (img, f, h)" by (metis prod_cases3)
  define nap1 where "nap1 = nap\<lparr>host := h, requests := Desc_Map d 0 len 3 2 off # requests nap\<rparr>"
  have dm: "desc_map env d 0 len (NACL_ABI_PROT_READ OR NACL_ABI_PROT_WRITE) NACL_ABI_MAP_PRIVATE off nap = (img, f, nap1)"
    using img by (simp add: desc_map_def nap1_def NACL_ABI_PROT_READ_def NACL_ABI_PROT_WRITE_def NACL_ABI_MAP_PRIVATE_def)
  have s1: "steady env E S F nap nap1" unfolding nap1_def by (rule steady_request [OF inv]) (simp add: request_ok_def)
  have inv1: "mem_inv E S F nap1" using s1 by (simp add: steady_def)
  have area1: "text_area_ok nap1" "cache_ok nap1" "mem_start nap1 = mem_start nap" "addr_bits nap1 = addr_bits nap"
    "dynamic_text_start nap1 = dynamic_text_start nap" "dynamic_text_end nap1 = dynamic_text_end nap"
    using area by (simp_all add: nap1_def text_area_ok_def space_ok_def addr_limit_def)
  define flags where "flags = (if pnacl_mode nap1 then 1 else 0 :: u32)"
  let ?image = "map (\<lambda>i. f (of_nat i)) [0 ..< unat len]"
  have image: "?image = file_image env d len off (host nap)" using img by (simp add: file_image_def)
  obtain st image1 where val: "e_Validate (me_text env) u ?image False flags True (Some (me_metadata env d)) True = (st, image1)"
    by fastforce
  have unmap: "steady env E S F b b'" if "NaClHostDescUnmapUnsafe env img len b = Inr b'" "mem_inv E S F b" for b b'
  proof -
    obtain e h' where m: "me_munmap env img len (host b) = (e, h')" by fastforce
    have "b' = b\<lparr>host := h', requests := Host_munmap img len # requests b\<rparr>"
      using that(1) m by (simp add: NaClHostDescUnmapUnsafe_def host_munmap_def split: if_splits)
    moreover have "request_ok env b (Host_munmap img len)"
      unfolding request_ok_def by (rule disjI1, simp) (rule exI [of _ d], rule exI [of _ off], rule exI [of _ "host nap"], simp add: img)
    ultimately show ?thesis using steady_request [OF that(2)] by simp
  qed
  have le: "unat (dynamic_text_end nap) \<le> unat (addr_limit nap)" using area(1) by (simp add: text_area_ok_def)
  have text_top: "unat (dynamic_text_end nap) \<le> 2 ^ 31" using area(1) by (simp add: text_area_ok_def)
  define install where "install ret rs = (let nap2 = nap1\<lparr>dyn_regs := rs\<rparr>
          in if \<not> ret then Inr (neg_errno NACL_ABI_EINVAL, nap2)
             else ebind (NaClHostDescUnmapUnsafe env img len nap2) (\<lambda>nap3.
               let (image_sys_addr2, f2, nap4) =
                     desc_map env d ?a len (NACL_ABI_PROT_READ OR NACL_ABI_PROT_EXEC)
                       (NACL_ABI_MAP_PRIVATE OR NACL_ABI_MAP_FIXED) off nap3
               in if image_sys_addr2 \<noteq> ?a then Inl Log_fatal
                  else Inr (scast (ucast u :: u32),
                            nap4\<lparr>fa_mem := put_region ?a (NaClRoundPage len) f2 (fa_mem nap4)\<rparr>)))" for ret rs
  let ?create = "NaClTextDyncodeCreate (me_text env) nap1 (ucast u) image1 (ucast len) None"
  have go: "(if st = NaClValidationSucceeded
       then ebind (NaClUserToSys nap1 u) (\<lambda>a. ebind (NaClDynamicRegionCreate (e_mem (me_text env)) (dyn_regs nap1) a len True)
              (\<lambda>(ret, rs). install ret rs))
       else ebind ?create (\<lambda>(sys_ret, nap2). ebind (NaClHostDescUnmapUnsafe env img len nap2) (\<lambda>nap3.
              Inr (if sys_ret < 0 then word_of_int sys_ret else scast (ucast u :: u32), nap3)))) = Inr (r, nap')"
    if "me_typeTag env d = NACL_DESC_HOST_IO" "\<not> NaClPtrIsNegErrno img"
    using res that val unfolding mmap_code_def dm Let_def flags_def install_def by (simp del: ebind_eq_Inr)
  consider "nap' = nap" | "nap' = nap1"
    | (accepted) ret rs where "st = NaClValidationSucceeded" "install ret rs = Inr (r, nap')"
        "NaClDynamicRegionCreate (e_mem (me_text env)) (dyn_regs nap1) ?a len True = Inr (ret, rs)"
    | (refused) sys_ret nap2 where "?create = Inr (sys_ret, nap2)" "NaClHostDescUnmapUnsafe env img len nap2 = Inr nap'"
  proof (cases "me_typeTag env d = NACL_DESC_HOST_IO \<and> \<not> NaClPtrIsNegErrno img")
    case False
    then show ?thesis using res that(1,2) unfolding mmap_code_def dm Let_def by (auto simp del: ebind_eq_Inr split: if_splits)
  next
    case True
    have "y = ?a" if "NaClUserToSys nap1 u = Inr y" for y using that area1(3) by (simp add: NaClUserToSys_Inr)
    then show ?thesis using True go that(3,4) by (cases "st = NaClValidationSucceeded") auto
  qed
  then show ?thesis
  proof cases
    case 1
    then show ?thesis using steady_refl [OF inv] by simp
  next
    case 2
    then show ?thesis using s1 by simp
  next
    case accepted
    let ?nap2 = "nap1\<lparr>dyn_regs := rs\<rparr>"
    have a: "unat ?a = unat (mem_start nap) + unat u" "?a - mem_start nap = u"
      using unat_user_to_sys [OF mem_invD(3) [OF inv], of u] u text_top le by (simp_all add: word_nat)
    have d32: "32 dvd unat (mem_start nap)" using mem_invD(3) [OF inv] by (auto simp: space_ok_def intro: dvd_trans [of 32 "2 ^ 32"])
    have "regions_safe ?nap2" if "regions_safe nap1"
      by (rule regions_safe_create [OF that accepted(3)])
        (use a(1) u k d32 le space_top [OF mem_invD(3) [OF inv]] in \<open>simp_all add: area1 word_nat\<close>)
    then have s2: "steady env E S F nap ?nap2" using steady_trans [OF s1 steady_regs [OF inv1]] by blast
    show ?thesis
    proof (cases ret)
      case False
      then show ?thesis using accepted(2) s2 by (simp add: install_def)
    next
      case True
      then obtain nap3 where nap3: "NaClHostDescUnmapUnsafe env img len ?nap2 = Inr nap3"
        "(let (image_sys_addr2, f2, nap4) =
                     desc_map env d ?a len (NACL_ABI_PROT_READ OR NACL_ABI_PROT_EXEC)
                       (NACL_ABI_MAP_PRIVATE OR NACL_ABI_MAP_FIXED) off nap3
               in if image_sys_addr2 \<noteq> ?a then Inl Log_fatal
                  else Inr (scast (ucast u :: u32),
                            nap4\<lparr>fa_mem := put_region ?a (NaClRoundPage len) f2 (fa_mem nap4)\<rparr>)) = Inr (r, nap')"
        using accepted(2) unfolding install_def by (cases "NaClHostDescUnmapUnsafe env img len ?nap2") (simp_all add: Let_def)
      have s3: "steady env E S F nap nap3" using s2 unmap [OF nap3(1)] steady_trans inv1 by simp
      then have inv3: "mem_inv E S F nap3" and l3: "same_layout nap nap3" by (simp_all add: steady_def kept_def allowed_def)
      let ?q = "Desc_Map d ?a len 5 0x12 off"
      obtain b f2 h2 where m2: "me_Map env d ?a len 5 0x12 off (host nap3) = (b, f2, h2)" by (metis prod_cases3)
      have nap': "nap' = nap3\<lparr>host := h2, requests := ?q # requests nap3, fa_mem := put_region ?a (NaClRoundPage len) f2 (fa_mem nap3)\<rparr>"
        using nap3(2) m2 by (simp add: desc_map_def NACL_ABI_PROT_READ_def NACL_ABI_PROT_EXEC_def NACL_ABI_MAP_PRIVATE_def
            NACL_ABI_MAP_FIXED_def split: if_splits)
      have "fst (e_Validate (me_text env) u (file_image env d len off (host nap)) False flags True (Some (me_metadata env d)) True)
          = NaClValidationSucceeded"
        using val accepted(1) image by simp
      then have "code_request env nap d ?a len off" using u k(1) a unfolding code_request_def
        by (auto simp: word_nat)
      then have "request_ok env nap ?q" by (simp add: request_ok_def)
      moreover have "code_request env nap3 = code_request env nap"
        using l3 by (simp add: fun_eq_iff code_request_def same_layout_def)
      ultimately have q: "request_ok env nap3 ?q" by (simp add: request_ok_def text_request_def)
      have up: "nat_round_up 12 (unat len) \<le> unat n" using k by (intro nat_round_up_le) simp_all
      have "unat len < 2 ^ 63" using k(1) u(2) text_top by simp
      then have rl: "unat (NaClRoundPage len) = nat_round_up 12 (unat len)" by (rule unat_NaClRoundPage)
      have "unat ?a + unat (NaClRoundPage len) \<le> 2 ^ 64"
        using space_top [OF mem_invD(3) [OF inv]] le u(2) up a(1) unfolding rl by simp
      then have "writes_in (unat ?a) (unat (NaClRoundPage len)) (fa_mem nap3) (put_region ?a (NaClRoundPage len) f2 (fa_mem nap3))"
        by (rule put_region_writes)
      then have "writes_in (unat (mem_start nap) + unat u) (unat n) (fa_mem nap3) (put_region ?a (NaClRoundPage len) f2 (fa_mem nap3))"
        by (rule writes_in_mono) (use up in \<open>simp_all add: a(1) rl\<close>)
      moreover have "mem_start nap3 = mem_start nap" using l3 by (simp add: same_layout_def)
      ultimately have w: "writes_in (unat (mem_start nap3) + unat u) (unat n) (fa_mem nap3) (fa_mem nap')" by (simp add: nap')
      have "kept env nap3 nap'"
        by (rule kept_one [OF _ _ _ q w]) (use l3 u le in \<open>simp_all add: nap' same_view_def same_layout_def addr_limit_def word_nat\<close>)
      then show ?thesis using s3 steady_trans [OF s3] inv3 by (simp add: steady_def nap')
    qed
  next
    case refused
    have lu: "unat u + unat len \<le> 2 ^ 31" using u(2) k(1) text_top by simp
    then have c: "unat (ucast u :: u32) = unat u" "unat (ucast len :: u32) = unat len"
      by (simp_all add: unsigned_ucast_eq take_bit_nat_eq_self)
    have "length image1 = length ?image" using env(2) val unfolding keeps_length_def by (metis fst_conv snd_conv)
    then have "length image1 = unat (ucast len :: u32)" using c by simp
    from dyncode_frame [OF area1(1,2) env this _ refused(1)] obtain rs where
      "text_frame (nap1\<lparr>dyn_regs := rs\<rparr>) nap2" "cache_ok nap2" "text_asks (me_text env) nap1 nap2" "regions_safe nap1 \<longrightarrow> regions_safe nap2"
      "\<forall>x. fa_mem nap2 x \<noteq> fa_mem nap1 x \<longrightarrow> unat (mem_start nap1) + unat (dynamic_text_start nap1) \<le> unat x
         \<and> unat x < unat (mem_start nap1) + unat (dynamic_text_end nap1)"
      using lu c by auto
    from steady_create [OF inv1 area1(1) this] have s2: "steady env E S F nap1 nap2" .
    then have "steady env E S F nap2 nap'" using unmap [OF refused(2)] by (simp add: steady_def)
    then show ?thesis using steady_trans s1 s2 by blast
  qed
qed

section \<open>At the place\<close>

text \<open>The effect on the memory map: none, or the pages of the range are mapped.\<close>

definition maps_at :: "'h mem_app \<Rightarrow> 'h mem_app \<Rightarrow> u64 \<Rightarrow> u64 \<Rightarrow> u64 \<Rightarrow> u32 \<Rightarrow> u32 \<Rightarrow> nat option \<Rightarrow> u64 \<Rightarrow> u64 \<Rightarrow> bool" where
  "maps_at nap nap' r u n prot flags ndp off fsz \<longleftrightarrow> mem_map nap' = mem_map nap
     \<or> data_pages nap u n \<and> r = u \<and> mapped u n (prot AND NOT NACL_ABI_PROT_EXEC) (flags OR NACL_ABI_MAP_FIXED) ndp off fsz
         (mem_map nap) (mem_map nap')"

lemma place_data:
  assumes sp: "space_ok nap" and r: "mmap_refused env nap False ndp u n len = None"
    and u: "65536 dvd unat u" "65536 dvd unat n" "0 < unat n"
  shows "data_pages nap u n"
proof -
  have "4096 dvd unat u" "4096 dvd unat n" using u(1,2) by (auto intro: dvd_trans [of 4096 65536])
  then show ?thesis using refused_ok [OF r] u by (simp add: data_pages_def word_nat)
qed

lemma at_ok:
  assumes inv: "mem_inv E S F nap" and host: "host_ok env" and area: "text_area_ok nap" "cache_ok nap"
    and env: "shm_limit (me_text env)" "keeps_length (me_text env)"
    and n: "65536 dvd unat n" "0 < unat n" and u: "65536 dvd unat u" and k: "unat len \<le> unat n" "4096 dvd unat len"
    and code: "code \<Longrightarrow> dynamic_text_start nap \<le> u \<and> unat u + unat n \<le> unat (dynamic_text_end nap) \<and> 0 < len"
    and data: "\<not> code \<Longrightarrow> prot AND NACL_ABI_PROT_EXEC = 0"
    and res: "mmap_at env ndp code u n len prot flags off fsz fb nap = Inr (r, nap')"
  shows "mem_inv E S F nap' \<and> kept env nap nap' \<and> maps_at nap nap' r u n prot flags ndp off fsz"
proof -
  let ?fl = "flags OR NACL_ABI_MAP_FIXED" and ?pr = "prot AND NOT NACL_ABI_PROT_EXEC" and ?a = "u + mem_start nap"
  have sp: "space_ok nap" by (rule mem_invD [OF inv])
  have ts: "dynamic_text_start nap \<le> dynamic_text_end nap" using area(1) by (simp add: text_area_ok_def word_nat)
  have d4: "4096 dvd unat n" using n(1) by (auto intro: dvd_trans [of 4096 65536])
  have fl: "?fl AND NACL_ABI_MAP_FIXED \<noteq> 0" by (simp add: NACL_ABI_MAP_FIXED_def)
  have pr: "?pr AND NACL_ABI_PROT_EXEC = 0" by (simp add: and.assoc)
  define D where "D = (if len > 0 then mmap_data env ndp ?a len ?pr ?fl off fb nap else Inr (None, nap))"
  consider "nap' = nap"
    | (run) "mmap_refused env nap code ndp u n len = None" "u \<noteq> 0" "u < addr_limit nap"
      "(if len > 0 \<and> code then mmap_code env (the ndp) u ?a len off nap
        else ebind D (\<lambda>(failed, nap1). case failed of
               Some r \<Rightarrow> Inr (r, nap1)
             | None \<Rightarrow> mmap_commit env ndp u ?a len n ?pr ?fl off fsz nap1)) = Inr (r, nap')"
    using res pending_cases [of nap "ucast u" "ucast (u + len - 1)"] unfolding mmap_at_def Let_def D_def
    by (cases "mmap_refused env nap code ndp u n len")
      (auto simp: NaClUserToSys_def not_le simp del: ebind_eq_Inr split: if_splits)
  then show ?thesis
  proof cases
    case 1
    then show ?thesis using inv by (simp add: maps_at_def)
  next
    case run
    show ?thesis
    proof (cases code)
      case True
      then have mc: "mmap_code env (the ndp) u ?a len off nap = Inr (r, nap')" using run(4) code by simp
      have "32 dvd unat len" "32 dvd unat u" using k(2) u by (auto intro: dvd_trans [of 32 4096] dvd_trans [of 32 65536])
      from code_ok [OF inv area env _ _ k(1) d4 _ this mc] show ?thesis using code [OF True] by (simp add: steady_def maps_at_def)
    next
      case False
      have d: "data_pages nap u n" using place_data [OF sp _ u n] run(1) False by simp
      obtain failed nap1 where D: "D = Inr (failed, nap1)"
        "(case failed of Some r \<Rightarrow> Inr (r, nap1) | None \<Rightarrow> mmap_commit env ndp u ?a len n ?pr ?fl off fsz nap1) = Inr (r, nap')"
        using run(4) False by (cases D) auto
      have s: "steady env E S F nap nap1"
        using D(1) data_ok [OF inv host d k(1) ts fl pr] steady_refl [OF inv]
        by (auto simp: D_def steady_def split: if_splits)
      show ?thesis
      proof (cases failed)
        case (Some x)
        then show ?thesis using s D(2) by (simp add: steady_def maps_at_def)
      next
        case None
        have l: "same_layout nap nap1" and i1: "mem_inv E S F nap1" and m1: "mem_map nap1 = mem_map nap"
          using s by (simp_all add: steady_def kept_def allowed_def)
        have d1: "data_pages nap1 u n" "dynamic_text_start nap1 \<le> dynamic_text_end nap1"
          using d l ts by (simp_all add: data_pages_def same_layout_def addr_limit_def)
        have "mmap_commit env ndp u (u + mem_start nap1) len n ?pr ?fl off fsz nap1 = Inr (r, nap')"
          using D(2) None l by (simp add: same_layout_def)
        from commit_ok [OF i1 host d1 k this] show ?thesis
          using kept_trans [of env nap nap1 nap'] s d m1 by (auto simp: steady_def maps_at_def)
      qed
    qed
  qed
qed

section \<open>The request\<close>

lemma alloc_round_dvd: "65536 dvd unat (NaClRoundAllocPage n)"
proof -
  have "unat (NaClRoundAllocPage n) = nat_round_down 16 (unat (n + 0xffff))"
    unfolding NaClRoundAllocPage_def page_masks round_shape
    using unat_round_down [of "n + (2 ^ 16 - 1)" 16] by simp
  then show ?thesis by (simp add: nat_round_down_def)
qed

lemma align_ok:
  assumes "mmap_align start len flags off code = Inr (Inr (u, n))"
  shows "n = NaClRoundAllocPage len" "65536 dvd unat u" "0 < unat n" "unat n < 2 ^ 32" "0 \<le> sint off"
    "code \<Longrightarrow> n = len" "NACL_ABI_MAP_FIXED AND flags \<noteq> 0 \<Longrightarrow> u = start"
proof -
  have a: "n = NaClRoundAllocPage len" "ucast n \<noteq> (0 :: u32)" "n = ucast (ucast n :: u32)" "0 \<le> sint off" "code \<longrightarrow> n = len"
    "u = (if \<not> NaClIsAllocPageMultiple start then NaClTruncAllocPage start else start)"
    "NaClIsAllocPageMultiple start \<or> NACL_ABI_MAP_FIXED AND flags = 0"
    using assms by (auto simp: mmap_align_def Let_def split: if_splits)
  show "n = NaClRoundAllocPage len" "0 \<le> sint off" "code \<Longrightarrow> n = len" "NACL_ABI_MAP_FIXED AND flags \<noteq> 0 \<Longrightarrow> u = start"
    using a by auto
  have "unat n = unat (ucast n :: u32)" using a(3) by (metis unat_ucast_64)
  moreover have "unat (ucast n :: u32) < 2 ^ 32" using unsigned_less [of "ucast n :: u32"] by simp
  moreover have "0 < unat (ucast n :: u32)" using a(2) by (simp add: unat_gt_0)
  ultimately show "0 < unat n" "unat n < 2 ^ 32" by simp_all
  show "65536 dvd unat u" unfolding a(6)
    by (simp add: NaClIsAllocPageMultiple_iff unat_NaClTruncAllocPage nat_round_down_def)
qed

lemma is_code_ok:
  assumes "mmap_is_code nap ndp u n prot flags = Inr code"
  shows "\<not> code \<Longrightarrow> prot AND NACL_ABI_PROT_EXEC = 0"
    "code \<Longrightarrow> NACL_ABI_MAP_FIXED AND flags \<noteq> 0"
    "code \<Longrightarrow> 65536 dvd unat u \<Longrightarrow> 65536 dvd unat n \<Longrightarrow>
       dynamic_text_start nap \<le> u \<and> unat u + unat n \<le> unat (dynamic_text_end nap)"
proof -
  show "\<not> code \<Longrightarrow> prot AND NACL_ABI_PROT_EXEC = 0" "code \<Longrightarrow> NACL_ABI_MAP_FIXED AND flags \<noteq> 0"
    using assms by (auto simp: mmap_is_code_def and.commute [of NACL_ABI_PROT_EXEC] split: if_splits)
  assume c: "code" "65536 dvd unat u" "65536 dvd unat n"
  then have s: "NaClSysCommonAddrRangeInAllowedDynamicCodeSpace nap u n"
    using assms by (auto simp: mmap_is_code_def split: if_splits)
  then have le: "u \<le> u + n" by (auto simp: NaClSysCommonAddrRangeInAllowedDynamicCodeSpace_def Let_def not_less split: if_splits)
  then have e: "unat (u + n) = unat u + unat n" by (simp add: unat_plus_simple [of u n, THEN iffD1])
  have d: "65536 dvd unat (u + n)" unfolding e using c(2,3) by (rule dvd_add)
  have "unat (u + n) < 65536 * 2 ^ 48" using unsigned_less [of "u + n"] by simp
  then have "unat (u + n) + (2 ^ 16 - 1) < 2 ^ LENGTH(64)" using d by (auto elim!: dvdE)
  then have "unat (NaClRoundAllocPage (u + n)) = nat_round_up 16 (unat (u + n))"
    unfolding NaClRoundAllocPage_def page_masks round_shape by (rule unat_round_up) simp
  then have "unat (NaClRoundAllocPage (u + n)) = unat u + unat n" using nat_round_up_id [of 16 "unat (u + n)"] d e by simp
  then show "dynamic_text_start nap \<le> u \<and> unat u + unat n \<le> unat (dynamic_text_end nap)"
    using s by (auto simp: NaClSysCommonAddrRangeInAllowedDynamicCodeSpace_def Let_def word_nat split: if_splits)
qed

text \<open>When the file has bytes for the whole mapping, the length is not cut to 0.\<close>

lemma extent_length:
  assumes x: "mmap_extent env ndp off nap = Inr (Inr (fs, fb, hr), nap1)" and off: "0 \<le> sint off" and fb: "0 < unat fb"
  shows "0 < unat hr"
proof (cases ndp)
  case None
  then show ?thesis using x by (auto simp: mmap_extent_def kMaxUsableFileSize_def)
next
  case (Some d)
  have a: "sint off \<le> sint fs" "fb = fs - off"
    "hr = (if sint kMaxUsableFileSize < sint fb then kMaxUsableFileSize else NaClRoundHostAllocPage fb)"
    using x Some by (auto simp: mmap_extent_def Let_def not_less split: option.splits prod.splits if_splits)
  have pos: "sint w = int (unat w)" if "0 \<le> sint w" for w :: u64
    using that sint_lt [of w] by (simp add: uint_sint take_bit_int_eq_self)
  have "unat off \<le> unat fs" using a(1) off pos [of off] pos [of fs] by (simp add: word_le_def flip: word_le_nat_alt)
  then have "unat fb \<le> unat fs" unfolding a(2) using unat_sub_nowrap [of off fs] by simp
  moreover have "int (unat fs) < int (2 ^ 63)" using pos [of fs] sint_lt [of fs] a(1) off by simp
  then have "unat fs < 2 ^ 63" by (simp only: of_nat_less_iff)
  ultimately have "unat fb < 2 ^ 63" by simp
  then have "unat (NaClRoundPage fb) = nat_round_up 12 (unat fb)" by (rule unat_NaClRoundPage)
  then show ?thesis using a(3) fb nat_round_up_ge [of "unat fb" 12]
    by (auto simp: NaClRoundHostAllocPage_def kMaxUsableFileSize_def)
qed

section \<open>The call\<close>

text \<open>
  The effect of the whole call on the memory map: none, or the pages of a range \<open>u\<close> of the rounded
  length are mapped, at the address asked for when it is fixed, else where all was free.
\<close>

definition mmap_effect :: "'h mem_app \<Rightarrow> 'h mem_app \<Rightarrow> u64 \<Rightarrow> u64 \<Rightarrow> u64 \<Rightarrow> u64 \<Rightarrow> u32 \<Rightarrow> u32 \<Rightarrow> nat option \<Rightarrow> u64 \<Rightarrow> bool" where
  "mmap_effect nap nap' r start u n prot flags ndp off \<longleftrightarrow>
     vm_map (mem_map nap') = vm_map (mem_map nap)
     \<or> r = u \<and> data_pages nap u n \<and> 65536 dvd unat u
       \<and> (if flags AND NACL_ABI_MAP_FIXED \<noteq> 0 then u = start else range_free u n (mem_map nap))
       \<and> (\<exists>fsz. mapped u n (prot AND NOT NACL_ABI_PROT_EXEC) (flags OR NACL_ABI_MAP_FIXED) ndp off fsz
            (mem_map nap) (mem_map nap'))"

lemma layout_ready:
  assumes "same_layout a b" "text_area_ok a" "cache_ok a"
  shows "text_area_ok b" "cache_ok b"
  using assms by (simp_all add: same_layout_def text_area_ok_def space_ok_def addr_limit_def)

lemma body_ok:
  assumes inv: "mem_inv E S F nap" and host: "host_ok env" and area: "text_area_ok nap" "cache_ok nap"
    and env: "shm_limit (me_text env)" "keeps_length (me_text env)"
    and res: "mmap_body env ndp start len prot flags off nap = Inr (r, nap')"
  shows "mem_inv E S F nap' \<and> kept env nap nap'
    \<and> (\<exists>u. mmap_effect nap nap' r start u (NaClRoundAllocPage len) prot flags ndp off)"
proof -
  consider (stop) h where "nap' = nap\<lparr>host := h\<rparr>"
    | (go) code u n fs fb hr nap1 place nap2 where "mmap_is_code nap ndp start len prot flags = Inr code"
      "mmap_align start len flags off code = Inr (Inr (u, n))" "mmap_extent env ndp off nap = Inr (Inr (fs, fb, hr), nap1)"
      "code \<Longrightarrow> n \<le> fb" "mmap_place env u n flags nap1 = Inr (place, nap2)"
      "(case place of Inl r \<Rightarrow> Inr (r, nap2)
        | Inr u1 \<Rightarrow> mmap_at env ndp code u1 n (min n hr) prot flags off fs fb nap2) = Inr (r, nap')"
  proof (cases "mmap_is_code nap ndp start len prot flags")
    case (Inl x)
    then show ?thesis using res stop [of "host nap"] by (simp add: mmap_body_def)
  next
    case c: (Inr code)
    show ?thesis
    proof (cases "mmap_align start len flags off code")
      case (Inl e)
      then show ?thesis using res c by (simp add: mmap_body_def)
    next
      case al: (Inr x)
      show ?thesis
      proof (cases x)
        case (Inl e)
        then show ?thesis using res stop [of "host nap"] c al by (simp add: mmap_body_def)
      next
        case x: (Inr un)
        obtain u n where un: "un = (u, n)" by fastforce
        obtain ext nap1 where ex: "mmap_extent env ndp off nap = Inr (ext, nap1)"
          using res c al x un by (cases "mmap_extent env ndp off nap") (auto simp: mmap_body_def)
        obtain h where h: "nap1 = nap\<lparr>host := h\<rparr>" using extent_ok(1) [OF ex] by blast
        show ?thesis
        proof (cases ext)
          case (Inl e)
          then show ?thesis using res stop [of h] c al x un ex h by (simp add: mmap_body_def)
        next
          case (Inr y)
          obtain fs fb hr where y: "y = (fs, fb, hr)" by (metis prod_cases3)
          have b: "(if code \<and> fb < n then Inr (neg_errno NACL_ABI_EINVAL, nap1)
              else ebind (mmap_place env u n flags nap1) (\<lambda>(place, nap2). case place of Inl r \<Rightarrow> Inr (r, nap2)
                | Inr u1 \<Rightarrow> mmap_at env ndp code u1 n (min n hr) prot flags off fs fb nap2)) = Inr (r, nap')"
            using res c al x un ex Inr y unfolding mmap_body_def Let_def by (simp del: ebind_eq_Inr)
          show ?thesis
          proof (cases "code \<and> fb < n")
            case True
            then show ?thesis using b stop [of h] h by simp
          next
            case False
            then obtain place nap2 where "mmap_place env u n flags nap1 = Inr (place, nap2)"
              "(case place of Inl r \<Rightarrow> Inr (r, nap2)
                | Inr u1 \<Rightarrow> mmap_at env ndp code u1 n (min n hr) prot flags off fs fb nap2) = Inr (r, nap')"
              using b by (cases "mmap_place env u n flags nap1") auto
            then show ?thesis using go [OF c _ _ _] al x un ex Inr y False by fastforce
          qed
        qed
      qed
    qed
  qed
  then show ?thesis
  proof cases
    case stop
    have "kept env nap nap'" unfolding stop by (simp add: kept_def allowed_def same_layout_def)
    then show ?thesis using inv stop by (simp add: mmap_effect_def)
  next
    case go
    note al = align_ok [OF go(2)] and ic = is_code_ok [OF go(1)]
    have n16: "65536 dvd unat n" using al(1) alloc_round_dvd by simp
    obtain h where nap1: "nap1 = nap\<lparr>host := h\<rparr>" using extent_ok(1) [OF go(3)] by blast
    then have i1: "mem_inv E S F nap1" and k1: "kept env nap nap1" and m1: "mem_map nap1 = mem_map nap"
      using inv by (simp_all add: kept_def allowed_def same_layout_def)
    note pl = place_ok [OF i1 n16 al(4,2) go(5)]
    have k2: "kept env nap nap2" using kept_trans [OF k1 pl(2)] .
    then have l2: "same_layout nap nap2" by (simp add: kept_def allowed_def)
    show ?thesis
    proof (cases place)
      case (Inl x)
      then show ?thesis using go(6) pl(1,3) k2 m1 by (auto simp: mmap_effect_def)
    next
      case (Inr v)
      note pv = pl(4) [OF Inr]
      let ?l = "min n hr"
      have l: "unat ?l \<le> unat n" by (simp add: min_def word_nat)
      have d4: "4096 dvd unat n" using n16 by (auto intro: dvd_trans [of 4096 65536])
      have "hr = kMaxUsableFileSize \<Longrightarrow> n \<le> hr" using al(4) by (simp add: kMaxUsableFileSize_def word_nat)
      then have ld: "4096 dvd unat ?l" using extent_ok(2) [OF go(3) refl] d4 by (auto simp: min_def)
      have cd: "dynamic_text_start nap2 \<le> v \<and> unat v + unat n \<le> unat (dynamic_text_end nap2) \<and> 0 < ?l" if c: "code"
      proof -
        have e: "v = start" "n = len" using pv al(6,7) ic(2) c by (simp_all add: and.commute [of NACL_ABI_MAP_FIXED])
        have "0 < unat fb" using go(4) [OF c] al(3) by (simp add: word_nat)
        then have "0 < unat hr" using extent_length [OF go(3) al(5)] by simp
        then have "0 < ?l" using al(3) by (simp add: min_def word_nat)
        then show ?thesis using ic(3) [OF c] pv n16 e l2 by (simp add: same_layout_def)
      qed
      have at: "mmap_at env ndp code v n ?l prot flags off fs fb nap2 = Inr (r, nap')" using go(6) Inr by simp
      note ok = at_ok [OF pl(1) host layout_ready [OF l2 area] env n16 al(3) conjunct1 [OF pv] l ld cd ic(1) at]
      have "mmap_effect nap nap' r start v n prot flags ndp off"
        using ok pl(3) m1 pv al(7) l2
        by (auto simp: maps_at_def mmap_effect_def data_pages_def same_layout_def addr_limit_def mapped_def
            and.commute [of NACL_ABI_MAP_FIXED])
      then show ?thesis using ok kept_trans [OF k2] al(1) by blast
    qed
  qed
qed

lemma mmap_effect_from:
  assumes "mmap_effect a nap' r start u n prot flags ndp off" "same_layout nap a" "mem_map a = mem_map nap" "mem_map b = mem_map nap'"
  shows "mmap_effect nap b r start u n prot flags ndp off"
proof -
  have "data_pages a u n = data_pages nap u n"
    using assms(2) by (simp add: data_pages_def same_layout_def addr_limit_def)
  then show ?thesis using assms(1,3,4) by (simp only: mmap_effect_def)
qed

text \<open>The flags the call looks at, and the descriptor: the one of the table unless the mapping is anonymous.\<close>

definition mmap_flags :: "u32 \<Rightarrow> u32" where
  "mmap_flags flags = flags AND (NACL_ABI_MAP_FIXED OR NACL_ABI_MAP_SHARED OR NACL_ABI_MAP_PRIVATE OR NACL_ABI_MAP_ANONYMOUS)"

definition mmap_desc :: "'h mem_app \<Rightarrow> u32 \<Rightarrow> u32 \<Rightarrow> nat option" where
  "mmap_desc nap flags d =
     (if mmap_flags flags AND NACL_ABI_MAP_ANONYMOUS \<noteq> 0 then None else DynArrayGet (desc_tbl nap) (fd_index d))"

lemma MmapIntern_ok:
  assumes inv: "mem_inv E S F nap" and host: "host_ok env" and area: "text_area_ok nap" "cache_ok nap"
    and env: "shm_limit (me_text env)" "keeps_length (me_text env)"
    and res: "NaClSysMmapIntern env nap start len prot flags d off = Inr (r, nap')"
  shows "mem_inv E S F nap' \<and> kept env nap nap'
    \<and> (\<exists>mr u. r = sint (ucast mr :: u32)
         \<and> mmap_effect nap nap' mr start u (NaClRoundAllocPage len) prot (mmap_flags flags) (mmap_desc nap flags d) off)"
proof -
  let ?fl = "mmap_flags flags"
  obtain ndp nap1 where g: "(if 0 \<noteq> ?fl AND NACL_ABI_MAP_ANONYMOUS then Inr (None, nap) else NaClAppGetDesc nap d) = Inr (ndp, nap1)"
    and body: "(if 0 = ?fl AND NACL_ABI_MAP_ANONYMOUS \<and> ndp = None then mmap_cleanup env None (neg_errno NACL_ABI_EBADF, nap1)
         else ebind (mmap_body env ndp start len prot ?fl off nap1) (mmap_cleanup env ndp)) = Inr (r, nap')"
    using res unfolding NaClSysMmapIntern_def Let_def mmap_flags_def [symmetric]
    by (cases "if 0 \<noteq> ?fl AND NACL_ABI_MAP_ANONYMOUS then Inr (None, nap) else NaClAppGetDesc nap d") auto
  have s1: "mem_inv (holding E ndp) S F nap1 \<and> kept env nap nap1 \<and> mem_map nap1 = mem_map nap \<and> ndp = mmap_desc nap flags d"
  proof (cases "0 \<noteq> ?fl AND NACL_ABI_MAP_ANONYMOUS")
    case True
    then show ?thesis using g inv by (auto simp: mmap_desc_def holding_def)
  next
    case False
    then have gd: "NaClAppGetDesc nap d = Inr (ndp, nap1)" using g by simp
    then have "ndp = DynArrayGet (desc_tbl nap) (fd_index d)"
      by (auto simp: NaClAppGetDesc_def NaClAppGetDescMu_def NaClRefCountRef_def split: option.splits if_splits)
    then have "ndp = mmap_desc nap flags d" using False by (simp add: mmap_desc_def)
    then show ?thesis using get_desc_kept [OF inv gd, of env] by auto
  qed
  show ?thesis
  proof (cases "0 = ?fl AND NACL_ABI_MAP_ANONYMOUS \<and> ndp = None")
    case True
    then have "nap' = nap1" "r = sint (ucast (neg_errno NACL_ABI_EBADF) :: u32)"
      using body by (auto simp: mmap_cleanup_def NaClRefCountSafeUnref_def split: if_splits)
    then show ?thesis using s1 True by (auto simp: mmap_effect_def holding_def)
  next
    case False
    then obtain mr nap2 where b: "mmap_body env ndp start len prot ?fl off nap1 = Inr (mr, nap2)"
      "mmap_cleanup env ndp (mr, nap2) = Inr (r, nap')"
      using body by (cases "mmap_body env ndp start len prot ?fl off nap1") auto
    have l1: "same_layout nap nap1" and i1: "mem_inv (holding E ndp) S F nap1" using s1 unfolding kept_def allowed_def by blast+
    obtain u where s2: "mem_inv (holding E ndp) S F nap2" "kept env nap1 nap2"
      "mmap_effect nap1 nap2 mr start u (NaClRoundAllocPage len) prot ?fl ndp off"
      using body_ok [OF i1 host layout_ready [OF l1 area] env b(1)] by blast
    have c: "NaClRefCountSafeUnref (me_vt env) ndp nap2 = Inr nap'" "r = sint (ucast mr :: u32)"
      using b(2) by (auto simp: mmap_cleanup_def split: if_splits)
    note s3 = unref_kept [OF s2(1) c(1), of env]
    have "mmap_effect nap nap' mr start u (NaClRoundAllocPage len) prot ?fl ndp off"
      by (rule mmap_effect_from [OF s2(3) l1]) (use s1 s3 in simp_all)
    moreover have "kept env nap nap'" using kept_trans [OF kept_trans] s1 s2(2) s3 by blast
    ultimately show ?thesis using s3 c(2) s1 by blast
  qed
qed

lemma SysMmap_ok:
  fixes start prot flags d offp :: u32 and len :: u64
  assumes inv: "mem_inv E S F nap" and host: "host_ok env" and area: "text_area_ok nap" "cache_ok nap"
    and env: "shm_limit (me_text env)" "keeps_length (me_text env)"
    and res: "NaClSysMmap env nap start len prot flags d offp = Inr (r, nap')"
  shows "mem_inv E S F nap' \<and> kept env nap nap'
    \<and> (\<exists>mr u off. r = sint (ucast mr :: u32)
         \<and> mmap_effect nap nap' mr (ucast start) u (NaClRoundAllocPage len) prot (mmap_flags flags) (mmap_desc nap flags d) off)"
proof -
  obtain copied where c: "NaClCopyInFromUser nap (ucast offp) 8 = Inr copied"
    "(case copied of None \<Rightarrow> Inr (- NACL_ABI_EFAULT, nap)
      | Some bs \<Rightarrow> NaClSysMmapIntern env nap (ucast start) len prot flags d (le_word bs)) = Inr (r, nap')"
    using res by (auto simp: NaClSysMmap_def)
  show ?thesis
  proof (cases copied)
    case None
    then have "nap' = nap" "r = sint (ucast (neg_errno NACL_ABI_EFAULT) :: u32)"
      using c by (simp_all add: neg_errno_def NACL_ABI_EFAULT_def)
    then show ?thesis using inv by (auto simp: mmap_effect_def)
  next
    case (Some bs)
    then have "NaClSysMmapIntern env nap (ucast start) len prot flags d (le_word bs) = Inr (r, nap')" using c by simp
    from MmapIntern_ok [OF inv host area env this] show ?thesis by blast
  qed
qed

end
