(* ===== verification/MemFaults.thy ===== *)
theory MemFaults
  imports MemMmapRun
begin

text \<open>
  \<open>NaClSysMmap\<close> returns: a call that does not ask for executable pages gives a result, or stops
  the program with \<open>LOG_FATAL\<close>, or faults on the offset in user memory; no internal check fails and no
  access is out of range.
\<close>

lemma place_faults:
  assumes inv: "mem_inv E S F nap" and n: "65536 dvd unat n" "unat n < 2 ^ 32"
    and res: "mmap_place env u n flags nap = Inl e"
  shows "e = Log_fatal"
proof -
  let ?k = "drop_bit NACL_PAGESHIFT n"
  have k: "unat ?k \<le> vm_pages" using n(2) by (simp add: NACL_PAGESHIFT_def unat_drop_bit_div vm_pages_def)
  have anywhere: "e = Log_fatal"
    if "mem_inv E S F a" "with_map env (\<lambda>m. NaClVmmapFindMapSpace m ?k) a = Inl e" for a
    using find_space.run [OF mem_invD(1,2) [OF that(1)] k, of env] that(2) by auto
  have above: "(\<exists>r b. with_map env (\<lambda>m. NaClVmmapFindMapSpaceAboveHint m u ?k) nap = Inr (r, b) \<and> mem_inv E S F b)
      \<or> with_map env (\<lambda>m. NaClVmmapFindMapSpaceAboveHint m u ?k) nap = Inl Log_fatal"
    using find_above.run [OF mem_invD(1,2) [OF inv] k, of env u] find_kept [OF inv] by blast
  show ?thesis
    using res anywhere [OF inv] anywhere above unfolding mmap_place_def Let_def
    by (cases "0 = u") (auto simp: ebind_def split: if_splits sum.splits)
qed

lemma anon_faults: "NaClDescIoDescMapAnon env a len prot flags off nap = Inl e \<Longrightarrow> e = Log_fatal"
  by (auto simp: NaClDescIoDescMapAnon_def NaClDescIoDescMap_def NaClHostDescMap_def Let_def
      split: if_splits option.splits prod.splits)

lemma data_faults: "mmap_data env ndp a len prot flags off fb nap = Inl e \<Longrightarrow> e = Log_fatal"
  using anon_faults by (auto simp: mmap_data_def ebind_def Let_def split: if_splits option.splits prod.splits sum.splits)

lemma commit_faults:
  assumes inv: "mem_inv E S F nap" and host: "host_ok env" and d: "data_pages nap u n"
    and k: "unat len \<le> unat n" "4096 dvd unat len"
    and res: "mmap_commit env ndp u (u + mem_start nap) len n prot flags off fsz nap = Inl e"
  shows "e = Log_fatal"
proof -
  have sp: "space_ok nap" by (rule mem_invD [OF inv])
  have ul: "u < addr_limit nap" and n0: "n > 0" using d by (simp_all add: data_pages_def word_nat)
  define cut where "cut = (if len < n then MunmapInternal env (u + mem_start nap + len) (n - len) nap else Inr (0, nap))"
  have cut: "cut = Inl Log_fatal \<or> (\<exists>r nap1. cut = Inr (r, nap1) \<and> mem_inv E S F nap1 \<and> same_layout nap nap1)"
  proof (cases "len < n")
    case True
    have q: "unat u + unat n \<le> 2 ^ 32" using d addr_limit_le [OF sp] by (simp add: data_pages_def)
    have v: "unat (u + len) = unat u + unat len" using q k(1) by (intro unat_add_nowrap) simp
    have l: "unat (n - len) = unat n - unat len" using k(1) by (intro unat_sub_nowrap) (simp add: word_nat)
    have "data_pages nap (u + len) (n - len)" using d k(2) True unfolding data_pages_def v l by (auto simp: word_nat dvd_diff_nat)
    moreover have "u + mem_start nap + len = u + len + mem_start nap" by simp
    ultimately show ?thesis using MunmapInternal_ok [OF inv host] True unfolding cut_def same_view_def by metis
  qed (simp add: cut_def inv)
  show ?thesis using cut
  proof (elim disjE exE conjE)
    fix r nap1 assume c: "cut = Inr (r, nap1)" "mem_inv E S F nap1" "same_layout nap nap1"
    have "NaClSysToUser nap1 (u + mem_start nap) = Inr u"
      using NaClSysToUser_of_sum [OF mem_invD(3) [OF c(2)], of u] c(3) ul by (simp add: same_layout_def addr_limit_def)
    then have r: "r = 0" and w: "with_map env (\<lambda>m. no_result (NaClVmmapAddWithOverwrite m (drop_bit NACL_PAGESHIFT u)
        (drop_bit NACL_PAGESHIFT n) prot flags ndp off fsz)) nap1 = Inl e"
      using res n0 c(1) unfolding mmap_commit_def cut_def [symmetric] by (auto simp: ebind_def split: if_splits sum.splits)
    have "data_pages nap1 u n" using d c(3) by (simp add: data_pages_def same_layout_def addr_limit_def)
    note r = data_pages_range(1) [OF mem_invD(3) [OF c(2)] this]
    show ?thesis using overwrite_pages.run [OF mem_invD(1,2) [OF c(2)] r, of env prot flags ndp off fsz] w by auto
  qed (use res in \<open>simp add: mmap_commit_def cut_def [symmetric]\<close>)
qed

lemma at_faults:
  assumes inv: "mem_inv E S F nap" and host: "host_ok env" and ts: "dynamic_text_start nap \<le> dynamic_text_end nap"
    and n: "65536 dvd unat n" "0 < unat n" and u: "65536 dvd unat u" and k: "unat len \<le> unat n" "4096 dvd unat len"
    and res: "mmap_at env ndp False u n len prot flags off fsz fb nap = Inl e"
  shows "e = Log_fatal"
proof -
  let ?fl = "flags OR NACL_ABI_MAP_FIXED" and ?pr = "prot AND NOT NACL_ABI_PROT_EXEC" and ?a = "u + mem_start nap"
  have fl: "?fl AND NACL_ABI_MAP_FIXED \<noteq> 0" by (simp add: NACL_ABI_MAP_FIXED_def)
  have pr: "?pr AND NACL_ABI_PROT_EXEC = 0" by (simp add: and.assoc)
  define D where "D = (if len > 0 then mmap_data env ndp ?a len ?pr ?fl off fb nap else Inr (None, nap))"
  consider "e = Log_fatal"
    | (run) "mmap_refused env nap False ndp u n len = None"
      "ebind D (\<lambda>(failed, nap1). case failed of
               Some r \<Rightarrow> Inr (r, nap1)
             | None \<Rightarrow> mmap_commit env ndp u ?a len n ?pr ?fl off fsz nap1) = Inl e"
    using res pending_cases [of nap "ucast u" "ucast (u + len - 1)"] unfolding mmap_at_def Let_def D_def
    by (cases "mmap_refused env nap False ndp u n len")
      (auto simp: NaClUserToSys_def not_le simp del: ebind_eq_Inr split: if_splits)
  then show ?thesis
  proof cases
    case run
    have d: "data_pages nap u n" using place_data [OF mem_invD(3) [OF inv] run(1) u n] .
    show ?thesis
    proof (cases D)
      case (Inl x)
      then show ?thesis using run(2) data_faults by (auto simp: D_def split: if_splits)
    next
      case (Inr y)
      then obtain failed nap1 where y: "D = Inr (failed, nap1)" by (cases y) auto
      have s: "steady env E S F nap nap1"
        using y data_ok [OF inv host d k(1) ts fl pr] steady_refl [OF inv]
        by (auto simp: D_def steady_def split: if_splits)
      have l: "same_layout nap nap1" and i1: "mem_inv E S F nap1"
        using s by (simp_all add: steady_def kept_def allowed_def)
      have d1: "data_pages nap1 u n" using d l by (simp add: data_pages_def same_layout_def addr_limit_def)
      have "mmap_commit env ndp u (u + mem_start nap1) len n ?pr ?fl off fsz nap1 = Inl e"
        using run(2) y l by (simp add: same_layout_def split: option.splits)
      from commit_faults [OF i1 host d1 k this] show ?thesis .
    qed
  qed
qed

lemma extent_faults: "mmap_extent env ndp off nap \<noteq> Inl e"
proof -
  have "sint (kMaxUsableFileSize) = 2 ^ 63 - 1" by (simp add: kMaxUsableFileSize_def)
  then have "sint h \<le> sint kMaxUsableFileSize" for h :: u64 using sint_lt [of h] by simp
  then show ?thesis
    by (auto simp: mmap_extent_def Let_def split: option.splits prod.splits if_splits)
qed

lemma align_faults:
  fixes len :: u32
  shows "mmap_align start (ucast len) flags off code \<noteq> Inl e"
  using alloc_round_u32(1) [of len] by (auto simp: mmap_align_def Let_def split: if_splits)

lemma unref_faults:
  assumes "mem_inv (holding E ndp) S F nap"
  shows "NaClRefCountSafeUnref vt ndp nap \<noteq> Inl e"
proof (cases ndp)
  case (Some n)
  then have "fd_inv ((\<lambda>k. map_refs (mem_map nap) k + E k)(n := map_refs (mem_map nap) n + E n + 1)) S F nap"
    using mem_invD(1) [OF assms] by (simp add: holding_refs)
  from Unref_ok [OF this, of vt] show ?thesis using Some by (auto simp: NaClRefCountSafeUnref_def)
qed (simp add: NaClRefCountSafeUnref_def)

lemma body_faults:
  fixes len :: u32
  assumes inv: "mem_inv E S F nap" and host: "host_ok env" and area: "text_area_ok nap"
    and pr: "prot AND NACL_ABI_PROT_EXEC = 0"
    and res: "mmap_body env ndp start (ucast len) prot flags off nap = Inl e"
  shows "e = Log_fatal"
proof -
  have ic: "mmap_is_code nap ndp start (ucast len) prot flags = Inr False"
    using pr by (simp add: mmap_is_code_def and.commute [of NACL_ABI_PROT_EXEC])
  have b: "ebind (mmap_align start (ucast len) flags off False) (\<lambda>aligned. case aligned of
      Inl r \<Rightarrow> Inr (r, nap)
    | Inr (u, n) \<Rightarrow> ebind (mmap_extent env ndp off nap) (\<lambda>(extent, nap1). case extent of
        Inl r \<Rightarrow> Inr (r, nap1)
      | Inr (fs, fb, hr) \<Rightarrow> ebind (mmap_place env u n flags nap1) (\<lambda>(place, nap2). case place of
          Inl r \<Rightarrow> Inr (r, nap2)
        | Inr u1 \<Rightarrow> mmap_at env ndp False u1 n (min n hr) prot flags off fs fb nap2))) = Inl e"
    using res unfolding mmap_body_def Let_def ic sum.case simp_thms if_False .
  obtain u n where al: "mmap_align start (ucast len) flags off False = Inr (Inr (u, n))"
    using b align_faults [of start len flags off False]
    by (cases "mmap_align start (ucast len) flags off False") (auto split: sum.splits)
  obtain fs fb hr nap1 where ex: "mmap_extent env ndp off nap = Inr (Inr (fs, fb, hr), nap1)"
    using b al extent_faults [of env ndp off nap]
    by (cases "mmap_extent env ndp off nap") (auto split: sum.splits)
  note a = align_ok [OF al]
  have n16: "65536 dvd unat n" using a(1) alloc_round_dvd by simp
  obtain h where nap1: "nap1 = nap\<lparr>host := h\<rparr>" using extent_ok(1) [OF ex] by blast
  then have i1: "mem_inv E S F nap1" and l1: "same_layout nap nap1" using inv by (simp_all add: same_layout_def)
  show ?thesis
  proof (cases "mmap_place env u n flags nap1")
    case (Inl x)
    then show ?thesis using b al ex place_faults [OF i1 n16 a(4) Inl] by simp
  next
    case (Inr y)
    then obtain place nap2 where p: "mmap_place env u n flags nap1 = Inr (place, nap2)" by (cases y) auto
    note pl = place_ok [OF i1 n16 a(4,2) p]
    obtain v where v: "place = Inr v" "mmap_at env ndp False v n (min n hr) prot flags off fs fb nap2 = Inl e"
      using b al ex p by (auto split: sum.splits)
    note pv = pl(4) [OF v(1)]
    have l: "unat (min n hr) \<le> unat n" by (simp add: min_def word_nat)
    have d4: "4096 dvd unat n" using n16 by (auto intro: dvd_trans [of 4096 65536])
    have "hr = kMaxUsableFileSize \<Longrightarrow> n \<le> hr" using a(4) by (simp add: kMaxUsableFileSize_def word_nat)
    then have ld: "4096 dvd unat (min n hr)" using extent_ok(2) [OF ex refl] d4 by (auto simp: min_def)
    have "dynamic_text_start nap2 \<le> dynamic_text_end nap2"
      using area l1 pl(2) by (simp add: kept_def allowed_def same_layout_def text_area_ok_def word_nat)
    from at_faults [OF pl(1) host this n16 a(3) conjunct1 [OF pv] l ld v(2)] show ?thesis .
  qed
qed

lemma SysMmap_faults:
  fixes len :: u32
  assumes inv: "mem_inv E S F nap" and host: "host_ok env" and area: "text_area_ok nap" "cache_ok nap"
    and env: "shm_limit (me_text env)" "keeps_length (me_text env)"
    and pr: "prot AND NACL_ABI_PROT_EXEC = 0"
    and res: "NaClSysMmap env nap start (ucast len) prot flags d offp = Inl e"
  shows "stopped nap e"
proof (cases "NaClCopyInFromUser nap (ucast offp) 8")
  case (Inl x)
  then show ?thesis using res copy_in_Inl [OF Inl] by (simp add: NaClSysMmap_def)
next
  case copied: (Inr copied)
  let ?fl = "mmap_flags flags"
  obtain bs where bs: "NaClSysMmapIntern env nap (ucast start) (ucast len) prot flags d (le_word bs) = Inl e"
    using res copied by (auto simp: NaClSysMmap_def split: option.splits)
  define G where "G = (if 0 \<noteq> ?fl AND NACL_ABI_MAP_ANONYMOUS then Inr (None, nap) else NaClAppGetDesc nap d)"
  have b: "ebind G (\<lambda>(ndp, nap1). if 0 = ?fl AND NACL_ABI_MAP_ANONYMOUS \<and> ndp = None then mmap_cleanup env None (neg_errno NACL_ABI_EBADF, nap1)
         else ebind (mmap_body env ndp (ucast start) (ucast len) prot ?fl (le_word bs) nap1) (mmap_cleanup env ndp)) = Inl e"
    using bs unfolding NaClSysMmapIntern_def Let_def mmap_flags_def [symmetric] G_def .
  have "e = Log_fatal"
  proof (cases G)
    case (Inl x)
    then show ?thesis using b GetDesc_ok [OF mem_invD(1) [OF inv], of d] by (auto simp: G_def split: if_splits)
  next
    case (Inr y)
    obtain ndp nap1 where y: "y = (ndp, nap1)" by fastforce
    have s1: "mem_inv (holding E ndp) S F nap1 \<and> kept env nap nap1"
    proof (cases "0 \<noteq> ?fl AND NACL_ABI_MAP_ANONYMOUS")
      case True
      then show ?thesis using Inr y inv by (auto simp: G_def holding_def)
    next
      case False
      then show ?thesis using get_desc_kept [OF inv, of d ndp nap1 env] Inr y by (simp add: G_def)
    qed
    then have l1: "same_layout nap nap1" and i1: "mem_inv (holding E ndp) S F nap1" by (simp_all add: kept_def allowed_def)
    show ?thesis
    proof (cases "0 = ?fl AND NACL_ABI_MAP_ANONYMOUS \<and> ndp = None")
      case True
      then show ?thesis using b Inr y by (auto simp: mmap_cleanup_def NaClRefCountSafeUnref_def split: if_splits)
    next
      case False
      then have c: "ebind (mmap_body env ndp (ucast start) (ucast len) prot ?fl (le_word bs) nap1) (mmap_cleanup env ndp) = Inl e"
        using b Inr y by auto
      show ?thesis
      proof (cases "mmap_body env ndp (ucast start) (ucast len) prot ?fl (le_word bs) nap1")
        case (Inl x)
        then show ?thesis using c body_faults [OF i1 host layout_ready(1) [OF l1 area] pr Inl] by simp
      next
        case (Inr z)
        obtain mr nap2 where z: "z = (mr, nap2)" by fastforce
        have "mem_inv (holding E ndp) S F nap2"
          using body_ok [OF i1 host layout_ready [OF l1 area] env Inr [unfolded z]] by blast
        then show ?thesis using c Inr z unref_faults [of E ndp S F nap2 "me_vt env"]
          by (auto simp: mmap_cleanup_def ebind_def split: sum.splits if_splits)
      qed
    qed
  qed
  then show ?thesis by simp
qed

end
