(* ===== verification/MemBreak.thy ===== *)
theory MemBreak
  imports MemUnmap
begin

text \<open>
  \<open>NaClSysBrk\<close>: the region under the break grows over free pages above it, which become readable and
  writable, and the bytes between the old and the new break are zero.
\<close>

section \<open>A region that grows\<close>

lemma sorted_before_nth:
  "sorted_wrt before es \<Longrightarrow> i < j \<Longrightarrow> j < length es \<Longrightarrow> e_hi (es ! i) \<le> e_lo (es ! j)"
  by (simp add: sorted_wrt_iff_nth_less before_def)

lemma grow_entry:
  assumes es: "sorted_wrt before es" "list_all entry_live es" and ix: "ix < length es"
    and k: "e_hi (es ! ix) < k" "k \<le> vm_pages" "Suc ix < length es \<longrightarrow> k \<le> e_lo (es ! Suc ix)"
    and e': "e_lo e' = e_lo (es ! ix)" "e_hi e' = k" "\<not> e_removed e'" "\<And>p. page_at p e' = page_at p (es ! ix)"
  defines "es' \<equiv> es[ix := e']"
  shows "sorted_wrt before es'" "list_all entry_live es'"
    "vm_lookup es' p = (if e_hi (es ! ix) \<le> p \<and> p < k then Some (page_at p (es ! ix)) else vm_lookup es p)"
proof -
  have len: "length es' = length es" by (simp add: es'_def)
  have nth: "es' ! i = (if i = ix then e' else es ! i)" if "i < length es" for i using that by (simp add: es'_def nth_list_update)
  have ends: "e_lo (es ! i) < e_hi (es ! i)" if "i < length es" for i using nth_live [OF es(2) that] by simp
  have above: "k \<le> e_lo (es ! j)" if "ix < j" "j < length es" for j
  proof (cases "j = Suc ix")
    case False
    then have "e_hi (es ! Suc ix) \<le> e_lo (es ! j)" using sorted_before_nth [OF es(1)] that by simp
    then show ?thesis using k(3) ends [of "Suc ix"] that False by simp
  qed (use k(3) that in simp)
  show srt: "sorted_wrt before es'"
    unfolding sorted_wrt_iff_nth_less
  proof (intro allI impI)
    fix i j assume ij: "i < j" "j < length es'"
    then show "before (es' ! i) (es' ! j)"
      using sorted_before_nth [OF es(1) ij(1)] above [of j] e'(1,2) len nth by (auto simp: before_def)
  qed
  have "entry_live e'" using e' k ends [OF ix] by (auto simp: entry_live_def entry_ok_def e_lo_def e_hi_def)
  then show live: "list_all entry_live es'" using es(2) len nth by (auto simp: list_all_length)
  have sz: "size (infos es' p) \<le> 1" "size (infos es p) \<le> 1" by (rule sorted_disjoint [OF srt], rule sorted_disjoint [OF es(1)])
  show "vm_lookup es' p = (if e_hi (es ! ix) \<le> p \<and> p < k then Some (page_at p (es ! ix)) else vm_lookup es p)"
  proof (cases "e_hi (es ! ix) \<le> p \<and> p < k")
    case True
    then have "covers p e'" using e' ends [OF ix] by (simp add: covers_def)
    moreover have "e' \<in> set es'" using ix by (simp add: es'_def set_update_memI)
    ultimately show ?thesis using vm_lookup_covered [OF sz(1)] True e'(4) by simp
  next
    case False
    have "\<not> e_removed (es ! ix)" using nth_live [OF es(2) ix] by (simp add: entry_live_def)
    then have "covers p e' = covers p (es ! ix)" using False e' k(1) ends [OF ix] by (auto simp: covers_def)
    moreover have "infos es' p = infos (take ix es) p + (infos [e'] p + infos (drop (Suc ix) es) p)"
      using ix by (simp add: es'_def upd_conv_take_nth_drop infos_Cons)
    moreover have "infos es p = infos (take ix es) p + (infos [es ! ix] p + infos (drop (Suc ix) es) p)"
      using ix by (subst id_take_nth_drop [OF ix]) (simp add: infos_Cons)
    ultimately have "infos es' p = infos es p" using e'(4) by (simp add: infos_Cons)
    then show ?thesis using vm_lookup_eq [OF sz(2), of es'] False by auto
  qed
qed

section \<open>Growing the break\<close>

text \<open>The pages of a range have been added to the map and made readable and writable, or nothing has.\<close>

definition brk_grown :: "'h mem_app \<Rightarrow> 'h mem_app \<Rightarrow> bool" where
  "brk_grown nap nap' \<longleftrightarrow>
     requests nap' = requests nap \<and> vm_map (mem_map nap') = vm_map (mem_map nap)
     \<or> (\<exists>u n. data_pages nap u n \<and> unat (break_addr nap) \<le> unat u
          \<and> requests nap' = Host_mprotect (u + mem_start nap) n 3 # requests nap
          \<and> (\<forall>p. if unat u div 4096 \<le> p \<and> p < (unat u + unat n) div 4096 then vm_map (mem_map nap') p \<noteq> None
                  else vm_map (mem_map nap') p = vm_map (mem_map nap) p))"

lemma brk_grown_upd [simp]:
  "brk_grown nap (nap'\<lparr>break_addr := b, fa_mem := m\<rparr>) = brk_grown nap nap'"
  by (simp add: brk_grown_def)

lemma filter_update:
  "i < length xs \<Longrightarrow> Q y = Q (xs ! i) \<Longrightarrow> length (filter Q (xs[i := y])) = length (filter Q xs)"
  by (induction xs arbitrary: i) (auto split: nat.split)

lemma mem_inv_map:
  assumes "mem_inv E S F nap" "map_refs m = map_refs (mem_map nap)" "vm_wf m" "text_mapped nap m"
  shows "mem_inv E S F (nap\<lparr>mem_map := m\<rparr>)"
  using assms by (simp add: mem_inv_def fd_inv_def space_ok_def text_mapped_def)

lemma brk_extend_ok:
  assumes inv: "mem_inv E S F nap" and s: "sorted_wrt before (vmentry (mem_map nap))" "list_all entry_live (vmentry (mem_map nap))"
    and ix: "ix < length (vmentry (mem_map nap))" and k: "unat lip + 1 \<le> vm_pages" "unat (lip + 1) * 4096 \<le> unat (addr_limit nap)"
    and lo: "unat (break_addr nap) \<le> e_hi (vmentry (mem_map nap) ! ix) * 4096" "e_hi (vmentry (mem_map nap) ! ix) \<le> unat lip"
    and nx: "Suc ix < length (vmentry (mem_map nap)) \<longrightarrow> unat lip < e_lo (vmentry (mem_map nap) ! Suc ix)"
  shows "brk_extend env nb lip (vmentry (mem_map nap) ! ix) ix nap = Inl Log_fatal
    \<or> (\<exists>nap'. brk_extend env nb lip (vmentry (mem_map nap) ! ix) ix nap = Inr (nap'\<lparr>break_addr := nb\<rparr>)
        \<and> mem_inv E S F nap' \<and> same_view nap nap' \<and> fa_mem nap' = fa_mem nap \<and> brk_grown nap nap')"
proof -
  let ?es = "vmentry (mem_map nap)" and ?e = "vmentry (mem_map nap) ! ix"
  let ?e' = "?e\<lparr>e_npages := lip - e_page_num ?e + 1\<rparr>" and ?k = "unat lip + 1"
  let ?m = "(mem_map nap)\<lparr>vmentry := ?es[ix := ?e']\<rparr>"
  have live: "entry_live ?e" "e_lo ?e < e_hi ?e" using nth_live [OF s(2) ix] by blast+
  have hi: "unat (e_page_num ?e + e_npages ?e) = e_hi ?e" using live(1) unat_end by (simp add: entry_live_def)
  have lp: "unat (lip + 1) = ?k" using k(1) unat_add_nowrap [of lip 1] by (simp add: vm_pages_def)
  have "unat (lip - e_page_num ?e) = unat lip - e_lo ?e"
    using live(2) lo(2) by (simp add: unat_sub_nowrap e_lo_def)
  then have "unat (lip - e_page_num ?e + 1) = ?k - e_lo ?e"
    using live(2) lo(2) k(1) unat_add_nowrap [of "lip - e_page_num ?e" 1] by (simp add: vm_pages_def)
  then have e': "e_lo ?e' = e_lo ?e" "e_hi ?e' = ?k" "\<not> e_removed ?e'" "\<And>p. page_at p ?e' = page_at p ?e"
    using live lo(2) by (simp_all add: e_lo_def e_hi_def entry_live_def page_at_def page_offset_def)
  have kk: "e_hi ?e < ?k" "?k \<le> vm_pages" "Suc ix < length ?es \<longrightarrow> ?k \<le> e_lo (?es ! Suc ix)" using lo(2) k(1) nx by (auto simp: Suc_le_eq)
  note g = grow_entry [OF s ix kk e']
  have wf: "vm_wf (mem_map nap)" using inv by (rule mem_invD)
  have wf': "vm_wf ?m"
    using g(1,2) sorted_disjoint [OF g(1)] vm_wfD(3,4) [OF wf] by (simp add: vm_wf_def entries_wf_def)
  have refs: "map_refs ?m = map_refs (mem_map nap)"
    using filter_update [OF ix] by (simp add: map_refs_def fun_eq_iff)
  have map: "vm_lookup (?es[ix := ?e']) p = (if e_hi ?e \<le> p \<and> p < ?k then Some (page_at p ?e) else vm_map (mem_map nap) p)" for p
    by (rule g(3))
  have dte: "unat (dynamic_text_end nap) \<le> e_hi ?e * 4096"
    using mem_invD(5,6) [OF inv] lo(1) by (simp add: word_nat)
  have "text_mapped nap ?m"
  proof (rule text_mapped_keep [OF mem_invD(4) [OF inv]])
    fix p assume "p * 4096 < unat (dynamic_text_end nap)"
    then have "\<not> e_hi ?e \<le> p" using dte by linarith
    then show "vm_map ?m p = vm_map (mem_map nap) p" by (simp add: map)
  qed
  then have inv1: "mem_inv E S F (nap\<lparr>mem_map := ?m\<rparr>)" using mem_inv_map [OF inv refs wf'] by simp
  let ?u = "push_bit NACL_PAGESHIFT (e_page_num ?e + e_npages ?e)"
  let ?n = "push_bit NACL_PAGESHIFT (lip + 1) - ?u"
  have u: "unat ?u = e_hi ?e * 4096"
    using hi kk(1,2) unat_push_bit_nowrap [of "e_page_num ?e + e_npages ?e" 12] by (simp add: NACL_PAGESHIFT_def vm_pages_def)
  have "unat (push_bit NACL_PAGESHIFT (lip + 1)) = ?k * 4096"
    using lp k(1) unat_push_bit_nowrap [of "lip + 1" 12] by (simp add: NACL_PAGESHIFT_def vm_pages_def)
  then have n: "unat ?n = (?k - e_hi ?e) * 4096" using u kk(1) by (simp add: unat_sub_nowrap diff_mult_distrib)
  have dp: "data_pages nap ?u ?n"
    unfolding data_pages_def u n using dte k(2) lp kk(1) by (simp add: diff_mult_distrib)
  have div: "unat ?u div 4096 = e_hi ?e" "(unat ?u + unat ?n) div 4096 = ?k"
    unfolding u n using kk(1) by (simp_all flip: add_mult_distrib)
  let ?nap1 = "nap\<lparr>mem_map := ?m\<rparr>"
  obtain x h where x: "me_mprotect env (?u + mem_start nap) ?n 3 (host nap) = (x, h)" by fastforce
  let ?nap2 = "?nap1\<lparr>host := h, requests := Host_mprotect (?u + mem_start nap) ?n 3 # requests nap\<rparr>"
  have run: "brk_extend env nb lip ?e ix nap = ebind (NaClUserToSys nap ?u) (\<lambda>a.
      let (r, nap2) = NaClMprotect env a ?n (1 OR 2) ?nap1
      in if 0 \<noteq> r then Inl Log_fatal else Inr (nap2\<lparr>break_addr := nb\<rparr>))"
    by (simp add: brk_extend_def Let_def NaClUserToSys_def addr_limit_def del: ebind_eq_Inr)
  show ?thesis
  proof (cases "NaClUserToSys nap ?u")
    case (Inl y)
    then show ?thesis unfolding run by (auto simp: NaClUserToSys_def split: if_splits)
  next
    case (Inr a)
    then have a: "a = ?u + mem_start nap" by (simp add: NaClUserToSys_Inr)
    show ?thesis
    proof (cases "x = 0")
      case False
      then show ?thesis unfolding run Inr using x by (simp add: a NaClMprotect_def host_mprotect_def)
    next
      case True
      then have "brk_extend env nb lip ?e ix nap = Inr (?nap2\<lparr>break_addr := nb\<rparr>)"
        unfolding run Inr using x by (simp add: a NaClMprotect_def host_mprotect_def)
      moreover have "mem_inv E S F ?nap2" using inv1 by simp
      moreover have "brk_grown nap ?nap2" unfolding brk_grown_def using dp u lo(1) map div
        by (intro disjI2 exI [of _ ?u] exI [of _ ?n]) simp
      ultimately show ?thesis by (auto simp: same_view_def same_layout_def)
    qed
  qed
qed

text \<open>The last page of the break, rounded up to an allocation page.\<close>

lemma break_pages:
  assumes sp: "space_ok nap" "16 \<le> unat (addr_bits nap)" and nb: "0 < unat nb" "unat nb \<le> unat (addr_limit nap)"
  defines "lip \<equiv> drop_bit NACL_PAGESHIFT (NaClRoundAllocPage nb - 1)"
  shows "unat (drop_bit NACL_PAGESHIFT (nb - 1)) = (unat nb - 1) div 4096"
    "(unat nb - 1) div 4096 \<le> unat lip" "unat lip + 1 \<le> vm_pages" "unat (lip + 1) * 4096 \<le> unat (addr_limit nap)"
proof -
  have one: "unat (w - 1) = unat w - 1" if "0 < unat w" for w :: u64 using unat_sub_nowrap [of 1 w] that by simp
  show l: "unat (drop_bit NACL_PAGESHIFT (nb - 1)) = (unat nb - 1) div 4096"
    using one [OF nb(1)] by (simp add: NACL_PAGESHIFT_def unat_drop_bit_div)
  let ?R = "nat_round_up 16 (unat nb)"
  have lim: "unat (addr_limit nap) \<le> 2 ^ 32" by (rule addr_limit_le [OF sp(1)])
  have R: "unat (NaClRoundAllocPage nb) = ?R" using nb(2) lim by (intro unat_NaClRoundAllocPage) simp
  have Rl: "?R \<le> unat (addr_limit nap)"
    using nb(2) le_imp_power_dvd [OF sp(2), of "2 :: nat"] by (intro nat_round_up_le) (simp_all add: unat_addr_limit [OF sp(1)])
  have Rd: "65536 dvd ?R" using nat_round_up_dvd [of 16] by simp
  have Rg: "unat nb \<le> ?R" by (rule nat_round_up_ge)
  then have "unat (NaClRoundAllocPage nb - 1) = ?R - 1" using one [of "NaClRoundAllocPage nb"] R nb(1) by simp
  then have lp: "unat lip = (?R - 1) div 4096" by (simp add: lip_def NACL_PAGESHIFT_def unat_drop_bit_div)
  show "(unat nb - 1) div 4096 \<le> unat lip" unfolding lp using Rg by (intro div_le_mono) simp
  obtain j where j: "?R = 65536 * j" using Rd by (elim dvdE)
  then have "0 < j" using Rg nb(1) by (cases j) auto
  then have lj: "unat lip + 1 = 16 * j" unfolding lp j by (cases j) simp_all
  show k: "unat lip + 1 \<le> vm_pages" using lj j Rl lim by (simp add: vm_pages_def)
  then have "unat (lip + 1) = unat lip + 1" using unat_add_nowrap [of lip 1] by (simp add: vm_pages_def)
  then show "unat (lip + 1) * 4096 \<le> unat (addr_limit nap)" using lj j Rl by simp
qed

text \<open>A break that moved up zeroes the bytes in between.\<close>

definition zeroed :: "'h mem_app \<Rightarrow> u64 \<Rightarrow> bytes \<Rightarrow> bytes" where
  "zeroed nap nb m = put_region (break_addr nap + mem_start nap) (nb - break_addr nap) (\<lambda>_. 0) m"

lemma brk_grown_same: "vm_map m = vm_map (mem_map nap) \<Longrightarrow> brk_grown nap (store_counts env m nap)"
  by (simp add: brk_grown_def)

lemma brk_grow_ok:
  assumes inv: "mem_inv E S F nap" and nb: "break_addr nap < nb" "nb < addr_limit nap"
  shows "(\<exists>e. brk_grow env nb (nb + mem_start nap) nap = Inl e \<and> stopped nap e)
    \<or> (\<exists>nap'. brk_grow env nb (nb + mem_start nap) nap = Inr nap' \<and> mem_inv E S F nap' \<and> same_view nap nap'
        \<and> brk_grown nap nap' \<and> (break_addr nap' = break_addr nap \<and> fa_mem nap' = fa_mem nap \<and> requests nap' = requests nap
             \<or> break_addr nap' = nb \<and> fa_mem nap' = zeroed nap nb (fa_mem nap)))"
proof (cases "break_addr nap = 0 \<or> \<not> break_addr nap < addr_limit nap")
  case True
  then show ?thesis by (auto simp: brk_grow_def NaClUserToSys_def)
next
  case False
  let ?ub = "break_addr nap" and ?sb = "break_addr nap + mem_start nap"
  have sp: "space_ok nap" using inv by (rule mem_invD)
  have sb: "NaClUserToSys nap ?ub = Inr ?sb" using False by (simp add: NaClUserToSys_Inr)
  have n0: "0 < unat ?ub" using False by (simp add: unat_gt_0)
  have nbu: "unat ?ub < unat nb" "unat nb < unat (addr_limit nap)" using nb by (simp_all add: word_nat)
  have diff: "nb + mem_start nap - ?sb = nb - ?ub" by simp
  have up: "(nb + mem_start nap > ?sb) = True"
    using unat_user_to_sys [OF sp, of nb] unat_user_to_sys [OF sp, of ?ub] nbu by (simp add: word_nat)
  have nz: "0 < unat nb" "unat nb \<le> unat (addr_limit nap)" "unat ?ub \<le> unat (addr_limit nap)" using nbu by simp_all
  note bp = break_pages [OF sp mem_invD(7) [OF inv] nz(1,2)]
    and bp0 = break_pages(1) [OF sp mem_invD(7) [OF inv] n0 nz(3)]
  let ?P = "drop_bit NACL_PAGESHIFT (?ub - 1)" and ?lip = "drop_bit NACL_PAGESHIFT (NaClRoundAllocPage nb - 1)"
  let ?w = "with_map env (\<lambda>m. NaClVmmapFindPageIter m ?P) nap"
  let ?zero = "\<lambda>nap2 :: 'a mem_app. ebind (user_access nap2 True ?sb (unat (nb - ?ub))) (\<lambda>_.
    Inr (nap2\<lparr>fa_mem := zeroed nap nb (fa_mem nap2)\<rparr>)) :: 'a mem_app exec"
  have zero: "(\<exists>e. ?zero b = Inl e \<and> stopped nap e) \<or> ?zero b = Inr (b\<lparr>fa_mem := zeroed nap nb (fa_mem b)\<rparr>)"
    if "access_faults b = access_faults nap" for b :: "'a mem_app"
    using user_access_Inl [of b True ?sb "unat (nb - ?ub)"] stopped_same [OF that]
    by (cases "user_access b True ?sb (unat (nb - ?ub))") (auto simp: faulting_same [OF that] simp del: user_access_Inr)
  have run: "brk_grow env nb (nb + mem_start nap) nap = ebind ?w (\<lambda>(iter, nap1).
      if NaClVmmapIterAtEnd (mem_map nap1) iter then Inl Log_fatal
      else ebind (NaClVmmapIterStar (mem_map nap1) iter) (\<lambda>ent.
        if drop_bit NACL_PAGESHIFT (nb - 1) < e_page_num ent + e_npages ent then ?zero (nap1\<lparr>break_addr := nb\<rparr>)
        else if \<not> NaClVmmapIterAtEnd (mem_map nap1) (NaClVmmapIterIncr iter)
                \<and> e_page_num (vmentry (mem_map nap1) ! NaClVmmapIterIncr iter) \<le> ?lip then Inr nap1
        else ebind (brk_extend env nb ?lip ent iter nap1) ?zero))"
    unfolding brk_grow_def zeroed_def Let_def sb diff up echeck_simps(1) ebind_simps(2) by (rule refl)
  from find_page.run [OF mem_invD(1,2) [OF inv] TrueI, of env ?P] show ?thesis
  proof
    assume "?w = Inl Log_fatal"
    then show ?thesis unfolding run by simp
  next
    assume "\<exists>ix m. ?w = Inr (ix, store_counts env m nap)
      \<and> fd_inv (\<lambda>n. map_refs m n + E n) S F (store_counts env m nap) \<and> vm_wf m
      \<and> maps_same (mem_map nap) m \<and> (if vm_map (mem_map nap) (unat ?P) = None then NaClVmmapIterAtEnd m ix
           else ix < length (vmentry m) \<and> covers (unat ?P) (vmentry m ! ix))"
    then obtain ix m where m: "?w = Inr (ix, store_counts env m nap)"
      "fd_inv (\<lambda>n. map_refs m n + E n) S F (store_counts env m nap)" "vm_wf m" "maps_same (mem_map nap) m"
      "NaClVmmapIterAtEnd m ix \<or> ix < length (vmentry m) \<and> covers (unat ?P) (vmentry m ! ix)" by (auto split: if_splits)
    let ?nap1 = "store_counts env m nap" and ?e = "vmentry m ! ix"
    have same: "vm_map m = vm_map (mem_map nap)" and es: "sorted_wrt before (vmentry m)" "list_all entry_live (vmentry m)"
      using m(4) by (simp_all add: maps_same_def)
    have "text_mapped nap m" using mem_invD(4) [OF inv] same by (simp add: text_mapped_def)
    then have inv1: "mem_inv E S F ?nap1" using mem_inv_store [OF inv m(2,3)] by simp
    have g1: "brk_grown nap ?nap1" by (rule brk_grown_same [OF same])
    show ?thesis
    proof (cases "NaClVmmapIterAtEnd m ix")
      case True
      then show ?thesis unfolding run m(1) by simp
    next
      case False
      then have ix: "ix < length (vmentry m)" and cov: "covers (unat ?P) ?e" using m(5) by (auto simp: NaClVmmapIterAtEnd_def)
      have live: "entry_live ?e" using nth_live [OF es(2) ix] by blast
      then have hi: "unat (e_page_num ?e + e_npages ?e) = e_hi ?e" using unat_end by (simp add: entry_live_def)
      have run1: "brk_grow env nb (nb + mem_start nap) nap =
         (if drop_bit NACL_PAGESHIFT (nb - 1) < e_page_num ?e + e_npages ?e then ?zero (?nap1\<lparr>break_addr := nb\<rparr>)
          else if Suc ix < length (vmentry m) \<and> e_page_num (vmentry m ! Suc ix) \<le> ?lip then Inr ?nap1
          else ebind (brk_extend env nb ?lip ?e ix ?nap1) ?zero)"
        unfolding run m(1) using ix by (simp add: NaClVmmapIterAtEnd_def NaClVmmapIterStar_def NaClVmmapIterIncr_def not_le)
      have later: "mem_inv E S F (nap2\<lparr>break_addr := nb\<rparr>)"
        if "mem_inv E S F nap2" "same_view nap nap2" for nap2 :: "'a mem_app"
        using that nb(1) mem_invD(6) [OF inv] unfolding mem_inv_def fd_inv_def space_ok_def text_mapped_def
        by (simp add: same_view_def same_layout_def)
      consider (inside) "drop_bit NACL_PAGESHIFT (nb - 1) < e_page_num ?e + e_npages ?e"
        | (blocked) "\<not> drop_bit NACL_PAGESHIFT (nb - 1) < e_page_num ?e + e_npages ?e"
            "Suc ix < length (vmentry m) \<and> e_page_num (vmentry m ! Suc ix) \<le> ?lip"
        | (extend) "\<not> drop_bit NACL_PAGESHIFT (nb - 1) < e_page_num ?e + e_npages ?e"
            "\<not> (Suc ix < length (vmentry m) \<and> e_page_num (vmentry m ! Suc ix) \<le> ?lip)" by blast
      then show ?thesis
      proof cases
        case inside
        have n: "mem_inv E S F (?nap1\<lparr>break_addr := nb\<rparr>)" using later [OF inv1] by (simp add: same_view_def same_layout_def)
        have "brk_grow env nb (nb + mem_start nap) nap = ?zero (?nap1\<lparr>break_addr := nb\<rparr>)"
          unfolding run1 using inside by (simp only: if_True)
        then show ?thesis using zero [of "?nap1\<lparr>break_addr := nb\<rparr>"] n g1
          by (auto simp: same_view_def same_layout_def brk_grown_def)
      next
        case blocked
        then show ?thesis unfolding run1 using inv1 g1 by (simp add: same_view_def same_layout_def)
      next
        case extend
        have nxt: "Suc ix < length (vmentry m) \<longrightarrow> unat ?lip < e_lo (vmentry m ! Suc ix)"
          using extend(2) by (auto simp: word_nat e_lo_def)
        have h: "e_hi ?e \<le> unat ?lip" using extend(1) bp(1,2) hi by (simp add: word_nat)
        have "unat ?P < e_hi ?e" using cov by (simp add: covers_def)
        then have "unat ?ub - 1 < e_hi ?e * 4096" unfolding bp0 by (simp add: div_less_iff_less_mult)
        then have low: "unat ?ub \<le> e_hi ?e * 4096" by simp
        have lim: "unat (?lip + 1) * 4096 \<le> unat (addr_limit ?nap1)" using bp(4) by (simp add: addr_limit_def)
        note ex = brk_extend_ok [OF inv1, unfolded store_counts_fields, OF es ix bp(3) lim low h nxt, of env nb]
        have dp: "data_pages ?nap1 = data_pages nap" by (simp add: data_pages_def addr_limit_def fun_eq_iff)
        have gr: "brk_grown nap nap2" if "brk_grown ?nap1 nap2" for nap2 :: "'a mem_app"
          using that unfolding brk_grown_def dp store_counts_fields same .
        show ?thesis
        proof (cases "brk_extend env nb ?lip ?e ix ?nap1 = Inl Log_fatal")
          case True
          then show ?thesis unfolding run1 using extend by auto
        next
          case False
          then obtain nap2 where n2: "brk_extend env nb ?lip ?e ix ?nap1 = Inr (nap2\<lparr>break_addr := nb\<rparr>)"
            "mem_inv E S F nap2" "same_view ?nap1 nap2" "fa_mem nap2 = fa_mem nap" "brk_grown ?nap1 nap2"
            using ex by auto
          have sl: "same_view nap nap2" using n2(3) by (simp add: same_view_def same_layout_def)
          have "brk_grow env nb (nb + mem_start nap) nap = ?zero (nap2\<lparr>break_addr := nb\<rparr>)"
            unfolding run1 using extend n2(1) by (simp only: if_False ebind_simps)
          moreover have "access_faults (nap2\<lparr>break_addr := nb\<rparr>) = access_faults nap" using sl by (simp add: same_view_def same_layout_def)
          ultimately show ?thesis using zero [of "nap2\<lparr>break_addr := nb\<rparr>"] later [OF n2(2) sl] gr [OF n2(5)] sl n2(4)
            by (auto simp: same_view_def same_layout_def)
        qed
      qed
    qed
  qed
qed

section \<open>The call\<close>

lemma SysBrk_ok:
  assumes inv: "mem_inv E S F nap"
  shows "case NaClSysBrk env nap nb of
      Inl e \<Rightarrow> stopped nap e
    | Inr (r, nap') \<Rightarrow> mem_inv E S F nap' \<and> same_view nap nap' \<and> brk_grown nap nap'
        \<and> (pnacl_mode nap \<longrightarrow> nap' = nap) \<and> (\<not> pnacl_mode nap \<longrightarrow> r = to_int32 (uint (break_addr nap')))
        \<and> (break_addr nap' = break_addr nap \<and> fa_mem nap' = fa_mem nap \<and> requests nap' = requests nap
           \<or> break_addr nap' = nb \<and> data_end nap \<le> nb \<and> nb < addr_limit nap
             \<and> fa_mem nap' = (if nb \<le> break_addr nap then fa_mem nap else zeroed nap nb (fa_mem nap)))"
proof (cases "pnacl_mode nap \<or> kNaClBadAddress = NaClUserToSysAddr nap nb \<or> nb < data_end nap")
  case True
  then have "NaClSysBrk env nap nb = Inr (if pnacl_mode nap then - NACL_ABI_ENOSYS else to_int32 (uint (break_addr nap)), nap)"
    by (auto simp: NaClSysBrk_def Let_def)
  then show ?thesis using inv by (simp add: brk_grown_def)
next
  case False
  then have ok: "\<not> pnacl_mode nap" "nb \<noteq> 0" "nb < addr_limit nap" "NaClUserToSysAddr nap nb = nb + mem_start nap" "data_end nap \<le> nb"
    by (auto simp: NaClUserToSysAddr_def not_less split: if_splits)
  show ?thesis
  proof (cases "nb \<le> break_addr nap")
    case True
    then have "NaClSysBrk env nap nb = Inr (to_int32 (uint nb), nap\<lparr>break_addr := nb\<rparr>)"
      using False ok by (simp add: NaClSysBrk_def)
    moreover have "mem_inv E S F (nap\<lparr>break_addr := nb\<rparr>)"
      using inv ok(5) by (simp add: mem_inv_def fd_inv_def space_ok_def text_mapped_def)
    ultimately show ?thesis using True ok by (simp add: same_view_def same_layout_def brk_grown_def)
  next
    case up: False
    have run: "NaClSysBrk env nap nb = ebind (brk_grow env nb (nb + mem_start nap) nap) (\<lambda>nap1.
        Inr (to_int32 (uint (break_addr nap1)), nap1))"
      using False up ok(4) unfolding NaClSysBrk_def Let_def by (simp del: ebind_eq_Inr)
    from up have lt: "break_addr nap < nb" by simp
    show ?thesis using brk_grow_ok [OF inv lt ok(3), of env] ok up unfolding run by auto
  qed
qed

end
