(* ===== verification/MemCalls.thy ===== *)
theory MemCalls
  imports MemFaults MemBreak
begin

text \<open>
  Programs of memory calls. The arguments are the 32-bit words that the untrusted code passes; each
  call that returns keeps the invariant and asks the host only for what is allowed.
\<close>

section \<open>Calls\<close>

datatype mem_call =
    Brk u32
  | Mmap u32 u32 u32 u32 u32 u32
  | Munmap u32 u32
  | Mprotect u32 u32 u32

fun mem_call_run :: "'h mem_env \<Rightarrow> mem_call \<Rightarrow> 'h mem_app \<Rightarrow> (int \<times> 'h mem_app) exec" where
  "mem_call_run env (Brk new_break) nap = NaClSysBrk env nap (ucast new_break)"
| "mem_call_run env (Mmap start len prot flags d offp) nap = NaClSysMmap env nap start (ucast len) prot flags d offp"
| "mem_call_run env (Munmap start len) nap = NaClSysMunmap env nap start len"
| "mem_call_run env (Mprotect start len prot) nap = NaClSysMprotect env nap start (ucast len) prot"

text \<open>A program of calls, each with its result.\<close>

inductive mem_program :: "'h mem_env \<Rightarrow> 'h mem_app \<Rightarrow> (mem_call \<times> int) list \<Rightarrow> 'h mem_app \<Rightarrow> bool" for env where
  halt: "mem_program env nap [] nap"
| call: "mem_call_run env c nap = Inr (r, nap1) \<Longrightarrow> mem_program env nap1 cs nap2 \<Longrightarrow> mem_program env nap ((c, r) # cs) nap2"

inductive_cases mem_program_cases: "mem_program env nap ((c, r) # cs) nap'"

section \<open>What a call may do\<close>

text \<open>The state of a sandbox between two calls, and what the host promises.\<close>

definition mem_ready :: "(nat \<Rightarrow> nat) \<Rightarrow> u32 multiset \<Rightarrow> u32 multiset \<Rightarrow> 'h mem_app \<Rightarrow> bool" where
  "mem_ready E S F nap \<longleftrightarrow> mem_inv E S F nap \<and> text_area_ok nap \<and> cache_ok nap"

definition env_ok :: "'h mem_env \<Rightarrow> bool" where
  "env_ok env \<longleftrightarrow> host_ok env \<and> shm_limit (me_text env) \<and> keeps_length (me_text env)"

text \<open>
  What each call does to the pages: \<open>brk\<close> only adds pages above the old break, \<open>mmap\<close> maps one range
  or nothing, \<open>munmap\<close> and \<open>mprotect\<close> change exactly the range given, or nothing when they fail.
\<close>

fun call_effect :: "'h mem_app \<Rightarrow> mem_call \<Rightarrow> int \<Rightarrow> 'h mem_app \<Rightarrow> bool" where
  "call_effect nap (Brk new_break) r nap' \<longleftrightarrow> break_addr nap' \<in> {break_addr nap, ucast new_break}
     \<and> (\<not> pnacl_mode nap \<longrightarrow> r = to_int32 (uint (break_addr nap')))
     \<and> (\<forall>p. vm_map (mem_map nap') p \<noteq> vm_map (mem_map nap) p \<longrightarrow>
          unat (break_addr nap) \<le> p * 4096 \<and> vm_map (mem_map nap') p \<noteq> None)"
| "call_effect nap (Mmap start len prot flags d offp) r nap' \<longleftrightarrow>
     (\<exists>mr u off. r = sint (ucast mr :: u32)
        \<and> mmap_effect nap nap' mr (ucast start) u (NaClRoundAllocPage (ucast len)) prot (mmap_flags flags) (mmap_desc nap flags d) off)"
| "call_effect nap (Munmap start len) r nap' \<longleftrightarrow>
     (if r = 0 then data_pages nap (ucast start) (NaClRoundAllocPage (ucast len))
        \<and> unmapped (ucast start) (NaClRoundAllocPage (ucast len)) (mem_map nap) (mem_map nap')
      else mem_map nap' = mem_map nap)"
| "call_effect nap (Mprotect start len prot) r nap' \<longleftrightarrow>
     (if r = 0 then data_pages nap (ucast start) (NaClRoundAllocPage (ucast len))
        \<and> reprotected (ucast start) (NaClRoundAllocPage (ucast len)) prot (mem_map nap) (mem_map nap')
      else vm_map (mem_map nap') = vm_map (mem_map nap))"

section \<open>Each call\<close>

lemma munmap_call:
  assumes inv: "mem_inv E S F nap" and area: "text_area_ok nap" and host: "host_ok env"
    and res: "NaClSysMunmap env nap start len = Inr (r, nap')"
  shows "mem_inv E S F nap' \<and> allowed env nap nap' \<and> call_effect nap (Munmap start len) r nap'"
proof -
  let ?n = "NaClRoundAllocPage (ucast len)" and ?u = "ucast start :: u64"
  have m: "mem_inv E S F nap'" "same_view nap nap'" "break_addr nap' = break_addr nap"
    "if r = 0 then data_pages nap ?u ?n \<and> unmapped ?u ?n (mem_map nap) (mem_map nap') else mem_map nap' = mem_map nap"
    "nap' = nap \<or> data_pages nap ?u ?n \<and> requests nap' = Host_mmap (?u + mem_start nap) ?n 0 0x32 # requests nap
             \<and> writes_in (unat (?u + mem_start nap)) (unat ?n) (fa_mem nap) (fa_mem nap')"
    using SysMunmap_ok [OF inv host, of start len] res by auto
  from m(5) have "kept env nap nap'"
  proof
    assume a: "data_pages nap ?u ?n \<and> requests nap' = Host_mmap (?u + mem_start nap) ?n 0 0x32 # requests nap
             \<and> writes_in (unat (?u + mem_start nap)) (unat ?n) (fa_mem nap) (fa_mem nap')"
    note d = data_pages_request [OF mem_invD(3) [OF inv] conjunct1 [OF a]]
    show ?thesis
      by (rule kept_one [OF m(2,3) _ _ _ _ d(3), where q = "Host_mmap (?u + mem_start nap) ?n 0 0x32"])
        (use a d area in \<open>simp_all add: request_ok_def text_area_ok_def\<close>)
  qed simp
  then show ?thesis using m by (simp add: kept_def)
qed

lemma protects_allowed:
  assumes sp: "space_ok nap" and d: "data_pages nap u n" and live: "list_all entry_live (vmentry m)"
    and pr: "prot AND NOT 3 = 0" and p: "protects nap (NaClProtMap prot) (unat u div 4096) ((unat u + unat n) div 4096) m rs"
  shows "list_all (request_ok env nap) rs"
  unfolding list_all_iff
proof
  fix q assume "q \<in> set rs"
  then obtain e where e: "e \<in> set (vmentry m)" "unat u div 4096 \<le> e_lo e" "e_hi e \<le> (unat u + unat n) div 4096"
    "entry_request nap (NaClProtMap prot) e = Some q"
    using p unfolding protects_def List.map_filter_def by fastforce
  let ?a = "push_bit NACL_PAGESHIFT (e_page_num e)" and ?l = "push_bit NACL_PAGESHIFT (e_npages e)"
  have lv: "entry_live e" using live e(1) by (simp add: list_all_iff)
  have a: "unat ?a = e_lo e * 4096" by (rule region_start [OF lv])
  obtain i j where ij: "unat u = 4096 * i" "unat n = 4096 * j" using d by (auto simp: data_pages_def elim!: dvdE)
  have hi: "e_lo e + unat (e_npages e) = e_hi e" "e_hi e \<le> i + j" "i \<le> e_lo e" "e_lo e < e_hi e"
    using e(2,3) ij lv by (auto simp: e_hi_def e_lo_def entry_live_def entry_ok_def)
  have lim: "unat u + unat n \<le> unat (addr_limit nap)" "unat (dynamic_text_end nap) \<le> unat u"
    using d by (simp_all add: data_pages_def)
  then have "e_hi e * 4096 \<le> 2 ^ 32" using hi(2) ij addr_limit_le [OF sp] by simp
  then have "unat (e_npages e) * 2 ^ NACL_PAGESHIFT < 2 ^ LENGTH(64)" using hi(1) by (simp add: NACL_PAGESHIFT_def)
  from unat_push_bit_nowrap [OF this] have l: "unat ?l = unat (e_npages e) * 4096" by (simp add: NACL_PAGESHIFT_def)
  have dp: "data_pages nap ?a ?l"
    unfolding data_pages_def a l using hi ij lim by (auto simp flip: distrib_right)
  have np: "NaClProtMap prot AND 4 = 0"
  proof -
    have "prot AND 4 = (prot AND NOT 3) AND 4" by (simp add: and.assoc)
    then have "prot AND 4 = 0" using pr by simp
    then show ?thesis by (simp add: NaClProtMap_def NACL_ABI_PROT_EXEC_def and.commute [of 4] bit.conj_disj_distrib2)
  qed
  have "q = Host_mprotect (?a + mem_start nap) ?l (NaClProtMap prot)
      \<or> (\<exists>k. unat k \<le> unat ?l \<and> q = Host_mprotect (?a + mem_start nap) k (NaClProtMap prot))"
    using e(4) by (auto simp: entry_request_def Let_def min_def word_nat split: if_splits)
  then obtain k where "unat k \<le> unat ?l" "q = Host_mprotect (?a + mem_start nap) k (NaClProtMap prot)" by blast
  then show "request_ok env nap q" using data_place(1) [OF sp dp] np by (simp add: request_ok_def)
qed

lemma mprotect_call:
  assumes inv: "mem_inv E S F nap" and host: "host_ok env"
    and res: "NaClSysMprotect env nap start (ucast len) prot = Inr (r, nap')"
  shows "mem_inv E S F nap' \<and> allowed env nap nap' \<and> call_effect nap (Mprotect start len prot) r nap'"
proof -
  let ?n = "NaClRoundAllocPage (ucast len)" and ?u = "ucast start :: u64"
  have "unat (ucast len :: u64) \<le> 2 ^ 32" using unsigned_less [of len, where 'a = nat] by (simp add: unat_ucast_64)
  from SysMprotect_ok [OF inv host this, of start prot]
  have m: "mem_inv E S F nap'" "same_view nap nap'" "break_addr nap' = break_addr nap" "fa_mem nap' = fa_mem nap"
    "if r = 0 then data_pages nap ?u ?n \<and> prot AND NOT 3 = 0 \<and> reprotected ?u ?n prot (mem_map nap) (mem_map nap')
             \<and> (\<exists>rs. requests nap' = rs @ requests nap
                 \<and> protects nap (NaClProtMap prot) (unat ?u div 4096) ((unat ?u + unat ?n) div 4096) (mem_map nap') rs)
           else vm_map (mem_map nap') = vm_map (mem_map nap) \<and> requests nap' = requests nap"
    using res by (auto split: if_splits)
  have live: "list_all entry_live (vmentry (mem_map nap'))"
    using mem_invD(2) [OF m(1)] by (simp add: vm_wf_def entries_wf_def)
  have "\<exists>rs. requests nap' = rs @ requests nap \<and> list_all (request_ok env nap) rs"
    using m(5) protects_allowed [OF mem_invD(3) [OF inv] _ live] by (cases "r = 0") auto
  then have "asks env nap nap'" using asks_some [of nap' _ nap env] m(2) by (auto simp: same_view_def)
  then show ?thesis using m by (simp add: allowed_def same_view_def)
qed

lemma brk_call:
  assumes inv: "mem_inv E S F nap" and area: "text_area_ok nap"
    and res: "NaClSysBrk env nap (ucast nb) = Inr (r, nap')"
  shows "mem_inv E S F nap' \<and> allowed env nap nap' \<and> call_effect nap (Brk nb) r nap'"
proof -
  let ?b = "break_addr nap" and ?nb = "ucast nb :: u64"
  have sp: "space_ok nap" by (rule mem_invD [OF inv])
  have m: "mem_inv E S F nap'" "same_view nap nap'" "brk_grown nap nap'"
    "pnacl_mode nap \<longrightarrow> nap' = nap" "\<not> pnacl_mode nap \<longrightarrow> r = to_int32 (uint (break_addr nap'))"
    "break_addr nap' = ?b \<and> fa_mem nap' = fa_mem nap \<and> requests nap' = requests nap
           \<or> break_addr nap' = ?nb \<and> data_end nap \<le> ?nb \<and> ?nb < addr_limit nap
             \<and> fa_mem nap' = (if ?nb \<le> ?b then fa_mem nap else zeroed nap ?nb (fa_mem nap))"
    using SysBrk_ok [OF inv, where env = env and nb = ?nb] res by auto
  have reqs: "\<exists>rs. requests nap' = rs @ requests nap \<and> list_all (request_ok env nap) rs"
    using m(3) unfolding brk_grown_def
  proof (elim disjE exE conjE)
    fix u n assume d: "data_pages nap u n" "requests nap' = Host_mprotect (u + mem_start nap) n 3 # requests nap"
    then have "request_ok env nap (Host_mprotect (u + mem_start nap) n 3)"
      using data_pages_request(1) [OF sp] by (simp add: request_ok_def)
    then show ?thesis using d(2) by (intro exI [of _ "[Host_mprotect (u + mem_start nap) n 3]"]) simp
  qed simp
  have pages: "unat ?b \<le> p * 4096 \<and> vm_map (mem_map nap') p \<noteq> None" if "vm_map (mem_map nap') p \<noteq> vm_map (mem_map nap) p" for p
    using m(3) unfolding brk_grown_def
  proof (elim disjE exE conjE)
    fix u n assume a: "data_pages nap u n" "unat ?b \<le> unat u"
      "\<forall>p. if unat u div 4096 \<le> p \<and> p < (unat u + unat n) div 4096 then vm_map (mem_map nap') p \<noteq> None
           else vm_map (mem_map nap') p = vm_map (mem_map nap) p"
    then have p: "unat u div 4096 \<le> p" "vm_map (mem_map nap') p \<noteq> None" using that by (metis (full_types))+
    moreover obtain i where "unat u = 4096 * i" using a(1) by (auto simp: data_pages_def elim!: dvdE)
    ultimately show ?thesis using a(2) by simp
  qed (use that in simp)
  have mem: "unat (mem_start nap) + unat (dynamic_text_start nap) \<le> unat x \<and> unat x < unat (mem_start nap) + unat (addr_limit nap)"
    if x: "fa_mem nap' x \<noteq> fa_mem nap x" for x
  proof -
    have z: "?nb < addr_limit nap" "?b < ?nb" "fa_mem nap' = zeroed nap ?nb (fa_mem nap)"
      using m(6) x by (auto simp: not_le split: if_splits)
    have b: "unat (?b + mem_start nap) = unat ?b + unat (mem_start nap)"
      using unat_user_to_sys [OF sp, of ?b] z by (simp add: word_nat)
    have l: "unat (?nb - ?b) = unat ?nb - unat ?b" using z(2) by (intro unat_sub_nowrap) (simp add: word_nat)
    have t: "unat (?b + mem_start nap) + unat (?nb - ?b) = unat (mem_start nap) + unat ?nb" using b l z(2) by (simp add: word_nat)
    moreover have "unat (mem_start nap) + unat ?nb \<le> 2 ^ 64" using space_top [OF sp] z(1) by (simp add: word_nat)
    ultimately have w: "writes_in (unat (?b + mem_start nap)) (unat (?nb - ?b)) (fa_mem nap) (fa_mem nap')"
      unfolding z(3) zeroed_def by (intro put_region_writes) simp
    then have "unat (?b + mem_start nap) \<le> unat x" "unat x < unat (mem_start nap) + unat ?nb"
      using x t unfolding writes_in_def by auto
    moreover have "unat (dynamic_text_start nap) \<le> unat ?b"
      using area mem_invD(5,6) [OF inv] by (simp add: text_area_ok_def word_nat)
    ultimately show ?thesis using b z(1) by (simp add: word_nat)
  qed
  have "asks env nap nap'" using reqs asks_some [of nap' _ nap env] m(2) by (auto simp: same_view_def)
  moreover have "same_layout nap nap'" using m(2) by (simp add: same_view_def)
  moreover have "call_effect nap (Brk nb) r nap'" using m(5,6) pages by auto
  ultimately show ?thesis using m(1) mem by (simp add: allowed_def)
qed

text \<open>
  A call for which the source promises a result: it asks for no executable pages, and no empty range
  to protect.
\<close>

fun plain_call :: "mem_call \<Rightarrow> bool" where
  "plain_call (Mmap start len prot flags d offp) \<longleftrightarrow> prot AND NACL_ABI_PROT_EXEC = 0"
| "plain_call (Mprotect start len prot) \<longleftrightarrow> len \<noteq> 0"
| "plain_call (Brk new_break) \<longleftrightarrow> True"
| "plain_call (Munmap start len) \<longleftrightarrow> True"

lemma mem_call_ok:
  assumes ready: "mem_ready E S F nap" and env: "env_ok env" and res: "mem_call_run env c nap = Inr (r, nap')"
  shows "mem_ready E S F nap' \<and> allowed env nap nap' \<and> call_effect nap c r nap'"
proof -
  have inv: "mem_inv E S F nap" and area: "text_area_ok nap" "cache_ok nap" using ready by (simp_all add: mem_ready_def)
  have host: "host_ok env" and te: "shm_limit (me_text env)" "keeps_length (me_text env)" using env by (simp_all add: env_ok_def)
  have "mem_inv E S F nap' \<and> allowed env nap nap' \<and> call_effect nap c r nap'"
  proof (cases c)
    case (Brk nb)
    then show ?thesis using brk_call [OF inv area(1)] res by simp
  next
    case (Mmap start len prot flags d offp)
    then show ?thesis using SysMmap_ok [OF inv host area te] res by (simp add: kept_def)
  next
    case (Munmap start len)
    then show ?thesis using munmap_call [OF inv area(1) host] res by simp
  next
    case (Mprotect start len prot)
    then show ?thesis using mprotect_call [OF inv host] res by simp
  qed
  then show ?thesis using layout_ready [OF _ area, of nap'] by (simp add: mem_ready_def allowed_def)
qed

text \<open>The calls that access user memory: \<open>mmap\<close> copies the offset in, \<open>brk\<close> sets bytes to zero.\<close>

fun copies_memory :: "mem_call \<Rightarrow> bool" where
  "copies_memory (Mmap start len prot flags d offp) \<longleftrightarrow> True"
| "copies_memory (Brk new_break) \<longleftrightarrow> True"
| "copies_memory (Munmap start len) \<longleftrightarrow> False"
| "copies_memory (Mprotect start len prot) \<longleftrightarrow> False"

lemma mem_call_faults:
  assumes ready: "mem_ready E S F nap" and env: "env_ok env" and res: "mem_call_run env c nap = Inl e" and pc: "plain_call c"
  shows "e = Log_fatal \<or> e = Access_fault \<and> faulting nap \<and> copies_memory c"
proof -
  have inv: "mem_inv E S F nap" and area: "text_area_ok nap" "cache_ok nap" using ready by (simp_all add: mem_ready_def)
  have host: "host_ok env" and te: "shm_limit (me_text env)" "keeps_length (me_text env)" using env by (simp_all add: env_ok_def)
  show ?thesis
  proof (cases c)
    case (Brk nb)
    then show ?thesis using SysBrk_ok [OF inv, where env = env and nb = "ucast nb"] res by (simp add: stopped_def)
  next
    case (Mmap start len prot flags d offp)
    then show ?thesis using SysMmap_faults [OF inv host area te] res pc by (simp add: stopped_def)
  next
    case (Munmap start len)
    then show ?thesis using SysMunmap_ok [OF inv host, of start len] res by auto
  next
    case (Mprotect start len prot)
    have "unat (ucast len :: u64) \<le> 2 ^ 32" using unsigned_less [of len, where 'a = nat] by (simp add: unat_ucast_64)
    moreover have "(ucast len :: u64) \<noteq> 0" using pc Mprotect by (auto simp: word_eq_unat unat_ucast_64)
    ultimately show ?thesis using SysMprotect_ok [OF inv host, of "ucast len" start prot] res Mprotect by simp
  qed
qed

lemma program_ok:
  "mem_program env nap cs nap' \<Longrightarrow> mem_ready E S F nap \<Longrightarrow> env_ok env \<Longrightarrow> mem_ready E S F nap' \<and> allowed env nap nap'"
proof (induction rule: mem_program.induct)
  case (call c nap r nap1 cs nap2)
  then show ?case using mem_call_ok [OF call.prems call.hyps(1)] allowed_trans by blast
qed simp

end
