(* ===== verification/MemClaims.thy ===== *)
theory MemClaims
  imports MemCalls FdClaims DynCodeClaims VmmapClaims
begin

text \<open>The properties of the memory system calls.\<close>

section \<open>An example state\<close>

text \<open>
  File 7 is open and mapped at page 64, above the text; the host grants every request.
\<close>

definition demo_mem :: "unit mem_app" where
  "demo_mem = \<lparr>addr_bits = 32, mem_start = 0x100000000, bundle_size = 32, static_text_end = 0x20000,
     dynamic_text_start = 0x20000, dynamic_text_end = 0x40000,
     desc_tbl = \<lparr>num_entries = 1, ptr_array = [Some 7], ptr_array_space = 1, available = [1], avail_ix = 0\<rparr>,
     nd_refs = [7 \<mapsto> 2],
     thread_tbl = \<lparr>num_entries = 0, ptr_array = [None], ptr_array_space = 1, available = [0], avail_ix = 0\<rparr>,
     n_threads = 0, mem_io_regions = RLeaf, fa_mem = (\<lambda>_. 0), access_faults = (\<lambda>_ _ _. False), host = (),
     dyn_regs = \<lparr>regions = [], regions_allocated = 0\<rparr>, dynamic_page_bitmap = [0],
     mapcache_offset = 0, mapcache_size = 0, mapcache_ret = 0, text_shm = True,
     delete_generation = 0, natp_generation = (\<lambda>_. 0), enable_dyncode_syscalls = True,
     skip_validator = False, ignore_validator_result = False, validator_stub_out_mode = False,
     pnacl_mode = False, requests = [],
     mem_map = demo_sorted, break_addr = 0x60000, data_end = 0x60000\<rparr>"

definition demo_menv :: "unit mem_env" where
  "demo_menv = \<lparr>me_text = demo_env, me_vt = demo_vt, me_mmap = (\<lambda>start len prot flags fd off h. (0, start, (\<lambda>_. 0), h)),
     me_mprotect = (\<lambda>a n p h. (0, h)), me_munmap = (\<lambda>a n h. (0, h)), me_find_space = (\<lambda>n h. Some 0x700000000000),
     me_Map = (\<lambda>d start len prot flags off h. (if start = 0 then 0x700000000000 else start, (\<lambda>_. 0xf4), h)),
     me_GetFlags = (\<lambda>_. 2), me_typeTag = (\<lambda>_. 2), me_metadata = (\<lambda>_. 0)\<rparr>"

lemma demo_menv_ok: "env_ok demo_menv"
  using demo_env_ok by (simp add: env_ok_def host_ok_def demo_menv_def accmode_ok_def mman_consts)

lemma demo_mem_get: "DynArrayGet (desc_tbl demo_mem) = [0 \<mapsto> 7]"
  by (auto simp: DynArrayGet_def demo_mem_def fun_eq_iff)

lemma demo_mem_table: "da_wf (desc_tbl demo_mem)"
proof -
  have bt: "bit_at [1] i \<longleftrightarrow> i < 1" if "i < 32" for i using that by (simp add: bit_at_def bit_1_iff)
  have us: "da_used (desc_tbl demo_mem) i \<longleftrightarrow> i < 1" for i by (auto simp: da_used_def demo_mem_def)
  have "da_words (desc_tbl demo_mem) = 1" by (simp add: da_words_def demo_mem_def)
  then show ?thesis unfolding da_wf_def us by (simp add: demo_mem_def bt)
qed

lemma demo_map_refs: "map_refs (mem_map demo_mem) = (\<lambda>n. if n = 7 then 1 else 0)"
  by (auto simp: map_refs_def demo_mem_def demo_sorted_state NaClVmmapEntryMake_def)

lemma demo_mem_ready: "mem_ready (\<lambda>_. 0) {#} {#} demo_mem"
proof -
  have "holds_in [0 \<mapsto> 7] n = (if n = 7 then 1 else 0)" for n
  proof -
    have "{i :: nat. [0 \<mapsto> (7 :: nat)] i = Some n} = (if n = 7 then {0} else {})" by auto
    then show ?thesis by (simp add: holds_in_def)
  qed
  then have "refs_are (nd_refs demo_mem) (\<lambda>n. holds_in (DynArrayGet (desc_tbl demo_mem)) n + (map_refs (mem_map demo_mem) n + 0))"
    unfolding demo_mem_get demo_map_refs by (auto simp: refs_are_def demo_mem_def)
  moreover have "tree_inv (mem_io_regions demo_mem) {#} {#}"
    by (simp add: demo_mem_def tree_inv_def point_def node_of_def fun_eq_iff)
  moreover have "space_ok demo_mem" by (simp add: space_ok_def demo_mem_def)
  ultimately have "fd_inv (\<lambda>n. map_refs (mem_map demo_mem) n + 0) {#} {#} demo_mem"
    using demo_mem_table by (simp add: fd_inv_def)
  moreover have "text_mapped demo_mem (mem_map demo_mem)"
    unfolding text_mapped_def by (rule exI [of _ 16]) (simp add: demo_mem_def demo_sorted_state demo_page_simps)
  moreover have "text_area_ok demo_mem" "cache_ok demo_mem"
    by (simp_all add: demo_mem_def text_area_ok_def space_ok_def addr_limit_def cache_ok_def)
  ultimately show ?thesis using demo_sorted_wf(1)
    by (simp add: mem_ready_def mem_inv_def) (simp add: demo_mem_def)
qed

lemma demo_remove:
  "\<exists>m. NaClVmmapRemove (demo_sorted\<lparr>desc_refs := (\<lambda>n. if n = 7 then 2 else 0)\<rparr>) 64 16 = Inr m
     \<and> entry_descs m = [7] \<and> desc_refs m 7 = 2"
proof -
  let ?R = "NaClVmmapRemove (demo_sorted\<lparr>desc_refs := (\<lambda>n. if n = 7 then 2 else 0)\<rparr>) 64 16"
  have "map_sum id entry_descs ?R = Inr [7]" "map_sum id (\<lambda>m. desc_refs m 7) ?R = Inr 2" by code_simp+
  then show ?thesis by (cases ?R) simp_all
qed

lemma demo_munmap: "\<exists>nap'. mem_call_run demo_menv (Munmap 0x40000 0x10000) demo_mem = Inr (0, nap')"
proof -
  have c: "ref_counts nap = (\<lambda>n. if n = 7 then 2 else 0)" if "nd_refs nap = nd_refs demo_mem" for nap :: "unit mem_app"
    using that by (auto simp: ref_counts_def demo_mem_def fun_eq_iff)
  obtain m where m: "NaClVmmapRemove (demo_sorted\<lparr>desc_refs := (\<lambda>n. if n = 7 then 2 else 0)\<rparr>) 64 16 = Inr m"
    "entry_descs m = [7]" "desc_refs m 7 = 2" using demo_remove by blast
  have a: "NaClRoundAllocPage (ucast (0x10000 :: u32)) = 0x10000" "NaClIsAllocPageMultiple (ucast (0x40000 :: u32))"
    "\<not> NaClSysCommonAddrRangeContainsExecutablePages demo_mem (ucast (0x40000 :: u32)) 0x10000"
    "NaClUserToSysAddrRange demo_mem (ucast (0x40000 :: u32)) 0x10000 = 0x100040000"
    "NaClVmIoPendingCheck_mu demo_mem 0x40000 0x4ffff = Inr ()"
    unfolding demo_mem_def by code_simp+
  then have run: "NaClSysMunmap demo_menv demo_mem 0x40000 0x10000 = MunmapInternal demo_menv 0x100040000 0x10000 demo_mem"
    by (simp add: NaClSysMunmap_def Let_def kNaClBadAddress_def)
  let ?nap1 = "demo_mem\<lparr>requests := [Host_mmap 0x100040000 0x10000 0 0x32],
    fa_mem := put_region 0x100040000 (NaClRoundPage 0x10000) (\<lambda>_. 0) (\<lambda>_. 0)\<rparr>"
  have h: "host_mmap demo_menv 0x100040000 0x10000 0 (2 OR 0x20 OR 0x10) (- 1) 0 demo_mem = (0, 0x100040000, ?nap1)"
    by (simp add: host_mmap_def demo_menv_def demo_mem_def)
  have u: "NaClSysToUser ?nap1 0x100040000 = Inr 0x40000" unfolding demo_mem_def by code_simp
  have k: "(mem_map demo_mem)\<lparr>desc_refs := ref_counts ?nap1\<rparr> = demo_sorted\<lparr>desc_refs := (\<lambda>n. if n = 7 then 2 else 0)\<rparr>"
    by (simp add: c) (simp add: demo_mem_def)
  have "drop_bit NACL_PAGESHIFT 0x40000 = (64 :: u64)" "drop_bit NACL_PAGESHIFT 0x10000 = (16 :: u64)" by code_simp+
  then have "\<exists>nap'. MunmapInternal demo_menv 0x100040000 0x10000 demo_mem = Inr (0, nap')"
    using h u m by (simp add: MunmapInternal_def with_map_def no_result_def k)
  then show ?thesis by (simp add: run)
qed

section \<open>The properties\<close>

text \<open>C10: Whatever memory calls the untrusted code makes, in any order and with any arguments, every state
  it gets back satisfies the invariant: the memory map is well formed and some text stays mapped,
  the reference count of each descriptor is the number of table slots and map entries that hold it,
  the text, the data and the break are in order, and the cache of the writable text is valid.\<close>
theorem memory_program_invariant:
  assumes "mem_program env nap cs nap'" "env_ok env" "mem_ready E S F nap"
  shows "mem_ready E S F nap'"
  using program_ok [OF assms(1,3,2)] by simp

theorem memory_program_invariant_witness:
  "\<exists>nap'. mem_program demo_menv demo_mem [(Munmap 0x40000 0x10000, 0)] nap' \<and> vm_wf (mem_map nap')
    \<and> mem_ready (\<lambda>_. 0) {#} {#} nap'"
proof -
  obtain nap' where "mem_program demo_menv demo_mem [(Munmap 0x40000 0x10000, 0)] nap'"
    using demo_munmap mem_program.intros by blast
  with memory_program_invariant [OF this demo_menv_ok demo_mem_ready] show ?thesis
    by (auto simp: mem_ready_def mem_inv_def)
qed

text \<open>C9: Whatever memory calls the untrusted code makes, the service runtime asks the host only for
  what is allowed. Data is mapped, protected and unmapped only above the text and inside the sandbox and
  never executable. Executable pages lie only in the dynamic text and are never writable: either a
  file is mapped there whose bytes the validator has accepted at that address, or pages of the dynamic text
  are made readable and executable, for the runtime to fill.
  Outside the sandbox only two things are mapped, neither of them executable: the validator's view of
  a file, and the writable view of the shared memory behind the dynamic text; and only such views are
  unmapped. Memory changes only between the start of the dynamic text and the end of the sandbox, and the
  layout of the sandbox does not change.\<close>
theorem memory_program_confined:
  assumes "mem_program env nap cs nap'" "env_ok env" "mem_ready E S F nap"
  shows "(\<exists>rs. requests nap' = rs @ requests nap \<and> list_all (request_ok env nap) rs)
    \<and> (\<forall>x. fa_mem nap' x \<noteq> fa_mem nap x \<longrightarrow> unat (mem_start nap) + unat (dynamic_text_start nap) \<le> unat x
         \<and> unat x < unat (mem_start nap) + unat (addr_limit nap))
    \<and> mem_start nap' = mem_start nap \<and> addr_limit nap' = addr_limit nap
    \<and> dynamic_text_start nap' = dynamic_text_start nap \<and> dynamic_text_end nap' = dynamic_text_end nap"
  using program_ok [OF assms(1,3,2)] by (simp add: allowed_def asks_def same_layout_def addr_limit_def)

theorem memory_program_confined_witness:
  "\<exists>nap'. mem_program demo_menv demo_mem [(Munmap 0x40000 0x10000, 0)] nap' \<and> fa_mem nap' 0x100010000 = 0
    \<and> (\<exists>rs. requests nap' = rs \<and> list_all (request_ok demo_menv demo_mem) rs)"
proof -
  obtain nap' where p: "mem_program demo_menv demo_mem [(Munmap 0x40000 0x10000, 0)] nap'"
    using demo_munmap mem_program.intros by blast
  note c = memory_program_confined [OF this demo_menv_ok demo_mem_ready]
  have "fa_mem nap' 0x100010000 = fa_mem demo_mem 0x100010000"
    using c by (rule_tac ccontr) (auto simp: demo_mem_def)
  moreover have "requests demo_mem = []" "fa_mem demo_mem 0x100010000 = 0" by (simp_all add: demo_mem_def)
  ultimately show ?thesis using p c by auto
qed

text \<open>C11: What the memory calls do to the pages of the sandbox. A call that asks for no executable pages
  and for no empty range to protect returns, unless it stops the program with \<open>LOG_FATAL\<close> or faults on
  user memory that the host protects: the offset that \<open>mmap\<close> copies in, or the bytes that \<open>brk\<close> sets
  to zero. \<open>brk\<close> only
  adds pages above the old break and returns the break; \<open>mmap\<close> maps exactly the pages of one range, at
  the address asked for when that is fixed and else where all pages were free, or changes no page;
  \<open>munmap\<close> and \<open>mprotect\<close> change exactly the range given, or nothing when they fail.\<close>
theorem memory_call_refines_pages:
  assumes "mem_ready E S F nap" "env_ok env"
  shows "case mem_call_run env c nap of
      Inl e \<Rightarrow> plain_call c \<longrightarrow> e = Log_fatal \<or> e = Access_fault \<and> faulting nap \<and> copies_memory c
    | Inr (r, nap') \<Rightarrow> call_effect nap c r nap'"
  using mem_call_ok [OF assms] mem_call_faults [OF assms] by (fastforce split: sum.split)

theorem memory_call_refines_pages_witness:
  "\<exists>nap'. mem_call_run demo_menv (Munmap 0x40000 0x10000) demo_mem = Inr (0, nap')
    \<and> vm_map (mem_map nap') 70 = None \<and> vm_map (mem_map nap') 80 = vm_map (mem_map demo_mem) 80"
proof -
  obtain nap' where r: "mem_call_run demo_menv (Munmap 0x40000 0x10000) demo_mem = Inr (0, nap')"
    using demo_munmap by blast
  have n: "NaClRoundAllocPage 0x10000 = 0x10000" by code_simp
  show ?thesis using memory_call_refines_pages [OF demo_mem_ready demo_menv_ok, of "Munmap 0x40000 0x10000"] r
    unfolding r by (simp add: n unmapped_def)
qed

end
