(* ===== verification/SysSync.thy ===== *)
theory SysSync
  imports FdContract DynCode
begin

text \<open>
  The system calls on mutexes, condition variables and semaphores (\<open>nacl_syscall_common.c\<close>).
  The objects are descriptors: the calls look them up, invoke a method and drop the references, and
  the calls that create one put it into the lowest free slot of the descriptor table.
\<close>

section \<open>The calls\<close>

text \<open>
  The virtual methods of the synchronisation objects, and the constructors: memory for the object,
  named by a number, and its initialisation; \<open>None\<close> when one of them fails.
\<close>

record 'h sync_vtbl =
  vLock :: "nat \<Rightarrow> 'h \<Rightarrow> int \<times> 'h"
  vTryLock :: "nat \<Rightarrow> 'h \<Rightarrow> int \<times> 'h"
  vUnlock :: "nat \<Rightarrow> 'h \<Rightarrow> int \<times> 'h"
  vWait :: "nat \<Rightarrow> nat \<Rightarrow> 'h \<Rightarrow> int \<times> 'h"
  vTimedWaitAbs :: "nat \<Rightarrow> nat \<Rightarrow> u8 list \<Rightarrow> 'h \<Rightarrow> int \<times> 'h"
  vSignal :: "nat \<Rightarrow> 'h \<Rightarrow> int \<times> 'h"
  vBroadcast :: "nat \<Rightarrow> 'h \<Rightarrow> int \<times> 'h"
  vPost :: "nat \<Rightarrow> 'h \<Rightarrow> int \<times> 'h"
  vSemWait :: "nat \<Rightarrow> 'h \<Rightarrow> int \<times> 'h"
  vGetValue :: "nat \<Rightarrow> 'h \<Rightarrow> int \<times> 'h"
  MutexCtor :: "'h \<Rightarrow> (nat \<times> 'h) option"
  CondVarCtor :: "'h \<Rightarrow> (nat \<times> 'h) option"
  SemaphoreCtor :: "int \<Rightarrow> 'h \<Rightarrow> (nat \<times> 'h) option"

text \<open>The shape of \<open>NaClSysMutexCreate\<close>, \<open>NaClSysCondCreate\<close> and \<open>NaClSysSemCreate\<close>.\<close>

definition create_desc ::
    "('h \<Rightarrow> (nat \<times> 'h) option) \<Rightarrow> 'h desc_vtbl \<Rightarrow> bool \<times> bool \<Rightarrow> ('h, 'z) fd_app_scheme
      \<Rightarrow> (int \<times> ('h, 'z) fd_app_scheme) exec" where
  "create_desc ctor vt env nap =
     (case ctor (host nap) of
        None \<Rightarrow> Inr (- NACL_ABI_ENOMEM, nap)
      | Some (desc, h) \<Rightarrow>
          NaClAppSetDescAvail vt env (nap\<lparr>nd_refs := (nd_refs nap)(desc \<mapsto> 1), host := h\<rparr>) (Some desc))"

definition NaClSysMutexCreate ::
    "'h sync_vtbl \<Rightarrow> 'h desc_vtbl \<Rightarrow> bool \<times> bool \<Rightarrow> ('h, 'z) fd_app_scheme \<Rightarrow> (int \<times> ('h, 'z) fd_app_scheme) exec" where
  "NaClSysMutexCreate sv vt env nap = create_desc (MutexCtor sv) vt env nap"

definition NaClSysMutexLock ::
    "'h sync_vtbl \<Rightarrow> 'h desc_vtbl \<Rightarrow> ('h, 'z) fd_app_scheme \<Rightarrow> u32 \<Rightarrow> (int \<times> ('h, 'z) fd_app_scheme) exec" where
  "NaClSysMutexLock sv vt nap mutex_handle = with_desc vt nap mutex_handle (\<lambda>desc. host_call (vLock sv desc))"

definition NaClSysMutexUnlock ::
    "'h sync_vtbl \<Rightarrow> 'h desc_vtbl \<Rightarrow> ('h, 'z) fd_app_scheme \<Rightarrow> u32 \<Rightarrow> (int \<times> ('h, 'z) fd_app_scheme) exec" where
  "NaClSysMutexUnlock sv vt nap mutex_handle = with_desc vt nap mutex_handle (\<lambda>desc. host_call (vUnlock sv desc))"

definition NaClSysMutexTrylock ::
    "'h sync_vtbl \<Rightarrow> 'h desc_vtbl \<Rightarrow> ('h, 'z) fd_app_scheme \<Rightarrow> u32 \<Rightarrow> (int \<times> ('h, 'z) fd_app_scheme) exec" where
  "NaClSysMutexTrylock sv vt nap mutex_handle = with_desc vt nap mutex_handle (\<lambda>desc. host_call (vTryLock sv desc))"

definition NaClSysCondCreate ::
    "'h sync_vtbl \<Rightarrow> 'h desc_vtbl \<Rightarrow> bool \<times> bool \<Rightarrow> ('h, 'z) fd_app_scheme \<Rightarrow> (int \<times> ('h, 'z) fd_app_scheme) exec" where
  "NaClSysCondCreate sv vt env nap = create_desc (CondVarCtor sv) vt env nap"

text \<open>
  The shape of the two waiting calls: two descriptors are held while the method runs, and the
  references are dropped in the order of the source.
\<close>

definition with_two_descs ::
    "'h desc_vtbl \<Rightarrow> ('h, 'z) fd_app_scheme \<Rightarrow> u32 \<Rightarrow> u32 \<Rightarrow> (nat \<Rightarrow> nat \<Rightarrow> 'h \<Rightarrow> int \<times> 'h)
      \<Rightarrow> (int \<times> ('h, 'z) fd_app_scheme) exec" where
  "with_two_descs vt nap cond_handle mutex_handle f =
     ebind (NaClAppGetDesc nap cond_handle) (\<lambda>(cv_desc, nap1).
       case cv_desc of
         None \<Rightarrow> Inr (- NACL_ABI_EBADF, nap1)
       | Some cv \<Rightarrow>
           ebind (NaClAppGetDesc nap1 mutex_handle) (\<lambda>(mutex_desc, nap2).
             case mutex_desc of
               None \<Rightarrow> ebind (NaClRefCountUnref vt cv nap2) (\<lambda>nap3. Inr (- NACL_ABI_EBADF, nap3))
             | Some mu \<Rightarrow>
                 ebind (host_call (f cv mu) nap2) (\<lambda>(retval, nap3).
                 ebind (NaClRefCountUnref vt cv nap3) (\<lambda>nap4.
                 ebind (NaClRefCountUnref vt mu nap4) (\<lambda>nap5. Inr (retval, nap5))))))"

definition NaClSysCondWait ::
    "'h sync_vtbl \<Rightarrow> 'h desc_vtbl \<Rightarrow> ('h, 'z) fd_app_scheme \<Rightarrow> u32 \<Rightarrow> u32 \<Rightarrow> (int \<times> ('h, 'z) fd_app_scheme) exec" where
  "NaClSysCondWait sv vt nap cond_handle mutex_handle = with_two_descs vt nap cond_handle mutex_handle (vWait sv)"

definition NaClSysCondSignal ::
    "'h sync_vtbl \<Rightarrow> 'h desc_vtbl \<Rightarrow> ('h, 'z) fd_app_scheme \<Rightarrow> u32 \<Rightarrow> (int \<times> ('h, 'z) fd_app_scheme) exec" where
  "NaClSysCondSignal sv vt nap cond_handle = with_desc vt nap cond_handle (\<lambda>desc. host_call (vSignal sv desc))"

definition NaClSysCondBroadcast ::
    "'h sync_vtbl \<Rightarrow> 'h desc_vtbl \<Rightarrow> ('h, 'z) fd_app_scheme \<Rightarrow> u32 \<Rightarrow> (int \<times> ('h, 'z) fd_app_scheme) exec" where
  "NaClSysCondBroadcast sv vt nap cond_handle = with_desc vt nap cond_handle (\<lambda>desc. host_call (vBroadcast sv desc))"

text \<open>\<open>struct nacl_abi_timespec\<close> has 16 bytes, the last four of them padding.\<close>

definition NaClSysCondTimedWaitAbs ::
    "'h sync_vtbl \<Rightarrow> 'h desc_vtbl \<Rightarrow> ('h, 'z) fd_app_scheme \<Rightarrow> u32 \<Rightarrow> u32 \<Rightarrow> u32 \<Rightarrow> (int \<times> ('h, 'z) fd_app_scheme) exec" where
  "NaClSysCondTimedWaitAbs sv vt nap cond_handle mutex_handle ts_addr =
     ebind (NaClCopyInFromUser nap (ucast ts_addr) 16) (\<lambda>copied.
       case copied of
         None \<Rightarrow> Inr (- NACL_ABI_EFAULT, nap)
       | Some trusted_ts \<Rightarrow>
           with_two_descs vt nap cond_handle mutex_handle (\<lambda>cv mu. vTimedWaitAbs sv cv mu trusted_ts))"

definition NaClSysSemCreate ::
    "'h sync_vtbl \<Rightarrow> 'h desc_vtbl \<Rightarrow> bool \<times> bool \<Rightarrow> ('h, 'z) fd_app_scheme \<Rightarrow> u32 \<Rightarrow> (int \<times> ('h, 'z) fd_app_scheme) exec" where
  "NaClSysSemCreate sv vt env nap init_value = create_desc (SemaphoreCtor sv (sint init_value)) vt env nap"

definition NaClSysSemWait ::
    "'h sync_vtbl \<Rightarrow> 'h desc_vtbl \<Rightarrow> ('h, 'z) fd_app_scheme \<Rightarrow> u32 \<Rightarrow> (int \<times> ('h, 'z) fd_app_scheme) exec" where
  "NaClSysSemWait sv vt nap sem_handle = with_desc vt nap sem_handle (\<lambda>desc. host_call (vSemWait sv desc))"

definition NaClSysSemPost ::
    "'h sync_vtbl \<Rightarrow> 'h desc_vtbl \<Rightarrow> ('h, 'z) fd_app_scheme \<Rightarrow> u32 \<Rightarrow> (int \<times> ('h, 'z) fd_app_scheme) exec" where
  "NaClSysSemPost sv vt nap sem_handle = with_desc vt nap sem_handle (\<lambda>desc. host_call (vPost sv desc))"

definition NaClSysSemGetValue ::
    "'h sync_vtbl \<Rightarrow> 'h desc_vtbl \<Rightarrow> ('h, 'z) fd_app_scheme \<Rightarrow> u32 \<Rightarrow> (int \<times> ('h, 'z) fd_app_scheme) exec" where
  "NaClSysSemGetValue sv vt nap sem_handle = with_desc vt nap sem_handle (\<lambda>desc. host_call (vGetValue sv desc))"

section \<open>Their contract\<close>

interpretation sync_call: desc_body vt "\<lambda>desc. host_call (f desc)" for vt f
  by unfold_locales (rule host_call_ok)

lemma two_descs_ok:
  assumes inv: "fd_inv E S F nap"
  shows "outcome_ok vt E S F nap (with_two_descs vt nap c m f)"
  using GetDesc_ok [OF inv, of c]
proof (elim disjE exE conjE)
  fix cv nap1
  assume g: "NaClAppGetDesc nap c = Inr (Some cv, nap1)" "fd_inv (E(cv := E cv + 1)) S F nap1" "confined nap nap1"
  let ?E = "E(cv := E cv + 1)"
  show ?thesis using GetDesc_ok [OF g(2), of m]
  proof (elim disjE exE conjE)
    assume n: "NaClAppGetDesc nap1 m = Inr (None, nap1)"
    obtain nap3 where u: "NaClRefCountUnref vt cv nap1 = Inr nap3" "fd_inv E S F nap3" "confined nap1 nap3"
      using Unref_ok [OF g(2)] by blast
    have c: "confined nap nap3" using confined_trans [OF g(3) u(3)] .
    then show ?thesis using u g n confined_faults [OF c] by (simp add: with_two_descs_def)
  next
    fix mu nap2
    assume m: "NaClAppGetDesc nap1 m = Inr (Some mu, nap2)" "fd_inv (?E(mu := ?E mu + 1)) S F nap2" "confined nap1 nap2"
    obtain r h where f: "f cv mu (host nap2) = (r, h)" by fastforce
    let ?F = "E(mu := E mu + 1)"
    have sw: "?E(mu := ?E mu + 1) = ?F(cv := ?F cv + 1)" by (auto simp: fun_eq_iff)
    have "fd_inv (?F(cv := ?F cv + 1)) S F (nap2\<lparr>host := h\<rparr>)" using m(2) unfolding sw by simp
    from Unref_ok [OF this] obtain nap4 where u: "NaClRefCountUnref vt cv (nap2\<lparr>host := h\<rparr>) = Inr nap4"
      "fd_inv ?F S F nap4" "confined (nap2\<lparr>host := h\<rparr>) nap4" by blast
    obtain nap5 where v: "NaClRefCountUnref vt mu nap4 = Inr nap5" "fd_inv E S F nap5" "confined nap4 nap5"
      using Unref_ok [OF u(2)] by blast
    have "with_two_descs vt nap c m f = Inr (r, nap5)"
      using g(1) m(1) f u(1) v(1) by (simp add: with_two_descs_def host_call_def)
    moreover have "confined nap (nap2\<lparr>host := h\<rparr>)" using confined_trans [OF g(3) m(3)] by simp
    then have "confined nap nap5" using confined_trans [OF _ confined_trans [OF u(3) v(3)]] by simp
    ultimately show ?thesis using v(2) confined_faults [of nap nap5] by simp
  qed (simp_all add: g(1) with_two_descs_def)
qed (simp_all add: with_two_descs_def inv)

lemma create_ok:
  assumes inv: "fd_inv E S F nap" and fresh: "\<And>n h. ctor (host nap) = Some (n, h) \<Longrightarrow> nd_refs nap n = None"
  shows "outcome_ok vt E S F nap (create_desc ctor vt env nap)"
proof (cases "ctor (host nap)")
  case None
  then show ?thesis using inv by (simp add: create_desc_def)
next
  case (Some p)
  obtain n h where p: "ctor (host nap) = Some (n, h)" using Some by (cases p) simp
  let ?nap = "nap\<lparr>nd_refs := (nd_refs nap)(n \<mapsto> 1), host := h\<rparr>"
  let ?f = "\<lambda>k. holds_in (DynArrayGet (desc_tbl nap)) k + E k"
  have R: "refs_are (nd_refs nap) ?f" using inv by (simp add: fd_inv_def)
  have z: "?f n = 0" using R fresh [OF p] unfolding refs_are_def by (auto dest: spec [of _ n])
  have "refs_are ((nd_refs nap)(n \<mapsto> 1)) (?f(n := 1))" by (rule refs_update [OF R]) simp
  moreover have "?f(n := 1) = (\<lambda>k. holds_in (DynArrayGet (desc_tbl nap)) k + (E(n := E n + 1)) k)"
    using z by (auto simp: fun_eq_iff)
  ultimately have i: "fd_inv (E(n := E n + 1)) S F ?nap" using inv by (simp add: fd_inv_def space_ok_def)
  have c: "confined nap ?nap" by (simp add: confined_def)
  have "access_faults b = access_faults nap" if "confined ?nap b" for b using confined_faults [OF that] by simp
  then show ?thesis using SetDescAvail_ok [OF i, of env vt] p confined_trans [OF c]
    by (auto simp: create_desc_def)
qed

end
