(* ===== verification/FutexList.thy ===== *)
theory FutexList
  imports FdCalls
begin

text \<open>
  The futexes of the hosts that have none (\<open>sys_futex.c\<close>, the branch that is not Linux): the threads
  that wait are linked, through a node inside each thread, into a circular list with two pointers per
  node and a sentinel. The pointers are modelled as pointers, and the list of threads they stand
  for is the abstraction. A thread gives up the lock only while it waits, so the part of a wait before that, the part after
  it and a wake are the steps of the system.
\<close>

section \<open>The list\<close>

text \<open>\<open>nap->futex_wait_list_head\<close>, or \<open>natp->futex_wait_list_node\<close> of the thread with this number.\<close>

datatype list_node = Head | Thread_node nat

text \<open>
  The nodes, the addresses the threads wait for, and the condition variables in the order in which
  they have been signalled.
\<close>

record futex_list =
  fx_next :: "list_node \<Rightarrow> list_node option"
  fx_prev :: "list_node \<Rightarrow> list_node option"
  futex_wait_addr :: "nat \<Rightarrow> u32"
  signalled :: "nat list"

definition deref_node :: "list_node option \<Rightarrow> list_node exec" where
  "deref_node p = (case p of None \<Rightarrow> Inl Null_deref | Some n \<Rightarrow> Inr n)"

definition set_next :: "list_node \<Rightarrow> list_node option \<Rightarrow> futex_list \<Rightarrow> futex_list" where
  "set_next n p fx = fx\<lparr>fx_next := (fx_next fx)(n := p)\<rparr>"

definition set_prev :: "list_node \<Rightarrow> list_node option \<Rightarrow> futex_list \<Rightarrow> futex_list" where
  "set_prev n p fx = fx\<lparr>fx_prev := (fx_prev fx)(n := p)\<rparr>"

definition futex_list_init :: "futex_list \<Rightarrow> futex_list" where
  "futex_list_init fx = set_prev Head (Some Head) (set_next Head (Some Head) fx)"

definition ListAddNodeAtEnd :: "list_node \<Rightarrow> list_node \<Rightarrow> futex_list \<Rightarrow> futex_list exec" where
  "ListAddNodeAtEnd new_node head fx =
     ebind (deref_node (fx_prev fx head)) (\<lambda>last.
       let fx1 = set_next last (Some new_node) fx;
           fx2 = set_prev new_node (fx_prev fx1 head) fx1;
           fx3 = set_next new_node (Some head) fx2
       in Inr (set_prev head (Some new_node) fx3))"

definition ListRemoveNode :: "list_node \<Rightarrow> futex_list \<Rightarrow> futex_list exec" where
  "ListRemoveNode node fx =
     ebind (deref_node (fx_next fx node)) (\<lambda>nxt.
       let fx1 = set_prev nxt (fx_prev fx node) fx
       in ebind (deref_node (fx_prev fx1 node)) (\<lambda>prv.
            Inr (set_next prv (fx_next fx1 node) fx1)))"

text \<open>The sentinel is not inside a thread.\<close>

definition GetNaClAppThreadFromListNode :: "list_node \<Rightarrow> nat exec" where
  "GetNaClAppThreadFromListNode node = (case node of Head \<Rightarrow> Inl Out_of_bounds | Thread_node t \<Rightarrow> Inr t)"

section \<open>Waiting\<close>

text \<open>\<open>NaClSyncStatus\<close> and its translation (\<open>nacl_sync.h\<close>, \<open>nacl_host_desc_common.c\<close>).\<close>

datatype sync_status =
    NACL_SYNC_OK | NACL_SYNC_INTERNAL_ERROR | NACL_SYNC_BUSY | NACL_SYNC_MUTEX_INVALID | NACL_SYNC_MUTEX_DEADLOCK
  | NACL_SYNC_MUTEX_PERMISSION | NACL_SYNC_MUTEX_INTERRUPTED | NACL_SYNC_CONDVAR_TIMEDOUT | NACL_SYNC_CONDVAR_INTR
  | NACL_SYNC_SEM_INTERRUPTED | NACL_SYNC_SEM_RANGE_ERROR

definition NACL_ABI_ETIMEDOUT :: int where "NACL_ABI_ETIMEDOUT = 110"
definition NACL_ABI_EWOULDBLOCK :: int where "NACL_ABI_EWOULDBLOCK = 11"

fun NaClXlateNaClSyncStatus :: "sync_status \<Rightarrow> int exec" where
  "NaClXlateNaClSyncStatus NACL_SYNC_OK = Inr 0"
| "NaClXlateNaClSyncStatus NACL_SYNC_INTERNAL_ERROR = Inl Log_fatal"
| "NaClXlateNaClSyncStatus NACL_SYNC_BUSY = Inr 16"
| "NaClXlateNaClSyncStatus NACL_SYNC_MUTEX_INVALID = Inr 22"
| "NaClXlateNaClSyncStatus NACL_SYNC_MUTEX_DEADLOCK = Inr 35"
| "NaClXlateNaClSyncStatus NACL_SYNC_MUTEX_PERMISSION = Inr 1"
| "NaClXlateNaClSyncStatus NACL_SYNC_MUTEX_INTERRUPTED = Inr 4"
| "NaClXlateNaClSyncStatus NACL_SYNC_CONDVAR_TIMEDOUT = Inr NACL_ABI_ETIMEDOUT"
| "NaClXlateNaClSyncStatus NACL_SYNC_CONDVAR_INTR = Inr 4"
| "NaClXlateNaClSyncStatus NACL_SYNC_SEM_INTERRUPTED = Inr 4"
| "NaClXlateNaClSyncStatus NACL_SYNC_SEM_RANGE_ERROR = Inr 34"

text \<open>
  \<open>NaClSysFutexWaitAbs\<close> up to the wait on the condition variable, with the result when it does not come
  to that; and from the end of the wait.
\<close>

definition FutexWaitAbs_enter ::
    "('h, 'z) fd_app_scheme \<Rightarrow> nat \<Rightarrow> u32 \<Rightarrow> u32 \<Rightarrow> u32 \<Rightarrow> futex_list \<Rightarrow> (int option \<times> futex_list) exec" where
  "FutexWaitAbs_enter nap natp addr value abstime_ptr fx =
     ebind (if abstime_ptr \<noteq> 0 then NaClCopyInFromUser nap (ucast abstime_ptr) 16 else Inr (Some [])) (\<lambda>abstime.
       if abstime = None then Inr (Some (- NACL_ABI_EFAULT), fx)
       else ebind (NaClCopyInFromUser nap (ucast addr) 4) (\<lambda>copied.
              case copied of
                None \<Rightarrow> Inr (Some (- NACL_ABI_EFAULT), fx)
              | Some bs \<Rightarrow>
                  if le_word bs \<noteq> value then Inr (Some (- NACL_ABI_EWOULDBLOCK), fx)
                  else ebind (ListAddNodeAtEnd (Thread_node natp) Head
                                (fx\<lparr>futex_wait_addr := (futex_wait_addr fx)(natp := addr)\<rparr>))
                         (\<lambda>fx1. Inr (None, fx1))))"

definition FutexWaitAbs_resume :: "nat \<Rightarrow> sync_status \<Rightarrow> futex_list \<Rightarrow> (int \<times> futex_list) exec" where
  "FutexWaitAbs_resume natp status fx =
     ebind (NaClXlateNaClSyncStatus status) (\<lambda>e.
     ebind (if fx_next fx (Thread_node natp) = None then Inr (0, fx)
            else ebind (ListRemoveNode (Thread_node natp) fx) (\<lambda>fx1. Inr (- e, fx1))) (\<lambda>(result, fx2).
       Inr (result, (set_prev (Thread_node natp) None (set_next (Thread_node natp) None fx2))
                    \<lparr>futex_wait_addr := (futex_wait_addr fx2)(natp := 0)\<rparr>)))"

section \<open>Waking\<close>

text \<open>The loop follows the pointers, so \<open>None\<close> stands for a loop that does not end.\<close>

definition wake_thread :: "list_node \<Rightarrow> nat \<Rightarrow> futex_list \<Rightarrow> futex_list exec" where
  "wake_thread node waiting_thread fx =
     ebind (ListRemoveNode node fx) (\<lambda>fx1.
       let fx2 = set_prev node None (set_next node None fx1)
       in Inr (fx2\<lparr>futex_wait_addr := (futex_wait_addr fx2)(waiting_thread := 0),
                   signalled := signalled fx2 @ [waiting_thread]\<rparr>))"

partial_function (option) wake_loop ::
    "u32 \<Rightarrow> u32 \<Rightarrow> u32 \<Rightarrow> list_node option \<Rightarrow> futex_list \<Rightarrow> (u32 \<times> futex_list) exec option" where
  "wake_loop addr nwake woken_count node fx =
     (if nwake > 0 \<and> node \<noteq> Some Head then
        (case ebind (deref_node node) (\<lambda>e. ebind (GetNaClAppThreadFromListNode e) (\<lambda>t. Inr (e, t))) of
           Inl f \<Rightarrow> Some (Inl f)
         | Inr (e, t) \<Rightarrow>
             let nxt = fx_next fx e
             in if futex_wait_addr fx t = addr then
                  (case wake_thread e t fx of
                     Inl f \<Rightarrow> Some (Inl f)
                   | Inr fx1 \<Rightarrow> wake_loop addr (nwake - 1) (woken_count + 1) nxt fx1)
                else wake_loop addr nwake woken_count nxt fx)
      else Some (Inr (woken_count, fx)))"

declare wake_loop.simps [code]

definition FutexWake :: "u32 \<Rightarrow> u32 \<Rightarrow> futex_list \<Rightarrow> (int \<times> futex_list) exec option" where
  "FutexWake addr nwake fx =
     map_option (\<lambda>res. ebind res (\<lambda>(woken_count, fx1). Inr (sint woken_count, fx1)))
       (wake_loop addr nwake 0 (fx_next fx Head) fx)"

text \<open>
  The circular list stands for the queue of the threads that wait, in the order in which they came.
  Each operation is shown to act on the queue.
\<close>

section \<open>The queue behind the pointers\<close>

text \<open>From \<open>p\<close> through the nodes \<open>xs\<close> to \<open>q\<close>, with the pointers back.\<close>

fun linked :: "futex_list \<Rightarrow> list_node \<Rightarrow> list_node list \<Rightarrow> list_node \<Rightarrow> bool" where
  "linked fx p [] q \<longleftrightarrow> fx_next fx p = Some q \<and> fx_prev fx q = Some p"
| "linked fx p (x # xs) q \<longleftrightarrow> fx_next fx p = Some x \<and> fx_prev fx x = Some p \<and> linked fx x xs q"

definition queue_is :: "futex_list \<Rightarrow> nat list \<Rightarrow> bool" where
  "queue_is fx ts \<longleftrightarrow> linked fx Head (map Thread_node ts) Head \<and> distinct ts
     \<and> (\<forall>t. t \<notin> set ts \<longrightarrow> fx_next fx (Thread_node t) = None)"

lemma linked_append: "linked fx p (xs @ x # ys) q \<longleftrightarrow> linked fx p xs x \<and> linked fx x ys q"
  by (induction xs arbitrary: p) auto

lemma linked_frame:
  assumes "\<forall>n \<in> set (p # xs). fx_next fx' n = fx_next fx n" "\<forall>n \<in> set (xs @ [q]). fx_prev fx' n = fx_prev fx n"
  shows "linked fx' p xs q = linked fx p xs q"
  using assms by (induction xs arbitrary: p) auto

lemma linked_first: "linked fx p xs q \<Longrightarrow> fx_next fx p = Some (hd (xs @ [q]))"
  by (cases xs) auto

lemma linked_last: "linked fx p xs q \<Longrightarrow> fx_prev fx q = Some (last (p # xs))"
  by (induction xs arbitrary: p) auto

text \<open>The pointers around one node when it is taken out.\<close>

lemma linked_out:
  assumes "linked fx p (xs @ x # ys) q" "distinct (xs @ x # ys)" "p \<notin> set (xs @ x # ys)" "q \<notin> set (xs @ x # ys)"
    and "l = last (p # xs)" "n = hd (ys @ [q])"
    and "\<forall>m. fx_next fx' m = (if m = l then Some n else fx_next fx m)"
    and "\<forall>m. fx_prev fx' m = (if m = n then Some l else fx_prev fx m)"
  shows "linked fx' p (xs @ ys) q"
  using assms
proof (induction xs arbitrary: p)
  case Nil
  show ?case
  proof (cases ys)
    case (Cons y zs)
    have "linked fx' y zs q = linked fx y zs q" by (rule linked_frame) (use Nil.prems Cons in auto)
    then show ?thesis using Nil.prems Cons by auto
  qed (use Nil.prems in auto)
next
  case (Cons a xs)
  have "linked fx' a (xs @ ys) q" by (rule Cons.IH) (use Cons.prems in auto)
  moreover have "a \<noteq> n" using Cons.prems by (cases ys) auto
  moreover have "p \<noteq> l" using Cons.prems by (auto split: if_splits)
  ultimately show ?case using Cons.prems by auto
qed

section \<open>The operations\<close>

lemma set_simps [simp]:
  "fx_next (set_next n p fx) = (fx_next fx)(n := p)" "fx_prev (set_next n p fx) = fx_prev fx"
  "fx_next (set_prev n p fx) = fx_next fx" "fx_prev (set_prev n p fx) = (fx_prev fx)(n := p)"
  "futex_wait_addr (set_next n p fx) = futex_wait_addr fx" "futex_wait_addr (set_prev n p fx) = futex_wait_addr fx"
  "signalled (set_next n p fx) = signalled fx" "signalled (set_prev n p fx) = signalled fx"
  by (simp_all add: set_next_def set_prev_def)

lemma deref_simps [simp]: "deref_node None = Inl Null_deref" "deref_node (Some n) = Inr n"
  by (simp_all add: deref_node_def)

lemma init_queue:
  assumes "\<forall>t. fx_next fx (Thread_node t) = None"
  shows "queue_is (futex_list_init fx) []"
  using assms by (simp add: queue_is_def futex_list_init_def)

lemma enqueue_ok:
  assumes q: "queue_is fx ts" and t: "t \<notin> set ts"
  shows "\<exists>fx'. ListAddNodeAtEnd (Thread_node t) Head fx = Inr fx' \<and> queue_is fx' (ts @ [t])
    \<and> futex_wait_addr fx' = futex_wait_addr fx \<and> signalled fx' = signalled fx"
proof -
  let ?ns = "map Thread_node ts" and ?x = "Thread_node t"
  let ?l = "last (Head # ?ns)"
  have lk: "linked fx Head ?ns Head" and d: "distinct ts" using q by (simp_all add: queue_is_def)
  let ?fx = "set_prev Head (Some ?x) (set_next ?x (Some Head) (set_prev ?x (Some ?l) (set_next ?l (Some ?x) fx)))"
  have l: "fx_prev fx Head = Some ?l" using linked_last [OF lk] .
  then have run: "ListAddNodeAtEnd ?x Head fx = Inr ?fx" by (simp add: ListAddNodeAtEnd_def Let_def)
  have xl: "?x \<noteq> ?l" using t by (cases ts rule: rev_cases) auto
  have "linked ?fx Head ?ns ?x"
  proof (cases ts rule: rev_cases)
    case Nil
    then show ?thesis using xl by simp
  next
    case (snoc us u)
    let ?us = "map Thread_node us"
    have a: "linked fx Head ?us (Thread_node u)" using lk snoc by (simp add: linked_append)
    have "linked ?fx Head ?us (Thread_node u) = linked fx Head ?us (Thread_node u)"
      by (rule linked_frame) (use snoc d t in auto)
    then show ?thesis using a snoc xl t by (simp add: linked_append)
  qed
  then have "linked ?fx Head (?ns @ [?x]) Head" by (simp add: linked_append)
  then have "queue_is ?fx (ts @ [t])" using q t by (auto simp: queue_is_def last_map)
  then show ?thesis using run by (simp del: fun_upd_apply)
qed

lemma remove_ok:
  assumes q: "queue_is fx (ts @ t # us)"
  shows "\<exists>fx1. ListRemoveNode (Thread_node t) fx = Inr fx1
    \<and> queue_is (set_prev (Thread_node t) None (set_next (Thread_node t) None fx1)) (ts @ us)
    \<and> futex_wait_addr fx1 = futex_wait_addr fx \<and> signalled fx1 = signalled fx"
proof -
  let ?n = "map Thread_node"
  let ?x = "Thread_node t" and ?l = "last (Head # ?n ts)" and ?r = "hd (?n us @ [Head])"
  have lk: "linked fx Head (?n ts @ ?x # ?n us) Head" and d: "distinct (ts @ t # us)"
    using q by (simp_all add: queue_is_def)
  then have p: "fx_next fx ?x = Some ?r" "fx_prev fx ?x = Some ?l"
    using linked_first linked_last by (auto simp: linked_append)
  have xl: "?x \<noteq> ?l" using d by (cases ts rule: rev_cases) auto
  have xr: "?x \<noteq> ?r" using d by (cases us) auto
  let ?fx1 = "set_next ?l (Some ?r) (set_prev ?r (Some ?l) fx)"
  have run: "ListRemoveNode ?x fx = Inr ?fx1" using p xr by (simp add: ListRemoveNode_def Let_def)
  let ?fx = "set_prev ?x None (set_next ?x None ?fx1)"
  have l1: "linked ?fx1 Head (?n ts @ ?n us) Head"
    by (rule linked_out [OF lk _ _ _ refl refl]) (use d in \<open>auto simp: distinct_map inj_on_def\<close>)
  have "linked ?fx Head (?n ts @ ?n us) Head = linked ?fx1 Head (?n ts @ ?n us) Head"
    by (rule linked_frame) (use d in auto)
  moreover have "fx_next ?fx (Thread_node k) = None" if "k \<notin> set (ts @ us)" for k
  proof (cases "k = t")
    case False
    then have "fx_next fx (Thread_node k) = None" using q that by (simp add: queue_is_def)
    moreover have "Thread_node k \<noteq> ?l" using that by (cases ts rule: rev_cases) auto
    ultimately show ?thesis using False by simp
  qed simp
  ultimately have "queue_is ?fx (ts @ us)" using l1 d by (simp add: queue_is_def)
  then show ?thesis using run by (intro exI [of _ ?fx1]) simp
qed

section \<open>Waking\<close>

text \<open>The first \<open>n\<close> threads of the queue that wait for an address, and the others.\<close>

definition waiting_for :: "(nat \<Rightarrow> u32) \<Rightarrow> u32 \<Rightarrow> nat list \<Rightarrow> nat list" where
  "waiting_for A addr ts = filter (\<lambda>t. A t = addr) ts"

definition woken_by :: "(nat \<Rightarrow> u32) \<Rightarrow> u32 \<Rightarrow> nat \<Rightarrow> nat list \<Rightarrow> nat list" where
  "woken_by A addr n ts = take n (waiting_for A addr ts)"

definition left_by :: "(nat \<Rightarrow> u32) \<Rightarrow> u32 \<Rightarrow> nat \<Rightarrow> nat list \<Rightarrow> nat list" where
  "left_by A addr n ts = filter (\<lambda>t. t \<notin> set (woken_by A addr n ts)) ts"

lemma woken_Cons: "woken_by A addr n (t # ts) =
    (if n = 0 then [] else if A t = addr then t # woken_by A addr (n - 1) ts else woken_by A addr n ts)"
  by (cases n) (simp_all add: woken_by_def waiting_for_def)

lemma woken_set: "set (woken_by A addr n ts) \<subseteq> {t \<in> set ts. A t = addr}"
  unfolding woken_by_def waiting_for_def by (metis set_filter set_take_subset)

lemma woken_length: "length (woken_by A addr n ts) \<le> length ts"
proof -
  have "length (woken_by A addr n ts) \<le> length (waiting_for A addr ts)" by (simp add: woken_by_def)
  also have "\<dots> \<le> length ts" by (simp add: waiting_for_def)
  finally show ?thesis .
qed

lemma left_Cons:
  assumes "t \<notin> set ts" "0 < n"
  shows "left_by A addr n (t # ts) = (if A t = addr then left_by A addr (n - 1) ts else t # left_by A addr n ts)"
proof -
  have "t \<notin> set (woken_by A addr m ts)" for m using woken_set [of A addr m ts] assms(1) by auto
  moreover have "filter (\<lambda>u. u \<noteq> t \<and> P u) ts = filter P ts" for P using assms(1) by (intro filter_cong) auto
  ultimately show ?thesis using assms(2) by (simp add: left_by_def woken_Cons)
qed

lemma left_none [simp]: "left_by A addr 0 ts = ts" "left_by A addr n [] = []" "woken_by A addr 0 ts = []" "woken_by A addr n [] = []"
  by (simp_all add: left_by_def woken_by_def waiting_for_def)

lemma wake_thread_ok:
  assumes q: "queue_is fx (ts @ t # us)"
  shows "\<exists>fx1. wake_thread (Thread_node t) t fx = Inr fx1 \<and> queue_is fx1 (ts @ us)
    \<and> futex_wait_addr fx1 = (futex_wait_addr fx)(t := 0) \<and> signalled fx1 = signalled fx @ [t]"
proof -
  obtain fx1 where r: "ListRemoveNode (Thread_node t) fx = Inr fx1"
    "queue_is (set_prev (Thread_node t) None (set_next (Thread_node t) None fx1)) (ts @ us)"
    "futex_wait_addr fx1 = futex_wait_addr fx" "signalled fx1 = signalled fx" using remove_ok [OF q] by blast
  have "queue_is (fx\<lparr>futex_wait_addr := A, signalled := S\<rparr>) ks = queue_is fx ks" for fx A S ks
  proof -
    have "linked (fx\<lparr>futex_wait_addr := A, signalled := S\<rparr>) p xs q = linked fx p xs q" for p xs q
      by (rule linked_frame) auto
    then show ?thesis by (simp add: queue_is_def)
  qed
  then show ?thesis using r by (simp add: wake_thread_def Let_def)
qed

lemma wake_loop_ok:
  assumes "queue_is fx (ts @ us)" "node = hd (map Thread_node us @ [Head])"
  shows "\<exists>fx1. wake_loop addr nwake cnt (Some node) fx
      = Some (Inr (cnt + word_of_nat (length (woken_by (futex_wait_addr fx) addr (unat nwake) us)), fx1))
    \<and> queue_is fx1 (ts @ left_by (futex_wait_addr fx) addr (unat nwake) us)
    \<and> signalled fx1 = signalled fx @ woken_by (futex_wait_addr fx) addr (unat nwake) us
    \<and> futex_wait_addr fx1 = (\<lambda>t. if t \<in> set (woken_by (futex_wait_addr fx) addr (unat nwake) us) then 0 else futex_wait_addr fx t)"
  using assms
proof (induction us arbitrary: ts node fx nwake cnt)
  case Nil
  then show ?case by (simp add: wake_loop.simps)
next
  case (Cons t us)
  let ?A = "futex_wait_addr fx"
  have d: "t \<notin> set us" using Cons.prems(1) by (simp add: queue_is_def)
  have lk: "linked fx (Thread_node t) (map Thread_node us) Head"
    using Cons.prems(1) by (simp add: queue_is_def linked_append)
  have nx: "fx_next fx (Thread_node t) = Some (hd (map Thread_node us @ [Head]))" using linked_first [OF lk] .
  show ?case
  proof (cases "nwake = 0")
    case True
    then show ?thesis using Cons.prems by (simp add: wake_loop.simps)
  next
    case False
    then have n: "unat nwake \<noteq> 0" "unat (nwake - 1) = unat nwake - 1" "0 < nwake"
      by (simp_all add: unat_gt_0 word_gt_0 unat_minus_one)
    show ?thesis
    proof (cases "?A t = addr")
      case True
      obtain fx1 where w: "wake_thread (Thread_node t) t fx = Inr fx1" "queue_is fx1 (ts @ us)"
        "futex_wait_addr fx1 = ?A(t := 0)" "signalled fx1 = signalled fx @ [t]"
        using wake_thread_ok [OF Cons.prems(1)] by blast
      have wb: "woken_by (?A(t := 0)) addr m us = woken_by ?A addr m us" for m
        unfolding woken_by_def waiting_for_def using d by (intro arg_cong [where f = "take m"] filter_cong) auto
      then have lb: "left_by (?A(t := 0)) addr m us = left_by ?A addr m us" for m by (simp add: left_by_def)
      note ih = Cons.IH [OF w(2) refl, of "nwake - 1" "cnt + 1", unfolded w(3) wb lb n(2)]
      then obtain fx2 where fx2: "wake_loop addr (nwake - 1) (cnt + 1) (Some (hd (map Thread_node us @ [Head]))) fx1
          = Some (Inr (cnt + 1 + word_of_nat (length (woken_by ?A addr (unat nwake - 1) us)), fx2))"
        "queue_is fx2 (ts @ left_by ?A addr (unat nwake - 1) us)"
        "signalled fx2 = signalled fx1 @ woken_by ?A addr (unat nwake - 1) us"
        "futex_wait_addr fx2 = (\<lambda>u. if u \<in> set (woken_by ?A addr (unat nwake - 1) us) then 0 else (?A(t := 0)) u)" by blast
      have "wake_loop addr nwake cnt (Some node) fx = wake_loop addr (nwake - 1) (cnt + 1) (Some (hd (map Thread_node us @ [Head]))) fx1"
        using True n w(1) nx Cons.prems(2) False by (subst wake_loop.simps) (simp add: GetNaClAppThreadFromListNode_def)
      moreover have "woken_by ?A addr (unat nwake) (t # us) = t # woken_by ?A addr (unat nwake - 1) us"
        "left_by ?A addr (unat nwake) (t # us) = left_by ?A addr (unat nwake - 1) us"
        using True n d by (simp_all add: woken_Cons left_Cons)
      ultimately show ?thesis using fx2 w(4) by (intro exI [of _ fx2]) auto
    next
      case no: False
      from Cons.IH [of fx "ts @ [t]", OF _ refl, of nwake cnt] Cons.prems(1) show ?thesis
        using no n nx Cons.prems(2) False d
        by (subst wake_loop.simps) (auto simp: GetNaClAppThreadFromListNode_def woken_Cons left_Cons)
    qed
  qed
qed

end
