(* ===== verification/Paths.thy ===== *)
theory Paths
  imports FdTable
begin

text \<open>
  Path names of untrusted code (\<open>filename_util.cc\<close>, \<open>sel_ldr_filename.cc\<close>): the canonical form of an
  absolute path, and the test whether a path lies below the mounted root directory. A path is the
  list of its bytes, without the final NUL.
\<close>

type_synonym path = "u8 list"

definition SLASH :: u8 where "SLASH = 47"
definition dot_name :: path where "dot_name = [46]"
definition dotdot_name :: path where "dotdot_name = [46, 46]"

section \<open>Canonical paths\<close>

definition AppendPartsToPath :: "path list \<Rightarrow> path \<Rightarrow> path" where
  "AppendPartsToPath parts path = path @ concat (map (\<lambda>p. SLASH # p) parts)"

lemma canon_shorter:
  assumes "pos \<noteq> []" "hd pos \<noteq> SLASH"
  shows "length (dropWhile (\<lambda>c. c = SLASH) (dropWhile (\<lambda>c. c \<noteq> SLASH) pos)) < length pos"
proof -
  have "length (dropWhile (\<lambda>c. c = SLASH) xs) \<le> length xs" for xs by (rule length_dropWhile_le)
  moreover have "length (dropWhile (\<lambda>c. c \<noteq> SLASH) pos) < length pos"
    using assms by (cases pos) (simp_all add: le_imp_less_Suc length_dropWhile_le)
  ultimately show ?thesis by (meson le_less_trans)
qed

text \<open>
  The loop over the components from \<open>pos\<close>: the components so far, whether the path read so far ends with a
  slash, and the directories that must exist.
\<close>

function canon_loop :: "path \<Rightarrow> path list \<Rightarrow> bool \<Rightarrow> path list \<Rightarrow> (path list \<times> bool \<times> path list) exec" where
  "canon_loop pos parts has_trailing_slash subpaths =
     (if pos = [] then Inr (parts, has_trailing_slash, subpaths)
      else if hd pos = SLASH then Inl Check_failed
      else let part = takeWhile (\<lambda>c. c \<noteq> SLASH) pos;
               rest = dropWhile (\<lambda>c. c \<noteq> SLASH) pos;
               pos1 = dropWhile (\<lambda>c. c = SLASH) rest;
               trailing = (rest \<noteq> [])
           in if part = dotdot_name then
                (if parts \<noteq> [] then
                   canon_loop pos1 (butlast parts) trailing (subpaths @ [AppendPartsToPath parts [] @ [SLASH]])
                 else canon_loop pos1 parts trailing subpaths)
              else if part \<noteq> dot_name then canon_loop pos1 (parts @ [part]) trailing subpaths
              else canon_loop pos1 parts True subpaths)"
  by pat_completeness auto

termination
  by (relation "measure (\<lambda>(pos, _). length pos)") (simp_all add: canon_shorter)

declare canon_loop.simps [simp del]

lemma canon_loop_end [simp]: "canon_loop [] parts t subs = Inr (parts, t, subs)"
  by (subst canon_loop.simps) simp

text \<open>The result is the canonical path and the directories that must exist for it to be valid.\<close>

definition CanonicalizeAbsolutePath :: "path \<Rightarrow> (path \<times> path list) exec" where
  "CanonicalizeAbsolutePath abs_path =
     ebind (echeck (abs_path \<noteq> [] \<and> hd abs_path = SLASH) Check_failed) (\<lambda>_.
     ebind (canon_loop (dropWhile (\<lambda>c. c = SLASH) abs_path) [] False []) (\<lambda>(parts, has_trailing_slash, subpaths).
       Inr (if parts \<noteq> [] then AppendPartsToPath parts [] @ (if has_trailing_slash then [SLASH] else []) else [SLASH],
            subpaths)))"

section \<open>The root directory\<close>

text \<open>\<open>NaClRootDirLen\<close> is the length of the root. A path has no byte past its end but the NUL.\<close>

definition PathContainsRootPrefix :: "path \<Rightarrow> path \<Rightarrow> bool" where
  "PathContainsRootPrefix root path =
     (if length path < length root then False
      else if take (length root) path \<noteq> root then False
      else if length path > length root \<and> path ! length root \<noteq> SLASH then False
      else True)"

definition NACL_CONFIG_PATH_MAX :: nat where "NACL_CONFIG_PATH_MAX = 1024"

text \<open>The result of \<open>realpath\<close> is a parameter; the result is the return value and \<open>NaClRootDir\<close>.\<close>

definition NaClMountRootDir :: "path option \<Rightarrow> bool \<times> path option" where
  "NaClMountRootDir real =
     (case real of
        None \<Rightarrow> (False, None)
      | Some root \<Rightarrow>
          if length root \<le> 1 then (False, None)
          else if length root \<ge> NACL_CONFIG_PATH_MAX then (False, None)
          else (True, Some root))"

section \<open>The semantics of a path\<close>

text \<open>The components between slashes, and what they mean one after the other.\<close>

definition component :: "path \<Rightarrow> bool" where
  "component p \<longleftrightarrow> p \<noteq> [] \<and> SLASH \<notin> set p \<and> p \<noteq> dot_name \<and> p \<noteq> dotdot_name"

fun split_path :: "path \<Rightarrow> path list" where
  "split_path [] = [[]]"
| "split_path (c # cs) =
     (if c = SLASH then [] # split_path cs
      else case split_path cs of [] \<Rightarrow> [[c]] | p # ps \<Rightarrow> (c # p) # ps)"

definition walk :: "path list \<Rightarrow> path \<Rightarrow> path list" where
  "walk dir p = (if p = [] \<or> p = dot_name then dir else if p = dotdot_name then butlast dir else dir @ [p])"

definition meaning :: "path \<Rightarrow> path list" where
  "meaning p = foldl walk [] (split_path p)"

text \<open>A path below the root: its components follow the root, and none of them leads up.\<close>

definition below :: "path \<Rightarrow> path \<Rightarrow> bool" where
  "below root p \<longleftrightarrow> (\<exists>parts trailing. list_all component parts
     \<and> p = root @ AppendPartsToPath parts [] @ (if trailing then [SLASH] else []))"

lemma split_nonempty [simp]: "split_path p \<noteq> []"
  by (induction p) (auto split: list.splits)

lemma split_name:
  "SLASH \<notin> set a \<Longrightarrow> split_path (a @ b) = (a @ hd (split_path b)) # tl (split_path b)"
  by (induction a) (auto split: list.splits)

lemma split_slash: "split_path (a @ SLASH # b) = split_path a @ split_path b"
  by (induction a) (auto split: list.splits)

lemma split_single: "SLASH \<notin> set a \<Longrightarrow> split_path a = [a]"
  using split_name [of a "[]"] by simp

lemma walk_nil [simp]: "walk dir [] = dir"
  by (simp add: walk_def)

lemma walk_cases:
  "walk dir dotdot_name = butlast dir" "walk dir dot_name = dir"
  "p \<noteq> [] \<Longrightarrow> p \<noteq> dot_name \<Longrightarrow> p \<noteq> dotdot_name \<Longrightarrow> walk dir p = dir @ [p]"
  by (simp_all add: walk_def dot_name_def dotdot_name_def)

lemma drop_slashes: "foldl walk dir (split_path (dropWhile (\<lambda>c. c = SLASH) p)) = foldl walk dir (split_path p)"
  by (induction p) auto

lemma canon_loop_parts:
  assumes "canon_loop pos parts t subs = Inr (parts', t', subs')" "list_all component parts"
    "\<forall>s \<in> set subs. \<exists>ps. ps \<noteq> [] \<and> list_all component ps \<and> s = AppendPartsToPath ps [] @ [SLASH]"
  shows "list_all component parts' \<and> parts' = foldl walk parts (split_path pos)
    \<and> (\<forall>s \<in> set subs'. \<exists>ps. ps \<noteq> [] \<and> list_all component ps \<and> s = AppendPartsToPath ps [] @ [SLASH])"
  using assms
proof (induction pos parts t subs rule: canon_loop.induct)
  case (1 pos parts t subs)
  show ?case
  proof (cases "pos = []")
    case True
    then show ?thesis using "1.prems" by (simp add: canon_loop.simps)
  next
    case False
    let ?part = "takeWhile (\<lambda>c. c \<noteq> SLASH) pos" and ?rest = "dropWhile (\<lambda>c. c \<noteq> SLASH) pos"
    let ?pos1 = "dropWhile (\<lambda>c. c = SLASH) ?rest"
    have h: "hd pos \<noteq> SLASH" using "1.prems"(1) False by (auto simp: canon_loop.simps split: if_splits)
    have np: "?part \<noteq> []" "SLASH \<notin> set ?part" using False h by (cases pos, auto dest: set_takeWhileD)
    have "split_path pos = (?part @ hd (split_path ?rest)) # tl (split_path ?rest)"
      using split_name [OF np(2), of ?rest] by simp
    moreover have "hd (split_path ?rest) = []"
    proof (cases ?rest)
      case (Cons c cs)
      then have "c = SLASH" using hd_dropWhile [of "\<lambda>c. c \<noteq> SLASH" pos] by simp
      then show ?thesis unfolding Cons by simp
    qed (simp only: split_path.simps list.sel)
    ultimately have sp: "split_path pos = ?part # tl (split_path ?rest)" by simp
    have "foldl walk d (tl (split_path ?rest)) = foldl walk d (split_path ?rest)" for d
      using \<open>hd (split_path ?rest) = []\<close> by (cases "split_path ?rest") simp_all
    then have w: "foldl walk parts (split_path pos) = foldl walk (walk parts ?part) (split_path ?pos1)"
      by (simp add: sp drop_slashes)
    show ?thesis
    proof (cases "?part = dotdot_name")
      case True
      show ?thesis
      proof (cases "parts = []")
        case True
        then show ?thesis using "1.IH"(2) [OF False h refl refl refl refl \<open>?part = dotdot_name\<close>] "1.prems" False h w \<open>?part = dotdot_name\<close>
          by (subst (asm) (2) canon_loop.simps) (auto simp: Let_def walk_cases)
      next
        case ne: False
        have "list_all component (butlast parts)" using "1.prems"(2) by (auto simp: list_all_iff dest: in_set_butlastD)
        then show ?thesis using "1.IH"(1) [OF False h refl refl refl refl True ne] "1.prems" False h w True ne
          by (subst (asm) (2) canon_loop.simps) (auto simp: Let_def walk_cases)
      qed
    next
      case nd: False
      show ?thesis
      proof (cases "?part = dot_name")
        case True
        then show ?thesis using "1.IH"(4) [OF False h refl refl refl refl nd] "1.prems" False h w nd
          by (subst (asm) (2) canon_loop.simps) (auto simp: Let_def walk_cases)
      next
        case nn: False
        have "component ?part" using np nd nn by (simp add: component_def)
        then have "list_all component (parts @ [?part])" using "1.prems"(2) by simp
        then show ?thesis using "1.IH"(3) [OF False h refl refl refl refl nd nn] "1.prems" False h w nd nn np
          by (subst (asm) (2) canon_loop.simps) (auto simp: Let_def walk_cases)
      qed
    qed
  qed
qed

lemma canon_loop_total:
  assumes "pos = [] \<or> hd pos \<noteq> SLASH"
  shows "\<exists>r. canon_loop pos parts t subs = Inr r"
  using assms
proof (induction pos parts t subs rule: canon_loop.induct)
  case (1 pos parts t subs)
  let ?pos1 = "dropWhile (\<lambda>c. c = SLASH) (dropWhile (\<lambda>c. c \<noteq> SLASH) pos)"
  have next_ok: "?pos1 = [] \<or> hd ?pos1 \<noteq> SLASH" using hd_dropWhile by blast
  show ?case
  proof (cases "pos = []")
    case False
    then have h: "hd pos \<noteq> SLASH" using "1.prems" by blast
    note ih = "1.IH" [OF False h refl refl refl refl]
    show ?thesis
      by (subst canon_loop.simps) (use False h ih next_ok in \<open>simp add: Let_def\<close>)
  qed (simp add: canon_loop.simps)
qed

lemma meaning_absolute: "meaning (dropWhile (\<lambda>c. c = SLASH) p) = meaning p"
  by (simp add: meaning_def drop_slashes)

lemma canonical_form:
  assumes "abs_path \<noteq> []" "hd abs_path = SLASH"
  shows "\<exists>trailing subs. CanonicalizeAbsolutePath abs_path
      = Inr (if meaning abs_path \<noteq> [] then AppendPartsToPath (meaning abs_path) [] @ (if trailing then [SLASH] else []) else [SLASH], subs)
    \<and> list_all component (meaning abs_path)
    \<and> (\<forall>s \<in> set subs. \<exists>ps. ps \<noteq> [] \<and> list_all component ps \<and> s = AppendPartsToPath ps [] @ [SLASH])"
proof -
  let ?pos = "dropWhile (\<lambda>c. c = SLASH) abs_path"
  have "?pos = [] \<or> hd ?pos \<noteq> SLASH" using hd_dropWhile by blast
  from canon_loop_total [OF this] obtain parts t subs where r: "canon_loop ?pos [] False [] = Inr (parts, t, subs)"
    by (metis prod_cases3)
  from canon_loop_parts [OF r] have c: "list_all component parts" "parts = meaning ?pos"
    "\<forall>s \<in> set subs. \<exists>ps. ps \<noteq> [] \<and> list_all component ps \<and> s = AppendPartsToPath ps [] @ [SLASH]"
    by (auto simp: meaning_def)
  then have "parts = meaning abs_path" using meaning_absolute [of abs_path] by simp
  then show ?thesis using r assms c by (intro exI [of _ t] exI [of _ subs]) (simp add: CanonicalizeAbsolutePath_def)
qed

lemma scan_name:
  assumes "SLASH \<notin> set q"
  shows "takeWhile (\<lambda>c. c \<noteq> SLASH) (q @ ys) = q @ takeWhile (\<lambda>c. c \<noteq> SLASH) ys"
    "dropWhile (\<lambda>c. c \<noteq> SLASH) (q @ ys) = dropWhile (\<lambda>c. c \<noteq> SLASH) ys"
  using assms by (induction q) auto

lemma canon_name:
  assumes q: "component q" and ys: "ys = [] \<or> hd ys = SLASH"
  shows "canon_loop (q @ ys) parts t subs = canon_loop (dropWhile (\<lambda>c. c = SLASH) ys) (parts @ [q]) (ys \<noteq> []) subs"
proof -
  have n: "SLASH \<notin> set q" "q \<noteq> []" "q \<noteq> dot_name" "q \<noteq> dotdot_name" using q by (simp_all add: component_def)
  have "takeWhile (\<lambda>c. c \<noteq> SLASH) ys = []" "dropWhile (\<lambda>c. c \<noteq> SLASH) ys = ys" using ys by (cases ys, simp_all)+
  then have tk: "takeWhile (\<lambda>c. c \<noteq> SLASH) (q @ ys) = q" "dropWhile (\<lambda>c. c \<noteq> SLASH) (q @ ys) = ys"
    by (simp_all only: scan_name [OF n(1)] append_Nil2)
  have "hd (q @ ys) \<noteq> SLASH" "q @ ys \<noteq> []" using n(1,2) by (cases q, auto)+
  then show ?thesis by (simp add: canon_loop.simps [of "q @ ys" parts t subs] tk Let_def n del: append_is_Nil_conv)
qed

text \<open>The loop on a path that is canonical already.\<close>

lemma append_parts_simps [simp]:
  "AppendPartsToPath [] path = path" "AppendPartsToPath (p # ps) path = AppendPartsToPath ps (path @ SLASH # p)"
  "AppendPartsToPath ps (a @ b) = a @ AppendPartsToPath ps b"
  by (simp_all add: AppendPartsToPath_def)

lemma canon_loop_canonical:
  assumes "list_all component (q # qs)" "tr = (if trailing then [SLASH] else [])"
  shows "canon_loop (q @ AppendPartsToPath qs [] @ tr) parts t subs = Inr (parts @ q # qs, trailing, subs)"
  using assms
proof (induction qs arbitrary: q parts t)
  case Nil
  then show ?case using canon_name [of q tr parts t subs] by (simp split: if_splits)
next
  case (Cons r rs)
  let ?tail = "r @ AppendPartsToPath rs [] @ tr"
  have q: "component q" and r: "r \<noteq> []" "SLASH \<notin> set r" using Cons.prems by (simp_all add: component_def)
  have st: "AppendPartsToPath (r # rs) [] @ tr = SLASH # ?tail"
    using append_parts_simps(3) [of rs "SLASH # r" "[]"] by simp
  have "dropWhile (\<lambda>c. c = SLASH) (SLASH # ?tail) = ?tail" using r by (cases r) auto
  moreover have "canon_loop ?tail (parts @ [q]) True subs = Inr ((parts @ [q]) @ r # rs, trailing, subs)"
    by (rule Cons.IH) (use Cons.prems in auto)
  ultimately show ?case unfolding st using canon_name [OF q, of "SLASH # ?tail" parts t subs] by simp
qed

lemma canonical_again:
  assumes "list_all component parts"
  shows "CanonicalizeAbsolutePath (if parts \<noteq> [] then AppendPartsToPath parts [] @ (if trailing then [SLASH] else []) else [SLASH])
    = Inr (if parts \<noteq> [] then AppendPartsToPath parts [] @ (if trailing then [SLASH] else []) else [SLASH], [])"
proof (cases parts)
  case Nil
  then show ?thesis by (simp add: CanonicalizeAbsolutePath_def)
next
  case (Cons q qs)
  let ?tr = "if trailing then [SLASH] else []"
  have q: "q \<noteq> []" "SLASH \<notin> set q" using assms Cons by (simp_all add: component_def)
  have st: "AppendPartsToPath parts [] @ ?tr = SLASH # q @ AppendPartsToPath qs [] @ ?tr"
    using append_parts_simps(3) [of qs "SLASH # q" "[]"] Cons by simp
  have d: "dropWhile (\<lambda>c. c = SLASH) (SLASH # q @ AppendPartsToPath qs [] @ ?tr) = q @ AppendPartsToPath qs [] @ ?tr"
    using q by (cases q) auto
  have "canon_loop (q @ AppendPartsToPath qs [] @ ?tr) [] False [] = Inr (parts, trailing, [])"
    using canon_loop_canonical [of q qs ?tr trailing "[]" False "[]"] assms Cons by simp
  then show ?thesis using Cons st by (simp add: CanonicalizeAbsolutePath_def d del: dropWhile.simps)
qed

end
