(* ===== verification/PathHost.thy ===== *)
theory PathHost
  imports Paths HostMap
begin

text \<open>
  The calls of the host that take a path, with the arguments the service runtime passes
  (\<open>posix/nacl_host_desc.c\<close>, \<open>linux/nacl_host_dir.c\<close>), and the translation of modes, flags and file
  status between the two ABIs (\<open>desc/posix/nacl_desc.c\<close>). The host is Linux on x86-64, whose numbers are written
  out.
\<close>

section \<open>Host calls\<close>

datatype path_op =
    Op_stat path
  | Op_lstat path
  | Op_open path u32 u32
  | Op_open_dir path
  | Op_mkdir path u32
  | Op_rmdir path
  | Op_chdir path
  | Op_getcwd u64
  | Op_unlink path
  | Op_truncate path u64
  | Op_link path path
  | Op_rename path path
  | Op_symlink path path
  | Op_chmod path u32
  | Op_access path u32
  | Op_readlink path u64
  | Op_utimes path "((u64 \<times> u64) \<times> (u64 \<times> u64)) option"

text \<open>The members of the host's \<open>struct stat\<close> that are used.\<close>

record host_stat =
  hs_ino :: u64
  hs_mode :: u32
  hs_nlink :: u64
  hs_size :: u64
  hs_atime :: u64
  hs_mtime :: u64
  hs_ctime :: u64

text \<open>
  The outcome of a host call: \<open>errno\<close>, or 0 when it succeeded, the value it returned, and the bytes or
  the file status it stored. Opening a directory includes the \<open>fstat\<close> of it.
\<close>

record path_result =
  pr_errno :: int
  pr_value :: int
  pr_bytes :: path
  pr_stat :: host_stat

fun op_paths :: "path_op \<Rightarrow> path list" where
  "op_paths (Op_stat p) = [p]"
| "op_paths (Op_lstat p) = [p]"
| "op_paths (Op_open p f m) = [p]"
| "op_paths (Op_open_dir p) = [p]"
| "op_paths (Op_mkdir p m) = [p]"
| "op_paths (Op_rmdir p) = [p]"
| "op_paths (Op_chdir p) = [p]"
| "op_paths (Op_getcwd n) = []"
| "op_paths (Op_unlink p) = [p]"
| "op_paths (Op_truncate p n) = [p]"
| "op_paths (Op_link p q) = [p, q]"
| "op_paths (Op_rename p q) = [p, q]"
| "op_paths (Op_symlink p q) = [p, q]"
| "op_paths (Op_chmod p m) = [p]"
| "op_paths (Op_access p m) = [p]"
| "op_paths (Op_readlink p n) = [p]"
| "op_paths (Op_utimes p t) = [p]"

section \<open>Translations\<close>

definition NACL_ABI_O_CREAT :: u32 where "NACL_ABI_O_CREAT = 64"
definition NACL_ABI_O_EXCL :: u32 where "NACL_ABI_O_EXCL = 128"
definition NACL_ABI_O_TRUNC :: u32 where "NACL_ABI_O_TRUNC = 512"
definition NACL_ABI_O_APPEND :: u32 where "NACL_ABI_O_APPEND = 1024"
definition NACL_ABI_O_DIRECTORY :: u32 where "NACL_ABI_O_DIRECTORY = 65536"
definition NACL_ABI_S_IRUSR :: u32 where "NACL_ABI_S_IRUSR = 256"
definition NACL_ABI_S_IWUSR :: u32 where "NACL_ABI_S_IWUSR = 128"
definition NACL_ABI_S_IXUSR :: u32 where "NACL_ABI_S_IXUSR = 64"

definition NaClMapMode :: "u32 \<Rightarrow> u32" where
  "NaClMapMode abi_mode =
     (if 0 \<noteq> abi_mode AND NACL_ABI_S_IRUSR then 256 else 0)
     OR (if 0 \<noteq> abi_mode AND NACL_ABI_S_IWUSR then 128 else 0)
     OR (if 0 \<noteq> abi_mode AND NACL_ABI_S_IXUSR then 64 else 0)"

definition NACL_ABI_F_OK :: u32 where "NACL_ABI_F_OK = 0"
definition NACL_ABI_R_OK :: u32 where "NACL_ABI_R_OK = 4"
definition NACL_ABI_W_OK :: u32 where "NACL_ABI_W_OK = 2"
definition NACL_ABI_X_OK :: u32 where "NACL_ABI_X_OK = 1"

definition NaClMapAccessMode :: "u32 \<Rightarrow> u32" where
  "NaClMapAccessMode nacl_mode =
     (if nacl_mode = NACL_ABI_F_OK then 0
      else (if 0 \<noteq> nacl_mode AND NACL_ABI_R_OK then 4 else 0)
           OR (if 0 \<noteq> nacl_mode AND NACL_ABI_W_OK then 2 else 0)
           OR (if 0 \<noteq> nacl_mode AND NACL_ABI_X_OK then 1 else 0))"

definition NaClMapOpenFlags :: "u32 \<Rightarrow> u32" where
  "NaClMapOpenFlags nacl_flags =
     (let acc = nacl_flags AND NACL_ABI_O_ACCMODE
      in (if acc = 1 then 1 else if acc = 2 then 2 else 0)
         OR (if 0 \<noteq> nacl_flags AND NACL_ABI_O_CREAT then 64 else 0)
         OR (if 0 \<noteq> nacl_flags AND NACL_ABI_O_EXCL then 128 else 0)
         OR (if 0 \<noteq> nacl_flags AND NACL_ABI_O_TRUNC then 512 else 0)
         OR (if 0 \<noteq> nacl_flags AND NACL_ABI_O_APPEND then 1024 else 0))"

definition NaClMapOpenPerm :: "u32 \<Rightarrow> u32" where
  "NaClMapOpenPerm nacl_perm =
     (if 0 \<noteq> nacl_perm AND NACL_ABI_S_IRUSR then 256 else 0)
     OR (if 0 \<noteq> nacl_perm AND NACL_ABI_S_IWUSR then 128 else 0)"

definition NACL_ALLOWED_OPEN_FLAGS :: u32 where
  "NACL_ALLOWED_OPEN_FLAGS = NACL_ABI_O_ACCMODE OR NACL_ABI_O_CREAT OR NACL_ABI_O_TRUNC OR NACL_ABI_O_APPEND OR NACL_ABI_O_EXCL"

text \<open>The file type and the permissions of the owner; other types become \<open>NACL_ABI_S_UNSUP\<close>.\<close>

definition abi_mode :: "u32 \<Rightarrow> u32" where
  "abi_mode mode =
     (let fmt = mode AND 0xF000
      in (if fmt = 0x8000 then 0x8000 else if fmt = 0x4000 then 0x4000 else if fmt = 0xA000 then 0xA000
          else if fmt = 0x1000 then 0x1000 else if fmt = 0x2000 then 0x2000 else 0x1F000)
         OR (mode AND 0x1C0))"

definition NaClAbiStatHostDescStatXlateCtor :: "host_stat \<Rightarrow> u8 list" where
  "NaClAbiStatHostDescStatXlateCtor src =
     le_bytes 8 (0 :: u64) @ le_bytes 8 (hs_ino src) @ le_bytes 4 (abi_mode (hs_mode src))
     @ le_bytes 4 (ucast (hs_nlink src) :: u32) @ le_bytes 4 (- 1 :: u32) @ le_bytes 4 (- 1 :: u32)
     @ le_bytes 8 (0 :: u64) @ le_bytes 8 (hs_size src) @ le_bytes 4 (0 :: u32) @ le_bytes 4 (0 :: u32)
     @ le_bytes 8 (hs_atime src) @ le_bytes 8 (0 :: u64) @ le_bytes 8 (hs_mtime src) @ le_bytes 8 (0 :: u64)
     @ le_bytes 8 (hs_ctime src) @ le_bytes 8 (0 :: u64)"

lemma stat_length [simp]: "length (NaClAbiStatHostDescStatXlateCtor src) = 104"
  by (simp add: NaClAbiStatHostDescStatXlateCtor_def)

end
