(* ===== verification/SysMisc.thy ===== *)
theory SysMisc
  imports SysSync DynCall MemCalls FutexList PathHost "HOL-Library.Signed_Division"
begin

text \<open>
  The remaining system calls of \<open>nacl_syscall_common.c\<close>, \<open>sys_clock.c\<close> and \<open>sys_exception.c\<close>:
  clocks, sleeping, the configuration of the system, thread pointers, exception handlers. They copy
  their results out to untrusted code or change fields of the calling thread.
\<close>

section \<open>State\<close>

text \<open>
  The calling thread: the fields of \<open>struct NaClAppThread\<close> and \<open>struct NaClThreadContext\<close> that
  system calls use, beside those of \<open>app_thread\<close>.
\<close>

record sys_thread = app_thread +
  usr_syscall_args :: u64
  tls_value1 :: u32
  tls_value2 :: u32
  exception_stack :: u32
  exception_flag :: u32

text \<open>
  The sandbox and the calling thread. \<open>natp_number\<close> is the number by which the thread table knows
  the thread. \<open>path_log\<close> records the host calls made on paths, the last one first; nothing reads it.
\<close>

record 'h sys_state =
  app :: "'h mem_app"
  natp :: sys_thread
  natp_number :: nat
  sc_nprocessors_onln :: u32
  enable_list_mappings :: bool
  enable_exception_handling :: bool
  exception_handler :: u32
  path_log :: "path_op list"

text \<open>
  The host during one call: the settings of the process, the clocks, and what is a parameter of the
  other components. A clock gives a status, seconds and the fraction; \<open>he_nanosleep\<close> gives the time
  that remains, together with the bytes of padding its uninitialised variable holds. The futex calls of
  the host give a count, or the negated error number. \<open>he_root\<close> is \<open>NaClRootDir\<close> when \<open>he_rootdir\<close> says that
  there is one; \<open>he_path\<close> makes the host calls on paths; \<open>he_object\<close> tells whether memory for a host object can be
  allocated and \<open>he_dir_mutex\<close> whether the mutex of a directory object can be made, \<open>he_io_desc\<close> and
  \<open>he_dir_desc\<close> make the descriptor for it (the first with the flag that allows it to be mapped executable).
\<close>

record 'h sys_env =
  he_mem :: "'h mem_env"
  he_sync :: "'h sync_vtbl"
  he_bypass :: bool
  he_rootdir :: bool
  he_realloc :: "bool \<times> bool"
  he_rng :: "nat \<Rightarrow> u8"
  he_pid :: int
  he_cpu :: "bool \<times> bool \<times> bool"
  he_gettimeofday :: "'h \<Rightarrow> int \<times> u64 \<times> u32 \<times> 'h"
  he_clock_getres :: "int \<Rightarrow> 'h \<Rightarrow> int \<times> u64 \<times> u32 \<times> 'h"
  he_clock_gettime :: "int \<Rightarrow> 'h \<Rightarrow> int \<times> u64 \<times> u32 \<times> 'h"
  he_nanosleep :: "u8 list \<Rightarrow> 'h \<Rightarrow> int \<times> u64 \<times> u32 \<times> u8 list \<times> 'h"
  he_clock :: "'h \<Rightarrow> int \<times> 'h"
  he_yield :: "'h \<Rightarrow> 'h"
  he_thread_nice :: "int \<Rightarrow> 'h \<Rightarrow> int \<times> 'h"
  he_attach :: bool
  he_alloc :: "u64 \<Rightarrow> bool"
  he_root :: path
  he_path :: "path_op \<Rightarrow> 'h \<Rightarrow> path_result \<times> 'h"
  he_object :: bool
  he_dir_mutex :: bool
  he_io_desc :: "bool \<Rightarrow> 'h \<Rightarrow> nat \<times> 'h"
  he_dir_desc :: "'h \<Rightarrow> nat \<times> 'h"
  he_futex_wait :: "u64 \<Rightarrow> u32 \<Rightarrow> (u64 \<times> u64) option \<Rightarrow> 'h \<Rightarrow> int \<times> 'h"
  he_futex_wake :: "u64 \<Rightarrow> u32 \<Rightarrow> 'h \<Rightarrow> int \<times> 'h"

definition NACL_ABI_EINTR :: int where "NACL_ABI_EINTR = 4"

section \<open>Clocks\<close>

text \<open>\<open>memset\<close> clears the padding of the structures: they end with four zero bytes.\<close>

definition NaClSysGetTimeOfDay ::
    "'h sys_env \<Rightarrow> ('h, 'z) fd_app_scheme \<Rightarrow> u32 \<Rightarrow> (int \<times> ('h, 'z) fd_app_scheme) exec" where
  "NaClSysGetTimeOfDay env nap tv_addr =
     (let (retval, sec, usec, h) = he_gettimeofday env (host nap);
          nap1 = nap\<lparr>host := h\<rparr>
      in if 0 \<noteq> retval then Inr (retval, nap1)
         else let usec1 = (if \<not> he_bypass env then (sint usec sdiv 10) * 10 else sint usec)
              in ebind (echeck (0 \<le> usec1) Check_failed) (\<lambda>_.
                 ebind (echeck (usec1 < 1000000) Check_failed) (\<lambda>_.
                 ebind (NaClCopyOutToUser nap1 (ucast tv_addr)
                          (le_bytes 8 sec @ le_bytes 4 (word_of_int usec1 :: u32) @ [0, 0, 0, 0])) (\<lambda>copied.
                   case copied of
                     None \<Rightarrow> Inr (- NACL_ABI_EFAULT, nap1)
                   | Some nap2 \<Rightarrow> Inr (0, nap2)))))"

definition NaClIsValidClockId :: "int \<Rightarrow> bool" where
  "NaClIsValidClockId clk_id \<longleftrightarrow> clk_id \<in> {0, 1, 2, 3}"

definition NaClSysClockGetCommon ::
    "(int \<Rightarrow> 'h \<Rightarrow> int \<times> u64 \<times> u32 \<times> 'h) \<Rightarrow> bool \<Rightarrow> ('h, 'z) fd_app_scheme \<Rightarrow> u32 \<Rightarrow> u32
      \<Rightarrow> (int \<times> ('h, 'z) fd_app_scheme) exec" where
  "NaClSysClockGetCommon timefunc null_ok nap clk_id ts_addr =
     (if \<not> NaClIsValidClockId (sint clk_id) then Inr (- NACL_ABI_EINVAL, nap)
      else let (retval, sec, nsec, h) = timefunc (sint clk_id) (host nap);
               nap1 = nap\<lparr>host := h\<rparr>
           in if 0 = retval then
                (if ts_addr = 0 then Inr (if \<not> null_ok then - NACL_ABI_EFAULT else 0, nap1)
                 else ebind (NaClCopyOutToUser nap1 (ucast ts_addr) (le_bytes 8 sec @ le_bytes 4 nsec @ [0, 0, 0, 0])) (\<lambda>copied.
                       case copied of
                         None \<Rightarrow> Inr (- NACL_ABI_EFAULT, nap1)
                       | Some nap2 \<Rightarrow> Inr (0, nap2)))
              else Inr (retval, nap1))"

definition NaClSysClockGetRes ::
    "'h sys_env \<Rightarrow> ('h, 'z) fd_app_scheme \<Rightarrow> u32 \<Rightarrow> u32 \<Rightarrow> (int \<times> ('h, 'z) fd_app_scheme) exec" where
  "NaClSysClockGetRes env nap clk_id tsp = NaClSysClockGetCommon (he_clock_getres env) True nap clk_id tsp"

definition NaClSysClockGetTime ::
    "'h sys_env \<Rightarrow> ('h, 'z) fd_app_scheme \<Rightarrow> u32 \<Rightarrow> u32 \<Rightarrow> (int \<times> ('h, 'z) fd_app_scheme) exec" where
  "NaClSysClockGetTime env nap clk_id tsp = NaClSysClockGetCommon (he_clock_gettime env) False nap clk_id tsp"

text \<open>\<open>t_rem\<close> is not cleared, so its padding goes out as it is.\<close>

definition NaClSysNanosleep ::
    "'h sys_env \<Rightarrow> ('h, 'z) fd_app_scheme \<Rightarrow> u32 \<Rightarrow> u32 \<Rightarrow> (int \<times> ('h, 'z) fd_app_scheme) exec" where
  "NaClSysNanosleep env nap req_addr rem_addr =
     (if 0 \<noteq> rem_addr \<and> kNaClBadAddress = NaClUserToSysAddrRange nap (ucast rem_addr) 16
      then Inr (- NACL_ABI_EFAULT, nap)
      else ebind (NaClCopyInFromUser nap (ucast req_addr) 16) (\<lambda>copied.
           case copied of
             None \<Rightarrow> Inr (- NACL_ABI_EFAULT, nap)
           | Some t_sleep \<Rightarrow>
               let (retval, sec, nsec, padding, h) = he_nanosleep env t_sleep (host nap);
                   nap1 = nap\<lparr>host := h\<rparr>
               in if - NACL_ABI_EINTR = retval \<and> 0 \<noteq> rem_addr then
                    ebind (NaClCopyOutToUser nap1 (ucast rem_addr) (le_bytes 8 sec @ le_bytes 4 nsec @ take 4 padding)) (\<lambda>out.
                      case out of
                        None \<Rightarrow> Inl Log_fatal
                      | Some nap2 \<Rightarrow> Inr (retval, nap2))
                  else Inr (retval, nap1)))"

definition NaClSysClock :: "'h sys_env \<Rightarrow> ('h, 'z) fd_app_scheme \<Rightarrow> (int \<times> ('h, 'z) fd_app_scheme) exec" where
  "NaClSysClock env nap = host_call (he_clock env) nap"

section \<open>The process\<close>

definition NaClSysNull :: "('h, 'z) fd_app_scheme \<Rightarrow> (int \<times> ('h, 'z) fd_app_scheme) exec" where
  "NaClSysNull nap = Inr (0, nap)"

definition NaClSysGetpid :: "'h sys_env \<Rightarrow> ('h, 'z) fd_app_scheme \<Rightarrow> (int \<times> ('h, 'z) fd_app_scheme) exec" where
  "NaClSysGetpid env nap = Inr (if he_bypass env then he_pid env else - NACL_ABI_ENOSYS, nap)"

definition NaClSysSchedYield :: "'h sys_env \<Rightarrow> ('h, 'z) fd_app_scheme \<Rightarrow> (int \<times> ('h, 'z) fd_app_scheme) exec" where
  "NaClSysSchedYield env nap = Inr (0, nap\<lparr>host := he_yield env (host nap)\<rparr>)"

definition NaClSysThreadNice ::
    "'h sys_env \<Rightarrow> ('h, 'z) fd_app_scheme \<Rightarrow> u32 \<Rightarrow> (int \<times> ('h, 'z) fd_app_scheme) exec" where
  "NaClSysThreadNice env nap nice = host_call (he_thread_nice env (sint nice)) nap"

definition NACL_TEST_CRASH_MEMORY :: int where "NACL_TEST_CRASH_MEMORY = 1"
definition NACL_TEST_CRASH_LOG_FATAL :: int where "NACL_TEST_CRASH_LOG_FATAL = 2"
definition NACL_TEST_CRASH_CHECK_FAILURE :: int where "NACL_TEST_CRASH_CHECK_FAILURE = 3"

definition NaClSysTestCrash :: "('h, 'z) fd_app_scheme \<Rightarrow> u32 \<Rightarrow> (int \<times> ('h, 'z) fd_app_scheme) exec" where
  "NaClSysTestCrash nap crash_type =
     (if sint crash_type = NACL_TEST_CRASH_MEMORY then Inl Out_of_bounds
      else if sint crash_type = NACL_TEST_CRASH_LOG_FATAL then Inl Log_fatal
      else if sint crash_type = NACL_TEST_CRASH_CHECK_FAILURE then Inl Check_failed
      else Inr (- NACL_ABI_EINVAL, nap))"

text \<open>The call leaves known values in the floating-point registers, which the model has no use for.\<close>

definition NaClSysTestInfoLeak :: "('h, 'z) fd_app_scheme \<Rightarrow> (int \<times> ('h, 'z) fd_app_scheme) exec" where
  "NaClSysTestInfoLeak nap = Inr (- NACL_ABI_ENOSYS, nap)"

definition NACL_ABI__SC_NPROCESSORS_ONLN :: int where "NACL_ABI__SC_NPROCESSORS_ONLN = 1"
definition NACL_ABI__SC_PAGESIZE :: int where "NACL_ABI__SC_PAGESIZE = 2"
definition NACL_ABI__SC_NACL_CPU_FEATURE_X86 :: int where "NACL_ABI__SC_NACL_CPU_FEATURE_X86 = 2 ^ 16"
definition NACL_ABI__SC_NACL_FILE_ACCESS_ENABLED :: int where "NACL_ABI__SC_NACL_FILE_ACCESS_ENABLED = 2 ^ 24"
definition NACL_ABI__SC_NACL_LIST_MAPPINGS_ENABLED :: int where "NACL_ABI__SC_NACL_LIST_MAPPINGS_ENABLED = 2 ^ 24 + 1"
definition NACL_ABI__SC_NACL_PNACL_MODE :: int where "NACL_ABI__SC_NACL_PNACL_MODE = 2 ^ 24 + 2"

text \<open>The value of a name; \<open>None\<close> where the source jumps to the clean-up with \<open>EINVAL\<close>.\<close>

definition sysconf_value :: "'h sys_env \<Rightarrow> 'h sys_state \<Rightarrow> int \<Rightarrow> u32 option" where
  "sysconf_value env st name =
     (if name = NACL_ABI__SC_NPROCESSORS_ONLN then
        (if sc_nprocessors_onln st = - 1 then None else Some (sc_nprocessors_onln st))
      else if name = NACL_ABI__SC_PAGESIZE then Some (2 ^ 16)
      else if name = NACL_ABI__SC_NACL_FILE_ACCESS_ENABLED then
        Some (of_bool (NaClFileAccessEnabled (he_bypass env) (he_rootdir env)))
      else if name = NACL_ABI__SC_NACL_LIST_MAPPINGS_ENABLED then Some (of_bool (enable_list_mappings st))
      else if name = NACL_ABI__SC_NACL_PNACL_MODE then Some (of_bool (pnacl_mode (app st)))
      else if name = NACL_ABI__SC_NACL_CPU_FEATURE_X86 then
        (if pnacl_mode (app st) then None
         else let (x87, sse, avx) = he_cpu env
              in Some (of_bool x87 OR push_bit 1 (of_bool sse) OR push_bit 2 (of_bool avx)))
      else None)"

definition NaClSysSysconf ::
    "'h sys_env \<Rightarrow> 'h sys_state \<Rightarrow> u32 \<Rightarrow> u32 \<Rightarrow> (int \<times> 'h sys_state) exec" where
  "NaClSysSysconf env st name result_addr =
     (case sysconf_value env st (sint name) of
        None \<Rightarrow> Inr (- NACL_ABI_EINVAL, st)
      | Some result_value \<Rightarrow>
          ebind (NaClCopyOutToUser (app st) (ucast result_addr) (le_bytes 4 result_value)) (\<lambda>copied.
           case copied of
             None \<Rightarrow> Inr (- NACL_ABI_EFAULT, st)
           | Some nap1 \<Rightarrow> Inr (0, st\<lparr>app := nap1\<rparr>)))"

section \<open>The thread\<close>

definition NaClSysTlsInit :: "'h sys_state \<Rightarrow> u32 \<Rightarrow> (int \<times> 'h sys_state) exec" where
  "NaClSysTlsInit st thread_ptr =
     (if kNaClBadAddress = NaClUserToSysAddrRange (app st) (ucast thread_ptr) 4 then Inr (- NACL_ABI_EFAULT, st)
      else Inr (0, st\<lparr>natp := (natp st)\<lparr>tls_value1 := thread_ptr\<rparr>\<rparr>))"

definition NaClSysTlsGet :: "'h sys_state \<Rightarrow> (int \<times> 'h sys_state) exec" where
  "NaClSysTlsGet st = Inr (sint (tls_value1 (natp st)), st)"

definition NaClSysSecondTlsSet :: "'h sys_state \<Rightarrow> u32 \<Rightarrow> (int \<times> 'h sys_state) exec" where
  "NaClSysSecondTlsSet st new_value = Inr (0, st\<lparr>natp := (natp st)\<lparr>tls_value2 := new_value\<rparr>\<rparr>)"

definition NaClSysSecondTlsGet :: "'h sys_state \<Rightarrow> (int \<times> 'h sys_state) exec" where
  "NaClSysSecondTlsGet st = Inr (sint (tls_value2 (natp st)), st)"

text \<open>\<open>he_attach\<close> says whether a debug exception handler could be attached.\<close>

definition NaClSysExceptionHandler ::
    "'h sys_env \<Rightarrow> 'h sys_state \<Rightarrow> u32 \<Rightarrow> u32 \<Rightarrow> (int \<times> 'h sys_state) exec" where
  "NaClSysExceptionHandler env st handler_addr old_handler =
     (if \<not> enable_exception_handling st then Inr (- NACL_ABI_ENOSYS, st)
      else if \<not> NaClIsValidJumpTarget (app st) (ucast handler_addr) then Inr (- NACL_ABI_EFAULT, st)
      else if handler_addr \<noteq> 0 \<and> \<not> he_attach env then Inr (- NACL_ABI_ENOSYS, st)
      else ebind (if 0 \<noteq> old_handler
                  then NaClCopyOutToUser (app st) (ucast old_handler) (le_bytes 4 (exception_handler st))
                  else Inr (Some (app st))) (\<lambda>copied.
           case copied of
             None \<Rightarrow> Inr (- NACL_ABI_EFAULT, st)
           | Some nap1 \<Rightarrow> Inr (0, st\<lparr>app := nap1, exception_handler := handler_addr\<rparr>)))"

definition NaClSysExceptionStack :: "'h sys_state \<Rightarrow> u32 \<Rightarrow> u32 \<Rightarrow> (int \<times> 'h sys_state) exec" where
  "NaClSysExceptionStack st stack_addr stack_sz =
     (if \<not> enable_exception_handling st then Inr (- NACL_ABI_ENOSYS, st)
      else if kNaClBadAddress = NaClUserToSysAddrNullOkay (app st) (ucast (stack_addr + stack_sz))
      then Inr (- NACL_ABI_EINVAL, st)
      else Inr (0, st\<lparr>natp := (natp st)\<lparr>exception_stack := stack_addr + stack_sz\<rparr>\<rparr>))"

definition NaClSysExceptionClearFlag :: "'h sys_state \<Rightarrow> (int \<times> 'h sys_state) exec" where
  "NaClSysExceptionClearFlag st =
     (if \<not> enable_exception_handling st then Inr (- NACL_ABI_ENOSYS, st)
      else Inr (0, st\<lparr>natp := (natp st)\<lparr>exception_flag := 0\<rparr>\<rparr>))"

section \<open>Futexes\<close>

text \<open>
  The branch for Linux (\<open>sys_futex.c\<close>) uses the futexes of the host. The two fractions of a second are
  32-bit words, their difference wraps before it is widened.
\<close>

definition AbsTimeToRelTime :: "u64 \<times> u32 \<Rightarrow> u64 \<times> u32 \<Rightarrow> u64 \<times> u64" where
  "AbsTimeToRelTime abstime now =
     (let sec = fst abstime - fst now; nsec = scast (snd abstime - snd now) :: u64
      in if sint nsec < 0 then (sec - 1, nsec + 1000000000) else (sec, nsec))"

definition timespec_of :: "u8 list \<Rightarrow> u64 \<times> u32" where
  "timespec_of bs = (le_word (take 8 bs), le_word (take 4 (drop 8 bs)))"

definition futex_wait_host ::
    "'h sys_env \<Rightarrow> u64 \<Rightarrow> u32 \<Rightarrow> (u64 \<times> u64) option \<Rightarrow> ('h, 'z) fd_app_scheme \<Rightarrow> (int \<times> ('h, 'z) fd_app_scheme) exec" where
  "futex_wait_host env sysaddr val timeout nap =
     (let (r, h) = he_futex_wait env sysaddr val timeout (host nap); nap1 = nap\<lparr>host := h\<rparr>
      in if r = 0 then Inr (0, nap1)
         else if - r = NACL_ABI_EFAULT then Inl Log_fatal
         else Inr (- NaClXlateErrno (- r), nap1))"

definition NaClSysFutexWaitAbs ::
    "'h sys_env \<Rightarrow> ('h, 'z) fd_app_scheme \<Rightarrow> u32 \<Rightarrow> u32 \<Rightarrow> u32 \<Rightarrow> (int \<times> ('h, 'z) fd_app_scheme) exec" where
  "NaClSysFutexWaitAbs env nap addr val abstime_ptr =
     (let sysaddr = NaClUserToSysAddrRange nap (ucast addr) 4
      in if kNaClBadAddress = sysaddr then Inr (- NACL_ABI_EFAULT, nap)
         else if abstime_ptr \<noteq> 0 then
           ebind (NaClCopyInFromUser nap (ucast abstime_ptr) 16) (\<lambda>copied.
            case copied of
              None \<Rightarrow> Inr (- NACL_ABI_EFAULT, nap)
            | Some bs \<Rightarrow>
                let (result, sec, nsec, h) = he_clock_gettime env 0 (host nap);
                    nap1 = nap\<lparr>host := h\<rparr>
                in if result \<noteq> 0 then Inr (result, nap1)
                   else let rel = AbsTimeToRelTime (timespec_of bs) (sec, nsec)
                        in if sint (fst rel) < 0 then Inr (- NACL_ABI_ETIMEDOUT, nap1)
                           else futex_wait_host env sysaddr val (Some rel) nap1)
         else futex_wait_host env sysaddr val None nap)"

definition NaClSysFutexWake ::
    "'h sys_env \<Rightarrow> ('h, 'z) fd_app_scheme \<Rightarrow> u32 \<Rightarrow> u32 \<Rightarrow> (int \<times> ('h, 'z) fd_app_scheme) exec" where
  "NaClSysFutexWake env nap addr nwake =
     (let sysaddr = NaClUserToSysAddrRange nap (ucast addr) 4
      in if kNaClBadAddress = sysaddr then Inr (0, nap)
         else let (r, h) = he_futex_wake env sysaddr nwake (host nap); nap1 = nap\<lparr>host := h\<rparr>
              in if r < 0 then Inr (- NaClXlateErrno (- r), nap1) else Inr (r, nap1))"

end
