(* ===== verification/SysList.thy ===== *)
theory SysList
  imports SysMisc
begin

text \<open>
  The system call that lists the mappings (\<open>sys_list_mappings.c\<close>): a record for each entry of the memory
  map and each region of code loaded at run time, sorted by address and copied out as far as the
  buffer of the caller reaches.
\<close>

section \<open>The call\<close>

text \<open>\<open>struct NaClMemMappingInfo\<close>, and the growing array of them; \<open>count\<close> is the length of the list.\<close>

record mapping_info =
  mi_start :: u32
  mi_size :: u32
  mi_prot :: u32
  mi_max_prot :: u32
  mi_vmmap_type :: u32

record list_state =
  lm_regions :: "mapping_info list"
  lm_capacity :: u32
  out_of_memory :: bool

definition kStartCapacity :: u32 where "kStartCapacity = 8"

text \<open>\<open>alloc\<close> tells whether \<open>realloc\<close> gives that many bytes; a record has 20.\<close>

definition NaClSysListMappingsAdd :: "(u64 \<Rightarrow> bool) \<Rightarrow> list_state \<Rightarrow> mapping_info \<Rightarrow> list_state" where
  "NaClSysListMappingsAdd alloc state info =
     (if out_of_memory state then state
      else if word_of_nat (length (lm_regions state)) = lm_capacity state then
        (let new_capacity = (if lm_capacity state = 0 then kStartCapacity else lm_capacity state * 2)
         in if lm_capacity state \<noteq> 0 \<and> 0xffffffff div 20 < new_capacity then state\<lparr>out_of_memory := True\<rparr>
            else if \<not> alloc (ucast new_capacity * 20) then state\<lparr>out_of_memory := True\<rparr>
            else state\<lparr>lm_capacity := new_capacity, lm_regions := lm_regions state @ [info]\<rparr>)
      else state\<lparr>lm_regions := lm_regions state @ [info]\<rparr>)"

definition NaClSysListMappingsOrder :: "mapping_info \<Rightarrow> mapping_info \<Rightarrow> int" where
  "NaClSysListMappingsOrder am bm =
     (if mi_start am < mi_start bm then - 1 else if mi_start am > mi_start bm then 1 else 0)"

definition NaClSysListMappingsVisit ::
    "(u64 \<Rightarrow> bool) \<Rightarrow> 'h mem_env \<Rightarrow> ('h, 'z) fd_app_scheme \<Rightarrow> list_state exec \<Rightarrow> vmmap_entry \<Rightarrow> list_state exec" where
  "NaClSysListMappingsVisit alloc env nap statev vmep =
     ebind statev (\<lambda>state.
       let start = ucast (push_bit NACL_PAGESHIFT (e_page_num vmep)) :: u32;
           sz = ucast (push_bit NACL_PAGESHIFT (e_npages vmep)) :: u32
       in ebind (NaClVmmapEntryMaxProt (me_GetFlags env) vmep) (\<lambda>max_prot.
            if dynamic_text_start nap = ucast start \<and> dynamic_text_end nap = ucast (start + sz) then Inr state
            else Inr (NaClSysListMappingsAdd alloc state
                   \<lparr>mi_start = start, mi_size = sz, mi_prot = e_prot vmep, mi_max_prot = max_prot,
                    mi_vmmap_type = of_bool (e_desc vmep \<noteq> None)\<rparr>)))"

definition NaClSysListMappingsDyncodeVisit ::
    "(u64 \<Rightarrow> bool) \<Rightarrow> ('h, 'z) fd_app_scheme \<Rightarrow> list_state exec \<Rightarrow> dyn_region \<Rightarrow> list_state exec" where
  "NaClSysListMappingsDyncodeVisit alloc nap statev rg =
     ebind statev (\<lambda>state.
     ebind (NaClSysToUser nap (dr_start rg)) (\<lambda>start.
       Inr (NaClSysListMappingsAdd alloc state
              \<lparr>mi_start = ucast start, mi_size = ucast (dr_size rg), mi_prot = NACL_ABI_PROT_READ OR NACL_ABI_PROT_EXEC,
               mi_max_prot = NACL_ABI_PROT_READ OR NACL_ABI_PROT_EXEC, mi_vmmap_type = 0\<rparr>)))"

definition mapping_bytes :: "mapping_info \<Rightarrow> u8 list" where
  "mapping_bytes i = concat (map (le_bytes 4) [mi_start i, mi_size i, mi_prot i, mi_max_prot i, mi_vmmap_type i])"

definition list_mappings_out :: "list_state \<Rightarrow> u32 \<Rightarrow> u32 \<Rightarrow> ('h, 'z) fd_app_scheme \<Rightarrow> (int \<times> ('h, 'z) fd_app_scheme) exec" where
  "list_mappings_out state regs cnt nap =
     (if out_of_memory state then Inr (- NACL_ABI_ENOMEM, nap)
      else let infos = c_qsort NaClSysListMappingsOrder (lm_regions state);
               total = word_of_nat (length infos) :: u32;
               n = (if total < cnt then total else cnt)
           in ebind (NaClCopyOutToUser nap (ucast regs) (concat (map mapping_bytes (take (unat n) infos)))) (\<lambda>copied.
              case copied of
                None \<Rightarrow> Inr (- NACL_ABI_EFAULT, nap)
              | Some nap1 \<Rightarrow> Inr (sint total, nap1)))"

definition NaClSysListMappings ::
    "(u64 \<Rightarrow> bool) \<Rightarrow> 'h mem_env \<Rightarrow> bool \<Rightarrow> 'h mem_app \<Rightarrow> u32 \<Rightarrow> u32 \<Rightarrow> (int \<times> 'h mem_app) exec" where
  "NaClSysListMappings alloc env enabled nap regs cnt =
     (if \<not> enabled then Inr (- NACL_ABI_ENOSYS, nap)
      else ebind (with_map env (NaClVmmapVisit (NaClSysListMappingsVisit alloc env nap)
                    (Inr \<lparr>lm_regions = [], lm_capacity = 0, out_of_memory = False\<rparr>)) nap) (\<lambda>(state, nap1).
           ebind (NaClDyncodeVisit (NaClSysListMappingsDyncodeVisit alloc nap1) state nap1) (\<lambda>state1.
             list_mappings_out state1 regs cnt nap1)))"

section \<open>Its contract\<close>

interpretation visit_entries: map_op "NaClVmmapVisit fn st" "\<lambda>s. True"
  "\<lambda>s r m. maps_same s m \<and> r = foldl fn st (vmentry m)" for fn st
proof unfold_locales
  fix s assume "vm_wf s"
  then obtain m where m: "NaClVmmapMakeSorted s = Inr m" "vm_same s m" using MakeSorted_same by blast
  then show "\<exists>r m. NaClVmmapVisit fn st s = Inr (r, m) \<and> vm_wf m \<and> balanced s m \<and> maps_same s m \<and> r = foldl fn st (vmentry m)"
    using vm_same_balanced by (auto simp: NaClVmmapVisit_def)
qed (simp_all add: maps_same_def)

lemma mapping_bytes_length [simp]: "length (mapping_bytes i) = 20"
  by (simp add: mapping_bytes_def)

lemma infos_bytes: "length (concat (map mapping_bytes is)) = 20 * length is"
  by (induction "is") simp_all

text \<open>The array never holds more records than \<open>UINT32_MAX\<close> bytes have room for.\<close>

definition list_ok :: "list_state \<Rightarrow> bool" where
  "list_ok state \<longleftrightarrow> length (lm_regions state) \<le> unat (lm_capacity state) \<and> unat (lm_capacity state) \<le> 214748364"

lemma add_ok:
  assumes "list_ok state"
  shows "list_ok (NaClSysListMappingsAdd alloc state info)"
proof -
  have n: "unat (word_of_nat (length (lm_regions state)) :: u32) = length (lm_regions state)"
    using assms by (simp add: list_ok_def unat_of_nat)
  have two: "unat (lm_capacity state * 2) = unat (lm_capacity state) * 2"
    using assms by (subst unat_mult_lem [THEN iffD1]) (simp_all add: list_ok_def)
  have d: "(0xffffffff :: u32) div 20 = 214748364" by simp
  have cap: "unat (lm_capacity state * 2) \<le> 214748364" if "\<not> 0xffffffff div 20 < lm_capacity state * 2"
    using that unfolding d by (simp add: word_less_nat_alt)
  show ?thesis
  proof (cases "word_of_nat (length (lm_regions state)) = lm_capacity state")
    case True
    then have full: "length (lm_regions state) = unat (lm_capacity state)" using n by simp
    have z: "0 < unat (lm_capacity state)" if "lm_capacity state \<noteq> 0" using that by (simp add: unat_gt_0)
    show ?thesis using assms True full cap two z
      by (auto simp: NaClSysListMappingsAdd_def list_ok_def Let_def kStartCapacity_def)
  next
    case False
    then have "length (lm_regions state) < unat (lm_capacity state)"
      using assms n by (metis le_neq_implies_less list_ok_def word_unat_eq_iff)
    then show ?thesis using assms False by (simp add: NaClSysListMappingsAdd_def list_ok_def)
  qed
qed

lemma foldl_list_ok:
  assumes step: "\<And>st x st'. f (Inr st) x = Inr st' \<Longrightarrow> list_ok st \<Longrightarrow> list_ok st'" "\<And>e x. f (Inl e) x = Inl e"
    and run: "foldl f (Inr st) xs = Inr st'" "list_ok st"
  shows "list_ok st'"
  using run
proof (induction xs arbitrary: st)
  case (Cons x xs)
  have stop: "foldl f (Inl e) ys = Inl e" for e ys by (induction ys) (simp_all add: step(2))
  obtain st1 where "f (Inr st) x = Inr st1" using Cons.prems(1) stop by (cases "f (Inr st) x") auto
  then show ?case using Cons.IH [of st1] Cons.prems step(1) by auto
qed simp

lemma list_out_ok:
  assumes "list_mappings_out state regs cnt nap = Inr (r, nap')" "list_ok state"
  shows "nap' = nap \<or> (\<exists>bs. NaClCopyOutToUser nap (ucast regs) bs = Inr (Some nap') \<and> length bs < 2 ^ 32)"
proof -
  let ?infos = "c_qsort NaClSysListMappingsOrder (lm_regions state)"
  have "20 * length (take n ?infos) < 2 ^ 32" for n
    using assms(2) by (simp add: list_ok_def min_def)
  then show ?thesis using assms(1)
    by (auto simp: list_mappings_out_def Let_def infos_bytes split: if_splits option.splits)
qed

lemma list_mappings_ok:
  assumes inv: "mem_inv E S F nap" and res: "NaClSysListMappings alloc env enabled nap regs cnt = Inr (r, nap')"
  shows "\<exists>nap1. mem_inv E S F nap1 \<and> kept env nap nap1
    \<and> (nap' = nap1 \<or> (\<exists>bs. NaClCopyOutToUser nap1 (ucast regs) bs = Inr (Some nap') \<and> length bs < 2 ^ 32))"
proof (cases enabled)
  case False
  then have "nap' = nap" using res by (simp add: NaClSysListMappings_def)
  then show ?thesis using inv kept_refl by blast
next
  case True
  let ?fn = "NaClSysListMappingsVisit alloc env nap"
  let ?st = "\<lparr>lm_regions = [], lm_capacity = 0, out_of_memory = False\<rparr>"
  from visit_entries.run [OF mem_invD(1,2) [OF inv] TrueI, of env ?fn "Inr ?st"] res True
  obtain m state where m: "with_map env (NaClVmmapVisit ?fn (Inr ?st)) nap = Inr (state, store_counts env m nap)"
    "fd_inv (\<lambda>n. map_refs m n + E n) S F (store_counts env m nap)" "vm_wf m" "maps_same (mem_map nap) m"
    "state = foldl ?fn (Inr ?st) (vmentry m)" by (auto simp: NaClSysListMappings_def)
  let ?nap1 = "store_counts env m nap"
  obtain state1 where s1: "NaClDyncodeVisit (NaClSysListMappingsDyncodeVisit alloc ?nap1) state ?nap1 = Inr state1"
    "list_mappings_out state1 regs cnt ?nap1 = Inr (r, nap')" using res True m(1) by (auto simp: NaClSysListMappings_def)
  have stop: "foldl (NaClSysListMappingsDyncodeVisit alloc ?nap1) (Inl e) xs = Inl e" for e xs
    by (induction xs) (simp_all add: NaClSysListMappingsDyncodeVisit_def)
  obtain st where st: "state = Inr st" using s1(1) stop by (cases state) (auto simp: NaClDyncodeVisit_def)
  have "list_ok st"
  proof (rule foldl_list_ok)
    show "foldl ?fn (Inr ?st) (vmentry m) = Inr st" using m(5) st by simp
    show "list_ok st'" if "?fn (Inr sx) x = Inr st'" "list_ok sx" for sx x st'
      using that add_ok by (auto simp: NaClSysListMappingsVisit_def Let_def split: if_splits)
  qed (simp_all add: NaClSysListMappingsVisit_def list_ok_def)
  then have "list_ok state1"
  proof (rule foldl_list_ok [rotated 3])
    show "foldl (NaClSysListMappingsDyncodeVisit alloc ?nap1) (Inr st) (regions (dyn_regs ?nap1)) = Inr state1"
      using s1(1) st by (simp add: NaClDyncodeVisit_def)
    show "list_ok st'" if "NaClSysListMappingsDyncodeVisit alloc ?nap1 (Inr sx) x = Inr st'" "list_ok sx" for sx x st'
      using that add_ok by (auto simp: NaClSysListMappingsDyncodeVisit_def)
  qed (simp add: NaClSysListMappingsDyncodeVisit_def)
  from list_out_ok [OF s1(2) this] find_kept [OF inv m(2,3,4)] show ?thesis by blast
qed

end
