(* ===== verification/SysPaths.thy ===== *)
theory SysPaths
  imports SysMisc
begin

text \<open>
  The system calls on path names (\<open>sys_filename.c\<close>), with the copying of paths from and to
  untrusted code (\<open>sel_ldr_filename.cc\<close>) and the calls of the host (\<open>posix/nacl_host_desc.c\<close>). With a root
  directory mounted, a path of untrusted code is made absolute, canonical and prefixed by the root.
\<close>

section \<open>The host\<close>

definition NACL_ABI_ENOENT :: int where "NACL_ABI_ENOENT = 2"
definition NACL_ABI_EEXIST :: int where "NACL_ABI_EEXIST = 17"
definition NACL_ABI_ENOTDIR :: int where "NACL_ABI_ENOTDIR = 20"
definition NACL_ABI_ENAMETOOLONG :: int where "NACL_ABI_ENAMETOOLONG = 36"

definition path_call :: "'h sys_env \<Rightarrow> path_op \<Rightarrow> 'h sys_state \<Rightarrow> path_result \<times> 'h sys_state" where
  "path_call env op st =
     (let (r, h) = he_path env op (host (app st))
      in (r, st\<lparr>app := (app st)\<lparr>host := h\<rparr>, path_log := op # path_log st\<rparr>))"

text \<open>The shape of the functions that only pass the call on: \<open>if (f(path) != 0) return -NaClXlateErrno(errno)\<close>.\<close>

definition host_status :: "path_result \<Rightarrow> int" where
  "host_status r = (if pr_errno r \<noteq> 0 then - NaClXlateErrno (pr_errno r) else 0)"

definition pass_on :: "'h sys_env \<Rightarrow> path_op \<Rightarrow> 'h sys_state \<Rightarrow> int \<times> 'h sys_state" where
  "pass_on env op st = (let (r, st1) = path_call env op st in (host_status r, st1))"

definition NaClHostDescStat :: "'h sys_env \<Rightarrow> path \<Rightarrow> 'h sys_state \<Rightarrow> int \<times> host_stat \<times> 'h sys_state" where
  "NaClHostDescStat env path st = (let (r, st1) = path_call env (Op_stat path) st in (host_status r, pr_stat r, st1))"

definition NaClHostDescLstat :: "'h sys_env \<Rightarrow> path \<Rightarrow> 'h sys_state \<Rightarrow> int \<times> host_stat \<times> 'h sys_state" where
  "NaClHostDescLstat env path st = (let (r, st1) = path_call env (Op_lstat path) st in (host_status r, pr_stat r, st1))"

definition NaClHostDescGetcwd :: "'h sys_env \<Rightarrow> u64 \<Rightarrow> 'h sys_state \<Rightarrow> int \<times> path \<times> 'h sys_state" where
  "NaClHostDescGetcwd env len st = (let (r, st1) = path_call env (Op_getcwd len) st in (host_status r, pr_bytes r, st1))"

definition NaClHostDescReadlink :: "'h sys_env \<Rightarrow> path \<Rightarrow> u64 \<Rightarrow> 'h sys_state \<Rightarrow> int \<times> path \<times> 'h sys_state" where
  "NaClHostDescReadlink env path bufsize st =
     (let (r, st1) = path_call env (Op_readlink path bufsize) st
      in (if pr_errno r \<noteq> 0 then - NaClXlateErrno (pr_errno r) else int (length (pr_bytes r)), pr_bytes r, st1))"

definition NaClHostDescMkdir :: "'h sys_env \<Rightarrow> path \<Rightarrow> u32 \<Rightarrow> 'h sys_state \<Rightarrow> int \<times> 'h sys_state" where
  "NaClHostDescMkdir env path mode = pass_on env (Op_mkdir path mode)"

definition NaClHostDescRmdir :: "'h sys_env \<Rightarrow> path \<Rightarrow> 'h sys_state \<Rightarrow> int \<times> 'h sys_state" where
  "NaClHostDescRmdir env path = pass_on env (Op_rmdir path)"

definition NaClHostDescChdir :: "'h sys_env \<Rightarrow> path \<Rightarrow> 'h sys_state \<Rightarrow> int \<times> 'h sys_state" where
  "NaClHostDescChdir env path = pass_on env (Op_chdir path)"

definition NaClHostDescUnlink :: "'h sys_env \<Rightarrow> path \<Rightarrow> 'h sys_state \<Rightarrow> int \<times> 'h sys_state" where
  "NaClHostDescUnlink env path = pass_on env (Op_unlink path)"

definition NaClHostDescTruncate :: "'h sys_env \<Rightarrow> path \<Rightarrow> u64 \<Rightarrow> 'h sys_state \<Rightarrow> int \<times> 'h sys_state" where
  "NaClHostDescTruncate env path len = pass_on env (Op_truncate path len)"

definition NaClHostDescLink :: "'h sys_env \<Rightarrow> path \<Rightarrow> path \<Rightarrow> 'h sys_state \<Rightarrow> int \<times> 'h sys_state" where
  "NaClHostDescLink env oldpath newpath = pass_on env (Op_link oldpath newpath)"

definition NaClHostDescRename :: "'h sys_env \<Rightarrow> path \<Rightarrow> path \<Rightarrow> 'h sys_state \<Rightarrow> int \<times> 'h sys_state" where
  "NaClHostDescRename env oldpath newpath = pass_on env (Op_rename oldpath newpath)"

definition NaClHostDescSymlink :: "'h sys_env \<Rightarrow> path \<Rightarrow> path \<Rightarrow> 'h sys_state \<Rightarrow> int \<times> 'h sys_state" where
  "NaClHostDescSymlink env oldpath newpath = pass_on env (Op_symlink oldpath newpath)"

definition NaClHostDescChmod :: "'h sys_env \<Rightarrow> path \<Rightarrow> u32 \<Rightarrow> 'h sys_state \<Rightarrow> int \<times> 'h sys_state" where
  "NaClHostDescChmod env path mode = pass_on env (Op_chmod path (NaClMapMode mode))"

definition NaClHostDescAccess :: "'h sys_env \<Rightarrow> path \<Rightarrow> u32 \<Rightarrow> 'h sys_state \<Rightarrow> int \<times> 'h sys_state" where
  "NaClHostDescAccess env path amode = pass_on env (Op_access path (NaClMapAccessMode amode))"

text \<open>Two \<open>struct nacl_abi_timeval\<close> of 16 bytes; the microseconds are 32-bit and are widened.\<close>

definition host_timeval :: "u8 list \<Rightarrow> u64 \<times> u64" where
  "host_timeval bs = (le_word (take 8 bs), scast (le_word (take 4 (drop 8 bs)) :: u32))"

definition NaClHostDescUtimes :: "'h sys_env \<Rightarrow> path \<Rightarrow> u8 list option \<Rightarrow> 'h sys_state \<Rightarrow> int \<times> 'h sys_state" where
  "NaClHostDescUtimes env filename tms =
     pass_on env (Op_utimes filename (map_option (\<lambda>bs. (host_timeval (take 16 bs), host_timeval (drop 16 bs))) tms))"

definition NaClHostDescOpen :: "'h sys_env \<Rightarrow> path \<Rightarrow> u32 \<Rightarrow> u32 \<Rightarrow> 'h sys_state \<Rightarrow> int \<times> 'h sys_state" where
  "NaClHostDescOpen env path flags mode st =
     (if 0 \<noteq> flags AND NOT NACL_ALLOWED_OPEN_FLAGS then (- NACL_ABI_EINVAL, st)
      else if flags AND NACL_ABI_O_ACCMODE = 3 then (- NACL_ABI_EINVAL, st)
      else pass_on env (Op_open path (NaClMapOpenFlags flags) (NaClMapOpenPerm mode)) st)"

definition NaClHostDirOpen :: "'h sys_env \<Rightarrow> path \<Rightarrow> 'h sys_state \<Rightarrow> int \<times> 'h sys_state" where
  "NaClHostDirOpen env path st =
     (let (r, st1) = path_call env (Op_open_dir path) st
      in if pr_errno r \<noteq> 0 then (- NaClXlateErrno (pr_errno r), st1)
         else if hs_mode (pr_stat r) AND 0xF000 \<noteq> 0x4000 then (- NACL_ABI_ENOTDIR, st1)
         else if \<not> he_dir_mutex env then (- NACL_ABI_ENOMEM, st1)
         else (0, st1))"

section \<open>Paths of untrusted code\<close>

definition VirtualToAbsolutePath :: "'h sys_env \<Rightarrow> path \<Rightarrow> 'h sys_state \<Rightarrow> (int \<times> path \<times> 'h sys_state) exec" where
  "VirtualToAbsolutePath env virtual_path st =
     ebind (echeck (length virtual_path \<ge> 1) Check_failed) (\<lambda>_.
       if hd virtual_path \<noteq> SLASH then
         (let (retval, cwd_path, st1) = NaClHostDescGetcwd env 1024 st
          in if retval \<noteq> 0 then Inr (retval, [], st1)
             else if \<not> PathContainsRootPrefix (he_root env) cwd_path then Inr (- NACL_ABI_EACCES, [], st1)
             else Inr (0, drop (length (he_root env)) cwd_path @ [SLASH] @ virtual_path, st1))
       else Inr (0, virtual_path, st))"

definition IsSymbolicLink :: "'h sys_env \<Rightarrow> path \<Rightarrow> 'h sys_state \<Rightarrow> bool \<times> 'h sys_state" where
  "IsSymbolicLink env path st =
     (let (r, st1) = path_call env (Op_lstat path) st
      in (pr_errno r = 0 \<and> hs_mode (pr_stat r) AND 0xF000 = 0xA000, st1))"

definition ValidatePath :: "'h sys_env \<Rightarrow> path \<Rightarrow> 'h sys_state \<Rightarrow> (int \<times> 'h sys_state) exec" where
  "ValidatePath env path st =
     ebind (echeck (length path \<ge> 1) Check_failed) (\<lambda>_.
     ebind (echeck (PathContainsRootPrefix (he_root env) path) Check_failed) (\<lambda>_.
       let (link, st1) = IsSymbolicLink env path st
       in Inr (if link then - NACL_ABI_EACCES else 0, st1)))"

text \<open>\<open>ELOOP\<close>, \<open>EOVERFLOW\<close> and \<open>ENOMEM\<close> are fatal.\<close>

fun ValidateSubpaths :: "'h sys_env \<Rightarrow> path list \<Rightarrow> 'h sys_state \<Rightarrow> (int \<times> 'h sys_state) exec" where
  "ValidateSubpaths env [] st = Inr (0, st)"
| "ValidateSubpaths env (s # ss) st =
     (let (r, st1) = path_call env (Op_stat (he_root env @ s)) st
      in if pr_errno r \<noteq> 0 then
           (if pr_errno r \<in> {40, 75, 12} then Inl Log_fatal else Inr (- NaClXlateErrno (pr_errno r), st1))
         else ValidateSubpaths env ss st1)"

definition CopyHostPathMounted :: "'h sys_env \<Rightarrow> path \<Rightarrow> 'h sys_state \<Rightarrow> (int \<times> path \<times> 'h sys_state) exec" where
  "CopyHostPathMounted env raw_path st =
     (if raw_path = [] then Inr (- NACL_ABI_ENOENT, [], st)
      else ebind (echeck (length raw_path < NACL_CONFIG_PATH_MAX) Check_failed) (\<lambda>_.
           ebind (VirtualToAbsolutePath env raw_path st) (\<lambda>(retval, abs_path, st1).
             if retval \<noteq> 0 then Inr (retval, [], st1)
             else ebind (CanonicalizeAbsolutePath abs_path) (\<lambda>(real_path, required_subpaths).
                  ebind (ValidateSubpaths env required_subpaths st1) (\<lambda>(retval, st2).
                    if retval \<noteq> 0 then Inr (retval, [], st2)
                    else let full = he_root env @ real_path
                         in ebind (ValidatePath env full st2) (\<lambda>(retval, st3).
                              if retval \<noteq> 0 then Inr (retval, [], st3)
                              else if length full + 1 > NACL_CONFIG_PATH_MAX then Inr (- NACL_ABI_ENAMETOOLONG, [], st3)
                              else Inr (0, full, st3)))))))"

text \<open>The buffer is filled whole, so its contents before do not matter.\<close>

definition CopyHostPathInFromUser :: "'h sys_env \<Rightarrow> u32 \<Rightarrow> 'h sys_state \<Rightarrow> (int \<times> path \<times> 'h sys_state) exec" where
  "CopyHostPathInFromUser env src st =
     ebind (NaClCopyInFromUserZStr (app st) (replicate NACL_CONFIG_PATH_MAX 0) (ucast src)) (\<lambda>(ok, dest).
       if \<not> ok then Inr (if dest ! 0 = 0 then - NACL_ABI_EFAULT else - NACL_ABI_ENAMETOOLONG, [], st)
       else let path = takeWhile (\<lambda>c. c \<noteq> 0) dest
            in if \<not> he_rootdir env then Inr (0, path, st) else CopyHostPathMounted env path st)"

definition CopyHostPathOutToUser :: "'h sys_env \<Rightarrow> u32 \<Rightarrow> path \<Rightarrow> 'h sys_state \<Rightarrow> (int \<times> 'h sys_state) exec" where
  "CopyHostPathOutToUser env dst_usr_addr path st =
     (let out = (\<lambda>bs. ebind (NaClCopyOutToUser (app st) (ucast dst_usr_addr) bs) (\<lambda>copied.
                      case copied of
                        None \<Rightarrow> Inr (- NACL_ABI_EFAULT, st)
                      | Some nap1 \<Rightarrow> Inr (0, st\<lparr>app := nap1\<rparr>)))
      in if \<not> he_rootdir env then out (path @ [0])
         else if \<not> PathContainsRootPrefix (he_root env) path then Inr (- NACL_ABI_EACCES, st)
         else if length path = length (he_root env) then out [SLASH, 0]
         else out (drop (length (he_root env)) path @ [0]))"

section \<open>The calls\<close>

definition access_enabled :: "'h sys_env \<Rightarrow> bool" where
  "access_enabled env \<longleftrightarrow> NaClFileAccessEnabled (he_bypass env) (he_rootdir env)"

text \<open>The shape of a call with one path, and with two.\<close>

definition with_path ::
    "'h sys_env \<Rightarrow> bool \<Rightarrow> u32 \<Rightarrow> (path \<Rightarrow> 'h sys_state \<Rightarrow> (int \<times> 'h sys_state) exec) \<Rightarrow> 'h sys_state
      \<Rightarrow> (int \<times> 'h sys_state) exec" where
  "with_path env enabled pathname f st =
     (if \<not> enabled then Inr (- NACL_ABI_EACCES, st)
      else ebind (CopyHostPathInFromUser env pathname st) (\<lambda>(retval, path, st1).
             if 0 \<noteq> retval then Inr (retval, st1) else f path st1))"

definition with_two_paths ::
    "'h sys_env \<Rightarrow> bool \<Rightarrow> u32 \<Rightarrow> u32 \<Rightarrow> (path \<Rightarrow> path \<Rightarrow> 'h sys_state \<Rightarrow> (int \<times> 'h sys_state) exec) \<Rightarrow> 'h sys_state
      \<Rightarrow> (int \<times> 'h sys_state) exec" where
  "with_two_paths env enabled oldname newname f =
     with_path env enabled oldname (\<lambda>oldpath. with_path env True newname (\<lambda>newpath. f oldpath newpath))"

definition enter_desc :: "'h sys_env \<Rightarrow> ('h \<Rightarrow> nat \<times> 'h) \<Rightarrow> 'h sys_state \<Rightarrow> (int \<times> 'h sys_state) exec" where
  "enter_desc env ctor st =
     ebind (create_desc (\<lambda>h. Some (ctor h)) (me_vt (he_mem env)) (he_realloc env) (app st)) (\<lambda>(r, nap1).
       Inr (r, st\<lparr>app := nap1\<rparr>))"

definition open_allowed_flags :: u32 where
  "open_allowed_flags = NACL_ABI_O_ACCMODE OR NACL_ABI_O_CREAT OR NACL_ABI_O_EXCL OR NACL_ABI_O_TRUNC
     OR NACL_ABI_O_APPEND OR NACL_ABI_O_DIRECTORY"

definition open_work :: "'h sys_env \<Rightarrow> u32 \<Rightarrow> u32 \<Rightarrow> path \<Rightarrow> 'h sys_state \<Rightarrow> (int \<times> 'h sys_state) exec" where
  "open_work env flags0 mode0 path st =
     (let flags = flags0 AND open_allowed_flags;
          mode = mode0 AND 0x180;
          (retval, stbuf, st1) = NaClHostDescStat env path st
      in if 0 = retval \<and> 0x4000 = 0x4000 AND hs_mode stbuf then
           (if flags AND NACL_ABI_O_EXCL \<noteq> 0 then Inr (- NACL_ABI_EEXIST, st1)
            else if \<not> he_object env then Inr (- NACL_ABI_ENOMEM, st1)
            else let (retval, st2) = NaClHostDirOpen env path st1
                 in if 0 = retval then enter_desc env (he_dir_desc env) st2 else Inr (retval, st2))
         else if flags AND NACL_ABI_O_DIRECTORY \<noteq> 0 then Inr (- NACL_ABI_ENOTDIR, st1)
         else if \<not> he_object env then Inr (- NACL_ABI_ENOMEM, st1)
         else let (retval, st2) = NaClHostDescOpen env path flags mode st1
              in if 0 = retval then enter_desc env (he_io_desc env (flags AND NACL_ABI_O_ACCMODE = 0)) st2
                 else Inr (retval, st2))"

definition NaClSysOpen :: "'h sys_env \<Rightarrow> 'h sys_state \<Rightarrow> u32 \<Rightarrow> u32 \<Rightarrow> u32 \<Rightarrow> (int \<times> 'h sys_state) exec" where
  "NaClSysOpen env st pathname flags mode = with_path env (access_enabled env) pathname (open_work env flags mode) st"

definition stat_out :: "u32 \<Rightarrow> int \<times> host_stat \<times> 'h sys_state \<Rightarrow> (int \<times> 'h sys_state) exec" where
  "stat_out nasp = (\<lambda>(retval, stbuf, st).
     if 0 = retval then
       ebind (NaClCopyOutToUser (app st) (ucast nasp) (NaClAbiStatHostDescStatXlateCtor stbuf)) (\<lambda>copied.
        case copied of
          None \<Rightarrow> Inr (- NACL_ABI_EFAULT, st)
        | Some nap1 \<Rightarrow> Inr (0, st\<lparr>app := nap1\<rparr>))
     else Inr (retval, st))"

definition NaClSysStat :: "'h sys_env \<Rightarrow> 'h sys_state \<Rightarrow> u32 \<Rightarrow> u32 \<Rightarrow> (int \<times> 'h sys_state) exec" where
  "NaClSysStat env st pathname nasp =
     with_path env (access_enabled env) pathname (\<lambda>path st. stat_out nasp (NaClHostDescStat env path st)) st"

definition NaClSysLstat :: "'h sys_env \<Rightarrow> 'h sys_state \<Rightarrow> u32 \<Rightarrow> u32 \<Rightarrow> (int \<times> 'h sys_state) exec" where
  "NaClSysLstat env st pathname nasp =
     with_path env (access_enabled env) pathname (\<lambda>path st. stat_out nasp (NaClHostDescLstat env path st)) st"

definition NaClSysMkdir :: "'h sys_env \<Rightarrow> 'h sys_state \<Rightarrow> u32 \<Rightarrow> u32 \<Rightarrow> (int \<times> 'h sys_state) exec" where
  "NaClSysMkdir env st pathname mode =
     with_path env (access_enabled env) pathname (\<lambda>path st. Inr (NaClHostDescMkdir env path mode st)) st"

definition NaClSysRmdir :: "'h sys_env \<Rightarrow> 'h sys_state \<Rightarrow> u32 \<Rightarrow> (int \<times> 'h sys_state) exec" where
  "NaClSysRmdir env st pathname =
     with_path env (access_enabled env) pathname (\<lambda>path st. Inr (NaClHostDescRmdir env path st)) st"

definition NaClSysChdir :: "'h sys_env \<Rightarrow> 'h sys_state \<Rightarrow> u32 \<Rightarrow> (int \<times> 'h sys_state) exec" where
  "NaClSysChdir env st pathname =
     with_path env (access_enabled env) pathname (\<lambda>path st. Inr (NaClHostDescChdir env path st)) st"

text \<open>The length is an \<open>int\<close> and becomes a \<open>size_t\<close>; the buffer has \<open>NACL_CONFIG_PATH_MAX\<close> bytes.\<close>

definition NaClSysGetcwd :: "'h sys_env \<Rightarrow> 'h sys_state \<Rightarrow> u32 \<Rightarrow> u32 \<Rightarrow> (int \<times> 'h sys_state) exec" where
  "NaClSysGetcwd env st buffer len =
     (if \<not> access_enabled env then Inr (- NACL_ABI_EACCES, st)
      else let len1 = (if sint len \<ge> int NACL_CONFIG_PATH_MAX then word_of_nat (NACL_CONFIG_PATH_MAX - 1) else len);
               (retval, path, st1) = NaClHostDescGetcwd env (scast len1) st
           in if retval \<noteq> 0 then Inr (retval, st1)
              else if length path \<ge> NACL_CONFIG_PATH_MAX then Inl Out_of_bounds
              else CopyHostPathOutToUser env buffer path st1)"

definition NaClSysUnlink :: "'h sys_env \<Rightarrow> 'h sys_state \<Rightarrow> u32 \<Rightarrow> (int \<times> 'h sys_state) exec" where
  "NaClSysUnlink env st pathname =
     with_path env (access_enabled env) pathname (\<lambda>path st. Inr (NaClHostDescUnlink env path st)) st"

definition NaClSysTruncate :: "'h sys_env \<Rightarrow> 'h sys_state \<Rightarrow> u32 \<Rightarrow> u32 \<Rightarrow> (int \<times> 'h sys_state) exec" where
  "NaClSysTruncate env st pathname length_addr =
     with_path env (access_enabled env) pathname (\<lambda>path st.
       ebind (NaClCopyInFromUser (app st) (ucast length_addr) 8) (\<lambda>copied.
         case copied of
           None \<Rightarrow> Inr (- NACL_ABI_EFAULT, st)
         | Some bs \<Rightarrow> Inr (NaClHostDescTruncate env path (le_word bs) st))) st"

definition NaClSysLink :: "'h sys_env \<Rightarrow> 'h sys_state \<Rightarrow> u32 \<Rightarrow> u32 \<Rightarrow> (int \<times> 'h sys_state) exec" where
  "NaClSysLink env st oldname newname =
     with_two_paths env (access_enabled env) oldname newname (\<lambda>p q st. Inr (NaClHostDescLink env p q st)) st"

definition NaClSysRename :: "'h sys_env \<Rightarrow> 'h sys_state \<Rightarrow> u32 \<Rightarrow> u32 \<Rightarrow> (int \<times> 'h sys_state) exec" where
  "NaClSysRename env st oldname newname =
     with_two_paths env (access_enabled env) oldname newname (\<lambda>p q st. Inr (NaClHostDescRename env p q st)) st"

definition NaClSysSymlink :: "'h sys_env \<Rightarrow> 'h sys_state \<Rightarrow> u32 \<Rightarrow> u32 \<Rightarrow> (int \<times> 'h sys_state) exec" where
  "NaClSysSymlink env st oldname newname =
     with_two_paths env (he_bypass env) oldname newname (\<lambda>p q st. Inr (NaClHostDescSymlink env p q st)) st"

definition NaClSysChmod :: "'h sys_env \<Rightarrow> 'h sys_state \<Rightarrow> u32 \<Rightarrow> u32 \<Rightarrow> (int \<times> 'h sys_state) exec" where
  "NaClSysChmod env st pathname mode =
     with_path env (access_enabled env) pathname (\<lambda>path st. Inr (NaClHostDescChmod env path mode st)) st"

definition NaClSysAccess :: "'h sys_env \<Rightarrow> 'h sys_state \<Rightarrow> u32 \<Rightarrow> u32 \<Rightarrow> (int \<times> 'h sys_state) exec" where
  "NaClSysAccess env st pathname amode =
     (if \<not> access_enabled env then Inr (- NACL_ABI_EACCES, st)
      else if amode \<noteq> NACL_ABI_F_OK \<and> amode AND NOT (NACL_ABI_R_OK OR NACL_ABI_W_OK OR NACL_ABI_X_OK) \<noteq> 0
      then Inr (- NACL_ABI_EINVAL, st)
      else with_path env True pathname (\<lambda>path st. Inr (NaClHostDescAccess env path amode st)) st)"

definition readlink_work :: "'h sys_env \<Rightarrow> u32 \<Rightarrow> u32 \<Rightarrow> path \<Rightarrow> 'h sys_state \<Rightarrow> (int \<times> 'h sys_state) exec" where
  "readlink_work env buffer buffer_size path st =
     (let (retval, realpath, st1) = NaClHostDescReadlink env path 1024 st
      in if retval < 0 then Inr (retval, st1)
         else ebind (echeck (length realpath \<le> NACL_CONFIG_PATH_MAX) Check_failed) (\<lambda>_.
           if length realpath = NACL_CONFIG_PATH_MAX then Inr (- NACL_ABI_ENAMETOOLONG, st1)
           else let result_size = min (length realpath) (unat buffer_size)
                in ebind (NaClCopyOutToUser (app st1) (ucast buffer) (take result_size realpath)) (\<lambda>copied.
                   case copied of
                     None \<Rightarrow> Inr (- NACL_ABI_EFAULT, st1)
                   | Some nap1 \<Rightarrow> Inr (int result_size, st1\<lparr>app := nap1\<rparr>))))"

definition NaClSysReadlink :: "'h sys_env \<Rightarrow> 'h sys_state \<Rightarrow> u32 \<Rightarrow> u32 \<Rightarrow> u32 \<Rightarrow> (int \<times> 'h sys_state) exec" where
  "NaClSysReadlink env st pathname buffer buffer_size =
     with_path env (he_bypass env) pathname (readlink_work env buffer buffer_size) st"

definition NaClSysUtimes :: "'h sys_env \<Rightarrow> 'h sys_state \<Rightarrow> u32 \<Rightarrow> u32 \<Rightarrow> (int \<times> 'h sys_state) exec" where
  "NaClSysUtimes env st pathname tms =
     with_path env (access_enabled env) pathname (\<lambda>path st.
       if tms = 0 then Inr (NaClHostDescUtimes env path None st)
       else ebind (NaClCopyInFromUser (app st) (ucast tms) 32) (\<lambda>copied.
            case copied of
              None \<Rightarrow> Inr (- NACL_ABI_EFAULT, st)
            | Some bs \<Rightarrow> Inr (NaClHostDescUtimes env path (Some bs) st))) st"

end
