(* ===== verification/CodeFrame.thy ===== *)
theory CodeFrame
  imports MemCode
begin

text \<open>
  What the three calls on dynamic code leave alone: they write only in the text area, keep the table
  of regions inside it, ask the host only for what mapping the text needs, and touch neither the
  descriptors nor anything beyond the code state.
\<close>

section \<open>The contract of a call\<close>

definition code_step :: "text_env \<Rightarrow> ('h, 'z) code_app_scheme \<Rightarrow> ('h, 'z) code_app_scheme \<Rightarrow> bool" where
  "code_step env a b \<longleftrightarrow>
     (\<exists>rs dg ng. text_frame (a\<lparr>dyn_regs := rs, delete_generation := dg, natp_generation := ng\<rparr>) b)
     \<and> text_asks env a b \<and> (cache_ok a \<longrightarrow> cache_ok b) \<and> (regions_safe a \<longrightarrow> regions_safe b)
     \<and> (\<forall>x. fa_mem b x \<noteq> fa_mem a x \<longrightarrow> unat (mem_start a) + unat (dynamic_text_start a) \<le> unat x
          \<and> unat x < unat (mem_start a) + unat (dynamic_text_end a))"

lemma code_step_refl [simp]: "code_step env a a"
proof -
  have "text_frame (a\<lparr>dyn_regs := dyn_regs a, delete_generation := delete_generation a, natp_generation := natp_generation a\<rparr>) a"
    by (simp add: text_frame_def)
  then show ?thesis unfolding code_step_def using text_asks_refl by blast
qed

lemma code_step_fields:
  assumes "code_step env a b"
  shows "addr_bits b = addr_bits a" "mem_start b = mem_start a" "bundle_size b = bundle_size a"
    "dynamic_text_start b = dynamic_text_start a" "dynamic_text_end b = dynamic_text_end a"
    "desc_tbl b = desc_tbl a" "nd_refs b = nd_refs a" "mem_io_regions b = mem_io_regions a"
    "thread_tbl b = thread_tbl a" "host b = host a" "code_app.more b = code_app.more a"
    "access_faults b = access_faults a" "text_asks env a b"
  using assms by (auto simp: code_step_def text_frame_def)

lemma code_step_trans:
  assumes ab: "code_step env a b" and bc: "code_step env b c"
  shows "code_step env a c"
proof -
  obtain rs dg ng where "text_frame (a\<lparr>dyn_regs := rs, delete_generation := dg, natp_generation := ng\<rparr>) b"
    using ab by (auto simp: code_step_def)
  moreover obtain rs' dg' ng' where
    "text_frame (b\<lparr>dyn_regs := rs', delete_generation := dg', natp_generation := ng'\<rparr>) c"
    using bc by (auto simp: code_step_def)
  ultimately have "text_frame (a\<lparr>dyn_regs := rs', delete_generation := dg', natp_generation := ng'\<rparr>) c"
    by (simp add: text_frame_def)
  moreover have "unat (mem_start a) + unat (dynamic_text_start a) \<le> unat x
      \<and> unat x < unat (mem_start a) + unat (dynamic_text_end a)" if "fa_mem c x \<noteq> fa_mem a x" for x
  proof (cases "fa_mem b x = fa_mem a x")
    case True
    then show ?thesis using bc that code_step_fields [OF ab] by (simp add: code_step_def)
  next
    case False
    then show ?thesis using ab by (simp add: code_step_def)
  qed
  ultimately show ?thesis using ab bc text_asks_trans unfolding code_step_def by blast
qed

text \<open>Mapping and filling text, followed by a write inside the area.\<close>

lemma code_step_frame:
  assumes fr: "text_frame a b" and c: "cache_ok a \<longrightarrow> cache_ok b" and q: "text_asks env a b"
    and m: "\<And>x. fa_mem b x \<noteq> fa_mem a x \<Longrightarrow> unat (mem_start a) + unat (dynamic_text_start a) \<le> unat x
          \<and> unat x < unat (mem_start a) + unat (dynamic_text_end a)"
  shows "code_step env a b"
proof -
  have "text_frame (a\<lparr>dyn_regs := dyn_regs a, delete_generation := delete_generation a, natp_generation := natp_generation a\<rparr>) b"
    using fr by (simp add: text_frame_def)
  then show ?thesis using c q m regions_safe_frame [OF fr] unfolding code_step_def by blast
qed

lemma code_step_write:
  assumes area: "text_area_ok nap" and a: "unat (mem_start nap) + unat (dynamic_text_start nap) \<le> unat a"
    "unat a + length bs \<le> unat (mem_start nap) + unat (dynamic_text_end nap)"
  shows "code_step env nap (nap\<lparr>fa_mem := write_bytes a bs (fa_mem nap)\<rparr>)"
proof (rule code_step_frame)
  have "space_ok nap" and te: "unat (dynamic_text_end nap) \<le> unat (addr_limit nap)"
    using area by (simp_all add: text_area_ok_def)
  then have top: "unat a + length bs \<le> 2 ^ 64" using space_top [of nap] a te by simp
  fix x assume "fa_mem (nap\<lparr>fa_mem := write_bytes a bs (fa_mem nap)\<rparr>) x \<noteq> fa_mem nap x"
  then have "\<not> (unat x < unat a \<or> unat a + length bs \<le> unat x)"
    using write_bytes_other [of a bs x "fa_mem nap"] top by auto
  then show "unat (mem_start nap) + unat (dynamic_text_start nap) \<le> unat x
      \<and> unat x < unat (mem_start nap) + unat (dynamic_text_end nap)"
    using a by linarith
qed (simp_all add: text_frame_def)

lemma code_step_area:
  assumes "code_step env a b" "text_area_ok a"
  shows "text_area_ok b"
  using assms code_step_fields [OF assms(1)] by (simp add: text_area_ok_def space_ok_def addr_limit_def)

lemma code_step_halts:
  assumes area: "text_area_ok nap" and a: "unat (mem_start nap) + unat (dynamic_text_start nap) \<le> unat a"
    "unat a + sz \<le> unat (mem_start nap) + unat (dynamic_text_end nap)" "32 dvd sz"
  shows "code_step env nap (nap\<lparr>fa_mem := ReplaceBundleHeadsWithHalts a sz 32 (fa_mem nap)\<rparr>)"
proof -
  have step: "\<forall>i \<in> set is. 32 * i + 32 \<le> sz \<Longrightarrow> code_step env nap (nap\<lparr>fa_mem := m\<rparr>) \<Longrightarrow>
    code_step env nap (nap\<lparr>fa_mem := foldl (\<lambda>m i. write_bytes (a + of_nat (32 * i)) (le_bytes 4 NACL_HALT_WORD) m) m is\<rparr>)" for "is" m
  proof (induction "is" arbitrary: m)
    case (Cons i "is")
    let ?nap = "nap\<lparr>fa_mem := m\<rparr>" and ?a = "a + of_nat (32 * i)"
    have area1: "text_area_ok ?nap" using code_step_area [OF Cons.prems(2) area] .
    have sp: "space_ok nap" and te: "unat (dynamic_text_end nap) \<le> unat (addr_limit nap)" using area by (simp_all add: text_area_ok_def)
    have i: "32 * i + 32 \<le> sz" using Cons.prems(1) by simp
    have "unat a + 32 * i < 2 ^ 64" using i a(2) te space_top [OF sp] by simp
    then have "unat ?a = unat a + 32 * i"
      using unat_add_nowrap [of a "of_nat (32 * i)"] by (simp add: unat_of_nat del: of_nat_mult)
    then have "code_step env ?nap (?nap\<lparr>fa_mem := write_bytes ?a (le_bytes 4 NACL_HALT_WORD) (fa_mem ?nap)\<rparr>)"
      by (intro code_step_write [OF area1]) (use a i in \<open>simp_all add: le_bytes_def del: of_nat_mult\<close>)
    note s2 = code_step_trans [OF Cons.prems(2) this]
    then show ?case using Cons.IH [of "write_bytes ?a (le_bytes 4 NACL_HALT_WORD) m"] Cons.prems(1) by simp
  qed simp
  have "\<forall>i \<in> set [0 ..< (sz + 31) div 32]. 32 * i + 32 \<le> sz" using a(3) by (auto elim!: dvdE)
  from step [OF this, of "fa_mem nap"] show ?thesis by (simp add: ReplaceBundleHeadsWithHalts_def add.commute [of sz])
qed

lemma code_step_wrapper:
  assumes area: "text_area_ok nap" "cache_ok nap" and env: "shm_limit env"
    and d: "unat (dynamic_text_start nap) \<le> unat dest" "unat dest + unat sz \<le> unat (dynamic_text_end nap)" "sz \<noteq> 0"
    and w: "NaClTextMapWrapper env nap dest sz = Inr (mapped, nap')"
  shows "code_step env nap nap'" "mapped = Some a \<Longrightarrow> a = ucast dest + mem_start nap" "cache_ok nap'"
proof -
  have "unat dest + unat sz \<le> 2 ^ 32" using d area(1) by (simp add: text_area_ok_def)
  note wok = wrapper_ok [OF area(1) d(1) this d(3) area(2) env w]
  then show "mapped = Some a \<Longrightarrow> a = ucast dest + mem_start nap" "cache_ok nap'" by auto
  obtain ks where ks: "shows_pages ks nap nap'" "ks \<subseteq> range_pages nap dest sz"
    using wok by (cases mapped) auto
  show "code_step env nap nap'"
  proof (rule code_step_frame)
    show "text_frame nap nap'" using ks(1) by (simp add: shows_pages_def)
    fix x assume "fa_mem nap' x \<noteq> fa_mem nap x"
    then have "text_page nap x \<in> range_pages nap dest sz" using ks by (auto simp: shows_pages_def)
    then show "unat (mem_start nap) + unat (dynamic_text_start nap) \<le> unat x
        \<and> unat x < unat (mem_start nap) + unat (dynamic_text_end nap)"
      by (rule range_page_area [OF area(1) _ d(1,2)])
  qed (use wok wrapper_asks [OF area(1) d w] in simp_all)
qed

lemma code_step_clear:
  "text_area_ok nap \<Longrightarrow> NaClTextMapClearCacheIfNeeded env nap dest sz = Inr nap' \<Longrightarrow> code_step env nap nap'"
  by (rule code_step_frame) (auto dest: clear_cache_frame clear_cache_ok clear_cache_mem clear_asks)

section \<open>Creating\<close>

text \<open>
  A target that ends with the address space passes the bound of the source and leaves a region outside
  the text (\<open>create_wraps\<close>), so it is excluded here.
\<close>

lemma create_step:
  assumes area: "text_area_ok nap" "cache_ok nap" and env: "shm_limit env" "keeps_length env"
    and nw: "unat dest + unat sz \<noteq> 2 ^ 32"
    and res: "NaClSysDyncodeCreate env nap dest src sz = Inr (r, nap')"
  shows "code_step env nap nap'"
proof (cases "nap' = nap")
  case False
  let ?code = "read_bytes (NaClUserToSysAddrRange nap (ucast src) (ucast sz)) (unat sz) (fa_mem nap)"
  have sp: "space_ok nap" using area(1) by (simp add: text_area_ok_def)
  have c: "NaClTextDyncodeCreate env nap dest ?code sz None = Inr (r, nap')"
    using res False by (auto simp: NaClSysDyncodeCreate_def Let_def split: if_splits)
  have "NaClUserToSysAddrRange nap (ucast dest) (ucast sz) \<noteq> kNaClBadAddress"
    using c False by (auto simp: NaClTextDyncodeCreate_def Let_def split: if_splits)
  then have "unat dest + unat sz < 2 ^ 32"
    using range_ok [OF sp refl] addr_limit_le [OF sp] nw by (fastforce simp: unat_ucast_64)
  from dyncode_frame [OF area env _ this c] obtain rs where f: "text_frame (nap\<lparr>dyn_regs := rs\<rparr>) nap'" "cache_ok nap'" "text_asks env nap nap'"
    "regions_safe nap \<longrightarrow> regions_safe nap'"
    "\<forall>x. fa_mem nap' x \<noteq> fa_mem nap x \<longrightarrow> unat (mem_start nap) + unat (dynamic_text_start nap) \<le> unat x
       \<and> unat x < unat (mem_start nap) + unat (dynamic_text_end nap)" by (auto simp: read_bytes_def)
  have "text_frame (nap\<lparr>dyn_regs := rs, delete_generation := delete_generation nap, natp_generation := natp_generation nap\<rparr>) nap'"
    using f(1) by (simp add: text_frame_def)
  then show ?thesis using f unfolding code_step_def by blast
qed simp

section \<open>Changing\<close>

text \<open>What the replacement of code by the validator promises.\<close>

definition copies_length :: "text_env \<Rightarrow> bool" where
  "copies_length env \<longleftrightarrow> (\<forall>g old new. length (snd (e_CopyCode env g old new)) = length old)"

text \<open>The bundles around a range of the text area.\<close>

lemma bundles_around:
  fixes dest sz :: u32
  assumes area: "text_area_ok nap" and d: "unat (dynamic_text_start nap) \<le> unat dest" "unat dest + unat sz \<le> unat (dynamic_text_end nap)"
    and sz: "sz \<noteq> 0"
  defines "a \<equiv> ucast dest + mem_start nap"
  defines "n \<equiv> ((a + ucast sz - 1 + 32) AND NOT 31) - (a AND NOT 31)"
  shows "unat (dynamic_text_start nap) \<le> unat (dest AND NOT 31)"
    "unat (dest AND NOT 31) + unat (ucast n :: u32) \<le> unat (dynamic_text_end nap)" "(ucast n :: u32) \<noteq> 0"
proof -
  let ?D = "unat dest" and ?M = "unat (mem_start nap)" and ?N = "unat sz"
  have sp: "space_ok nap" and ts: "65536 dvd unat (dynamic_text_start nap)" and te: "65536 dvd unat (dynamic_text_end nap)"
    "unat (dynamic_text_end nap) \<le> unat (addr_limit nap)" "unat (dynamic_text_end nap) \<le> 2 ^ 31"
    using area by (simp_all add: text_area_ok_def)
  have m31: "(31 :: 'w::len word) = mask 5" by (simp add: mask_eq_exp_minus_1)
  have M: "32 dvd ?M" using sp by (auto simp: space_ok_def intro: dvd_trans [of 32 "2 ^ 32"])
  have au: "unat a = ?D + ?M" using unat_user_to_sys [OF sp, of "ucast dest"] d te by (simp add: a_def unat_ucast_64)
  have N: "0 < ?N" using sz by (simp add: unat_gt_0)
  have top: "?M + ?D + ?N + 32 < 2 ^ 64" using space_top [OF sp] d te by simp
  have s1: "unat (a + ucast sz) = ?D + ?M + ?N" using top au by (subst unat_add_nowrap) (simp_all add: unat_ucast_64)
  then have s2: "unat (a + ucast sz - 1) = ?D + ?M + ?N - 1" using N by (intro trans [OF unat_sub_nowrap]) simp_all
  then have s3: "unat (a + ucast sz - 1 + 32) = ?D + ?M + ?N + 31" using top N by (intro trans [OF unat_add_nowrap]) simp_all
  have lo: "unat (a AND NOT 31) = nat_round_down 5 (?D + ?M)" unfolding m31 unat_round_down au ..
  have hi: "unat ((a + ucast sz - 1 + 32) AND NOT 31) = nat_round_up 5 (?D + ?M + ?N)"
    unfolding m31 unat_round_down s3 by (simp add: nat_round_up_eq_down)
  have le: "nat_round_down 5 (?D + ?M) \<le> ?D + ?M" "?D + ?M + ?N \<le> nat_round_up 5 (?D + ?M + ?N)"
    by (rule nat_round_down_le, rule nat_round_up_ge)
  have n: "unat n = nat_round_up 5 (?D + ?M + ?N) - nat_round_down 5 (?D + ?M)"
    unfolding n_def using le unat_sub_nowrap [of "a AND NOT 31" "(a + ucast sz - 1 + 32) AND NOT 31", unfolded lo hi] by linarith
  have dn: "unat (dest AND NOT 31) = nat_round_down 5 ?D" unfolding m31 by (rule unat_round_down)
  have e: "nat_round_down 5 (?D + ?M) = nat_round_down 5 ?D + ?M"
    using M by (auto simp: nat_round_down_def elim!: dvdE)
  have "32 dvd unat (dynamic_text_end nap)" "32 dvd unat (dynamic_text_start nap)"
    using ts te(1) by (auto intro: dvd_trans [of 32 65536])
  then have b: "nat_round_up 5 (?D + ?M + ?N) \<le> unat (dynamic_text_end nap) + ?M"
    "unat (dynamic_text_start nap) \<le> nat_round_down 5 ?D"
    using d M by (auto intro!: nat_round_up_le nat_round_down_ge)
  show "unat (dynamic_text_start nap) \<le> unat (dest AND NOT 31)" using b(2) dn by simp
  have nn: "nat_round_down 5 ?D + unat n \<le> unat (dynamic_text_end nap)" "0 < unat n" using b(1) e le n N by simp_all
  then have "unat (ucast n :: u32) = unat n" using te by (simp add: unsigned_ucast_eq take_bit_nat_eq_self)
  then show "unat (dest AND NOT 31) + unat (ucast n :: u32) \<le> unat (dynamic_text_end nap)" "(ucast n :: u32) \<noteq> 0"
    using nn dn by (auto simp flip: unat_gt_0)
qed

lemma safe_region:
  assumes area: "text_area_ok nap" and safe: "regions_safe nap" and p: "p < length (regions (dyn_regs nap))"
    and u: "NaClUserToSysAddrRange nap (ucast (dest :: u32)) (ucast (sz :: u32)) \<noteq> kNaClBadAddress"
    and r: "dr_start (regions (dyn_regs nap) ! p) \<le> NaClUserToSysAddrRange nap (ucast dest) (ucast sz)"
      "NaClUserToSysAddrRange nap (ucast dest) (ucast sz) + ucast sz
        \<le> dr_start (regions (dyn_regs nap) ! p) + dr_size (regions (dyn_regs nap) ! p)"
  shows "NaClUserToSysAddrRange nap (ucast dest) (ucast sz) = ucast dest + mem_start nap"
    "unat (ucast dest + mem_start nap) = unat dest + unat (mem_start nap)"
    "unat (dynamic_text_start nap) \<le> unat dest" "unat dest + unat sz \<le> unat (dynamic_text_end nap)"
proof -
  let ?r = "regions (dyn_regs nap) ! p" and ?a = "ucast dest + mem_start nap"
  have sp: "space_ok nap" using area by (simp add: text_area_ok_def)
  have ru: "unat dest + unat sz \<le> unat (addr_limit nap)"
    and a: "NaClUserToSysAddrRange nap (ucast dest) (ucast sz) = ?a"
    using range_ok [OF sp refl u] by (simp_all add: unat_ucast_64)
  have au: "unat ?a = unat dest + unat (mem_start nap)"
    using unat_user_to_sys [OF sp, of "ucast dest"] ru by (simp add: unat_ucast_64)
  have "unat (?a + ucast sz) = unat ?a + unat sz"
    using au ru space_top [OF sp] unat_add_nowrap [of ?a "ucast sz"] by (simp add: unat_ucast_64)
  moreover have rs: "region_ok ?r" "unat (mem_start nap) + unat (dynamic_text_start nap) \<le> dr_lo ?r"
    "dr_hi ?r \<le> unat (mem_start nap) + unat (dynamic_text_end nap)"
    using safe p by (auto simp: regions_safe_def regions_ok_def list_all_length)
  ultimately have "dr_lo ?r \<le> unat ?a" "unat ?a + unat sz \<le> dr_hi ?r"
    using r region_okD(2) [OF rs(1)] by (simp_all add: a dr_lo_def word_nat)
  then show "NaClUserToSysAddrRange nap (ucast dest) (ucast sz) = ?a" "unat ?a = unat dest + unat (mem_start nap)"
    "unat (dynamic_text_start nap) \<le> unat dest" "unat dest + unat sz \<le> unat (dynamic_text_end nap)"
    using rs a au by simp_all
qed

lemma found_region:
  assumes sp: "space_ok nap" and safe: "regions_safe nap" and sz: "sz \<noteq> 0"
    and u: "NaClUserToSysAddrRange nap (ucast (dest :: u32)) (ucast (sz :: u32)) = a" "a \<noteq> kNaClBadAddress"
    and f: "NaClDynamicRegionFind (dyn_regs nap) a (ucast sz) = Some p"
  shows "p < length (regions (dyn_regs nap))"
proof -
  have "0 < unat (ucast sz :: u64)" using sz by (simp add: unat_ucast_64 unat_gt_0)
  then show ?thesis using Find_ok(2) [OF _ _ user_range [OF sp u] f] safe by (simp add: regions_safe_def)
qed

lemma modify_step:
  assumes area: "text_area_ok nap" "cache_ok nap" "regions_safe nap" and env: "shm_limit env" "copies_length env"
    and res: "NaClSysDyncodeModify env nap dest src sz = Inr (r, nap')"
  shows "code_step env nap nap'"
proof (cases "nap' = nap")
  case False
  let ?d = "NaClUserToSysAddrRange nap (ucast dest) (ucast sz)" and ?a = "ucast dest + mem_start nap"
  have sp: "space_ok nap" and bs: "bundle_size nap = 32" using area(1) by (simp_all add: text_area_ok_def)
  have b1: "bundle_size nap - 1 = 31" "scast (31 :: u32) = (31 :: u64)" "scast (bundle_size nap) = (32 :: u64)" by (simp_all add: bs)
  let ?n = "ucast (((?d + ucast sz - 1 + 32) AND NOT 31) - (?d AND NOT 31)) :: u32"
  obtain p code1 where p: "NaClDynamicRegionFind (dyn_regs nap) ?d (ucast sz) = Some p" "sz \<noteq> 0" "?d \<noteq> kNaClBadAddress"
    "\<not> (dr_start (regions (dyn_regs nap) ! p) > ?d
        \<or> dr_start (regions (dyn_regs nap) ! p) + dr_size (regions (dyn_regs nap) ! p) < ?d + ucast sz)"
    and go: "ebind (NaClTextMapWrapper env nap (dest AND NOT 31) ?n) (\<lambda>(mapped, nap1).
        case mapped of
          None \<Rightarrow> Inr (- NACL_ABI_ENOMEM, nap1)
        | Some mapped_addr \<Rightarrow>
            let (status, data) = NaClCopyCode env (ucast (dest AND NOT 31)) (read_bytes mapped_addr (unat ?n) (fa_mem nap1)) code1;
                nap2 = nap1\<lparr>fa_mem := write_bytes mapped_addr data (fa_mem nap1)\<rparr>
            in if LOAD_OK \<noteq> status then Inr (- NACL_ABI_EINVAL, nap2)
               else ebind (NaClTextMapClearCacheIfNeeded env nap2 (dest AND NOT 31) ?n) (\<lambda>nap3. Inr (0, nap3))) = Inr (r, nap')"
    using res False unfolding NaClSysDyncodeModify_def Let_def modify_region_ok_def b1
    by (cases "user_access nap False (NaClUserToSysAddrRange nap (ucast src) (ucast sz)) (unat sz)")
      (simp_all del: ebind_eq_Inr user_access_Inr add: echeck_def split: if_splits option.splits)
  have pl: "p < length (regions (dyn_regs nap))" by (rule found_region [OF sp area(3) p(2) refl p(3,1)])
  note dest = safe_region [OF area(1,3) pl p(3)]
  have d: "?d = ?a" "unat (dynamic_text_start nap) \<le> unat dest" "unat dest + unat sz \<le> unat (dynamic_text_end nap)"
    using dest p(4) by (simp_all add: not_less)
  note b = bundles_around [OF area(1) d(2,3) p(2)]
  obtain mapped nap1 where w: "NaClTextMapWrapper env nap (dest AND NOT 31) ?n = Inr (mapped, nap1)" using go by auto
  have n: "?n = ucast (((?a + ucast sz - 1 + 32) AND NOT 31) - (?a AND NOT 31))" unfolding d(1) ..
  note wr = code_step_wrapper [OF area(1,2) env(1) b [folded n] w]
  show ?thesis
  proof (cases mapped)
    case None
    then show ?thesis using go w wr(1) by simp
  next
    case (Some m)
    let ?old = "read_bytes m (unat ?n) (fa_mem nap1)"
    obtain status data where c: "NaClCopyCode env (ucast (dest AND NOT 31)) ?old code1 = (status, data)" by fastforce
    let ?nap2 = "nap1\<lparr>fa_mem := write_bytes m data (fa_mem nap1)\<rparr>"
    have len: "length data = unat ?n"
    proof -
      have "length (snd (e_CopyCode env (ucast (dest AND NOT 31)) ?old code1)) = length ?old"
        using env(2) by (simp add: copies_length_def)
      then show ?thesis using c by (auto simp: NaClCopyCode_def read_bytes_def split: prod.splits)
    qed
    have "unat (dynamic_text_end nap) \<le> unat (addr_limit nap)" using area(1) by (simp add: text_area_ok_def)
    then have bu: "unat (ucast (dest AND NOT 31) + mem_start nap) = unat (dest AND NOT 31) + unat (mem_start nap)"
      using unat_user_to_sys [OF sp, of "ucast (dest AND NOT 31)"] b [folded n] by (simp add: unat_ucast_64)
    have area1: "text_area_ok nap1" by (rule code_step_area [OF wr(1) area(1)])
    note f = code_step_fields [OF wr(1)]
    have "code_step env nap1 ?nap2"
      by (rule code_step_write [OF area1]) (use wr(2) Some b [folded n] len bu in \<open>simp_all add: f\<close>)
    then have s2: "code_step env nap ?nap2" using wr(1) code_step_trans by blast
    show ?thesis
    proof (cases "LOAD_OK \<noteq> status")
      case True
      then show ?thesis using go w Some c s2 by (simp add: Let_def)
    next
      case False
      then have "NaClTextMapClearCacheIfNeeded env ?nap2 (dest AND NOT 31) ?n = Inr nap'"
        using go w Some c by (auto simp: Let_def)
      then show ?thesis using s2 code_step_clear [OF code_step_area [OF s2 area(1)]] code_step_trans by blast
    qed
  qed
qed simp

section \<open>Deleting\<close>

lemma code_step_regs:
  assumes "regions_safe nap \<Longrightarrow> regions_safe (nap\<lparr>dyn_regs := rs, delete_generation := dg, natp_generation := ng\<rparr>)"
  shows "code_step env nap (nap\<lparr>dyn_regs := rs, delete_generation := dg, natp_generation := ng\<rparr>)"
proof -
  let ?nap = "nap\<lparr>dyn_regs := rs, delete_generation := dg, natp_generation := ng\<rparr>"
  have "text_frame ?nap ?nap" "cache_ok ?nap = cache_ok nap" by (simp_all add: cache_ok_def shown_def)
  then show ?thesis using assms unfolding code_step_def by (intro conjI exI [of _ rs] exI [of _ dg] exI [of _ ng]) simp_all
qed

lemma regions_safe_keys:
  assumes safe: "regions_safe nap" and ok: "regions_ok rs"
    and k: "region_key ` set (regions rs) \<subseteq> region_key ` set (regions (dyn_regs nap))"
  shows "regions_safe (nap\<lparr>dyn_regs := rs, delete_generation := dg, natp_generation := ng\<rparr>)"
proof -
  have "unat (mem_start nap) + unat (dynamic_text_start nap) \<le> dr_lo r
      \<and> dr_hi r \<le> unat (mem_start nap) + unat (dynamic_text_end nap) \<and> 32 dvd dr_lo r \<and> 32 dvd dr_hi r"
    if "r \<in> set (regions rs)" for r
  proof -
    have "region_key r \<in> region_key ` set (regions (dyn_regs nap))" using k imageI [OF that] by (rule subsetD)
    then obtain r' where r': "r' \<in> set (regions (dyn_regs nap))" "region_key r = region_key r'" by (elim imageE)
    then have "dr_lo r = dr_lo r'" "dr_hi r = dr_hi r'" by (simp_all add: region_key_def dr_lo_def dr_hi_def)
    then show ?thesis using safe r'(1) by (simp add: regions_safe_def)
  qed
  then show ?thesis using ok by (simp add: regions_safe_def)
qed

lemma generation_step:
  "NaClSetThreadGeneration nap natp g = Inr nap' \<Longrightarrow> code_step env nap nap'"
  using code_step_regs [where nap = nap and rs = "dyn_regs nap" and dg = "delete_generation nap"
    and ng = "(natp_generation nap)(natp := g)"]
  by (auto dest!: set_generation simp: regions_safe_def)

lemma first_deletion_step:
  assumes area: "text_area_ok nap" "cache_ok nap" "regions_safe nap" and env: "shm_limit env"
    and d: "unat (dynamic_text_start nap) \<le> unat dest" "unat dest + unat sz \<le> unat (dynamic_text_end nap)"
      "sz \<noteq> 0" "32 dvd unat sz"
    and res: "first_deletion env nap dest sz p = Inr (r, nap')"
  shows "code_step env nap nap'"
proof (cases "nap' = nap")
  case False
  have sp: "space_ok nap" and bs: "bundle_size nap = 32" and te: "unat (dynamic_text_end nap) \<le> unat (addr_limit nap)"
    using area(1) by (simp_all add: text_area_ok_def)
  obtain mapped nap1 where w: "NaClTextMapWrapper env nap dest sz = Inr (mapped, nap1)"
    "(case mapped of
          None \<Rightarrow> Inr (- NACL_ABI_ENOMEM, nap1)
        | Some mapped_addr \<Rightarrow>
            let m = ReplaceBundleHeadsWithHalts mapped_addr (unat sz) (scast (bundle_size nap1)) (fa_mem nap1)
            in ebind (NaClTextMapClearCacheIfNeeded env (nap1\<lparr>fa_mem := m\<rparr>) dest sz) (\<lambda>nap2.
                 let g = delete_generation nap2 + 1;
                     rs = regions (dyn_regs nap2)
                 in Inr (0, nap2\<lparr>delete_generation := g,
                      dyn_regs := (dyn_regs nap2)\<lparr>regions := rs[p := (rs ! p)\<lparr>dr_delete_generation := g\<rparr>]\<rparr>\<rparr>))) = Inr (r, nap')"
    using res False by (auto simp: first_deletion_def simp del: ebind_eq_Inr split: if_splits) (auto simp: ebind_def split: sum.splits)
  note wr = code_step_wrapper [OF area(1,2) env d(1-3) w(1)]
  show ?thesis
  proof (cases mapped)
    case None
    then show ?thesis using w wr(1) by simp
  next
    case (Some a)
    note f = code_step_fields [OF wr(1)]
    let ?m = "ReplaceBundleHeadsWithHalts a (unat sz) 32 (fa_mem nap1)"
    have au: "unat a = unat dest + unat (mem_start nap)"
      using wr(2) [OF Some] unat_user_to_sys [OF sp, of "ucast dest"] d te by (simp add: unat_ucast_64)
    have "code_step env nap1 (nap1\<lparr>fa_mem := ?m\<rparr>)"
      by (rule code_step_halts [OF code_step_area [OF wr(1) area(1)]]) (use au d in \<open>simp_all add: f\<close>)
    then have s2: "code_step env nap (nap1\<lparr>fa_mem := ?m\<rparr>)" using wr(1) code_step_trans by blast
    obtain nap2 where c: "NaClTextMapClearCacheIfNeeded env (nap1\<lparr>fa_mem := ?m\<rparr>) dest sz = Inr nap2"
      "nap' = nap2\<lparr>delete_generation := delete_generation nap2 + 1,
                      dyn_regs := (dyn_regs nap2)\<lparr>regions := (regions (dyn_regs nap2))
                        [p := (regions (dyn_regs nap2) ! p)\<lparr>dr_delete_generation := delete_generation nap2 + 1\<rparr>]\<rparr>\<rparr>"
      using w(2) Some by (auto simp: Let_def f bs)
    have s3: "code_step env nap nap2" using s2 code_step_clear [OF code_step_area [OF s2 area(1)] c(1)] code_step_trans by blast
    let ?rs = "(dyn_regs nap2)\<lparr>regions := (regions (dyn_regs nap2))
                        [p := (regions (dyn_regs nap2) ! p)\<lparr>dr_delete_generation := delete_generation nap2 + 1\<rparr>]\<rparr>"
    have keys: "map region_key (regions ?rs) = map region_key (regions (dyn_regs nap2))" by simp
    have "regions_safe (nap2\<lparr>dyn_regs := ?rs, delete_generation := dg, natp_generation := ng\<rparr>)" if "regions_safe nap2" for dg ng
    proof (rule regions_safe_keys [OF that])
      show "regions_ok ?rs" using that regions_ok_key [OF keys] by (simp add: regions_safe_def)
      show "region_key ` set (regions ?rs) \<subseteq> region_key ` set (regions (dyn_regs nap2))"
        using arg_cong [OF keys, of set] by (simp only: set_map)
    qed
    from code_step_regs [OF this, of env "natp_generation nap2" "delete_generation nap2 + 1"]
    have "code_step env nap2 nap'" unfolding c(2) by (cases nap2) simp
    then show ?thesis using s3 code_step_trans by blast
  qed
qed simp

lemma delete_step:
  assumes area: "text_area_ok nap" "cache_ok nap" "regions_safe nap" and env: "shm_limit env"
    and res: "NaClSysDyncodeDelete env nap natp dest sz = Inr (r, nap')"
  shows "code_step env nap nap'"
proof (cases "nap' = nap")
  case False
  let ?d = "NaClUserToSysAddrRange nap (ucast dest) (ucast sz)"
  have sp: "space_ok nap" using area(1) by (simp add: text_area_ok_def)
  show ?thesis
  proof (cases "sz = 0")
    case True
    then show ?thesis using res False generation_step by (auto simp: NaClSysDyncodeDelete_def split: if_splits)
  next
    case sz: False
    obtain p where p: "?d \<noteq> kNaClBadAddress" "NaClDynamicRegionFind (dyn_regs nap) ?d (ucast sz) = Some p"
      using res False sz by (auto simp: NaClSysDyncodeDelete_def Let_def split: if_splits option.splits)
    let ?r = "regions (dyn_regs nap) ! p"
    have pl: "p < length (regions (dyn_regs nap))" by (rule found_region [OF sp area(3) sz refl p(1,2)])
    have k: "dr_start ?r = ?d" "dr_size ?r = ucast sz"
      using res False sz p by (auto simp: NaClSysDyncodeDelete_def Let_def split: if_splits)
    obtain rc nap1 where s1: "(if dr_delete_generation ?r < 0 then first_deletion env nap dest sz p else Inr (0, nap)) = Inr (rc, nap1)"
      "(if rc \<noteq> 0 then Inr (rc, nap1)
          else ebind (NaClSetThreadGeneration nap1 natp (delete_generation nap1)) (\<lambda>nap2.
            if dr_delete_generation (regions (dyn_regs nap2) ! p) \<le> NaClMinimumThreadGeneration nap2
            then ebind (NaClDynamicRegionDelete (e_mem env) (dyn_regs nap2) p) (\<lambda>rs. Inr (0, nap2\<lparr>dyn_regs := rs\<rparr>))
            else Inr (- NACL_ABI_EAGAIN, nap2))) = Inr (r, nap')"
      using res False sz p k unfolding NaClSysDyncodeDelete_def Let_def
      by (auto simp del: ebind_eq_Inr split: if_splits) (auto simp: ebind_def split: sum.splits)
    have c1: "code_step env nap nap1 \<and> length (regions (dyn_regs nap1)) = length (regions (dyn_regs nap))"
    proof (cases "dr_delete_generation ?r < 0")
      case True
      have "unat (dynamic_text_start nap) \<le> unat dest" "unat dest + unat sz \<le> unat (dynamic_text_end nap)"
        using safe_region(3,4) [OF area(1,3) pl p(1)] k by simp_all
      moreover have "32 dvd unat sz"
      proof -
        have "32 dvd dr_lo ?r" "32 dvd dr_hi ?r" using area(3) pl by (auto simp: regions_safe_def)
        then show ?thesis using k(2) dvd_diff_nat [of 32 "dr_hi ?r" "dr_lo ?r"] by (simp add: dr_lo_def dr_hi_def unat_ucast_64)
      qed
      moreover have f: "first_deletion env nap dest sz p = Inr (rc, nap1)" using s1(1) True by simp
      ultimately show ?thesis using first_deletion_step [OF area env _ _ sz] first_deletion_ok [OF f] by (auto split: if_splits)
    next
      case False
      then show ?thesis using s1(1) by simp
    qed
    show ?thesis
    proof (cases "rc = 0")
      case False
      then show ?thesis using s1(2) c1 by simp
    next
      case True
      then obtain nap2 where g: "NaClSetThreadGeneration nap1 natp (delete_generation nap1) = Inr nap2" using s1(2) by auto
      have c2: "code_step env nap nap2" using c1 generation_step [OF g] code_step_trans by blast
      have l2: "length (regions (dyn_regs nap2)) = length (regions (dyn_regs nap))" using c1 set_generation [OF g] by simp
      show ?thesis
      proof (cases "nap' = nap2")
        case True
        then show ?thesis using c2 by simp
      next
        case no: False
        obtain rs where rs: "NaClDynamicRegionDelete (e_mem env) (dyn_regs nap2) p = Inr rs" "nap' = nap2\<lparr>dyn_regs := rs\<rparr>"
          using s1(2) True g no by (auto split: if_splits)
        have "regions_safe (nap2\<lparr>dyn_regs := rs, delete_generation := dg, natp_generation := ng\<rparr>)" if "regions_safe nap2" for dg ng
          using delete_keys [OF _ _ rs(1)] that pl l2 by (intro regions_safe_keys) (auto simp: regions_safe_def)
        from code_step_regs [OF this, of env "natp_generation nap2" "delete_generation nap2"]
        have "code_step env nap2 nap'" unfolding rs(2) by (cases nap2) simp
        then show ?thesis using c2 code_step_trans by blast
      qed
    qed
  qed
qed simp

end
