(* ===== verification/SysTable.thy ===== *)
theory SysTable
  imports SysList SysPaths CodeFrame FdRun
begin

text \<open>
  The table of system calls: the numbers (\<open>include/bits/nacl_syscalls.h\<close>), the decoders that copy the
  arguments in (\<open>nacl_syscall_register.h\<close>) and the registration of the calls
  (\<open>nacl_syscall_list.c\<close>, \<open>NaClAddSyscall\<close> in \<open>nacl_syscall_common.c\<close>).
\<close>

section \<open>Handlers\<close>

text \<open>
  The implementation of a call takes its arguments as 32-bit words. The parameter
  \<open>unmodelled\<close> stands for the calls
  that the development does not model (\<open>unmodelled_numbers\<close> in \<open>SysSafe\<close>): the calls of IMC, the creation and
  end of threads, and the two calls that leave the sandbox, which do not return here (\<open>DynCall\<close>). The
  calls on files, memory, code, paths, clocks, threads, locks and futexes are those of the components.
\<close>

type_synonym 'h sys_func = "'h sys_env \<Rightarrow> u32 list \<Rightarrow> 'h sys_state \<Rightarrow> (int \<times> 'h sys_state) exec"

definition on_app ::
    "('h sys_env \<Rightarrow> u32 list \<Rightarrow> 'h mem_app \<Rightarrow> (int \<times> 'h mem_app) exec) \<Rightarrow> 'h sys_func" where
  "on_app f env a st = ebind (f env a (app st)) (\<lambda>(r, nap). Inr (r, st\<lparr>app := nap\<rparr>))"

definition fd_call_run :: "'h sys_env \<Rightarrow> fd_call \<Rightarrow> ('h, 'z) fd_app_scheme \<Rightarrow> (int \<times> ('h, 'z) fd_app_scheme) exec" where
  "fd_call_run env c nap = fd_exec (he_bypass env) (he_rootdir env) (me_vt (he_mem env)) (he_realloc env) (he_rng env) c nap"

text \<open>
  The macro \<open>NACL_DEFINE_SYSCALL_N\<close>: the arguments lie at \<open>usr_syscall_args\<close> as words. With no
  arguments nothing is read.
\<close>

definition syscall_words :: "nat \<Rightarrow> u8 list \<Rightarrow> u32 list" where
  "syscall_words n bs = map (\<lambda>i. le_word (take 4 (drop (4 * i) bs))) [0 ..< n]"

definition syscall_decoder :: "nat \<Rightarrow> 'h sys_func \<Rightarrow> 'h sys_env \<Rightarrow> 'h sys_state \<Rightarrow> (int \<times> 'h sys_state) exec" where
  "syscall_decoder n f env st =
     (if n = 0 then f env [] st
      else ebind (NaClCopyInFromUserAndDropLock (app st) (usr_syscall_args (natp st)) (4 * n)) (\<lambda>copied.
           case copied of
             None \<Rightarrow> Inr (- NACL_ABI_EFAULT, st)
           | Some bs \<Rightarrow> f env (syscall_words n bs) st))"

section \<open>Registration\<close>

definition NACL_MAX_SYSCALLS :: nat where "NACL_MAX_SYSCALLS = 151"

text \<open>
  The table of \<open>struct NaClApp\<close>: \<open>None\<close> is \<open>NaClSysNotImplementedDecoder\<close>, the entry of every number
  before its registration.
\<close>

type_synonym 'h sys_table = "(nat \<times> 'h sys_func) option list"

definition NaClSysNotImplementedDecoder :: "'h sys_state \<Rightarrow> (int \<times> 'h sys_state) exec" where
  "NaClSysNotImplementedDecoder st = Inr (- NACL_ABI_ENOSYS, st)"

definition NaClAddSyscall :: "'h sys_table \<Rightarrow> nat \<Rightarrow> nat \<times> 'h sys_func \<Rightarrow> 'h sys_table exec" where
  "NaClAddSyscall table num fn =
     ebind (echeck (num < NACL_MAX_SYSCALLS) Check_failed) (\<lambda>_.
       if table ! num \<noteq> None then Inl Log_fatal else Inr (table[num := Some fn]))"

fun register_all :: "(nat \<times> nat \<times> 'h sys_func) list \<Rightarrow> 'h sys_table \<Rightarrow> 'h sys_table exec" where
  "register_all [] table = Inr table"
| "register_all ((num, fn) # rest) table = ebind (NaClAddSyscall table num fn) (register_all rest)"

section \<open>The numbers\<close>

definition NACL_sys_null :: nat where "NACL_sys_null = 1"
definition NACL_sys_dup :: nat where "NACL_sys_dup = 8"
definition NACL_sys_dup2 :: nat where "NACL_sys_dup2 = 9"
definition NACL_sys_open :: nat where "NACL_sys_open = 10"
definition NACL_sys_close :: nat where "NACL_sys_close = 11"
definition NACL_sys_read :: nat where "NACL_sys_read = 12"
definition NACL_sys_write :: nat where "NACL_sys_write = 13"
definition NACL_sys_lseek :: nat where "NACL_sys_lseek = 14"
definition NACL_sys_stat :: nat where "NACL_sys_stat = 16"
definition NACL_sys_fstat :: nat where "NACL_sys_fstat = 17"
definition NACL_sys_chmod :: nat where "NACL_sys_chmod = 18"
definition NACL_sys_isatty :: nat where "NACL_sys_isatty = 19"
definition NACL_sys_brk :: nat where "NACL_sys_brk = 20"
definition NACL_sys_mmap :: nat where "NACL_sys_mmap = 21"
definition NACL_sys_munmap :: nat where "NACL_sys_munmap = 22"
definition NACL_sys_getdents :: nat where "NACL_sys_getdents = 23"
definition NACL_sys_mprotect :: nat where "NACL_sys_mprotect = 24"
definition NACL_sys_list_mappings :: nat where "NACL_sys_list_mappings = 25"
definition NACL_sys_fsync :: nat where "NACL_sys_fsync = 26"
definition NACL_sys_fdatasync :: nat where "NACL_sys_fdatasync = 27"
definition NACL_sys_fchmod :: nat where "NACL_sys_fchmod = 28"
definition NACL_sys_exit :: nat where "NACL_sys_exit = 30"
definition NACL_sys_getpid :: nat where "NACL_sys_getpid = 31"
definition NACL_sys_sched_yield :: nat where "NACL_sys_sched_yield = 32"
definition NACL_sys_sysconf :: nat where "NACL_sys_sysconf = 33"
definition NACL_sys_gettimeofday :: nat where "NACL_sys_gettimeofday = 40"
definition NACL_sys_clock :: nat where "NACL_sys_clock = 41"
definition NACL_sys_nanosleep :: nat where "NACL_sys_nanosleep = 42"
definition NACL_sys_clock_getres :: nat where "NACL_sys_clock_getres = 43"
definition NACL_sys_clock_gettime :: nat where "NACL_sys_clock_gettime = 44"
definition NACL_sys_mkdir :: nat where "NACL_sys_mkdir = 45"
definition NACL_sys_rmdir :: nat where "NACL_sys_rmdir = 46"
definition NACL_sys_chdir :: nat where "NACL_sys_chdir = 47"
definition NACL_sys_getcwd :: nat where "NACL_sys_getcwd = 48"
definition NACL_sys_unlink :: nat where "NACL_sys_unlink = 49"
definition NACL_sys_fchdir :: nat where "NACL_sys_fchdir = 50"
definition NACL_sys_ftruncate :: nat where "NACL_sys_ftruncate = 52"
definition NACL_sys_imc_makeboundsock :: nat where "NACL_sys_imc_makeboundsock = 60"
definition NACL_sys_imc_accept :: nat where "NACL_sys_imc_accept = 61"
definition NACL_sys_imc_connect :: nat where "NACL_sys_imc_connect = 62"
definition NACL_sys_imc_sendmsg :: nat where "NACL_sys_imc_sendmsg = 63"
definition NACL_sys_imc_recvmsg :: nat where "NACL_sys_imc_recvmsg = 64"
definition NACL_sys_imc_mem_obj_create :: nat where "NACL_sys_imc_mem_obj_create = 65"
definition NACL_sys_imc_socketpair :: nat where "NACL_sys_imc_socketpair = 66"
definition NACL_sys_mutex_create :: nat where "NACL_sys_mutex_create = 70"
definition NACL_sys_mutex_lock :: nat where "NACL_sys_mutex_lock = 71"
definition NACL_sys_mutex_trylock :: nat where "NACL_sys_mutex_trylock = 72"
definition NACL_sys_mutex_unlock :: nat where "NACL_sys_mutex_unlock = 73"
definition NACL_sys_cond_create :: nat where "NACL_sys_cond_create = 74"
definition NACL_sys_cond_wait :: nat where "NACL_sys_cond_wait = 75"
definition NACL_sys_cond_signal :: nat where "NACL_sys_cond_signal = 76"
definition NACL_sys_cond_broadcast :: nat where "NACL_sys_cond_broadcast = 77"
definition NACL_sys_cond_timed_wait_abs :: nat where "NACL_sys_cond_timed_wait_abs = 79"
definition NACL_sys_thread_create :: nat where "NACL_sys_thread_create = 80"
definition NACL_sys_thread_exit :: nat where "NACL_sys_thread_exit = 81"
definition NACL_sys_tls_init :: nat where "NACL_sys_tls_init = 82"
definition NACL_sys_thread_nice :: nat where "NACL_sys_thread_nice = 83"
definition NACL_sys_tls_get :: nat where "NACL_sys_tls_get = 84"
definition NACL_sys_second_tls_set :: nat where "NACL_sys_second_tls_set = 85"
definition NACL_sys_second_tls_get :: nat where "NACL_sys_second_tls_get = 86"
definition NACL_sys_exception_handler :: nat where "NACL_sys_exception_handler = 87"
definition NACL_sys_exception_stack :: nat where "NACL_sys_exception_stack = 88"
definition NACL_sys_exception_clear_flag :: nat where "NACL_sys_exception_clear_flag = 89"
definition NACL_sys_sem_create :: nat where "NACL_sys_sem_create = 100"
definition NACL_sys_sem_wait :: nat where "NACL_sys_sem_wait = 101"
definition NACL_sys_sem_post :: nat where "NACL_sys_sem_post = 102"
definition NACL_sys_sem_get_value :: nat where "NACL_sys_sem_get_value = 103"
definition NACL_sys_dyncode_create :: nat where "NACL_sys_dyncode_create = 104"
definition NACL_sys_dyncode_modify :: nat where "NACL_sys_dyncode_modify = 105"
definition NACL_sys_dyncode_delete :: nat where "NACL_sys_dyncode_delete = 106"
definition NACL_sys_test_infoleak :: nat where "NACL_sys_test_infoleak = 109"
definition NACL_sys_test_crash :: nat where "NACL_sys_test_crash = 110"
definition NACL_sys_test_syscall_1 :: nat where "NACL_sys_test_syscall_1 = 111"
definition NACL_sys_test_syscall_2 :: nat where "NACL_sys_test_syscall_2 = 112"
definition NACL_sys_exit_sandbox :: nat where "NACL_sys_exit_sandbox = 114"
definition NACL_sys_callback :: nat where "NACL_sys_callback = 115"
definition NACL_sys_futex_wait_abs :: nat where "NACL_sys_futex_wait_abs = 120"
definition NACL_sys_futex_wake :: nat where "NACL_sys_futex_wake = 121"
definition NACL_sys_pread :: nat where "NACL_sys_pread = 130"
definition NACL_sys_pwrite :: nat where "NACL_sys_pwrite = 131"
definition NACL_sys_truncate :: nat where "NACL_sys_truncate = 140"
definition NACL_sys_lstat :: nat where "NACL_sys_lstat = 141"
definition NACL_sys_link :: nat where "NACL_sys_link = 142"
definition NACL_sys_rename :: nat where "NACL_sys_rename = 143"
definition NACL_sys_symlink :: nat where "NACL_sys_symlink = 144"
definition NACL_sys_access :: nat where "NACL_sys_access = 145"
definition NACL_sys_readlink :: nat where "NACL_sys_readlink = 146"
definition NACL_sys_utimes :: nat where "NACL_sys_utimes = 147"
definition NACL_sys_get_random_bytes :: nat where "NACL_sys_get_random_bytes = 150"

lemmas sys_numbers =
  NACL_sys_null_def NACL_sys_dup_def NACL_sys_dup2_def
  NACL_sys_open_def NACL_sys_close_def NACL_sys_read_def
  NACL_sys_write_def NACL_sys_lseek_def NACL_sys_stat_def
  NACL_sys_fstat_def NACL_sys_chmod_def NACL_sys_isatty_def
  NACL_sys_brk_def NACL_sys_mmap_def NACL_sys_munmap_def
  NACL_sys_getdents_def NACL_sys_mprotect_def NACL_sys_list_mappings_def
  NACL_sys_fsync_def NACL_sys_fdatasync_def NACL_sys_fchmod_def
  NACL_sys_exit_def NACL_sys_getpid_def NACL_sys_sched_yield_def
  NACL_sys_sysconf_def NACL_sys_gettimeofday_def NACL_sys_clock_def
  NACL_sys_nanosleep_def NACL_sys_clock_getres_def NACL_sys_clock_gettime_def
  NACL_sys_mkdir_def NACL_sys_rmdir_def NACL_sys_chdir_def
  NACL_sys_getcwd_def NACL_sys_unlink_def NACL_sys_fchdir_def
  NACL_sys_ftruncate_def NACL_sys_imc_makeboundsock_def NACL_sys_imc_accept_def
  NACL_sys_imc_connect_def NACL_sys_imc_sendmsg_def NACL_sys_imc_recvmsg_def
  NACL_sys_imc_mem_obj_create_def NACL_sys_imc_socketpair_def NACL_sys_mutex_create_def
  NACL_sys_mutex_lock_def NACL_sys_mutex_trylock_def NACL_sys_mutex_unlock_def
  NACL_sys_cond_create_def NACL_sys_cond_wait_def NACL_sys_cond_signal_def
  NACL_sys_cond_broadcast_def NACL_sys_cond_timed_wait_abs_def NACL_sys_thread_create_def
  NACL_sys_thread_exit_def NACL_sys_tls_init_def NACL_sys_thread_nice_def
  NACL_sys_tls_get_def NACL_sys_second_tls_set_def NACL_sys_second_tls_get_def
  NACL_sys_exception_handler_def NACL_sys_exception_stack_def NACL_sys_exception_clear_flag_def
  NACL_sys_sem_create_def NACL_sys_sem_wait_def NACL_sys_sem_post_def
  NACL_sys_sem_get_value_def NACL_sys_dyncode_create_def NACL_sys_dyncode_modify_def
  NACL_sys_dyncode_delete_def NACL_sys_test_infoleak_def NACL_sys_test_crash_def
  NACL_sys_test_syscall_1_def NACL_sys_test_syscall_2_def NACL_sys_exit_sandbox_def
  NACL_sys_callback_def NACL_sys_futex_wait_abs_def NACL_sys_futex_wake_def
  NACL_sys_pread_def NACL_sys_pwrite_def NACL_sys_truncate_def
  NACL_sys_lstat_def NACL_sys_link_def NACL_sys_rename_def
  NACL_sys_symlink_def NACL_sys_access_def NACL_sys_readlink_def
  NACL_sys_utimes_def NACL_sys_get_random_bytes_def

section \<open>The calls\<close>

text \<open>Each call with its number, the number of its arguments and its implementation.\<close>

definition default_syscalls :: "(nat \<Rightarrow> 'h sys_func) \<Rightarrow> (nat \<times> nat \<times> 'h sys_func) list" where
  "default_syscalls unmodelled = [
  (NACL_sys_null, 0, on_app (\<lambda>env a nap. NaClSysNull nap)),
  (NACL_sys_dup, 1, on_app (\<lambda>env a. fd_call_run env (Sys_dup (a ! 0)))),
  (NACL_sys_dup2, 2, on_app (\<lambda>env a. fd_call_run env (Sys_dup2 (a ! 0) (a ! 1)))),
  (NACL_sys_open, 3, (\<lambda>env a st. NaClSysOpen env st (a ! 0) (a ! 1) (a ! 2))),
  (NACL_sys_close, 1, on_app (\<lambda>env a. fd_call_run env (Sys_close (a ! 0)))),
  (NACL_sys_read, 3, on_app (\<lambda>env a. fd_call_run env (Sys_read (a ! 0) (a ! 1) (a ! 2)))),
  (NACL_sys_write, 3, on_app (\<lambda>env a. fd_call_run env (Sys_write (a ! 0) (a ! 1) (a ! 2)))),
  (NACL_sys_lseek, 3, on_app (\<lambda>env a. fd_call_run env (Sys_lseek (a ! 0) (a ! 1) (sint (a ! 2))))),
  (NACL_sys_fstat, 2, on_app (\<lambda>env a. fd_call_run env (Sys_fstat (a ! 0) (a ! 1)))),
  (NACL_sys_stat, 2, (\<lambda>env a st. NaClSysStat env st (a ! 0) (a ! 1))),
  (NACL_sys_getdents, 3, on_app (\<lambda>env a. fd_call_run env (Sys_getdents (a ! 0) (a ! 1) (ucast (a ! 2))))),
  (NACL_sys_isatty, 1, on_app (\<lambda>env a. fd_call_run env (Sys_isatty (a ! 0)))),
  (NACL_sys_brk, 1, on_app (\<lambda>env a. mem_call_run (he_mem env) (Brk (a ! 0)))),
  (NACL_sys_mmap, 6, on_app (\<lambda>env a. mem_call_run (he_mem env) (Mmap (a ! 0) (a ! 1) (a ! 2) (a ! 3) (a ! 4) (a ! 5)))),
  (NACL_sys_mprotect, 3, on_app (\<lambda>env a. mem_call_run (he_mem env) (Mprotect (a ! 0) (a ! 1) (a ! 2)))),
  (NACL_sys_list_mappings, 2, (\<lambda>env a st. on_app (\<lambda>env a nap. NaClSysListMappings (he_alloc env) (he_mem env) (enable_list_mappings st) nap (a ! 0) (a ! 1)) env a st)),
  (NACL_sys_munmap, 2, on_app (\<lambda>env a. mem_call_run (he_mem env) (Munmap (a ! 0) (a ! 1)))),
  (NACL_sys_exit, 1, unmodelled NACL_sys_exit),
  (NACL_sys_getpid, 0, on_app (\<lambda>env a nap. NaClSysGetpid env nap)),
  (NACL_sys_thread_exit, 1, unmodelled NACL_sys_thread_exit),
  (NACL_sys_gettimeofday, 1, on_app (\<lambda>env a nap. NaClSysGetTimeOfDay env nap (a ! 0))),
  (NACL_sys_clock, 0, on_app (\<lambda>env a nap. NaClSysClock env nap)),
  (NACL_sys_nanosleep, 2, on_app (\<lambda>env a nap. NaClSysNanosleep env nap (a ! 0) (a ! 1))),
  (NACL_sys_clock_getres, 2, on_app (\<lambda>env a nap. NaClSysClockGetRes env nap (a ! 0) (a ! 1))),
  (NACL_sys_clock_gettime, 2, on_app (\<lambda>env a nap. NaClSysClockGetTime env nap (a ! 0) (a ! 1))),
  (NACL_sys_mkdir, 2, (\<lambda>env a st. NaClSysMkdir env st (a ! 0) (a ! 1))),
  (NACL_sys_rmdir, 1, (\<lambda>env a st. NaClSysRmdir env st (a ! 0))),
  (NACL_sys_chdir, 1, (\<lambda>env a st. NaClSysChdir env st (a ! 0))),
  (NACL_sys_fchdir, 1, on_app (\<lambda>env a. fd_call_run env (Sys_fchdir (a ! 0)))),
  (NACL_sys_fchmod, 2, on_app (\<lambda>env a. fd_call_run env (Sys_fchmod (a ! 0) (sint (a ! 1))))),
  (NACL_sys_ftruncate, 2, on_app (\<lambda>env a. fd_call_run env (Sys_ftruncate (a ! 0) (a ! 1)))),
  (NACL_sys_fsync, 1, on_app (\<lambda>env a. fd_call_run env (Sys_fsync (a ! 0)))),
  (NACL_sys_fdatasync, 1, on_app (\<lambda>env a. fd_call_run env (Sys_fdatasync (a ! 0)))),
  (NACL_sys_getcwd, 2, (\<lambda>env a st. NaClSysGetcwd env st (a ! 0) (a ! 1))),
  (NACL_sys_unlink, 1, (\<lambda>env a st. NaClSysUnlink env st (a ! 0))),
  (NACL_sys_truncate, 2, (\<lambda>env a st. NaClSysTruncate env st (a ! 0) (a ! 1))),
  (NACL_sys_lstat, 2, (\<lambda>env a st. NaClSysLstat env st (a ! 0) (a ! 1))),
  (NACL_sys_link, 2, (\<lambda>env a st. NaClSysLink env st (a ! 0) (a ! 1))),
  (NACL_sys_rename, 2, (\<lambda>env a st. NaClSysRename env st (a ! 0) (a ! 1))),
  (NACL_sys_symlink, 2, (\<lambda>env a st. NaClSysSymlink env st (a ! 0) (a ! 1))),
  (NACL_sys_chmod, 2, (\<lambda>env a st. NaClSysChmod env st (a ! 0) (a ! 1))),
  (NACL_sys_access, 2, (\<lambda>env a st. NaClSysAccess env st (a ! 0) (a ! 1))),
  (NACL_sys_readlink, 3, (\<lambda>env a st. NaClSysReadlink env st (a ! 0) (a ! 1) (a ! 2))),
  (NACL_sys_utimes, 2, (\<lambda>env a st. NaClSysUtimes env st (a ! 0) (a ! 1))),
  (NACL_sys_pread, 4, on_app (\<lambda>env a. fd_call_run env (Sys_pread (a ! 0) (a ! 1) (a ! 2) (a ! 3)))),
  (NACL_sys_pwrite, 4, on_app (\<lambda>env a. fd_call_run env (Sys_pwrite (a ! 0) (a ! 1) (a ! 2) (a ! 3)))),
  (NACL_sys_imc_makeboundsock, 1, unmodelled NACL_sys_imc_makeboundsock),
  (NACL_sys_imc_accept, 1, unmodelled NACL_sys_imc_accept),
  (NACL_sys_imc_connect, 1, unmodelled NACL_sys_imc_connect),
  (NACL_sys_imc_sendmsg, 3, unmodelled NACL_sys_imc_sendmsg),
  (NACL_sys_imc_recvmsg, 3, unmodelled NACL_sys_imc_recvmsg),
  (NACL_sys_imc_mem_obj_create, 1, unmodelled NACL_sys_imc_mem_obj_create),
  (NACL_sys_tls_init, 1, (\<lambda>env a st. NaClSysTlsInit st (a ! 0))),
  (NACL_sys_thread_create, 4, unmodelled NACL_sys_thread_create),
  (NACL_sys_tls_get, 0, (\<lambda>env a st. NaClSysTlsGet st)),
  (NACL_sys_thread_nice, 1, on_app (\<lambda>env a nap. NaClSysThreadNice env nap (a ! 0))),
  (NACL_sys_mutex_create, 0, on_app (\<lambda>env a nap. NaClSysMutexCreate (he_sync env) (me_vt (he_mem env)) (he_realloc env) nap)),
  (NACL_sys_mutex_lock, 1, on_app (\<lambda>env a nap. NaClSysMutexLock (he_sync env) (me_vt (he_mem env)) nap (a ! 0))),
  (NACL_sys_mutex_unlock, 1, on_app (\<lambda>env a nap. NaClSysMutexUnlock (he_sync env) (me_vt (he_mem env)) nap (a ! 0))),
  (NACL_sys_mutex_trylock, 1, on_app (\<lambda>env a nap. NaClSysMutexTrylock (he_sync env) (me_vt (he_mem env)) nap (a ! 0))),
  (NACL_sys_cond_create, 0, on_app (\<lambda>env a nap. NaClSysCondCreate (he_sync env) (me_vt (he_mem env)) (he_realloc env) nap)),
  (NACL_sys_cond_wait, 2, on_app (\<lambda>env a nap. NaClSysCondWait (he_sync env) (me_vt (he_mem env)) nap (a ! 0) (a ! 1))),
  (NACL_sys_cond_signal, 1, on_app (\<lambda>env a nap. NaClSysCondSignal (he_sync env) (me_vt (he_mem env)) nap (a ! 0))),
  (NACL_sys_cond_broadcast, 1, on_app (\<lambda>env a nap. NaClSysCondBroadcast (he_sync env) (me_vt (he_mem env)) nap (a ! 0))),
  (NACL_sys_cond_timed_wait_abs, 3, on_app (\<lambda>env a nap. NaClSysCondTimedWaitAbs (he_sync env) (me_vt (he_mem env)) nap (a ! 0) (a ! 1) (a ! 2))),
  (NACL_sys_imc_socketpair, 1, unmodelled NACL_sys_imc_socketpair),
  (NACL_sys_sem_create, 1, on_app (\<lambda>env a nap. NaClSysSemCreate (he_sync env) (me_vt (he_mem env)) (he_realloc env) nap (a ! 0))),
  (NACL_sys_sem_wait, 1, on_app (\<lambda>env a nap. NaClSysSemWait (he_sync env) (me_vt (he_mem env)) nap (a ! 0))),
  (NACL_sys_sem_post, 1, on_app (\<lambda>env a nap. NaClSysSemPost (he_sync env) (me_vt (he_mem env)) nap (a ! 0))),
  (NACL_sys_sem_get_value, 1, on_app (\<lambda>env a nap. NaClSysSemGetValue (he_sync env) (me_vt (he_mem env)) nap (a ! 0))),
  (NACL_sys_sched_yield, 0, on_app (\<lambda>env a nap. NaClSysSchedYield env nap)),
  (NACL_sys_sysconf, 2, (\<lambda>env a st. NaClSysSysconf env st (a ! 0) (a ! 1))),
  (NACL_sys_dyncode_create, 3, on_app (\<lambda>env a nap. NaClSysDyncodeCreate (me_text (he_mem env)) nap (a ! 0) (a ! 1) (a ! 2))),
  (NACL_sys_dyncode_modify, 3, on_app (\<lambda>env a nap. NaClSysDyncodeModify (me_text (he_mem env)) nap (a ! 0) (a ! 1) (a ! 2))),
  (NACL_sys_dyncode_delete, 2, (\<lambda>env a st. on_app (\<lambda>env a nap. NaClSysDyncodeDelete (me_text (he_mem env)) nap (natp_number st) (a ! 0) (a ! 1)) env a st)),
  (NACL_sys_second_tls_set, 1, (\<lambda>env a st. NaClSysSecondTlsSet st (a ! 0))),
  (NACL_sys_exit_sandbox, 5, unmodelled NACL_sys_exit_sandbox),
  (NACL_sys_callback, 3, unmodelled NACL_sys_callback),
  (NACL_sys_second_tls_get, 0, (\<lambda>env a st. NaClSysSecondTlsGet st)),
  (NACL_sys_exception_handler, 2, (\<lambda>env a st. NaClSysExceptionHandler env st (a ! 0) (a ! 1))),
  (NACL_sys_exception_stack, 2, (\<lambda>env a st. NaClSysExceptionStack st (a ! 0) (a ! 1))),
  (NACL_sys_exception_clear_flag, 0, (\<lambda>env a st. NaClSysExceptionClearFlag st)),
  (NACL_sys_test_infoleak, 0, on_app (\<lambda>env a nap. NaClSysTestInfoLeak nap)),
  (NACL_sys_test_crash, 1, on_app (\<lambda>env a nap. NaClSysTestCrash nap (a ! 0))),
  (NACL_sys_futex_wait_abs, 3, on_app (\<lambda>env a nap. NaClSysFutexWaitAbs env nap (a ! 0) (a ! 1) (a ! 2))),
  (NACL_sys_futex_wake, 2, on_app (\<lambda>env a nap. NaClSysFutexWake env nap (a ! 0) (a ! 1))),
  (NACL_sys_get_random_bytes, 2, on_app (\<lambda>env a. fd_call_run env (Sys_random (a ! 0) (a ! 1))))]"


definition NaClAppRegisterDefaultSyscalls :: "(nat \<Rightarrow> 'h sys_func) \<Rightarrow> 'h sys_table \<Rightarrow> 'h sys_table exec" where
  "NaClAppRegisterDefaultSyscalls unmodelled table = register_all (default_syscalls unmodelled) table"

end
