(* ===== verification/SysHook.thy ===== *)
theory SysHook
  imports SysTable
begin

text \<open>
  The entry of a system call (\<open>nacl_syscall_hook.c\<close>), after the assembly has switched to the trusted
  stack: the return address is forced into the sandbox, the number is derived from the trampoline the
  call came through, the handler runs, and the result goes to the register of the thread.
\<close>

section \<open>The hook\<close>

definition NACL_SYSCALL_START_ADDR :: u32 where "NACL_SYSCALL_START_ADDR = push_bit NACL_PAGESHIFT 16"
definition NACL_SYSCALL_BLOCK_SHIFT :: nat where "NACL_SYSCALL_BLOCK_SHIFT = 5"
definition NACL_TRAMPRET_FIX :: u64 where "NACL_TRAMPRET_FIX = - 0x10"
definition NACL_USERRET_FIX :: u64 where "NACL_USERRET_FIX = - 0x8"
definition NACL_SYSARGS_FIX :: u64 where "NACL_SYSARGS_FIX = - 0x28"

definition NaClUserToSysStackAddr :: "'a nacl_space_scheme \<Rightarrow> u64 \<Rightarrow> u64" where
  "NaClUserToSysStackAddr nap stackaddr = stackaddr"

definition NaClRawUserStackAddrNormalize :: "u64 \<Rightarrow> u32" where
  "NaClRawUserStackAddrNormalize stack_addr = ucast stack_addr"

definition HandleStackContext :: "'h sys_state \<Rightarrow> u32 \<times> u64 \<times> 'h sys_state" where
  "HandleStackContext st =
     (let sp_user = r_rsp (user (natp st));
          sp_sys = NaClUserToSysStackAddr (app st) sp_user;
          tramp_ret = load32 (sp_sys + NACL_TRAMPRET_FIX) (fa_mem (app st));
          user_ret = NaClSandboxCodeAddr (app st) (load64 (sp_sys + NACL_USERRET_FIX) (fa_mem (app st)))
      in (tramp_ret, sp_user,
          st\<lparr>natp := (natp st)\<lparr>user := (user (natp st))\<lparr>r_new_prog_ctr := user_ret\<rparr>\<rparr>\<rparr>))"

definition set_suspend_state ::
    "suspend_state \<Rightarrow> suspend_state \<Rightarrow> 'h sys_state \<Rightarrow> 'h sys_state exec" where
  "set_suspend_state old_state new_state st =
     ebind (NaClAppThreadSetSuspendState old_state new_state (natp st)) (\<lambda>t. Inr (st\<lparr>natp := t\<rparr>))"

lemma set_suspend_eq:
  "set_suspend_state old_state new_state st = Inr st' \<longleftrightarrow>
     suspend_state (natp st) = old_state \<and> st' = st\<lparr>natp := (natp st)\<lparr>suspend_state := new_state\<rparr>\<rparr>"
  by (auto simp: set_suspend_state_def NaClAppThreadSetSuspendState_def)

definition syscall_number :: "u32 \<Rightarrow> nat" where
  "syscall_number tramp_ret = unat (drop_bit NACL_SYSCALL_BLOCK_SHIFT (tramp_ret - NACL_SYSCALL_START_ADDR))"

text \<open>An entry of the table is the default decoder or a decoder with its implementation.\<close>

definition call_handler ::
    "'h sys_table \<Rightarrow> nat \<Rightarrow> 'h sys_env \<Rightarrow> 'h sys_state \<Rightarrow> (int \<times> 'h sys_state) exec" where
  "call_handler table sysnum env st =
     (case table ! sysnum of
        None \<Rightarrow> NaClSysNotImplementedDecoder st
      | Some (n, f) \<Rightarrow> syscall_decoder n f env st)"

definition NaClSyscallCSegHook :: "'h sys_table \<Rightarrow> 'h sys_env \<Rightarrow> 'h sys_state \<Rightarrow> 'h sys_state exec" where
  "NaClSyscallCSegHook table env st =
     (let (tramp_ret, sp_user, st1) = HandleStackContext st
      in ebind (set_suspend_state NACL_APP_THREAD_UNTRUSTED NACL_APP_THREAD_TRUSTED st1) (\<lambda>st2.
         let sysnum = syscall_number tramp_ret;
             args = NaClRawUserStackAddrNormalize (sp_user + NACL_SYSARGS_FIX);
             st3 = st2\<lparr>natp := (natp st2)\<lparr>usr_syscall_args := ucast args\<rparr>\<rparr>
         in ebind (if sysnum \<ge> NACL_MAX_SYSCALLS then Inr (- NACL_ABI_EINVAL, st3)
                   else call_handler table sysnum env st3) (\<lambda>(ret, st4).
            let sysret = word_of_int ret :: u32;
                st5 = st4\<lparr>natp := (natp st4)\<lparr>user := (user (natp st4))\<lparr>r_sysret := ucast sysret\<rparr>\<rparr>\<rparr>
            in set_suspend_state NACL_APP_THREAD_TRUSTED NACL_APP_THREAD_UNTRUSTED st5)))"

section \<open>Registration\<close>

lemma register_ok:
  assumes "length table = NACL_MAX_SYSCALLS" "distinct (map fst calls)" "\<forall>c \<in> set calls. fst c < NACL_MAX_SYSCALLS \<and> table ! fst c = None"
  shows "\<exists>table'. register_all calls table = Inr table' \<and> length table' = NACL_MAX_SYSCALLS
    \<and> (\<forall>n < NACL_MAX_SYSCALLS. table' ! n = (case map_of calls n of None \<Rightarrow> table ! n | Some h \<Rightarrow> Some h))"
  using assms
proof (induction calls arbitrary: table)
  case (Cons c calls)
  obtain num fn where c: "c = (num, fn)" by (cases c)
  let ?t = "table[num := Some fn]"
  have num: "num < NACL_MAX_SYSCALLS" "table ! num = None" "num \<notin> fst ` set calls" using Cons.prems c by auto
  have "\<exists>table'. register_all calls ?t = Inr table' \<and> length table' = NACL_MAX_SYSCALLS
      \<and> (\<forall>n < NACL_MAX_SYSCALLS. table' ! n = (case map_of calls n of None \<Rightarrow> ?t ! n | Some h \<Rightarrow> Some h))"
    by (rule Cons.IH) (use Cons.prems num c in \<open>auto simp: nth_list_update\<close>)
  then obtain table' where t': "register_all calls ?t = Inr table'" "length table' = NACL_MAX_SYSCALLS"
    "\<forall>n < NACL_MAX_SYSCALLS. table' ! n = (case map_of calls n of None \<Rightarrow> ?t ! n | Some h \<Rightarrow> Some h)" by blast
  have "map_of calls num = None" using num(3) by (simp add: map_of_eq_None_iff)
  then have "\<forall>n < NACL_MAX_SYSCALLS. table' ! n = (case map_of (c # calls) n of None \<Rightarrow> table ! n | Some h \<Rightarrow> Some h)"
    using t'(3) Cons.prems(1) num(1) by (auto simp: c nth_list_update split: option.splits)
  moreover have "register_all (c # calls) table = Inr table'" using t'(1) num by (simp add: c NaClAddSyscall_def echeck_def)
  ultimately show ?case using t'(2) by blast
qed simp

lemma default_distinct: "distinct (map fst (default_syscalls u))"
  unfolding default_syscalls_def sys_numbers by simp

lemma default_bounded: "\<forall>c \<in> set (default_syscalls u). fst c < NACL_MAX_SYSCALLS"
  unfolding default_syscalls_def sys_numbers NACL_MAX_SYSCALLS_def by simp

text \<open>The table of a program: every registration succeeds, no number is taken twice.\<close>

definition syscall_table :: "(nat \<Rightarrow> 'h sys_func) \<Rightarrow> 'h sys_table" where
  "syscall_table u = map (map_of (default_syscalls u)) [0 ..< NACL_MAX_SYSCALLS]"

lemma default_table:
  "NaClAppRegisterDefaultSyscalls u (replicate NACL_MAX_SYSCALLS None) = Inr (syscall_table u)"
proof -
  let ?none = "replicate NACL_MAX_SYSCALLS None"
  have free: "\<forall>c \<in> set (default_syscalls u). fst c < NACL_MAX_SYSCALLS \<and> ?none ! fst c = None"
    using default_bounded by (metis nth_replicate)
  have "\<exists>t. register_all (default_syscalls u) ?none = Inr t \<and> length t = NACL_MAX_SYSCALLS
    \<and> (\<forall>n < NACL_MAX_SYSCALLS. t ! n = (case map_of (default_syscalls u) n of None \<Rightarrow> ?none ! n | Some h \<Rightarrow> Some h))"
    by (rule register_ok [OF _ default_distinct free]) simp
  then obtain t where t: "register_all (default_syscalls u) (replicate NACL_MAX_SYSCALLS None) = Inr t" "length t = NACL_MAX_SYSCALLS"
    "\<forall>n < NACL_MAX_SYSCALLS. t ! n = (case map_of (default_syscalls u) n of None \<Rightarrow> replicate NACL_MAX_SYSCALLS None ! n | Some h \<Rightarrow> Some h)"
    by blast
  have "t = syscall_table u" by (rule nth_equalityI) (use t in \<open>auto simp: syscall_table_def split: option.splits\<close>)
  then show ?thesis using t(1) by (simp add: NaClAppRegisterDefaultSyscalls_def)
qed

end
