(* ===== verification/SysContract.thy ===== *)
theory SysContract
  imports SysHook
begin

text \<open>
  What is promised for the handler of a system call: the invariant of the sandbox and the registers of
  the thread stay, the host is asked only for what is allowed, only memory of the sandbox is written, and with a
  root directory mounted every path given to the host lies below it. The contracts of the
  components give this promise.
\<close>

section \<open>The contract of a handler\<close>

definition sys_ready :: "(nat \<Rightarrow> nat) \<Rightarrow> u32 multiset \<Rightarrow> u32 multiset \<Rightarrow> 'h mem_app \<Rightarrow> bool" where
  "sys_ready E S F nap \<longleftrightarrow> mem_ready E S F nap \<and> regions_safe nap"

definition call_allowed :: "'h mem_env \<Rightarrow> 'h mem_app \<Rightarrow> 'h mem_app \<Rightarrow> bool" where
  "call_allowed env a b \<longleftrightarrow> same_layout a b \<and> asks env a b
     \<and> (\<forall>x. fa_mem b x \<noteq> fa_mem a x \<longrightarrow> NaClIsUserAddr a x)"

definition app_ok ::
    "'h mem_env \<Rightarrow> (nat \<Rightarrow> nat) \<Rightarrow> u32 multiset \<Rightarrow> u32 multiset \<Rightarrow> 'h mem_app \<Rightarrow> (int \<times> 'h mem_app) exec \<Rightarrow> bool" where
  "app_ok env E S F nap res \<longleftrightarrow>
     (case res of Inl e \<Rightarrow> True | Inr (r, nap') \<Rightarrow> sys_ready E S F nap' \<and> call_allowed env nap nap')"

lemma app_ok_simps [simp]:
  "app_ok env E S F nap (Inl e)"
  "app_ok env E S F nap (Inr (r, nap')) = (sys_ready E S F nap' \<and> call_allowed env nap nap')"
  by (simp_all add: app_ok_def)

definition op_below :: "'h sys_env \<Rightarrow> path_op \<Rightarrow> bool" where
  "op_below env op \<longleftrightarrow> (he_rootdir env \<longrightarrow> list_all (below (he_root env)) (op_paths op))"

definition log_ok :: "'h sys_env \<Rightarrow> 'h sys_state \<Rightarrow> 'h sys_state \<Rightarrow> bool" where
  "log_ok env st st' \<longleftrightarrow> (\<exists>ops. path_log st' = ops @ path_log st \<and> list_all (op_below env) ops)"

lemma log_ok_same [simp]: "path_log st' = path_log st \<Longrightarrow> log_ok env st st'"
  by (simp add: log_ok_def)

lemma log_ok_refl [simp]: "log_ok env st st"
  by simp

lemma log_ok_trans: "log_ok env a b \<Longrightarrow> log_ok env b c \<Longrightarrow> log_ok env a c"
  unfolding log_ok_def by auto

definition handler_ok ::
    "'h sys_env \<Rightarrow> (nat \<Rightarrow> nat) \<Rightarrow> u32 multiset \<Rightarrow> u32 multiset \<Rightarrow> 'h sys_state \<Rightarrow> (int \<times> 'h sys_state) exec \<Rightarrow> bool" where
  "handler_ok env E S F st res \<longleftrightarrow>
     (case res of
        Inl e \<Rightarrow> True
      | Inr (r, st') \<Rightarrow> sys_ready E S F (app st') \<and> call_allowed (he_mem env) (app st) (app st')
          \<and> user (natp st') = user (natp st) \<and> suspend_state (natp st') = suspend_state (natp st)
          \<and> log_ok env st st')"

lemma handler_ok_simps [simp]:
  "handler_ok env E S F st (Inl e)"
  "handler_ok env E S F st (Inr (r, st')) = (sys_ready E S F (app st') \<and> call_allowed (he_mem env) (app st) (app st')
     \<and> user (natp st') = user (natp st) \<and> suspend_state (natp st') = suspend_state (natp st)
          \<and> log_ok env st st')"
  by (simp_all add: handler_ok_def)

lemma on_app_ok: "app_ok (he_mem env) E S F (app st) (f env a (app st)) \<Longrightarrow> handler_ok env E S F st (on_app f env a st)"
  by (cases "f env a (app st)") (auto simp: on_app_def)

lemma call_allowed_refl [simp]: "call_allowed env a a"
  by (simp add: call_allowed_def)

lemma call_allowed_trans:
  assumes ab: "call_allowed env a b" and bc: "call_allowed env b c"
  shows "call_allowed env a c"
proof -
  have l: "same_layout a b" "same_layout b c" using ab bc by (simp_all add: call_allowed_def)
  have u: "NaClIsUserAddr b = NaClIsUserAddr a"
    using l(1) by (simp add: fun_eq_iff NaClIsUserAddr_def same_layout_def addr_limit_def)
  have q: "asks env a c" using asks_trans [OF l(1)] ab bc by (simp add: call_allowed_def)
  have "NaClIsUserAddr a x" if "fa_mem c x \<noteq> fa_mem a x" for x
    using that ab bc u by (cases "fa_mem b x = fa_mem a x") (simp_all add: call_allowed_def)
  then show ?thesis using ab bc q same_layout_trans [OF l] by (auto simp: call_allowed_def)
qed

section \<open>From the components to the contract\<close>

lemma mem_call_contract:
  assumes ready: "sys_ready E S F nap" and env: "env_ok env"
  shows "app_ok env E S F nap (mem_call_run env c nap)"
proof (cases "mem_call_run env c nap")
  case (Inr res)
  obtain r nap' where res: "mem_call_run env c nap = Inr (r, nap')" using Inr by (cases res) simp
  have mr: "mem_ready E S F nap" "regions_safe nap" using ready by (simp_all add: sys_ready_def)
  from mem_call_ok [OF mr(1) env res] have m: "mem_ready E S F nap'" "allowed env nap nap'" by simp_all
  have sp: "space_ok nap" using mr(1) by (simp add: mem_ready_def text_area_ok_def)
  have "NaClIsUserAddr nap x" if "fa_mem nap' x \<noteq> fa_mem nap x" for x
    using m(2) that by (auto simp: allowed_def NaClIsUserAddr_iff [OF sp])
  then show ?thesis using m mr(2) res by (simp add: allowed_def call_allowed_def sys_ready_def same_layout_def)
qed simp

lemma more_fields:
  fixes a b :: "'h mem_app"
  assumes "code_app.more b = code_app.more a"
  shows "mem_map b = mem_map a" "break_addr b = break_addr a" "data_end b = data_end a"
  using assms by (cases a, cases b, simp)+

lemma fd_more_fields:
  fixes a b :: "'h mem_app"
  assumes "fd_app.more b = fd_app.more a"
  shows "code_app.more b = code_app.more a" "dyn_regs b = dyn_regs a" "dynamic_page_bitmap b = dynamic_page_bitmap a"
    "mapcache_offset b = mapcache_offset a" "mapcache_size b = mapcache_size a" "mapcache_ret b = mapcache_ret a"
    "requests b = requests a"
  using assms by (cases a, cases b, simp)+

text \<open>The references that the entries of the map hold are counted beside those of the table.\<close>

definition map_refs_and :: "'h mem_app \<Rightarrow> (nat \<Rightarrow> nat) \<Rightarrow> nat \<Rightarrow> nat" where
  "map_refs_and nap E = (\<lambda>n. map_refs (mem_map nap) n + E n)"

lemma ready_fd_inv: "sys_ready E S F nap \<Longrightarrow> fd_inv (map_refs_and nap E) S F nap"
  by (simp add: sys_ready_def mem_ready_def mem_inv_def map_refs_and_def)

lemma fd_contract:
  fixes nap :: "'h mem_app"
  assumes ready: "sys_ready E S F nap"
    and res: "\<And>r nap'. res = Inr (r, nap') \<Longrightarrow> fd_inv (map_refs_and nap E) S F nap' \<and> confined nap nap'"
  shows "app_ok env E S F nap res"
proof (cases res)
  case (Inr p)
  obtain r nap' where p: "res = Inr (r, nap')" using Inr by (cases p) simp
  have i: "fd_inv (map_refs_and nap E) S F nap'" and c: "confined nap nap'" using res [OF p] by simp_all
  have inv: "mem_inv E S F nap" "text_area_ok nap" "cache_ok nap" "regions_safe nap"
    using ready by (simp_all add: sys_ready_def mem_ready_def)
  have sp: "addr_bits nap' = addr_bits nap" "mem_start nap' = mem_start nap" "bundle_size nap' = bundle_size nap"
    "dynamic_text_start nap' = dynamic_text_start nap" "dynamic_text_end nap' = dynamic_text_end nap"
    and more: "fd_app.more nap' = fd_app.more nap" using c by (simp_all add: confined_def)
  note f = fd_more_fields [OF more]
  note g = more_fields [OF f(1)]
  have "mem_inv E S F nap'" using inv(1) i sp g by (simp add: mem_inv_def map_refs_and_def text_mapped_def)
  moreover have l: "same_layout nap nap'"
    using sp f g confined_faults [OF c] by (simp add: same_layout_def cache_ok_def shown_def regions_safe_def)
  ultimately have "sys_ready E S F nap'"
    using inv(2-4) layout_ready [OF l inv(2,3)] by (simp add: sys_ready_def mem_ready_def same_layout_def)
  moreover have "call_allowed env nap nap'" using l c f by (simp add: call_allowed_def confined_def)
  ultimately show ?thesis by (simp add: p)
qed simp

lemma outcome_contract:
  assumes "sys_ready E S F nap" "vt_ok vt" "outcome_ok vt (map_refs_and nap E) S F nap res"
  shows "app_ok env E S F nap res"
  by (rule fd_contract [OF assms(1)]) (use assms(2,3) in simp)

lemma code_contract:
  fixes nap :: "'h mem_app"
  assumes ready: "sys_ready E S F nap" and res: "\<And>r nap'. res = Inr (r, nap') \<Longrightarrow> code_step (me_text env) nap nap'"
  shows "app_ok env E S F nap res"
proof (cases res)
  case (Inr p)
  obtain r nap' where p: "res = Inr (r, nap')" using Inr by (cases p) simp
  note cs = res [OF p]
  note f = code_step_fields [OF cs]
  have inv: "mem_inv E S F nap" "text_area_ok nap" "cache_ok nap" "regions_safe nap"
    using ready by (simp_all add: sys_ready_def mem_ready_def)
  note g = more_fields [OF f(11)]
  have fd: "fd_inv G S F nap' = fd_inv G S F nap" for G using f by (simp add: fd_inv_def space_ok_def)
  have "mem_inv E S F nap'" using inv(1) fd f g by (simp add: mem_inv_def text_mapped_def)
  moreover have l: "same_layout nap nap'" using cs f g by (simp add: same_layout_def code_step_def)
  ultimately have "sys_ready E S F nap'"
    using inv(2-4) layout_ready [OF l inv(2,3)] by (simp add: sys_ready_def mem_ready_def same_layout_def)
  moreover have "NaClIsUserAddr nap x" if "fa_mem nap' x \<noteq> fa_mem nap x" for x
  proof -
    have "unat (mem_start nap) + unat (dynamic_text_start nap) \<le> unat x"
      "unat x < unat (mem_start nap) + unat (dynamic_text_end nap)" using cs that by (simp_all add: code_step_def)
    then show ?thesis using inv(2) by (auto simp: text_area_ok_def NaClIsUserAddr_iff)
  qed
  ultimately show ?thesis using l asks_text [OF f(13)] by (simp add: p call_allowed_def)
qed simp

section \<open>Promises of the host\<close>

text \<open>The host after calls on paths, the last one first.\<close>

fun host_after :: "'h sys_env \<Rightarrow> path_op list \<Rightarrow> 'h \<Rightarrow> 'h" where
  "host_after env [] h = h"
| "host_after env (op # ops) h = snd (he_path env op (host_after env ops h))"

text \<open>
  The host and the memory allocator: the promises the components rely on, and new objects get names
  that are not in use.
\<close>

definition host_good :: "'h sys_env \<Rightarrow> 'h sys_state \<Rightarrow> bool" where
  "host_good env st \<longleftrightarrow> env_ok (he_mem env) \<and> vt_ok (me_vt (he_mem env)) \<and> copies_length (me_text (he_mem env))
     \<and> (\<forall>n h ctor. ctor \<in> {MutexCtor (he_sync env), CondVarCtor (he_sync env)} \<union> range (SemaphoreCtor (he_sync env))
          \<longrightarrow> ctor (host (app st)) = Some (n, h) \<longrightarrow> nd_refs (app st) n = None)
     \<and> (\<forall>ops b. nd_refs (app st) (fst (he_io_desc env b (host_after env ops (host (app st))))) = None
          \<and> nd_refs (app st) (fst (he_dir_desc env (host_after env ops (host (app st))))) = None)"

lemma host_goodD:
  assumes "host_good env st"
  shows "env_ok (he_mem env)" "vt_ok (me_vt (he_mem env))" "shm_limit (me_text (he_mem env))" "keeps_length (me_text (he_mem env))"
    "copies_length (me_text (he_mem env))"
    "MutexCtor (he_sync env) (host (app st)) = Some (n, h) \<Longrightarrow> nd_refs (app st) n = None"
    "CondVarCtor (he_sync env) (host (app st)) = Some (n, h) \<Longrightarrow> nd_refs (app st) n = None"
    "SemaphoreCtor (he_sync env) i (host (app st)) = Some (n, h) \<Longrightarrow> nd_refs (app st) n = None"
    "nd_refs (app st) (fst (he_io_desc env b (host_after env ops (host (app st))))) = None"
    "nd_refs (app st) (fst (he_dir_desc env (host_after env ops (host (app st))))) = None"
proof -
  show "env_ok (he_mem env)" "vt_ok (me_vt (he_mem env))" "copies_length (me_text (he_mem env))"
    using assms by (simp_all add: host_good_def)
  then show "shm_limit (me_text (he_mem env))" "keeps_length (me_text (he_mem env))" by (simp_all add: env_ok_def)
  have c: "ctor (host (app st)) = Some (n, h) \<Longrightarrow> nd_refs (app st) n = None"
    if "ctor \<in> {MutexCtor (he_sync env), CondVarCtor (he_sync env)} \<union> range (SemaphoreCtor (he_sync env))" for ctor
    using assms that unfolding host_good_def by blast
  show "MutexCtor (he_sync env) (host (app st)) = Some (n, h) \<Longrightarrow> nd_refs (app st) n = None"
    using c [of "MutexCtor (he_sync env)"] by simp
  show "CondVarCtor (he_sync env) (host (app st)) = Some (n, h) \<Longrightarrow> nd_refs (app st) n = None"
    using c [of "CondVarCtor (he_sync env)"] by simp
  show "SemaphoreCtor (he_sync env) i (host (app st)) = Some (n, h) \<Longrightarrow> nd_refs (app st) n = None"
    using c [of "SemaphoreCtor (he_sync env) i"] by simp
  show "nd_refs (app st) (fst (he_io_desc env b (host_after env ops (host (app st))))) = None"
    "nd_refs (app st) (fst (he_dir_desc env (host_after env ops (host (app st))))) = None"
    using assms by (simp_all add: host_good_def)
qed

text \<open>A handler whose work is on the application state alone.\<close>

lemma on_app_outcome:
  assumes ready: "sys_ready E S F (app st)" and good: "host_good env st"
    and res: "fd_inv (map_refs_and (app st) E) S F (app st) \<Longrightarrow>
      outcome_ok (me_vt (he_mem env)) (map_refs_and (app st) E) S F (app st) (f env a (app st))"
  shows "handler_ok env E S F st (on_app f env a st)"
  by (rule on_app_ok) (rule outcome_contract [OF ready host_goodD(2) [OF good] res [OF ready_fd_inv [OF ready]]])

lemma on_app_confined:
  assumes ready: "sys_ready E S F (app st)"
    and res: "\<And>r nap'. f env a (app st) = Inr (r, nap') \<Longrightarrow> fd_inv (map_refs_and (app st) E) S F (app st) \<Longrightarrow>
      fd_inv (map_refs_and (app st) E) S F nap' \<and> confined (app st) nap'"
  shows "handler_ok env E S F st (on_app f env a st)"
  by (rule on_app_ok) (rule fd_contract [OF ready res [OF _ ready_fd_inv [OF ready]]])

lemma on_app_code:
  assumes ready: "sys_ready E S F (app st)"
    and res: "\<And>r nap'. f env a (app st) = Inr (r, nap') \<Longrightarrow> code_step (me_text (he_mem env)) (app st) nap'"
  shows "handler_ok env E S F st (on_app f env a st)"
  by (rule on_app_ok) (rule code_contract [OF ready res])

lemma on_app_mem:
  assumes ready: "sys_ready E S F (app st)" and good: "host_good env st"
  shows "handler_ok env E S F st (on_app (\<lambda>env a. mem_call_run (he_mem env) (c a)) env a st)"
  by (rule on_app_ok) (rule mem_call_contract [OF ready host_goodD(1) [OF good]])

text \<open>A handler that copies out a few bytes and changes fields of the thread other than its registers.\<close>

lemma copy_out_ready:
  assumes ready: "sys_ready E S F nap" and c: "NaClCopyOutToUser nap a bs = Inr (Some nap')" and n: "length bs < 2 ^ 32"
  shows "sys_ready E S F nap' \<and> call_allowed env nap nap'"
proof -
  have "app_ok env E S F nap (Inr (0, nap'))"
    by (rule fd_contract [OF ready]) (use CopyOut_ok [OF ready_fd_inv [OF ready] c] n in auto)
  then show ?thesis by simp
qed

end
