(* ===== verification/SysPathSafe.thy ===== *)
theory SysPathSafe
  imports SysContract
begin

text \<open>
  The calls on paths fulfil the contract of handlers: until the result is copied out or a descriptor is
  entered they change only the state of the host, and with a root directory mounted all their host calls
  are on paths below it.
\<close>

section \<open>Steps that only make host calls\<close>

definition quiet :: "'h sys_env \<Rightarrow> 'h sys_state \<Rightarrow> 'h sys_state \<Rightarrow> bool" where
  "quiet env st st' \<longleftrightarrow> (\<exists>ops. list_all (op_below env) ops
     \<and> st' = st\<lparr>app := (app st)\<lparr>host := host_after env ops (host (app st))\<rparr>, path_log := ops @ path_log st\<rparr>)"

lemma quiet_refl [simp]: "quiet env st st"
  unfolding quiet_def by (rule exI [of _ "[]"]) simp

lemma host_after_append: "host_after env (ops @ ops') h = host_after env ops (host_after env ops' h)"
  by (induction ops) simp_all

lemma quiet_trans: "quiet env a b \<Longrightarrow> quiet env b c \<Longrightarrow> quiet env a c"
  unfolding quiet_def by (elim exE conjE) (rule_tac x = "opsa @ ops" in exI, simp add: host_after_append)

lemma path_call_quiet:
  assumes "path_call env op st = (r, st')" "op_below env op"
  shows "quiet env st st'"
  unfolding quiet_def by (rule exI [of _ "[op]"]) (use assms in \<open>auto simp: path_call_def split: prod.splits\<close>)

lemma path_call_cases:
  obtains r st' where "path_call env op st = (r, st')" "op_below env op \<longrightarrow> quiet env st st'"
  using path_call_quiet by (metis surj_pair)

section \<open>Paths of untrusted code\<close>

definition path_ok :: "'h sys_env \<Rightarrow> path \<Rightarrow> bool" where
  "path_ok env path \<longleftrightarrow> (he_rootdir env \<longrightarrow> below (he_root env) path)"

lemma canonical_below:
  assumes "CanonicalizeAbsolutePath abs_path = Inr (real, subs)" "abs_path \<noteq> []" "hd abs_path = SLASH"
  shows "below root (root @ real)" "\<forall>s \<in> set subs. below root (root @ s)"
proof -
  obtain t where c: "real = (if meaning abs_path \<noteq> [] then AppendPartsToPath (meaning abs_path) [] @ (if t then [SLASH] else []) else [SLASH])"
    "list_all component (meaning abs_path)"
    "\<forall>s \<in> set subs. \<exists>ps. ps \<noteq> [] \<and> list_all component ps \<and> s = AppendPartsToPath ps [] @ [SLASH]"
    using canonical_form [OF assms(2,3)] assms(1) by auto
  show "below root (root @ real)"
  proof (cases "meaning abs_path = []")
    case True
    then show ?thesis unfolding below_def by (intro exI [of _ "[]"] exI [of _ True]) (simp add: c(1))
  next
    case False
    then show ?thesis unfolding below_def
      by (intro exI [of _ "meaning abs_path"] exI [of _ t]) (use c(2) in \<open>simp add: c(1)\<close>)
  qed
  show "\<forall>s \<in> set subs. below root (root @ s)"
  proof
    fix s assume "s \<in> set subs"
    then obtain ps where "list_all component ps" "s = AppendPartsToPath ps [] @ [SLASH]" using c(3) by blast
    then show "below root (root @ s)" unfolding below_def by (intro exI [of _ ps] exI [of _ True]) simp
  qed
qed

lemma after_prefix: "PathContainsRootPrefix root cwd \<Longrightarrow> drop (length root) cwd = [] \<or> hd (drop (length root) cwd) = SLASH"
proof (cases "length root < length cwd")
  case True
  then have "hd (drop (length root) cwd) = cwd ! length root" by (rule hd_drop_conv_nth)
  then show "PathContainsRootPrefix root cwd \<Longrightarrow> ?thesis"
    using True by (simp add: PathContainsRootPrefix_def split: if_splits)
qed simp

lemma absolute_ok:
  assumes "VirtualToAbsolutePath env virtual_path st = Inr (r, abs_path, st')"
  shows "quiet env st st'" "r = 0 \<Longrightarrow> abs_path \<noteq> [] \<and> hd abs_path = SLASH"
proof -
  obtain pr st1 where c: "path_call env (Op_getcwd 1024) st = (pr, st1)" "quiet env st st1"
    by (rule path_call_cases [of env "Op_getcwd 1024" st]) (auto simp: op_below_def)
  show "quiet env st st'" "r = 0 \<Longrightarrow> abs_path \<noteq> [] \<and> hd abs_path = SLASH"
    using assms c after_prefix [of "he_root env" "pr_bytes pr"]
    by (auto simp: VirtualToAbsolutePath_def NaClHostDescGetcwd_def hd_append NACL_ABI_EACCES_def split: if_splits)
qed

lemma subpaths_ok:
  assumes "ValidateSubpaths env ss st = Inr (r, st')" "\<forall>s \<in> set ss. below (he_root env) (he_root env @ s)"
  shows "quiet env st st'"
  using assms
proof (induction ss arbitrary: st)
  case (Cons s ss)
  obtain pr st1 where c: "path_call env (Op_stat (he_root env @ s)) st = (pr, st1)" "quiet env st st1"
    by (rule path_call_cases [of env "Op_stat (he_root env @ s)" st]) (use Cons.prems in \<open>auto simp: op_below_def\<close>)
  show ?case
  proof (cases "pr_errno pr = 0")
    case True
    then have "quiet env st1 st'" using Cons.IH [of st1] Cons.prems c(1) by simp
    then show ?thesis using c(2) quiet_trans by blast
  next
    case False
    then show ?thesis using Cons.prems c by (auto split: if_splits)
  qed
qed simp

lemma validate_ok:
  assumes "ValidatePath env path st = Inr (r, st')" "below (he_root env) path"
  shows "quiet env st st'"
proof -
  obtain pr st1 where c: "path_call env (Op_lstat path) st = (pr, st1)" "quiet env st st1"
    by (rule path_call_cases [of env "Op_lstat path" st]) (use assms in \<open>auto simp: op_below_def\<close>)
  then show ?thesis using assms(1) by (auto simp: ValidatePath_def IsSymbolicLink_def)
qed

lemma mounted_ok:
  assumes run: "CopyHostPathMounted env raw st = Inr (r, path, st')"
  shows "quiet env st st' \<and> (r = 0 \<longrightarrow> below (he_root env) path)"
proof (cases "raw = []")
  case True
  then show ?thesis using run by (auto simp: CopyHostPathMounted_def NACL_ABI_ENOENT_def)
next
  case False
  obtain r1 abs_path st1 where a: "VirtualToAbsolutePath env raw st = Inr (r1, abs_path, st1)"
    using run False by (auto simp: CopyHostPathMounted_def)
  note q1 = absolute_ok [OF a]
  show ?thesis
  proof (cases "r1 = 0")
    case r1: False
    then show ?thesis using run False a q1(1) by (auto simp: CopyHostPathMounted_def)
  next
    case r1: True
    obtain real subs where c: "CanonicalizeAbsolutePath abs_path = Inr (real, subs)"
      using run False a r1 by (auto simp: CopyHostPathMounted_def)
    have b: "below (he_root env) (he_root env @ real)" "\<forall>s \<in> set subs. below (he_root env) (he_root env @ s)"
      using canonical_below [OF c] q1(2) r1 by simp_all
    obtain r2 st2 where v: "ValidateSubpaths env subs st1 = Inr (r2, st2)"
      using run False a r1 c by (auto simp: CopyHostPathMounted_def)
    have q2: "quiet env st st2" using q1(1) subpaths_ok [OF v b(2)] quiet_trans by blast
    show ?thesis
    proof (cases "r2 = 0")
      case r2: False
      then show ?thesis using run False a r1 c v q2 by (auto simp: CopyHostPathMounted_def)
    next
      case r2: True
      obtain r3 st3 where w: "ValidatePath env (he_root env @ real) st2 = Inr (r3, st3)"
        using run False a r1 c v r2 by (auto simp: CopyHostPathMounted_def Let_def)
      have "quiet env st st3" using q2 validate_ok [OF w b(1)] quiet_trans by blast
      then show ?thesis using run False a r1 c v r2 w b(1)
        by (auto simp: CopyHostPathMounted_def Let_def NACL_ABI_ENAMETOOLONG_def split: if_splits)
    qed
  qed
qed

lemma copy_path_ok:
  assumes "CopyHostPathInFromUser env src st = Inr (r, path, st')"
  shows "quiet env st st' \<and> (r = 0 \<longrightarrow> path_ok env path)"
proof -
  obtain ok dest where z: "NaClCopyInFromUserZStr (app st) (replicate NACL_CONFIG_PATH_MAX 0) (ucast src) = Inr (ok, dest)"
    using assms by (auto simp: CopyHostPathInFromUser_def)
  show ?thesis
  proof (cases "ok \<and> he_rootdir env")
    case True
    then have "CopyHostPathMounted env (takeWhile (\<lambda>c. c \<noteq> 0) dest) st = Inr (r, path, st')"
      using assms z by (simp add: CopyHostPathInFromUser_def)
    from mounted_ok [OF this] show ?thesis by (simp add: path_ok_def)
  next
    case False
    then show ?thesis using assms z
      by (auto simp: CopyHostPathInFromUser_def path_ok_def NACL_ABI_EFAULT_def NACL_ABI_ENAMETOOLONG_def split: if_splits)
  qed
qed

section \<open>Handlers\<close>

lemma ready_host: "sys_ready E S F nap \<Longrightarrow> sys_ready E S F (nap\<lparr>host := h\<rparr>)"
  by (simp add: sys_ready_def mem_ready_def mem_inv_def fd_inv_def space_ok_def text_mapped_def text_area_ok_def
      cache_ok_def shown_def regions_safe_def addr_limit_def)

lemma allowed_host: "call_allowed env nap (nap\<lparr>host := h\<rparr>)"
  by (simp add: call_allowed_def same_layout_def cache_ok_def shown_def regions_safe_def)

lemma quietD:
  assumes "quiet env st st'"
  shows "\<exists>h. app st' = (app st)\<lparr>host := h\<rparr>" "natp st' = natp st" "log_ok env st st'"
  using assms by (auto simp: quiet_def log_ok_def)

lemma quiet_handler:
  assumes "quiet env st st'" "sys_ready E S F (app st)"
  shows "handler_ok env E S F st (Inr (r, st'))" "sys_ready E S F (app st')"
  using quietD [OF assms(1)] ready_host [OF assms(2)] allowed_host by auto

text \<open>After the host calls, a change of the application state that is allowed by itself.\<close>

lemma quiet_then:
  assumes q: "quiet env st st1" and ready: "sys_ready E S F (app st)" and a: "app_ok (he_mem env) E S F (app st1) (Inr (r, nap1))"
  shows "handler_ok env E S F st (Inr (r, st1\<lparr>app := nap1\<rparr>))"
proof -
  obtain h where h: "app st1 = (app st)\<lparr>host := h\<rparr>" using quietD(1) [OF q] by blast
  have "call_allowed (he_mem env) (app st) nap1"
    using call_allowed_trans [OF allowed_host [of "he_mem env" "app st" h]] a by (simp add: h)
  moreover obtain ops where "path_log st1 = ops @ path_log st" "list_all (op_below env) ops"
    using quietD(3) [OF q] by (auto simp: log_ok_def)
  ultimately show ?thesis using quietD(2) [OF q] a by (simp add: log_ok_def)
qed

lemma quiet_copy_out:
  assumes q: "quiet env st st1" and ready: "sys_ready E S F (app st)"
    and c: "NaClCopyOutToUser (app st1) a bs = Inr (Some nap1)" "length bs < 2 ^ 32"
  shows "handler_ok env E S F st (Inr (r, st1\<lparr>app := nap1\<rparr>))"
  by (rule quiet_then [OF q ready])
    (use copy_out_ready [OF quiet_handler(2) [OF q ready] c, of "he_mem env"] in simp)

lemma with_path_ok:
  assumes ready: "sys_ready E S F (app st0)" and q: "quiet env st0 st"
    and f: "\<And>path st1. quiet env st0 st1 \<Longrightarrow> path_ok env path \<Longrightarrow> handler_ok env E S F st0 (f path st1)"
  shows "handler_ok env E S F st0 (with_path env enabled pathname f st)"
proof (cases "CopyHostPathInFromUser env pathname st")
  case (Inr res)
  obtain r path st1 where c: "CopyHostPathInFromUser env pathname st = Inr (r, path, st1)" using Inr by (cases res) simp
  have q1: "quiet env st0 st1" "r = 0 \<longrightarrow> path_ok env path" using copy_path_ok [OF c] quiet_trans [OF q] by simp_all
  show ?thesis using f [OF q1(1)] q1(2) quiet_handler(1) [OF q1(1) ready] quiet_handler(1) [OF q ready]
    by (simp add: with_path_def c del: handler_ok_simps(2))
qed (use quiet_handler(1) [OF q ready] in \<open>simp add: with_path_def del: handler_ok_simps(2)\<close>)

lemma with_two_paths_ok:
  assumes ready: "sys_ready E S F (app st0)" and q: "quiet env st0 st"
    and f: "\<And>p p' st1. quiet env st0 st1 \<Longrightarrow> path_ok env p \<Longrightarrow> path_ok env p' \<Longrightarrow> handler_ok env E S F st0 (f p p' st1)"
  shows "handler_ok env E S F st0 (with_two_paths env enabled a b f st)"
  unfolding with_two_paths_def
  by (rule with_path_ok [OF ready q], rule with_path_ok [OF ready], assumption, rule f)

lemma pass_on_ok:
  assumes "sys_ready E S F (app st)" "quiet env st st1" "op_below env op"
  shows "handler_ok env E S F st (Inr (pass_on env op st1))"
proof -
  obtain pr st2 where c: "path_call env op st1 = (pr, st2)" "quiet env st1 st2"
    by (rule path_call_cases [of env op st1]) (use assms(3) in auto)
  show ?thesis using quiet_handler(1) [OF quiet_trans [OF assms(2) c(2)] assms(1)]
    by (simp add: pass_on_def c(1) del: handler_ok_simps(2))
qed

lemma op_below_path:
  "path_ok env p \<Longrightarrow> op_paths op = [p] \<Longrightarrow> op_below env op"
  "path_ok env p \<Longrightarrow> path_ok env p' \<Longrightarrow> op_paths op = [p, p'] \<Longrightarrow> op_below env op"
  by (simp_all add: op_below_def path_ok_def)

lemmas pass_on_defs =
  NaClHostDescMkdir_def NaClHostDescRmdir_def NaClHostDescChdir_def NaClHostDescUnlink_def NaClHostDescTruncate_def
  NaClHostDescLink_def NaClHostDescRename_def NaClHostDescSymlink_def NaClHostDescChmod_def NaClHostDescAccess_def
  NaClHostDescUtimes_def

lemma one_path_calls_ok:
  assumes ready: "sys_ready E S F (app st)"
  shows "handler_ok env E S F st (NaClSysMkdir env st a b)" "handler_ok env E S F st (NaClSysRmdir env st a)"
    "handler_ok env E S F st (NaClSysChdir env st a)" "handler_ok env E S F st (NaClSysUnlink env st a)"
    "handler_ok env E S F st (NaClSysChmod env st a b)"
  unfolding NaClSysMkdir_def NaClSysRmdir_def NaClSysChdir_def NaClSysUnlink_def NaClSysChmod_def pass_on_defs
  by (rule with_path_ok [OF ready quiet_refl], rule pass_on_ok [OF ready], assumption, erule op_below_path(1), simp)+

lemma two_path_calls_ok:
  assumes ready: "sys_ready E S F (app st)"
  shows "handler_ok env E S F st (NaClSysLink env st a b)" "handler_ok env E S F st (NaClSysRename env st a b)"
    "handler_ok env E S F st (NaClSysSymlink env st a b)"
  unfolding NaClSysLink_def NaClSysRename_def NaClSysSymlink_def pass_on_defs
  by (rule with_two_paths_ok [OF ready quiet_refl], rule pass_on_ok [OF ready], assumption, erule (1) op_below_path(2), simp)+

lemma access_ok:
  assumes ready: "sys_ready E S F (app st)"
  shows "handler_ok env E S F st (NaClSysAccess env st a b)"
proof -
  have "handler_ok env E S F st (with_path env True a (\<lambda>path st. Inr (pass_on env (Op_access path m) st)) st)" for m
    by (rule with_path_ok [OF ready quiet_refl], rule pass_on_ok [OF ready], assumption, erule op_below_path(1), simp)
  then show ?thesis using ready by (simp add: NaClSysAccess_def pass_on_defs)
qed

lemma truncate_utimes_ok:
  assumes ready: "sys_ready E S F (app st)"
  shows "handler_ok env E S F st (NaClSysTruncate env st a b)" "handler_ok env E S F st (NaClSysUtimes env st a b)"
proof -
  have t: "handler_ok env E S F st (Inr (pass_on env op st1))"
    if "quiet env st st1" "path_ok env p" "op_paths op = [p]" for st1 p op
    using pass_on_ok [OF ready that(1) op_below_path(1) [OF that(2,3)]] .
  have e: "handler_ok env E S F st (Inr (r, st1))" if "quiet env st st1" for st1 r
    by (rule quiet_handler(1) [OF that ready])
  show "handler_ok env E S F st (NaClSysTruncate env st a b)"
    unfolding NaClSysTruncate_def pass_on_defs
    by (rule with_path_ok [OF ready quiet_refl]) (simp add: t e ebind_def split: option.split sum.split del: handler_ok_simps(2))
  show "handler_ok env E S F st (NaClSysUtimes env st a b)"
    unfolding NaClSysUtimes_def pass_on_defs
    by (rule with_path_ok [OF ready quiet_refl]) (simp add: t e ebind_def split: option.split sum.split del: handler_ok_simps(2))
qed

lemma stat_out_ok:
  assumes q: "quiet env st st1" and ready: "sys_ready E S F (app st)"
  shows "handler_ok env E S F st (stat_out nasp (r, sb, st1))"
  using quiet_handler(1) [OF q ready] quiet_copy_out [OF q ready]
  by (simp add: stat_out_def ebind_def split: option.split sum.split del: handler_ok_simps(2))

lemma stat_calls_ok:
  assumes ready: "sys_ready E S F (app st)"
  shows "handler_ok env E S F st (NaClSysStat env st a b)" "handler_ok env E S F st (NaClSysLstat env st a b)"
proof -
  have s: "handler_ok env E S F st (stat_out b (let (r, st1) = path_call env op st1 in (host_status r, pr_stat r, st1)))"
    if q: "quiet env st st1" and p: "path_ok env p" "op_paths op = [p]" for st1 op p
  proof -
    obtain pr st2 where c: "path_call env op st1 = (pr, st2)" "quiet env st1 st2"
      by (rule path_call_cases [of env op st1]) (use op_below_path(1) [OF p] in auto)
    show ?thesis using stat_out_ok [OF quiet_trans [OF q c(2)] ready] by (simp add: c(1) del: handler_ok_simps(2))
  qed
  show "handler_ok env E S F st (NaClSysStat env st a b)"
    unfolding NaClSysStat_def NaClHostDescStat_def by (rule with_path_ok [OF ready quiet_refl]) (rule s, assumption+, simp)
  show "handler_ok env E S F st (NaClSysLstat env st a b)"
    unfolding NaClSysLstat_def NaClHostDescLstat_def by (rule with_path_ok [OF ready quiet_refl]) (rule s, assumption+, simp)
qed

lemma copy_path_out_ok:
  assumes q: "quiet env st st1" and ready: "sys_ready E S F (app st)" and n: "length path < NACL_CONFIG_PATH_MAX"
  shows "handler_ok env E S F st (CopyHostPathOutToUser env dst path st1)"
  using quiet_handler(1) [OF q ready] quiet_copy_out [OF q ready] n
  by (simp add: CopyHostPathOutToUser_def NACL_CONFIG_PATH_MAX_def ebind_def split: option.split sum.split del: handler_ok_simps(2))

lemma getcwd_ok:
  assumes ready: "sys_ready E S F (app st)"
  shows "handler_ok env E S F st (NaClSysGetcwd env st a b)"
proof -
  have "handler_ok env E S F st (case NaClHostDescGetcwd env n st of (r, path, st1) \<Rightarrow>
      if r \<noteq> 0 then Inr (r, st1) else if length path \<ge> NACL_CONFIG_PATH_MAX then Inl Out_of_bounds
      else CopyHostPathOutToUser env a path st1)" for n
  proof -
    obtain pr st1 where c: "path_call env (Op_getcwd n) st = (pr, st1)" "quiet env st st1"
      by (rule path_call_cases [of env "Op_getcwd n" st]) (auto simp: op_below_def)
    show ?thesis using quiet_handler(1) [OF c(2) ready] copy_path_out_ok [OF c(2) ready]
      by (simp add: NaClHostDescGetcwd_def c(1) not_le del: handler_ok_simps(2))
  qed
  then show ?thesis using quiet_handler(1) [OF quiet_refl ready]
    by (simp add: NaClSysGetcwd_def Let_def del: handler_ok_simps(2))
qed

lemma readlink_ok:
  assumes ready: "sys_ready E S F (app st)"
  shows "handler_ok env E S F st (NaClSysReadlink env st a b n)"
proof -
  have w: "handler_ok env E S F st (readlink_work env b n path st1)" if q: "quiet env st st1" and p: "path_ok env path" for path st1
  proof -
    obtain pr st2 where c: "path_call env (Op_readlink path 1024) st1 = (pr, st2)" "quiet env st1 st2"
      by (rule path_call_cases [of env "Op_readlink path 1024" st1]) (use op_below_path(1) [OF p] in auto)
    note q2 = quiet_trans [OF q c(2)]
    show ?thesis using quiet_handler(1) [OF q2 ready] quiet_copy_out [OF q2 ready]
      by (simp add: readlink_work_def NaClHostDescReadlink_def c(1) Let_def NACL_CONFIG_PATH_MAX_def echeck_def ebind_def
          split: option.split sum.split del: handler_ok_simps(2))
  qed
  show ?thesis unfolding NaClSysReadlink_def by (rule with_path_ok [OF ready quiet_refl w])
qed

section \<open>Opening\<close>

text \<open>A descriptor for what was opened is entered; its name is fresh because the host keeps its promise.\<close>

lemma enter_desc_ok:
  assumes q: "quiet env st st1" and ready: "sys_ready E S F (app st)" and good: "host_good env st"
    and fresh: "nd_refs (app st) (fst (ctor (host (app st1)))) = None"
  shows "handler_ok env E S F st (enter_desc env ctor st1)"
proof (cases "create_desc (\<lambda>h. Some (ctor h)) (me_vt (he_mem env)) (he_realloc env) (app st1)")
  case (Inr p)
  obtain r nap2 where p: "create_desc (\<lambda>h. Some (ctor h)) (me_vt (he_mem env)) (he_realloc env) (app st1) = Inr (r, nap2)"
    using Inr by (cases p) simp
  obtain h where h: "app st1 = (app st)\<lparr>host := h\<rparr>" using quietD(1) [OF q] by blast
  note r1 = quiet_handler(2) [OF q ready]
  have f: "nd_refs (app st1) n = None" if "Some (ctor (host (app st1))) = Some (n, h')" for n h'
    using fresh that h by simp
  have "outcome_ok (me_vt (he_mem env)) (map_refs_and (app st1) E) S F (app st1) (Inr (r, nap2))"
    unfolding p [symmetric] by (rule create_ok [OF ready_fd_inv [OF r1] f])
  from outcome_contract [OF r1 host_goodD(2) [OF good] this, of "he_mem env"]
  show ?thesis using quiet_then [OF q ready] by (simp add: enter_desc_def p del: handler_ok_simps(2))
qed (simp add: enter_desc_def)

lemma quiet_fresh:
  assumes "quiet env st st1" "host_good env st"
  shows "nd_refs (app st) (fst (he_io_desc env b (host (app st1)))) = None"
    "nd_refs (app st) (fst (he_dir_desc env (host (app st1)))) = None"
  using assms(1) host_goodD(9,10) [OF assms(2)] by (auto simp: quiet_def)

lemma open_ok:
  assumes ready: "sys_ready E S F (app st)" and good: "host_good env st"
  shows "handler_ok env E S F st (NaClSysOpen env st a b c)"
proof -
  have w: "handler_ok env E S F st (open_work env b c path st1)" if q: "quiet env st st1" and p: "path_ok env path" for path st1
  proof -
    obtain pr st2 where s: "path_call env (Op_stat path) st1 = (pr, st2)" "quiet env st1 st2"
      by (rule path_call_cases [of env "Op_stat path" st1]) (use op_below_path(1) [OF p] in auto)
    note q2 = quiet_trans [OF q s(2)]
    obtain pd std where d: "path_call env (Op_open_dir path) st2 = (pd, std)" "quiet env st2 std"
      by (rule path_call_cases [of env "Op_open_dir path" st2]) (use op_below_path(1) [OF p] in auto)
    note qd = quiet_trans [OF q2 d(2)]
    have o: "\<exists>r st3. NaClHostDescOpen env path fl mo st2 = (r, st3) \<and> quiet env st st3" for fl mo
    proof -
      obtain po sto where "path_call env (Op_open path (NaClMapOpenFlags fl) (NaClMapOpenPerm mo)) st2 = (po, sto)" "quiet env st2 sto"
        by (rule path_call_cases [of env "Op_open path (NaClMapOpenFlags fl) (NaClMapOpenPerm mo)" st2])
          (use op_below_path(1) [OF p] in auto)
      then show ?thesis using quiet_trans [OF q2] q2 by (auto simp: NaClHostDescOpen_def pass_on_def)
    qed
    have "snd (NaClHostDirOpen env path st2) = std" using d(1) by (simp add: NaClHostDirOpen_def)
    then obtain rd where dd: "NaClHostDirOpen env path st2 = (rd, std)" by (metis prod.collapse)
    obtain r3 st3 where o: "NaClHostDescOpen env path (b AND open_allowed_flags) (c AND 0x180) st2 = (r3, st3)" "quiet env st st3"
      using o by blast
    have e: "handler_ok env E S F st (enter_desc env (he_dir_desc env) std)"
      "handler_ok env E S F st (enter_desc env (he_io_desc env ro) st3)" for ro
      by (rule enter_desc_ok [OF qd ready good], rule quiet_fresh(2) [OF qd good],
          rule enter_desc_ok [OF o(2) ready good], rule quiet_fresh(1) [OF o(2) good])
    show ?thesis using quiet_handler(1) [OF q2 ready] quiet_handler(1) [OF qd ready] quiet_handler(1) [OF o(2) ready] e
      by (simp add: open_work_def NaClHostDescStat_def s(1) dd o(1) Let_def
          del: handler_ok_simps(2))
  qed
  show ?thesis unfolding NaClSysOpen_def by (rule with_path_ok [OF ready quiet_refl w])
qed

text \<open>All calls on paths.\<close>

lemmas path_calls_ok =
  one_path_calls_ok two_path_calls_ok access_ok truncate_utimes_ok stat_calls_ok getcwd_ok readlink_ok

end
