(* ===== verification/SysSafe.thy ===== *)
theory SysSafe
  imports SysPathSafe
begin

text \<open>
  Every modelled system call fulfils the contract; the hook adds that the thread continues at a bundle of the
  sandbox.
\<close>

section \<open>The calls\<close>

lemma copy_out_host:
  assumes "fd_inv E S F nap" "NaClCopyOutToUser (nap\<lparr>host := h\<rparr>) a bs = Inr (Some nap')" "length bs < 2 ^ 32"
  shows "fd_inv E S F nap' \<and> confined nap nap'"
proof -
  have "fd_inv E S F (nap\<lparr>host := h\<rparr>)" using assms(1) by simp
  from CopyOut_ok [OF this assms(2)] show ?thesis
    using assms(3) confined_trans [of nap "nap\<lparr>host := h\<rparr>" nap'] by simp
qed

lemma le_bytes_length [simp]: "length (le_bytes n w) = n"
  by (simp add: le_bytes_def)

lemma time_of_day_ok:
  assumes "fd_inv E S F nap" "NaClSysGetTimeOfDay env nap a = Inr (r, nap')"
  shows "fd_inv E S F nap' \<and> confined nap nap'"
proof -
  obtain q s u h where g: "he_gettimeofday env (host nap) = (q, s, u, h)" by (metis prod_cases4)
  show ?thesis using assms copy_out_host [OF assms(1)] g
    by (auto simp: NaClSysGetTimeOfDay_def Let_def split: if_splits option.splits)
qed

lemma clock_common_ok:
  assumes "fd_inv E S F nap" "NaClSysClockGetCommon f null_ok nap c a = Inr (r, nap')"
  shows "fd_inv E S F nap' \<and> confined nap nap'"
proof -
  obtain q s n h where g: "f (sint c) (host nap) = (q, s, n, h)" by (metis prod_cases4)
  show ?thesis using assms copy_out_host [OF assms(1)] g
    by (auto simp: NaClSysClockGetCommon_def Let_def split: if_splits option.splits)
qed

lemma nanosleep_ok:
  assumes "fd_inv E S F nap" "NaClSysNanosleep env nap a b = Inr (r, nap')"
  shows "fd_inv E S F nap' \<and> confined nap nap'"
proof (cases "NaClCopyInFromUser nap (ucast a) 16 = Inr None \<or> (\<exists>e. NaClCopyInFromUser nap (ucast a) 16 = Inl e)")
  case True
  then show ?thesis using assms by (auto simp: NaClSysNanosleep_def split: if_splits)
next
  case False
  then obtain t where Some: "NaClCopyInFromUser nap (ucast a) 16 = Inr (Some t)"
    by (cases "NaClCopyInFromUser nap (ucast a) 16") auto
  obtain q s n p h where g: "he_nanosleep env t (host nap) = (q, s, n, p, h)" by (metis prod_cases5)
  show ?thesis using assms copy_out_host [OF assms(1)] g Some
    by (auto simp: NaClSysNanosleep_def Let_def split: if_splits option.splits)
qed

lemmas sync_defs =
  NaClSysMutexLock_def NaClSysMutexUnlock_def NaClSysMutexTrylock_def NaClSysCondSignal_def NaClSysCondBroadcast_def
  NaClSysSemWait_def NaClSysSemPost_def NaClSysSemGetValue_def NaClSysCondWait_def NaClSysMutexCreate_def
  NaClSysCondCreate_def NaClSysSemCreate_def

lemma sysconf_ok:
  assumes "sys_ready E S F (app st)"
  shows "handler_ok env E S F st (NaClSysSysconf env st name addr)"
  using copy_out_ready [OF assms] assms by (auto simp: NaClSysSysconf_def ebind_def split: option.splits sum.splits)

lemma exception_handler_ok:
  assumes "sys_ready E S F (app st)"
  shows "handler_ok env E S F st (NaClSysExceptionHandler env st a b)"
  using copy_out_ready [OF assms] assms by (auto simp: NaClSysExceptionHandler_def ebind_def split: option.splits sum.splits if_splits)

lemma thread_calls_ok:
  assumes "sys_ready E S F (app st)"
  shows "handler_ok env E S F st (NaClSysTlsInit st a)" "handler_ok env E S F st (NaClSysTlsGet st)"
    "handler_ok env E S F st (NaClSysSecondTlsSet st a)" "handler_ok env E S F st (NaClSysSecondTlsGet st)"
    "handler_ok env E S F st (NaClSysExceptionStack st a b)" "handler_ok env E S F st (NaClSysExceptionClearFlag st)"
  using assms by (simp_all add: NaClSysTlsInit_def NaClSysTlsGet_def NaClSysSecondTlsSet_def NaClSysSecondTlsGet_def
      NaClSysExceptionStack_def NaClSysExceptionClearFlag_def)

lemma plain_calls_ok:
  assumes "fd_inv E S F nap"
  shows "outcome_ok vt E S F nap (NaClSysNull nap)" "outcome_ok vt E S F nap (NaClSysGetpid env nap)"
    "outcome_ok vt E S F nap (NaClSysClock env nap)" "outcome_ok vt E S F nap (NaClSysThreadNice env nap a)"
    "outcome_ok vt E S F nap (NaClSysSchedYield env nap)" "outcome_ok vt E S F nap (NaClSysTestInfoLeak nap)"
  using assms host_call_ok [OF assms]
  by (simp_all add: NaClSysNull_def NaClSysGetpid_def NaClSysClock_def NaClSysThreadNice_def NaClSysSchedYield_def
      NaClSysTestInfoLeak_def)

lemma sync_calls_ok:
  assumes "fd_inv E S F nap"
  shows "outcome_ok vt E S F nap (NaClSysMutexLock sv vt nap a)" "outcome_ok vt E S F nap (NaClSysMutexUnlock sv vt nap a)"
    "outcome_ok vt E S F nap (NaClSysMutexTrylock sv vt nap a)" "outcome_ok vt E S F nap (NaClSysCondSignal sv vt nap a)"
    "outcome_ok vt E S F nap (NaClSysCondBroadcast sv vt nap a)" "outcome_ok vt E S F nap (NaClSysSemWait sv vt nap a)"
    "outcome_ok vt E S F nap (NaClSysSemPost sv vt nap a)" "outcome_ok vt E S F nap (NaClSysSemGetValue sv vt nap a)"
    "outcome_ok vt E S F nap (NaClSysCondWait sv vt nap a b)" "outcome_ok vt E S F nap (NaClSysCondTimedWaitAbs sv vt nap a b c)"
  using sync_call.call_ok [OF assms] two_descs_ok [OF assms] assms
  by (simp_all add: sync_defs NaClSysCondTimedWaitAbs_def ebind_def copy_stopped split: option.split sum.split)

lemma crash_ok:
  assumes "fd_inv E S F nap" "NaClSysTestCrash nap a = Inr (r, nap')"
  shows "fd_inv E S F nap' \<and> confined nap nap'"
  using assms by (auto simp: NaClSysTestCrash_def split: if_splits)

lemma list_ready:
  assumes ready: "sys_ready E S F nap" and good: "env_ok env"
  shows "app_ok env E S F nap (NaClSysListMappings alloc env enabled nap a b)"
proof (cases "NaClSysListMappings alloc env enabled nap a b")
  case (Inr p)
  obtain r nap' where res: "NaClSysListMappings alloc env enabled nap a b = Inr (r, nap')" using Inr by (cases p) simp
  have i: "mem_inv E S F nap" "text_area_ok nap" "cache_ok nap" "regions_safe nap"
    using ready by (simp_all add: sys_ready_def mem_ready_def)
  obtain nap1 where n: "mem_inv E S F nap1" "kept env nap nap1"
    "nap' = nap1 \<or> (\<exists>bs. NaClCopyOutToUser nap1 (ucast a) bs = Inr (Some nap') \<and> length bs < 2 ^ 32)"
    using list_mappings_ok [OF i(1) res] by blast
  have al: "allowed env nap nap1" using n(2) by (simp add: kept_def)
  then have l: "same_layout nap nap1" by (simp add: allowed_def)
  have r1: "sys_ready E S F nap1"
    using n(1) i(4) l layout_ready [OF l i(2,3)] by (simp add: sys_ready_def mem_ready_def same_layout_def)
  have "space_ok nap" using i(2) by (simp add: text_area_ok_def)
  then have a1: "call_allowed env nap nap1" using al l by (auto simp: call_allowed_def allowed_def NaClIsUserAddr_iff)
  show ?thesis
  proof (cases "nap' = nap1")
    case False
    then obtain bs where "NaClCopyOutToUser nap1 (ucast a) bs = Inr (Some nap')" "length bs < 2 ^ 32" using n(3) by blast
    from copy_out_ready [OF r1 this] call_allowed_trans [OF a1] show ?thesis by (simp add: res)
  qed (use r1 a1 res in simp)
qed simp

lemma futex_ok:
  assumes "fd_inv E S F nap"
  shows "outcome_ok vt E S F nap (NaClSysFutexWaitAbs env nap a b c)" "outcome_ok vt E S F nap (NaClSysFutexWake env nap a b)"
  using assms
  by (auto simp: NaClSysFutexWaitAbs_def NaClSysFutexWake_def futex_wait_host_def Let_def ebind_def copy_stopped
      split: option.split prod.split sum.split)

section \<open>The table\<close>

text \<open>
  The calls whose handlers are modelled, and the one case excluded among them: code created up to
  the very end of the address space.
\<close>

definition unmodelled_numbers :: "nat list" where
  "unmodelled_numbers =
     [NACL_sys_exit, NACL_sys_thread_exit, NACL_sys_thread_create, NACL_sys_imc_makeboundsock, NACL_sys_imc_accept,
      NACL_sys_imc_connect, NACL_sys_imc_sendmsg, NACL_sys_imc_recvmsg, NACL_sys_imc_mem_obj_create,
      NACL_sys_imc_socketpair, NACL_sys_exit_sandbox, NACL_sys_callback]"

definition usual_call :: "nat \<Rightarrow> u32 list \<Rightarrow> bool" where
  "usual_call n a \<longleftrightarrow> n \<notin> set unmodelled_numbers
     \<and> (n = NACL_sys_dyncode_create \<longrightarrow> unat (a ! 0) + unat (a ! 2) \<noteq> 2 ^ 32)"

lemma list_all_cons: "P x \<Longrightarrow> list_all P xs \<Longrightarrow> list_all P (x # xs)"
  by simp

lemma handlers_ok:
  assumes ready: "sys_ready E S F (app st)" and good: "host_good env st"
  shows "list_all (\<lambda>(n, k, f). usual_call n a \<longrightarrow> handler_ok env E S F st (f env a st)) (default_syscalls u)"
proof -
  have area: "text_area_ok (app st)" "cache_ok (app st)" "regions_safe (app st)"
    using ready by (simp_all add: sys_ready_def mem_ready_def)
  note g = host_goodD [OF good]
  have fd: "handler_ok env E S F st (on_app (\<lambda>env a. fd_call_run env (c a)) env a st)" for c
    by (rule on_app_outcome [OF ready good]) (simp add: fd_call_run_def fd_exec_ok)
  note m = on_app_mem [OF ready good]
  have c: "handler_ok env E S F st (on_app (\<lambda>env a nap. NaClSysDyncodeDelete (me_text (he_mem env)) nap i (a ! 0) (a ! 1)) env a st)"
      "handler_ok env E S F st (on_app (\<lambda>env a nap. NaClSysDyncodeModify (me_text (he_mem env)) nap (a ! 0) (a ! 1) (a ! 2)) env a st)" for i
    by (rule on_app_code [OF ready], rule delete_step [OF area g(3)], assumption,
        rule on_app_code [OF ready], rule modify_step [OF area g(3,5)], assumption)
  have d: "handler_ok env E S F st (on_app (\<lambda>env a nap. NaClSysDyncodeCreate (me_text (he_mem env)) nap (a ! 0) (a ! 1) (a ! 2)) env a st)"
    if "unat (a ! 0) + unat (a ! 2) \<noteq> 2 ^ 32"
    by (rule on_app_code [OF ready], rule create_step [OF area(1,2) g(3,4) that])
  have t: "handler_ok env E S F st (on_app (\<lambda>env a nap. NaClSysGetTimeOfDay env nap (a ! 0)) env a st)"
      "handler_ok env E S F st (on_app (\<lambda>env a nap. NaClSysClockGetRes env nap (a ! 0) (a ! 1)) env a st)"
      "handler_ok env E S F st (on_app (\<lambda>env a nap. NaClSysClockGetTime env nap (a ! 0) (a ! 1)) env a st)"
      "handler_ok env E S F st (on_app (\<lambda>env a nap. NaClSysNanosleep env nap (a ! 0) (a ! 1)) env a st)"
      "handler_ok env E S F st (on_app (\<lambda>env a nap. NaClSysTestCrash nap (a ! 0)) env a st)"
    unfolding NaClSysClockGetRes_def NaClSysClockGetTime_def
    by (rule on_app_confined [OF ready], erule (1) time_of_day_ok clock_common_ok nanosleep_ok crash_ok)+
  have p: "handler_ok env E S F st (on_app (\<lambda>env a nap. NaClSysNull nap) env a st)"
      "handler_ok env E S F st (on_app (\<lambda>env a nap. NaClSysGetpid env nap) env a st)"
      "handler_ok env E S F st (on_app (\<lambda>env a nap. NaClSysClock env nap) env a st)"
      "handler_ok env E S F st (on_app (\<lambda>env a nap. NaClSysThreadNice env nap (a ! 0)) env a st)"
      "handler_ok env E S F st (on_app (\<lambda>env a nap. NaClSysSchedYield env nap) env a st)"
      "handler_ok env E S F st (on_app (\<lambda>env a nap. NaClSysTestInfoLeak nap) env a st)"
    by (rule on_app_outcome [OF ready good], rule plain_calls_ok, assumption)+
  have w: "handler_ok env E S F st (on_app (\<lambda>env a nap. NaClSysFutexWaitAbs env nap (a ! 0) (a ! 1) (a ! 2)) env a st)"
      "handler_ok env E S F st (on_app (\<lambda>env a nap. NaClSysFutexWake env nap (a ! 0) (a ! 1)) env a st)"
    by (rule on_app_outcome [OF ready good], rule futex_ok, assumption)+
  have s: "handler_ok env E S F st (on_app (\<lambda>env a nap. NaClSysMutexLock (he_sync env) (me_vt (he_mem env)) nap (a ! 0)) env a st)"
      "handler_ok env E S F st (on_app (\<lambda>env a nap. NaClSysMutexUnlock (he_sync env) (me_vt (he_mem env)) nap (a ! 0)) env a st)"
      "handler_ok env E S F st (on_app (\<lambda>env a nap. NaClSysMutexTrylock (he_sync env) (me_vt (he_mem env)) nap (a ! 0)) env a st)"
      "handler_ok env E S F st (on_app (\<lambda>env a nap. NaClSysCondSignal (he_sync env) (me_vt (he_mem env)) nap (a ! 0)) env a st)"
      "handler_ok env E S F st (on_app (\<lambda>env a nap. NaClSysCondBroadcast (he_sync env) (me_vt (he_mem env)) nap (a ! 0)) env a st)"
      "handler_ok env E S F st (on_app (\<lambda>env a nap. NaClSysSemWait (he_sync env) (me_vt (he_mem env)) nap (a ! 0)) env a st)"
      "handler_ok env E S F st (on_app (\<lambda>env a nap. NaClSysSemPost (he_sync env) (me_vt (he_mem env)) nap (a ! 0)) env a st)"
      "handler_ok env E S F st (on_app (\<lambda>env a nap. NaClSysSemGetValue (he_sync env) (me_vt (he_mem env)) nap (a ! 0)) env a st)"
      "handler_ok env E S F st (on_app (\<lambda>env a nap. NaClSysCondWait (he_sync env) (me_vt (he_mem env)) nap (a ! 0) (a ! 1)) env a st)"
      "handler_ok env E S F st (on_app (\<lambda>env a nap. NaClSysCondTimedWaitAbs (he_sync env) (me_vt (he_mem env)) nap (a ! 0) (a ! 1) (a ! 2)) env a st)"
    by (rule on_app_outcome [OF ready good], rule sync_calls_ok, assumption)+
  have k: "handler_ok env E S F st (on_app (\<lambda>env a nap. NaClSysMutexCreate (he_sync env) (me_vt (he_mem env)) (he_realloc env) nap) env a st)"
      "handler_ok env E S F st (on_app (\<lambda>env a nap. NaClSysCondCreate (he_sync env) (me_vt (he_mem env)) (he_realloc env) nap) env a st)"
      "handler_ok env E S F st (on_app (\<lambda>env a nap. NaClSysSemCreate (he_sync env) (me_vt (he_mem env)) (he_realloc env) nap (a ! 0)) env a st)"
    unfolding sync_defs
    by (rule on_app_outcome [OF ready good], rule create_ok, assumption, erule g)+
  have l: "handler_ok env E S F st
      (on_app (\<lambda>env a nap. NaClSysListMappings (he_alloc env) (he_mem env) b nap (a ! 0) (a ! 1)) env a st)" for b
    by (rule on_app_ok) (rule list_ready [OF ready g(1)])
  note x = sysconf_ok [OF ready] exception_handler_ok [OF ready] thread_calls_ok [OF ready] path_calls_ok [OF ready]
    open_ok [OF ready good]
  show ?thesis
    unfolding default_syscalls_def list.pred_inject prod.case
    by (intro conjI impI TrueI)
      ((rule fd m c t p w s k l x) | (simp add: usual_call_def unmodelled_numbers_def; fail) | (rule d, simp add: usual_call_def; fail))+
qed

section \<open>The hook\<close>

lemma low_word_take: "ucast (ucast (m :: u64) :: u32) = take_bit 32 m"
  by (rule bit_word_eqI) (auto simp: bit_simps)

lemma low_word: "unat (ucast (ucast (m :: u64) :: u32) :: u64) = unat m mod 2 ^ 32"
  unfolding low_word_take unsigned_take_bit_eq by (rule take_bit_eq_mod)

lemma low_word_and: "ucast (ucast (x :: u64) :: u32) = x AND 0xffffffff"
proof -
  have "(0xffffffff :: u64) = mask 32" by (simp add: mask_eq_exp_minus_1)
  then show ?thesis by (simp only: low_word_take take_bit_eq_mask)
qed

lemma sandbox_code_addr:
  assumes "space_ok nap" "bundle_size nap = 32" "addr_bits nap = 32"
  shows "NaClIsUserAddr nap (NaClSandboxCodeAddr nap a)" "32 dvd unat (NaClSandboxCodeAddr nap a)"
proof -
  let ?m = "(a + 31) AND NOT 31" and ?l = "ucast (ucast ((a + 31) AND NOT 31) :: u32) :: u64"
  have e: "NaClSandboxCodeAddr nap a = mem_start nap + ?l" by (simp add: NaClSandboxCodeAddr_def assms(2))
  have l: "unat ?l = unat ?m mod 2 ^ 32" by (rule low_word)
  have lim: "unat (addr_limit nap) = 2 ^ 32" using unat_addr_limit [OF assms(1)] assms(3) by simp
  have "unat ?l < 2 ^ 32" unfolding l by simp
  then have s: "unat (mem_start nap + ?l) = unat (mem_start nap) + unat ?l"
    using space_top [OF assms(1)] lim by (intro unat_add_nowrap) simp
  then show "NaClIsUserAddr nap (NaClSandboxCodeAddr nap a)"
    using \<open>unat ?l < 2 ^ 32\<close> lim by (simp add: e NaClIsUserAddr_iff [OF assms(1)])
  have "(31 :: u64) = mask 5" by (simp add: mask_eq_exp_minus_1)
  then have "32 dvd unat ?m" using unat_round_down [of "a + 31" 5] by (simp add: nat_round_down_def)
  then have "32 dvd unat ?l" unfolding l by (simp add: dvd_mod_iff)
  moreover have "32 dvd unat (mem_start nap)" using assms(1) by (auto simp: space_ok_def intro: dvd_trans [of 32 "2 ^ 32"])
  ultimately show "32 dvd unat (NaClSandboxCodeAddr nap a)" using s by (simp add: e)
qed

text \<open>
  The number of the call that the thread is making, and where its arguments lie; \<open>usual_pending\<close> says
  that it is one of the modelled calls.
\<close>

definition pending_number :: "'h sys_state \<Rightarrow> nat" where
  "pending_number st = syscall_number (load32 (r_rsp (user (natp st)) - 0x10) (fa_mem (app st)))"

definition pending_args :: "'h sys_state \<Rightarrow> u64" where
  "pending_args st = (r_rsp (user (natp st)) - 0x28) AND 0xffffffff"

definition usual_pending :: "'h sys_state \<Rightarrow> bool" where
  "usual_pending st \<longleftrightarrow> pending_number st \<notin> set unmodelled_numbers
     \<and> (pending_number st = NACL_sys_dyncode_create \<longrightarrow>
          (case NaClCopyInFromUserAndDropLock (app st) (pending_args st) 12 of
             Inr (Some bs) \<Rightarrow> unat (syscall_words 3 bs ! 0) + unat (syscall_words 3 bs ! 2) \<noteq> 2 ^ 32
           | _ \<Rightarrow> True))"

lemma create_arity: "list_all (\<lambda>(n, k, f). n = NACL_sys_dyncode_create \<longrightarrow> k = 3) (default_syscalls u)"
  unfolding default_syscalls_def sys_numbers by simp

lemma table_handler_ok:
  assumes ready: "sys_ready E S F (app st)" and good: "host_good env st"
    and n: "n < NACL_MAX_SYSCALLS" "n \<notin> set unmodelled_numbers"
    and args: "n = NACL_sys_dyncode_create \<longrightarrow>
          (case NaClCopyInFromUserAndDropLock (app st) (usr_syscall_args (natp st)) 12 of
             Inr (Some bs) \<Rightarrow> unat (syscall_words 3 bs ! 0) + unat (syscall_words 3 bs ! 2) \<noteq> 2 ^ 32
           | _ \<Rightarrow> True)"
  shows "handler_ok env E S F st (call_handler (syscall_table u) n env st)"
proof (cases "map_of (default_syscalls u) n")
  case None
  then show ?thesis using n(1) ready by (simp add: call_handler_def syscall_table_def NaClSysNotImplementedDecoder_def)
next
  case (Some h)
  obtain k f where h: "h = (k, f)" by (cases h)
  then have mem: "(n, k, f) \<in> set (default_syscalls u)" using Some by (simp add: map_of_SomeD)
  then have k: "n = NACL_sys_dyncode_create \<longrightarrow> k = 3" using create_arity [of u] by (auto simp: list_all_iff)
  have ok: "usual_call n a \<Longrightarrow> handler_ok env E S F st (f env a st)" for a
    using handlers_ok [OF ready good, of a u] mem by (auto simp: list_all_iff)
  have "handler_ok env E S F st (syscall_decoder k f env st)"
  proof (cases "k = 0")
    case True
    then have "usual_call n []" using k n(2) by (auto simp: usual_call_def)
    then show ?thesis using ok True by (simp add: syscall_decoder_def)
  next
    case False
    show ?thesis
    proof (cases "NaClCopyInFromUserAndDropLock (app st) (usr_syscall_args (natp st)) (4 * k)")
      case (Inl e)
      then show ?thesis using False by (simp add: syscall_decoder_def)
    next
      case (Inr copied)
      show ?thesis
      proof (cases copied)
        case None
        then show ?thesis using False ready Inr by (simp add: syscall_decoder_def)
      next
        case (Some bs)
        have "usual_call n (syscall_words k bs)" using k n(2) args Inr Some by (auto simp: usual_call_def)
        then show ?thesis using ok False Inr Some by (simp add: syscall_decoder_def)
      qed
    qed
  qed
  then show ?thesis using Some n(1) by (simp add: call_handler_def syscall_table_def h)
qed

lemma hook_ok:
  assumes ready: "sys_ready E S F (app st)" and bits: "addr_bits (app st) = 32" and good: "host_good env st"
    and usual: "usual_pending st"
    and res: "NaClSyscallCSegHook (syscall_table u) env st = Inr st'"
  shows "sys_ready E S F (app st') \<and> call_allowed (he_mem env) (app st) (app st') \<and> log_ok env st st'
    \<and> suspend_state (natp st) = NACL_APP_THREAD_UNTRUSTED \<and> suspend_state (natp st') = NACL_APP_THREAD_UNTRUSTED
    \<and> NaClIsUserAddr (app st) (r_new_prog_ctr (user (natp st'))) \<and> 32 dvd unat (r_new_prog_ctr (user (natp st')))
    \<and> (\<exists>pc ret. user (natp st') = (user (natp st))\<lparr>r_new_prog_ctr := pc, r_sysret := ret\<rparr>)"
proof -
  let ?pc = "NaClSandboxCodeAddr (app st) (load64 (r_rsp (user (natp st)) + NACL_USERRET_FIX) (fa_mem (app st)))"
  let ?n = "pending_number st"
  define st3 where "st3 = st\<lparr>natp := (natp st)\<lparr>user := (user (natp st))\<lparr>r_new_prog_ctr := ?pc\<rparr>,
      suspend_state := NACL_APP_THREAD_TRUSTED, usr_syscall_args := pending_args st\<rparr>\<rparr>"
  have hook: "ebind (set_suspend_state NACL_APP_THREAD_UNTRUSTED NACL_APP_THREAD_TRUSTED
        (st\<lparr>natp := (natp st)\<lparr>user := (user (natp st))\<lparr>r_new_prog_ctr := ?pc\<rparr>\<rparr>\<rparr>)) (\<lambda>st2.
      ebind (if ?n \<ge> NACL_MAX_SYSCALLS then Inr (- NACL_ABI_EINVAL, st2\<lparr>natp := (natp st2)\<lparr>usr_syscall_args := pending_args st\<rparr>\<rparr>)
             else call_handler (syscall_table u) ?n env (st2\<lparr>natp := (natp st2)\<lparr>usr_syscall_args := pending_args st\<rparr>\<rparr>)) (\<lambda>(ret, st4).
        set_suspend_state NACL_APP_THREAD_TRUSTED NACL_APP_THREAD_UNTRUSTED
          (st4\<lparr>natp := (natp st4)\<lparr>user := (user (natp st4))\<lparr>r_sysret := ucast (word_of_int ret :: u32)\<rparr>\<rparr>\<rparr>))) = Inr st'"
    using res by (simp add: NaClSyscallCSegHook_def HandleStackContext_def NaClRawUserStackAddrNormalize_def
        NaClUserToSysStackAddr_def NACL_SYSARGS_FIX_def NACL_TRAMPRET_FIX_def low_word_and pending_args_def
        pending_number_def Let_def cong: if_cong del: ebind_eq_Inr)
  obtain ret st4 where s: "suspend_state (natp st) = NACL_APP_THREAD_UNTRUSTED"
    "(if ?n \<ge> NACL_MAX_SYSCALLS then Inr (- NACL_ABI_EINVAL, st3) else call_handler (syscall_table u) ?n env st3) = Inr (ret, st4)"
    "set_suspend_state NACL_APP_THREAD_TRUSTED NACL_APP_THREAD_UNTRUSTED
       (st4\<lparr>natp := (natp st4)\<lparr>user := (user (natp st4))\<lparr>r_sysret := ucast (word_of_int ret :: u32)\<rparr>\<rparr>\<rparr>) = Inr st'"
    using hook by (auto simp: st3_def set_suspend_eq cong: if_cong)
  have "sys_ready E S F (app st3)" "host_good env st3" using ready good by (simp_all add: st3_def host_good_def)
  from table_handler_ok [OF this, of ?n u] usual
  have "handler_ok env E S F st3 (Inr (ret, st4))"
    using s(2) \<open>sys_ready E S F (app st3)\<close> by (auto simp: usual_pending_def st3_def split: if_splits)
  then have h: "sys_ready E S F (app st4)" "call_allowed (he_mem env) (app st) (app st4)"
    "user (natp st4) = (user (natp st))\<lparr>r_new_prog_ctr := ?pc\<rparr>" "log_ok env st st4"
    by (simp_all add: st3_def log_ok_def)
  have st': "app st' = app st4" "path_log st' = path_log st4" "suspend_state (natp st') = NACL_APP_THREAD_UNTRUSTED"
    "user (natp st') = (user (natp st))\<lparr>r_new_prog_ctr := ?pc, r_sysret := ucast (word_of_int ret :: u32)\<rparr>"
    using s(3) h(3) by (simp_all add: set_suspend_eq)
  have "log_ok env st st'" using h(4) st'(2) by (simp add: log_ok_def)
  have "space_ok (app st)" "bundle_size (app st) = 32"
    using ready by (simp_all add: sys_ready_def mem_ready_def text_area_ok_def)
  note c = sandbox_code_addr [OF this bits]
  show ?thesis using h(1,2) s(1) st' \<open>log_ok env st st'\<close> c by auto
qed

end
