(* ===== verification/SysClaims.thy ===== *)
theory SysClaims
  imports SysSafe MemClaims
begin

text \<open>The properties of the entry of system calls, for a whole run of a sandbox.\<close>

section \<open>Runs of a sandbox\<close>

text \<open>
  Between two system calls untrusted code may change every byte of the sandbox and every register. A
  system call goes through the hook; the host keeps its promises in the state it is called in, and the
  call is one of those modelled.
\<close>

inductive sandbox_run :: "(nat \<Rightarrow> 'h sys_func) \<Rightarrow> 'h sys_env \<Rightarrow> 'h sys_state \<Rightarrow> 'h sys_state \<Rightarrow> bool"
  for unmodelled env where
  Start: "sandbox_run unmodelled env st st"
| Untrusted: "sandbox_run unmodelled env st st1 \<Longrightarrow> suspend_state (natp st1) = NACL_APP_THREAD_UNTRUSTED
    \<Longrightarrow> \<forall>x. mem x \<noteq> fa_mem (app st1) x \<longrightarrow> NaClIsUserAddr (app st1) x
    \<Longrightarrow> sandbox_run unmodelled env st (st1\<lparr>app := (app st1)\<lparr>fa_mem := mem\<rparr>, natp := (natp st1)\<lparr>user := regs\<rparr>\<rparr>)"
| System_call: "sandbox_run unmodelled env st st1 \<Longrightarrow> host_good env st1 \<Longrightarrow> usual_pending st1
    \<Longrightarrow> NaClSyscallCSegHook (syscall_table unmodelled) env st1 = Inr st2
    \<Longrightarrow> sandbox_run unmodelled env st st2"

lemma ready_memory:
  assumes "sys_ready E S F nap"
  shows "sys_ready E S F (nap\<lparr>fa_mem := mem\<rparr>)"
  using assms by (simp add: sys_ready_def mem_ready_def mem_inv_def fd_inv_def space_ok_def text_mapped_def text_area_ok_def
      cache_ok_def shown_def regions_safe_def addr_limit_def)

lemma allowed_memory:
  assumes "\<forall>x. mem x \<noteq> fa_mem nap x \<longrightarrow> NaClIsUserAddr nap x"
  shows "call_allowed env nap (nap\<lparr>fa_mem := mem\<rparr>)"
  using assms by (simp add: call_allowed_def same_layout_def cache_ok_def shown_def regions_safe_def)

lemma run_ok:
  assumes "sandbox_run u env st st'" "sys_ready E S F (app st)" "addr_bits (app st) = 32"
  shows "sys_ready E S F (app st') \<and> call_allowed (he_mem env) (app st) (app st') \<and> log_ok env st st'"
  using assms
proof induction
  case (Untrusted st st1 mem regs)
  then have i: "sys_ready E S F (app st1)" "call_allowed (he_mem env) (app st) (app st1)" "log_ok env st st1" by simp_all
  show ?case using ready_memory [OF i(1)] call_allowed_trans [OF i(2) allowed_memory [OF Untrusted.hyps(3)]] i(3)
    by (simp add: log_ok_def)
next
  case (System_call st st1 st2)
  then have i: "sys_ready E S F (app st1)" "call_allowed (he_mem env) (app st) (app st1)" "log_ok env st st1" by simp_all
  have "addr_bits (app st1) = 32" using i(2) System_call.prems(2) by (simp add: call_allowed_def same_layout_def)
  from hook_ok [OF i(1) this System_call.hyps(2,3,4)] show ?case
    using call_allowed_trans [OF i(2)] log_ok_trans [OF i(3)] by blast
qed simp

section \<open>An example\<close>

text \<open>
  A thread that calls \<open>second_tls_set(64)\<close>: the trampoline of the call is the word 16 bytes below the
  stack pointer, the argument 40 bytes below it, the address to return to 8 bytes below it.
\<close>

definition demo_call_mem :: bytes where
  "demo_call_mem = (\<lambda>_. 0)(0x10004FFD8 := 0x40, 0x10004FFF0 := 0xA0, 0x10004FFF1 := 0x0A, 0x10004FFF2 := 0x01,
     0x10004FFFA := 0x02, 0x10004FFFC := 0x77)"

definition demo_sys :: "unit sys_state" where
  "demo_sys = \<lparr>app = demo_mem\<lparr>fa_mem := demo_call_mem\<rparr>,
     natp = \<lparr>user = \<lparr>r_rbx = 0, r_rcx = 0, r_rdx = 0, r_rbp = 0, r_rsi = 0, r_rdi = 0, r_rsp = 0x100050000, r_r8 = 0, r_r9 = 0,
         r_r12 = 0, r_r13 = 0, r_r14 = 0, r_r15 = 0x100000000, r_prog_ctr = 0, r_new_prog_ctr = 0, r_sysret = 0,
         r_xmm = replicate 8 0\<rparr>,
       suspend_state = NACL_APP_THREAD_UNTRUSTED, jump_top = 0, register_eax = 0, register_xmm0 = 0, custom_app_state = 0,
       usr_syscall_args = 0, tls_value1 = 0, tls_value2 = 0, exception_stack = 0, exception_flag = 0\<rparr>,
     natp_number = 0, sc_nprocessors_onln = 1, enable_list_mappings = False, enable_exception_handling = False,
     exception_handler = 0, path_log = []\<rparr>"

definition demo_henv :: "unit sys_env" where
  "demo_henv = \<lparr>he_mem = demo_menv\<lparr>me_text := demo_env\<lparr>e_CopyCode :=
         \<lambda>g old new. (NaClValidationSucceeded, if length new = length old then new else old)\<rparr>\<rparr>,
     he_sync = \<lparr>vLock = (\<lambda>_ h. (0, h)), vTryLock = (\<lambda>_ h. (0, h)), vUnlock = (\<lambda>_ h. (0, h)),
       vWait = (\<lambda>_ _ h. (0, h)), vTimedWaitAbs = (\<lambda>_ _ _ h. (0, h)), vSignal = (\<lambda>_ h. (0, h)),
       vBroadcast = (\<lambda>_ h. (0, h)), vPost = (\<lambda>_ h. (0, h)), vSemWait = (\<lambda>_ h. (0, h)), vGetValue = (\<lambda>_ h. (0, h)),
       MutexCtor = (\<lambda>h. Some (9, h)), CondVarCtor = (\<lambda>h. Some (9, h)), SemaphoreCtor = (\<lambda>_ h. Some (9, h))\<rparr>,
     he_bypass = False, he_rootdir = False, he_realloc = (True, True), he_rng = (\<lambda>_. 0), he_pid = 1,
     he_cpu = (True, True, True), he_gettimeofday = (\<lambda>h. (0, 1, 2, h)), he_clock_getres = (\<lambda>_ h. (0, 0, 1, h)),
     he_clock_gettime = (\<lambda>_ h. (0, 1, 2, h)), he_nanosleep = (\<lambda>_ h. (0, 0, 0, [7, 7, 7, 7], h)), he_clock = (\<lambda>h. (0, h)),
     he_yield = (\<lambda>h. h), he_thread_nice = (\<lambda>_ h. (0, h)), he_attach = False, he_alloc = (\<lambda>_. True),
     he_root = [], he_path = (\<lambda>_ h. (\<lparr>pr_errno = 2, pr_value = - 1, pr_bytes = [],
       pr_stat = \<lparr>hs_ino = 0, hs_mode = 0, hs_nlink = 0, hs_size = 0, hs_atime = 0, hs_mtime = 0, hs_ctime = 0\<rparr>\<rparr>, h)),
     he_object = True, he_dir_mutex = True, he_io_desc = (\<lambda>_ h. (9, h)), he_dir_desc = (\<lambda>h. (9, h)),
     he_futex_wait = (\<lambda>_ _ _ h. (0, h)), he_futex_wake = (\<lambda>_ _ h. (0, h))\<rparr>"

lemma demo_sys_ready: "sys_ready (\<lambda>_. 0) {#} {#} (app demo_sys)"
proof -
  have "regions_safe demo_mem" by (simp add: regions_safe_def regions_ok_def demo_mem_def)
  then have "sys_ready (\<lambda>_. 0) {#} {#} demo_mem" using demo_mem_ready by (simp add: sys_ready_def)
  from ready_memory [OF this] show ?thesis by (simp add: demo_sys_def)
qed

lemma demo_host_good: "host_good demo_henv demo_sys"
  using demo_menv_ok
  by (auto simp: host_good_def demo_henv_def demo_sys_def demo_mem_def env_ok_def host_ok_def demo_menv_def copies_length_def
      shm_limit_def keeps_length_def vt_ok_def demo_vt_def)

lemma demo_bits: "addr_bits (app demo_sys) = 32"
  by (simp add: demo_sys_def demo_mem_def)

lemma demo_pending: "pending_number demo_sys = 85" "pending_args demo_sys = 0x4FFD8"
  by (simp_all add: pending_number_def pending_args_def demo_sys_def) code_simp+

lemma demo_usual: "usual_pending demo_sys"
  unfolding usual_pending_def demo_pending unmodelled_numbers_def sys_numbers by simp

lemma demo_entry: "syscall_table u ! 85 = Some (1, (\<lambda>env a st. NaClSysSecondTlsSet st (a ! 0)))"
proof -
  have "map_of (default_syscalls u) 85 = Some (1, (\<lambda>env a st. NaClSysSecondTlsSet st (a ! 0)))"
    unfolding default_syscalls_def sys_numbers by simp
  then show ?thesis by (simp add: syscall_table_def NACL_MAX_SYSCALLS_def)
qed

lemma demo_words:
  "load32 0x10004FFF0 demo_call_mem = 0x10AA0" "load64 0x10004FFF8 demo_call_mem = 0x7700020000"
  "NaClSandboxCodeAddr (demo_mem\<lparr>fa_mem := demo_call_mem\<rparr>) 0x7700020000 = 0x100020000"
  "NaClCopyInFromUserAndDropLock (demo_mem\<lparr>fa_mem := demo_call_mem\<rparr>) 0x4FFD8 4 = Inr (Some [0x40, 0, 0, 0])"
  "syscall_words 1 [0x40, 0, 0, 0] = [0x40]"
  by code_simp+

lemma demo_call:
  "\<exists>st'. NaClSyscallCSegHook (syscall_table u) demo_henv demo_sys = Inr st'
     \<and> tls_value2 (natp st') = 64 \<and> r_new_prog_ctr (user (natp st')) = 0x100020000"
proof -
  have n: "syscall_number 0x10AA0 = 85" "NACL_MAX_SYSCALLS = 151" by code_simp+
  show ?thesis
    using demo_words demo_entry [of u]
    by (simp add: NaClSyscallCSegHook_def HandleStackContext_def demo_sys_def NaClUserToSysStackAddr_def Let_def
        NACL_TRAMPRET_FIX_def NACL_USERRET_FIX_def NACL_SYSARGS_FIX_def NaClRawUserStackAddrNormalize_def
        set_suspend_state_def NaClAppThreadSetSuspendState_def call_handler_def syscall_decoder_def n NaClSysSecondTlsSet_def)
qed

section \<open>The properties\<close>

text \<open>C1: A run of the sandbox, in which untrusted code does what it likes with its memory and its registers and
  makes any of the modelled system calls, in any order: nothing outside the sandbox is written, the
  host is asked only for what is allowed, and the invariant of memory map, descriptor table and
  text holds after every step.\<close>
theorem sandbox_run_confined:
  assumes "sandbox_run unmodelled env st st'" "sys_ready E S F (app st)" "addr_bits (app st) = 32"
  shows "sys_ready E S F (app st')
    \<and> (\<exists>rs. requests (app st') = rs @ requests (app st) \<and> list_all (request_ok (he_mem env) (app st)) rs)
    \<and> (\<forall>x. fa_mem (app st') x \<noteq> fa_mem (app st) x \<longrightarrow> NaClIsUserAddr (app st) x)"
  using run_ok [OF assms] by (simp add: call_allowed_def asks_def)

theorem sandbox_run_confined_witness:
  "\<exists>st'. sandbox_run (\<lambda>_. undefined) demo_henv demo_sys st' \<and> tls_value2 (natp st') = 64
     \<and> fa_mem (app st') 0x500 = 0 \<and> sys_ready (\<lambda>_. 0) {#} {#} (app st')"
proof -
  obtain st' where st': "NaClSyscallCSegHook (syscall_table (\<lambda>_. undefined)) demo_henv demo_sys = Inr st'"
    "tls_value2 (natp st') = 64" using demo_call by blast
  have run: "sandbox_run (\<lambda>_. undefined) demo_henv demo_sys st'"
    by (rule System_call [OF Start demo_host_good demo_usual st'(1)])
  note c = sandbox_run_confined [OF run demo_sys_ready demo_bits]
  have "\<not> NaClIsUserAddr (app demo_sys) 0x500" "fa_mem (app demo_sys) 0x500 = 0"
    by (simp_all add: demo_sys_def demo_mem_def NaClIsUserAddr_def demo_call_mem_def)
  then have "fa_mem (app st') 0x500 = 0" using c by metis
  then show ?thesis using run st'(2) c by blast
qed

text \<open>C2: A system call from untrusted code comes back to untrusted code: it continues at the start of an
  instruction bundle inside the sandbox whatever return address lay on the stack, with all its
  registers but the result as they were.\<close>
theorem syscall_returns_into_sandbox:
  assumes "sys_ready E S F (app st)" "addr_bits (app st) = 32" "host_good env st" "usual_pending st"
    and "NaClSyscallCSegHook (syscall_table unmodelled) env st = Inr st'"
  shows "NaClIsUserAddr (app st) (r_new_prog_ctr (user (natp st'))) \<and> 32 dvd unat (r_new_prog_ctr (user (natp st')))
    \<and> suspend_state (natp st) = NACL_APP_THREAD_UNTRUSTED \<and> suspend_state (natp st') = NACL_APP_THREAD_UNTRUSTED
    \<and> (\<exists>pc ret. user (natp st') = (user (natp st))\<lparr>r_new_prog_ctr := pc, r_sysret := ret\<rparr>)"
  using hook_ok [OF assms] by blast

theorem syscall_returns_into_sandbox_witness:
  "\<exists>st'. NaClSyscallCSegHook (syscall_table (\<lambda>_. undefined)) demo_henv demo_sys = Inr st'
     \<and> r_new_prog_ctr (user (natp st')) = 0x100020000 \<and> r_rsp (user (natp st')) = 0x100050000"
proof -
  obtain st' where st': "NaClSyscallCSegHook (syscall_table (\<lambda>_. undefined)) demo_henv demo_sys = Inr st'"
    "r_new_prog_ctr (user (natp st')) = 0x100020000" using demo_call by blast
  from syscall_returns_into_sandbox [OF demo_sys_ready demo_bits demo_host_good demo_usual st'(1)] st' show ?thesis
    by (auto simp: demo_sys_def)
qed

text \<open>Registration of the system calls into an empty table never stops the program: no number is out of
  range or registered twice. Afterwards each number has its own handler, and the others the one that answers
  that the call is not implemented.\<close>
lemma default_syscalls_registered:
  "\<exists>table. NaClAppRegisterDefaultSyscalls unmodelled (replicate NACL_MAX_SYSCALLS None) = Inr table
     \<and> length table = NACL_MAX_SYSCALLS
     \<and> (\<forall>(n, h) \<in> set (default_syscalls unmodelled). table ! n = Some h)
     \<and> (\<forall>n \<in> {0 ..< NACL_MAX_SYSCALLS} - fst ` set (default_syscalls unmodelled). table ! n = None)"
proof (intro exI conjI)
  show "NaClAppRegisterDefaultSyscalls unmodelled (replicate NACL_MAX_SYSCALLS None) = Inr (syscall_table unmodelled)"
    by (rule default_table)
  show "length (syscall_table unmodelled) = NACL_MAX_SYSCALLS" by (simp add: syscall_table_def)
  show "\<forall>(n, h) \<in> set (default_syscalls unmodelled). syscall_table unmodelled ! n = Some h"
    using default_bounded [of unmodelled] default_distinct [of unmodelled] by (auto simp: syscall_table_def)
  show "\<forall>n \<in> {0 ..< NACL_MAX_SYSCALLS} - fst ` set (default_syscalls unmodelled). syscall_table unmodelled ! n = None"
    by (auto simp: syscall_table_def map_of_eq_None_iff)
qed

lemma default_syscalls_registered_witness:
  "\<exists>table. NaClAppRegisterDefaultSyscalls (\<lambda>_ env a (st :: unit sys_state). Inr (0, st)) (replicate NACL_MAX_SYSCALLS None) = Inr table
     \<and> table ! 0 = None \<and> table ! 85 \<noteq> None"
proof -
  let ?u = "\<lambda>_ env a (st :: unit sys_state). Inr (0 :: int, st)"
  obtain table where t: "NaClAppRegisterDefaultSyscalls ?u (replicate NACL_MAX_SYSCALLS None) = Inr table"
    "\<forall>(n, h) \<in> set (default_syscalls ?u). table ! n = Some h"
    "\<forall>n \<in> {0 ..< NACL_MAX_SYSCALLS} - fst ` set (default_syscalls ?u). table ! n = None"
    using default_syscalls_registered [of ?u] by blast
  have "0 \<notin> fst ` set (default_syscalls ?u)" unfolding default_syscalls_def sys_numbers by simp
  then have "table ! 0 = None" using t(3) by (simp add: NACL_MAX_SYSCALLS_def)
  moreover have "\<exists>h. (85, h) \<in> set (default_syscalls ?u)" unfolding default_syscalls_def sys_numbers by auto
  ultimately show ?thesis using t(1,2) by fastforce
qed

text \<open>C37: A number that has no handler is answered and changes nothing in the sandbox: with \<open>EINVAL\<close> when it is outside
  the table, else with \<open>ENOSYS\<close>.\<close>
theorem unknown_syscall_refused:
  assumes "suspend_state (natp st) = NACL_APP_THREAD_UNTRUSTED"
    and "pending_number st \<notin> fst ` set (default_syscalls unmodelled)"
  shows "\<exists>st'. NaClSyscallCSegHook (syscall_table unmodelled) env st = Inr st' \<and> app st' = app st
    \<and> r_sysret (user (natp st')) =
        ucast (word_of_int (if NACL_MAX_SYSCALLS \<le> pending_number st then - NACL_ABI_EINVAL else - NACL_ABI_ENOSYS) :: u32)"
proof -
  have "syscall_table unmodelled ! pending_number st = None" if "pending_number st < NACL_MAX_SYSCALLS"
    using assms(2) that by (simp add: syscall_table_def map_of_eq_None_iff)
  then show ?thesis
    using assms(1)
    by (auto simp: NaClSyscallCSegHook_def HandleStackContext_def Let_def set_suspend_eq call_handler_def not_le
        NaClSysNotImplementedDecoder_def pending_number_def NaClUserToSysStackAddr_def NACL_TRAMPRET_FIX_def
        set_suspend_state_def NaClAppThreadSetSuspendState_def)
qed

theorem unknown_syscall_refused_witness:
  "\<exists>st'. NaClSyscallCSegHook (syscall_table (\<lambda>_ env a (st :: unit sys_state). Inr (0, st))) demo_henv
      (demo_sys\<lparr>app := demo_mem\<rparr>) = Inr st' \<and> r_sysret (user (natp st')) = 0xffffffea"
proof -
  let ?u = "\<lambda>_ env a (st :: unit sys_state). Inr (0 :: int, st)"
  let ?st = "demo_sys\<lparr>app := demo_mem\<rparr>"
  have s: "suspend_state (natp ?st) = NACL_APP_THREAD_UNTRUSTED" by (simp add: demo_sys_def)
  have "load32 0x10004FFF0 (\<lambda>_. 0) = 0" by code_simp
  moreover have "drop_bit NACL_SYSCALL_BLOCK_SHIFT (0 - NACL_SYSCALL_START_ADDR) = 0x7FFF800" by code_simp
  ultimately have n: "NACL_MAX_SYSCALLS \<le> pending_number ?st"
    by (simp add: pending_number_def demo_sys_def demo_mem_def syscall_number_def NACL_MAX_SYSCALLS_def)
  have "pending_number ?st \<notin> fst ` set (default_syscalls ?u)" using default_bounded [of ?u] n by fastforce
  from unknown_syscall_refused [OF s this, of demo_henv] n show ?thesis by (auto simp: NACL_ABI_EINVAL_def)
qed

text \<open>C38: When a sleep is interrupted, the 16 bytes written to the buffer for the remaining time end with the bytes that
  the padding of an uninitialised variable of the service runtime holds. The write faults exactly when the
  host protects a byte of the buffer.\<close>
theorem nanosleep_leaks_padding:
  assumes "NaClUserToSysAddrRange nap (ucast rem_addr) 16 = a" "a \<noteq> kNaClBadAddress" "rem_addr \<noteq> 0"
    and "NaClCopyInFromUser nap (ucast req_addr) 16 = Inr (Some t)"
    and "he_nanosleep env t (host nap) = (- NACL_ABI_EINTR, sec, nsec, padding, h)" "length padding = 4"
  shows "if user_fault (nap\<lparr>host := h\<rparr>) True a 16 then NaClSysNanosleep env nap req_addr rem_addr = Inl Access_fault
    else \<exists>nap'. NaClSysNanosleep env nap req_addr rem_addr = Inr (- NACL_ABI_EINTR, nap')
      \<and> read_bytes a 16 (fa_mem nap') = le_bytes 8 sec @ le_bytes 4 nsec @ padding"
proof -
  let ?bs = "le_bytes 8 sec @ le_bytes 4 nsec @ padding"
  have u: "NaClUserToSysAddrRange (nap\<lparr>host := h\<rparr>) (ucast rem_addr) 16 = a"
    unfolding assms(1) [symmetric] by (simp add: NaClUserToSysAddrRange_def addr_limit_def cong: if_cong)
  have "NaClCopyOutToUser (nap\<lparr>host := h\<rparr>) (ucast rem_addr) ?bs = (if user_fault (nap\<lparr>host := h\<rparr>) True a 16 then Inl Access_fault
      else Inr (Some (nap\<lparr>host := h, fa_mem := write_bytes a ?bs (fa_mem nap)\<rparr>)))"
    using u assms(2,6) by (auto simp: NaClCopyOutToUser_def Let_def user_access_def)
  moreover have "read_bytes a 16 (write_bytes a ?bs (fa_mem nap)) = ?bs"
    using read_write_same [of ?bs a "fa_mem nap"] assms(6) by simp
  ultimately show ?thesis using assms by (auto simp: NaClSysNanosleep_def)
qed

theorem nanosleep_leaks_padding_witness:
  "\<exists>nap'. NaClSysNanosleep (demo_henv\<lparr>he_nanosleep := \<lambda>_ h. (- NACL_ABI_EINTR, 0, 0, [7, 7, 7, 7], h)\<rparr>) demo_mem 0x50000 0x50010
      = Inr (- NACL_ABI_EINTR, nap')
    \<and> read_bytes 0x100050010 16 (fa_mem nap') = [0, 0, 0, 0, 0, 0, 0, 0, 0, 0, 0, 0, 7, 7, 7, 7]"
proof -
  have a: "NaClUserToSysAddrRange demo_mem (ucast (0x50010 :: u32)) 16 = 0x100050010" unfolding demo_mem_def by code_simp
  have b: "NaClCopyInFromUser demo_mem (ucast (0x50000 :: u32)) 16 = Inr (Some (replicate 16 0))" unfolding demo_mem_def by code_simp
  have z: "le_bytes 8 (0 :: u64) @ le_bytes 4 (0 :: u32) @ [7, 7, 7, 7] = [0, 0, 0, 0, 0, 0, 0, 0, 0, 0, 0, 0, 7, 7, 7, 7]"
    by code_simp
  let ?env = "demo_henv\<lparr>he_nanosleep := \<lambda>_ h. (- NACL_ABI_EINTR, 0, 0, [7, 7, 7, 7], h)\<rparr>"
  have f: "\<not> user_fault (demo_mem\<lparr>host := ()\<rparr>) True 0x100050010 16"
    using user_fault_faulting no_faults [of "demo_mem\<lparr>host := ()\<rparr>"] by (auto simp: demo_mem_def)
  show ?thesis unfolding z [symmetric]
    using nanosleep_leaks_padding [OF a _ _ b, of ?env 0 0 "[7, 7, 7, 7]" "()"] f by (simp add: kNaClBadAddress_def)
qed

end
