(* ===== verification/FutexClaims.thy ===== *)
theory FutexClaims
  imports FutexList FdClaims
begin

text \<open>The properties of the futexes, for any interleaving of threads that wait and wake.\<close>

section \<open>Runs\<close>

definition NACL_THREAD_MAX :: nat where "NACL_THREAD_MAX = 8192"

text \<open>
  What a run shows: a thread begins to wait, is refused, a wake answers with a count, a thread that
  waited returns from the call. The numbers of the threads that wait are kept beside the list; the
  memory of the sandbox changes at any time, and a wait on a condition variable ends at any time
  and with any status.
\<close>

datatype futex_event = Waits nat | Refused nat int | Wakes int | Returns nat int

inductive futex_run ::
    "('h, 'z) fd_app_scheme \<Rightarrow> futex_list \<Rightarrow> nat set \<Rightarrow> futex_event list \<Rightarrow> bool" where
  Start: "\<forall>t. fx_next fx (Thread_node t) = None \<Longrightarrow> futex_run nap (futex_list_init fx) {} []"
| Memory: "futex_run nap fx W es \<Longrightarrow> futex_run nap' fx W es"
| Wait: "futex_run nap fx W es \<Longrightarrow> t \<notin> W \<Longrightarrow> t < NACL_THREAD_MAX
    \<Longrightarrow> FutexWaitAbs_enter nap t addr value abstime_ptr fx = Inr (None, fx')
    \<Longrightarrow> futex_run nap fx' (insert t W) (Waits t # es)"
| Refuse: "futex_run nap fx W es \<Longrightarrow> t \<notin> W
    \<Longrightarrow> FutexWaitAbs_enter nap t addr value abstime_ptr fx = Inr (Some r, fx')
    \<Longrightarrow> futex_run nap fx' W (Refused t r # es)"
| Wake: "futex_run nap fx W es \<Longrightarrow> FutexWake addr nwake fx = Some (Inr (c, fx'))
    \<Longrightarrow> futex_run nap fx' W (Wakes c # es)"
| Return: "futex_run nap fx W es \<Longrightarrow> t \<in> W \<Longrightarrow> FutexWaitAbs_resume t status fx = Inr (r, fx')
    \<Longrightarrow> futex_run nap fx' (W - {t}) (Returns t r # es)"

text \<open>How many threads the wakes said they woke, and how many calls returned without an error.\<close>

fun wakes :: "futex_event list \<Rightarrow> int" where
  "wakes [] = 0"
| "wakes (Wakes c # es) = c + wakes es"
| "wakes (_ # es) = wakes es"

fun successes :: "futex_event list \<Rightarrow> nat" where
  "successes [] = 0"
| "successes (Returns t r # es) = (if r = 0 then 1 else 0) + successes es"
| "successes (_ # es) = successes es"

lemma queue_same:
  assumes "fx_next fx' = fx_next fx" "fx_prev fx' = fx_prev fx"
  shows "queue_is fx' ts = queue_is fx ts"
proof -
  have "linked fx' p xs q = linked fx p xs q" for p xs q by (rule linked_frame) (simp_all add: assms)
  then show ?thesis by (simp add: queue_is_def assms)
qed

lemma enter_ok:
  assumes q: "queue_is fx ts" and t: "t \<notin> set ts" and r: "FutexWaitAbs_enter nap t addr value abstime_ptr fx = Inr (x, fx')"
  shows "x = None \<Longrightarrow> queue_is fx' (ts @ [t])" "x = Some r \<Longrightarrow> fx' = fx"
proof -
  let ?fx = "fx\<lparr>futex_wait_addr := (futex_wait_addr fx)(t := addr)\<rparr>"
  have "queue_is ?fx ts" using q queue_same [of ?fx fx] by simp
  from enqueue_ok [OF this t] obtain fx1 where fx1: "ListAddNodeAtEnd (Thread_node t) Head ?fx = Inr fx1" "queue_is fx1 (ts @ [t])" by blast
  show "x = None \<Longrightarrow> queue_is fx' (ts @ [t])" "x = Some r \<Longrightarrow> fx' = fx"
    using r fx1 by (auto simp: FutexWaitAbs_enter_def split: if_splits option.splits)
qed

lemma in_queue:
  assumes "queue_is fx ts"
  shows "fx_next fx (Thread_node t) = None \<longleftrightarrow> t \<notin> set ts"
proof
  assume n: "fx_next fx (Thread_node t) = None"
  show "t \<notin> set ts"
  proof
    assume "t \<in> set ts"
    then obtain us vs where s: "ts = us @ t # vs" by (auto simp: in_set_conv_decomp)
    then have "linked fx (Thread_node t) (map Thread_node vs) Head" using assms by (simp add: queue_is_def linked_append)
    from linked_first [OF this] n show False by simp
  qed
qed (use assms in \<open>simp add: queue_is_def\<close>)

lemma resume_ok:
  assumes q: "queue_is fx ts" and r: "FutexWaitAbs_resume t status fx = Inr (r, fx')"
  shows "queue_is fx' (removeAll t ts)" "t \<notin> set ts \<Longrightarrow> r = 0"
proof -
  have clear: "queue_is (fx1\<lparr>futex_wait_addr := A\<rparr>) us = queue_is fx1 us" for fx1 A us by (rule queue_same) simp_all
  have "queue_is fx' (removeAll t ts) \<and> (t \<notin> set ts \<longrightarrow> r = 0)"
  proof (cases "t \<in> set ts")
    case False
    let ?fx = "set_prev (Thread_node t) None (set_next (Thread_node t) None fx)"
    have "fx_next fx (Thread_node t) = None" using in_queue [OF q] False by simp
    then have "r = 0" "fx' = ?fx\<lparr>futex_wait_addr := (futex_wait_addr fx)(t := 0)\<rparr>"
      using r by (auto simp: FutexWaitAbs_resume_def)
    moreover have "linked ?fx Head (map Thread_node ts) Head = linked fx Head (map Thread_node ts) Head"
      by (rule linked_frame) (use False in auto)
    moreover have "queue_is ?fx ts" using q False calculation(3) by (auto simp: queue_is_def)
    ultimately show ?thesis using False clear by simp
  next
    case True
    then obtain us vs where s: "ts = us @ t # vs" by (auto simp: in_set_conv_decomp)
    have "fx_next fx (Thread_node t) \<noteq> None" using in_queue [OF q] True by simp
    moreover obtain fx1 where fx1: "ListRemoveNode (Thread_node t) fx = Inr fx1"
      "queue_is (set_prev (Thread_node t) None (set_next (Thread_node t) None fx1)) (us @ vs)"
      using remove_ok q s by blast
    ultimately have "queue_is fx' (us @ vs)" using r clear by (auto simp: FutexWaitAbs_resume_def)
    moreover have "distinct ts" using q by (simp add: queue_is_def)
    ultimately show ?thesis using s True by simp
  qed
  then show "queue_is fx' (removeAll t ts)" "t \<notin> set ts \<Longrightarrow> r = 0" by simp_all
qed

lemma sint_small: "n < 2 ^ 31 \<Longrightarrow> sint (word_of_nat n :: u32) = int n"
  by (simp add: signed_of_nat signed_take_bit_int_eq_self)

lemma wake_ok:
  assumes q: "queue_is fx ts" and n: "length ts < 2 ^ 31"
  shows "\<exists>fx'. FutexWake addr nwake fx
      = Some (Inr (int (length (woken_by (futex_wait_addr fx) addr (unat nwake) ts)), fx'))
    \<and> queue_is fx' (left_by (futex_wait_addr fx) addr (unat nwake) ts)
    \<and> signalled fx' = signalled fx @ woken_by (futex_wait_addr fx) addr (unat nwake) ts"
proof -
  have lk: "linked fx Head (map Thread_node ts) Head" using q by (simp add: queue_is_def)
  from wake_loop_ok [of fx "[]" ts, OF _ refl, of addr nwake 0] q
  obtain fx' where w: "wake_loop addr nwake 0 (Some (hd (map Thread_node ts @ [Head]))) fx
      = Some (Inr (word_of_nat (length (woken_by (futex_wait_addr fx) addr (unat nwake) ts)), fx'))"
    "queue_is fx' (left_by (futex_wait_addr fx) addr (unat nwake) ts)"
    "signalled fx' = signalled fx @ woken_by (futex_wait_addr fx) addr (unat nwake) ts" by auto
  have "length (woken_by (futex_wait_addr fx) addr (unat nwake) ts) \<le> length ts" by (rule woken_length)
  then have "sint (word_of_nat (length (woken_by (futex_wait_addr fx) addr (unat nwake) ts)) :: u32)
      = int (length (woken_by (futex_wait_addr fx) addr (unat nwake) ts))"
    using n by (intro sint_small) simp
  then show ?thesis using w linked_first [OF lk] by (simp add: FutexWake_def)
qed

definition run_state :: "futex_list \<Rightarrow> nat set \<Rightarrow> futex_event list \<Rightarrow> nat list \<Rightarrow> bool" where
  "run_state fx W es ts \<longleftrightarrow> queue_is fx ts \<and> set ts \<subseteq> W \<and> finite W \<and> W \<subseteq> {..< NACL_THREAD_MAX}
     \<and> wakes es \<le> int (successes es + card (W - set ts))"

lemma run_state_length:
  assumes "run_state fx W es ts"
  shows "length ts < 2 ^ 31"
proof -
  have "length ts = card (set ts)" using assms by (simp add: run_state_def queue_is_def distinct_card)
  also have "\<dots> \<le> card {..< NACL_THREAD_MAX}" using assms by (intro card_mono) (auto simp: run_state_def)
  finally show ?thesis by (simp add: NACL_THREAD_MAX_def)
qed

lemma futex_run_state: "futex_run nap fx W es \<Longrightarrow> \<exists>ts. run_state fx W es ts"
proof (induction rule: futex_run.induct)
  case (Start fx nap)
  then show ?case using init_queue by (auto simp: run_state_def)
next
  case (Wait nap fx W es t addr val abstime_ptr fx')
  then obtain ts where ts: "run_state fx W es ts" by blast
  then have t: "t \<notin> set ts" using Wait.hyps(2) by (auto simp: run_state_def)
  have "queue_is fx' (ts @ [t])" using enter_ok(1) [OF _ t Wait.hyps(4) refl] ts by (auto simp: run_state_def)
  moreover have "insert t W - set (ts @ [t]) = W - set ts" using Wait.hyps(2) by auto
  ultimately have "run_state fx' (insert t W) (Waits t # es) (ts @ [t])"
    using ts Wait.hyps(3) by (auto simp: run_state_def)
  then show ?case by blast
next
  case (Refuse nap fx W es t addr val abstime_ptr r fx')
  then obtain ts where ts: "run_state fx W es ts" by blast
  then have t: "t \<notin> set ts" using Refuse.hyps(2) by (auto simp: run_state_def)
  have "fx' = fx" using enter_ok(2) [OF _ t Refuse.hyps(3) refl] ts by (simp add: run_state_def)
  then have "run_state fx' W (Refused t r # es) ts" using ts by (simp add: run_state_def)
  then show ?case by blast
next
  case (Wake nap fx W es addr nwake c fx')
  then obtain ts where ts: "run_state fx W es ts" by blast
  let ?A = "futex_wait_addr fx"
  let ?w = "woken_by ?A addr (unat nwake) ts" and ?l = "left_by ?A addr (unat nwake) ts"
  have q: "queue_is fx ts" "set ts \<subseteq> W" "finite W" using ts by (simp_all add: run_state_def)
  have c: "c = int (length ?w)" and q': "queue_is fx' ?l"
    using wake_ok [OF q(1) run_state_length [OF ts], of addr nwake] Wake.hyps(2) by auto
  have w: "distinct ?w" "set ?w \<subseteq> set ts"
    using q(1) woken_set [of ?A addr "unat nwake" ts] by (auto simp: woken_by_def waiting_for_def queue_is_def)
  have "W - set ?l = (W - set ts) \<union> set ?w" using q(2) w(2) by (auto simp: left_by_def)
  then have "card (W - set ?l) = card (W - set ts) + length ?w"
    using card_Un_disjoint [of "W - set ts" "set ?w"] w q(3) by (simp add: distinct_card) blast
  then have "run_state fx' W (Wakes c # es) ?l"
    using ts q' c by (auto simp: run_state_def left_by_def)
  then show ?case by blast
next
  case (Return nap fx W es t status r fx')
  then obtain ts where ts: "run_state fx W es ts" by blast
  then have q: "queue_is fx ts" "set ts \<subseteq> W" "finite W" by (simp_all add: run_state_def)
  note r = resume_ok [OF q(1) Return.hyps(3)]
  have "run_state fx' (W - {t}) (Returns t r # es) (removeAll t ts)"
  proof (cases "t \<in> set ts")
    case True
    then have "W - {t} - set (removeAll t ts) = W - set ts" by auto
    then show ?thesis using ts r(1) by (auto simp: run_state_def)
  next
    case False
    then have e: "W - {t} - set (removeAll t ts) = (W - set ts) - {t}" "t \<in> W - set ts" using Return.hyps(2) by auto
    then have "Suc (card ((W - set ts) - {t})) = card (W - set ts)" using q(3) by (intro card_Suc_Diff1) auto
    then show ?thesis using ts r False e by (auto simp: run_state_def)
  qed
  then show ?case by blast
qed blast

section \<open>The properties\<close>

text \<open>C6: Waking ends and wakes, in the order in which they came, the first threads that wait for the address, as
  many as there are up to the number asked for; it signals exactly those and returns how many they are. All
  other threads stay in the queue in their order. This is about the queue the runtime keeps itself, the branch of \<open>sys_futex.c\<close> for
  hosts other than Linux; on Linux the call is passed on to the host's own futex (\<open>SysMisc\<close>).\<close>
theorem futex_wake_fifo:
  assumes "queue_is fx ts" "length ts < 2 ^ 31"
    and "ws = take (unat nwake) (filter (\<lambda>t. futex_wait_addr fx t = addr) ts)"
  shows "\<exists>fx'. FutexWake addr nwake fx = Some (Inr (int (length ws), fx'))
    \<and> queue_is fx' (filter (\<lambda>t. t \<notin> set ws) ts) \<and> signalled fx' = signalled fx @ ws"
  using wake_ok [OF assms(1,2), of addr nwake] by (simp add: assms(3) woken_by_def left_by_def waiting_for_def)

definition demo_futex :: futex_list where
  "demo_futex = \<lparr>fx_next = (\<lambda>_. None), fx_prev = (\<lambda>_. None), futex_wait_addr = (\<lambda>_. 0), signalled = []\<rparr>"

text \<open>Threads 3, 5 and 4 wait in this order, the second for another address.\<close>

definition demo_waiting :: futex_list where
  "demo_waiting =
     \<lparr>fx_next = (\<lambda>_. None)(Head \<mapsto> Thread_node 3, Thread_node 3 \<mapsto> Thread_node 5, Thread_node 5 \<mapsto> Thread_node 4, Thread_node 4 \<mapsto> Head),
      fx_prev = (\<lambda>_. None)(Thread_node 3 \<mapsto> Head, Thread_node 5 \<mapsto> Thread_node 3, Thread_node 4 \<mapsto> Thread_node 5, Head \<mapsto> Thread_node 4),
      futex_wait_addr = (\<lambda>_. 0)(3 := 0x5000, 5 := 0x6000, 4 := 0x5000), signalled = []\<rparr>"

theorem futex_wake_fifo_witness:
  "\<exists>fx'. FutexWake 0x5000 7 demo_waiting = Some (Inr (2, fx')) \<and> queue_is fx' [5] \<and> signalled fx' = [3, 4]"
proof -
  have q: "queue_is demo_waiting [3, 5, 4]" by (auto simp: queue_is_def demo_waiting_def)
  have w: "[3, 4] = take (unat (7 :: u32)) (filter (\<lambda>t. futex_wait_addr demo_waiting t = 0x5000) [3, 5, 4])"
    by (simp add: demo_waiting_def)
  from futex_wake_fifo [OF q _ w] show ?thesis by (simp add: demo_waiting_def)
qed

text \<open>C7: However threads wait, are woken, time out and wake up for no reason: no wake-up is lost. Of the threads that wakes
  said they woke, each has returned with success or is still to return, and then it returns with success
  whatever the status of its wait, a timeout included. Like the property before it this is about the branch of
  \<open>sys_futex.c\<close> for hosts other than Linux.\<close>
theorem futex_no_lost_wakeup:
  assumes "futex_run nap fx W es"
  shows "\<exists>ts. queue_is fx ts \<and> set ts \<subseteq> W \<and> wakes es \<le> int (successes es + card (W - set ts))
    \<and> (\<forall>t \<in> W - set ts. \<forall>status r fx'. FutexWaitAbs_resume t status fx = Inr (r, fx') \<longrightarrow> r = 0)"
proof -
  obtain ts where ts: "run_state fx W es ts" using futex_run_state [OF assms] by blast
  then have "\<forall>t \<in> W - set ts. \<forall>status r fx'. FutexWaitAbs_resume t status fx = Inr (r, fx') \<longrightarrow> r = 0"
    using resume_ok(2) by (fastforce simp: run_state_def)
  then show ?thesis using ts by (auto simp: run_state_def)
qed

lemma demo_read0: "NaClCopyInFromUser demo_fd (ucast (0x5000 :: u32)) 4 = Inr (Some [0, 0, 0, 0])"
  unfolding demo_fd_def by code_simp

lemma demo_lost_wakeup:
  "\<exists>fx. futex_run demo_fd fx {} [Returns 3 0, Wakes 1, Waits 3]"
proof -
  let ?f0 = "futex_list_init demo_futex"
  have z: "le_word [0, 0, 0, 0 :: u8] = (0 :: u32)" by (simp add: le_word_def)
  have q0: "queue_is ?f0 []" by (rule init_queue) (simp add: demo_futex_def)
  let ?f0' = "?f0\<lparr>futex_wait_addr := (futex_wait_addr ?f0)(3 := 0x5000)\<rparr>"
  have "queue_is ?f0' []" using q0 queue_same [of ?f0' ?f0] by simp
  from enqueue_ok [OF this, of 3] obtain f1 where f1: "ListAddNodeAtEnd (Thread_node 3) Head ?f0' = Inr f1"
    "queue_is f1 [3]" "futex_wait_addr f1 = futex_wait_addr ?f0'" by auto
  then have e: "FutexWaitAbs_enter demo_fd 3 0x5000 0 0 ?f0 = Inr (None, f1)"
    using demo_read0 z by (simp add: FutexWaitAbs_enter_def)
  from wake_ok [OF f1(2), of "0x5000" 1] f1(3) obtain f2 where
    f2: "FutexWake 0x5000 1 f1 = Some (Inr (1, f2))" "queue_is f2 []"
    by (auto simp: woken_by_def left_by_def waiting_for_def)
  have "fx_next f2 (Thread_node 3) = None" using in_queue [OF f2(2)] by simp
  then obtain f3 where f3: "FutexWaitAbs_resume 3 NACL_SYNC_CONDVAR_TIMEDOUT f2 = Inr (0, f3)"
    by (auto simp: FutexWaitAbs_resume_def)
  have "futex_run demo_fd ?f0 {} []" by (rule Start) (simp add: demo_futex_def)
  from Wait [OF this _ _ e] have "futex_run demo_fd f1 {3} [Waits 3]" by (simp add: NACL_THREAD_MAX_def)
  from Return [OF Wake [OF this f2(1)] _ f3] show ?thesis by auto
qed

theorem futex_no_lost_wakeup_witness:
  "\<exists>fx. futex_run demo_fd fx {} [Returns 3 0, Wakes 1, Waits 3] \<and> queue_is fx []"
proof -
  obtain fx where r: "futex_run demo_fd fx {} [Returns 3 0, Wakes 1, Waits 3]" using demo_lost_wakeup by blast
  from futex_no_lost_wakeup [OF this] r show ?thesis by auto
qed

end
