(* ===== verification/PathClaims.thy ===== *)
theory PathClaims
  imports SysClaims FutexClaims
begin

text \<open>The properties of path names: what the canonical form means, and where the paths of a run lead.\<close>

section \<open>Canonical paths\<close>

text \<open>The components of a canonical path, read from any directory, are appended to it.\<close>

lemma meaning_parts:
  assumes "list_all component ps"
  shows "foldl walk dir (split_path (AppendPartsToPath ps [] @ (if trailing then [SLASH] else []))) = dir @ ps"
  using assms
proof (induction ps arbitrary: dir)
  case (Cons q qs)
  let ?rest = "AppendPartsToPath qs [] @ (if trailing then [SLASH] else [])"
  have q: "SLASH \<notin> set q" "q \<noteq> []" "q \<noteq> dot_name" "q \<noteq> dotdot_name" using Cons.prems by (simp_all add: component_def)
  have st: "AppendPartsToPath (q # qs) [] @ (if trailing then [SLASH] else []) = SLASH # q @ ?rest"
    using append_parts_simps(3) [of qs "SLASH # q" "[]"] by simp
  have "?rest = [] \<or> hd ?rest = SLASH" by (cases qs) (simp_all add: AppendPartsToPath_def)
  then have h: "hd (split_path ?rest) = []" by (cases ?rest) simp_all
  have "split_path (q @ ?rest) = q # tl (split_path ?rest)" using split_name [OF q(1), of ?rest] h by simp
  moreover have "foldl walk d (tl (split_path ?rest)) = foldl walk d (split_path ?rest)" for d
    using h by (cases "split_path ?rest") simp_all
  ultimately show ?case unfolding st using Cons walk_cases(3) [OF q(2-4)] by simp
qed simp

text \<open>C8: The canonical form of an absolute path means the same as the path, read component by component from the root
  as a file system without links does: it consists of the components that are left, with no empty one,
  no \<open>.\<close> and no \<open>..\<close> among them, and the directories whose existence it demands have that form as well.\<close>
theorem canonical_path_meaning:
  assumes "abs_path \<noteq> []" "hd abs_path = SLASH"
  shows "\<exists>path subs. CanonicalizeAbsolutePath abs_path = Inr (path, subs)
    \<and> below [] path \<and> meaning path = meaning abs_path \<and> list_all component (meaning abs_path)
    \<and> (\<forall>s \<in> set subs. below [] s)"
proof -
  let ?c = "\<lambda>t. if meaning abs_path \<noteq> [] then AppendPartsToPath (meaning abs_path) [] @ (if t then [SLASH] else []) else [SLASH]"
  obtain t subs where c: "CanonicalizeAbsolutePath abs_path = Inr (?c t, subs)" "list_all component (meaning abs_path)"
    using canonical_form [OF assms] by blast
  have "below [] (?c t)" "\<forall>s \<in> set subs. below [] s" using canonical_below [OF c(1) assms, of "[]"] by simp_all
  moreover have "meaning (?c t) = meaning abs_path"
    using meaning_parts [OF c(2), of "[]" t] by (simp add: meaning_def)
  ultimately show ?thesis using c by blast
qed

theorem canonical_path_meaning_witness:
  "CanonicalizeAbsolutePath [47, 97, 47, 46, 46, 47, 98] = Inr ([47, 98], [[47, 97, 47]])
   \<and> meaning [47, 97, 47, 46, 46, 47, 98] = [[98]]"
proof -
  let ?p = "[47, 97, 47, 46, 46, 47, 98] :: path"
  have "meaning ?p = [[98]]" by code_simp
  moreover have "CanonicalizeAbsolutePath ?p = Inr ([47, 98], [[47, 97, 47]])" by code_simp
  moreover have "\<exists>path subs. CanonicalizeAbsolutePath ?p = Inr (path, subs) \<and> meaning path = meaning ?p"
    using canonical_path_meaning [of ?p] by (auto simp: SLASH_def)
  ultimately show ?thesis by simp
qed

text \<open>C40: The canonical form of a canonical path is the path itself, and it demands no more directories to exist.\<close>
theorem canonical_path_stable:
  assumes "CanonicalizeAbsolutePath abs_path = Inr (path, subs)"
  shows "CanonicalizeAbsolutePath path = Inr (path, [])"
proof -
  have a: "abs_path \<noteq> []" "hd abs_path = SLASH" using assms by (auto simp: CanonicalizeAbsolutePath_def)
  from canonical_form [OF a] canonical_again show ?thesis using assms by auto
qed

theorem canonical_path_stable_witness:
  "CanonicalizeAbsolutePath [47, 97, 47, 46, 47, 46, 46, 47, 98, 47] = Inr ([47, 98, 47], [[47, 97, 47]])
   \<and> CanonicalizeAbsolutePath [47, 98, 47] = Inr ([47, 98, 47], [])"
proof -
  have c: "CanonicalizeAbsolutePath [47, 97, 47, 46, 47, 46, 46, 47, 98, 47] = Inr ([47, 98, 47], [[47, 97, 47]])" by code_simp
  from canonical_path_stable [OF this] c show ?thesis by simp
qed

section \<open>A run with a mounted root directory\<close>

text \<open>
  A thread that makes the directory \<open>/../b\<close> with the directory \<open>/r\<close> mounted. The host finds every path, and
  none is a link.
\<close>

definition demo_mkdir_mem :: bytes where
  "demo_mkdir_mem = write_bytes 0x10004FFD8 [0, 1, 5, 0, 0xC0, 1, 0, 0] (write_bytes 0x10004FFF0 [0xA0, 5, 1, 0, 0, 0, 0, 0, 0, 0, 2, 0, 0x77, 0, 0, 0]
     (write_bytes 0x100050100 [47, 46, 46, 47, 98, 0] (\<lambda>_. 0)))"

definition demo_root_env :: "unit sys_env" where
  "demo_root_env = demo_henv\<lparr>he_rootdir := True, he_root := [47, 114], he_path := (\<lambda>_ h. (\<lparr>pr_errno = 0, pr_value = 0, pr_bytes = [],
       pr_stat = \<lparr>hs_ino = 1, hs_mode = 0x41C0, hs_nlink = 1, hs_size = 0, hs_atime = 0, hs_mtime = 0, hs_ctime = 0\<rparr>\<rparr>, h))\<rparr>"

definition demo_mkdir :: "unit sys_state" where
  "demo_mkdir = demo_sys\<lparr>app := demo_mem\<lparr>fa_mem := demo_mkdir_mem\<rparr>\<rparr>"

lemma demo_mkdir_ready: "sys_ready (\<lambda>_. 0) {#} {#} (app demo_mkdir)" "addr_bits (app demo_mkdir) = 32"
proof -
  have "sys_ready (\<lambda>_. 0) {#} {#} ((app demo_sys)\<lparr>fa_mem := demo_mkdir_mem\<rparr>)" by (rule ready_memory [OF demo_sys_ready])
  then show "sys_ready (\<lambda>_. 0) {#} {#} (app demo_mkdir)" by (simp add: demo_mkdir_def demo_sys_def)
  show "addr_bits (app demo_mkdir) = 32" by (simp add: demo_mkdir_def demo_mem_def)
qed

lemma demo_root_good: "host_good demo_root_env demo_mkdir"
  using demo_host_good by (simp add: host_good_def demo_root_env_def demo_mkdir_def demo_sys_def demo_henv_def)

lemma demo_mkdir_words:
  "load32 0x10004FFF0 demo_mkdir_mem = 0x105A0" "load64 0x10004FFF8 demo_mkdir_mem = 0x7700020000"
  "NaClCopyInFromUserAndDropLock (demo_mem\<lparr>fa_mem := demo_mkdir_mem\<rparr>) 0x4FFD8 8 = Inr (Some [0, 1, 5, 0, 0xC0, 1, 0, 0])"
  "syscall_words 2 [0, 1, 5, 0, 0xC0, 1, 0, 0] = [0x50100, 0x1C0]" "syscall_number 0x105A0 = 45"
  "NaClUserToSysAddr (demo_mem\<lparr>fa_mem := demo_mkdir_mem\<rparr>) 0x50100 = 0x100050100"
  by code_simp+

lemma demo_mkdir_path:
  "NaClCopyInFromUserZStr (demo_mem\<lparr>fa_mem := demo_mkdir_mem\<rparr>) (replicate NACL_CONFIG_PATH_MAX 0) 0x50100
     = Inr (True, [47, 46, 46, 47, 98] @ replicate 1019 0)"
proof -
  have b: "demo_mkdir_mem 0x100050100 = 47" "demo_mkdir_mem 0x100050101 = 46" "demo_mkdir_mem 0x100050102 = 46"
    "demo_mkdir_mem 0x100050103 = 47" "demo_mkdir_mem 0x100050104 = 98" "demo_mkdir_mem 0x100050105 = 0"
    by code_simp+
  have "strncpy demo_mkdir_mem 0x100050100 (Suc (Suc (Suc (Suc (Suc (Suc n)))))) = [47, 46, 46, 47, 98] @ replicate (Suc n) 0" for n
    by (simp add: b)
  from this [of 1018] have "strncpy demo_mkdir_mem 0x100050100 1024 = [47, 46, 46, 47, 98] @ replicate 1019 0" by simp
  moreover have "\<not> user_fault demo_mem w a n" for w a n
    using user_fault_faulting [of demo_mem] no_faults [of demo_mem] by (auto simp: demo_mem_def)
  then have "user_access demo_mem w a n = Inr ()" for w a n by simp
  ultimately show ?thesis
    by (simp add: NaClCopyInFromUserZStr_def demo_mkdir_words(6) kNaClBadAddress_def NACL_CONFIG_PATH_MAX_def nth_append)
qed

lemma demo_mkdir_call:
  "\<exists>st'. NaClSyscallCSegHook (syscall_table u) demo_root_env demo_mkdir = Inr st'
     \<and> path_log st' = [Op_mkdir [47, 114, 47, 98] 0x1C0, Op_lstat [47, 114, 47, 98]]"
proof -
  have "map_of (default_syscalls u) 45 = Some (2, (\<lambda>env a st. NaClSysMkdir env st (a ! 0) (a ! 1)))"
    unfolding default_syscalls_def sys_numbers by simp
  then have e: "syscall_table u ! 45 = Some (2, (\<lambda>env a st. NaClSysMkdir env st (a ! 0) (a ! 1)))"
    by (simp add: syscall_table_def NACL_MAX_SYSCALLS_def)
  have c: "CanonicalizeAbsolutePath [47, 46, 46, 47, 98] = Inr ([47, 98], [])" by code_simp
  have m: "NaClMapMode 0x1C0 = 0x1C0" by code_simp
  have n: "NACL_MAX_SYSCALLS = 151" by code_simp
  show ?thesis
    using demo_mkdir_words e demo_mkdir_path c m
    by (simp add: NaClSyscallCSegHook_def HandleStackContext_def demo_mkdir_def demo_sys_def NaClUserToSysStackAddr_def Let_def
        NACL_TRAMPRET_FIX_def NACL_USERRET_FIX_def NACL_SYSARGS_FIX_def NaClRawUserStackAddrNormalize_def
        set_suspend_state_def NaClAppThreadSetSuspendState_def call_handler_def syscall_decoder_def n NaClSysMkdir_def with_path_def
        CopyHostPathInFromUser_def demo_root_env_def demo_henv_def access_enabled_def NaClFileAccessEnabled_def
        CopyHostPathMounted_def VirtualToAbsolutePath_def ValidatePath_def IsSymbolicLink_def path_call_def
        NaClHostDescMkdir_def pass_on_def host_status_def PathContainsRootPrefix_def SLASH_def NACL_CONFIG_PATH_MAX_def)
qed

text \<open>C5: With a root directory mounted, every path that a run of the sandbox hands to the host, in whatever call
  and whatever untrusted code writes into its memory meanwhile, is the root followed by components none of
  which is \<open>.\<close> or \<open>..\<close>: no call leaves the mounted directory.\<close>
theorem paths_stay_below_root:
  assumes "sandbox_run unmodelled env st st'" "sys_ready E S F (app st)" "addr_bits (app st) = 32" "he_rootdir env"
  shows "\<exists>ops. path_log st' = ops @ path_log st \<and> (\<forall>op \<in> set ops. \<forall>p \<in> set (op_paths op). below (he_root env) p)"
  using run_ok [OF assms(1-3)] assms(4) by (auto simp: log_ok_def op_below_def list_all_iff)

theorem paths_stay_below_root_witness:
  "\<exists>st'. sandbox_run (\<lambda>_. undefined) demo_root_env demo_mkdir st'
     \<and> path_log st' = [Op_mkdir [47, 114, 47, 98] 0x1C0, Op_lstat [47, 114, 47, 98]] \<and> below [47, 114] [47, 114, 47, 98]"
proof -
  obtain st' where st': "NaClSyscallCSegHook (syscall_table (\<lambda>_. undefined)) demo_root_env demo_mkdir = Inr st'"
    "path_log st' = [Op_mkdir [47, 114, 47, 98] 0x1C0, Op_lstat [47, 114, 47, 98]]" using demo_mkdir_call by blast
  have n: "pending_number demo_mkdir = 45"
    using demo_mkdir_words(1,5) by (simp add: pending_number_def demo_mkdir_def demo_sys_def)
  have "usual_pending demo_mkdir" unfolding usual_pending_def n unmodelled_numbers_def sys_numbers by simp
  then have run: "sandbox_run (\<lambda>_. undefined) demo_root_env demo_mkdir st'"
    using sandbox_run.System_call [OF sandbox_run.Start demo_root_good _ st'(1)] by blast
  have "he_rootdir demo_root_env" "he_root demo_root_env = [47, 114]" "path_log demo_mkdir = []"
    by (simp_all add: demo_root_env_def demo_mkdir_def demo_sys_def)
  with paths_stay_below_root [OF run demo_mkdir_ready] st'(2) have "below [47, 114] [47, 114, 47, 98]" by auto
  then show ?thesis using run st'(2) by blast
qed

end
