(* ===== verification/ElfImage.thy ===== *)
theory ElfImage
  imports FdCalls DynCode
begin

text \<open>
  Executables (\<open>elf_util.c\<close>): reading the file header and the program headers of either class, and the
  checks that decide which segments are loaded. Headers are little-endian as on x86-64.
\<close>

section \<open>Error codes\<close>

definition LOAD_STATUS_UNKNOWN :: int where "LOAD_STATUS_UNKNOWN = 1"
definition LOAD_READ_ERROR :: int where "LOAD_READ_ERROR = 8"
definition LOAD_TOO_MANY_PROG_HDRS :: int where "LOAD_TOO_MANY_PROG_HDRS = 9"
definition LOAD_BAD_PHENTSIZE :: int where "LOAD_BAD_PHENTSIZE = 10"
definition LOAD_BAD_ELF_MAGIC :: int where "LOAD_BAD_ELF_MAGIC = 11"
definition LOAD_NOT_32_BIT :: int where "LOAD_NOT_32_BIT = 12"
definition LOAD_NOT_EXEC :: int where "LOAD_NOT_EXEC = 15"
definition LOAD_BAD_MACHINE :: int where "LOAD_BAD_MACHINE = 16"
definition LOAD_BAD_ELF_VERS :: int where "LOAD_BAD_ELF_VERS = 17"
definition LOAD_BAD_ELF_TEXT :: int where "LOAD_BAD_ELF_TEXT = 33"
definition LOAD_SEGMENT_OUTSIDE_ADDRSPACE :: int where "LOAD_SEGMENT_OUTSIDE_ADDRSPACE = 51"
definition LOAD_DUP_SEGMENT :: int where "LOAD_DUP_SEGMENT = 52"
definition LOAD_SEGMENT_BAD_LOC :: int where "LOAD_SEGMENT_BAD_LOC = 53"
definition LOAD_BAD_SEGMENT :: int where "LOAD_BAD_SEGMENT = 54"
definition LOAD_REQUIRED_SEG_MISSING :: int where "LOAD_REQUIRED_SEG_MISSING = 55"
definition LOAD_SEGMENT_BAD_PARAM :: int where "LOAD_SEGMENT_BAD_PARAM = 56"
definition LOAD_BAD_EHSIZE :: int where "LOAD_BAD_EHSIZE = 60"
definition LOAD_EHDR_OVERFLOW :: int where "LOAD_EHDR_OVERFLOW = 61"
definition LOAD_PHDR_OVERFLOW :: int where "LOAD_PHDR_OVERFLOW = 62"

lemmas load_codes =
  LOAD_OK_def LOAD_STATUS_UNKNOWN_def LOAD_READ_ERROR_def LOAD_TOO_MANY_PROG_HDRS_def LOAD_BAD_PHENTSIZE_def
  LOAD_BAD_ELF_MAGIC_def LOAD_NOT_32_BIT_def LOAD_NOT_EXEC_def LOAD_BAD_MACHINE_def LOAD_BAD_ELF_VERS_def
  LOAD_BAD_ELF_TEXT_def LOAD_SEGMENT_OUTSIDE_ADDRSPACE_def LOAD_DUP_SEGMENT_def LOAD_SEGMENT_BAD_LOC_def
  LOAD_BAD_SEGMENT_def LOAD_REQUIRED_SEG_MISSING_def LOAD_SEGMENT_BAD_PARAM_def LOAD_BAD_EHSIZE_def
  LOAD_EHDR_OVERFLOW_def LOAD_PHDR_OVERFLOW_def

section \<open>Headers\<close>

type_synonym u16 = "16 word"

record elf_ehdr =
  eh_ident :: "u8 list"
  eh_type :: u16
  eh_machine :: u16
  eh_version :: u32
  eh_entry :: u32
  eh_phoff :: u32
  eh_shoff :: u32
  eh_flags :: u32
  eh_ehsize :: u16
  eh_phentsize :: u16
  eh_phnum :: u16
  eh_shentsize :: u16
  eh_shnum :: u16
  eh_shstrndx :: u16

record elf64_ehdr =
  eh64_ident :: "u8 list"
  eh64_type :: u16
  eh64_machine :: u16
  eh64_version :: u32
  eh64_entry :: u64
  eh64_phoff :: u64
  eh64_shoff :: u64
  eh64_flags :: u32
  eh64_ehsize :: u16
  eh64_phentsize :: u16
  eh64_phnum :: u16
  eh64_shentsize :: u16
  eh64_shnum :: u16
  eh64_shstrndx :: u16

record elf_phdr =
  p_type :: u32
  p_offset :: u32
  p_vaddr :: u32
  p_paddr :: u32
  p_filesz :: u32
  p_memsz :: u32
  p_flags :: u32
  p_align :: u32

record elf64_phdr =
  p64_type :: u32
  p64_flags :: u32
  p64_offset :: u64
  p64_vaddr :: u64
  p64_paddr :: u64
  p64_filesz :: u64
  p64_memsz :: u64
  p64_align :: u64

text \<open>A member of \<open>n\<close> bytes at offset \<open>off\<close> of a structure read from the file.\<close>

definition member_at :: "u8 list \<Rightarrow> nat \<Rightarrow> nat \<Rightarrow> 'a::len word" where
  "member_at bs off n = le_word (take n (drop off bs))"

definition ehdr32_of :: "u8 list \<Rightarrow> elf_ehdr" where
  "ehdr32_of bs = \<lparr>eh_ident = take 16 bs, eh_type = member_at bs 16 2, eh_machine = member_at bs 18 2, eh_version = member_at bs 20 4,
     eh_entry = member_at bs 24 4, eh_phoff = member_at bs 28 4, eh_shoff = member_at bs 32 4, eh_flags = member_at bs 36 4,
     eh_ehsize = member_at bs 40 2, eh_phentsize = member_at bs 42 2, eh_phnum = member_at bs 44 2, eh_shentsize = member_at bs 46 2,
     eh_shnum = member_at bs 48 2, eh_shstrndx = member_at bs 50 2\<rparr>"

definition ehdr64_of :: "u8 list \<Rightarrow> elf64_ehdr" where
  "ehdr64_of bs = \<lparr>eh64_ident = take 16 bs, eh64_type = member_at bs 16 2, eh64_machine = member_at bs 18 2, eh64_version = member_at bs 20 4,
     eh64_entry = member_at bs 24 8, eh64_phoff = member_at bs 32 8, eh64_shoff = member_at bs 40 8, eh64_flags = member_at bs 48 4,
     eh64_ehsize = member_at bs 52 2, eh64_phentsize = member_at bs 54 2, eh64_phnum = member_at bs 56 2, eh64_shentsize = member_at bs 58 2,
     eh64_shnum = member_at bs 60 2, eh64_shstrndx = member_at bs 62 2\<rparr>"

definition phdr32_of :: "u8 list \<Rightarrow> elf_phdr" where
  "phdr32_of bs = \<lparr>p_type = member_at bs 0 4, p_offset = member_at bs 4 4, p_vaddr = member_at bs 8 4, p_paddr = member_at bs 12 4,
     p_filesz = member_at bs 16 4, p_memsz = member_at bs 20 4, p_flags = member_at bs 24 4, p_align = member_at bs 28 4\<rparr>"

definition phdr64_of :: "u8 list \<Rightarrow> elf64_phdr" where
  "phdr64_of bs = \<lparr>p64_type = member_at bs 0 4, p64_flags = member_at bs 4 4, p64_offset = member_at bs 8 8, p64_vaddr = member_at bs 16 8,
     p64_paddr = member_at bs 24 8, p64_filesz = member_at bs 32 8, p64_memsz = member_at bs 40 8, p64_align = member_at bs 48 8\<rparr>"

text \<open>\<open>struct NaClElfImage\<close>, its program headers cut to the number the file header gives.\<close>

record elf_image =
  ehdr :: elf_ehdr
  phdrs :: "elf_phdr list"
  loadable :: "bool list"

definition NACL_MAX_PROGRAM_HEADERS :: nat where "NACL_MAX_PROGRAM_HEADERS = 128"
definition NACL_ELF_E_MACHINE :: u16 where "NACL_ELF_E_MACHINE = 62"
definition ELFMAG :: "u8 list" where "ELFMAG = [0x7f, 0x45, 0x4c, 0x46]"
definition ELFCLASS32 :: u8 where "ELFCLASS32 = 1"
definition ELFCLASS64 :: u8 where "ELFCLASS64 = 2"
definition ET_EXEC :: u16 where "ET_EXEC = 2"
definition EV_CURRENT :: u32 where "EV_CURRENT = 1"

section \<open>Reading\<close>

definition NaClElfImageValidateElfHeader :: "elf_ehdr \<Rightarrow> int" where
  "NaClElfImageValidateElfHeader hdr =
     (if take 4 (eh_ident hdr) \<noteq> ELFMAG then LOAD_BAD_ELF_MAGIC
      else if ELFCLASS32 \<noteq> eh_ident hdr ! 4 then LOAD_NOT_32_BIT
      else if ET_EXEC \<noteq> eh_type hdr then LOAD_NOT_EXEC
      else if NACL_ELF_E_MACHINE \<noteq> eh_machine hdr then LOAD_BAD_MACHINE
      else if EV_CURRENT \<noteq> eh_version hdr then LOAD_BAD_ELF_VERS
      else LOAD_OK)"

text \<open>The error code, or the header in the format of 32 bits.\<close>

definition convert_ehdr :: "elf64_ehdr \<Rightarrow> int + elf_ehdr" where
  "convert_ehdr h =
     (if eh64_entry h > 0xffffffff \<or> eh64_phoff h > 0xffffffff \<or> eh64_shoff h > 0xffffffff then Inl LOAD_EHDR_OVERFLOW
      else if eh64_ehsize h \<noteq> 64 then Inl LOAD_BAD_EHSIZE
      else Inr \<lparr>eh_ident = (eh64_ident h)[4 := ELFCLASS32], eh_type = eh64_type h, eh_machine = eh64_machine h,
                eh_version = eh64_version h, eh_entry = ucast (eh64_entry h), eh_phoff = ucast (eh64_phoff h),
                eh_shoff = ucast (eh64_shoff h), eh_flags = eh64_flags h, eh_ehsize = 52, eh_phentsize = 32,
                eh_phnum = eh64_phnum h, eh_shentsize = eh64_shentsize h, eh_shnum = eh64_shnum h, eh_shstrndx = eh64_shstrndx h\<rparr>)"

fun convert_phdrs :: "elf64_phdr list \<Rightarrow> int + elf_phdr list" where
  "convert_phdrs [] = Inr []"
| "convert_phdrs (p # ps) =
     (if p64_offset p > 0xffffffff \<or> p64_vaddr p > 0xffffffff \<or> p64_paddr p > 0xffffffff \<or> p64_filesz p > 0xffffffff
         \<or> p64_memsz p > 0xffffffff \<or> p64_align p > 0xffffffff then Inl LOAD_PHDR_OVERFLOW
      else case convert_phdrs ps of
             Inl e \<Rightarrow> Inl e
           | Inr qs \<Rightarrow> Inr (\<lparr>p_type = p64_type p, p_offset = ucast (p64_offset p), p_vaddr = ucast (p64_vaddr p),
                             p_paddr = ucast (p64_paddr p), p_filesz = ucast (p64_filesz p), p_memsz = ucast (p64_memsz p),
                             p_flags = p64_flags p, p_align = ucast (p64_align p)\<rparr> # qs))"

text \<open>Cuts the array of headers that was read into its \<open>n\<close> elements of \<open>size\<close> bytes.\<close>

fun array_of :: "nat \<Rightarrow> nat \<Rightarrow> u8 list \<Rightarrow> u8 list list" where
  "array_of n 0 bs = []"
| "array_of n (Suc k) bs = take n bs # array_of n k (drop n bs)"

text \<open>
  \<open>pread\<close> is the method \<open>PRead\<close> of the descriptor of the file. The result of reading is what it returned
  equals what was asked for; the buffer then holds the bytes.
\<close>

type_synonym 'h reader = "u64 \<Rightarrow> u64 \<Rightarrow> 'h \<Rightarrow> int \<times> u8 list \<times> 'h"

definition read_all :: "'h reader \<Rightarrow> u64 \<Rightarrow> u64 \<Rightarrow> 'h \<Rightarrow> (int + u8 list) \<times> 'h" where
  "read_all pread n off h =
     (let (read_ret, bs, h1) = pread n off h
      in (if NaClSSizeIsNegErrno read_ret \<or> (word_of_int read_ret :: u64) \<noteq> n then Inl LOAD_READ_ERROR else Inr bs, h1))"

text \<open>The program headers: \<open>phentsize\<close> is the size the file gives, \<open>size\<close> that of the structure.\<close>

definition read_phdrs :: "'h reader \<Rightarrow> u16 \<Rightarrow> nat \<Rightarrow> nat \<Rightarrow> u32 \<Rightarrow> 'h \<Rightarrow> (int + u8 list list) \<times> 'h" where
  "read_phdrs pread phentsize n phnum phoff h =
     (if phentsize \<noteq> of_nat n then (Inl LOAD_BAD_PHENTSIZE, h)
      else case read_all pread (of_nat (phnum * n)) (ucast phoff) h of
             (Inl e, h1) \<Rightarrow> (Inl e, h1)
           | (Inr bs, h1) \<Rightarrow> (Inr (array_of n phnum bs), h1))"

text \<open>The result is the error code or the image; without memory for it the program stops.\<close>

definition NaClElfImageNew :: "bool \<Rightarrow> 'h reader \<Rightarrow> 'h \<Rightarrow> ((int + elf_image) \<times> 'h) exec" where
  "NaClElfImageNew memory pread h =
     (case read_all pread 64 0 h of
        (Inl e, h1) \<Rightarrow> Inr (Inl e, h1)
      | (Inr bs, h1) \<Rightarrow>
          let is64 = (bs ! 4 = ELFCLASS64)
          in case (if is64 then convert_ehdr (ehdr64_of bs) else Inr (ehdr32_of bs)) of
               Inl e \<Rightarrow> Inr (Inl e, h1)
             | Inr hdr \<Rightarrow>
                 let err_code = NaClElfImageValidateElfHeader hdr; phnum = unat (eh_phnum hdr)
                 in if LOAD_OK \<noteq> err_code then Inr (Inl err_code, h1)
                    else if phnum > NACL_MAX_PROGRAM_HEADERS then Inr (Inl LOAD_TOO_MANY_PROG_HDRS, h1)
                    else let (phs, h2) =
                               (if is64 then (case read_phdrs pread (eh64_phentsize (ehdr64_of bs)) 56 phnum (eh_phoff hdr) h1 of
                                                (Inl e, h2) \<Rightarrow> (Inl e, h2)
                                              | (Inr ps, h2) \<Rightarrow> (convert_phdrs (map phdr64_of ps), h2))
                                else (case read_phdrs pread (eh_phentsize hdr) 32 phnum (eh_phoff hdr) h1 of
                                        (Inl e, h2) \<Rightarrow> (Inl e, h2)
                                      | (Inr ps, h2) \<Rightarrow> (Inr (map phdr32_of ps), h2)))
                         in case phs of
                              Inl e \<Rightarrow> Inr (Inl e, h2)
                            | Inr ps \<Rightarrow>
                                if \<not> memory then Inl Log_fatal
                                else Inr (Inr \<lparr>ehdr = hdr, phdrs = ps, loadable = replicate phnum False\<rparr>, h2))"

definition NaClElfImageGetEntryPoint :: "elf_image \<Rightarrow> u64" where
  "NaClElfImageGetEntryPoint img = ucast (eh_entry (ehdr img))"

section \<open>Checking the program headers\<close>

definition NACL_TRAMPOLINE_START :: u32 where "NACL_TRAMPOLINE_START = 0x10000"
definition NACL_TRAMPOLINE_END :: u32 where "NACL_TRAMPOLINE_END = 0x20000"

definition PF_X :: u32 where "PF_X = 1"
definition PF_W :: u32 where "PF_W = 2"
definition PF_R :: u32 where "PF_R = 4"
definition PT_NULL :: u32 where "PT_NULL = 0"
definition PT_LOAD :: u32 where "PT_LOAD = 1"
definition PT_DYNAMIC :: u32 where "PT_DYNAMIC = 2"
definition PT_INTERP :: u32 where "PT_INTERP = 3"
definition PT_NOTE :: u32 where "PT_NOTE = 4"
definition PT_PHDR :: u32 where "PT_PHDR = 6"
definition PT_TLS :: u32 where "PT_TLS = 7"
definition PT_GNU_EH_FRAME :: u32 where "PT_GNU_EH_FRAME = 0x6474e550"
definition PT_GNU_STACK :: u32 where "PT_GNU_STACK = 0x6474e551"
definition PT_GNU_RELRO :: u32 where "PT_GNU_RELRO = 0x6474e552"

lemmas elf_numbers =
  NACL_TRAMPOLINE_START_def NACL_TRAMPOLINE_END_def PF_X_def PF_W_def PF_R_def PT_NULL_def PT_LOAD_def PT_DYNAMIC_def
  PT_INTERP_def PT_NOTE_def PT_PHDR_def PT_TLS_def PT_GNU_EH_FRAME_def PT_GNU_STACK_def PT_GNU_RELRO_def

datatype phdr_action = PCA_NONE | PCA_TEXT_CHECK | PCA_RODATA | PCA_DATA | PCA_IGNORE

text \<open>\<open>struct NaClPhdrChecks\<close>: the type, the flags, the action, whether it is required, and the address it must have, if any.\<close>

type_synonym phdr_check = "u32 \<times> u32 \<times> phdr_action \<times> bool \<times> u32"

definition nacl_phdr_check_data :: "phdr_check list" where
  "nacl_phdr_check_data =
     [(PT_PHDR, PF_R, PCA_IGNORE, False, 0),
      (PT_LOAD, PF_R OR PF_X, PCA_TEXT_CHECK, True, NACL_TRAMPOLINE_END),
      (PT_LOAD, PF_R, PCA_RODATA, False, 0),
      (PT_LOAD, PF_R OR PF_W, PCA_DATA, False, 0),
      (PT_TLS, PF_R, PCA_IGNORE, False, 0),
      (PT_GNU_STACK, PF_R OR PF_W, PCA_NONE, False, 0),
      (PT_DYNAMIC, PF_R OR PF_W, PCA_IGNORE, False, 0),
      (PT_DYNAMIC, PF_R, PCA_IGNORE, False, 0),
      (PT_INTERP, PF_R, PCA_IGNORE, False, 0),
      (PT_NOTE, PF_R, PCA_IGNORE, False, 0),
      (PT_GNU_EH_FRAME, PF_R, PCA_IGNORE, False, 0),
      (PT_GNU_RELRO, PF_R, PCA_IGNORE, False, 0),
      (PT_NULL, PF_R, PCA_IGNORE, False, 0)]"

text \<open>The first entry of the table from number \<open>j\<close> that has the type and the flags.\<close>

fun check_from :: "nat \<Rightarrow> phdr_check list \<Rightarrow> elf_phdr \<Rightarrow> (nat \<times> phdr_action \<times> u32) option" where
  "check_from j [] php = None"
| "check_from j ((t, f, action, required, vaddr) # cs) php =
     (if p_type php = t \<and> p_flags php = f then Some (j, action, vaddr) else check_from (Suc j) cs php)"

definition find_check :: "elf_phdr \<Rightarrow> (nat \<times> phdr_action \<times> u32) option" where
  "find_check php = check_from 0 nacl_phdr_check_data php"

record elf_info =
  info_static_text_end :: u64
  info_rodata_start :: u64
  info_rodata_end :: u64
  info_data_start :: u64
  info_data_end :: u64
  info_max_vaddr :: u64

text \<open>The size of the address space, \<open>(uint64_t) 1U << addr_bits\<close>.\<close>

definition space_size :: "u8 \<Rightarrow> u64" where
  "space_size bits = push_bit (unat bits) 1"

text \<open>The checks of a segment that will be loaded.\<close>

definition segment_status :: "u8 \<Rightarrow> u32 \<Rightarrow> elf_phdr \<Rightarrow> int" where
  "segment_status bits vaddr php =
     (if 0 \<noteq> vaddr \<and> vaddr \<noteq> p_vaddr php then LOAD_SEGMENT_BAD_LOC
      else if p_vaddr php < NACL_TRAMPOLINE_END then LOAD_SEGMENT_OUTSIDE_ADDRSPACE
      else if ucast (p_vaddr php) \<ge> space_size bits \<or> space_size bits - ucast (p_vaddr php) < ucast (p_memsz php)
      then LOAD_SEGMENT_OUTSIDE_ADDRSPACE
      else if p_filesz php > p_memsz php then LOAD_SEGMENT_BAD_PARAM
      else LOAD_OK)"

text \<open>What is noted of a segment that will be loaded; sums of addresses and sizes are 32-bit.\<close>

definition note_segment :: "phdr_action \<Rightarrow> elf_phdr \<Rightarrow> elf_info \<Rightarrow> elf_info" where
  "note_segment action php info =
     (let seg_end = ucast (p_vaddr php + p_memsz php) :: u64;
          info1 = (if info_max_vaddr info < seg_end then info\<lparr>info_max_vaddr := seg_end\<rparr> else info)
      in case action of
           PCA_TEXT_CHECK \<Rightarrow> info1\<lparr>info_static_text_end := ucast (NACL_TRAMPOLINE_END + p_filesz php)\<rparr>
         | PCA_RODATA \<Rightarrow> info1\<lparr>info_rodata_start := ucast (p_vaddr php), info_rodata_end := seg_end\<rparr>
         | PCA_DATA \<Rightarrow> info1\<lparr>info_data_start := ucast (p_vaddr php), info_data_end := seg_end\<rparr>
         | _ \<Rightarrow> info1)"

text \<open>
  The loop over the segments: the entries of the table seen so far and what was noted. The result is the
  error code, or which segments are loaded, with the entries and the notes in the end.
\<close>

fun check_phdrs :: "u8 \<Rightarrow> elf_phdr list \<Rightarrow> bool list \<Rightarrow> elf_info \<Rightarrow> int + (bool list \<times> bool list \<times> elf_info)" where
  "check_phdrs bits [] seen info = Inr ([], seen, info)"
| "check_phdrs bits (php # ps) seen info =
     (let skip = (\<lambda>seen. case check_phdrs bits ps seen info of
                            Inl e \<Rightarrow> Inl e | Inr (lds, r) \<Rightarrow> Inr (False # lds, r))
      in if 0 = p_memsz php then skip seen
         else case find_check php of
                None \<Rightarrow> Inl LOAD_BAD_SEGMENT
              | Some (j, action, vaddr) \<Rightarrow>
                  if seen ! j then Inl LOAD_DUP_SEGMENT
                  else if action = PCA_IGNORE then skip (seen[j := True])
                  else let status = segment_status bits vaddr php
                       in if status \<noteq> LOAD_OK then Inl status
                          else if action = PCA_TEXT_CHECK \<and> 0 = p_memsz php then Inl LOAD_BAD_ELF_TEXT
                          else case check_phdrs bits ps (seen[j := True]) (note_segment action php info) of
                                 Inl e \<Rightarrow> Inl e
                               | Inr (lds, r) \<Rightarrow> Inr (True # lds, r))"

definition info_empty :: elf_info where
  "info_empty = \<lparr>info_static_text_end = 0, info_rodata_start = 0, info_rodata_end = 0, info_data_start = 0, info_data_end = 0,
     info_max_vaddr = ucast NACL_TRAMPOLINE_END\<rparr>"

definition NaClElfImageValidateProgramHeaders :: "elf_image \<Rightarrow> u8 \<Rightarrow> int + (elf_image \<times> elf_info)" where
  "NaClElfImageValidateProgramHeaders img bits =
     (case check_phdrs bits (phdrs img) (replicate (length nacl_phdr_check_data) False) info_empty of
        Inl e \<Rightarrow> Inl e
      | Inr (lds, seen, info) \<Rightarrow>
          if list_ex (\<lambda>(j, (t, f, action, required, vaddr)). required \<and> \<not> seen ! j) (enumerate 0 nacl_phdr_check_data)
          then Inl LOAD_REQUIRED_SEG_MISSING
          else Inr (img\<lparr>loadable := lds\<rparr>, info))"

end
