(* ===== verification/ElfSymbols.thy ===== *)
theory ElfSymbols
  imports ElfImage
begin

text \<open>
  The symbol table of an executable (\<open>elf_util.c\<close>, from \<open>NaClElfGetSymbolInfo\<close> on), which the library interface
  uses to find the functions of a library: the names and the addresses of the functions. The host is
  64-bit, so both tables are read as the ones of a 64-bit file. Memory for the tables can be allocated.
\<close>

section \<open>Sections\<close>

definition SHT_SYMTAB :: u32 where "SHT_SYMTAB = 2"
definition SHT_STRTAB :: u32 where "SHT_STRTAB = 3"
definition STT_FUNC :: u32 where "STT_FUNC = 2"

definition ELF_ST_TYPE :: "u8 \<Rightarrow> u32" where "ELF_ST_TYPE x = ucast x AND 0xf"

record elf64_shdr =
  sh_name :: u32
  sh_type :: u32
  sh_flags :: u64
  sh_addr :: u64
  sh_offset :: u64
  sh_size :: u64
  sh_link :: u32
  sh_info :: u32
  sh_addralign :: u64
  sh_entsize :: u64

record elf64_sym =
  st_name :: u32
  st_info :: u8
  st_other :: u8
  st_shndx :: u16
  st_value :: u64
  st_size :: u64

definition shdr_of :: "u8 list \<Rightarrow> elf64_shdr" where
  "shdr_of bs = \<lparr>sh_name = member_at bs 0 4, sh_type = member_at bs 4 4, sh_flags = member_at bs 8 8, sh_addr = member_at bs 16 8,
     sh_offset = member_at bs 24 8, sh_size = member_at bs 32 8, sh_link = member_at bs 40 4, sh_info = member_at bs 44 4,
     sh_addralign = member_at bs 48 8, sh_entsize = member_at bs 56 8\<rparr>"

definition sym_of :: "u8 list \<Rightarrow> elf64_sym" where
  "sym_of bs = \<lparr>st_name = member_at bs 0 4, st_info = member_at bs 4 1, st_other = member_at bs 5 1, st_shndx = member_at bs 6 2,
     st_value = member_at bs 8 8, st_size = member_at bs 16 8\<rparr>"

text \<open>\<open>struct ElfSectionData64\<close>. A table that is not there is a null pointer.\<close>

record section_data =
  stringTableSize :: u32
  symbolCount :: u32
  stringTable :: "u8 list option"
  symbolTable :: "elf64_sym list option"

text \<open>The loop over the sections: a later table replaces an earlier one. \<open>False\<close> stands for the failures.\<close>

fun section_loop :: "'h reader \<Rightarrow> elf64_shdr list \<Rightarrow> section_data \<Rightarrow> 'h \<Rightarrow> (bool \<times> section_data) \<times> 'h" where
  "section_loop pread [] out h = ((True, out), h)"
| "section_loop pread (s # ss) out h =
     (if sh_type s = SHT_STRTAB then
        (case read_all pread (sh_size s) (sh_offset s) h of
           (Inl e, h1) \<Rightarrow> ((False, out), h1)
         | (Inr bs, h1) \<Rightarrow> section_loop pread ss (out\<lparr>stringTableSize := ucast (sh_size s), stringTable := Some bs\<rparr>) h1)
      else if sh_type s = SHT_SYMTAB then
        (if sh_entsize s \<noteq> 24 then ((False, out), h)
         else case read_all pread (sh_size s) (sh_offset s) h of
           (Inl e, h1) \<Rightarrow> ((False, out), h1)
         | (Inr bs, h1) \<Rightarrow>
             section_loop pread ss
               (out\<lparr>symbolCount := ucast (sh_size s div 24),
                    symbolTable := Some (map sym_of (array_of 24 (unat (sh_size s) div 24) bs))\<rparr>) h1)
      else section_loop pread ss out h)"

definition NaClElfGetSymbolInfo64 :: "elf_image \<Rightarrow> 'h reader \<Rightarrow> section_data \<Rightarrow> 'h \<Rightarrow> (bool \<times> section_data) \<times> 'h" where
  "NaClElfGetSymbolInfo64 img pread out h =
     (let shnum = unat (eh_shnum (ehdr img))
      in if shnum > NACL_MAX_PROGRAM_HEADERS then ((False, out), h)
         else case read_all pread (of_nat (shnum * 64)) (ucast (eh_shoff (ehdr img))) h of
                (Inl e, h1) \<Rightarrow> ((False, out), h1)
              | (Inr bs, h1) \<Rightarrow> section_loop pread (map shdr_of (array_of 64 shnum bs)) out h1)"

section \<open>Names\<close>

definition maxStringLength :: nat where "maxStringLength = 257"

text \<open>
  The loop from position \<open>i\<close> of a name with \<open>n\<close> positions left. It compares with the end of the table by \<open>\<le>\<close> and so
  reads the byte after it.
\<close>

fun name_loop :: "u8 list \<Rightarrow> nat \<Rightarrow> nat \<Rightarrow> nat \<Rightarrow> u8 list option exec" where
  "name_loop table sz pos 0 = Inr None"
| "name_loop table sz pos (Suc n) =
     (if pos \<le> sz then
        (if pos < length table then
           (if table ! pos = 0 then Inr (Some [])
            else ebind (name_loop table sz (Suc pos) n) (\<lambda>r. Inr (map_option (\<lambda>cs. table ! pos # cs) r)))
         else Inl Out_of_bounds)
      else Inr None)"

definition GetFromStringTable :: "u8 list option \<Rightarrow> u32 \<Rightarrow> u32 \<Rightarrow> u8 list option exec" where
  "GetFromStringTable tbl sz index =
     (case tbl of
        None \<Rightarrow> if index \<le> sz then Inl Null_deref else Inr None
      | Some table \<Rightarrow> name_loop table (unat sz) (unat index) maxStringLength)"

section \<open>The mapping\<close>

definition is_function :: "elf64_sym \<Rightarrow> bool" where
  "is_function s \<longleftrightarrow> ELF_ST_TYPE (st_info s) = STT_FUNC"

fun symbol_loop :: "u8 list option \<Rightarrow> u32 \<Rightarrow> elf64_sym list \<Rightarrow> (u8 list \<times> u64) list exec" where
  "symbol_loop table sz [] = Inr []"
| "symbol_loop table sz (s # ss) =
     (if is_function s then
        ebind (GetFromStringTable table sz (st_name s)) (\<lambda>name.
        ebind (symbol_loop table sz ss) (\<lambda>rest.
          Inr (case name of
                 None \<Rightarrow> rest
               | Some cs \<Rightarrow> if cs \<noteq> [] then (cs, st_value s) # rest else rest)))
      else symbol_loop table sz ss)"

text \<open>The number of symbols is 32-bit; without a symbol table it is 0.\<close>

definition GetSymbolTableMapping64 :: "section_data \<Rightarrow> (u8 list \<times> u64) list exec" where
  "GetSymbolTableMapping64 sectionData =
     symbol_loop (stringTable sectionData) (stringTableSize sectionData)
       (case symbolTable sectionData of None \<Rightarrow> [] | Some syms \<Rightarrow> take (unat (symbolCount sectionData)) syms)"

text \<open>\<open>None\<close> is the null pointer for a table that cannot be read.\<close>

definition NaClElfGetSymbolTableMapping ::
    "elf_image \<Rightarrow> 'h reader \<Rightarrow> 'h \<Rightarrow> ((u8 list \<times> u64) list option \<times> 'h) exec" where
  "NaClElfGetSymbolTableMapping img pread h =
     (let ((ok, sectionData), h1) =
            NaClElfGetSymbolInfo64 img pread \<lparr>stringTableSize = 0, symbolCount = 0, stringTable = None, symbolTable = None\<rparr> h
      in if ok then ebind (GetSymbolTableMapping64 sectionData) (\<lambda>m. Inr (Some m, h1))
         else Inr (None, h1))"

section \<open>What the mapping holds\<close>

text \<open>The name that starts at a position: the bytes up to the next NUL.\<close>

definition name_at :: "u8 list \<Rightarrow> nat \<Rightarrow> u8 list" where
  "name_at table pos = takeWhile (\<lambda>c. c \<noteq> 0) (drop pos table)"

lemma name_at_step:
  "pos < length table \<Longrightarrow> name_at table pos = (if table ! pos = 0 then [] else table ! pos # name_at table (Suc pos))"
  unfolding name_at_def by (simp flip: Cons_nth_drop_Suc)

text \<open>In a table that ends with a NUL every name is found unless it is too long.\<close>

lemma name_loop_found:
  assumes "table \<noteq> []" "last table = 0" "pos < length table"
  shows "name_loop table (length table) pos n = Inr (if length (name_at table pos) < n then Some (name_at table pos) else None)"
  using assms(3)
proof (induction n arbitrary: pos)
  case (Suc n)
  show ?case
  proof (cases "table ! pos = 0")
    case False
    have "table ! (length table - 1) = 0" using assms(1,2) by (simp add: last_conv_nth)
    then have "pos \<noteq> length table - 1" using False by auto
    then have "Suc pos < length table" using Suc.prems by linarith
    from Suc.IH [OF this] show ?thesis using False Suc.prems name_at_step [OF Suc.prems] by auto
  qed (use Suc.prems name_at_step [OF Suc.prems] in simp)
qed simp

lemma symbol_loop_found:
  assumes "table \<noteq> []" "last table = 0" "unat sz = length table" "list_all (\<lambda>s. unat (st_name s) < length table) syms"
  shows "symbol_loop (Some table) sz syms
    = Inr (map (\<lambda>s. (name_at table (unat (st_name s)), st_value s))
        (filter (\<lambda>s. is_function s \<and> name_at table (unat (st_name s)) \<noteq> [] \<and> length (name_at table (unat (st_name s))) < 257) syms))"
  using assms(4)
proof (induction syms)
  case (Cons s ss)
  then show ?case using name_loop_found [OF assms(1,2), of "unat (st_name s)" maxStringLength]
    by (auto simp: GetFromStringTable_def assms(3) maxStringLength_def)
qed simp

end
