(* ===== verification/ElfLoad.thy ===== *)
theory ElfLoad
  imports SysMmap ElfImage
begin

text \<open>
  Loading the segments of an executable (\<open>elf_util.c\<close>): into the fresh address space of a sandbox, and into a
  running sandbox. Fault injection is off. Segment sizes and file offsets are 32-bit, addresses 64-bit.
\<close>

section \<open>State\<close>

definition LOAD_NO_MEMORY :: int where "LOAD_NO_MEMORY = 20"
definition LOAD_UNLOADABLE :: int where "LOAD_UNLOADABLE = 32"
definition LOAD_MPROTECT_FAIL :: int where "LOAD_MPROTECT_FAIL = 36"

text \<open>
  The fields of \<open>struct NaClApp\<close> that only the loader uses, beside those of the memory calls.
  \<open>ld_text_shm\<close> is the descriptor of the dynamic text, of which the other calls see whether it is there.
\<close>

record 'h load_state =
  ld_nap :: "'h mem_app"
  ld_stack_size :: u64
  ld_rodata_start :: u64
  ld_data_start :: u64
  ld_initial_entry_pt :: u64
  ld_user_entry_pt :: u64
  ld_main_exe_prevalidated :: bool
  ld_use_shm_for_dynamic_text :: bool
  ld_initial_nexe_max_code_bytes :: u32
  ld_text_shm :: "nat option"
  ld_symbols :: "(u8 list \<times> u64) list option"
  ld_nacl_syscall_addr :: u64
  ld_tls_fast_path1_addr :: u64
  ld_tls_fast_path2_addr :: u64

section \<open>A segment mapped from the file\<close>

text \<open>The protection, and whether the last partial page is read; \<open>Inl\<close> is a code returned at once.\<close>

definition map_segment_kind ::
    "'h mem_env \<Rightarrow> nat \<Rightarrow> u32 \<Rightarrow> u32 \<Rightarrow> u32 \<Rightarrow> u64 \<Rightarrow> 'h load_state \<Rightarrow> ((int + u32 \<times> bool) \<times> 'h load_state) exec" where
  "map_segment_kind env ndp flags file_offset segment_size vaddr s =
     (if flags = PF_R OR PF_X then
        (let nap = ld_nap s; rounded_filesz = NaClRoundAllocPage (ucast segment_size)
         in if me_typeTag env ndp \<noteq> NACL_DESC_HOST_IO then Inr (Inl LOAD_STATUS_UNKNOWN, s)
            else let (image_sys_addr, f, nap1) =
                       desc_map env ndp 0 rounded_filesz NACL_ABI_PROT_READ NACL_ABI_MAP_PRIVATE (ucast file_offset) nap
                 in if NaClPtrIsNegErrno image_sys_addr then Inr (Inl LOAD_STATUS_UNKNOWN, s\<lparr>ld_nap := nap1\<rparr>)
                    else ebind (echeck (ucast segment_size = static_text_end nap1 - ucast NACL_TRAMPOLINE_END) Check_failed) (\<lambda>_.
                         let (validator_status, image1) =
                               e_Validate (me_text env) vaddr (map (\<lambda>i. f (of_nat i)) [0 ..< unat segment_size]) False
                                 (if pnacl_mode nap1 then 1 else 0) True (Some (me_metadata env ndp)) True
                         in ebind (NaClHostDescUnmapUnsafe env image_sys_addr rounded_filesz nap1) (\<lambda>nap2.
                              if validator_status \<noteq> NaClValidationSucceeded
                              then Inr (Inl LOAD_STATUS_UNKNOWN, s\<lparr>ld_nap := nap2\<rparr>)
                              else Inr (Inr (NACL_ABI_PROT_READ OR NACL_ABI_PROT_EXEC, True),
                                        s\<lparr>ld_nap := nap2, ld_main_exe_prevalidated := True\<rparr>))))
      else if flags = PF_R OR PF_W then Inr (Inr (NACL_ABI_PROT_READ OR NACL_ABI_PROT_WRITE, True), s)
      else if flags = PF_R then Inr (Inr (NACL_ABI_PROT_READ, False), s)
      else Inl Log_fatal)"

text \<open>The bytes of the last partial page; the result is the number of bytes left to map.\<close>

definition map_segment_tail ::
    "'h mem_env \<Rightarrow> nat \<Rightarrow> bool \<Rightarrow> u32 \<Rightarrow> u32 \<Rightarrow> u64 \<Rightarrow> 'h mem_app \<Rightarrow> ((int + u64) \<times> 'h mem_app) exec" where
  "map_segment_tail env ndp read_last_page file_offset segment_size paddr nap =
     (let rounded_filesz = NaClRoundAllocPage (ucast segment_size)
      in if rounded_filesz \<noteq> ucast segment_size \<and> read_last_page then
           (let tail_offset = rounded_filesz - NACL_MAP_PAGESIZE;
                tail_size = ucast segment_size - tail_offset
            in ebind (fill_call (paddr + tail_offset) (vPRead (me_vt env) ndp tail_size (ucast file_offset + tail_offset)) nap) (\<lambda>(read_ret, nap1).
                 if NaClSSizeIsNegErrno read_ret \<or> (word_of_int read_ret :: u64) \<noteq> tail_size
                 then Inr (Inl LOAD_SEGMENT_BAD_PARAM, nap1)
                 else Inr (Inr tail_offset, nap1)))
         else Inr (Inr rounded_filesz, nap))"

definition map_segment_pages ::
    "'h mem_env \<Rightarrow> nat \<Rightarrow> u32 \<Rightarrow> u32 \<Rightarrow> u64 \<Rightarrow> u64 \<Rightarrow> 'h mem_app \<Rightarrow> 'h mem_app exec" where
  "map_segment_pages env ndp mmap_prot file_offset rounded_filesz paddr nap =
     (if rounded_filesz = 0 then Inr nap
      else let (image_sys_addr, f, nap1) =
                 desc_map env ndp paddr rounded_filesz mmap_prot (NACL_ABI_MAP_PRIVATE OR NACL_ABI_MAP_FIXED) (ucast file_offset) nap
           in if image_sys_addr \<noteq> paddr then Inl Log_fatal
              else Inr (nap1\<lparr>fa_mem := put_region paddr (NaClRoundPage rounded_filesz) f (fa_mem nap1)\<rparr>))"

definition NaClElfFileMapSegment ::
    "'h mem_env \<Rightarrow> nat \<Rightarrow> u32 \<Rightarrow> u32 \<Rightarrow> u32 \<Rightarrow> u64 \<Rightarrow> u64 \<Rightarrow> 'h load_state \<Rightarrow> (int \<times> 'h load_state) exec" where
  "NaClElfFileMapSegment env ndp flags file_offset segment_size vaddr paddr s =
     ebind (map_segment_kind env ndp flags file_offset segment_size vaddr s) (\<lambda>(kind, s1).
       case kind of
         Inl status \<Rightarrow> Inr (status, s1)
       | Inr (mmap_prot, read_last_page) \<Rightarrow>
           ebind (map_segment_tail env ndp read_last_page file_offset segment_size paddr (ld_nap s1)) (\<lambda>(tail, nap2).
             case tail of
               Inl status \<Rightarrow> Inr (status, s1\<lparr>ld_nap := nap2\<rparr>)
             | Inr rounded_filesz \<Rightarrow>
                 ebind (map_segment_pages env ndp mmap_prot file_offset rounded_filesz paddr nap2) (\<lambda>nap3.
                   Inr (LOAD_OK, s1\<lparr>ld_nap := nap3\<rparr>))))"

section \<open>Loading into a fresh address space\<close>

text \<open>One segment that will be loaded and is not empty; sums of an offset or an address and a size are 32-bit.\<close>

definition load_segment ::
    "'h mem_env \<Rightarrow> nat \<Rightarrow> elf_phdr \<Rightarrow> 'h load_state \<Rightarrow> (int \<times> 'h load_state) exec" where
  "load_segment env ndp php s =
     (let nap = ld_nap s;
          offset = ucast (NaClTruncAllocPage (ucast (p_offset php))) :: u32;
          filesz = p_offset php + p_filesz php - offset;
          end_vaddr = ucast (p_vaddr php + p_filesz php) :: u64
      in if end_vaddr < ucast (p_vaddr php) then Inl Log_fatal
         else if end_vaddr \<ge> addr_limit nap then Inl Log_fatal
         else let vaddr = NaClTruncAllocPage (ucast (p_vaddr php)); paddr = NaClUserToSysAddr nap vaddr
              in ebind (echeck (kNaClBadAddress \<noteq> paddr) Check_failed) (\<lambda>_.
                 ebind (if NaClDescIsSafeForMmap env ndp
                        then NaClElfFileMapSegment env ndp (p_flags php) offset filesz vaddr paddr s
                        else Inr (LOAD_STATUS_UNKNOWN, s)) (\<lambda>(map_status, s1).
                   if map_status \<noteq> LOAD_STATUS_UNKNOWN then Inr (map_status, s1)
                   else ebind (fill_call paddr (vPRead (me_vt env) ndp (ucast filesz) (ucast offset)) (ld_nap s1)) (\<lambda>(read_ret, nap2).
                          let s2 = s1\<lparr>ld_nap := nap2\<rparr>
                          in if NaClSSizeIsNegErrno read_ret \<or> (word_of_int read_ret :: u64) \<noteq> ucast filesz
                             then Inr (LOAD_SEGMENT_BAD_PARAM, s2)
                             else Inr (LOAD_OK, s2)))))"

fun load_segments ::
    "'h mem_env \<Rightarrow> nat \<Rightarrow> (elf_phdr \<times> bool) list \<Rightarrow> 'h load_state \<Rightarrow> (int \<times> 'h load_state) exec" where
  "load_segments env ndp [] s = Inr (LOAD_OK, s)"
| "load_segments env ndp ((php, ld) # ps) s =
     (if \<not> ld \<or> 0 = p_filesz php then load_segments env ndp ps s
      else ebind (load_segment env ndp php s) (\<lambda>(status, s1).
             if status \<noteq> LOAD_OK then Inr (status, s1) else load_segments env ndp ps s1))"

definition NaClElfImageLoad :: "'h mem_env \<Rightarrow> elf_image \<Rightarrow> nat \<Rightarrow> 'h load_state \<Rightarrow> (int \<times> 'h load_state) exec" where
  "NaClElfImageLoad env img ndp s = load_segments env ndp (zip (phdrs img) (loadable img)) s"

section \<open>Loading into a running sandbox\<close>

text \<open>
  \<open>metadata\<close> gives the validation metadata with a code offset stored in it. \<open>memory\<close> says whether
  there is memory for the copy of the code.
\<close>

definition load_code_dynamically ::
    "bool \<Rightarrow> 'h mem_env \<Rightarrow> nat \<Rightarrow> (u32 \<Rightarrow> nat) option \<Rightarrow> u32 \<Rightarrow> u32 \<Rightarrow> u32 \<Rightarrow> 'h mem_app \<Rightarrow> (int \<times> 'h mem_app) exec" where
  "load_code_dynamically memory env ndp metadata vaddr offset filesz nap =
     (if \<not> memory then Inr (LOAD_NO_MEMORY, nap)
      else let (read_ret, code_copy, h) = vPRead (me_vt env) ndp (ucast filesz) (ucast offset) (host nap);
               nap1 = nap\<lparr>host := h\<rparr>
           in if NaClSSizeIsNegErrno read_ret \<or> (word_of_int read_ret :: u64) \<noteq> ucast filesz then Inr (LOAD_READ_ERROR, nap1)
              else ebind (NaClTextDyncodeCreate (me_text env) nap1 vaddr code_copy filesz (map_option (\<lambda>f. f offset) metadata))
                     (\<lambda>(result, nap2). Inr (if 0 \<noteq> result then LOAD_UNLOADABLE else LOAD_OK, nap2)))"

definition load_data_dynamically ::
    "'h mem_env \<Rightarrow> nat \<Rightarrow> elf_phdr \<Rightarrow> u32 \<Rightarrow> u32 \<Rightarrow> u32 \<Rightarrow> u32 \<Rightarrow> 'h mem_app \<Rightarrow> (int \<times> 'h mem_app) exec" where
  "load_data_dynamically env ndp php vaddr offset filesz memsz nap =
     ebind (NaClUserToSys nap (ucast vaddr)) (\<lambda>paddr.
     let mapping_size = NaClRoundAllocPage (ucast memsz)
     in ebind (NaClSysMmapIntern env nap (ucast vaddr) mapping_size (NACL_ABI_PROT_READ OR NACL_ABI_PROT_WRITE)
                 (NACL_ABI_MAP_ANONYMOUS OR NACL_ABI_MAP_PRIVATE) (- 1) 0) (\<lambda>(result, nap1).
          if sint vaddr \<noteq> result then Inr (LOAD_UNLOADABLE, nap1)
          else ebind (fill_call paddr (vPRead (me_vt env) ndp (ucast filesz) (ucast offset)) nap1) (\<lambda>(read_ret, nap2).
                  if NaClSSizeIsNegErrno read_ret \<or> (word_of_int read_ret :: u64) \<noteq> ucast filesz then Inr (LOAD_READ_ERROR, nap2)
                  else if 0 \<noteq> p_flags php AND PF_W then Inr (LOAD_OK, nap2)
                  else let (rc, nap3) = NaClMprotect env paddr mapping_size NACL_ABI_PROT_READ nap2
                       in if 0 \<noteq> rc then Inr (LOAD_MPROTECT_FAIL, nap3)
                          else ebind (with_map env (\<lambda>m. no_result (NaClVmmapAddWithOverwrite m
                                 (ucast (drop_bit NACL_PAGESHIFT vaddr)) (drop_bit NACL_PAGESHIFT mapping_size)
                                 NACL_ABI_PROT_READ NACL_ABI_MAP_PRIVATE None 0 0)) nap3) (\<lambda>(x, nap4).
                               Inr (LOAD_OK, nap4)))))"

fun load_dynamically ::
    "bool \<Rightarrow> 'h mem_env \<Rightarrow> nat \<Rightarrow> (u32 \<Rightarrow> nat) option \<Rightarrow> elf_phdr list \<Rightarrow> 'h mem_app \<Rightarrow> (int \<times> 'h mem_app) exec" where
  "load_dynamically memory env ndp metadata [] nap = Inr (LOAD_OK, nap)"
| "load_dynamically memory env ndp metadata (php # ps) nap =
     (let vaddr = p_vaddr php AND NOT 0xffff;
          offset = p_offset php AND NOT 0xffff;
          filesz = p_offset php + p_filesz php - offset;
          memsz = p_offset php + p_memsz php - offset
      in if filesz > memsz then Inr (LOAD_UNLOADABLE, nap)
         else if PT_LOAD \<noteq> p_type php then load_dynamically memory env ndp metadata ps nap
         else ebind (if 0 \<noteq> p_flags php AND PF_X
                     then load_code_dynamically memory env ndp metadata vaddr offset filesz nap
                     else load_data_dynamically env ndp php vaddr offset filesz memsz nap) (\<lambda>(status, nap1).
                if status \<noteq> LOAD_OK then Inr (status, nap1)
                else load_dynamically memory env ndp metadata ps nap1))"

definition NaClElfImageLoadDynamically ::
    "bool \<Rightarrow> 'h mem_env \<Rightarrow> elf_image \<Rightarrow> nat \<Rightarrow> (u32 \<Rightarrow> nat) option \<Rightarrow> 'h mem_app \<Rightarrow> (int \<times> 'h mem_app) exec" where
  "NaClElfImageLoadDynamically memory env img ndp metadata nap =
     load_dynamically memory env ndp metadata (phdrs img) nap"

end
