(* ===== verification/LoadSpace.thy ===== *)
theory LoadSpace
  imports ElfLoad
begin

text \<open>
  The address space of a sandbox: finding it (\<open>shared/platform/posix/nacl_find_addrsp.c\<close> and
  \<open>arch/x86_64/sel_addrspace_posix_x86_64.c\<close>), allocating it (\<open>sel_addrspace.c\<close>), the area for code
  loaded at run time (\<open>nacl_text.c\<close>), and the checks of its layout (\<open>sel_ldr_standard.c\<close>).
\<close>

section \<open>The host\<close>

text \<open>
  What the loader uses of the host beside the memory calls: the random numbers, \<open>madvise\<close>, which gives
  \<open>errno\<close>, the constructor of shared memory for code, and whether memory can be allocated for the image
  and the bitmap. \<open>le_trampoline\<close> is the code between the labels \<open>NaCl_trampoline_code\<close> and its end, in which
  the labels of the two operands are at the given offsets; then come the addresses of the three entry
  points of the service runtime.
\<close>

record 'h load_env =
  le_mem :: "'h mem_env"
  le_random :: "'h \<Rightarrow> u32 \<times> 'h"
  le_madvise :: "u64 \<Rightarrow> u64 \<Rightarrow> u32 \<Rightarrow> 'h \<Rightarrow> int \<times> 'h"
  le_shm_alloc :: "u64 \<Rightarrow> 'h \<Rightarrow> nat option \<times> 'h"
  le_memory :: bool
  le_bitmap_memory :: bool
  le_load_symbols :: bool
  le_trampoline :: "u8 list"
  le_tramp_addr :: u64
  le_call_target :: u64
  le_NaClSyscallSeg :: u64
  le_NaClGetTlsFastPath1 :: u64
  le_NaClGetTlsFastPath2 :: u64

definition LOAD_DATA_OVERLAPS_STACK_SECTION :: int where "LOAD_DATA_OVERLAPS_STACK_SECTION = 24"
definition LOAD_RODATA_OVERLAPS_DATA :: int where "LOAD_RODATA_OVERLAPS_DATA = 25"
definition LOAD_DATA_NOT_LAST_SEGMENT :: int where "LOAD_DATA_NOT_LAST_SEGMENT = 26"
definition LOAD_NO_DATA_BUT_RODATA_NOT_LAST_SEGMENT :: int where "LOAD_NO_DATA_BUT_RODATA_NOT_LAST_SEGMENT = 27"
definition LOAD_TEXT_OVERLAPS_RODATA :: int where "LOAD_TEXT_OVERLAPS_RODATA = 28"
definition LOAD_TEXT_OVERLAPS_DATA :: int where "LOAD_TEXT_OVERLAPS_DATA = 29"
definition LOAD_BAD_RODATA_ALIGNMENT :: int where "LOAD_BAD_RODATA_ALIGNMENT = 30"
definition LOAD_MADVISE_FAIL :: int where "LOAD_MADVISE_FAIL = 37"
definition LOAD_NO_MEMORY_FOR_DYNAMIC_TEXT :: int where "LOAD_NO_MEMORY_FOR_DYNAMIC_TEXT = 64"
definition LOAD_NO_MEMORY_FOR_ADDRESS_SPACE :: int where "LOAD_NO_MEMORY_FOR_ADDRESS_SPACE = 65"

definition random32 :: "'h load_env \<Rightarrow> 'h mem_app \<Rightarrow> u32 \<times> 'h mem_app" where
  "random32 env nap = (let (r, h) = le_random env (host nap) in (r, nap\<lparr>host := h\<rparr>))"

section \<open>Finding free addresses\<close>

definition NACL_VALGRIND_MAP_FAILED_COUNT :: nat where "NACL_VALGRIND_MAP_FAILED_COUNT = 10000"
definition NUM_USER_ADDRESS_BITS :: nat where "NUM_USER_ADDRESS_BITS = 47"

definition find_addr_mask :: u64 where
  "find_addr_mask = NOT (push_bit 12 1 - 1) AND (push_bit NUM_USER_ADDRESS_BITS 1 - 1)"

text \<open>The flags are \<open>MAP_ANONYMOUS | MAP_NORESERVE | MAP_PRIVATE\<close> of the host.\<close>

fun find_address_loop ::
    "'h load_env \<Rightarrow> u64 \<Rightarrow> nat \<Rightarrow> nat \<Rightarrow> 'h mem_app \<Rightarrow> (u64 option \<times> 'h mem_app) exec" where
  "find_address_loop env memory_size tries_remaining map_failed_count_left nap =
     (let (hi, nap1) = random32 env nap;
          (lo, nap2) = random32 env nap1;
          suggested_addr = (push_bit 32 (ucast hi) OR ucast lo) AND find_addr_mask;
          (e, map_addr, nap3) = host_mmap (le_mem env) suggested_addr memory_size 0 (0x20 OR 0x4000 OR 2) (- 1) 0 nap2
      in if e \<noteq> 0 then
           (if 1 < map_failed_count_left
            then find_address_loop env memory_size tries_remaining (map_failed_count_left - 1) nap3
            else Inr (None, nap3))
         else if find_addr_mask AND map_addr = suggested_addr then Inr (Some map_addr, nap3)
         else if 0 = tries_remaining then Inr (Some map_addr, nap3)
         else let (e2, nap4) = host_munmap (le_mem env) map_addr memory_size nap3
              in if e2 \<noteq> 0 then Inl Log_fatal
                 else find_address_loop env memory_size (tries_remaining - 1) map_failed_count_left nap4)"

declare find_address_loop.simps [simp del]

definition NaClFindAddressSpaceRandomized ::
    "'h load_env \<Rightarrow> u64 \<Rightarrow> int \<Rightarrow> 'h mem_app \<Rightarrow> (u64 option \<times> 'h mem_app) exec" where
  "NaClFindAddressSpaceRandomized env memory_size max_tries nap =
     ebind (echeck (max_tries \<ge> 0) Check_failed) (\<lambda>_.
       find_address_loop env memory_size (nat max_tries) NACL_VALGRIND_MAP_FAILED_COUNT nap)"

definition NaClFindAddressSpace :: "'h load_env \<Rightarrow> u64 \<Rightarrow> 'h mem_app \<Rightarrow> (u64 option \<times> 'h mem_app) exec" where
  "NaClFindAddressSpace env memory_size nap = NaClFindAddressSpaceRandomized env memory_size 0 nap"

section \<open>Allocating the space\<close>

definition FOURGIG :: u64 where "FOURGIG = 0x100000000"
definition ALIGN_BITS :: nat where "ALIGN_BITS = 32"
definition MAX_ADDRESS_RANDOMIZATION_ATTEMPTS :: int where "MAX_ADDRESS_RANDOMIZATION_ATTEMPTS = 8"
definition NACL_ADDRSPACE_LOWER_GUARD_SIZE :: u64 where "NACL_ADDRSPACE_LOWER_GUARD_SIZE = push_bit 30 40"
definition NACL_ADDRSPACE_UPPER_GUARD_SIZE :: u64 where "NACL_ADDRSPACE_UPPER_GUARD_SIZE = push_bit 30 40"

definition unmap_or_die :: "'h load_env \<Rightarrow> u64 \<Rightarrow> u64 \<Rightarrow> 'h mem_app \<Rightarrow> 'h mem_app exec" where
  "unmap_or_die env addr extra nap =
     (if 0 \<noteq> extra then let (e, nap1) = host_munmap (le_mem env) addr extra nap in if e \<noteq> 0 then Inl Log_fatal else Inr nap1
      else Inr nap)"

definition NaClAllocatePow2AlignedMemory ::
    "'h load_env \<Rightarrow> u64 \<Rightarrow> nat \<Rightarrow> bool \<Rightarrow> 'h mem_app \<Rightarrow> (u64 \<times> 'h mem_app) exec" where
  "NaClAllocatePow2AlignedMemory env mem_sz log_alignment aslr nap =
     (let pow2align = push_bit log_alignment 1; request_size = mem_sz + pow2align
      in ebind (if aslr then NaClFindAddressSpaceRandomized env request_size MAX_ADDRESS_RANDOMIZATION_ATTEMPTS nap
                else NaClFindAddressSpace env request_size nap) (\<lambda>(found, nap1).
           case found of
             None \<Rightarrow> Inl Log_fatal
           | Some unrounded_addr \<Rightarrow>
               let rounded_addr = (unrounded_addr + (pow2align - 1)) AND NOT (pow2align - 1);
                   extra = rounded_addr - unrounded_addr
               in ebind (unmap_or_die env unrounded_addr extra nap1) (\<lambda>nap2.
                  ebind (unmap_or_die env (rounded_addr + mem_sz) (pow2align - extra) nap2) (\<lambda>nap3.
                    Inr (rounded_addr, nap3)))))"

text \<open>The result is the error code, or the start of the space. The sandbox is not a zero-based one.\<close>

definition NaClAllocateSpaceAslr ::
    "'h load_env \<Rightarrow> u64 \<Rightarrow> bool \<Rightarrow> 'h mem_app \<Rightarrow> ((int + u64) \<times> 'h mem_app) exec" where
  "NaClAllocateSpaceAslr env addrsp_size aslr nap =
     (let mem_sz = NACL_ADDRSPACE_LOWER_GUARD_SIZE + FOURGIG + NACL_ADDRSPACE_UPPER_GUARD_SIZE
      in ebind (echeck (addrsp_size = FOURGIG) Check_failed) (\<lambda>_.
         ebind (NaClAllocatePow2AlignedMemory env mem_sz ALIGN_BITS aslr nap) (\<lambda>(mem_ptr, nap1).
           if 0 = mem_ptr then Inr (Inl LOAD_NO_MEMORY_FOR_ADDRESS_SPACE, nap1)
           else Inr (Inr (mem_ptr + NACL_ADDRSPACE_LOWER_GUARD_SIZE), nap1))))"

text \<open>\<open>NaClMadvise\<close> with the advice \<open>MADV_DONTNEED\<close>.\<close>

definition NaClMadvise :: "'h load_env \<Rightarrow> u64 \<Rightarrow> u64 \<Rightarrow> u32 \<Rightarrow> 'h mem_app \<Rightarrow> int \<times> 'h mem_app" where
  "NaClMadvise env start len advice nap =
     (let (e, h) = le_madvise env start len advice (host nap) in (if e \<noteq> 0 then - e else 0, nap\<lparr>host := h\<rparr>))"

definition NaClAllocAddrSpaceAslr :: "'h load_env \<Rightarrow> bool \<Rightarrow> 'h load_state \<Rightarrow> (int \<times> 'h load_state) exec" where
  "NaClAllocAddrSpaceAslr env aslr s =
     ebind (NaClAllocateSpaceAslr env (addr_limit (ld_nap s)) aslr (ld_nap s)) (\<lambda>(rv, nap1).
       case rv of
         Inl status \<Rightarrow> Inr (status, s\<lparr>ld_nap := nap1\<rparr>)
       | Inr mem \<Rightarrow>
           let nap2 = nap1\<lparr>mem_start := mem\<rparr>;
               hole_start = NaClRoundAllocPage (data_end nap2);
               stack_start = NaClTruncAllocPage (addr_limit nap2 - ld_stack_size s);
               hole_size = NaClTruncAllocPage (stack_start - hole_start)
           in if ld_stack_size s \<ge> addr_limit nap2 then Inl Log_fatal
              else if stack_start < hole_start then Inr (LOAD_DATA_OVERLAPS_STACK_SECTION, s\<lparr>ld_nap := nap2\<rparr>)
              else if hole_size = 0 then Inr (LOAD_OK, s\<lparr>ld_nap := nap2\<rparr>)
              else let (rc, nap3) = NaClMadvise env (mem_start nap2 + hole_start) hole_size 4 nap2
                   in if 0 \<noteq> rc then Inr (LOAD_MADVISE_FAIL, s\<lparr>ld_nap := nap3\<rparr>)
                      else let (rc2, nap4) = NaClMprotect (le_mem env) (mem_start nap2 + hole_start) hole_size 0 nap3
                           in Inr (if 0 \<noteq> rc2 then LOAD_MPROTECT_FAIL else LOAD_OK, s\<lparr>ld_nap := nap4\<rparr>))"

section \<open>The area for code loaded at run time\<close>

definition BitmapAllocate :: "u32 \<Rightarrow> u8 list" where
  "BitmapAllocate indexes = replicate (unat ((indexes + 8 - 1) div 8)) 0"

text \<open>
  The new descriptor has one reference, which \<open>text_shm\<close> holds. Its memory is mapped without any access;
  the pages are filled with halts when they are made accessible.
\<close>

definition make_shm :: "'h load_env \<Rightarrow> u64 \<Rightarrow> u64 \<Rightarrow> 'h load_state \<Rightarrow> (int \<times> 'h load_state) exec" where
  "make_shm env shm_vaddr_base shm_upper_bound s =
     (let dynamic_text_size = shm_upper_bound - shm_vaddr_base;
          (shm, h) = le_shm_alloc env dynamic_text_size (host (ld_nap s));
          nap1 = (ld_nap s)\<lparr>host := h\<rparr>
      in case shm of
           None \<Rightarrow> Inr (LOAD_NO_MEMORY_FOR_DYNAMIC_TEXT, s\<lparr>ld_nap := nap1\<rparr>)
         | Some n \<Rightarrow>
             let nap2 = nap1\<lparr>nd_refs := (nd_refs nap1)(n \<mapsto> 1)\<rparr>
             in ebind (NaClUserToSys nap2 shm_vaddr_base) (\<lambda>text_sysaddr.
                let (mmap_ret, f, nap3) =
                      desc_map (le_mem env) n text_sysaddr dynamic_text_size 0 (NACL_ABI_MAP_SHARED OR NACL_ABI_MAP_FIXED) 0 nap2
                in if text_sysaddr \<noteq> mmap_ret then Inl Log_fatal
                   else if \<not> le_bitmap_memory env then Inl Log_fatal
                   else Inr (LOAD_OK, s\<lparr>ld_nap := nap3\<lparr>
                          fa_mem := put_region text_sysaddr (NaClRoundPage dynamic_text_size) f (fa_mem nap3),
                          dynamic_page_bitmap := BitmapAllocate (ucast (dynamic_text_size div NACL_MAP_PAGESIZE)),
                          dynamic_text_start := shm_vaddr_base, dynamic_text_end := shm_upper_bound, text_shm := True\<rparr>,
                        ld_text_shm := Some n\<rparr>)))"

definition NaClMakeDynamicTextShared :: "'h load_env \<Rightarrow> 'h load_state \<Rightarrow> (int \<times> 'h load_state) exec" where
  "NaClMakeDynamicTextShared env s =
     (let shm_vaddr_base = NaClRoundAllocPage (static_text_end (ld_nap s));
          s1 = s\<lparr>ld_nap := (ld_nap s)\<lparr>dynamic_text_start := shm_vaddr_base, dynamic_text_end := shm_vaddr_base\<rparr>\<rparr>
      in if \<not> ld_use_shm_for_dynamic_text s then Inr (LOAD_OK, s1)
         else let bound1 = ld_rodata_start s1;
                  bound2 = (if 0 = bound1 then NaClTruncAllocPage (ld_data_start s1) else bound1);
                  shm_upper_bound = (if 0 = bound2 then shm_vaddr_base else bound2)
              in if 0 = shm_upper_bound - shm_vaddr_base then Inr (LOAD_OK, s1)
                 else make_shm env shm_vaddr_base shm_upper_bound s1)"

section \<open>Layout\<close>

definition NaClFillEndOfTextRegion :: "'h load_state \<Rightarrow> 'h load_state exec" where
  "NaClFillEndOfTextRegion s =
     (let nap = ld_nap s; sled_end = static_text_end nap + NACL_HALT_SLED_SIZE
      in if 0 \<noteq> ld_data_start s \<and> sled_end > NaClTruncAllocPage (ld_data_start s) then Inl Log_fatal
         else if 0 \<noteq> ld_rodata_start s \<and> sled_end > ld_rodata_start s then Inl Log_fatal
         else ebind (if \<not> text_shm nap
                     then let page_pad = NaClRoundAllocPage sled_end - static_text_end nap
                          in ebind (echeck (page_pad \<ge> NACL_HALT_SLED_SIZE) Check_failed) (\<lambda>_.
                             ebind (echeck (page_pad < NACL_MAP_PAGESIZE + NACL_HALT_SLED_SIZE) Check_failed) (\<lambda>_. Inr page_pad))
                     else Inr (NaClRoundAllocPage (static_text_end nap) - static_text_end nap)) (\<lambda>page_pad.
                Inr (s\<lparr>ld_nap := nap\<lparr>
                  fa_mem := NaClFillMemoryRegionWithHalt (mem_start nap + static_text_end nap) (unat page_pad) (fa_mem nap),
                  static_text_end := static_text_end nap + page_pad\<rparr>\<rparr>)))"

definition NaClCheckAddressSpaceLayoutSanity :: "'h load_state \<Rightarrow> u64 \<Rightarrow> u64 \<Rightarrow> u64 \<Rightarrow> int" where
  "NaClCheckAddressSpaceLayoutSanity s rodata_end dataend max_vaddr =
     (let rodata = ld_rodata_start s; data = ld_data_start s; text_end = static_text_end (ld_nap s)
      in if 0 \<noteq> data \<and> dataend \<noteq> max_vaddr then LOAD_DATA_NOT_LAST_SEGMENT
         else if 0 = data \<and> 0 \<noteq> rodata \<and> NaClRoundAllocPage rodata_end \<noteq> max_vaddr
         then LOAD_NO_DATA_BUT_RODATA_NOT_LAST_SEGMENT
         else if 0 \<noteq> rodata \<and> 0 \<noteq> data \<and> rodata_end > NaClTruncAllocPage data then LOAD_RODATA_OVERLAPS_DATA
         else if 0 \<noteq> rodata \<and> NaClRoundAllocPage text_end > rodata then LOAD_TEXT_OVERLAPS_RODATA
         else if 0 = rodata \<and> 0 \<noteq> data \<and> NaClRoundAllocPage text_end > NaClTruncAllocPage data then LOAD_TEXT_OVERLAPS_DATA
         else if 0 \<noteq> rodata \<and> NaClRoundAllocPage rodata \<noteq> rodata then LOAD_BAD_RODATA_ALIGNMENT
         else LOAD_OK)"

end
