(* ===== verification/Trampolines.thy ===== *)
theory Trampolines
  imports SysHook LoadSpace
begin

text \<open>
  The trampolines, the only way out of untrusted code (\<open>sel_ldr.c\<close>, \<open>arch/x86_64/sel_ldr_x86_64.c\<close>): at every
  32 bytes of the trampoline region a copy of the code of \<open>tramp_64.S\<close>, patched with its own address and with
  the place outside the sandbox where the address of the service runtime is stored.
\<close>

section \<open>Patching code\<close>

fun load_mem :: "bytes \<Rightarrow> u64 \<Rightarrow> nat \<Rightarrow> u64 \<Rightarrow> u64" where
  "load_mem m addr 0 val = val"
| "load_mem m addr (Suc n) val = load_mem m addr n (push_bit 8 val OR ucast (m (addr + of_nat n)))"

definition NaClLoadMem :: "bytes \<Rightarrow> u64 \<Rightarrow> nat \<Rightarrow> u64 exec" where
  "NaClLoadMem m addr user_nbytes =
     ebind (echeck (0 \<noteq> user_nbytes \<and> user_nbytes \<le> 8) Check_failed) (\<lambda>_. Inr (load_mem m addr user_nbytes 0))"

fun store_mem :: "u64 \<Rightarrow> nat \<Rightarrow> u64 \<Rightarrow> bytes \<Rightarrow> bytes" where
  "store_mem addr 0 val m = m"
| "store_mem addr (Suc n) val m = store_mem (addr + 1) n (drop_bit 8 val) (m(addr := ucast val))"

definition NaClStoreMem :: "u64 \<Rightarrow> nat \<Rightarrow> u64 \<Rightarrow> bytes \<Rightarrow> bytes exec" where
  "NaClStoreMem addr nbytes val m = ebind (echeck (nbytes \<le> 8) Check_failed) (\<lambda>_. Inr (store_mem addr nbytes val m))"

text \<open>
  \<open>struct NaClPatchInfo\<close>; a patch is the address of the operand in the source and its value. The source
  \<open>src\<close> is given with its bytes.
\<close>

record patch_info =
  patch_dst :: u64
  patch_src :: u64
  patch_code :: "u8 list"
  abs64 :: "(u64 \<times> u64) list"
  abs32 :: "(u64 \<times> u64) list"
  abs16 :: "(u64 \<times> u64) list"
  rel64 :: "u64 list"

definition NaClPatchInfoCtor :: patch_info where
  "NaClPatchInfoCtor = \<lparr>patch_dst = 0, patch_src = 0, patch_code = [], abs64 = [], abs32 = [], abs16 = [], rel64 = []\<rparr>"

fun store_patches :: "u64 \<Rightarrow> u64 \<Rightarrow> nat \<Rightarrow> (u64 \<times> u64) list \<Rightarrow> bytes \<Rightarrow> bytes exec" where
  "store_patches dst src n [] m = Inr m"
| "store_patches dst src n ((target, val) # ps) m =
     ebind (NaClStoreMem (dst + (target - src)) n (take_bit (8 * n) val) m) (store_patches dst src n ps)"

fun relocate :: "u64 \<Rightarrow> u64 \<Rightarrow> u64 list \<Rightarrow> bytes \<Rightarrow> bytes exec" where
  "relocate dst src [] m = Inr m"
| "relocate dst src (target # ts) m =
     (let target_addr = dst + (target - src)
      in ebind (NaClLoadMem m target_addr 8) (\<lambda>v.
         ebind (NaClStoreMem target_addr 8 (v - (dst - src)) m) (relocate dst src ts)))"

definition NaClApplyPatchToMemory :: "patch_info \<Rightarrow> bytes \<Rightarrow> bytes exec" where
  "NaClApplyPatchToMemory patch m =
     (let dst = patch_dst patch; src = patch_src patch
      in ebind (store_patches dst src 8 (abs64 patch) (write_bytes dst (patch_code patch) m)) (\<lambda>m1.
         ebind (store_patches dst src 4 (abs32 patch) m1) (\<lambda>m2.
         ebind (store_patches dst src 2 (abs16 patch) m2) (\<lambda>m3.
           relocate dst src (rel64 patch) m3))))"

section \<open>The addresses of the service runtime\<close>

text \<open>The result is \<open>errno\<close> negated, 0 for success, and the page.\<close>

definition NaClPageAllocInternalFlags :: "'h load_env \<Rightarrow> u64 \<Rightarrow> u64 \<Rightarrow> u32 \<Rightarrow> 'h mem_app \<Rightarrow> (int \<times> u64) \<times> 'h mem_app" where
  "NaClPageAllocInternalFlags env p sz map_flags nap =
     (let (e, addr, nap1) = host_mmap (le_mem env) p sz 0 (map_flags OR (2 OR 0x20)) (- 1) 0 nap
      in if e \<noteq> 0 \<or> addr = 0 then ((- NACL_ABI_ENOMEM, p), nap1) else ((0, addr), nap1))"

fun page_alloc_tries :: "'h load_env \<Rightarrow> u64 \<Rightarrow> nat \<Rightarrow> 'h mem_app \<Rightarrow> (int \<times> u64) \<times> 'h mem_app" where
  "page_alloc_tries env sz 0 nap = NaClPageAllocInternalFlags env 0 sz 0 nap"
| "page_alloc_tries env sz (Suc n) nap =
     (let (addr, nap1) = random32 env nap;
          ((neg_errno, p), nap2) =
            NaClPageAllocInternalFlags env (push_bit NACL_MAP_PAGESHIFT (ucast addr) AND (push_bit 47 1 - 1)) sz 0 nap1
      in if 0 = neg_errno then ((0, p), nap2) else page_alloc_tries env sz n nap2)"

definition NaClPageAllocRandomized :: "'h load_env \<Rightarrow> u64 \<Rightarrow> 'h mem_app \<Rightarrow> (int \<times> u64) \<times> 'h mem_app" where
  "NaClPageAllocRandomized env sz nap = page_alloc_tries env sz 4 nap"

definition NaClPageFree :: "'h load_env \<Rightarrow> u64 \<Rightarrow> u64 \<Rightarrow> 'h mem_app \<Rightarrow> 'h mem_app exec" where
  "NaClPageFree env p sz nap =
     (if p = 0 \<or> sz = 0 then Inr nap
      else let (e, nap1) = host_munmap (le_mem env) p sz nap in if e \<noteq> 0 then Inl Log_fatal else Inr nap1)"

definition AddDispatchAddr :: "u64 \<Rightarrow> u64 \<Rightarrow> bytes \<Rightarrow> u64 \<times> u64 \<times> bytes" where
  "AddDispatchAddr next_addr target_routine m = (next_addr, next_addr + 8, store_mem next_addr 8 target_routine m)"

definition NaClMakeDispatchAddrs :: "'h load_env \<Rightarrow> 'h load_state \<Rightarrow> (bool \<times> 'h load_state) exec" where
  "NaClMakeDispatchAddrs env s =
     (if 0 \<noteq> ld_nacl_syscall_addr s then Inr (True, s)
      else let ((error, page_addr), nap1) = NaClPageAllocRandomized env NACL_MAP_PAGESIZE (ld_nap s);
               fail = (\<lambda>nap. ebind (NaClPageFree env page_addr NACL_MAP_PAGESIZE nap) (\<lambda>nap'. Inr (False, s\<lparr>ld_nap := nap'\<rparr>)))
           in if 0 \<noteq> error then fail nap1
              else let (error2, nap2) = NaClMprotect (le_mem env) page_addr NACL_MAP_PAGESIZE (1 OR 2) nap1
                   in if 0 \<noteq> error2 then fail nap2
                      else let (syscall_addr, next1, m1) = AddDispatchAddr page_addr (le_NaClSyscallSeg env) (fa_mem nap2);
                               (fast1_addr, next2, m2) = AddDispatchAddr next1 (le_NaClGetTlsFastPath1 env) m1;
                               (fast2_addr, next3, m3) = AddDispatchAddr next2 (le_NaClGetTlsFastPath2 env) m2;
                               (error3, nap3) = NaClMprotect (le_mem env) page_addr NACL_MAP_PAGESIZE 1 (nap2\<lparr>fa_mem := m3\<rparr>)
                           in if 0 \<noteq> error3 then fail nap3
                              else Inr (True, s\<lparr>ld_nap := nap3, ld_nacl_syscall_addr := syscall_addr,
                                     ld_tls_fast_path1_addr := fast1_addr, ld_tls_fast_path2_addr := fast2_addr\<rparr>))"

section \<open>The trampoline region\<close>

definition NACL_SYSCALL_BLOCK_SIZE :: u64 where "NACL_SYSCALL_BLOCK_SIZE = 32"
definition NACL_TRAMPOLINE_SIZE :: u64 where "NACL_TRAMPOLINE_SIZE = push_bit 16 1"

text \<open>Labels are given by their offset in the code, so the address of the source is 0.\<close>

definition NaClPatchOneTrampolineCall :: "'h load_env \<Rightarrow> u64 \<Rightarrow> u64 \<Rightarrow> bytes \<Rightarrow> bytes exec" where
  "NaClPatchOneTrampolineCall env call_target_addr target_addr m =
     ebind (echeck (0 \<noteq> call_target_addr) Check_failed) (\<lambda>_.
     ebind (echeck (of_nat (length (le_trampoline env)) \<le> NACL_INSTR_BLOCK_SIZE) Check_failed) (\<lambda>_.
       NaClApplyPatchToMemory
         (NaClPatchInfoCtor\<lparr>abs64 := [(le_call_target env - 8, call_target_addr)],
            abs32 := [(le_tramp_addr env - 4, ucast (ucast target_addr :: u32))],
            patch_dst := target_addr, patch_src := 0, patch_code := le_trampoline env\<rparr>) m))"

definition NaClPatchOneTrampoline :: "'h load_env \<Rightarrow> 'h load_state \<Rightarrow> u64 \<Rightarrow> bytes \<Rightarrow> bytes exec" where
  "NaClPatchOneTrampoline env s target_addr m = NaClPatchOneTrampolineCall env (ld_nacl_syscall_addr s) target_addr m"

definition NaClFillTrampolineRegion :: "u64 \<Rightarrow> bytes \<Rightarrow> bytes" where
  "NaClFillTrampolineRegion start m =
     NaClFillMemoryRegionWithHalt (start + ucast NACL_TRAMPOLINE_START) (unat NACL_TRAMPOLINE_SIZE) m"

text \<open>The loop over the blocks, with \<open>n\<close> of them left.\<close>

fun patch_trampolines :: "'h load_env \<Rightarrow> 'h load_state \<Rightarrow> u64 \<Rightarrow> nat \<Rightarrow> bytes \<Rightarrow> bytes exec" where
  "patch_trampolines env s addr 0 m = Inr m"
| "patch_trampolines env s addr (Suc n) m =
     ebind (NaClPatchOneTrampoline env s addr m) (patch_trampolines env s (addr + NACL_SYSCALL_BLOCK_SIZE) n)"

definition num_syscalls :: nat where
  "num_syscalls = unat ((ucast NACL_TRAMPOLINE_END - ucast NACL_SYSCALL_START_ADDR) div NACL_SYSCALL_BLOCK_SIZE) - 1"

definition NaClLoadTrampoline :: "'h load_env \<Rightarrow> 'h load_state \<Rightarrow> 'h load_state exec" where
  "NaClLoadTrampoline env s =
     ebind (NaClMakeDispatchAddrs env s) (\<lambda>(ok, s1).
       if \<not> ok then Inl Log_fatal
       else let nap = ld_nap s1; first = mem_start nap + ucast NACL_SYSCALL_START_ADDR
            in ebind (patch_trampolines env s1 first num_syscalls (NaClFillTrampolineRegion (mem_start nap) (fa_mem nap))) (\<lambda>m1.
               ebind (NaClPatchOneTrampolineCall env (ld_tls_fast_path1_addr s1)
                        (first + NACL_SYSCALL_BLOCK_SIZE * of_nat NACL_sys_tls_get) m1) (\<lambda>m2.
               ebind (NaClPatchOneTrampolineCall env (ld_tls_fast_path2_addr s1)
                        (first + NACL_SYSCALL_BLOCK_SIZE * of_nat NACL_sys_second_tls_get) m2) (\<lambda>m3.
                 Inr (s1\<lparr>ld_nap := nap\<lparr>fa_mem := m3\<rparr>\<rparr>)))))"

end
