(* ===== verification/AppLoad.thy ===== *)
theory AppLoad
  imports ElfSymbols Trampolines
begin

text \<open>
  The loader (\<open>sel_ldr_standard.c\<close>), with the protection of the finished address space
  (\<open>sel_addrspace.c\<close>), the validation of the text (\<open>sel_validate_image.c\<close>) and the state it starts from
  (\<open>sel_ldr.c\<close>). A \<open>goto done\<close> returns the error code with the state as it is then.
\<close>

definition LOAD_ADDR_SPACE_TOO_BIG :: int where "LOAD_ADDR_SPACE_TOO_BIG = 23"
definition LOAD_BAD_ENTRY :: int where "LOAD_BAD_ENTRY = 50"
definition LOAD_CODE_SEGMENT_TOO_LARGE :: int where "LOAD_CODE_SEGMENT_TOO_LARGE = 66"
definition NACL_MAX_ADDR_BITS :: u8 where "NACL_MAX_ADDR_BITS = 32"
definition NACL_DEFAULT_STACK_MAX :: u64 where "NACL_DEFAULT_STACK_MAX = push_bit 20 16"

text \<open>What follows a step unless its code is an error.\<close>

definition if_loaded :: "(int \<times> 's) exec \<Rightarrow> ('s \<Rightarrow> (int \<times> 's) exec) \<Rightarrow> (int \<times> 's) exec" where
  "if_loaded e k = ebind e (\<lambda>(status, s). if status \<noteq> LOAD_OK then Inr (status, s) else k s)"

definition on_app :: "('h mem_app \<Rightarrow> (int \<times> 'h mem_app) exec) \<Rightarrow> 'h load_state \<Rightarrow> (int \<times> 'h load_state) exec" where
  "on_app f s = ebind (f (ld_nap s)) (\<lambda>(status, nap). Inr (status, s\<lparr>ld_nap := nap\<rparr>))"

section \<open>Entry points\<close>

definition NaClAddrIsValidEntryPt :: "'a nacl_space_scheme \<Rightarrow> u64 \<Rightarrow> bool" where
  "NaClAddrIsValidEntryPt nap addr \<longleftrightarrow> 0 = addr AND ucast (bundle_size nap - 1) \<and> addr < static_text_end nap"

definition NaClAddrIsValidIrtEntryPt :: "'a nacl_space_scheme \<Rightarrow> u64 \<Rightarrow> bool" where
  "NaClAddrIsValidIrtEntryPt nap addr \<longleftrightarrow> 0 = addr AND ucast (bundle_size nap - 1) \<and> addr < dynamic_text_end nap"

section \<open>Validating the text\<close>

text \<open>The validator is given the text in place and may overwrite instructions with halts.\<close>

definition NaClValidateImage :: "'h mem_env \<Rightarrow> 'h mem_app \<Rightarrow> (int \<times> 'h mem_app) exec" where
  "NaClValidateImage env nap =
     (let memp = mem_start nap + ucast NACL_TRAMPOLINE_END; endp = mem_start nap + static_text_end nap; regionsize = endp - memp
      in if endp < memp then Inr (LOAD_NO_MEMORY, nap)
         else if skip_validator nap then Inr (LOAD_OK, nap)
         else let (rcode, data) = NaClValidateCode (me_text env) nap (ucast NACL_TRAMPOLINE_END)
                                    (read_bytes memp (unat regionsize) (fa_mem nap)) None;
                  nap1 = nap\<lparr>fa_mem := write_bytes memp data (fa_mem nap)\<rparr>
              in Inr (if LOAD_OK \<noteq> rcode then if ignore_validator_result nap1 then LOAD_OK else LOAD_VALIDATION_FAILED
                      else rcode, nap1))"

section \<open>Protecting the memory\<close>

text \<open>A region of the finished space: its protection, unless that has been set, and its entry in the map.\<close>

definition add_region ::
    "'h mem_env \<Rightarrow> u64 \<Rightarrow> u64 \<Rightarrow> u32 \<Rightarrow> nat option \<Rightarrow> u64 \<Rightarrow> 'h mem_app \<Rightarrow> 'h mem_app exec" where
  "add_region env page_num npages prot ndp file_size nap =
     ebind (with_map env (\<lambda>m. Inr ((), NaClVmmapAdd m page_num npages prot NACL_ABI_MAP_PRIVATE ndp 0 file_size)) nap)
       (\<lambda>(x, nap1). Inr nap1)"

definition protect_region :: "'h mem_env \<Rightarrow> u64 \<Rightarrow> u64 \<Rightarrow> u32 \<Rightarrow> 'h mem_app \<Rightarrow> (int \<times> 'h mem_app) exec" where
  "protect_region env start_addr region_size prot nap =
     (let (err, nap1) = NaClMprotect env start_addr region_size prot nap
      in if 0 \<noteq> err then Inr (LOAD_MPROTECT_FAIL, nap1)
         else ebind (NaClSysToUser nap1 start_addr) (\<lambda>u.
              ebind (add_region env (drop_bit NACL_PAGESHIFT u) (drop_bit NACL_PAGESHIFT region_size) prot None 0 nap1) (\<lambda>nap2.
                Inr (LOAD_OK, nap2))))"

definition protect_text :: "'h mem_env \<Rightarrow> 'h load_state \<Rightarrow> (int \<times> 'h load_state) exec" where
  "protect_text env s =
     (let nap = ld_nap s
      in ebind (add_region env 0 (drop_bit NACL_PAGESHIFT (ucast NACL_SYSCALL_START_ADDR)) 0 None 0 nap) (\<lambda>nap1.
         ebind (protect_region env (mem_start nap1 + ucast NACL_SYSCALL_START_ADDR)
                  (NaClRoundPage (static_text_end nap1 - ucast NACL_SYSCALL_START_ADDR)) (1 OR 4) nap1) (\<lambda>(status, nap2).
           Inr (status, s\<lparr>ld_nap := nap2\<rparr>))))"

definition protect_dynamic_text :: "'h mem_env \<Rightarrow> 'h load_state \<Rightarrow> (int \<times> 'h load_state) exec" where
  "protect_dynamic_text env s =
     (let nap = ld_nap s; region_size = dynamic_text_end nap - dynamic_text_start nap
      in ebind (NaClUserToSys nap (dynamic_text_start nap)) (\<lambda>start_addr.
         if 0 = region_size then Inr (LOAD_OK, s)
         else ebind (NaClSysToUser nap start_addr) (\<lambda>u.
              ebind (add_region env (drop_bit NACL_PAGESHIFT u) (drop_bit NACL_PAGESHIFT region_size)
                       (NACL_ABI_PROT_READ OR NACL_ABI_PROT_EXEC) (ld_text_shm s) region_size nap) (\<lambda>nap1.
                Inr (LOAD_OK, s\<lparr>ld_nap := nap1\<rparr>)))))"

definition protect_rodata :: "'h mem_env \<Rightarrow> 'h load_state \<Rightarrow> (int \<times> 'h load_state) exec" where
  "protect_rodata env s =
     (let nap = ld_nap s;
          rodata_end = (if 0 \<noteq> ld_data_start s then NaClTruncAllocPage (ld_data_start s) else break_addr nap)
      in if 0 = ld_rodata_start s then Inr (LOAD_OK, s)
         else ebind (NaClUserToSys nap (ld_rodata_start s)) (\<lambda>start_addr.
              ebind (NaClSysToUser nap start_addr) (\<lambda>u.
                on_app (protect_region env start_addr (NaClRoundPage (NaClRoundAllocPage rodata_end - u)) 1) s)))"

definition protect_data :: "'h mem_env \<Rightarrow> 'h load_state \<Rightarrow> (int \<times> 'h load_state) exec" where
  "protect_data env s =
     (let nap = ld_nap s
      in if 0 = ld_data_start s then Inr (LOAD_OK, s)
         else ebind (NaClUserToSys nap (NaClTruncAllocPage (ld_data_start s))) (\<lambda>start_addr.
              ebind (NaClSysToUser nap start_addr) (\<lambda>u.
                on_app (protect_region env start_addr (NaClRoundPage (NaClRoundAllocPage (data_end nap) - u)) (1 OR 2)) s)))"

definition map_stack :: "'h mem_env \<Rightarrow> 'h load_state \<Rightarrow> (int \<times> 'h load_state) exec" where
  "map_stack env s =
     (let nap = ld_nap s; start_addr = NaClTruncAllocPage (addr_limit nap - ld_stack_size s)
      in ebind (NaClSysMmapIntern env nap start_addr (ld_stack_size s) (NACL_ABI_PROT_READ OR NACL_ABI_PROT_WRITE)
                  (NACL_ABI_MAP_PRIVATE OR NACL_ABI_MAP_ANONYMOUS OR NACL_ABI_MAP_FIXED) (- 1) 0) (\<lambda>(err, nap1).
           Inr (if sint (ucast start_addr :: u32) \<noteq> err then LOAD_MPROTECT_FAIL else LOAD_OK, s\<lparr>ld_nap := nap1\<rparr>)))"

definition NaClMemoryProtection :: "'h mem_env \<Rightarrow> 'h load_state \<Rightarrow> (int \<times> 'h load_state) exec" where
  "NaClMemoryProtection env s =
     if_loaded (protect_text env s) (\<lambda>s1.
     if_loaded (protect_dynamic_text env s1) (\<lambda>s2.
     if_loaded (protect_rodata env s2) (\<lambda>s3.
     if_loaded (protect_data env s3) (map_stack env))))"

section \<open>Loading an executable\<close>

text \<open>Reading the file and checking its headers: the error code, or the image and what was noted of its segments.\<close>

definition load_headers ::
    "'h load_env \<Rightarrow> nat \<Rightarrow> 'h load_state \<Rightarrow> ((int + elf_image \<times> elf_info) \<times> 'h load_state) exec" where
  "load_headers env ndp s =
     (let nap = ld_nap s
      in ebind (NaClElfImageNew (le_memory env) (\<lambda>n off h. vPRead (me_vt (le_mem env)) ndp n off h) (host nap)) (\<lambda>(res, h).
           let s1 = s\<lparr>ld_nap := nap\<lparr>host := h\<rparr>\<rparr>
           in case res of
                Inl subret \<Rightarrow> Inr (Inl subret, s1)
              | Inr img \<Rightarrow>
                  (case NaClElfImageValidateProgramHeaders img (addr_bits nap) of
                     Inl subret \<Rightarrow> Inr (Inl subret, s1)
                   | Inr (img1, info) \<Rightarrow>
                       if ld_initial_nexe_max_code_bytes s \<noteq> 0
                          \<and> info_static_text_end info - ucast NACL_TRAMPOLINE_END > ucast (ld_initial_nexe_max_code_bytes s)
                       then Inr (Inl LOAD_CODE_SEGMENT_TOO_LARGE, s1)
                       else Inr (Inr (img1, info), s1))))"

text \<open>The break and the end of the data that follow from the segments.\<close>

definition layout_end :: "elf_info \<Rightarrow> u64" where
  "layout_end info =
     (let max_vaddr = info_max_vaddr info
      in if 0 = info_data_start info then
           NaClRoundAllocPage
             (if 0 = info_rodata_start info \<and> NaClRoundAllocPage max_vaddr - max_vaddr < NACL_HALT_SLED_SIZE
              then max_vaddr + NACL_MAP_PAGESIZE else max_vaddr)
         else max_vaddr)"

definition set_layout :: "elf_image \<Rightarrow> elf_info \<Rightarrow> 'h load_state \<Rightarrow> 'h load_state" where
  "set_layout img info s =
     s\<lparr>ld_nap := (ld_nap s)\<lparr>static_text_end := info_static_text_end info, break_addr := layout_end info,
         data_end := layout_end info, bundle_size := ucast NACL_INSTR_BLOCK_SIZE\<rparr>,
       ld_rodata_start := info_rodata_start info, ld_data_start := info_data_start info,
       ld_initial_entry_pt := NaClElfImageGetEntryPoint img\<rparr>"

definition load_symbols :: "'h load_env \<Rightarrow> elf_image \<Rightarrow> nat \<Rightarrow> 'h load_state \<Rightarrow> 'h load_state exec" where
  "load_symbols env img ndp s =
     (if le_load_symbols env then
        ebind (NaClElfGetSymbolTableMapping img (\<lambda>n off h. vPRead (me_vt (le_mem env)) ndp n off h) (host (ld_nap s))) (\<lambda>(m, h).
          Inr (s\<lparr>ld_nap := (ld_nap s)\<lparr>host := h\<rparr>, ld_symbols := m\<rparr>))
      else Inr s)"

text \<open>The image in its address space, with the text validated.\<close>

definition load_image :: "'h load_env \<Rightarrow> elf_image \<Rightarrow> nat \<Rightarrow> bool \<Rightarrow> 'h load_state \<Rightarrow> (int \<times> 'h load_state) exec" where
  "load_image env img ndp aslr s =
     if_loaded (NaClAllocAddrSpaceAslr env aslr s) (\<lambda>s1.
       let nap = ld_nap s1;
           (ret, nap1) = NaClMprotect (le_mem env) (mem_start nap + ucast NACL_TRAMPOLINE_START)
                           (NaClRoundAllocPage (data_end nap) - ucast NACL_TRAMPOLINE_START) (1 OR 2) nap
       in if 0 \<noteq> ret then Inl Log_fatal
          else if_loaded (NaClElfImageLoad (le_mem env) img ndp (s1\<lparr>ld_nap := nap1\<rparr>)) (\<lambda>s2.
               if_loaded (NaClMakeDynamicTextShared env s2) (\<lambda>s3.
                 ebind (NaClFillEndOfTextRegion s3) (\<lambda>s4.
                   if ld_main_exe_prevalidated s4 then Inr (LOAD_OK, s4)
                   else on_app (NaClValidateImage (le_mem env)) s4))))"

definition NaClAppLoadFileAslr :: "'h load_env \<Rightarrow> nat \<Rightarrow> bool \<Rightarrow> 'h load_state \<Rightarrow> (int \<times> 'h load_state) exec" where
  "NaClAppLoadFileAslr env ndp aslr s =
     (if addr_bits (ld_nap s) > NACL_MAX_ADDR_BITS then Inr (LOAD_ADDR_SPACE_TOO_BIG, s)
      else ebind (load_headers env ndp (s\<lparr>ld_stack_size := NaClRoundAllocPage (ld_stack_size s)\<rparr>)) (\<lambda>(res, s1).
        case res of
          Inl status \<Rightarrow> Inr (status, s1)
        | Inr (img, info) \<Rightarrow>
            ebind (load_symbols env img ndp (set_layout img info s1)) (\<lambda>s2.
              if \<not> NaClAddrIsValidEntryPt (ld_nap s2) (ld_initial_entry_pt s2) then Inr (LOAD_BAD_ENTRY, s2)
              else let subret = NaClCheckAddressSpaceLayoutSanity s2 (info_rodata_end info) (info_data_end info) (layout_end info)
                   in if LOAD_OK \<noteq> subret then Inr (subret, s2)
                      else if_loaded (load_image env img ndp aslr s2) (\<lambda>s3.
                             ebind (NaClLoadTrampoline env s3) (NaClMemoryProtection (le_mem env))))))"

definition NaClAppLoadFile :: "'h load_env \<Rightarrow> nat \<Rightarrow> 'h load_state \<Rightarrow> (int \<times> 'h load_state) exec" where
  "NaClAppLoadFile env ndp s = NaClAppLoadFileAslr env ndp True s"

definition NaClAppLoadFileDynamically ::
    "'h load_env \<Rightarrow> nat \<Rightarrow> (u32 \<Rightarrow> nat) option \<Rightarrow> 'h load_state \<Rightarrow> (int \<times> 'h load_state) exec" where
  "NaClAppLoadFileDynamically env ndp metadata s =
     ebind (NaClElfImageNew (le_memory env) (\<lambda>n off h. vPRead (me_vt (le_mem env)) ndp n off h) (host (ld_nap s))) (\<lambda>(res, h).
       let s1 = s\<lparr>ld_nap := (ld_nap s)\<lparr>host := h\<rparr>\<rparr>
       in case res of
            Inl ret \<Rightarrow> Inr (ret, s1)
          | Inr img \<Rightarrow>
              if_loaded (on_app (NaClElfImageLoadDynamically (le_memory env) (le_mem env) img ndp metadata) s1) (\<lambda>s2.
                let s3 = s2\<lparr>ld_user_entry_pt := ld_initial_entry_pt s2, ld_initial_entry_pt := NaClElfImageGetEntryPoint img\<rparr>
                in Inr (if \<not> NaClAddrIsValidIrtEntryPt (ld_nap s3) (ld_initial_entry_pt s3) then LOAD_BAD_ENTRY else LOAD_OK, s3)))"

section \<open>The first state\<close>

text \<open>
  \<open>ctor\<close> says of every allocation and constructor whether it succeeds. \<open>enable_dyncode\<close> and \<open>dynamic_loading\<close>
  are the settings of the environment; \<open>m\<close> is the memory and \<open>faults\<close> the protection of its pages. \<open>None\<close> stands
  for the failure.
\<close>

definition NaClAppWithEmptySyscallTableCtor ::
    "bool list \<Rightarrow> bool \<Rightarrow> bool \<Rightarrow> bytes \<Rightarrow> ('h \<Rightarrow> bool \<Rightarrow> u64 \<Rightarrow> bool) \<Rightarrow> 'h \<Rightarrow> 'h load_state option" where
  "NaClAppWithEmptySyscallTableCtor ctor enable_dyncode dynamic_loading m faults h =
     (if \<not> list_all id ctor then None
      else case (DynArrayCtor True True 2, DynArrayCtor True True 2) of
             (Some threads, Some descs) \<Rightarrow>
               Some \<lparr>ld_nap = \<lparr>addr_bits = NACL_MAX_ADDR_BITS, mem_start = 0, bundle_size = 0, static_text_end = 0,
                        dynamic_text_start = 0, dynamic_text_end = 0, desc_tbl = descs, nd_refs = (\<lambda>n. None),
                        thread_tbl = threads, n_threads = 0, mem_io_regions = RLeaf, fa_mem = m, access_faults = faults, host = h,
                        dyn_regs = \<lparr>regions = [], regions_allocated = 0\<rparr>, dynamic_page_bitmap = [], mapcache_offset = 0,
                        mapcache_size = 0, mapcache_ret = 0, text_shm = False, delete_generation = 0,
                        natp_generation = (\<lambda>n. 0), enable_dyncode_syscalls = enable_dyncode, skip_validator = False,
                        ignore_validator_result = False, validator_stub_out_mode = False, pnacl_mode = False,
                        requests = [], mem_map = NaClVmmapCtor (\<lambda>n. 0), break_addr = 0, data_end = 0\<rparr>,
                      ld_stack_size = NACL_DEFAULT_STACK_MAX, ld_rodata_start = 0, ld_data_start = 0, ld_initial_entry_pt = 0,
                      ld_user_entry_pt = 0, ld_main_exe_prevalidated = False, ld_use_shm_for_dynamic_text = dynamic_loading,
                      ld_initial_nexe_max_code_bytes = 0, ld_text_shm = None, ld_symbols = None, ld_nacl_syscall_addr = 0,
                      ld_tls_fast_path1_addr = 0, ld_tls_fast_path2_addr = 0\<rparr>
           | _ \<Rightarrow> None)"

end
