(* ===== verification/ElfProps.thy ===== *)
theory ElfProps
  imports ElfImage
begin

text \<open>
  What the checks of the program headers establish of the segments that will be loaded, and of the notes
  taken of them.
\<close>

section \<open>Segments\<close>

text \<open>A segment that may be loaded: it lies between the trampolines and the end of the address space.\<close>

definition segment_fits :: "u8 \<Rightarrow> elf_phdr \<Rightarrow> bool" where
  "segment_fits bits php \<longleftrightarrow> 0 < unat (p_memsz php) \<and> 0x20000 \<le> unat (p_vaddr php)
     \<and> unat (p_vaddr php) + unat (p_memsz php) \<le> 2 ^ unat bits \<and> unat (p_filesz php) \<le> unat (p_memsz php)"

text \<open>What kind of segment the table says it is.\<close>

definition action_of :: "elf_phdr \<Rightarrow> phdr_action" where
  "action_of php = (case find_check php of Some (j, action, vaddr) \<Rightarrow> action | None \<Rightarrow> PCA_IGNORE)"

definition loaded_segments :: "elf_phdr list \<Rightarrow> bool list \<Rightarrow> elf_phdr list" where
  "loaded_segments ps lds = map fst (filter snd (zip ps lds))"

lemma loaded_segments_simps [simp]:
  "loaded_segments [] lds = []" "loaded_segments (p # ps) (False # lds) = loaded_segments ps lds"
  "loaded_segments (p # ps) (True # lds) = p # loaded_segments ps lds"
  by (simp_all add: loaded_segments_def)

lemma unat_space_size: "unat bits \<le> 32 \<Longrightarrow> unat (space_size bits) = 2 ^ unat bits"
  unfolding space_size_def push_bit_of_1 by (rule unat_power_lower_nat) simp

lemma segment_status_ok:
  assumes "segment_status bits vaddr php = LOAD_OK" "unat bits \<le> 32"
  shows "(vaddr = 0 \<or> vaddr = p_vaddr php) \<and> 0x20000 \<le> unat (p_vaddr php)
    \<and> unat (p_vaddr php) + unat (p_memsz php) \<le> 2 ^ unat bits \<and> unat (p_filesz php) \<le> unat (p_memsz php)"
proof -
  let ?v = "ucast (p_vaddr php) :: u64" and ?m = "ucast (p_memsz php) :: u64"
  have c: "vaddr = 0 \<or> vaddr = p_vaddr php" "\<not> p_vaddr php < NACL_TRAMPOLINE_END" "\<not> ?v \<ge> space_size bits"
    "\<not> space_size bits - ?v < ?m" "\<not> p_filesz php > p_memsz php"
    using assms(1) by (auto simp: segment_status_def load_codes split: if_splits)
  have "unat (space_size bits - ?v) = 2 ^ unat bits - unat (p_vaddr php)"
    using c(3) unat_space_size [OF assms(2)] by (simp add: unat_sub unat_ucast_64)
  then have "unat (p_memsz php) \<le> 2 ^ unat bits - unat (p_vaddr php)"
    using c(4) by (simp add: not_less word_le_nat_alt unat_ucast_64)
  moreover have "unat (p_vaddr php) < 2 ^ unat bits"
    using c(3) unat_space_size [OF assms(2)] by (simp add: not_le word_less_nat_alt unat_ucast_64)
  ultimately show ?thesis using c(1,2,5) by (auto simp: not_less word_le_nat_alt NACL_TRAMPOLINE_END_def)
qed

section \<open>The table\<close>

lemma find_check_table:
  assumes "find_check php = Some (j, action, vaddr)"
  shows "\<exists>required. j < length nacl_phdr_check_data \<and> nacl_phdr_check_data ! j = (p_type php, p_flags php, action, required, vaddr)"
proof -
  have "check_from k cs php = Some (j, action, vaddr)
      \<Longrightarrow> k \<le> j \<and> j < k + length cs \<and> (\<exists>r. cs ! (j - k) = (p_type php, p_flags php, action, r, vaddr))" for k cs
  proof (induction k cs php rule: check_from.induct)
    case (2 k t f a r v cs p)
    then show ?case by (auto simp: nth_Cons' split: if_splits)
  qed simp
  from this [of 0 nacl_phdr_check_data] assms show ?thesis by (auto simp: find_check_def)
qed

definition check_index :: "elf_phdr \<Rightarrow> nat" where
  "check_index php = (case find_check php of Some (j, action, vaddr) \<Rightarrow> j | None \<Rightarrow> 0)"

lemma table_entry:
  assumes "find_check php = Some (j, action, vaddr)"
  shows "action = PCA_TEXT_CHECK \<longleftrightarrow> j = 1" "action = PCA_RODATA \<longleftrightarrow> j = 2" "action = PCA_DATA \<longleftrightarrow> j = 3"
    "j = 1 \<Longrightarrow> vaddr = NACL_TRAMPOLINE_END" "j < 13"
  using find_check_table [OF assms] by (auto simp: nacl_phdr_check_data_def less_Suc_eq nth_Cons')

section \<open>The loop\<close>

lemma seen_later: "\<not> xs[i := True] ! j \<Longrightarrow> \<not> xs ! j"
  by (metis linorder_not_less list_update_beyond nth_list_update)

lemma check_phdrs_Cons:
  assumes "check_phdrs bits (p # ps) seen info = Inr (lds, seen', info')"
  obtains (skipped) lds' where "lds = False # lds'" "check_phdrs bits ps (if p_memsz p = 0 then seen else seen[check_index p := True]) info = Inr (lds', seen', info')"
      "p_memsz p \<noteq> 0 \<Longrightarrow> \<exists>v. find_check p = Some (check_index p, PCA_IGNORE, v)"
    | (taken) lds' vaddr where "lds = True # lds'" "find_check p = Some (check_index p, action_of p, vaddr)"
      "check_phdrs bits ps (seen[check_index p := True]) (note_segment (action_of p) p info) = Inr (lds', seen', info')"
      "p_memsz p \<noteq> 0" "segment_status bits vaddr p = LOAD_OK" "\<not> seen ! check_index p" "action_of p \<noteq> PCA_IGNORE"
  using assms
  by (auto simp: Let_def check_index_def action_of_def split: if_splits option.splits sum.splits prod.splits)

lemma check_length: "check_phdrs bits ps seen info = Inr (lds, seen', info') \<Longrightarrow> length lds = length ps"
proof (induction ps arbitrary: lds seen info)
  case (Cons p ps)
  from Cons.prems show ?case by (rule check_phdrs_Cons) (auto dest: Cons.IH)
qed simp

lemma check_found:
  "check_phdrs bits ps seen info = Inr (lds, seen', info') \<Longrightarrow> p \<in> set (loaded_segments ps lds)
    \<Longrightarrow> \<exists>v. find_check p = Some (check_index p, action_of p, v) \<and> (v = 0 \<or> v = p_vaddr p)"
proof (induction ps arbitrary: lds seen info)
  case (Cons q ps)
  from Cons.prems(1) show ?case
  proof (cases rule: check_phdrs_Cons)
    case (taken lds' vaddr)
    have "vaddr = 0 \<or> vaddr = p_vaddr q" using taken(5) by (auto simp: segment_status_def load_codes split: if_splits)
    then show ?thesis using Cons.IH [OF taken(3)] Cons.prems(2) taken(1,2) by auto
  qed (use Cons in auto)
qed simp

lemma check_fits:
  "check_phdrs bits ps seen info = Inr (lds, seen', info') \<Longrightarrow> unat bits \<le> 32
    \<Longrightarrow> p \<in> set (loaded_segments ps lds) \<Longrightarrow> segment_fits bits p"
proof (induction ps arbitrary: lds seen info)
  case (Cons q ps)
  from Cons.prems(1) show ?case
  proof (cases rule: check_phdrs_Cons)
    case (taken lds' vaddr)
    have "segment_fits bits q"
      using segment_status_ok [OF taken(5) Cons.prems(2)] taken(4) by (simp add: segment_fits_def word_eq_unat)
    then show ?thesis using Cons.IH [OF taken(3) Cons.prems(2)] Cons.prems(3) taken(1) by auto
  qed (use Cons in auto)
qed simp

lemma check_note:
  "check_phdrs bits ps seen info = Inr (lds, seen', info')
    \<Longrightarrow> info' = fold (\<lambda>p. note_segment (action_of p) p) (loaded_segments ps lds) info"
proof (induction ps arbitrary: lds seen info)
  case (Cons p ps)
  from Cons.prems show ?case by (rule check_phdrs_Cons) (auto dest: Cons.IH)
qed simp

text \<open>No entry of the table is used twice.\<close>

lemma check_distinct:
  "check_phdrs bits ps seen info = Inr (lds, seen', info') \<Longrightarrow> length seen = 13
    \<Longrightarrow> distinct (map check_index (loaded_segments ps lds)) \<and> (\<forall>p \<in> set (loaded_segments ps lds). \<not> seen ! check_index p)"
proof (induction ps arbitrary: lds seen info)
  case (Cons q ps)
  from Cons.prems(1) show ?case
  proof (cases rule: check_phdrs_Cons)
    case (skipped lds')
    then have *: "distinct (map check_index (loaded_segments ps lds'))"
      "\<forall>p \<in> set (loaded_segments ps lds'). \<not> (if p_memsz q = 0 then seen else seen[check_index q := True]) ! check_index p"
      using Cons.IH [OF skipped(2)] Cons.prems(2) by auto
    then show ?thesis using skipped(1) seen_later by (auto split: if_splits)
  next
    case (taken lds' vaddr)
    have j: "check_index q < length seen" using table_entry(5) [OF taken(2)] Cons.prems(2) by simp
    have *: "distinct (map check_index (loaded_segments ps lds'))"
      "\<forall>p \<in> set (loaded_segments ps lds'). \<not> seen[check_index q := True] ! check_index p"
      using Cons.IH [OF taken(3)] Cons.prems(2) by auto
    have "check_index q \<notin> check_index ` set (loaded_segments ps lds')"
      using *(2) j by (metis imageE nth_list_update_eq)
    moreover have "\<forall>p \<in> set (loaded_segments ps lds'). \<not> seen ! check_index p"
      using *(2) seen_later by blast
    ultimately show ?thesis using taken(1,6) *(1) by simp
  qed
qed simp

lemma check_seen:
  "check_phdrs bits ps seen info = Inr (lds, seen', info') \<Longrightarrow> seen' ! j \<Longrightarrow> j \<in> {1, 2, 3}
    \<Longrightarrow> seen ! j \<or> (\<exists>p v. p \<in> set (loaded_segments ps lds) \<and> find_check p = Some (j, action_of p, v))"
proof (induction ps arbitrary: lds seen info)
  case (Cons q ps)
  from Cons.prems(1) show ?case
  proof (cases rule: check_phdrs_Cons)
    case (skipped lds')
    have "check_index q \<noteq> j" if m: "p_memsz q \<noteq> 0"
    proof -
      obtain v where "find_check q = Some (check_index q, PCA_IGNORE, v)" using skipped(3) [OF m] by blast
      from table_entry(1-3) [OF this] show ?thesis using Cons.prems(3) by auto
    qed
    then show ?thesis using Cons.IH [OF skipped(2) Cons.prems(2,3)] skipped(1) by (auto split: if_splits)
  next
    case (taken lds' vaddr)
    show ?thesis
    proof (cases "check_index q = j")
      case True
      then show ?thesis using taken(1,2) by auto
    next
      case False
      then show ?thesis using Cons.IH [OF taken(3) Cons.prems(2,3)] taken(1) by auto
    qed
  qed
qed auto

section \<open>The result\<close>

text \<open>The type and the flags of a segment, on which the table depends.\<close>

definition segment_kind :: "elf_phdr \<Rightarrow> u32 \<times> u32" where
  "segment_kind p = (p_type p, p_flags p)"

lemma kind_index: "segment_kind p = segment_kind q \<Longrightarrow> check_index p = check_index q"
proof -
  have "check_from k cs p = check_from k cs q" if "segment_kind p = segment_kind q" for k cs
    using that by (induction k cs p rule: check_from.induct) (auto simp: segment_kind_def)
  then show "segment_kind p = segment_kind q \<Longrightarrow> check_index p = check_index q"
    by (simp add: check_index_def find_check_def)
qed

lemma kinds_distinct: "distinct (map check_index ps) \<Longrightarrow> distinct (map segment_kind ps)"
  by (induction ps) (auto dest: kind_index)

lemma headers_ok:
  assumes ok: "NaClElfImageValidateProgramHeaders img bits = Inr (img', info)" and bits: "unat bits \<le> 32"
  defines "segs \<equiv> loaded_segments (phdrs img) (loadable img')"
  shows "img' = img\<lparr>loadable := loadable img'\<rparr>" "length (loadable img') = length (phdrs img)"
    "\<forall>p \<in> set segs. segment_fits bits p" "distinct (map check_index segs)"
    "info = fold (\<lambda>p. note_segment (action_of p) p) segs info_empty"
    "\<forall>p \<in> set segs. \<exists>v. find_check p = Some (check_index p, action_of p, v) \<and> (v = 0 \<or> v = p_vaddr p)"
    "\<exists>p v. p \<in> set segs \<and> find_check p = Some (1, action_of p, v)"
proof -
  let ?first = "replicate (length nacl_phdr_check_data) False"
  have len: "length ?first = 13" by (simp add: nacl_phdr_check_data_def)
  obtain lds seen where c: "check_phdrs bits (phdrs img) ?first info_empty = Inr (lds, seen, info)"
      "img' = img\<lparr>loadable := lds\<rparr>"
    and req: "\<not> list_ex (\<lambda>(j, (t, f, action, required, vaddr)). required \<and> \<not> seen ! j) (enumerate 0 nacl_phdr_check_data)"
    using ok unfolding NaClElfImageValidateProgramHeaders_def
    by (auto simp del: length_replicate split: sum.splits if_splits)
  have seen1: "seen ! 1" using req by (simp add: nacl_phdr_check_data_def)
  have segs: "segs = loaded_segments (phdrs img) lds" using c(2) by (simp add: segs_def)
  show "img' = img\<lparr>loadable := loadable img'\<rparr>" using c(2) by simp
  show "length (loadable img') = length (phdrs img)" using check_length [OF c(1)] c(2) by simp
  show "\<forall>p \<in> set segs. segment_fits bits p" using check_fits [OF c(1) bits] segs by blast
  show "\<forall>p \<in> set segs. \<exists>v. find_check p = Some (check_index p, action_of p, v) \<and> (v = 0 \<or> v = p_vaddr p)"
    using check_found [OF c(1)] segs by blast
  show "distinct (map check_index segs)" using check_distinct [OF c(1) len] segs by simp
  show "info = fold (\<lambda>p. note_segment (action_of p) p) segs info_empty" using check_note [OF c(1)] segs by simp
  show "\<exists>p v. p \<in> set segs \<and> find_check p = Some (1, action_of p, v)" using check_seen [OF c(1) seen1] segs by (auto simp: nacl_phdr_check_data_def)
qed

text \<open>What the notes say of the one segment of each kind.\<close>

lemma note_others:
  "\<forall>q \<in> set ps. action_of q \<noteq> PCA_TEXT_CHECK
    \<Longrightarrow> info_static_text_end (fold (\<lambda>p. note_segment (action_of p) p) ps info) = info_static_text_end info"
  by (induction ps arbitrary: info) (auto simp: note_segment_def Let_def split: phdr_action.splits)

lemma note_others_rodata:
  "\<forall>q \<in> set ps. action_of q \<noteq> PCA_RODATA
    \<Longrightarrow> info_rodata_start (fold (\<lambda>p. note_segment (action_of p) p) ps info) = info_rodata_start info
      \<and> info_rodata_end (fold (\<lambda>p. note_segment (action_of p) p) ps info) = info_rodata_end info"
  by (induction ps arbitrary: info) (auto simp: note_segment_def Let_def split: phdr_action.splits)

lemma note_others_data:
  "\<forall>q \<in> set ps. action_of q \<noteq> PCA_DATA
    \<Longrightarrow> info_data_start (fold (\<lambda>p. note_segment (action_of p) p) ps info) = info_data_start info
      \<and> info_data_end (fold (\<lambda>p. note_segment (action_of p) p) ps info) = info_data_end info"
  by (induction ps arbitrary: info) (auto simp: note_segment_def Let_def split: phdr_action.splits)

lemma note_max:
  "info_max_vaddr (fold (\<lambda>p. note_segment (action_of p) p) ps info)
    = fold (\<lambda>p m. max m (ucast (p_vaddr p + p_memsz p))) ps (info_max_vaddr info)"
  by (induction ps arbitrary: info) (auto simp: note_segment_def Let_def max_def not_less split: phdr_action.splits)

lemma one_of_kind:
  assumes "distinct (map check_index segs)" "\<forall>q \<in> set segs. \<exists>v. find_check q = Some (check_index q, action_of q, v) \<and> P v q"
    and p: "p \<in> set segs" "action_of p = a" "a \<in> {PCA_TEXT_CHECK, PCA_RODATA, PCA_DATA}"
  obtains xs ys where "segs = xs @ p # ys" "\<forall>q \<in> set ys. action_of q \<noteq> a"
proof -
  obtain xs ys where s: "segs = xs @ p # ys" using p(1) by (metis split_list)
  have "action_of q \<noteq> a" if q: "q \<in> set ys" for q
  proof
    assume a: "action_of q = a"
    have qs: "q \<in> set segs" using s q by simp
    obtain v where "find_check p = Some (check_index p, action_of p, v)" using assms(2) p(1) by blast
    moreover obtain w where "find_check q = Some (check_index q, action_of q, w)" using assms(2) qs by blast
    ultimately have f: "find_check p = Some (check_index p, a, v)" "find_check q = Some (check_index q, a, w)"
      using p(2) a by simp_all
    have "check_index p = check_index q" using table_entry(1-3) [OF f(1)] table_entry(1-3) [OF f(2)] p(3) by auto
    then show False using assms(1) s q by auto
  qed
  then show thesis using that s by blast
qed

text \<open>
  Where a segment ends in memory, and what the code notes as its end: the sum in 32 bits. They are the
  same below 4 GiB; a segment that ends at 4 GiB is noted with the end 0.
\<close>

definition seg_end :: "elf_phdr \<Rightarrow> nat" where
  "seg_end p = unat (p_vaddr p) + unat (p_memsz p)"

definition noted_end :: "elf_phdr \<Rightarrow> u64" where
  "noted_end p = ucast (p_vaddr p + p_memsz p)"

lemma noted_end_mod: "unat (noted_end p) = seg_end p mod 2 ^ 32"
  by (simp add: noted_end_def seg_end_def unat_ucast_64 unat_word_ariths(1))

text \<open>
  The text starts right after the trampolines. Read-only data and data are noted when there are such
  segments. The greatest address noted is the greatest of the noted ends.
\<close>

definition notes_of :: "elf_phdr list \<Rightarrow> elf_info \<Rightarrow> bool" where
  "notes_of segs info \<longleftrightarrow>
     (\<exists>t \<in> set segs. segment_kind t = (PT_LOAD, PF_R OR PF_X) \<and> p_vaddr t = NACL_TRAMPOLINE_END
        \<and> unat (info_static_text_end info) = (unat NACL_TRAMPOLINE_END + unat (p_filesz t)) mod 2 ^ 32)
     \<and> (if \<exists>r \<in> set segs. segment_kind r = (PT_LOAD, PF_R)
        then \<exists>r \<in> set segs. segment_kind r = (PT_LOAD, PF_R) \<and> unat (info_rodata_start info) = unat (p_vaddr r)
          \<and> unat (info_rodata_end info) = seg_end r mod 2 ^ 32
        else info_rodata_start info = 0 \<and> info_rodata_end info = 0)
     \<and> (if \<exists>d \<in> set segs. segment_kind d = (PT_LOAD, PF_R OR PF_W)
        then \<exists>d \<in> set segs. segment_kind d = (PT_LOAD, PF_R OR PF_W) \<and> unat (info_data_start info) = unat (p_vaddr d)
          \<and> unat (info_data_end info) = seg_end d mod 2 ^ 32
        else info_data_start info = 0 \<and> info_data_end info = 0)
     \<and> unat (info_max_vaddr info) = Max (insert (unat NACL_TRAMPOLINE_END) ((\<lambda>p. seg_end p mod 2 ^ 32) ` set segs))"

lemma kind_action:
  assumes "find_check p = Some (j, action_of p, v)"
  shows "segment_kind p = (PT_LOAD, PF_R OR PF_X) \<longleftrightarrow> action_of p = PCA_TEXT_CHECK"
    "segment_kind p = (PT_LOAD, PF_R) \<longleftrightarrow> action_of p = PCA_RODATA"
    "segment_kind p = (PT_LOAD, PF_R OR PF_W) \<longleftrightarrow> action_of p = PCA_DATA"
  using find_check_table [OF assms]
  by (auto simp: nacl_phdr_check_data_def segment_kind_def less_Suc_eq nth_Cons' elf_numbers)

lemma fold_max: "fold (\<lambda>p m. max m (f p)) ps (x :: u64) = Max (insert x (f ` set ps))"
proof (induction ps arbitrary: x)
  case (Cons p ps)
  have "insert (max x (f p)) (f ` set ps) \<noteq> {}" by simp
  then show ?case using Cons by (cases "ps = []") (simp_all add: insert_commute Max_insert max.assoc [symmetric])
qed simp

lemma note_fold:
  "fold (\<lambda>p. note_segment (action_of p) p) (xs @ p # ys) info
    = fold (\<lambda>p. note_segment (action_of p) p) ys (note_segment (action_of p) p (fold (\<lambda>p. note_segment (action_of p) p) xs info))"
  by simp

lemma if_bexI:
  assumes "\<And>p. p \<in> A \<Longrightarrow> Q p \<longleftrightarrow> R p" "\<And>p. p \<in> A \<Longrightarrow> R p \<Longrightarrow> S p \<and> S' p"
    and "\<not> (\<exists>p \<in> A. R p) \<Longrightarrow> E"
  shows "if \<exists>p \<in> A. Q p then \<exists>p \<in> A. Q p \<and> S p \<and> S' p else E"
  using assms by auto

lemma headers_notes:
  assumes ok: "NaClElfImageValidateProgramHeaders img bits = Inr (img', info)" and bits: "unat bits \<le> 32"
  shows "notes_of (loaded_segments (phdrs img) (loadable img')) info"
proof -
  let ?segs = "loaded_segments (phdrs img) (loadable img')"
  note h = headers_ok [OF assms]
  note info = h(5)
  have found: "\<exists>v. find_check p = Some (check_index p, action_of p, v) \<and> (v = 0 \<or> v = p_vaddr p)" if "p \<in> set ?segs" for p
    using h(6) that by blast
  then have kinds: "segment_kind p = (PT_LOAD, PF_R OR PF_X) \<longleftrightarrow> action_of p = PCA_TEXT_CHECK"
      "segment_kind p = (PT_LOAD, PF_R) \<longleftrightarrow> action_of p = PCA_RODATA"
      "segment_kind p = (PT_LOAD, PF_R OR PF_W) \<longleftrightarrow> action_of p = PCA_DATA" if "p \<in> set ?segs" for p
    using kind_action that by blast+
  have one: "\<exists>xs ys. ?segs = xs @ p # ys \<and> (\<forall>q \<in> set ys. action_of q \<noteq> action_of p)"
    if "p \<in> set ?segs" "action_of p \<in> {PCA_TEXT_CHECK, PCA_RODATA, PCA_DATA}" for p
    by (rule one_of_kind [OF h(4,6) that(1) refl that(2)]) blast
  have tnote: "info_static_text_end info = ucast (NACL_TRAMPOLINE_END + p_filesz p)"
    if p: "p \<in> set ?segs" "action_of p = PCA_TEXT_CHECK" for p
  proof -
    obtain xs ys where s: "?segs = xs @ p # ys" "\<forall>q \<in> set ys. action_of q \<noteq> PCA_TEXT_CHECK" using one [of p] p by auto
    show ?thesis unfolding info s(1) note_fold note_others [OF s(2)] using p(2) by (simp add: note_segment_def Let_def)
  qed
  have rodata: "info_rodata_start info = ucast (p_vaddr p) \<and> info_rodata_end info = noted_end p"
    if p: "p \<in> set ?segs" "action_of p = PCA_RODATA" for p
  proof -
    obtain xs ys where s: "?segs = xs @ p # ys" "\<forall>q \<in> set ys. action_of q \<noteq> PCA_RODATA" using one [of p] p by auto
    show ?thesis unfolding info s(1) note_fold using note_others_rodata [OF s(2)] p(2) by (simp add: note_segment_def Let_def noted_end_def)
  qed
  have data: "info_data_start info = ucast (p_vaddr p) \<and> info_data_end info = noted_end p"
    if p: "p \<in> set ?segs" "action_of p = PCA_DATA" for p
  proof -
    obtain xs ys where s: "?segs = xs @ p # ys" "\<forall>q \<in> set ys. action_of q \<noteq> PCA_DATA" using one [of p] p by auto
    show ?thesis unfolding info s(1) note_fold using note_others_data [OF s(2)] p(2) by (simp add: note_segment_def Let_def noted_end_def)
  qed
  have rnote: "unat (info_rodata_start info) = unat (p_vaddr p) \<and> unat (info_rodata_end info) = seg_end p mod 2 ^ 32"
    if "p \<in> set ?segs" "action_of p = PCA_RODATA" for p
    using rodata [OF that] by (simp add: noted_end_mod unat_ucast_64)
  have dnote: "unat (info_data_start info) = unat (p_vaddr p) \<and> unat (info_data_end info) = seg_end p mod 2 ^ 32"
    if "p \<in> set ?segs" "action_of p = PCA_DATA" for p
    using data [OF that] by (simp add: noted_end_mod unat_ucast_64)
  obtain t v where t: "t \<in> set ?segs" "find_check t = Some (1, action_of t, v)" using h(7) by blast
  have at: "action_of t = PCA_TEXT_CHECK" "v = NACL_TRAMPOLINE_END" using table_entry [OF t(2)] by auto
  have vt: "p_vaddr t = NACL_TRAMPOLINE_END" using found [OF t(1)] t(2) at(2) by (auto simp: NACL_TRAMPOLINE_END_def)
  have "info_max_vaddr info = Max (insert (ucast NACL_TRAMPOLINE_END) (noted_end ` set ?segs))"
    unfolding info note_max noted_end_def [symmetric] fold_max by (simp add: info_empty_def)
  moreover have "mono (unat :: u64 \<Rightarrow> nat)" by (simp add: mono_def word_le_nat_alt)
  ultimately have max: "unat (info_max_vaddr info) = Max (insert (unat NACL_TRAMPOLINE_END) ((\<lambda>p. seg_end p mod 2 ^ 32) ` set ?segs))"
    by (simp add: mono_Max_commute image_image noted_end_mod unat_ucast_64)
  have r0: "info_rodata_start info = 0 \<and> info_rodata_end info = 0" if "\<not> (\<exists>r \<in> set ?segs. action_of r = PCA_RODATA)"
    unfolding info using note_others_rodata [of ?segs info_empty] that by (auto simp: info_empty_def)
  have d0: "info_data_start info = 0 \<and> info_data_end info = 0" if "\<not> (\<exists>r \<in> set ?segs. action_of r = PCA_DATA)"
    unfolding info using note_others_data [of ?segs info_empty] that by (auto simp: info_empty_def)
  have "\<exists>t \<in> set ?segs. segment_kind t = (PT_LOAD, PF_R OR PF_X) \<and> p_vaddr t = NACL_TRAMPOLINE_END
      \<and> unat (info_static_text_end info) = (unat NACL_TRAMPOLINE_END + unat (p_filesz t)) mod 2 ^ 32"
    using t(1) kinds(1) at(1) vt tnote [OF t(1) at(1)] by (intro bexI [OF _ t(1)]) (simp add: unat_ucast_64 unat_word_ariths(1))
  moreover have "if \<exists>r \<in> set ?segs. segment_kind r = (PT_LOAD, PF_R)
      then \<exists>r \<in> set ?segs. segment_kind r = (PT_LOAD, PF_R) \<and> unat (info_rodata_start info) = unat (p_vaddr r)
          \<and> unat (info_rodata_end info) = seg_end r mod 2 ^ 32
      else info_rodata_start info = 0 \<and> info_rodata_end info = 0"
    by (rule if_bexI [OF kinds(2) rnote r0])
  moreover have "if \<exists>d \<in> set ?segs. segment_kind d = (PT_LOAD, PF_R OR PF_W)
      then \<exists>d \<in> set ?segs. segment_kind d = (PT_LOAD, PF_R OR PF_W) \<and> unat (info_data_start info) = unat (p_vaddr d)
          \<and> unat (info_data_end info) = seg_end d mod 2 ^ 32
      else info_data_start info = 0 \<and> info_data_end info = 0"
    by (rule if_bexI [OF kinds(3) dnote d0])
  ultimately show ?thesis unfolding notes_of_def using max by blast
qed

end
