(* ===== verification/LoadFrames.thy ===== *)
theory LoadFrames
  imports AppLoad ElfProps
begin

text \<open>
  What the steps of the loader leave alone: everything but the memory, the state of the host and the
  record of requests, and the fields that the step is there to set; and the layout of the address space that the
  headers of the file lead to.
\<close>

section \<open>Requests to the host\<close>

definition app_moved :: "'h mem_app \<Rightarrow> 'h mem_app \<Rightarrow> bool" where
  "app_moved a b \<longleftrightarrow> b\<lparr>host := host a, fa_mem := fa_mem a, requests := requests a\<rparr> = a"

named_theorems moved

lemma app_moved_refl [simp, moved]: "app_moved a a"
  unfolding app_moved_def by simp

lemma app_moved_trans: "app_moved a b \<Longrightarrow> app_moved b c \<Longrightarrow> app_moved a c"
proof -
  assume ab: "app_moved a b" and bc: "app_moved b c"
  let ?to = "\<lambda>x y. x\<lparr>host := host y, fa_mem := fa_mem y, requests := requests y\<rparr>"
  have "?to c a = ?to (?to c b) a" by simp
  also have "\<dots> = a" using ab bc unfolding app_moved_def by simp
  finally show ?thesis unfolding app_moved_def .
qed

lemma app_moved_steps [moved]:
  "app_moved a (a\<lparr>host := h\<rparr>)" "app_moved a (a\<lparr>fa_mem := m\<rparr>)" "app_moved a (a\<lparr>host := h, fa_mem := m\<rparr>)"
  "app_moved a (a\<lparr>fa_mem := m, host := h\<rparr>)"
  "app_moved a (a\<lparr>host := h, requests := r\<rparr>)" "app_moved a (a\<lparr>host := h, requests := r, fa_mem := m\<rparr>)"
  unfolding app_moved_def by simp_all

lemma host_calls_moved [moved]:
  "host_mmap env a n p f d off nap = (e, v, nap') \<Longrightarrow> app_moved nap nap'"
  "host_munmap env a n nap = (e, nap') \<Longrightarrow> app_moved nap nap'"
  "host_mprotect env a n p nap = (e, nap') \<Longrightarrow> app_moved nap nap'"
  "NaClMprotect env a n p nap = (e, nap') \<Longrightarrow> app_moved nap nap'"
  "desc_map env ndp a n p f off nap = (v, g, nap') \<Longrightarrow> app_moved nap nap'"
  "random32 lenv nap = (r, nap') \<Longrightarrow> app_moved nap nap'"
  "NaClMadvise lenv a n adv nap = (rc, nap') \<Longrightarrow> app_moved nap nap'"
  "fill_call a w nap = Inr (rc, nap') \<Longrightarrow> app_moved nap nap'"
  unfolding app_moved_def
  by (auto simp: host_mmap_def host_munmap_def host_mprotect_def NaClMprotect_def desc_map_def random32_def NaClMadvise_def
      fill_call_def Let_def split: prod.splits if_splits)

lemma unmap_moved [moved]: "NaClHostDescUnmapUnsafe env a n nap = Inr nap' \<Longrightarrow> app_moved nap nap'"
  by (auto simp: NaClHostDescUnmapUnsafe_def split: prod.splits if_splits dest: host_calls_moved)

section \<open>Loading segments\<close>

definition load_moved :: "'h load_state \<Rightarrow> 'h load_state \<Rightarrow> bool" where
  "load_moved s s' \<longleftrightarrow> app_moved (ld_nap s) (ld_nap s')
     \<and> s'\<lparr>ld_nap := ld_nap s, ld_main_exe_prevalidated := ld_main_exe_prevalidated s\<rparr> = s"

lemma load_moved_refl [simp]: "load_moved s s"
  by (simp add: load_moved_def)

lemma load_moved_nap: "app_moved (ld_nap s) nap \<Longrightarrow> load_moved s (s\<lparr>ld_nap := nap\<rparr>)"
  by (simp add: load_moved_def)

lemma load_moved_trans: "load_moved a b \<Longrightarrow> load_moved b c \<Longrightarrow> load_moved a c"
proof -
  assume ab: "load_moved a b" and bc: "load_moved b c"
  let ?to = "\<lambda>x y. x\<lparr>ld_nap := ld_nap y, ld_main_exe_prevalidated := ld_main_exe_prevalidated y\<rparr>"
  have "?to c a = ?to (?to c b) a" by simp
  also have "\<dots> = a" using ab bc unfolding load_moved_def by simp
  finally show ?thesis using ab bc app_moved_trans unfolding load_moved_def by blast
qed

lemma load_moved_upd: "load_moved s s' \<Longrightarrow> app_moved (ld_nap s') nap \<Longrightarrow> load_moved s (s'\<lparr>ld_nap := nap\<rparr>)"
  using load_moved_trans load_moved_nap by blast

lemma kind_moved:
  assumes "map_segment_kind env ndp flags off sz vaddr s = Inr (k, s')"
  shows "load_moved s s'"
proof -
  have *: "load_moved s (s\<lparr>ld_nap := nap, ld_main_exe_prevalidated := b\<rparr>)" if "app_moved (ld_nap s) nap" for nap b
    using that by (simp add: load_moved_def)
  show ?thesis
    using assms unfolding map_segment_kind_def Let_def
    by (auto split: if_splits prod.splits intro!: load_moved_nap * intro: app_moved_trans dest!: host_calls_moved(5) unmap_moved)
qed

lemma tail_moved: "map_segment_tail env ndp b off sz paddr nap = Inr (r, nap') \<Longrightarrow> app_moved nap nap'"
  by (auto simp: map_segment_tail_def Let_def split: if_splits prod.splits dest: host_calls_moved(8))

lemma pages_moved: "map_segment_pages env ndp prot off sz paddr nap = Inr nap' \<Longrightarrow> app_moved nap nap'"
  by (auto simp: map_segment_pages_def split: if_splits prod.splits
      dest!: host_calls_moved(5) intro: app_moved_trans app_moved_steps)

lemma file_moved:
  assumes "NaClElfFileMapSegment env ndp flags off sz vaddr paddr s = Inr (r, s')"
  shows "load_moved s s'"
proof -
  obtain k s1 where k: "map_segment_kind env ndp flags off sz vaddr s = Inr (k, s1)"
    using assms by (auto simp: NaClElfFileMapSegment_def)
  note m1 = kind_moved [OF k]
  show ?thesis
  proof (cases k)
    case (Inl status)
    then show ?thesis using assms k m1 by (simp add: NaClElfFileMapSegment_def)
  next
    case (Inr pb)
    obtain prot b where pb: "pb = (prot, b)" by (cases pb)
    obtain t nap2 where t: "map_segment_tail env ndp b off sz paddr (ld_nap s1) = Inr (t, nap2)"
      using assms k Inr pb by (auto simp: NaClElfFileMapSegment_def)
    note m2 = load_moved_upd [OF m1 tail_moved [OF t]]
    show ?thesis
    proof (cases t)
      case (Inl status)
      then show ?thesis using assms k \<open>k = Inr pb\<close> pb t m2 by (auto simp: NaClElfFileMapSegment_def)
    next
      case (Inr n)
      then obtain nap3 where "map_segment_pages env ndp prot off n paddr nap2 = Inr nap3" "s' = s1\<lparr>ld_nap := nap3\<rparr>"
        using assms k \<open>k = Inr pb\<close> pb t by (auto simp: NaClElfFileMapSegment_def)
      then show ?thesis using load_moved_upd [OF m1 app_moved_trans [OF tail_moved [OF t] pages_moved]] by blast
    qed
  qed
qed

lemma segment_moved:
  assumes "load_segment env ndp php s = Inr (r, s')"
  shows "load_moved s s'"
proof -
  define f where "f paddr off filesz = (if NaClDescIsSafeForMmap env ndp
       then NaClElfFileMapSegment env ndp (p_flags php) off filesz (NaClTruncAllocPage (ucast (p_vaddr php))) paddr s
       else Inr (LOAD_STATUS_UNKNOWN, s))" for paddr off filesz
  have f: "load_moved s s1" if "f paddr off filesz = Inr (st, s1)" for paddr off filesz st s1
    using that file_moved by (auto simp: f_def split: if_splits)
  show ?thesis
    using assms unfolding load_segment_def Let_def f_def [symmetric]
    by (auto split: if_splits prod.splits dest!: f host_calls_moved(8) intro: load_moved_upd)
qed

lemma segments_moved: "load_segments env ndp ps s = Inr (r, s') \<Longrightarrow> load_moved s s'"
proof (induction env ndp ps s rule: load_segments.induct)
  case (2 env ndp php ld ps s)
  show ?case
  proof (cases "\<not> ld \<or> 0 = p_filesz php")
    case True
    then show ?thesis using "2.IH"(1) "2.prems" by simp
  next
    case False
    then obtain st s1 where s1: "load_segment env ndp php s = Inr (st, s1)"
        and rest: "(if st \<noteq> LOAD_OK then Inr (st, s1) else load_segments env ndp ps s1) = Inr (r, s')"
      using "2.prems" by auto
    show ?thesis
    proof (cases "st = LOAD_OK")
      case True
      then have "load_moved s1 s'" using "2.IH"(2) [OF False, of st s1] rest by simp
      then show ?thesis using segment_moved [OF s1] load_moved_trans by blast
    qed (use rest segment_moved [OF s1] in simp)
  qed
qed simp

section \<open>The address space\<close>

text \<open>
  What the host promises of a mapping it places itself: it lies in the lower half of the address space.
\<close>

definition places_low :: "'h mem_env \<Rightarrow> bool" where
  "places_low env \<longleftrightarrow> (\<forall>a n p f d off h. fst (me_mmap env a n p f d off h) = 0
     \<longrightarrow> unat (fst (snd (me_mmap env a n p f d off h))) + unat n \<le> 2 ^ 47)"

lemma find_loop_ok:
  "find_address_loop env n tries fails nap = Inr (r, nap') \<Longrightarrow> places_low (le_mem env)
    \<Longrightarrow> app_moved nap nap' \<and> (\<forall>a. r = Some a \<longrightarrow> unat a + unat n \<le> 2 ^ 47)"
proof (induction "tries + fails" arbitrary: tries fails nap rule: less_induct)
  case less
  obtain hi nap1 where r1: "random32 env nap = (hi, nap1)" by (cases "random32 env nap")
  obtain lo nap2 where r2: "random32 env nap1 = (lo, nap2)" by (cases "random32 env nap1")
  define sug where "sug = (push_bit 32 (ucast hi) OR ucast lo) AND find_addr_mask"
  obtain e a nap3 where m: "host_mmap (le_mem env) sug n 0 (0x20 OR 0x4000 OR 2) (- 1) 0 nap2 = (e, a, nap3)"
    by (cases "host_mmap (le_mem env) sug n 0 (0x20 OR 0x4000 OR 2) (- 1) 0 nap2")
  have m3: "app_moved nap nap3"
    using host_calls_moved(6) [OF r1] host_calls_moved(6) [OF r2] host_calls_moved(1) [OF m] app_moved_trans by blast
  have low: "unat a + unat n \<le> 2 ^ 47" if "e = 0"
    using that m less.prems(2) unfolding places_low_def host_mmap_def
    by (auto simp: Let_def split: prod.splits if_splits) (metis fst_conv snd_conv)
  note body = less.prems(1) [unfolded find_address_loop.simps [of env n tries fails nap] r1 r2 Let_def prod.case sug_def [symmetric] m]
  consider "e \<noteq> 0" "1 < fails" | "e \<noteq> 0" "\<not> 1 < fails" | "e = 0" "find_addr_mask AND a = sug \<or> tries = 0"
    | "e = 0" "find_addr_mask AND a \<noteq> sug" "tries \<noteq> 0" by blast
  then show ?case
  proof cases
    case 1
    then have "find_address_loop env n tries (fails - 1) nap3 = Inr (r, nap')" using body by simp
    from less.hyps [OF _ this less.prems(2)] show ?thesis using 1 m3 app_moved_trans by auto
  next
    case 2
    then show ?thesis using body m3 by auto
  next
    case 3
    then show ?thesis using body m3 low by (auto split: if_splits)
  next
    case 4
    obtain e2 nap4 where u: "host_munmap (le_mem env) a n nap3 = (e2, nap4)" by (cases "host_munmap (le_mem env) a n nap3")
    have m4: "app_moved nap nap4" using host_calls_moved(2) [OF u] m3 app_moved_trans by blast
    have "find_address_loop env n (tries - 1) fails nap4 = Inr (r, nap')" using body 4 u by (auto split: if_splits)
    from less.hyps [OF _ this less.prems(2)] show ?thesis using 4(3) m4 app_moved_trans by auto
  qed
qed

lemma randomized_ok:
  assumes "NaClFindAddressSpaceRandomized env n tries nap = Inr (r, nap')" "places_low (le_mem env)"
  shows "app_moved nap nap' \<and> (\<forall>a. r = Some a \<longrightarrow> unat a + unat n \<le> 2 ^ 47)"
proof -
  have "find_address_loop env n (nat tries) NACL_VALGRIND_MAP_FAILED_COUNT nap = Inr (r, nap')"
    using assms(1) by (auto simp: NaClFindAddressSpaceRandomized_def split: if_splits)
  from find_loop_ok [OF this assms(2)] show ?thesis .
qed

lemma unmap_or_die_moved: "unmap_or_die env a n nap = Inr nap' \<Longrightarrow> app_moved nap nap'"
  by (auto simp: unmap_or_die_def split: if_splits prod.splits dest: host_calls_moved(2))

lemma round_4g:
  assumes "unat (u :: u64) + 2 ^ 32 \<le> 2 ^ 47"
  shows "unat ((u + (push_bit 32 1 - 1)) AND NOT (push_bit 32 1 - 1)) = nat_round_up 32 (unat u)"
proof -
  have "(push_bit 32 1 - 1 :: u64) = mask 32" "(push_bit 32 1 - 1 :: u64) = 2 ^ 32 - 1" by (simp_all add: mask_eq_decr_exp)
  then show ?thesis using unat_round_up [of u 32] assms by simp
qed

text \<open>The aligned part of the space, and where it lies in what the host has given.\<close>

lemma aligned_ok:
  assumes res: "NaClAllocatePow2AlignedMemory env sz 32 aslr nap = Inr (a, nap')" and low: "places_low (le_mem env)"
    and sz: "unat sz + 2 ^ 32 < 2 ^ 47"
  shows "app_moved nap nap' \<and> 2 ^ 32 dvd unat a \<and> unat a + unat sz \<le> 2 ^ 47"
proof -
  have req: "unat (sz + push_bit 32 1) = unat sz + 2 ^ 32" using sz by (subst unat_add_nowrap) simp_all
  let ?find = "if aslr then NaClFindAddressSpaceRandomized env (sz + push_bit 32 1) MAX_ADDRESS_RANDOMIZATION_ATTEMPTS nap
     else NaClFindAddressSpace env (sz + push_bit 32 1) nap"
  obtain found nap1 where f1: "?find = Inr (found, nap1)"
    using res unfolding NaClAllocatePow2AlignedMemory_def Let_def by (cases ?find) auto
  obtain u where found: "found = Some u"
    using res f1 unfolding NaClAllocatePow2AlignedMemory_def Let_def by (cases found) auto
  note f = f1 [unfolded found]
  define up where "up = (u + (push_bit 32 1 - 1)) AND NOT (push_bit 32 1 - 1)"
  obtain nap2 where n2: "unmap_or_die env u (up - u) nap1 = Inr nap2" "unmap_or_die env (up + sz) (push_bit 32 1 - (up - u)) nap2 = Inr nap'"
      and a: "a = up"
    using res unfolding NaClAllocatePow2AlignedMemory_def Let_def f1 found by (auto simp: up_def)
  have u: "app_moved nap nap1" "unat u + (unat sz + 2 ^ 32) \<le> 2 ^ 47"
  proof -
    obtain tries where "NaClFindAddressSpaceRandomized env (sz + push_bit 32 1) tries nap = Inr (Some u, nap1)"
      using f unfolding NaClFindAddressSpace_def by (auto split: if_splits)
    from randomized_ok [OF this low] show "app_moved nap nap1" "unat u + (unat sz + 2 ^ 32) \<le> 2 ^ 47" using req by auto
  qed
  have m: "app_moved nap nap'" using n2 u(1) unmap_or_die_moved app_moved_trans by blast
  have "unat u + 2 ^ 32 \<le> 2 ^ 47" using u(2) by linarith
  from round_4g [OF this] have a1: "unat a = nat_round_up 32 (unat u)" by (simp only: a up_def)
  then show ?thesis using m u(2) nat_round_up_dvd [of 32 "unat u"] nat_round_up_less [of 32 "unat u"] by simp
qed

definition space_at :: "u64 \<Rightarrow> bool" where
  "space_at mem \<longleftrightarrow> 2 ^ 32 dvd unat mem \<and> 40 * 2 ^ 30 \<le> unat mem \<and> unat mem + 2 ^ 32 + 40 * 2 ^ 30 \<le> 2 ^ 47"

lemma space_alloc_ok:
  assumes res: "NaClAllocateSpaceAslr env n aslr nap = Inr (r, nap')" and low: "places_low (le_mem env)"
  shows "app_moved nap nap' \<and> (\<forall>mem. r = Inr mem \<longrightarrow> n = FOURGIG \<and> space_at mem)"
proof -
  let ?sz = "NACL_ADDRSPACE_LOWER_GUARD_SIZE + FOURGIG + NACL_ADDRSPACE_UPPER_GUARD_SIZE"
  have sz: "unat ?sz = 84 * 2 ^ 30"
    by (simp add: NACL_ADDRSPACE_LOWER_GUARD_SIZE_def NACL_ADDRSPACE_UPPER_GUARD_SIZE_def FOURGIG_def)
  obtain a nap1 where a: "NaClAllocatePow2AlignedMemory env ?sz 32 aslr nap = Inr (a, nap1)" "n = FOURGIG"
      and r: "nap' = nap1" "r = (if 0 = a then Inl LOAD_NO_MEMORY_FOR_ADDRESS_SPACE else Inr (a + NACL_ADDRSPACE_LOWER_GUARD_SIZE))"
    using res by (auto simp: NaClAllocateSpaceAslr_def Let_def ALIGN_BITS_def split: if_splits)
  have ok: "app_moved nap nap1 \<and> 2 ^ 32 dvd unat a \<and> unat a + unat ?sz \<le> 2 ^ 47" by (rule aligned_ok [OF a(1) low]) (simp add: sz)
  have u: "unat (a + NACL_ADDRSPACE_LOWER_GUARD_SIZE) = unat a + 40 * 2 ^ 30"
    using ok sz by (subst unat_add_nowrap) (simp_all add: NACL_ADDRSPACE_LOWER_GUARD_SIZE_def)
  have "(2 :: nat) ^ 32 dvd 40 * 2 ^ 30" by (simp add: dvd_def)
  then have "2 ^ 32 dvd unat (a + NACL_ADDRSPACE_LOWER_GUARD_SIZE)" unfolding u using ok by (intro dvd_add) simp_all
  then show ?thesis using ok sz u a(2) r by (auto simp: space_at_def)
qed

lemma alloc_space_ok:
  assumes res: "NaClAllocAddrSpaceAslr env aslr s = Inr (r, s')" and low: "places_low (le_mem env)" and ok: "r = LOAD_OK"
  shows "\<exists>mem. space_at mem \<and> addr_limit (ld_nap s) = FOURGIG \<and> s' = s\<lparr>ld_nap := ld_nap s'\<rparr>
    \<and> app_moved ((ld_nap s)\<lparr>mem_start := mem\<rparr>) (ld_nap s')"
proof -
  have mv: "app_moved (a\<lparr>mem_start := m\<rparr>) (b\<lparr>mem_start := m\<rparr>)" if "app_moved a b" for a b :: "'a mem_app" and m
    using that by (cases a, cases b, simp add: app_moved_def)
  obtain rv nap1 where a: "NaClAllocateSpaceAslr env (addr_limit (ld_nap s)) aslr (ld_nap s) = Inr (rv, nap1)"
    using res by (auto simp: NaClAllocAddrSpaceAslr_def)
  note al = space_alloc_ok [OF a low]
  have not: "LOAD_DATA_OVERLAPS_STACK_SECTION \<noteq> LOAD_OK" "LOAD_MADVISE_FAIL \<noteq> LOAD_OK" "LOAD_MPROTECT_FAIL \<noteq> LOAD_OK"
    "LOAD_NO_MEMORY_FOR_ADDRESS_SPACE \<noteq> LOAD_OK"
    by (simp_all add: load_codes LOAD_DATA_OVERLAPS_STACK_SECTION_def LOAD_MADVISE_FAIL_def LOAD_MPROTECT_FAIL_def
        LOAD_NO_MEMORY_FOR_ADDRESS_SPACE_def)
  have "rv \<noteq> Inl LOAD_OK"
    using a not(4) by (auto simp: NaClAllocateSpaceAslr_def Let_def split: if_splits)
  then obtain mem where mem: "rv = Inr mem"
    using res a ok by (cases rv) (auto simp: NaClAllocAddrSpaceAslr_def)
  let ?nap2 = "nap1\<lparr>mem_start := mem\<rparr>"
  have n2: "app_moved ((ld_nap s)\<lparr>mem_start := mem\<rparr>) ?nap2" using mv al by blast
  have "s' = s\<lparr>ld_nap := ld_nap s'\<rparr> \<and> app_moved ?nap2 (ld_nap s')"
    using res ok not unfolding NaClAllocAddrSpaceAslr_def a mem Let_def
    by (auto split: if_splits prod.splits dest!: host_calls_moved(4,7) intro: app_moved_trans)
  then show ?thesis using al mem n2 app_moved_trans by blast
qed

section \<open>The last steps\<close>

lemma validate_moved: "NaClValidateImage env nap = Inr (r, nap') \<Longrightarrow> app_moved nap nap'"
  by (auto simp: NaClValidateImage_def Let_def split: if_splits prod.splits intro: app_moved_steps)

lemma page_alloc_moved: "NaClPageAllocInternalFlags env p n f nap = (r, nap') \<Longrightarrow> app_moved nap nap'"
  by (auto simp: NaClPageAllocInternalFlags_def split: if_splits prod.splits dest: host_calls_moved(1))

lemma tries_moved: "page_alloc_tries env n k nap = (r, nap') \<Longrightarrow> app_moved nap nap'"
proof (induction k arbitrary: nap)
  case (Suc k)
  obtain a nap1 where r1: "random32 env nap = (a, nap1)" by (cases "random32 env nap")
  obtain e p nap2 where f: "NaClPageAllocInternalFlags env (push_bit NACL_MAP_PAGESHIFT (ucast a) AND (push_bit 47 1 - 1)) n 0 nap1
      = ((e, p), nap2)" by (metis prod.collapse)
  have m: "app_moved nap nap2" using host_calls_moved(6) [OF r1] page_alloc_moved [OF f] app_moved_trans by blast
  show ?case
  proof (cases "e = 0")
    case False
    then have "page_alloc_tries env n k nap2 = (r, nap')" using Suc.prems r1 f by simp
    from Suc.IH [OF this] show ?thesis using m app_moved_trans by blast
  qed (use Suc.prems r1 f m in simp)
qed (auto dest: page_alloc_moved)

lemma page_free_moved: "NaClPageFree env p n nap = Inr nap' \<Longrightarrow> app_moved nap nap'"
  by (auto simp: NaClPageFree_def split: if_splits prod.splits dest: host_calls_moved(2))

text \<open>The fields that the dispatch page sets are the loader's own.\<close>

definition tramp_moved :: "'h load_state \<Rightarrow> 'h load_state \<Rightarrow> bool" where
  "tramp_moved s s' \<longleftrightarrow> app_moved (ld_nap s) (ld_nap s')
     \<and> s'\<lparr>ld_nap := ld_nap s, ld_nacl_syscall_addr := ld_nacl_syscall_addr s, ld_tls_fast_path1_addr := ld_tls_fast_path1_addr s,
          ld_tls_fast_path2_addr := ld_tls_fast_path2_addr s\<rparr> = s"

lemma dispatch_moved:
  assumes "NaClMakeDispatchAddrs env s = Inr (r, s')"
  shows "tramp_moved s s'"
proof (cases "ld_nacl_syscall_addr s = 0")
  case True
  obtain e p nap1 where a: "NaClPageAllocRandomized env NACL_MAP_PAGESIZE (ld_nap s) = ((e, p), nap1)" by (metis prod.collapse)
  have m1: "app_moved (ld_nap s) nap1" using tries_moved a unfolding NaClPageAllocRandomized_def by blast
  have fail: "tramp_moved s (s\<lparr>ld_nap := nap''\<rparr>)" if "app_moved (ld_nap s) nap'" "NaClPageFree env p NACL_MAP_PAGESIZE nap' = Inr nap''" for nap' nap''
    using app_moved_trans [OF that(1) page_free_moved [OF that(2)]] by (simp add: tramp_moved_def)
  have fin: "tramp_moved s (s\<lparr>ld_nap := nap', ld_nacl_syscall_addr := x, ld_tls_fast_path1_addr := y, ld_tls_fast_path2_addr := z\<rparr>)"
    if "app_moved (ld_nap s) nap'" for nap' x y z using that by (simp add: tramp_moved_def)
  obtain e2 nap2 where b: "NaClMprotect (le_mem env) p NACL_MAP_PAGESIZE (1 OR 2) nap1 = (e2, nap2)"
    by (cases "NaClMprotect (le_mem env) p NACL_MAP_PAGESIZE (1 OR 2) nap1")
  have m2: "app_moved (ld_nap s) nap2" using app_moved_trans [OF m1 host_calls_moved(4) [OF b]] .
  define m where "m = store_mem (p + 8 + 8) 8 (le_NaClGetTlsFastPath2 env)
    (store_mem (p + 8) 8 (le_NaClGetTlsFastPath1 env) (store_mem p 8 (le_NaClSyscallSeg env) (fa_mem nap2)))"
  obtain e3 nap3 where c: "NaClMprotect (le_mem env) p NACL_MAP_PAGESIZE 1 (nap2\<lparr>fa_mem := m\<rparr>) = (e3, nap3)"
    by (cases "NaClMprotect (le_mem env) p NACL_MAP_PAGESIZE 1 (nap2\<lparr>fa_mem := m\<rparr>)")
  have m3: "app_moved (ld_nap s) nap3"
    using app_moved_trans [OF app_moved_trans [OF m2 app_moved_steps(2)] host_calls_moved(4) [OF c]] .
  note run = assms [unfolded NaClMakeDispatchAddrs_def a b AddDispatchAddr_def Let_def prod.case m_def [symmetric] c]
  consider "e \<noteq> 0" | "e = 0" "e2 \<noteq> 0" | "e = 0" "e2 = 0" "e3 \<noteq> 0" | "e = 0" "e2 = 0" "e3 = 0" by blast
  then show ?thesis
  proof cases
    case 1
    then show ?thesis using run True fail [OF m1] by auto
  next
    case 2
    then show ?thesis using run True fail [OF m2] by auto
  next
    case 3
    then show ?thesis using run True fail [OF m3] by auto
  next
    case 4
    then show ?thesis using run True fin [OF m3] by auto
  qed
next
  case False
  then show ?thesis using assms by (simp add: NaClMakeDispatchAddrs_def tramp_moved_def)
qed

lemma trampoline_moved:
  assumes "NaClLoadTrampoline env s = Inr s'"
  shows "tramp_moved s s'"
proof -
  obtain s1 m where s1: "NaClMakeDispatchAddrs env s = Inr (True, s1)" and s': "s' = s1\<lparr>ld_nap := (ld_nap s1)\<lparr>fa_mem := m\<rparr>\<rparr>"
    using assms by (auto simp: NaClLoadTrampoline_def Let_def split: if_splits)
  show ?thesis using dispatch_moved [OF s1] app_moved_trans [OF _ app_moved_steps(2)] unfolding tramp_moved_def s' by auto
qed

section \<open>The layout\<close>

lemma load_headers_ok:
  assumes "load_headers env ndp s = Inr (Inr (img', info), s1)"
  obtains img h where
    "NaClElfImageNew (le_memory env) (\<lambda>n off h. vPRead (me_vt (le_mem env)) ndp n off h) (host (ld_nap s)) = Inr (Inr img, h)"
    "NaClElfImageValidateProgramHeaders img (addr_bits (ld_nap s)) = Inr (img', info)" "s1 = s\<lparr>ld_nap := (ld_nap s)\<lparr>host := h\<rparr>\<rparr>"
proof -
  obtain res h where n: "NaClElfImageNew (le_memory env) (\<lambda>n off h. vPRead (me_vt (le_mem env)) ndp n off h) (host (ld_nap s)) = Inr (res, h)"
    using assms by (auto simp: load_headers_def Let_def)
  obtain img where img: "res = Inr img" using assms n by (cases res) (auto simp: load_headers_def Let_def)
  show thesis
  proof (cases "NaClElfImageValidateProgramHeaders img (addr_bits (ld_nap s))")
    case (Inl e)
    then show thesis using assms n img by (simp add: load_headers_def Let_def)
  next
    case (Inr r)
    then show thesis using assms n img that by (cases r) (auto simp: load_headers_def Let_def split: if_splits)
  qed
qed

text \<open>No segment ends at the top of the 32-bit space, where the sums of the checks wrap.\<close>

definition ends_below_top :: "elf_image \<Rightarrow> bool" where
  "ends_below_top img \<longleftrightarrow> (\<forall>p \<in> set (phdrs img). unat (p_vaddr p) + unat (p_memsz p) < 2 ^ 32)"

definition laid_out :: "'h load_state \<Rightarrow> bool" where
  "laid_out s \<longleftrightarrow>
     (let nap = ld_nap s; t = unat (static_text_end nap); r = unat (ld_rodata_start s); d = unat (ld_data_start s); e = unat (data_end nap)
      in 0x20000 \<le> t \<and> t < 2 ^ 32 \<and> break_addr nap = data_end nap \<and> (r \<noteq> 0 \<or> d \<noteq> 0 \<longrightarrow> e \<le> 2 ^ 32)
         \<and> (r \<noteq> 0 \<longrightarrow> nat_round_up 16 t \<le> r \<and> 65536 dvd r \<and> r < e \<and> (d \<noteq> 0 \<longrightarrow> r < nat_round_down 16 d))
         \<and> (d \<noteq> 0 \<longrightarrow> nat_round_up 16 t \<le> nat_round_down 16 d \<and> d < e))"

lemma seg_sum:
  fixes p :: elf_phdr
  assumes "unat (p_vaddr p) + unat (p_memsz p) < 2 ^ 32" "segment_fits bits p"
  shows "seg_end p mod 2 ^ 32 = unat (p_vaddr p) + unat (p_memsz p)" "unat (p_vaddr p) < seg_end p mod 2 ^ 32"
    "unat (p_vaddr p + p_filesz p) = unat (p_vaddr p) + unat (p_filesz p)"
  using assms by (simp_all add: seg_end_def unat_add_nowrap segment_fits_def)

lemma loaded_subset: "p \<in> set (loaded_segments ps lds) \<Longrightarrow> p \<in> set ps"
  by (auto simp: loaded_segments_def dest: set_zip_leftD)

lemma layout_ok:
  assumes ok: "NaClElfImageValidateProgramHeaders img bits = Inr (img', info)" "unat bits \<le> 32" and top: "ends_below_top img"
    and s: "static_text_end (ld_nap s) = info_static_text_end info" "ld_rodata_start s = info_rodata_start info"
      "ld_data_start s = info_data_start info" "data_end (ld_nap s) = layout_end info" "break_addr (ld_nap s) = layout_end info"
    and sane: "NaClCheckAddressSpaceLayoutSanity s (info_rodata_end info) (info_data_end info) (layout_end info) = LOAD_OK"
  shows "laid_out s"
proof -
  let ?segs = "loaded_segments (phdrs img) (loadable img')"
  let ?r = "info_rodata_start info" and ?re = "info_rodata_end info" and ?d = "info_data_start info" and ?de = "info_data_end info"
    and ?t = "info_static_text_end info" and ?e = "layout_end info"
  have seg: "segment_fits bits p" "unat (p_vaddr p) + unat (p_memsz p) < 2 ^ 32" if "p \<in> set ?segs" for p
    using headers_ok(3) [OF ok] loaded_subset [OF that] that top by (auto simp: ends_below_top_def)
  note N = headers_notes [OF ok, unfolded notes_of_def]
  obtain x where x: "x \<in> set ?segs" "p_vaddr x = NACL_TRAMPOLINE_END" "unat ?t = (unat NACL_TRAMPOLINE_END + unat (p_filesz x)) mod 2 ^ 32" using N by blast
  have "unat (p_vaddr x + p_filesz x) = unat (p_vaddr x) + unat (p_filesz x)" using seg_sum(3) seg x(1) by blast
  then have t: "0x20000 \<le> unat ?t" "unat ?t < 2 ^ 32"
    using x(2,3) unsigned_less [of "p_vaddr x + p_filesz x", where 'a = nat] by (simp_all add: NACL_TRAMPOLINE_END_def)
  have r: "?r = 0 \<and> ?re = 0 \<or> unat ?r < unat ?re \<and> unat ?re < 2 ^ 32"
  proof (cases "\<exists>r \<in> set ?segs. segment_kind r = (PT_LOAD, PF_R)")
    case True
    then obtain q where q: "q \<in> set ?segs" "unat ?r = unat (p_vaddr q)" "unat ?re = seg_end q mod 2 ^ 32" using N by (auto split: if_splits)
    then show ?thesis using seg_sum(1,2) [OF seg(2,1)] seg(2) by simp
  qed (use N in \<open>auto split: if_splits\<close>)
  have d: "?d = 0 \<and> ?de = 0 \<or> unat ?d < unat ?de \<and> unat ?de < 2 ^ 32"
  proof (cases "\<exists>r \<in> set ?segs. segment_kind r = (PT_LOAD, PF_R OR PF_W)")
    case True
    then obtain q where q: "q \<in> set ?segs" "unat ?d = unat (p_vaddr q)" "unat ?de = seg_end q mod 2 ^ 32" using N by (auto split: if_splits)
    then show ?thesis using seg_sum(1,2) [OF seg(2,1)] seg(2) by simp
  qed (use N in \<open>auto split: if_splits\<close>)
  have checks: "?d \<noteq> 0 \<longrightarrow> ?de = ?e" "?d = 0 \<and> ?r \<noteq> 0 \<longrightarrow> NaClRoundAllocPage ?re = ?e"
    "?r \<noteq> 0 \<and> ?d \<noteq> 0 \<longrightarrow> ?re \<le> NaClTruncAllocPage ?d" "?r \<noteq> 0 \<longrightarrow> NaClRoundAllocPage ?t \<le> ?r"
    "?r = 0 \<and> ?d \<noteq> 0 \<longrightarrow> NaClRoundAllocPage ?t \<le> NaClTruncAllocPage ?d" "?r \<noteq> 0 \<longrightarrow> NaClRoundAllocPage ?r = ?r"
    using sane unfolding NaClCheckAddressSpaceLayoutSanity_def Let_def s
    by (auto simp: load_codes LOAD_DATA_NOT_LAST_SEGMENT_def LOAD_NO_DATA_BUT_RODATA_NOT_LAST_SEGMENT_def LOAD_RODATA_OVERLAPS_DATA_def
        LOAD_TEXT_OVERLAPS_RODATA_def LOAD_TEXT_OVERLAPS_DATA_def LOAD_BAD_RODATA_ALIGNMENT_def not_less split: if_splits)
  have up: "unat (NaClRoundAllocPage w) = nat_round_up 16 (unat w)" if "unat w < 2 ^ 32" for w
    using unat_NaClRoundAllocPage [of w] that by simp
  show ?thesis
  proof -
    let ?R = "unat ?r" and ?RE = "unat ?re" and ?D = "unat ?d" and ?E = "unat ?e" and ?T = "unat ?t"
    have R: "?R = 0 \<or> ?R < ?RE \<and> ?RE < 2 ^ 32" and D: "?D = 0 \<or> ?D < unat ?de \<and> unat ?de < 2 ^ 32" using r d by auto
    have rw: "?R < 2 ^ 32" using R by auto
    have c1: "?D \<noteq> 0 \<longrightarrow> unat ?de = ?E" using checks(1) by auto
    have c2: "?D = 0 \<and> ?R \<noteq> 0 \<longrightarrow> ?E = nat_round_up 16 ?RE" using checks(2) R up [of ?re] by (auto simp: word_eq_unat)
    have c3: "?R \<noteq> 0 \<and> ?D \<noteq> 0 \<longrightarrow> ?RE \<le> nat_round_down 16 ?D" using checks(3) by (auto simp: word_le_unat unat_NaClTruncAllocPage)
    have c4: "?R \<noteq> 0 \<longrightarrow> nat_round_up 16 ?T \<le> ?R" using checks(4) up [OF t(2)] by (auto simp: word_le_unat)
    have c5: "?R = 0 \<and> ?D \<noteq> 0 \<longrightarrow> nat_round_up 16 ?T \<le> nat_round_down 16 ?D"
      using checks(5) up [OF t(2)] by (auto simp: word_le_unat word_eq_unat unat_NaClTruncAllocPage)
    have c6: "?R \<noteq> 0 \<longrightarrow> 65536 dvd ?R"
      using checks(6) up [OF rw] nat_round_up_dvd [of 16 ?R] by (auto simp: word_eq_unat)
    have e1: "?D = 0 \<and> ?R \<noteq> 0 \<longrightarrow> ?E \<le> 2 ^ 32 \<and> ?RE \<le> ?E"
      using c2 R nat_round_up_ge [of ?RE 16] nat_round_up_le [of 16 "2 ^ 32" ?RE] by auto
    have dd: "nat_round_down 16 ?D \<le> ?D" by (rule nat_round_down_le)
    have f1: "?E \<le> 2 ^ 32" if "?R \<noteq> 0 \<or> ?D \<noteq> 0"
    proof (cases "?D = 0")
      case True
      then show ?thesis using e1 that by blast
    next
      case False
      then have "?E < 2 ^ 32" using D c1 by metis
      then show ?thesis by (rule less_imp_le)
    qed
    have f2: "?D < ?E" if "?D \<noteq> 0" using D c1 that by metis
    have f3: "?R < nat_round_down 16 ?D" if "?R \<noteq> 0" "?D \<noteq> 0" using R c3 that less_le_trans by blast
    have f4: "?R < ?E" if "?R \<noteq> 0"
    proof (cases "?D = 0")
      case True
      then show ?thesis using e1 R that less_le_trans by blast
    next
      case False
      then show ?thesis using f3 [OF that False] dd f2 [OF False] by linarith
    qed
    have f5: "nat_round_up 16 ?T \<le> nat_round_down 16 ?D" if "?D \<noteq> 0"
    proof (cases "?R = 0")
      case False
      then show ?thesis using c4 f3 [OF False that] by linarith
    qed (use c5 that in blast)
    show ?thesis unfolding laid_out_def Let_def s using t f1 f2 f3 f4 f5 c4 c6 by blast
  qed
qed

end
