(* ===== verification/LoadMap.thy ===== *)
theory LoadMap
  imports LoadFrames SysContract
begin

text \<open>
  The memory map that the loader builds: the regions are entered in the order of their addresses, so no two of them
  meet, and in the end the invariant of the system calls holds.
\<close>

section \<open>Entering a region\<close>

definition map_counted :: "(nat \<Rightarrow> nat) \<Rightarrow> u32 multiset \<Rightarrow> u32 multiset \<Rightarrow> 'h mem_app \<Rightarrow> bool" where
  "map_counted E S F nap \<longleftrightarrow> fd_inv (\<lambda>n. map_refs (mem_map nap) n + E n) S F nap \<and> vm_wf (mem_map nap)"

definition map_only :: "'h mem_app \<Rightarrow> 'h mem_app \<Rightarrow> bool" where
  "map_only a b \<longleftrightarrow> b\<lparr>mem_map := mem_map a, nd_refs := nd_refs a, host := host a, requests := requests a\<rparr> = a"

lemma map_only_refl [simp]: "map_only a a"
  by (simp add: map_only_def)

lemma map_only_trans: "map_only a b \<Longrightarrow> map_only b c \<Longrightarrow> map_only a c"
proof -
  assume ab: "map_only a b" and bc: "map_only b c"
  let ?to = "\<lambda>x y. x\<lparr>mem_map := mem_map y, nd_refs := nd_refs y, host := host y, requests := requests y\<rparr>"
  have "?to c a = ?to (?to c b) a" by simp
  also have "\<dots> = a" using ab bc unfolding map_only_def by simp
  finally show ?thesis unfolding map_only_def .
qed

lemma map_only_fields:
  assumes "map_only a b"
  shows "addr_bits b = addr_bits a" "mem_start b = mem_start a" "bundle_size b = bundle_size a" "static_text_end b = static_text_end a"
    "dynamic_text_start b = dynamic_text_start a" "dynamic_text_end b = dynamic_text_end a" "dyn_regs b = dyn_regs a"
    "mapcache_size b = mapcache_size a" "data_end b = data_end a" "break_addr b = break_addr a" "desc_tbl b = desc_tbl a"
    "mem_io_regions b = mem_io_regions a" "fa_mem b = fa_mem a" "text_shm b = text_shm a"
  using assms by (cases a, cases b, simp add: map_only_def)+

lemma map_only_store: "map_only nap (store_counts env m nap)"
  by (simp add: map_only_def store_counts_def)

lemma map_only_mprotect: "NaClMprotect env a n p nap = (e, nap') \<Longrightarrow> map_only nap nap' \<and> mem_map nap' = mem_map nap \<and> nd_refs nap' = nd_refs nap"
  by (auto simp: NaClMprotect_def host_mprotect_def map_only_def split: prod.splits if_splits)

definition mapped_below :: "nat \<Rightarrow> vmmap \<Rightarrow> bool" where
  "mapped_below b m \<longleftrightarrow> (\<forall>p. vm_map m p \<noteq> None \<longrightarrow> p < b)"

lemma infos_single: "infos [e] p = (if covers p e then {# page_at p e #} else {#})"
  by (simp add: infos_Cons)

lemma VmmapAdd_ok:
  fixes prot flags :: u32 and d :: "nat option" and off fs :: u64
  assumes wf: "vm_wf m" and r: "range_in_space P n" and b: "mapped_below b m" "b \<le> unat P"
  defines "m' \<equiv> NaClVmmapAdd m P n prot flags d off fs"
  shows "vm_wf m'" "mapped_below (unat P + unat n) m'" "balanced m m'"
    "vm_map m' p = (if p \<in> pages_of P n then Some (new_page P prot flags d off fs p) else vm_map m p)"
proof -
  let ?e = "NaClVmmapEntryMake P n prot flags d off fs"
  have m': "vmentry m' = vmentry m @ [?e]" "vmentry m' = vmentry (foldl vmmap_push m [?e])" "vm_size m' = vm_size (foldl vmmap_push m [?e])"
    "is_sorted m' = is_sorted (foldl vmmap_push m [?e])" "desc_refs m' = desc_refs (foldl vmmap_push m [?e])"
    using foldl_push(1) [of m "[?e]"] by (simp_all add: m'_def NaClVmmapAdd_def)
  note e = make_entry [OF r, where prot = prot and flags = flags and desc = d and offset = off and file_size = fs]
  have free: "infos (vmentry m) q = {#}" if "q \<in> pages_of P n" for q
    using that b by (auto simp: mapped_below_def pages_of_def simp flip: vm_lookup_None_iff)
  have inf: "infos (vmentry m') q = (if q \<in> pages_of P n then {# new_page P prot flags d off fs q #} else infos (vmentry m) q)" for q
    using free by (simp add: m'(1) infos_single e)
  have one: "size (infos (vmentry m') q) \<le> 1" for q using inf vm_wfD(5) [OF wf] by simp
  have look: "vm_map m' q = (if q \<in> pages_of P n then Some (new_page P prot flags d off fs q) else vm_map m q)" for q
    using inf [of q] vm_lookup_eq [OF vm_wfD(5) [OF wf, of q], of "vmentry m'"] by (auto intro: vm_lookup_single)
  have sz: "length (vmentry m') \<le> vm_size m' \<and> 0 < vm_size m'"
    using foldl_push_size [OF vm_wfD(3,4) [OF wf], of "[?e]"] m'(1,3) by simp
  have "list_all entry_live (vmentry m')" using wf e(1) by (simp add: m'(1) vm_wf_def entries_wf_def)
  then show "vm_wf m'" using sz one foldl_push(2) [of m "[?e]"] m'(4) by (simp add: vm_wf_def entries_wf_def)
  show "mapped_below (unat P + unat n) m'"
    unfolding mapped_below_def
  proof (intro allI impI)
    fix q assume q: "vm_map m' q \<noteq> None"
    show "q < unat P + unat n"
    proof (cases "q \<in> pages_of P n")
      case False
      then have "q < b" using q look [of q] b(1) by (simp add: mapped_below_def)
      then show ?thesis using b(2) by linarith
    qed (simp add: pages_of_def)
  qed
  show "balanced m m'" using foldl_push(3) [of m "[?e]"] m'(1,5) by (simp add: balanced_def held_def)
  show "vm_map m' p = (if p \<in> pages_of P n then Some (new_page P prot flags d off fs p) else vm_map m p)" by (rule look)
qed

lemma add_region_ok:
  assumes inv: "map_counted E S F nap" and r: "range_in_space P n" and b: "mapped_below b (mem_map nap)" "b \<le> unat P"
    and res: "add_region env P n prot d fs nap = Inr nap'"
  shows "map_counted E S F nap'" "mapped_below (unat P + unat n) (mem_map nap')" "map_only nap nap'"
    "vm_map (mem_map nap') p = (if p \<in> pages_of P n then Some (new_page P prot NACL_ABI_MAP_PRIVATE d 0 fs p) else vm_map (mem_map nap) p)"
proof -
  let ?m = "(mem_map nap)\<lparr>desc_refs := ref_counts nap\<rparr>" and ?f = "\<lambda>m. Inr ((), NaClVmmapAdd m P n prot NACL_ABI_MAP_PRIVATE d 0 fs)"
  let ?m' = "NaClVmmapAdd ?m P n prot NACL_ABI_MAP_PRIVATE d 0 fs"
  have fd: "fd_inv (\<lambda>n. map_refs (mem_map nap) n + E n) S F nap" and wf: "vm_wf ?m" using inv by (simp_all add: map_counted_def)
  have below: "mapped_below b ?m" using b(1) by (simp add: mapped_below_def)
  note ok = VmmapAdd_ok [OF wf r below b(2), of prot NACL_ABI_MAP_PRIVATE d 0 fs]
  have "with_map env ?f nap = Inl Log_fatal \<or> with_map env ?f nap = Inr ((), store_counts env ?m' nap)
      \<and> fd_inv (\<lambda>n. map_refs ?m' n + E n) S F (store_counts env ?m' nap)"
    by (rule with_map_ok [OF fd _ ok(3)]) simp
  then have nap': "nap' = store_counts env ?m' nap" "fd_inv (\<lambda>n. map_refs ?m' n + E n) S F nap'"
    using res by (auto simp: add_region_def)
  have mm: "mem_map nap' = ?m'" by (simp add: nap'(1))
  show "map_counted E S F nap'" using ok(1) nap'(2) unfolding map_counted_def mm by simp
  show "mapped_below (unat P + unat n) (mem_map nap')" unfolding mm by (rule ok(2))
  show "map_only nap nap'" unfolding nap'(1) by (rule map_only_store)
  show "vm_map (mem_map nap') p = (if p \<in> pages_of P n then Some (new_page P prot NACL_ABI_MAP_PRIVATE d 0 fs p) else vm_map (mem_map nap) p)"
    unfolding mm using ok(4) [of p] by simp
qed

lemma counted_host: "map_only a b \<Longrightarrow> mem_map b = mem_map a \<Longrightarrow> nd_refs b = nd_refs a \<Longrightarrow> map_counted E S F b = map_counted E S F a"
  using map_only_fields [of a b] by (simp add: map_counted_def fd_inv_def space_ok_def)

text \<open>Executable pages are pages of the text, and not writable.\<close>

definition exec_in_text :: "'h mem_app \<Rightarrow> bool" where
  "exec_in_text nap \<longleftrightarrow> (\<forall>p i. vm_map (mem_map nap) p = Some i \<longrightarrow> pg_prot i AND 4 \<noteq> 0
     \<longrightarrow> pg_prot i AND 2 = 0 \<and> p * 4096 < unat (dynamic_text_end nap))"

lemma exec_in_text_add:
  assumes "exec_in_text nap" "dynamic_text_end nap' = dynamic_text_end nap"
    and look: "\<And>p. vm_map (mem_map nap') p = (if p \<in> pages_of P n then Some (new_page P prot fl d off fs p) else vm_map (mem_map nap) p)"
    and x: "prot AND 4 \<noteq> 0 \<longrightarrow> prot AND 2 = 0 \<and> (unat P + unat n) * 4096 \<le> unat (dynamic_text_end nap)"
  shows "exec_in_text nap'"
  unfolding exec_in_text_def
proof (intro allI impI)
  fix p i assume i: "vm_map (mem_map nap') p = Some i" "pg_prot i AND 4 \<noteq> 0"
  show "pg_prot i AND 2 = 0 \<and> p * 4096 < unat (dynamic_text_end nap')"
  proof (cases "p \<in> pages_of P n")
    case True
    then have "pg_prot i = prot" "p < unat P + unat n" using i(1) look [of p] by (auto simp: new_page_def pages_of_def)
    then show ?thesis using x i(2) assms(2) by auto
  next
    case False
    then show ?thesis using assms(1,2) i look [of p] unfolding exec_in_text_def by metis
  qed
qed

text \<open>A region given by its user addresses, which lie on page boundaries.\<close>

lemma protect_region_ok:
  assumes inv: "map_counted E S F nap" and sp: "space_ok nap" "u < addr_limit nap" and b: "mapped_below b (mem_map nap)" "b * 4096 \<le> unat u"
    and a: "4096 dvd unat u" "4096 dvd unat sz" "0 < unat sz" "unat u + unat sz \<le> 2 ^ 32"
    and res: "protect_region env (u + mem_start nap) sz prot nap = Inr (r, nap')" and ok: "r = LOAD_OK"
  shows "map_counted E S F nap'" "mapped_below ((unat u + unat sz) div 4096) (mem_map nap')" "map_only nap nap'"
    "vm_map (mem_map nap) p \<noteq> None \<Longrightarrow> vm_map (mem_map nap') p \<noteq> None"
    "exec_in_text nap \<Longrightarrow> prot AND 4 \<noteq> 0 \<longrightarrow> prot AND 2 = 0 \<and> unat u + unat sz \<le> unat (dynamic_text_end nap) \<Longrightarrow> exec_in_text nap'"
proof -
  obtain e nap1 where m: "NaClMprotect env (u + mem_start nap) sz prot nap = (e, nap1)" by (cases "NaClMprotect env (u + mem_start nap) sz prot nap")
  note mo = map_only_mprotect [OF m]
  have f: "addr_bits nap1 = addr_bits nap" "mem_start nap1 = mem_start nap" using map_only_fields(1,2) mo by blast+
  have sp1: "space_ok nap1" "u < addr_limit nap1" using sp f by (simp_all add: space_ok_def addr_limit_def)
  have su: "NaClSysToUser nap1 (u + mem_start nap) = Inr u" using NaClSysToUser_of_sum [OF sp1] f(2) by simp
  let ?P = "drop_bit NACL_PAGESHIFT u" and ?n = "drop_bit NACL_PAGESHIFT sz"
  have P: "unat ?P = unat u div 4096" "unat ?n = unat sz div 4096" by (simp_all add: unat_drop_bit_div NACL_PAGESHIFT_def)
  have sum: "unat ?P + unat ?n = (unat u + unat sz) div 4096" using a(1,2) by (simp add: P div_plus_div_distrib_dvd_left)
  have r: "range_in_space ?P ?n"
    using a(2,3,4) sum by (auto simp: range_in_space_def vm_pages_def word_less_unat P dvd_div_eq_0_iff)
  have add: "add_region env ?P ?n prot None 0 nap1 = Inr nap'"
    using res ok su by (auto simp: protect_region_def m LOAD_MPROTECT_FAIL_def load_codes split: if_splits)
  have c1: "map_counted E S F nap1" using counted_host mo inv by blast
  have b1: "mapped_below b (mem_map nap1)" "b \<le> unat ?P" using b mo by (auto simp: P less_eq_div_iff_mult_less_eq)
  note add_ok = add_region_ok [OF c1 r b1 add]
  show "map_counted E S F nap'" by (rule add_ok(1))
  show "mapped_below ((unat u + unat sz) div 4096) (mem_map nap')" using add_ok(2) by (simp only: sum)
  show "map_only nap nap'" using map_only_trans mo add_ok(3) by blast
  show "vm_map (mem_map nap) p \<noteq> None \<Longrightarrow> vm_map (mem_map nap') p \<noteq> None" using add_ok(4) [of p] mo by (simp split: if_splits)
  assume x: "exec_in_text nap" "prot AND 4 \<noteq> 0 \<longrightarrow> prot AND 2 = 0 \<and> unat u + unat sz \<le> unat (dynamic_text_end nap)"
  have "dynamic_text_end nap1 = dynamic_text_end nap" using map_only_fields(6) mo by blast
  then have x1: "exec_in_text nap1" using x(1) mo by (simp add: exec_in_text_def)
  have e: "dynamic_text_end nap' = dynamic_text_end nap1" using map_only_fields(6) [OF add_ok(3)] .
  have "4096 dvd unat u + unat sz" using a(1,2) by (rule dvd_add)
  then have "(unat ?P + unat ?n) * 4096 = unat u + unat sz" by (simp add: sum)
  then show "exec_in_text nap'"
    using x(2) \<open>dynamic_text_end nap1 = dynamic_text_end nap\<close> by (intro exec_in_text_add [OF x1 e add_ok(4)]) simp
qed

section \<open>The regions of a loaded program\<close>

text \<open>The state before its memory is protected: the map is empty and the layout is known.\<close>

definition text_laid_out :: "'h load_state \<Rightarrow> bool" where
  "text_laid_out s \<longleftrightarrow>
     (let nap = ld_nap s; t = unat (dynamic_text_start nap); te = unat (dynamic_text_end nap);
          r = unat (ld_rodata_start s); d = unat (ld_data_start s); e = unat (data_end nap)
      in space_ok nap \<and> addr_bits nap = 32 \<and> bundle_size nap = 32 \<and> static_text_end nap = dynamic_text_start nap
         \<and> 0x20000 \<le> t \<and> 65536 dvd t \<and> 65536 dvd te \<and> t < te \<and> te = (if r \<noteq> 0 then r else nat_round_down 16 d)
         \<and> break_addr nap = data_end nap \<and> e \<le> 2 ^ 32 \<and> (r \<noteq> 0 \<longrightarrow> r < e \<and> (d \<noteq> 0 \<longrightarrow> r < nat_round_down 16 d))
         \<and> (d \<noteq> 0 \<longrightarrow> d < e) \<and> (r \<noteq> 0 \<or> d \<noteq> 0))"

definition regions_entered ::
    "(nat \<Rightarrow> nat) \<Rightarrow> u32 multiset \<Rightarrow> u32 multiset \<Rightarrow> nat \<Rightarrow> 'h load_state \<Rightarrow> 'h load_state \<Rightarrow> bool" where
  "regions_entered E S F b s s' \<longleftrightarrow> map_counted E S F (ld_nap s') \<and> mapped_below b (mem_map (ld_nap s'))
     \<and> map_only (ld_nap s) (ld_nap s') \<and> s' = s\<lparr>ld_nap := ld_nap s'\<rparr> \<and> exec_in_text (ld_nap s')
     \<and> vm_map (mem_map (ld_nap s')) 0 \<noteq> None"

lemma text_entered:
  assumes l: "text_laid_out s" and inv: "map_counted E S F (ld_nap s)" and em: "vmentry (mem_map (ld_nap s)) = []"
    and res: "protect_text env s = Inr (LOAD_OK, s')"
  shows "regions_entered E S F (unat (dynamic_text_start (ld_nap s)) div 4096) s s'"
proof -
  let ?nap = "ld_nap s"
  obtain nap1 where a: "add_region env 0 (drop_bit NACL_PAGESHIFT (ucast NACL_SYSCALL_START_ADDR)) 0 None 0 ?nap = Inr nap1"
      and b: "protect_region env (mem_start nap1 + ucast NACL_SYSCALL_START_ADDR) (NaClRoundPage (static_text_end nap1 - ucast NACL_SYSCALL_START_ADDR)) 5 nap1
        = Inr (LOAD_OK, ld_nap s')" and s': "s' = s\<lparr>ld_nap := ld_nap s'\<rparr>"
    using res unfolding protect_text_def Let_def by auto
  have start: "ucast NACL_SYSCALL_START_ADDR = (0x10000 :: u64)" by (simp add: NACL_SYSCALL_START_ADDR_def NACL_PAGESHIFT_def)
  let ?n = "drop_bit NACL_PAGESHIFT 0x10000 :: u64"
  have n: "unat ?n = 16" by (simp add: unat_drop_bit_div NACL_PAGESHIFT_def)
  have none: "vm_map (mem_map ?nap) p = None" for p by (simp add: em vm_lookup_def)
  then have below: "mapped_below 0 (mem_map ?nap)" and ex: "exec_in_text ?nap" by (simp_all add: mapped_below_def exec_in_text_def)
  have r: "range_in_space 0 ?n" by (simp add: range_in_space_def vm_pages_def n word_less_unat)
  note a1 = add_region_ok [OF inv r below le0 a [unfolded start]]
  have ex1: "exec_in_text nap1"
    by (rule exec_in_text_add [OF ex map_only_fields(6) [OF a1(3)] a1(4)]) simp
  have z1: "vm_map (mem_map nap1) 0 \<noteq> None" using a1(4) [of 0] n by (simp add: pages_of_def)
  note f = map_only_fields [OF a1(3)]
  let ?t = "unat (dynamic_text_start ?nap)"
  have L: "space_ok ?nap" "static_text_end ?nap = dynamic_text_start ?nap" "0x20000 \<le> ?t" "65536 dvd ?t"
      "?t < unat (dynamic_text_end ?nap)" "unat (dynamic_text_end ?nap) \<le> 2 ^ 32"
    using l nat_round_down_le [of 16 "unat (ld_data_start s)"] by (auto simp: text_laid_out_def Let_def split: if_splits)
  have lim: "addr_limit nap1 = 0x100000000" using l f(1) by (simp add: text_laid_out_def Let_def addr_limit_def)
  have sp1: "space_ok nap1" using L(1) f(1,2) by (simp add: space_ok_def)
  let ?sz = "NaClRoundPage (static_text_end nap1 - 0x10000)"
  have d: "unat (static_text_end nap1 - 0x10000) = ?t - 0x10000" using L(2,3) f(4) by (simp add: unat_sub word_le_unat)
  have "4096 dvd ?t" using L(4) by (rule dvd_trans [rotated]) simp
  then have dv: "4096 dvd ?t - 0x10000" by (rule dvd_diff_nat) simp
  then have sz: "unat ?sz = ?t - 0x10000"
    using unat_NaClRoundPage [of "static_text_end nap1 - 0x10000"] d L(5,6) nat_round_up_id [of 12 "?t - 0x10000"] by simp
  have b2: "mapped_below 16 (mem_map nap1)" using a1(2) n by simp
  have b': "protect_region env (0x10000 + mem_start nap1) ?sz 5 nap1 = Inr (LOAD_OK, ld_nap s')" using b by (simp add: start add.commute)
  have c: "0x10000 < addr_limit nap1" "16 * 4096 \<le> unat (0x10000 :: u64)" "4096 dvd unat (0x10000 :: u64)" "4096 dvd unat ?sz" "0 < unat ?sz"
    "unat (0x10000 :: u64) + unat ?sz \<le> 2 ^ 32" using dv sz L(3,5,6) by (simp_all add: lim)
  note p = protect_region_ok [OF a1(1) sp1 c(1) b2 c(2-6) b' refl]
  have "exec_in_text (ld_nap s')" by (rule p(5) [OF ex1]) (use sz L(3,5) f(6) in simp)
  moreover have "mapped_below (?t div 4096) (mem_map (ld_nap s'))" using p(2) sz L(3) by simp
  ultimately show ?thesis using p(1,3) p(4) [OF z1] map_only_trans [OF a1(3)] s' by (simp add: regions_entered_def)
qed

lemma entered_fields:
  assumes "regions_entered E S F b s s1"
  shows "ld_rodata_start s1 = ld_rodata_start s" "ld_data_start s1 = ld_data_start s" "ld_text_shm s1 = ld_text_shm s"
    "ld_stack_size s1 = ld_stack_size s"
proof -
  have "s1 = s\<lparr>ld_nap := ld_nap s1\<rparr>" using assms by (simp add: regions_entered_def)
  then show "ld_rodata_start s1 = ld_rodata_start s" "ld_data_start s1 = ld_data_start s" "ld_text_shm s1 = ld_text_shm s"
    "ld_stack_size s1 = ld_stack_size s"
    by (metis load_state.ext_inject load_state.surjective load_state.update_convs(1))+
qed

lemma laid_out_same:
  assumes e: "regions_entered E S F b s s1" and l: "text_laid_out s"
  shows "text_laid_out s1"
proof -
  have mo: "map_only (ld_nap s) (ld_nap s1)" using e by (simp add: regions_entered_def)
  have "text_laid_out s1 = text_laid_out s"
    unfolding text_laid_out_def Let_def space_ok_def entered_fields [OF e] map_only_fields [OF mo] by (rule refl)
  then show ?thesis using l by simp
qed

lemma laid_out_facts:
  assumes "text_laid_out s"
  shows "space_ok (ld_nap s)" "addr_limit (ld_nap s) = 0x100000000" "unat (dynamic_text_start (ld_nap s)) < unat (dynamic_text_end (ld_nap s))"
    "65536 dvd unat (dynamic_text_start (ld_nap s))" "65536 dvd unat (dynamic_text_end (ld_nap s))" "unat (dynamic_text_end (ld_nap s)) \<le> 2 ^ 32"
    "0x20000 \<le> unat (dynamic_text_start (ld_nap s))" "unat (dynamic_text_end (ld_nap s)) < unat (data_end (ld_nap s))"
  using assms nat_round_down_le [of 16 "unat (ld_data_start s)"]
  by (auto simp: text_laid_out_def Let_def addr_limit_def split: if_splits)

lemma entered_trans:
  assumes "regions_entered E S F b s s1" "map_counted E S F nap" "mapped_below b' (mem_map nap)" "map_only (ld_nap s1) nap"
    "exec_in_text nap" "vm_map (mem_map nap) 0 \<noteq> None"
  shows "regions_entered E S F b' s (s1\<lparr>ld_nap := nap\<rparr>)"
proof -
  obtain n where s1: "s1 = s\<lparr>ld_nap := n\<rparr>" using assms(1) unfolding regions_entered_def by blast
  have "map_only (ld_nap s) nap" using assms(1,4) map_only_trans unfolding regions_entered_def by blast
  then show ?thesis using assms(2-6) by (simp add: regions_entered_def s1)
qed

lemma page_counts:
  fixes a b :: nat
  assumes "4096 dvd a" "4096 dvd b" "a < b"
  shows "a div 4096 + (b - a) div 4096 = b div 4096" "0 < (b - a) div 4096"
proof -
  have d: "4096 dvd b - a" using assms(1,2) by (rule dvd_diff_nat [rotated])
  have "a div 4096 + (b - a) div 4096 = (a + (b - a)) div 4096" using div_plus_div_distrib_dvd_left [OF assms(1)] by simp
  then show "a div 4096 + (b - a) div 4096 = b div 4096" using assms(3) by simp
  have "4096 \<le> b - a" using d assms(3) by (intro dvd_imp_le) simp_all
  then show "0 < (b - a) div 4096" by (simp add: div_greater_zero_iff)
qed

lemma dynamic_entered:
  assumes l: "text_laid_out s" and e: "regions_entered E S F (unat (dynamic_text_start (ld_nap s)) div 4096) s s1"
    and res: "protect_dynamic_text env s1 = Inr (LOAD_OK, s2)"
  shows "regions_entered E S F (unat (dynamic_text_end (ld_nap s)) div 4096) s s2"
proof -
  let ?nap = "ld_nap s1" and ?t = "unat (dynamic_text_start (ld_nap s))" and ?te = "unat (dynamic_text_end (ld_nap s))"
  have mo: "map_only (ld_nap s) ?nap" and x: "exec_in_text ?nap" and z: "vm_map (mem_map ?nap) 0 \<noteq> None"
    and inv: "map_counted E S F ?nap" and b: "mapped_below (?t div 4096) (mem_map ?nap)" using e by (simp_all add: regions_entered_def)
  note f = map_only_fields [OF mo] and L = laid_out_facts [OF l] and L1 = laid_out_facts [OF laid_out_same [OF e l]]
  let ?size = "dynamic_text_end ?nap - dynamic_text_start ?nap" and ?u = "dynamic_text_start ?nap"
  have size: "unat ?size = ?te - ?t" using L(3) f(5,6) by (simp add: unat_sub word_le_unat)
  have ne: "0 \<noteq> ?size" using size L(3) by (metis unat_0 zero_less_diff less_irrefl)
  have u: "?u \<noteq> 0" "?u < addr_limit ?nap" using L(3,6,7) f(5) L1(2) by (auto simp: word_less_unat)
  have sys: "NaClUserToSys ?nap ?u = Inr (?u + mem_start ?nap)" "NaClSysToUser ?nap (?u + mem_start ?nap) = Inr ?u"
    using u NaClSysToUser_of_sum [OF L1(1) u(2)] by (simp_all add: NaClUserToSys_Inr)
  let ?P = "drop_bit NACL_PAGESHIFT ?u" and ?n = "drop_bit NACL_PAGESHIFT ?size"
  obtain nap2 where a: "add_region env ?P ?n (NACL_ABI_PROT_READ OR NACL_ABI_PROT_EXEC) (ld_text_shm s1) ?size ?nap = Inr nap2"
      and s2: "s2 = s1\<lparr>ld_nap := nap2\<rparr>"
    using res sys ne unfolding protect_dynamic_text_def Let_def by (auto simp del: right_minus_eq eq_iff_diff_eq_0)
  have four: "(4096 :: nat) dvd 65536" by simp
  note dv = dvd_trans [OF four L(4)] dvd_trans [OF four L(5)]
  have P: "unat ?P = ?t div 4096" "unat ?n = (?te - ?t) div 4096" using size f(5) by (simp_all add: unat_drop_bit_div NACL_PAGESHIFT_def)
  have sum: "unat ?P + unat ?n = ?te div 4096" using page_counts(1) [OF dv L(3)] by (simp add: P)
  have r: "range_in_space ?P ?n"
    using page_counts(2) [OF dv L(3)] L(6) sum P(2) by (simp add: range_in_space_def vm_pages_def word_less_unat)
  have b': "?t div 4096 \<le> unat ?P" by (simp add: P)
  note ok = add_region_ok [OF inv r b b' a]
  have x2: "exec_in_text nap2"
    by (rule exec_in_text_add [OF x map_only_fields(6) [OF ok(3)] ok(4)])
       (use sum dv f(6) in \<open>simp add: NACL_ABI_PROT_READ_def NACL_ABI_PROT_EXEC_def\<close>)
  have z2: "vm_map (mem_map nap2) 0 \<noteq> None" using z ok(4) [of 0] by (simp split: if_splits)
  show ?thesis unfolding s2 by (rule entered_trans [OF e ok(1) _ ok(3) x2 z2]) (use ok(2) sum in simp)
qed

text \<open>Read-only data and data: from \<open>u\<close> up to \<open>x\<close>.\<close>

lemma region_step:
  assumes l: "text_laid_out s" and e: "regions_entered E S F b s s1" and b: "b * 4096 \<le> unat u"
    and u: "4096 dvd unat u" "unat u < unat x" "4096 dvd unat x" "unat x \<le> 2 ^ 32" and p: "prot AND 4 = 0"
    and res: "on_app (protect_region env (u + mem_start (ld_nap s1)) (NaClRoundPage (x - u)) prot) s1 = Inr (LOAD_OK, s2)"
  shows "regions_entered E S F (unat x div 4096) s s2"
proof -
  let ?nap = "ld_nap s1"
  have mo: "map_only (ld_nap s) ?nap" and ex: "exec_in_text ?nap" and z: "vm_map (mem_map ?nap) 0 \<noteq> None"
    and inv: "map_counted E S F ?nap" and bl: "mapped_below b (mem_map ?nap)" using e by (simp_all add: regions_entered_def)
  note L1 = laid_out_facts [OF laid_out_same [OF e l]]
  have d: "unat (x - u) = unat x - unat u" using u(2) by (simp add: unat_sub word_le_unat)
  have "4096 dvd unat x - unat u" using u(1,3) by (rule dvd_diff_nat [rotated])
  then have sz: "unat (NaClRoundPage (x - u)) = unat x - unat u"
    using unat_NaClRoundPage [of "x - u"] d u(4) nat_round_up_id [of 12 "unat x - unat u"] by simp
  have lim: "u < addr_limit ?nap" using L1(2) u(2,4) by (simp add: word_less_unat)
  obtain nap2 where pr: "protect_region env (u + mem_start ?nap) (NaClRoundPage (x - u)) prot ?nap = Inr (LOAD_OK, nap2)"
      and s2: "s2 = s1\<lparr>ld_nap := nap2\<rparr>" using res by (auto simp: on_app_def)
  have c: "4096 dvd unat (NaClRoundPage (x - u))" "0 < unat (NaClRoundPage (x - u))" "unat u + unat (NaClRoundPage (x - u)) \<le> 2 ^ 32"
    using \<open>4096 dvd unat x - unat u\<close> u(2,4) by (simp_all add: sz)
  note ok = protect_region_ok [OF inv L1(1) lim bl b u(1) c pr refl]
  have x2: "exec_in_text nap2" by (rule ok(5) [OF ex]) (simp add: p)
  have below: "mapped_below (unat x div 4096) (mem_map nap2)" using ok(2) sz u(2) by simp
  show ?thesis unfolding s2 by (rule entered_trans [OF e ok(1) below ok(3) x2 ok(4) [OF z]])
qed

lemma round_ends:
  fixes w :: u64
  shows "4096 dvd unat (NaClTruncAllocPage w)" "unat w \<le> 2 ^ 32 \<Longrightarrow> 4096 dvd unat (NaClRoundAllocPage w)"
    "unat w \<le> 2 ^ 32 \<Longrightarrow> unat (NaClRoundAllocPage w) \<le> 2 ^ 32" "unat w \<le> 2 ^ 32 \<Longrightarrow> unat w \<le> unat (NaClRoundAllocPage w)"
    "unat w \<le> 2 ^ 32 \<Longrightarrow> 65536 dvd unat w \<Longrightarrow> NaClRoundAllocPage w = w"
proof -
  have four: "(4096 :: nat) dvd 2 ^ 16" by simp
  have up: "unat (NaClRoundAllocPage w) = nat_round_up 16 (unat w)" if "unat w \<le> 2 ^ 32" using unat_NaClRoundAllocPage [of w] that by simp
  show "4096 dvd unat (NaClTruncAllocPage w)" unfolding unat_NaClTruncAllocPage by (rule dvd_trans [OF four nat_round_down_dvd])
  show "4096 dvd unat (NaClRoundAllocPage w)" if "unat w \<le> 2 ^ 32" unfolding up [OF that] by (rule dvd_trans [OF four nat_round_up_dvd])
  show "unat (NaClRoundAllocPage w) \<le> 2 ^ 32" if "unat w \<le> 2 ^ 32" unfolding up [OF that] by (rule nat_round_up_le [OF _ that]) simp
  show "unat w \<le> unat (NaClRoundAllocPage w)" if "unat w \<le> 2 ^ 32" unfolding up [OF that] by (rule nat_round_up_ge)
  show "NaClRoundAllocPage w = w" if "unat w \<le> 2 ^ 32" "65536 dvd unat w"
    using up [OF that(1)] nat_round_up_id [of 16 "unat w"] that(2) by (simp add: word_eq_unat)
qed

lemma rodata_entered:
  assumes l: "text_laid_out s" and e: "regions_entered E S F (unat (dynamic_text_end (ld_nap s)) div 4096) s s1"
    and res: "protect_rodata env s1 = Inr (LOAD_OK, s2)"
  shows "\<exists>b. regions_entered E S F b s s2 \<and> (ld_data_start s \<noteq> 0 \<longrightarrow> b * 4096 \<le> unat (NaClTruncAllocPage (ld_data_start s)))"
proof -
  note g = entered_fields [OF e] and L = laid_out_facts [OF l] and L1 = laid_out_facts [OF laid_out_same [OF e l]]
  have mo: "map_only (ld_nap s) (ld_nap s1)" using e by (simp add: regions_entered_def)
  note f = map_only_fields [OF mo]
  let ?r = "ld_rodata_start s" and ?d = "ld_data_start s" and ?te = "unat (dynamic_text_end (ld_nap s))"
  have te: "?te div 4096 * 4096 = ?te" using dvd_trans [OF _ L(5), of 4096] by simp
  show ?thesis
  proof (cases "?r = 0")
    case True
    then have "s2 = s1" "?te = nat_round_down 16 (unat ?d)" using res l g by (auto simp: protect_rodata_def Let_def text_laid_out_def)
    then show ?thesis using e te by (auto simp: unat_NaClTruncAllocPage)
  next
    case False
    define y where "y = (if ?d \<noteq> 0 then NaClTruncAllocPage ?d else break_addr (ld_nap s))"
    have T: "?te = unat ?r" "65536 dvd unat ?r" "break_addr (ld_nap s) = data_end (ld_nap s)" "unat (data_end (ld_nap s)) \<le> 2 ^ 32"
        "unat ?r < unat (data_end (ld_nap s))" "?d \<noteq> 0 \<longrightarrow> unat ?r < nat_round_down 16 (unat ?d)" "?d \<noteq> 0 \<longrightarrow> unat ?d < unat (data_end (ld_nap s))"
      using l False by (auto simp: text_laid_out_def Let_def word_eq_unat)
    have y: "unat y \<le> 2 ^ 32" "unat ?r < unat y"
      using T(3-7) nat_round_down_le [of 16 "unat ?d"] by (auto simp: y_def unat_NaClTruncAllocPage)
    have lim: "?r < addr_limit (ld_nap s1)" using L1(2) T(4,5) by (simp add: word_less_unat)
    have sys: "NaClUserToSys (ld_nap s1) ?r = Inr (?r + mem_start (ld_nap s1))" "NaClSysToUser (ld_nap s1) (?r + mem_start (ld_nap s1)) = Inr ?r"
      using False lim NaClSysToUser_of_sum [OF L1(1) lim] by (simp_all add: NaClUserToSys_Inr)
    have step: "on_app (protect_region env (?r + mem_start (ld_nap s1)) (NaClRoundPage (NaClRoundAllocPage y - ?r)) 1) s1 = Inr (LOAD_OK, s2)"
      using res False sys unfolding protect_rodata_def Let_def g y_def f(10) by simp
    have "4096 dvd unat ?r" using dvd_trans [OF _ T(2), of 4096] by simp
    moreover have "unat ?r < unat (NaClRoundAllocPage y)" using y(2) round_ends(4) [OF y(1)] by linarith
    ultimately have "regions_entered E S F (unat (NaClRoundAllocPage y) div 4096) s s2"
      using region_step [OF l e _ _ _ round_ends(2) [OF y(1)] round_ends(3) [OF y(1)] _ step] te T(1) by simp
    moreover have "unat (NaClRoundAllocPage y) div 4096 * 4096 \<le> unat (NaClTruncAllocPage ?d)" if "?d \<noteq> 0"
      using that round_ends(5) [of y] y(1) nat_round_down_dvd [of 16 "unat ?d"]
      by (simp add: y_def unat_NaClTruncAllocPage div_times_less_eq_dividend)
    ultimately show ?thesis by blast
  qed
qed

lemma data_entered:
  assumes l: "text_laid_out s" and e: "regions_entered E S F b s s1"
    and b: "ld_data_start s \<noteq> 0 \<longrightarrow> b * 4096 \<le> unat (NaClTruncAllocPage (ld_data_start s))"
    and res: "protect_data env s1 = Inr (LOAD_OK, s2)"
  shows "\<exists>b. regions_entered E S F b s s2"
proof -
  note g = entered_fields [OF e] and L = laid_out_facts [OF l] and L1 = laid_out_facts [OF laid_out_same [OF e l]]
  have mo: "map_only (ld_nap s) (ld_nap s1)" using e by (simp add: regions_entered_def)
  note f = map_only_fields [OF mo]
  let ?d = "ld_data_start s" and ?e = "data_end (ld_nap s)"
  show ?thesis
  proof (cases "?d = 0")
    case True
    then show ?thesis using res e g by (auto simp: protect_data_def Let_def)
  next
    case False
    let ?u = "NaClTruncAllocPage ?d"
    have T: "unat ?e \<le> 2 ^ 32" "unat ?d < unat ?e" "unat ?u \<le> unat ?d"
      using l False nat_round_down_le [of 16 "unat ?d"] by (auto simp: text_laid_out_def Let_def word_eq_unat unat_NaClTruncAllocPage)
    have "unat (dynamic_text_end (ld_nap s)) \<le> unat ?u"
      using l False by (auto simp: text_laid_out_def Let_def unat_NaClTruncAllocPage word_eq_unat split: if_splits)
    then have nz: "?u \<noteq> 0" using L(3) by (metis leD unat_0 not_less_zero le_zero_eq)
    have lim: "?u < addr_limit (ld_nap s1)" using L1(2) T by (simp add: word_less_unat)
    have sys: "NaClUserToSys (ld_nap s1) ?u = Inr (?u + mem_start (ld_nap s1))" "NaClSysToUser (ld_nap s1) (?u + mem_start (ld_nap s1)) = Inr ?u"
      using nz lim NaClSysToUser_of_sum [OF L1(1) lim] by (simp_all add: NaClUserToSys_Inr)
    have step: "on_app (protect_region env (?u + mem_start (ld_nap s1)) (NaClRoundPage (NaClRoundAllocPage ?e - ?u)) (1 OR 2)) s1 = Inr (LOAD_OK, s2)"
      using res False sys by (simp add: protect_data_def Let_def g f(9))
    have "unat ?u < unat (NaClRoundAllocPage ?e)" using T round_ends(4) [OF T(1)] by linarith
    then have "regions_entered E S F (unat (NaClRoundAllocPage ?e) div 4096) s s2"
      using region_step [OF l e _ round_ends(1) _ round_ends(2,3) [OF T(1)] _ step] b False by simp
    then show ?thesis by blast
  qed
qed

end
