(* ===== verification/LoadReady.thy ===== *)
theory LoadReady
  imports LoadMap
begin

text \<open>
  What the loader hands over: the invariant of the system calls holds of a program that it has loaded, and an
  executable page of its memory is a page of the text, which is not writable.
\<close>

section \<open>Protecting the memory\<close>

lemma if_loaded_ok:
  assumes "if_loaded e k = Inr (LOAD_OK, s')"
  obtains s1 where "e = Inr (LOAD_OK, s1)" "k s1 = Inr (LOAD_OK, s')"
proof (cases e)
  case (Inr x)
  obtain st s1 where "x = (st, s1)" by fastforce
  then show thesis using assms Inr that by (cases "st = LOAD_OK") (simp_all add: if_loaded_def)
qed (use assms in \<open>simp add: if_loaded_def\<close>)

lemma laid_out_area:
  assumes l: "text_laid_out s" and half: "unat (dynamic_text_end (ld_nap s)) \<le> 2 ^ 31"
  shows "text_area_ok (ld_nap s)"
proof -
  note L = laid_out_facts [OF l]
  have "bundle_size (ld_nap s) = 32" using l unfolding text_laid_out_def Let_def by blast
  moreover have "unat (addr_limit (ld_nap s)) = 2 ^ 32" unfolding L(2) by simp
  moreover have "0 < unat (dynamic_text_start (ld_nap s))" using L(7) by linarith
  ultimately show ?thesis using L(1,3-6) half unfolding text_area_ok_def by simp
qed

lemma no_cache: "mapcache_size nap = 0 \<Longrightarrow> cache_ok nap"
  by (simp add: cache_ok_def)

lemma exec_in_text_mmap:
  assumes x: "exec_in_text nap" and l: "same_layout nap nap'" and e: "mmap_effect nap nap' r start u n prot flags ndp off"
  shows "exec_in_text nap'"
proof -
  have t: "dynamic_text_end nap' = dynamic_text_end nap" using l by (simp add: same_layout_def)
  consider "vm_map (mem_map nap') = vm_map (mem_map nap)"
    | fsz where "mapped u n (prot AND NOT NACL_ABI_PROT_EXEC) (flags OR NACL_ABI_MAP_FIXED) ndp off fsz (mem_map nap) (mem_map nap')"
    using e unfolding mmap_effect_def by blast
  then show ?thesis
  proof cases
    case 1
    then show ?thesis using x t by (simp add: exec_in_text_def)
  next
    case 2
    have z: "(prot AND NOT NACL_ABI_PROT_EXEC) AND 4 = 0" by (simp add: NACL_ABI_PROT_EXEC_def and.assoc)
    show ?thesis unfolding exec_in_text_def
    proof (intro allI impI)
      fix p i assume i: "vm_map (mem_map nap') p = Some i" "pg_prot i AND 4 \<noteq> 0"
      then have "vm_map (mem_map nap) p = Some i" using 2 z by (auto simp: mapped_def new_page_def split: if_splits)
      then show "pg_prot i AND 2 = 0 \<and> p * 4096 < unat (dynamic_text_end nap')"
        using x i(2) t unfolding exec_in_text_def by metis
    qed
  qed
qed

lemma memory_protection_ok:
  assumes l: "text_laid_out s" and half: "unat (dynamic_text_end (ld_nap s)) \<le> 2 ^ 31"
    and inv: "map_counted E S F (ld_nap s)" and em: "vmentry (mem_map (ld_nap s)) = []"
    and safe: "regions_safe (ld_nap s)" "mapcache_size (ld_nap s) = 0" and env: "env_ok env"
    and res: "NaClMemoryProtection env s = Inr (LOAD_OK, s')"
  shows "sys_ready E S F (ld_nap s')" "exec_in_text (ld_nap s')" "addr_bits (ld_nap s') = 32"
proof -
  obtain s1 s2 s3 s4 where r: "protect_text env s = Inr (LOAD_OK, s1)" "protect_dynamic_text env s1 = Inr (LOAD_OK, s2)"
      "protect_rodata env s2 = Inr (LOAD_OK, s3)" "protect_data env s3 = Inr (LOAD_OK, s4)" "map_stack env s4 = Inr (LOAD_OK, s')"
    using res unfolding NaClMemoryProtection_def by (elim if_loaded_ok)
  note e2 = dynamic_entered [OF l text_entered [OF l inv em r(1)] r(2)]
  obtain b where e3: "regions_entered E S F b s s3"
    "ld_data_start s \<noteq> 0 \<longrightarrow> b * 4096 \<le> unat (NaClTruncAllocPage (ld_data_start s))"
    using rodata_entered [OF l e2 r(3)] by blast
  obtain b' where e4: "regions_entered E S F b' s s4" using data_entered [OF l e3 r(4)] by blast
  let ?nap = "ld_nap s4"
  have mo: "map_only (ld_nap s) ?nap" and c: "map_counted E S F ?nap" and x: "exec_in_text ?nap"
    and z: "vm_map (mem_map ?nap) 0 \<noteq> None" using e4 by (simp_all add: regions_entered_def)
  note f = map_only_fields [OF mo] and l4 = laid_out_same [OF e4 l]
  note L = laid_out_facts [OF l4]
  have area: "text_area_ok ?nap" by (rule laid_out_area [OF l4]) (use half f(6) in simp)
  have cache: "cache_ok ?nap" by (rule no_cache) (simp add: f safe)
  have rs: "regions_safe ?nap" using safe(1) by (simp add: regions_safe_def f)
  have "text_mapped ?nap (mem_map ?nap)" unfolding text_mapped_def using z L(3) by (intro exI [of _ 0]) simp
  moreover have bits: "break_addr ?nap = data_end ?nap" "addr_bits ?nap = 32" using l4 by (simp_all add: text_laid_out_def Let_def)
  ultimately have mi: "mem_inv E S F ?nap" using c L(8) by (simp add: mem_inv_def map_counted_def word_le_unat)
  obtain ret nap1 where m: "NaClSysMmapIntern env ?nap (NaClTruncAllocPage (addr_limit ?nap - ld_stack_size s4)) (ld_stack_size s4)
      (NACL_ABI_PROT_READ OR NACL_ABI_PROT_WRITE) (NACL_ABI_MAP_PRIVATE OR NACL_ABI_MAP_ANONYMOUS OR NACL_ABI_MAP_FIXED) (- 1) 0
      = Inr (ret, nap1)" "ld_nap s' = nap1"
    using r(5) unfolding map_stack_def Let_def by auto
  have he: "host_ok env" "shm_limit (me_text env)" "keeps_length (me_text env)" using env by (simp_all add: env_ok_def)
  note ok = MmapIntern_ok [OF mi he(1) area cache he(2,3) m(1)]
  have k: "mem_inv E S F nap1" "same_layout ?nap nap1" using ok by (simp_all add: kept_def allowed_def)
  have "regions_safe nap1" using k(2) rs by (simp add: same_layout_def)
  then show "sys_ready E S F (ld_nap s')" using k layout_ready [OF k(2) area cache] m(2) by (simp add: sys_ready_def mem_ready_def)
  show "exec_in_text (ld_nap s')" using ok exec_in_text_mmap [OF x k(2)] m(2) by blast
  show "addr_bits (ld_nap s') = 32" using k(2) bits(2) m(2) by (simp add: same_layout_def)
qed

section \<open>Loading a program\<close>

text \<open>
  Before a program is loaded: the tables are well formed, no memory is mapped and no code has been loaded.
  \<open>E\<close> counts the references to descriptors that are held outside the table.
\<close>

definition app_fresh :: "(nat \<Rightarrow> nat) \<Rightarrow> u32 multiset \<Rightarrow> u32 multiset \<Rightarrow> 'h mem_app \<Rightarrow> bool" where
  "app_fresh E S F nap \<longleftrightarrow> da_wf (desc_tbl nap) \<and> refs_are (nd_refs nap) (\<lambda>n. holds_in (DynArrayGet (desc_tbl nap)) n + E n)
     \<and> tree_inv (mem_io_regions nap) S F \<and> size S + size F + 2 < 2 ^ 32 \<and> vmentry (mem_map nap) = [] \<and> 0 < vm_size (mem_map nap)
     \<and> regions (dyn_regs nap) = [] \<and> mapcache_size nap = 0"

lemma moved_fields:
  assumes "app_moved a b"
  shows "addr_bits b = addr_bits a" "mem_start b = mem_start a" "bundle_size b = bundle_size a" "static_text_end b = static_text_end a"
    "dynamic_text_start b = dynamic_text_start a" "dynamic_text_end b = dynamic_text_end a" "dyn_regs b = dyn_regs a"
    "mapcache_size b = mapcache_size a" "data_end b = data_end a" "break_addr b = break_addr a" "desc_tbl b = desc_tbl a"
    "mem_io_regions b = mem_io_regions a" "text_shm b = text_shm a" "mem_map b = mem_map a" "nd_refs b = nd_refs a"
  using assms by (cases a, cases b, simp add: app_moved_def)+

lemma fresh_moved: "app_moved a b \<Longrightarrow> app_fresh E S F b = app_fresh E S F a"
  using moved_fields [of a b] by (simp add: app_fresh_def)

lemma fresh_counted:
  assumes "app_fresh E S F nap" "space_ok nap"
  shows "map_counted E S F nap" "regions_safe nap"
proof -
  have "map_refs (mem_map nap) = (\<lambda>n. 0)" using assms(1) by (simp add: app_fresh_def map_refs_def fun_eq_iff)
  then show "map_counted E S F nap" using assms
    by (simp add: map_counted_def fd_inv_def app_fresh_def vm_wf_def entries_wf_def)
  show "regions_safe nap" using assms(1) by (simp add: app_fresh_def regions_safe_def regions_ok_def)
qed

lemma fresh_shm:
  assumes f: "app_fresh E S F nap" and n: "nd_refs nap n = None"
  shows "app_fresh (\<lambda>m. E m + (if m = n then 1 else 0)) S F (nap\<lparr>nd_refs := (nd_refs nap)(n \<mapsto> 1)\<rparr>)"
proof -
  let ?f = "\<lambda>m. holds_in (DynArrayGet (desc_tbl nap)) m + E m"
  have r: "refs_are (nd_refs nap) ?f" using f by (simp add: app_fresh_def)
  have "?f n = 0" using r [unfolded refs_are_def, rule_format, of n] n by simp
  then have "?f(n := 1) = (\<lambda>m. holds_in (DynArrayGet (desc_tbl nap)) m + (E m + (if m = n then 1 else 0)))" by auto
  moreover have "refs_are ((nd_refs nap)(n \<mapsto> 1)) (?f(n := 1))" by (rule refs_update [OF r]) simp
  ultimately show ?thesis using f by (simp add: app_fresh_def)
qed

text \<open>The top of the text: where the read-only data starts, or the data when there is none.\<close>

definition text_top :: "'h load_state \<Rightarrow> u64" where
  "text_top s = (if 0 \<noteq> ld_rodata_start s then ld_rodata_start s else NaClTruncAllocPage (ld_data_start s))"

text \<open>The area for code loaded at run time.\<close>

lemma make_shm_ok:
  assumes res: "make_shm env lo hi s = Inr (LOAD_OK, s')" and fresh: "app_fresh E S F (ld_nap s)"
    and shm: "\<forall>sz h n h'. le_shm_alloc env sz h = (Some n, h') \<longrightarrow> nd_refs (ld_nap s) n = None"
  shows "\<exists>n. ld_text_shm s' = Some n \<and> app_fresh (\<lambda>m. E m + (if m = n then 1 else 0)) S F (ld_nap s')
    \<and> dynamic_text_start (ld_nap s') = lo \<and> dynamic_text_end (ld_nap s') = hi \<and> text_shm (ld_nap s')
    \<and> s' = s\<lparr>ld_nap := ld_nap s', ld_text_shm := Some n\<rparr> \<and> addr_bits (ld_nap s') = addr_bits (ld_nap s)
    \<and> mem_start (ld_nap s') = mem_start (ld_nap s) \<and> bundle_size (ld_nap s') = bundle_size (ld_nap s)
    \<and> static_text_end (ld_nap s') = static_text_end (ld_nap s) \<and> break_addr (ld_nap s') = break_addr (ld_nap s)
    \<and> data_end (ld_nap s') = data_end (ld_nap s)"
proof -
  obtain sh h where a: "le_shm_alloc env (hi - lo) (host (ld_nap s)) = (sh, h)" by fastforce
  obtain n where n: "sh = Some n"
    using res a by (cases sh) (auto simp: make_shm_def Let_def load_codes LOAD_NO_MEMORY_FOR_DYNAMIC_TEXT_def)
  let ?nap2 = "(ld_nap s)\<lparr>host := h, nd_refs := (nd_refs (ld_nap s))(n \<mapsto> 1)\<rparr>"
  have "nd_refs (ld_nap s) n = None" using shm a n by blast
  from fresh_shm [OF fresh this] have f2: "app_fresh (\<lambda>m. E m + (if m = n then 1 else 0)) S F ?nap2" by (simp add: app_fresh_def)
  obtain x where x: "NaClUserToSys ?nap2 lo = Inr x"
    using res unfolding make_shm_def Let_def a n by (cases "NaClUserToSys ?nap2 lo") simp_all
  obtain mr f nap3 where m: "desc_map (le_mem env) n x (hi - lo) 0 (NACL_ABI_MAP_SHARED OR NACL_ABI_MAP_FIXED) 0 ?nap2 = (mr, f, nap3)"
    by (metis prod_cases3)
  have s': "s' = s\<lparr>ld_nap := nap3\<lparr>fa_mem := put_region x (NaClRoundPage (hi - lo)) f (fa_mem nap3),
             dynamic_page_bitmap := BitmapAllocate (ucast ((hi - lo) div NACL_MAP_PAGESIZE)),
             dynamic_text_start := lo, dynamic_text_end := hi, text_shm := True\<rparr>, ld_text_shm := Some n\<rparr>"
    using res m x unfolding make_shm_def Let_def a n by (simp split: if_splits)
  note mv = host_calls_moved(5) [OF m]
  have "app_fresh (\<lambda>m. E m + (if m = n then 1 else 0)) S F nap3" using f2 fresh_moved [OF mv] by simp
  then show ?thesis using moved_fields [OF mv] unfolding s' by (simp add: app_fresh_def)
qed

lemma load_fields:
  assumes "load_moved s s'"
  shows "ld_rodata_start s' = ld_rodata_start s" "ld_data_start s' = ld_data_start s" "ld_text_shm s' = ld_text_shm s"
  using assms by (cases s, cases s', simp add: load_moved_def)+

lemma MakeDynamicTextShared_ok:
  assumes res: "NaClMakeDynamicTextShared env s = Inr (LOAD_OK, s')" and fresh: "app_fresh E S F (ld_nap s)"
    and shm: "\<forall>sz h n h'. le_shm_alloc env sz h = (Some n, h') \<longrightarrow> nd_refs (ld_nap s) n = None"
    and n: "ld_text_shm s = None" "ld_text_shm s' = Some n"
  shows "app_fresh (\<lambda>m. E m + (if m = n then 1 else 0)) S F (ld_nap s')"
    "dynamic_text_start (ld_nap s') = NaClRoundAllocPage (static_text_end (ld_nap s))"
    "dynamic_text_end (ld_nap s') = text_top s" "dynamic_text_start (ld_nap s') \<noteq> dynamic_text_end (ld_nap s')"
    "text_shm (ld_nap s')" "s' = s\<lparr>ld_nap := ld_nap s', ld_text_shm := Some n\<rparr>" "addr_bits (ld_nap s') = addr_bits (ld_nap s)"
    "mem_start (ld_nap s') = mem_start (ld_nap s)" "bundle_size (ld_nap s') = bundle_size (ld_nap s)"
    "static_text_end (ld_nap s') = static_text_end (ld_nap s)" "break_addr (ld_nap s') = break_addr (ld_nap s)"
    "data_end (ld_nap s') = data_end (ld_nap s)" "ld_rodata_start s \<noteq> 0 \<or> ld_data_start s \<noteq> 0"
proof -
  let ?lo = "NaClRoundAllocPage (static_text_end (ld_nap s))"
  let ?s1 = "s\<lparr>ld_nap := (ld_nap s)\<lparr>dynamic_text_start := ?lo, dynamic_text_end := ?lo\<rparr>\<rparr>"
  let ?hi = "if 0 = text_top s then ?lo else text_top s"
  have run: "(if \<not> ld_use_shm_for_dynamic_text s then Inr (LOAD_OK, ?s1) else if 0 = ?hi - ?lo then Inr (LOAD_OK, ?s1)
       else make_shm env ?lo ?hi ?s1) = Inr (LOAD_OK, s')"
    unfolding res [symmetric] NaClMakeDynamicTextShared_def Let_def text_top_def by (cases "ld_rodata_start s = 0") simp_all
  then have ms: "make_shm env ?lo ?hi ?s1 = Inr (LOAD_OK, s')" "?hi \<noteq> ?lo" using n by (auto split: if_splits)
  then have top: "?hi = text_top s" "text_top s \<noteq> ?lo" "text_top s \<noteq> 0" by (auto split: if_splits)
  have "app_fresh E S F (ld_nap ?s1)" using fresh by (simp add: app_fresh_def)
  then obtain k where ok: "ld_text_shm s' = Some k" "app_fresh (\<lambda>m. E m + (if m = k then 1 else 0)) S F (ld_nap s')"
    "dynamic_text_start (ld_nap s') = ?lo" "dynamic_text_end (ld_nap s') = ?hi" "text_shm (ld_nap s')"
    "s' = ?s1\<lparr>ld_nap := ld_nap s', ld_text_shm := Some k\<rparr>" "addr_bits (ld_nap s') = addr_bits (ld_nap ?s1)"
    "mem_start (ld_nap s') = mem_start (ld_nap ?s1)" "bundle_size (ld_nap s') = bundle_size (ld_nap ?s1)"
    "static_text_end (ld_nap s') = static_text_end (ld_nap ?s1)" "break_addr (ld_nap s') = break_addr (ld_nap ?s1)"
    "data_end (ld_nap s') = data_end (ld_nap ?s1)"
    using make_shm_ok [OF ms(1), of E S F] shm by auto
  have k: "k = n" using ok(1) n by simp
  show "app_fresh (\<lambda>m. E m + (if m = n then 1 else 0)) S F (ld_nap s')" "text_shm (ld_nap s')" using ok k by simp_all
  show "dynamic_text_start (ld_nap s') = ?lo" "dynamic_text_end (ld_nap s') = text_top s" using ok(3,4) top(1) by simp_all
  then show "dynamic_text_start (ld_nap s') \<noteq> dynamic_text_end (ld_nap s')" using top(2) by simp
  show "s' = s\<lparr>ld_nap := ld_nap s', ld_text_shm := Some n\<rparr>" using ok(6) k by simp
  show "addr_bits (ld_nap s') = addr_bits (ld_nap s)" "mem_start (ld_nap s') = mem_start (ld_nap s)"
    "bundle_size (ld_nap s') = bundle_size (ld_nap s)" "static_text_end (ld_nap s') = static_text_end (ld_nap s)"
    "break_addr (ld_nap s') = break_addr (ld_nap s)" "data_end (ld_nap s') = data_end (ld_nap s)" using ok(7-12) by simp_all
  show "ld_rodata_start s \<noteq> 0 \<or> ld_data_start s \<noteq> 0"
    using top(3) by (auto simp: text_top_def NaClTruncAllocPage_def)
qed

lemma Fill_ok:
  assumes "NaClFillEndOfTextRegion s = Inr s'"
  shows "\<exists>m t. s' = s\<lparr>ld_nap := (ld_nap s)\<lparr>fa_mem := m, static_text_end := t\<rparr>\<rparr>
    \<and> (text_shm (ld_nap s) \<longrightarrow> t = NaClRoundAllocPage (static_text_end (ld_nap s)))"
  using assms by (auto simp: NaClFillEndOfTextRegion_def Let_def split: if_splits)

text \<open>The last step of a loaded image, which may write the text.\<close>

lemma validate_frame:
  assumes "if ld_main_exe_prevalidated s then s' = s else on_app (NaClValidateImage env) s = Inr (LOAD_OK, s')"
  shows "s' = s\<lparr>ld_nap := ld_nap s'\<rparr> \<and> app_moved (ld_nap s) (ld_nap s')"
proof (cases "ld_main_exe_prevalidated s")
  case False
  then obtain nap where "NaClValidateImage env (ld_nap s) = Inr (LOAD_OK, nap)" "s' = s\<lparr>ld_nap := nap\<rparr>"
    using assms by (cases "NaClValidateImage env (ld_nap s)") (auto simp: on_app_def)
  then show ?thesis using validate_moved by auto
qed (use assms in simp)

lemma space_at_ok: "space_at mem \<Longrightarrow> mem_start nap = mem \<Longrightarrow> addr_bits nap = 32 \<Longrightarrow> space_ok nap"
  by (auto simp: space_ok_def space_at_def word_less_unat)

lemma limit_bits:
  assumes "addr_limit nap = FOURGIG" "unat (addr_bits nap) \<le> 32"
  shows "addr_bits nap = 32"
proof -
  have "unat (addr_limit nap) = 2 ^ unat (addr_bits nap)"
    unfolding addr_limit_def push_bit_of_1 using assms(2) by (intro unat_power_lower_nat) simp
  then have "(2 :: nat) ^ unat (addr_bits nap) = 2 ^ 32" unfolding assms(1) by (simp add: FOURGIG_def)
  then have "unat (addr_bits nap) = 32" by (rule power_inject_exp [THEN iffD1, rotated]) simp
  then show ?thesis by (simp add: word_eq_unat)
qed

text \<open>The image is in place: the layout that the protection of the memory starts from.\<close>

lemma load_image_ok:
  assumes lay: "laid_out s" and bits: "unat (addr_bits (ld_nap s)) \<le> 32" "bundle_size (ld_nap s) = 32"
    and fresh: "app_fresh E S F (ld_nap s)" and low: "places_low (le_mem env)"
    and shm: "\<forall>sz h n h'. le_shm_alloc env sz h = (Some n, h') \<longrightarrow> nd_refs (ld_nap s) n = None"
    and res: "load_image env img ndp aslr s = Inr (LOAD_OK, s')" and n: "ld_text_shm s = None" "ld_text_shm s' = Some n"
  shows "text_laid_out s'" "app_fresh (\<lambda>m. E m + (if m = n then 1 else 0)) S F (ld_nap s')"
    "dynamic_text_end (ld_nap s') = text_top s'"
proof -
  obtain s1 where a: "NaClAllocAddrSpaceAslr env aslr s = Inr (LOAD_OK, s1)"
      and res1: "(let nap = ld_nap s1;
           (ret, nap1) = NaClMprotect (le_mem env) (mem_start nap + ucast NACL_TRAMPOLINE_START)
                           (NaClRoundAllocPage (data_end nap) - ucast NACL_TRAMPOLINE_START) (1 OR 2) nap
       in if 0 \<noteq> ret then Inl Log_fatal
          else if_loaded (NaClElfImageLoad (le_mem env) img ndp (s1\<lparr>ld_nap := nap1\<rparr>)) (\<lambda>s2.
               if_loaded (NaClMakeDynamicTextShared env s2) (\<lambda>s3.
                 ebind (NaClFillEndOfTextRegion s3) (\<lambda>s4.
                   if ld_main_exe_prevalidated s4 then Inr (LOAD_OK, s4)
                   else on_app (NaClValidateImage (le_mem env)) s4)))) = Inr (LOAD_OK, s')"
    using res unfolding load_image_def by (rule if_loaded_ok)
  obtain ret nap1 where p: "NaClMprotect (le_mem env) (mem_start (ld_nap s1) + ucast NACL_TRAMPOLINE_START)
      (NaClRoundAllocPage (data_end (ld_nap s1)) - ucast NACL_TRAMPOLINE_START) (1 OR 2) (ld_nap s1) = (ret, nap1)" by fastforce
  obtain s2 s3 where r2: "NaClElfImageLoad (le_mem env) img ndp (s1\<lparr>ld_nap := nap1\<rparr>) = Inr (LOAD_OK, s2)"
    and r3: "NaClMakeDynamicTextShared env s2 = Inr (LOAD_OK, s3)"
    and res4: "ebind (NaClFillEndOfTextRegion s3) (\<lambda>s4. if ld_main_exe_prevalidated s4 then Inr (LOAD_OK, s4)
         else on_app (NaClValidateImage (le_mem env)) s4) = Inr (LOAD_OK, s')"
    using res1 unfolding Let_def p by (auto split: if_splits elim!: if_loaded_ok)
  obtain s4 where r4: "NaClFillEndOfTextRegion s3 = Inr s4"
    and s': "if ld_main_exe_prevalidated s4 then s' = s4 else on_app (NaClValidateImage (le_mem env)) s4 = Inr (LOAD_OK, s')"
    using res4 by (auto split: if_splits)
  obtain mem where mem: "space_at mem" "addr_limit (ld_nap s) = FOURGIG" "s1 = s\<lparr>ld_nap := ld_nap s1\<rparr>"
    "app_moved ((ld_nap s)\<lparr>mem_start := mem\<rparr>) (ld_nap s1)"
    using alloc_space_ok [OF a low refl] by blast
  let ?s0 = "s\<lparr>ld_nap := (ld_nap s)\<lparr>mem_start := mem\<rparr>\<rparr>"
  obtain nap0 where nap0: "s1 = s\<lparr>ld_nap := nap0\<rparr>" using mem(3) by blast
  then have "load_moved ?s0 s1" using mem(4) by (simp add: load_moved_def)
  then have "load_moved ?s0 (s1\<lparr>ld_nap := nap1\<rparr>)" using load_moved_upd host_calls_moved(4) [OF p] by blast
  then have m2: "load_moved ?s0 s2" using load_moved_trans segments_moved r2 unfolding NaClElfImageLoad_def by blast
  then have mv: "app_moved (ld_nap ?s0) (ld_nap s2)" by (simp add: load_moved_def)
  note f2 = moved_fields [OF mv, simplified] and l2 = load_fields [OF m2, simplified]
  have fresh2: "app_fresh E S F (ld_nap s2)" using fresh fresh_moved [OF mv, of E S F] by (simp add: app_fresh_def)
  obtain m t where s4: "s4 = s3\<lparr>ld_nap := (ld_nap s3)\<lparr>fa_mem := m, static_text_end := t\<rparr>\<rparr>"
      "text_shm (ld_nap s3) \<longrightarrow> t = NaClRoundAllocPage (static_text_end (ld_nap s3))"
    using Fill_ok [OF r4] by blast
  note v = validate_frame [OF s']
  obtain nap' where nap': "s' = s4\<lparr>ld_nap := nap'\<rparr>" "app_moved (ld_nap s4) nap'" using v by auto
  have n3: "ld_text_shm s3 = Some n" using n(2) by (simp add: nap'(1) s4(1))
  have shm2: "\<forall>sz h n h'. le_shm_alloc env sz h = (Some n, h') \<longrightarrow> nd_refs (ld_nap s2) n = None" using shm f2(15) by simp
  have "ld_text_shm s2 = None" using n(1) l2(3) by simp
  note d = MakeDynamicTextShared_ok [OF r3 fresh2 shm2 this n3]
  note f' = moved_fields [OF nap'(2), unfolded s4(1), simplified]
  obtain nap3 where s3: "s3 = s2\<lparr>ld_nap := nap3, ld_text_shm := Some n\<rparr>" using d(6) by blast
  have rd: "ld_rodata_start s' = ld_rodata_start s" "ld_data_start s' = ld_data_start s"
    using l2 by (simp_all add: nap'(1) s4(1) s3)
  have "app_fresh (\<lambda>m. E m + (if m = n then 1 else 0)) S F (ld_nap s4)" using d(1) by (simp add: s4(1) app_fresh_def)
  then show "app_fresh (\<lambda>m. E m + (if m = n then 1 else 0)) S F (ld_nap s')" using fresh_moved [OF nap'(2)] nap'(1) by simp
  have top: "text_top s2 = text_top s'" by (simp add: text_top_def rd l2)
  show te: "dynamic_text_end (ld_nap s') = text_top s'" using d(3) f' nap'(1) top by simp
  have b32: "addr_bits (ld_nap s) = 32" by (rule limit_bits [OF mem(2) bits(1)])
  have lo: "dynamic_text_start (ld_nap s') = NaClRoundAllocPage (static_text_end (ld_nap s))" "static_text_end (ld_nap s') = dynamic_text_start (ld_nap s')"
    using d(2,5,10) s4(2) f' f2 nap'(1) by simp_all
  have sp: "space_ok (ld_nap s')" by (rule space_at_ok [OF mem(1)]) (use d f' f2 nap'(1) b32 in simp_all)
  let ?t = "unat (static_text_end (ld_nap s))" and ?r = "unat (ld_rodata_start s)" and ?d = "unat (ld_data_start s)"
    and ?e = "unat (data_end (ld_nap s))" and ?te = "unat (dynamic_text_end (ld_nap s'))"
  have L: "0x20000 \<le> ?t" "?t < 2 ^ 32" "break_addr (ld_nap s) = data_end (ld_nap s)" "?r \<noteq> 0 \<or> ?d \<noteq> 0 \<Longrightarrow> ?e \<le> 2 ^ 32"
    "?r \<noteq> 0 \<Longrightarrow> nat_round_up 16 ?t \<le> ?r" "?r \<noteq> 0 \<Longrightarrow> 65536 dvd ?r" "?r \<noteq> 0 \<Longrightarrow> ?r < ?e"
    "?r \<noteq> 0 \<Longrightarrow> ?d \<noteq> 0 \<Longrightarrow> ?r < nat_round_down 16 ?d" "?d \<noteq> 0 \<Longrightarrow> nat_round_up 16 ?t \<le> nat_round_down 16 ?d" "?d \<noteq> 0 \<Longrightarrow> ?d < ?e"
    using lay unfolding laid_out_def Let_def by blast+
  have ne: "?r \<noteq> 0 \<or> ?d \<noteq> 0" using d(13) l2 by (simp add: unat_eq_zero)
  have t: "unat (dynamic_text_start (ld_nap s')) = nat_round_up 16 ?t"
    unfolding lo using unat_NaClRoundAllocPage [of "static_text_end (ld_nap s)"] L(2) by simp
  have te': "?te = (if ?r \<noteq> 0 then ?r else nat_round_down 16 ?d)"
    unfolding te text_top_def rd by (auto simp: unat_NaClTruncAllocPage unat_eq_zero)
  have "dynamic_text_start (ld_nap s') \<noteq> dynamic_text_end (ld_nap s')" using d(4) f' nap'(1) by simp
  then have "unat (dynamic_text_start (ld_nap s')) \<noteq> ?te" by (simp add: word_eq_unat)
  then have lt: "nat_round_up 16 ?t < ?te" unfolding t using te' ne L(5,9) by (auto simp: le_less)
  have dv: "65536 dvd ?te" unfolding te' using L(6) nat_round_down_dvd [of 16 ?d] by auto
  have g: "0x20000 \<le> nat_round_up 16 ?t" using L(1) nat_round_up_ge [of ?t 16] by linarith
  have k: "addr_bits (ld_nap s') = 32" "bundle_size (ld_nap s') = 32" "data_end (ld_nap s') = data_end (ld_nap s)"
    "break_addr (ld_nap s') = break_addr (ld_nap s)" using d f' f2 nap'(1) b32 bits(2) by simp_all
  show "text_laid_out s'"
    unfolding text_laid_out_def Let_def k rd t te'
    using sp lo(2) g lt [unfolded te'] dv [unfolded te'] nat_round_up_dvd [of 16 ?t] L(3,4,7,8,10) ne by simp
qed

section \<open>The invariant of a loaded program\<close>

lemma tramp_fields:
  assumes "tramp_moved s s'"
  shows "ld_rodata_start s' = ld_rodata_start s" "ld_data_start s' = ld_data_start s" "ld_text_shm s' = ld_text_shm s"
  using assms by (cases s, cases s', simp add: tramp_moved_def)+

lemma laid_out_moved:
  assumes "tramp_moved s s'"
  shows "text_laid_out s' = text_laid_out s"
proof -
  have m: "app_moved (ld_nap s) (ld_nap s')" using assms by (simp add: tramp_moved_def)
  show ?thesis unfolding text_laid_out_def Let_def space_ok_def moved_fields [OF m] tramp_fields [OF assms] by (rule refl)
qed

text \<open>The fields of the loader, which the steps on the program leave alone.\<close>

definition nap_only :: "'h load_state \<Rightarrow> 'h load_state \<Rightarrow> bool" where
  "nap_only s s' \<longleftrightarrow> s'\<lparr>ld_nap := ld_nap s\<rparr> = s"

lemma nap_only_simps [simp]: "nap_only s s" "nap_only s (s\<lparr>ld_nap := n\<rparr>)"
  by (simp_all add: nap_only_def)

lemma nap_only_trans: "nap_only a b \<Longrightarrow> nap_only b c \<Longrightarrow> nap_only a c"
  by (cases a, cases b, cases c, simp add: nap_only_def)

lemma nap_only_fields:
  assumes "nap_only s s'"
  shows "ld_rodata_start s' = ld_rodata_start s" "ld_data_start s' = ld_data_start s" "ld_text_shm s' = ld_text_shm s"
  using assms by (cases s, cases s', simp add: nap_only_def)+

lemma on_app_only: "on_app f s = Inr (st, s') \<Longrightarrow> nap_only s s'"
  by (auto simp: on_app_def)

lemma protect_only:
  "protect_text env s = Inr (st, s') \<Longrightarrow> nap_only s s'" "protect_dynamic_text env s = Inr (st, s') \<Longrightarrow> nap_only s s'"
  "protect_rodata env s = Inr (st, s') \<Longrightarrow> nap_only s s'" "protect_data env s = Inr (st, s') \<Longrightarrow> nap_only s s'"
  "map_stack env s = Inr (st, s') \<Longrightarrow> nap_only s s'"
  by (auto simp: protect_text_def protect_dynamic_text_def protect_rodata_def protect_data_def map_stack_def Let_def
      split: if_splits dest: on_app_only)

lemma protection_only:
  assumes "NaClMemoryProtection env s = Inr (LOAD_OK, s')"
  shows "nap_only s s'"
proof -
  obtain s1 s2 s3 s4 where r: "protect_text env s = Inr (LOAD_OK, s1)" "protect_dynamic_text env s1 = Inr (LOAD_OK, s2)"
      "protect_rodata env s2 = Inr (LOAD_OK, s3)" "protect_data env s3 = Inr (LOAD_OK, s4)" "map_stack env s4 = Inr (LOAD_OK, s')"
    using assms unfolding NaClMemoryProtection_def by (elim if_loaded_ok)
  show ?thesis
    by (intro nap_only_trans [OF protect_only(1) [OF r(1)]] nap_only_trans [OF protect_only(2) [OF r(2)]]
        nap_only_trans [OF protect_only(3) [OF r(3)]] nap_only_trans [OF protect_only(4) [OF r(4)]] protect_only(5) [OF r(5)])
qed

lemma load_headers_nap:
  assumes "load_headers env ndp s = Inr (res, s')"
  shows "\<exists>h. s' = s\<lparr>ld_nap := (ld_nap s)\<lparr>host := h\<rparr>\<rparr>"
proof (cases "NaClElfImageNew (le_memory env) (\<lambda>n off h. vPRead (me_vt (le_mem env)) ndp n off h) (host (ld_nap s))")
  case (Inr r)
  obtain i h where r: "r = (i, h)" by fastforce
  have "s' = s\<lparr>ld_nap := (ld_nap s)\<lparr>host := h\<rparr>\<rparr>"
  proof (cases i)
    case (Inl e)
    then show ?thesis using assms Inr r by (simp add: load_headers_def Let_def)
  next
    case i: (Inr img)
    show ?thesis using assms Inr r i
      by (cases "NaClElfImageValidateProgramHeaders img (addr_bits (ld_nap s))") (auto simp: load_headers_def Let_def split: if_splits)
  qed
  then show ?thesis by blast
qed (use assms in \<open>simp add: load_headers_def Let_def\<close>)

lemma loaded_ready:
  assumes fresh: "app_fresh E S F (ld_nap s)" "ld_text_shm s = None" and env: "env_ok (le_mem env)" "places_low (le_mem env)"
    and shm: "\<forall>sz h n h'. le_shm_alloc env sz h = (Some n, h') \<longrightarrow> nd_refs (ld_nap s) n = None"
    and top: "\<forall>img h. NaClElfImageNew (le_memory env) (\<lambda>n off h. vPRead (me_vt (le_mem env)) ndp n off h) (host (ld_nap s)) = Inr (Inr img, h)
      \<longrightarrow> ends_below_top img"
    and res: "NaClAppLoadFileAslr env ndp aslr s = Inr (LOAD_OK, s')"
    and dyn: "ld_text_shm s' = Some n" "unat (text_top s') \<le> 2 ^ 31"
  shows "sys_ready (\<lambda>m. E m + (if m = n then 1 else 0)) S F (ld_nap s')" "exec_in_text (ld_nap s')" "addr_bits (ld_nap s') = 32"
proof -
  have bits: "unat (addr_bits (ld_nap s)) \<le> 32"
    using res by (auto simp: NaClAppLoadFileAslr_def load_codes LOAD_ADDR_SPACE_TOO_BIG_def NACL_MAX_ADDR_BITS_def word_less_unat split: if_splits)
  then have le: "\<not> addr_bits (ld_nap s) > NACL_MAX_ADDR_BITS" by (simp add: NACL_MAX_ADDR_BITS_def word_less_unat)
  let ?s0 = "s\<lparr>ld_stack_size := NaClRoundAllocPage (ld_stack_size s)\<rparr>"
  obtain hdr s1 where h: "load_headers env ndp ?s0 = Inr (hdr, s1)"
    using res le by (cases "load_headers env ndp ?s0") (auto simp: NaClAppLoadFileAslr_def)
  note res1 = res [unfolded NaClAppLoadFileAslr_def if_not_P [OF le] h ebind_simps prod.case]
  obtain img info where hdr: "hdr = Inr (img, info)"
  proof (cases hdr)
    case (Inl e)
    then have "s' = s1" using res1 by simp
    then show thesis using load_headers_nap [OF h] fresh(2) dyn(1) by auto
  qed auto
  let ?l = "set_layout img info s1"
  obtain s2 where y: "load_symbols env img ndp ?l = Inr s2"
    using res1 hdr by (cases "load_symbols env img ndp ?l") auto
  have entry_ok: "NaClAddrIsValidEntryPt (ld_nap s2) (ld_initial_entry_pt s2)"
    and sane: "NaClCheckAddressSpaceLayoutSanity s2 (info_rodata_end info) (info_data_end info) (layout_end info) = LOAD_OK"
    and res2: "if_loaded (load_image env img ndp aslr s2) (\<lambda>s3. ebind (NaClLoadTrampoline env s3) (NaClMemoryProtection (le_mem env)))
      = Inr (LOAD_OK, s')"
    using res1 unfolding hdr by (auto simp: y Let_def load_codes LOAD_BAD_ENTRY_def split: if_splits)
  obtain s3 where r3: "load_image env img ndp aslr s2 = Inr (LOAD_OK, s3)"
    and res3: "ebind (NaClLoadTrampoline env s3) (NaClMemoryProtection (le_mem env)) = Inr (LOAD_OK, s')"
    using res2 by (rule if_loaded_ok)
  obtain s4 where r4: "NaClLoadTrampoline env s3 = Inr s4" and r5: "NaClMemoryProtection (le_mem env) s4 = Inr (LOAD_OK, s')"
    using res3 by (cases "NaClLoadTrampoline env s3") auto
  obtain h where s1: "s1 = ?s0\<lparr>ld_nap := (ld_nap s)\<lparr>host := h\<rparr>\<rparr>" and val: "\<exists>im. ends_below_top im
      \<and> NaClElfImageValidateProgramHeaders im (addr_bits (ld_nap s)) = Inr (img, info)"
    using load_headers_ok [OF h [unfolded hdr]] top by simp metis
  obtain im where im: "ends_below_top im" "NaClElfImageValidateProgramHeaders im (addr_bits (ld_nap s)) = Inr (img, info)" using val by blast
  obtain h' m where s2: "s2 = ?l\<lparr>ld_nap := (ld_nap ?l)\<lparr>host := h'\<rparr>, ld_symbols := m\<rparr>"
  proof (cases "le_load_symbols env")
    case True
    then show thesis using y that by (auto simp: load_symbols_def)
  next
    case False
    then have "s2 = ?l\<lparr>ld_nap := (ld_nap ?l)\<lparr>host := host (ld_nap ?l)\<rparr>, ld_symbols := ld_symbols ?l\<rparr>"
      using y by (simp add: load_symbols_def)
    then show thesis by (rule that)
  qed
  note u = s2 [unfolded set_layout_def s1, simplified]
  have lay: "laid_out s2"
    by (rule layout_ok [OF im(2) bits im(1) _ _ _ _ _ sane]) (simp_all add: u)
  have f2: "app_fresh E S F (ld_nap s2)" "ld_text_shm s2 = None" using fresh by (simp_all add: u app_fresh_def)
  have c2: "unat (addr_bits (ld_nap s2)) \<le> 32" "bundle_size (ld_nap s2) = 32" using bits by (simp_all add: u NACL_INSTR_BLOCK_SIZE_def)
  have shm2: "\<forall>sz h n h'. le_shm_alloc env sz h = (Some n, h') \<longrightarrow> nd_refs (ld_nap s2) n = None" using shm by (simp add: u)
  have t: "tramp_moved s3 s4" by (rule trampoline_moved [OF r4])
  note o = nap_only_fields [OF protection_only [OF r5]]
  have n3: "ld_text_shm s3 = Some n" using dyn(1) o(3) tramp_fields(3) [OF t] by simp
  note im3 = load_image_ok [OF lay c2 f2(1) env(2) shm2 r3 f2(2) n3]
  have mv: "app_moved (ld_nap s3) (ld_nap s4)" using t by (simp add: tramp_moved_def)
  have l4: "text_laid_out s4" using im3(1) laid_out_moved [OF t] by simp
  have f4: "app_fresh (\<lambda>m. E m + (if m = n then 1 else 0)) S F (ld_nap s4)" using im3(2) fresh_moved [OF mv] by simp
  have "text_top s3 = text_top s'" by (simp add: text_top_def o tramp_fields [OF t])
  then have half: "unat (dynamic_text_end (ld_nap s4)) \<le> 2 ^ 31" using dyn(2) im3(3) moved_fields(6) [OF mv] by simp
  have k: "vmentry (mem_map (ld_nap s4)) = []" "mapcache_size (ld_nap s4) = 0" using f4 by (simp_all add: app_fresh_def)
  note c4 = fresh_counted [OF f4 laid_out_facts(1) [OF l4]]
  show "sys_ready (\<lambda>m. E m + (if m = n then 1 else 0)) S F (ld_nap s')" "exec_in_text (ld_nap s')" "addr_bits (ld_nap s') = 32"
    by (rule memory_protection_ok [OF l4 half c4(1) k(1) c4(2) k(2) env(1) r5])+
qed

end
