(* ===== verification/ElfClaims.thy ===== *)
theory ElfClaims
  imports ElfProps ElfSymbols ElfLoad MemClaims
begin

text \<open>The properties of executables: their program headers, their symbols, and the segments as they are loaded.\<close>

section \<open>Program headers\<close>

text \<open>C16: An image whose program headers are accepted keeps its headers and marks each of them as loaded or not. Every
  segment to be loaded lies between the end of the trampolines and the end of the address space, has no more
  bytes in the file than in memory, and no two of them agree in type and flags. One of them is the text, at the
  end of the trampolines. The start addresses noted for the layout are those of the segments; the ends noted are the
  true ends modulo 4 GiB, so a segment that ends below 4 GiB is noted with its true end, while one that ends
  exactly at 4 GiB, which the check of a 32-bit space lets pass, is noted with the end 0 and does not count for the highest address.
\<close>
theorem program_headers_checked:
  assumes "NaClElfImageValidateProgramHeaders img bits = Inr (img', info)" and "unat bits \<le> 32"
  shows "img' = img\<lparr>loadable := loadable img'\<rparr> \<and> length (loadable img') = length (phdrs img)
    \<and> (\<forall>p \<in> set (loaded_segments (phdrs img) (loadable img')). segment_fits bits p)
    \<and> distinct (map segment_kind (loaded_segments (phdrs img) (loadable img')))
    \<and> notes_of (loaded_segments (phdrs img) (loadable img')) info"
  using headers_ok [OF assms] headers_notes [OF assms] kinds_distinct by blast

definition demo_phdr :: "u32 \<Rightarrow> u32 \<Rightarrow> u32 \<Rightarrow> u32 \<Rightarrow> u32 \<Rightarrow> u32 \<Rightarrow> elf_phdr" where
  "demo_phdr typ flags off vaddr filesz memsz =
     \<lparr>p_type = typ, p_offset = off, p_vaddr = vaddr, p_paddr = vaddr, p_filesz = filesz, p_memsz = memsz, p_flags = flags, p_align = 0x10000\<rparr>"

definition demo_ehdr :: elf_ehdr where
  "demo_ehdr = \<lparr>eh_ident = ELFMAG @ [1, 1, 1, 0, 0, 0, 0, 0, 0, 0, 0, 0], eh_type = 2, eh_machine = 62, eh_version = 1,
     eh_entry = 0x20000, eh_phoff = 52, eh_shoff = 0, eh_flags = 0, eh_ehsize = 52, eh_phentsize = 32, eh_phnum = 2,
     eh_shentsize = 64, eh_shnum = 0, eh_shstrndx = 0\<rparr>"

definition demo_image :: elf_image where
  "demo_image = \<lparr>ehdr = demo_ehdr,
     phdrs = [demo_phdr PT_LOAD (PF_R OR PF_X) 0x10000 0x20000 0x1000 0x1000, demo_phdr PT_NOTE PF_R 0 0 32 32,
              demo_phdr PT_LOAD (PF_R OR PF_W) 0x20000 0x40000 0x100 0x2000],
     loadable = [False, False, False]\<rparr>"

lemmas header_check_simps = NaClElfImageValidateProgramHeaders_def nacl_phdr_check_data_def find_check_def segment_status_def
  space_size_def demo_phdr_def elf_numbers load_codes Let_def

theorem program_headers_checked_witness:
  "\<exists>img' info. NaClElfImageValidateProgramHeaders demo_image 32 = Inr (img', info) \<and> loadable img' = [True, False, True]
    \<and> notes_of (loaded_segments (phdrs demo_image) (loadable img')) info"
proof -
  have "\<exists>info. NaClElfImageValidateProgramHeaders demo_image 32 = Inr (demo_image\<lparr>loadable := [True, False, True]\<rparr>, info)"
    by (simp add: header_check_simps demo_image_def)
  then show ?thesis using program_headers_checked [of demo_image 32] by fastforce
qed

section \<open>Symbols\<close>

text \<open>C19: For a string table that ends with a NUL and contains every name, the symbol table mapping lists, in the
  order of the symbol table, the name and the address of each function symbol whose name is not empty and has at most
  256 bytes.
\<close>
theorem symbol_mapping_exact:
  assumes "symbolTable sec = Some syms" "unat (symbolCount sec) = length syms"
    and "stringTable sec = Some table" "table \<noteq> []" "last table = 0" "unat (stringTableSize sec) = length table"
    and "list_all (\<lambda>s. unat (st_name s) < length table) syms"
  shows "GetSymbolTableMapping64 sec = Inr (map (\<lambda>s. (name_at table (unat (st_name s)), st_value s))
    (filter (\<lambda>s. is_function s \<and> name_at table (unat (st_name s)) \<noteq> [] \<and> length (name_at table (unat (st_name s))) \<le> 256) syms))"
  using symbol_loop_found [OF assms(4,5,6,7)] assms(1-3)
  by (simp add: GetSymbolTableMapping64_def less_Suc_eq_le [of _ 256, simplified])

definition demo_sections :: section_data where
  "demo_sections = \<lparr>stringTableSize = 8, symbolCount = 3, stringTable = Some [0, 0x66, 0x6f, 0x6f, 0, 0x62, 0x72, 0],
     symbolTable = Some [\<lparr>st_name = 1, st_info = 0x12, st_other = 0, st_shndx = 1, st_value = 0x20020, st_size = 32\<rparr>,
       \<lparr>st_name = 5, st_info = 0x11, st_other = 0, st_shndx = 2, st_value = 0x40000, st_size = 8\<rparr>,
       \<lparr>st_name = 5, st_info = 0x12, st_other = 0, st_shndx = 1, st_value = 0x20040, st_size = 32\<rparr>]\<rparr>"

theorem symbol_mapping_exact_witness:
  "GetSymbolTableMapping64 demo_sections = Inr [([0x66, 0x6f, 0x6f], 0x20020), ([0x62, 0x72], 0x20040)]"
proof -
  let ?table = "[0, 0x66, 0x6f, 0x6f, 0, 0x62, 0x72, 0] :: u8 list"
  let ?syms = "the (symbolTable demo_sections)"
  have "GetSymbolTableMapping64 demo_sections = Inr (map (\<lambda>s. (name_at ?table (unat (st_name s)), st_value s))
    (filter (\<lambda>s. is_function s \<and> name_at ?table (unat (st_name s)) \<noteq> [] \<and> length (name_at ?table (unat (st_name s))) \<le> 256) ?syms))"
    by (rule symbol_mapping_exact) (simp_all add: demo_sections_def)
  then show ?thesis by (simp add: demo_sections_def name_at_def is_function_def ELF_ST_TYPE_def STT_FUNC_def)
qed

section \<open>A stack segment over the text\<close>

text \<open>The text, in a host whose files can be mapped anywhere, when the validator accepts its bytes.\<close>

lemma text_paddr:
  assumes "addr_bits nap = 32" "space_ok nap"
  shows "0x20000 + mem_start nap \<noteq> 0" "NaClUserToSysAddr nap 0x20000 = 0x20000 + mem_start nap"
    "NaClUserToSysAddr nap 0x20000 \<noteq> kNaClBadAddress"
proof -
  have lim: "addr_limit nap = 0x100000000" using assms(1) by (simp add: addr_limit_def)
  have lim2: "unat (addr_limit nap) = 0x100000000" by (simp add: lim)
  have "unat (0x20000 + mem_start nap) = 0x20000 + unat (mem_start nap)"
    using unat_user_to_sys [OF assms(2), where u = "0x20000"] lim2 by simp
  moreover have "unat (mem_start nap) \<le> 2 ^ 47" using space_top [OF assms(2)] by linarith
  moreover have "unat (- 1 :: u64) = 2 ^ 64 - 1" by (simp add: unsigned_minus_1_eq_mask mask_eq_exp_minus_1)
  ultimately have "unat (0x20000 + mem_start nap) \<noteq> 0" "unat (0x20000 + mem_start nap) \<noteq> unat (- 1 :: u64)" by simp_all
  then have ms: "0x20000 + mem_start nap \<noteq> 0" "0x20000 + mem_start nap \<noteq> - 1" by (metis unat_0, metis)
  then show "0x20000 + mem_start nap \<noteq> 0" "NaClUserToSysAddr nap 0x20000 = 0x20000 + mem_start nap"
    "NaClUserToSysAddr nap 0x20000 \<noteq> kNaClBadAddress"
    by (simp_all add: NaClUserToSysAddr_def kNaClBadAddress_def lim)
qed

lemma page_ends:
  "NaClTruncAllocPage 0x10000 = 0x10000" "NaClTruncAllocPage 0x20000 = 0x20000" "NaClRoundAllocPage 0x10000 = 0x10000"
  "NaClRoundPage 0x10000 = 0x10000"
  by (simp_all add: NaClTruncAllocPage_def NaClRoundAllocPage_def NaClRoundPage_def page_consts)

lemmas segment_run = load_segment_def NaClElfFileMapSegment_def map_segment_kind_def map_segment_tail_def map_segment_pages_def
  desc_map_def demo_phdr_def Let_def NaClHostDescUnmapUnsafe_def host_munmap_def elf_numbers load_codes

lemma text_segment_loaded:
  fixes s :: "'h load_state"
  defines "nap \<equiv> ld_nap s"
  assumes space: "addr_bits nap = 32" "space_ok nap" "static_text_end nap = 0x30000"
    and desc: "NaClDescIsSafeForMmap env ndp" "me_typeTag env ndp = NACL_DESC_HOST_IO"
    and maps: "\<And>a n p f off h. me_Map env ndp a n p f off h = (if a = 0 then scratch else a, (\<lambda>i. content (off + i)), h)"
    and scratch: "\<not> NaClPtrIsNegErrno scratch" and unmap: "\<And>a n h. me_munmap env a n h = (0, h)"
    and valid: "\<And>fl meta. fst (e_Validate (me_text env) 0x20000 (map (\<lambda>i. content (0x10000 + of_nat i)) [0 ..< 0x10000]) False fl True meta True)
      = NaClValidationSucceeded"
  shows "\<exists>s1. load_segment env ndp (demo_phdr PT_LOAD (PF_R OR PF_X) 0x10000 0x20000 0x10000 0x10000) s = Inr (LOAD_OK, s1)
    \<and> ld_main_exe_prevalidated s1 \<and> addr_bits (ld_nap s1) = addr_bits nap \<and> mem_start (ld_nap s1) = mem_start nap
    \<and> fa_mem (ld_nap s1) = put_region (0x20000 + mem_start nap) 0x10000 (\<lambda>i. content (0x10000 + i)) (fa_mem nap)"
proof -
  have lim: "addr_limit nap = 0x100000000" using space(1) by (simp add: addr_limit_def)
  obtain code where v: "e_Validate (me_text env) 0x20000 (map (\<lambda>i. content (0x10000 + of_nat i)) [0 ..< 0x10000]) False
      (if pnacl_mode nap then 1 else 0) True (Some (me_metadata env ndp)) True = (NaClValidationSucceeded, code)"
    using valid by (metis prod.collapse)
  show ?thesis
    using space(1,3) desc scratch lim page_ends text_paddr [OF space(1,2)] v
    by (simp add: segment_run maps unmap nap_def del: upt_rec_numeral ebind_eq_Inr)
qed

definition stack_image :: elf_image where
  "stack_image = \<lparr>ehdr = demo_ehdr,
     phdrs = [demo_phdr PT_LOAD (PF_R OR PF_X) 0x10000 0x20000 0x10000 0x10000,
              demo_phdr PT_GNU_STACK (PF_R OR PF_W) 0x20000 0x20000 0x10000 0x10000],
     loadable = [False, False]\<rparr>"

text \<open>C20: An image whose only other segment is a \<open>PT_GNU_STACK\<close> segment of non-zero size at the address of the
  text is accepted, and both segments are loaded: the text is validated in a scratch mapping of the file
  and marked as needing no further validation, and then the bytes of the other segment are mapped over it.
\<close>
theorem stack_segment_over_text:
  fixes s :: "'h load_state"
  defines "nap \<equiv> ld_nap s"
  assumes space: "addr_bits nap = 32" "space_ok nap" "static_text_end nap = 0x30000"
    and desc: "NaClDescIsSafeForMmap env ndp" "me_typeTag env ndp = NACL_DESC_HOST_IO"
    and maps: "\<And>a n p f off h. me_Map env ndp a n p f off h = (if a = 0 then scratch else a, (\<lambda>i. file (off + i)), h)"
    and scratch: "\<not> NaClPtrIsNegErrno scratch" and unmap: "\<And>a n h. me_munmap env a n h = (0, h)"
    and valid: "\<And>fl meta. fst (e_Validate (me_text env) 0x20000 (map (\<lambda>i. file (0x10000 + of_nat i)) [0 ..< 0x10000]) False fl True meta True)
      = NaClValidationSucceeded"
  shows "\<exists>info s'. NaClElfImageValidateProgramHeaders stack_image 32 = Inr (stack_image\<lparr>loadable := [True, True]\<rparr>, info)
    \<and> NaClElfImageLoad env (stack_image\<lparr>loadable := [True, True]\<rparr>) ndp s = Inr (LOAD_OK, s')
    \<and> ld_main_exe_prevalidated s'
    \<and> (\<forall>i < 0x10000. fa_mem (ld_nap s') (mem_start nap + 0x20000 + i) = file (0x20000 + i))"
proof -
  let ?img = "stack_image\<lparr>loadable := [True, True]\<rparr>"
  have headers: "\<exists>info. NaClElfImageValidateProgramHeaders stack_image 32 = Inr (?img, info)"
    by (simp add: header_check_simps stack_image_def)
  have lim: "addr_limit nap = 0x100000000" using space(1) by (simp add: addr_limit_def)
  note paddr = text_paddr [OF space(1,2)]
  obtain s' where "NaClElfImageLoad env ?img ndp s = Inr (LOAD_OK, s')" "ld_main_exe_prevalidated s'"
    "fa_mem (ld_nap s') = put_region (0x20000 + mem_start nap) 0x10000 (\<lambda>i. file (0x20000 + i))
       (put_region (0x20000 + mem_start nap) 0x10000 (\<lambda>i. file (0x10000 + i)) (fa_mem nap))"
  proof -
    let ?p1 = "demo_phdr PT_LOAD (PF_R OR PF_X) 0x10000 0x20000 0x10000 0x10000"
    let ?p2 = "demo_phdr PT_GNU_STACK (PF_R OR PF_W) 0x20000 0x20000 0x10000 0x10000"
    obtain s1 where s1: "load_segment env ndp ?p1 s = Inr (LOAD_OK, s1)" "ld_main_exe_prevalidated s1"
        "addr_bits (ld_nap s1) = addr_bits nap" "mem_start (ld_nap s1) = mem_start nap"
        "fa_mem (ld_nap s1) = put_region (0x20000 + mem_start nap) 0x10000 (\<lambda>i. file (0x10000 + i)) (fa_mem nap)"
      using text_segment_loaded [OF space [unfolded nap_def] desc maps scratch unmap valid] unfolding nap_def by blast
    have s1_paddr: "NaClUserToSysAddr (ld_nap s1) 0x20000 = NaClUserToSysAddr nap 0x20000" "addr_limit (ld_nap s1) = addr_limit nap"
      using s1(3,4) by (simp_all add: NaClUserToSysAddr_def addr_limit_def)
    have "\<exists>s2. load_segment env ndp ?p2 s1 = Inr (LOAD_OK, s2) \<and> ld_main_exe_prevalidated s2
        \<and> fa_mem (ld_nap s2) = put_region (0x20000 + mem_start nap) 0x10000 (\<lambda>i. file (0x20000 + i)) (fa_mem (ld_nap s1))"
      using desc lim page_ends paddr s1(2) s1_paddr by (simp add: segment_run maps unmap del: upt_rec_numeral ebind_eq_Inr)
    then show thesis using that s1(1,5) by (force simp: NaClElfImageLoad_def stack_image_def demo_phdr_def)
  qed
  moreover from this(3) have "\<forall>i < 0x10000. fa_mem (ld_nap s') (mem_start nap + 0x20000 + i) = file (0x20000 + i)"
    by (simp add: put_region_def algebra_simps)
  ultimately show ?thesis using headers by blast
qed

definition demo_load :: "unit load_state" where
  "demo_load = \<lparr>ld_nap = demo_mem\<lparr>static_text_end := 0x30000\<rparr>, ld_stack_size = 0x1000000, ld_rodata_start = 0, ld_data_start = 0,
     ld_initial_entry_pt = 0x20000, ld_user_entry_pt = 0, ld_main_exe_prevalidated = False, ld_use_shm_for_dynamic_text = True,
     ld_initial_nexe_max_code_bytes = 0, ld_text_shm = None, ld_symbols = None, ld_nacl_syscall_addr = 0,
     ld_tls_fast_path1_addr = 0, ld_tls_fast_path2_addr = 0\<rparr>"

text \<open>A host whose file has the number of its 64-KiB page in every byte of the page.\<close>

definition stack_env :: "unit mem_env" where
  "stack_env = demo_menv\<lparr>me_GetFlags := (\<lambda>_. 0x1000),
     me_Map := (\<lambda>d start len prot flags off h. (if start = 0 then 0x700000000000 else start, (\<lambda>i. ucast (drop_bit 16 (off + i))), h))\<rparr>"

theorem stack_segment_over_text_witness:
  "\<exists>s'. NaClElfImageLoad stack_env (stack_image\<lparr>loadable := [True, True]\<rparr>) 7 demo_load = Inr (LOAD_OK, s')
    \<and> ld_main_exe_prevalidated s' \<and> fa_mem (ld_nap s') 0x100020000 = 2"
proof -
  let ?file = "\<lambda>x :: u64. ucast (drop_bit 16 x) :: u8"
  have sp: "space_ok (ld_nap demo_load)" by (simp add: space_ok_def demo_load_def demo_mem_def)
  have "\<exists>info s'. NaClElfImageValidateProgramHeaders stack_image 32 = Inr (stack_image\<lparr>loadable := [True, True]\<rparr>, info)
      \<and> NaClElfImageLoad stack_env (stack_image\<lparr>loadable := [True, True]\<rparr>) 7 demo_load = Inr (LOAD_OK, s')
      \<and> ld_main_exe_prevalidated s'
      \<and> (\<forall>i < 0x10000. fa_mem (ld_nap s') (mem_start (ld_nap demo_load) + 0x20000 + i) = ?file (0x20000 + i))"
    by (rule stack_segment_over_text [OF _ sp, where scratch = "0x700000000000"])
       (simp_all add: demo_load_def demo_mem_def stack_env_def demo_menv_def demo_env_def NaClDescIsSafeForMmap_def
          NACL_DESC_HOST_IO_def NaClPtrIsNegErrno_def del: upt_rec_numeral)
  then obtain s' where s': "NaClElfImageLoad stack_env (stack_image\<lparr>loadable := [True, True]\<rparr>) 7 demo_load = Inr (LOAD_OK, s')"
      "ld_main_exe_prevalidated s'"
      "\<forall>i < 0x10000. fa_mem (ld_nap s') (mem_start (ld_nap demo_load) + 0x20000 + i) = ?file (0x20000 + i)" by blast
  from s'(3) have "fa_mem (ld_nap s') 0x100020000 = 2"
    by (drule_tac x = 0 in spec) (simp add: demo_load_def demo_mem_def)
  then show ?thesis using s'(1,2) by blast
qed

end
