(* ===== verification/TrampolineBytes.thy ===== *)
theory TrampolineBytes
  imports LoadFrames
begin

text \<open>
  The bytes of the trampolines: each block of 32 bytes holds the code with its two operands, and halts after it.
\<close>

section \<open>One trampoline\<close>

definition patched_code :: "'h load_env \<Rightarrow> u64 \<Rightarrow> u64 \<Rightarrow> bytes \<Rightarrow> bytes" where
  "patched_code env target a m =
     store_mem (a + (le_tramp_addr env - 4)) 4 (take_bit 32 (ucast (ucast a :: u32)))
       (store_mem (a + (le_call_target env - 8)) 8 target (write_bytes a (le_trampoline env) m))"

lemma PatchOne_eq:
  assumes "target \<noteq> 0" "of_nat (length (le_trampoline env)) \<le> NACL_INSTR_BLOCK_SIZE"
  shows "NaClPatchOneTrampolineCall env target a m = Inr (patched_code env target a m)"
  using assms
  by (simp add: NaClPatchOneTrampolineCall_def NaClApplyPatchToMemory_def NaClPatchInfoCtor_def Let_def echeck_def NaClStoreMem_def
      patched_code_def take_bit_word_eq_self del: ebind_eq_Inr)

lemma patch_all_Inr:
  assumes "ld_nacl_syscall_addr s \<noteq> 0" "of_nat (length (le_trampoline env)) \<le> NACL_INSTR_BLOCK_SIZE"
  shows "\<exists>m'. patch_trampolines env s a n m = Inr m'"
  using assms by (induction n arbitrary: a m) (simp_all add: NaClPatchOneTrampoline_def PatchOne_eq del: ebind_eq_Inr)

lemma store_mem_bytes: "n \<le> 2 ^ 63 \<Longrightarrow> store_mem a n v m = write_bytes a (le_bytes n v) m"
proof (induction n arbitrary: a v m)
  case 0
  show ?case by (simp add: write_bytes_def fun_eq_iff)
next
  case (Suc n)
  show ?case
  proof
    fix x
    show "store_mem a (Suc n) v m x = write_bytes a (le_bytes (Suc n) v) m x"
    proof (cases "x = a")
      case True
      have "unat (a - (a + 1)) = 2 ^ 64 - 1" by (simp add: unsigned_minus_1_eq_mask mask_eq_exp_minus_1)
      then show ?thesis using Suc True by (simp add: write_bytes_def Let_def le_bytes_Suc)
    next
      case False
      then have "x - a \<noteq> 0" by simp
      then have "unat (x - (a + 1)) = unat (x - a) - 1" "0 < unat (x - a)"
        using unat_minus_one [of "x - a"] by (simp_all add: unat_gt_0 diff_diff_eq)
      then show ?thesis using Suc False by (auto simp: write_bytes_def Let_def le_bytes_Suc nth_Cons')
    qed
  qed
qed

text \<open>A patch writes only its own block, and what it writes does not depend on the memory before.\<close>

definition code_fits :: "'h load_env \<Rightarrow> bool" where
  "code_fits env \<longleftrightarrow> length (le_trampoline env) \<le> 32 \<and> 4 \<le> le_tramp_addr env \<and> le_tramp_addr env \<le> 32
     \<and> 8 \<le> le_call_target env \<and> le_call_target env \<le> 32"

lemma patched_local:
  "m x = m' x \<Longrightarrow> patched_code env t a m x = patched_code env t a m' x"
  by (simp add: patched_code_def store_mem_bytes write_bytes_def Let_def)

lemma write_bytes_far: "length bs \<le> k \<Longrightarrow> k \<le> unat (x - a) \<Longrightarrow> write_bytes a bs m x = m x"
  by (simp add: write_bytes_def Let_def)

lemma patched_other:
  assumes "code_fits env" "32 \<le> unat (x - a)"
  shows "patched_code env t a m x = m x"
proof -
  have far: "write_bytes (a + off) bs m' x = m' x" if "unat off + length bs \<le> 32" for off bs m'
  proof -
    have "off \<le> x - a" using that assms(2) by (simp add: word_le_nat_alt)
    then have "unat (x - a - off) = unat (x - a) - unat off" by (rule unat_sub)
    then show ?thesis using that assms(2) by (intro write_bytes_far [of _ "unat (x - (a + off))"]) (simp_all add: diff_diff_eq)
  qed
  have "unat (le_tramp_addr env - 4) = unat (le_tramp_addr env) - 4" "unat (le_call_target env - 8) = unat (le_call_target env) - 8"
    using assms(1) by (simp_all add: code_fits_def unat_sub)
  moreover have "unat (le_tramp_addr env) \<le> 32" "unat (le_call_target env) \<le> 32" "4 \<le> unat (le_tramp_addr env)" "8 \<le> unat (le_call_target env)"
    "length (le_trampoline env) \<le> 32"
    using assms(1) by (simp_all add: code_fits_def word_le_nat_alt)
  ultimately show ?thesis
    using far [of "le_tramp_addr env - 4"] far [of "le_call_target env - 8"] far [of 0]
    by (simp add: patched_code_def store_mem_bytes)
qed

text \<open>A second patch of the same block leaves nothing of the first.\<close>

lemma patched_twice: "patched_code env t a (patched_code env u a m) x = patched_code env t a m x"
  by (simp add: patched_code_def store_mem_bytes write_bytes_def Let_def)

section \<open>All of them\<close>

lemma offset_back: "k < 2 ^ 64 \<Longrightarrow> unat (a + of_nat k - a :: u64) = k"
  by (simp add: unat_of_nat take_bit_nat_eq_self)

lemma patch_loop:
  assumes fits: "code_fits env" and t: "ld_nacl_syscall_addr s \<noteq> 0"
  shows "patch_trampolines env s a n m = Inr m' \<Longrightarrow> 32 * n \<le> 2 ^ 63 \<Longrightarrow> k < 2 ^ 64 \<Longrightarrow>
    m' (a + of_nat k) = (if k < 32 * n then patched_code env (ld_nacl_syscall_addr s) (a + of_nat (32 * (k div 32))) m (a + of_nat k)
      else m (a + of_nat k))"
proof (induction n arbitrary: a m k)
  case (Suc n)
  let ?t = "ld_nacl_syscall_addr s" and ?x = "a + of_nat k"
  have len: "of_nat (length (le_trampoline env)) \<le> NACL_INSTR_BLOCK_SIZE"
    using fits by (simp add: code_fits_def NACL_INSTR_BLOCK_SIZE_def word_le_nat_alt unat_of_nat take_bit_nat_eq_self)
  have run: "patch_trampolines env s (a + 32) n (patched_code env ?t a m) = Inr m'"
    using Suc.prems(1) by (simp add: NaClPatchOneTrampoline_def PatchOne_eq [OF t len] NACL_SYSCALL_BLOCK_SIZE_def)
  show ?case
  proof (cases "k < 32")
    case True
    have "of_nat (k + (2 ^ 64 - 32)) = (of_nat k - 32 :: u64)" by simp
    then have x: "a + 32 + of_nat (k + (2 ^ 64 - 32)) = ?x" by simp
    have "m' ?x = patched_code env ?t a m ?x"
      using Suc.IH [OF run, of "k + (2 ^ 64 - 32)"] Suc.prems(2) True unfolding x by simp
    then show ?thesis using True by simp
  next
    case False
    obtain q where q: "(k - 32) div 32 = q" "k div 32 = Suc q" using False by (simp add: le_div_geq)
    have x: "a + 32 + of_nat (k - 32) = ?x" "a + 32 + of_nat (32 * ((k - 32) div 32)) = a + of_nat (32 * (k div 32))"
      by (use False in \<open>simp_all add: q of_nat_diff\<close>)
    have same: "patched_code env ?t a m ?x = m ?x"
      using offset_back [OF Suc.prems(3), of a] False by (intro patched_other [OF fits]) simp
    have "patched_code env ?t b (patched_code env ?t a m) ?x = patched_code env ?t b m ?x" for b by (rule patched_local) (rule same)
    then show ?thesis using Suc.IH [OF run, of "k - 32"] Suc.prems(2,3) False same unfolding x by auto
  qed
qed simp

text \<open>
  The place where the address of the routine is stored that a trampoline leads to: the calls that read the thread's pointers
  have their own.
\<close>

definition trampoline_target :: "'h load_state \<Rightarrow> nat \<Rightarrow> u64" where
  "trampoline_target s n = (if n = NACL_sys_second_tls_get then ld_tls_fast_path2_addr s
     else if n = NACL_sys_tls_get then ld_tls_fast_path1_addr s else ld_nacl_syscall_addr s)"

lemma PatchOne_Inr:
  assumes "NaClPatchOneTrampolineCall env t a m = Inr m'"
  shows "t \<noteq> 0" "m' = patched_code env t a m"
  using assms PatchOne_eq [of t env a m] by (auto simp: NaClPatchOneTrampolineCall_def echeck_def split: if_splits)

lemma block_offset:
  assumes "j < 2 ^ 63" "k < 2 ^ 63"
  shows "unat (a + of_nat k - (a + of_nat j) :: u64) = (if j \<le> k then k - j else 2 ^ 64 + k - j)"
proof -
  have "a + of_nat k - (a + of_nat j) = (of_nat k - of_nat j :: u64)" by simp
  then show ?thesis using assms by (simp add: unat_sub_if' word_le_nat_alt unat_of_nat take_bit_nat_eq_self) arith
qed

lemma patch_again:
  assumes fits: "code_fits env" and k: "k < 2 ^ 63" and n: "n < 2 ^ 58"
    and at: "m (a + of_nat k) = patched_code env t (a + of_nat (32 * (k div 32))) b (a + of_nat k) \<or> k div 32 \<noteq> n"
  shows "patched_code env u (a + 32 * of_nat n) m (a + of_nat k)
    = (if k div 32 = n then patched_code env u (a + of_nat (32 * n)) b (a + of_nat k) else m (a + of_nat k))"
proof (cases "k div 32 = n")
  case True
  then have "patched_code env u (a + of_nat (32 * n)) m (a + of_nat k) = patched_code env u (a + of_nat (32 * n)) b (a + of_nat k)"
    using at patched_twice [of env u "a + of_nat (32 * n)" t b "a + of_nat k"]
      patched_local [of m "a + of_nat k" "patched_code env t (a + of_nat (32 * n)) b"] by metis
  then show ?thesis using True by simp
next
  case False
  moreover have "32 * (k div 32) \<le> k" "k < 32 * (k div 32) + 32" using div_mult_mod_eq [of k 32] mod_less_divisor [of 32 k] by linarith+
  ultimately have "32 * n + 32 \<le> k \<or> k < 32 * n" by linarith
  then have "32 \<le> unat (a + of_nat k - (a + of_nat (32 * n)))"
    using block_offset [of "32 * n" k a] n k by auto
  then have "32 \<le> unat (a + of_nat k - (a + 32 * of_nat n))" by simp
  from patched_other [OF fits this] False show ?thesis by simp
qed

lemma trampoline_bytes:
  assumes res: "NaClLoadTrampoline env s = Inr s'" and fits: "code_fits env" and k: "k < 65536"
  shows "fa_mem (ld_nap s') (mem_start (ld_nap s') + 0x10000 + of_nat k)
    = (if k div 32 < 2047 then patched_code env (trampoline_target s' (k div 32)) (mem_start (ld_nap s') + 0x10000 + of_nat (32 * (k div 32)))
         (\<lambda>x. NACL_HALT_OPCODE) (mem_start (ld_nap s') + 0x10000 + of_nat k)
       else NACL_HALT_OPCODE)"
proof -
  obtain s1 where s1: "NaClMakeDispatchAddrs env s = Inr (True, s1)" using res by (auto simp: NaClLoadTrampoline_def split: if_splits)
  let ?b = "mem_start (ld_nap s1) + 0x10000" and ?t = "ld_nacl_syscall_addr s1"
  let ?m0 = "NaClFillTrampolineRegion (mem_start (ld_nap s1)) (fa_mem (ld_nap s1))" and ?h = "\<lambda>x :: u64. NACL_HALT_OPCODE"
  have c: "ucast NACL_SYSCALL_START_ADDR = (0x10000 :: u64)" "ucast NACL_TRAMPOLINE_START = (0x10000 :: u64)" "num_syscalls = 2047"
    "unat NACL_TRAMPOLINE_SIZE = 65536"
    by (simp_all add: NACL_SYSCALL_START_ADDR_def NACL_PAGESHIFT_def NACL_TRAMPOLINE_START_def num_syscalls_def NACL_TRAMPOLINE_END_def
        NACL_SYSCALL_BLOCK_SIZE_def NACL_TRAMPOLINE_SIZE_def)
  obtain m1 m2 m3 where m: "patch_trampolines env s1 ?b 2047 ?m0 = Inr m1"
      "NaClPatchOneTrampolineCall env (ld_tls_fast_path1_addr s1) (?b + NACL_SYSCALL_BLOCK_SIZE * of_nat NACL_sys_tls_get) m1 = Inr m2"
      "NaClPatchOneTrampolineCall env (ld_tls_fast_path2_addr s1) (?b + NACL_SYSCALL_BLOCK_SIZE * of_nat NACL_sys_second_tls_get) m2 = Inr m3"
    and s': "s' = s1\<lparr>ld_nap := (ld_nap s1)\<lparr>fa_mem := m3\<rparr>\<rparr>"
    using res by (auto simp: NaClLoadTrampoline_def s1 Let_def c)
  have "patch_trampolines env s1 ?b (Suc 2046) ?m0 = Inr m1" using m(1) by simp
  then have nz: "?t \<noteq> 0" unfolding patch_trampolines.simps NaClPatchOneTrampoline_def by (auto dest: PatchOne_Inr(1))
  let ?x = "?b + of_nat k :: u64"
  have fill: "?m0 ?x = NACL_HALT_OPCODE"
    using k offset_back [of k ?b] by (simp add: NaClFillTrampolineRegion_def NaClFillMemoryRegionWithHalt_def write_bytes_def c Let_def)
  have l: "m1 ?x = (if k div 32 < 2047 then patched_code env ?t (?b + of_nat (32 * (k div 32))) ?h ?x else NACL_HALT_OPCODE)"
  proof (cases "k div 32 < 2047")
    case True
    then have "k < 32 * 2047" by (simp add: div_less_iff_less_mult)
    then show ?thesis
      using patch_loop [OF fits nz m(1), of k] True patched_local [of ?m0 ?x ?h env ?t, OF fill] by simp
  next
    case False
    then have "\<not> k < 32 * 2047" by (simp add: div_less_iff_less_mult)
    then show ?thesis using patch_loop [OF fits nz m(1), of k] False k fill by simp
  qed
  note two = PatchOne_Inr(2) [OF m(2)] PatchOne_Inr(2) [OF m(3)]
  have blk: "NACL_SYSCALL_BLOCK_SIZE = 32" by (simp add: NACL_SYSCALL_BLOCK_SIZE_def)
  have ns: "NACL_sys_tls_get = 84" "NACL_sys_second_tls_get = 86" by (simp_all add: NACL_sys_tls_get_def NACL_sys_second_tls_get_def)
  have m2: "m2 ?x = (if k div 32 = 84 then patched_code env (ld_tls_fast_path1_addr s1) (?b + of_nat (32 * 84)) ?h ?x else m1 ?x)"
    unfolding two(1) blk ns by (rule patch_again [OF fits, where t = ?t]) (use k l in auto)
  have m3: "m3 ?x = (if k div 32 = 86 then patched_code env (ld_tls_fast_path2_addr s1) (?b + of_nat (32 * 86)) ?h ?x else m2 ?x)"
    unfolding two(2) blk ns by (rule patch_again [OF fits, where t = ?t]) (use k l m2 in auto)
  show ?thesis unfolding s' using m3 m2 l by (simp add: trampoline_target_def ns)
qed

end
