(* ===== verification/LoadRun.thy ===== *)
theory LoadRun
  imports LoadReady ElfClaims TrampolineBytes
begin

text \<open>
  One program, loaded from the bytes of its file to the last entry of its memory map: an executable of two segments
  (text at \<open>0x20000\<close>, read-only data at \<open>0x40000\<close>) that leaves room for code loaded at run time between them. The host
  grants every request. Each step of \<open>NaClAppLoadFileAslr\<close> is run on the state that the step before it leaves.
\<close>

section \<open>The program and its host\<close>

definition run_file :: "u8 list" where
  "run_file = ELFMAG @ [1, 1, 1, 0, 0, 0, 0, 0, 0, 0, 0, 0]
     @ [2, 0, 62, 0, 1, 0, 0, 0, 0, 0, 2, 0, 52, 0, 0, 0, 0, 0, 0, 0, 0, 0, 0, 0, 52, 0, 32, 0, 2, 0, 64, 0, 0, 0, 0, 0]
     @ [1, 0, 0, 0, 0, 0, 1, 0, 0, 0, 2, 0, 0, 0, 2, 0, 0, 0, 1, 0, 0, 0, 1, 0, 5, 0, 0, 0, 0, 0, 1, 0]
     @ [1, 0, 0, 0, 0, 0, 2, 0, 0, 0, 4, 0, 0, 0, 4, 0, 0, 0, 0, 0, 0, 0, 1, 0, 4, 0, 0, 0, 0, 0, 1, 0]"

definition run_vt :: "unit desc_vtbl" where
  "run_vt = demo_vt\<lparr>vPRead := (\<lambda>d n off h. (int (length (take (unat n) (drop (unat off) run_file))),
     take (unat n) (drop (unat off) run_file), h))\<rparr>"

definition run_image :: "bool list \<Rightarrow> elf_image" where
  "run_image lds = \<lparr>ehdr = demo_ehdr,
     phdrs = [demo_phdr PT_LOAD (PF_R OR PF_X) 0x10000 0x20000 0x10000 0x10000, demo_phdr PT_LOAD PF_R 0x20000 0x40000 0 0x10000],
     loadable = lds\<rparr>"

lemma run_image_read:
  "NaClElfImageNew True (\<lambda>n off h. vPRead run_vt 7 n off h) () = Inr (Inr (run_image [False, False]), ())"
  by code_simp

section \<open>The start\<close>

text \<open>The start state: no descriptors, no memory; the file is 7 and the shared memory for code will be 8.\<close>

definition run_start :: "unit load_state" where
  "run_start = demo_load\<lparr>ld_nap := demo_mem\<lparr>mem_start := 0, bundle_size := 0, static_text_end := 0, dynamic_text_start := 0,
       dynamic_text_end := 0, desc_tbl := \<lparr>num_entries = 0, ptr_array = [None], ptr_array_space = 1, available = [0], avail_ix = 0\<rparr>,
       nd_refs := [7 \<mapsto> 1], text_shm := False, mem_map := NaClVmmapCtor (\<lambda>_. 0), break_addr := 0, data_end := 0\<rparr>,
     ld_initial_entry_pt := 0\<rparr>"

definition run_menv :: "unit mem_env" where
  "run_menv = stack_env\<lparr>me_vt := run_vt, me_mmap := (\<lambda>start len prot flags fd off h.
     let a = (if flags AND 0x10 \<noteq> 0 then start else 0x100000000000)
     in (if unat a + unat len \<le> 2 ^ 47 then 0 else 12, a, (\<lambda>_. 0), h))\<rparr>"

definition run_env :: "unit load_env" where
  "run_env = \<lparr>le_mem = run_menv, le_random = (\<lambda>h. (0, h)), le_madvise = (\<lambda>a n adv h. (0, h)), le_shm_alloc = (\<lambda>n h. (Some 8, h)),
     le_memory = True, le_bitmap_memory = True, le_load_symbols = False,
     le_trampoline = [0xc7, 0x44, 0x24, 0xf8, 0xef, 0xbe, 0xad, 0xde, 0x48, 0xb8, 0xbe, 0xba, 0xfe, 0xca, 0xef, 0xbe, 0xad, 0xde, 0xff, 0x20, 0xf4],
     le_tramp_addr = 8, le_call_target = 18, le_NaClSyscallSeg = 0x400000, le_NaClGetTlsFastPath1 = 0x400100, le_NaClGetTlsFastPath2 = 0x400200\<rparr>"

lemma unit_host [simp]: "(nap :: unit mem_app)\<lparr>host := h\<rparr> = nap"
  by (cases nap) simp

lemma run_env_ok: "env_ok (le_mem run_env)" "places_low (le_mem run_env)"
  using demo_menv_ok
  by (auto simp: env_ok_def host_ok_def run_env_def run_menv_def stack_env_def demo_menv_def places_low_def accmode_ok_def mman_consts Let_def)

lemma run_fresh: "app_fresh (\<lambda>n. if n = 7 then 1 else 0) {#} {#} (ld_nap run_start)"
proof -
  let ?t = "\<lparr>num_entries = 0, ptr_array = [None], ptr_array_space = 1, available = [0], avail_ix = 0\<rparr> :: nat dyn_array"
  have u: "da_used ?t i = False" for i by (cases i) (auto simp: da_used_def)
  have w: "da_words ?t = 1" by (simp add: da_words_def)
  have "da_wf ?t" unfolding da_wf_def u w by (simp add: bit_at_def)
  moreover have "DynArrayGet ?t = Map.empty" by (auto simp: DynArrayGet_def fun_eq_iff)
  ultimately show ?thesis
    by (simp add: app_fresh_def run_start_def demo_mem_def refs_are_def holds_in_def tree_inv_def point_def node_of_def fun_eq_iff
        NaClVmmapCtor_def START_ENTRIES_def)
qed

definition run_info :: elf_info where
  "run_info = \<lparr>info_static_text_end = 0x30000, info_rodata_start = 0x40000, info_rodata_end = 0x50000, info_data_start = 0,
     info_data_end = 0, info_max_vaddr = 0x50000\<rparr>"

lemma run_headers: "load_headers run_env 7 s = Inr (Inr (run_image [True, True], run_info), s)" 
  if "ld_initial_nexe_max_code_bytes s = 0" "addr_bits (ld_nap s) = 32" for s
proof -
  have v: "NaClElfImageValidateProgramHeaders (run_image [False, False]) 32 = Inr (run_image [True, True], run_info)"
    by (simp add: header_check_simps run_image_def run_info_def note_segment_def info_empty_def)
  have "me_vt (le_mem run_env) = run_vt" "le_memory run_env" by (simp_all add: run_env_def run_menv_def)
  then show ?thesis using that v run_image_read by (simp add: load_headers_def)
qed

definition run_laid :: "unit load_state" where
  "run_laid = set_layout (run_image [True, True]) run_info (run_start\<lparr>ld_stack_size := NaClRoundAllocPage (ld_stack_size run_start)\<rparr>)"

lemmas page_rounding = NaClTruncAllocPage_def NaClRoundAllocPage_def NaClRoundPage_def page_consts

lemma run_laid_simps:
  "ld_nap run_laid = (ld_nap run_start)\<lparr>static_text_end := 0x30000, break_addr := 0x50000, data_end := 0x50000, bundle_size := 32\<rparr>"
  "ld_rodata_start run_laid = 0x40000" "ld_data_start run_laid = 0" "ld_stack_size run_laid = 0x1000000" "ld_text_shm run_laid = None"
  "ld_initial_entry_pt run_laid = 0x20000" "ld_main_exe_prevalidated run_laid = False" "ld_use_shm_for_dynamic_text run_laid = True"
  "ld_nacl_syscall_addr run_laid = 0"
  by (simp_all add: run_laid_def run_start_def demo_load_def set_layout_def run_info_def layout_end_def page_rounding Let_def
      NACL_INSTR_BLOCK_SIZE_def NaClElfImageGetEntryPoint_def run_image_def demo_ehdr_def)

lemma run_checks:
  "NaClAddrIsValidEntryPt (ld_nap run_laid) (ld_initial_entry_pt run_laid)"
  "NaClCheckAddressSpaceLayoutSanity run_laid (info_rodata_end run_info) (info_data_end run_info) (layout_end run_info) = LOAD_OK"
  by (simp_all add: NaClAddrIsValidEntryPt_def NaClCheckAddressSpaceLayoutSanity_def run_laid_simps run_info_def layout_end_def
      page_rounding load_codes Let_def)

lemma run_mprotect: "NaClMprotect run_menv a n p nap = (0, nap\<lparr>requests := Host_mprotect a n p # requests nap\<rparr>)"
  by (simp add: NaClMprotect_def host_mprotect_def run_menv_def stack_env_def demo_menv_def)

lemma run_munmap: "host_munmap run_menv a n nap = (0, nap\<lparr>requests := Host_munmap a n # requests nap\<rparr>)"
  by (simp add: host_munmap_def run_menv_def stack_env_def demo_menv_def)

lemma run_mem [simp]: "le_mem run_env = run_menv"
  by (simp add: run_env_def)

abbreviation run_space :: u64 where "run_space \<equiv> 0x100000000000 + push_bit 30 40"

lemma moved_unit: "app_moved a b \<Longrightarrow> b = a\<lparr>fa_mem := fa_mem b, requests := requests b\<rparr>" for a b :: "unit mem_app"
  by (cases a, cases b, simp add: app_moved_def)

lemma run_alloc_space: "\<exists>nap'. NaClAllocateSpaceAslr run_env FOURGIG False nap = Inr (Inr run_space, nap')"
proof -
  have mm: "\<exists>n'. host_mmap run_menv a (push_bit 30 88) p (0x20 OR 0x4000 OR 2) (- 1) 0 n = (0, 0x100000000000, n')" for a p n
    by (simp add: host_mmap_def run_menv_def Let_def)
  obtain n1 where n1: "host_mmap run_menv 0 (push_bit 30 88) 0 (0x20 OR 0x4000 OR 2) (- 1) 0 nap = (0, 0x100000000000, n1)" using mm by blast
  have f: "find_address_loop run_env (push_bit 30 88) 0 NACL_VALGRIND_MAP_FAILED_COUNT nap = Inr (Some 0x100000000000, n1)"
    using n1 by (simp add: find_address_loop.simps random32_def) (simp add: run_env_def)
  have sz: "NACL_ADDRSPACE_LOWER_GUARD_SIZE + FOURGIG + NACL_ADDRSPACE_UPPER_GUARD_SIZE + push_bit 32 1 = push_bit 30 88"
    by (simp add: NACL_ADDRSPACE_LOWER_GUARD_SIZE_def NACL_ADDRSPACE_UPPER_GUARD_SIZE_def FOURGIG_def)
  have up: "(0x100000000000 + (push_bit 32 1 - 1)) AND NOT (push_bit 32 1 - 1) = (0x100000000000 :: u64)" by simp
  show ?thesis
    unfolding NaClAllocateSpaceAslr_def NaClAllocatePow2AlignedMemory_def NaClFindAddressSpace_def NaClFindAddressSpaceRandomized_def
      Let_def ALIGN_BITS_def sz
    by (simp add: f [simplified] up [simplified] unmap_or_die_def run_munmap echeck_def NACL_ADDRSPACE_LOWER_GUARD_SIZE_def del: ebind_eq_Inr)
qed

lemma run_alloc:
  assumes "addr_bits (ld_nap s) = 32" "ld_stack_size s = 0x1000000" "data_end (ld_nap s) = 0x50000"
  shows "\<exists>s'. NaClAllocAddrSpaceAslr run_env False s = Inr (LOAD_OK, s')"
proof -
  have lim: "addr_limit (ld_nap s) = FOURGIG" using assms(1) by (simp add: addr_limit_def FOURGIG_def)
  obtain n1 where n1: "NaClAllocateSpaceAslr run_env FOURGIG False (ld_nap s) = Inr (Inr run_space, n1)" using run_alloc_space by blast
  have "app_moved (ld_nap s) n1" using space_alloc_ok [OF n1 run_env_ok(2)] by blast
  then have f: "addr_limit (n1\<lparr>mem_start := run_space\<rparr>) = 0x100000000" "data_end (n1\<lparr>mem_start := run_space\<rparr>) = 0x50000"
    using moved_fields [of "ld_nap s" n1] assms by (simp_all add: addr_limit_def)
  have madv: "NaClMadvise run_env a n adv nap = (0, nap)" for a n adv nap by (simp add: NaClMadvise_def run_env_def)
  show ?thesis
    unfolding NaClAllocAddrSpaceAslr_def lim n1 ebind_simps prod.case sum.case Let_def f assms(2)
    by (simp add: page_rounding madv run_mprotect)
qed

lemma run_segments:
  assumes "addr_bits (ld_nap s) = 32" "space_ok (ld_nap s)" "static_text_end (ld_nap s) = 0x30000"
  shows "\<exists>s'. NaClElfImageLoad run_menv (run_image [True, True]) 7 s = Inr (LOAD_OK, s') \<and> ld_main_exe_prevalidated s'"
proof -
  let ?file = "\<lambda>x :: u64. ucast (drop_bit 16 x) :: u8"
  obtain s1 where s1: "load_segment run_menv 7 (demo_phdr PT_LOAD (PF_R OR PF_X) 0x10000 0x20000 0x10000 0x10000) s = Inr (LOAD_OK, s1)"
      "ld_main_exe_prevalidated s1"
    using text_segment_loaded [OF assms, where env = run_menv and ndp = 7 and scratch = "0x700000000000" and content = ?file]
    by (auto simp: run_menv_def stack_env_def demo_menv_def demo_env_def NaClDescIsSafeForMmap_def NACL_DESC_HOST_IO_def
        NaClPtrIsNegErrno_def simp del: upt_rec_numeral)
  then show ?thesis by (simp add: NaClElfImageLoad_def run_image_def demo_phdr_def)
qed

lemma run_shm:
  assumes "addr_bits (ld_nap s) = 32" "space_ok (ld_nap s)" "static_text_end (ld_nap s) = 0x30000" "ld_use_shm_for_dynamic_text s" "ld_rodata_start s = 0x40000"
  shows "\<exists>s'. NaClMakeDynamicTextShared run_env s = Inr (LOAD_OK, s') \<and> ld_text_shm s' = Some 8 \<and> mem_map (ld_nap s') = mem_map (ld_nap s)
    \<and> nd_refs (ld_nap s') = (nd_refs (ld_nap s))(8 \<mapsto> 1) \<and> mem_io_regions (ld_nap s') = mem_io_regions (ld_nap s)"
proof -
  have r: "NaClRoundAllocPage 0x30000 = 0x30000" by (simp add: page_rounding)
  have u: "NaClUserToSys nap 0x30000 = Inr (0x30000 + mem_start nap)" if "addr_bits nap = 32" for nap :: "unit mem_app"
    using that by (simp add: NaClUserToSys_Inr addr_limit_def)
  have l: "unat (addr_limit (ld_nap s)) = 0x100000000" using assms(1) by (simp add: addr_limit_def)
  then have "unat (0x30000 + mem_start (ld_nap s)) = 0x30000 + unat (mem_start (ld_nap s))"
    using unat_user_to_sys [OF assms(2), where u = "0x30000"] by simp
  then have nz: "0x30000 + mem_start (ld_nap s) \<noteq> 0" by (metis add_is_0 unat_0 zero_neq_numeral)
  show ?thesis
    unfolding NaClMakeDynamicTextShared_def make_shm_def Let_def assms(3,5) r
    using assms(1,4,5) nz by (simp add: u run_env_def run_menv_def stack_env_def demo_menv_def desc_map_def)
qed

lemma run_fill:
  assumes "static_text_end (ld_nap s) = 0x30000" "ld_rodata_start s = 0x40000" "ld_data_start s = 0" "text_shm (ld_nap s)"
  shows "\<exists>m. NaClFillEndOfTextRegion s = Inr (s\<lparr>ld_nap := (ld_nap s)\<lparr>fa_mem := m, static_text_end := 0x30000\<rparr>\<rparr>)"
  using assms by (simp add: NaClFillEndOfTextRegion_def Let_def NACL_HALT_SLED_SIZE_def page_rounding) blast

text \<open>What the rest of the run needs to know of the state in which the image is in place.\<close>

definition run_placed :: "unit load_state \<Rightarrow> bool" where
  "run_placed s \<longleftrightarrow> ld_rodata_start s = 0x40000 \<and> ld_data_start s = 0 \<and> ld_text_shm s = Some 8 \<and> ld_stack_size s = 0x1000000
     \<and> ld_nacl_syscall_addr s = 0
     \<and> (let nap = ld_nap s in addr_bits nap = 32 \<and> space_ok nap \<and> static_text_end nap = 0x30000 \<and> dynamic_text_start nap = 0x30000
         \<and> dynamic_text_end nap = 0x40000 \<and> break_addr nap = 0x50000 \<and> mem_io_regions nap = RLeaf \<and> vmentry (mem_map nap) = []
         \<and> vm_size (mem_map nap) = 5 \<and> nd_refs nap = [7 \<mapsto> 1, 8 \<mapsto> 1])"

lemma run_load_image:
  "\<exists>s'. load_image run_env (run_image [True, True]) 7 False run_laid = Inr (LOAD_OK, s') \<and> run_placed s'"
proof -
  let ?img = "run_image [True, True]"
  note st = run_laid_simps run_start_def demo_mem_def
  obtain s1 where r1: "NaClAllocAddrSpaceAslr run_env False run_laid = Inr (LOAD_OK, s1)"
    using run_alloc [of run_laid] by (auto simp: st)
  obtain mem where mem: "space_at mem" "s1 = run_laid\<lparr>ld_nap := ld_nap s1\<rparr>" "app_moved ((ld_nap run_laid)\<lparr>mem_start := mem\<rparr>) (ld_nap s1)"
    using alloc_space_ok [OF r1 run_env_ok(2) refl] by blast
  obtain nap1 where p: "NaClMprotect run_menv (mem_start (ld_nap s1) + ucast NACL_TRAMPOLINE_START)
      (NaClRoundAllocPage (data_end (ld_nap s1)) - ucast NACL_TRAMPOLINE_START) (1 OR 2) (ld_nap s1) = (0, nap1)"
    by (simp add: run_mprotect)
  have mv: "app_moved ((ld_nap run_laid)\<lparr>mem_start := mem\<rparr>) nap1" using mem(3) host_calls_moved(4) [OF p] app_moved_trans by blast
  note f = moved_fields [OF mv, simplified]
  let ?s = "s1\<lparr>ld_nap := nap1\<rparr>"
  obtain nap0 where s1: "s1 = run_laid\<lparr>ld_nap := nap0\<rparr>" using mem(2) by blast
  have sp: "space_ok nap1" by (rule space_at_ok [OF mem(1)]) (simp_all add: f, simp add: st)
  obtain s2 where r2: "NaClElfImageLoad run_menv ?img 7 ?s = Inr (LOAD_OK, s2)" "ld_main_exe_prevalidated s2"
    using run_segments [of ?s] sp by (auto simp: f) (auto simp: st)
  have lm: "load_moved ?s s2" using r2(1) segments_moved unfolding NaClElfImageLoad_def by blast
  then have mv2: "app_moved nap1 (ld_nap s2)" by (simp add: load_moved_def)
  note f2 = moved_fields [OF mv2] and l2 = load_fields [OF lm]
  have sp2: "space_ok (ld_nap s2)" using sp f2 by (simp add: space_ok_def)
  have use: "ld_use_shm_for_dynamic_text s2"
    using lm by (cases s2) (simp add: load_moved_def s1 st run_laid_def set_layout_def demo_load_def)
  have e: "addr_bits (ld_nap s2) = 32" "static_text_end (ld_nap s2) = 0x30000" "ld_rodata_start s2 = 0x40000" "ld_data_start s2 = 0"
    "ld_text_shm s2 = None" using f f2 l2 by (simp_all add: s1 run_laid_simps) (simp_all add: st)
  obtain s3 where r3: "NaClMakeDynamicTextShared run_env s2 = Inr (LOAD_OK, s3)" "ld_text_shm s3 = Some 8"
      "mem_map (ld_nap s3) = mem_map (ld_nap s2)" "nd_refs (ld_nap s3) = (nd_refs (ld_nap s2))(8 \<mapsto> 1)"
      "mem_io_regions (ld_nap s3) = mem_io_regions (ld_nap s2)"
    using run_shm [OF e(1) sp2 e(2) use e(3)] by blast
  have "app_fresh (\<lambda>n. if n = 7 then 1 else 0) {#} {#} ((ld_nap run_laid)\<lparr>mem_start := mem\<rparr>)"
    using run_fresh by (simp add: run_laid_simps app_fresh_def)
  then have fr: "app_fresh (\<lambda>n. if n = 7 then 1 else 0) {#} {#} (ld_nap s2)" by (simp only: fresh_moved [OF mv2] fresh_moved [OF mv])
  have sh: "\<forall>sz h n h'. le_shm_alloc run_env sz h = (Some n, h') \<longrightarrow> nd_refs (ld_nap s2) n = None"
    using f f2 by (simp add: run_env_def) (simp add: st)
  note d = MakeDynamicTextShared_ok [OF r3(1) fr sh e(5) r3(2)]
  obtain nap3 where s3: "s3 = s2\<lparr>ld_nap := nap3, ld_text_shm := Some 8\<rparr>" using d(6) by blast
  have "static_text_end (ld_nap s3) = 0x30000" "ld_rodata_start s3 = 0x40000" "ld_data_start s3 = 0" using d(10) e by (simp_all add: s3)
  from run_fill [OF this d(5)] obtain m4 where r4:
      "NaClFillEndOfTextRegion s3 = Inr (s3\<lparr>ld_nap := (ld_nap s3)\<lparr>fa_mem := m4, static_text_end := 0x30000\<rparr>\<rparr>)" by blast
  let ?s4 = "s3\<lparr>ld_nap := (ld_nap s3)\<lparr>fa_mem := m4, static_text_end := 0x30000\<rparr>\<rparr>"
  have pre: "ld_main_exe_prevalidated ?s4" using r2(2) by (simp add: s3)
  have keep: "ld_stack_size s2 = 0x1000000" "ld_nacl_syscall_addr s2 = 0"
    using lm by (cases s2, simp add: load_moved_def s1 st run_laid_def set_layout_def demo_load_def page_rounding)+
  have start: "dynamic_text_start (ld_nap s3) = 0x30000" using d(2) e by (simp add: page_rounding)
  have top: "dynamic_text_end (ld_nap s3) = 0x40000" using d(3) e by (simp add: text_top_def)
  have "break_addr (ld_nap s3) = 0x50000" "mem_io_regions (ld_nap s3) = RLeaf" "vmentry (mem_map (ld_nap s3)) = []"
    "vm_size (mem_map (ld_nap s3)) = 5" "nd_refs (ld_nap s3) = [7 \<mapsto> 1, 8 \<mapsto> 1]"
    using d(11) r3(3-5) f2 f
    by (simp_all add: run_laid_simps) (simp_all add: run_start_def demo_mem_def NaClVmmapCtor_def START_ENTRIES_def)
  moreover have "addr_bits (ld_nap s3) = 32" "space_ok (ld_nap s3)" using d(7,8) e(1) sp2 by (simp_all add: space_ok_def)
  ultimately have "run_placed ?s4" using e d(10) start top keep s3 by (simp add: run_placed_def space_ok_def)
  with pre show ?thesis
    unfolding load_image_def r1 run_mem if_loaded_def ebind_simps prod.case Let_def p r2(1) r3(1) r4 by simp
qed

lemma run_dispatch:
  assumes "ld_nacl_syscall_addr s = 0"
  shows "\<exists>s'. NaClMakeDispatchAddrs run_env s = Inr (True, s') \<and> ld_nacl_syscall_addr s' = 0x100000000000
    \<and> ld_tls_fast_path1_addr s' = 0x100000000008 \<and> ld_tls_fast_path2_addr s' = 0x100000000010"
proof -
  have "\<exists>n'. NaClPageAllocRandomized run_env NACL_MAP_PAGESIZE nap = ((0, 0x100000000000), n')" for nap
    by (simp add: NaClPageAllocRandomized_def numeral_eq_Suc NaClPageAllocInternalFlags_def random32_def host_mmap_def Let_def)
       (simp add: run_env_def run_menv_def NACL_MAP_PAGESIZE_def NACL_MAP_PAGESHIFT_def)
  then obtain n' where "NaClPageAllocRandomized run_env NACL_MAP_PAGESIZE (ld_nap s) = ((0, 0x100000000000), n')" by blast
  then show ?thesis using assms
    by (simp add: NaClMakeDispatchAddrs_def run_mprotect AddDispatchAddr_def)
qed

lemma run_trampoline:
  assumes "ld_nacl_syscall_addr s = 0"
  shows "\<exists>s'. NaClLoadTrampoline run_env s = Inr s'"
proof -
  obtain s1 where s1: "NaClMakeDispatchAddrs run_env s = Inr (True, s1)" "ld_nacl_syscall_addr s1 = 0x100000000000"
      "ld_tls_fast_path1_addr s1 = 0x100000000008" "ld_tls_fast_path2_addr s1 = 0x100000000010" using run_dispatch [OF assms] by blast
  have l: "of_nat (length (le_trampoline run_env)) \<le> NACL_INSTR_BLOCK_SIZE" by (simp add: run_env_def NACL_INSTR_BLOCK_SIZE_def)
  obtain m where m: "patch_trampolines run_env s1 (mem_start (ld_nap s1) + ucast NACL_SYSCALL_START_ADDR) num_syscalls
      (NaClFillTrampolineRegion (mem_start (ld_nap s1)) (fa_mem (ld_nap s1))) = Inr m"
  proof -
    have "ld_nacl_syscall_addr s1 \<noteq> 0" using s1(2) by simp
    from patch_all_Inr [OF this l] show thesis using that by blast
  qed
  show ?thesis using s1 m l by (simp add: NaClLoadTrampoline_def PatchOne_eq Let_def del: ebind_eq_Inr)
qed

definition run_counts :: "u64 \<Rightarrow> nat \<Rightarrow> int" where
  "run_counts k n = (if n = 7 then 1 else if n = 8 then int (unat k) else 0)"

lemma run_counts_eq: "nd_refs nap = [7 \<mapsto> 1, 8 \<mapsto> k] \<Longrightarrow> ref_counts nap = run_counts k" for nap :: "unit mem_app"
  by (auto simp: ref_counts_def run_counts_def fun_eq_iff)

lemma run_with_map:
  assumes nd: "nd_refs nap = [7 \<mapsto> 1, 8 \<mapsto> k]" "0 < k" and f: "f ((mem_map nap)\<lparr>desc_refs := run_counts k\<rparr>) = Inr (r, m)"
    and m: "desc_refs m = run_counts j" "0 < j"
  shows "with_map run_menv f nap = Inr (r, nap\<lparr>mem_map := m, nd_refs := [7 \<mapsto> 1, 8 \<mapsto> j]\<rparr>)"
proof -
  note c = run_counts_eq [OF nd(1)]
  have "\<not> list_ex (\<lambda>n. 2 ^ 64 \<le> desc_refs m n) (entry_descs m)"
    using m unsigned_less [of j, where 'a = int] by (auto simp: list_ex_iff run_counts_def split: if_splits)
  moreover have "0 < uint k" "0 < uint j" using nd(2) m(2) by (simp_all add: word_less_def)
  then have "(\<lambda>n. if desc_refs m n = run_counts k n then nd_refs nap n else if desc_refs m n \<le> 0 then None
      else Some (word_of_int (desc_refs m n))) = [7 \<mapsto> 1, 8 \<mapsto> j]"
    unfolding nd(1) m(1) by (intro ext) (auto simp: run_counts_def word_uint_eq_iff)
  then have "store_counts run_menv m nap = nap\<lparr>mem_map := m, nd_refs := [7 \<mapsto> 1, 8 \<mapsto> j]\<rparr>"
    by (simp add: store_counts_def c)
  ultimately show ?thesis using f by (simp add: with_map_def c)
qed

lemma run_add_region:
  assumes nd: "nd_refs nap = [7 \<mapsto> 1, 8 \<mapsto> k]" "0 < k" "0 < j" and d: "d = None \<and> j = k \<or> d = Some 8 \<and> j = k + 1 \<and> k = 1"
    and room: "length (vmentry (mem_map nap)) < vm_size (mem_map nap)"
  shows "add_region run_menv P n prot d fs nap = Inr (nap\<lparr>mem_map := (mem_map nap)
      \<lparr>vmentry := vmentry (mem_map nap) @ [NaClVmmapEntryMake P n prot 2 d 0 fs], is_sorted := False, desc_refs := run_counts j\<rparr>,
      nd_refs := [7 \<mapsto> 1, 8 \<mapsto> j]\<rparr>)"
proof -
  let ?m = "NaClVmmapAdd ((mem_map nap)\<lparr>desc_refs := run_counts k\<rparr>) P n prot 2 d 0 fs"
  have c: "desc_refs ?m = run_counts j"
    using d by (auto simp: NaClVmmapAdd_def vmmap_push_def Let_def NaClVmmapEntryMake_def desc_ref_def run_counts_def fun_eq_iff)
  have "with_map run_menv (\<lambda>m. Inr ((), NaClVmmapAdd m P n prot 2 d 0 fs)) nap
      = Inr ((), nap\<lparr>mem_map := ?m, nd_refs := [7 \<mapsto> 1, 8 \<mapsto> j]\<rparr>)"
    by (rule run_with_map [OF nd(1,2) _ c nd(3)]) simp
  moreover have "?m = (mem_map nap)
      \<lparr>vmentry := vmentry (mem_map nap) @ [NaClVmmapEntryMake P n prot 2 d 0 fs], is_sorted := False, desc_refs := run_counts j\<rparr>"
    using c room by (auto simp: NaClVmmapAdd_def vmmap_push_def Let_def)
  ultimately show ?thesis by (simp add: add_region_def NACL_ABI_MAP_PRIVATE_def)
qed

definition run_map :: "vmmap_entry list \<Rightarrow> u64 \<Rightarrow> unit mem_app \<Rightarrow> unit mem_app \<Rightarrow> bool" where
  "run_map es k nap0 nap \<longleftrightarrow> map_only nap0 nap \<and> vmentry (mem_map nap) = es \<and> vm_size (mem_map nap) = 5
     \<and> (es \<noteq> [] \<longrightarrow> \<not> is_sorted (mem_map nap)) \<and> nd_refs nap = [7 \<mapsto> 1, 8 \<mapsto> k] \<and> 0 < k"

lemma run_map_add:
  assumes m: "run_map es k nap0 nap" "length es < 5" and d: "d = None \<and> j = k \<or> d = Some 8 \<and> j = k + 1 \<and> k = 1"
  shows "\<exists>nap'. add_region run_menv P n prot d fs nap = Inr nap' \<and> run_map (es @ [NaClVmmapEntryMake P n prot 2 d 0 fs]) j nap0 nap'"
proof -
  have j: "0 < j" using d m(1) by (auto simp: run_map_def)
  have r: "nd_refs nap = [7 \<mapsto> 1, 8 \<mapsto> k]" "0 < k" "length (vmentry (mem_map nap)) < vm_size (mem_map nap)" "map_only nap0 nap"
    using m by (simp_all add: run_map_def)
  note a = run_add_region [OF r(1,2) j d r(3), of P n prot fs]
  have "map_only nap (nap\<lparr>mem_map := x, nd_refs := y\<rparr>)" for x y by (simp add: map_only_def)
  then show ?thesis unfolding a using map_only_trans [OF r(4)] m(1) j by (auto simp: run_map_def)
qed

lemma run_map_protect:
  assumes m: "run_map es k nap0 nap" "length es < 5" and sp: "space_ok nap0" "u < addr_limit nap0"
  shows "\<exists>nap'. protect_region run_menv (u + mem_start nap0) sz prot nap = Inr (LOAD_OK, nap')
    \<and> run_map (es @ [NaClVmmapEntryMake (drop_bit NACL_PAGESHIFT u) (drop_bit NACL_PAGESHIFT sz) prot 2 None 0 0]) k nap0 nap'"
proof -
  let ?n = "nap\<lparr>requests := Host_mprotect (u + mem_start nap0) sz prot # requests nap\<rparr>"
  have mo: "map_only nap0 nap" using m by (simp add: run_map_def)
  have "map_only nap ?n" by (simp add: map_only_def)
  then have m1: "run_map es k nap0 ?n" using m map_only_trans [OF mo] by (simp add: run_map_def)
  note f = map_only_fields [OF mo]
  have "space_ok ?n" "u < addr_limit ?n" using sp f by (simp_all add: space_ok_def addr_limit_def)
  from NaClSysToUser_of_sum [OF this] have su: "NaClSysToUser ?n (u + mem_start nap0) = Inr u" by (simp add: f)
  obtain nap' where "add_region run_menv (drop_bit NACL_PAGESHIFT u) (drop_bit NACL_PAGESHIFT sz) prot None 0 ?n = Inr nap'"
    "run_map (es @ [NaClVmmapEntryMake (drop_bit NACL_PAGESHIFT u) (drop_bit NACL_PAGESHIFT sz) prot 2 None 0 0]) k nap0 nap'"
    using run_map_add [OF m1 m(2), of None k] by blast
  then show ?thesis by (simp add: protect_region_def run_mprotect su)
qed

lemma run_protect:
  assumes l: "ld_rodata_start s = 0x40000" "ld_data_start s = 0" "ld_text_shm s = Some 8"
    and n: "addr_bits (ld_nap s) = 32" "space_ok (ld_nap s)" "static_text_end (ld_nap s) = 0x30000" "dynamic_text_start (ld_nap s) = 0x30000"
      "dynamic_text_end (ld_nap s) = 0x40000" "break_addr (ld_nap s) = 0x50000"
    and m: "run_map [] 1 (ld_nap s) (ld_nap s)"
  shows "\<exists>nap. run_map [NaClVmmapEntryMake 0 16 0 2 None 0 0, NaClVmmapEntryMake 16 32 5 2 None 0 0,
      NaClVmmapEntryMake 48 16 5 2 (Some 8) 0 0x10000, NaClVmmapEntryMake 64 16 1 2 None 0 0] 2 (ld_nap s) nap
    \<and> NaClMemoryProtection run_menv s = map_stack run_menv (s\<lparr>ld_nap := nap\<rparr>)"
proof -
  let ?n0 = "ld_nap s"
  have lim: "addr_limit ?n0 = 0x100000000" using n(1) by (simp add: addr_limit_def)
  have pg: "drop_bit NACL_PAGESHIFT (0x10000 :: u64) = 16" "drop_bit NACL_PAGESHIFT (0x20000 :: u64) = 32"
    "drop_bit NACL_PAGESHIFT (0x30000 :: u64) = 48" "drop_bit NACL_PAGESHIFT (0x40000 :: u64) = 64" by code_simp+
  have start: "ucast NACL_SYSCALL_START_ADDR = (0x10000 :: u64)" by (simp add: NACL_SYSCALL_START_ADDR_def NACL_PAGESHIFT_def)
  have rd: "NaClRoundPage 0x20000 = 0x20000" "NaClRoundPage (NaClRoundAllocPage 0x50000 - 0x40000) = 0x10000" by (simp_all add: page_rounding)
  obtain n1 where n1: "add_region run_menv 0 16 0 None 0 ?n0 = Inr n1" "run_map [NaClVmmapEntryMake 0 16 0 2 None 0 0] 1 ?n0 n1"
    using run_map_add [OF m, of None 1 0 16 0 0] by auto
  note f1 = map_only_fields [OF n1(2) [unfolded run_map_def, THEN conjunct1]]
  obtain n2 where n2: "protect_region run_menv (0x10000 + mem_start ?n0) 0x20000 5 n1 = Inr (LOAD_OK, n2)"
    "run_map [NaClVmmapEntryMake 0 16 0 2 None 0 0, NaClVmmapEntryMake 16 32 5 2 None 0 0] 1 ?n0 n2"
    using run_map_protect [OF n1(2) _ n(2), of "0x10000" "0x20000" 5] by (auto simp: lim pg)
  note f2 = map_only_fields [OF n2(2) [unfolded run_map_def, THEN conjunct1]]
  have u2: "NaClUserToSys n2 0x30000 = Inr (0x30000 + mem_start ?n0)" "NaClSysToUser n2 (0x30000 + mem_start ?n0) = Inr 0x30000"
    using NaClSysToUser_of_sum [of n2 "0x30000"] n(1,2) f2 by (simp_all add: NaClUserToSys_Inr addr_limit_def space_ok_def)
  obtain n3 where n3: "add_region run_menv 48 16 5 (Some 8) 0x10000 n2 = Inr n3"
    "run_map [NaClVmmapEntryMake 0 16 0 2 None 0 0, NaClVmmapEntryMake 16 32 5 2 None 0 0, NaClVmmapEntryMake 48 16 5 2 (Some 8) 0 0x10000] 2 ?n0 n3"
    using run_map_add [OF n2(2), of "Some 8" 2 48 16 5 "0x10000"] by auto
  note f3 = map_only_fields [OF n3(2) [unfolded run_map_def, THEN conjunct1]]
  have u3: "NaClUserToSys n3 0x40000 = Inr (0x40000 + mem_start ?n0)" "NaClSysToUser n3 (0x40000 + mem_start ?n0) = Inr 0x40000"
    using NaClSysToUser_of_sum [of n3 "0x40000"] n(1,2) f3 by (simp_all add: NaClUserToSys_Inr addr_limit_def space_ok_def)
  obtain n4 where n4: "protect_region run_menv (0x40000 + mem_start ?n0) 0x10000 1 n3 = Inr (LOAD_OK, n4)"
    "run_map [NaClVmmapEntryMake 0 16 0 2 None 0 0, NaClVmmapEntryMake 16 32 5 2 None 0 0, NaClVmmapEntryMake 48 16 5 2 (Some 8) 0 0x10000,
       NaClVmmapEntryMake 64 16 1 2 None 0 0] 2 ?n0 n4"
    using run_map_protect [OF n3(2) _ n(2), of "0x40000" "0x10000" 1] by (auto simp: lim pg)
  have p1: "protect_text run_menv s = Inr (LOAD_OK, s\<lparr>ld_nap := n2\<rparr>)"
    using n1(1) n2(1) f1 n(3) by (simp add: protect_text_def start pg rd Let_def add.commute del: ebind_eq_Inr)
  have p2: "protect_dynamic_text run_menv (s\<lparr>ld_nap := n2\<rparr>) = Inr (LOAD_OK, s\<lparr>ld_nap := n3\<rparr>)"
    using n3(1) f2 n(4,5) l(3) u2 by (simp add: protect_dynamic_text_def pg Let_def mman_consts del: ebind_eq_Inr)
  have p3: "protect_rodata run_menv (s\<lparr>ld_nap := n3\<rparr>) = Inr (LOAD_OK, s\<lparr>ld_nap := n4\<rparr>)"
    using n4(1) f3 n(6) l(1,2) u3 rd(2) by (simp add: protect_rodata_def on_app_def Let_def del: ebind_eq_Inr)
  have p4: "protect_data run_menv (s\<lparr>ld_nap := n4\<rparr>) = Inr (LOAD_OK, s\<lparr>ld_nap := n4\<rparr>)" using l(2) by (simp add: protect_data_def)
  show ?thesis using n4(2) by (auto simp: NaClMemoryProtection_def if_loaded_def p1 p2 p3 p4 simp del: ebind_eq_Inr)
qed

section \<open>The stack\<close>

text \<open>The stack, at the top of the address space.\<close>

abbreviation "run_entries \<equiv> [NaClVmmapEntryMake 0 16 0 2 None 0 0, NaClVmmapEntryMake 16 32 5 2 None 0 0,
      NaClVmmapEntryMake 48 16 5 2 (Some 8) 0 0x10000, NaClVmmapEntryMake 64 16 1 2 None 0 0]"

lemma run_trim: "trim_marked run_entries r = (run_entries, r)"
  by (subst trim_marked.simps) (simp add: NaClVmmapEntryMake_def)

lemma run_compact: "compact_marked 0 run_entries r = (run_entries, r)"
  by (simp add: compact_marked.simps NaClVmmapEntryMake_def)

lemma run_sorted: "c_qsort NaClVmmapCmpEntries run_entries = run_entries"
  by code_simp

lemma run_no_overlap: "vmmap_update_loop 0xff000 0x100000 run_entries = (run_entries, [])"
  by code_simp
lemma run_stack_entry:
  "NaClVmmapAddWithOverwrite \<lparr>vmentry = run_entries, vm_size = 5, is_sorted = False, desc_refs = r\<rparr>
     0xff000 0x1000 3 0x32 None 0 kMaxUsableFileSize
   = Inr \<lparr>vmentry = run_entries @ [NaClVmmapEntryMake 0xff000 0x1000 3 0x32 None 0 kMaxUsableFileSize], vm_size = 5, is_sorted = False, desc_refs = r\<rparr>"
proof -
  let ?e = "NaClVmmapEntryMake 0xff000 0x1000 3 0x32 None 0 kMaxUsableFileSize"
  have t: "trim_marked (run_entries @ [?e]) r = (run_entries @ [?e], r)" for r
    by (subst trim_marked.simps) (simp add: NaClVmmapEntryMake_def)
  have c: "compact_marked 0 (run_entries @ [?e]) r = (run_entries @ [?e], r)" for r
    by (simp add: compact_marked.simps NaClVmmapEntryMake_def)
  have d: "desc_ref (e_desc ?e) r = r" by (simp add: NaClVmmapEntryMake_def desc_ref_def)
  have s: "NaClVmmapMakeSorted \<lparr>vmentry = run_entries, vm_size = 5, is_sorted = False, desc_refs = r\<rparr>
    = Inr \<lparr>vmentry = run_entries, vm_size = 5, is_sorted = True, desc_refs = r\<rparr>"
    using run_trim run_compact run_sorted by (simp add: NaClVmmapMakeSorted_def NaClVmmapRemoveMarked_def)
  show ?thesis unfolding NaClVmmapAddWithOverwrite_def NaClVmmapUpdate_def s ebind_simps
    using run_no_overlap t c d by (simp add: echeck_def Let_def NaClVmmapAdd_def vmmap_push_def NaClVmmapRemoveMarked_def)
qed

abbreviation run_stack :: u64 where "run_stack \<equiv> 0xff000000"

lemma run_mmap_data:
  assumes "addr_bits nap = 32" "space_ok nap"
  shows "\<exists>nap'. mmap_data run_menv None (run_stack + mem_start nap) 0x1000000 3 0x32 0 kMaxUsableFileSize nap = Inr (None, nap')
    \<and> app_moved nap nap'"
proof -
  let ?a = "run_stack + mem_start nap"
  have lim: "unat (addr_limit nap) = 2 ^ 32" using assms(1) by (simp add: addr_limit_def)
  have u: "unat ?a = 0xff000000 + unat (mem_start nap)" using unat_user_to_sys [OF assms(2), of run_stack] lim by simp
  have top: "unat ?a + 0x1000000 \<le> 2 ^ 47" using assms unfolding u space_ok_def by simp
  then have small: "?a < push_bit 48 1" by (simp add: word_less_unat)
  have ne: "\<not> NaClPtrIsNegErrno ?a"
  proof
    assume "NaClPtrIsNegErrno ?a"
    then have "?a AND NOT 0xffff = NOT 0xffff" by (simp add: NaClPtrIsNegErrno_def)
    moreover have "?a AND NOT 0xffff \<le> ?a" by (rule word_and_le2)
    ultimately show False using small by (simp add: word_le_nat_alt word_less_nat_alt)
  qed
  have c: "NOT NACL_ABI_PROT_MASK AND 3 = 0" "NACL_ABI_MAP_FIXED AND 0x32 \<noteq> 0" "0x32 OR NACL_ABI_MAP_FIXED = 0x32"
    "(0x32 :: u32) AND NACL_ABI_MAP_ANONYMOUS \<noteq> 0" "0x32 AND NACL_ABI_MAP_SHARED = 0" "0x32 AND NACL_ABI_MAP_PRIVATE \<noteq> 0"
    "4 AND NaClProtMap (3 AND NACL_ABI_PROT_MASK) = 0" "NaClMapFlagMap 0x32 AND 0x10 \<noteq> 0" by code_simp+
  obtain n where h: "host_mmap run_menv ?a 0x1000000 (NaClProtMap (3 AND NACL_ABI_PROT_MASK) AND NOT 4) (NaClMapFlagMap 0x32) (- 1) 0 nap
      = (0, ?a, n)" "app_moved nap n"
    using top c(8) by (simp add: host_mmap_def run_menv_def Let_def app_moved_def)
  have "NaClHostDescMap run_menv None ?a 0x1000000 3 0x32 0 nap = Inr (?a, n)"
    using h(1) c unfolding NaClHostDescMap_def Let_def by (simp del: word_bw_lcs)
  then show ?thesis using h(2) ne c unfolding mmap_data_def NaClDescIoDescMapAnon_def NaClDescIoDescMap_def by simp
qed

lemma run_map_stack:
  assumes l: "ld_stack_size s = 0x1000000" and n: "addr_bits (ld_nap s) = 32" "space_ok (ld_nap s)" "dynamic_text_end (ld_nap s) = 0x40000"
      "mem_io_regions (ld_nap s) = RLeaf"
    and m: "run_map run_entries 2 nap0 (ld_nap s)"
  shows "\<exists>s'. map_stack run_menv s = Inr (LOAD_OK, s')"
proof -
  let ?nap = "ld_nap s" and ?f = "\<lambda>m. no_result (NaClVmmapAddWithOverwrite m 0xff000 0x1000 3 0x32 None 0 kMaxUsableFileSize)"
  have lim: "addr_limit ?nap = 0x100000000" using n(1) by (simp add: addr_limit_def)
  have st: "NaClTruncAllocPage (addr_limit ?nap - 0x1000000) = run_stack" unfolding lim by (simp add: page_rounding)
  obtain nap1 where d: "mmap_data run_menv None (run_stack + mem_start ?nap) 0x1000000 3 0x32 0 kMaxUsableFileSize ?nap = Inr (None, nap1)"
    "app_moved ?nap nap1" using run_mmap_data [OF n(1,2)] by blast
  note f = moved_fields [OF d(2)]
  have "NaClSysToUser nap1 (run_stack + mem_start ?nap) = Inr run_stack"
    using NaClSysToUser_of_sum [of nap1 run_stack] n(1,2) f by (simp add: addr_limit_def space_ok_def)
  moreover have "\<exists>nap2. with_map run_menv ?f nap1 = Inr ((), nap2)"
  proof -
    have k: "ref_counts nap1 = run_counts 2" using m f by (intro run_counts_eq) (simp add: run_map_def)
    have "(mem_map nap1)\<lparr>desc_refs := run_counts 2\<rparr> = \<lparr>vmentry = run_entries, vm_size = 5, is_sorted = False,
      desc_refs = run_counts 2\<rparr>"
      using m f by (cases "mem_map nap1") (simp add: run_map_def)
    with run_stack_entry [of "run_counts 2"] show ?thesis
      by (simp add: with_map_def k no_result_def entry_descs_def NaClVmmapEntryMake_def run_counts_def)
  qed
  moreover have "drop_bit NACL_PAGESHIFT run_stack = 0xff000" "drop_bit NACL_PAGESHIFT (0x1000000 :: u64) = 0x1000" by code_simp+
  ultimately have c: "\<exists>nap2. mmap_commit run_menv None run_stack (run_stack + mem_start ?nap) 0x1000000 0x1000000 3 0x32 0 kMaxUsableFileSize nap1
      = Inr (run_stack, nap2)"
    by (auto simp: mmap_commit_def)
  have r: "mmap_refused run_menv ?nap False None run_stack 0x1000000 0x1000000 = None"
    using n(3) by (simp add: mmap_refused_def lim NaClSysCommonAddrRangeContainsExecutablePages_def page_rounding)
  have p: "NaClVmIoPendingCheck_mu ?nap (ucast run_stack) (ucast (run_stack + 0x1000000 - 1)) = Inr ()"
    unfolding NaClVmIoPendingCheck_mu_def n(4) by code_simp
  have w: "0x32 OR NACL_ABI_MAP_FIXED = 0x32" "3 AND NOT NACL_ABI_PROT_EXEC = 3"
    "0x32 AND NACL_ABI_MAP_SHARED = 0" "0x32 AND NACL_ABI_MAP_PRIVATE \<noteq> 0" "3 AND NACL_ABI_PROT_EXEC = 0" "NACL_ABI_PROT_EXEC AND 3 = 0"
    "0x32 AND NACL_ABI_MAP_FIXED \<noteq> 0" "0x32 AND NACL_ABI_MAP_ANONYMOUS \<noteq> 0"
    "NACL_ABI_PROT_READ OR NACL_ABI_PROT_WRITE = 3" "NACL_ABI_MAP_PRIVATE OR NACL_ABI_MAP_ANONYMOUS OR NACL_ABI_MAP_FIXED = 0x32"
    "0x32 AND (NACL_ABI_MAP_FIXED OR NACL_ABI_MAP_SHARED OR NACL_ABI_MAP_PRIVATE OR NACL_ABI_MAP_ANONYMOUS) = 0x32" by code_simp+
  have u: "NaClUserToSys ?nap run_stack = Inr (run_stack + mem_start ?nap)" by (simp add: NaClUserToSys_Inr lim)
  have at: "\<exists>nap2. mmap_at run_menv None False run_stack 0x1000000 0x1000000 3 0x32 0 kMaxUsableFileSize kMaxUsableFileSize ?nap = Inr (run_stack, nap2)"
    using r p d(1) c w u by (simp add: mmap_at_def Let_def del: ebind_eq_Inr)
  have al: "mmap_align run_stack 0x1000000 0x32 0 False = Inr (Inr (run_stack, 0x1000000))" by code_simp
  have mn: "min 0x1000000 kMaxUsableFileSize = 0x1000000" by (simp add: kMaxUsableFileSize_def)
  have b: "\<exists>nap2. mmap_body run_menv None run_stack 0x1000000 3 0x32 0 ?nap = Inr (run_stack, nap2)"
    using at al w mn unfolding mmap_body_def mmap_is_code_def mmap_extent_def mmap_place_def by (simp del: ebind_eq_Inr)
  have e: "sint (ucast run_stack :: u32) = sint (0xff000000 :: u32)" by simp
  show ?thesis
    unfolding map_stack_def Let_def l st NaClSysMmapIntern_def w(9-11)
    using b w by (auto simp: mmap_cleanup_def NaClRefCountSafeUnref_def simp del: ebind_eq_Inr)
qed

section \<open>The whole run\<close>

lemma run_protected:
  assumes "run_placed s"
  shows "\<exists>s'. ebind (NaClLoadTrampoline run_env s) (NaClMemoryProtection run_menv) = Inr (LOAD_OK, s')
    \<and> ld_text_shm s' = Some 8 \<and> ld_rodata_start s' = 0x40000"
proof -
  note pl = assms [unfolded run_placed_def Let_def]
  obtain s1 where r1: "NaClLoadTrampoline run_env s = Inr s1" using run_trampoline [of s] pl by auto
  have mv: "tramp_moved s s1" by (rule trampoline_moved [OF r1])
  then have am: "app_moved (ld_nap s) (ld_nap s1)" by (simp add: tramp_moved_def)
  note f = moved_fields [OF am] and l = tramp_fields [OF mv]
  have st: "ld_stack_size s1 = 0x1000000" using mv pl by (cases s, cases s1) (simp add: tramp_moved_def)
  have sp: "space_ok (ld_nap s1)" using pl unfolding space_ok_def f(1,2) by blast
  have "run_map [] 1 (ld_nap s1) (ld_nap s1)" using pl f by (simp add: run_map_def)
  from run_protect [OF _ _ _ _ sp _ _ _ _ this] obtain nap where
      m: "run_map run_entries 2 (ld_nap s1) nap"
      and p: "NaClMemoryProtection run_menv s1 = map_stack run_menv (s1\<lparr>ld_nap := nap\<rparr>)"
    using pl f l by auto
  note g = map_only_fields [OF m [unfolded run_map_def, THEN conjunct1]]
  have "space_ok nap" using sp unfolding space_ok_def g(1,2) by blast
  then obtain s2 where s2: "map_stack run_menv (s1\<lparr>ld_nap := nap\<rparr>) = Inr (LOAD_OK, s2)"
    using run_map_stack [of "s1\<lparr>ld_nap := nap\<rparr>" "ld_nap s1"] st m pl f g by auto
  then have "nap_only s1 s2" using protect_only(5) nap_only_trans [OF nap_only_simps(2)] by blast
  then show ?thesis using r1 p s2 l pl nap_only_fields [of s1 s2] by (simp del: ebind_eq_Inr)
qed

lemma run_load:
  "\<exists>s'. NaClAppLoadFileAslr run_env 7 False run_start = Inr (LOAD_OK, s') \<and> ld_text_shm s' = Some 8 \<and> text_top s' = 0x40000"
proof -
  let ?s0 = "run_start\<lparr>ld_stack_size := NaClRoundAllocPage (ld_stack_size run_start)\<rparr>"
  have b: "\<not> NACL_MAX_ADDR_BITS < addr_bits (ld_nap run_start)"
    by (simp add: run_start_def demo_mem_def NACL_MAX_ADDR_BITS_def)
  have h: "load_headers run_env 7 ?s0 = Inr (Inr (run_image [True, True], run_info), ?s0)"
    by (rule run_headers) (simp_all add: run_start_def demo_load_def demo_mem_def)
  have y: "load_symbols run_env (run_image [True, True]) 7 run_laid = Inr run_laid" by (simp add: load_symbols_def run_env_def)
  obtain s3 where r3: "load_image run_env (run_image [True, True]) 7 False run_laid = Inr (LOAD_OK, s3)" "run_placed s3"
    using run_load_image by blast
  obtain s' where s': "ebind (NaClLoadTrampoline run_env s3) (NaClMemoryProtection run_menv) = Inr (LOAD_OK, s')"
    "ld_text_shm s' = Some 8" "ld_rodata_start s' = 0x40000" using run_protected [OF r3(2)] by blast
  have "NaClAppLoadFileAslr run_env 7 False run_start = Inr (LOAD_OK, s')"
    unfolding NaClAppLoadFileAslr_def if_not_P [OF b] h ebind_simps prod.case sum.case run_laid_def [symmetric] y
    using run_checks r3(1) s'(1) by (simp add: if_loaded_def)
  then show ?thesis using s' by (auto simp: text_top_def)
qed

end
