(* ===== verification/LoadClaims.thy ===== *)
theory LoadClaims
  imports LoadRun SysClaims
begin

text \<open>
  Properties of loading a program: where the address space is placed, what the trampolines hold, the state the loader leaves
  behind, and, with the properties of system calls, what a loaded program can do.
\<close>

lemma unit_loaded: "\<exists>s'. NaClAllocAddrSpaceAslr run_env False run_laid = Inr (LOAD_OK, s')"
  by (rule run_alloc) (simp_all add: run_laid_simps run_start_def demo_mem_def)

lemma run_shm_fresh: "\<forall>sz h n h'. le_shm_alloc run_env sz h = (Some n, h') \<longrightarrow> nd_refs (ld_nap run_start) n = None"
  by (simp add: run_env_def run_start_def)

lemma run_below_top:
  "\<forall>img h. NaClElfImageNew (le_memory run_env) (\<lambda>n off h. vPRead (me_vt (le_mem run_env)) 7 n off h) (host (ld_nap run_start)) = Inr (Inr img, h)
     \<longrightarrow> ends_below_top img"
proof -
  have "NaClElfImageNew (le_memory run_env) (\<lambda>n off h. vPRead (me_vt (le_mem run_env)) 7 n off h) (host (ld_nap run_start))
      = Inr (Inr (run_image [False, False]), ())"
    using run_image_read by (simp add: run_env_def run_menv_def)
  then show ?thesis by (simp add: ends_below_top_def run_image_def demo_phdr_def)
qed

lemma run_fits: "code_fits run_env"
  by (simp add: code_fits_def run_env_def)

section \<open>The properties\<close>

text \<open>C18: An address space that was allocated for a program starts at a multiple of 4 GiB and has 4 GiB of its own, and between it
  and the ends of the lower half of the host's addresses there is room for the 40 GiB of guard on either side. Of the program
  only the start of its memory and what the host put there are set.\<close>
theorem address_space_guarded:
  assumes "NaClAllocAddrSpaceAslr env aslr s = Inr (LOAD_OK, s')" "places_low (le_mem env)"
  shows "2 ^ 32 dvd unat (mem_start (ld_nap s')) \<and> 40 * 2 ^ 30 \<le> unat (mem_start (ld_nap s'))
    \<and> unat (mem_start (ld_nap s')) + unat (addr_limit (ld_nap s')) + 40 * 2 ^ 30 \<le> 2 ^ 47 \<and> addr_limit (ld_nap s') = FOURGIG
    \<and> s' = s\<lparr>ld_nap := ld_nap s'\<rparr> \<and> app_moved ((ld_nap s)\<lparr>mem_start := mem_start (ld_nap s')\<rparr>) (ld_nap s')"
proof -
  obtain mem where m: "space_at mem" "addr_limit (ld_nap s) = FOURGIG" "s' = s\<lparr>ld_nap := ld_nap s'\<rparr>"
    "app_moved ((ld_nap s)\<lparr>mem_start := mem\<rparr>) (ld_nap s')" using alloc_space_ok [OF assms refl] by blast
  then have "mem_start (ld_nap s') = mem" "addr_limit (ld_nap s') = FOURGIG"
    using moved_fields [OF m(4)] by (simp_all add: addr_limit_def)
  with m show ?thesis by (simp add: space_at_def FOURGIG_def)
qed

theorem address_space_guarded_witness:
  "\<exists>s'. NaClAllocAddrSpaceAslr run_env False run_laid = Inr (LOAD_OK, s') \<and> 2 ^ 32 dvd unat (mem_start (ld_nap s'))
     \<and> 40 * 2 ^ 30 \<le> unat (mem_start (ld_nap s'))"
proof -
  obtain s' where s': "NaClAllocAddrSpaceAslr run_env False run_laid = Inr (LOAD_OK, s')" using unit_loaded by blast
  from address_space_guarded [OF this run_env_ok(2)] s' show ?thesis by blast
qed

text \<open>C17: After the trampolines are loaded every 32-byte block of their region but the last holds the trampoline code, patched with
  the block's own address and the place of the routine it leads to, over halts, and the last block holds halts only. The
  routine is the entry of the service runtime, or, for the two calls that read a thread pointer, the fast path of that call.\<close>
theorem trampolines_installed:
  assumes "NaClLoadTrampoline env s = Inr s'" "code_fits env" "k < 65536"
  shows "let start = mem_start (ld_nap s') + 0x10000; n = k div 32
    in fa_mem (ld_nap s') (start + of_nat k)
      = (if n < 2047 then patched_code env (trampoline_target s' n) (start + of_nat (32 * n)) (\<lambda>x. NACL_HALT_OPCODE) (start + of_nat k)
         else NACL_HALT_OPCODE)"
  using trampoline_bytes [OF assms] by (simp only: Let_def)

theorem trampolines_installed_witness:
  "\<exists>s'. NaClLoadTrampoline run_env run_laid = Inr s' \<and> fa_mem (ld_nap s') (mem_start (ld_nap s') + 0x10000 + of_nat 65535) = 0xf4
     \<and> fa_mem (ld_nap s') (mem_start (ld_nap s') + 0x10000 + of_nat 0) = 0xc7"
proof -
  obtain s' where s': "NaClLoadTrampoline run_env run_laid = Inr s'" using run_trampoline [OF run_laid_simps(9)] by blast
  have "fa_mem (ld_nap s') (mem_start (ld_nap s') + 0x10000 + of_nat 65535) = 0xf4"
    using trampolines_installed [OF s' run_fits, of 65535] by (simp add: NACL_HALT_OPCODE_def Let_def)
  moreover have "fa_mem (ld_nap s') (mem_start (ld_nap s') + 0x10000 + of_nat 0) = 0xc7"
    using trampolines_installed [OF s' run_fits, of 0]
    by (simp add: patched_code_def store_mem_bytes write_bytes_def Let_def run_env_def unsigned_minus_1_eq_mask)
  ultimately show ?thesis using s' by blast
qed

text \<open>C4: A program that was loaded with an area for code at run time is ready to run: the memory map lists what is mapped, the
  descriptor table and the reference counts agree, the text is where the other components expect it, executable pages are
  pages of the text and not writable, and the address space has 4 GiB. The program comes from a file whose segments end
  below 4 GiB, and starts with empty tables.\<close>
theorem loaded_program_ready:
  assumes "app_fresh E S F (ld_nap s)" "ld_text_shm s = None" "env_ok (le_mem env)" "places_low (le_mem env)"
    and "\<forall>sz h n h'. le_shm_alloc env sz h = (Some n, h') \<longrightarrow> nd_refs (ld_nap s) n = None"
    and "\<forall>img h. NaClElfImageNew (le_memory env) (\<lambda>n off h. vPRead (me_vt (le_mem env)) ndp n off h) (host (ld_nap s)) = Inr (Inr img, h)
      \<longrightarrow> ends_below_top img"
    and "NaClAppLoadFileAslr env ndp aslr s = Inr (LOAD_OK, s')"
    and "ld_text_shm s' = Some n" "unat (text_top s') \<le> 2 ^ 31"
  shows "sys_ready (\<lambda>m. E m + (if m = n then 1 else 0)) S F (ld_nap s') \<and> exec_in_text (ld_nap s') \<and> addr_bits (ld_nap s') = 32"
  using loaded_ready [OF assms] by blast

theorem loaded_program_ready_witness:
  "\<exists>s'. NaClAppLoadFileAslr run_env 7 False run_start = Inr (LOAD_OK, s') \<and> exec_in_text (ld_nap s')
     \<and> sys_ready (\<lambda>m. (if m = 7 then 1 else 0) + (if m = 8 then 1 else 0)) {#} {#} (ld_nap s')"
proof -
  obtain s' where s': "NaClAppLoadFileAslr run_env 7 False run_start = Inr (LOAD_OK, s')" "ld_text_shm s' = Some 8" "text_top s' = 0x40000"
    using run_load by blast
  have none: "ld_text_shm run_start = None" by (simp add: run_start_def demo_load_def)
  have "unat (text_top s') \<le> 2 ^ 31" using s'(3) by simp
  from loaded_program_ready [OF run_fresh none run_env_ok run_shm_fresh run_below_top s'(1,2) this] s'(1) show ?thesis by blast
qed

text \<open>C3: From the file to the sandbox: once a program has been loaded, whatever its untrusted code does with its memory and its
  registers and whatever modelled system calls it makes, in any order, nothing outside its address space is written and the
  host is asked only for what is allowed.\<close>
theorem loaded_program_confined:
  assumes "app_fresh E S F (ld_nap s)" "ld_text_shm s = None" "env_ok (le_mem env)" "places_low (le_mem env)"
    and "\<forall>sz h n h'. le_shm_alloc env sz h = (Some n, h') \<longrightarrow> nd_refs (ld_nap s) n = None"
    and "\<forall>img h. NaClElfImageNew (le_memory env) (\<lambda>n off h. vPRead (me_vt (le_mem env)) ndp n off h) (host (ld_nap s)) = Inr (Inr img, h)
      \<longrightarrow> ends_below_top img"
    and "NaClAppLoadFileAslr env ndp aslr s = Inr (LOAD_OK, s')"
    and "ld_text_shm s' = Some n" "unat (text_top s') \<le> 2 ^ 31"
    and "app st = ld_nap s'" "sandbox_run unmodelled henv st st'"
  shows "(\<forall>x. fa_mem (app st') x \<noteq> fa_mem (app st) x \<longrightarrow> NaClIsUserAddr (app st) x)
    \<and> (\<exists>rs. requests (app st') = rs @ requests (app st) \<and> list_all (request_ok (he_mem henv) (app st)) rs)
    \<and> sys_ready (\<lambda>m. E m + (if m = n then 1 else 0)) S F (app st')"
proof -
  note r = loaded_ready [OF assms(1-9)]
  have "sys_ready (\<lambda>m. E m + (if m = n then 1 else 0)) S F (app st)" "addr_bits (app st) = 32" using r(1,3) assms(10) by simp_all
  from run_ok [OF assms(11) this] show ?thesis by (simp add: call_allowed_def asks_def)
qed

theorem loaded_program_confined_witness:
  "\<exists>s' st'. NaClAppLoadFileAslr run_env 7 False run_start = Inr (LOAD_OK, s')
     \<and> sandbox_run (\<lambda>_. undefined) demo_henv (demo_sys\<lparr>app := ld_nap s'\<rparr>) st' \<and> r_rsp (user (natp st')) = 0x300
     \<and> sys_ready (\<lambda>m. (if m = 7 then 1 else 0) + (if m = 8 then 1 else 0)) {#} {#} (app st')"
proof -
  obtain s' where s': "NaClAppLoadFileAslr run_env 7 False run_start = Inr (LOAD_OK, s')" "ld_text_shm s' = Some 8" "text_top s' = 0x40000"
    using run_load by blast
  let ?st = "demo_sys\<lparr>app := ld_nap s'\<rparr>"
  let ?st' = "?st\<lparr>app := (ld_nap s')\<lparr>fa_mem := fa_mem (ld_nap s')\<rparr>, natp := (natp ?st)\<lparr>user := (user (natp ?st))\<lparr>r_rsp := 0x300\<rparr>\<rparr>\<rparr>"
  have run: "sandbox_run (\<lambda>_. undefined) demo_henv ?st ?st'"
    using Untrusted [OF Start, of "?st" "fa_mem (ld_nap s')"] by (simp add: demo_sys_def)
  have none: "ld_text_shm run_start = None" by (simp add: run_start_def demo_load_def)
  have "unat (text_top s') \<le> 2 ^ 31" "app ?st = ld_nap s'" using s'(3) by simp_all
  from loaded_program_confined [OF run_fresh none run_env_ok run_shm_fresh run_below_top s'(1,2) this run] s'(1) run show ?thesis
    by (intro exI [of _ s'] exI [of _ "?st'"]) simp
qed

end
