(* ===== verification/Spec2Isabelle.thy ===== *)
theory Spec2Isabelle
  imports VmmapClaims DynLibClaims DynArray IntervalClaims FdClaims DynCodeClaims MemClaims SysClaims FutexClaims PathClaims LoadClaims
begin

text \<open>
  Native Client's trusted runtime, with the library that sandboxes a C library inside a process (\<open>dyn_ldr\<close>), for Linux on
  x86-64. The sources are under \<open>src/native_client/src/trusted\<close>; file names below are relative to it, and to
  \<open>service_runtime\<close> where no directory is given.

  The program. The loader (\<open>sel_ldr_standard.c\<close>, \<open>elf_util.c\<close>) places a 4 GiB address space between guards, loads the segments of
  an executable and fills the trampoline region, the only way from untrusted code into the runtime. A call through a trampoline
  reaches the hook (\<open>nacl_syscall_hook.c\<close>), which finds the call's decoder in a table and returns to an aligned address inside
  the sandbox. The calls work on the state that \<open>struct NaClApp\<close> holds: the memory map (\<open>sel_mem.c\<close>), the table of descriptors
  with their reference counts, the ranges with input or output in progress, the text area with its table of regions. In the sandboxing
  library an application calls functions inside such an address space and takes callbacks from them, on a stack that both share.

  Conventions. A C structure is a record, an enumeration or a union a datatype, an integer a word of its width; \<open>int\<close> stands for a
  signed value where no operation of the source can overflow. Code that may abort has the type \<open>'a exec\<close>, which is \<open>Inl\<close> of the cause
  (\<open>LOG_FATAL\<close>, a failed \<open>CHECK\<close>, a null or wild pointer, a fault on user memory that the host protects) or \<open>Inr\<close> of the result; error
  codes of the source are part of the result. State is passed explicitly. The host (its calls, its clocks, the validator, the methods of descriptors, the
  assembly that switches stacks) is a record of functions over a state of type \<open>'h\<close> that nothing else inspects; what the proofs need of
  it is a named hypothesis (\<open>host_ok\<close>, \<open>env_ok\<close>, \<open>places_low\<close>, \<open>shm_limit\<close>, \<open>keeps_length\<close>, \<open>host_good\<close>, \<open>code_fits\<close>), and every
  property that has one is applied to a concrete host in its witness. Each request for memory that a call makes of the host
  is kept in a list (\<open>requests\<close>), so that what was asked for can be stated: data, the validator's view of a file, and for code loaded at run time
  also the writable view of the text's shared memory, the protection of its pages when they become visible and the removal of the view.
  Memory is a function from 64-bit addresses to bytes. Calls run one at a time; locks that only
  guard a call are left out, and where interleaving matters (futexes, nested calls, deletion of code, untrusted code between
  calls) the runs are sequences of steps.

  Faults. A check of a user address is against the bounds of the sandbox only, so a copy of the runtime may meet a page that is not mapped or
  that the user has protected (\<open>nacl_copy.h\<close> says so). The parameter \<open>access_faults\<close> tells for each state of the host which bytes fault when trusted
  code loads or stores them; \<open>user_access\<close> (\<open>FdTable\<close>) turns such a fault into \<open>Access_fault\<close> in every copy from and to the user, in what a
  method of a descriptor brings back for a buffer of the user, and where \<open>brk\<close> sets its bytes to zero. \<open>faulting\<close> says that some byte can fault, and \<open>stopped\<close> names the two
  ways in which a call that is free of other errors does not return. Total are: the loads of the hook from the stack that
  the trampoline has just written, the fills of memory that the loader has just mapped, the accesses of
  the sandboxing library to the stack it shares (\<open>DynMem\<close>), and the writes to the dynamic text through the view
  mapped for them. Removing that view is taken not to fail, and a request for text changes nothing in the state of the host.

  The theories, by component:

  \<^item> \<open>Prelude\<close>, \<open>CStdlib\<close>: words, \<open>exec\<close>, \<open>qsort\<close> and \<open>bsearch\<close> with a comparison callback (locales \<open>sort_callback\<close>, \<open>search_table\<close>).
  \<^item> \<open>AddrSpace\<close>: page rounding and the translation of addresses (\<open>sel_util-inl.h\<close>, \<open>sel_ldr-inl.h\<close>), with \<open>space_ok\<close>, the placement that
    makes translation exact.
  \<^item> \<open>Vmmap\<close> models every operation of the memory map. \<open>VmmapSpec\<close> gives the map's meaning, a partial function from pages to attributes;
    \<open>VmmapRefine\<close>, \<open>VmmapLoops\<close>, \<open>VmmapProps\<close>, \<open>VmmapSearch\<close> and \<open>VmmapProt\<close> relate each loop and operation to it. \<open>VmmapTop\<close> states the interface
    \<open>page_map\<close> and interprets it; \<open>VmmapClaims\<close> has the properties and two flaws of the operations.
  \<^item> \<open>DynArray\<close>: the growable table behind descriptors and threads (\<open>dyn_array.c\<close>), an instance of \<open>slot_table\<close>; the result \<open>growth\<close> of its
    doubling loop keeps the failure of the source apart from a loop that is still running.
  \<^item> \<open>IntervalList\<close>, \<open>IntervalTree\<close>, \<open>IntervalTreeSpec\<close>, \<open>IntervalClaims\<close>: the two interval multisets (\<open>interval_multiset\<close>); both are
    instances of \<open>interval_multiset\<close>, the tree through its sorted list of end points, its balance and its counts of open intervals.
  \<^item> \<open>DynMem\<close>, \<open>DynLdr\<close>, \<open>DynCall\<close>: the sandboxing library (\<open>dyn_ldr/dyn_ldr_lib.c\<close> and its headers) and its two system calls. \<open>DynProps\<close> and \<open>DynStack\<close> prove
    the layout of a call's stack and the invariant of nested calls and callbacks, an inductive step relation; the properties are in \<open>DynClaims\<close>
    and \<open>DynLibClaims\<close>.
  \<^item> \<open>FdTable\<close>, \<open>FdCalls\<close>: descriptor and thread tables, copying to and from the user, and the calls of \<open>sys_fdio.c\<close>, \<open>sys_parallel_io.c\<close> and
    \<open>sys_random.c\<close>. \<open>FdInv\<close> states the invariant of reference counts; \<open>FdContract\<close> is the contract \<open>desc_body\<close> of a call that works while it
    holds a descriptor, interpreted for each of them; \<open>FdRun\<close> and \<open>FdClaims\<close> are about programs of calls.
  \<^item> \<open>CodeRegions\<close>, \<open>DynCode\<close>: the table of regions (\<open>region_table\<close>) and code loaded, changed and deleted at run time (\<open>nacl_text.c\<close>).
    \<open>DynCodeDelete\<close>, \<open>DynCodePages\<close>, \<open>DynCodeCreate\<close> and \<open>CodeFrame\<close> hold what the calls do and what they leave
    alone, \<open>DynCodeClaims\<close> the properties.
  \<^item> \<open>HostMap\<close>, \<open>SysMemory\<close>, \<open>SysMmap\<close>: mapping memory of the host, and \<open>brk\<close>, \<open>mmap\<close>, \<open>munmap\<close>, \<open>mprotect\<close> (\<open>sys_memory.c\<close>). \<open>MemInv\<close> has the invariant
    \<open>mem_inv\<close> and the contract \<open>map_op\<close> of an operation on the map; \<open>MemCode\<close>, \<open>MemUnmap\<close>, \<open>MemProtect\<close>, \<open>MemMmap\<close>, \<open>MemMmapRun\<close>, \<open>MemFaults\<close> and \<open>MemBreak\<close> take the calls one
    by one; \<open>MemCalls\<close> and \<open>MemClaims\<close> compose them and relate each call to what it does to pages.
  \<^item> \<open>FutexList\<close>, \<open>FutexClaims\<close>: the list of waiting threads of \<open>sys_futex.c\<close> as a store of linked nodes, and any interleaving of
    threads that wait, wake and are resumed. This is the branch for hosts other than Linux; the calls on Linux, which pass to the host's
    futex, are in \<open>SysMisc\<close>.
  \<^item> \<open>Paths\<close>, \<open>PathHost\<close>, \<open>SysPaths\<close>, \<open>SysPathSafe\<close>, \<open>PathClaims\<close>: canonical paths (\<open>filename_util.cc\<close>), the mounted root directory
    (\<open>sel_ldr_filename.cc\<close>), the calls of \<open>sys_filename.c\<close>, and that their host calls stay below the root.
  \<^item> \<open>SysSync\<close>, \<open>SysMisc\<close>, \<open>SysList\<close>, \<open>SysTable\<close>, \<open>SysHook\<close>: the remaining calls of \<open>nacl_syscall_common.c\<close>, \<open>sys_clock.c\<close>, \<open>sys_exception.c\<close> and
    \<open>sys_list_mappings.c\<close>, the table with its 87 entries, and the hook. \<open>SysContract\<close> is the contract of a handler; \<open>SysSafe\<close> proves it for each
    modelled call; \<open>SysClaims\<close> is about a whole run, in which untrusted code and calls alternate.
  \<^item> \<open>ElfImage\<close>, \<open>ElfSymbols\<close>, \<open>ElfLoad\<close>, \<open>LoadSpace\<close>, \<open>Trampolines\<close>, \<open>AppLoad\<close>: the loader. \<open>ElfProps\<close> is about the checks of headers, \<open>LoadFrames\<close> about what each
    step leaves alone, \<open>LoadMap\<close> and \<open>LoadReady\<close> about the memory map that is built and the invariant \<open>sys_ready\<close> of the calls, which it ends
    in. \<open>TrampolineBytes\<close> computes the trampolines; \<open>LoadRun\<close> is the run of one program, from the bytes of its file; the properties are in
    \<open>ElfClaims\<close> and \<open>LoadClaims\<close>, where \<open>loaded_program_confined\<close> joins loader and calls: a program that was loaded is confined.

  Bounds. Loops over lists are structural, and the other loops have a measure (the search for an address space,
  \<open>find_address_loop\<close>, counts its tries and the failures of the host down, as the source does), apart from two. \<open>DynArraySet\<close> doubles
  a size until it is large enough: \<open>grow_space\<close> has fuel 65, more than a 64-bit size can double, and ends unless the size is 0, which
  \<open>DynArrayCtor\<close> never constructs (\<open>table_growth_ends\<close>). A wake-up over a list of waiters is a \<open>partial_function\<close>; for a well-formed list it is proved to return.
  Properties of code loaded at run time take the text to end at 2 GiB or below, where the calls' 32-bit results are not negative,
  those of a run of calls that no call loads code up to exactly 4 GiB, and those of a loaded file that its segments end below
  4 GiB: beyond these the code behaves differently, which the findings of the manifest describe. The ends of segments are noted in
  32 bits, so one that ends at 4 GiB is noted with the end 0 (\<open>program_headers_checked\<close> states the noted ends modulo 2^32).

  Not modelled: the creation and the end of threads, whose stacks and registers the host and assembly set up; the start-up of the
  program (\<open>sel_main.c\<close>), which reads options and calls what is modelled; messages between programs (\<open>sys_imc.c\<close>) and the objects behind
  descriptors, which call the host and are parameters here; the validators, generated tables that are a parameter with the
  documented interface; other hosts and processors, a sandbox that starts at address 0, the debugger, signals and fault injection.
  The calls of these parts in the table are a parameter, and the runs of the properties make none of them (\<open>usual_pending\<close>).
\<close>

end
